(* ===== verification/Prelude.thy ===== *)
theory Prelude
  imports Main "HOL-Library.Word"
begin

text \<open>
  Shared vocabulary of the development: the outcome of a Rust function (\<open>Ok\<close>, \<open>Err\<close> or a
  panic), fallible sequencing for pure code (\<open>let_try\<close>, Rust's \<open>?\<close>) and for code that mutates
  borrowed state (\<open>run_try\<close>), the ranges of the machine integers, and the value of a bit list
  read most significant bit first.
\<close>

unbundle bit_operations_syntax

named_theorems outcome_simps
named_theorems range_simps

section \<open>Outcomes\<close>

text \<open>
  A call of Rust code either returns \<open>Ok\<close>, returns \<open>Err\<close>, or panics (an index out of bounds, a
  failed \<open>assert!\<close> or \<open>expect\<close>, an arithmetic overflow in a build with overflow checks).
\<close>

datatype ('e, 'a) result = Ok 'a | Err 'e | Panic

definition let_try :: "('e, 'a) result \<Rightarrow> ('a \<Rightarrow> ('e, 'b) result) \<Rightarrow> ('e, 'b) result" where
  "let_try m f = (case m of Ok x \<Rightarrow> f x | Err e \<Rightarrow> Err e | Panic \<Rightarrow> Panic)"

lemma let_try_simps [simp]:
  "let_try (Ok x) f = f x" "let_try (Err e) f = Err e" "let_try Panic f = Panic"
  by (simp_all add: let_try_def)

lemma let_try_cong [fundef_cong]:
  "m = m' \<Longrightarrow> (\<And>x. m' = Ok x \<Longrightarrow> f x = f' x) \<Longrightarrow> let_try m f = let_try m' f'"
  by (auto simp: let_try_def split: result.split)

lemma let_try_eq_Ok [outcome_simps]:
  "let_try m f = Ok y \<longleftrightarrow> (\<exists>x. m = Ok x \<and> f x = Ok y)"
  by (cases m) auto

lemma let_try_eq_Err:
  "let_try m f = Err e \<longleftrightarrow> m = Err e \<or> (\<exists>x. m = Ok x \<and> f x = Err e)"
  by (cases m) auto

lemma let_try_eq_Panic:
  "let_try m f = Panic \<longleftrightarrow> m = Panic \<or> (\<exists>x. m = Ok x \<and> f x = Panic)"
  by (cases m) auto

lemma let_try_assoc:
  "let_try (let_try m f) g = let_try m (\<lambda>x. let_try (f x) g)"
  by (cases m) auto

lemma let_try_no_panic:
  "m \<noteq> Panic \<Longrightarrow> (\<And>x. m = Ok x \<Longrightarrow> f x \<noteq> Panic) \<Longrightarrow> let_try m f \<noteq> Panic"
  by (cases m) auto

definition map_err :: "('e \<Rightarrow> 'f) \<Rightarrow> ('e, 'a) result \<Rightarrow> ('f, 'a) result" where
  "map_err g m = (case m of Ok x \<Rightarrow> Ok x | Err e \<Rightarrow> Err (g e) | Panic \<Rightarrow> Panic)"

lemma map_err_simps [simp]:
  "map_err g (Ok x) = Ok x" "map_err g (Err e) = Err (g e)" "map_err g Panic = Panic"
  by (simp_all add: map_err_def)

definition ok_or :: "'e \<Rightarrow> 'a option \<Rightarrow> ('e, 'a) result" where
  "ok_or e x = (case x of Some v \<Rightarrow> Ok v | None \<Rightarrow> Err e)"

lemma ok_or_simps [simp]: "ok_or e (Some v) = Ok v" "ok_or e None = Err e"
  by (simp_all add: ok_or_def)

lemma ok_or_eq_Ok [simp]: "ok_or e x = Ok v \<longleftrightarrow> x = Some v"
  by (cases x) auto

lemma ok_or_no_panic [simp]: "ok_or e x \<noteq> Panic"
  by (cases x) auto

text \<open>A \<open>for\<close> loop whose body may fail.\<close>

fun each_try :: "('i \<Rightarrow> 's \<Rightarrow> ('e, 's) result) \<Rightarrow> 'i list \<Rightarrow> 's \<Rightarrow> ('e, 's) result" where
  "each_try f [] s = Ok s"
| "each_try f (i # is) s = let_try (f i s) (each_try f is)"

lemma each_try_append:
  "each_try f (is @ js) s = let_try (each_try f is s) (each_try f js)"
proof (induction "is" arbitrary: s)
  case (Cons i "is")
  then show ?case by (cases "f i s") simp_all
qed simp

lemma each_try_map: "each_try f (map g is) = each_try (\<lambda>i. f (g i)) is"
proof
  show "each_try f (map g is) s = each_try (\<lambda>i. f (g i)) is s" for s
  proof (induction "is" arbitrary: s)
    case (Cons i "is")
    then show ?case by (cases "f (g i) s") simp_all
  qed simp
qed

lemma each_try_concat: "each_try f (concat iss) = each_try (each_try f) iss"
proof
  show "each_try f (concat iss) s = each_try (each_try f) iss s" for s
  proof (induction iss arbitrary: s)
    case (Cons "is" iss)
    then show ?case by (cases "each_try f is s") (simp_all add: each_try_append)
  qed simp
qed

lemma each_try_invariant:
  assumes "\<And>i s t. i \<in> set is \<Longrightarrow> P s \<Longrightarrow> f i s = Ok t \<Longrightarrow> P t"
  shows "P s \<Longrightarrow> each_try f is s = Ok t \<Longrightarrow> P t"
  using assms by (induction "is" arbitrary: s) (auto simp: let_try_eq_Ok)

lemma each_try_no_panic:
  assumes "\<And>i s. i \<in> set is \<Longrightarrow> P s \<Longrightarrow> f i s \<noteq> Panic"
    and "\<And>i s t. i \<in> set is \<Longrightarrow> P s \<Longrightarrow> f i s = Ok t \<Longrightarrow> P t"
  shows "P s \<Longrightarrow> each_try f is s \<noteq> Panic"
  using assms
proof (induction "is" arbitrary: s)
  case (Cons i "is")
  have "each_try f is t \<noteq> Panic" if "f i s = Ok t" for t
  proof (rule Cons.IH)
    show "P t" by (rule Cons.prems(3) [OF _ Cons.prems(1) that]) simp
    show "f j u \<noteq> Panic" if "j \<in> set is" "P u" for j u using Cons.prems(2) that by simp
    show "P v" if "j \<in> set is" "P u" "f j u = Ok v" for j u v
      by (rule Cons.prems(3) [OF _ that(2,3)]) (simp add: that(1))
  qed
  with Cons.prems(1,2) show ?case by (auto simp: let_try_eq_Panic)
qed simp

text \<open>
  \<open>yields r Q\<close>: the outcome of pure code is no panic, and a value it returns satisfies \<open>Q\<close>.
\<close>

definition yields :: "('e, 'a) result \<Rightarrow> ('a \<Rightarrow> bool) \<Rightarrow> bool" where
  "yields r Q \<longleftrightarrow> (case r of Ok v \<Rightarrow> Q v | Err e \<Rightarrow> True | Panic \<Rightarrow> False)"

lemma yields_simps [simp]: "yields (Ok v) Q = Q v" "yields (Err e) Q" "\<not> yields Panic Q"
  by (simp_all add: yields_def)

lemma yieldsD: "yields r Q \<Longrightarrow> r \<noteq> Panic" "yields r Q \<Longrightarrow> r = Ok v \<Longrightarrow> Q v"
  by (auto simp: yields_def)

lemma yieldsI: "r \<noteq> Panic \<Longrightarrow> (\<And>v. r = Ok v \<Longrightarrow> Q v) \<Longrightarrow> yields r Q"
  by (cases r) simp_all

lemma yields_bind:
  "yields m P \<Longrightarrow> (\<And>v. m = Ok v \<Longrightarrow> P v \<Longrightarrow> yields (f v) Q) \<Longrightarrow> yields (let_try m f) Q"
  by (cases m) simp_all

lemma yields_bind2:
  "yields m (\<lambda>p. case p of (a, b) \<Rightarrow> P a b) \<Longrightarrow> (\<And>a b. m = Ok (a, b) \<Longrightarrow> P a b \<Longrightarrow> yields (f a b) Q) \<Longrightarrow>
    yields (let_try m (\<lambda>(a, b). f a b)) Q"
  by (erule yields_bind) (auto split: prod.splits)

lemma yields_mono: "yields r P \<Longrightarrow> (\<And>v. P v \<Longrightarrow> Q v) \<Longrightarrow> yields r Q"
  by (cases r) simp_all

lemma yields_if: "(b \<Longrightarrow> yields r Q) \<Longrightarrow> (\<not> b \<Longrightarrow> yields s Q) \<Longrightarrow> yields (if b then r else s) Q"
  by simp

lemma yields_ok_or: "(\<And>v. x = Some v \<Longrightarrow> Q v) \<Longrightarrow> yields (ok_or e x) Q"
  by (cases x) simp_all

lemma yields_each:
  assumes "\<And>i s. i \<in> set is \<Longrightarrow> P s \<Longrightarrow> yields (f i s) P"
  shows "P s \<Longrightarrow> yields (each_try f is s) P"
  using assms
proof (induction "is" arbitrary: s)
  case (Cons i "is")
  have "yields (f i s) P" using Cons.prems by simp
  then show ?case unfolding each_try.simps by (rule yields_bind) (use Cons in simp)
qed simp

section \<open>Actions on borrowed state\<close>

text \<open>
  Code that takes \<open>&mut\<close> arguments is a function of the state to the outcome and the state left
  behind; the state survives an \<open>Err\<close>, as a Rust borrow does.
\<close>

type_synonym ('s, 'e, 'a) action = "'s \<Rightarrow> ('e, 'a) result \<times> 's"

definition give :: "'a \<Rightarrow> ('s, 'e, 'a) action" where
  "give x s = (Ok x, s)"

definition fail :: "'e \<Rightarrow> ('s, 'e, 'a) action" where
  "fail e s = (Err e, s)"

definition pure_try :: "('e, 'a) result \<Rightarrow> ('s, 'e, 'a) action" where
  "pure_try r s = (r, s)"

definition run_try ::
  "('s, 'e, 'a) action \<Rightarrow> ('a \<Rightarrow> ('s, 'e, 'b) action) \<Rightarrow> ('s, 'e, 'b) action" where
  "run_try m f s =
     (case m s of (Ok x, t) \<Rightarrow> f x t | (Err e, t) \<Rightarrow> (Err e, t) | (Panic, t) \<Rightarrow> (Panic, t))"

lemma action_simps [simp]:
  "give x s = (Ok x, s)" "fail e s = (Err e, s)" "pure_try r s = (r, s)"
  by (simp_all add: give_def fail_def pure_try_def)

lemma run_try_eq_Ok [outcome_simps]:
  "run_try m f s = (Ok y, u) \<longleftrightarrow> (\<exists>x t. m s = (Ok x, t) \<and> f x t = (Ok y, u))"
  by (auto simp: run_try_def split: prod.split result.split)

lemma run_try_step:
  "m s = (Ok x, t) \<Longrightarrow> run_try m f s = f x t"
  "m s = (Err e, t) \<Longrightarrow> run_try m f s = (Err e, t)"
  "m s = (Panic, t) \<Longrightarrow> run_try m f s = (Panic, t)"
  by (simp_all add: run_try_def)

lemma run_try_give [simp]: "run_try (give x) f = f x"
  by (rule ext) (simp add: run_try_def)

lemma run_try_fail [simp]: "run_try (fail e) f = fail e"
  by (rule ext) (simp add: run_try_def)

lemma run_try_pure [simp]:
  "run_try (pure_try (Ok x)) f = f x" "run_try (pure_try (Err e)) f = fail e"
  by (rule ext, simp add: run_try_def)+

lemma run_try_assoc: "run_try (run_try m f) g = run_try m (\<lambda>x. run_try (f x) g)"
  by (rule ext) (auto simp: run_try_def split: prod.split result.split)

text \<open>\<open>for _ in 0..n { values.push(m?) }\<close>.\<close>

fun collect_try :: "nat \<Rightarrow> ('s, 'e, 'a) action \<Rightarrow> 'a list \<Rightarrow> ('s, 'e, 'a list) action" where
  "collect_try 0 m values = give values"
| "collect_try (Suc n) m values = run_try m (\<lambda>v. collect_try n m (values @ [v]))"

text \<open>
  \<open>upholds I m Q\<close>: from a state with \<open>I\<close> the action never panics, leaves a state with \<open>I\<close>
  whether it succeeds or fails, and a value it returns satisfies \<open>Q\<close>.
\<close>

definition upholds :: "('s \<Rightarrow> bool) \<Rightarrow> ('s, 'e, 'a) action \<Rightarrow> ('a \<Rightarrow> bool) \<Rightarrow> bool" where
  "upholds I m Q \<longleftrightarrow> (\<forall>s. I s \<longrightarrow>
     I (snd (m s)) \<and> (case fst (m s) of Ok v \<Rightarrow> Q v | Err e \<Rightarrow> True | Panic \<Rightarrow> False))"

lemma upholdsI:
  assumes "\<And>s. I s \<Longrightarrow> I (snd (m s))" "\<And>s. I s \<Longrightarrow> fst (m s) \<noteq> Panic"
    and "\<And>s v. I s \<Longrightarrow> fst (m s) = Ok v \<Longrightarrow> Q v"
  shows "upholds I m Q"
  unfolding upholds_def using assms by (auto split: result.split)

lemma upholds_if_all:
  "(\<And>s. I s \<Longrightarrow> I (snd (m s)) \<and> fst (m s) \<noteq> Panic) \<Longrightarrow> upholds I m (\<lambda>_. True)"
  by (auto simp: upholds_def split: result.split)

lemma upholdsD:
  assumes "upholds I m Q" "I s"
  shows "I (snd (m s))" "fst (m s) \<noteq> Panic" "fst (m s) = Ok v \<Longrightarrow> Q v"
    "m s = (r, t) \<Longrightarrow> I t" "m s = (Ok v, t) \<Longrightarrow> Q v"
proof -
  have m: "I (snd (m s)) \<and> (case fst (m s) of Ok v \<Rightarrow> Q v | Err e \<Rightarrow> True | Panic \<Rightarrow> False)"
    using assms by (auto simp: upholds_def)
  then show "I (snd (m s))" "fst (m s) \<noteq> Panic" "fst (m s) = Ok v \<Longrightarrow> Q v" by auto
  show "m s = (r, t) \<Longrightarrow> I t" "m s = (Ok v, t) \<Longrightarrow> Q v" using m by auto
qed

lemma upholds_give [intro]: "Q v \<Longrightarrow> upholds I (give v) Q"
  by (simp add: upholds_def)

lemma upholds_fail [intro, simp]: "upholds I (fail e) Q"
  by (simp add: upholds_def)

lemma upholds_pure: "r \<noteq> Panic \<Longrightarrow> (\<And>v. r = Ok v \<Longrightarrow> Q v) \<Longrightarrow> upholds I (pure_try r) Q"
  by (cases r) (simp_all add: upholds_def)

lemma upholds_mono: "upholds I m P \<Longrightarrow> (\<And>v. P v \<Longrightarrow> Q v) \<Longrightarrow> upholds I m Q"
  by (auto simp: upholds_def split: result.splits)

lemma upholds_bind:
  assumes "upholds I m P" "\<And>v. P v \<Longrightarrow> upholds I (f v) Q"
  shows "upholds I (run_try m f) Q"
  unfolding upholds_def
proof (intro allI impI)
  fix s assume s: "I s"
  obtain r t where m: "m s = (r, t)" by (cases "m s")
  show "I (snd (run_try m f s)) \<and>
      (case fst (run_try m f s) of Ok v \<Rightarrow> Q v | Err e \<Rightarrow> True | Panic \<Rightarrow> False)"
  proof (cases r)
    case (Ok v)
    have "P v" "I t" using upholdsD [OF assms(1) s] m Ok by auto
    then show ?thesis using assms(2) [of v] m Ok by (simp add: run_try_step upholds_def)
  qed (use upholdsD [OF assms(1) s] m in \<open>auto simp: run_try_step\<close>)
qed

lemma upholds_bind2:
  "upholds I m (\<lambda>p. case p of (a, b) \<Rightarrow> P a b) \<Longrightarrow> (\<And>a b. P a b \<Longrightarrow> upholds I (f a b) Q) \<Longrightarrow>
    upholds I (run_try m (\<lambda>(a, b). f a b)) Q"
  by (erule upholds_bind) (simp split: prod.splits)

lemma upholds_bind3:
  "upholds I m (\<lambda>(a, b, c). P a b c) \<Longrightarrow> (\<And>a b c. P a b c \<Longrightarrow> upholds I (f a b c) Q) \<Longrightarrow>
    upholds I (run_try m (\<lambda>(a, b, c). f a b c)) Q"
  by (erule upholds_bind) (simp split: prod.splits)

lemma upholds_if [intro]:
  "(b \<Longrightarrow> upholds I m Q) \<Longrightarrow> (\<not> b \<Longrightarrow> upholds I n Q) \<Longrightarrow> upholds I (if b then m else n) Q"
  by simp

lemma upholds_collect:
  assumes "upholds I m P"
  shows "(\<forall>v\<in>set vs. P v) \<Longrightarrow>
    upholds I (collect_try n m vs) (\<lambda>ws. length ws = length vs + n \<and> (\<forall>v\<in>set ws. P v))"
proof (induction n arbitrary: vs)
  case (Suc n)
  show ?case unfolding collect_try.simps
  proof (rule upholds_bind [OF assms])
    fix v assume "P v"
    then show "upholds I (collect_try n m (vs @ [v]))
        (\<lambda>ws. length ws = length vs + Suc n \<and> (\<forall>v\<in>set ws. P v))"
      using Suc.IH [of "vs @ [v]"] Suc.prems by (auto elim!: upholds_mono)
  qed
qed (simp add: upholds_def)

text \<open>
  \<open>leads I m J Q\<close>: as \<open>upholds\<close>, with a different assertion \<open>J\<close> on the state left behind.
\<close>

definition leads ::
  "('s \<Rightarrow> bool) \<Rightarrow> ('s, 'e, 'a) action \<Rightarrow> ('s \<Rightarrow> bool) \<Rightarrow> ('a \<Rightarrow> bool) \<Rightarrow> bool" where
  "leads I m J Q \<longleftrightarrow> (\<forall>s. I s \<longrightarrow>
     J (snd (m s)) \<and> (case fst (m s) of Ok v \<Rightarrow> Q v | Err e \<Rightarrow> True | Panic \<Rightarrow> False))"

lemma leads_upholds: "leads I m I Q \<longleftrightarrow> upholds I m Q"
  by (simp add: leads_def upholds_def)

lemma leadsI:
  assumes "\<And>s. I s \<Longrightarrow> J (snd (m s))" "\<And>s. I s \<Longrightarrow> fst (m s) \<noteq> Panic"
    and "\<And>s v. I s \<Longrightarrow> fst (m s) = Ok v \<Longrightarrow> Q v"
  shows "leads I m J Q"
  unfolding leads_def using assms by (auto split: result.split)

lemma leadsD:
  assumes "leads I m J Q" "I s" "m s = (r, t)"
  shows "J t" "r \<noteq> Panic" "r = Ok v \<Longrightarrow> Q v"
proof -
  have m: "J (snd (m s)) \<and> (case fst (m s) of Ok v \<Rightarrow> Q v | Err e \<Rightarrow> True | Panic \<Rightarrow> False)"
    using assms(1,2) by (auto simp: leads_def)
  then show "J t" "r \<noteq> Panic" "r = Ok v \<Longrightarrow> Q v" using assms(3) by auto
qed

lemma leads_weaken:
  assumes "leads I m J P" "\<And>s. I' s \<Longrightarrow> I s" "\<And>s. J s \<Longrightarrow> J' s" "\<And>v. P v \<Longrightarrow> Q v"
  shows "leads I' m J' Q"
  using assms unfolding leads_def by (fastforce split: result.splits)

lemma leads_bind:
  assumes "leads I m J P" "\<And>v. P v \<Longrightarrow> leads J (f v) K Q" "\<And>s. J s \<Longrightarrow> K s"
  shows "leads I (run_try m f) K Q"
  unfolding leads_def
proof (intro allI impI)
  fix s assume s: "I s"
  obtain r t where m: "m s = (r, t)" by (cases "m s")
  note mD = leadsD [OF assms(1) s m]
  show "K (snd (run_try m f s)) \<and>
      (case fst (run_try m f s) of Ok v \<Rightarrow> Q v | Err e \<Rightarrow> True | Panic \<Rightarrow> False)"
  proof (cases r)
    case (Ok v)
    then show ?thesis using assms(2) [of v] mD m by (simp add: run_try_step leads_def)
  qed (use mD m assms(3) in \<open>auto simp: run_try_step\<close>)
qed

lemma leads_give: "Q v \<Longrightarrow> leads I (give v) I Q"
  by (simp add: leads_def)

lemma leads_fail: "leads I (fail e) I Q"
  by (simp add: leads_def)

lemma leads_pure: "r \<noteq> Panic \<Longrightarrow> (\<And>v. r = Ok v \<Longrightarrow> Q v) \<Longrightarrow> leads I (pure_try r) I Q"
  by (cases r) (simp_all add: leads_def)

text \<open>
  \<open>attains I m R\<close>: from a state with \<open>I\<close> the action never panics, and when it succeeds its value and
  the state it leaves are related by \<open>R\<close>.
\<close>

definition attains ::
  "('s \<Rightarrow> bool) \<Rightarrow> ('s, 'e, 'a) action \<Rightarrow> ('a \<Rightarrow> 's \<Rightarrow> bool) \<Rightarrow> bool" where
  "attains I m R \<longleftrightarrow> (\<forall>s. I s \<longrightarrow>
     (case m s of (Ok v, t) \<Rightarrow> R v t | (Err e, t) \<Rightarrow> True | (Panic, t) \<Rightarrow> False))"

lemma attainsD:
  assumes "attains I m R" "I s" "m s = (r, t)"
  shows "r \<noteq> Panic" "r = Ok v \<Longrightarrow> R v t"
  using assms by (auto simp: attains_def split: prod.splits result.splits)

lemma attainsI:
  "(\<And>s r t. I s \<Longrightarrow> m s = (r, t) \<Longrightarrow> r \<noteq> Panic \<and> (\<forall>v. r = Ok v \<longrightarrow> R v t)) \<Longrightarrow> attains I m R"
  unfolding attains_def by (auto split: prod.split result.split)

lemma attains_leads: "leads I m J Q \<Longrightarrow> attains I m (\<lambda>v t. J t \<and> Q v)"
  by (rule attainsI) (auto dest: leadsD)

lemma attains_upholds: "upholds I m Q \<Longrightarrow> attains I m (\<lambda>v t. I t \<and> Q v)"
  by (rule attains_leads) (simp add: leads_upholds)

lemma attains_weaken:
  assumes "attains I m R" "\<And>s. G s \<Longrightarrow> I s" "\<And>v t. R v t \<Longrightarrow> S v t"
  shows "attains G m S"
  by (rule attainsI) (use assms in \<open>blast dest: attainsD\<close>)

lemma attains_bind:
  assumes "attains I m R" "\<And>v. attains (R v) (f v) S"
  shows "attains I (run_try m f) S"
proof (rule attainsI)
  fix s r t assume s: "I s" and run: "run_try m f s = (r, t)"
  obtain x u where m: "m s = (x, u)" by (cases "m s")
  note mD = attainsD [OF assms(1) s m]
  show "r \<noteq> Panic \<and> (\<forall>v. r = Ok v \<longrightarrow> S v t)"
  proof (cases x)
    case (Ok v)
    then have "f v u = (r, t)" "R v u" using run m mD(2) by (simp_all add: run_try_step)
    then show ?thesis using assms(2) [of v] by (auto dest: attainsD)
  qed (use run m mD(1) in \<open>auto simp: run_try_step\<close>)
qed

lemma attains_bind2:
  assumes "attains I m (\<lambda>(a, b). R a b)" "\<And>a b. attains (R a b) (f a b) S"
  shows "attains I (run_try m (\<lambda>(a, b). f a b)) S"
  by (rule attains_bind [OF assms(1)]) (use assms(2) in \<open>auto split: prod.splits\<close>)

lemma attains_give: "(\<And>s. I s \<Longrightarrow> R v s) \<Longrightarrow> attains I (give v) R"
  by (simp add: attains_def)

lemma attains_fail: "attains I (fail e) R"
  by (simp add: attains_def)

lemma attains_pure:
  "(\<And>s. I s \<Longrightarrow> r \<noteq> Panic) \<Longrightarrow> (\<And>v s. I s \<Longrightarrow> r = Ok v \<Longrightarrow> R v s) \<Longrightarrow> attains I (pure_try r) R"
  by (cases r) (auto simp: attains_def)

lemma attains_if:
  "(b \<Longrightarrow> attains I m R) \<Longrightarrow> (\<not> b \<Longrightarrow> attains I n R) \<Longrightarrow> attains I (if b then m else n) R"
  by simp

lemma attains_assume: "(P \<Longrightarrow> attains I m R) \<Longrightarrow> attains (\<lambda>s. I s \<and> P) m R"
  by (simp add: attains_def)

lemma attains_fixed: "(\<And>s. I s \<Longrightarrow> attains (\<lambda>t. t = s) m R) \<Longrightarrow> attains I m R"
  by (simp add: attains_def)

text \<open>
  \<open>mirrors R m m'\<close>: from states related by \<open>R\<close> the two actions have the same outcome and leave
  related states.
\<close>

definition mirrors ::
  "('s \<Rightarrow> 't \<Rightarrow> bool) \<Rightarrow> ('s, 'e, 'a) action \<Rightarrow> ('t, 'e, 'a) action \<Rightarrow> bool" where
  "mirrors R m m' \<longleftrightarrow> (\<forall>s t. R s t \<longrightarrow> fst (m s) = fst (m' t) \<and> R (snd (m s)) (snd (m' t)))"

lemma mirrorsD: "mirrors R m m' \<Longrightarrow> R s t \<Longrightarrow> m s = (x, u) \<Longrightarrow> m' t = (y, v) \<Longrightarrow> x = y \<and> R u v"
  unfolding mirrors_def by (metis fst_conv snd_conv)

lemma mirrors_bind:
  assumes "mirrors R m m'" "\<And>v. mirrors R (f v) (f' v)"
  shows "mirrors R (run_try m f) (run_try m' f')"
  unfolding mirrors_def
proof (intro allI impI)
  fix s t assume R: "R s t"
  obtain x u y v where m: "m s = (x, u)" "m' t = (y, v)" by (cases "m s"; cases "m' t")
  have xy: "x = y" and R': "R u v" using mirrorsD [OF assms(1) R m] by simp_all
  note m = m [unfolded xy]
  show "fst (run_try m f s) = fst (run_try m' f' t) \<and> R (snd (run_try m f s)) (snd (run_try m' f' t))"
    by (cases y) (use assms(2) R' m in \<open>simp_all add: run_try_def mirrors_def\<close>)
qed

lemma mirrors_simps [simp]: "mirrors R (give v) (give v)" "mirrors R (fail e) (fail e)"
  "mirrors R (pure_try r) (pure_try r)"
  by (simp_all add: mirrors_def)

lemma mirrors_if: "(b \<Longrightarrow> mirrors R m m') \<Longrightarrow> (\<not> b \<Longrightarrow> mirrors R n n') \<Longrightarrow>
    mirrors R (if b then m else n) (if b then m' else n')"
  by simp

text \<open>A borrow of one part of a larger state: run on the part, put the part back.\<close>

definition on_part :: "('s \<Rightarrow> 'p) \<Rightarrow> ('p \<Rightarrow> 's \<Rightarrow> 's) \<Rightarrow> ('p, 'e, 'a) action \<Rightarrow> ('s, 'e, 'a) action"
where
  "on_part get put m s = (case m (get s) of (r, p) \<Rightarrow> (r, put p s))"

lemma leads_on_part:
  assumes "leads I m J Q" "\<And>s. G s \<Longrightarrow> I (get s)" "\<And>s p. G s \<Longrightarrow> J p \<Longrightarrow> H (put p s)"
  shows "leads G (on_part get put m) H Q"
  unfolding leads_def on_part_def
proof (intro allI impI)
  fix s assume s: "G s"
  obtain r p where m: "m (get s) = (r, p)" by (cases "m (get s)")
  note mD = leadsD [OF assms(1) assms(2) [OF s] m]
  show "H (snd (case m (get s) of (r, p) \<Rightarrow> (r, put p s))) \<and>
      (case fst (case m (get s) of (r, p) \<Rightarrow> (r, put p s)) of
        Ok v \<Rightarrow> Q v | Err e \<Rightarrow> True | Panic \<Rightarrow> False)"
    using mD assms(3) [OF s] m by (cases r) auto
qed

lemma attains_on_part:
  assumes "attains I m R" "\<And>s. G s \<Longrightarrow> I (get s)" "\<And>s v p. G s \<Longrightarrow> R v p \<Longrightarrow> S v (put p s)"
  shows "attains G (on_part get put m) S"
proof (rule attainsI)
  fix s r t assume s: "G s" and run: "on_part get put m s = (r, t)"
  obtain p where p: "m (get s) = (r, p)" "t = put p s"
    using run by (auto simp: on_part_def split: prod.splits)
  show "r \<noteq> Panic \<and> (\<forall>v. r = Ok v \<longrightarrow> S v t)"
    using attainsD [OF assms(1) assms(2) [OF s] p(1)] assms(3) [OF s] p(2) by auto
qed

text \<open>\<open>slice.swap(i, j)\<close>.\<close>

definition swap_values :: "nat \<times> nat \<Rightarrow> 'a list \<Rightarrow> 'a list" where
  "swap_values = (\<lambda>(i, j) xs. xs[i := xs ! j, j := xs ! i])"

section \<open>Machine integers\<close>

text \<open>
  Signed and unsigned integers of the code are HOL integers and naturals whose range is written
  out; \<open>>>\<close> on a signed value is the arithmetic shift \<open>drop_bit\<close>, that is \<open>div 2 ^ n\<close>. Byte
  buffers and shift registers are words.
\<close>

type_synonym i32 = int
type_synonym u8 = "8 word"

abbreviation i32_min :: int where "i32_min \<equiv> - 2147483648"
abbreviation i32_max :: int where "i32_max \<equiv> 2147483647"
abbreviation usize_max :: nat where "usize_max \<equiv> 18446744073709551615"

definition in_i32 :: "int \<Rightarrow> bool" where
  "in_i32 x \<longleftrightarrow> i32_min \<le> x \<and> x \<le> i32_max"

lemma in_i32_iff [range_simps]: "in_i32 x \<longleftrightarrow> - 2147483648 \<le> x \<and> x \<le> 2147483647"
  by (simp add: in_i32_def)

definition sar :: "int \<Rightarrow> nat \<Rightarrow> int" where
  "sar x n = drop_bit n x"

lemma sar_div: "sar x n = x div 2 ^ n"
  by (simp add: sar_def drop_bit_eq_div)

lemma sar_range: "in_i32 x \<Longrightarrow> in_i32 (sar x n)"
proof -
  assume "in_i32 x"
  then have "- 2147483648 \<le> x" "x \<le> 2147483647" by (simp_all add: in_i32_def)
  moreover have "(1::int) \<le> 2 ^ n" by simp
  ultimately show ?thesis
    unfolding in_i32_def sar_div
    by (smt (verit, best) div_by_1 div_neg_pos_less0 zdiv_mono2 zdiv_mono2_neg
        div_int_pos_iff pos_imp_zdiv_neg_iff)
qed

text \<open>The checked operations of the standard library on \<open>i32\<close>.\<close>

definition i32_checked_add :: "i32 \<Rightarrow> i32 \<Rightarrow> i32 option" where
  "i32_checked_add a b = (if in_i32 (a + b) then Some (a + b) else None)"

definition i32_checked_sub :: "i32 \<Rightarrow> i32 \<Rightarrow> i32 option" where
  "i32_checked_sub a b = (if in_i32 (a - b) then Some (a - b) else None)"

definition i32_checked_mul :: "i32 \<Rightarrow> i32 \<Rightarrow> i32 option" where
  "i32_checked_mul a b = (if in_i32 (a * b) then Some (a * b) else None)"

definition i32_checked_neg :: "i32 \<Rightarrow> i32 option" where
  "i32_checked_neg a = (if in_i32 (- a) then Some (- a) else None)"

lemma i32_checked_Some [outcome_simps]:
  "i32_checked_add a b = Some c \<longleftrightarrow> in_i32 (a + b) \<and> c = a + b"
  "i32_checked_sub a b = Some c \<longleftrightarrow> in_i32 (a - b) \<and> c = a - b"
  "i32_checked_mul a b = Some c \<longleftrightarrow> in_i32 (a * b) \<and> c = a * b"
  "i32_checked_neg a = Some c \<longleftrightarrow> in_i32 (- a) \<and> c = - a"
  by (auto simp: i32_checked_add_def i32_checked_sub_def i32_checked_mul_def i32_checked_neg_def)

text \<open>\<open>checked_shl\<close> checks the shift amount only; bits shifted out are lost.\<close>

definition i32_checked_shl :: "i32 \<Rightarrow> nat \<Rightarrow> i32 option" where
  "i32_checked_shl x n = (if n < 32 then Some (signed_take_bit 31 (push_bit n x)) else None)"

text \<open>Arithmetic that the compiler checks in a build with overflow checks.\<close>

definition i32_or_panic :: "int \<Rightarrow> ('e, i32) result" where
  "i32_or_panic x = (if in_i32 x then Ok x else Panic)"

lemma i32_or_panic_Ok [outcome_simps]: "i32_or_panic x = Ok y \<longleftrightarrow> in_i32 x \<and> y = x"
  by (auto simp: i32_or_panic_def)

text \<open>An index into a slice panics out of bounds.\<close>

definition index_or_panic :: "'a list \<Rightarrow> nat \<Rightarrow> ('e, 'a) result" where
  "index_or_panic xs i = (if i < length xs then Ok (xs ! i) else Panic)"

lemma index_or_panic_Ok [outcome_simps]:
  "index_or_panic xs i = Ok x \<longleftrightarrow> i < length xs \<and> x = xs ! i"
  by (auto simp: index_or_panic_def)

lemma index_or_panic_in [simp]: "i < length xs \<Longrightarrow> index_or_panic xs i = Ok (xs ! i)"
  by (simp add: index_or_panic_def)

text \<open>Two's complement wrap to 32 bits.\<close>

definition wrap_i32 :: "int \<Rightarrow> int" where
  "wrap_i32 x = signed_take_bit 31 x"

lemma wrap_i32_id: "in_i32 x \<Longrightarrow> wrap_i32 x = x"
  by (simp add: wrap_i32_def in_i32_def signed_take_bit_int_eq_self)

lemma wrap_i32_range: "in_i32 (wrap_i32 x)"
  using signed_take_bit_int_greater_eq_minus_exp [of 31 x] signed_take_bit_int_less_exp [of 31 x]
  by (simp add: in_i32_def wrap_i32_def)

end
