(* ===== verification/Arithmetic.thy ===== *)
theory Arithmetic
  imports Prelude
begin

text \<open>
  The scalar arithmetic of \<open>crates/jxr-math\<close>: checked integer operations, colour clamping,
  dequantization, chroma upsampling, alpha premultiplication and RGBE postscaling.
\<close>

section \<open>arithmetic.rs\<close>

record math_error =
  operation :: string

definition overflow :: "string \<Rightarrow> math_error" where
  "overflow op = \<lparr>operation = op\<rparr>"

definition checked_add :: "i32 \<Rightarrow> i32 \<Rightarrow> (math_error, i32) result" where
  "checked_add left right = ok_or (overflow ''addition'') (i32_checked_add left right)"

definition checked_sub :: "i32 \<Rightarrow> i32 \<Rightarrow> (math_error, i32) result" where
  "checked_sub left right = ok_or (overflow ''subtraction'') (i32_checked_sub left right)"

definition checked_mul :: "i32 \<Rightarrow> i32 \<Rightarrow> (math_error, i32) result" where
  "checked_mul left right = ok_or (overflow ''multiplication'') (i32_checked_mul left right)"

definition checked_i64_to_i32 :: "int \<Rightarrow> (math_error, i32) result" where
  "checked_i64_to_i32 value =
     (if in_i32 value then Ok value else Err (overflow ''i64 to i32 conversion''))"

lemma checked_eq_Ok [outcome_simps]:
  "checked_add a b = Ok c \<longleftrightarrow> in_i32 (a + b) \<and> c = a + b"
  "checked_sub a b = Ok c \<longleftrightarrow> in_i32 (a - b) \<and> c = a - b"
  "checked_mul a b = Ok c \<longleftrightarrow> in_i32 (a * b) \<and> c = a * b"
  "checked_i64_to_i32 a = Ok c \<longleftrightarrow> in_i32 a \<and> c = a"
  by (auto simp: checked_add_def checked_sub_def checked_mul_def checked_i64_to_i32_def
      outcome_simps)

lemma checked_no_panic [simp]:
  "checked_add a b \<noteq> Panic" "checked_sub a b \<noteq> Panic" "checked_mul a b \<noteq> Panic"
  by (simp_all add: checked_add_def checked_sub_def checked_mul_def)

lemma checked_in_range:
  "in_i32 (a + b) \<Longrightarrow> checked_add a b = Ok (a + b)"
  "in_i32 (a - b) \<Longrightarrow> checked_sub a b = Ok (a - b)"
  "in_i32 (a * b) \<Longrightarrow> checked_mul a b = Ok (a * b)"
  by (simp_all add: checked_eq_Ok)

section \<open>color.rs\<close>

definition clamp_sample :: "i32 \<Rightarrow> i32 \<Rightarrow> i32 \<Rightarrow> i32" where
  "clamp_sample sample minimum maximum =
     (if sample < minimum then minimum else if maximum < sample then maximum else sample)"

lemma clamp_sample_range:
  "minimum \<le> maximum \<Longrightarrow>
     minimum \<le> clamp_sample x minimum maximum \<and> clamp_sample x minimum maximum \<le> maximum"
  by (simp add: clamp_sample_def)

lemma clamp_sample_id: "lo \<le> x \<Longrightarrow> x \<le> hi \<Longrightarrow> clamp_sample x lo hi = x"
  by (simp add: clamp_sample_def)

section \<open>quantization.rs\<close>

text \<open>A \<open>NonZeroU32\<close> step; only \<open>quantizer_new\<close> builds one.\<close>

datatype quantizer = Quantizer nat

definition quantizer_new :: "nat \<Rightarrow> quantizer option" where
  "quantizer_new s = (if s = 0 then None else Some (Quantizer s))"

fun quantizer_step :: "quantizer \<Rightarrow> nat" where
  "quantizer_step (Quantizer s) = s"

definition dequantize :: "quantizer \<Rightarrow> i32 \<Rightarrow> (math_error, i32) result" where
  "dequantize q coefficient =
     (let widened = coefficient * int (quantizer_step q) in checked_i64_to_i32 widened)"

text \<open>The \<open>i64\<close> product of the code is exact: it never leaves the 64 bit range.\<close>

lemma dequantize_widened_fits_i64:
  assumes "in_i32 c" and "s < 2 ^ 32"
  shows "- (2 ^ 63) \<le> c * int s \<and> c * int s < 2 ^ 63"
proof -
  have s: "0 \<le> int s" "int s \<le> 4294967295" using assms(2) by auto
  have c: "- 2147483648 \<le> c" "c \<le> 2147483647" using assms(1) by (auto simp: in_i32_def)
  have "\<bar>c * int s\<bar> \<le> 2147483648 * 4294967295"
    unfolding abs_mult using c s by (intro mult_mono) auto
  then show ?thesis by (auto simp: abs_le_iff)
qed

lemma dequantize_exact:
  "dequantize q c = Ok d \<longleftrightarrow> d = c * int (quantizer_step q) \<and> in_i32 d"
  by (auto simp: dequantize_def outcome_simps Let_def)

section \<open>sampling.rs\<close>

datatype chroma_centering = ChromaCentering nat

definition chroma_centering_new :: "nat \<Rightarrow> chroma_centering option" where
  "chroma_centering_new value = (if value \<le> 4 then Some (ChromaCentering value) else None)"

fun centering_coefficients :: "chroma_centering \<Rightarrow> (math_error, i32 \<times> i32 \<times> i32 \<times> i32) result"
where
  "centering_coefficients (ChromaCentering c) =
     (if c = 0 then Ok (4, 4, 0, 8)
      else if c = 1 then Ok (5, 3, 1, 7)
      else if c = 2 then Ok (6, 2, 2, 6)
      else if c = 3 then Ok (7, 1, 3, 5)
      else if c = 4 then Ok (8, 0, 4, 4)
      else Panic)"

definition weighted_pair :: "i32 \<Rightarrow> i32 \<Rightarrow> i32 \<Rightarrow> i32 \<Rightarrow> (math_error, i32) result" where
  "weighted_pair first first_weight second second_weight =
     let_try (checked_mul first first_weight) (\<lambda>first.
     let_try (checked_mul second second_weight) (\<lambda>second.
     let_try (checked_add first second) (\<lambda>sum.
     let_try (checked_add sum 4) (\<lambda>sum.
     Ok (sar sum 3)))))"

definition upsample_chroma_pair ::
  "i32 \<Rightarrow> i32 \<Rightarrow> i32 \<Rightarrow> chroma_centering \<Rightarrow> (math_error, i32 \<times> i32) result" where
  "upsample_chroma_pair previous current next_sample centering =
     let_try (centering_coefficients centering) (\<lambda>(h0, h1, h2, h3).
     let_try (weighted_pair previous h2 current h3) (\<lambda>even.
     let_try (weighted_pair current h0 next_sample h1) (\<lambda>odd.
     Ok (even, odd))))"

lemma weighted_pair_between:
  assumes w: "0 \<le> u" "0 \<le> v" "u + v = 8"
    and a: "lo \<le> a" "a \<le> hi" and b: "lo \<le> b" "b \<le> hi"
    and small: "- 268435456 < lo" "hi < 268435455"
  shows "\<exists>r. weighted_pair a u b v = Ok r \<and> lo \<le> r \<and> r \<le> hi"
proof -
  have lo: "lo * u + lo * v = lo * 8" and hi: "hi * u + hi * v = hi * 8"
    using w(3) by (simp_all add: distrib_left [symmetric])
  have m: "lo * u \<le> a * u" "a * u \<le> hi * u" "lo * v \<le> b * v" "b * v \<le> hi * v"
    using w a b by (simp_all add: mult_right_mono)
  have le8: "u \<le> 8" "v \<le> 8" using w by auto
  have big: "\<bar>a * u\<bar> \<le> 268435456 * 8" "\<bar>b * v\<bar> \<le> 268435456 * 8"
    unfolding abs_mult using a b small w le8 by (intro mult_mono; simp)+
  have sum: "lo * 8 \<le> a * u + b * v" "a * u + b * v \<le> hi * 8" using m lo hi by linarith+
  have au: "in_i32 (a * u)" "in_i32 (b * v)"
  proof -
    have "\<bar>a\<bar> \<le> 268435455" "\<bar>b\<bar> \<le> 268435455" using a b small by auto
    then have "\<bar>a * u\<bar> \<le> 268435455 * 8" "\<bar>b * v\<bar> \<le> 268435455 * 8"
      unfolding abs_mult using w le8 by (intro mult_mono; simp)+
    then show "in_i32 (a * u)" "in_i32 (b * v)" by (auto simp: in_i32_def)
  qed
  have "in_i32 (a * u + b * v)" "in_i32 (a * u + b * v + 4)"
    using sum small by (auto simp: in_i32_def)
  then have "weighted_pair a u b v = Ok (sar (a * u + b * v + 4) 3)"
    by (simp add: weighted_pair_def checked_in_range au)
  moreover have "lo \<le> sar (a * u + b * v + 4) 3" "sar (a * u + b * v + 4) 3 \<le> hi"
    using sum by (simp_all add: sar_div)
  ultimately show ?thesis by blast
qed

section \<open>alpha.rs\<close>

definition premultiply_unsigned :: "nat \<Rightarrow> nat \<Rightarrow> nat \<Rightarrow> (math_error, nat) result" where
  "premultiply_unsigned value alpha maximum =
     (if maximum = 0 then Err (overflow ''zero alpha normalization range'')
      else
        let value = min value maximum;
            alpha = min alpha maximum;
            product = value * alpha;
            rounded = (product + maximum div 2) div maximum
        in if rounded < 2 ^ 32 then Ok rounded
           else Err (overflow ''unsigned alpha premultiplication''))"

definition premultiply_signed :: "i32 \<Rightarrow> i32 \<Rightarrow> i32 \<Rightarrow> (math_error, i32) result" where
  "premultiply_signed value alpha alpha_maximum =
     (if alpha_maximum \<le> 0 then Err (overflow ''invalid signed alpha normalization range'')
      else
        let alpha = max 0 (min alpha alpha_maximum);
            magnitude = nat \<bar>value\<bar>;
            product = magnitude * nat alpha;
            maximum = nat alpha_maximum;
            magnitude = (product + maximum div 2) div maximum
        in if 2 ^ 63 \<le> magnitude then Err (overflow ''signed alpha premultiplication'')
           else
             let signed = (if value < 0 then - int magnitude else int magnitude)
             in if in_i32 signed then Ok signed
                else Err (overflow ''signed alpha premultiplication''))"

definition premultiply_sign_magnitude_15 ::
  "16 word \<Rightarrow> 16 word \<Rightarrow> (math_error, 16 word) result" where
  "premultiply_sign_magnitude_15 value_bits alpha_bits =
     (let sign = value_bits AND 0x8000;
          value = unat (value_bits AND 0x7fff);
          alpha = (if alpha_bits AND 0x8000 = 0 then unat (alpha_bits AND 0x7fff) else 0)
      in let_try (premultiply_unsigned value alpha 0x7fff) (\<lambda>magnitude.
         if magnitude < 2 ^ 16 then Ok (sign OR of_nat magnitude) else Panic))"

text \<open>Rounded division by a positive number is the nearest integer.\<close>

lemma rounded_div_nearest:
  fixes p m :: nat
  assumes "0 < m"
  shows "2 * \<bar>int ((p + m div 2) div m) * int m - int p\<bar> \<le> int m"
proof -
  obtain q r h where q: "q = (p + m div 2) div m" and r: "r = (p + m div 2) mod m"
    and h: "h = m div 2" by blast
  have "q * m + r = p + h" unfolding q r h by simp
  then have e: "int q * int m + int r = int p + int h" by (metis of_nat_add of_nat_mult)
  have "r < m" using assms by (simp add: r)
  then have "int r < int m" by simp
  moreover have "2 * int h \<le> int m" "int m \<le> 2 * int h + 1" unfolding h by presburger+
  ultimately have "2 * (int h - int r) \<le> int m" "2 * (int r - int h) \<le> int m"
    by presburger+
  then have "2 * \<bar>int h - int r\<bar> \<le> int m"
    by (cases "int r \<le> int h") (simp_all add: abs_if)
  moreover have "int q * int m - int p = int h - int r" using e by linarith
  ultimately show ?thesis unfolding q [symmetric] by simp
qed

lemma rounded_div_le:
  fixes v a m :: nat
  assumes "0 < m" "a \<le> m"
  shows "(v * a + m div 2) div m \<le> v"
proof -
  have "v * a \<le> v * m" using assms(2) by simp
  then have "(v * a + m div 2) div m \<le> (v * m + m div 2) div m" by (simp add: div_le_mono)
  also have "\<dots> = v + (m div 2) div m" using assms(1) by simp
  also have "\<dots> = v" using assms(1) by simp
  finally show ?thesis .
qed

lemma premultiply_unsigned_Ok:
  assumes "0 < m" "m < 2 ^ 32"
  shows "premultiply_unsigned v a m = Ok ((min v m * min a m + m div 2) div m)"
proof -
  have "(min v m * min a m + m div 2) div m \<le> min v m"
    using assms by (intro rounded_div_le) auto
  also have "\<dots> \<le> m" by simp
  finally show ?thesis using assms by (simp add: premultiply_unsigned_def Let_def)
qed

lemma premultiply_signed_Ok:
  assumes "in_i32 v" "0 < m" "in_i32 m"
  shows "premultiply_signed v a m =
    Ok (sgn v * int ((nat \<bar>v\<bar> * nat (max 0 (min a m)) + nat m div 2) div nat m))"
proof -
  obtain k where k: "k = (nat \<bar>v\<bar> * nat (max 0 (min a m)) + nat m div 2) div nat m" by blast
  have le: "k \<le> nat \<bar>v\<bar>" unfolding k using assms by (intro rounded_div_le) auto
  have v: "- 2147483648 \<le> v" "v \<le> 2147483647" using assms(1) by (simp_all add: in_i32_def)
  have small: "\<not> 2 ^ 63 \<le> k" using le v by simp
  have sg: "(if v < 0 then - int k else int k) = sgn v * int k"
    using le by (cases "v = 0") (auto simp: sgn_if)
  have rng: "in_i32 (if v < 0 then - int k else int k)"
    using le v by (cases "v < 0") (simp_all add: in_i32_def)
  have "\<not> m \<le> 0" using assms(2) by simp
  then show ?thesis
    unfolding premultiply_signed_def Let_def k [symmetric] using small rng sg by simp
qed

section \<open>rgbe.rs\<close>

record encoded_component =
  mantissa :: i32
  exponent :: i32

definition encode_component :: "i32 \<Rightarrow> encoded_component" where
  "encode_component value =
     (if value \<le> 0 then \<lparr>mantissa = 0, exponent = 0\<rparr>
      else if 1 < sar value 7 then \<lparr>mantissa = (value AND 0x7f) + 128, exponent = sar value 7\<rparr>
      else \<lparr>mantissa = value, exponent = 1\<rparr>)"

definition rounded_shift :: "i32 \<Rightarrow> i32 \<Rightarrow> ('e, i32) result" where
  "rounded_shift value exponent_difference =
     (let shift = (if 0 \<le> exponent_difference then nat exponent_difference else 4294967295)
      in if 31 \<le> shift then Ok 0
         else let_try (i32_or_panic (2 * value)) (\<lambda>d.
              let_try (i32_or_panic (d + 1)) (\<lambda>d. Ok (sar d (shift + 1)))))"

definition expect_u8 :: "int \<Rightarrow> ('e, u8) result" where
  "expect_u8 x = (if 0 \<le> x \<and> x \<le> 255 then Ok (word_of_int x) else Panic)"

definition rgbe_byte :: "i32 \<Rightarrow> encoded_component \<Rightarrow> ('e, u8) result" where
  "rgbe_byte e component =
     let_try
       (if exponent component < e
        then rounded_shift (mantissa component) (e - exponent component)
        else Ok (mantissa component))
       (\<lambda>value. expect_u8 (clamp_sample value 0 255))"

fun postscale_rgbe :: "i32 \<times> i32 \<times> i32 \<Rightarrow> ('e, u8 \<times> u8 \<times> u8 \<times> u8) result" where
  "postscale_rgbe (r, g, b) =
     (let cr = encode_component r; cg = encode_component g; cb = encode_component b;
          e = max (max (exponent cr) (exponent cg)) (exponent cb)
      in let_try (rgbe_byte e cr) (\<lambda>x0.
         let_try (rgbe_byte e cg) (\<lambda>x1.
         let_try (rgbe_byte e cb) (\<lambda>x2.
         let_try (expect_u8 (min e 255)) (\<lambda>x3.
         Ok (x0, x1, x2, x3))))))"

fun pack_rgbe :: "u8 \<times> u8 \<times> u8 \<times> u8 \<Rightarrow> 32 word" where
  "pack_rgbe (b0, b1, b2, b3) =
     ucast b0 OR push_bit 8 (ucast b1) OR push_bit 16 (ucast b2) OR push_bit 24 (ucast b3)"

lemma sar7_mod: "0 < v \<Longrightarrow> (v AND 0x7f) = v mod 128"
  using take_bit_eq_mod [of 7 v] by (simp add: take_bit_eq_mask mask_numeral)

lemma encode_component_range:
  "0 \<le> mantissa (encode_component v) \<and> mantissa (encode_component v) \<le> 255 \<and>
   0 \<le> exponent (encode_component v)"
  by (auto simp: encode_component_def sar_div sar7_mod)

text \<open>The pair read as \<open>mantissa\<close> and \<open>exponent\<close> determines the reconstructed value.\<close>

definition decode_component :: "encoded_component \<Rightarrow> int" where
  "decode_component c =
     (if exponent c \<le> 1 then mantissa c else exponent c * 128 + (mantissa c - 128))"

lemma decode_encode_component: "decode_component (encode_component v) = max v 0"
  by (auto simp: encode_component_def decode_component_def sar_div sar7_mod)

lemma rgbe_byte_Ok:
  assumes "0 \<le> mantissa c" "mantissa c \<le> 255" "exponent c \<le> e"
  shows "\<exists>k. rgbe_byte e c = Ok (word_of_int k) \<and>
    k = (if 31 \<le> e - exponent c then 0
         else (2 * mantissa c + 1) div 2 ^ (nat (e - exponent c) + 1)) \<and> 0 \<le> k \<and> k \<le> 255"
proof -
  let ?d = "nat (e - exponent c)" and ?m = "mantissa c"
  have le: "(2 * ?m + 1) div 2 ^ (?d + 1) \<le> (2 * ?m + 1) div 2"
    using assms by (intro zdiv_mono2) auto
  have r: "0 \<le> (2 * ?m + 1) div 2 ^ (?d + 1)" "(2 * ?m + 1) div 2 ^ (?d + 1) \<le> 255"
    using assms le by (auto simp: pos_imp_zdiv_nonneg_iff)
  have rng: "in_i32 (2 * ?m)" "in_i32 (2 * ?m + 1)" using assms by (auto simp: in_i32_def)
  have sh: "31 \<le> ?d \<longleftrightarrow> 31 \<le> e - exponent c" using assms by auto
  show ?thesis
  proof (cases "exponent c < e")
    case True
    with r rng sh show ?thesis
      by (auto simp: rgbe_byte_def rounded_shift_def i32_or_panic_def sar_div expect_u8_def
          clamp_sample_def Let_def)
  next
    case False
    with assms have "e = exponent c" by simp
    with assms show ?thesis
      by (auto simp: rgbe_byte_def expect_u8_def clamp_sample_def)
  qed
qed

section \<open>Properties\<close>

text \<open>
  Chroma upsampling interpolates. For each of the five exact centerings and samples below
  \<open>2 ^ 28\<close> in magnitude it succeeds, and each output lies between the smallest and the largest of
  the three input samples.
\<close>

theorem upsample_interpolates:
  assumes "chroma_centering_new c = Some centering"
    and "lo \<le> p" "p \<le> hi" "lo \<le> x" "x \<le> hi" "lo \<le> n" "n \<le> hi" "- 268435456 < lo" "hi < 268435455"
  shows "\<exists>even odd. upsample_chroma_pair p x n centering = Ok (even, odd) \<and>
    lo \<le> even \<and> even \<le> hi \<and> lo \<le> odd \<and> odd \<le> hi"
proof -
  have c: "centering = ChromaCentering c" "c = 0 \<or> c = 1 \<or> c = 2 \<or> c = 3 \<or> c = 4"
    using assms(1) by (auto simp: chroma_centering_new_def split: if_splits)
  then obtain h0 h1 h2 h3 where h: "\<And>T. (centering_coefficients centering ::
      (math_error, i32 \<times> i32 \<times> i32 \<times> i32) result) = Ok (h0, h1, h2, h3)"
    "0 \<le> h0" "0 \<le> h1" "h0 + h1 = 8" "0 \<le> h2" "0 \<le> h3" "h2 + h3 = 8"
    by auto
  from weighted_pair_between [OF h(5-7) assms(2-5,8,9)] weighted_pair_between [OF h(2-4) assms(4-9)]
  show ?thesis by (auto simp: upsample_chroma_pair_def h(1))
qed

lemma upsample_interpolates_witness:
  "\<exists>even odd. upsample_chroma_pair (- 9) (- 4) 3 (ChromaCentering 2) = Ok (even, odd) \<and>
    - 9 \<le> even \<and> even \<le> 3 \<and> - 9 \<le> odd \<and> odd \<le> 3"
  by (rule upsample_interpolates [of 2]) (simp_all add: chroma_centering_new_def)

text \<open>
  Alpha premultiplication rounds to nearest. Unsigned samples never fail for a positive 32-bit
  maximum, the result is within half a unit of \<open>value * alpha / maximum\<close> after both are clamped and
  never exceeds the clamped value; signed samples never fail for a positive \<open>i32\<close> maximum, keep
  their sign and never grow in magnitude.
\<close>

theorem premultiply_rounds:
  assumes "0 < m" "m < 2 ^ 32" "in_i32 s" "0 < sm" "in_i32 sm"
  shows "\<exists>r. premultiply_unsigned v a m = Ok r \<and> r \<le> min v m \<and>
      2 * \<bar>int r * int m - int (min v m * min a m)\<bar> \<le> int m \<and>
    (\<exists>t. premultiply_signed s b sm = Ok t \<and> \<bar>t\<bar> \<le> \<bar>s\<bar> \<and> 0 \<le> t * s \<and>
      2 * \<bar>t * sm - s * max 0 (min b sm)\<bar> \<le> sm)"
proof -
  have u: "(min v m * min a m + m div 2) div m \<le> min v m"
    using assms(1) by (intro rounded_div_le) auto
  obtain c where c: "c = nat (max 0 (min b sm))" "int c = max 0 (min b sm)" by simp
  obtain k where k_def: "k = (nat \<bar>s\<bar> * c + nat sm div 2) div nat sm" by blast
  have k: "k \<le> nat \<bar>s\<bar>" unfolding k_def using assms(4) c by (intro rounded_div_le) auto
  have near: "2 * \<bar>int k * sm - int (nat \<bar>s\<bar> * c)\<bar> \<le> sm"
    using rounded_div_nearest [of "nat sm" "nat \<bar>s\<bar> * c"] assms(4) by (simp add: k_def)
  have sgn: "\<bar>sgn s * int k\<bar> \<le> \<bar>s\<bar>" "0 \<le> sgn s * int k * s"
    using k by (auto simp: abs_mult sgn_if mult_nonneg_nonneg mult_nonneg_nonpos)
  have "sgn s * int k * sm - s * int c = sgn s * (int k * sm - int (nat \<bar>s\<bar> * c))"
  proof -
    have "s = sgn s * int (nat \<bar>s\<bar>)" by (simp add: sgn_mult_abs)
    then have "s * int c = sgn s * int (nat \<bar>s\<bar> * c)" by (metis mult.assoc of_nat_mult)
    then show ?thesis by (simp only: right_diff_distrib mult.assoc)
  qed
  then have "\<bar>sgn s * int k * sm - s * int c\<bar> \<le> \<bar>int k * sm - int (nat \<bar>s\<bar> * c)\<bar>"
    by (simp add: abs_mult sgn_if)
  then have t: "2 * \<bar>sgn s * int k * sm - s * max 0 (min b sm)\<bar> \<le> sm"
    unfolding c(2) [symmetric] by (intro order_trans [OF mult_left_mono near]) simp_all
  have run: "premultiply_signed s b sm = Ok (sgn s * int k)"
    using premultiply_signed_Ok [OF assms(3-5)] c(1) k_def by simp
  show ?thesis
    by (intro exI conjI, rule premultiply_unsigned_Ok [OF assms(1,2)], rule u,
        rule rounded_div_nearest [OF assms(1)], rule run, rule sgn(1), rule sgn(2), rule t)
qed

lemma premultiply_rounds_witness:
  "\<exists>r. premultiply_unsigned 200 128 255 = Ok r \<and> r \<le> 200 \<and>
    2 * \<bar>int r * 255 - 200 * 128\<bar> \<le> 255"
  using premultiply_rounds [of 255 "- 5" 10 200 128 3] by (auto simp: in_i32_def)

text \<open>The exponent the three components share, and a component's byte at that exponent.\<close>

definition shared_exponent :: "i32 \<Rightarrow> i32 \<Rightarrow> i32 \<Rightarrow> int" where
  "shared_exponent r g b = max (max (exponent (encode_component r)) (exponent (encode_component g)))
    (exponent (encode_component b))"

definition aligned_byte :: "int \<Rightarrow> encoded_component \<Rightarrow> int" where
  "aligned_byte e c = (if 31 \<le> e - exponent c then 0
     else (2 * mantissa c + 1) div 2 ^ (nat (e - exponent c) + 1))"

lemma rgbe_byte_aligned:
  "0 \<le> mantissa c \<Longrightarrow> mantissa c \<le> 255 \<Longrightarrow> exponent c \<le> e \<Longrightarrow>
    rgbe_byte e c = Ok (word_of_int (aligned_byte e c))"
  using rgbe_byte_Ok [of c e] by (auto simp: aligned_byte_def)

text \<open>
  The RGBE encoder is total: it never panics (no failed \<open>expect\<close>, no overflow) on any three
  \<open>i32\<close> samples. Its bytes are the shared exponent, clamped to 255, and for each component the
  mantissa that encodes it, moved to that exponent by a rounded shift; the mantissa and exponent of
  a component determine its clipped value exactly.
\<close>

theorem postscale_rgbe_total:
  "postscale_rgbe (r, g, b) =
     (let e = shared_exponent r g b in
      Ok (word_of_int (aligned_byte e (encode_component r)),
          word_of_int (aligned_byte e (encode_component g)),
          word_of_int (aligned_byte e (encode_component b)), word_of_int (min e 255))) \<and>
    (\<forall>c. decode_component (encode_component c) = max c 0)"
proof -
  have e: "0 \<le> shared_exponent r g b"
    using encode_component_range [of r] by (auto simp: shared_exponent_def)
  have le: "exponent (encode_component r) \<le> shared_exponent r g b"
    "exponent (encode_component g) \<le> shared_exponent r g b"
    "exponent (encode_component b) \<le> shared_exponent r g b"
    by (auto simp: shared_exponent_def)
  show ?thesis
    using e by (simp add: Let_def shared_exponent_def [symmetric] expect_u8_def
        rgbe_byte_aligned encode_component_range decode_encode_component le)
qed

text \<open>
  Dequantization is exact: the 64-bit product of a 32-bit step and an \<open>i32\<close> coefficient does not
  overflow, and the result is that product whenever it is an \<open>i32\<close> and an error otherwise.
\<close>

theorem dequantize_correct:
  assumes "quantizer_new s = Some q" "s < 2 ^ 32" "in_i32 c"
  shows "- (2 ^ 63) \<le> c * int s \<and> c * int s < 2 ^ 63 \<and>
    dequantize q c = (if in_i32 (c * int s) then Ok (c * int s)
      else Err (overflow ''i64 to i32 conversion''))"
  using dequantize_widened_fits_i64 [OF assms(3,2)] assms(1)
  by (auto simp: dequantize_def checked_i64_to_i32_def Let_def quantizer_new_def split: if_splits)

lemma dequantize_correct_witness:
  "dequantize (Quantizer 3) (- 7) = Ok (- 21)"
  using dequantize_correct [of 3 "Quantizer 3" "- 7"] by (simp add: quantizer_new_def in_i32_def)

end
