(* ===== verification/Core_Transform.thy ===== *)
theory Core_Transform
  imports Arithmetic
begin

text \<open>
  The inverse core transform of \<open>crates/jxr-math/src/transform.rs\<close>. Every operator is a sequence
  of lifting steps on checked \<open>i32\<close> values. The locale \<open>lossless_kernel\<close> is the contract the
  codec relies on: an operator that succeeds stays in range, never panics and can be undone, so
  no two blocks reconstruct to the same samples.
\<close>

section \<open>The contract of a reversible operator\<close>

locale checked_kernel =
  fixes op :: "'a \<Rightarrow> ('e, 'a) result" and ok :: "'a \<Rightarrow> bool"
  assumes keeps: "ok x \<Longrightarrow> op x = Ok y \<Longrightarrow> ok y"
    and no_panic: "ok x \<Longrightarrow> op x \<noteq> Panic"
begin

lemma outcome: "ok x \<Longrightarrow> (\<exists>y. op x = Ok y \<and> ok y) \<or> (\<exists>e. op x = Err e)"
  using keeps no_panic by (cases "op x") auto

end

locale lossless_kernel = checked_kernel +
  fixes undo :: "'a \<Rightarrow> 'a"
  assumes undo_op: "ok x \<Longrightarrow> op x = Ok y \<Longrightarrow> undo y = x"
begin

lemma injective: "ok x \<Longrightarrow> ok y \<Longrightarrow> op x = Ok z \<Longrightarrow> op y = Ok z \<Longrightarrow> x = y"
  using undo_op by metis

lemma differ: "ok x \<Longrightarrow> ok y \<Longrightarrow> x \<noteq> y \<Longrightarrow> op x = Ok u \<Longrightarrow> op y = Ok v \<Longrightarrow> u \<noteq> v"
  using injective by metis

end

text \<open>Operators that run one after the other.\<close>

lemma lossless_kernelI:
  assumes "\<And>x y. ok x \<Longrightarrow> op x = Ok y \<Longrightarrow> ok y \<and> undo y = x"
    and "\<And>x. ok x \<Longrightarrow> op x \<noteq> Panic"
  shows "lossless_kernel op ok undo"
  using assms by unfold_locales blast+

lemma lossless_kernelD:
  assumes "lossless_kernel op ok undo" "ok x"
  shows "op x = Ok y \<Longrightarrow> ok y" "op x = Ok y \<Longrightarrow> undo y = x" "op x \<noteq> Panic"
  using assms(2) lossless_kernel.undo_op [OF assms(1)]
    checked_kernel.keeps [OF lossless_kernel.axioms(1) [OF assms(1)]]
    checked_kernel.no_panic [OF lossless_kernel.axioms(1) [OF assms(1)]] by blast+

lemma lossless_seq:
  assumes f: "lossless_kernel f ok uf" and g: "lossless_kernel g ok ug"
  shows "lossless_kernel (\<lambda>x. let_try (f x) g) ok (\<lambda>y. uf (ug y))"
proof (rule lossless_kernelI)
  fix x y assume x: "ok x" and "let_try (f x) g = Ok y"
  then obtain z where z: "f x = Ok z" "g z = Ok y" by (auto simp: outcome_simps)
  have "ok z" "uf z = x" using lossless_kernelD [OF f x] z(1) by blast+
  with lossless_kernelD [OF g] z(2) show "ok y \<and> uf (ug y) = x" by metis
next
  fix x assume x: "ok x"
  show "let_try (f x) g \<noteq> Panic"
  proof (rule let_try_no_panic)
    show "f x \<noteq> Panic" by (rule lossless_kernelD(3) [OF f x])
    fix z assume "f x = Ok z"
    then show "g z \<noteq> Panic" by (rule lossless_kernelD(3) [OF g lossless_kernelD(1) [OF f x]])
  qed
qed

text \<open>A loop over kernels, and the loop that undoes it from the last to the first.\<close>

fun each_undo :: "('i \<Rightarrow> 'a \<Rightarrow> 'a) \<Rightarrow> 'i list \<Rightarrow> 'a \<Rightarrow> 'a" where
  "each_undo u [] y = y"
| "each_undo u (i # is) y = u i (each_undo u is y)"

lemma lossless_each:
  assumes "\<And>i. i \<in> set is \<Longrightarrow> lossless_kernel (f i) ok (u i)"
  shows "lossless_kernel (each_try f is) ok (each_undo u is)"
  using assms
proof (induction "is")
  case Nil
  show ?case by (rule lossless_kernelI) auto
next
  case (Cons i "is")
  have "lossless_kernel (\<lambda>x. let_try (f i x) (each_try f is)) ok (\<lambda>y. u i (each_undo u is y))"
    using Cons by (intro lossless_seq) auto
  then show ?case by (simp add: each_try.simps(2) [abs_def] each_undo.simps(2) [abs_def])
qed

section \<open>transform.rs: operators on two and four values\<close>

type_synonym i32x2 = "i32 \<times> i32"
type_synonym i32x4 = "i32 \<times> i32 \<times> i32 \<times> i32"

definition ok2 :: "i32x2 \<Rightarrow> bool" where
  "ok2 v = (case v of (a, b) \<Rightarrow> in_i32 a \<and> in_i32 b)"

definition ok4 :: "i32x4 \<Rightarrow> bool" where
  "ok4 v = (case v of (a, b, c, d) \<Rightarrow> in_i32 a \<and> in_i32 b \<and> in_i32 c \<and> in_i32 d)"

definition inverse_t2pt :: "i32x2 \<Rightarrow> (math_error, i32x2) result" where
  "inverse_t2pt = (\<lambda>(v0, v1).
     let_try (checked_add v1 1) (\<lambda>t.
     let_try (checked_sub v0 (sar t 1)) (\<lambda>v0.
     let_try (checked_add v1 v0) (\<lambda>v1.
     Ok (v0, v1)))))"

definition t2x2h :: "i32 \<Rightarrow> i32x4 \<Rightarrow> (math_error, i32x4) result" where
  "t2x2h rounding = (\<lambda>(v0, v1, v2, v3).
     let_try (checked_add v0 v3) (\<lambda>v0.
     let_try (checked_sub v1 v2) (\<lambda>v1.
     let_try (checked_sub v0 v1) (\<lambda>difference.
     let_try (checked_add difference rounding) (\<lambda>t.
     let first = sar t 1; second = v2 in
     let_try (checked_sub first v3) (\<lambda>v2.
     let_try (checked_sub first second) (\<lambda>v3.
     let_try (checked_sub v0 v3) (\<lambda>v0.
     let_try (checked_add v1 v2) (\<lambda>v1.
     Ok (v0, v1, v2, v3))))))))))"

definition t2x2h_round :: "i32x4 \<Rightarrow> (math_error, i32x4) result" where
  "t2x2h_round values = t2x2h 1 values"

definition t2x2h_zero :: "i32x4 \<Rightarrow> (math_error, i32x4) result" where
  "t2x2h_zero values = t2x2h 0 values"

definition inverse_hadamard_2x2 :: "i32 \<Rightarrow> i32x4 \<Rightarrow> (math_error, i32x4) result" where
  "inverse_hadamard_2x2 rounding values = t2x2h rounding values"

text \<open>The step \<open>(3 * x + r) >> n\<close> that the rotations share.\<close>

definition three_shift :: "i32 \<Rightarrow> i32 \<Rightarrow> nat \<Rightarrow> (math_error, i32) result" where
  "three_shift x r n =
     let_try (checked_mul x 3) (\<lambda>t. let_try (checked_add t r) (\<lambda>t. Ok (sar t n)))"

definition half_up :: "i32 \<Rightarrow> (math_error, i32) result" where
  "half_up x = let_try (checked_add x 1) (\<lambda>t. Ok (sar t 1))"

definition inverse_todd :: "i32x4 \<Rightarrow> (math_error, i32x4) result" where
  "inverse_todd = (\<lambda>(v0, v1, v2, v3).
     let_try (checked_add v1 v3) (\<lambda>v1.
     let_try (checked_sub v0 v2) (\<lambda>v0.
     let_try (checked_sub v3 (sar v1 1)) (\<lambda>v3.
     let_try (half_up v0) (\<lambda>t. let_try (checked_add v2 t) (\<lambda>v2.
     let_try (three_shift v1 4 3) (\<lambda>t. let_try (checked_sub v0 t) (\<lambda>v0.
     let_try (three_shift v0 4 3) (\<lambda>t. let_try (checked_add v1 t) (\<lambda>v1.
     let_try (three_shift v3 4 3) (\<lambda>t. let_try (checked_sub v2 t) (\<lambda>v2.
     let_try (three_shift v2 4 3) (\<lambda>t. let_try (checked_add v3 t) (\<lambda>v3.
     let_try (half_up v1) (\<lambda>t. let_try (checked_sub v2 t) (\<lambda>v2.
     let_try (half_up v0) (\<lambda>t. let_try (checked_sub t v3) (\<lambda>v3.
     let_try (checked_add v1 v2) (\<lambda>v1.
     let_try (checked_sub v0 v3) (\<lambda>v0.
     Ok (v0, v1, v2, v3)))))))))))))))))))))"

definition inverse_todd_odd :: "i32x4 \<Rightarrow> (math_error, i32x4) result" where
  "inverse_todd_odd = (\<lambda>(v0, v1, v2, v3).
     let_try (checked_add v3 v0) (\<lambda>v3.
     let_try (checked_sub v2 v1) (\<lambda>v2.
     let first = sar v3 1; second = sar v2 1 in
     let_try (checked_sub v0 first) (\<lambda>v0.
     let_try (checked_add v1 second) (\<lambda>v1.
     let_try (three_shift v1 3 3) (\<lambda>t. let_try (checked_sub v0 t) (\<lambda>v0.
     let_try (three_shift v0 3 2) (\<lambda>t. let_try (checked_add v1 t) (\<lambda>v1.
     let_try (three_shift v1 4 3) (\<lambda>t. let_try (checked_sub v0 t) (\<lambda>v0.
     let_try (checked_sub v1 second) (\<lambda>v1.
     let_try (checked_add v0 first) (\<lambda>v0.
     let_try (checked_add v2 v1) (\<lambda>v2.
     let_try (checked_sub v3 v0) (\<lambda>v3.
     let_try (ok_or (overflow ''inverse Todd odd negation'') (i32_checked_neg v1)) (\<lambda>v1.
     let_try (ok_or (overflow ''inverse Todd odd negation'') (i32_checked_neg v2)) (\<lambda>v2.
     Ok (v0, v1, v2, v3))))))))))))))))))"

section \<open>The four value operators are lossless\<close>

text \<open>The undo functions run the lifting steps backwards with the opposite sign.\<close>

definition t2x2h_undo :: "i32 \<Rightarrow> i32x4 \<Rightarrow> i32x4" where
  "t2x2h_undo rounding = (\<lambda>(v0, v1, v2, v3).
     let v1 = v1 - v2; v0 = v0 + v3; first = sar (v0 - v1 + rounding) 1;
         second = first - v3; v3 = first - v2; v2 = second
     in (v0 - v3, v1 + v2, v2, v3))"

lemma t2x2h_lossless: "lossless_kernel (t2x2h r) ok4 (t2x2h_undo r)"
proof (rule lossless_kernelI)
  fix x y assume "ok4 x" "t2x2h r x = Ok y"
  then show "ok4 y \<and> t2x2h_undo r y = x"
    by (cases x) (auto simp: t2x2h_def t2x2h_undo_def ok4_def outcome_simps Let_def)
next
  fix x show "t2x2h r x \<noteq> Panic"
    by (cases x) (simp add: t2x2h_def let_try_eq_Panic Let_def)
qed

definition half :: "i32 \<Rightarrow> i32" where "half x = sar (x + 1) 1"
definition three :: "i32 \<Rightarrow> i32 \<Rightarrow> nat \<Rightarrow> i32" where "three x r n = sar (x * 3 + r) n"
lemma half_up_Ok [outcome_simps]: "half_up x = Ok y \<longleftrightarrow> in_i32 (x + 1) \<and> y = half x"
  by (auto simp: half_up_def half_def outcome_simps)
lemma three_shift_Ok [outcome_simps]:
  "three_shift x r n = Ok y \<longleftrightarrow> in_i32 (x * 3) \<and> in_i32 (x * 3 + r) \<and> y = three x r n"
  by (auto simp: three_shift_def three_def outcome_simps)

definition inverse_todd_undo :: "i32x4 \<Rightarrow> i32x4" where
  "inverse_todd_undo = (\<lambda>(v0, v1, v2, v3).
     let v0 = v0 + v3; v1 = v1 - v2;
         v3 = half v0 - v3; v2 = v2 + half v1;
         v3 = v3 - three v2 4 3; v2 = v2 + three v3 4 3;
         v1 = v1 - three v0 4 3; v0 = v0 + three v1 4 3;
         v2 = v2 - half v0; v3 = v3 + sar v1 1;
         v0 = v0 + v2; v1 = v1 - v3
     in (v0, v1, v2, v3))"

lemma inverse_todd_lossless: "lossless_kernel inverse_todd ok4 inverse_todd_undo"
proof (rule lossless_kernelI)
  fix x y assume "ok4 x" "inverse_todd x = Ok y"
  then show "ok4 y \<and> inverse_todd_undo y = x"
    by (cases x) (auto simp: inverse_todd_def inverse_todd_undo_def ok4_def outcome_simps Let_def)
next
  fix x show "inverse_todd x \<noteq> Panic"
    by (cases x) (simp add: inverse_todd_def let_try_eq_Panic half_up_def three_shift_def Let_def)
qed

definition inverse_todd_odd_undo :: "i32x4 \<Rightarrow> i32x4" where
  "inverse_todd_odd_undo = (\<lambda>(v0, v1, v2, v3).
     let v2 = - v2; v1 = - v1; v3 = v3 + v0; v2 = v2 - v1;
         first = sar v3 1; second = sar v2 1;
         v0 = v0 - first; v1 = v1 + second;
         v0 = v0 + three v1 4 3; v1 = v1 - three v0 3 2; v0 = v0 + three v1 3 3;
         v1 = v1 - second; v0 = v0 + first; v2 = v2 + v1; v3 = v3 - v0
     in (v0, v1, v2, v3))"

lemma inverse_todd_odd_lossless:
  "lossless_kernel inverse_todd_odd ok4 inverse_todd_odd_undo"
proof (rule lossless_kernelI)
  fix x y assume "ok4 x" "inverse_todd_odd x = Ok y"
  then show "ok4 y \<and> inverse_todd_odd_undo y = x"
    by (cases x)
       (auto simp: inverse_todd_odd_def inverse_todd_odd_undo_def ok4_def outcome_simps Let_def,
        simp_all add: algebra_simps)
next
  fix x show "inverse_todd_odd x \<noteq> Panic"
    by (cases x)
       (simp add: inverse_todd_odd_def let_try_eq_Panic half_up_def three_shift_def Let_def)
qed

definition inverse_t2pt_undo :: "i32x2 \<Rightarrow> i32x2" where
  "inverse_t2pt_undo = (\<lambda>(v0, v1). let v1 = v1 - v0 in (v0 + sar (v1 + 1) 1, v1))"

lemma inverse_t2pt_lossless: "lossless_kernel inverse_t2pt ok2 inverse_t2pt_undo"
proof (rule lossless_kernelI)
  fix x y assume "ok2 x" "inverse_t2pt x = Ok y"
  then show "ok2 y \<and> inverse_t2pt_undo y = x"
    by (cases x) (auto simp: inverse_t2pt_def inverse_t2pt_undo_def ok2_def outcome_simps)
next
  fix x show "inverse_t2pt x \<noteq> Panic"
    by (cases x) (simp add: inverse_t2pt_def let_try_eq_Panic)
qed

section \<open>Operators on blocks\<close>

text \<open>A block is a fixed size array; \<open>ok_block n\<close> is its Rust type.\<close>

definition ok_block :: "nat \<Rightarrow> i32 list \<Rightarrow> bool" where
  "ok_block n xs \<longleftrightarrow> length xs = n \<and> (\<forall>x \<in> set xs. in_i32 x)"

definition transform_group ::
  "nat \<times> nat \<times> nat \<times> nat \<Rightarrow> (i32x4 \<Rightarrow> (math_error, i32x4) result) \<Rightarrow>
   i32 list \<Rightarrow> (math_error, i32 list) result" where
  "transform_group = (\<lambda>(i0, i1, i2, i3) operation coefficients.
     let_try (operation
       (coefficients ! i0, coefficients ! i1, coefficients ! i2, coefficients ! i3))
       (\<lambda>(v0, v1, v2, v3). Ok (coefficients[i0 := v0, i1 := v1, i2 := v2, i3 := v3])))"

definition group_undo ::
  "nat \<times> nat \<times> nat \<times> nat \<Rightarrow> (i32x4 \<Rightarrow> i32x4) \<Rightarrow> i32 list \<Rightarrow> i32 list" where
  "group_undo = (\<lambda>(i0, i1, i2, i3) undo ys.
     case undo (ys ! i0, ys ! i1, ys ! i2, ys ! i3) of
       (v0, v1, v2, v3) \<Rightarrow> ys[i0 := v0, i1 := v1, i2 := v2, i3 := v3])"

definition group_in :: "nat \<Rightarrow> nat \<times> nat \<times> nat \<times> nat \<Rightarrow> bool" where
  "group_in n = (\<lambda>(i0, i1, i2, i3). distinct [i0, i1, i2, i3] \<and> (\<forall>i \<in> {i0, i1, i2, i3}. i < n))"

lemma set_update_in: "\<forall>x \<in> set xs. P x \<Longrightarrow> P v \<Longrightarrow> \<forall>x \<in> set (xs[i := v]). P x"
  using set_update_subset_insert by fastforce

lemma transform_group_lossless:
  assumes f: "lossless_kernel f ok4 uf" and g: "group_in n idx"
  shows "lossless_kernel (transform_group idx f) (ok_block n) (group_undo idx uf)"
proof (rule lossless_kernelI)
  fix xs ys assume xs: "ok_block n xs" and run: "transform_group idx f xs = Ok ys"
  obtain i0 i1 i2 i3 where idx: "idx = (i0, i1, i2, i3)" by (cases idx)
  have len: "length xs = n" and rng: "\<forall>x \<in> set xs. in_i32 x" using xs by (auto simp: ok_block_def)
  have d: "distinct [i0, i1, i2, i3]" "i0 < n" "i1 < n" "i2 < n" "i3 < n"
    using g by (auto simp: group_in_def idx)
  let ?in = "(xs ! i0, xs ! i1, xs ! i2, xs ! i3)"
  have okin: "ok4 ?in" using rng len d by (auto simp: ok4_def)
  obtain v0 v1 v2 v3 where f_in: "f ?in = Ok (v0, v1, v2, v3)"
    and ys: "ys = xs[i0 := v0, i1 := v1, i2 := v2, i3 := v3]"
    using run by (auto simp: transform_group_def idx outcome_simps)
  have okout: "ok4 (v0, v1, v2, v3)" and un: "uf (v0, v1, v2, v3) = ?in"
    using lossless_kernelD [OF f okin] f_in by blast+
  have v: "in_i32 v0" "in_i32 v1" "in_i32 v2" "in_i32 v3" using okout by (simp_all add: ok4_def)
  have "\<forall>x \<in> set ys. in_i32 x" unfolding ys by (intro set_update_in rng v)
  then have "ok_block n ys" using len by (simp add: ok_block_def ys)
  moreover have "group_undo idx uf ys = xs"
    using d len un by (intro nth_equalityI) (auto simp: group_undo_def idx ys nth_list_update)
  ultimately show "ok_block n ys \<and> group_undo idx uf ys = xs" ..
next
  fix xs assume xs: "ok_block n xs"
  obtain i0 i1 i2 i3 where idx: "idx = (i0, i1, i2, i3)" by (cases idx)
  have "ok4 (xs ! i0, xs ! i1, xs ! i2, xs ! i3)"
    using xs g by (auto simp: ok4_def ok_block_def group_in_def idx)
  then show "transform_group idx f xs \<noteq> Panic"
    using lossless_kernelD(3) [OF f] by (auto simp: transform_group_def idx let_try_eq_Panic)
qed

text \<open>The same lift for operators on two values.\<close>

definition apply_pair ::
  "nat \<times> nat \<Rightarrow> (i32x2 \<Rightarrow> (math_error, i32x2) result) \<Rightarrow>
   i32 list \<Rightarrow> (math_error, i32 list) result" where
  "apply_pair = (\<lambda>(i0, i1) operation values.
     let_try (operation (values ! i0, values ! i1)) (\<lambda>(p0, p1). Ok (values[i0 := p0, i1 := p1])))"

definition pair_undo :: "nat \<times> nat \<Rightarrow> (i32x2 \<Rightarrow> i32x2) \<Rightarrow> i32 list \<Rightarrow> i32 list" where
  "pair_undo = (\<lambda>(i0, i1) undo ys.
     case undo (ys ! i0, ys ! i1) of (p0, p1) \<Rightarrow> ys[i0 := p0, i1 := p1])"

definition pair_in :: "nat \<Rightarrow> nat \<times> nat \<Rightarrow> bool" where
  "pair_in n = (\<lambda>(i0, i1). i0 \<noteq> i1 \<and> i0 < n \<and> i1 < n)"

lemma apply_pair_lossless:
  assumes f: "lossless_kernel f ok2 uf" and g: "pair_in n idx"
  shows "lossless_kernel (apply_pair idx f) (ok_block n) (pair_undo idx uf)"
proof (rule lossless_kernelI)
  fix xs ys assume xs: "ok_block n xs" and run: "apply_pair idx f xs = Ok ys"
  obtain i0 i1 where idx: "idx = (i0, i1)" by (cases idx)
  have len: "length xs = n" and rng: "\<forall>x \<in> set xs. in_i32 x" using xs by (auto simp: ok_block_def)
  have d: "i0 \<noteq> i1" "i0 < n" "i1 < n" using g by (auto simp: pair_in_def idx)
  let ?in = "(xs ! i0, xs ! i1)"
  have okin: "ok2 ?in" using rng len d by (auto simp: ok2_def)
  obtain p0 p1 where f_in: "f ?in = Ok (p0, p1)" and ys: "ys = xs[i0 := p0, i1 := p1]"
    using run by (auto simp: apply_pair_def idx outcome_simps)
  have okout: "ok2 (p0, p1)" and un: "uf (p0, p1) = ?in"
    using lossless_kernelD [OF f okin] f_in by blast+
  have v: "in_i32 p0" "in_i32 p1" using okout by (simp_all add: ok2_def)
  have "\<forall>x \<in> set ys. in_i32 x" unfolding ys by (intro set_update_in rng v)
  then have "ok_block n ys" using len by (simp add: ok_block_def ys)
  moreover have "pair_undo idx uf ys = xs"
    using d len un by (intro nth_equalityI) (auto simp: pair_undo_def idx ys nth_list_update)
  ultimately show "ok_block n ys \<and> pair_undo idx uf ys = xs" ..
next
  fix xs assume xs: "ok_block n xs"
  obtain i0 i1 where idx: "idx = (i0, i1)" by (cases idx)
  have "ok2 (xs ! i0, xs ! i1)" using xs g by (auto simp: ok2_def ok_block_def pair_in_def idx)
  then show "apply_pair idx f xs \<noteq> Panic"
    using lossless_kernelD(3) [OF f] by (auto simp: apply_pair_def idx let_try_eq_Panic)
qed

text \<open>Swapping two values.\<close>

lemma swap_values_lossless:
  assumes "pair_in n idx"
  shows "lossless_kernel (\<lambda>xs. Ok (swap_values idx xs) :: (math_error, i32 list) result)
    (ok_block n) (swap_values idx)"
proof (rule lossless_kernelI)
  fix xs ys :: "i32 list" assume xs: "ok_block n xs"
    and "(Ok (swap_values idx xs) :: (math_error, i32 list) result) = Ok ys"
  then have ys: "ys = swap_values idx xs" by simp
  obtain i j where idx: "idx = (i, j)" by (cases idx)
  have d: "i \<noteq> j" "i < n" "j < n" and len: "length xs = n"
    using assms xs by (auto simp: pair_in_def idx ok_block_def)
  have rng: "\<forall>x \<in> set xs. in_i32 x" using xs by (simp add: ok_block_def)
  have "in_i32 (xs ! i)" "in_i32 (xs ! j)" using rng d len by auto
  then have "\<forall>x \<in> set ys. in_i32 x"
    unfolding ys swap_values_def idx prod.case by (intro set_update_in rng)
  moreover have "swap_values idx ys = xs"
    using d len by (intro nth_equalityI) (auto simp: ys swap_values_def idx nth_list_update)
  ultimately show "ok_block n ys \<and> swap_values idx ys = xs"
    using len by (simp add: ok_block_def ys swap_values_def idx)
qed simp

section \<open>The 4-by-4 core transform\<close>

text \<open>The table that the build reads from \<open>data/reconstruction.abi\<close>.\<close>

definition INVERSE_PERMUTATION :: "nat list" where
  "INVERSE_PERMUTATION = [0, 8, 4, 13, 2, 15, 3, 14, 1, 12, 5, 9, 7, 11, 6, 10]"

definition inverse_permute :: "i32 list \<Rightarrow> i32 list" where
  "inverse_permute coefficients =
     foldl (\<lambda>cs i. cs[INVERSE_PERMUTATION ! i := coefficients ! i]) coefficients [0..<16]"

definition permute_undo :: "i32 list \<Rightarrow> i32 list" where
  "permute_undo ys = map (\<lambda>i. ys ! (INVERSE_PERMUTATION ! i)) [0..<16]"

definition inverse_core_transform :: "i32 list \<Rightarrow> (math_error, i32 list) result" where
  "inverse_core_transform coefficients =
     let_try (transform_group (0, 1, 4, 5) t2x2h_round (inverse_permute coefficients)) (\<lambda>cs.
     let_try (transform_group (2, 3, 6, 7) inverse_todd cs) (\<lambda>cs.
     let_try (transform_group (8, 12, 9, 13) inverse_todd cs) (\<lambda>cs.
     let_try (transform_group (10, 11, 14, 15) inverse_todd_odd cs) (\<lambda>cs.
     let_try (transform_group (0, 3, 12, 15) t2x2h_zero cs) (\<lambda>cs.
     let_try (transform_group (5, 6, 9, 10) t2x2h_zero cs) (\<lambda>cs.
     let_try (transform_group (1, 2, 13, 14) t2x2h_zero cs) (\<lambda>cs.
     transform_group (4, 7, 8, 11) t2x2h_zero cs)))))))"

lemma block16_exhaust:
  assumes "length xs = 16"
  obtains a b c d e f g h i j k l m n p q where "xs = [a, b, c, d, e, f, g, h, i, j, k, l, m, n, p, q]"
proof -
  have "xs = map ((!) xs) [0..<16]" using assms by (metis map_nth)
  then show thesis using that by (simp add: upt_rec numeral_eq_Suc)
qed

lemma inverse_permute_list:
  "inverse_permute [a, b, c, d, e, f, g, h, i, j, k, l, m, n, p, q] =
     [a, i, e, g, c, k, p, m, b, l, q, n, j, d, h, f]"
  by (simp add: inverse_permute_def INVERSE_PERMUTATION_def upt_rec)

lemma permute_lossless:
  "lossless_kernel (\<lambda>xs. Ok (inverse_permute xs) :: (math_error, i32 list) result)
     (ok_block 16) permute_undo"
proof (rule lossless_kernelI)
  fix xs ys :: "i32 list" assume ok: "ok_block 16 xs"
    and run: "(Ok (inverse_permute xs) :: (math_error, i32 list) result) = Ok ys"
  have "length xs = 16" using ok by (simp add: ok_block_def)
  then show "ok_block 16 ys \<and> permute_undo ys = xs"
  proof (rule block16_exhaust)
    fix a b c d e f g h i j k l m n p q
    assume "xs = [a, b, c, d, e, f, g, h, i, j, k, l, m, n, p, q]"
    with ok run show ?thesis
      by (auto simp: inverse_permute_list ok_block_def permute_undo_def INVERSE_PERMUTATION_def
          upt_rec)
  qed
qed simp

text \<open>The transform as a chain of kernels, and the chain of their undo functions.\<close>

definition core_undo :: "i32 list \<Rightarrow> i32 list" where
  "core_undo ys =
     permute_undo
      (group_undo (0, 1, 4, 5) (t2x2h_undo 1)
      (group_undo (2, 3, 6, 7) inverse_todd_undo
      (group_undo (8, 12, 9, 13) inverse_todd_undo
      (group_undo (10, 11, 14, 15) inverse_todd_odd_undo
      (group_undo (0, 3, 12, 15) (t2x2h_undo 0)
      (group_undo (5, 6, 9, 10) (t2x2h_undo 0)
      (group_undo (1, 2, 13, 14) (t2x2h_undo 0)
      (group_undo (4, 7, 8, 11) (t2x2h_undo 0) ys))))))))"

lemma t2x2h_fixed_lossless:
  "lossless_kernel t2x2h_round ok4 (t2x2h_undo 1)"
  "lossless_kernel t2x2h_zero ok4 (t2x2h_undo 0)"
  using t2x2h_lossless [of 1] t2x2h_lossless [of 0]
  by (simp_all add: t2x2h_round_def [abs_def] t2x2h_zero_def [abs_def])

lemmas four_value_lossless =
  t2x2h_fixed_lossless inverse_todd_lossless inverse_todd_odd_lossless

lemma core_lossless: "lossless_kernel inverse_core_transform (ok_block 16) core_undo"
proof -
  let ?step = "\<lambda>idx f. transform_group idx f"
  have g: "group_in 16 (0, 1, 4, 5)" "group_in 16 (2, 3, 6, 7)" "group_in 16 (8, 12, 9, 13)"
    "group_in 16 (10, 11, 14, 15)" "group_in 16 (0, 3, 12, 15)" "group_in 16 (5, 6, 9, 10)"
    "group_in 16 (1, 2, 13, 14)" "group_in 16 (4, 7, 8, 11)"
    by (simp_all add: group_in_def)
  note k = transform_group_lossless [OF t2x2h_fixed_lossless(1)]
    transform_group_lossless [OF t2x2h_fixed_lossless(2)]
    transform_group_lossless [OF inverse_todd_lossless]
    transform_group_lossless [OF inverse_todd_odd_lossless]
  have "lossless_kernel
     (\<lambda>x. let_try (Ok (inverse_permute x)) (\<lambda>cs. let_try (?step (0, 1, 4, 5) t2x2h_round cs)
     (\<lambda>cs. let_try (?step (2, 3, 6, 7) inverse_todd cs)
     (\<lambda>cs. let_try (?step (8, 12, 9, 13) inverse_todd cs)
     (\<lambda>cs. let_try (?step (10, 11, 14, 15) inverse_todd_odd cs)
     (\<lambda>cs. let_try (?step (0, 3, 12, 15) t2x2h_zero cs)
     (\<lambda>cs. let_try (?step (5, 6, 9, 10) t2x2h_zero cs)
     (\<lambda>cs. let_try (?step (1, 2, 13, 14) t2x2h_zero cs)
     (?step (4, 7, 8, 11) t2x2h_zero)))))))))
     (ok_block 16) core_undo"
    unfolding core_undo_def [abs_def] by (intro lossless_seq k g permute_lossless)
  then show ?thesis by (simp add: inverse_core_transform_def [abs_def])
qed

interpretation core: lossless_kernel inverse_core_transform "ok_block 16" core_undo
  by (rule core_lossless)

interpretation hadamard: lossless_kernel "inverse_hadamard_2x2 r" ok4 "t2x2h_undo r" for r
  using t2x2h_lossless [of r] by (simp add: inverse_hadamard_2x2_def [abs_def])

section \<open>First level transforms of subsampled chroma\<close>

definition inverse_chroma_420 :: "i32x4 \<Rightarrow> (math_error, i32x4) result" where
  "inverse_chroma_420 coefficients =
     let_try (t2x2h 0 coefficients) (\<lambda>(c0, c1, c2, c3). Ok (c0, c2, c1, c3))"

definition inverse_chroma_422 :: "i32 list \<Rightarrow> (math_error, i32 list) result" where
  "inverse_chroma_422 cs =
     let_try (inverse_t2pt (cs ! 0, cs ! 4)) (\<lambda>(p0, p1).
     let cs = cs[0 := p0, 4 := p1] in
     let_try (t2x2h 0 (cs ! 0, cs ! 1, cs ! 2, cs ! 3)) (\<lambda>(f0, f1, f2, f3).
     let cs = cs[0 := f0, 1 := f1, 2 := f2, 3 := f3]; cs = cs[1 := cs ! 2, 2 := cs ! 1] in
     let_try (t2x2h 0 (cs ! 4, cs ! 6, cs ! 5, cs ! 7)) (\<lambda>(s0, s1, s2, s3).
     let cs = cs[4 := s0, 6 := s1, 5 := s2, 7 := s3] in
     Ok (cs[5 := cs ! 6, 6 := cs ! 5]))))"

text \<open>Both are chains of kernels again.\<close>

definition chroma_420_undo :: "i32x4 \<Rightarrow> i32x4" where
  "chroma_420_undo = (\<lambda>(c0, c1, c2, c3). t2x2h_undo 0 (c0, c2, c1, c3))"

lemma chroma_420_lossless: "lossless_kernel inverse_chroma_420 ok4 chroma_420_undo"
proof (rule lossless_kernelI)
  fix x y assume x: "ok4 x" and "inverse_chroma_420 x = Ok y"
  then obtain c0 c1 c2 c3 where t: "t2x2h 0 x = Ok (c0, c1, c2, c3)" and y: "y = (c0, c2, c1, c3)"
    by (auto simp: inverse_chroma_420_def outcome_simps)
  show "ok4 y \<and> chroma_420_undo y = x"
    using lossless_kernelD(1,2) [OF t2x2h_lossless x t] by (simp add: y ok4_def chroma_420_undo_def)
next
  fix x assume "ok4 x"
  then show "inverse_chroma_420 x \<noteq> Panic"
    using lossless_kernelD(3) [OF t2x2h_lossless] by (auto simp: inverse_chroma_420_def let_try_eq_Panic)
qed

interpretation chroma_420: lossless_kernel inverse_chroma_420 ok4 chroma_420_undo
  by (rule chroma_420_lossless)

definition chroma_422_undo :: "i32 list \<Rightarrow> i32 list" where
  "chroma_422_undo ys =
     pair_undo (0, 4) inverse_t2pt_undo
      (group_undo (0, 1, 2, 3) (t2x2h_undo 0)
      (swap_values (1, 2)
      (group_undo (4, 6, 5, 7) (t2x2h_undo 0)
      (swap_values (5, 6) ys))))"

lemma inverse_chroma_422_chain:
  "inverse_chroma_422 cs =
     let_try (apply_pair (0, 4) inverse_t2pt cs) (\<lambda>cs.
     let_try (transform_group (0, 1, 2, 3) (t2x2h 0) cs) (\<lambda>cs.
     let_try (Ok (swap_values (1, 2) cs)) (\<lambda>cs.
     let_try (transform_group (4, 6, 5, 7) (t2x2h 0) cs) (\<lambda>cs.
     Ok (swap_values (5, 6) cs)))))"
  by (simp add: inverse_chroma_422_def apply_pair_def transform_group_def swap_values_def
      let_try_assoc Let_def case_prod_unfold)

lemma chroma_422_lossless: "lossless_kernel inverse_chroma_422 (ok_block 8) chroma_422_undo"
proof -
  have g: "pair_in 8 (0, 4)" "pair_in 8 (1, 2)" "pair_in 8 (5, 6)"
    "group_in 8 (0, 1, 2, 3)" "group_in 8 (4, 6, 5, 7)"
    by (simp_all add: group_in_def pair_in_def)
  show ?thesis
    unfolding inverse_chroma_422_chain [abs_def] chroma_422_undo_def [abs_def]
    by (intro lossless_seq swap_values_lossless g apply_pair_lossless inverse_t2pt_lossless
        transform_group_lossless t2x2h_lossless)
qed

interpretation chroma_422: lossless_kernel inverse_chroma_422 "ok_block 8" chroma_422_undo
  by (rule chroma_422_lossless)

section \<open>Properties\<close>

text \<open>
  C16: the inverse core transform loses nothing. On a block of 16 \<open>i32\<close> coefficients it never
  panics; when it returns a block of samples, every sample is an \<open>i32\<close> and running the lifting
  steps backwards (\<open>core_undo\<close>) gives the coefficients back, so distinct coefficient blocks never
  reconstruct to the same samples.
\<close>

theorem core_transform_reversible:
  assumes "ok_block 16 cs"
  shows "case inverse_core_transform cs of Panic \<Rightarrow> False | Err e \<Rightarrow> True
    | Ok ss \<Rightarrow> ok_block 16 ss \<and> core_undo ss = cs \<and>
        (\<forall>ds. ok_block 16 ds \<longrightarrow> inverse_core_transform ds = Ok ss \<longrightarrow> ds = cs)"
  using core.keeps [OF assms] core.no_panic [OF assms] core.undo_op [OF assms]
    core.injective [OF _ assms]
  by (auto split: result.split)

lemma core_transform_reversible_witness:
  "core_undo [50, 50, 47, 49, 39, 38, 41, 41, -30, -44, 27, 36, -47, -55, -23, -20] =
     [50, -42, 9, 21, 126, 33, -6, -18, -24, 21, -3, -9, -6, -33, 6, 15]"
proof -
  let ?cs = "[50, -42, 9, 21, 126, 33, -6, -18, -24, 21, -3, -9, -6, -33, 6, 15]"
  have ok: "ok_block 16 ?cs" by (simp add: ok_block_def in_i32_def)
  have run: "inverse_core_transform ?cs =
      Ok [50, 50, 47, 49, 39, 38, 41, 41, -30, -44, 27, 36, -47, -55, -23, -20]"
    by code_simp
  show ?thesis using core_transform_reversible [OF ok] unfolding run by simp
qed

text \<open>
  A block that holds only a DC coefficient \<open>4 * k\<close> reconstructs to sixteen equal samples \<open>k\<close>.
\<close>

theorem core_transform_dc_uniform:
  assumes "\<bar>k\<bar> \<le> 2 ^ 20"
  shows "inverse_core_transform ((4 * k) # replicate 15 0) = Ok (replicate 16 k)"
proof -
  have k: "- 1048576 \<le> k" "k \<le> 1048576" using assms by auto
  have xs: "(4 * k) # replicate 15 0 = [4 * k, 0, 0, 0, 0, 0, 0, 0, 0, 0, 0, 0, 0, 0, 0, 0]"
    by (simp add: numeral_eq_Suc)
  have r: "in_i32 (4 * k)" "in_i32 (2 * k)" "in_i32 k" "in_i32 (4 * k + 1)" "in_i32 0" "in_i32 1"
    using k by (simp_all add: in_i32_def)
  have h: "sar (4 * k + 1) 1 = 2 * k" "sar (2 * k) 1 = k" "sar 0 1 = 0" "sar 1 1 = 0"
    by (simp_all add: sar_div)
  have a: "t2x2h_round (4 * k, 0, 0, 0) = Ok (2 * k, 2 * k, 2 * k, 2 * k)"
    using r h by (simp add: t2x2h_round_def t2x2h_def checked_in_range Let_def)
  have t: "t2x2h_zero (2 * k, 0, 0, 0) = Ok (k, k, k, k)"
    using r h by (simp add: t2x2h_zero_def t2x2h_def checked_in_range Let_def)
  have z: "inverse_todd (0, 0, 0, 0) = Ok (0, 0, 0, 0)"
    "inverse_todd_odd (0, 0, 0, 0) = Ok (0, 0, 0, 0)" by code_simp+
  show ?thesis
    unfolding xs inverse_core_transform_def inverse_permute_list
    by (simp add: transform_group_def a z t numeral_eq_Suc)
qed

lemma core_transform_dc_uniform_witness:
  "inverse_core_transform (16 # replicate 15 0) = Ok (replicate 16 4)"
  using core_transform_dc_uniform [of 4] by simp

text \<open>
  C31: the first level chroma transforms, \<open>inverse_chroma_420\<close> on four and \<open>inverse_chroma_422\<close> on
  eight values, never panic, and when they succeed their result is in range and determines their
  input.
\<close>

theorem chroma_transforms_reversible:
  assumes "ok4 x" "ok_block 8 cs"
  shows "inverse_chroma_420 x \<noteq> Panic \<and> inverse_chroma_422 cs \<noteq> Panic \<and>
    (\<forall>y. inverse_chroma_420 x = Ok y \<longrightarrow> ok4 y \<and> chroma_420_undo y = x) \<and>
    (\<forall>ys. inverse_chroma_422 cs = Ok ys \<longrightarrow> ok_block 8 ys \<and> chroma_422_undo ys = cs)"
  using chroma_420.no_panic chroma_420.keeps chroma_420.undo_op
    chroma_422.no_panic chroma_422.keeps chroma_422.undo_op assms by blast

lemma chroma_transforms_reversible_witness:
  "chroma_422_undo [4, -3, -4, -2, 12, -2, -3, -1] = [1, 2, 3, 4, 5, 6, 7, 8]"
proof -
  have x: "ok4 (5, 6, 7, 8)" by (simp add: ok4_def in_i32_def)
  have cs: "ok_block 8 [1, 2, 3, 4, 5, 6, 7, 8]" by (simp add: ok_block_def in_i32_def)
  have run: "inverse_chroma_422 [1, 2, 3, 4, 5, 6, 7, 8] = Ok [4, -3, -4, -2, 12, -2, -3, -1]"
    by code_simp
  show ?thesis using chroma_transforms_reversible [OF x cs] unfolding run by simp
qed

end
