(* ===== verification/Core_Bounds.thy ===== *)
theory Core_Bounds
  imports Core_Transform
begin

text \<open>
  The checked arithmetic of the core transform never overflows on the coefficients a conforming
  stream carries: with every coefficient at most \<open>2 ^ 23\<close> in magnitude the transform succeeds.
\<close>

section \<open>A calculus of bounds\<close>

text \<open>
  A calculus of bounds: each rule runs one checked step whose operands are bounded and passes a
  bound of the result on. Shifts never enlarge the bound.
\<close>

lemma abs_sar_le:
  assumes "\<bar>x\<bar> \<le> A"
  shows "\<bar>sar x n\<bar> \<le> A"
proof -
  have p: "(1::int) \<le> 2 ^ n" by simp
  have A: "0 \<le> A" using assms by linarith
  have pow: "(2::int) ^ n \<noteq> 0" by simp
  have "A * 1 \<le> A * 2 ^ n" using A p by (intro mult_left_mono) auto
  then have "x \<le> A * 2 ^ n" "(- A) * 2 ^ n \<le> x" using assms by auto
  then have "x div 2 ^ n \<le> (A * 2 ^ n) div 2 ^ n" "((- A) * 2 ^ n) div 2 ^ n \<le> x div 2 ^ n"
    by (intro zdiv_mono1; simp)+
  then show ?thesis unfolding sar_div nonzero_mult_div_cancel_right [OF pow] by linarith
qed

lemma bounded_steps:
  assumes a: "\<bar>a\<bar> \<le> A" and b: "\<bar>b\<bar> \<le> B" and C: "A + B \<le> 2147483647"
    and k: "\<And>c. \<bar>c\<bar> \<le> A + B \<Longrightarrow> \<exists>y. f c = Ok y \<and> Q y"
  shows "\<exists>y. let_try (checked_add a b) f = Ok y \<and> Q y"
    and "\<exists>y. let_try (checked_sub a b) f = Ok y \<and> Q y"
proof -
  have "\<bar>a + b\<bar> \<le> A + B" "\<bar>a - b\<bar> \<le> A + B" using a b by auto
  moreover from this have "in_i32 (a + b)" "in_i32 (a - b)" using C by (auto simp: in_i32_def)
  ultimately show "\<exists>y. let_try (checked_add a b) f = Ok y \<and> Q y"
    "\<exists>y. let_try (checked_sub a b) f = Ok y \<and> Q y" using k by (simp_all add: checked_in_range)
qed

lemma bounded_half_step:
  assumes a: "\<bar>a\<bar> \<le> A" and A: "4 \<le> A \<and> A \<le> 500000000"
    and k: "\<And>c. \<bar>c\<bar> \<le> A \<Longrightarrow> \<exists>y. f c = Ok y \<and> Q y"
  shows "\<exists>y. let_try (half_up a) f = Ok y \<and> Q y"
proof -
  have "a + 1 \<le> A * 2" "- A * 2 \<le> a + 1" using a A by auto
  then have "(a + 1) div 2 \<le> A" "- A \<le> (a + 1) div 2" by linarith+
  then have "\<bar>half a\<bar> \<le> A" unfolding half_def sar_div by (simp add: abs_le_iff)
  moreover have "in_i32 (a + 1)" using a A by (auto simp: in_i32_def)
  ultimately show ?thesis using k by (auto simp: half_up_def half_def checked_in_range)
qed

lemma bounded_three_step:
  assumes a: "\<bar>a\<bar> \<le> A" and Ar: "4 \<le> A \<and> A \<le> 500000000 \<and> 0 \<le> r \<and> r \<le> 4 \<and> 2 \<le> n"
    and k: "\<And>c. \<bar>c\<bar> \<le> A \<Longrightarrow> \<exists>y. f c = Ok y \<and> Q y"
  shows "\<exists>y. let_try (three_shift a r n) f = Ok y \<and> Q y"
proof -
  have A: "4 \<le> A \<and> A \<le> 500000000" and r: "0 \<le> r \<and> r \<le> 4 \<and> 2 \<le> n" using Ar by auto
  have i: "in_i32 (a * 3)" "in_i32 (a * 3 + r)" using a A r by (auto simp: in_i32_def)
  obtain m where n: "n = 2 + m" using r le_Suc_ex by metis
  have e: "three a r n = sar (sar (a * 3 + r) 2) m"
    by (simp add: three_def sar_def drop_bit_drop_bit n add.commute)
  have "a * 3 + r \<le> A * 4" "- A * 4 \<le> a * 3 + r" using a A r by auto
  then have "(a * 3 + r) div 4 \<le> A" "- A \<le> (a * 3 + r) div 4" by linarith+
  then have "\<bar>sar (a * 3 + r) 2\<bar> \<le> A" unfolding sar_div by (simp add: abs_le_iff)
  then have "\<bar>three a r n\<bar> \<le> A" unfolding e by (rule abs_sar_le)
  then show ?thesis using k i by (auto simp: three_shift_def three_def checked_in_range)
qed

lemma bounded_neg_step:
  assumes "\<bar>a\<bar> \<le> A" "A \<le> 2147483647" "\<And>c. \<bar>c\<bar> \<le> A \<Longrightarrow> \<exists>y. f c = Ok y \<and> Q y"
  shows "\<exists>y. let_try (ok_or e (i32_checked_neg a)) f = Ok y \<and> Q y"
proof -
  have "in_i32 (- a)" "\<bar>- a\<bar> \<le> A" using assms(1,2) by (auto simp: in_i32_def)
  then show ?thesis using assms(3) by (simp add: i32_checked_neg_def)
qed

lemmas bounded_unary_steps =
  bounded_half_step bounded_three_step bounded_neg_step

definition bound4 :: "int \<Rightarrow> i32x4 \<Rightarrow> bool" where
  "bound4 B = (\<lambda>(a, b, c, d). \<bar>a\<bar> \<le> B \<and> \<bar>b\<bar> \<le> B \<and> \<bar>c\<bar> \<le> B \<and> \<bar>d\<bar> \<le> B)"

lemma bounded_done:
  assumes "\<bar>a\<bar> \<le> A" "\<bar>b\<bar> \<le> B" "\<bar>c\<bar> \<le> C" "\<bar>d\<bar> \<le> D" "A \<le> K \<and> B \<le> K \<and> C \<le> K \<and> D \<le> K"
  shows "\<exists>y. Ok (a, b, c, d) = Ok y \<and> bound4 K y"
  using assms by (simp add: bound4_def)

lemma inverse_todd_total:
  assumes "bound4 8388608 x"
  shows "\<exists>y. inverse_todd x = Ok y \<and> bound4 159383552 y"
proof -
  obtain v0 v1 v2 v3 where x: "x = (v0, v1, v2, v3)" by (cases x)
  have b: "\<bar>v0\<bar> \<le> 8388608" "\<bar>v1\<bar> \<le> 8388608" "\<bar>v2\<bar> \<le> 8388608" "\<bar>v3\<bar> \<le> 8388608"
    using assms by (auto simp: bound4_def x)
  show ?thesis
    using b unfolding inverse_todd_def x prod.case
    by - (((rule bounded_steps, (assumption | rule abs_sar_le, assumption),
          (assumption | rule abs_sar_le, assumption), simp (no_asm)) |
        (rule bounded_unary_steps, assumption, simp (no_asm)))+,
      rule bounded_done, assumption, assumption, assumption, assumption, simp (no_asm))
qed

lemma inverse_todd_odd_total:
  assumes "bound4 8388608 x"
  shows "\<exists>y. inverse_todd_odd x = Ok y \<and> bound4 159383552 y"
proof -
  obtain v0 v1 v2 v3 where x: "x = (v0, v1, v2, v3)" by (cases x)
  have b: "\<bar>v0\<bar> \<le> 8388608" "\<bar>v1\<bar> \<le> 8388608" "\<bar>v2\<bar> \<le> 8388608" "\<bar>v3\<bar> \<le> 8388608"
    using assms by (auto simp: bound4_def x)
  show ?thesis
    using b unfolding inverse_todd_odd_def x prod.case Let_def
    by - (((rule bounded_steps, (assumption | rule abs_sar_le, assumption),
          (assumption | rule abs_sar_le, assumption), simp (no_asm)) |
        (rule bounded_unary_steps, assumption, simp (no_asm)))+,
      rule bounded_done, assumption, assumption, assumption, assumption, simp (no_asm))
qed

lemma t2x2h_total:
  assumes r: "r = 0 \<or> r = 1"
  shows "bound4 8388608 x \<Longrightarrow> \<exists>y. t2x2h r x = Ok y \<and> bound4 159383552 y"
    and "bound4 159383552 x \<Longrightarrow> \<exists>y. t2x2h r x = Ok y \<and> bound4 1275068418 y"
proof -
  obtain v0 v1 v2 v3 where x: "x = (v0, v1, v2, v3)" by (cases x)
  have r1: "\<bar>r\<bar> \<le> 2" using r by auto
  show "\<exists>y. t2x2h r x = Ok y \<and> bound4 159383552 y" if "bound4 8388608 x"
  proof -
    have "\<bar>v0\<bar> \<le> 8388608" "\<bar>v1\<bar> \<le> 8388608" "\<bar>v2\<bar> \<le> 8388608" "\<bar>v3\<bar> \<le> 8388608"
      using that by (auto simp: bound4_def x)
    then show ?thesis
      using r1 unfolding t2x2h_def x prod.case Let_def
      by - ((rule bounded_steps, (assumption | rule abs_sar_le, assumption),
            (assumption | rule abs_sar_le, assumption), simp (no_asm))+, rule bounded_done, assumption, assumption, assumption, assumption, simp (no_asm))
  qed
  show "\<exists>y. t2x2h r x = Ok y \<and> bound4 1275068418 y" if "bound4 159383552 x"
  proof -
    have "\<bar>v0\<bar> \<le> 159383552" "\<bar>v1\<bar> \<le> 159383552" "\<bar>v2\<bar> \<le> 159383552" "\<bar>v3\<bar> \<le> 159383552"
      using that by (auto simp: bound4_def x)
    then show ?thesis
      using r1 unfolding t2x2h_def x prod.case Let_def
      by - ((rule bounded_steps, (assumption | rule abs_sar_le, assumption),
            (assumption | rule abs_sar_le, assumption), simp (no_asm))+, rule bounded_done, assumption, assumption, assumption, assumption, simp (no_asm))
  qed
qed

lemma bound4_mono: "bound4 A x \<Longrightarrow> A \<le> B \<Longrightarrow> bound4 B x"
  by (auto simp: bound4_def)

text \<open>One layer of the transform: the positions done so far carry the larger bound.\<close>

definition layer_bound :: "nat set \<Rightarrow> int \<Rightarrow> int \<Rightarrow> i32 list \<Rightarrow> bool" where
  "layer_bound S A B xs \<longleftrightarrow> length xs = 16 \<and> (\<forall>i < 16. \<bar>xs ! i\<bar> \<le> (if i \<in> S then B else A))"

lemma layer_step:
  assumes xs: "layer_bound S A B xs" and g: "group_in 16 (i0, i1, i2, i3)"
    and disj: "i0 \<notin> S" "i1 \<notin> S" "i2 \<notin> S" "i3 \<notin> S"
    and f: "\<And>x. bound4 A x \<Longrightarrow> \<exists>y. f x = Ok y \<and> bound4 B y"
    and k: "\<And>ys. layer_bound (S \<union> {i0, i1, i2, i3}) A B ys \<Longrightarrow> \<exists>zs. h ys = Ok zs \<and> Q zs"
  shows "\<exists>zs. let_try (transform_group (i0, i1, i2, i3) f xs) h = Ok zs \<and> Q zs"
proof -
  have len: "length xs = 16" and d: "distinct [i0, i1, i2, i3]" "i0 < 16" "i1 < 16" "i2 < 16" "i3 < 16"
    using xs g by (auto simp: layer_bound_def group_in_def)
  have "bound4 A (xs ! i0, xs ! i1, xs ! i2, xs ! i3)"
    using xs d disj by (auto simp: layer_bound_def bound4_def)
  then obtain a b c e where run: "f (xs ! i0, xs ! i1, xs ! i2, xs ! i3) = Ok (a, b, c, e)"
    and v: "bound4 B (a, b, c, e)" using f by (metis prod_cases4)
  let ?ys = "xs[i0 := a, i1 := b, i2 := c, i3 := e]"
  have "layer_bound (S \<union> {i0, i1, i2, i3}) A B ?ys"
    using xs v d len by (auto simp: layer_bound_def bound4_def nth_list_update)
  then show ?thesis using k run by (simp add: transform_group_def)
qed

lemma layer_start: "layer_bound {} A B xs \<longleftrightarrow> length xs = 16 \<and> (\<forall>x \<in> set xs. \<bar>x\<bar> \<le> A)"
  unfolding layer_bound_def all_set_conv_all_nth by auto

lemma inverse_permute_bound:
  assumes "layer_bound {} A B xs" shows "layer_bound {} A B (inverse_permute xs)"
proof -
  have "length xs = 16" using assms by (simp add: layer_bound_def)
  then show ?thesis
  proof (rule block16_exhaust)
    fix a b c d e f g h i j k l m n p q
    assume "xs = [a, b, c, d, e, f, g, h, i, j, k, l, m, n, p, q]"
    then show ?thesis using assms by (simp add: inverse_permute_list layer_start)
  qed
qed

lemma layer_done:
  assumes "layer_bound S A B xs" and S: "{0..<16} \<subseteq> S" shows "layer_bound {} B C xs"
proof -
  have "\<bar>xs ! i\<bar> \<le> B" if "i < 16" for i
  proof -
    have "i \<in> S" using that S by auto
    then show ?thesis using assms(1) that by (auto simp: layer_bound_def)
  qed
  then show ?thesis using assms(1) by (simp add: layer_bound_def)
qed

lemma last_step: "(\<exists>zs. let_try m Ok = Ok zs \<and> Q zs) \<Longrightarrow> \<exists>zs. m = Ok zs \<and> Q zs"
  by (cases m) auto

lemma core_total:
  assumes "layer_bound {} 8388608 159383552 xs"
  shows "\<exists>ys. inverse_core_transform xs = Ok ys \<and> layer_bound {} 1275068418 1275068418 ys"
proof -
  have f: "bound4 8388608 x \<Longrightarrow> \<exists>y. t2x2h_round x = Ok y \<and> bound4 159383552 y"
    "bound4 159383552 x \<Longrightarrow> \<exists>y. t2x2h_zero x = Ok y \<and> bound4 1275068418 y" for x
    using t2x2h_total [of 1 x] t2x2h_total [of 0 x] by (simp_all add: t2x2h_round_def t2x2h_zero_def)
  have second: "\<exists>zs. let_try (transform_group (0, 3, 12, 15) t2x2h_zero cs) (\<lambda>cs.
     let_try (transform_group (5, 6, 9, 10) t2x2h_zero cs) (\<lambda>cs.
     let_try (transform_group (1, 2, 13, 14) t2x2h_zero cs) (\<lambda>cs.
     transform_group (4, 7, 8, 11) t2x2h_zero cs))) = Ok zs \<and>
     layer_bound {} 1275068418 1275068418 zs"
    if "layer_bound {} 159383552 1275068418 cs" for cs
    by (rule layer_step [OF that _ _ _ _ _ f(2)], (simp add: group_in_def; fail)+,
        rule layer_step [OF _ _ _ _ _ _ f(2)], assumption, (simp add: group_in_def; fail)+,
        rule layer_step [OF _ _ _ _ _ _ f(2)], assumption, (simp add: group_in_def; fail)+,
        rule last_step, rule layer_step [OF _ _ _ _ _ _ f(2)], assumption,
        (simp add: group_in_def; fail)+, simp, erule layer_done,
        simp add: upt_conv_Cons subset_iff, presburger)
  show ?thesis
    unfolding inverse_core_transform_def
    by (rule layer_step [OF inverse_permute_bound [OF assms] _ _ _ _ _ f(1)],
        (simp add: group_in_def; fail)+,
        rule layer_step [OF _ _ _ _ _ _ inverse_todd_total], assumption,
        (simp add: group_in_def; fail)+,
        rule layer_step [OF _ _ _ _ _ _ inverse_todd_total], assumption,
        (simp add: group_in_def; fail)+,
        rule layer_step [OF _ _ _ _ _ _ inverse_todd_odd_total], assumption,
        (simp add: group_in_def; fail)+, rule second, erule layer_done,
        simp add: subset_iff, presburger)
qed

section \<open>Properties\<close>

text \<open>
  C17: the inverse core transform succeeds on every block whose coefficients have magnitude at most
  \<open>2 ^ 23\<close>; none of its checked 32-bit operations overflows, and the samples stay below
  \<open>1275068418\<close> in magnitude.
\<close>

theorem core_transform_total:
  assumes "length cs = 16" "\<forall>c \<in> set cs. \<bar>c\<bar> \<le> 2 ^ 23"
  shows "\<exists>ss. inverse_core_transform cs = Ok ss \<and> length ss = 16 \<and>
    (\<forall>s \<in> set ss. \<bar>s\<bar> \<le> 1275068418)"
proof -
  have "layer_bound {} 8388608 159383552 cs" using assms by (simp add: layer_start)
  from core_total [OF this] show ?thesis by (auto simp: layer_start)
qed

lemma core_transform_total_witness:
  "\<exists>ss. inverse_core_transform (replicate 16 8388608) = Ok ss \<and> length ss = 16 \<and>
    (\<forall>s \<in> set ss. \<bar>s\<bar> \<le> 1275068418)"
  by (rule core_transform_total) simp_all

end
