(* ===== verification/Overlap.thy ===== *)
theory Overlap
  imports Core_Transform
begin

text \<open>
  The inverse overlap postfilters of \<open>crates/jxr-math/src/overlap.rs\<close>: the four sample and the
  4-by-4 filter, and the two sample and 2-by-2 filters of subsampled chroma. All are interpreted
  as \<open>lossless_kernel\<close>.
\<close>

definition overlap_neg :: "i32 \<Rightarrow> (math_error, i32) result" where
  "overlap_neg value = ok_or (overflow ''overlap negation'') (i32_checked_neg value)"

lemma overlap_neg_Ok [outcome_simps]: "overlap_neg a = Ok c \<longleftrightarrow> in_i32 (- a) \<and> c = - a"
  by (simp add: overlap_neg_def outcome_simps)

lemma overlap_neg_no_panic [simp]: "overlap_neg a \<noteq> Panic"
  by (simp add: overlap_neg_def)

lemma half_three_no_panic [simp]: "half_up x \<noteq> Panic" "three_shift x r n \<noteq> Panic"
  by (simp_all add: half_up_def three_shift_def let_try_eq_Panic)

section \<open>Rotations and scalings\<close>

definition inverse_rotate :: "i32x2 \<Rightarrow> (math_error, i32x2) result" where
  "inverse_rotate = (\<lambda>(v0, v1).
     let_try (half_up v1) (\<lambda>t. let_try (checked_sub v0 t) (\<lambda>v0.
     let_try (half_up v0) (\<lambda>t. let_try (checked_add v1 t) (\<lambda>v1.
     Ok (v0, v1))))))"

definition inverse_scale :: "i32x2 \<Rightarrow> (math_error, i32x2) result" where
  "inverse_scale = (\<lambda>(v0, v1).
     let_try (checked_add v0 v1) (\<lambda>v0.
     let_try (checked_sub (sar v0 1) v1) (\<lambda>v1.
     let_try (checked_mul v1 3) (\<lambda>t. let_try (checked_add v0 (sar t 3)) (\<lambda>v0.
     let_try (checked_mul v0 3) (\<lambda>t. let_try (checked_add v1 (sar t 4)) (\<lambda>v1.
     let_try (checked_add v1 (sar v0 7)) (\<lambda>v1.
     let_try (checked_sub v1 (sar v0 10)) (\<lambda>v1.
     Ok (v0, v1))))))))))"

definition inverse_rotate_undo :: "i32x2 \<Rightarrow> i32x2" where
  "inverse_rotate_undo = (\<lambda>(v0, v1). let v1 = v1 - half v0; v0 = v0 + half v1 in (v0, v1))"

definition inverse_scale_undo :: "i32x2 \<Rightarrow> i32x2" where
  "inverse_scale_undo = (\<lambda>(v0, v1).
     let v1 = v1 + sar v0 10; v1 = v1 - sar v0 7; v1 = v1 - sar (v0 * 3) 4;
         v0 = v0 - sar (v1 * 3) 3; v1 = sar v0 1 - v1; v0 = v0 - v1
     in (v0, v1))"

lemma inverse_rotate_lossless: "lossless_kernel inverse_rotate ok2 inverse_rotate_undo"
proof (rule lossless_kernelI)
  fix x y assume "ok2 x" "inverse_rotate x = Ok y"
  then show "ok2 y \<and> inverse_rotate_undo y = x"
    by (cases x) (auto simp: inverse_rotate_def inverse_rotate_undo_def ok2_def outcome_simps)
next
  fix x show "inverse_rotate x \<noteq> Panic"
    by (cases x) (simp add: inverse_rotate_def let_try_eq_Panic)
qed

lemma inverse_scale_lossless: "lossless_kernel inverse_scale ok2 inverse_scale_undo"
proof (rule lossless_kernelI)
  fix x y assume "ok2 x" "inverse_scale x = Ok y"
  then show "ok2 y \<and> inverse_scale_undo y = x"
    by (cases x) (auto simp: inverse_scale_def inverse_scale_undo_def ok2_def outcome_simps)
next
  fix x show "inverse_scale x \<noteq> Panic"
    by (cases x) (simp add: inverse_scale_def let_try_eq_Panic)
qed

section \<open>Operators on four values\<close>

definition inverse_hadamard_post :: "i32x4 \<Rightarrow> (math_error, i32x4) result" where
  "inverse_hadamard_post = (\<lambda>(v0, v1, v2, v3).
     let_try (checked_sub v1 v2) (\<lambda>v1.
     let_try (three_shift v3 4 3) (\<lambda>t. let_try (checked_add v0 t) (\<lambda>v0.
     let_try (checked_sub v3 (sar v1 1)) (\<lambda>v3.
     let_try (checked_sub v0 v1) (\<lambda>t. let_try (checked_sub (sar t 1) v2) (\<lambda>v2.
     let (v2, v3) = (v3, v2) in
     let_try (checked_sub v0 v3) (\<lambda>v0.
     let_try (checked_add v1 v2) (\<lambda>v1.
     Ok (v0, v1, v2, v3))))))))))"

definition inverse_todd_odd_post :: "i32x4 \<Rightarrow> (math_error, i32x4) result" where
  "inverse_todd_odd_post = (\<lambda>(v0, v1, v2, v3).
     let_try (checked_add v3 v0) (\<lambda>v3.
     let_try (checked_sub v2 v1) (\<lambda>v2.
     let first = sar v3 1; second = sar v2 1 in
     let_try (checked_sub v0 first) (\<lambda>v0.
     let_try (checked_add v1 second) (\<lambda>v1.
     let_try (three_shift v1 6 3) (\<lambda>t. let_try (checked_sub v0 t) (\<lambda>v0.
     let_try (three_shift v0 2 2) (\<lambda>t. let_try (checked_add v1 t) (\<lambda>v1.
     let_try (three_shift v1 4 3) (\<lambda>t. let_try (checked_sub v0 t) (\<lambda>v0.
     let_try (checked_sub v1 second) (\<lambda>v1.
     let_try (checked_add v0 first) (\<lambda>v0.
     let_try (checked_add v2 v1) (\<lambda>v2.
     let_try (checked_sub v3 v0) (\<lambda>v3.
     Ok (v0, v1, v2, v3))))))))))))))))"

definition inverse_hadamard_zero :: "i32x4 \<Rightarrow> (math_error, i32x4) result" where
  "inverse_hadamard_zero values = inverse_hadamard_2x2 0 values"

definition inverse_hadamard_post_undo :: "i32x4 \<Rightarrow> i32x4" where
  "inverse_hadamard_post_undo = (\<lambda>(v0, v1, v2, v3).
     let v1 = v1 - v2; v0 = v0 + v3; t = v2; v2 = sar (v0 - v1) 1 - v3;
         v3 = t + sar v1 1; v0 = v0 - three v3 4 3
     in (v0, v1 + v2, v2, v3))"

definition inverse_todd_odd_post_undo :: "i32x4 \<Rightarrow> i32x4" where
  "inverse_todd_odd_post_undo = (\<lambda>(v0, v1, v2, v3).
     let v3 = v3 + v0; v2 = v2 - v1; first = sar v3 1; second = sar v2 1;
         v0 = v0 - first; v1 = v1 + second;
         v0 = v0 + three v1 4 3; v1 = v1 - three v0 2 2; v0 = v0 + three v1 6 3;
         v1 = v1 - second; v0 = v0 + first; v2 = v2 + v1; v3 = v3 - v0
     in (v0, v1, v2, v3))"

lemma inverse_hadamard_post_lossless:
  "lossless_kernel inverse_hadamard_post ok4 inverse_hadamard_post_undo"
proof (rule lossless_kernelI)
  fix x y assume "ok4 x" "inverse_hadamard_post x = Ok y"
  then show "ok4 y \<and> inverse_hadamard_post_undo y = x"
    by (cases x)
       (auto simp: inverse_hadamard_post_def inverse_hadamard_post_undo_def ok4_def outcome_simps
          Let_def)
next
  fix x show "inverse_hadamard_post x \<noteq> Panic"
    by (cases x) (simp add: inverse_hadamard_post_def let_try_eq_Panic)
qed

lemma inverse_todd_odd_post_lossless:
  "lossless_kernel inverse_todd_odd_post ok4 inverse_todd_odd_post_undo"
proof (rule lossless_kernelI)
  fix x y assume "ok4 x" "inverse_todd_odd_post x = Ok y"
  then show "ok4 y \<and> inverse_todd_odd_post_undo y = x"
    by (cases x)
       (auto simp: inverse_todd_odd_post_def inverse_todd_odd_post_undo_def ok4_def outcome_simps
          Let_def, simp_all add: algebra_simps)
next
  fix x show "inverse_todd_odd_post x \<noteq> Panic"
    by (cases x) (simp add: inverse_todd_odd_post_def let_try_eq_Panic Let_def)
qed

section \<open>The postfilters\<close>

definition inverse_overlap_filter_4 :: "i32x4 \<Rightarrow> (math_error, i32x4) result" where
  "inverse_overlap_filter_4 = (\<lambda>(v0, v1, v2, v3).
     let_try (checked_add v0 v3) (\<lambda>v0.
     let_try (checked_add v1 v2) (\<lambda>v1.
     let_try (half_up v0) (\<lambda>t. let_try (checked_sub v3 t) (\<lambda>v3.
     let_try (half_up v1) (\<lambda>t. let_try (checked_sub v2 t) (\<lambda>v2.
     let_try (inverse_scale (v0, v3)) (\<lambda>(v0, v3).
     let_try (inverse_scale (v1, v2)) (\<lambda>(v1, v2).
     let_try (three_shift v3 4 3) (\<lambda>t. let_try (checked_add v0 t) (\<lambda>v0.
     let_try (three_shift v2 4 3) (\<lambda>t. let_try (checked_add v1 t) (\<lambda>v1.
     let_try (checked_sub v3 (sar v0 1)) (\<lambda>v3.
     let_try (checked_sub v2 (sar v1 1)) (\<lambda>v2.
     let_try (checked_add v0 v3) (\<lambda>v0.
     let_try (checked_add v1 v2) (\<lambda>v1.
     let_try (overlap_neg v3) (\<lambda>v3.
     let_try (overlap_neg v2) (\<lambda>v2.
     let_try (inverse_rotate (v2, v3)) (\<lambda>(v2, v3).
     let_try (half_up v0) (\<lambda>t. let_try (checked_add v3 t) (\<lambda>v3.
     let_try (half_up v1) (\<lambda>t. let_try (checked_add v2 t) (\<lambda>v2.
     let_try (checked_sub v0 v3) (\<lambda>v0.
     let_try (checked_sub v1 v2) (\<lambda>v1.
     Ok (v0, v1, v2, v3)))))))))))))))))))))))))))"

definition overlap_groups :: "(nat \<times> nat \<times> nat \<times> nat) list" where
  "overlap_groups = [(0, 3, 12, 15), (1, 2, 13, 14), (4, 7, 8, 11), (5, 6, 9, 10)]"

definition overlap_rotations :: "(nat \<times> nat) list" where
  "overlap_rotations = [(13, 12), (9, 8), (7, 3), (6, 2)]"

definition overlap_scales :: "(nat \<times> nat) list" where
  "overlap_scales = [(0, 15), (1, 14), (4, 11), (5, 10)]"

text \<open>The \<open>apply_group\<close> of the file is the \<open>transform_group\<close> of \<open>transform.rs\<close> word for word.\<close>

definition inverse_overlap_filter_4x4 :: "i32 list \<Rightarrow> (math_error, i32 list) result" where
  "inverse_overlap_filter_4x4 values =
     let_try (each_try (\<lambda>indices. transform_group indices inverse_hadamard_zero)
       overlap_groups values) (\<lambda>values.
     let_try (each_try (\<lambda>indices. apply_pair indices inverse_rotate) overlap_rotations values)
       (\<lambda>values.
     let_try (transform_group (10, 11, 14, 15) inverse_todd_odd_post values) (\<lambda>values.
     let_try (each_try (\<lambda>indices. apply_pair indices inverse_scale) overlap_scales values)
       (\<lambda>values.
     each_try (\<lambda>indices. transform_group indices inverse_hadamard_post) overlap_groups values))))"

text \<open>The step \<open>(x + 2) >> 2\<close> of the two sample filters.\<close>

definition quarter_up :: "i32 \<Rightarrow> (math_error, i32) result" where
  "quarter_up x = let_try (checked_add x 2) (\<lambda>t. Ok (sar t 2))"

definition inverse_overlap_filter_2x2 :: "i32x4 \<Rightarrow> (math_error, i32x4) result" where
  "inverse_overlap_filter_2x2 = (\<lambda>(v0, v1, v2, v3).
     let_try (checked_add v0 v3) (\<lambda>v0.
     let_try (checked_add v1 v2) (\<lambda>v1.
     let_try (half_up v0) (\<lambda>t. let_try (checked_sub v3 t) (\<lambda>v3.
     let_try (half_up v1) (\<lambda>t. let_try (checked_sub v2 t) (\<lambda>v2.
     let_try (quarter_up v0) (\<lambda>t. let_try (checked_add v1 t) (\<lambda>v1.
     let_try (half_up v1) (\<lambda>t. let_try (checked_add v0 t) (\<lambda>v0.
     let_try (checked_add v0 (sar v1 5)) (\<lambda>v0.
     let_try (checked_add v0 (sar v1 9)) (\<lambda>v0.
     let_try (checked_add v0 (sar v1 13)) (\<lambda>v0.
     let_try (quarter_up v0) (\<lambda>t. let_try (checked_add v1 t) (\<lambda>v1.
     let_try (half_up v0) (\<lambda>t. let_try (checked_add v3 t) (\<lambda>v3.
     let_try (half_up v1) (\<lambda>t. let_try (checked_add v2 t) (\<lambda>v2.
     let_try (checked_sub v0 v3) (\<lambda>v0.
     let_try (checked_sub v1 v2) (\<lambda>v1.
     Ok (v0, v1, v2, v3)))))))))))))))))))))))"

definition inverse_overlap_filter_2 :: "i32x2 \<Rightarrow> (math_error, i32x2) result" where
  "inverse_overlap_filter_2 = (\<lambda>(v0, v1).
     let_try (quarter_up v0) (\<lambda>t. let_try (checked_add v1 t) (\<lambda>v1.
     let_try (half_up v1) (\<lambda>t. let_try (checked_add v0 t) (\<lambda>v0.
     let_try (checked_add v0 (sar v1 5)) (\<lambda>v0.
     let_try (checked_add v0 (sar v1 9)) (\<lambda>v0.
     let_try (checked_add v0 (sar v1 13)) (\<lambda>v0.
     let_try (quarter_up v0) (\<lambda>t. let_try (checked_add v1 t) (\<lambda>v1.
     Ok (v0, v1)))))))))))"

section \<open>The postfilters are lossless\<close>

definition quarter :: "i32 \<Rightarrow> i32" where "quarter x = sar (x + 2) 2"

lemma quarter_up_Ok [outcome_simps]: "quarter_up x = Ok y \<longleftrightarrow> in_i32 (x + 2) \<and> y = quarter x"
  by (auto simp: quarter_up_def quarter_def outcome_simps)

lemma quarter_up_no_panic [simp]: "quarter_up x \<noteq> Panic"
  by (simp add: quarter_up_def let_try_eq_Panic)

definition filter_2_undo :: "i32x2 \<Rightarrow> i32x2" where
  "filter_2_undo = (\<lambda>(v0, v1).
     let v1 = v1 - quarter v0; v0 = v0 - sar v1 13; v0 = v0 - sar v1 9; v0 = v0 - sar v1 5;
         v0 = v0 - half v1; v1 = v1 - quarter v0
     in (v0, v1))"

definition filter_2x2_undo :: "i32x4 \<Rightarrow> i32x4" where
  "filter_2x2_undo = (\<lambda>(v0, v1, v2, v3).
     let v1 = v1 + v2; v0 = v0 + v3; v2 = v2 - half v1; v3 = v3 - half v0;
         (v0, v1) = filter_2_undo (v0, v1);
         v2 = v2 + half v1; v3 = v3 + half v0
     in (v0 - v3, v1 - v2, v2, v3))"

definition filter_4_undo :: "i32x4 \<Rightarrow> i32x4" where
  "filter_4_undo = (\<lambda>(v0, v1, v2, v3).
     let v1 = v1 + v2; v0 = v0 + v3; v2 = v2 - half v1; v3 = v3 - half v0;
         (v2, v3) = inverse_rotate_undo (v2, v3);
         v2 = - v2; v3 = - v3; v1 = v1 - v2; v0 = v0 - v3;
         v2 = v2 + sar v1 1; v3 = v3 + sar v0 1;
         v1 = v1 - three v2 4 3; v0 = v0 - three v3 4 3;
         (v1, v2) = inverse_scale_undo (v1, v2);
         (v0, v3) = inverse_scale_undo (v0, v3);
         v2 = v2 + half v1; v3 = v3 + half v0
     in (v0 - v3, v1 - v2, v2, v3))"

lemma filter_2_lossless: "lossless_kernel inverse_overlap_filter_2 ok2 filter_2_undo"
proof (rule lossless_kernelI)
  fix x y assume "ok2 x" "inverse_overlap_filter_2 x = Ok y"
  then show "ok2 y \<and> filter_2_undo y = x"
    by (cases x)
       (auto simp: inverse_overlap_filter_2_def filter_2_undo_def ok2_def outcome_simps)
next
  fix x show "inverse_overlap_filter_2 x \<noteq> Panic"
    by (cases x) (simp add: inverse_overlap_filter_2_def let_try_eq_Panic)
qed

lemma filter_2x2_chain:
  "inverse_overlap_filter_2x2 (v0, v1, v2, v3) =
     let_try (checked_add v0 v3) (\<lambda>v0.
     let_try (checked_add v1 v2) (\<lambda>v1.
     let_try (half_up v0) (\<lambda>t. let_try (checked_sub v3 t) (\<lambda>v3.
     let_try (half_up v1) (\<lambda>t. let_try (checked_sub v2 t) (\<lambda>v2.
     let_try (inverse_overlap_filter_2 (v0, v1)) (\<lambda>(v0, v1).
     let_try (half_up v0) (\<lambda>t. let_try (checked_add v3 t) (\<lambda>v3.
     let_try (half_up v1) (\<lambda>t. let_try (checked_add v2 t) (\<lambda>v2.
     let_try (checked_sub v0 v3) (\<lambda>v0.
     let_try (checked_sub v1 v2) (\<lambda>v1.
     Ok (v0, v1, v2, v3))))))))))))))"
  by (simp add: inverse_overlap_filter_2x2_def inverse_overlap_filter_2_def let_try_assoc)

lemma filter_2_undone: "inverse_overlap_filter_2 x = Ok y \<Longrightarrow> filter_2_undo y = x"
  by (cases x) (auto simp: inverse_overlap_filter_2_def filter_2_undo_def outcome_simps)

lemma filter_2x2_lossless: "lossless_kernel inverse_overlap_filter_2x2 ok4 filter_2x2_undo"
proof (rule lossless_kernelI)
  fix x y assume "ok4 x" "inverse_overlap_filter_2x2 x = Ok y"
  then show "ok4 y \<and> filter_2x2_undo y = x"
    by (cases x)
       (auto simp: filter_2x2_chain filter_2x2_undo_def ok4_def outcome_simps
          dest!: filter_2_undone)
next
  fix x show "inverse_overlap_filter_2x2 x \<noteq> Panic"
    by (cases x) (simp add: inverse_overlap_filter_2x2_def let_try_eq_Panic)
qed

lemma inverse_scale_undone: "inverse_scale x = Ok y \<Longrightarrow> inverse_scale_undo y = x"
  by (cases x) (auto simp: inverse_scale_def inverse_scale_undo_def outcome_simps)

lemma inverse_rotate_undone:
  "inverse_rotate x = Ok y \<Longrightarrow> inverse_rotate_undo y = x"
  "inverse_rotate x = Ok (a, b) \<Longrightarrow> in_i32 a \<and> in_i32 b"
  by (cases x, auto simp: inverse_rotate_def inverse_rotate_undo_def outcome_simps)+

lemma filter_4_lossless: "lossless_kernel inverse_overlap_filter_4 ok4 filter_4_undo"
proof (rule lossless_kernelI)
  fix x y assume "ok4 x" "inverse_overlap_filter_4 x = Ok y"
  then show "ok4 y \<and> filter_4_undo y = x"
    by (cases x)
       (auto simp: inverse_overlap_filter_4_def filter_4_undo_def ok4_def outcome_simps
          dest!: inverse_scale_undone inverse_rotate_undone(1) )
next
  fix x assume "ok4 x"
  have s: "inverse_scale z \<noteq> Panic" "inverse_rotate z \<noteq> Panic" for z
    by (cases z, simp add: inverse_scale_def inverse_rotate_def let_try_eq_Panic)+
  show "inverse_overlap_filter_4 x \<noteq> Panic"
    by (cases x) (auto simp add: inverse_overlap_filter_4_def let_try_eq_Panic s)
qed

lemma in_range_lists:
  "\<forall>idx \<in> set overlap_groups. group_in 16 idx"
  "\<forall>idx \<in> set overlap_rotations. pair_in 16 idx"
  "\<forall>idx \<in> set overlap_scales. pair_in 16 idx"
  by (simp_all add: overlap_groups_def overlap_rotations_def overlap_scales_def group_in_def
      pair_in_def)

definition filter_4x4_undo :: "i32 list \<Rightarrow> i32 list" where
  "filter_4x4_undo ys =
     each_undo (\<lambda>i. group_undo i (t2x2h_undo 0)) overlap_groups
      (each_undo (\<lambda>i. pair_undo i inverse_rotate_undo) overlap_rotations
      (group_undo (10, 11, 14, 15) inverse_todd_odd_post_undo
      (each_undo (\<lambda>i. pair_undo i inverse_scale_undo) overlap_scales
      (each_undo (\<lambda>i. group_undo i inverse_hadamard_post_undo) overlap_groups ys))))"

lemma hadamard_zero_lossless: "lossless_kernel inverse_hadamard_zero ok4 (t2x2h_undo 0)"
  using t2x2h_lossless [of 0]
  by (simp add: inverse_hadamard_zero_def [abs_def] inverse_hadamard_2x2_def)

lemma filter_4x4_lossless: "lossless_kernel inverse_overlap_filter_4x4 (ok_block 16) filter_4x4_undo"
proof -
  have g: "group_in 16 (10, 11, 14, 15)" by (simp add: group_in_def)
  have k1: "lossless_kernel (each_try (\<lambda>i. transform_group i inverse_hadamard_zero) overlap_groups)
      (ok_block 16) (each_undo (\<lambda>i. group_undo i (t2x2h_undo 0)) overlap_groups)"
    using in_range_lists by (intro lossless_each transform_group_lossless hadamard_zero_lossless) blast
  have k2: "lossless_kernel (each_try (\<lambda>i. apply_pair i inverse_rotate) overlap_rotations)
      (ok_block 16) (each_undo (\<lambda>i. pair_undo i inverse_rotate_undo) overlap_rotations)"
    using in_range_lists by (intro lossless_each apply_pair_lossless inverse_rotate_lossless) blast
  have k3: "lossless_kernel (each_try (\<lambda>i. apply_pair i inverse_scale) overlap_scales)
      (ok_block 16) (each_undo (\<lambda>i. pair_undo i inverse_scale_undo) overlap_scales)"
    using in_range_lists by (intro lossless_each apply_pair_lossless inverse_scale_lossless) blast
  have k4: "lossless_kernel (each_try (\<lambda>i. transform_group i inverse_hadamard_post) overlap_groups)
      (ok_block 16) (each_undo (\<lambda>i. group_undo i inverse_hadamard_post_undo) overlap_groups)"
    using in_range_lists
    by (intro lossless_each transform_group_lossless inverse_hadamard_post_lossless) blast
  note k = lossless_seq [OF k1 lossless_seq [OF k2 lossless_seq
    [OF transform_group_lossless [OF inverse_todd_odd_post_lossless g] lossless_seq [OF k3 k4]]]]
  show ?thesis
    using k by (simp add: inverse_overlap_filter_4x4_def [abs_def] filter_4x4_undo_def [abs_def])
qed

interpretation filter_4: lossless_kernel inverse_overlap_filter_4 ok4 filter_4_undo
  by (rule filter_4_lossless)

interpretation filter_4x4: lossless_kernel inverse_overlap_filter_4x4 "ok_block 16" filter_4x4_undo
  by (rule filter_4x4_lossless)

interpretation filter_2x2: lossless_kernel inverse_overlap_filter_2x2 ok4 filter_2x2_undo
  by (rule filter_2x2_lossless)

interpretation filter_2: lossless_kernel inverse_overlap_filter_2 ok2 filter_2_undo
  by (rule filter_2_lossless)

section \<open>Properties\<close>

text \<open>
  C25: the 4-by-4 overlap filter is reversible: on sixteen \<open>i32\<close> values it never panics, and when
  it succeeds the values stay in range and running its stages backwards gives the input back.
\<close>

theorem overlap_filter_4x4_reversible:
  assumes "ok_block 16 vs"
  shows "case inverse_overlap_filter_4x4 vs of Panic \<Rightarrow> False | Err e \<Rightarrow> True
    | Ok ws \<Rightarrow> ok_block 16 ws \<and> filter_4x4_undo ws = vs"
  using filter_4x4.keeps [OF assms] filter_4x4.no_panic [OF assms] filter_4x4.undo_op [OF assms]
  by (auto split: result.split)

lemma overlap_filter_4x4_reversible_witness:
  "filter_4x4_undo [64, -54, 9, 51, 108, 14, 23, 0, 10, 17, 9, -11, -26, -38, -7, 25] =
     [50, -42, 9, 21, 126, 33, -6, -18, -24, 21, -3, -9, -6, -33, 6, 15]"
proof -
  let ?vs = "[50, -42, 9, 21, 126, 33, -6, -18, -24, 21, -3, -9, -6, -33, 6, 15]"
  have ok: "ok_block 16 ?vs" by (simp add: ok_block_def in_i32_def)
  have run: "inverse_overlap_filter_4x4 ?vs =
      Ok [64, -54, 9, 51, 108, 14, 23, 0, 10, 17, 9, -11, -26, -38, -7, 25]"
    by code_simp
  show ?thesis using overlap_filter_4x4_reversible [OF ok] unfolding run by simp
qed

text \<open>
  The edge filter on four values and the two filters of subsampled chroma are reversible in the
  same sense.
\<close>

theorem overlap_small_filters_reversible:
  assumes "ok4 v" "ok2 p"
  shows "inverse_overlap_filter_4 v \<noteq> Panic \<and> inverse_overlap_filter_2x2 v \<noteq> Panic \<and>
    inverse_overlap_filter_2 p \<noteq> Panic \<and>
    (\<forall>w. inverse_overlap_filter_4 v = Ok w \<longrightarrow> ok4 w \<and> filter_4_undo w = v) \<and>
    (\<forall>w. inverse_overlap_filter_2x2 v = Ok w \<longrightarrow> ok4 w \<and> filter_2x2_undo w = v) \<and>
    (\<forall>q. inverse_overlap_filter_2 p = Ok q \<longrightarrow> ok2 q \<and> filter_2_undo q = p)"
  using filter_4.no_panic filter_4.keeps filter_4.undo_op filter_2x2.no_panic filter_2x2.keeps
    filter_2x2.undo_op filter_2.no_panic filter_2.keeps filter_2.undo_op assms by blast

lemma overlap_small_filters_reversible_witness:
  "filter_4_undo (97, -12, 36, 58) = (100, -3, 20, 7)"
proof -
  have v: "ok4 (100, -3, 20, 7)" by (simp add: ok4_def in_i32_def)
  have p: "ok2 (1, 2)" by (simp add: ok2_def in_i32_def)
  have run: "inverse_overlap_filter_4 (100, -3, 20, 7) = Ok (97, -12, 36, 58)" by code_simp
  show ?thesis using overlap_small_filters_reversible [OF v p] unfolding run by simp
qed

end
