(* ===== verification/Prediction.thy ===== *)
theory Prediction
  imports Core_Transform
begin

text \<open>
  In-macroblock high-pass prediction, \<open>crates/jxr-math/src/prediction.rs\<close>. A macroblock is the
  256 coefficients of its 4-by-4 blocks in raster order; prediction adds the neighbour's
  coefficients to three positions of each block.
\<close>

datatype highpass_prediction = NoPrediction | FromLeft | FromTop

definition predict_position :: "nat \<Rightarrow> nat \<Rightarrow> nat \<Rightarrow> i32 list \<Rightarrow> (math_error, i32 list) result" where
  "predict_position block block_stride position coefficients =
     (let destination = block * 16 + position; source = (block - block_stride) * 16 + position in
      let_try (checked_add (coefficients ! destination) (coefficients ! source)) (\<lambda>v.
      Ok (coefficients[destination := v])))"

definition predict_block ::
  "nat \<Rightarrow> nat \<Rightarrow> nat list \<Rightarrow> i32 list \<Rightarrow> (math_error, i32 list) result" where
  "predict_block block block_stride positions coefficients =
     each_try (predict_position block block_stride) positions coefficients"

definition predict_geometry ::
  "highpass_prediction \<Rightarrow> nat \<Rightarrow> nat \<Rightarrow> i32 list \<Rightarrow> (math_error, i32 list) result" where
  "predict_geometry direction columns rows coefficients =
     (case direction of
        FromLeft \<Rightarrow>
          each_try (\<lambda>row. each_try (\<lambda>column.
            predict_block (row * columns + column) 1 [4, 8, 12]) [1..<columns])
            [0..<rows] coefficients
      | FromTop \<Rightarrow>
          each_try (\<lambda>row. each_try (\<lambda>column.
            predict_block (row * columns + column) columns [1, 2, 3]) [0..<columns])
            [1..<rows] coefficients
      | NoPrediction \<Rightarrow> Ok coefficients)"

definition predict_high_pass :: "highpass_prediction \<Rightarrow> i32 list \<Rightarrow> (math_error, i32 list) result"
where
  "predict_high_pass direction coefficients = predict_geometry direction 4 4 coefficients"

definition predict_high_pass_420 ::
  "highpass_prediction \<Rightarrow> i32 list \<Rightarrow> (math_error, i32 list) result" where
  "predict_high_pass_420 direction coefficients = predict_geometry direction 2 2 coefficients"

definition predict_high_pass_422 ::
  "highpass_prediction \<Rightarrow> i32 list \<Rightarrow> (math_error, i32 list) result" where
  "predict_high_pass_422 direction coefficients = predict_geometry direction 2 4 coefficients"

section \<open>Chains of additions\<close>

text \<open>
  Every loop is a list of steps \<open>(d, s)\<close> that add the value at \<open>s\<close> to the value at \<open>d\<close>. The
  list is well ordered when no source is written at or after its use.
\<close>

definition add_at :: "nat \<times> nat \<Rightarrow> i32 list \<Rightarrow> (math_error, i32 list) result" where
  "add_at = (\<lambda>(d, s) xs. let_try (checked_add (xs ! d) (xs ! s)) (\<lambda>v. Ok (xs[d := v])))"

fun chain_ok :: "nat \<Rightarrow> (nat \<times> nat) list \<Rightarrow> bool" where
  "chain_ok n [] = True"
| "chain_ok n ((d, s) # ops) \<longleftrightarrow>
     d < n \<and> s < n \<and> s \<noteq> d \<and> s \<notin> fst ` set ops \<and> d \<notin> fst ` set ops \<and> chain_ok n ops"

lemma chain_run:
  assumes "chain_ok n ops" "length zs = n"
    and "\<forall>i < n. zs ! i = (if i \<in> fst ` set ops then xs ! i else val i)"
    and "\<forall>(d, s) \<in> set ops. val d = xs ! d + val s"
  shows "each_try add_at ops zs = Ok ys \<Longrightarrow> length ys = n \<and> (\<forall>i < n. ys ! i = val i)"
    and "(\<exists>ys. each_try add_at ops zs = Ok ys) \<longleftrightarrow> (\<forall>(d, s) \<in> set ops. in_i32 (val d))"
proof -
  have "(each_try add_at ops zs = Ok ys \<longrightarrow> length ys = n \<and> (\<forall>i < n. ys ! i = val i)) \<and>
    ((\<exists>ys. each_try add_at ops zs = Ok ys) \<longleftrightarrow> (\<forall>(d, s) \<in> set ops. in_i32 (val d)))"
    using assms
  proof (induction ops arbitrary: zs)
    case Nil
    then show ?case by auto
  next
    case (Cons op ops)
    obtain d s where op: "op = (d, s)" by (cases op)
    have c: "d < n" "s < n" "s \<noteq> d" "s \<notin> fst ` set ops" "d \<notin> fst ` set ops" "chain_ok n ops"
      using Cons.prems(1) by (auto simp: op)
    have sum: "zs ! d + zs ! s = val d"
      using Cons.prems(3,4) c by (auto simp: op)
    let ?zs = "zs[d := val d]"
    have "\<forall>i < n. ?zs ! i = (if i \<in> fst ` set ops then xs ! i else val i)"
      using Cons.prems(2,3) c by (auto simp: op nth_list_update)
    then have IH: "(each_try add_at ops ?zs = Ok ys \<longrightarrow> length ys = n \<and> (\<forall>i < n. ys ! i = val i)) \<and>
      ((\<exists>ys. each_try add_at ops ?zs = Ok ys) \<longleftrightarrow> (\<forall>(d, s) \<in> set ops. in_i32 (val d)))"
      using Cons.prems(2,4) by (intro Cons.IH c(6)) auto
    show ?case
    proof (cases "in_i32 (val d)")
      case True
      then have "add_at op zs = Ok ?zs"
        by (simp add: add_at_def op sum checked_add_def i32_checked_add_def)
      then show ?thesis using IH True by (auto simp: op)
    next
      case False
      then have "add_at op zs = Err (overflow ''addition'')"
        by (simp add: add_at_def op sum checked_add_def i32_checked_add_def)
      then show ?thesis using False by (auto simp: op)
    qed
  qed
  then show "each_try add_at ops zs = Ok ys \<Longrightarrow> length ys = n \<and> (\<forall>i < n. ys ! i = val i)"
    and "(\<exists>ys. each_try add_at ops zs = Ok ys) \<longleftrightarrow> (\<forall>(d, s) \<in> set ops. in_i32 (val d))"
    by blast+
qed

section \<open>Prediction is a running sum\<close>

fun prediction_ops :: "highpass_prediction \<Rightarrow> nat \<Rightarrow> nat \<Rightarrow> (nat \<times> nat) list" where
  "prediction_ops NoPrediction columns rows = []"
| "prediction_ops FromLeft columns rows =
     concat (map (\<lambda>row. concat (map (\<lambda>column. map (\<lambda>p.
       ((row * columns + column) * 16 + p, (row * columns + column - 1) * 16 + p)) [4, 8, 12])
       [1..<columns])) [0..<rows])"
| "prediction_ops FromTop columns rows =
     concat (map (\<lambda>row. concat (map (\<lambda>column. map (\<lambda>p.
       ((row * columns + column) * 16 + p, (row * columns + column - columns) * 16 + p)) [1, 2, 3])
       [0..<columns])) [1..<rows])"

lemma nested_ops:
  "each_try (\<lambda>row. each_try (\<lambda>column. each_try (\<lambda>p. add_at (f row column p, g row column p)) ps)
     columns) rows xs =
   each_try add_at (concat (map (\<lambda>row. concat (map (\<lambda>column.
     map (\<lambda>p. (f row column p, g row column p)) ps) columns)) rows)) xs"
  by (simp add: each_try_concat each_try_map)

lemma nested_ops_set:
  "(d, s) \<in> set (concat (map (\<lambda>row. concat (map (\<lambda>column.
     map (\<lambda>p. (f row column p, g row column p)) ps) columns)) rows)) \<longleftrightarrow>
   (\<exists>row \<in> set rows. \<exists>column \<in> set columns. \<exists>p \<in> set ps. d = f row column p \<and> s = g row column p)"
  by auto

lemma predict_position_add_at:
  "predict_position block stride = (\<lambda>p. add_at (block * 16 + p, (block - stride) * 16 + p))"
  by (intro ext) (simp add: predict_position_def add_at_def Let_def)

lemma predict_geometry_ops:
  "predict_geometry direction columns rows xs = each_try add_at (prediction_ops direction columns rows) xs"
  by (cases direction)
     (simp_all only: predict_geometry_def predict_block_def [abs_def] predict_position_add_at
        prediction_ops.simps nested_ops highpass_prediction.case each_try.simps(1))

lemma prediction_ops_left:
  "(d, s) \<in> set (prediction_ops FromLeft columns rows) \<longleftrightarrow>
   (\<exists>row \<in> set [0..<rows]. \<exists>column \<in> set [1..<columns]. \<exists>p \<in> set [4, 8, 12].
      d = (row * columns + column) * 16 + p \<and> s = (row * columns + column - 1) * 16 + p)"
  unfolding prediction_ops.simps by (rule nested_ops_set)

lemma prediction_ops_top:
  "(d, s) \<in> set (prediction_ops FromTop columns rows) \<longleftrightarrow>
   (\<exists>row \<in> set [1..<rows]. \<exists>column \<in> set [0..<columns]. \<exists>p \<in> set [1, 2, 3].
      d = (row * columns + column) * 16 + p \<and> s = (row * columns + column - columns) * 16 + p)"
  unfolding prediction_ops.simps by (rule nested_ops_set)

text \<open>The specification: each predicted position holds the sum of the run that leads to it.\<close>

definition predicted :: "highpass_prediction \<Rightarrow> nat \<Rightarrow> nat \<Rightarrow> i32 list \<Rightarrow> nat \<Rightarrow> int" where
  "predicted direction columns rows xs i =
     (let block = i div 16; p = i mod 16; row = block div columns; column = block mod columns in
      if rows \<le> row then xs ! i
      else case direction of
        FromLeft \<Rightarrow> if p \<in> {4, 8, 12} then (\<Sum>k \<le> column. xs ! ((row * columns + k) * 16 + p)) else xs ! i
      | FromTop \<Rightarrow> if p \<in> {1, 2, 3} then (\<Sum>k \<le> row. xs ! ((k * columns + column) * 16 + p)) else xs ! i
      | NoPrediction \<Rightarrow> xs ! i)"

lemma predicted_at:
  assumes "column < columns" "p < 16"
  shows "predicted direction columns rows xs ((row * columns + column) * 16 + p) =
    (if rows \<le> row then xs ! ((row * columns + column) * 16 + p)
     else case direction of
        FromLeft \<Rightarrow> if p \<in> {4, 8, 12} then (\<Sum>k \<le> column. xs ! ((row * columns + k) * 16 + p))
                    else xs ! ((row * columns + column) * 16 + p)
      | FromTop \<Rightarrow> if p \<in> {1, 2, 3} then (\<Sum>k \<le> row. xs ! ((k * columns + column) * 16 + p))
                    else xs ! ((row * columns + column) * 16 + p)
      | NoPrediction \<Rightarrow> xs ! ((row * columns + column) * 16 + p))"
proof -
  have b: "(b * 16 + p) div 16 = b" "(b * 16 + p) mod 16 = p" for b using assms(2) by simp_all
  have "(row * columns + column) div columns = row" "(row * columns + column) mod columns = column"
    using assms by simp_all
  note this b
  then show ?thesis by (simp only: predicted_def Let_def)
qed

lemma coefficient_index:
  assumes "0 < columns"
  obtains row column p where "i = (row * columns + column) * 16 + p" "column < columns" "p < (16::nat)"
proof
  show "i = (i div 16 div columns * columns + i div 16 mod columns) * 16 + i mod 16" by simp
  show "i div 16 mod columns < columns" "i mod 16 < 16" using assms by simp_all
qed

lemma predicted_step:
  assumes "(d, s) \<in> set (prediction_ops direction columns rows)"
  shows "predicted direction columns rows xs d = xs ! d + predicted direction columns rows xs s"
proof (cases direction)
  case FromLeft
  with assms obtain row column p where c: "row \<in> set [0..<rows]" "column \<in> set [1..<columns]"
    "p \<in> set [4, 8, 12]" and d: "d = (row * columns + column) * 16 + p"
    and s: "s = (row * columns + column - 1) * 16 + p" unfolding FromLeft prediction_ops_left by blast
  have "column \<noteq> 0" using c(2) by auto
  then obtain k where k: "column = Suc k" using not0_implies_Suc by blast
  have s': "s = (row * columns + k) * 16 + p" by (simp add: s k)
  have "p < 16" "p \<in> {4, 8, 12}" "row < rows" "column < columns" "k < columns" using c k by auto
  then show ?thesis
    unfolding d s' by (simp only: predicted_at) (simp add: FromLeft k ac_simps)
next
  case FromTop
  with assms obtain row column p where c: "row \<in> set [1..<rows]" "column \<in> set [0..<columns]"
    "p \<in> set [1, 2, 3]" and d: "d = (row * columns + column) * 16 + p"
    and s: "s = (row * columns + column - columns) * 16 + p" unfolding FromTop prediction_ops_top by blast
  have "row \<noteq> 0" using c(1) by auto
  then obtain k where k: "row = Suc k" using not0_implies_Suc by blast
  have s': "s = (k * columns + column) * 16 + p" by (simp add: s k)
  have "p < 16" "p \<in> {1, 2, 3}" "row < rows" "k < rows" "column < columns" using c k by auto
  then show ?thesis
    unfolding d s' by (simp only: predicted_at) (simp add: FromTop k)
qed (use assms in simp)

lemma predicted_unchanged:
  assumes out: "i \<notin> fst ` set (prediction_ops direction columns rows)" and "0 < columns"
  shows "predicted direction columns rows xs i = xs ! i"
proof -
  obtain row column p where i: "i = (row * columns + column) * 16 + p" and c: "column < columns" "p < 16"
    using coefficient_index [OF assms(2)] by metis
  show ?thesis
  proof (cases direction)
    case FromLeft
    have "rows \<le> row \<or> p \<notin> {4, 8, 12} \<or> column = 0"
    proof (rule ccontr)
      assume "\<not> ?thesis"
      then have "row \<in> set [0..<rows]" "column \<in> set [1..<columns]" "p \<in> set [4, 8, 12]"
        using c by auto
      then have "(i, (row * columns + column - 1) * 16 + p) \<in> set (prediction_ops direction columns rows)"
        unfolding FromLeft prediction_ops_left using i by blast
      then show False using out by force
    qed
    then show ?thesis unfolding i predicted_at [OF c] by (auto simp: FromLeft)
  next
    case FromTop
    have "rows \<le> row \<or> p \<notin> {1, 2, 3} \<or> row = 0"
    proof (rule ccontr)
      assume "\<not> ?thesis"
      then have "row \<in> set [1..<rows]" "column \<in> set [0..<columns]" "p \<in> set [1, 2, 3]"
        using c by auto
      then have "(i, (row * columns + column - columns) * 16 + p) \<in> set (prediction_ops direction columns rows)"
        unfolding FromTop prediction_ops_top using i by blast
      then show False using out by force
    qed
    then show ?thesis unfolding i predicted_at [OF c] by (auto simp: FromTop)
  next
    case NoPrediction
    then show ?thesis unfolding i predicted_at [OF c] by simp
  qed
qed

lemma chain_ok_sorted:
  "sorted_wrt (<) (map fst ops) \<Longrightarrow> \<forall>(d, s) \<in> set ops. s < d \<and> d < n \<Longrightarrow> chain_ok n ops"
  by (induction ops) fastforce+

lemma prediction_chains:
  "chain_ok 256 (prediction_ops direction 4 4)" "chain_ok 256 (prediction_ops direction 2 2)"
  "chain_ok 256 (prediction_ops direction 2 4)"
  by (rule chain_ok_sorted; cases direction; simp add: upt_rec)+

lemma prediction_sum:
  assumes "chain_ok 256 (prediction_ops direction c r)" "0 < c" "length xs = 256"
  shows "predict_geometry direction c r xs = Ok ys \<Longrightarrow>
           length ys = 256 \<and> (\<forall>i < 256. ys ! i = predicted direction c r xs i)"
    and "(\<exists>ys. predict_geometry direction c r xs = Ok ys) \<longleftrightarrow>
           (\<forall>(d, s) \<in> set (prediction_ops direction c r). in_i32 (predicted direction c r xs d))"
proof -
  let ?ops = "prediction_ops direction c r" and ?val = "predicted direction c r xs"
  have a: "\<forall>i < 256. xs ! i = (if i \<in> fst ` set ?ops then xs ! i else ?val i)"
    using predicted_unchanged [OF _ assms(2)] by auto
  have b: "\<forall>(d, s) \<in> set ?ops. ?val d = xs ! d + ?val s" using predicted_step by blast
  show "predict_geometry direction c r xs = Ok ys \<Longrightarrow>
           length ys = 256 \<and> (\<forall>i < 256. ys ! i = ?val i)"
    and "(\<exists>ys. predict_geometry direction c r xs = Ok ys) \<longleftrightarrow> (\<forall>(d, s) \<in> set ?ops. in_i32 (?val d))"
    unfolding predict_geometry_ops
    using chain_run [OF assms(1,3) a b] by blast+
qed

section \<open>Properties\<close>

text \<open>
  C26: high-pass prediction replaces each predicted coefficient by the running sum along its row
  (from the left) or column (from the top) of blocks, for the 4:4:4, 4:2:0 and 4:2:2 macroblock
  geometries, and leaves every other coefficient alone; it fails exactly when one of those sums
  leaves the \<open>i32\<close> range.
\<close>

theorem prediction_running_sums:
  assumes "length xs = 256" "(c, r, f) \<in> {(4, 4, predict_high_pass), (2, 2, predict_high_pass_420),
      (2, 4, predict_high_pass_422)}"
  shows "(\<forall>ys. f direction xs = Ok ys \<longrightarrow>
        length ys = 256 \<and> (\<forall>i < 256. ys ! i = predicted direction c r xs i)) \<and>
    ((\<exists>ys. f direction xs = Ok ys) \<longleftrightarrow>
      (\<forall>(d, s) \<in> set (prediction_ops direction c r). in_i32 (predicted direction c r xs d)))"
proof -
  have f: "f direction xs = predict_geometry direction c r xs" "0 < c"
    using assms(2) by (auto simp: predict_high_pass_def predict_high_pass_420_def
        predict_high_pass_422_def)
  have chain: "chain_ok 256 (prediction_ops direction c r)"
    using assms(2) prediction_chains by auto
  show ?thesis unfolding f(1) using prediction_sum [OF chain f(2) assms(1)] by blast
qed

lemma prediction_running_sums_witness:
  "\<exists>ys. predict_high_pass_420 FromLeft (replicate 256 7) = Ok ys \<and> ys ! 20 = 7 + 7"
proof -
  have "(2, 2, predict_high_pass_420) \<in> {(4, 4, predict_high_pass), (2, 2, predict_high_pass_420),
      (2, 4, predict_high_pass_422)}" by simp
  note sums = prediction_running_sums [OF length_replicate [where x = 7] this, where direction = FromLeft]
  have "prediction_ops FromLeft 2 2 =
      [(20, 4), (24, 8), (28, 12), (52, 36), (56, 40), (60, 44)]" by code_simp
  then have "\<forall>(d, s) \<in> set (prediction_ops FromLeft 2 2).
      in_i32 (predicted FromLeft 2 2 (replicate 256 7) d)"
    by (simp add: predicted_def in_i32_def atMost_Suc)
  then obtain ys where ys: "predict_high_pass_420 FromLeft (replicate 256 7) = Ok ys"
    using sums by blast
  have "predicted FromLeft 2 2 (replicate 256 7) 20 = 7 + 7"
    by (simp add: predicted_def atMost_Suc)
  then show ?thesis using sums ys by auto
qed

end
