(* ===== verification/Bit_Source.thy ===== *)
theory Bit_Source
  imports Prelude
begin

text \<open>
  Bits, most significant first: the value of a bit list, the bits of bytes, and the interface
  \<open>bit_source\<close> that the syntax parsers rely on. The locale is interpreted for the bit-serial
  header reader (theory \<open>Bit_Reader\<close>) and for the cached packet reader (theory
  \<open>Packet_Reader\<close>).
\<close>

section \<open>Bit lists and numbers\<close>

fun bits_acc :: "nat \<Rightarrow> bool list \<Rightarrow> nat" where
  "bits_acc v [] = v"
| "bits_acc v (b # bs) = bits_acc (2 * v + of_bool b) bs"

definition bits_val :: "bool list \<Rightarrow> nat" where
  "bits_val bs = bits_acc 0 bs"

lemma bits_acc_eq: "bits_acc v bs = v * 2 ^ length bs + bits_val bs"
proof (induction bs arbitrary: v)
  case (Cons b bs)
  have "bits_acc v (b # bs) = (2 * v + of_bool b) * 2 ^ length bs + bits_val bs"
    using Cons by simp
  moreover have "bits_val (b # bs) = of_bool b * 2 ^ length bs + bits_val bs"
    using Cons [of "of_bool b"] by (simp add: bits_val_def)
  ultimately show ?case by (simp add: algebra_simps)
qed (simp add: bits_val_def)

lemma bits_val_simps [simp]:
  "bits_val [] = 0"
  "bits_val (b # bs) = of_bool b * 2 ^ length bs + bits_val bs"
  using bits_acc_eq [of "of_bool b" bs] by (simp_all add: bits_val_def)

lemma bits_val_append: "bits_val (xs @ ys) = bits_val xs * 2 ^ length ys + bits_val ys"
  by (induction xs) (simp_all add: algebra_simps power_add)

lemma bits_val_less: "bits_val bs < 2 ^ length bs"
  by (induction bs) auto

lemma bits_val_replicate_False [simp]: "bits_val (replicate n False) = 0"
  by (induction n) auto

lemma bits_val_take: "bits_val (take n bs) = bits_val bs div 2 ^ (length bs - n)"
proof -
  have "bits_val bs = bits_val (take n bs) * 2 ^ (length bs - n) + bits_val (drop n bs)"
    using bits_val_append [of "take n bs" "drop n bs"] by simp
  moreover have "bits_val (drop n bs) < 2 ^ (length bs - n)"
    using bits_val_less [of "drop n bs"] by simp
  ultimately show ?thesis by simp
qed

lemma bits_val_drop: "bits_val (drop n bs) = bits_val bs mod 2 ^ (length bs - n)"
proof -
  have "bits_val bs = bits_val (take n bs) * 2 ^ (length bs - n) + bits_val (drop n bs)"
    using bits_val_append [of "take n bs" "drop n bs"] by simp
  moreover have "bits_val (drop n bs) < 2 ^ (length bs - n)"
    using bits_val_less [of "drop n bs"] by simp
  ultimately show ?thesis by simp
qed

text \<open>The \<open>n\<close> low bits of a number, as a writer emits them.\<close>

fun nat_bits :: "nat \<Rightarrow> nat \<Rightarrow> bool list" where
  "nat_bits 0 v = []"
| "nat_bits (Suc n) v = odd (v div 2 ^ n) # nat_bits n v"

lemma length_nat_bits [simp]: "length (nat_bits n v) = n"
  by (induction n) auto

lemma bits_val_nat_bits: "bits_val (nat_bits n v) = v mod 2 ^ n"
proof (induction n)
  case (Suc n)
  have "v mod 2 ^ Suc n = 2 ^ n * (v div 2 ^ n mod 2) + v mod 2 ^ n"
    by (metis mod_mult2_eq mult.commute power_Suc)
  moreover have "bits_val (nat_bits (Suc n) v) = (v div 2 ^ n mod 2) * 2 ^ n + bits_val (nat_bits n v)"
    by (simp only: nat_bits.simps bits_val_simps length_nat_bits of_bool_odd_eq_mod_2)
  ultimately show ?case using Suc by simp
qed simp

lemma bits_val_horner: "bits_val bs = horner_sum of_bool 2 (rev bs)"
  by (induction bs) (simp_all add: horner_sum_append)

section \<open>Bytes\<close>

definition byte_bits :: "u8 \<Rightarrow> bool list" where
  "byte_bits b = map (\<lambda>i. bit b (7 - i)) [0..<8]"

definition packet_bits :: "u8 list \<Rightarrow> bool list" where
  "packet_bits bytes = concat (map byte_bits bytes)"

lemma length_byte_bits [simp]: "length (byte_bits b) = 8"
  by (simp add: byte_bits_def)

lemma length_packet_bits [simp]: "length (packet_bits bytes) = 8 * length bytes"
  by (induction bytes) (simp_all add: packet_bits_def)

lemma packet_bits_simps [simp]:
  "packet_bits [] = []"
  "packet_bits (b # bytes) = byte_bits b @ packet_bits bytes"
  "packet_bits (xs @ ys) = packet_bits xs @ packet_bits ys"
  by (simp_all add: packet_bits_def)

lemma nth_packet_bits:
  "i < 8 * length bytes \<Longrightarrow> packet_bits bytes ! i = bit (bytes ! (i div 8)) (7 - i mod 8)"
proof (induction bytes arbitrary: i)
  case (Cons b bytes)
  show ?case
  proof (cases "i < 8")
    case True
    then show ?thesis by (simp add: nth_append byte_bits_def)
  next
    case False
    then obtain j where j: "i = j + 8" by (metis add.commute le_Suc_ex not_less)
    have "(j + 8) div 8 = Suc (j div 8)" "(j + 8) mod 8 = j mod 8" by simp_all
    then show ?thesis using Cons j by (simp add: nth_append)
  qed
qed simp

lemma packet_bits_drop: "packet_bits (drop n bytes) = drop (8 * n) (packet_bits bytes)"
proof (induction n arbitrary: bytes)
  case (Suc n)
  then show ?case by (cases bytes) simp_all
qed simp

lemma packet_bits_take: "packet_bits (take n bytes) = take (8 * n) (packet_bits bytes)"
proof (induction n arbitrary: bytes)
  case (Suc n)
  then show ?case by (cases bytes) simp_all
qed simp

lemma bits_val_byte_bits: "bits_val (byte_bits b) = unat b"
proof -
  have "rev (byte_bits b) = map (bit (unat b)) [0..<8]"
    by (simp add: byte_bits_def upt_rec bit_simps numeral_eq_Suc)
  then have "bits_val (byte_bits b) = take_bit 8 (unat b)"
    by (simp only: bits_val_horner horner_sum_bit_eq_take_bit)
  also have "\<dots> = unat b"
    using unsigned_less [where 'a = nat, of b] by (simp add: take_bit_nat_eq_self)
  finally show ?thesis .
qed

section \<open>The interface of a bit reader\<close>

text \<open>
  A reader hides a list of unread bits. A read of at most 64 bits takes them off the front and
  returns their value; a read past the end fails and consumes nothing.
\<close>

locale bit_source =
  fixes read :: "nat \<Rightarrow> ('s, 'e, nat) action"
    and unread :: "'s \<Rightarrow> bool list"
    and valid :: "'s \<Rightarrow> bool"
    and end_error :: "nat \<Rightarrow> 's \<Rightarrow> 'e"
  assumes read_ok: "valid s \<Longrightarrow> n \<le> 64 \<Longrightarrow> n \<le> length (unread s) \<Longrightarrow>
      \<exists>t. read n s = (Ok (bits_val (take n (unread s))), t) \<and> unread t = drop n (unread s) \<and> valid t"
    and read_end: "valid s \<Longrightarrow> n \<le> 64 \<Longrightarrow> length (unread s) < n \<Longrightarrow>
      \<exists>t. read n s = (Err (end_error n s), t) \<and> unread t = unread s \<and> valid t"
begin

lemma read_no_panic: "valid s \<Longrightarrow> n \<le> 64 \<Longrightarrow> fst (read n s) \<noteq> Panic"
  using read_ok [of s n] read_end [of s n] by (cases "n \<le> length (unread s)") auto

lemma read_valid: "valid s \<Longrightarrow> n \<le> 64 \<Longrightarrow> valid (snd (read n s))"
  using read_ok [of s n] read_end [of s n] by (cases "n \<le> length (unread s)") auto

lemma read_OkD:
  assumes "valid s" "n \<le> 64" "read n s = (Ok v, t)"
  shows "n \<le> length (unread s)" "v = bits_val (take n (unread s))" "unread t = drop n (unread s)"
    "valid t" "v < 2 ^ n"
proof -
  show n: "n \<le> length (unread s)" using read_end [OF assms(1,2)] assms(3) by fastforce
  show v: "v = bits_val (take n (unread s))" and "unread t = drop n (unread s)" "valid t"
    using read_ok [OF assms(1,2) n] assms(3) by auto
  show "v < 2 ^ n" using bits_val_less [of "take n (unread s)"] n v by simp
qed

lemma read_ErrD:
  assumes "valid s" "n \<le> 64" "read n s = (Err e, t)"
  shows "length (unread s) < n" "e = end_error n s" "unread t = unread s" "valid t"
proof -
  show n: "length (unread s) < n" using read_ok [OF assms(1,2)] assms(3) by fastforce
  show "e = end_error n s" "unread t = unread s" "valid t"
    using read_end [OF assms(1,2) n] assms(3) by auto
qed

lemma read_upholds: "n \<le> 64 \<Longrightarrow> upholds valid (read n) (\<lambda>v. v < 2 ^ n)"
  by (rule upholdsI) (use read_valid read_no_panic read_OkD(5) in \<open>force simp: prod_eq_iff\<close>)+

text \<open>What a writer emitted comes back.\<close>

lemma read_written:
  assumes "valid s" "n \<le> 64" "v < 2 ^ n" "unread s = nat_bits n v @ rest"
  shows "\<exists>t. read n s = (Ok v, t) \<and> unread t = rest \<and> valid t"
  using read_ok [OF assms(1,2)] assms(3,4) by (simp add: bits_val_nat_bits)

text \<open>Two reads in a row are one wider read.\<close>

lemma read_split:
  assumes "valid s" "m + n \<le> 64" "m + n \<le> length (unread s)"
  shows "\<exists>t u. run_try (read m) (\<lambda>v. run_try (read n) (\<lambda>w. give (v * 2 ^ n + w))) s =
      (fst (read (m + n) s), t) \<and> unread t = unread (snd (read (m + n) s)) \<and> valid t"
proof -
  let ?xs = "unread s"
  obtain t where t: "read m s = (Ok (bits_val (take m ?xs)), t)" "unread t = drop m ?xs" "valid t"
    using read_ok [of s m] assms by auto
  obtain u where u: "read n t = (Ok (bits_val (take n (drop m ?xs))), u)"
    "unread u = drop (n + m) ?xs" "valid u"
  proof -
    have "n \<le> length (unread t)" using assms(3) t(2) by simp
    then show thesis using read_ok [OF t(3), of n] assms(2) t(2) that by auto
  qed
  obtain w where w: "read (m + n) s = (Ok (bits_val (take (m + n) ?xs)), w)"
    "unread w = drop (m + n) ?xs"
    using read_ok [of s "m + n"] assms by auto
  have "bits_val (take (m + n) ?xs) =
      bits_val (take m ?xs) * 2 ^ n + bits_val (take n (drop m ?xs))"
    using assms(3) by (simp add: take_add bits_val_append)
  then show ?thesis using t u w by (simp add: run_try_step add.commute)
qed

end

end
