(* ===== verification/Bit_Reader.thy ===== *)
theory Bit_Reader
  imports Bit_Source
begin

text \<open>
  The native error type (\<open>crates/jxr-native/src/error.rs\<close>) and the bit-serial reader of header
  syntax (\<open>bit_reader.rs\<close>), interpreted as a \<open>bit_source\<close>.
\<close>

datatype native_error =
    InvalidSignature
  | InvalidSyntax string
  | Truncated nat nat
  | ReservedValue string nat
  | IntegerOverflow string
  | RangeOutsideInput string nat nat nat
  | MissingAnnexAField nat
  | InvalidAnnexAEntry nat nat nat
  | UnsortedAnnexATags nat nat
  | NonZeroAlignmentBit nat
  | Unsupported string

record bit_reader =
  rd_bytes :: "u8 list"
  rd_position :: nat

type_synonym 'a parser = "(bit_reader, native_error, 'a) action"

definition bit_reader_new :: "u8 list \<Rightarrow> bit_reader" where
  "bit_reader_new bytes = \<lparr>rd_bytes = bytes, rd_position = 0\<rparr>"

definition bit_position :: "bit_reader \<Rightarrow> nat" where
  "bit_position r = rd_position r"

text \<open>The \<open>while\<close> loop of \<open>read_bits\<close>: \<open>n\<close> more bits, one per turn, into a \<open>u64\<close>.\<close>

fun read_loop :: "u8 list \<Rightarrow> nat \<Rightarrow> nat \<Rightarrow> 64 word \<Rightarrow> 64 word" where
  "read_loop bytes pos 0 value = value"
| "read_loop bytes pos (Suc n) value =
     (let byte = bytes ! (pos div 8); shift = 7 - pos mod 8
      in read_loop bytes (Suc pos) n (push_bit 1 value OR ucast (drop_bit shift byte AND 1)))"

definition read_bits :: "nat \<Rightarrow> nat parser" where
  "read_bits count r =
     (if 64 < count then (Err (ReservedValue ''bit read width'' count), r)
      else if usize_max < rd_position r + count
      then (Err (IntegerOverflow ''advancing bit reader''), r)
      else if min usize_max (8 * length (rd_bytes r)) < rd_position r + count
      then (Err (Truncated (rd_position r) count), r)
      else (Ok (unat (read_loop (rd_bytes r) (rd_position r) count 0)),
            r\<lparr>rd_position := rd_position r + count\<rparr>))"

definition read_flag :: "bool parser" where
  "read_flag = run_try (read_bits 1) (\<lambda>value. give (value \<noteq> 0))"

function align_zero :: "unit parser" where
  "align_zero r =
     (if rd_position r mod 8 = 0 then (Ok (), r)
      else (case read_flag r of
          (Ok flag, t) \<Rightarrow>
            if flag then (Err (NonZeroAlignmentBit (rd_position r)), t) else align_zero t
        | (Err e, t) \<Rightarrow> (Err e, t)
        | (Panic, t) \<Rightarrow> (Panic, t)))"
  by pat_completeness auto

lemma read_flag_position:
  "read_flag r = (Ok b, t) \<Longrightarrow> rd_position t = Suc (rd_position r)"
  by (auto simp: read_flag_def outcome_simps read_bits_def split: if_splits)

termination align_zero
proof (relation "measure (\<lambda>r. (8 - rd_position r mod 8) mod 8)")
  fix r x flag and t :: bit_reader
  assume a: "rd_position r mod 8 \<noteq> 0" and x: "(x, t) = read_flag r" "x = Ok flag" "\<not> flag"
  then have t: "rd_position t = Suc (rd_position r)" using read_flag_position by metis
  have "rd_position r mod 8 < 8" by simp
  then show "(t, r) \<in> measure (\<lambda>r. (8 - rd_position r mod 8) mod 8)"
    using a by (cases "Suc (rd_position r mod 8) = 8") (simp_all add: t mod_Suc)
qed simp

declare align_zero.simps [simp del]

section \<open>The reader is a bit source\<close>

definition reader_bits :: "bit_reader \<Rightarrow> bool list" where
  "reader_bits r = drop (rd_position r) (packet_bits (rd_bytes r))"

definition reader_on :: "u8 list \<Rightarrow> bit_reader \<Rightarrow> bool" where
  "reader_on bytes r \<longleftrightarrow> rd_bytes r = bytes \<and>
     rd_position r \<le> 8 * length bytes \<and> 8 * length bytes + 64 \<le> usize_max"

definition reader_end :: "nat \<Rightarrow> bit_reader \<Rightarrow> native_error" where
  "reader_end n r = Truncated (rd_position r) n"

lemma shift_in_bit:
  fixes v :: "64 word" and b :: u8
  assumes "unat v < 2 ^ 63"
  shows "unat (push_bit 1 v OR ucast (drop_bit s b AND 1)) = 2 * unat v + of_bool (bit b s)"
proof -
  have "(ucast (drop_bit s b AND 1) :: 64 word) = of_bool (bit b s)"
    by (simp add: and_one_eq bit_iff_odd_drop_bit odd_iff_mod_2_eq_one)
  moreover have "push_bit 1 v OR of_bool c = 2 * v + of_bool c" for c
    by (cases c) (simp_all add: push_bit_eq_mult or_one_eq)
  moreover have "unat (2 * v + of_bool c) = 2 * unat v + of_bool c" for c
    using assms by (simp add: unat_word_ariths)
  ultimately show ?thesis by simp
qed

lemma read_loop_bits:
  "pos + n \<le> 8 * length bytes \<Longrightarrow> n \<le> 64 \<Longrightarrow> unat v < 2 ^ (64 - n) \<Longrightarrow>
    unat (read_loop bytes pos n v) = bits_acc (unat v) (take n (drop pos (packet_bits bytes)))"
proof (induction n arbitrary: pos v)
  case (Suc n)
  let ?w = "push_bit 1 v OR ucast (drop_bit (7 - pos mod 8) (bytes ! (pos div 8)) AND 1) :: 64 word"
  have pos: "pos < 8 * length bytes" using Suc.prems(1) by simp
  have two: "(2::nat) ^ (64 - n) = 2 * 2 ^ (63 - n)"
    using Suc.prems(2) by (simp add: Suc_diff_le flip: power_Suc)
  have "(2::nat) ^ (63 - n) \<le> 2 ^ 63" by (rule power_increasing) simp_all
  then have "unat v < 2 ^ 63" using Suc.prems(3) by simp
  then have w: "unat ?w = 2 * unat v + of_bool (packet_bits bytes ! pos)"
    by (simp only: shift_in_bit nth_packet_bits [OF pos])
  then have "unat ?w < 2 ^ (64 - n)" using Suc.prems(3) two by simp
  then have "unat (read_loop bytes (Suc pos) n ?w) =
      bits_acc (unat ?w) (take n (drop (Suc pos) (packet_bits bytes)))"
    using Suc.prems by (intro Suc.IH) simp_all
  moreover have "drop pos (packet_bits bytes) =
      packet_bits bytes ! pos # drop (Suc pos) (packet_bits bytes)"
    using pos by (simp add: Cons_nth_drop_Suc)
  ultimately show ?case
    by (simp only: read_loop.simps Let_def w take_Suc_Cons bits_acc.simps)
qed simp

lemma length_reader_bits: "length (reader_bits r) = 8 * length (rd_bytes r) - rd_position r"
  by (simp add: reader_bits_def)

interpretation hdr: bit_source read_bits reader_bits "reader_on bytes" reader_end for bytes
proof
  fix r :: bit_reader and n :: nat
  assume v: "reader_on bytes r" and n: "n \<le> 64"
  have len: "rd_position r \<le> 8 * length (rd_bytes r)" "8 * length (rd_bytes r) + 64 \<le> usize_max"
    using v by (simp_all add: reader_on_def)
  {
    assume le: "n \<le> length (reader_bits r)"
    then have "rd_position r + n \<le> 8 * length (rd_bytes r)"
      using len by (simp add: length_reader_bits)
    then have "read_bits n r = (Ok (bits_val (take n (reader_bits r))),
        r\<lparr>rd_position := rd_position r + n\<rparr>)"
      using n len read_loop_bits [of "rd_position r" n "rd_bytes r" 0]
      by (simp add: read_bits_def reader_bits_def bits_val_def)
    moreover have "reader_bits (r\<lparr>rd_position := rd_position r + n\<rparr>) = drop n (reader_bits r)"
      by (simp add: reader_bits_def add.commute)
    moreover have "reader_on bytes (r\<lparr>rd_position := rd_position r + n\<rparr>)"
      using le len v by (auto simp: reader_on_def length_reader_bits)
    ultimately show "\<exists>t. read_bits n r = (Ok (bits_val (take n (reader_bits r))), t) \<and>
        reader_bits t = drop n (reader_bits r) \<and> reader_on bytes t" by blast
  next
    assume "length (reader_bits r) < n"
    then have "8 * length (rd_bytes r) < rd_position r + n"
      using len by (simp add: length_reader_bits)
    then show "\<exists>t. read_bits n r = (Err (reader_end n r), t) \<and>
        reader_bits t = reader_bits r \<and> reader_on bytes t"
      using n len v by (simp add: read_bits_def reader_end_def)
  }
qed

text \<open>A read that succeeds advances by exactly the bits it was asked for.\<close>

lemma read_bits_position:
  "read_bits n r = (Ok v, t) \<Longrightarrow> rd_position t = rd_position r + n \<and> rd_bytes t = rd_bytes r"
  by (auto simp: read_bits_def split: if_splits)

lemma reader_on_new: "8 * length bytes + 64 \<le> usize_max \<Longrightarrow> reader_on bytes (bit_reader_new bytes)"
  by (simp add: reader_on_def bit_reader_new_def)

lemma reader_bits_new: "reader_bits (bit_reader_new bytes) = packet_bits bytes"
  by (simp add: reader_bits_def bit_reader_new_def)

lemma read_flag_bit:
  assumes "reader_on bytes r" "reader_bits r = b # bs"
  shows "\<exists>t. read_flag r = (Ok b, t) \<and> reader_bits t = bs \<and> reader_on bytes t"
  using hdr.read_ok [OF assms(1), of 1] assms(2) by (auto simp: read_flag_def run_try_step)

section \<open>Properties\<close>

text \<open>
  The header reader returns the next \<open>n \<le> 64\<close> bits of the input as a number, most significant
  bit first, and advances past them; where fewer bits are left it reports \<open>Truncated\<close> at the
  current position and consumes nothing. It never indexes past the input.
\<close>

theorem header_reads_are_bits:
  assumes "reader_on bytes r" "n \<le> 64"
  shows "case read_bits n r of
      (Ok v, t) \<Rightarrow> n \<le> length (reader_bits r) \<and> v = bits_val (take n (reader_bits r)) \<and>
        reader_bits t = drop n (reader_bits r) \<and> reader_on bytes t
    | (Err e, t) \<Rightarrow> length (reader_bits r) < n \<and> e = Truncated (rd_position r) n \<and>
        reader_bits t = reader_bits r \<and> reader_on bytes t
    | (Panic, t) \<Rightarrow> False"
proof (cases "n \<le> length (reader_bits r)")
  case True
  then show ?thesis using hdr.read_ok [OF assms True] by auto
next
  case False
  then show ?thesis using hdr.read_end [OF assms] by (auto simp: reader_end_def)
qed

lemma header_reads_are_bits_witness: "fst (read_bits 3 (bit_reader_new [0b10110010])) = Ok 0b101"
proof -
  have on: "reader_on [0b10110010] (bit_reader_new [0b10110010])" by (rule reader_on_new) simp
  have bits: "bits_val (take 3 (reader_bits (bit_reader_new [0b10110010]))) = 0b101"
    by (simp add: reader_bits_new byte_bits_def upt_rec)
  show ?thesis using header_reads_are_bits [OF on, of 3] bits
    by (auto split: prod.splits result.splits simp: reader_bits_new)
qed

end
