(* ===== verification/Annex_A.thy ===== *)
theory Annex_A
  imports Bit_Reader
begin

text \<open>
  The Annex-A tag container (\<open>crates/jxr-native/src/annex_a.rs\<close>): the bounds-checked little-endian
  reads, the image file directory and the image description that is built from its entries. Tags,
  element types, counts and values are naturals read from two or four bytes; a \<open>Range<usize>\<close> is the
  pair of its ends.
\<close>

section \<open>Bounds-checked reads\<close>

type_synonym byte_range = "nat \<times> nat"

definition checked_range ::
  "u8 list \<Rightarrow> string \<Rightarrow> nat \<Rightarrow> nat \<Rightarrow> (native_error, byte_range) result" where
  "checked_range bytes field offset len =
     (if usize_max < offset + len then Err (IntegerOverflow ''computing input byte range'')
      else if length bytes < offset + len
      then Err (RangeOutsideInput field offset len (length bytes))
      else Ok (offset, offset + len))"

text \<open>\<open>&bytes[range]\<close> panics when the range is reversed or leaves the slice.\<close>

definition slice :: "u8 list \<Rightarrow> byte_range \<Rightarrow> u8 list" where
  "slice bytes = (\<lambda>(a, b). take (b - a) (drop a bytes))"

definition slice_or_panic :: "u8 list \<Rightarrow> byte_range \<Rightarrow> ('e, u8 list) result" where
  "slice_or_panic bytes = (\<lambda>(a, b).
     if a \<le> b \<and> b \<le> length bytes then Ok (slice bytes (a, b)) else Panic)"

definition le_val :: "u8 list \<Rightarrow> nat" where
  "le_val bytes = foldr (\<lambda>b v. unat b + 256 * v) bytes 0"

definition annex_u16 :: "u8 list \<Rightarrow> nat \<Rightarrow> string \<Rightarrow> (native_error, nat) result" where
  "annex_u16 bytes offset field =
     let_try (checked_range bytes field offset 2) (\<lambda>range.
     let_try (slice_or_panic bytes range) (\<lambda>bs. Ok (le_val bs)))"

definition annex_u32 :: "u8 list \<Rightarrow> nat \<Rightarrow> string \<Rightarrow> (native_error, nat) result" where
  "annex_u32 bytes offset field =
     let_try (checked_range bytes field offset 4) (\<lambda>range.
     let_try (slice_or_panic bytes range) (\<lambda>bs. Ok (le_val bs)))"

section \<open>The directory\<close>

abbreviation TAG_ICC_PROFILE :: nat where "TAG_ICC_PROFILE \<equiv> 0x8773"
abbreviation TAG_PIXEL_FORMAT :: nat where "TAG_PIXEL_FORMAT \<equiv> 0xBC01"
abbreviation TAG_TRANSFORMATION :: nat where "TAG_TRANSFORMATION \<equiv> 0xBC02"
abbreviation TAG_IMAGE_WIDTH :: nat where "TAG_IMAGE_WIDTH \<equiv> 0xBC80"
abbreviation TAG_IMAGE_HEIGHT :: nat where "TAG_IMAGE_HEIGHT \<equiv> 0xBC81"
abbreviation TAG_HORIZONTAL_RESOLUTION :: nat where "TAG_HORIZONTAL_RESOLUTION \<equiv> 0xBC82"
abbreviation TAG_VERTICAL_RESOLUTION :: nat where "TAG_VERTICAL_RESOLUTION \<equiv> 0xBC83"
abbreviation TAG_IMAGE_OFFSET :: nat where "TAG_IMAGE_OFFSET \<equiv> 0xBCC0"
abbreviation TAG_IMAGE_BYTE_COUNT :: nat where "TAG_IMAGE_BYTE_COUNT \<equiv> 0xBCC1"
abbreviation TAG_ALPHA_OFFSET :: nat where "TAG_ALPHA_OFFSET \<equiv> 0xBCC2"
abbreviation TAG_ALPHA_BYTE_COUNT :: nat where "TAG_ALPHA_BYTE_COUNT \<equiv> 0xBCC3"

record directory_entry =
  de_tag :: nat
  element_type :: nat
  de_count :: nat
  de_value :: nat

definition validate_file_header :: "u8 list \<Rightarrow> (native_error, unit) result" where
  "validate_file_header bytes =
     (if length bytes < 8 then Err (Truncated (min usize_max (length bytes * 8)) 64)
      else if take 4 bytes \<noteq> [0x49, 0x49, 0xBC, 1] then Err InvalidSignature
      else Ok ())"

text \<open>One turn of the \<open>for index in 0..count\<close> loop.\<close>

definition read_entry :: "u8 list \<Rightarrow> nat \<Rightarrow> (native_error, directory_entry) result" where
  "read_entry bytes offset =
     let_try (annex_u16 bytes offset ''FIELD_TAG'') (\<lambda>tag.
     let_try (annex_u16 bytes (offset + 2) ''ELEMENT_TYPE'') (\<lambda>ty.
     let_try (annex_u32 bytes (offset + 4) ''NUM_ELEMENTS'') (\<lambda>n.
     let_try (annex_u32 bytes (offset + 8) ''VALUES_OR_OFFSET'') (\<lambda>v.
     Ok \<lparr>de_tag = tag, element_type = ty, de_count = n, de_value = v\<rparr>))))"

definition directory_step :: "u8 list \<Rightarrow> nat \<Rightarrow> nat \<Rightarrow>
    nat option \<times> directory_entry list \<Rightarrow> (native_error, nat option \<times> directory_entry list) result" where
  "directory_step bytes table_start index = (\<lambda>(previous, entries).
     let_try (read_entry bytes (table_start + index * 12)) (\<lambda>entry.
     case previous of
       Some p \<Rightarrow> if de_tag entry \<le> p then Err (UnsortedAnnexATags p (de_tag entry))
                 else Ok (Some (de_tag entry), entries @ [entry])
     | None \<Rightarrow> Ok (Some (de_tag entry), entries @ [entry])))"

definition parse_directory :: "u8 list \<Rightarrow> nat \<Rightarrow> (native_error, directory_entry list) result" where
  "parse_directory bytes offset =
     let_try (annex_u16 bytes offset ''NUM_ENTRIES'') (\<lambda>n.
     if n = 0 then Err (ReservedValue ''NUM_ENTRIES'' 0)
     else if usize_max < offset + 2
     then Err (IntegerOverflow ''locating Annex-A directory entries'')
     else
       let_try (checked_range bytes ''IMAGE_FILE_DIRECTORY'' (offset + 2) (min usize_max (n * 12))) (\<lambda>_.
       let_try (each_try (directory_step bytes (offset + 2)) [0..<n] (None, [])) (\<lambda>(_, entries).
       Ok entries)))"

section \<open>Entries\<close>

definition find_entry :: "directory_entry list \<Rightarrow> nat \<Rightarrow> directory_entry option" where
  "find_entry entries tag = find (\<lambda>e. de_tag e = tag) entries"

definition required_entry ::
  "directory_entry list \<Rightarrow> nat \<Rightarrow> (native_error, directory_entry) result" where
  "required_entry entries tag = ok_or (MissingAnnexAField tag) (find_entry entries tag)"

definition validate_entry ::
  "directory_entry \<Rightarrow> nat list \<Rightarrow> nat \<Rightarrow> (native_error, unit) result" where
  "validate_entry e allowed_types expected_count =
     (if de_count e = expected_count \<and> element_type e \<in> set allowed_types then Ok ()
      else Err (InvalidAnnexAEntry (de_tag e) (element_type e) (de_count e)))"

definition scalar_value :: "directory_entry \<Rightarrow> (native_error, nat) result" where
  "scalar_value e =
     let_try (validate_entry e [1, 3, 4] 1) (\<lambda>_.
     if element_type e = 1 then Ok (take_bit 8 (de_value e))
     else if element_type e = 3 then Ok (take_bit 16 (de_value e))
     else if element_type e = 4 then Ok (de_value e)
     else Panic)"

definition optional_scalar ::
  "directory_entry list \<Rightarrow> nat \<Rightarrow> (native_error, nat option) result" where
  "optional_scalar entries tag =
     (case find_entry entries tag of None \<Rightarrow> Ok None
      | Some e \<Rightarrow> let_try (scalar_value e) (\<lambda>v. Ok (Some v)))"

definition element_size :: "nat \<Rightarrow> nat option" where
  "element_size ty =
     (if ty \<in> {1, 2, 6, 7} then Some 1 else if ty \<in> {3, 8} then Some 2
      else if ty \<in> {4, 9, 11} then Some 4 else if ty \<in> {5, 10, 12} then Some 8 else None)"

definition optional_blob :: "u8 list \<Rightarrow> directory_entry list \<Rightarrow> nat \<Rightarrow>
    (native_error, byte_range option) result" where
  "optional_blob bytes entries tag =
     (case find_entry entries tag of None \<Rightarrow> Ok None
      | Some e \<Rightarrow>
          let_try (ok_or (InvalidAnnexAEntry tag (element_type e) (de_count e))
            (element_size (element_type e))) (\<lambda>size.
          if usize_max < size * de_count e then Err (IntegerOverflow ''sizing Annex-A metadata'')
          else let_try (checked_range bytes ''Annex-A metadata'' (de_value e) (size * de_count e))
            (\<lambda>range. Ok (Some range))))"

definition optional_resolution ::
  "directory_entry list \<Rightarrow> (native_error, (nat \<times> nat) option) result" where
  "optional_resolution entries =
     (case (find_entry entries TAG_HORIZONTAL_RESOLUTION, find_entry entries TAG_VERTICAL_RESOLUTION) of
        (None, None) \<Rightarrow> Ok None
      | (Some _, None) \<Rightarrow> Err (MissingAnnexAField TAG_VERTICAL_RESOLUTION)
      | (None, Some _) \<Rightarrow> Err (MissingAnnexAField TAG_HORIZONTAL_RESOLUTION)
      | (Some h, Some v) \<Rightarrow>
          let_try (validate_entry h [11] 1) (\<lambda>_.
          let_try (validate_entry v [11] 1) (\<lambda>_. Ok (Some (de_value h, de_value v)))))"

text \<open>
  A codestream whose even length is one more than what the input holds lacks its pad byte and ends
  with the input.
\<close>

definition checked_codestream_range ::
  "u8 list \<Rightarrow> string \<Rightarrow> nat \<Rightarrow> nat \<Rightarrow> (native_error, byte_range) result" where
  "checked_codestream_range bytes field offset len =
     (case checked_range bytes field offset len of
        Ok r \<Rightarrow> Ok r
      | Err e \<Rightarrow>
          (case e of
             RangeOutsideInput _ _ _ _ \<Rightarrow>
               if even len \<and> offset \<le> length bytes \<and> length bytes - offset + 1 \<le> usize_max \<and>
                  length bytes - offset + 1 = len
               then Ok (offset, length bytes) else Err e
           | _ \<Rightarrow> Err e)
      | Panic \<Rightarrow> Panic)"

definition parse_alpha_range ::
  "u8 list \<Rightarrow> directory_entry list \<Rightarrow> (native_error, byte_range option) result" where
  "parse_alpha_range bytes entries =
     let_try (optional_scalar entries TAG_ALPHA_OFFSET) (\<lambda>offset.
     let_try (optional_scalar entries TAG_ALPHA_BYTE_COUNT) (\<lambda>n.
     case (offset, n) of
       (None, None) \<Rightarrow> Ok None
     | (Some _, None) \<Rightarrow> Err (MissingAnnexAField TAG_ALPHA_BYTE_COUNT)
     | (None, Some _) \<Rightarrow> Err (MissingAnnexAField TAG_ALPHA_OFFSET)
     | (Some offset, Some n) \<Rightarrow>
         if offset = 0 \<and> n = 0 then Ok None
         else let_try (checked_codestream_range bytes ''ALPHA_BYTE_COUNT'' offset n)
           (\<lambda>range. Ok (Some range))))"

section \<open>The image\<close>

record annex_metadata =
  transformation :: "nat option"
  resolution_dpi_bits :: "(nat \<times> nat) option"
  icc_profile_range :: "byte_range option"

record annex_image =
  ax_width :: nat
  ax_height :: nat
  pixel_format_guid :: "u8 list"
  codestream_range :: byte_range
  alpha_range :: "byte_range option"
  ax_metadata :: annex_metadata

definition ranges_overlap :: "byte_range option \<Rightarrow> byte_range \<Rightarrow> bool" where
  "ranges_overlap alpha r =
     (case alpha of None \<Rightarrow> False | Some a \<Rightarrow> fst a < snd r \<and> fst r < snd a)"

definition image_byte_count :: "u8 list \<Rightarrow> nat \<Rightarrow> nat \<Rightarrow> (native_error, nat) result" where
  "image_byte_count bytes offset n =
     (if n = 0 then
        (if length bytes < offset
         then Err (RangeOutsideInput ''IMAGE_OFFSET'' offset 0 (length bytes))
         else Ok (length bytes - offset))
      else Ok n)"

definition build_image ::
  "u8 list \<Rightarrow> directory_entry list \<Rightarrow> (native_error, annex_image) result" where
  "build_image bytes entries =
     let_try (required_entry entries TAG_PIXEL_FORMAT) (\<lambda>pixel.
     let_try (validate_entry pixel [1] 16) (\<lambda>_.
     let_try (checked_range bytes ''PIXEL_FORMAT'' (de_value pixel) 16) (\<lambda>guid_range.
     let_try (slice_or_panic bytes guid_range) (\<lambda>guid.
     let_try (let_try (required_entry entries TAG_IMAGE_WIDTH) scalar_value) (\<lambda>image_width.
     let_try (let_try (required_entry entries TAG_IMAGE_HEIGHT) scalar_value) (\<lambda>image_height.
     let_try (let_try (required_entry entries TAG_IMAGE_OFFSET) scalar_value) (\<lambda>offset.
     let_try (let_try (required_entry entries TAG_IMAGE_BYTE_COUNT) scalar_value) (\<lambda>n.
     let_try (image_byte_count bytes offset n) (\<lambda>n.
     let_try (checked_codestream_range bytes ''IMAGE_BYTE_COUNT'' offset n) (\<lambda>range.
     let_try (parse_alpha_range bytes entries) (\<lambda>alpha.
     if ranges_overlap alpha range
     then Err (InvalidSyntax ''overlapping primary and alpha codestream ranges'')
     else
       let_try (optional_scalar entries TAG_TRANSFORMATION) (\<lambda>transform.
       let_try (optional_resolution entries) (\<lambda>resolution.
       let_try (optional_blob bytes entries TAG_ICC_PROFILE) (\<lambda>icc.
       Ok \<lparr>ax_width = image_width, ax_height = image_height, pixel_format_guid = guid,
         codestream_range = range, alpha_range = alpha,
         ax_metadata = \<lparr>transformation = transform, resolution_dpi_bits = resolution,
           icc_profile_range = icc\<rparr>\<rparr>))))))))))))))"

definition parse_annex_a :: "u8 list \<Rightarrow> (native_error, annex_image) result" where
  "parse_annex_a bytes =
     let_try (validate_file_header bytes) (\<lambda>_.
     let_try (annex_u32 bytes 4 ''FIRST_IFD_OFFSET'') (\<lambda>ifd_offset.
     if odd ifd_offset then Err (ReservedValue ''FIRST_IFD_OFFSET alignment'' ifd_offset)
     else let_try (parse_directory bytes ifd_offset) (\<lambda>entries. build_image bytes entries)))"

section \<open>Reads inside the input\<close>

lemma le_val_simps [simp]: "le_val [] = 0" "le_val (b # bs) = unat b + 256 * le_val bs"
  by (simp_all add: le_val_def)

lemma le_val_less: "le_val bs < 2 ^ (8 * length bs)"
proof (induction bs)
  case (Cons b bs)
  have "unat b < 256" using unsigned_less [of b] by simp
  moreover have "2 ^ (8 * length (b # bs)) = (256::nat) * 2 ^ (8 * length bs)"
    by (simp add: power_add)
  ultimately show ?case using Cons by simp
qed simp

lemma length_slice [simp]: "b \<le> length bytes \<Longrightarrow> length (slice bytes (a, b)) = b - a"
  by (simp add: slice_def)

lemma slice_Ok [simp]:
  "a \<le> b \<Longrightarrow> b \<le> length bytes \<Longrightarrow> slice_or_panic bytes (a, b) = Ok (slice bytes (a, b))"
  by (simp add: slice_or_panic_def)

definition addressable :: "u8 list \<Rightarrow> bool" where
  "addressable bytes \<longleftrightarrow> length bytes < 2 ^ 63"

text \<open>The field of \<open>n\<close> bytes at an offset.\<close>

definition field_at :: "u8 list \<Rightarrow> nat \<Rightarrow> nat \<Rightarrow> nat" where
  "field_at bytes offset n = le_val (slice bytes (offset, offset + n))"

lemma annex_u16_eq: "addressable bytes \<Longrightarrow> annex_u16 bytes offset field =
    (if offset + 2 \<le> length bytes then Ok (field_at bytes offset 2)
     else if usize_max < offset + 2 then Err (IntegerOverflow ''computing input byte range'')
     else Err (RangeOutsideInput field offset 2 (length bytes)))"
  by (auto simp: annex_u16_def checked_range_def addressable_def field_at_def)

lemma annex_u32_eq: "addressable bytes \<Longrightarrow> annex_u32 bytes offset field =
    (if offset + 4 \<le> length bytes then Ok (field_at bytes offset 4)
     else if usize_max < offset + 4 then Err (IntegerOverflow ''computing input byte range'')
     else Err (RangeOutsideInput field offset 4 (length bytes)))"
  by (auto simp: annex_u32_def checked_range_def addressable_def field_at_def)

lemma field_at_less: "offset + n \<le> length bytes \<Longrightarrow> field_at bytes offset n < 2 ^ (8 * n)"
  using le_val_less [of "slice bytes (offset, offset + n)"] by (simp add: field_at_def)

definition entry_at :: "u8 list \<Rightarrow> nat \<Rightarrow> directory_entry" where
  "entry_at bytes offset = \<lparr>de_tag = field_at bytes offset 2, element_type = field_at bytes (offset + 2) 2,
     de_count = field_at bytes (offset + 4) 4, de_value = field_at bytes (offset + 8) 4\<rparr>"

definition entry_ok :: "directory_entry \<Rightarrow> bool" where
  "entry_ok e \<longleftrightarrow> de_tag e < 2 ^ 16 \<and> element_type e < 2 ^ 16 \<and> de_count e < 2 ^ 32 \<and> de_value e < 2 ^ 32"

lemma read_entry_at:
  "addressable bytes \<Longrightarrow> offset + 12 \<le> length bytes \<Longrightarrow> read_entry bytes offset = Ok (entry_at bytes offset)"
  by (simp add: read_entry_def annex_u16_eq annex_u32_eq entry_at_def)

lemma entry_at_ok: "offset + 12 \<le> length bytes \<Longrightarrow> entry_ok (entry_at bytes offset)"
  using field_at_less [of offset 2 bytes] field_at_less [of "offset + 2" 2 bytes]
    field_at_less [of "offset + 4" 4 bytes] field_at_less [of "offset + 8" 4 bytes]
  by (simp add: entry_ok_def entry_at_def)

section \<open>The directory is its table\<close>

definition table_entries :: "u8 list \<Rightarrow> nat \<Rightarrow> nat \<Rightarrow> directory_entry list" where
  "table_entries bytes start n = map (\<lambda>i. entry_at bytes (start + i * 12)) [0..<n]"

lemma table_entries_Suc:
  "table_entries bytes start (Suc n) = table_entries bytes start n @ [entry_at bytes (start + n * 12)]"
  by (simp add: table_entries_def)

definition tags_sorted :: "directory_entry list \<Rightarrow> bool" where
  "tags_sorted es \<longleftrightarrow> sorted_wrt (<) (map de_tag es)"

lemma tags_sorted_snoc:
  "tags_sorted (es @ [e]) \<longleftrightarrow> tags_sorted es \<and> (es = [] \<or> de_tag (last es) < de_tag e)"
proof (cases es rule: rev_cases)
  case (snoc fs f)
  have "(\<forall>x\<in>set fs. de_tag x < de_tag f) \<Longrightarrow> de_tag f < de_tag e \<Longrightarrow> \<forall>x\<in>set fs. de_tag x < de_tag e"
    by (meson less_trans)
  then show ?thesis using snoc by (auto simp: tags_sorted_def sorted_wrt_append)
qed (simp add: tags_sorted_def)

lemma tags_sorted_short [simp]: "tags_sorted []" "tags_sorted [e]"
  by (simp_all add: tags_sorted_def)

definition last_tag :: "directory_entry list \<Rightarrow> nat option" where
  "last_tag es = (if es = [] then None else Some (de_tag (last es)))"

lemma directory_loop:
  assumes "addressable bytes" "start + n * 12 \<le> length bytes"
  shows "each_try (directory_step bytes start) [0..<n] (None, []) =
      Ok (last_tag (table_entries bytes start n), table_entries bytes start n) \<and>
      tags_sorted (table_entries bytes start n) \<or>
    (\<exists>p t. each_try (directory_step bytes start) [0..<n] (None, []) = Err (UnsortedAnnexATags p t) \<and>
      \<not> tags_sorted (table_entries bytes start n))"
  using assms(2)
proof (induction n)
  case 0
  then show ?case by (simp add: table_entries_def last_tag_def tags_sorted_def)
next
  case (Suc n)
  let ?es = "table_entries bytes start n" and ?e = "entry_at bytes (start + n * 12)"
  have "read_entry bytes (start + n * 12) = Ok ?e"
    using Suc.prems by (intro read_entry_at assms(1)) simp
  then have step: "directory_step bytes start n (last_tag ?es, ?es) =
      (if ?es \<noteq> [] \<and> de_tag ?e \<le> de_tag (last ?es)
       then Err (UnsortedAnnexATags (de_tag (last ?es)) (de_tag ?e))
       else Ok (Some (de_tag ?e), ?es @ [?e]))"
    by (simp add: directory_step_def last_tag_def)
  show ?case
    using Suc step
    by (cases "?es = []"; cases "de_tag ?e \<le> de_tag (last ?es)") (auto simp: each_try_append tags_sorted_snoc table_entries_Suc last_tag_def not_le)
qed

lemma parse_directory_table:
  assumes "addressable bytes"
  shows "parse_directory bytes offset = Ok es \<longleftrightarrow>
    (\<exists>n. 0 < n \<and> offset + 2 + n * 12 \<le> length bytes \<and> n = field_at bytes offset 2 \<and>
      es = table_entries bytes (offset + 2) n \<and> tags_sorted es)"
    and "parse_directory bytes offset \<noteq> Panic"
proof -
  let ?n = "field_at bytes offset 2"
  have loop: "parse_directory bytes offset =
      let_try (each_try (directory_step bytes (offset + 2)) [0..<?n] (None, [])) (\<lambda>(_, es). Ok es)"
    if "0 < ?n" "offset + 2 + ?n * 12 \<le> length bytes"
    using that assms
    by (simp add: parse_directory_def annex_u16_eq checked_range_def addressable_def)
  have other: "\<exists>e. parse_directory bytes offset = Err e" if "\<not> (0 < ?n \<and> offset + 2 + ?n * 12 \<le> length bytes)"
    using that assms field_at_less [of offset 2 bytes]
    by (auto simp: parse_directory_def annex_u16_eq checked_range_def addressable_def)
  show "parse_directory bytes offset = Ok es \<longleftrightarrow>
    (\<exists>n. 0 < n \<and> offset + 2 + n * 12 \<le> length bytes \<and> n = field_at bytes offset 2 \<and>
      es = table_entries bytes (offset + 2) n \<and> tags_sorted es)"
    and "parse_directory bytes offset \<noteq> Panic"
    using loop other directory_loop [OF assms, of "offset + 2" ?n] by fastforce+
qed

section \<open>Everything that an image names is inside the input\<close>

definition in_input :: "u8 list \<Rightarrow> byte_range \<Rightarrow> bool" where
  "in_input bytes r \<longleftrightarrow> fst r \<le> snd r \<and> snd r \<le> length bytes"

definition annex_image_ok :: "u8 list \<Rightarrow> annex_image \<Rightarrow> bool" where
  "annex_image_ok bytes img \<longleftrightarrow>
     ax_width img < 2 ^ 32 \<and> ax_height img < 2 ^ 32 \<and> length (pixel_format_guid img) = 16 \<and>
     in_input bytes (codestream_range img) \<and>
     (\<forall>r\<in>set_option (alpha_range img). in_input bytes r \<and>
        (snd r \<le> fst (codestream_range img) \<or> snd (codestream_range img) \<le> fst r)) \<and>
     (\<forall>r\<in>set_option (icc_profile_range (ax_metadata img)). in_input bytes r) \<and>
     (\<forall>v\<in>set_option (transformation (ax_metadata img)). v < 2 ^ 32)"

lemma checked_range_yields:
  "yields (checked_range bytes field offset n) (\<lambda>r. r = (offset, offset + n) \<and> in_input bytes r)"
  by (simp add: checked_range_def in_input_def)

text \<open>The two ways in which a codestream range is accepted.\<close>

lemma codestream_range_Ok:
  assumes "addressable bytes"
  shows "checked_codestream_range bytes field offset n = Ok r \<longleftrightarrow>
    (offset + n \<le> length bytes \<and> r = (offset, offset + n)) \<or>
    (even n \<and> 0 < n \<and> offset + n = length bytes + 1 \<and> r = (offset, length bytes))"
  using assms
  by (auto simp: checked_codestream_range_def checked_range_def addressable_def split: if_splits)

lemma codestream_range_yields:
  assumes "addressable bytes"
  shows "yields (checked_codestream_range bytes field offset n) (in_input bytes)"
proof (rule yieldsI)
  show "checked_codestream_range bytes field offset n \<noteq> Panic"
    by (simp add: checked_codestream_range_def checked_range_def split: native_error.split)
qed (use codestream_range_Ok [OF assms] in \<open>auto simp: in_input_def\<close>)

definition entries_ok :: "directory_entry list \<Rightarrow> bool" where
  "entries_ok es \<longleftrightarrow> (\<forall>e\<in>set es. entry_ok e)"

lemma find_entry_ok: "entries_ok es \<Longrightarrow> find_entry es tag = Some e \<Longrightarrow> entry_ok e"
  by (auto simp: find_entry_def find_Some_iff entries_ok_def)

lemma scalar_value_yields: "entry_ok e \<Longrightarrow> yields (scalar_value e) (\<lambda>v. v < 2 ^ 32)"
proof -
  assume "entry_ok e"
  moreover have "take_bit 8 (de_value e) < 2 ^ 8" "take_bit 16 (de_value e) < 2 ^ 16"
    by (rule take_bit_nat_less_exp)+
  ultimately show ?thesis by (simp add: scalar_value_def validate_entry_def entry_ok_def)
qed

lemma required_entry_yields: "entries_ok es \<Longrightarrow> yields (required_entry es tag) entry_ok"
  unfolding required_entry_def by (rule yields_ok_or) (rule find_entry_ok)

lemma required_scalar_yields:
  "entries_ok es \<Longrightarrow> yields (let_try (required_entry es tag) scalar_value) (\<lambda>v. v < 2 ^ 32)"
  by (rule yields_bind [OF required_entry_yields]) (assumption, rule scalar_value_yields)

lemma validate_entry_yields: "yields (validate_entry e types n) (\<lambda>_. True)"
  by (simp add: validate_entry_def)

lemma optional_scalar_yields:
  "entries_ok es \<Longrightarrow> yields (optional_scalar es tag) (\<lambda>v. \<forall>x\<in>set_option v. x < 2 ^ 32)"
  unfolding optional_scalar_def
  by (auto split: option.split intro!: yields_bind [OF scalar_value_yields] find_entry_ok)

lemma optional_blob_yields:
  "yields (optional_blob bytes es tag) (\<lambda>v. \<forall>r\<in>set_option v. in_input bytes r)"
  unfolding optional_blob_def
  by (auto split: option.split intro!: yields_bind [OF yields_ok_or] yields_bind [OF checked_range_yields])

lemma optional_resolution_yields: "yields (optional_resolution es) (\<lambda>_. True)"
  by (auto simp: optional_resolution_def validate_entry_def split: option.split)

lemma parse_alpha_range_yields:
  assumes "addressable bytes" "entries_ok es"
  shows "yields (parse_alpha_range bytes es) (\<lambda>v. \<forall>r\<in>set_option v. in_input bytes r)"
  unfolding parse_alpha_range_def
  by (intro yields_bind [OF optional_scalar_yields [OF assms(2)]])
    (auto split: option.split intro!: yields_bind [OF codestream_range_yields [OF assms(1)]])

lemma image_byte_count_yields: "yields (image_byte_count bytes offset n) (\<lambda>_. True)"
  by (simp add: image_byte_count_def)

lemma build_image_yields:
  assumes "addressable bytes" "entries_ok es"
  shows "yields (build_image bytes es) (annex_image_ok bytes)"
proof -
  have guid: "yields (slice_or_panic bytes r) (\<lambda>g. length g = 16)"
    if "r = (offset, offset + 16) \<and> in_input bytes r" for r offset
    using that by (auto simp: in_input_def)
  show ?thesis
    unfolding build_image_def
    by (intro yields_bind [OF required_entry_yields [OF assms(2)]]
        yields_bind [OF validate_entry_yields] yields_bind [OF checked_range_yields]
        yields_bind [OF guid] yields_bind [OF required_scalar_yields [OF assms(2)]]
        yields_bind [OF image_byte_count_yields] yields_bind [OF codestream_range_yields [OF assms(1)]]
        yields_bind [OF parse_alpha_range_yields [OF assms]] yields_if
        yields_bind [OF optional_scalar_yields [OF assms(2)]]
        yields_bind [OF optional_resolution_yields] yields_bind [OF optional_blob_yields])
      (auto simp: annex_image_ok_def ranges_overlap_def not_less)
qed

lemma annex_u32_yields: "addressable bytes \<Longrightarrow> yields (annex_u32 bytes offset field) (\<lambda>_. True)"
  by (simp add: annex_u32_eq)

lemma table_entries_ok:
  "start + n * 12 \<le> length bytes \<Longrightarrow> entries_ok (table_entries bytes start n)"
  by (auto simp: entries_ok_def table_entries_def intro!: entry_at_ok)

lemma parse_directory_yields: "addressable bytes \<Longrightarrow> yields (parse_directory bytes offset) entries_ok"
proof (rule yieldsI)
  fix es
  assume "addressable bytes" "parse_directory bytes offset = Ok es"
  then obtain n where "offset + 2 + n * 12 \<le> length bytes" "es = table_entries bytes (offset + 2) n"
    using parse_directory_table(1) by blast
  then show "entries_ok es" using table_entries_ok by simp
qed (rule parse_directory_table(2))

lemma find_entry_distinct:
  "distinct (map de_tag es) \<Longrightarrow> find_entry es (de_tag e) = Some e \<longleftrightarrow> e \<in> set es"
proof (induction es)
  case (Cons d es)
  then show ?case
    by (cases "d = e") (auto simp: find_entry_def simp flip: image_eqI)
qed (simp add: find_entry_def)

lemma find_entry_sorted: "tags_sorted es \<Longrightarrow> find_entry es (de_tag e) = Some e \<longleftrightarrow> e \<in> set es"
  by (rule find_entry_distinct) (simp add: tags_sorted_def strict_sorted_iff)

lemma container_yields:
  assumes "addressable bytes"
  shows "yields (parse_annex_a bytes) (annex_image_ok bytes)"
proof -
  have "yields (validate_file_header bytes) (\<lambda>_. True)" by (simp add: validate_file_header_def)
  then show ?thesis
    unfolding parse_annex_a_def
    by (intro yields_bind [of "validate_file_header bytes"] yields_bind [OF annex_u32_yields [OF assms]]
        yields_if yields_bind [OF parse_directory_yields [OF assms]] build_image_yields assms) simp_all
qed

section \<open>Properties\<close>

text \<open>
  Parsing an Annex-A container terminates without a panic on every input. In an image that it
  returns the codestream, the separate alpha codestream and the ICC profile are ranges inside the
  input, the two codestreams do not overlap, and the scalar fields fit their types.
\<close>

theorem container_safe:
  assumes "addressable bytes"
  shows "case parse_annex_a bytes of Panic \<Rightarrow> False | Err e \<Rightarrow> True
    | Ok img \<Rightarrow> annex_image_ok bytes img"
  using container_yields [OF assms] by (simp add: yields_def)

lemma container_safe_witness:
  "case parse_annex_a [0x49, 0x49, 0xBC, 1, 8, 0, 0, 0, 1, 0] of Panic \<Rightarrow> False | Err e \<Rightarrow> True
    | Ok img \<Rightarrow> annex_image_ok [0x49, 0x49, 0xBC, 1, 8, 0, 0, 0, 1, 0] img"
  by (rule container_safe) (simp add: addressable_def)

text \<open>
  The directory parser returns exactly the table: it succeeds if and only if the declared number
  of twelve-byte entries is positive, the table is inside the input and its tags strictly increase,
  and then the entries are those of the table in order. So every tag occurs at most once and looking
  a tag up finds its only entry.
\<close>

theorem directory_is_its_table:
  assumes "addressable bytes"
  shows "(\<forall>es. parse_directory bytes offset = Ok es \<longleftrightarrow>
      (\<exists>n. 0 < n \<and> offset + 2 + n * 12 \<le> length bytes \<and> n = field_at bytes offset 2 \<and>
        es = table_entries bytes (offset + 2) n \<and> tags_sorted es)) \<and>
    (\<forall>es e. parse_directory bytes offset = Ok es \<longrightarrow>
      (find_entry es (de_tag e) = Some e \<longleftrightarrow> e \<in> set es))"
  using parse_directory_table [OF assms] find_entry_sorted by auto

lemma directory_is_its_table_witness:
  "parse_directory [1, 0, 0x80, 0xBC, 4, 0, 1, 0, 0, 0, 7, 0, 0, 0] 0 =
    Ok [\<lparr>de_tag = 0xBC80, element_type = 4, de_count = 1, de_value = 7\<rparr>]"
proof -
  let ?b = "[1, 0, 0x80, 0xBC, 4, 0, 1, 0, 0, 0, 7, 0, 0, 0] :: u8 list"
  have "addressable ?b" by (simp add: addressable_def)
  moreover have "field_at ?b 0 2 = 1" "table_entries ?b 2 1 =
      [\<lparr>de_tag = 0xBC80, element_type = 4, de_count = 1, de_value = 7\<rparr>]"
    by (simp_all add: field_at_def table_entries_def entry_at_def slice_def)
  ultimately show ?thesis using directory_is_its_table [of ?b 0] by (simp add: numeral_2_eq_2)
qed

end
