(* ===== verification/Header.thy ===== *)
theory Header
  imports Bit_Reader
begin

text \<open>
  The image and image-plane headers of T.832 (\<open>crates/jxr-native/src/header\<close>): the parsed value
  types (\<open>types.rs\<close>), the narrow reads (\<open>fields.rs\<close>), the image header (\<open>image.rs\<close>), the plane
  header (\<open>plane.rs\<close>) and their composition (\<open>mod.rs\<close>). Unsigned fields are naturals whose
  ranges are proved; the packed flags are a 16-bit word.
\<close>

section \<open>Value types\<close>

type_synonym header_flags = "16 word"

record codestream_header =
  width :: nat
  height :: nat
  flags :: header_flags
  orientation :: nat
  overlap_mode :: nat
  output_color_format :: nat
  output_bit_depth :: nat
  tile_widths_mb :: "nat list"
  tile_heights_mb :: "nat list"
  margins :: "nat list"

definition flag_masks :: "header_flags list" where
  "flag_masks = map (\<lambda>i. push_bit i 1) [0, 1, 2, 3, 4, 5, 6, 7, 8]"

definition from_parsed :: "bool list \<Rightarrow> header_flags" where
  "from_parsed values =
     foldl (\<lambda>bits (enabled, mask). if enabled then bits OR mask else bits) 0 (zip values flag_masks)"

definition hard_tiling :: "header_flags \<Rightarrow> bool" where
  "hard_tiling f \<longleftrightarrow> f AND push_bit 0 1 \<noteq> 0"

definition frequency_mode :: "header_flags \<Rightarrow> bool" where
  "frequency_mode f \<longleftrightarrow> f AND push_bit 1 1 \<noteq> 0"

definition index_table_present :: "header_flags \<Rightarrow> bool" where
  "index_table_present f \<longleftrightarrow> f AND push_bit 2 1 \<noteq> 0"

definition long_word :: "header_flags \<Rightarrow> bool" where
  "long_word f \<longleftrightarrow> f AND push_bit 3 1 \<noteq> 0"

definition short_header :: "header_flags \<Rightarrow> bool" where
  "short_header f \<longleftrightarrow> f AND push_bit 4 1 \<noteq> 0"

definition trim_flexbits :: "header_flags \<Rightarrow> bool" where
  "trim_flexbits f \<longleftrightarrow> f AND push_bit 5 1 \<noteq> 0"

definition red_blue_not_swapped :: "header_flags \<Rightarrow> bool" where
  "red_blue_not_swapped f \<longleftrightarrow> f AND push_bit 6 1 \<noteq> 0"

definition premultiplied_alpha :: "header_flags \<Rightarrow> bool" where
  "premultiplied_alpha f \<longleftrightarrow> f AND push_bit 7 1 \<noteq> 0"

definition alpha_plane :: "header_flags \<Rightarrow> bool" where
  "alpha_plane f \<longleftrightarrow> f AND push_bit 8 1 \<noteq> 0"

type_synonym quantizer_set = "nat list"

record image_plane_header =
  internal_color_format :: nat
  scaled :: bool
  bands_present :: nat
  components :: nat
  chroma_centering_x :: nat
  chroma_centering_y :: nat
  shift_bits :: nat
  mantissa_length :: nat
  exponent_bias :: int
  dc_quantizers :: "quantizer_set option"
  lp_quantizers :: "quantizer_set option"
  hp_quantizers :: "quantizer_set option"

record parsed_headers =
  image :: codestream_header
  primary :: image_plane_header
  alpha :: "image_plane_header option"
  bytes_consumed :: nat

section \<open>Narrow reads\<close>

definition read_dimension :: "nat \<Rightarrow> string \<Rightarrow> nat parser" where
  "read_dimension bits operation = run_try (read_bits bits) (\<lambda>minus_one.
     if 2 ^ 32 \<le> minus_one then fail (IntegerOverflow operation)
     else if 2 ^ 32 \<le> minus_one + 1 then fail (IntegerOverflow operation)
     else give (minus_one + 1))"

definition require_value :: "nat \<Rightarrow> nat \<Rightarrow> string \<Rightarrow> unit parser" where
  "require_value value expected field =
     (if value = expected then give () else fail (ReservedValue field value))"

definition read_u8 :: "nat \<Rightarrow> nat parser" where
  "read_u8 bits = run_try (read_bits bits) (\<lambda>value.
     if value < 2 ^ 8 then give value
     else fail (IntegerOverflow ''converting parsed field to u8''))"

definition read_u16 :: "nat \<Rightarrow> nat parser" where
  "read_u16 bits = run_try (read_bits bits) (\<lambda>value.
     if value < 2 ^ 16 then give value
     else fail (IntegerOverflow ''converting parsed field to u16''))"

section \<open>The image header\<close>

definition GDI_SIGNATURE :: nat where
  "GDI_SIGNATURE = 0x574D50484F544F00"

definition read_overlap_mode :: "nat parser" where
  "read_overlap_mode = run_try (read_u8 2) (\<lambda>value.
     if value = 3 then fail (ReservedValue ''OVERLAP_MODE'' 3) else give value)"

definition inferred_margin :: "nat \<Rightarrow> nat" where
  "inferred_margin dimension =
     (let remainder = dimension mod 16 in if remainder = 0 then 0 else 16 - remainder)"

definition parse_margins :: "bool \<Rightarrow> nat \<Rightarrow> nat \<Rightarrow> nat list parser" where
  "parse_margins windowing image_width image_height =
     (if windowing then
        run_try (read_u8 6) (\<lambda>a. run_try (read_u8 6) (\<lambda>b.
        run_try (read_u8 6) (\<lambda>c. run_try (read_u8 6) (\<lambda>d. give [a, b, c, d]))))
      else give [0, 0, inferred_margin image_height, inferred_margin image_width])"

definition read_tile_sizes :: "nat \<Rightarrow> nat \<Rightarrow> nat list parser" where
  "read_tile_sizes count bits = collect_try count (read_u16 bits) []"

definition parse_tiles :: "bool \<Rightarrow> bool \<Rightarrow> (nat list \<times> nat list) parser" where
  "parse_tiles tiling short =
     (if \<not> tiling then give ([], [])
      else
        run_try (read_u16 12) (\<lambda>columns_minus_one.
        run_try (read_u16 12) (\<lambda>rows_minus_one.
        let tile_bits = (if short then 8 else 16) in
        run_try (read_tile_sizes columns_minus_one tile_bits) (\<lambda>widths.
        run_try (read_tile_sizes rows_minus_one tile_bits) (\<lambda>heights.
        give (widths, heights))))))"

definition validate_output_codes :: "nat \<Rightarrow> nat \<Rightarrow> unit parser" where
  "validate_output_codes color depth =
     (if color > 8 then fail (ReservedValue ''OUTPUT_CLR_FMT'' color)
      else if depth = 5 \<or> 11 \<le> depth \<and> depth \<le> 14
      then fail (ReservedValue ''OUTPUT_BITDEPTH'' depth)
      else give ())"

definition parse_image_header :: "codestream_header parser" where
  "parse_image_header =
     run_try (read_bits 64) (\<lambda>signature.
     if signature \<noteq> GDI_SIGNATURE then fail InvalidSignature
     else
     run_try (read_bits 4) (\<lambda>reserved_b.
     run_try (require_value reserved_b 1 ''RESERVED_B'') (\<lambda>_.
     run_try read_flag (\<lambda>hard_tiling.
     run_try (read_bits 3) (\<lambda>reserved_c.
     run_try read_flag (\<lambda>tiling.
     run_try read_flag (\<lambda>frequency_mode.
     run_try (read_u8 3) (\<lambda>orientation.
     run_try read_flag (\<lambda>index_table_present.
     run_try read_overlap_mode (\<lambda>overlap_mode.
     run_try read_flag (\<lambda>short_header.
     run_try read_flag (\<lambda>long_word.
     run_try read_flag (\<lambda>windowing.
     run_try read_flag (\<lambda>trim_flexbits.
     run_try read_flag (\<lambda>reserved_d.
     run_try read_flag (\<lambda>red_blue_not_swapped.
     run_try read_flag (\<lambda>premultiplied_alpha.
     run_try read_flag (\<lambda>alpha_plane.
     run_try (read_u8 4) (\<lambda>output_color_format.
     run_try (read_u8 4) (\<lambda>output_bit_depth.
     run_try (validate_output_codes output_color_format output_bit_depth) (\<lambda>_.
     let dimension_bits = (if short_header then 16 else 32) in
     run_try (read_dimension dimension_bits ''WIDTH_MINUS1'') (\<lambda>width.
     run_try (read_dimension dimension_bits ''HEIGHT_MINUS1'') (\<lambda>height.
     run_try (parse_tiles tiling short_header) (\<lambda>(tile_widths_mb, tile_heights_mb).
     run_try (parse_margins windowing width height) (\<lambda>margins.
     give \<lparr>width = width, height = height,
       flags = from_parsed [hard_tiling, frequency_mode, index_table_present, long_word,
         short_header, trim_flexbits, red_blue_not_swapped, premultiplied_alpha, alpha_plane],
       orientation = orientation, overlap_mode = overlap_mode,
       output_color_format = output_color_format, output_bit_depth = output_bit_depth,
       tile_widths_mb = tile_widths_mb, tile_heights_mb = tile_heights_mb,
       margins = margins\<rparr>)))))))))))))))))))))))))"

section \<open>The plane header\<close>

definition validate_internal_color :: "nat \<Rightarrow> unit parser" where
  "validate_internal_color value =
     (if value = 5 \<or> value = 7 then fail (ReservedValue ''INTERNAL_CLR_FMT'' value) else give ())"

definition validate_bands :: "nat \<Rightarrow> unit parser" where
  "validate_bands value =
     (if value > 3 then fail (ReservedValue ''BANDS_PRESENT'' value) else give ())"

definition cast_signed_8 :: "nat \<Rightarrow> int" where
  "cast_signed_8 value = (if value < 128 then int value else int value - 256)"

definition parse_float_parameters :: "nat \<Rightarrow> (nat \<times> int) parser" where
  "parse_float_parameters depth =
     (if depth = 7 then
        run_try (read_u8 8) (\<lambda>mantissa. run_try (read_u8 8) (\<lambda>bias.
        give (mantissa, cast_signed_8 bias)))
      else give (0, 0))"

definition read_chroma_centering :: "nat parser" where
  "read_chroma_centering = run_try (read_u8 3) (\<lambda>value.
     give (if value = 5 \<or> value = 6 then 7 else value))"

definition parse_yuv420_layout :: "(nat \<times> nat \<times> nat) parser" where
  "parse_yuv420_layout =
     run_try read_flag (\<lambda>reserved_e. run_try read_chroma_centering (\<lambda>x.
     run_try read_flag (\<lambda>reserved_g. run_try read_chroma_centering (\<lambda>y.
     give (3, x, y)))))"

definition parse_yuv422_layout :: "(nat \<times> nat \<times> nat) parser" where
  "parse_yuv422_layout =
     run_try read_flag (\<lambda>reserved_e. run_try read_chroma_centering (\<lambda>x.
     run_try (read_bits 4) (\<lambda>reserved_h. give (3, x, 0))))"

definition parse_ncomponent_layout :: "(nat \<times> nat \<times> nat) parser" where
  "parse_ncomponent_layout =
     run_try (read_u16 4) (\<lambda>short_count.
     run_try
       (if short_count = 15 then
          run_try (read_u16 12) (\<lambda>extra.
          if 2 ^ 16 \<le> extra + 16 then fail (IntegerOverflow ''computing component count'')
          else give (extra + 16))
        else run_try (read_bits 4) (\<lambda>reserved_h. give (short_count + 1)))
     (\<lambda>components. give (components, 0, 0)))"

definition parse_component_layout :: "nat \<Rightarrow> (nat \<times> nat \<times> nat) parser" where
  "parse_component_layout color =
     (if color = 0 then give (1, 0, 0)
      else if color = 1 then parse_yuv420_layout
      else if color = 2 then parse_yuv422_layout
      else if color = 3 then
        run_try (read_bits 4) (\<lambda>reserved_f. run_try (read_bits 4) (\<lambda>reserved_h. give (3, 0, 0)))
      else if color = 4 then give (4, 0, 0)
      else if color = 6 then parse_ncomponent_layout
      else fail (ReservedValue ''INTERNAL_CLR_FMT'' color))"

definition separate_quantizers :: "nat \<Rightarrow> nat list parser" where
  "separate_quantizers count =
     run_try (read_u8 8) (\<lambda>luma. run_try (read_u8 8) (\<lambda>chroma.
     if count = 0 then pure_try Panic
     else give ((replicate count chroma)[0 := luma])))"

definition independent_quantizers :: "nat \<Rightarrow> nat list parser" where
  "independent_quantizers count = collect_try count (read_u8 8) []"

definition parse_quantizer_set :: "nat \<Rightarrow> quantizer_set parser" where
  "parse_quantizer_set count =
     run_try (if count = 1 then give 0 else read_u8 2) (\<lambda>mode.
     if mode = 0 then run_try (read_u8 8) (\<lambda>value. give (replicate count value))
     else if mode = 1 then separate_quantizers count
     else if mode = 2 then independent_quantizers count
     else if mode = 3 then fail (ReservedValue ''COMPONENT_MODE'' 3)
     else pure_try Panic)"

definition parse_optional_quantizers :: "nat \<Rightarrow> quantizer_set option parser" where
  "parse_optional_quantizers count =
     run_try read_flag (\<lambda>present.
     if present then run_try (parse_quantizer_set count) (\<lambda>set. give (Some set))
     else give None)"

definition parse_high_band_quantizers ::
  "nat \<Rightarrow> nat \<Rightarrow> (quantizer_set option \<times> quantizer_set option) parser" where
  "parse_high_band_quantizers count bands =
     (if bands = 3 then give (None, None)
      else
        run_try read_flag (\<lambda>reserved_i.
        run_try (parse_optional_quantizers count) (\<lambda>low_pass.
        if bands = 2 then give (low_pass, None)
        else
          run_try read_flag (\<lambda>reserved_j.
          run_try (parse_optional_quantizers count) (\<lambda>high_pass.
          give (low_pass, high_pass))))))"

definition parse_plane_header :: "nat \<Rightarrow> image_plane_header parser" where
  "parse_plane_header depth =
     run_try (read_u8 3) (\<lambda>internal_color_format.
     run_try (validate_internal_color internal_color_format) (\<lambda>_.
     run_try read_flag (\<lambda>scaled.
     run_try (read_u8 4) (\<lambda>bands_present.
     run_try (validate_bands bands_present) (\<lambda>_.
     run_try (parse_component_layout internal_color_format)
       (\<lambda>(components, chroma_centering_x, chroma_centering_y).
     run_try (if depth = 2 \<or> depth = 3 \<or> depth = 6
              then read_u8 8 else give 0) (\<lambda>shift_bits.
     run_try (parse_float_parameters depth) (\<lambda>(mantissa_length, exponent_bias).
     run_try (parse_optional_quantizers components) (\<lambda>dc_quantizers.
     run_try (parse_high_band_quantizers components bands_present)
       (\<lambda>(lp_quantizers, hp_quantizers).
     run_try align_zero (\<lambda>_.
     give \<lparr>internal_color_format = internal_color_format, scaled = scaled,
       bands_present = bands_present, components = components,
       chroma_centering_x = chroma_centering_x, chroma_centering_y = chroma_centering_y,
       shift_bits = shift_bits, mantissa_length = mantissa_length,
       exponent_bias = exponent_bias, dc_quantizers = dc_quantizers,
       lp_quantizers = lp_quantizers, hp_quantizers = hp_quantizers\<rparr>)))))))))))"

section \<open>Both headers\<close>

definition parse_codestream_headers :: "u8 list \<Rightarrow> (native_error, parsed_headers) result" where
  "parse_codestream_headers bytes = fst (
     run_try parse_image_header (\<lambda>image.
     run_try (parse_plane_header (output_bit_depth image)) (\<lambda>primary.
     run_try
       (if alpha_plane (flags image)
        then run_try (parse_plane_header (output_bit_depth image)) (\<lambda>plane. give (Some plane))
        else give None) (\<lambda>alpha.
     (\<lambda>reader. (Ok \<lparr>image = image, primary = primary, alpha = alpha,
        bytes_consumed = (bit_position reader + 7) div 8\<rparr>, reader)))))
     (bit_reader_new bytes))"

section \<open>Every parse ends in a well-formed header or an error\<close>

definition image_header_ok :: "codestream_header \<Rightarrow> bool" where
  "image_header_ok h \<longleftrightarrow>
     1 \<le> width h \<and> width h < 2 ^ 32 \<and> 1 \<le> height h \<and> height h < 2 ^ 32 \<and>
     (short_header (flags h) \<longrightarrow> width h \<le> 2 ^ 16 \<and> height h \<le> 2 ^ 16) \<and>
     orientation h < 8 \<and> overlap_mode h \<le> 2 \<and> output_color_format h \<le> 8 \<and>
     output_bit_depth h \<in> {0, 1, 2, 3, 4, 6, 7, 8, 9, 10, 15} \<and>
     length (tile_widths_mb h) < 2 ^ 12 \<and> length (tile_heights_mb h) < 2 ^ 12 \<and>
     (\<forall>s \<in> set (tile_widths_mb h) \<union> set (tile_heights_mb h).
        s < (if short_header (flags h) then 2 ^ 8 else 2 ^ 16)) \<and>
     length (margins h) = 4 \<and> (\<forall>m \<in> set (margins h). m < 64)"

definition quantizers_ok :: "nat \<Rightarrow> quantizer_set option \<Rightarrow> bool" where
  "quantizers_ok n qs = (case qs of None \<Rightarrow> True
     | Some values \<Rightarrow> length values = n \<and> list_all (\<lambda>q. q < 2 ^ 8) values)"

definition plane_header_ok :: "nat \<Rightarrow> image_plane_header \<Rightarrow> bool" where
  "plane_header_ok depth p \<longleftrightarrow>
     internal_color_format p \<in> {0, 1, 2, 3, 4, 6} \<and> bands_present p \<le> 3 \<and>
     1 \<le> components p \<and> components p < 2 ^ 12 + 16 \<and>
     (internal_color_format p = 0 \<longrightarrow> components p = 1) \<and>
     (internal_color_format p \<in> {1, 2, 3} \<longrightarrow> components p = 3) \<and>
     (internal_color_format p = 4 \<longrightarrow> components p = 4) \<and>
     chroma_centering_x p \<in> {0, 1, 2, 3, 4, 7} \<and> chroma_centering_y p \<in> {0, 1, 2, 3, 4, 7} \<and>
     (internal_color_format p \<notin> {1, 2} \<longrightarrow> chroma_centering_x p = 0) \<and>
     (internal_color_format p \<noteq> 1 \<longrightarrow> chroma_centering_y p = 0) \<and>
     shift_bits p < 2 ^ 8 \<and> (depth \<notin> {2, 3, 6} \<longrightarrow> shift_bits p = 0) \<and>
     mantissa_length p < 2 ^ 8 \<and> - 128 \<le> exponent_bias p \<and> exponent_bias p \<le> 127 \<and>
     (depth \<noteq> 7 \<longrightarrow> mantissa_length p = 0 \<and> exponent_bias p = 0) \<and>
     quantizers_ok (components p) (dc_quantizers p) \<and>
     quantizers_ok (components p) (lp_quantizers p) \<and>
     quantizers_ok (components p) (hp_quantizers p) \<and>
     (bands_present p = 3 \<longrightarrow> lp_quantizers p = None) \<and>
     (2 \<le> bands_present p \<longrightarrow> hp_quantizers p = None)"

lemmas bits_upholds = hdr.read_upholds

lemma flag_upholds: "upholds (reader_on bytes) read_flag (\<lambda>_. True)"
  unfolding read_flag_def by (intro upholds_bind [OF bits_upholds] upholds_give) simp_all

lemma u8_upholds: "n \<le> 64 \<Longrightarrow> upholds (reader_on bytes) (read_u8 n) (\<lambda>v. v < 2 ^ n \<and> v < 2 ^ 8)"
  unfolding read_u8_def
  by (intro upholds_bind [OF bits_upholds] upholds_if upholds_give upholds_fail) simp_all

lemma u16_upholds: "n \<le> 64 \<Longrightarrow> upholds (reader_on bytes) (read_u16 n) (\<lambda>v. v < 2 ^ n \<and> v < 2 ^ 16)"
  unfolding read_u16_def
  by (intro upholds_bind [OF bits_upholds] upholds_if upholds_give upholds_fail) simp_all

lemma dimension_upholds:
  "n \<le> 64 \<Longrightarrow> upholds (reader_on bytes) (read_dimension n op) (\<lambda>v. 1 \<le> v \<and> v \<le> 2 ^ n \<and> v < 2 ^ 32)"
  unfolding read_dimension_def
  by (intro upholds_bind [OF bits_upholds] upholds_if upholds_give upholds_fail) simp_all

lemma require_upholds: "upholds (reader_on bytes) (require_value v e f) (\<lambda>_. v = e)"
  unfolding require_value_def by (intro upholds_if upholds_give upholds_fail)

lemma align_zero_upholds: "upholds (reader_on bytes) align_zero (\<lambda>_. True)"
proof (rule upholdsI)
  fix r
  have "reader_on bytes r \<Longrightarrow> reader_on bytes (snd (align_zero r)) \<and> fst (align_zero r) \<noteq> Panic"
  proof (induction r rule: align_zero.induct)
    case (1 r)
    obtain x t where x: "read_flag r = (x, t)" by (cases "read_flag r")
    have "reader_on bytes t" "x \<noteq> Panic"
      using upholdsD [OF flag_upholds \<open>reader_on bytes r\<close>] x by auto
    then show ?case
      using "1.IH" "1.prems" x by (subst (1 2) align_zero.simps) (auto split: result.split)
  qed
  then show "reader_on bytes r \<Longrightarrow> reader_on bytes (snd (align_zero r))"
    "reader_on bytes r \<Longrightarrow> fst (align_zero r) \<noteq> Panic" by auto
qed simp

lemma overlap_upholds: "upholds (reader_on bytes) read_overlap_mode (\<lambda>v. v \<le> 2)"
  unfolding read_overlap_mode_def
  by (intro upholds_bind [OF u8_upholds] upholds_if upholds_give upholds_fail) simp_all

lemma codes_upholds:
  "d < 16 \<Longrightarrow> upholds (reader_on bytes) (validate_output_codes c d)
     (\<lambda>_. c \<le> 8 \<and> d \<in> {0, 1, 2, 3, 4, 6, 7, 8, 9, 10, 15})"
  unfolding validate_output_codes_def
  by (intro upholds_if upholds_give upholds_fail) (simp, presburger)

lemma inferred_margin_less: "inferred_margin n < 16"
  by (simp add: inferred_margin_def Let_def)

lemma margins_upholds:
  "upholds (reader_on bytes) (parse_margins windowing w h) (\<lambda>ms. length ms = 4 \<and> (\<forall>m\<in>set ms. m < 64))"
  unfolding parse_margins_def
  by (intro upholds_if upholds_bind [OF u8_upholds] upholds_give)
    (simp_all add: less_trans [OF inferred_margin_less])

lemma tile_sizes_upholds:
  "n \<le> 16 \<Longrightarrow> upholds (reader_on bytes) (read_tile_sizes count n)
     (\<lambda>vs. length vs = count \<and> (\<forall>v\<in>set vs. v < 2 ^ n))"
  unfolding read_tile_sizes_def
  using upholds_collect [OF u16_upholds [of n], where vs = "[]" and n = count] by (rule upholds_mono) simp_all

lemma tiles_upholds:
  "upholds (reader_on bytes) (parse_tiles tiling short) (\<lambda>(ws, hs).
     length ws < 2 ^ 12 \<and> length hs < 2 ^ 12 \<and>
     (\<forall>s \<in> set ws \<union> set hs. s < (if short then 2 ^ 8 else 2 ^ 16)))"
  unfolding parse_tiles_def Let_def
  by (intro upholds_if upholds_bind [OF u16_upholds] upholds_bind [OF tile_sizes_upholds]
      upholds_give) (auto split: if_splits)

lemma mask_or: "(if e then w OR m else w) = w OR (if e then m else (0 :: 16 word))"
  by simp

lemma flag_bit: "(f :: 16 word) AND push_bit n 1 \<noteq> 0 \<longleftrightarrow> bit f n"
  by (simp add: push_bit_eq_mult and_exp_eq_0_iff_not_bit)

lemma bit_mask_if: "n < 16 \<Longrightarrow> bit (if e then push_bit m 1 else (0 :: 16 word)) n \<longleftrightarrow> e \<and> m = n"
  by (auto simp: bit_simps)

lemma bit_from_parsed:
  "length vs = 9 \<Longrightarrow> n < 9 \<Longrightarrow> bit (from_parsed vs) n \<longleftrightarrow> vs ! n"
proof -
  assume "length vs = 9" "n < 9"
  then obtain a b c d e f g h i where vs: "vs = [a, b, c, d, e, f, g, h, i]"
    by (auto simp: numeral_eq_Suc length_Suc_conv)
  have "n = 0 \<or> n = 1 \<or> n = 2 \<or> n = 3 \<or> n = 4 \<or> n = 5 \<or> n = 6 \<or> n = 7 \<or> n = 8"
    using \<open>n < 9\<close> by presburger
  then show ?thesis
    unfolding vs from_parsed_def flag_masks_def list.map zip_Cons_Cons zip_Nil foldl.simps
      prod.case mask_or
    by (elim disjE) (simp_all only: bit_or_iff bit_mask_if bit_0_eq nth_Cons_0 nth_Cons_numeral
        nth_Cons_Suc One_nat_def, simp_all)
qed

lemma from_parsed_accessors:
  "hard_tiling (from_parsed [a, b, c, d, e, f, g, h, i]) = a"
  "frequency_mode (from_parsed [a, b, c, d, e, f, g, h, i]) = b"
  "index_table_present (from_parsed [a, b, c, d, e, f, g, h, i]) = c"
  "long_word (from_parsed [a, b, c, d, e, f, g, h, i]) = d"
  "short_header (from_parsed [a, b, c, d, e, f, g, h, i]) = e"
  "trim_flexbits (from_parsed [a, b, c, d, e, f, g, h, i]) = f"
  "red_blue_not_swapped (from_parsed [a, b, c, d, e, f, g, h, i]) = g"
  "premultiplied_alpha (from_parsed [a, b, c, d, e, f, g, h, i]) = h"
  "alpha_plane (from_parsed [a, b, c, d, e, f, g, h, i]) = i"
  unfolding hard_tiling_def frequency_mode_def index_table_present_def long_word_def
    short_header_def trim_flexbits_def red_blue_not_swapped_def premultiplied_alpha_def
    alpha_plane_def flag_bit
  by (simp_all add: bit_from_parsed)

lemma image_header_upholds: "upholds (reader_on bytes) parse_image_header image_header_ok"
  unfolding parse_image_header_def Let_def
  by (intro upholds_if upholds_bind [OF bits_upholds] upholds_bind [OF require_upholds]
      upholds_bind [OF flag_upholds] upholds_bind [OF u8_upholds] upholds_bind [OF overlap_upholds]
      upholds_bind [OF codes_upholds] upholds_bind [OF dimension_upholds]
      upholds_bind2 [OF tiles_upholds] upholds_bind [OF margins_upholds] upholds_give upholds_fail)
    (auto simp: image_header_ok_def from_parsed_accessors split: if_splits)

lemma centering_upholds: "upholds (reader_on bytes) read_chroma_centering (\<lambda>v. v \<in> {0, 1, 2, 3, 4, 7})"
  unfolding read_chroma_centering_def
  by (intro upholds_bind [OF u8_upholds] upholds_give) (simp, simp, presburger)

lemma layout_upholds:
  "upholds (reader_on bytes) (parse_component_layout color) (\<lambda>(n, x, y).
     1 \<le> n \<and> n < 2 ^ 12 + 16 \<and> (color = 0 \<longrightarrow> n = 1) \<and> (color \<in> {1, 2, 3} \<longrightarrow> n = 3) \<and>
     (color = 4 \<longrightarrow> n = 4) \<and> x \<in> {0, 1, 2, 3, 4, 7} \<and> y \<in> {0, 1, 2, 3, 4, 7} \<and>
     (color \<notin> {1, 2} \<longrightarrow> x = 0) \<and> (color \<noteq> 1 \<longrightarrow> y = 0))"
proof -
  have n: "upholds (reader_on bytes) parse_ncomponent_layout
      (\<lambda>(n, x, y). 1 \<le> n \<and> n < 2 ^ 12 + 16 \<and> x = 0 \<and> y = 0)"
    unfolding parse_ncomponent_layout_def
    by (rule upholds_bind [OF u16_upholds], simp,
        rule upholds_bind [where P = "\<lambda>n. 1 \<le> n \<and> n < 2 ^ 12 + 16"],
        intro upholds_if upholds_bind [OF u16_upholds] upholds_bind [OF bits_upholds] upholds_give
          upholds_fail)
      (auto intro: upholds_give)
  show ?thesis
    unfolding parse_component_layout_def parse_yuv420_layout_def parse_yuv422_layout_def
    by (intro upholds_if upholds_bind [OF flag_upholds] upholds_bind [OF centering_upholds]
        upholds_bind [OF bits_upholds] upholds_give upholds_fail upholds_mono [OF n])
      (simp_all split: prod.splits)
qed

lemma float_upholds:
  "upholds (reader_on bytes) (parse_float_parameters depth) (\<lambda>(m, e).
     m < 2 ^ 8 \<and> - 128 \<le> e \<and> e \<le> 127 \<and> (depth \<noteq> 7 \<longrightarrow> m = 0 \<and> e = 0))"
  unfolding parse_float_parameters_def
  by (intro upholds_if upholds_bind [OF u8_upholds] upholds_give) (auto simp: cast_signed_8_def)

lemma quantizer_set_upholds:
  assumes "1 \<le> n"
  shows "upholds (reader_on bytes) (parse_quantizer_set n) (\<lambda>qs. length qs = n \<and> list_all (\<lambda>q. q < 2 ^ 8) qs)"
proof -
  have sep: "upholds (reader_on bytes) (separate_quantizers n)
      (\<lambda>qs. length qs = n \<and> list_all (\<lambda>q. q < 2 ^ 8) qs)"
    unfolding separate_quantizers_def using assms
    by (intro upholds_bind [OF u8_upholds] upholds_if upholds_give)
      (auto simp: list_all_iff dest!: set_update_subset_insert [THEN subsetD])
  have ind: "upholds (reader_on bytes) (independent_quantizers n)
      (\<lambda>qs. length qs = n \<and> list_all (\<lambda>q. q < 2 ^ 8) qs)"
    unfolding independent_quantizers_def
    using upholds_collect [OF u8_upholds [of 8], where vs = "[]" and n = n] by (rule upholds_mono) (simp_all add: list_all_iff)
  have mode: "upholds (reader_on bytes) (if n = 1 then give 0 else read_u8 2) (\<lambda>m. m < 4)"
    by (intro upholds_if upholds_give upholds_mono [OF u8_upholds]) simp_all
  show ?thesis
    unfolding parse_quantizer_set_def
    by (intro upholds_bind [OF mode] upholds_if upholds_bind [OF u8_upholds] upholds_give
        upholds_fail sep ind)
      (auto simp: list_all_iff)
qed

lemma optional_quantizers_upholds:
  "1 \<le> n \<Longrightarrow> upholds (reader_on bytes) (parse_optional_quantizers n) (quantizers_ok n)"
  unfolding parse_optional_quantizers_def
  by (intro upholds_bind [OF flag_upholds] upholds_if upholds_bind [OF quantizer_set_upholds]
      upholds_give) (simp_all add: quantizers_ok_def)

lemma high_band_quantizers_upholds:
  "1 \<le> n \<Longrightarrow> upholds (reader_on bytes) (parse_high_band_quantizers n bands) (\<lambda>(lp, hp).
     quantizers_ok n lp \<and> quantizers_ok n hp \<and> (bands = 3 \<longrightarrow> lp = None) \<and>
     (bands = 2 \<or> bands = 3 \<longrightarrow> hp = None))"
  unfolding parse_high_band_quantizers_def
  by (intro upholds_if upholds_bind [OF flag_upholds] upholds_bind [OF optional_quantizers_upholds]
      upholds_give) (simp_all add: quantizers_ok_def)

lemma plane_header_upholds: "upholds (reader_on bytes) (parse_plane_header depth) (plane_header_ok depth)"
proof -
  have shift: "upholds (reader_on bytes)
      (if depth = 2 \<or> depth = 3 \<or> depth = 6 then read_u8 8 else give 0)
      (\<lambda>v. v < 2 ^ 8 \<and> (depth \<notin> {2, 3, 6} \<longrightarrow> v = 0))"
    by (intro upholds_if upholds_give upholds_mono [OF u8_upholds]) auto
  have color: "upholds (reader_on bytes) (validate_internal_color c) (\<lambda>_. c \<noteq> 5 \<and> c \<noteq> 7)" for c
    unfolding validate_internal_color_def by (intro upholds_if upholds_give upholds_fail) simp
  have bands: "upholds (reader_on bytes) (validate_bands c) (\<lambda>_. c \<le> 3)" for c
    unfolding validate_bands_def by (intro upholds_if upholds_give upholds_fail) simp
  have c8: "c < 8 \<Longrightarrow> c \<noteq> 5 \<Longrightarrow> c \<noteq> 7 \<Longrightarrow> c \<in> {0, 1, 2, 3, 4, 6}" for c :: nat
    by (simp, presburger)
  have b3: "b \<le> 3 \<Longrightarrow> (b = 2 \<longrightarrow> P) \<Longrightarrow> (b = 3 \<longrightarrow> P) \<Longrightarrow> 2 \<le> b \<longrightarrow> P" for b :: nat and P
    by (cases "b = 2"; cases "b = 3") simp_all
  show ?thesis
    unfolding parse_plane_header_def
    by (intro upholds_bind [OF u8_upholds] upholds_bind [OF color] upholds_bind [OF flag_upholds]
        upholds_bind [OF bands] upholds_bind3 [OF layout_upholds] upholds_bind [OF shift]
        upholds_bind2 [OF float_upholds] upholds_bind [OF optional_quantizers_upholds]
        upholds_bind2 [OF high_band_quantizers_upholds] upholds_bind [OF align_zero_upholds]
        upholds_give)
      (simp_all add: plane_header_ok_def del: insert_iff split: prod.splits,
        (intro conjI c8 [unfolded One_nat_def] b3; simp))
qed

section \<open>A writer, and the parser reads back what it emits\<close>

text \<open>
  \<open>parses p n bs v\<close>: at bit position \<open>n\<close>, on input that starts with \<open>bs\<close>, the parser consumes
  exactly \<open>bs\<close> and returns \<open>v\<close>.
\<close>

definition parses :: "'a parser \<Rightarrow> nat \<Rightarrow> bool list \<Rightarrow> 'a \<Rightarrow> bool" where
  "parses p n bs v \<longleftrightarrow> (\<forall>bytes r rest.
     reader_on bytes r \<longrightarrow> rd_position r = n \<longrightarrow> reader_bits r = bs @ rest \<longrightarrow>
     (\<exists>t. p r = (Ok v, t) \<and> reader_on bytes t \<and> rd_position t = n + length bs \<and> reader_bits t = rest))"

lemma parses_step:
  assumes "parses m n bs v" "parses (f v) (n + length bs) (concat bss) w"
  shows "parses (run_try m f) n (concat (bs # bss)) w"
  unfolding parses_def
proof (intro allI impI)
  fix bytes r rest
  assume r: "reader_on bytes r" "rd_position r = n" "reader_bits r = concat (bs # bss) @ rest"
  then obtain t where t: "m r = (Ok v, t)" "reader_on bytes t" "rd_position t = n + length bs"
    "reader_bits t = concat bss @ rest"
    using assms(1) unfolding parses_def by (metis append.assoc concat.simps(2))
  then obtain u where "f v t = (Ok w, u)" "reader_on bytes u" "reader_bits u = rest"
    "rd_position u = n + length bs + length (concat bss)"
    using assms(2) unfolding parses_def by metis
  then show "\<exists>u. run_try m f r = (Ok w, u) \<and> reader_on bytes u \<and>
      rd_position u = n + length (concat (bs # bss)) \<and> reader_bits u = rest"
    using t by (simp add: run_try_step add.assoc)
qed

lemma parses_step2:
  "parses m n bs (a, b) \<Longrightarrow> parses (f a b) (n + length bs) (concat bss) w \<Longrightarrow>
    parses (run_try m (\<lambda>(a, b). f a b)) n (concat (bs # bss)) w"
  by (erule parses_step) simp

lemma parses_step3:
  "parses m n bs (a, b, c) \<Longrightarrow> parses (f a b c) (n + length bs) (concat bss) w \<Longrightarrow>
    parses (run_try m (\<lambda>(a, b, c). f a b c)) n (concat (bs # bss)) w"
  by (erule parses_step) simp

lemma parses_skip: "parses m n [] v \<Longrightarrow> parses (f v) n (concat bss) w \<Longrightarrow>
    parses (run_try m f) n (concat bss) w"
  using parses_step [of m n "[]" v f bss w] by simp

lemma parses_done: "v = w \<Longrightarrow> parses (give v) n (concat []) w"
  by (auto simp: parses_def)

lemma parses_give: "parses (give v) n [] v"
  by (simp only: parses_def) auto

lemma parses_cond: "(b \<Longrightarrow> parses p n bs v) \<Longrightarrow> (\<not> b \<Longrightarrow> parses q n bs v) \<Longrightarrow>
    parses (if b then p else q) n bs v"
  by simp

lemma parses_bits: "k \<le> 64 \<Longrightarrow> v < 2 ^ k \<Longrightarrow> parses (read_bits k) n (nat_bits k v) v"
  unfolding parses_def using hdr.read_written read_bits_position
  by (metis length_nat_bits)

lemma parses_flag: "parses read_flag n [b] b"
  unfolding parses_def using read_flag_bit read_flag_position
  by (metis Suc_eq_plus1 append_Cons append_Nil length_Cons list.size(3) One_nat_def)

lemma parses_map:
  assumes "parses m n bs v" "f v = give w"
  shows "parses (run_try m f) n bs w"
  using parses_step [of m n bs v f "[]" w] assms by (simp add: parses_done [simplified])

lemma parses_u8: "k \<le> 64 \<Longrightarrow> v < 2 ^ k \<Longrightarrow> v < 2 ^ 8 \<Longrightarrow> parses (read_u8 k) n (nat_bits k v) v"
  unfolding read_u8_def by (rule parses_map [OF parses_bits]) simp_all

lemma parses_u16:
  "k \<le> 64 \<Longrightarrow> v < 2 ^ k \<Longrightarrow> v < 2 ^ 16 \<Longrightarrow> parses (read_u16 k) n (nat_bits k v) v"
  unfolding read_u16_def by (rule parses_map [OF parses_bits]) simp_all

lemma parses_dimension:
  assumes "k \<le> 64" "1 \<le> v" "v - 1 < 2 ^ k" "v < 2 ^ 32"
  shows "parses (read_dimension k op) n (nat_bits k (v - 1)) v"
proof -
  have "v - 1 < 2 ^ 32" "v - 1 + 1 = v" using assms by simp_all
  then show ?thesis
    unfolding read_dimension_def using assms by (intro parses_map [OF parses_bits]) simp_all
qed

lemma parses_collect:
  assumes "\<And>v n. v \<in> set vs \<Longrightarrow> parses m n (emit v) v"
  shows "parses (collect_try (length vs) m acc) n (concat (map emit vs)) (acc @ vs)"
  using assms
proof (induction vs arbitrary: acc n)
  case Nil
  show ?case using parses_give [of acc n] by (simp only: list.size list.map concat.simps append_Nil2 collect_try.simps)
next
  case (Cons v vs)
  show ?case unfolding list.size list.map add.commute [of _ "Suc 0"] plus_nat.add_Suc collect_try.simps add_0
  proof (rule parses_step [where v = v])
    show "parses m n (emit v) v" using Cons.prems by simp
    show "parses (collect_try (length vs) m (acc @ [v])) (n + length (emit v))
        (concat (map emit vs)) (acc @ v # vs)"
      using Cons.IH [of "acc @ [v]" "n + length (emit v)"] Cons.prems by simp
  qed
qed

lemma parses_align: "parses align_zero n (replicate ((8 - n mod 8) mod 8) False) ()"
proof (induction "(8 - n mod 8) mod 8" arbitrary: n)
  case 0
  have "n mod 8 < 8" by simp
  then have "n mod 8 = 0" using 0 by (cases "n mod 8 = 0") simp_all
  then show ?case by (simp add: parses_def align_zero.simps)
next
  case (Suc k)
  then have n: "n mod 8 \<noteq> 0" by (metis diff_zero mod_self nat.distinct(1))
  have "n mod 8 < 8" by simp
  then have k: "k = (8 - Suc n mod 8) mod 8"
    using Suc(2) n by (cases "Suc (n mod 8) = 8") (simp_all add: mod_Suc)
  show ?case unfolding parses_def
  proof (intro allI impI)
    fix bytes r rest
    assume r: "reader_on bytes r" "rd_position r = n"
      "reader_bits r = replicate ((8 - n mod 8) mod 8) False @ rest"
    then have "reader_bits r = False # replicate k False @ rest" using Suc(2)
      by (metis append_Cons replicate_Suc)
    then obtain t where t: "read_flag r = (Ok False, t)" "reader_bits t = replicate k False @ rest"
      "reader_on bytes t" using read_flag_bit [OF r(1)] by blast
    moreover have p: "rd_position t = Suc n" using read_flag_position [OF t(1)] r(2) by simp
    ultimately obtain u where "align_zero t = (Ok (), u)" "reader_on bytes u"
      "rd_position u = Suc n + k" "reader_bits u = rest"
      using Suc(1) [OF k] unfolding parses_def k [symmetric] by (metis length_replicate)
    then show "\<exists>t. align_zero r = (Ok (), t) \<and> reader_on bytes t \<and>
        rd_position t = n + length (replicate ((8 - n mod 8) mod 8) False) \<and> reader_bits t = rest"
      using t(1) r(2) n Suc(2) by (subst align_zero.simps) (simp flip: Suc(2))
  qed
qed

lemma parses_align_at:
  "n = k \<Longrightarrow> parses align_zero n (replicate ((8 - k mod 8) mod 8) False) ()"
  by (simp only: parses_align)

text \<open>The bits the standard reserves, which the parser skips whatever they hold.\<close>

record reserved_fields =
  rsv_c :: nat
  rsv_d :: bool
  rsv_e :: bool
  rsv_f :: nat
  rsv_g :: bool
  rsv_h :: nat
  rsv_i :: bool
  rsv_j :: bool

definition emit_image :: "reserved_fields \<Rightarrow> codestream_header \<Rightarrow> bool list" where
  "emit_image rsv h =
     (let f = flags h; bits = (if short_header f then 16 else 32);
          tile = (if short_header f then 8 else 16);
          ws = tile_widths_mb h; hs = tile_heights_mb h; tiling = (ws \<noteq> [] \<or> hs \<noteq> []);
          inferred = [0, 0, inferred_margin (height h), inferred_margin (width h)];
          windowing = (margins h \<noteq> inferred)
      in concat [nat_bits 64 GDI_SIGNATURE, nat_bits 4 1, [hard_tiling f],
           nat_bits 3 (rsv_c rsv mod 8), [tiling], [frequency_mode f],
           nat_bits 3 (orientation h), [index_table_present f], nat_bits 2 (overlap_mode h),
           [short_header f], [long_word f], [windowing], [trim_flexbits f], [rsv_d rsv],
           [red_blue_not_swapped f], [premultiplied_alpha f], [alpha_plane f],
           nat_bits 4 (output_color_format h), nat_bits 4 (output_bit_depth h),
           nat_bits bits (width h - 1), nat_bits bits (height h - 1),
           (if tiling then concat [nat_bits 12 (length ws), nat_bits 12 (length hs),
              concat (map (nat_bits tile) ws), concat (map (nat_bits tile) hs)] else []),
           (if windowing then concat (map (nat_bits 6) (margins h)) else [])])"

definition emit_layout :: "reserved_fields \<Rightarrow> image_plane_header \<Rightarrow> bool list" where
  "emit_layout rsv p =
     (let color = internal_color_format p; n = components p in
      if color = 1 then concat [[rsv_e rsv], nat_bits 3 (chroma_centering_x p), [rsv_g rsv],
        nat_bits 3 (chroma_centering_y p)]
      else if color = 2 then concat [[rsv_e rsv], nat_bits 3 (chroma_centering_x p),
        nat_bits 4 (rsv_h rsv mod 16)]
      else if color = 3 then concat [nat_bits 4 (rsv_f rsv mod 16), nat_bits 4 (rsv_h rsv mod 16)]
      else if color = 6 then
        (if n \<le> 15 then concat [nat_bits 4 (n - 1), nat_bits 4 (rsv_h rsv mod 16)]
         else concat [nat_bits 4 15, nat_bits 12 (n - 16)])
      else [])"

text \<open>The shortest of the three component modes.\<close>

definition emit_quantizers :: "nat \<Rightarrow> quantizer_set option \<Rightarrow> bool list" where
  "emit_quantizers n qs = (case qs of None \<Rightarrow> [False] | Some values \<Rightarrow>
     concat [[True],
       (if n = 1 then concat [nat_bits 8 (hd values)]
        else if values = replicate n (hd values) then concat [nat_bits 2 0, nat_bits 8 (hd values)]
        else if values = (replicate n (values ! 1))[0 := hd values]
        then concat [nat_bits 2 1, nat_bits 8 (hd values), nat_bits 8 (values ! 1)]
        else concat [nat_bits 2 2, concat (map (nat_bits 8) values)])])"

definition emit_plane :: "reserved_fields \<Rightarrow> nat \<Rightarrow> nat \<Rightarrow> image_plane_header \<Rightarrow> bool list" where
  "emit_plane rsv depth n p =
     (let body = concat [nat_bits 3 (internal_color_format p), [scaled p],
            nat_bits 4 (bands_present p), emit_layout rsv p,
            (if depth = 2 \<or> depth = 3 \<or> depth = 6 then nat_bits 8 (shift_bits p) else []),
            (if depth = 7 then concat [nat_bits 8 (mantissa_length p),
               nat_bits 8 (nat (exponent_bias p mod 256))] else []),
            emit_quantizers (components p) (dc_quantizers p),
            (if bands_present p = 3 then [] else concat [[rsv_i rsv],
               emit_quantizers (components p) (lp_quantizers p),
               (if bands_present p = 2 then [] else concat [[rsv_j rsv],
                  emit_quantizers (components p) (hp_quantizers p)])])]
      in body @ replicate ((8 - (n + length body) mod 8) mod 8) False)"

definition emit_headers :: "reserved_fields \<Rightarrow> parsed_headers \<Rightarrow> bool list" where
  "emit_headers rsv h =
     (let depth = output_bit_depth (image h); a = emit_image rsv (image h);
          b = a @ emit_plane rsv depth (length a) (primary h)
      in case alpha h of None \<Rightarrow> b | Some p \<Rightarrow> b @ emit_plane rsv depth (length b) p)"


lemma parses_require: "v = e \<Longrightarrow> parses (require_value v e f) n [] ()"
  unfolding require_value_def by (intro parses_cond parses_give) simp

lemma parses_overlap: "v \<le> 2 \<Longrightarrow> parses read_overlap_mode n (nat_bits 2 v) v"
  unfolding read_overlap_mode_def by (rule parses_map [OF parses_u8]) simp_all

lemma parses_codes:
  "c \<le> 8 \<Longrightarrow> d \<in> {0, 1, 2, 3, 4, 6, 7, 8, 9, 10, 15} \<Longrightarrow>
    parses (validate_output_codes c d) n [] ()"
  unfolding validate_output_codes_def by (intro parses_cond parses_give) auto

lemma parses_margins:
  assumes "length ms = 4" "\<forall>m\<in>set ms. m < 64"
    and "\<not> windowing \<Longrightarrow> ms = [0, 0, inferred_margin h, inferred_margin w]"
  shows "parses (parse_margins windowing w h) n
    (if windowing then concat (map (nat_bits 6) ms) else []) ms"
proof (cases windowing)
  case True
  obtain a b c d where ms: "ms = [a, b, c, d]"
    using assms(1) by (auto simp: numeral_eq_Suc length_Suc_conv)
  have "parses (parse_margins True w h) n (concat (map (nat_bits 6) [a, b, c, d])) [a, b, c, d]"
    unfolding parse_margins_def if_True list.map
    by (intro parses_step [OF parses_u8] parses_done) (use assms(2) ms in simp_all)
  then show ?thesis using True ms by simp
next
  case False
  then show ?thesis
    using parses_give [of ms] by (simp only: parse_margins_def if_False assms(3) [OF False] if_P)
qed

lemma parses_tile_sizes:
  "k \<le> 16 \<Longrightarrow> \<forall>v\<in>set vs. v < 2 ^ k \<Longrightarrow>
    parses (read_tile_sizes (length vs) k) n (concat (map (nat_bits k) vs)) vs"
proof -
  assume k: "k \<le> 16" and vs: "\<forall>v\<in>set vs. v < 2 ^ k"
  have "(2::nat) ^ k \<le> 2 ^ 16" using k by (intro power_increasing) simp_all
  then have "parses (read_u16 k) m (nat_bits k v) v" if "v \<in> set vs" for v m
    using that k vs by (intro parses_u16) auto
  from parses_collect [OF this, of vs] show ?thesis
    by (simp add: read_tile_sizes_def) (metis append_Nil)
qed

lemma parses_tiles:
  assumes "length ws < 2 ^ 12" "length hs < 2 ^ 12"
    and "\<forall>s \<in> set ws \<union> set hs. s < (if short then 2 ^ 8 else 2 ^ 16)"
  shows "parses (parse_tiles (ws \<noteq> [] \<or> hs \<noteq> []) short) n
    (if ws \<noteq> [] \<or> hs \<noteq> [] then concat [nat_bits 12 (length ws), nat_bits 12 (length hs),
       concat (map (nat_bits (if short then 8 else 16)) ws),
       concat (map (nat_bits (if short then 8 else 16)) hs)] else []) (ws, hs)"
proof (cases "ws \<noteq> [] \<or> hs \<noteq> []")
  case True
  have b: "\<forall>s\<in>set ws. s < 2 ^ (if short then 8 else 16)"
    "\<forall>s\<in>set hs. s < 2 ^ (if short then 8 else 16)" using assms(3) by auto
  have c: "(if short then 8 else 16) \<le> (16::nat)" by simp
  show ?thesis unfolding parse_tiles_def eqTrueI [OF True] not_True_eq_False if_False if_True Let_def
    by (intro parses_step [OF parses_u16] parses_step [OF parses_tile_sizes] parses_done refl b c)
      (use assms in simp_all)
next
  case False
  then show ?thesis using parses_give by (simp add: parse_tiles_def)
qed

lemma from_parsed_of_flags:
  assumes "unat f < 2 ^ 9"
  shows "from_parsed [hard_tiling f, frequency_mode f, index_table_present f, long_word f,
    short_header f, trim_flexbits f, red_blue_not_swapped f, premultiplied_alpha f,
    alpha_plane f] = f" (is "from_parsed ?vs = f")
proof (rule bit_word_eqI)
  fix n assume n: "n < LENGTH(16)"
  then have n16: "n < 16" by simp
  have f: "f = take_bit 9 f"
    using assms by (intro word_unat_eq_iff [THEN iffD2]) (simp add: unsigned_take_bit_eq take_bit_nat_eq_self)
  have low: "bit (from_parsed ?vs) n = bit f n" if "n < 9"
  proof -
    have "n = 0 \<or> n = 1 \<or> n = 2 \<or> n = 3 \<or> n = 4 \<or> n = 5 \<or> n = 6 \<or> n = 7 \<or> n = 8"
      using that by presburger
    moreover have "bit (from_parsed ?vs) n = ?vs ! n" using that by (simp add: bit_from_parsed)
    ultimately show ?thesis
      unfolding hard_tiling_def frequency_mode_def index_table_present_def long_word_def
        short_header_def trim_flexbits_def red_blue_not_swapped_def premultiplied_alpha_def
        alpha_plane_def flag_bit
      by (elim disjE) simp_all
  qed
  have "\<not> bit (from_parsed ?vs) n" "\<not> bit f n" if "9 \<le> n"
  proof -
    show "\<not> bit f n" using that f by (metis bit_take_bit_iff not_less)
    show "\<not> bit (from_parsed ?vs) n"
      unfolding from_parsed_def flag_masks_def list.map zip_Cons_Cons zip_Nil foldl.simps
        prod.case mask_or bit_or_iff bit_mask_if [OF n16] bit_0_eq using that by simp
  qed
  then show "bit (from_parsed ?vs) n = bit f n" using low by (cases "n < 9") auto
qed

lemma parses_image:
  assumes "image_header_ok h" "unat (flags h) < 2 ^ 9"
  shows "parses parse_image_header n (emit_image rsv h) h"
proof -
  note ok = assms(1) [unfolded image_header_ok_def]
  have d: "output_bit_depth h < 2 ^ 4" "output_bit_depth h < 2 ^ 8" using ok by auto
  have w: "width h - 1 < 2 ^ (if short_header (flags h) then 16 else 32)"
    "height h - 1 < 2 ^ (if short_header (flags h) then 16 else 32)" using ok by auto
  show ?thesis
    unfolding parse_image_header_def emit_image_def Let_def
    using ok d w
    by (intro parses_step [OF parses_bits] parses_cond parses_skip [OF parses_require]
        parses_step [OF parses_flag] parses_step [OF parses_u8] parses_step [OF parses_overlap]
        parses_skip [OF parses_codes] parses_step [OF parses_dimension]
        parses_step2 [OF parses_tiles] parses_step [OF parses_margins] parses_done)
      (simp_all add: GDI_SIGNATURE_def from_parsed_of_flags [OF assms(2)])
qed

lemma parses_centering:
  "v \<in> {0, 1, 2, 3, 4, 7} \<Longrightarrow> parses read_chroma_centering n (nat_bits 3 v) v"
  unfolding read_chroma_centering_def by (rule parses_map [OF parses_u8]) auto

lemma parses_ncomponent:
  assumes "1 \<le> m" "m < 2 ^ 12 + 16"
  shows "parses parse_ncomponent_layout n
     (if m \<le> 15 then concat [nat_bits 4 (m - 1), nat_bits 4 (h mod 16)]
      else concat [nat_bits 4 15, nat_bits 12 (m - 16)]) (m, 0, 0)"
proof (cases "m \<le> 15")
  case True
  have "parses (run_try (read_bits 4) (\<lambda>reserved_h. give (m - 1 + 1))) k (nat_bits 4 (h mod 16)) m"
    for k by (rule parses_map [OF parses_bits]) (use assms in simp_all)
  then show ?thesis unfolding parse_ncomponent_layout_def if_P [OF True]
    by (intro parses_step [OF parses_u16] parses_step parses_done parses_cond)
      (use assms True in auto)
next
  case False
  have "parses (run_try (read_u16 12) (\<lambda>extra. if 2 ^ 16 \<le> extra + 16
      then fail (IntegerOverflow ''computing component count'') else give (extra + 16)))
      k (nat_bits 12 (m - 16)) m"
    for k by (rule parses_map [OF parses_u16]) (use assms False in auto)
  then show ?thesis unfolding parse_ncomponent_layout_def if_not_P [OF False]
    by (intro parses_step [OF parses_u16] parses_step parses_done parses_cond)
      (use assms False in auto)
qed

lemma parses_yuv420:
  assumes "x \<in> {0, 1, 2, 3, 4, 7}" "y \<in> {0, 1, 2, 3, 4, 7}"
  shows "parses parse_yuv420_layout n (concat [[e], nat_bits 3 x, [g], nat_bits 3 y]) (3, x, y)"
  unfolding parse_yuv420_layout_def
  by (intro parses_step [OF parses_flag] parses_step [OF parses_centering] parses_done refl assms)

lemma parses_yuv422:
  assumes "x \<in> {0, 1, 2, 3, 4, 7}"
  shows "parses parse_yuv422_layout n (concat [[e], nat_bits 3 x, nat_bits 4 (h mod 16)]) (3, x, 0)"
  unfolding parse_yuv422_layout_def
  by (intro parses_step [OF parses_flag] parses_step [OF parses_centering]
      parses_step [OF parses_bits] parses_done refl assms) simp_all

lemma parses_yuv444:
  "parses (run_try (read_bits 4) (\<lambda>reserved_f. run_try (read_bits 4) (\<lambda>reserved_h. give (3, 0, 0))))
    n (concat [nat_bits 4 (f mod 16), nat_bits 4 (h mod 16)]) (3, 0, 0)"
  by (intro parses_step [OF parses_bits] parses_done refl) simp_all

lemma plane_header_okD:
  assumes "plane_header_ok depth p"
  shows "internal_color_format p \<in> {0, 1, 2, 3, 4, 6}"
    "bands_present p \<le> 3"
    "1 \<le> components p"
    "components p < 2 ^ 12 + 16"
    "internal_color_format p = 0 \<longrightarrow> components p = 1"
    "internal_color_format p \<in> {1, 2, 3} \<longrightarrow> components p = 3"
    "internal_color_format p = 4 \<longrightarrow> components p = 4"
    "chroma_centering_x p \<in> {0, 1, 2, 3, 4, 7}"
    "chroma_centering_y p \<in> {0, 1, 2, 3, 4, 7}"
    "internal_color_format p \<notin> {1, 2} \<longrightarrow> chroma_centering_x p = 0"
    "internal_color_format p \<noteq> 1 \<longrightarrow> chroma_centering_y p = 0"
    "shift_bits p < 2 ^ 8"
    "depth \<notin> {2, 3, 6} \<longrightarrow> shift_bits p = 0"
    "mantissa_length p < 2 ^ 8"
    "- 128 \<le> exponent_bias p"
    "exponent_bias p \<le> 127"
    "depth \<noteq> 7 \<longrightarrow> mantissa_length p = 0 \<and> exponent_bias p = 0"
    "quantizers_ok (components p) (dc_quantizers p)"
    "quantizers_ok (components p) (lp_quantizers p)"
    "quantizers_ok (components p) (hp_quantizers p)"
    "bands_present p = 3 \<longrightarrow> lp_quantizers p = None"
    "2 \<le> bands_present p \<longrightarrow> hp_quantizers p = None"
  by (insert assms [unfolded plane_header_ok_def]; elim conjE; assumption)+

lemma parses_layout:
  assumes "plane_header_ok depth p"
  shows "parses (parse_component_layout (internal_color_format p)) n (emit_layout rsv p)
    (components p, chroma_centering_x p, chroma_centering_y p)"
proof -
  note ok = plane_header_okD [OF assms]
  have c: "components p = 1" "chroma_centering_x p = 0" "chroma_centering_y p = 0"
    if "internal_color_format p = 0" using ok(5,10,11) that by simp_all
  have f: "components p = 4" "chroma_centering_x p = 0" "chroma_centering_y p = 0"
    if "internal_color_format p = 4" using ok(7,10,11) that by simp_all
  have n: "1 \<le> components p" "components p < 2 ^ 12 + 16" by (rule ok)+
  have three: "components p = 3" if "internal_color_format p \<in> {1, 2, 3}" using ok(6) that by blast
  have xy: "chroma_centering_x p \<in> {0, 1, 2, 3, 4, 7}" "chroma_centering_y p \<in> {0, 1, 2, 3, 4, 7}"
    "internal_color_format p \<notin> {1, 2} \<Longrightarrow> chroma_centering_x p = 0"
    "internal_color_format p \<noteq> 1 \<Longrightarrow> chroma_centering_y p = 0" using ok(8-11) by blast+
  have "internal_color_format p \<in> {0, 1, 2, 3, 4, 6}" by (rule ok(1))
  then consider "internal_color_format p = 0" | "internal_color_format p = 1"
    | "internal_color_format p = 2" | "internal_color_format p = 3"
    | "internal_color_format p = 4" | "internal_color_format p = 6" by auto
  then show ?thesis
  proof cases
    case 1
    then show ?thesis
      using parses_give [of "(Suc 0, 0, 0)"] by (simp add: parse_component_layout_def emit_layout_def c)
  next
    case 2
    then show ?thesis using parses_yuv420 [OF xy(1,2)] three
      by (simp add: parse_component_layout_def emit_layout_def)
  next
    case 3
    then show ?thesis using parses_yuv422 [OF xy(1)] three xy(4)
      by (simp add: parse_component_layout_def emit_layout_def)
  next
    case 4
    then show ?thesis using parses_yuv444 three xy(3,4)
      by (simp add: parse_component_layout_def emit_layout_def)
  next
    case 5
    then show ?thesis
      using parses_give [of "(4, 0, 0)"] by (simp add: parse_component_layout_def emit_layout_def f)
  next
    case 6
    then show ?thesis using parses_ncomponent [OF n] xy(3,4)
      by (simp add: parse_component_layout_def emit_layout_def Let_def)
  qed
qed

lemma parses_quantizers:
  assumes "1 \<le> m" "quantizers_ok m qs"
  shows "parses (parse_optional_quantizers m) n (emit_quantizers m qs) qs"
proof (cases qs)
  case None
  then show ?thesis unfolding parse_optional_quantizers_def emit_quantizers_def
    by (simp only: option.case) (rule parses_map [OF parses_flag], simp)
next
  case (Some q)
  have q: "length q = m" "\<forall>v\<in>set q. v < 2 ^ 8"
    using assms(2) Some by (simp_all add: quantizers_ok_def list_all_iff)
  have h: "hd q < 2 ^ 8" using q assms(1) by (cases q) auto
  have flag: "parses (parse_optional_quantizers m) n (concat [[True], bs]) (Some q)"
    if "parses (parse_quantizer_set m) (n + 1) bs q" for bs
  proof -
    have "parses (run_try (parse_quantizer_set m) (\<lambda>set. give (Some set))) (n + 1) bs (Some q)"
      using that by (rule parses_map) simp
    then have "parses (if True then run_try (parse_quantizer_set m) (\<lambda>set. give (Some set))
        else give None) (n + length [True]) (concat [bs]) (Some q)" by simp
    then show ?thesis
      unfolding parse_optional_quantizers_def by (rule parses_step [OF parses_flag])
  qed
  show ?thesis unfolding Some emit_quantizers_def option.case
  proof (rule flag)
    let ?n = "n + 1"
    consider (one) "m = 1" | (uniform) "m \<noteq> 1" "q = replicate m (hd q)"
      | (separate) "m \<noteq> 1" "q \<noteq> replicate m (hd q)" "q = (replicate m (q ! 1))[0 := hd q]"
      | (independent) "m \<noteq> 1" "q \<noteq> replicate m (hd q)" "q \<noteq> (replicate m (q ! 1))[0 := hd q]"
      by metis
    then show "parses (parse_quantizer_set m) ?n
      (if m = 1 then concat [nat_bits 8 (hd q)]
       else if q = replicate m (hd q) then concat [nat_bits 2 0, nat_bits 8 (hd q)]
       else if q = (replicate m (q ! 1))[0 := hd q]
       then concat [nat_bits 2 1, nat_bits 8 (hd q), nat_bits 8 (q ! 1)]
       else concat [nat_bits 2 2, concat (map (nat_bits 8) q)]) q"
    proof cases
      case one
      have "replicate 1 (hd q) = q" using q one by (cases q) auto
      then show ?thesis unfolding parse_quantizer_set_def if_P [OF one] run_try_give if_P [OF refl]
        using h one by (intro parses_step [OF parses_u8] parses_done) simp_all
    next
      case uniform
      have "parses (run_try (read_u8 8) (\<lambda>value. give (replicate m value))) k (nat_bits 8 (hd q)) q"
        for k
      proof (rule parses_map [OF parses_u8])
        show "give (replicate m (hd q)) = give q"
          by (rule arg_cong [where f = give]) (rule uniform(2) [symmetric])
      qed (use h in simp_all)
      then show ?thesis
        unfolding parse_quantizer_set_def if_not_P [OF uniform(1)] if_P [OF uniform(2)]
        by (intro parses_step [OF parses_u8]) (simp_all only: if_P, simp_all)
    next
      case separate
      have "q ! 1 < 2 ^ 8" using q assms(1) separate(1) by simp
      then show ?thesis
        unfolding parse_quantizer_set_def separate_quantizers_def if_not_P [OF separate(1)]
          if_not_P [OF separate(2)] if_P [OF separate(3)]
        using h assms(1)
        by (intro parses_step [OF parses_u8] parses_cond parses_done separate(3) [symmetric])
          simp_all
    next
      case independent
      have "parses (independent_quantizers m) k (concat (map (nat_bits 8) q)) q" for k
        unfolding independent_quantizers_def
        using parses_collect [of q "read_u8 8" "nat_bits 8" "[]" k] parses_u8 [of 8] q by simp
      then show ?thesis
        unfolding parse_quantizer_set_def if_not_P [OF independent(1)]
          if_not_P [OF independent(2)] if_not_P [OF independent(3)]
        by (intro parses_step [OF parses_u8] parses_cond) simp_all
    qed
  qed
qed


lemma parses_high_bands:
  assumes "1 \<le> m" "quantizers_ok m lp" "quantizers_ok m hp"
    and "bands = 3 \<longrightarrow> lp = None" "bands = 2 \<or> bands = 3 \<longrightarrow> hp = None"
  shows "parses (parse_high_band_quantizers m bands) n
    (if bands = 3 then [] else concat [[i], emit_quantizers m lp,
       (if bands = 2 then [] else concat [[j], emit_quantizers m hp])]) (lp, hp)"
proof -
  have tail: "parses (if bands = 2 then give (lp, None)
       else run_try read_flag (\<lambda>reserved_j. run_try (parse_optional_quantizers m) (\<lambda>high_pass.
            give (lp, high_pass)))) k
       (concat [if bands = 2 then [] else concat [[j], emit_quantizers m hp]]) (lp, hp)" for k
  proof (cases "bands = 2")
    case True
    then show ?thesis using assms(5) parses_give [of "(lp, None)"] by simp
  next
    case False
    have "parses (run_try read_flag (\<lambda>reserved_j. run_try (parse_optional_quantizers m)
        (\<lambda>high_pass. give (lp, high_pass)))) k (concat [[j], emit_quantizers m hp]) (lp, hp)"
      by (intro parses_step [OF parses_flag] parses_step [OF parses_quantizers] parses_done refl
          assms)
    with False show ?thesis by simp
  qed
  show ?thesis
  proof (cases "bands = 3")
    case True
    then show ?thesis
      using assms(4,5) parses_give [of "(None, None)"] by (simp add: parse_high_band_quantizers_def)
  next
    case False
    show ?thesis unfolding parse_high_band_quantizers_def if_not_P [OF False]
      by (intro parses_step [OF parses_flag] parses_step [OF parses_quantizers] tail assms)
  qed
qed

lemma parses_float:
  assumes "mant < 2 ^ 8" "- 128 \<le> bias" "bias \<le> 127" "depth \<noteq> 7 \<longrightarrow> mant = 0 \<and> bias = 0"
  shows "parses (parse_float_parameters depth) n
    (if depth = 7 then concat [nat_bits 8 mant, nat_bits 8 (nat (bias mod 256))] else [])
    (mant, bias)"
proof (cases "depth = 7")
  case True
  have m: "bias mod 256 = (if bias < 0 then bias + 256 else bias)"
    using assms(2,3) mod_pos_pos_trivial [of "bias + 256" 256] by simp
  have b: "nat (bias mod 256) < 2 ^ 8" "cast_signed_8 (nat (bias mod 256)) = bias"
    unfolding m using assms(2,3) by (simp_all add: cast_signed_8_def nat_less_iff)
  show ?thesis unfolding parse_float_parameters_def if_P [OF True]
    by (intro parses_step [OF parses_u8] parses_done) (use assms b in simp_all)
next
  case False
  then show ?thesis using assms(4) parses_give [of "(0, 0)"] by (simp add: parse_float_parameters_def)
qed

lemma parses_plane:
  assumes "plane_header_ok depth p"
  shows "parses (parse_plane_header depth) n (emit_plane rsv depth n p) p"
proof -
  note ok = plane_header_okD [OF assms]
  have "internal_color_format p \<in> {0, 1, 2, 3, 4, 6}" by (rule ok)
  then have c: "internal_color_format p < 2 ^ 3" "internal_color_format p < 2 ^ 8"
    "internal_color_format p \<noteq> 5" "internal_color_format p \<noteq> 7" by auto
  have "bands_present p \<le> 3" by (rule ok)
  then have b: "bands_present p < 2 ^ 4" "bands_present p < 2 ^ 8" "bands_present p \<le> 3" by simp_all
  have color: "parses (validate_internal_color (internal_color_format p)) k [] ()" for k
    unfolding validate_internal_color_def by (intro parses_cond parses_give) (use c in simp)
  have bands: "parses (validate_bands (bands_present p)) k [] ()" for k
    unfolding validate_bands_def by (intro parses_cond parses_give) (use b in simp)
  have shift: "parses (if depth = 2 \<or> depth = 3 \<or> depth = 6 then read_u8 8 else give 0) k
      (if depth = 2 \<or> depth = 3 \<or> depth = 6 then nat_bits 8 (shift_bits p) else []) (shift_bits p)"
    for k
  proof (cases "depth = 2 \<or> depth = 3 \<or> depth = 6")
    case True
    have "shift_bits p < 2 ^ 8" by (rule ok)
    then have "parses (read_u8 8) k (nat_bits 8 (shift_bits p)) (shift_bits p)"
      by (intro parses_u8) simp_all
    then show ?thesis unfolding if_P [OF True] .
  next
    case False
    have "depth \<notin> {2, 3, 6} \<longrightarrow> shift_bits p = 0" by (rule ok)
    then have "shift_bits p = 0" using False by simp
    then show ?thesis unfolding if_not_P [OF False] by (simp only: parses_give)
  qed
  have q: "1 \<le> components p" "quantizers_ok (components p) (dc_quantizers p)"
    "quantizers_ok (components p) (lp_quantizers p)" "quantizers_ok (components p) (hp_quantizers p)"
    "bands_present p = 3 \<longrightarrow> lp_quantizers p = None"
    "bands_present p = 2 \<or> bands_present p = 3 \<longrightarrow> hp_quantizers p = None"
  proof -
    have h: "2 \<le> bands_present p \<longrightarrow> hp_quantizers p = None" by (rule ok)
    show "bands_present p = 2 \<or> bands_present p = 3 \<longrightarrow> hp_quantizers p = None" using h by auto
  qed (rule ok)+
  have f: "mantissa_length p < 2 ^ 8" "- 128 \<le> exponent_bias p" "exponent_bias p \<le> 127"
    "depth \<noteq> 7 \<longrightarrow> mantissa_length p = 0 \<and> exponent_bias p = 0" by (rule ok)+
  have body: "concat [a, b, c, d, e, f, g, h] @ pad = concat [a, b, c, d, e, f, g, h, pad]"
    for a b c d e f g h pad :: "bool list" by simp
  show ?thesis
    unfolding parse_plane_header_def emit_plane_def Let_def body
    by (intro parses_step [OF parses_u8] parses_skip [OF color] parses_step [OF parses_flag]
        parses_skip [OF bands] parses_step3 [OF parses_layout [OF assms]] parses_step [OF shift]
        parses_step2 [OF parses_float] parses_step [OF parses_quantizers]
        parses_step2 [OF parses_high_bands] parses_step [OF parses_align_at] parses_done
        assms b c q f)
      (simp_all add: add.assoc)
qed

lemma emitted_headers_parse:
  assumes "image_header_ok (image h)" "unat (flags (image h)) < 2 ^ 9"
    and "plane_header_ok (output_bit_depth (image h)) (primary h)"
    and "case alpha h of None \<Rightarrow> \<not> alpha_plane (flags (image h))
         | Some p \<Rightarrow> alpha_plane (flags (image h)) \<and> plane_header_ok (output_bit_depth (image h)) p"
    and "8 * length bytes + 64 \<le> usize_max"
    and "packet_bits bytes = emit_headers rsv h @ rest"
    and "bytes_consumed h = (length (emit_headers rsv h) + 7) div 8"
  shows "parse_codestream_headers bytes = Ok h"
proof -
  let ?depth = "output_bit_depth (image h)" and ?a = "emit_image rsv (image h)"
  let ?b = "?a @ emit_plane rsv ?depth (length ?a) (primary h)"
  let ?alpha = "case alpha h of None \<Rightarrow> [] | Some p \<Rightarrow> emit_plane rsv ?depth (length ?b) p"
  have emit: "emit_headers rsv h = ?b @ ?alpha"
    by (cases "alpha h") (simp_all add: emit_headers_def Let_def)
  have alpha: "parses (if alpha_plane (flags (image h))
      then run_try (parse_plane_header ?depth) (\<lambda>plane. give (Some plane)) else give None)
      (length ?b) ?alpha (alpha h)"
  proof (cases "alpha h")
    case None
    then show ?thesis using assms(4) parses_give [of None] by simp
  next
    case (Some p)
    have "parses (parse_plane_header ?depth) (length ?b) (emit_plane rsv ?depth (length ?b) p) p"
      using assms(4) Some by (intro parses_plane) simp
    then have "parses (run_try (parse_plane_header ?depth) (\<lambda>plane. give (Some plane)))
        (length ?b) (emit_plane rsv ?depth (length ?b) p) (Some p)"
      by (rule parses_map) simp
    then show ?thesis using Some assms(4) by simp
  qed
  let ?r = "bit_reader_new bytes"
  have "reader_bits ?r = ?a @ emit_plane rsv ?depth (length ?a) (primary h) @ ?alpha @ rest"
    using assms(6) emit by (simp add: reader_bits_new)
  moreover have "rd_position ?r = 0" by (simp add: bit_reader_new_def)
  ultimately obtain t where t: "parse_image_header ?r = (Ok (image h), t)" "reader_on bytes t"
    "rd_position t = length ?a"
    "reader_bits t = emit_plane rsv ?depth (length ?a) (primary h) @ ?alpha @ rest"
    using parses_image [OF assms(1,2)] reader_on_new [OF assms(5)] unfolding parses_def
    by (metis add_0)
  obtain u where u: "parse_plane_header ?depth t = (Ok (primary h), u)" "reader_on bytes u"
    "rd_position u = length ?b" "reader_bits u = ?alpha @ rest"
    using parses_plane [OF assms(3)] t(2-4) unfolding parses_def length_append by metis
  obtain w where w: "(if alpha_plane (flags (image h))
      then run_try (parse_plane_header ?depth) (\<lambda>plane. give (Some plane)) else give None) u =
      (Ok (alpha h), w)" "rd_position w = length ?b + length ?alpha"
    using alpha u(2-4) unfolding parses_def by metis
  have "(bit_position w + 7) div 8 = bytes_consumed h"
    using w(2) emit assms(7) by (simp add: bit_position_def)
  then have "parse_codestream_headers bytes =
      Ok \<lparr>image = image h, primary = primary h, alpha = alpha h, bytes_consumed = bytes_consumed h\<rparr>"
    unfolding parse_codestream_headers_def
    by (simp only: run_try_step(1) [where m = parse_image_header, OF t(1)] run_try_step(1) [where m = "parse_plane_header ?depth", OF u(1)] run_try_step(1) [where m = "if alpha_plane (flags (image h))
      then run_try (parse_plane_header ?depth) (\<lambda>plane. give (Some plane)) else give None", OF w(1)] fst_conv)
  then show ?thesis by simp
qed

text \<open>
  C14: the header parser inverts the header syntax. For every pair of well-formed headers, whatever
  the reserved bits hold and whatever follows, an input that starts with the emitted bits (image
  header, then each plane header padded to a byte with zeros) parses to exactly those headers, with
  the number of bytes the headers occupy.
\<close>

theorem headers_roundtrip:
  assumes "image_header_ok (image h)" "unat (flags (image h)) < 2 ^ 9"
    and "plane_header_ok (output_bit_depth (image h)) (primary h)"
    and "case alpha h of None \<Rightarrow> \<not> alpha_plane (flags (image h))
         | Some p \<Rightarrow> alpha_plane (flags (image h)) \<and> plane_header_ok (output_bit_depth (image h)) p"
    and "8 * length bytes + 64 \<le> usize_max"
    and "packet_bits bytes = emit_headers rsv h @ rest"
    and "bytes_consumed h = (length (emit_headers rsv h) + 7) div 8"
  shows "parse_codestream_headers bytes = Ok h"
  using assms by (rule emitted_headers_parse)

lemma nat_bits_numeral:
  "nat_bits (numeral k) v = odd (v div 2 ^ pred_numeral k) # nat_bits (pred_numeral k) v"
  by (simp add: numeral_eq_Suc)

definition sample_header :: parsed_headers where
  "sample_header = \<lparr>
     image = \<lparr>width = 33, height = 16, flags = 16, orientation = 0, overlap_mode = 1,
       output_color_format = 0, output_bit_depth = 1, tile_widths_mb = [], tile_heights_mb = [],
       margins = [0, 0, 0, 15]\<rparr>,
     primary = \<lparr>internal_color_format = 0, scaled = True, bands_present = 1, components = 1,
       chroma_centering_x = 0, chroma_centering_y = 0, shift_bits = 0, mantissa_length = 0,
       exponent_bias = 0, dc_quantizers = Some [12], lp_quantizers = Some [13],
       hp_quantizers = None\<rparr>,
     alpha = None, bytes_consumed = 20\<rparr>"

definition sample_reserved :: reserved_fields where
  "sample_reserved = \<lparr>rsv_c = 0, rsv_d = False, rsv_e = False, rsv_f = 0, rsv_g = False,
     rsv_h = 0, rsv_i = False, rsv_j = False\<rparr>"

definition sample_bytes :: "u8 list" where
  "sample_bytes = [87, 77, 80, 72, 79, 84, 79, 0, 16, 1, 128, 1, 0, 32, 0, 15, 17, 134, 33, 160]"

lemma sample_emitted: "packet_bits sample_bytes = emit_headers sample_reserved sample_header"
proof -
  have f: "hard_tiling 16 = False" "frequency_mode 16 = False" "index_table_present 16 = False"
    "short_header 16 = True" "long_word 16 = False" "trim_flexbits 16 = False"
    "red_blue_not_swapped 16 = False" "premultiplied_alpha 16 = False" "alpha_plane 16 = False"
    by (simp_all add: hard_tiling_def frequency_mode_def index_table_present_def short_header_def
        long_word_def trim_flexbits_def red_blue_not_swapped_def premultiplied_alpha_def
        alpha_plane_def)
  show ?thesis
    by (simp add: sample_bytes_def sample_header_def sample_reserved_def emit_headers_def
        emit_image_def emit_plane_def emit_layout_def emit_quantizers_def f nat_bits_numeral
        GDI_SIGNATURE_def inferred_margin_def byte_bits_def upt_rec Let_def)
      (simp add: numeral_eq_Suc)
qed

lemma headers_roundtrip_witness: "parse_codestream_headers sample_bytes = Ok sample_header"
proof (rule headers_roundtrip [where rsv = sample_reserved and rest = "[]"])
  show "packet_bits sample_bytes = emit_headers sample_reserved sample_header @ []"
    using sample_emitted by simp
  have "length (emit_headers sample_reserved sample_header) = 160"
    using arg_cong [OF sample_emitted, of length] by (simp add: sample_bytes_def)
  then show "bytes_consumed sample_header =
      (length (emit_headers sample_reserved sample_header) + 7) div 8"
    by (simp add: sample_header_def)
qed (simp_all add: sample_bytes_def sample_header_def image_header_ok_def plane_header_ok_def
    quantizers_ok_def short_header_def alpha_plane_def)

section \<open>The whole parse\<close>

lemma read_flag_bytes: "rd_bytes (snd (read_flag r)) = rd_bytes r"
  by (auto simp: read_flag_def run_try_def read_bits_def)

definition headers_ok :: "nat \<Rightarrow> parsed_headers \<Rightarrow> bool" where
  "headers_ok n h \<longleftrightarrow> image_header_ok (image h) \<and>
     plane_header_ok (output_bit_depth (image h)) (primary h) \<and>
     (case alpha h of None \<Rightarrow> \<not> alpha_plane (flags (image h))
      | Some p \<Rightarrow> alpha_plane (flags (image h)) \<and> plane_header_ok (output_bit_depth (image h)) p) \<and>
     bytes_consumed h \<le> n"

lemma headers_yield:
  assumes "8 * length bytes + 64 \<le> usize_max"
  shows "yields (parse_codestream_headers bytes) (headers_ok (length bytes))"
proof -
  have "upholds (reader_on bytes)
     (run_try parse_image_header (\<lambda>image.
     run_try (parse_plane_header (output_bit_depth image)) (\<lambda>primary.
     run_try
       (if alpha_plane (flags image)
        then run_try (parse_plane_header (output_bit_depth image)) (\<lambda>plane. give (Some plane))
        else give None) (\<lambda>alpha.
     (\<lambda>reader. (Ok \<lparr>image = image, primary = primary, alpha = alpha,
        bytes_consumed = (bit_position reader + 7) div 8\<rparr>, reader))))))
     (headers_ok (length bytes))"
  proof (intro upholds_bind [OF image_header_upholds] upholds_bind [OF plane_header_upholds])
    fix i p assume ok: "image_header_ok i" "plane_header_ok (output_bit_depth i) p"
    let ?depth = "output_bit_depth i"
    have alpha: "upholds (reader_on bytes) (if alpha_plane (flags i)
        then run_try (parse_plane_header ?depth) (\<lambda>plane. give (Some plane)) else give None)
      (\<lambda>a. case a of None \<Rightarrow> \<not> alpha_plane (flags i)
        | Some q \<Rightarrow> alpha_plane (flags i) \<and> plane_header_ok ?depth q)"
      by (intro upholds_if upholds_bind [OF plane_header_upholds] upholds_give) simp_all
    show "upholds (reader_on bytes) (run_try (if alpha_plane (flags i)
        then run_try (parse_plane_header ?depth) (\<lambda>plane. give (Some plane)) else give None)
       (\<lambda>alpha. (\<lambda>reader. (Ok \<lparr>image = i, primary = p, alpha = alpha,
        bytes_consumed = (bit_position reader + 7) div 8\<rparr>, reader))))
      (headers_ok (length bytes))"
      by (rule upholds_bind [OF alpha])
        (use ok in \<open>auto simp: upholds_def headers_ok_def reader_on_def bit_position_def
          split: option.splits\<close>)
  qed
  from upholdsD(2,3) [OF this reader_on_new [OF assms]] show ?thesis
    unfolding parse_codestream_headers_def by (auto intro: yieldsI)
qed

text \<open>
  On every input \<open>parse_codestream_headers\<close> terminates without a panic (no index out of
  bounds, no \<open>unreachable!\<close>); when it succeeds the image header and each plane header hold only
  values the syntax allows, the quantizer sets have one entry per component, the alpha plane is
  present exactly when its flag is set, and no more bytes are consumed than the input has.
\<close>

theorem parse_codestream_headers_total:
  assumes "8 * length bytes + 64 \<le> usize_max"
  shows "case parse_codestream_headers bytes of Panic \<Rightarrow> False | Err e \<Rightarrow> True
    | Ok h \<Rightarrow> headers_ok (length bytes) h"
  using headers_yield [OF assms] by (simp add: yields_def)

lemma parse_codestream_headers_total_witness:
  "case parse_codestream_headers [0x57, 0x4D] of Panic \<Rightarrow> False | Err e \<Rightarrow> True
    | Ok h \<Rightarrow> headers_ok (length [0x57, 0x4D :: u8]) h"
  by (rule parse_codestream_headers_total) simp

end
