(* ===== verification/Tile_Directory.thy ===== *)
theory Tile_Directory
  imports Header
begin

text \<open>
  The syntax between the image headers and the tile packets (\<open>crates/jxr-native/src/tail.rs\<close>): the
  byte cursor, its variable-length words, the tile index and the profile-level records.
\<close>

section \<open>The byte cursor\<close>

record byte_cursor =
  cur_bytes :: "u8 list"
  cur_position :: nat

type_synonym 'a byte_parser = "(byte_cursor, native_error, 'a) action"

definition require_position :: "nat \<Rightarrow> unit byte_parser" where
  "require_position position c =
     (if position \<le> length (cur_bytes c) then (Ok (), c)
      else (Err (RangeOutsideInput ''codestream syntax'' position 0 (length (cur_bytes c))), c))"

definition byte_cursor_new :: "u8 list \<Rightarrow> nat \<Rightarrow> (native_error, byte_cursor) result" where
  "byte_cursor_new bytes position =
     (let c = \<lparr>cur_bytes = bytes, cur_position = position\<rparr>
      in case require_position position c of (Ok _, c) \<Rightarrow> Ok c | (Err e, _) \<Rightarrow> Err e
         | (Panic, _) \<Rightarrow> Panic)"

definition set_position :: "nat \<Rightarrow> unit byte_parser" where
  "set_position position c = (Ok (), c\<lparr>cur_position := position\<rparr>)"

definition get_position :: "nat byte_parser" where
  "get_position c = (Ok (cur_position c), c)"

text \<open>\<open>saturating_mul(8)\<close> on \<open>usize\<close>.\<close>

definition saturating_mul :: "nat \<Rightarrow> nat \<Rightarrow> nat" where
  "saturating_mul a b = min usize_max (a * b)"

definition cursor_u8 :: "nat byte_parser" where
  "cursor_u8 c =
     (if cur_position c < length (cur_bytes c)
      then (Ok (unat (cur_bytes c ! cur_position c)), c\<lparr>cur_position := cur_position c + 1\<rparr>)
      else (Err (Truncated (saturating_mul (cur_position c) 8) 8), c))"

text \<open>\<open>from_be_bytes\<close> of bytes read one at a time.\<close>

definition be_val :: "nat list \<Rightarrow> nat" where
  "be_val bytes = foldl (\<lambda>v b. v * 256 + b) 0 bytes"

definition cursor_u16 :: "nat byte_parser" where
  "cursor_u16 = run_try cursor_u8 (\<lambda>high. run_try cursor_u8 (\<lambda>low. give (be_val [high, low])))"

definition cursor_u32 :: "nat byte_parser" where
  "cursor_u32 = run_try (collect_try 4 cursor_u8 []) (\<lambda>bytes. give (be_val bytes))"

definition cursor_u64 :: "nat byte_parser" where
  "cursor_u64 = run_try (collect_try 8 cursor_u8 []) (\<lambda>bytes. give (be_val bytes))"

definition read_vlw :: "nat byte_parser" where
  "read_vlw = run_try cursor_u8 (\<lambda>first.
     if first \<le> 0xFA then run_try cursor_u8 (\<lambda>low. give (first * 256 + low))
     else if first = 0xFB then cursor_u32
     else if first = 0xFC then cursor_u64
     else give 0)"

section \<open>The tile index\<close>

definition tile_count :: "parsed_headers \<Rightarrow> (native_error, nat) result" where
  "tile_count h =
     (let columns = length (tile_widths_mb (image h)) + 1;
          rows = length (tile_heights_mb (image h)) + 1
      in if usize_max < columns \<or> usize_max < rows \<or> usize_max < columns * rows
         then Err (IntegerOverflow ''computing tile count'')
         else Ok (columns * rows))"

text \<open>\<open>Vec::with_capacity(count)\<close> of eight-byte elements panics beyond \<open>isize::MAX\<close> bytes.\<close>

definition reserve_u64 :: "nat \<Rightarrow> (native_error, unit) result" where
  "reserve_u64 count = (if usize_max div 2 < count * 8 then Panic else Ok ())"

definition parse_index :: "parsed_headers \<Rightarrow> nat \<Rightarrow> nat list byte_parser" where
  "parse_index h tiles =
     run_try cursor_u16 (\<lambda>start_code.
     if start_code \<noteq> 1 then fail (ReservedValue ''INDEX_TABLE_STARTCODE'' start_code)
     else
       let bands = (if frequency_mode (flags (image h)) then 4 - bands_present (primary h) else 1) in
       if usize_max < tiles * bands
       then fail (IntegerOverflow ''computing tile index entry count'')
       else run_try (pure_try (reserve_u64 (tiles * bands))) (\<lambda>_.
         collect_try (tiles * bands) read_vlw []))"

section \<open>Profile-level records\<close>

record profile_level =
  profile_idc :: nat
  level_idc :: nat

text \<open>
  The \<open>loop\<close> of \<open>parse_profile_area\<close>. Each turn reads four bytes below \<open>stop\<close>, so it ends.
\<close>

definition profile_record :: "nat \<Rightarrow> (profile_level \<times> bool) byte_parser" where
  "profile_record stop = run_try get_position (\<lambda>position.
     if stop < min usize_max (position + 4)
     then fail (Truncated (saturating_mul position 8) 32)
     else
       run_try cursor_u8 (\<lambda>profile.
       run_try cursor_u8 (\<lambda>level.
       run_try cursor_u16 (\<lambda>reserved_and_last.
       if reserved_and_last - reserved_and_last mod 2 \<noteq> 0
       then fail (ReservedValue ''PROFILE_LEVEL_INFO reserved bits''
              (reserved_and_last - reserved_and_last mod 2))
       else give (\<lparr>profile_idc = profile, level_idc = level\<rparr>, odd reserved_and_last)))))"

lemma cursor_u8_moves:
  "cursor_u8 c = (Ok v, d) \<Longrightarrow> d = c\<lparr>cur_position := Suc (cur_position c)\<rparr> \<and>
    cur_position c < length (cur_bytes c)"
  by (auto simp: cursor_u8_def split: if_splits)

lemma profile_record_moves:
  "profile_record stop c = (Ok v, d) \<Longrightarrow>
    cur_bytes d = cur_bytes c \<and> cur_position d = cur_position c + 4 \<and>
    cur_position d \<le> length (cur_bytes c)"
  by (auto simp: profile_record_def get_position_def cursor_u16_def run_try_eq_Ok
      dest!: cursor_u8_moves split: if_splits)

function profile_loop :: "nat \<Rightarrow> profile_level list \<Rightarrow> byte_cursor \<Rightarrow>
    (native_error, profile_level list) result \<times> byte_cursor" where
  "profile_loop stop profiles c =
     (case profile_record stop c of
        (Ok (profile, final), d) \<Rightarrow>
          if final then (Ok (profiles @ [profile]), d)
          else profile_loop stop (profiles @ [profile]) d
      | (Err e, d) \<Rightarrow> (Err e, d)
      | (Panic, d) \<Rightarrow> (Panic, d))"
  by pat_completeness auto

termination profile_loop
  by (relation "measure (\<lambda>(stop, profiles, c). length (cur_bytes c) - cur_position c)")
    (auto dest: profile_record_moves [OF sym])

declare profile_loop.simps [simp del]

definition parse_profile_area :: "nat \<Rightarrow> profile_level list byte_parser" where
  "parse_profile_area subsequent_bytes =
     (if subsequent_bytes = 0 then give []
      else if subsequent_bytes < 4
      then fail (ReservedValue ''SubsequentBytes'' subsequent_bytes)
      else run_try get_position (\<lambda>position.
        if usize_max < position + subsequent_bytes
        then fail (IntegerOverflow ''locating profile-level data'')
        else
          let stop = position + subsequent_bytes in
          run_try (require_position stop) (\<lambda>_.
          run_try (profile_loop stop []) (\<lambda>profiles.
          run_try (set_position stop) (\<lambda>_. give profiles)))))"

record codestream_directory =
  tile_offsets :: "nat list"
  profile_levels :: "profile_level list"
  tile_data_offset :: nat

definition directory_body :: "parsed_headers \<Rightarrow> codestream_directory byte_parser" where
  "directory_body h =
     run_try (pure_try (tile_count h)) (\<lambda>tiles.
     if (frequency_mode (flags (image h)) \<or> 1 < tiles) \<and> \<not> index_table_present (flags (image h))
     then fail (ReservedValue ''INDEX_TABLE_PRESENT_FLAG'' 0)
     else
       run_try (if index_table_present (flags (image h)) then parse_index h tiles else give [])
         (\<lambda>offsets.
       run_try read_vlw (\<lambda>subsequent_bytes.
       if usize_max < subsequent_bytes
       then fail (IntegerOverflow ''converting SubsequentBytes'')
       else
         run_try (parse_profile_area subsequent_bytes) (\<lambda>profiles.
         run_try get_position (\<lambda>position.
         give \<lparr>tile_offsets = offsets, profile_levels = profiles, tile_data_offset = position\<rparr>)))))"

definition parse_directory_tail ::
  "u8 list \<Rightarrow> parsed_headers \<Rightarrow> (native_error, codestream_directory) result" where
  "parse_directory_tail bytes h =
     let_try (byte_cursor_new bytes (bytes_consumed h)) (\<lambda>c. fst (directory_body h c))"

section \<open>Every parse stays inside the input\<close>

definition cursor_in :: "u8 list \<Rightarrow> nat \<Rightarrow> byte_cursor \<Rightarrow> bool" where
  "cursor_in bytes low c \<longleftrightarrow> cur_bytes c = bytes \<and> low \<le> cur_position c \<and>
     cur_position c \<le> length bytes"

lemma cursor_u8_upholds: "upholds (cursor_in bytes low) cursor_u8 (\<lambda>v. v < 2 ^ 8)"
  by (auto simp: upholds_def cursor_in_def cursor_u8_def intro: order.strict_trans2 [OF unsigned_less])

lemma be_val_less: "(\<forall>b\<in>set bs. b < 2 ^ 8) \<Longrightarrow> be_val bs < 2 ^ (8 * length bs)"
proof (induction bs rule: rev_induct)
  case (snoc b bs)
  then have "be_val bs < 2 ^ (8 * length bs)" "b < 256" by simp_all
  then show ?case by (simp add: be_val_def power_add)
qed (simp add: be_val_def)

lemma cursor_many_upholds:
  "upholds (cursor_in bytes low) (run_try (collect_try n cursor_u8 []) (\<lambda>bs. give (be_val bs)))
    (\<lambda>v. v < 2 ^ (8 * n))"
  by (rule upholds_bind [OF upholds_collect [OF cursor_u8_upholds]]) (use be_val_less in force)+

lemma cursor_u16_upholds: "upholds (cursor_in bytes low) cursor_u16 (\<lambda>v. v < 2 ^ 16)"
  unfolding cursor_u16_def
  by (intro upholds_bind [OF cursor_u8_upholds] upholds_give) (simp add: be_val_def)

lemma read_vlw_upholds: "upholds (cursor_in bytes low) read_vlw (\<lambda>v. v < 2 ^ 64)"
  unfolding read_vlw_def cursor_u32_def cursor_u64_def
  by (intro upholds_bind [OF cursor_u8_upholds] upholds_if upholds_give
      upholds_mono [OF cursor_many_upholds]) simp_all

lemma get_position_upholds:
  "upholds (cursor_in bytes low) get_position (\<lambda>v. low \<le> v \<and> v \<le> length bytes)"
  by (auto simp: upholds_def cursor_in_def get_position_def)

definition profile_ok :: "profile_level \<Rightarrow> bool" where
  "profile_ok p \<longleftrightarrow> profile_idc p < 2 ^ 8 \<and> level_idc p < 2 ^ 8"

lemma profile_record_upholds:
  "upholds (cursor_in bytes low) (profile_record stop) (\<lambda>(p, final). profile_ok p)"
  unfolding profile_record_def
  by (intro upholds_bind [OF get_position_upholds] upholds_if upholds_fail
      upholds_bind [OF cursor_u8_upholds] upholds_bind [OF cursor_u16_upholds] upholds_give)
    (simp add: profile_ok_def)

lemma profile_loop_result:
  assumes "cursor_in bytes low c" "\<forall>p\<in>set ps. profile_ok p"
  shows "cursor_in bytes low (snd (profile_loop stop ps c)) \<and> (case fst (profile_loop stop ps c) of
    Ok qs \<Rightarrow> qs \<noteq> [] \<and> (\<forall>p\<in>set qs. profile_ok p) | Err e \<Rightarrow> True | Panic \<Rightarrow> False)"
  using assms
proof (induction stop ps c rule: profile_loop.induct)
  case (1 stop ps c)
  note step = upholdsD(2,4,5) [OF profile_record_upholds [of bytes low stop] "1.prems"(1)]
  obtain r d where rd: "profile_record stop c = (r, d)" by (cases "profile_record stop c")
  show ?case
  proof (cases r)
    case (Ok v)
    obtain p final where v: "v = (p, final)" by (cases v)
    have d: "cursor_in bytes low d" "profile_ok p" using step rd Ok v by auto
    show ?thesis
      using "1.IH" [OF rd [symmetric] Ok v [symmetric]] "1.prems"(2) rd Ok v d
      by (simp add: profile_loop.simps [of stop ps c])
  qed (use step rd in \<open>simp_all add: profile_loop.simps [of stop ps c]\<close>)
qed

lemma profile_loop_upholds:
  "upholds (cursor_in bytes low) (profile_loop stop []) (\<lambda>qs. qs \<noteq> [] \<and> (\<forall>p\<in>set qs. profile_ok p))"
  using profile_loop_result [of bytes low _ "[]" stop] by (simp add: upholds_def)


lemma profile_area_upholds:
  "upholds (cursor_in bytes low) (parse_profile_area n) (\<lambda>qs. \<forall>p\<in>set qs. profile_ok p)"
  unfolding parse_profile_area_def Let_def
proof (intro upholds_if upholds_give upholds_fail upholds_bind [OF get_position_upholds])
  fix position
  assume "low \<le> position \<and> position \<le> length bytes"
  let ?J = "\<lambda>c. cursor_in bytes low c \<and> position + n \<le> length bytes"
  have "leads (cursor_in bytes low) (require_position (position + n)) (cursor_in bytes low)
      (\<lambda>_. position + n \<le> length bytes)"
    by (auto simp: leads_def require_position_def cursor_in_def)
  moreover have "upholds (cursor_in bytes low) (run_try (profile_loop (position + n) []) (\<lambda>profiles.
      run_try (set_position (position + n)) (\<lambda>_. give profiles))) (\<lambda>qs. \<forall>p\<in>set qs. profile_ok p)"
    if "position + n \<le> length bytes"
  proof (rule upholds_bind [OF profile_loop_upholds])
    have "upholds (cursor_in bytes low) (set_position (position + n)) (\<lambda>_. True)"
      using that \<open>low \<le> position \<and> position \<le> length bytes\<close>
      by (auto simp: upholds_def set_position_def cursor_in_def)
    then show "upholds (cursor_in bytes low) (run_try (set_position (position + n)) (\<lambda>_. give qs))
        (\<lambda>qs. \<forall>p\<in>set qs. profile_ok p)" if "qs \<noteq> [] \<and> (\<forall>p\<in>set qs. profile_ok p)" for qs
      by (rule upholds_bind) (simp add: upholds_give that)
  qed
  ultimately show "upholds (cursor_in bytes low) (run_try (require_position (position + n)) (\<lambda>_.
      run_try (profile_loop (position + n) []) (\<lambda>profiles.
      run_try (set_position (position + n)) (\<lambda>_. give profiles)))) (\<lambda>qs. \<forall>p\<in>set qs. profile_ok p)"
    unfolding leads_upholds by (rule upholds_bind)
qed simp

text \<open>The number of index entries that the headers call for.\<close>

definition tiles_of :: "parsed_headers \<Rightarrow> nat" where
  "tiles_of h = (length (tile_widths_mb (image h)) + 1) * (length (tile_heights_mb (image h)) + 1)"

definition index_entries :: "parsed_headers \<Rightarrow> nat" where
  "index_entries h =
     (if \<not> index_table_present (flags (image h)) then 0
      else if frequency_mode (flags (image h)) then tiles_of h * (4 - bands_present (primary h))
      else tiles_of h)"

definition directory_ok :: "nat \<Rightarrow> parsed_headers \<Rightarrow> codestream_directory \<Rightarrow> bool" where
  "directory_ok n h d \<longleftrightarrow>
     length (tile_offsets d) = index_entries h \<and> (\<forall>v\<in>set (tile_offsets d). v < 2 ^ 64) \<and>
     (frequency_mode (flags (image h)) \<or> 1 < tiles_of h \<longrightarrow> index_table_present (flags (image h))) \<and>
     (\<forall>p\<in>set (profile_levels d). profile_ok p) \<and>
     bytes_consumed h \<le> tile_data_offset d \<and> tile_data_offset d \<le> n"

lemma tiles_bound:
  assumes "image_header_ok (image h)"
  shows "tiles_of h \<le> 2 ^ 24"
proof -
  have "length (tile_widths_mb (image h)) + 1 \<le> 2 ^ 12" "length (tile_heights_mb (image h)) + 1 \<le> 2 ^ 12"
    using assms by (simp_all add: image_header_ok_def)
  from mult_le_mono [OF this] show ?thesis by (simp add: tiles_of_def)
qed

lemma tile_count_Ok:
  assumes "image_header_ok (image h)"
  shows "tile_count h = Ok (tiles_of h)"
  using tiles_bound [OF assms] assms
  by (simp add: tile_count_def tiles_of_def image_header_ok_def Let_def)

lemma index_entries_small:
  assumes "image_header_ok (image h)"
  shows "reserve_u64 (index_entries h) = Ok ()" "index_entries h \<le> usize_max"
proof -
  have "tiles_of h * (4 - bands_present (primary h)) \<le> 2 ^ 24 * 4"
    by (rule mult_le_mono [OF tiles_bound [OF assms]]) simp
  then show "reserve_u64 (index_entries h) = Ok ()" "index_entries h \<le> usize_max"
    using tiles_bound [OF assms] by (simp_all add: reserve_u64_def index_entries_def)
qed

lemma parse_index_upholds:
  assumes "image_header_ok (image h)" "index_table_present (flags (image h))"
  shows "upholds (cursor_in bytes low) (parse_index h (tiles_of h))
    (\<lambda>vs. length vs = index_entries h \<and> (\<forall>v\<in>set vs. v < 2 ^ 64))"
proof -
  note small = index_entries_small [OF assms(1)]
  have entries: "index_entries h = tiles_of h *
      (if frequency_mode (flags (image h)) then 4 - bands_present (primary h) else 1)"
    using assms(2) by (simp add: index_entries_def)
  have "upholds (cursor_in bytes low) (collect_try (index_entries h) read_vlw [])
      (\<lambda>vs. length vs = index_entries h \<and> (\<forall>v\<in>set vs. v < 2 ^ 64))"
    using upholds_collect [OF read_vlw_upholds, of "[]" bytes low "index_entries h"] by simp
  then show ?thesis
    unfolding parse_index_def Let_def
    using small by (intro upholds_bind [OF cursor_u16_upholds] upholds_if upholds_fail)
      (simp_all flip: entries)
qed

lemma directory_body_upholds:
  assumes "image_header_ok (image h)"
  shows "upholds (cursor_in bytes (bytes_consumed h)) (directory_body h) (directory_ok (length bytes) h)"
proof -
  have index: "upholds (cursor_in bytes (bytes_consumed h))
      (if index_table_present (flags (image h)) then parse_index h (tiles_of h) else give [])
      (\<lambda>vs. length vs = index_entries h \<and> (\<forall>v\<in>set vs. v < 2 ^ 64))"
    by (intro upholds_if parse_index_upholds assms upholds_give) (simp_all add: index_entries_def)
  show ?thesis
    unfolding directory_body_def tile_count_Ok [OF assms] run_try_pure
    by (intro upholds_if upholds_fail upholds_bind [OF index] upholds_bind [OF read_vlw_upholds]
        upholds_bind [OF profile_area_upholds] upholds_bind [OF get_position_upholds] upholds_give)
      (auto simp: directory_ok_def)
qed

lemma cursor_new:
  "byte_cursor_new bytes n = (if n \<le> length bytes then Ok \<lparr>cur_bytes = bytes, cur_position = n\<rparr>
    else Err (RangeOutsideInput ''codestream syntax'' n 0 (length bytes)))"
  by (simp add: byte_cursor_new_def require_position_def)

section \<open>Writing a directory\<close>

text \<open>
  \<open>eats m bs v\<close>: where an input of addressable length goes on with the bytes \<open>bs\<close>, the action consumes exactly these
  and returns \<open>v\<close>.
\<close>

definition eats :: "'a byte_parser \<Rightarrow> u8 list \<Rightarrow> 'a \<Rightarrow> bool" where
  "eats m bs v \<longleftrightarrow> (\<forall>c rest. drop (cur_position c) (cur_bytes c) = bs @ rest \<longrightarrow>
     length (cur_bytes c) \<le> usize_max \<longrightarrow>
     m c = (Ok v, c\<lparr>cur_position := cur_position c + length bs\<rparr>))"

lemma eatsD: "eats m bs v \<Longrightarrow> drop (cur_position c) (cur_bytes c) = bs @ rest \<Longrightarrow>
    length (cur_bytes c) \<le> usize_max \<Longrightarrow>
    m c = (Ok v, c\<lparr>cur_position := cur_position c + length bs\<rparr>)"
  by (auto simp: eats_def)

lemma eats_give: "eats (give v) [] v"
  by (simp add: eats_def)

lemma eats_bind:
  assumes "eats m bs v" "eats (f v) cs w"
  shows "eats (run_try m f) (bs @ cs) w"
  unfolding eats_def
proof (intro allI impI)
  fix c :: byte_cursor and rest assume c: "drop (cur_position c) (cur_bytes c) = (bs @ cs) @ rest"
    and fits: "length (cur_bytes c) \<le> usize_max"
  let ?d = "c\<lparr>cur_position := cur_position c + length bs\<rparr>"
  have "m c = (Ok v, ?d)" using eatsD [OF assms(1)] c fits by simp
  moreover have "drop (cur_position ?d) (cur_bytes ?d) = cs @ rest"
    using c by (simp flip: drop_drop add: add.commute)
  ultimately show "run_try m f c = (Ok w, c\<lparr>cur_position := cur_position c + length (bs @ cs)\<rparr>)"
    using eatsD [OF assms(2)] fits by (simp add: run_try_step add.assoc)
qed

lemma eats_last: "eats m bs v \<Longrightarrow> eats (f v) [] w \<Longrightarrow> eats (run_try m f) bs w"
  using eats_bind [of m bs v f "[]"] by simp

lemma eats_u8: "eats cursor_u8 [b] (unat b)"
  unfolding eats_def
proof (intro allI impI)
  fix c :: byte_cursor and rest assume c: "drop (cur_position c) (cur_bytes c) = [b] @ rest"
  then have "cur_position c < length (cur_bytes c)" by (metis append_Cons drop_all list.distinct(1) not_le)
  moreover from this c have "cur_bytes c ! cur_position c = b" by (simp add: drop_eq_nths nth_via_drop)
  ultimately show "cursor_u8 c = (Ok (unat b), c\<lparr>cur_position := cur_position c + length [b]\<rparr>)"
    by (simp add: cursor_u8_def)
qed

lemma eats_collect:
  "list_all2 (eats m) bss vs \<Longrightarrow> n = length vs \<Longrightarrow> eats (collect_try n m us) (concat bss) (us @ vs)"
proof (induction vs arbitrary: bss us n)
  case (Cons v vs)
  then obtain bs css where "bss = bs # css" "eats m bs v" "list_all2 (eats m) css vs"
    by (auto simp: list_all2_Cons2)
  then show ?case using Cons.IH [of css "length vs" "us @ [v]"] Cons.prems(2)
    by (auto intro!: eats_bind)
qed (simp add: eats_give)

lemma eats_bytes: "n = length bs \<Longrightarrow>
    eats (run_try (collect_try n cursor_u8 []) (\<lambda>bs. give (be_val bs))) bs (be_val (map unat bs))"
proof -
  assume n: "n = length bs"
  have "list_all2 (eats cursor_u8) (map (\<lambda>b. [b]) bs) (map unat bs)"
    by (simp add: list_all2_map1 list_all2_map2 list_all2_same eats_u8)
  from eats_collect [OF this, of n "[]"] have "eats (collect_try n cursor_u8 []) bs (map unat bs)"
    using n by (simp add: concat_map_singleton)
  then show ?thesis by (rule eats_last) (rule eats_give)
qed

lemma eats_u16: "eats cursor_u16 [a, b] (unat a * 256 + unat b)"
proof -
  have "eats cursor_u16 ([a] @ [b]) (unat a * 256 + unat b)"
    unfolding cursor_u16_def by (intro eats_bind [OF eats_u8] eats_last [OF eats_u8])
      (simp add: eats_def be_val_def)
  then show ?thesis by simp
qed

text \<open>The encodings of a number as a variable-length word; zero has the three escape codes, too.\<close>

fun vlw_code :: "u8 list \<Rightarrow> nat \<Rightarrow> bool" where
  "vlw_code [] v \<longleftrightarrow> False"
| "vlw_code (f # bs) v \<longleftrightarrow>
     (if unat f \<le> 0xFA then length bs = 1 \<and> v = unat f * 256 + unat (hd bs)
      else if f = 0xFB then length bs = 4 \<and> v = be_val (map unat bs)
      else if f = 0xFC then length bs = 8 \<and> v = be_val (map unat bs)
      else bs = [] \<and> v = 0)"

lemma eats_vlw: "vlw_code bs v \<Longrightarrow> eats read_vlw bs v"
proof (cases bs)
  case (Cons f cs)
  assume code: "vlw_code bs v"
  have f: "unat f = 0xFB \<longleftrightarrow> f = 0xFB" "unat f = 0xFC \<longleftrightarrow> f = 0xFC"
    by (simp_all add: word_unat_eq_iff)
  have "eats read_vlw ([f] @ cs) v"
    unfolding read_vlw_def
  proof (rule eats_bind [OF eats_u8])
    consider "unat f \<le> 0xFA" "length cs = 1" "v = unat f * 256 + unat (hd cs)"
      | "f = 0xFB" "length cs = 4" "v = be_val (map unat cs)"
      | "f = 0xFC" "length cs = 8" "v = be_val (map unat cs)"
      | "\<not> unat f \<le> 0xFA" "f \<noteq> 0xFB" "f \<noteq> 0xFC" "cs = []" "v = 0"
      using code Cons by (auto split: if_splits)
    then show "eats (if unat f \<le> 0xFA then run_try cursor_u8 (\<lambda>low. give (unat f * 256 + low))
        else if unat f = 0xFB then cursor_u32 else if unat f = 0xFC then cursor_u64 else give 0) cs v"
    proof cases
      case 1
      then obtain b where "cs = [b]" by (auto simp: length_Suc_conv)
      then show ?thesis using 1 by (auto intro!: eats_last [OF eats_u8] eats_give)
    next
      case 2
      then show ?thesis using eats_bytes [of 4 cs] by (simp add: cursor_u32_def)
    next
      case 3
      then show ?thesis using eats_bytes [of 8 cs] by (simp add: cursor_u64_def)
    qed (simp add: f eats_give)
  qed
  then show ?thesis using Cons by simp
qed simp

definition profile_code :: "bool \<Rightarrow> profile_level \<Rightarrow> u8 list" where
  "profile_code final p = [of_nat (profile_idc p), of_nat (level_idc p), 0, of_bool final]"

fun profile_codes :: "profile_level list \<Rightarrow> u8 list" where
  "profile_codes [] = []"
| "profile_codes (p # ps) = profile_code (ps = []) p @ profile_codes ps"

lemma length_profile_codes [simp]: "length (profile_codes ps) = 4 * length ps"
  by (induction ps) (simp_all add: profile_code_def)

lemma profile_record_code:
  assumes "drop (cur_position c) (cur_bytes c) = profile_code final p @ rest" "profile_ok p"
    and "cur_position c + 4 \<le> stop" "length (cur_bytes c) \<le> usize_max"
  shows "profile_record stop c = (Ok (p, final), c\<lparr>cur_position := cur_position c + 4\<rparr>)"
proof -
  have p: "unat (of_nat (profile_idc p) :: u8) = profile_idc p" "unat (of_nat (level_idc p) :: u8) = level_idc p"
    using assms(2) by (simp_all add: profile_ok_def unat_of_nat)
  have "eats (run_try cursor_u8 (\<lambda>profile. run_try cursor_u8 (\<lambda>level. run_try cursor_u16 (\<lambda>flag.
      if flag - flag mod 2 \<noteq> 0
      then fail (ReservedValue ''PROFILE_LEVEL_INFO reserved bits'' (flag - flag mod 2))
      else give (\<lparr>profile_idc = profile, level_idc = level\<rparr>, odd flag)))))
    ([of_nat (profile_idc p)] @ [of_nat (level_idc p)] @ [0, of_bool final]) (p, final)"
    by (intro eats_bind [OF eats_u8] eats_last [OF eats_u16]) (cases p; cases final; use p in \<open>simp add: eats_give\<close>)
  from eatsD [OF this] assms show ?thesis
    by (simp add: profile_record_def get_position_def run_try_step profile_code_def)
qed

lemma profile_loop_codes:
  assumes "drop (cur_position c) (cur_bytes c) = profile_codes ps @ rest" "ps \<noteq> []"
    and "\<forall>p\<in>set ps. profile_ok p" "cur_position c + 4 * length ps \<le> stop"
    and "length (cur_bytes c) \<le> usize_max"
  shows "profile_loop stop qs c = (Ok (qs @ ps), c\<lparr>cur_position := cur_position c + 4 * length ps\<rparr>)"
  using assms
proof (induction ps arbitrary: c qs)
  case (Cons p ps)
  let ?d = "c\<lparr>cur_position := cur_position c + 4\<rparr>"
  have step: "profile_record stop c = (Ok (p, ps = []), ?d)"
    using Cons.prems by (intro profile_record_code [of c _ _ "profile_codes ps @ rest"]) simp_all
  show ?case
  proof (cases "ps = []")
    case False
    have "drop (cur_position ?d) (cur_bytes ?d) = drop 4 (drop (cur_position c) (cur_bytes c))"
      by (simp add: add.commute)
    also have "\<dots> = profile_codes ps @ rest" unfolding Cons.prems(1) by (simp add: profile_code_def)
    finally show ?thesis
      using Cons.IH [of ?d "qs @ [p]"] Cons.prems False step by (simp add: profile_loop.simps [of stop qs])
  qed (use step in \<open>simp add: profile_loop.simps [of stop qs]\<close>)
qed simp

text \<open>The area holds the records and, behind them, bytes that the parser skips.\<close>

definition area_code :: "profile_level list \<Rightarrow> u8 list \<Rightarrow> bool" where
  "area_code ps bs \<longleftrightarrow> (\<forall>p\<in>set ps. profile_ok p) \<and>
     (if ps = [] then bs = [] else \<exists>pad. bs = profile_codes ps @ pad)"

lemma eats_area:
  assumes "area_code ps bs"
  shows "eats (parse_profile_area (length bs)) bs ps"
proof (cases "ps = []")
  case True
  then show ?thesis using assms by (simp add: area_code_def parse_profile_area_def eats_give)
next
  case False
  then obtain pad where bs: "bs = profile_codes ps @ pad" and ok: "\<forall>p\<in>set ps. profile_ok p"
    using assms by (auto simp: area_code_def)
  have four: "4 \<le> length bs" using False bs by (cases ps) (simp_all add: profile_code_def)
  show ?thesis
    unfolding eats_def
  proof (intro allI impI)
    fix c :: byte_cursor and rest
    assume c: "drop (cur_position c) (cur_bytes c) = bs @ rest" and fits: "length (cur_bytes c) \<le> usize_max"
    from arg_cong [OF c, of length] four have inside: "cur_position c + length bs \<le> length (cur_bytes c)"
      by simp
    moreover have "profile_loop (cur_position c + length bs) [] c =
        (Ok ps, c\<lparr>cur_position := cur_position c + 4 * length ps\<rparr>)"
      using profile_loop_codes [of c ps "pad @ rest"] c bs False ok fits by simp
    ultimately show "parse_profile_area (length bs) c =
        (Ok ps, c\<lparr>cur_position := cur_position c + length bs\<rparr>)"
      using four fits
      by (auto simp add: parse_profile_area_def get_position_def require_position_def set_position_def
          run_try_step Let_def)
  qed
qed

text \<open>
  The bytes that stand for the tile index, the size of the profile area and the area itself.
\<close>

definition directory_code :: "parsed_headers \<Rightarrow> codestream_directory \<Rightarrow> u8 list \<Rightarrow> bool" where
  "directory_code h d bs \<longleftrightarrow> (\<exists>index size area.
     bs = (if index_table_present (flags (image h)) then [0, 1] @ concat index else []) @ size @ area \<and>
     list_all2 vlw_code index (tile_offsets d) \<and> vlw_code size (length area) \<and>
     area_code (profile_levels d) area)"

abbreviation read_index :: "parsed_headers \<Rightarrow> nat list byte_parser" where
  "read_index h \<equiv>
     (if index_table_present (flags (image h)) then parse_index h (tiles_of h) else give [])"

lemma eats_start_code: "eats cursor_u16 [0, 1] 1"
  using eats_u16 [of 0 1] by simp

lemma eats_index:
  assumes "image_header_ok (image h)" "list_all2 vlw_code codes vs" "length vs = index_entries h"
  shows "eats (read_index h)
    (if index_table_present (flags (image h)) then [0, 1] @ concat codes else []) vs"
proof (cases "index_table_present (flags (image h))")
  case True
  have words: "list_all2 (eats read_vlw) codes vs"
    using assms(2) by (rule list_all2_mono) (rule eats_vlw)
  have entries: "tiles_of h * (if frequency_mode (flags (image h)) then 4 - bands_present (primary h) else 1)
      = index_entries h" using True by (simp add: index_entries_def)
  have "eats (parse_index h (tiles_of h)) ([0, 1] @ concat codes) vs"
    unfolding parse_index_def Let_def entries
    by (rule eats_bind [OF eats_start_code])
      (use eats_collect [OF words, of "index_entries h" "[]"] index_entries_small [OF assms(1)] assms(3)
        in simp)
  then show ?thesis using True by simp
next
  case False
  then show ?thesis using assms(3) by (simp add: index_entries_def eats_give)
qed

lemma eats_directory:
  assumes "image_header_ok (image h)" "directory_code h d bs" "length (tile_offsets d) = index_entries h"
    and "length bs \<le> usize_max"
  shows "eats (run_try (read_index h) (\<lambda>offsets. run_try read_vlw (\<lambda>n.
      if usize_max < n then fail (IntegerOverflow ''converting SubsequentBytes'')
      else run_try (parse_profile_area n) (\<lambda>ps. give (offsets, ps))))) bs
    (tile_offsets d, profile_levels d)"
proof -
  obtain codes size area where bs: "bs = (if index_table_present (flags (image h))
        then [0, 1] @ concat codes else []) @ size @ area"
    and codes: "list_all2 vlw_code codes (tile_offsets d)"
    and size: "vlw_code size (length area)" and area: "area_code (profile_levels d) area"
    using assms(2) by (auto simp: directory_code_def)
  have "length area \<le> usize_max" using assms(4) bs by simp
  then show ?thesis
    unfolding bs
    by (intro eats_bind [OF eats_index [OF assms(1) codes assms(3)]] eats_bind [OF eats_vlw [OF size]])
      (auto intro!: eats_last [OF eats_area [OF area]] eats_give)
qed

section \<open>Properties\<close>

lemma directory_yields:
  assumes "headers_ok (length bytes) h"
  shows "yields (parse_directory_tail bytes h) (directory_ok (length bytes) h)"
proof -
  have h: "image_header_ok (image h)" "bytes_consumed h \<le> length bytes"
    using assms by (simp_all add: headers_ok_def)
  then have "cursor_in bytes (bytes_consumed h) \<lparr>cur_bytes = bytes, cur_position = bytes_consumed h\<rparr>"
    by (simp add: cursor_in_def)
  from upholdsD(2,3) [OF directory_body_upholds [OF h(1), of bytes] this] show ?thesis
    using h(2) by (auto simp: parse_directory_tail_def cursor_new intro: yieldsI)
qed

text \<open>
  Behind headers that the header parser accepts, parsing the tile index and the profile records
  terminates without a panic (no capacity overflow, no index out of bounds). A directory that it
  returns has one offset per tile and band that the headers call for, an index whenever there are
  several tiles or the stream is in frequency mode, and its tile data start inside the input, not
  before the end of the headers.
\<close>

theorem directory_safe:
  assumes "headers_ok (length bytes) h"
  shows "case parse_directory_tail bytes h of Panic \<Rightarrow> False | Err e \<Rightarrow> True
    | Ok d \<Rightarrow> directory_ok (length bytes) h d"
  using directory_yields [OF assms] by (simp add: yields_def)

lemma directory_safe_witness:
  "case parse_directory_tail (replicate 20 0 @ [0, 4, 44, 8, 0, 1, 0xAA]) sample_header of
    Panic \<Rightarrow> False | Err e \<Rightarrow> True | Ok d \<Rightarrow> directory_ok 27 sample_header d"
proof -
  have "headers_ok (length (replicate 20 0 @ [0, 4, 44, 8, 0, 1, 0xAA :: u8])) sample_header"
    by (simp add: headers_ok_def sample_header_def image_header_ok_def plane_header_ok_def
        quantizers_ok_def short_header_def alpha_plane_def)
  from directory_safe [OF this] show ?thesis by (simp split: result.splits)
qed

text \<open>
  C15: tile directories round trip. Whatever encodings a writer picks for the words of the index, and
  whatever it appends to the profile records inside their area, parsing gives exactly the directory
  that was written, and the tile data start behind it.
\<close>

theorem directory_roundtrip:
  assumes "image_header_ok (image h)" "bytes_consumed h = length front"
    and "directory_code h d bs" "length (tile_offsets d) = index_entries h"
    and "frequency_mode (flags (image h)) \<or> 1 < tiles_of h \<longrightarrow> index_table_present (flags (image h))"
    and "tile_data_offset d = length front + length bs" "length (front @ bs @ rest) \<le> usize_max"
  shows "parse_directory_tail (front @ bs @ rest) h = Ok d"
proof -
  let ?c = "\<lparr>cur_bytes = front @ bs @ rest, cur_position = length front\<rparr>"
  have "length bs \<le> usize_max" using assms(7) by simp
  from eatsD [OF eats_directory [OF assms(1,3,4) this], of ?c rest]
  have "run_try (read_index h) (\<lambda>offsets. run_try read_vlw (\<lambda>n.
      if usize_max < n then fail (IntegerOverflow ''converting SubsequentBytes'')
      else run_try (parse_profile_area n) (\<lambda>ps. give (offsets, ps)))) ?c =
    (Ok (tile_offsets d, profile_levels d), ?c\<lparr>cur_position := length front + length bs\<rparr>)"
    using assms(7) by simp
  then show ?thesis
    using assms(5,6)
    by (cases d) (auto simp: parse_directory_tail_def cursor_new assms(2) directory_body_def
        tile_count_Ok [OF assms(1)] run_try_eq_Ok run_try_step get_position_def
        split: if_splits)
qed

definition indexed_header :: parsed_headers where
  "indexed_header = sample_header\<lparr>image := (image sample_header)\<lparr>flags := 20, tile_widths_mb := [1]\<rparr>\<rparr>"

lemma directory_roundtrip_witness:
  "parse_directory_tail (replicate 20 0 @ [0, 1, 0xFD, 1, 2, 0, 5, 44, 8, 0, 1, 0x77] @ [0xAA]) indexed_header =
    Ok \<lparr>tile_offsets = [0, 258], profile_levels = [\<lparr>profile_idc = 44, level_idc = 8\<rparr>],
      tile_data_offset = 32\<rparr>"
proof (rule directory_roundtrip)
  have f: "index_table_present 20" "\<not> frequency_mode 20" "short_header 20"
    by (simp_all add: index_table_present_def frequency_mode_def short_header_def)
  show "image_header_ok (image indexed_header)"
    by (simp add: indexed_header_def sample_header_def image_header_ok_def f)
  show "directory_code indexed_header \<lparr>tile_offsets = [0, 258],
      profile_levels = [\<lparr>profile_idc = 44, level_idc = 8\<rparr>], tile_data_offset = 32\<rparr>
      [0, 1, 0xFD, 1, 2, 0, 5, 44, 8, 0, 1, 0x77]"
    unfolding directory_code_def
    by (rule exI [of _ "[[0xFD], [1, 2]]"], rule exI [of _ "[0, 5]"], rule exI [of _ "[44, 8, 0, 1, 0x77]"])
      (simp add: indexed_header_def f area_code_def profile_ok_def profile_code_def)
qed (simp_all add: indexed_header_def sample_header_def index_entries_def tiles_of_def
    index_table_present_def frequency_mode_def)

end
