(* ===== verification/Formats.thy ===== *)
theory Formats
  imports Prelude
begin

text \<open>
  The format descriptors and errors that the crates share (\<open>crates/jxr-core/src\<close>: \<open>format.rs\<close>,
  \<open>container.rs\<close>, \<open>error.rs\<close>). Constructors that several enumerations of the source have in
  common carry the name of their type as a prefix.
\<close>

section \<open>Errors\<close>

datatype limit_kind =
    LimitWidth | LimitHeight | LimitPixels | LimitComponents | LimitTiles | LimitCompressedBytes
  | LimitCoefficientBytes | LimitHostAllocationBytes

datatype jxr_error_kind =
    KindTruncated
  | KindInvalidSyntax
  | KindUnsupported
  | KindLimitExceeded limit_kind nat nat
  | KindArithmeticOverflow
  | KindBufferTooSmall nat nat
  | KindBackendUnavailable
  | KindDeviceFailure
  | KindInvalidRequest
  | KindInternalInvariant

record jxr_error =
  je_kind :: jxr_error_kind
  je_operation :: string
  je_byte_offset :: "nat option"

definition jxr_error_new :: "jxr_error_kind \<Rightarrow> string \<Rightarrow> jxr_error" where
  "jxr_error_new kind operation = \<lparr>je_kind = kind, je_operation = operation, je_byte_offset = None\<rparr>"

definition arithmetic_error :: "string \<Rightarrow> jxr_error" where
  "arithmetic_error operation = jxr_error_new KindArithmeticOverflow operation"

section \<open>Source formats\<close>

datatype chroma_sampling = Cs420 | Cs422 | Cs444

datatype color_format =
    ColorLuma | ColorYuv chroma_sampling | ColorRgb | ColorCmyk | ColorCmykDirect | ColorYuvK
  | ColorRgbe | ColorNComponent nat

fun component_count :: "color_format \<Rightarrow> nat option" where
  "component_count ColorLuma = Some 1"
| "component_count (ColorYuv _) = Some 3"
| "component_count ColorRgb = Some 3"
| "component_count ColorRgbe = Some 3"
| "component_count ColorCmyk = Some 4"
| "component_count ColorCmykDirect = Some 4"
| "component_count ColorYuvK = Some 4"
| "component_count (ColorNComponent n) = (if n = 0 then None else Some n)"

datatype sample_format =
    SampleBit1 | SampleUnsigned nat | SampleSigned nat | SampleFixedPoint nat nat
  | SampleFloat16 | SampleFloat32

datatype alpha_mode = AlphaNone | AlphaIntegrated | AlphaSeparate

datatype profile = SubBaseline | Baseline | Main | Advanced | UnknownProfile nat

datatype orientation =
    Identity | MirrorHorizontal | Rotate180 | MirrorVertical | Transpose | Rotate90 | Transverse
  | Rotate270

datatype bitstream_mode = Spatial | Frequency

datatype band_presence = DcOnly | NoHighPass | NoFlexbits | AllBands

definition has_low_pass :: "band_presence \<Rightarrow> bool" where
  "has_low_pass b = (b \<noteq> DcOnly)"

definition has_high_pass :: "band_presence \<Rightarrow> bool" where
  "has_high_pass b = (b = NoFlexbits \<or> b = AllBands)"

definition has_flexbits :: "band_presence \<Rightarrow> bool" where
  "has_flexbits b = (b = AllBands)"

datatype overlap_mode = OverlapNone | OverlapOne | OverlapTwo

section \<open>Output formats\<close>

datatype channel_layout =
    LayoutLuma | LayoutLumaAlpha | LayoutYuv chroma_sampling | LayoutYuva chroma_sampling
  | LayoutRgb | LayoutRgbx | LayoutRgba | LayoutBgr | LayoutBgrx | LayoutBgra | LayoutCmyk
  | LayoutCmyka | LayoutNComponent nat | LayoutNComponentAlpha nat

fun layout_channels :: "channel_layout \<Rightarrow> nat" where
  "layout_channels LayoutLuma = 1"
| "layout_channels LayoutLumaAlpha = 2"
| "layout_channels (LayoutYuv _) = 3"
| "layout_channels LayoutRgb = 3"
| "layout_channels LayoutBgr = 3"
| "layout_channels (LayoutYuva _) = 4"
| "layout_channels LayoutRgbx = 4"
| "layout_channels LayoutRgba = 4"
| "layout_channels LayoutBgrx = 4"
| "layout_channels LayoutBgra = 4"
| "layout_channels LayoutCmyk = 4"
| "layout_channels LayoutCmyka = 5"
| "layout_channels (LayoutNComponent n) = n"
| "layout_channels (LayoutNComponentAlpha n) = min (2 ^ 16 - 1) (n + 1)"

datatype storage_kind =
    StorageBitPacked | StorageU8 | StorageU16 | StorageI16 | StorageI32 | StorageF16Bits
  | StorageF32 | StoragePackedU16 | StoragePackedU32

datatype pixel_format =
    PixelBitPacked channel_layout | PixelU8 channel_layout | PixelU16 channel_layout
  | PixelI16 channel_layout | PixelI32 channel_layout | PixelF16 channel_layout
  | PixelF32 channel_layout | PixelRgb555 | PixelRgb565 | PixelRgb101010 | PixelRgbe

fun channel_count :: "pixel_format \<Rightarrow> nat" where
  "channel_count (PixelBitPacked l) = layout_channels l"
| "channel_count (PixelU8 l) = layout_channels l"
| "channel_count (PixelU16 l) = layout_channels l"
| "channel_count (PixelI16 l) = layout_channels l"
| "channel_count (PixelI32 l) = layout_channels l"
| "channel_count (PixelF16 l) = layout_channels l"
| "channel_count (PixelF32 l) = layout_channels l"
| "channel_count _ = 3"

fun format_storage :: "pixel_format \<Rightarrow> storage_kind" where
  "format_storage (PixelBitPacked _) = StorageBitPacked"
| "format_storage (PixelU8 _) = StorageU8"
| "format_storage (PixelU16 _) = StorageU16"
| "format_storage (PixelI16 _) = StorageI16"
| "format_storage (PixelI32 _) = StorageI32"
| "format_storage (PixelF16 _) = StorageF16Bits"
| "format_storage (PixelF32 _) = StorageF32"
| "format_storage PixelRgb555 = StoragePackedU16"
| "format_storage PixelRgb565 = StoragePackedU16"
| "format_storage PixelRgb101010 = StoragePackedU32"
| "format_storage PixelRgbe = StoragePackedU32"

text \<open>\<open>checked_mul\<close> and \<open>checked_add\<close> on \<open>usize\<close>, with the error of the call.\<close>

definition usize_mul :: "string \<Rightarrow> nat \<Rightarrow> nat \<Rightarrow> (jxr_error, nat) result" where
  "usize_mul operation a b = (if usize_max < a * b then Err (arithmetic_error operation) else Ok (a * b))"

definition usize_add :: "string \<Rightarrow> nat \<Rightarrow> nat \<Rightarrow> (jxr_error, nat) result" where
  "usize_add operation a b = (if usize_max < a + b then Err (arithmetic_error operation) else Ok (a + b))"

definition row_bytes_for_channels :: "pixel_format \<Rightarrow> nat \<Rightarrow> nat \<Rightarrow> (jxr_error, nat) result" where
  "row_bytes_for_channels format columns channels =
     (if channels = 0 then Err (jxr_error_new KindInvalidRequest ''output channel layout'')
      else if usize_max < columns then Err (arithmetic_error ''output row width'')
      else let_try (usize_mul ''output row elements'' columns channels) (\<lambda>elements.
        case format_storage format of
          StorageBitPacked \<Rightarrow>
            let_try (usize_add ''bit-packed row size'' elements 7) (\<lambda>bits. Ok (bits div 8))
        | StorageU8 \<Rightarrow> Ok elements
        | StorageU16 \<Rightarrow> usize_mul ''16-bit row size'' elements 2
        | StorageI16 \<Rightarrow> usize_mul ''16-bit row size'' elements 2
        | StorageF16Bits \<Rightarrow> usize_mul ''16-bit row size'' elements 2
        | StorageI32 \<Rightarrow> usize_mul ''32-bit row size'' elements 4
        | StorageF32 \<Rightarrow> usize_mul ''32-bit row size'' elements 4
        | StoragePackedU16 \<Rightarrow> usize_mul ''packed 16-bit row size'' columns 2
        | StoragePackedU32 \<Rightarrow> usize_mul ''packed 32-bit row size'' columns 4))"

definition row_bytes :: "pixel_format \<Rightarrow> nat \<Rightarrow> (jxr_error, nat) result" where
  "row_bytes format columns = row_bytes_for_channels format columns (channel_count format)"

section \<open>Annex-A pixel formats\<close>

datatype annex_family =
    FamilyLuma | FamilyRgb | FamilyRgbe | FamilyCmyk bool | FamilyYuv chroma_sampling
  | FamilyNComponent

datatype annex_numeric = NumericUnsigned | NumericFixedPoint | NumericFloat

datatype annex_bit_depth =
    DepthBit1 | DepthU8 | DepthU10 | DepthU16 | DepthI16 | DepthF16 | DepthI32 | DepthF32
  | DepthRgb555 | DepthRgb565 | DepthRgb101010

datatype annex_order =
    OrderLuma | OrderRgb | OrderRgbx | OrderBgr | OrderBgrx | OrderRgba | OrderBgra | OrderCmyk
  | OrderYuv | OrderRgbe | OrderComponents | OrderPackedBgr

record annex_descriptor =
  family :: annex_family
  channels :: nat
  ds_alpha :: bool
  ds_premultiplied :: bool
  bit_depth :: annex_bit_depth
  numeric :: annex_numeric
  ds_order :: annex_order

datatype annex_pixel_format = Known annex_descriptor | UnknownFormat "u8 list"

section \<open>Properties\<close>

text \<open>The storage bits of one row: per element, or per pixel for the packed formats.\<close>

definition row_bits :: "storage_kind \<Rightarrow> nat \<Rightarrow> nat \<Rightarrow> nat" where
  "row_bits kind columns n =
     (case kind of StorageBitPacked \<Rightarrow> columns * n | StorageU8 \<Rightarrow> 8 * (columns * n)
      | StorageU16 \<Rightarrow> 16 * (columns * n) | StorageI16 \<Rightarrow> 16 * (columns * n)
      | StorageF16Bits \<Rightarrow> 16 * (columns * n) | StorageI32 \<Rightarrow> 32 * (columns * n)
      | StorageF32 \<Rightarrow> 32 * (columns * n) | StoragePackedU16 \<Rightarrow> 16 * columns
      | StoragePackedU32 \<Rightarrow> 32 * columns)"

text \<open>
  For every row of at most \<open>2 ^ 32 - 1\<close> pixels and \<open>2 ^ 16 - 1\<close> channels the row size is
  computed without an overflow error; it is the number of storage bits rounded up to bytes.
\<close>

theorem row_size_exact:
  assumes "columns < 2 ^ 32" "0 < n" "n < 2 ^ 16"
  shows "row_bytes_for_channels format columns n = Ok ((row_bits (format_storage format) columns n + 7) div 8)"
proof -
  have "columns * n \<le> (2 ^ 32 - 1) * (2 ^ 16 - 1)" using assms by (intro mult_le_mono) simp_all
  then show ?thesis
    using assms by (cases "format_storage format")
      (simp_all add: row_bytes_for_channels_def usize_mul_def usize_add_def row_bits_def)
qed

lemma row_size_exact_witness: "row_bytes_for_channels (PixelBitPacked LayoutLuma) 9 1 = Ok 2"
  using row_size_exact [of 9 1 "PixelBitPacked LayoutLuma"] by (simp add: row_bits_def)

end
