(* ===== verification/Pixel_Format.thy ===== *)
theory Pixel_Format
  imports Formats Bit_Reader
begin

text \<open>
  Annex-A pixel-format identifiers (\<open>crates/jxr-native/src/pixel_format.rs\<close> and
  \<open>pixel_format/table.rs\<close>): the descriptors of T.832 Table A.6 and the codes that a codestream
  header must declare for them.
\<close>

section \<open>Descriptors\<close>

definition descriptor :: "annex_family \<Rightarrow> nat \<Rightarrow> bool \<Rightarrow> bool \<Rightarrow> annex_bit_depth \<Rightarrow> annex_numeric \<Rightarrow>
    annex_order \<Rightarrow> annex_descriptor" where
  "descriptor f n has_alpha is_premultiplied depth kind layout =
     \<lparr>family = f, channels = n, ds_alpha = has_alpha, ds_premultiplied = is_premultiplied,
      bit_depth = depth, numeric = kind, ds_order = layout\<rparr>"

definition luma :: "annex_bit_depth \<Rightarrow> annex_numeric \<Rightarrow> annex_descriptor" where
  "luma depth kind = descriptor FamilyLuma 1 False False depth kind OrderLuma"

definition packed_rgb :: "annex_bit_depth \<Rightarrow> annex_descriptor" where
  "packed_rgb depth = descriptor FamilyRgb 3 False False depth NumericUnsigned OrderPackedBgr"

definition rgb :: "nat \<Rightarrow> bool \<Rightarrow> bool \<Rightarrow> annex_bit_depth \<Rightarrow> annex_numeric \<Rightarrow> annex_order \<Rightarrow>
    annex_descriptor" where
  "rgb n has_alpha is_premultiplied depth kind layout =
     descriptor FamilyRgb n has_alpha is_premultiplied depth kind layout"

definition cmyk :: "bool \<Rightarrow> bool \<Rightarrow> annex_bit_depth \<Rightarrow> annex_descriptor" where
  "cmyk direct has_alpha depth =
     descriptor (FamilyCmyk direct) (4 + of_bool has_alpha) has_alpha False depth NumericUnsigned OrderCmyk"

definition yuv :: "chroma_sampling \<Rightarrow> bool \<Rightarrow> annex_bit_depth \<Rightarrow> annex_descriptor" where
  "yuv sampling has_alpha depth =
     descriptor (FamilyYuv sampling) (3 + of_bool has_alpha) has_alpha False depth NumericUnsigned OrderYuv"

definition yuv_fixed :: "chroma_sampling \<Rightarrow> bool \<Rightarrow> annex_descriptor" where
  "yuv_fixed sampling has_alpha =
     descriptor (FamilyYuv sampling) (3 + of_bool has_alpha) has_alpha False DepthI16 NumericFixedPoint
       OrderYuv"

section \<open>Table A.6\<close>

definition basic_descriptor :: "nat \<Rightarrow> annex_descriptor option" where
  "basic_descriptor = map_of
    [(0x05, luma DepthBit1 NumericUnsigned), (0x08, luma DepthU8 NumericUnsigned),
     (0x0b, luma DepthU16 NumericUnsigned), (0x13, luma DepthI16 NumericFixedPoint),
     (0x3e, luma DepthF16 NumericFloat), (0x3f, luma DepthI32 NumericFixedPoint),
     (0x11, luma DepthF32 NumericFloat), (0x09, packed_rgb DepthRgb555),
     (0x0a, packed_rgb DepthRgb565), (0x14, packed_rgb DepthRgb101010),
     (0x3d, descriptor FamilyRgbe 3 False False DepthU8 NumericFloat OrderRgbe)]"

definition rgb_descriptor :: "nat \<Rightarrow> annex_descriptor option" where
  "rgb_descriptor = map_of
    [(0x0d, rgb 3 False False DepthU8 NumericUnsigned OrderRgb),
     (0x0c, rgb 3 False False DepthU8 NumericUnsigned OrderBgr),
     (0x0e, rgb 3 False False DepthU8 NumericUnsigned OrderBgrx),
     (0x15, rgb 3 False False DepthU16 NumericUnsigned OrderRgb),
     (0x12, rgb 3 False False DepthI16 NumericFixedPoint OrderRgb),
     (0x40, rgb 3 False False DepthI16 NumericFixedPoint OrderRgbx),
     (0x3b, rgb 3 False False DepthF16 NumericFloat OrderRgb),
     (0x42, rgb 3 False False DepthF16 NumericFloat OrderRgbx),
     (0x18, rgb 3 False False DepthI32 NumericFixedPoint OrderRgb),
     (0x41, rgb 3 False False DepthI32 NumericFixedPoint OrderRgbx),
     (0x1b, rgb 3 False False DepthF32 NumericFloat OrderRgbx)]"

definition rgba_descriptor :: "nat \<Rightarrow> annex_descriptor option" where
  "rgba_descriptor = map_of
    [(0x0f, rgb 4 True False DepthU8 NumericUnsigned OrderBgra),
     (0x16, rgb 4 True False DepthU16 NumericUnsigned OrderRgba),
     (0x1d, rgb 4 True False DepthI16 NumericFixedPoint OrderRgba),
     (0x3a, rgb 4 True False DepthF16 NumericFloat OrderRgba),
     (0x1e, rgb 4 True False DepthI32 NumericFixedPoint OrderRgba),
     (0x19, rgb 4 True False DepthF32 NumericFloat OrderRgba),
     (0x10, rgb 4 True True DepthU8 NumericUnsigned OrderBgra),
     (0x17, rgb 4 True True DepthU16 NumericUnsigned OrderRgba),
     (0x1a, rgb 4 True True DepthF32 NumericFloat OrderRgba)]"

definition cmyk_yuv_descriptor :: "nat \<Rightarrow> annex_descriptor option" where
  "cmyk_yuv_descriptor = map_of
    [(0x1c, cmyk False False DepthU8), (0x2c, cmyk False True DepthU8),
     (0x1f, cmyk False False DepthU16), (0x2d, cmyk False True DepthU16),
     (0x54, cmyk True False DepthU8), (0x56, cmyk True True DepthU8),
     (0x55, cmyk True False DepthU16), (0x43, cmyk True True DepthU16),
     (0x44, yuv Cs420 False DepthU8), (0x45, yuv Cs422 False DepthU8),
     (0x46, yuv Cs422 False DepthU10), (0x47, yuv Cs422 False DepthU16),
     (0x48, yuv Cs444 False DepthU8), (0x49, yuv Cs444 False DepthU10),
     (0x4a, yuv Cs444 False DepthU16), (0x4b, yuv_fixed Cs444 False),
     (0x4c, yuv Cs420 True DepthU8), (0x4d, yuv Cs422 True DepthU8),
     (0x4e, yuv Cs422 True DepthU10), (0x4f, yuv Cs422 True DepthU16),
     (0x50, yuv Cs444 True DepthU8), (0x51, yuv Cs444 True DepthU10),
     (0x52, yuv Cs444 True DepthU16), (0x53, yuv_fixed Cs444 True)]"

definition ncomponent_descriptor :: "nat \<Rightarrow> annex_descriptor option" where
  "ncomponent_descriptor code =
     map_option (\<lambda>(n, has_alpha, depth).
         descriptor FamilyNComponent n has_alpha False depth NumericUnsigned OrderComponents)
       (if 0x20 \<le> code \<and> code \<le> 0x25 then Some (code - 0x20 + 3, False, DepthU8)
        else if 0x2e \<le> code \<and> code \<le> 0x33 then Some (code - 0x2e + 4, True, DepthU8)
        else if 0x26 \<le> code \<and> code \<le> 0x2b then Some (code - 0x26 + 3, False, DepthU16)
        else if 0x34 \<le> code \<and> code \<le> 0x39 then Some (code - 0x34 + 4, True, DepthU16)
        else None)"

definition or_else :: "'a option \<Rightarrow> 'a option \<Rightarrow> 'a option" where
  "or_else x y = (case x of None \<Rightarrow> y | Some v \<Rightarrow> Some v)"

definition known_descriptor :: "nat \<Rightarrow> annex_descriptor option" where
  "known_descriptor code =
     or_else (or_else (or_else (or_else (ncomponent_descriptor code) (basic_descriptor code))
       (rgb_descriptor code)) (rgba_descriptor code)) (cmyk_yuv_descriptor code)"

section \<open>Classification\<close>

definition GUID_PREFIX :: "u8 list" where
  "GUID_PREFIX =
     [0x24, 0xc3, 0xdd, 0x6f, 0x03, 0x4e, 0xfe, 0x4b, 0xb1, 0x85, 0x3d, 0x77, 0x76, 0x8d, 0xc9]"

text \<open>An identifier is a list of sixteen bytes.\<close>

definition classify_annex_a_pixel_format :: "u8 list \<Rightarrow> annex_pixel_format" where
  "classify_annex_a_pixel_format guid =
     (if take 15 guid \<noteq> GUID_PREFIX then UnknownFormat guid
      else case known_descriptor (unat (guid ! 15)) of
        None \<Rightarrow> UnknownFormat guid | Some format \<Rightarrow> Known format)"

fun output_color_code :: "annex_family \<Rightarrow> nat" where
  "output_color_code FamilyLuma = 0"
| "output_color_code (FamilyYuv Cs420) = 1"
| "output_color_code (FamilyYuv Cs422) = 2"
| "output_color_code (FamilyYuv Cs444) = 3"
| "output_color_code (FamilyCmyk False) = 4"
| "output_color_code (FamilyCmyk True) = 5"
| "output_color_code FamilyNComponent = 6"
| "output_color_code FamilyRgb = 7"
| "output_color_code FamilyRgbe = 8"

fun bit_depth_matches :: "annex_bit_depth \<Rightarrow> nat \<Rightarrow> bool" where
  "bit_depth_matches DepthBit1 code = (code = 0 \<or> code = 15)"
| "bit_depth_matches DepthU8 code = (code = 1)"
| "bit_depth_matches DepthU10 code = (code = 9)"
| "bit_depth_matches DepthRgb101010 code = (code = 9)"
| "bit_depth_matches DepthU16 code = (code = 2)"
| "bit_depth_matches DepthI16 code = (code = 3)"
| "bit_depth_matches DepthF16 code = (code = 4)"
| "bit_depth_matches DepthI32 code = (code = 6)"
| "bit_depth_matches DepthF32 code = (code = 7)"
| "bit_depth_matches DepthRgb555 code = (code = 8)"
| "bit_depth_matches DepthRgb565 code = (code = 10)"

definition premultiplication_is_consistent :: "bool \<Rightarrow> bool \<Rightarrow> bool \<Rightarrow> bool" where
  "premultiplication_is_consistent separate_alpha codestream_premultiplied annex_a_premultiplied =
     (separate_alpha \<or> codestream_premultiplied = annex_a_premultiplied)"

section \<open>Properties\<close>

text \<open>The codes of Table A.6 and what their descriptors have in common.\<close>

definition known_codes :: "nat list" where
  "known_codes = 0x05 # [0x08..<0x3c] @ [0x3d..<0x57]"

definition family_channels :: "annex_family \<Rightarrow> nat set" where
  "family_channels f = (case f of FamilyLuma \<Rightarrow> {1} | FamilyRgb \<Rightarrow> {3} | FamilyRgbe \<Rightarrow> {3}
     | FamilyCmyk _ \<Rightarrow> {4} | FamilyYuv _ \<Rightarrow> {3} | FamilyNComponent \<Rightarrow> {3..8})"

definition descriptor_ok :: "annex_descriptor \<Rightarrow> bool" where
  "descriptor_ok d \<longleftrightarrow> channels d - of_bool (ds_alpha d) \<in> family_channels (family d) \<and>
     (ds_premultiplied d \<longrightarrow> ds_alpha d) \<and>
     (\<exists>code \<in> {0, 1, 2, 3, 4, 6, 7, 8, 9, 10, 15}. bit_depth_matches (bit_depth d) code)"

lemma descriptor_okI:
  assumes "n - of_bool a \<in> family_channels f" "p \<longrightarrow> a"
  shows "descriptor_ok (descriptor f n a p depth kind layout)"
  using assms by (cases depth) (simp_all add: descriptor_ok_def descriptor_def)

lemmas kinds_of_descriptor = luma_def packed_rgb_def rgb_def cmyk_def yuv_def yuv_fixed_def

definition table_row :: "nat \<Rightarrow> annex_descriptor \<Rightarrow> bool" where
  "table_row c d \<longleftrightarrow> c \<in> set known_codes \<and> descriptor_ok d"

lemma table_row_of: "\<forall>(c, d)\<in>set xs. table_row c d \<Longrightarrow> map_of xs c = Some d \<Longrightarrow> table_row c d"
  by (auto dest: map_of_SomeD)

lemma in_known_codes: "c \<in> set known_codes \<longleftrightarrow> c = 5 \<or> 8 \<le> c \<and> c \<le> 0x3b \<or> 0x3d \<le> c \<and> c \<le> 0x56"
  by (auto simp: known_codes_def simp del: upt_rec_numeral)

lemma table_rows:
  "basic_descriptor c = Some d \<Longrightarrow> table_row c d" "rgb_descriptor c = Some d \<Longrightarrow> table_row c d"
  "rgba_descriptor c = Some d \<Longrightarrow> table_row c d" "cmyk_yuv_descriptor c = Some d \<Longrightarrow> table_row c d"
  unfolding basic_descriptor_def rgb_descriptor_def rgba_descriptor_def cmyk_yuv_descriptor_def
  by (erule table_row_of [rotated], simp add: table_row_def in_known_codes kinds_of_descriptor
      descriptor_okI family_channels_def)+

lemma ncomponent_row: "ncomponent_descriptor c = Some d \<Longrightarrow> table_row c d"
  by (auto simp: ncomponent_descriptor_def table_row_def in_known_codes family_channels_def
      intro!: descriptor_okI split: if_splits)

lemma table_defined: "list_all (\<lambda>c. known_descriptor c \<noteq> None) known_codes"
  by code_simp

lemma known_row: "known_descriptor c = Some d \<Longrightarrow> table_row c d"
  using table_rows ncomponent_row by (auto simp: known_descriptor_def or_else_def split: option.splits)

lemma known_descriptor_ok: "classify_annex_a_pixel_format guid = Known d \<Longrightarrow> descriptor_ok d"
  using known_row by (fastforce simp: classify_annex_a_pixel_format_def table_row_def
      split: if_splits option.splits)

text \<open>
  C35: exactly the identifiers of Table A.6 are known: those with the common prefix and one of the 79
  codes. Each known format has the channels of its family, plus one when it declares alpha, is
  premultiplied only with alpha, and declares a bit depth that some codestream header can match.
  Every other identifier is retained byte for byte.
\<close>

theorem pixel_formats_classified:
  assumes "length guid = 16"
  shows "case classify_annex_a_pixel_format guid of
      Known d \<Rightarrow> take 15 guid = GUID_PREFIX \<and> unat (guid ! 15) \<in> set known_codes \<and> descriptor_ok d
    | UnknownFormat g \<Rightarrow> g = guid \<and>
        \<not> (take 15 guid = GUID_PREFIX \<and> unat (guid ! 15) \<in> set known_codes)"
proof -
  have "known_descriptor c \<noteq> None" if "c \<in> set known_codes" for c
    using table_defined that by (auto simp: list_all_iff)
  then show ?thesis
    using known_row by (fastforce simp: classify_annex_a_pixel_format_def table_row_def split: option.split)
qed

lemma pixel_formats_classified_witness:
  "case classify_annex_a_pixel_format (GUID_PREFIX @ [0x0c]) of
      Known d \<Rightarrow> descriptor_ok d | UnknownFormat g \<Rightarrow> False"
  using pixel_formats_classified [of "GUID_PREFIX @ [0x0c]"]
  by (auto simp: GUID_PREFIX_def in_known_codes split: annex_pixel_format.splits)

end
