(* ===== verification/Codestream.thy ===== *)
theory Codestream
  imports Annex_A Tile_Directory Pixel_Format
begin

text \<open>
  Discovery and preparation of a codestream (\<open>crates/jxr-native/src/codestream.rs\<close>) and the check of
  its headers against the container's pixel format (\<open>pixel_format.rs\<close>): the composition of the
  container, the header and the directory parsers.
\<close>

section \<open>Parsed codestreams\<close>

record parsed_codestream =
  primary_range :: byte_range
  cs_headers :: parsed_headers
  directory :: codestream_directory
  separate_alpha_headers :: "parsed_headers option"
  separate_alpha_directory :: "codestream_directory option"
  annex_a :: "annex_image option"

definition RAW_SIGNATURE :: "u8 list" where
  "RAW_SIGNATURE = [0x57, 0x4D, 0x50, 0x48, 0x4F, 0x54, 0x4F, 0]"

definition starts_with :: "'a list \<Rightarrow> 'a list \<Rightarrow> bool" where
  "starts_with bytes front \<longleftrightarrow> take (length front) bytes = front"

section \<open>Consistency with the container's pixel format\<close>

definition invalid :: "string \<Rightarrow> native_error" where
  "invalid field = InvalidSyntax field"

definition alpha_of :: "parsed_headers \<Rightarrow> image_plane_header" where
  "alpha_of h = (case alpha h of None \<Rightarrow> primary h | Some plane \<Rightarrow> plane)"

definition validate_known_format ::
  "annex_descriptor \<Rightarrow> parsed_codestream \<Rightarrow> (native_error, unit) result" where
  "validate_known_format format parsed =
     (let img = image (cs_headers parsed);
          integrated = alpha (cs_headers parsed);
          separate = map_option alpha_of (separate_alpha_headers parsed)
      in if output_color_format img \<noteq> output_color_code (family format)
         then Err (invalid ''Annex-A pixel format colour declaration'')
         else if \<not> bit_depth_matches (bit_depth format) (output_bit_depth img)
         then Err (invalid ''Annex-A pixel format bit depth'')
         else if channels format < of_bool (ds_alpha format) then Panic
         else if components (primary (cs_headers parsed)) \<noteq> channels format - of_bool (ds_alpha format)
         then Err (invalid ''Annex-A pixel format component count'')
         else if (integrated \<noteq> None \<or> separate \<noteq> None) \<noteq> ds_alpha format
         then Err (invalid ''Annex-A pixel format alpha declaration'')
         else if \<not> premultiplication_is_consistent (separate_alpha_headers parsed \<noteq> None)
             (premultiplied_alpha (flags img)) (ds_premultiplied format)
         then Err (invalid ''Annex-A pixel format premultiplied alpha'')
         else if \<exists>plane \<in> set_option integrated \<union> set_option separate. components plane \<noteq> 1
         then Err (invalid ''Annex-A alpha component count'')
         else case separate_alpha_headers parsed of
             Some h \<Rightarrow> if bit_depth_matches (bit_depth format) (output_bit_depth (image h)) then Ok ()
                       else Err (invalid ''Annex-A separate alpha bit depth'')
           | None \<Rightarrow> Ok ())"

definition validate_annex_a_pixel_format :: "parsed_codestream \<Rightarrow> (native_error, unit) result" where
  "validate_annex_a_pixel_format parsed =
     (case annex_a parsed of None \<Rightarrow> Ok ()
      | Some annex \<Rightarrow>
          (case classify_annex_a_pixel_format (pixel_format_guid annex) of
             UnknownFormat _ \<Rightarrow> Ok ()
           | Known format \<Rightarrow> validate_known_format format parsed))"

definition source_is_premultiplied :: "parsed_codestream \<Rightarrow> bool" where
  "source_is_premultiplied parsed =
     (case (separate_alpha_headers parsed, annex_a parsed) of
        (Some _, Some annex) \<Rightarrow>
          (case classify_annex_a_pixel_format (pixel_format_guid annex) of
             Known format \<Rightarrow> ds_premultiplied format
           | UnknownFormat _ \<Rightarrow> premultiplied_alpha (flags (image (cs_headers parsed))))
      | _ \<Rightarrow> premultiplied_alpha (flags (image (cs_headers parsed))))"

section \<open>The parser\<close>

definition parse_separate_alpha :: "u8 list \<Rightarrow> annex_image \<Rightarrow>
    (native_error, parsed_headers option \<times> codestream_directory option) result" where
  "parse_separate_alpha bytes annex =
     (case alpha_range annex of None \<Rightarrow> Ok (None, None)
      | Some r \<Rightarrow>
          let_try (slice_or_panic bytes r) (\<lambda>codestream.
          let_try (parse_codestream_headers codestream) (\<lambda>h.
          if width (image h) \<noteq> ax_width annex \<or> height (image h) \<noteq> ax_height annex
          then Err (InvalidSyntax ''separate alpha dimensions'')
          else let_try (parse_directory_tail codestream h) (\<lambda>d. Ok (Some h, Some d)))))"

definition parse_container :: "u8 list \<Rightarrow> (native_error, parsed_codestream) result" where
  "parse_container bytes =
     let_try (parse_annex_a bytes) (\<lambda>annex.
     let_try (slice_or_panic bytes (codestream_range annex)) (\<lambda>codestream.
     let_try (parse_codestream_headers codestream) (\<lambda>h.
     let_try (parse_directory_tail codestream h) (\<lambda>d.
     if width (image h) \<noteq> ax_width annex \<or> height (image h) \<noteq> ax_height annex
     then Err (ReservedValue ''Annex-A/codestream dimension mismatch'' 1)
     else
       let_try (parse_separate_alpha bytes annex) (\<lambda>(alpha_headers, alpha_directory).
       let parsed = \<lparr>primary_range = codestream_range annex, cs_headers = h, directory = d,
         separate_alpha_headers = alpha_headers, separate_alpha_directory = alpha_directory,
         annex_a = Some annex\<rparr>
       in let_try (validate_annex_a_pixel_format parsed) (\<lambda>_. Ok parsed))))))"

definition parse_codestream :: "u8 list \<Rightarrow> (native_error, parsed_codestream) result" where
  "parse_codestream bytes =
     (if starts_with bytes RAW_SIGNATURE then
        let_try (parse_codestream_headers bytes) (\<lambda>h.
        let_try (parse_directory_tail bytes h) (\<lambda>d.
        Ok \<lparr>primary_range = (0, length bytes), cs_headers = h, directory = d,
          separate_alpha_headers = None, separate_alpha_directory = None, annex_a = None\<rparr>))
      else parse_container bytes)"

section \<open>What a parse establishes\<close>

definition codestream_at :: "u8 list \<Rightarrow> byte_range \<Rightarrow> parsed_headers \<Rightarrow> codestream_directory \<Rightarrow> bool" where
  "codestream_at bytes r h d \<longleftrightarrow> in_input bytes r \<and> headers_ok (snd r - fst r) h \<and>
     directory_ok (snd r - fst r) h d"

definition format_consistent :: "parsed_codestream \<Rightarrow> bool" where
  "format_consistent p \<longleftrightarrow> (\<forall>annex\<in>set_option (annex_a p). \<forall>f.
     classify_annex_a_pixel_format (pixel_format_guid annex) = Known f \<longrightarrow>
       output_color_format (image (cs_headers p)) = output_color_code (family f) \<and>
       bit_depth_matches (bit_depth f) (output_bit_depth (image (cs_headers p))) \<and>
       components (primary (cs_headers p)) + of_bool (ds_alpha f) = channels f \<and>
       (ds_alpha f \<longleftrightarrow> alpha (cs_headers p) \<noteq> None \<or> separate_alpha_headers p \<noteq> None))"

definition codestream_ok :: "u8 list \<Rightarrow> parsed_codestream \<Rightarrow> bool" where
  "codestream_ok bytes p \<longleftrightarrow>
     codestream_at bytes (primary_range p) (cs_headers p) (directory p) \<and>
     (case annex_a p of
        None \<Rightarrow> primary_range p = (0, length bytes) \<and> separate_alpha_headers p = None \<and>
          separate_alpha_directory p = None
      | Some annex \<Rightarrow> annex_image_ok bytes annex \<and> primary_range p = codestream_range annex \<and>
          width (image (cs_headers p)) = ax_width annex \<and>
          height (image (cs_headers p)) = ax_height annex \<and>
          (case alpha_range annex of
             None \<Rightarrow> separate_alpha_headers p = None \<and> separate_alpha_directory p = None
           | Some r \<Rightarrow> (\<exists>h d. separate_alpha_headers p = Some h \<and> separate_alpha_directory p = Some d \<and>
               codestream_at bytes r h d \<and> width (image h) = ax_width annex \<and>
               height (image h) = ax_height annex))) \<and>
     format_consistent p"

definition readable :: "u8 list \<Rightarrow> bool" where
  "readable bytes \<longleftrightarrow> 8 * length bytes + 64 \<le> usize_max"

lemma readable_addressable: "readable bytes \<Longrightarrow> addressable bytes"
  by (simp add: readable_def addressable_def)

lemma known_format_yields:
  assumes "descriptor_ok f"
  shows "yields (validate_known_format f p) (\<lambda>_.
    output_color_format (image (cs_headers p)) = output_color_code (family f) \<and>
    bit_depth_matches (bit_depth f) (output_bit_depth (image (cs_headers p))) \<and>
    components (primary (cs_headers p)) + of_bool (ds_alpha f) = channels f \<and>
    (ds_alpha f \<longleftrightarrow> alpha (cs_headers p) \<noteq> None \<or> separate_alpha_headers p \<noteq> None))"
proof -
  have "of_bool (ds_alpha f) \<le> channels f"
    using assms by (cases "ds_alpha f"; cases "channels f")
      (auto simp: descriptor_ok_def family_channels_def split: annex_family.splits)
  then show ?thesis
    by (auto simp: validate_known_format_def Let_def split: option.split)
qed

lemma validate_format_yields:
  "length (pixel_format_guid annex) = 16 \<Longrightarrow> annex_a p = Some annex \<Longrightarrow>
    yields (validate_annex_a_pixel_format p) (\<lambda>_. format_consistent p)"
proof -
  assume annex: "length (pixel_format_guid annex) = 16" "annex_a p = Some annex"
  show ?thesis
  proof (cases "classify_annex_a_pixel_format (pixel_format_guid annex)")
    case (Known f)
    then have "descriptor_ok f" using known_descriptor_ok annex(1) by blast
    from known_format_yields [OF this, of p] show ?thesis
      using annex Known by (simp add: validate_annex_a_pixel_format_def format_consistent_def)
  next
    case (UnknownFormat g)
    then show ?thesis using annex by (simp add: validate_annex_a_pixel_format_def format_consistent_def)
  qed
qed

text \<open>One codestream of the input: its slice is parsed by the header and the directory parser.\<close>

lemma slice_yields: "in_input bytes r \<Longrightarrow> yields (slice_or_panic bytes r)
    (\<lambda>bs. bs = slice bytes r \<and> length bs = snd r - fst r)"
  by (cases r) (simp add: in_input_def)

lemma slice_readable: "readable bytes \<Longrightarrow> in_input bytes r \<Longrightarrow> length bs = snd r - fst r \<Longrightarrow>
    8 * length bs + 64 \<le> usize_max"
  unfolding readable_def in_input_def by linarith

lemma separate_alpha_yields:
  assumes "readable bytes" "annex_image_ok bytes annex"
  shows "yields (parse_separate_alpha bytes annex) (\<lambda>(hs, ds). case alpha_range annex of
      None \<Rightarrow> hs = None \<and> ds = None
    | Some r \<Rightarrow> (\<exists>h d. hs = Some h \<and> ds = Some d \<and> codestream_at bytes r h d \<and>
        width (image h) = ax_width annex \<and> height (image h) = ax_height annex))"
proof (cases "alpha_range annex")
  case None
  then show ?thesis by (simp add: parse_separate_alpha_def)
next
  case (Some r)
  then have r: "in_input bytes r" using assms(2) by (simp add: annex_image_ok_def)
  show ?thesis
    unfolding parse_separate_alpha_def Some option.case
  proof (rule yields_bind [OF slice_yields [OF r]])
    fix bs assume bs: "bs = slice bytes r \<and> length bs = snd r - fst r"
    then have "8 * length bs + 64 \<le> usize_max" using slice_readable [OF assms(1) r] by blast
    then show "yields (let_try (parse_codestream_headers bs) (\<lambda>h.
        if width (image h) \<noteq> ax_width annex \<or> height (image h) \<noteq> ax_height annex
        then Err (InvalidSyntax ''separate alpha dimensions'')
        else let_try (parse_directory_tail bs h) (\<lambda>d. Ok (Some h, Some d))))
      (\<lambda>(hs, ds). \<exists>h d. hs = Some h \<and> ds = Some d \<and> codestream_at bytes r h d \<and>
        width (image h) = ax_width annex \<and> height (image h) = ax_height annex)"
      using r bs by (intro yields_bind [OF headers_yield] yields_if yields_bind [OF directory_yields])
        (auto simp: codestream_at_def)
  qed
qed

lemma parse_container_yields:
  assumes "readable bytes"
  shows "yields (parse_container bytes) (codestream_ok bytes)"
  unfolding parse_container_def
proof (rule yields_bind [OF container_yields [OF readable_addressable [OF assms]]])
  fix annex assume annex: "annex_image_ok bytes annex"
  let ?r = "codestream_range annex"
  have r: "in_input bytes ?r" and guid: "length (pixel_format_guid annex) = 16"
    using annex by (simp_all add: annex_image_ok_def)
  have fits: "8 * length bs + 64 \<le> usize_max" if "bs = slice bytes ?r \<and> length bs = snd ?r - fst ?r" for bs
    using that slice_readable [OF assms r] by blast
  show "yields (let_try (slice_or_panic bytes ?r) (\<lambda>codestream.
     let_try (parse_codestream_headers codestream) (\<lambda>h. let_try (parse_directory_tail codestream h) (\<lambda>d.
     if width (image h) \<noteq> ax_width annex \<or> height (image h) \<noteq> ax_height annex
     then Err (ReservedValue ''Annex-A/codestream dimension mismatch'' 1)
     else let_try (parse_separate_alpha bytes annex) (\<lambda>(hs, ds).
       let parsed = \<lparr>primary_range = ?r, cs_headers = h, directory = d, separate_alpha_headers = hs,
         separate_alpha_directory = ds, annex_a = Some annex\<rparr>
       in let_try (validate_annex_a_pixel_format parsed) (\<lambda>_. Ok parsed)))))) (codestream_ok bytes)"
    unfolding Let_def
    by (intro yields_bind [OF slice_yields [OF r]] yields_bind [OF headers_yield [OF fits]]
        yields_bind [OF directory_yields] yields_if yields_bind [OF separate_alpha_yields [OF assms annex]])
      (auto intro!: yields_bind [OF validate_format_yields [OF guid]]
        simp: codestream_ok_def codestream_at_def annex r split: option.splits)
qed

lemma parse_codestream_yields:
  assumes "readable bytes"
  shows "yields (parse_codestream bytes) (codestream_ok bytes)"
  unfolding parse_codestream_def
proof (rule yields_if)
  have fits: "8 * length bytes + 64 \<le> usize_max" using assms by (simp add: readable_def)
  show "yields (let_try (parse_codestream_headers bytes) (\<lambda>h. let_try (parse_directory_tail bytes h) (\<lambda>d.
        Ok \<lparr>primary_range = (0, length bytes), cs_headers = h, directory = d,
          separate_alpha_headers = None, separate_alpha_directory = None, annex_a = None\<rparr>)))
      (codestream_ok bytes)"
    by (intro yields_bind [OF headers_yield [OF fits]] yields_bind [OF directory_yields])
      (simp_all add: codestream_ok_def codestream_at_def in_input_def format_consistent_def)
qed (rule parse_container_yields [OF assms])

section \<open>Properties\<close>

text \<open>
  C10: parsing a file, raw codestream or Annex-A container, terminates without a panic on every input.
  What it returns is consistent: each codestream is a range of the input that holds its headers and
  its tile directory, the dimensions agree with the container's, a separate alpha codestream is parsed
  exactly when the container names one, and a known pixel format agrees with the codestream's colour
  format, bit depth, component count and alpha plane.
\<close>

theorem parse_codestream_total:
  assumes "readable bytes"
  shows "case parse_codestream bytes of Panic \<Rightarrow> False | Err e \<Rightarrow> True | Ok p \<Rightarrow> codestream_ok bytes p"
  using parse_codestream_yields [OF assms] by (simp add: yields_def)

lemma parse_codestream_total_witness:
  "case parse_codestream (sample_bytes @ [0, 0]) of Panic \<Rightarrow> False | Err e \<Rightarrow> True
    | Ok p \<Rightarrow> codestream_ok (sample_bytes @ [0, 0]) p"
  by (rule parse_codestream_total) (simp add: readable_def sample_bytes_def)

end
