(* ===== verification/Annex_Writer.thy ===== *)
theory Annex_Writer
  imports Codestream
begin

text \<open>
  The Annex-A writer (\<open>crates/jxr-native/src/annex_a/writer.rs\<close>): validation of the payloads, the
  layout of the container, its directory and payloads, and the final parse of what was written. A
  resolution (\<open>f32\<close>) is its IEEE bit pattern. The writes into the output buffer are \<open>copy_at\<close>, which
  panics where \<open>copy_from_slice\<close> would.
\<close>

section \<open>Options\<close>

record write_options =
  wo_width :: nat
  wo_height :: nat
  wo_guid :: "u8 list"
  wo_orientation :: orientation
  horizontal_dpi :: nat
  vertical_dpi :: nat
  icc_profile :: "u8 list option"
  separate_alpha :: "u8 list option"

text \<open>\<open>96.0f32\<close> is \<open>0x42C00000\<close>.\<close>

definition write_options_new :: "nat \<Rightarrow> nat \<Rightarrow> u8 list \<Rightarrow> write_options" where
  "write_options_new w h guid = \<lparr>wo_width = w, wo_height = h, wo_guid = guid,
     wo_orientation = Identity, horizontal_dpi = 0x42C00000, vertical_dpi = 0x42C00000,
     icc_profile = None, separate_alpha = None\<rparr>"

definition with_orientation :: "orientation \<Rightarrow> write_options \<Rightarrow> write_options" where
  "with_orientation orient o' = o'\<lparr>wo_orientation := orient\<rparr>"

definition with_resolution_dpi :: "nat \<Rightarrow> nat \<Rightarrow> write_options \<Rightarrow> write_options" where
  "with_resolution_dpi horizontal vertical o' =
     o'\<lparr>horizontal_dpi := horizontal, vertical_dpi := vertical\<rparr>"

definition with_icc_profile :: "u8 list \<Rightarrow> write_options \<Rightarrow> write_options" where
  "with_icc_profile icc o' = o'\<lparr>icc_profile := Some icc\<rparr>"

definition with_separate_alpha :: "u8 list \<Rightarrow> write_options \<Rightarrow> write_options" where
  "with_separate_alpha codestream o' = o'\<lparr>separate_alpha := Some codestream\<rparr>"

fun orientation_code :: "orientation \<Rightarrow> nat" where
  "orientation_code Identity = 0"
| "orientation_code MirrorVertical = 1"
| "orientation_code MirrorHorizontal = 2"
| "orientation_code Rotate180 = 3"
| "orientation_code Rotate90 = 4"
| "orientation_code Transverse = 5"
| "orientation_code Transpose = 6"
| "orientation_code Rotate270 = 7"

text \<open>\<open>is_finite()\<close> and \<open>x <= 0.0\<close> on bit patterns.\<close>

definition f32_is_finite :: "nat \<Rightarrow> bool" where
  "f32_is_finite b = (b div 2 ^ 23 mod 2 ^ 8 \<noteq> 255)"

definition f32_is_nan :: "nat \<Rightarrow> bool" where
  "f32_is_nan b = (b div 2 ^ 23 mod 2 ^ 8 = 255 \<and> b mod 2 ^ 23 \<noteq> 0)"

definition f32_not_positive :: "nat \<Rightarrow> bool" where
  "f32_not_positive b = (\<not> f32_is_nan b \<and> (2 ^ 31 \<le> b \<or> b = 0))"

section \<open>Validation\<close>

definition validate_raw_codestream ::
  "u8 list \<Rightarrow> nat \<Rightarrow> nat \<Rightarrow> bool \<Rightarrow> (native_error, unit) result" where
  "validate_raw_codestream bytes w h is_alpha =
     (if \<not> starts_with bytes RAW_SIGNATURE
      then Err (InvalidSyntax ''Annex-A writer requires a raw codestream'')
      else let_try (parse_codestream bytes) (\<lambda>parsed.
        if width (image (cs_headers parsed)) \<noteq> w \<or> height (image (cs_headers parsed)) \<noteq> h
        then Err (InvalidSyntax (if is_alpha then ''Annex-A separate alpha dimensions''
          else ''Annex-A/codestream dimension mismatch''))
        else Ok ()))"

definition validate_options :: "u8 list \<Rightarrow> write_options \<Rightarrow> (native_error, unit) result" where
  "validate_options payload o' =
     let_try (validate_raw_codestream payload (wo_width o') (wo_height o') False) (\<lambda>_.
     if \<not> f32_is_finite (horizontal_dpi o') \<or> f32_not_positive (horizontal_dpi o') \<or>
        \<not> f32_is_finite (vertical_dpi o') \<or> f32_not_positive (vertical_dpi o')
     then Err (InvalidSyntax ''Annex-A display resolution'')
     else if icc_profile o' = Some []
     then Err (InvalidSyntax ''empty Annex-A ICC profile'')
     else case separate_alpha o' of
         Some codestream \<Rightarrow> validate_raw_codestream codestream (wo_width o') (wo_height o') True
       | None \<Rightarrow> Ok ())"

section \<open>Layout\<close>

definition overflow_add :: "string \<Rightarrow> nat \<Rightarrow> nat \<Rightarrow> (native_error, nat) result" where
  "overflow_add operation a b = (if usize_max < a + b then Err (IntegerOverflow operation) else Ok (a + b))"

definition align_four :: "nat \<Rightarrow> (native_error, nat) result" where
  "align_four v = let_try (overflow_add ''aligning Annex-A payload'' v 3) (\<lambda>v. Ok (v - v mod 4))"

definition checked_advance :: "nat \<Rightarrow> nat \<Rightarrow> (native_error, nat) result" where
  "checked_advance offset len = overflow_add ''sizing Annex-A output'' offset len"

definition checked_u32 :: "nat \<Rightarrow> string \<Rightarrow> (native_error, nat) result" where
  "checked_u32 v operation = (if v < 2 ^ 32 then Ok v else Err (IntegerOverflow operation))"

record container_layout =
  entry_count :: nat
  pixel_format_offset :: nat
  icc_offset :: "nat option"
  primary_offset :: nat
  alpha_offset :: "nat option"
  output_len :: nat

text \<open>An optional payload: where it starts, aligned, and where the cursor is behind it.\<close>

definition place_optional ::
  "u8 list option \<Rightarrow> nat \<Rightarrow> (native_error, nat option \<times> nat) result" where
  "place_optional payload cursor =
     (case payload of None \<Rightarrow> Ok (None, cursor)
      | Some bytes \<Rightarrow>
          let_try (align_four cursor) (\<lambda>offset.
          let_try (checked_advance offset (length bytes)) (\<lambda>cursor. Ok (Some offset, cursor))))"

definition check_optional_u32 :: "u8 list option \<Rightarrow> string \<Rightarrow> (native_error, unit) result" where
  "check_optional_u32 payload operation =
     (case payload of None \<Rightarrow> Ok ()
      | Some bytes \<Rightarrow> let_try (checked_u32 (length bytes) operation) (\<lambda>_. Ok ()))"

definition container_layout_new :: "u8 list \<Rightarrow> write_options \<Rightarrow> (native_error, container_layout) result" where
  "container_layout_new payload o' =
     (let n = 8 + of_bool (icc_profile o' \<noteq> None) + 2 * of_bool (separate_alpha o' \<noteq> None) in
      if usize_max < n * 12 then Err (IntegerOverflow ''sizing Annex-A directory'')
      else
        let_try (overflow_add ''sizing Annex-A directory'' 2 (n * 12)) (\<lambda>v.
        let_try (overflow_add ''sizing Annex-A directory'' v 4) (\<lambda>directory_size.
        let_try (overflow_add ''locating Annex-A payloads'' 8 directory_size) (\<lambda>v.
        let_try (align_four v) (\<lambda>guid_offset.
        let_try (checked_advance guid_offset (length (wo_guid o'))) (\<lambda>cursor.
        let_try (place_optional (icc_profile o') cursor) (\<lambda>(icc, cursor).
        let_try (align_four cursor) (\<lambda>offset.
        let_try (checked_advance offset (length payload)) (\<lambda>cursor.
        let_try (place_optional (separate_alpha o') cursor) (\<lambda>(alpha_at, cursor).
        let_try (checked_u32 (length payload) ''representing primary codestream length'') (\<lambda>_.
        let_try (check_optional_u32 (icc_profile o') ''representing ICC profile length'') (\<lambda>_.
        let_try (check_optional_u32 (separate_alpha o') ''representing alpha codestream length'') (\<lambda>_.
        let_try (checked_u32 cursor ''representing Annex-A file length'') (\<lambda>_.
        Ok \<lparr>entry_count = n, pixel_format_offset = guid_offset, icc_offset = icc,
          primary_offset = offset, alpha_offset = alpha_at, output_len = cursor\<rparr>))))))))))))))"

section \<open>Writing\<close>

definition le_bytes :: "nat \<Rightarrow> nat \<Rightarrow> u8 list" where
  "le_bytes n v = map (\<lambda>i. of_nat (v div 256 ^ i)) [0..<n]"

definition overwrite :: "nat \<Rightarrow> u8 list \<Rightarrow> u8 list \<Rightarrow> u8 list" where
  "overwrite offset bytes out = take offset out @ bytes @ drop (offset + length bytes) out"

definition copy_at :: "nat \<Rightarrow> u8 list \<Rightarrow> u8 list \<Rightarrow> (native_error, u8 list) result" where
  "copy_at offset bytes out =
     (if length out < offset + length bytes then Panic else Ok (overwrite offset bytes out))"

text \<open>\<open>DirectoryEntries\<close>: the output and the offset of the next entry.\<close>

definition push_entry :: "directory_entry \<Rightarrow> u8 list \<times> nat \<Rightarrow> (native_error, u8 list \<times> nat) result" where
  "push_entry e = (\<lambda>(out, offset).
     let_try (copy_at offset (le_bytes 2 (de_tag e)) out) (\<lambda>out.
     let_try (copy_at (offset + 2) (le_bytes 2 (element_type e)) out) (\<lambda>out.
     let_try (copy_at (offset + 4) (le_bytes 4 (de_count e)) out) (\<lambda>out.
     let_try (copy_at (offset + 8) (le_bytes 4 (de_value e)) out) (\<lambda>out.
     Ok (out, offset + 12))))))"

definition TYPE_BYTE :: nat where "TYPE_BYTE = 1"
definition TYPE_LONG :: nat where "TYPE_LONG = 4"
definition TYPE_UNDEFINED :: nat where "TYPE_UNDEFINED = 7"
definition TYPE_FLOAT :: nat where "TYPE_FLOAT = 11"

text \<open>\<open>entries.push(tag, type, count, value)\<close> with the conversions of its arguments.\<close>

definition push_field :: "nat \<Rightarrow> nat \<Rightarrow> (native_error, nat) result \<Rightarrow> (native_error, nat) result \<Rightarrow>
    u8 list \<times> nat \<Rightarrow> (native_error, u8 list \<times> nat) result" where
  "push_field tag ty n v state =
     let_try n (\<lambda>n. let_try v (\<lambda>v.
       push_entry \<lparr>de_tag = tag, element_type = ty, de_count = n, de_value = v\<rparr> state))"

definition write_directory ::
  "u8 list \<Rightarrow> u8 list \<Rightarrow> write_options \<Rightarrow> container_layout \<Rightarrow> (native_error, u8 list) result" where
  "write_directory out payload o' layout =
     let_try (copy_at 0 [0x49, 0x49, 0xBC, 1] out) (\<lambda>out.
     let_try (copy_at 4 (le_bytes 4 8) out) (\<lambda>out.
     if 2 ^ 16 \<le> entry_count layout
     then Err (IntegerOverflow ''representing Annex-A directory count'')
     else
       let_try (copy_at 8 (le_bytes 2 (entry_count layout)) out) (\<lambda>out.
       let_try (case (icc_profile o', icc_offset layout) of
           (Some icc, Some offset) \<Rightarrow> push_field TAG_ICC_PROFILE TYPE_UNDEFINED
             (checked_u32 (length icc) ''representing ICC profile length'')
             (checked_u32 offset ''representing ICC profile offset'') (out, 10)
         | _ \<Rightarrow> Ok (out, 10)) (\<lambda>state.
       let_try (push_field TAG_PIXEL_FORMAT TYPE_BYTE (Ok 16)
           (checked_u32 (pixel_format_offset layout) ''representing pixel format offset'') state) (\<lambda>state.
       let_try (push_field TAG_TRANSFORMATION TYPE_LONG (Ok 1)
           (Ok (orientation_code (wo_orientation o'))) state) (\<lambda>state.
       let_try (push_field TAG_IMAGE_WIDTH TYPE_LONG (Ok 1) (Ok (wo_width o')) state) (\<lambda>state.
       let_try (push_field TAG_IMAGE_HEIGHT TYPE_LONG (Ok 1) (Ok (wo_height o')) state) (\<lambda>state.
       let_try (push_field TAG_HORIZONTAL_RESOLUTION TYPE_FLOAT (Ok 1) (Ok (horizontal_dpi o')) state)
         (\<lambda>state.
       let_try (push_field TAG_VERTICAL_RESOLUTION TYPE_FLOAT (Ok 1) (Ok (vertical_dpi o')) state)
         (\<lambda>state.
       let_try (push_field TAG_IMAGE_OFFSET TYPE_LONG (Ok 1)
           (checked_u32 (primary_offset layout) ''representing primary codestream offset'') state)
         (\<lambda>state.
       let_try (push_field TAG_IMAGE_BYTE_COUNT TYPE_LONG (Ok 1)
           (checked_u32 (length payload) ''representing primary codestream length'') state) (\<lambda>state.
       let_try (case (separate_alpha o', alpha_offset layout) of
           (Some codestream, Some offset) \<Rightarrow>
             let_try (push_field TAG_ALPHA_OFFSET TYPE_LONG (Ok 1)
               (checked_u32 offset ''representing alpha codestream offset'') state) (\<lambda>state.
             push_field TAG_ALPHA_BYTE_COUNT TYPE_LONG (Ok 1)
               (checked_u32 (length codestream) ''representing alpha codestream length'') state)
         | _ \<Rightarrow> Ok state) (\<lambda>(out, _). Ok out)))))))))))))"

definition copy_optional ::
  "u8 list option \<Rightarrow> nat option \<Rightarrow> u8 list \<Rightarrow> (native_error, u8 list) result" where
  "copy_optional payload offset out =
     (case (payload, offset) of (Some bytes, Some a) \<Rightarrow> copy_at a bytes out | _ \<Rightarrow> Ok out)"

definition write_payloads ::
  "u8 list \<Rightarrow> u8 list \<Rightarrow> write_options \<Rightarrow> container_layout \<Rightarrow> (native_error, u8 list) result" where
  "write_payloads out payload o' layout =
     let_try (copy_at (pixel_format_offset layout) (wo_guid o') out) (\<lambda>out.
     let_try (copy_optional (icc_profile o') (icc_offset layout) out) (\<lambda>out.
     let_try (copy_at (primary_offset layout) payload out) (\<lambda>out.
     copy_optional (separate_alpha o') (alpha_offset layout) out)))"

definition write_annex_a :: "u8 list \<Rightarrow> write_options \<Rightarrow> (native_error, u8 list) result" where
  "write_annex_a payload o' =
     let_try (validate_options payload o') (\<lambda>_.
     let_try (container_layout_new payload o') (\<lambda>layout.
     let_try (write_directory (replicate (output_len layout) 0) payload o' layout) (\<lambda>out.
     let_try (write_payloads out payload o' layout) (\<lambda>out.
     let_try (parse_codestream out) (\<lambda>_. Ok out)))))"

section \<open>Slices of a written buffer\<close>

lemma length_overwrite [simp]:
  "offset + length bytes \<le> length out \<Longrightarrow> length (overwrite offset bytes out) = length out"
  by (simp add: overwrite_def)

lemma copy_at_Ok [simp]:
  "offset + length bytes \<le> length out \<Longrightarrow> copy_at offset bytes out = Ok (overwrite offset bytes out)"
  by (simp add: copy_at_def)

lemma slice_overwrite [simp]:
  "offset + length bytes \<le> length out \<Longrightarrow>
    slice (overwrite offset bytes out) (offset, offset + length bytes) = bytes"
  by (simp add: slice_def overwrite_def)

lemma take_overwrite: "n \<le> offset \<Longrightarrow> offset \<le> length out \<Longrightarrow> take n (overwrite offset bytes out) = take n out"
  by (simp add: overwrite_def min_def)

lemma slice_of_take: "b \<le> n \<Longrightarrow> slice (take n bytes) (a, b) = slice bytes (a, b)"
  by (simp add: slice_def drop_take min_def)

lemma slice_before:
  "b \<le> offset \<Longrightarrow> offset \<le> length out \<Longrightarrow> slice (overwrite offset bytes out) (a, b) = slice out (a, b)"
  using slice_of_take [of b offset "overwrite offset bytes out" a] slice_of_take [of b offset out a]
  by (simp add: take_overwrite)

lemma overwrite_gap: "length front = offset \<Longrightarrow> length gap = length bytes \<Longrightarrow>
    overwrite offset bytes (front @ gap @ rest) = front @ bytes @ rest"
  by (simp add: overwrite_def)

lemma length_le_bytes [simp]: "length (le_bytes n v) = n"
  by (simp add: le_bytes_def)

lemma le_val_append: "le_val (xs @ ys) = le_val xs + 256 ^ length xs * le_val ys"
  by (induction xs) (simp_all add: algebra_simps)

lemma le_val_le_bytes: "le_val (le_bytes n v) = v mod 256 ^ n"
proof (induction n)
  case (Suc n)
  have "le_bytes (Suc n) v = le_bytes n v @ [of_nat (v div 256 ^ n)]" by (simp add: le_bytes_def)
  moreover have "v mod 256 ^ Suc n = 256 ^ n * (v div 256 ^ n mod 256) + v mod 256 ^ n"
    by (metis mod_mult2_eq mult.commute power_Suc)
  ultimately show ?case using Suc by (simp add: le_val_append unat_of_nat)
qed (simp add: le_bytes_def)

section \<open>The directory that is written\<close>

definition encode_entry :: "directory_entry \<Rightarrow> u8 list" where
  "encode_entry e = le_bytes 2 (de_tag e) @ le_bytes 2 (element_type e) @ le_bytes 4 (de_count e) @
     le_bytes 4 (de_value e)"

lemma length_encode_entry [simp]: "length (encode_entry e) = 12"
  by (simp add: encode_entry_def)

lemma length_encoded [simp]: "length (concat (map encode_entry es)) = 12 * length es"
  by (induction es) simp_all

lemma push_entry_gap:
  assumes "length front = offset" "length gap = 12"
  shows "push_entry e (front @ gap @ rest, offset) = Ok (front @ encode_entry e @ rest, offset + 12)"
proof -
  define a b c d where "a = take 2 gap" and "b = take 2 (drop 2 gap)"
    and "c = take 4 (drop 4 gap)" and "d = drop 8 gap"
  have gap: "gap = a @ b @ c @ d" "length a = 2" "length b = 2" "length c = 4" "length d = 4"
    using assms(2) unfolding a_def b_def c_def d_def
    by (simp_all, metis add_2_eq_Suc' append_take_drop_id drop_drop numeral_Bit0 one_plus_numeral semiring_norm(2))
  have "overwrite offset (le_bytes 2 t) (front @ a @ b @ c @ d @ rest) = front @ le_bytes 2 t @ b @ c @ d @ rest"
    for t using assms(1) gap(2) by (simp add: overwrite_gap)
  moreover have "overwrite (offset + 2) (le_bytes 2 u) (front @ le_bytes 2 t @ b @ c @ d @ rest) =
      front @ le_bytes 2 t @ le_bytes 2 u @ c @ d @ rest" for t u
    using overwrite_gap [of "front @ le_bytes 2 t" "offset + 2" b "le_bytes 2 u" "c @ d @ rest"] assms(1) gap(3)
    by simp
  moreover have "overwrite (offset + 4) (le_bytes 4 n) (front @ le_bytes 2 t @ le_bytes 2 u @ c @ d @ rest) =
      front @ le_bytes 2 t @ le_bytes 2 u @ le_bytes 4 n @ d @ rest" for t u n
    using overwrite_gap [of "front @ le_bytes 2 t @ le_bytes 2 u" "offset + 4" c "le_bytes 4 n" "d @ rest"]
      assms(1) gap(4) by simp
  moreover have "overwrite (offset + 8) (le_bytes 4 v) (front @ le_bytes 2 t @ le_bytes 2 u @ le_bytes 4 n @ d @ rest) =
      front @ le_bytes 2 t @ le_bytes 2 u @ le_bytes 4 n @ le_bytes 4 v @ rest" for t u n v
    using overwrite_gap [of "front @ le_bytes 2 t @ le_bytes 2 u @ le_bytes 4 n" "offset + 8" d "le_bytes 4 v" rest]
      assms(1) gap(5) by simp
  ultimately show ?thesis
    using assms(1) gap by (simp add: push_entry_def encode_entry_def add.assoc)
qed

lemma push_all:
  assumes "length front = offset" "length gap = 12 * length es"
  shows "each_try push_entry es (front @ gap @ rest, offset) =
    Ok (front @ concat (map encode_entry es) @ rest, offset + 12 * length es)"
  using assms
proof (induction es arbitrary: front offset gap)
  case (Cons e es)
  have "push_entry e (front @ take 12 gap @ drop 12 gap @ rest, offset) =
      Ok (front @ encode_entry e @ drop 12 gap @ rest, offset + 12)"
    using Cons.prems by (intro push_entry_gap) simp_all
  then show ?case
    using Cons.IH [of "front @ encode_entry e" "offset + 12" "drop 12 gap"] Cons.prems
    by (simp flip: append.assoc [of "take 12 gap"])
qed simp

lemma slice_middle: "length front = k \<Longrightarrow> b \<le> length mid \<Longrightarrow>
    slice (front @ mid @ rest) (k + a, k + b) = slice mid (a, b)"
  by (cases "a \<le> b") (auto simp: slice_def)

lemma encoded_fields:
  assumes "entry_ok e" "length front = k"
  shows "entry_at (front @ encode_entry e @ rest) k = e"
proof -
  have "slice (front @ encode_entry e @ rest) (k + a, k + b) = slice (encode_entry e) (a, b)" if "b \<le> 12" for a b
    using that by (intro slice_middle assms(2)) simp
  from this [of 2 0] this [of 4 2] this [of 8 4] this [of 12 8]
  show ?thesis
    using assms(1) by (simp add: entry_at_def field_at_def entry_ok_def)
      (simp add: encode_entry_def slice_def le_val_le_bytes)
qed

lemma written_table:
  assumes "\<forall>e\<in>set es. entry_ok e" "length front = start"
  shows "table_entries (front @ concat (map encode_entry es) @ rest) start (length es) = es"
proof (rule nth_equalityI)
  show "length (table_entries (front @ concat (map encode_entry es) @ rest) start (length es)) = length es"
    by (simp add: table_entries_def)
next
  fix i
  assume "i < length (table_entries (front @ concat (map encode_entry es) @ rest) start (length es))"
  then have i: "i < length es" by (simp add: table_entries_def)
  let ?before = "front @ concat (map encode_entry (take i es))"
  let ?behind = "concat (map encode_entry (drop (Suc i) es)) @ rest"
  have "concat (map encode_entry es) = concat (map encode_entry (take i es @ es ! i # drop (Suc i) es))"
    using i by (simp add: id_take_nth_drop [symmetric])
  then have "front @ concat (map encode_entry es) @ rest = ?before @ encode_entry (es ! i) @ ?behind"
    by simp
  moreover have "entry_at (?before @ encode_entry (es ! i) @ ?behind) (start + i * 12) = es ! i"
    by (rule encoded_fields) (use assms i in simp_all)
  ultimately show "table_entries (front @ concat (map encode_entry es) @ rest) start (length es) ! i = es ! i"
    using i by (simp add: table_entries_def)
qed

section \<open>The layout\<close>

definition layout_ok :: "u8 list \<Rightarrow> write_options \<Rightarrow> container_layout \<Rightarrow> bool" where
  "layout_ok payload o' l \<longleftrightarrow>
     entry_count l = 8 + of_bool (icc_profile o' \<noteq> None) + 2 * of_bool (separate_alpha o' \<noteq> None) \<and>
     10 + 12 * entry_count l \<le> pixel_format_offset l \<and>
     pixel_format_offset l + length (wo_guid o') \<le> primary_offset l \<and>
     (case icc_profile o' of None \<Rightarrow> icc_offset l = None
      | Some icc \<Rightarrow> (\<exists>a. icc_offset l = Some a \<and> a + length icc \<le> primary_offset l \<and>
          pixel_format_offset l + length (wo_guid o') \<le> a \<and> length icc < 2 ^ 32)) \<and>
     primary_offset l + length payload \<le> output_len l \<and>
     (case separate_alpha o' of None \<Rightarrow> alpha_offset l = None
      | Some codestream \<Rightarrow> (\<exists>a. alpha_offset l = Some a \<and> primary_offset l + length payload \<le> a \<and>
          a + length codestream \<le> output_len l \<and> length codestream < 2 ^ 32)) \<and>
     output_len l < 2 ^ 32"

lemma overflow_add_Ok [outcome_simps]: "overflow_add operation a b = Ok c \<longleftrightarrow> a + b \<le> usize_max \<and> c = a + b"
  by (auto simp: overflow_add_def)

lemma overflow_add_yields: "yields (overflow_add operation a b) (\<lambda>c. c = a + b)"
  by (simp add: overflow_add_def)

lemma align_four_yields: "yields (align_four v) (\<lambda>w. v \<le> w)"
proof -
  have "(v + 3) mod 4 \<le> 3" by simp
  then have "v \<le> v + 3 - (v + 3) mod 4" by linarith
  then show ?thesis unfolding align_four_def by (intro yields_bind [OF overflow_add_yields]) simp
qed

lemma checked_u32_yields: "yields (checked_u32 v operation) (\<lambda>w. v < 2 ^ 32)"
  by (simp add: checked_u32_def)

lemma place_optional_yields: "yields (place_optional payload cursor) (\<lambda>(offset, cursor').
    cursor \<le> cursor' \<and> (case payload of None \<Rightarrow> offset = None
      | Some bytes \<Rightarrow> \<exists>a. offset = Some a \<and> cursor \<le> a \<and> a + length bytes = cursor'))"
  unfolding place_optional_def checked_advance_def
  by (auto split: option.split intro!: yields_bind [OF align_four_yields] yields_bind [OF overflow_add_yields])

lemma check_optional_yields: "yields (check_optional_u32 payload operation)
    (\<lambda>_. \<forall>bytes\<in>set_option payload. length bytes < 2 ^ 32)"
  unfolding check_optional_u32_def
  by (cases payload) (auto intro: yields_bind [OF checked_u32_yields])

lemma layout_yields: "yields (container_layout_new payload o') (layout_ok payload o')"
  unfolding container_layout_new_def Let_def checked_advance_def
  by (intro yields_if yields_simps(2) yields_bind [OF overflow_add_yields] yields_bind [OF align_four_yields]
      yields_bind2 [OF place_optional_yields] yields_bind [OF checked_u32_yields]
      yields_bind [OF check_optional_yields])
    (auto simp: layout_ok_def simp del: power_numeral split: option.splits)

lemma layout_no_panic: "container_layout_new payload o' \<noteq> Panic"
  using yieldsD(1) [OF layout_yields] .

lemma container_layout_ok: "container_layout_new payload o' = Ok l \<Longrightarrow> layout_ok payload o' l"
  using yieldsD(2) [OF layout_yields] .

lemma checked_u32_Ok [outcome_simps]: "checked_u32 v operation = Ok w \<longleftrightarrow> v < 2 ^ 32 \<and> w = v"
  by (auto simp: checked_u32_def)

section \<open>What is written\<close>

definition write_options_ok :: "write_options \<Rightarrow> bool" where
  "write_options_ok o' \<longleftrightarrow> wo_width o' < 2 ^ 32 \<and> wo_height o' < 2 ^ 32 \<and> length (wo_guid o') = 16 \<and>
     horizontal_dpi o' < 2 ^ 32 \<and> vertical_dpi o' < 2 ^ 32"

abbreviation entry :: "nat \<Rightarrow> nat \<Rightarrow> nat \<Rightarrow> nat \<Rightarrow> directory_entry" where
  "entry tag ty n v \<equiv> \<lparr>de_tag = tag, element_type = ty, de_count = n, de_value = v\<rparr>"

definition written_entries ::
  "u8 list \<Rightarrow> write_options \<Rightarrow> container_layout \<Rightarrow> directory_entry list" where
  "written_entries payload o' l =
     (case icc_profile o' of None \<Rightarrow> []
      | Some icc \<Rightarrow> [entry TAG_ICC_PROFILE 7 (length icc) (the (icc_offset l))]) @
     [entry TAG_PIXEL_FORMAT 1 16 (pixel_format_offset l),
      entry TAG_TRANSFORMATION 4 1 (orientation_code (wo_orientation o')),
      entry TAG_IMAGE_WIDTH 4 1 (wo_width o'),
      entry TAG_IMAGE_HEIGHT 4 1 (wo_height o'),
      entry TAG_HORIZONTAL_RESOLUTION 11 1 (horizontal_dpi o'),
      entry TAG_VERTICAL_RESOLUTION 11 1 (vertical_dpi o'),
      entry TAG_IMAGE_OFFSET 4 1 (primary_offset l),
      entry TAG_IMAGE_BYTE_COUNT 4 1 (length payload)] @
     (case separate_alpha o' of None \<Rightarrow> []
      | Some codestream \<Rightarrow> [entry TAG_ALPHA_OFFSET 4 1 (the (alpha_offset l)),
          entry TAG_ALPHA_BYTE_COUNT 4 1 (length codestream)])"

definition file_front :: "nat \<Rightarrow> u8 list" where
  "file_front n = [0x49, 0x49, 0xBC, 1] @ le_bytes 4 8 @ le_bytes 2 n"

lemma length_file_front [simp]: "length (file_front n) = 10"
  by (simp add: file_front_def)

lemma layout_facts:
  assumes "layout_ok payload o' l"
  shows "length (written_entries payload o' l) = entry_count l" "entry_count l \<le> 11"
    "pixel_format_offset l < 2 ^ 32" "primary_offset l < 2 ^ 32" "length payload < 2 ^ 32"
    "10 + 12 * entry_count l \<le> output_len l"
  using assms by (auto simp: layout_ok_def written_entries_def split: option.splits)

lemma orientation_code_less: "orientation_code r < 8"
  by (cases r) simp_all

lemma written_entries_ok:
  assumes "layout_ok payload o' l" "write_options_ok o'"
  shows "\<forall>e\<in>set (written_entries payload o' l). entry_ok e"
  using layout_facts [OF assms(1)] assms orientation_code_less [of "wo_orientation o'"]
  by (auto simp: written_entries_def entry_ok_def layout_ok_def write_options_ok_def split: option.splits)

lemma written_entries_sorted: "tags_sorted (written_entries payload o' l)"
  by (simp add: written_entries_def tags_sorted_def split: option.split)

lemma write_front:
  assumes "n < 2 ^ 16"
  shows "let_try (copy_at 0 [0x49, 0x49, 0xBC, 1] (replicate 10 0 @ rest)) (\<lambda>out.
    let_try (copy_at 4 (le_bytes 4 8) out) (\<lambda>out. let_try (copy_at 8 (le_bytes 2 n) out) f)) =
    f (file_front n @ rest)"
proof -
  have "overwrite 0 [0x49, 0x49, 0xBC, 1] (replicate 10 0 @ rest) = [0x49, 0x49, 0xBC, 1] @ replicate 6 0 @ rest"
    by (simp add: overwrite_def numeral_eq_Suc)
  moreover have "overwrite 4 (le_bytes 4 8) ([0x49, 0x49, 0xBC, 1] @ replicate 6 0 @ rest) =
      ([0x49, 0x49, 0xBC, 1] @ le_bytes 4 8) @ replicate 2 0 @ rest"
    using overwrite_gap [of "[0x49, 0x49, 0xBC, 1]" 4 "replicate 4 0" "le_bytes 4 8" "replicate 2 0 @ rest"]
    by (simp add: numeral_eq_Suc)
  moreover have "overwrite 8 (le_bytes 2 n) (([0x49, 0x49, 0xBC, 1] @ le_bytes 4 8) @ replicate 2 0 @ rest) =
      file_front n @ rest"
    unfolding file_front_def
    by (subst overwrite_gap) simp_all
  ultimately show ?thesis by simp
qed

lemma write_directory_entries:
  assumes "layout_ok payload o' l"
  shows "write_directory (replicate 10 0 @ rest) payload o' l =
    let_try (each_try push_entry (written_entries payload o' l) (file_front (entry_count l) @ rest, 10))
      (\<lambda>(out, _). Ok out)"
proof -
  note facts = layout_facts [OF assms]
  have small: "entry_count l < 2 ^ 16" using facts(2) by simp
  have icc: "icc_profile o' = Some icc \<Longrightarrow> \<exists>a. icc_offset l = Some a \<and> a < 2 ^ 32 \<and> length icc < 2 ^ 32" for icc
    using assms by (auto simp: layout_ok_def split: option.splits)
  have alpha: "separate_alpha o' = Some codestream \<Longrightarrow>
      \<exists>a. alpha_offset l = Some a \<and> a < 2 ^ 32 \<and> length codestream < 2 ^ 32" for codestream
    using assms by (auto simp: layout_ok_def split: option.splits)
  show ?thesis
    using small facts(3-5) icc alpha write_front [OF small, of rest]
    by (cases "icc_profile o'"; cases "separate_alpha o'")
      (fastforce simp: write_directory_def push_field_def written_entries_def let_try_assoc checked_u32_def
        TYPE_BYTE_def TYPE_LONG_def TYPE_UNDEFINED_def TYPE_FLOAT_def)+
qed

lemma written_directory:
  assumes "layout_ok payload o' l"
  shows "\<exists>rest. write_directory (replicate (output_len l) 0) payload o' l =
      Ok (file_front (entry_count l) @ concat (map encode_entry (written_entries payload o' l)) @ rest) \<and>
    10 + 12 * entry_count l + length rest = output_len l"
proof -
  note facts = layout_facts [OF assms]
  define gap where "gap = replicate (12 * entry_count l) (0 :: u8)"
  define rest where "rest = replicate (output_len l - (10 + 12 * entry_count l)) (0 :: u8)"
  have all: "replicate (output_len l) 0 = replicate 10 0 @ gap @ rest"
    using facts(6) by (simp add: gap_def rest_def flip: replicate_add)
  have "each_try push_entry (written_entries payload o' l) (file_front (entry_count l) @ gap @ rest, 10) =
      Ok (file_front (entry_count l) @ concat (map encode_entry (written_entries payload o' l)) @ rest,
        10 + 12 * length (written_entries payload o' l))"
    by (rule push_all) (simp_all add: gap_def facts(1))
  then have "write_directory (replicate (output_len l) 0) payload o' l =
      Ok (file_front (entry_count l) @ concat (map encode_entry (written_entries payload o' l)) @ rest)"
    unfolding all write_directory_entries [OF assms] by simp
  then show ?thesis using facts(6) by (intro exI [of _ rest]) (simp add: rest_def)
qed

definition holds :: "u8 list \<Rightarrow> u8 list option \<Rightarrow> nat option \<Rightarrow> bool" where
  "holds out payload offset \<longleftrightarrow> (case payload of None \<Rightarrow> True
     | Some bytes \<Rightarrow> (\<exists>a. offset = Some a \<and> a + length bytes \<le> length out \<and>
         slice out (a, a + length bytes) = bytes))"

lemma holds_overwrite:
  assumes "holds out payload offset" "k + length bytes \<le> length out"
    and "\<And>p a. payload = Some p \<Longrightarrow> offset = Some a \<Longrightarrow> a + length p \<le> k"
  shows "holds (overwrite k bytes out) payload offset"
  using assms slice_before [where offset = k and out = out and bytes = bytes]
  by (fastforce simp: holds_def split: option.splits)

lemma copy_optional_holds:
  assumes "\<And>p. payload = Some p \<Longrightarrow> \<exists>a. offset = Some a \<and> k \<le> a \<and> a + length p \<le> length out"
  shows "\<exists>out'. copy_optional payload offset out = Ok out' \<and> length out' = length out \<and>
    take k out' = take k out \<and> holds out' payload offset"
proof (cases payload)
  case (Some p)
  then obtain a where a: "offset = Some a" "k \<le> a" "a + length p \<le> length out" using assms by blast
  then show ?thesis using Some by (simp add: copy_optional_def holds_def take_overwrite)
qed (simp add: copy_optional_def holds_def)

lemma holds_take:
  assumes "holds out payload offset" "take k out' = take k out" "length out' = length out"
    and "\<And>p a. payload = Some p \<Longrightarrow> offset = Some a \<Longrightarrow> a + length p \<le> k"
  shows "holds out' payload offset"
proof (cases payload)
  case (Some p)
  then obtain a where a: "offset = Some a" "a + length p \<le> length out" "slice out (a, a + length p) = p"
    using assms(1) by (auto simp: holds_def)
  moreover have "a + length p \<le> k" using assms(4) Some a(1) by blast
  ultimately show ?thesis
    using Some assms(2,3) slice_of_take [of "a + length p" k out' a] slice_of_take [of "a + length p" k out a]
    by (simp add: holds_def)
qed (simp add: holds_def)

lemma take_le: "take k xs = take k ys \<Longrightarrow> j \<le> k \<Longrightarrow> take j xs = take j ys"
  by (metis min.absorb1 take_take)

text \<open>A payload and, behind it, an optional one.\<close>

lemma copy_pair:
  assumes "a + length bytes \<le> length out"
    and "\<And>p. payload = Some p \<Longrightarrow> \<exists>x. offset = Some x \<and> a + length bytes \<le> x \<and> x + length p \<le> length out"
  shows "\<exists>out'. let_try (copy_at a bytes out) (copy_optional payload offset) = Ok out' \<and>
    length out' = length out \<and> take a out' = take a out \<and> holds out' (Some bytes) (Some a) \<and>
    holds out' payload offset"
proof -
  define b where "b = overwrite a bytes out"
  have b: "copy_at a bytes out = Ok b" "length b = length out" "take a b = take a out"
    "holds b (Some bytes) (Some a)"
    using assms(1) by (simp_all add: b_def take_overwrite holds_def)
  obtain c where c: "copy_optional payload offset b = Ok c" "length c = length b"
    "take (a + length bytes) c = take (a + length bytes) b" "holds c payload offset"
    using copy_optional_holds [of payload offset "a + length bytes" b] assms(2) b(2) by auto
  have "holds c (Some bytes) (Some a)" by (rule holds_take [OF b(4) c(3,2)]) simp
  then show ?thesis using b c take_le [OF c(3), of a] by (intro exI [of _ c]) simp
qed

lemma written_payloads:
  assumes "layout_ok payload o' l" "length out = output_len l"
  shows "\<exists>out'. write_payloads out payload o' l = Ok out' \<and> length out' = output_len l \<and>
    take (pixel_format_offset l) out' = take (pixel_format_offset l) out \<and>
    holds out' (Some (wo_guid o')) (Some (pixel_format_offset l)) \<and>
    holds out' (icc_profile o') (icc_offset l) \<and>
    holds out' (Some payload) (Some (primary_offset l)) \<and>
    holds out' (separate_alpha o') (alpha_offset l)"
proof -
  let ?g = "pixel_format_offset l" and ?p = "primary_offset l" and ?n = "length (wo_guid o')"
  have order: "?g + ?n \<le> ?p" "?p + length payload \<le> output_len l"
    using assms(1) by (simp_all add: layout_ok_def)
  have icc: "\<exists>a. icc_offset l = Some a \<and> ?g + ?n \<le> a \<and> a + length icc \<le> ?p" if "icc_profile o' = Some icc" for icc
    using assms(1) that by (auto simp: layout_ok_def)
  have alpha: "\<exists>a. alpha_offset l = Some a \<and> ?p + length payload \<le> a \<and> a + length c \<le> output_len l"
    if "separate_alpha o' = Some c" for c
    using assms(1) that by (auto simp: layout_ok_def)
  obtain b where b: "let_try (copy_at ?g (wo_guid o') out) (copy_optional (icc_profile o') (icc_offset l)) = Ok b"
    "length b = length out" "take ?g b = take ?g out" "holds b (Some (wo_guid o')) (Some ?g)"
    "holds b (icc_profile o') (icc_offset l)"
    using copy_pair [of ?g "wo_guid o'" out "icc_profile o'" "icc_offset l"] order icc assms(2) by fastforce
  obtain c where c: "let_try (copy_at ?p payload b) (copy_optional (separate_alpha o') (alpha_offset l)) = Ok c"
    "length c = length b" "take ?p c = take ?p b" "holds c (Some payload) (Some ?p)"
    "holds c (separate_alpha o') (alpha_offset l)"
    using copy_pair [of ?p payload b "separate_alpha o'" "alpha_offset l"] order alpha assms(2) b(2) by fastforce
  have "holds c (Some (wo_guid o')) (Some ?g)"
    by (rule holds_take [OF b(4) c(3,2)]) (use order in simp)
  moreover have "holds c (icc_profile o') (icc_offset l)"
    by (rule holds_take [OF b(5) c(3,2)]) (use icc in fastforce)
  moreover have "write_payloads out payload o' l = Ok c"
    using b(1) c(1) by (simp add: write_payloads_def flip: let_try_assoc)
  ultimately show ?thesis
    using b(2,3) c(2-5) take_le [OF c(3), of ?g] order(1) assms(2) by simp
qed

section \<open>Reading the file back\<close>

definition written_range :: "u8 list option \<Rightarrow> nat option \<Rightarrow> byte_range option" where
  "written_range payload offset =
     map_option (\<lambda>bytes. (the offset, the offset + length bytes)) payload"

definition written_image :: "u8 list \<Rightarrow> write_options \<Rightarrow> container_layout \<Rightarrow> annex_image" where
  "written_image payload o' l =
     \<lparr>ax_width = wo_width o', ax_height = wo_height o', pixel_format_guid = wo_guid o',
      codestream_range = (primary_offset l, primary_offset l + length payload),
      alpha_range = written_range (separate_alpha o') (alpha_offset l),
      ax_metadata = \<lparr>transformation = Some (orientation_code (wo_orientation o')),
        resolution_dpi_bits = Some (horizontal_dpi o', vertical_dpi o'),
        icc_profile_range = written_range (icc_profile o') (icc_offset l)\<rparr>\<rparr>"

definition written_file :: "u8 list \<Rightarrow> write_options \<Rightarrow> container_layout \<Rightarrow> u8 list \<Rightarrow> bool" where
  "written_file payload o' l out \<longleftrightarrow> length out = output_len l \<and>
     (\<exists>rest. out = file_front (entry_count l) @
        concat (map encode_entry (written_entries payload o' l)) @ rest) \<and>
     holds out (Some (wo_guid o')) (Some (pixel_format_offset l)) \<and>
     holds out (icc_profile o') (icc_offset l) \<and>
     holds out (Some payload) (Some (primary_offset l)) \<and>
     holds out (separate_alpha o') (alpha_offset l)"

lemma write_makes_file:
  assumes "layout_ok payload o' l"
  shows "\<exists>out. let_try (write_directory (replicate (output_len l) 0) payload o' l)
      (\<lambda>out. write_payloads out payload o' l) = Ok out \<and> written_file payload o' l out"
proof -
  let ?front = "file_front (entry_count l) @ concat (map encode_entry (written_entries payload o' l))"
  obtain rest where d: "write_directory (replicate (output_len l) 0) payload o' l = Ok (?front @ rest)"
    "10 + 12 * entry_count l + length rest = output_len l"
    using written_directory [OF assms] by auto
  have "length (?front @ rest) = output_len l" using d(2) layout_facts(1) [OF assms] by simp
  then obtain out where out: "write_payloads (?front @ rest) payload o' l = Ok out" "length out = output_len l"
    "take (pixel_format_offset l) out = take (pixel_format_offset l) (?front @ rest)"
    "holds out (Some (wo_guid o')) (Some (pixel_format_offset l))"
    "holds out (icc_profile o') (icc_offset l)" "holds out (Some payload) (Some (primary_offset l))"
    "holds out (separate_alpha o') (alpha_offset l)"
    using written_payloads [OF assms, of "?front @ rest"] by blast
  have n: "length ?front = 10 + 12 * entry_count l" "length ?front \<le> pixel_format_offset l"
    using layout_facts(1) [OF assms] assms by (simp_all add: layout_ok_def)
  have "take (length ?front) out = ?front"
    using take_le [OF out(3) n(2)] by simp
  then have "out = ?front @ drop (length ?front) out"
    by (metis append_take_drop_id)
  then have "\<exists>rest. out = ?front @ rest" by blast
  then show ?thesis using d(1) out by (simp add: written_file_def)
qed

lemma written_header:
  assumes "layout_ok payload o' l" "write_options_ok o'" "written_file payload o' l out"
  shows "addressable out" "validate_file_header out = Ok ()" "field_at out 4 4 = 8"
    "parse_directory out 8 = Ok (written_entries payload o' l)"
proof -
  let ?es = "written_entries payload o' l" and ?n = "entry_count l"
  obtain rest where out: "out = file_front ?n @ concat (map encode_entry ?es) @ rest" "length out = output_len l"
    using assms(3) by (auto simp: written_file_def)
  note facts = layout_facts [OF assms(1)]
  show len: "addressable out"
    using out(2) assms(1) by (simp add: addressable_def layout_ok_def)
  show "validate_file_header out = Ok ()"
    using out facts(6) by (simp add: validate_file_header_def file_front_def)
  show "field_at out 4 4 = 8"
    unfolding out(1) file_front_def field_at_def
    using slice_middle [of "[0x49, 0x49, 0xBC, 1]" 4 4 "le_bytes 4 8"
        "le_bytes 2 ?n @ concat (map encode_entry ?es) @ rest" 0]
    by (simp add: slice_def le_val_le_bytes)
  have "field_at out 8 2 = ?n"
    unfolding out(1) file_front_def field_at_def
    using slice_middle [of "[0x49, 0x49, 0xBC, 1] @ le_bytes 4 8" 8 2 "le_bytes 2 ?n"
        "concat (map encode_entry ?es) @ rest" 0] facts(2)
    by (simp add: slice_def le_val_le_bytes)
  moreover have "table_entries out 10 ?n = ?es"
    using written_table [OF written_entries_ok [OF assms(1,2)], of "file_front ?n" 10 rest] out(1) facts(1)
    by simp
  moreover have "0 < ?n" "8 + 2 + ?n * 12 \<le> length out"
    using assms(1) facts(6) out(2) by (simp_all add: layout_ok_def)
  ultimately show "parse_directory out 8 = Ok ?es"
    using parse_directory_table(1) [OF len, of 8] written_entries_sorted by simp
qed

lemma holds_range: "holds out (Some bytes) (Some a) \<Longrightarrow>
    a + length bytes \<le> length out \<and> slice out (a, a + length bytes) = bytes"
  by (simp add: holds_def)

lemma range_of_payload:
  assumes "addressable out" "holds out (Some bytes) (Some a)"
  shows "checked_codestream_range out field a (length bytes) = Ok (a, a + length bytes)"
    "checked_range out field a (length bytes) = Ok (a, a + length bytes)"
    "slice_or_panic out (a, a + length bytes) = Ok bytes"
  using holds_range [OF assms(2)] codestream_range_Ok [OF assms(1)] assms(1)
  by (auto simp: checked_range_def addressable_def)

lemma find_entry_simps:
  "find_entry [] tag = None"
  "find_entry (e # es) tag = (if de_tag e = tag then Some e else find_entry es tag)"
  by (simp_all add: find_entry_def)

lemma build_written_image:
  assumes "layout_ok payload o' l" "write_options_ok o'" "written_file payload o' l out" "payload \<noteq> []"
  shows "build_image out (written_entries payload o' l) = Ok (written_image payload o' l)"
proof -
  note addr = written_header(1) [OF assms(1-3)]
  have holds: "holds out (Some (wo_guid o')) (Some (pixel_format_offset l))"
    "holds out (icc_profile o') (icc_offset l)" "holds out (Some payload) (Some (primary_offset l))"
    "holds out (separate_alpha o') (alpha_offset l)"
    using assms(3) by (simp_all add: written_file_def)
  have guid: "length (wo_guid o') = 16" using assms(2) by (simp add: write_options_ok_def)
  note guid_range = range_of_payload(2,3) [OF addr holds(1), unfolded guid]
  note primary = range_of_payload [OF addr holds(3)]
  have icc: "checked_range out field (the (icc_offset l)) (length p) = Ok (the (icc_offset l), the (icc_offset l) + length p)"
    if "icc_profile o' = Some p" for p field
    using holds(2) that range_of_payload(2) [OF addr] by (auto simp: holds_def)
  have alpha: "checked_codestream_range out field (the (alpha_offset l)) (length p) =
      Ok (the (alpha_offset l), the (alpha_offset l) + length p) \<and>
      \<not> the (alpha_offset l) < primary_offset l + length payload \<and> 0 < the (alpha_offset l)"
    if some: "separate_alpha o' = Some p" for p field
  proof -
    obtain a where a: "alpha_offset l = Some a" "primary_offset l + length payload \<le> a"
      using assms(1) some by (auto simp: layout_ok_def)
    moreover have "0 < primary_offset l" using assms(1) by (simp add: layout_ok_def)
    ultimately show ?thesis using holds(4) some range_of_payload(1) [OF addr, of p a field] by simp
  qed
  have "length p \<le> usize_max" if "icc_profile o' = Some p" for p
    using assms(1) that by (auto simp: layout_ok_def)
  then show ?thesis
    using icc alpha assms(4)
    by (cases "icc_profile o'"; cases "separate_alpha o'")
      (simp_all add: guid_range primary build_image_def written_entries_def find_entry_simps required_entry_def
        validate_entry_def scalar_value_def image_byte_count_def parse_alpha_range_def
        optional_scalar_def ranges_overlap_def optional_resolution_def optional_blob_def element_size_def
        written_image_def written_range_def)
qed

lemma parse_written_image:
  assumes "layout_ok payload o' l" "write_options_ok o'" "written_file payload o' l out" "payload \<noteq> []"
  shows "parse_annex_a out = Ok (written_image payload o' l)"
proof -
  note header = written_header [OF assms(1-3)]
  have "8 \<le> length out" using header(2) by (auto simp: validate_file_header_def split: if_splits)
  then show ?thesis
    using header build_written_image [OF assms] by (simp add: parse_annex_a_def annex_u32_eq)
qed

section \<open>The whole file\<close>

definition raw_parse :: "u8 list \<Rightarrow> parsed_headers \<Rightarrow> codestream_directory \<Rightarrow> bool" where
  "raw_parse bytes h d \<longleftrightarrow> parse_codestream bytes =
     Ok \<lparr>primary_range = (0, length bytes), cs_headers = h, directory = d,
       separate_alpha_headers = None, separate_alpha_directory = None, annex_a = None\<rparr>"

lemma raw_parse_iff: "starts_with bytes RAW_SIGNATURE \<Longrightarrow> raw_parse bytes h d \<longleftrightarrow>
    parse_codestream_headers bytes = Ok h \<and> parse_directory_tail bytes h = Ok d"
  by (auto simp: raw_parse_def parse_codestream_def outcome_simps)

lemma raw_front: "starts_with bytes RAW_SIGNATURE \<Longrightarrow> take 4 bytes = [0x57, 0x4D, 0x50, 0x48]"
proof -
  assume "starts_with bytes RAW_SIGNATURE"
  then have "take 4 (take (length RAW_SIGNATURE) bytes) = take 4 RAW_SIGNATURE"
    by (simp only: starts_with_def)
  then show ?thesis by (simp add: RAW_SIGNATURE_def numeral_eq_Suc)
qed

lemma validate_raw_Ok:
  "validate_raw_codestream bytes w h is_alpha = Ok () \<longleftrightarrow>
    bytes \<noteq> [] \<and> (\<exists>hd d. raw_parse bytes hd d \<and> parse_codestream_headers bytes = Ok hd \<and>
      parse_directory_tail bytes hd = Ok d \<and> width (image hd) = w \<and> height (image hd) = h) \<and>
    starts_with bytes RAW_SIGNATURE"
  using raw_front [of bytes]
  by (auto simp: validate_raw_codestream_def raw_parse_iff parse_codestream_def let_try_assoc
      outcome_simps split: if_splits)

lemma validate_options_Ok:
  assumes "validate_options payload o' = Ok ()"
  shows "validate_raw_codestream payload (wo_width o') (wo_height o') False = Ok ()"
    "\<forall>c\<in>set_option (separate_alpha o'). validate_raw_codestream c (wo_width o') (wo_height o') True = Ok ()"
  using assms by (auto simp: validate_options_def outcome_simps split: if_splits option.splits)

definition carries :: "u8 list \<Rightarrow> u8 list \<Rightarrow> write_options \<Rightarrow> parsed_codestream \<Rightarrow> bool" where
  "carries out payload o' p \<longleftrightarrow>
     slice out (primary_range p) = payload \<and> raw_parse payload (cs_headers p) (directory p) \<and>
     (\<exists>img. annex_a p = Some img \<and> ax_width img = wo_width o' \<and> ax_height img = wo_height o' \<and>
        pixel_format_guid img = wo_guid o' \<and>
        transformation (ax_metadata img) = Some (orientation_code (wo_orientation o')) \<and>
        resolution_dpi_bits (ax_metadata img) = Some (horizontal_dpi o', vertical_dpi o') \<and>
        map_option (slice out) (icc_profile_range (ax_metadata img)) = icc_profile o' \<and>
        map_option (slice out) (alpha_range img) = separate_alpha o') \<and>
     (case separate_alpha o' of
        None \<Rightarrow> separate_alpha_headers p = None \<and> separate_alpha_directory p = None
      | Some c \<Rightarrow> \<exists>h d. separate_alpha_headers p = Some h \<and> separate_alpha_directory p = Some d \<and>
          raw_parse c h d)"

lemma written_file_parses:
  assumes "layout_ok payload o' l" "write_options_ok o'" "written_file payload o' l out"
    and "validate_options payload o' = Ok ()"
  shows "\<exists>p. carries out payload o' p \<and>
    parse_codestream out = let_try (validate_annex_a_pixel_format p) (\<lambda>_. Ok p)"
proof -
  obtain h d where h: "raw_parse payload h d" "parse_codestream_headers payload = Ok h"
    "parse_directory_tail payload h = Ok d" "width (image h) = wo_width o'" "height (image h) = wo_height o'"
    "payload \<noteq> []"
    using validate_options_Ok(1) [OF assms(4)] by (auto simp: validate_raw_Ok)
  let ?img = "written_image payload o' l"
  have img: "parse_annex_a out = Ok ?img" by (rule parse_written_image [OF assms(1-3) h(6)])
  have holds: "holds out (icc_profile o') (icc_offset l)" "holds out (Some payload) (Some (primary_offset l))"
    "holds out (separate_alpha o') (alpha_offset l)"
    using assms(3) by (simp_all add: written_file_def)
  note addr = written_header(1) [OF assms(1-3)]
  have slices: "map_option (slice out) (written_range payload offset) = payload"
    if "holds out payload offset" for payload offset
    using that by (cases payload) (auto simp: holds_def written_range_def)
  have "\<exists>hs ds. parse_separate_alpha out ?img = Ok (hs, ds) \<and> (case separate_alpha o' of
        None \<Rightarrow> hs = None \<and> ds = None | Some c \<Rightarrow> \<exists>h d. hs = Some h \<and> ds = Some d \<and> raw_parse c h d)"
  proof (cases "separate_alpha o'")
    case (Some c)
    then obtain a where a: "alpha_offset l = Some a" "holds out (Some c) (Some a)"
      using holds(3) by (auto simp: holds_def)
    have "validate_raw_codestream c (wo_width o') (wo_height o') True = Ok ()"
      using validate_options_Ok(2) [OF assms(4)] Some by simp
    then obtain h d where c: "raw_parse c h d" "parse_codestream_headers c = Ok h"
      "parse_directory_tail c h = Ok d" "width (image h) = wo_width o'" "height (image h) = wo_height o'"
      by (auto simp: validate_raw_Ok)
    then show ?thesis
      using Some a(1) by (simp add: parse_separate_alpha_def written_image_def written_range_def
          range_of_payload(3) [OF addr a(2)])
  qed (simp add: parse_separate_alpha_def written_image_def written_range_def)
  then obtain hs ds where alpha: "parse_separate_alpha out ?img = Ok (hs, ds)"
    "case separate_alpha o' of None \<Rightarrow> hs = None \<and> ds = None
     | Some c \<Rightarrow> \<exists>h d. hs = Some h \<and> ds = Some d \<and> raw_parse c h d" by blast
  let ?p = "\<lparr>primary_range = codestream_range ?img, cs_headers = h, directory = d,
      separate_alpha_headers = hs, separate_alpha_directory = ds, annex_a = Some ?img\<rparr>"
  have fields: "codestream_range ?img = (primary_offset l, primary_offset l + length payload)"
    "ax_width ?img = wo_width o'" "ax_height ?img = wo_height o'"
    by (simp_all add: written_image_def)
  have "\<not> starts_with out RAW_SIGNATURE"
    using raw_front [of out] written_header(2) [OF assms(1-3)]
    by (auto simp: validate_file_header_def split: if_splits)
  then have "parse_codestream out = let_try (validate_annex_a_pixel_format ?p) (\<lambda>_. Ok ?p)"
    using img h alpha(1)
    by (simp add: parse_codestream_def parse_container_def Let_def fields range_of_payload(3) [OF addr holds(2)])
  moreover have "carries out payload o' ?p"
    using h(1) alpha(2) slices [OF holds(1)] slices [OF holds(3)] holds_range [OF holds(2)]
    unfolding carries_def by (cases "separate_alpha o'") (simp_all add: written_image_def)
  ultimately show ?thesis by blast
qed

lemma write_annex_a_body:
  assumes "write_options_ok o'" "validate_options payload o' = Ok ()"
    and "container_layout_new payload o' = Ok l"
  shows "\<exists>out p. written_file payload o' l out \<and> carries out payload o' p \<and>
    parse_codestream out = let_try (validate_annex_a_pixel_format p) (\<lambda>_. Ok p) \<and>
    write_annex_a payload o' = let_try (validate_annex_a_pixel_format p) (\<lambda>_. Ok out)"
proof -
  note layout = container_layout_ok [OF assms(3)]
  obtain out where out: "let_try (write_directory (replicate (output_len l) 0) payload o' l)
      (\<lambda>out. write_payloads out payload o' l) = Ok out" "written_file payload o' l out"
    using write_makes_file [OF layout] by blast
  obtain p where p: "carries out payload o' p"
    "parse_codestream out = let_try (validate_annex_a_pixel_format p) (\<lambda>_. Ok p)"
    using written_file_parses [OF layout assms(1) out(2) assms(2)] by blast
  have "write_annex_a payload o' = let_try (let_try (write_directory (replicate (output_len l) 0) payload o' l)
      (\<lambda>out. write_payloads out payload o' l)) (\<lambda>out. let_try (parse_codestream out) (\<lambda>_. Ok out))"
    using assms(2,3) by (simp add: write_annex_a_def let_try_assoc)
  then have "write_annex_a payload o' = let_try (validate_annex_a_pixel_format p) (\<lambda>_. Ok out)"
    using out(1) p(2) by (simp add: let_try_assoc)
  then show ?thesis using out(2) p by blast
qed

definition sample_payload :: "u8 list" where
  "sample_payload = sample_bytes @ [0, 0]"

definition sample_options :: write_options where
  "sample_options = with_icc_profile [1, 2, 3] (with_orientation Rotate90
     (write_options_new 33 16 (replicate 16 0)))"

lemma sample_headers: "parse_codestream_headers sample_payload = Ok sample_header"
proof (rule emitted_headers_parse [where rsv = sample_reserved and rest = "packet_bits [0, 0]"])
  show "packet_bits sample_payload = emit_headers sample_reserved sample_header @ packet_bits [0, 0]"
    unfolding sample_payload_def packet_bits_simps(3) sample_emitted ..
  have "length (emit_headers sample_reserved sample_header) = 160"
    using arg_cong [OF sample_emitted, of length] by (simp add: sample_bytes_def)
  then show "bytes_consumed sample_header = (length (emit_headers sample_reserved sample_header) + 7) div 8"
    by (simp add: sample_header_def)
qed (simp_all add: sample_payload_def sample_bytes_def sample_header_def image_header_ok_def
    plane_header_ok_def quantizers_ok_def short_header_def alpha_plane_def)

lemma sample_directory: "parse_directory_tail sample_payload sample_header =
    Ok \<lparr>tile_offsets = [], profile_levels = [], tile_data_offset = 22\<rparr>"
  by (simp add: parse_directory_tail_def cursor_new sample_payload_def sample_bytes_def sample_header_def
        directory_body_def tile_count_def frequency_mode_def index_table_present_def run_try_def
        read_vlw_def cursor_u8_def parse_profile_area_def get_position_def)

lemma sample_raw:
  "validate_raw_codestream sample_payload 33 16 False = Ok ()"
  using sample_headers sample_directory by (auto simp: validate_raw_Ok raw_parse_iff starts_with_def RAW_SIGNATURE_def
      sample_payload_def sample_bytes_def sample_header_def)

lemma sample_valid:
  "write_options_ok sample_options" "validate_options sample_payload sample_options = Ok ()"
  "\<exists>l. container_layout_new sample_payload sample_options = Ok l"
  "classify_annex_a_pixel_format (wo_guid sample_options) = UnknownFormat (replicate 16 0)"
proof -
  show "write_options_ok sample_options" "validate_options sample_payload sample_options = Ok ()"
    using sample_raw
    by (simp_all add: sample_options_def write_options_ok_def validate_options_def with_icc_profile_def
        with_orientation_def write_options_new_def f32_is_finite_def f32_not_positive_def f32_is_nan_def)
  show "\<exists>l. container_layout_new sample_payload sample_options = Ok l"
    by (simp add: sample_options_def with_icc_profile_def with_orientation_def write_options_new_def
        container_layout_new_def overflow_add_def align_four_def checked_advance_def place_optional_def
        checked_u32_def check_optional_u32_def sample_payload_def sample_bytes_def)
  have "hd (replicate 15 (0 :: u8)) \<noteq> hd GUID_PREFIX" by (simp add: GUID_PREFIX_def)
  then have "replicate 15 0 \<noteq> GUID_PREFIX" by metis
  then show "classify_annex_a_pixel_format (wo_guid sample_options) = UnknownFormat (replicate 16 0)"
    by (simp add: sample_options_def with_icc_profile_def with_orientation_def write_options_new_def
        classify_annex_a_pixel_format_def)
qed

section \<open>Properties\<close>

text \<open>
  C6: what the writer returns is read back: parsing the written file succeeds, the range of its
  primary codestream holds exactly the payload, its headers and tile directory are those of the
  payload parsed alone, the ICC profile and the separate alpha codestream are found byte for byte, and
  dimensions, pixel format, orientation and both resolutions are those of the options.
\<close>

theorem written_file_reads_back:
  assumes "write_options_ok o'" "write_annex_a payload o' = Ok out"
  shows "\<exists>p. parse_codestream out = Ok p \<and> carries out payload o' p"
proof -
  obtain l where "validate_options payload o' = Ok ()" "container_layout_new payload o' = Ok l"
    using assms(2) by (auto simp: write_annex_a_def outcome_simps)
  then obtain out' p where w: "carries out' payload o' p"
    "parse_codestream out' = let_try (validate_annex_a_pixel_format p) (\<lambda>_. Ok p)"
    "write_annex_a payload o' = let_try (validate_annex_a_pixel_format p) (\<lambda>_. Ok out')"
    using write_annex_a_body [OF assms(1)] by blast
  have "let_try (validate_annex_a_pixel_format p) (\<lambda>_. Ok out') = Ok out" using w(3) assms(2) by simp
  then have "validate_annex_a_pixel_format p = Ok ()" "out' = out" by (auto simp: outcome_simps)
  then show ?thesis using w(1,2) by auto
qed

lemma written_file_reads_back_witness:
  "\<exists>out p. write_annex_a sample_payload sample_options = Ok out \<and> parse_codestream out = Ok p \<and>
    carries out sample_payload sample_options p"
proof -
  obtain l where l: "container_layout_new sample_payload sample_options = Ok l" using sample_valid(3) ..
  obtain out p where w: "carries out sample_payload sample_options p"
    "write_annex_a sample_payload sample_options = let_try (validate_annex_a_pixel_format p) (\<lambda>_. Ok out)"
    using write_annex_a_body [OF sample_valid(1,2) l] by blast
  then have "write_annex_a sample_payload sample_options = Ok out"
    using sample_valid(4) by (auto simp: carries_def validate_annex_a_pixel_format_def)
  with written_file_reads_back [OF sample_valid(1) this] show ?thesis by blast
qed

text \<open>
  What a file of the writer needs, without the writer: codestreams of the given dimensions with their
  signature, resolutions that are positive numbers (as bit patterns, between zero and infinity), a
  profile that is not empty, and room for everything in 32-bit offsets, each payload at a multiple of four.
\<close>

definition embeds :: "write_options \<Rightarrow> u8 list \<Rightarrow> bool" where
  "embeds o' c \<longleftrightarrow> take 8 c = [0x57, 0x4D, 0x50, 0x48, 0x4F, 0x54, 0x4F, 0] \<and>
     (\<exists>p. parse_codestream c = Ok p \<and> width (image (cs_headers p)) = wo_width o' \<and>
       height (image (cs_headers p)) = wo_height o')"

definition file_size :: "u8 list \<Rightarrow> write_options \<Rightarrow> nat" where
  "file_size payload o' =
     (let icc = (case icc_profile o' of None \<Rightarrow> [] | Some bytes \<Rightarrow> [bytes]);
          opacity = (case separate_alpha o' of None \<Rightarrow> [] | Some bytes \<Rightarrow> [bytes])
      in fold (\<lambda>bytes cursor. (cursor + 3) div 4 * 4 + length bytes) ([wo_guid o'] @ icc @ [payload] @ opacity)
           (14 + 12 * (8 + length icc + 2 * length opacity)))"

definition writable :: "u8 list \<Rightarrow> write_options \<Rightarrow> bool" where
  "writable payload o' \<longleftrightarrow> embeds o' payload \<and> (\<forall>c\<in>set_option (separate_alpha o'). embeds o' c) \<and>
     icc_profile o' \<noteq> Some [] \<and> 0 < horizontal_dpi o' \<and> horizontal_dpi o' < 0x7f800000 \<and>
     0 < vertical_dpi o' \<and> vertical_dpi o' < 0x7f800000 \<and> file_size payload o' < 2 ^ 32"

lemma positive_number: "b < 2 ^ 32 \<Longrightarrow> f32_is_finite b \<and> \<not> f32_not_positive b \<longleftrightarrow> 0 < b \<and> b < 0x7f800000"
proof -
  assume b: "b < 2 ^ 32"
  have "b div 2 ^ 23 mod 2 ^ 8 \<noteq> 255 \<longleftrightarrow> b < 0x7f800000" if "b < 2 ^ 31"
  proof -
    have "b div 2 ^ 23 < 2 ^ 8" using that by (simp add: less_mult_imp_div_less)
    then show ?thesis using that by (auto simp: div_less_iff_less_mult)
  qed
  then show ?thesis by (auto simp: f32_is_finite_def f32_not_positive_def f32_is_nan_def not_le)
qed

lemma validate_raw_embeds: "validate_raw_codestream c (wo_width o') (wo_height o') g = Ok () \<longleftrightarrow> embeds o' c"
  by (auto simp: validate_raw_codestream_def embeds_def starts_with_def RAW_SIGNATURE_def let_try_eq_Ok eval_nat_numeral)

lemma align_four_Ok [outcome_simps]: "align_four v = Ok w \<longleftrightarrow> v + 3 \<le> usize_max \<and> w = (v + 3) div 4 * 4"
  by (auto simp: align_four_def let_try_eq_Ok outcome_simps minus_mod_eq_div_mult)

lemma place_optional_Ok [outcome_simps]: "place_optional payload cursor = Ok r \<longleftrightarrow> (case payload of
    None \<Rightarrow> r = (None, cursor)
  | Some bytes \<Rightarrow> (let offset = (cursor + 3) div 4 * 4 in cursor + 3 \<le> usize_max \<and>
      offset + length bytes \<le> usize_max \<and> r = (Some offset, offset + length bytes)))"
  by (auto simp: place_optional_def checked_advance_def outcome_simps let_try_eq_Ok Let_def split: option.split)

text \<open>The cursor behind an optional payload.\<close>

definition behind :: "u8 list option \<Rightarrow> nat \<Rightarrow> nat" where
  "behind payload cursor = (case payload of None \<Rightarrow> cursor | Some bytes \<Rightarrow> (cursor + 3) div 4 * 4 + length bytes)"

lemma align_four_exact: "yields (align_four v) (\<lambda>w. w = (v + 3) div 4 * 4)"
  unfolding align_four_def by (rule yields_bind [OF overflow_add_yields]) (simp add: minus_mod_eq_div_mult)

lemma behind_Some [simp]: "behind (Some bytes) cursor = (cursor + 3) div 4 * 4 + length bytes"
  by (simp add: behind_def)

lemma place_optional_exact: "yields (place_optional payload cursor) (\<lambda>(_, w). w = behind payload cursor)"
  unfolding place_optional_def behind_def checked_advance_def
  by (cases payload) (auto intro!: yields_bind [OF align_four_exact] yields_bind [OF overflow_add_yields])

lemma file_size_behind: "file_size payload o' =
    behind (separate_alpha o') (behind (Some payload) (behind (icc_profile o') (behind (Some (wo_guid o'))
      (14 + 12 * (8 + of_bool (icc_profile o' \<noteq> None) + 2 * of_bool (separate_alpha o' \<noteq> None))))))"
  by (simp add: file_size_def behind_def split: option.split)

lemma layout_sized:
  assumes "container_layout_new payload o' = Ok l"
  shows "output_len l = file_size payload o'" "file_size payload o' < 2 ^ 32"
proof -
  define n where "n = (8 + of_bool (icc_profile o' \<noteq> None) + 2 * of_bool (separate_alpha o' \<noteq> None) :: nat)"
  obtain v w x g c1 i c2 p c3 a c4 where
    "overflow_add ''sizing Annex-A directory'' 2 (n * 12) = Ok v" "overflow_add ''sizing Annex-A directory'' v 4 = Ok w"
    "overflow_add ''locating Annex-A payloads'' 8 w = Ok x" and at: "align_four x = Ok g"
    "checked_advance g (length (wo_guid o')) = Ok c1" "place_optional (icc_profile o') c1 = Ok (i, c2)" "align_four c2 = Ok p"
    "checked_advance p (length payload) = Ok c3" "place_optional (separate_alpha o') c3 = Ok (a, c4)"
    and last: "checked_u32 c4 ''representing Annex-A file length'' = Ok c4" "output_len l = c4"
    using assms unfolding container_layout_new_def Let_def n_def [symmetric]
    by (auto simp: let_try_eq_Ok checked_u32_Ok simp del: power_numeral split: if_splits)
  then have "x = 14 + 12 * n" by (simp add: overflow_add_Ok mult.commute)
  moreover have "g = (x + 3) div 4 * 4" "p = (c2 + 3) div 4 * 4" using yieldsD(2) [OF align_four_exact] at by blast+
  moreover have "c1 = g + length (wo_guid o')" "c3 = p + length payload" using at by (simp_all add: checked_advance_def overflow_add_Ok)
  moreover have "c2 = behind (icc_profile o') c1" "c4 = behind (separate_alpha o') c3"
    using yieldsD(2) [OF place_optional_exact] at by fastforce+
  ultimately show "output_len l = file_size payload o'" using last(2) by (simp add: file_size_behind n_def)
  then show "file_size payload o' < 2 ^ 32" using last by (simp add: checked_u32_Ok)
qed

lemma behind_le: "cursor \<le> behind payload cursor" "\<And>bytes. payload = Some bytes \<Longrightarrow> length bytes \<le> behind payload cursor"
proof -
  have "cursor \<le> (cursor + 3) div 4 * 4" by linarith
  then show "cursor \<le> behind payload cursor" "\<And>bytes. payload = Some bytes \<Longrightarrow> length bytes \<le> behind payload cursor"
    by (simp_all add: behind_def split: option.split)
qed

lemma align_four_fits: "v < 2 ^ 32 \<Longrightarrow> align_four v = Ok ((v + 3) div 4 * 4)"
  by (simp add: align_four_Ok)

lemma advance_fits: "a + n < 2 ^ 32 \<Longrightarrow> checked_advance a n = Ok (a + n)"
  by (simp add: checked_advance_def overflow_add_def)

lemma place_optional_fits: "behind payload cursor < 2 ^ 32 \<Longrightarrow> \<exists>a. place_optional payload cursor = Ok (a, behind payload cursor)"
  using behind_le(1) [of cursor payload]
  by (cases payload) (simp_all add: place_optional_def behind_def align_four_fits advance_fits)

lemma check_optional_fits: "behind payload cursor < 2 ^ 32 \<Longrightarrow> check_optional_u32 payload operation = Ok ()"
  using behind_le(2) [of payload _ cursor]
  by (cases payload) (auto simp: check_optional_u32_def checked_u32_def behind_def)

lemma layout_fits:
  assumes "file_size payload o' < 2 ^ 32"
  shows "\<exists>l. container_layout_new payload o' = Ok l"
proof -
  define n where "n = (8 + of_bool (icc_profile o' \<noteq> None) + 2 * of_bool (separate_alpha o' \<noteq> None) :: nat)"
  define c1 where "c1 = behind (Some (wo_guid o')) (14 + 12 * n)"
  define c2 where "c2 = behind (icc_profile o') c1"
  define c3 where "c3 = behind (Some payload) c2"
  have last: "behind (separate_alpha o') c3 < 2 ^ 32" using assms by (simp add: file_size_behind n_def c1_def c2_def c3_def)
  then have "c3 < 2 ^ 32" using behind_le(1) [of c3 "separate_alpha o'"] by simp
  moreover from this have "c2 < 2 ^ 32" using behind_le(1) [of c2 "Some payload"] by (simp add: c3_def)
  moreover from this have "c1 < 2 ^ 32" using behind_le(1) [of c1 "icc_profile o'"] by (simp add: c2_def)
  moreover have "n \<le> 11" by (simp add: n_def)
  moreover obtain a b where "place_optional (icc_profile o') c1 = Ok (a, c2)"
    "place_optional (separate_alpha o') c3 = Ok (b, behind (separate_alpha o') c3)"
    using place_optional_fits last \<open>c2 < _\<close> unfolding c2_def by blast
  moreover have "check_optional_u32 (icc_profile o') op = Ok ()" "check_optional_u32 (separate_alpha o') op = Ok ()" for op
    using check_optional_fits last \<open>c2 < _\<close> unfolding c2_def by blast+
  moreover have "checked_u32 (length payload) op = Ok (length payload)" for op
    using behind_le(2) [of "Some payload" payload c2] \<open>c3 < _\<close> by (simp add: checked_u32_def c3_def)
  moreover have "align_four (14 + n * 12) = Ok ((14 + 12 * n + 3) div 4 * 4)"
    "align_four c2 = Ok ((c2 + 3) div 4 * 4)" using calculation(2,4) by (simp_all add: align_four_fits mult.commute)
  moreover have "checked_advance ((14 + 12 * n + 3) div 4 * 4) (length (wo_guid o')) = Ok c1"
    "checked_advance ((c2 + 3) div 4 * 4) (length payload) = Ok c3"
    using calculation(1,3) by (simp_all add: c1_def c3_def behind_def advance_fits)
  ultimately show ?thesis using last unfolding container_layout_new_def n_def [symmetric] Let_def
    by (simp add: overflow_add_def checked_u32_def)
qed

text \<open>
  C30: the writer accepts exactly what fits. It never panics: no slice that it writes or reads is out of
  bounds. What it accepts is writable and the file has the computed size; and every writable payload whose
  identifier is outside the known family of pixel formats is accepted, a known format being left to the
  check against the codestream's headers.
\<close>

theorem writer_total:
  assumes "write_options_ok o'" "list_all readable (payload # (case separate_alpha o' of None \<Rightarrow> [] | Some c \<Rightarrow> [c]))"
  shows "write_annex_a payload o' \<noteq> Panic \<and>
    (\<forall>out. write_annex_a payload o' = Ok out \<longrightarrow> writable payload o' \<and> length out = file_size payload o') \<and>
    (writable payload o' \<and> take 15 (wo_guid o') \<noteq> GUID_PREFIX \<longrightarrow> (\<exists>out. write_annex_a payload o' = Ok out))"
proof -
  have raw: "validate_raw_codestream c w h a \<noteq> Panic" if "readable c" for c w h a
    using yieldsD(1) [OF parse_codestream_yields [OF that]]
    by (simp add: validate_raw_codestream_def let_try_eq_Panic)
  have options: "validate_options payload o' \<noteq> Panic"
    using assms(2) raw by (auto simp: validate_options_def let_try_eq_Panic split: option.splits)
  have dpi: "horizontal_dpi o' < 2 ^ 32" "vertical_dpi o' < 2 ^ 32" using assms(1) by (simp_all add: write_options_ok_def)
  have valid: "validate_options payload o' = Ok () \<and> file_size payload o' < 2 ^ 32 \<longleftrightarrow> writable payload o'"
    using positive_number [OF dpi(1)] positive_number [OF dpi(2)]
    by (cases "separate_alpha o'") (auto simp: validate_options_def writable_def let_try_eq_Ok validate_raw_embeds)
  show ?thesis
  proof (cases "writable payload o'")
    case True
    then obtain l where ok: "validate_options payload o' = Ok ()" "container_layout_new payload o' = Ok l"
      using valid layout_fits by blast
    obtain out p where w: "written_file payload o' l out" "carries out payload o' p"
      "write_annex_a payload o' = let_try (validate_annex_a_pixel_format p) (\<lambda>_. Ok out)"
      using write_annex_a_body [OF assms(1) ok] by blast
    obtain img where img: "annex_a p = Some img" "pixel_format_guid img = wo_guid o'"
      using w(2) by (auto simp: carries_def)
    have "length (pixel_format_guid img) = 16" using assms(1) img(2) by (simp add: write_options_ok_def)
    note format = yieldsD(1) [OF validate_format_yields [OF this img(1)]]
    have "length out = file_size payload o'"
      using w(1) layout_sized [OF ok(2)] by (simp add: written_file_def)
    then show ?thesis using format w(3) img True
      by (auto simp: validate_annex_a_pixel_format_def classify_annex_a_pixel_format_def let_try_eq_Panic let_try_eq_Ok)
  next
    case False
    have "write_annex_a payload o' \<noteq> Ok out" for out
    proof
      assume "write_annex_a payload o' = Ok out"
      then obtain l where "validate_options payload o' = Ok ()" "container_layout_new payload o' = Ok l"
        by (auto simp: write_annex_a_def let_try_eq_Ok)
      then show False using False valid layout_sized by blast
    qed
    moreover have "write_annex_a payload o' \<noteq> Panic"
    proof (cases "validate_options payload o'")
      case (Ok u)
      then have "container_layout_new payload o' \<noteq> Ok l" for l using False valid by (auto dest: layout_sized)
      then show ?thesis using layout_no_panic [of payload o'] options
        by (cases "container_layout_new payload o'") (auto simp: write_annex_a_def let_try_eq_Panic)
    qed (use options in \<open>simp_all add: write_annex_a_def\<close>)
    ultimately show ?thesis using False by blast
  qed
qed

lemma writer_total_witness: "\<exists>out. write_annex_a sample_payload sample_options = Ok out \<and> length out = 166"
proof -
  have "list_all readable (sample_payload # (case separate_alpha sample_options of None \<Rightarrow> [] | Some c \<Rightarrow> [c]))"
    by (simp add: readable_def sample_payload_def sample_bytes_def sample_options_def with_icc_profile_def
        with_orientation_def write_options_new_def)
  note total = writer_total [OF sample_valid(1) this]
  have options: "horizontal_dpi sample_options = 0x42C00000" "vertical_dpi sample_options = 0x42C00000"
    "separate_alpha sample_options = None" "wo_guid sample_options = replicate 16 0"
    by (simp_all add: sample_options_def with_icc_profile_def with_orientation_def write_options_new_def)
  have size: "file_size sample_payload sample_options = 166"
    by (simp add: sample_options_def with_icc_profile_def with_orientation_def write_options_new_def file_size_def
        sample_payload_def sample_bytes_def)
  have "embeds sample_options sample_payload" "icc_profile sample_options \<noteq> Some []"
    using sample_valid(2) by (auto simp: validate_options_def let_try_eq_Ok validate_raw_embeds split: if_splits)
  then have fits: "writable sample_payload sample_options" by (simp add: writable_def options size)
  have "hd (take 15 (wo_guid sample_options)) \<noteq> hd GUID_PREFIX" by (simp add: options GUID_PREFIX_def)
  then have "take 15 (wo_guid sample_options) \<noteq> GUID_PREFIX" by metis
  then obtain out where "write_annex_a sample_payload sample_options = Ok out"
    using total [THEN conjunct2, THEN conjunct2] fits by blast
  then show ?thesis using total [THEN conjunct2, THEN conjunct1] by (simp add: size)
qed

end
