(* ===== verification/Packet_Reader.thy ===== *)
theory Packet_Reader
  imports Bit_Source
begin

text \<open>
  The packet-scoped bit reader of entropy decoding
  (\<open>crates/jxr-native/src/entropy/bit_reader.rs\<close>) and its error type (\<open>entropy/error.rs\<close>). Reads
  are served from a 64-bit cache of the unread bits; the theory shows that the cache is invisible:
  the reader is a \<open>bit_source\<close> over the packet's bits.
\<close>

datatype entropy_error =
    UnexpectedEnd nat nat nat
  | InvalidBitLength nat nat
  | InvalidVlc string nat
  | InvalidParameter string int
  | CoefficientOverflow

record packet_reader =
  pk_bytes :: "u8 list"
  pk_position :: nat
  pk_length :: nat
  pk_cache :: "64 word"
  pk_cached :: nat

type_synonym 'a decoder = "(packet_reader, entropy_error, 'a) action"

section \<open>Construction and position\<close>

definition packet_new :: "u8 list \<Rightarrow> packet_reader" where
  "packet_new bytes = \<lparr>pk_bytes = bytes, pk_position = 0,
     pk_length = min usize_max (8 * length bytes), pk_cache = 0, pk_cached = 0\<rparr>"

definition with_bit_length :: "u8 list \<Rightarrow> nat \<Rightarrow> (entropy_error, packet_reader) result" where
  "with_bit_length bytes bit_length =
     (let available_bits = min usize_max (8 * length bytes)
      in if available_bits < bit_length then Err (InvalidBitLength bit_length available_bits)
         else Ok \<lparr>pk_bytes = bytes, pk_position = 0, pk_length = bit_length,
                pk_cache = 0, pk_cached = 0\<rparr>)"

definition bits_remaining :: "packet_reader \<Rightarrow> nat" where
  "bits_remaining r = pk_length r - pk_position r"

definition unexpected_end :: "nat \<Rightarrow> nat \<Rightarrow> nat \<Rightarrow> entropy_error" where
  "unexpected_end position requested_bits bit_length =
     UnexpectedEnd position requested_bits bit_length"

definition end_error :: "nat \<Rightarrow> packet_reader \<Rightarrow> entropy_error" where
  "end_error count r = unexpected_end (pk_position r) count (pk_length r)"

definition unexpected_end_after :: "nat \<Rightarrow> packet_reader \<Rightarrow> entropy_error" where
  "unexpected_end_after consumed r =
     unexpected_end (min usize_max (pk_position r + consumed)) 1 (pk_length r)"

section \<open>The cache\<close>

definition from_be_bytes :: "u8 list \<Rightarrow> 64 word" where
  "from_be_bytes chunk = foldl (\<lambda>word byte. push_bit 8 word OR ucast byte) 0 chunk"

definition padded_word :: "u8 list \<Rightarrow> nat \<Rightarrow> 64 word" where
  "padded_word bytes byte =
     (let tail = drop byte bytes
      in from_be_bytes (tail @ replicate (8 - length tail) 0))"

definition window :: "u8 list \<Rightarrow> nat \<Rightarrow> nat \<Rightarrow> 64 word \<times> nat" where
  "window bytes bit_position bit_length =
     (let byte = bit_position div 8;
          word = (if byte + 8 \<le> length bytes then from_be_bytes (take 8 (drop byte bytes))
                  else padded_word bytes byte);
          offset = bit_position mod 8;
          available = min (64 - offset) (bit_length - bit_position);
          cache = (if available = 0 then 0
                   else push_bit offset word AND push_bit (64 - available) (- 1))
      in (cache, available))"

definition refill :: "packet_reader \<Rightarrow> packet_reader" where
  "refill r = (case window (pk_bytes r) (pk_position r) (pk_length r) of
     (cache, cached) \<Rightarrow> r\<lparr>pk_cache := cache, pk_cached := cached\<rparr>)"

definition consume_cached :: "nat \<Rightarrow> packet_reader \<Rightarrow> nat \<times> packet_reader" where
  "consume_cached count r =
     (unat (drop_bit (63 - count) (drop_bit 1 (pk_cache r))),
      r\<lparr>pk_cache := push_bit count (pk_cache r), pk_cached := pk_cached r - count,
        pk_position := pk_position r + count\<rparr>)"

section \<open>Reads\<close>

text \<open>The body of \<open>read_bits\<close> for at most 57 bits.\<close>

definition read_narrow_bits :: "nat \<Rightarrow> nat decoder" where
  "read_narrow_bits count r =
     (let t = (if pk_cached r < count then refill r else r)
      in if pk_cached t < count then (Err (end_error count t), t)
         else (case consume_cached count t of (value, u) \<Rightarrow> (Ok value, u)))"

text \<open>\<open>read_bits\<close> with \<open>read_wide_bits\<close> inlined: a wide read is two narrow ones.\<close>

fun packet_read_bits :: "nat \<Rightarrow> nat decoder" where
  "packet_read_bits count =
     (if 57 < count then
        (if 64 < count then fail (InvalidParameter ''bit count'' (int count))
         else (\<lambda>r. if bits_remaining r < count then (Err (end_error count r), r)
           else run_try (packet_read_bits (count - 32)) (\<lambda>high.
                run_try (packet_read_bits 32) (\<lambda>low.
                give (push_bit 32 high OR low))) r))
      else read_narrow_bits count)"

declare packet_read_bits.simps [simp del]

definition packet_read_bit :: "bool decoder" where
  "packet_read_bit = run_try (packet_read_bits 1) (\<lambda>value. give (value \<noteq> 0))"

definition peek_byte :: "packet_reader \<Rightarrow> u8 \<times> packet_reader" where
  "peek_byte r =
     (let t = (if pk_cached r < 8 then refill r else r)
      in (ucast (drop_bit 56 (pk_cache t)), t))"

definition skip_cached :: "nat \<Rightarrow> packet_reader \<Rightarrow> bool \<times> packet_reader" where
  "skip_cached count r =
     (if pk_cached r < count then (False, r) else (True, snd (consume_cached count r)))"

definition read_magnitude_and_sign ::
  "nat \<Rightarrow> bool \<Rightarrow> packet_reader \<Rightarrow> (nat \<times> bool) option \<times> packet_reader" where
  "read_magnitude_and_sign bits is_signed r =
     (let needed = bits + 1; t = (if pk_cached r < needed then refill r else r)
      in if pk_cached t < needed then (None, t)
         else
           let magnitude = drop_bit (63 - bits) (drop_bit 1 (pk_cache t));
               take_sign = (is_signed \<and> magnitude \<noteq> 0);
               negative = (take_sign \<and> drop_bit 63 (push_bit bits (pk_cache t)) \<noteq> 0);
               consumed = bits + of_bool take_sign
           in (Some (unat magnitude, negative),
               t\<lparr>pk_cache := push_bit consumed (pk_cache t), pk_cached := pk_cached t - consumed,
                 pk_position := pk_position t + consumed\<rparr>))"

section \<open>Words as bit lists\<close>

definition word_bits :: "64 word \<Rightarrow> bool list" where
  "word_bits w = map (\<lambda>i. bit w (63 - i)) [0..<64]"

lemma length_word_bits [simp]: "length (word_bits w) = 64"
  by (simp add: word_bits_def)

lemma nth_word_bits [simp]: "i < 64 \<Longrightarrow> word_bits w ! i = bit w (63 - i)"
  by (simp add: word_bits_def)

lemma bits_val_word_bits: "bits_val (word_bits w) = unat w"
proof -
  have "rev (word_bits w) = map (bit (unat w)) [0..<64]"
    by (rule nth_equalityI) (simp_all add: rev_nth bit_simps)
  then have "bits_val (word_bits w) = take_bit 64 (unat w)"
    by (simp only: bits_val_horner horner_sum_bit_eq_take_bit)
  also have "\<dots> = unat w"
    using unsigned_less [where 'a = nat, of w] by (simp add: take_bit_nat_eq_self)
  finally show ?thesis .
qed

lemma bits_val_inj: "length xs = length ys \<Longrightarrow> bits_val xs = bits_val ys \<Longrightarrow> xs = ys"
proof (induction xs ys rule: list_induct2)
  case (Cons x xs y ys)
  have "bits_val xs < 2 ^ length xs" "bits_val ys < 2 ^ length xs"
    using bits_val_less [of xs] bits_val_less [of ys] Cons.hyps by simp_all
  then show ?case using Cons by (cases x; cases y) auto
qed simp

lemma unat_shift_in_byte:
  fixes v :: "64 word" and b :: u8
  assumes "unat v < 2 ^ 56"
  shows "unat (push_bit 8 v OR ucast b) = unat v * 2 ^ 8 + unat b"
proof -
  have "push_bit 8 v AND (ucast b :: 64 word) = 0"
    by (rule bit_word_eqI) (auto simp: bit_simps dest: bit_imp_le_length)
  then have "push_bit 8 v OR (ucast b :: 64 word) = push_bit 8 v + ucast b"
    by (simp add: disjunctive_add_eq_or)
  moreover have "unat b < 2 ^ 8" using unsigned_less [where 'a = nat, of b] by simp
  moreover have "unat (ucast b :: 64 word) = unat b"
    using \<open>unat b < 2 ^ 8\<close> by (simp add: unsigned_ucast_eq take_bit_nat_eq_self)
  ultimately show ?thesis
    using assms by (simp add: unat_word_ariths push_bit_eq_mult)
qed

lemma from_be_bytes_val:
  "unat (v :: 64 word) < 2 ^ (64 - 8 * length chunk) \<Longrightarrow> length chunk \<le> 8 \<Longrightarrow>
    unat (foldl (\<lambda>word byte. push_bit 8 word OR ucast byte) v chunk) =
      unat v * 2 ^ (8 * length chunk) + bits_val (packet_bits chunk)"
proof (induction chunk arbitrary: v)
  case (Cons b chunk)
  have "(2::nat) ^ (64 - 8 * length (b # chunk)) \<le> 2 ^ 56"
    using Cons.prems(2) by (intro power_increasing) simp_all
  then have v: "unat (push_bit 8 v OR ucast b) = unat v * 2 ^ 8 + unat b"
    using Cons.prems(1) unat_shift_in_byte [of v b] by simp
  have "(2::nat) ^ (64 - 8 * length chunk) = 2 ^ 8 * 2 ^ (64 - 8 * length (b # chunk))"
  proof -
    have "64 - 8 * length chunk = 8 + (64 - 8 * length (b # chunk))" using Cons.prems(2) by simp
    then show ?thesis by (simp only: power_add)
  qed
  moreover have "unat b < 2 ^ 8" using unsigned_less [where 'a = nat, of b] by simp
  ultimately have "unat v * 2 ^ 8 + unat b < 2 ^ (64 - 8 * length chunk)"
    using Cons.prems(1) by simp
  then have "unat (foldl (\<lambda>word byte. push_bit 8 word OR ucast byte) (push_bit 8 v OR ucast b) chunk)
    = (unat v * 2 ^ 8 + unat b) * 2 ^ (8 * length chunk) + bits_val (packet_bits chunk)"
    using Cons.IH [of "push_bit 8 v OR ucast b"] Cons.prems(2) v by simp
  then show ?case
    by (simp add: bits_val_append bits_val_byte_bits algebra_simps power_add)
qed simp

lemma word_bits_from_be_bytes:
  "length chunk = 8 \<Longrightarrow> word_bits (from_be_bytes chunk) = packet_bits chunk"
  using from_be_bytes_val [of 0 chunk]
  by (intro bits_val_inj) (simp_all add: bits_val_word_bits from_be_bytes_def)


section \<open>The cache is invisible\<close>

definition packet_unread :: "packet_reader \<Rightarrow> bool list" where
  "packet_unread r = drop (pk_position r) (take (pk_length r) (packet_bits (pk_bytes r)))"

definition cache_ok :: "packet_reader \<Rightarrow> bool" where
  "cache_ok r \<longleftrightarrow> pk_cached r \<le> 64 \<and> pk_cached r \<le> length (packet_unread r) \<and>
     word_bits (pk_cache r) =
       take (pk_cached r) (packet_unread r) @ replicate (64 - pk_cached r) False"

definition packet_ok :: "packet_reader \<Rightarrow> bool" where
  "packet_ok r \<longleftrightarrow> pk_position r \<le> pk_length r \<and> pk_length r \<le> 8 * length (pk_bytes r) \<and>
     pk_length r \<le> usize_max \<and> cache_ok r"

lemma length_packet_unread:
  "packet_ok r \<Longrightarrow> length (packet_unread r) = pk_length r - pk_position r"
  by (simp add: packet_unread_def packet_ok_def)

lemma bits_remaining_unread: "packet_ok r \<Longrightarrow> bits_remaining r = length (packet_unread r)"
  by (simp add: bits_remaining_def length_packet_unread)

lemma packet_bits_zeros: "packet_bits (replicate n 0) = replicate (8 * n) False"
proof -
  have "byte_bits 0 = replicate 8 False" by (simp add: byte_bits_def upt_rec numeral_eq_Suc)
  then show ?thesis by (induction n) (simp_all add: replicate_add)
qed

text \<open>The eight bytes at \<open>byte\<close>, zeros where the slice has ended.\<close>

definition window_bytes :: "u8 list \<Rightarrow> nat \<Rightarrow> u8 list" where
  "window_bytes bytes byte = take 8 (drop byte bytes @ replicate 8 0)"

lemma length_window_bytes [simp]: "length (window_bytes bytes byte) = 8"
  by (simp add: window_bytes_def)

lemma window_word:
  "(if byte + 8 \<le> length bytes then from_be_bytes (take 8 (drop byte bytes))
    else padded_word bytes byte) = from_be_bytes (window_bytes bytes byte)"
proof (cases "byte + 8 \<le> length bytes")
  case False
  then have "drop byte bytes @ replicate (8 - length (drop byte bytes)) 0 = window_bytes bytes byte"
    by (simp add: window_bytes_def take_append)
  then show ?thesis using False by (simp add: padded_word_def Let_def)
qed (simp add: window_bytes_def)

lemma window_bits:
  assumes "p \<le> n" "n \<le> 8 * length bytes" "i < 64 - p mod 8" "i < n - p"
  shows "packet_bits (window_bytes bytes (p div 8)) ! (i + p mod 8) =
    drop p (take n (packet_bits bytes)) ! i"
proof -
  have "p = 8 * (p div 8) + p mod 8" by simp
  have "packet_bits (window_bytes bytes (p div 8)) =
      take 64 (drop (8 * (p div 8)) (packet_bits bytes) @ replicate 64 False)"
    by (simp only: window_bytes_def packet_bits_take packet_bits_simps packet_bits_drop
        packet_bits_zeros) simp
  moreover have "i + p mod 8 < 64" "8 * (p div 8) + (i + p mod 8) = p + i"
    using assms(3) by simp_all
  moreover have "p + i < 8 * length bytes" "i + p mod 8 < 8 * length bytes - 8 * (p div 8)"
    using assms \<open>p = 8 * (p div 8) + p mod 8\<close> by linarith+
  ultimately show ?thesis using assms by (simp add: nth_append)
qed

lemma word_bits_shift:
  "word_bits (push_bit c w) = drop c (word_bits w) @ replicate (min c 64) False"
proof (rule nth_equalityI)
  fix i assume "i < length (word_bits (push_bit c w))"
  then have i: "i < 64" by simp
  show "word_bits (push_bit c w) ! i = (drop c (word_bits w) @ replicate (min c 64) False) ! i"
  proof (cases "i + c < 64")
    case True
    then have "i < length (drop c (word_bits w))" "c + i < 64" "63 - i - c = 63 - (c + i)"
      "c \<le> 63 - i" "\<not> 64 \<le> 63 - i" by simp_all
    then show ?thesis using i by (simp only: nth_append if_True nth_drop nth_word_bits
          length_word_bits bit_push_bit_iff possible_bit_def) simp
  next
    case False
    then have "\<not> i < length (drop c (word_bits w))" "i - (64 - c) < min c 64" "\<not> c \<le> 63 - i"
      using i by auto
    then show ?thesis using i by (simp only: nth_append if_False nth_replicate nth_word_bits
          length_drop length_word_bits bit_push_bit_iff) simp
  qed
qed simp

lemma refill_ok:
  assumes "packet_ok r"
  shows "packet_ok (refill r)" "packet_unread (refill r) = packet_unread r"
    "pk_position (refill r) = pk_position r" "pk_length (refill r) = pk_length r"
    "pk_bytes (refill r) = pk_bytes r"
    "pk_cached (refill r) = min (64 - pk_position r mod 8) (length (packet_unread r))"
proof -
  let ?p = "pk_position r" and ?n = "pk_length r" and ?b = "pk_bytes r"
  have pn: "?p \<le> ?n" "?n \<le> 8 * length ?b" using assms by (simp_all add: packet_ok_def)
  show same: "packet_unread (refill r) = packet_unread r" "pk_position (refill r) = ?p"
    "pk_length (refill r) = ?n" "pk_bytes (refill r) = ?b"
    by (simp_all add: refill_def packet_unread_def split: prod.split)
  show cached: "pk_cached (refill r) = min (64 - ?p mod 8) (length (packet_unread r))"
    by (simp add: refill_def window_def Let_def length_packet_unread [OF assms])
  let ?w = "from_be_bytes (window_bytes ?b (?p div 8))" and ?a = "pk_cached (refill r)"
  have w: "word_bits ?w = packet_bits (window_bytes ?b (?p div 8))"
    by (rule word_bits_from_be_bytes) (simp add: window_bytes_def)
  have cache: "pk_cache (refill r) =
      (if ?a = 0 then 0 else push_bit (?p mod 8) ?w AND push_bit (64 - ?a) (- 1))"
    by (simp only: cached length_packet_unread [OF assms])
      (simp only: refill_def window_def Let_def window_word prod.case, simp)
  have "word_bits (pk_cache (refill r)) = take ?a (packet_unread r) @ replicate (64 - ?a) False"
  proof (rule nth_equalityI)
    fix i assume "i < length (word_bits (pk_cache (refill r)))"
    then have i: "i < 64" by simp
    show "word_bits (pk_cache (refill r)) ! i =
        (take ?a (packet_unread r) @ replicate (64 - ?a) False) ! i"
    proof (cases "i < ?a")
      case True
      then have lt: "i < 64 - ?p mod 8" "i < ?n - ?p" "i < length (packet_unread r)"
        using cached length_packet_unread [OF assms] by simp_all
      then have "word_bits (push_bit (?p mod 8) ?w) ! i = packet_unread r ! i"
        using window_bits [OF pn lt(1,2)]
        by (simp add: word_bits_shift nth_append w packet_unread_def add.commute)
      moreover have "bit (push_bit (64 - ?a) (- 1 :: 64 word)) (63 - i)"
        using True i by (auto simp: bit_simps)
      ultimately show ?thesis using True i lt(3) cache by (simp add: nth_append bit_and_iff)
    next
      case False
      then have "\<not> bit (push_bit (64 - ?a) (- 1 :: 64 word)) (63 - i)"
        using i by (auto simp: bit_simps)
      then have "\<not> bit (pk_cache (refill r)) (63 - i)" by (simp only: cache bit_and_iff bit_0_eq bot_apply bot_bool_def simp_thms
          split: if_splits)
      moreover have "length (take ?a (packet_unread r)) = ?a" using cached by simp
      ultimately show ?thesis using False i
        by (simp add: nth_append)
    qed
  qed (use cached in simp)
  then have "cache_ok (refill r)" using cached same(1) by (simp add: cache_ok_def)
  then show "packet_ok (refill r)" using assms same by (simp add: packet_ok_def)
qed


lemma take_of_cache:
  assumes "cache_ok r" "n \<le> pk_cached r"
  shows "take n (word_bits (pk_cache r)) = take n (packet_unread r)"
    "drop_bit (64 - n) (unat (pk_cache r)) = bits_val (take n (packet_unread r))"
proof -
  show t: "take n (word_bits (pk_cache r)) = take n (packet_unread r)"
    using assms by (simp add: cache_ok_def min_def)
  have "n \<le> 64" using assms by (simp add: cache_ok_def)
  then show "drop_bit (64 - n) (unat (pk_cache r)) = bits_val (take n (packet_unread r))"
    unfolding t [symmetric] bits_val_take bits_val_word_bits
    by (simp add: drop_bit_eq_div)
qed

lemma consumed_ok:
  assumes "packet_ok r" "n \<le> pk_cached r"
    and "t = r\<lparr>pk_cache := push_bit n (pk_cache r), pk_cached := pk_cached r - n,
        pk_position := pk_position r + n\<rparr>"
  shows "packet_ok t" "packet_unread t = drop n (packet_unread r)"
proof -
  show u: "packet_unread t = drop n (packet_unread r)"
    by (simp add: assms(3) packet_unread_def add.commute)
  have c: "pk_cached r \<le> 64" "pk_cached r \<le> length (packet_unread r)"
    "word_bits (pk_cache r) =
      take (pk_cached r) (packet_unread r) @ replicate (64 - pk_cached r) False"
    using assms(1) by (simp_all add: packet_ok_def cache_ok_def)
  have "word_bits (pk_cache t) = take (pk_cached r - n) (drop n (packet_unread r)) @
      replicate (64 - pk_cached r) False @ replicate n False"
    using c assms(2) by (simp add: assms(3) word_bits_shift drop_take min_def)
  then have "cache_ok t"
    using c assms(2) u by (auto simp: cache_ok_def assms(3) simp flip: replicate_add)
  then show "packet_ok t"
    using assms(1,2) c length_packet_unread [OF assms(1)] by (auto simp: packet_ok_def assms(3))
qed

lemma cached_value:
  assumes "cache_ok r" "n \<le> pk_cached r" "n \<le> 63"
  shows "unat (drop_bit (63 - n) (drop_bit 1 (pk_cache r))) = bits_val (take n (packet_unread r))"
proof -
  have "Suc (63 - n) = 64 - n" using assms(3) by simp
  then show ?thesis
    using take_of_cache(2) [OF assms(1,2)] by (simp add: unat_drop_bit_eq)
qed

lemma consume_cached_bits:
  assumes "packet_ok r" "n \<le> pk_cached r" "n \<le> 63"
  shows "\<exists>t. consume_cached n r = (bits_val (take n (packet_unread r)), t) \<and> packet_ok t \<and>
    packet_unread t = drop n (packet_unread r)"
proof -
  have "cache_ok r" using assms(1) by (simp add: packet_ok_def)
  then show ?thesis
    using cached_value [OF _ assms(2,3)] consumed_ok [OF assms(1,2) refl]
    by (simp add: consume_cached_def)
qed

text \<open>After the conditional refill, at least \<open>min 57 (remaining)\<close> bits are cached.\<close>

lemma refill_if_ok:
  assumes "packet_ok r" "n \<le> 57" "t = (if pk_cached r < n then refill r else r)"
  shows "packet_ok t" "packet_unread t = packet_unread r" "pk_position t = pk_position r"
    "pk_length t = pk_length r" "pk_cached t < n \<longleftrightarrow> length (packet_unread r) < n"
    "min n (length (packet_unread r)) \<le> pk_cached t"
proof -
  have a: "pk_cached r \<le> length (packet_unread r)" using assms(1) by (simp add: packet_ok_def cache_ok_def)
  have b: "pk_position r mod 8 < 8" by simp
  show "packet_ok t" "packet_unread t = packet_unread r" "pk_position t = pk_position r"
    "pk_length t = pk_length r"
    using assms refill_ok [OF assms(1)] by simp_all
  have c: "pk_cached t = (if pk_cached r < n
      then min (64 - pk_position r mod 8) (length (packet_unread r)) else pk_cached r)"
    using assms(3) refill_ok(6) [OF assms(1)] by simp
  show "pk_cached t < n \<longleftrightarrow> length (packet_unread r) < n"
    "min n (length (packet_unread r)) \<le> pk_cached t"
    unfolding c using a b assms(2) by auto
qed

lemma end_error_same: "pk_position t = pk_position r \<Longrightarrow> pk_length t = pk_length r \<Longrightarrow>
    end_error n t = end_error n r"
  by (simp add: end_error_def)

lemma read_narrow_ok:
  assumes "packet_ok r" "n \<le> 57" "n \<le> length (packet_unread r)"
  shows "\<exists>t. read_narrow_bits n r = (Ok (bits_val (take n (packet_unread r))), t) \<and>
    packet_unread t = drop n (packet_unread r) \<and> packet_ok t"
proof -
  obtain t where t: "t = (if pk_cached r < n then refill r else r)" by blast
  note t_ok = refill_if_ok [OF assms(1,2) t]
  have "n \<le> pk_cached t" using t_ok(6) assms(3) by simp
  moreover have "n \<le> 63" using assms(2) by simp
  ultimately obtain u where "consume_cached n t = (bits_val (take n (packet_unread r)), u)"
    "packet_ok u" "packet_unread u = drop n (packet_unread r)"
    using consume_cached_bits [OF t_ok(1)] t_ok(2) by metis
  then show ?thesis
    using \<open>n \<le> pk_cached t\<close> by (simp add: read_narrow_bits_def Let_def flip: t)
qed

lemma read_narrow_end:
  assumes "packet_ok r" "n \<le> 57" "length (packet_unread r) < n"
  shows "\<exists>t. read_narrow_bits n r = (Err (end_error n r), t) \<and>
    packet_unread t = packet_unread r \<and> packet_ok t"
proof -
  obtain t where t: "t = (if pk_cached r < n then refill r else r)" by blast
  note t_ok = refill_if_ok [OF assms(1,2) t]
  have "pk_cached t < n" using t_ok(5) assms(3) by simp
  then show ?thesis
    using t_ok end_error_same [OF t_ok(3,4)] by (simp add: read_narrow_bits_def Let_def flip: t)
qed

lemma nat_shift_or:
  fixes a b :: nat
  assumes "b < 2 ^ n"
  shows "push_bit n a OR b = a * 2 ^ n + b"
proof -
  have "take_bit n b = b" using assms by (simp add: take_bit_nat_eq_self)
  then have "\<not> bit b i" if "n \<le> i" for i using that by (metis bit_take_bit_iff not_le)
  then have "push_bit n a AND b = 0"
    by (intro bit_eqI) (auto simp: bit_and_iff bit_push_bit_iff)
  then show ?thesis by (simp add: push_bit_eq_mult flip: disjunctive_add_eq_or)
qed

lemma packet_read_narrow: "n \<le> 57 \<Longrightarrow> packet_read_bits n = read_narrow_bits n"
  by (simp add: packet_read_bits.simps)

interpretation pkt: bit_source packet_read_bits packet_unread packet_ok end_error
proof
  fix r :: packet_reader and n :: nat
  assume r: "packet_ok r" and n: "n \<le> 64"
  {
    assume le: "n \<le> length (packet_unread r)"
    show "\<exists>t. packet_read_bits n r = (Ok (bits_val (take n (packet_unread r))), t) \<and>
        packet_unread t = drop n (packet_unread r) \<and> packet_ok t"
    proof (cases "n \<le> 57")
      case True
      then show ?thesis using read_narrow_ok [OF r True le] by (simp add: packet_read_narrow)
    next
      case False
      let ?hi = "bits_val (take (n - 32) (packet_unread r))"
      obtain t where t: "packet_read_bits (n - 32) r = (Ok ?hi, t)"
        "packet_unread t = drop (n - 32) (packet_unread r)" "packet_ok t"
      proof -
        have "n - 32 \<le> 57" "n - 32 \<le> length (packet_unread r)" using n le by simp_all
        then show thesis using read_narrow_ok [OF r, of "n - 32"] that packet_read_narrow by auto
      qed
      let ?lo = "bits_val (take 32 (drop (n - 32) (packet_unread r)))"
      obtain u where u: "packet_read_bits 32 t = (Ok ?lo, u)"
        "packet_unread u = drop 32 (packet_unread t)" "packet_ok u"
      proof -
        have "32 \<le> length (packet_unread t)" using False le t(2) by simp
        then show thesis
          using read_narrow_ok [OF t(3), of 32] that t(2) packet_read_narrow [of 32] by auto
      qed
      have "?lo < 2 ^ length (take 32 (drop (n - 32) (packet_unread r)))" by (rule bits_val_less)
      then have "?lo < 2 ^ 32" using False le by simp
      then have "push_bit 32 ?hi OR ?lo = ?hi * 2 ^ 32 + ?lo" by (rule nat_shift_or)
      also have "\<dots> = bits_val (take n (packet_unread r))"
        using False le bits_val_append [of "take (n - 32) (packet_unread r)"
            "take 32 (drop (n - 32) (packet_unread r))"] take_add [of "n - 32" 32 "packet_unread r"]
        by simp
      finally show ?thesis
        using False n le t u
        by (simp add: packet_read_bits.simps [of n] bits_remaining_unread [OF r] run_try_step)
    qed
  next
    assume lt: "length (packet_unread r) < n"
    show "\<exists>t. packet_read_bits n r = (Err (end_error n r), t) \<and>
        packet_unread t = packet_unread r \<and> packet_ok t"
    proof (cases "n \<le> 57")
      case True
      then show ?thesis using read_narrow_end [OF r True lt] by (simp add: packet_read_narrow)
    next
      case False
      then show ?thesis
        using n lt r by (simp add: packet_read_bits.simps [of n] bits_remaining_unread [OF r])
    qed
  }
qed


section \<open>Peeking, skipping and the magnitude-and-sign read\<close>

lemma packet_new_ok:
  "8 * length bytes \<le> usize_max \<Longrightarrow>
    packet_ok (packet_new bytes) \<and> packet_unread (packet_new bytes) = packet_bits bytes"
  by (simp add: packet_new_def packet_ok_def cache_ok_def packet_unread_def word_bits_def
      map_replicate_const)

lemma with_bit_length_ok:
  "with_bit_length bytes n = Ok r \<Longrightarrow> packet_ok r \<and> packet_unread r = take n (packet_bits bytes)"
  by (auto simp: with_bit_length_def Let_def packet_ok_def cache_ok_def packet_unread_def
      word_bits_def map_replicate_const split: if_splits)

lemma peek_byte_bits:
  assumes "packet_ok r" "peek_byte r = (b, t)"
  shows "byte_bits b = take 8 (packet_unread r @ replicate 8 False)" "packet_ok t"
    "packet_unread t = packet_unread r" "min 8 (length (packet_unread r)) \<le> pk_cached t"
    "pk_position t = pk_position r" "pk_length t = pk_length r"
proof -
  have t: "t = (if pk_cached r < 8 then refill r else r)" and b: "b = ucast (drop_bit 56 (pk_cache t))"
    using assms(2) by (auto simp: peek_byte_def Let_def)
  have "(8::nat) \<le> 57" by simp
  note ok = refill_if_ok [OF assms(1) this t]
  show "packet_ok t" "packet_unread t = packet_unread r"
    "min 8 (length (packet_unread r)) \<le> pk_cached t"
    "pk_position t = pk_position r" "pk_length t = pk_length r" using ok by simp_all
  have "byte_bits b = take 8 (word_bits (pk_cache t))"
    by (rule nth_equalityI) (auto simp: byte_bits_def b bit_simps word_bits_def)
  also have "\<dots> = take 8 (packet_unread r @ replicate 8 False)"
  proof -
    have c: "word_bits (pk_cache t) =
        take (pk_cached t) (packet_unread r) @ replicate (64 - pk_cached t) False"
      "pk_cached t \<le> 64" "pk_cached t \<le> length (packet_unread r)"
      using ok(1,2) by (simp_all add: packet_ok_def cache_ok_def)
    show ?thesis
    proof (cases "8 \<le> pk_cached t")
      case True
      then show ?thesis using c by (simp add: take_append min_def)
    next
      case False
      then have "pk_cached t = length (packet_unread r)" using ok(6) c(3) by simp
      then show ?thesis using False c(1) by (simp add: take_append)
    qed
  qed
  finally show "byte_bits b = take 8 (packet_unread r @ replicate 8 False)" .
qed

lemma skip_cached_ok:
  assumes "packet_ok r" "n \<le> 57" "skip_cached n r = (b, t)"
  shows "b \<longleftrightarrow> n \<le> pk_cached r" "b \<Longrightarrow> packet_ok t \<and> packet_unread t = drop n (packet_unread r)"
    "\<not> b \<Longrightarrow> t = r"
  using assms consume_cached_bits [OF assms(1), of n]
  by (auto simp: skip_cached_def split: if_splits)

text \<open>
  The branch-free read of a magnitude and its sign agrees with reading \<open>bits\<close> bits and then, for a
  non-zero magnitude, one more.
\<close>

lemma magnitude_and_sign_some:
  assumes r: "packet_ok r" and bits: "bits \<le> 29" and len: "bits + 1 \<le> length (packet_unread r)"
  defines "m \<equiv> bits_val (take bits (packet_unread r))"
  shows "\<exists>t. read_magnitude_and_sign bits sg r =
      (Some (m, sg \<and> m \<noteq> 0 \<and> packet_unread r ! bits), t) \<and> packet_ok t \<and>
      packet_unread t = drop (bits + of_bool (sg \<and> m \<noteq> 0)) (packet_unread r)"
proof -
  obtain t where t: "t = (if pk_cached r < bits + 1 then refill r else r)" by blast
  have "bits + 1 \<le> 57" using bits by simp
  note ok = refill_if_ok [OF r this t]
  have c: "bits + 1 \<le> pk_cached t" "cache_ok t" using ok(1,6) len by (simp_all add: packet_ok_def)
  have m: "unat (drop_bit (63 - bits) (drop_bit 1 (pk_cache t))) = m"
    using cached_value [OF c(2), of bits] c(1) bits ok(2) by (simp add: m_def)
  then have nz: "drop_bit (63 - bits) (drop_bit 1 (pk_cache t)) \<noteq> 0 \<longleftrightarrow> m \<noteq> 0"
    by (metis unat_eq_0)
  have "drop_bit 63 (push_bit bits (pk_cache t)) \<noteq> 0 \<longleftrightarrow> bit (pk_cache t) (63 - bits)"
  proof -
    have "bit (drop_bit 63 (push_bit bits (pk_cache t))) i \<longleftrightarrow> i = 0 \<and> bit (pk_cache t) (63 - bits)"
      for i using bits by (auto simp: bit_simps)
    then show ?thesis by (metis bit_0_eq bit_eq_iff bot_apply bot_bool_def)
  qed
  also have "bit (pk_cache t) (63 - bits) \<longleftrightarrow> word_bits (pk_cache t) ! bits" using bits by simp
  also have "\<dots> \<longleftrightarrow> packet_unread r ! bits"
    using c(1,2) bits len ok(2) by (simp add: cache_ok_def nth_append)
  finally have neg: "drop_bit 63 (push_bit bits (pk_cache t)) \<noteq> 0 \<longleftrightarrow> packet_unread r ! bits" .
  let ?k = "bits + of_bool (sg \<and> m \<noteq> 0)"
  let ?u = "t\<lparr>pk_cache := push_bit ?k (pk_cache t), pk_cached := pk_cached t - ?k,
    pk_position := pk_position t + ?k\<rparr>"
  have "?k \<le> pk_cached t" using c(1) by simp
  from consumed_ok [OF ok(1) this refl] have "packet_ok ?u" "packet_unread ?u = drop ?k (packet_unread r)"
    using ok(2) by simp_all
  moreover have "read_magnitude_and_sign bits sg r =
      (Some (m, sg \<and> m \<noteq> 0 \<and> packet_unread r ! bits), ?u)"
    unfolding read_magnitude_and_sign_def Let_def t [symmetric] m nz neg
    using c(1) by simp
  ultimately show ?thesis by blast
qed

lemma magnitude_and_sign_none:
  assumes "packet_ok r" "bits \<le> 29" "length (packet_unread r) < bits + 1"
  shows "\<exists>t. read_magnitude_and_sign bits sg r = (None, t) \<and> packet_ok t \<and>
    packet_unread t = packet_unread r"
proof -
  obtain t where t: "t = (if pk_cached r < bits + 1 then refill r else r)" by blast
  have "bits + 1 \<le> 57" using assms(2) by simp
  note ok = refill_if_ok [OF assms(1) this t]
  have "pk_cached t < bits + 1" using ok(5) assms(3) by simp
  then show ?thesis
    unfolding read_magnitude_and_sign_def Let_def t [symmetric] using ok by simp
qed

section \<open>Properties\<close>

text \<open>
  C29: the packet reader's cache is invisible. A read of \<open>n \<le> 64\<close> bits from any reachable cache
  state returns the next \<open>n\<close> unread bits of the packet as a number and drops exactly them, or fails
  with \<open>UnexpectedEnd\<close> at the current position when fewer remain, consuming nothing; the cache
  invariant is kept either way and nothing panics.
\<close>

theorem packet_reads_are_bits:
  assumes "packet_ok r" "n \<le> 64"
  shows "case packet_read_bits n r of
      (Ok v, t) \<Rightarrow> n \<le> length (packet_unread r) \<and> v = bits_val (take n (packet_unread r)) \<and>
        packet_unread t = drop n (packet_unread r) \<and> packet_ok t
    | (Err e, t) \<Rightarrow> length (packet_unread r) < n \<and>
        e = UnexpectedEnd (pk_position r) n (pk_length r) \<and>
        packet_unread t = packet_unread r \<and> packet_ok t
    | (Panic, t) \<Rightarrow> False"
proof (cases "n \<le> length (packet_unread r)")
  case True
  then show ?thesis using pkt.read_ok [OF assms True] by auto
next
  case False
  then show ?thesis
    using pkt.read_end [OF assms] by (auto simp: end_error_def unexpected_end_def)
qed

lemma packet_reads_are_bits_witness: "fst (packet_read_bits 7 (packet_new [0b10110010])) = Ok 0b1011001"
proof -
  have ok: "packet_ok (packet_new [0b10110010])" and
    u: "packet_unread (packet_new [0b10110010]) = packet_bits [0b10110010]"
    using packet_new_ok [of "[0b10110010]"] by simp_all
  have bits: "bits_val (take 7 (packet_bits [0b10110010])) = 0b1011001"
    by (simp add: byte_bits_def upt_rec)
  show ?thesis using packet_reads_are_bits [OF ok, of 7] bits
    by (auto split: prod.splits result.splits simp: u)
qed

text \<open>
  The fused magnitude-and-sign read agrees with reading \<open>bits \<le> 29\<close> bits and then, for a signed
  non-zero magnitude, one sign bit; it declines, without consuming input, exactly when fewer than
  \<open>bits + 1\<close> bits remain.
\<close>

theorem magnitude_and_sign_serial:
  assumes "packet_ok r" "bits \<le> 29"
  shows "case read_magnitude_and_sign bits sg r of
      (Some (m, negative), t) \<Rightarrow> bits + 1 \<le> length (packet_unread r) \<and> packet_ok t \<and>
        m = bits_val (take bits (packet_unread r)) \<and>
        negative = (sg \<and> m \<noteq> 0 \<and> packet_unread r ! bits) \<and>
        packet_unread t = drop (bits + of_bool (sg \<and> m \<noteq> 0)) (packet_unread r)
    | (None, t) \<Rightarrow> length (packet_unread r) < bits + 1 \<and> packet_ok t \<and>
        packet_unread t = packet_unread r"
proof (cases "bits + 1 \<le> length (packet_unread r)")
  case True
  then show ?thesis using magnitude_and_sign_some [OF assms True, of sg] by auto
next
  case False
  then show ?thesis using magnitude_and_sign_none [OF assms, of sg] by auto
qed

lemma magnitude_and_sign_serial_witness:
  "\<exists>t. read_magnitude_and_sign 2 True (packet_new [0b11100000]) = (Some (3, True), t)"
proof -
  have ok: "packet_ok (packet_new [0b11100000])" and
    u: "packet_unread (packet_new [0b11100000]) = packet_bits [0b11100000]"
    using packet_new_ok [of "[0b11100000]"] by simp_all
  have bits: "byte_bits 0b11100000 = [True, True, True, False, False, False, False, False]"
    by (simp add: byte_bits_def upt_rec)
  show ?thesis using magnitude_and_sign_serial [OF ok, of 2 True]
    by (auto split: prod.splits option.splits simp: u bits)
qed

end
