(* ===== verification/Adaptive.thy ===== *)
theory Adaptive
  imports Packet_Reader
begin

text \<open>
  Adaptive selection of code tables (\<open>crates/jxr-native/src/entropy/adaptive.rs\<close>). A selector
  counts, in two discriminants, how well its current table and the neighbours of that table fit
  the symbols seen so far, and moves to a neighbouring table at a context boundary. The theorems
  bound the selector: its indices always point into the tables, whatever symbols are observed.
\<close>

definition ABS_LEVEL_DELTA :: "int list" where
  "ABS_LEVEL_DELTA = [1, 0, -1, -1, -1, -1, -1]"

definition FIRST_INDEX_DELTA :: "int list list" where
  "FIRST_INDEX_DELTA = [
    [1, 1, 1, 1, 1, 0, 0, -1, 2, 1, 0, 0],
    [2, 2, -1, -1, -1, 0, -2, -1, 0, 0, -2, -1],
    [-1, 1, 0, 2, 0, 0, 0, 0, -2, 0, 1, 1],
    [0, 1, 0, 1, -2, 0, -1, -1, -2, -1, -2, -2]]"

definition INDEX_DELTA :: "int list list" where
  "INDEX_DELTA = [[-1, 1, 1, 1, 0, 1], [-2, 0, 0, 2, 0, 0], [-1, -1, 0, 1, -2, 0]]"

record adaptive_vlc =
  discrim :: "i32 \<times> i32"
  table_index :: nat
  delta_index :: "nat \<times> nat"

definition two_tables :: adaptive_vlc where
  "two_tables = \<lparr>discrim = (0, 0), table_index = 0, delta_index = (0, 0)\<rparr>"

definition multiple_tables :: adaptive_vlc where
  "multiple_tables = \<lparr>discrim = (0, 0), table_index = 1, delta_index = (0, 1)\<rparr>"

definition observe_one :: "nat \<Rightarrow> int list \<Rightarrow> adaptive_vlc \<Rightarrow> (entropy_error, adaptive_vlc) result" where
  "observe_one symbol delta v =
     let_try (index_or_panic delta symbol) (\<lambda>d.
     let_try (i32_or_panic (fst (discrim v) + d)) (\<lambda>x.
     Ok (v\<lparr>discrim := (x, snd (discrim v))\<rparr>)))"

definition observe_two :: "nat \<Rightarrow> int list list \<Rightarrow> adaptive_vlc \<Rightarrow> (entropy_error, adaptive_vlc) result" where
  "observe_two symbol delta v =
     let_try (index_or_panic delta (fst (delta_index v))) (\<lambda>row.
     let_try (index_or_panic row symbol) (\<lambda>d.
     let_try (i32_or_panic (fst (discrim v) + d)) (\<lambda>x.
     let_try (index_or_panic delta (snd (delta_index v))) (\<lambda>row.
     let_try (index_or_panic row symbol) (\<lambda>d.
     let_try (i32_or_panic (snd (discrim v) + d)) (\<lambda>y.
     Ok (v\<lparr>discrim := (x, y)\<rparr>)))))))"

text \<open>The code repeats the body of \<open>observe_two\<close> with the rows of \<open>INDEX_DELTA\<close>.\<close>

definition observe_two_index :: "nat \<Rightarrow> adaptive_vlc \<Rightarrow> (entropy_error, adaptive_vlc) result" where
  "observe_two_index symbol v = observe_two symbol INDEX_DELTA v"

definition clamp :: "int \<Rightarrow> int \<Rightarrow> int \<Rightarrow> int" where
  "clamp low high x = max low (min high x)"

definition adapt_one :: "adaptive_vlc \<Rightarrow> adaptive_vlc" where
  "adapt_one v =
     (case discrim v of (d0, d1) \<Rightarrow>
       if d0 < -8 \<and> table_index v \<noteq> 0
       then v\<lparr>table_index := table_index v - 1, discrim := (0, d1)\<rparr>
       else if 8 < d0 \<and> table_index v \<noteq> 1
       then v\<lparr>table_index := table_index v + 1, discrim := (0, d1)\<rparr>
       else v\<lparr>discrim := (clamp (-64) 64 d0, d1)\<rparr>)"

definition adapt_two :: "nat \<Rightarrow> adaptive_vlc \<Rightarrow> adaptive_vlc" where
  "adapt_two max_table_index v =
     (case discrim v of (d0, d1) \<Rightarrow>
       let (changed, w) =
         (if d0 < -8 \<and> table_index v \<noteq> 0
          then (True, v\<lparr>table_index := table_index v - 1\<rparr>)
          else if 8 < d1 \<and> table_index v \<noteq> max_table_index
          then (True, v\<lparr>table_index := table_index v + 1\<rparr>)
          else (False, v))
       in if changed then
            w\<lparr>discrim := (0, 0), delta_index :=
              (if table_index w = max_table_index then (table_index w - 1, table_index w - 1)
               else if table_index w = 0 then (0, 0)
               else (table_index w - 1, table_index w))\<rparr>
          else w\<lparr>discrim := (clamp (-64) 64 d0, clamp (-64) 64 d1)\<rparr>)"

definition observe_abs_level :: "nat \<Rightarrow> adaptive_vlc \<Rightarrow> (entropy_error, adaptive_vlc) result" where
  "observe_abs_level symbol v = observe_one symbol ABS_LEVEL_DELTA v"

definition observe_first_index :: "nat \<Rightarrow> adaptive_vlc \<Rightarrow> (entropy_error, adaptive_vlc) result" where
  "observe_first_index symbol v = observe_two symbol FIRST_INDEX_DELTA v"

definition observe_index :: "nat \<Rightarrow> adaptive_vlc \<Rightarrow> (entropy_error, adaptive_vlc) result" where
  "observe_index symbol v = observe_two_index symbol v"

section \<open>The states of the bands\<close>

text \<open>An array of two selectors indexed by a flag is a pair.\<close>

definition side :: "bool \<Rightarrow> 'a \<times> 'a \<Rightarrow> 'a" where
  "side b p = (if b then snd p else fst p)"

definition put_side :: "bool \<Rightarrow> 'a \<Rightarrow> 'a \<times> 'a \<Rightarrow> 'a \<times> 'a" where
  "put_side b x p = (if b then (fst p, x) else (x, snd p))"

definition both :: "('a \<Rightarrow> 'a) \<Rightarrow> 'a \<times> 'a \<Rightarrow> 'a \<times> 'a" where
  "both f p = (f (fst p), f (snd p))"

definition on_both :: "('a \<Rightarrow> bool) \<Rightarrow> 'a \<times> 'a \<Rightarrow> bool" where
  "on_both P p \<longleftrightarrow> P (fst p) \<and> P (snd p)"

lemma on_both_simps [simp]:
  "on_both P p \<Longrightarrow> P (side b p)" "on_both P p \<Longrightarrow> P x \<Longrightarrow> on_both P (put_side b x p)"
  "on_both P (x, y) \<longleftrightarrow> P x \<and> P y"
  by (auto simp: on_both_def side_def put_side_def)

lemma on_both_both: "on_both P p \<Longrightarrow> (\<And>x. P x \<Longrightarrow> Q (f x)) \<Longrightarrow> on_both Q (both f p)"
  by (auto simp: on_both_def both_def)

lemma on_both_mono: "on_both P p \<Longrightarrow> (\<And>x. P x \<Longrightarrow> Q x) \<Longrightarrow> on_both Q p"
  by (auto simp: on_both_def)

record dc_vlc_state =
  dc_abs_level :: "adaptive_vlc \<times> adaptive_vlc"

definition dc_vlc_new :: dc_vlc_state where
  "dc_vlc_new = \<lparr>dc_abs_level = (two_tables, two_tables)\<rparr>"

definition dc_reset_tile :: "dc_vlc_state \<Rightarrow> dc_vlc_state" where
  "dc_reset_tile s = dc_vlc_new"

definition dc_adapt :: "dc_vlc_state \<Rightarrow> dc_vlc_state" where
  "dc_adapt s = s\<lparr>dc_abs_level := both adapt_one (dc_abs_level s)\<rparr>"

record ac_vlc_state =
  ac_first_index :: "adaptive_vlc \<times> adaptive_vlc"
  ac_index :: "(adaptive_vlc \<times> adaptive_vlc) \<times> (adaptive_vlc \<times> adaptive_vlc)"
  ac_abs_level :: "adaptive_vlc \<times> adaptive_vlc"

definition ac_vlc_new :: ac_vlc_state where
  "ac_vlc_new = \<lparr>ac_first_index = (multiple_tables, multiple_tables),
     ac_index = ((multiple_tables, multiple_tables), (multiple_tables, multiple_tables)),
     ac_abs_level = (two_tables, two_tables)\<rparr>"

definition ac_reset_tile :: "ac_vlc_state \<Rightarrow> ac_vlc_state" where
  "ac_reset_tile s = ac_vlc_new"

definition ac_adapt :: "ac_vlc_state \<Rightarrow> ac_vlc_state" where
  "ac_adapt s = s\<lparr>ac_first_index := both (adapt_two 4) (ac_first_index s),
     ac_index := both (both (adapt_two 3)) (ac_index s),
     ac_abs_level := both adapt_one (ac_abs_level s)\<rparr>"

section \<open>The selector invariant\<close>

text \<open>
  A selector over tables \<open>0..m\<close> whose discriminants are at most \<open>B\<close> away from zero; with two
  tables only the first one is used. The delta rows are those of the two gaps next to the current table.
\<close>

definition bounded :: "int \<Rightarrow> adaptive_vlc \<Rightarrow> bool" where
  "bounded B v \<longleftrightarrow> \<bar>fst (discrim v)\<bar> \<le> B \<and> \<bar>snd (discrim v)\<bar> \<le> B"

definition two_ok :: "int \<Rightarrow> adaptive_vlc \<Rightarrow> bool" where
  "two_ok B v \<longleftrightarrow> table_index v \<le> 1 \<and> bounded B v \<and> snd (discrim v) = 0"

definition multi_ok :: "nat \<Rightarrow> int \<Rightarrow> adaptive_vlc \<Rightarrow> bool" where
  "multi_ok m B v \<longleftrightarrow> table_index v \<le> m \<and>
     delta_index v = (table_index v - 1, min (table_index v) (m - 1)) \<and> bounded B v"

lemma two_tables_ok: "0 \<le> B \<Longrightarrow> two_ok B two_tables"
  by (simp add: two_ok_def two_tables_def bounded_def)

lemma multiple_tables_ok: "0 \<le> B \<Longrightarrow> 2 \<le> m \<Longrightarrow> multi_ok m B multiple_tables"
  by (simp add: multi_ok_def multiple_tables_def bounded_def)

lemma clamp_smaller: "\<bar>x\<bar> \<le> B \<Longrightarrow> \<bar>clamp (-64) 64 x\<bar> \<le> B"
  and clamp_64: "\<bar>clamp (-64) 64 x\<bar> \<le> 64"
  by (auto simp: clamp_def)

lemma bounded_mono: "bounded B v \<Longrightarrow> B \<le> C \<Longrightarrow> bounded C v"
  by (auto simp: bounded_def)

lemma adapt_one_ok: "two_ok B v \<Longrightarrow> two_ok B (adapt_one v)"
  by (auto simp: two_ok_def bounded_def adapt_one_def clamp_smaller split: prod.splits)

lemma adapt_two_ok: "multi_ok m B v \<Longrightarrow> 0 < m \<Longrightarrow> multi_ok m B (adapt_two m v)"
  by (auto simp: multi_ok_def bounded_def adapt_two_def Let_def clamp_smaller split: prod.splits if_splits)

lemma adapt_one_settles: "two_ok B v \<Longrightarrow> two_ok 64 (adapt_one v)"
  by (auto simp: two_ok_def bounded_def adapt_one_def clamp_64 split: prod.splits)

lemma adapt_two_settles: "multi_ok m B v \<Longrightarrow> 0 < m \<Longrightarrow> multi_ok m 64 (adapt_two m v)"
  by (auto simp: multi_ok_def bounded_def adapt_two_def Let_def clamp_64 split: prod.splits if_splits)

text \<open>Rows of small deltas, as wide as the alphabet.\<close>

definition small_deltas :: "nat \<Rightarrow> int list \<Rightarrow> bool" where
  "small_deltas n ds \<longleftrightarrow> length ds = n \<and> list_all (\<lambda>d. \<bar>d\<bar> \<le> 2) ds"

lemma small_deltas_nth: "small_deltas n ds \<Longrightarrow> s < n \<Longrightarrow> s < length ds \<and> \<bar>ds ! s\<bar> \<le> 2"
  by (simp add: small_deltas_def list_all_length)

lemma normative_deltas:
  "small_deltas 7 ABS_LEVEL_DELTA" "list_all (small_deltas 12) FIRST_INDEX_DELTA"
  "list_all (small_deltas 6) INDEX_DELTA" "length FIRST_INDEX_DELTA = 4" "length INDEX_DELTA = 3"
  by (simp_all add: small_deltas_def ABS_LEVEL_DELTA_def FIRST_INDEX_DELTA_def INDEX_DELTA_def)

lemma observe_one_ok:
  assumes "two_ok B v" "small_deltas n delta" "s < n" "B + 2 \<le> i32_max"
  shows "\<exists>w. observe_one s delta v = Ok w \<and> two_ok (B + 2) w \<and> table_index w = table_index v"
  using assms small_deltas_nth [OF assms(2,3)]
  by (auto simp: observe_one_def two_ok_def bounded_def outcome_simps in_i32_def i32_or_panic_def)

lemma observe_two_ok:
  assumes v: "multi_ok m B v" and rows: "list_all (small_deltas n) delta" "length delta = m"
    and "0 < m" "s < n" "B + 2 \<le> i32_max"
  shows "\<exists>w. observe_two s delta v = Ok w \<and> multi_ok m (B + 2) w \<and> table_index w = table_index v"
proof -
  have d: "s < length (delta ! i) \<and> \<bar>delta ! i ! s\<bar> \<le> 2" if "i < m" for i
    using rows small_deltas_nth [of n "delta ! i" s] assms(5) that by (simp add: list_all_length)
  have i: "fst (delta_index v) < m" "snd (delta_index v) < m"
    using v assms(4) by (auto simp: multi_ok_def)
  have "\<bar>fst (discrim v)\<bar> \<le> B" "\<bar>snd (discrim v)\<bar> \<le> B"
    using v by (simp_all add: multi_ok_def bounded_def)
  then have "in_i32 (fst (discrim v) + delta ! fst (delta_index v) ! s)"
    "in_i32 (snd (discrim v) + delta ! snd (delta_index v) ! s)"
    "\<bar>fst (discrim v) + delta ! fst (delta_index v) ! s\<bar> \<le> B + 2"
    "\<bar>snd (discrim v) + delta ! snd (delta_index v) ! s\<bar> \<le> B + 2"
    unfolding in_i32_def using d [OF i(1)] d [OF i(2)] assms(6) by linarith+
  then show ?thesis using v d [OF i(1)] d [OF i(2)] i rows(2)
    by (simp add: observe_two_def i32_or_panic_def multi_ok_def bounded_def)
qed

section \<open>Runs of a selector\<close>

text \<open>
  The life of a selector between two tile resets: observations of symbols and adaptations at
  context boundaries, in any order.
\<close>

datatype vlc_event = Observe nat | Adapt

definition vlc_step :: "(nat \<Rightarrow> adaptive_vlc \<Rightarrow> (entropy_error, adaptive_vlc) result) \<Rightarrow>
    (adaptive_vlc \<Rightarrow> adaptive_vlc) \<Rightarrow> vlc_event \<Rightarrow> adaptive_vlc \<Rightarrow> (entropy_error, adaptive_vlc) result" where
  "vlc_step observe adapt e v = (case e of Observe s \<Rightarrow> observe s v | Adapt \<Rightarrow> Ok (adapt v))"

definition legal_event :: "nat \<Rightarrow> vlc_event \<Rightarrow> bool" where
  "legal_event n e = (case e of Observe s \<Rightarrow> s < n | Adapt \<Rightarrow> True)"

text \<open>
  The contract of a kind of selector, whatever its tables: its invariant survives observations of
  the alphabet, with discriminants that grow by at most two, and adaptations.
\<close>

locale selector =
  fixes observe :: "nat \<Rightarrow> adaptive_vlc \<Rightarrow> (entropy_error, adaptive_vlc) result"
    and adapt :: "adaptive_vlc \<Rightarrow> adaptive_vlc"
    and ok :: "int \<Rightarrow> adaptive_vlc \<Rightarrow> bool"
    and tables alphabet :: nat
  assumes observes: "ok B v \<Longrightarrow> s < alphabet \<Longrightarrow> B + 2 \<le> i32_max \<Longrightarrow>
      \<exists>w. observe s v = Ok w \<and> ok (B + 2) w \<and> table_index w = table_index v"
    and adapts: "ok B v \<Longrightarrow> ok B (adapt v)"
    and weakens: "ok B v \<Longrightarrow> B \<le> C \<Longrightarrow> ok C v"
    and in_tables: "ok B v \<Longrightarrow> table_index v < tables"
begin

lemma step_ok:
  assumes "ok B v" "legal_event alphabet e" "B + 2 \<le> i32_max"
  shows "\<exists>w. vlc_step observe adapt e v = Ok w \<and> ok (B + 2) w"
proof (cases e)
  case (Observe s)
  then show ?thesis using observes [OF assms(1) _ assms(3), of s] assms(2)
    by (auto simp: vlc_step_def legal_event_def)
next
  case Adapt
  then show ?thesis using weakens [OF adapts [OF assms(1)], of "B + 2"] by (simp add: vlc_step_def)
qed

lemma run_ok:
  assumes "ok B v" "list_all (legal_event alphabet) es" "B + 2 * int (length es) \<le> i32_max"
  shows "\<exists>w. each_try (vlc_step observe adapt) es v = Ok w \<and> ok (B + 2 * int (length es)) w"
  using assms
proof (induction es arbitrary: B v)
  case (Cons e es)
  then obtain w where w: "vlc_step observe adapt e v = Ok w" "ok (B + 2) w"
    using step_ok [of B v e] by auto
  with Cons.IH [of "B + 2" w] Cons.prems show ?case by (simp add: algebra_simps)
qed simp

lemma observe_run:
  assumes "ok B v" "list_all (\<lambda>s. s < alphabet) ss" "B + 2 * int (length ss) \<le> i32_max"
  shows "\<exists>w. each_try observe ss v = Ok w \<and> ok (B + 2 * int (length ss)) w \<and>
    table_index w = table_index v"
  using assms
proof (induction ss arbitrary: B v)
  case (Cons s ss)
  then obtain w where w: "observe s v = Ok w" "ok (B + 2) w" "table_index w = table_index v"
    using observes [of B v s] by auto
  with Cons.IH [of "B + 2" w] Cons.prems show ?case by (simp add: algebra_simps)
qed simp

end

lemma two_ok_mono: "two_ok B v \<Longrightarrow> B \<le> C \<Longrightarrow> two_ok C v"
  by (auto simp: two_ok_def bounded_mono)

lemma multi_ok_mono: "multi_ok m B v \<Longrightarrow> B \<le> C \<Longrightarrow> multi_ok m C v"
  by (auto simp: multi_ok_def bounded_mono)

lemma two_ok_in: "two_ok B v \<Longrightarrow> table_index v < 2"
  by (simp add: two_ok_def)

lemma multi_ok_in: "multi_ok m B v \<Longrightarrow> table_index v < Suc m"
  by (simp add: multi_ok_def)

interpretation abs_level: selector observe_abs_level adapt_one two_ok 2 7
proof
  show "\<exists>w. observe_abs_level s v = Ok w \<and> two_ok (B + 2) w \<and> table_index w = table_index v"
    if "two_ok B v" "s < 7" "B + 2 \<le> i32_max" for B v s
    unfolding observe_abs_level_def by (rule observe_one_ok [OF that(1) normative_deltas(1) that(2,3)])
qed (blast intro: adapt_one_ok two_ok_mono two_ok_in)+

interpretation first_index: selector observe_first_index "adapt_two 4" "multi_ok 4" 5 12
proof
  show "\<exists>w. observe_first_index s v = Ok w \<and> multi_ok 4 (B + 2) w \<and> table_index w = table_index v"
    if "multi_ok 4 B v" "s < 12" "B + 2 \<le> i32_max" for B v s
    unfolding observe_first_index_def
    by (rule observe_two_ok [OF that(1) normative_deltas(2,4) _ that(2,3)]) simp
qed (use adapt_two_ok [of 4] multi_ok_mono [of 4] multi_ok_in [of 4] in simp_all)

interpretation index_a: selector observe_index "adapt_two 3" "multi_ok 3" 4 6
proof
  show "\<exists>w. observe_index s v = Ok w \<and> multi_ok 3 (B + 2) w \<and> table_index w = table_index v"
    if "multi_ok 3 B v" "s < 6" "B + 2 \<le> i32_max" for B v s
    unfolding observe_index_def observe_two_index_def
    by (rule observe_two_ok [OF that(1) normative_deltas(3,5) _ that(2,3)]) simp
qed (use adapt_two_ok [of 3] multi_ok_mono [of 3] multi_ok_in [of 3] in simp_all)

section \<open>Invariants of the band states\<close>

definition dc_ok :: "int \<Rightarrow> dc_vlc_state \<Rightarrow> bool" where
  "dc_ok B s \<longleftrightarrow> on_both (two_ok B) (dc_abs_level s)"

definition ac_ok :: "int \<Rightarrow> ac_vlc_state \<Rightarrow> bool" where
  "ac_ok B s \<longleftrightarrow> on_both (multi_ok 4 B) (ac_first_index s) \<and>
     on_both (on_both (multi_ok 3 B)) (ac_index s) \<and> on_both (two_ok B) (ac_abs_level s)"

lemma dc_vlc_new_ok: "0 \<le> B \<Longrightarrow> dc_ok B dc_vlc_new"
  by (simp add: dc_ok_def dc_vlc_new_def two_tables_ok)

lemma ac_vlc_new_ok: "0 \<le> B \<Longrightarrow> ac_ok B ac_vlc_new"
  by (simp add: ac_ok_def ac_vlc_new_def two_tables_ok multiple_tables_ok)

lemma dc_adapt_ok: "dc_ok B s \<Longrightarrow> dc_ok B (dc_adapt s)"
  by (auto simp: dc_ok_def dc_adapt_def intro: on_both_both adapt_one_ok)

lemma ac_adapt_ok: "ac_ok B s \<Longrightarrow> ac_ok B (ac_adapt s)"
  by (auto simp: ac_ok_def ac_adapt_def intro!: adapt_one_ok adapt_two_ok elim!: on_both_both)

lemma dc_adapt_settles: "dc_ok B s \<Longrightarrow> dc_ok 64 (dc_adapt s)"
  by (auto simp: dc_ok_def dc_adapt_def intro: on_both_both adapt_one_settles)

lemma ac_adapt_settles: "ac_ok B s \<Longrightarrow> ac_ok 64 (ac_adapt s)"
  by (auto simp: ac_ok_def ac_adapt_def intro!: adapt_one_settles adapt_two_settles elim!: on_both_both)

lemma ac_ok_mono: "ac_ok B s \<Longrightarrow> B \<le> C \<Longrightarrow> ac_ok C s"
  by (auto simp: ac_ok_def elim!: on_both_mono intro: two_ok_mono multi_ok_mono)

lemma dc_ok_mono: "dc_ok B s \<Longrightarrow> B \<le> C \<Longrightarrow> dc_ok C s"
  by (auto simp: dc_ok_def elim!: on_both_mono intro: two_ok_mono)

section \<open>Properties\<close>

lemma adapt_keeps_table:
  "two_ok 8 v \<Longrightarrow> table_index (adapt_one v) = table_index v"
  "multi_ok m 8 v \<Longrightarrow> table_index (adapt_two m v) = table_index v"
  by (auto simp: two_ok_def multi_ok_def bounded_def adapt_one_def adapt_two_def Let_def
      split: prod.splits)

text \<open>
  An adaptive selector never leaves its tables. Whatever symbols of its alphabet are observed
  and wherever it is adapted, in any order and up to a billion events, the three kinds of selector
  never panic (no delta row or symbol out of range, no overflow), the selected table exists, and
  the two delta rows of a multi-table selector are those of the gaps next to that table.
\<close>

theorem selectors_stay_in_tables:
  assumes "length es \<le> 1000000000"
  shows "(list_all (legal_event 7) es \<longrightarrow>
      (\<exists>w. each_try (vlc_step observe_abs_level adapt_one) es two_tables = Ok w \<and> table_index w < 2)) \<and>
    (list_all (legal_event 12) es \<longrightarrow>
      (\<exists>w. each_try (vlc_step observe_first_index (adapt_two 4)) es multiple_tables = Ok w \<and>
        table_index w < 5 \<and> delta_index w = (table_index w - 1, min (table_index w) 3))) \<and>
    (list_all (legal_event 6) es \<longrightarrow>
      (\<exists>w. each_try (vlc_step observe_index (adapt_two 3)) es multiple_tables = Ok w \<and>
        table_index w < 4 \<and> delta_index w = (table_index w - 1, min (table_index w) 2)))"
proof -
  have small: "0 + 2 * int (length es) \<le> i32_max" using assms by simp
  show ?thesis
    using abs_level.run_ok [OF two_tables_ok [OF order_refl] _ small]
      first_index.run_ok [OF multiple_tables_ok [OF order_refl] _ small]
      index_a.run_ok [OF multiple_tables_ok [OF order_refl] _ small]
    by (auto simp: two_ok_def multi_ok_def less_Suc_eq_le)
qed

lemma selectors_stay_in_tables_witness:
  "\<exists>w. each_try (vlc_step observe_first_index (adapt_two 4))
      [Observe 8, Observe 8, Observe 8, Observe 8, Observe 9, Observe 8, Adapt] multiple_tables =
      Ok w \<and> table_index w < 5 \<and> delta_index w = (table_index w - 1, min (table_index w) 3)"
  using selectors_stay_in_tables
    [of "[Observe 8, Observe 8, Observe 8, Observe 8, Observe 9, Observe 8, Adapt]"]
  by (simp add: legal_event_def)

text \<open>
  Selectors have hysteresis. After a move (which clears the discriminants) at least five more
  symbols are needed before an adaptation can move the selector again, whichever its kind, table
  and symbols.
\<close>

theorem selector_hysteresis:
  assumes "length ss \<le> 4"
  shows "(two_ok 0 v \<longrightarrow> list_all (\<lambda>s. s < 7) ss \<longrightarrow>
      (\<exists>w. each_try observe_abs_level ss v = Ok w \<and> table_index (adapt_one w) = table_index v)) \<and>
    (multi_ok 4 0 v \<longrightarrow> list_all (\<lambda>s. s < 12) ss \<longrightarrow>
      (\<exists>w. each_try observe_first_index ss v = Ok w \<and>
        table_index (adapt_two 4 w) = table_index v)) \<and>
    (multi_ok 3 0 v \<longrightarrow> list_all (\<lambda>s. s < 6) ss \<longrightarrow>
      (\<exists>w. each_try observe_index ss v = Ok w \<and> table_index (adapt_two 3 w) = table_index v))"
proof -
  have small: "0 + 2 * int (length ss) \<le> 8" "0 + 2 * int (length ss) \<le> i32_max"
    using assms by simp_all
  show ?thesis
    using abs_level.observe_run [of 0 v ss] first_index.observe_run [of 0 v ss]
      index_a.observe_run [of 0 v ss] adapt_keeps_table two_ok_mono [OF _ small(1)]
      multi_ok_mono [OF _ small(1)] small
    by fastforce
qed

lemma selector_hysteresis_witness:
  "\<exists>w. each_try observe_first_index [0, 0, 0, 0] multiple_tables = Ok w \<and>
    table_index (adapt_two 4 w) = table_index multiple_tables"
  using selector_hysteresis [of "[0, 0, 0, 0]" multiple_tables] multiple_tables_ok [of 0 4]
  by simp

end
