(* ===== verification/Scan.thy ===== *)
theory Scan
  imports Packet_Reader "HOL-Library.Multiset"
begin

text \<open>
  The adaptive inverse scans (\<open>crates/jxr-native/src/entropy/scan.rs\<close>): a permutation of the
  sixteen positions of a block that drifts, one adjacent swap at a time, towards the order of
  frequency of non-zero coefficients. The theorems show that it stays a permutation that fixes the
  DC position and that a block's coefficients land where the order at the start of the block puts
  them, although the order changes while they are placed.
\<close>

definition SCAN_ORDER_0 :: "nat list" where
  "SCAN_ORDER_0 = [0, 4, 1, 5, 8, 2, 9, 6, 12, 3, 10, 13, 7, 14, 11, 15]"

definition SCAN_ORDER_1 :: "nat list" where
  "SCAN_ORDER_1 = [0, 1, 2, 5, 4, 3, 6, 9, 8, 7, 12, 15, 13, 10, 11, 14]"

definition SCAN_TOTALS :: "i32 list" where
  "SCAN_TOTALS = [0, 32, 30, 28, 26, 24, 22, 20, 18, 16, 14, 12, 10, 8, 6, 4]"

text \<open>
  The three borrowed arrays are the order, the totals and the output block.
\<close>

definition place_and_adapt ::
  "nat \<Rightarrow> i32 \<Rightarrow> (nat list \<times> i32 list \<times> i32 list, entropy_error, unit) action" where
  "place_and_adapt scan_index value = (\<lambda>(order, totals, out).
     if \<not> (1 \<le> scan_index \<and> scan_index \<le> 15)
     then (Err (InvalidParameter ''adaptive scan index'' (int scan_index)), (order, totals, out))
     else case
       let_try (index_or_panic order scan_index) (\<lambda>position.
       let_try (index_or_panic out position) (\<lambda>_.
       let_try (index_or_panic totals scan_index) (\<lambda>tally.
       let_try (i32_or_panic (tally + 1)) (\<lambda>tally.
       let_try (index_or_panic totals (scan_index - 1)) (\<lambda>previous.
       Ok (position, tally, previous)))))) of
       Ok (position, tally, previous) \<Rightarrow>
         let out = out[position := value]; totals = totals[scan_index := tally]
         in if 1 < scan_index \<and> previous < tally
            then (Ok (), (swap_values (scan_index, scan_index - 1) order,
              swap_values (scan_index, scan_index - 1) totals, out))
            else (Ok (), (order, totals, out))
     | Err e \<Rightarrow> (Err e, (order, totals, out))
     | Panic \<Rightarrow> (Panic, (order, totals, out)))"

record lp_scan =
  lp_order :: "nat list"
  lp_totals :: "i32 list"

definition lp_scan_new :: lp_scan where
  "lp_scan_new = \<lparr>lp_order = SCAN_ORDER_0, lp_totals = SCAN_TOTALS\<rparr>"

definition lp_reset_tile :: "lp_scan \<Rightarrow> lp_scan" where
  "lp_reset_tile scan = lp_scan_new"

definition lp_reset_totals :: "lp_scan \<Rightarrow> lp_scan" where
  "lp_reset_totals scan = scan\<lparr>lp_totals := SCAN_TOTALS\<rparr>"

definition lp_place :: "nat \<Rightarrow> i32 \<Rightarrow> (lp_scan \<times> i32 list, entropy_error, unit) action" where
  "lp_place scan_index value = (\<lambda>(scan, out).
     case place_and_adapt scan_index value (lp_order scan, lp_totals scan, out) of
       (r, order, totals, out) \<Rightarrow> (r, scan\<lparr>lp_order := order, lp_totals := totals\<rparr>, out))"

datatype hp_scan_direction = Horizontal | Vertical

record hp_scan =
  horizontal_order :: "nat list"
  vertical_order :: "nat list"
  horizontal_totals :: "i32 list"
  vertical_totals :: "i32 list"

definition hp_scan_new :: hp_scan where
  "hp_scan_new = \<lparr>horizontal_order = SCAN_ORDER_0, vertical_order = SCAN_ORDER_1,
     horizontal_totals = SCAN_TOTALS, vertical_totals = SCAN_TOTALS\<rparr>"

definition hp_reset_tile :: "hp_scan \<Rightarrow> hp_scan" where
  "hp_reset_tile scan = hp_scan_new"

definition hp_reset_totals :: "hp_scan \<Rightarrow> hp_scan" where
  "hp_reset_totals scan = scan\<lparr>horizontal_totals := SCAN_TOTALS, vertical_totals := SCAN_TOTALS\<rparr>"

definition hp_place ::
  "hp_scan_direction \<Rightarrow> nat \<Rightarrow> i32 \<Rightarrow> (hp_scan \<times> i32 list, entropy_error, unit) action" where
  "hp_place direction scan_index value = (\<lambda>(scan, out).
     case direction of
       Horizontal \<Rightarrow>
         (case place_and_adapt scan_index value
             (horizontal_order scan, horizontal_totals scan, out) of
           (r, order, totals, out) \<Rightarrow>
             (r, scan\<lparr>horizontal_order := order, horizontal_totals := totals\<rparr>, out))
     | Vertical \<Rightarrow>
         (case place_and_adapt scan_index value
             (vertical_order scan, vertical_totals scan, out) of
           (r, order, totals, out) \<Rightarrow>
             (r, scan\<lparr>vertical_order := order, vertical_totals := totals\<rparr>, out)))"

definition hp_order :: "hp_scan_direction \<Rightarrow> hp_scan \<Rightarrow> nat list" where
  "hp_order direction scan =
     (case direction of Horizontal \<Rightarrow> horizontal_order scan | Vertical \<Rightarrow> vertical_order scan)"

section \<open>One placement\<close>

text \<open>The order permutes the sixteen positions and keeps DC first; no total exceeds \<open>B\<close>.\<close>

definition permutes :: "nat list \<Rightarrow> bool" where
  "permutes order \<longleftrightarrow> mset order = mset [0..<16] \<and> hd order = 0"

definition scan_ok :: "int \<Rightarrow> nat list \<Rightarrow> i32 list \<Rightarrow> bool" where
  "scan_ok B order totals \<longleftrightarrow> permutes order \<and> length totals = 16 \<and> (\<forall>t\<in>set totals. 0 \<le> t \<and> t \<le> B)"

lemma permutes_facts:
  assumes "permutes order"
  shows "length order = 16" "distinct order" "set order = {..<16}" "i < 16 \<Longrightarrow> order ! i < 16"
proof -
  have m: "mset order = mset [0..<16]" using assms unfolding permutes_def by (rule conjunct1)
  show l: "length order = 16" using mset_eq_length [OF m] by (simp only: length_upt)
  show "distinct order" using mset_eq_imp_distinct_iff [OF m] distinct_upt by blast
  show s: "set order = {..<16}" using mset_eq_setD [OF m] by (simp only: set_upt lessThan_atLeast0)
  show "order ! i < 16" if "i < 16" using nth_mem [of i order] that unfolding s l by (simp only: lessThan_iff)
qed

lemma swap_values_mset: "i < length xs \<Longrightarrow> j < length xs \<Longrightarrow> mset (swap_values (i, j) xs) = mset xs"
  by (simp add: swap_values_def mset_swap)

lemma swap_values_set: "i < length xs \<Longrightarrow> j < length xs \<Longrightarrow> set (swap_values (i, j) xs) = set xs"
  by (rule mset_eq_setD [OF swap_values_mset])

lemma swap_values_length [simp]: "length (swap_values (i, j) xs) = length xs"
  by (simp add: swap_values_def)

lemma swap_values_other: "k \<noteq> i \<Longrightarrow> k \<noteq> j \<Longrightarrow> swap_values (i, j) xs ! k = xs ! k"
  by (simp add: swap_values_def)

lemma swap_keeps_permutes:
  assumes "permutes order" "1 < i" "i < 16"
  shows "permutes (swap_values (i, i - 1) order)"
proof -
  have len: "length order = 16" by (rule permutes_facts [OF assms(1)])
  then have ne: "order \<noteq> []" "swap_values (i, i - 1) order \<noteq> []"
    by (auto simp flip: length_0_conv)
  have "swap_values (i, i - 1) order ! 0 = order ! 0"
    using assms(2) by (intro swap_values_other) simp_all
  moreover have "mset (swap_values (i, i - 1) order) = mset order"
    using len assms(2,3) by (intro swap_values_mset) simp_all
  ultimately show ?thesis using assms(1) unfolding permutes_def hd_conv_nth [OF ne(2)]
    by (simp only: hd_conv_nth [OF ne(1)])
qed

text \<open>A placement writes one value, to the destination that the order gives now.\<close>

lemma place_ok:
  assumes "scan_ok B order totals" "length out = 16" "1 \<le> i" "i \<le> 15" "B + 1 \<le> i32_max"
  shows "\<exists>order' totals'. place_and_adapt i v (order, totals, out) =
      (Ok (), order', totals', out[order ! i := v]) \<and> scan_ok (B + 1) order' totals' \<and>
      (\<forall>j. j < i - 1 \<or> i < j \<longrightarrow> order' ! j = order ! j)"
proof -
  have p: "permutes order" and tl: "length totals = 16"
    and tb: "\<And>t. t \<in> set totals \<Longrightarrow> 0 \<le> t \<and> t \<le> B"
    using assms(1) by (auto simp: scan_ok_def)
  have ol: "length order = 16" "order ! i < 16" using permutes_facts [OF p] assms(4) by simp_all
  let ?t = "totals ! i + 1" and ?u = "totals[i := totals ! i + 1]"
  have "0 \<le> totals ! i \<and> totals ! i \<le> B" using tb nth_mem [of i totals] assms(4) tl by simp
  then have t: "in_i32 ?t" "0 \<le> ?t" "?t \<le> B + 1" using assms(5) by (auto simp: in_i32_def)
  have u: "0 \<le> x \<and> x \<le> B + 1" if "x \<in> set ?u" for x
    using that set_update_subset_insert [of totals i ?t] tb t by fastforce
  have i: "i < 16" "i - 1 < 16" using assms(4) by simp_all
  have place: "place_and_adapt i v (order, totals, out) =
      (if 1 < i \<and> totals ! (i - 1) < ?t
       then (Ok (), swap_values (i, i - 1) order, swap_values (i, i - 1) ?u, out[order ! i := v])
       else (Ok (), order, ?u, out[order ! i := v]))"
    using assms(2-4) ol tl t(1) i by (simp add: place_and_adapt_def i32_or_panic_def Let_def)
  show ?thesis
  proof (cases "1 < i \<and> totals ! (i - 1) < ?t")
    case True
    have "scan_ok (B + 1) (swap_values (i, i - 1) order) (swap_values (i, i - 1) ?u)"
      unfolding scan_ok_def
      using swap_keeps_permutes [OF p _ i(1)] True u i by (simp add: tl swap_values_set)
    then show ?thesis using True by (simp add: place swap_values_other)
  next
    case False
    have "scan_ok (B + 1) order ?u" unfolding scan_ok_def using p u by (simp add: tl)
    then show ?thesis by (simp only: place False if_False) blast
  qed
qed

lemma place_rejects:
  "\<not> (1 \<le> i \<and> i \<le> 15) \<Longrightarrow> place_and_adapt i v s =
    (Err (InvalidParameter ''adaptive scan index'' (int i)), s)"
  by (cases s) (simp add: place_and_adapt_def)

section \<open>A block of placements\<close>

text \<open>\<open>place(index, level)?\<close> for the coefficients of a block, in codestream order.\<close>

fun place_each ::
  "(nat \<Rightarrow> i32 \<Rightarrow> ('s, 'e, unit) action) \<Rightarrow> (nat \<times> i32) list \<Rightarrow> ('s, 'e, unit) action" where
  "place_each place [] = give ()"
| "place_each place ((i, v) # ivs) = run_try (place i v) (\<lambda>_. place_each place ivs)"

text \<open>The block that has each value where \<open>order\<close> sends its index.\<close>

definition scattered :: "nat list \<Rightarrow> (nat \<times> i32) list \<Rightarrow> i32 list \<Rightarrow> i32 list" where
  "scattered order ivs out = foldl (\<lambda>out (i, v). out[order ! i := v]) out ivs"

fun increasing :: "nat \<Rightarrow> (nat \<times> i32) list \<Rightarrow> bool" where
  "increasing low [] = True"
| "increasing low ((i, v) # ivs) \<longleftrightarrow> low \<le> i \<and> i \<le> 15 \<and> increasing (Suc i) ivs"

lemma scattered_length [simp]: "length (scattered order ivs out) = length out"
  unfolding scattered_def by (induction ivs arbitrary: out) auto

lemma scattered_cong:
  assumes "increasing low ivs" "\<And>j. low \<le> j \<Longrightarrow> order' ! j = order ! j"
  shows "scattered order' ivs out = scattered order ivs out"
  using assms unfolding scattered_def
proof (induction ivs arbitrary: low out)
  case (Cons iv ivs)
  obtain i v where "iv = (i, v)" by (cases iv)
  then show ?case using Cons.prems Cons.IH [of "Suc i"] by simp
qed simp

text \<open>Strictly increasing indices reach distinct positions: no coefficient is overwritten.\<close>

lemma scattered_other:
  "p \<notin> (\<lambda>(i, v). order ! i) ` set ivs \<Longrightarrow> scattered order ivs out ! p = out ! p"
  unfolding scattered_def by (induction ivs arbitrary: out) auto

lemma increasing_low: "increasing low ivs \<Longrightarrow> (i, v) \<in> set ivs \<Longrightarrow> low \<le> i \<and> i \<le> 15"
  by (induction low ivs rule: increasing.induct) auto

lemma scattered_at:
  assumes "permutes order" "increasing low ivs" "(i, v) \<in> set ivs" "length out = 16"
  shows "scattered order ivs out ! (order ! i) = v"
  using assms(2-4)
proof (induction ivs arbitrary: low out)
  case (Cons iv ivs)
  obtain j w where iv: "iv = (j, w)" by (cases iv)
  have inc: "increasing (Suc j) ivs" "j \<le> 15" using Cons.prems(1) iv by simp_all
  show ?case
  proof (cases "(i, v) \<in> set ivs")
    case True
    have "scattered order (iv # ivs) out = scattered order ivs (out[order ! j := w])"
      by (simp add: scattered_def iv)
    then show ?thesis using Cons.IH [OF inc(1) True, of "out[order ! j := w]"] Cons.prems(3)
      by (simp only: length_list_update)
  next
    case False
    then have ij: "i = j" "v = w" using Cons.prems(2) iv by auto
    note p = permutes_facts [OF assms(1)]
    have "order ! j \<noteq> order ! k" if "(k, u) \<in> set ivs" for k u
      using increasing_low [OF inc(1) that] p(1,2) inc(2) nth_eq_iff_index_eq [OF p(2), of j k]
      by simp
    then have "order ! j \<notin> (\<lambda>(i, v). order ! i) ` set ivs" by auto
    moreover have "order ! j < 16" using p(4) inc(2) by simp
    ultimately show ?thesis using Cons.prems(3)
        scattered_other [of "order ! j" order ivs "out[order ! j := w]"]
      by (simp add: scattered_def iv ij)
  qed
qed simp

text \<open>
  The contract of an adaptive scan, which both bands provide: a placement goes where the current
  order sends it and may change the order at its own and the preceding index only.
\<close>

locale inverse_scan =
  fixes place :: "nat \<Rightarrow> i32 \<Rightarrow> ('s \<times> i32 list, entropy_error, unit) action"
    and order :: "'s \<Rightarrow> nat list"
    and ok :: "int \<Rightarrow> 's \<Rightarrow> bool"
  assumes order_permutes: "ok B s \<Longrightarrow> permutes (order s)"
    and places: "ok B s \<Longrightarrow> length out = 16 \<Longrightarrow> 1 \<le> i \<Longrightarrow> i \<le> 15 \<Longrightarrow> B + 1 \<le> i32_max \<Longrightarrow>
      \<exists>t. place i v (s, out) = (Ok (), t, out[order s ! i := v]) \<and> ok (B + 1) t \<and>
        (\<forall>j. j < i - 1 \<or> i < j \<longrightarrow> order t ! j = order s ! j)"
    and rejects: "\<not> (1 \<le> i \<and> i \<le> 15) \<Longrightarrow> place i v p =
      (Err (InvalidParameter ''adaptive scan index'' (int i)), p)"
    and weakens: "ok B s \<Longrightarrow> B \<le> C \<Longrightarrow> ok C s"
begin

lemma block_scattered:
  assumes "ok B s" "length out = 16" "increasing low ivs" "1 \<le> low"
    "B + int (length ivs) \<le> i32_max"
  shows "\<exists>t. place_each place ivs (s, out) = (Ok (), t, scattered (order s) ivs out) \<and>
    ok (B + int (length ivs)) t"
  using assms
proof (induction ivs arbitrary: B s out low)
  case (Cons iv ivs)
  obtain i v where iv: "iv = (i, v)" by (cases iv)
  have i: "1 \<le> i" "i \<le> 15" "increasing (Suc i) ivs" using Cons.prems(3,4) iv by auto
  obtain t where t: "place i v (s, out) = (Ok (), t, out[order s ! i := v])" "ok (B + 1) t"
    "\<And>j. i < j \<Longrightarrow> order t ! j = order s ! j"
    using places [OF Cons.prems(1,2) i(1,2), of v] Cons.prems(5) by auto
  obtain u where "place_each place ivs (t, out[order s ! i := v]) =
      (Ok (), u, scattered (order t) ivs (out[order s ! i := v]))" "ok (B + 1 + int (length ivs)) u"
    using Cons.IH [OF t(2) _ i(3), of "out[order s ! i := v]"] Cons.prems(2,5) by auto
  moreover have "scattered (order t) ivs (out[order s ! i := v]) =
      scattered (order s) (iv # ivs) out"
    using scattered_cong [OF i(3), of "order t" "order s"] t(3) by (simp add: scattered_def iv)
  ultimately show ?case using t(1) by (simp add: iv run_try_step add.assoc)
qed (simp add: scattered_def)

lemma place_upholds:
  assumes "B + 1 \<le> i32_max" "ok B s" "length out = 16"
  shows "fst (place i v (s, out)) \<noteq> Panic" "ok (B + 1) (fst (snd (place i v (s, out))))"
    "length (snd (snd (place i v (s, out)))) = 16"
    "set (snd (snd (place i v (s, out)))) \<subseteq> insert v (set out)"
proof -
  have "fst (place i v (s, out)) \<noteq> Panic \<and> ok (B + 1) (fst (snd (place i v (s, out)))) \<and>
      length (snd (snd (place i v (s, out)))) = 16 \<and>
      set (snd (snd (place i v (s, out)))) \<subseteq> insert v (set out)"
  proof (cases "1 \<le> i \<and> i \<le> 15")
    case True
    then show ?thesis using places [OF assms(2,3) _ _ assms(1), of i v] assms(3)
      by (auto dest!: set_update_subset_insert [THEN subsetD])
  next
    case False
    then show ?thesis using rejects [OF False, of v "(s, out)"] weakens [OF assms(2)] assms(3)
      by auto
  qed
  then show "fst (place i v (s, out)) \<noteq> Panic" "ok (B + 1) (fst (snd (place i v (s, out))))"
    "length (snd (snd (place i v (s, out)))) = 16"
    "set (snd (snd (place i v (s, out)))) \<subseteq> insert v (set out)" by blast+
qed

end

lemma scan_ok_mono: "scan_ok B order totals \<Longrightarrow> B \<le> C \<Longrightarrow> scan_ok C order totals"
  by (auto simp: scan_ok_def)

definition lp_ok :: "int \<Rightarrow> lp_scan \<Rightarrow> bool" where
  "lp_ok B s \<longleftrightarrow> scan_ok B (lp_order s) (lp_totals s)"

definition hp_ok :: "int \<Rightarrow> hp_scan \<Rightarrow> bool" where
  "hp_ok B s \<longleftrightarrow> scan_ok B (horizontal_order s) (horizontal_totals s) \<and>
     scan_ok B (vertical_order s) (vertical_totals s)"

interpretation lp: inverse_scan lp_place lp_order lp_ok
proof
  show "permutes (lp_order s)" if "lp_ok B s" for B s using that by (simp add: lp_ok_def scan_ok_def)
  show "\<exists>t. lp_place i v (s, out) = (Ok (), t, out[lp_order s ! i := v]) \<and> lp_ok (B + 1) t \<and>
      (\<forall>j. j < i - 1 \<or> i < j \<longrightarrow> lp_order t ! j = lp_order s ! j)"
    if "lp_ok B s" "length out = 16" "1 \<le> i" "i \<le> 15" "B + 1 \<le> i32_max" for B s out i v
    using place_ok [OF that(1) [unfolded lp_ok_def] that(2-5), of v]
    by (auto simp: lp_place_def lp_ok_def)
  show "lp_place i v p = (Err (InvalidParameter ''adaptive scan index'' (int i)), p)"
    if "\<not> (1 \<le> i \<and> i \<le> 15)" for i v p
    by (cases p) (simp add: lp_place_def place_rejects [OF that])
  show "lp_ok C s" if "lp_ok B s" "B \<le> C" for B C s
    using that scan_ok_mono by (simp add: lp_ok_def)
qed

interpretation hp: inverse_scan "hp_place d" "hp_order d" hp_ok for d
proof
  show "permutes (hp_order d s)" if "hp_ok B s" for B s
    using that by (cases d) (simp_all add: hp_ok_def hp_order_def scan_ok_def)
  show "\<exists>t. hp_place d i v (s, out) = (Ok (), t, out[hp_order d s ! i := v]) \<and>
      hp_ok (B + 1) t \<and> (\<forall>j. j < i - 1 \<or> i < j \<longrightarrow> hp_order d t ! j = hp_order d s ! j)"
    if "hp_ok B s" "length out = 16" "1 \<le> i" "i \<le> 15" "B + 1 \<le> i32_max" for B s out i v
  proof -
    have h: "scan_ok B (horizontal_order s) (horizontal_totals s)"
      "scan_ok B (vertical_order s) (vertical_totals s)" using that(1) by (simp_all add: hp_ok_def)
    show ?thesis using place_ok [OF h(1) that(2-5), of v] place_ok [OF h(2) that(2-5), of v]
        scan_ok_mono [OF h(1), of "B + 1"] scan_ok_mono [OF h(2), of "B + 1"]
      by (cases d) (auto simp: hp_place_def hp_order_def hp_ok_def)
  qed
  show "hp_place d i v p = (Err (InvalidParameter ''adaptive scan index'' (int i)), p)"
    if "\<not> (1 \<le> i \<and> i \<le> 15)" for i v p
    by (cases p; cases d) (simp_all add: hp_place_def place_rejects [OF that])
  show "hp_ok C s" if "hp_ok B s" "B \<le> C" for B C s
    using that scan_ok_mono by (auto simp: hp_ok_def)
qed

section \<open>Reachable scans\<close>

lemma initial_scans: "scan_ok 32 SCAN_ORDER_0 SCAN_TOTALS" "scan_ok 32 SCAN_ORDER_1 SCAN_TOTALS"
proof -
  have "mset SCAN_ORDER_0 = mset [0..<16] \<and> mset SCAN_ORDER_1 = mset [0..<16]" by code_simp
  then show "scan_ok 32 SCAN_ORDER_0 SCAN_TOTALS" "scan_ok 32 SCAN_ORDER_1 SCAN_TOTALS"
    unfolding scan_ok_def permutes_def by (simp_all add: SCAN_TOTALS_def)
      (simp_all add: SCAN_ORDER_0_def SCAN_ORDER_1_def)
qed

lemma lp_new_ok: "lp_ok 32 lp_scan_new"
  by (simp add: lp_ok_def lp_scan_new_def initial_scans)

lemma hp_new_ok: "hp_ok 32 hp_scan_new"
  by (simp add: hp_ok_def hp_scan_new_def initial_scans)

lemma reset_totals_ok: "scan_ok B order totals \<Longrightarrow> scan_ok 32 order SCAN_TOTALS"
  using initial_scans(1) by (simp add: scan_ok_def)

lemma lp_reset_totals_ok: "lp_ok B s \<Longrightarrow> lp_ok 32 (lp_reset_totals s)"
  by (auto simp: lp_ok_def lp_reset_totals_def intro: reset_totals_ok)

lemma hp_reset_totals_ok: "hp_ok B s \<Longrightarrow> hp_ok 32 (hp_reset_totals s)"
  by (auto simp: hp_ok_def hp_reset_totals_def intro: reset_totals_ok)

text \<open>
  The states that the operations of a tile can reach, with the number of placements since the
  totals were last reset. Placements are attempted with any index and any value, and a tile resets
  the totals before two billion of them (it does so at every sixteenth macroblock column).
\<close>

inductive lp_reach :: "nat \<Rightarrow> lp_scan \<Rightarrow> bool" where
  lp_new: "lp_reach 0 lp_scan_new"
| lp_placed: "lp_reach n s \<Longrightarrow> n < 2000000000 \<Longrightarrow> length out = 16 \<Longrightarrow> lp_place i v (s, out) = (r, t, out') \<Longrightarrow>
    lp_reach (Suc n) t"
| lp_totals_reset: "lp_reach n s \<Longrightarrow> lp_reach 0 (lp_reset_totals s)"
| lp_tile_reset: "lp_reach n s \<Longrightarrow> lp_reach 0 (lp_reset_tile s)"

inductive hp_reach :: "nat \<Rightarrow> hp_scan \<Rightarrow> bool" where
  hp_new: "hp_reach 0 hp_scan_new"
| hp_placed: "hp_reach n s \<Longrightarrow> n < 2000000000 \<Longrightarrow> length out = 16 \<Longrightarrow> hp_place d i v (s, out) = (r, t, out') \<Longrightarrow>
    hp_reach (Suc n) t"
| hp_totals_reset: "hp_reach n s \<Longrightarrow> hp_reach 0 (hp_reset_totals s)"
| hp_tile_reset: "hp_reach n s \<Longrightarrow> hp_reach 0 (hp_reset_tile s)"

lemma lp_reach_ok: "lp_reach n s \<Longrightarrow> n \<le> 2000000000 \<and> lp_ok (32 + int n) s"
proof (induction rule: lp_reach.induct)
  case (lp_placed n s out i v r t out')
  then show ?case using lp.place_upholds(2) [of "32 + int n" s out i v]
    by (simp add: add.commute add.left_commute)
qed (auto simp: lp_new_ok lp_reset_tile_def intro: lp_reset_totals_ok)

lemma hp_reach_ok: "hp_reach n s \<Longrightarrow> n \<le> 2000000000 \<and> hp_ok (32 + int n) s"
proof (induction rule: hp_reach.induct)
  case (hp_placed n s out d i v r t out')
  then show ?case using hp.place_upholds(2) [of "32 + int n" s out d i v]
    by (simp add: add.commute add.left_commute)
qed (auto simp: hp_new_ok hp_reset_tile_def intro: hp_reset_totals_ok)

section \<open>Properties\<close>

text \<open>
  C24: the adaptive scans stay permutations. In every state that a tile can reach by placements
  (with any index, accepted or rejected), resets of the totals and tile resets, the LP order and both HP orders permute the sixteen
  positions, the DC position stays in front, and the next placement does not panic.
\<close>

theorem scans_stay_permutations:
  assumes "length out = 16"
  shows "(lp_reach n s \<longrightarrow> mset (lp_order s) = mset [0..<16] \<and> hd (lp_order s) = 0 \<and>
      fst (lp_place i v (s, out)) \<noteq> Panic) \<and>
    (hp_reach n h \<longrightarrow> mset (hp_order d h) = mset [0..<16] \<and> hd (hp_order d h) = 0 \<and>
      fst (hp_place d i v (h, out)) \<noteq> Panic)"
proof -
  have small: "32 + int n + 1 \<le> i32_max" if "n \<le> 2000000000" using that by simp
  show ?thesis
    using lp_reach_ok [of n s] hp_reach_ok [of n h] small assms
      lp.order_permutes [unfolded permutes_def] hp.order_permutes [unfolded permutes_def]
      lp.place_upholds(1) hp.place_upholds(1)
    by blast
qed

lemma scans_stay_permutations_witness:
  "fst (lp_place 2 9 (lp_scan_new, replicate 16 0)) \<noteq> Panic \<and>
   mset (hp_order Vertical hp_scan_new) = mset [0..<16]"
  using scans_stay_permutations [OF length_replicate, of 0 lp_scan_new 2 9 0 hp_scan_new Vertical]
    lp_new hp_new by blast

text \<open>
  C23: a block's coefficients land where the scan order at the start of the block puts them. Placing
  values at strictly increasing scan indices between 1 and 15 succeeds, writes each value to its
  position in that order (no value overwrites another) and leaves every other position alone,
  although each placement may swap two entries of the order. This holds for the LP scan and for
  both directions of the HP scan.
\<close>

theorem blocks_land_in_order:
  assumes "increasing 1 ivs" "length out = 16" "B + 15 \<le> i32_max" "length ivs \<le> 15"
  shows "(lp_ok B s \<longrightarrow> (\<exists>t out'. place_each lp_place ivs (s, out) = (Ok (), t, out') \<and>
      (\<forall>(i, v) \<in> set ivs. out' ! (lp_order s ! i) = v) \<and>
      (\<forall>p. (\<forall>(i, v) \<in> set ivs. p \<noteq> lp_order s ! i) \<longrightarrow> out' ! p = out ! p))) \<and>
    (hp_ok B h \<longrightarrow> (\<exists>t out'. place_each (hp_place d) ivs (h, out) = (Ok (), t, out') \<and>
      (\<forall>(i, v) \<in> set ivs. out' ! (hp_order d h ! i) = v) \<and>
      (\<forall>p. (\<forall>(i, v) \<in> set ivs. p \<noteq> hp_order d h ! i) \<longrightarrow> out' ! p = out ! p)))"
proof -
  have small: "B + int (length ivs) \<le> i32_max" using assms(3,4) by linarith
  have lands: "(\<forall>(i, v) \<in> set ivs. scattered order ivs out ! (order ! i) = v) \<and>
      (\<forall>p. (\<forall>(i, v) \<in> set ivs. p \<noteq> order ! i) \<longrightarrow> scattered order ivs out ! p = out ! p)"
    if "permutes order" for order
    using scattered_at [OF that assms(1) _ assms(2)] scattered_other [of _ order ivs out] by fastforce
  show ?thesis
    using lp.block_scattered [OF _ assms(2,1) order_refl small, of s] lands lp.order_permutes
      hp.block_scattered [OF _ assms(2,1) order_refl small, of h d] hp.order_permutes
    by meson
qed

lemma blocks_land_in_order_witness:
  "\<exists>t out'. place_each lp_place [(2, 9), (5, -4)] (lp_scan_new, replicate 16 0) = (Ok (), t, out') \<and>
    out' ! 1 = 9 \<and> out' ! 2 = -4"
proof -
  have orders: "lp_order lp_scan_new ! 2 = 1" "lp_order lp_scan_new ! 5 = 2"
    by (simp_all add: lp_scan_new_def SCAN_ORDER_0_def)
  show ?thesis
    using blocks_land_in_order [of "[(2, 9), (5, -4)]" "replicate 16 0" 32 lp_scan_new]
      lp_new_ok orders by simp blast
qed

end
