(* ===== verification/Model.thy ===== *)
theory Model
  imports Packet_Reader
begin

text \<open>
  Coefficient normalisation (\<open>crates/jxr-native/src/entropy/model.rs\<close>): one integrator per
  component class turns the mean magnitude of the macroblock's coefficients into the number of bits
  that the coefficients of the next macroblock carry outside their prefix codes. The theorems bound
  the model and show that it follows a steady signal.
\<close>

datatype frequency_band = Dc | Lowpass | Highpass

definition band_index :: "frequency_band \<Rightarrow> nat" where
  "band_index band = (case band of Dc \<Rightarrow> 0 | Lowpass \<Rightarrow> 1 | Highpass \<Rightarrow> 2)"

definition LUMA_WEIGHT :: "i32 list" where
  "LUMA_WEIGHT = [240, 12, 1]"

definition OTHER_WEIGHT :: "i32 list list" where
  "OTHER_WEIGHT = [
    [0, 240, 120, 80, 60, 48, 40, 34, 30, 27, 24, 22, 20, 18, 17, 16],
    [0, 12, 6, 4, 3, 2, 2, 2, 2, 1, 1, 1, 1, 1, 1, 1],
    [0, 16, 8, 5, 4, 3, 3, 2, 2, 2, 2, 1, 1, 1, 1, 1]]"

definition SUBSAMPLED_WEIGHT :: "i32 list list" where
  "SUBSAMPLED_WEIGHT = [[120, 37, 2], [120, 18, 1]]"

datatype colour_model = LumaOnly | Yuv420 | Yuv422 | Other nat

record coefficient_model =
  model_band :: frequency_band
  model_state :: "i32 \<times> i32"
  model_bits :: "nat \<times> nat"

definition model_new :: "frequency_band \<Rightarrow> coefficient_model" where
  "model_new band =
     (let bits = (case band of Dc \<Rightarrow> 8 | Lowpass \<Rightarrow> 4 | Highpass \<Rightarrow> 0)
      in \<lparr>model_band = band, model_state = (0, 0), model_bits = (bits, bits)\<rparr>)"

definition model_reset_tile :: "coefficient_model \<Rightarrow> coefficient_model" where
  "model_reset_tile model = model_new (model_band model)"

definition bits_of_model :: "bool \<Rightarrow> coefficient_model \<Rightarrow> nat" where
  "bits_of_model chroma model = (if chroma then snd (model_bits model) else fst (model_bits model))"

definition update_one :: "i32 \<Rightarrow> i32 \<times> nat \<Rightarrow> (entropy_error, i32 \<times> nat) result" where
  "update_one lap_mean = (\<lambda>(state, bits).
     let_try (i32_or_panic (lap_mean - 70)) (\<lambda>centred.
     let delta = sar centred 2
     in if delta \<le> -8 then
          let_try (i32_or_panic (state + max (delta + 4) (-16))) (\<lambda>state.
          Ok (if state < -8 then (if bits = 0 then (-8, bits) else (0, bits - 1)) else (state, bits)))
        else if 8 \<le> delta then
          let_try (i32_or_panic (state + min (delta - 4) 15)) (\<lambda>state.
          Ok (if 8 < state then (if 15 \<le> bits then (8, 15) else (0, bits + 1)) else (state, bits)))
        else Ok (state, bits)))"

text \<open>The weighted means and the number of classes to update.\<close>

definition weighted_means ::
  "frequency_band \<Rightarrow> i32 \<times> i32 \<Rightarrow> colour_model \<Rightarrow> (entropy_error, (i32 \<times> i32) \<times> nat) result" where
  "weighted_means band = (\<lambda>(luma, chroma) colour.
     let b = band_index band in
     let_try (ok_or CoefficientOverflow (i32_checked_mul luma (LUMA_WEIGHT ! b))) (\<lambda>luma.
     case colour of
       LumaOnly \<Rightarrow> Ok ((luma, chroma), 1)
     | Yuv420 \<Rightarrow>
         let_try (ok_or CoefficientOverflow (i32_checked_mul chroma (SUBSAMPLED_WEIGHT ! 0 ! b)))
           (\<lambda>chroma. Ok ((luma, chroma), 2))
     | Yuv422 \<Rightarrow>
         let_try (ok_or CoefficientOverflow (i32_checked_mul chroma (SUBSAMPLED_WEIGHT ! 1 ! b)))
           (\<lambda>chroma. Ok ((luma, chroma), 2))
     | Other components \<Rightarrow>
         if \<not> (2 \<le> components \<and> components \<le> 16)
         then Err (InvalidParameter ''coefficient-model component count'' (int components))
         else
           let_try (ok_or CoefficientOverflow
               (i32_checked_mul chroma (OTHER_WEIGHT ! b ! (components - 1)))) (\<lambda>chroma.
           Ok ((luma, if band = Highpass then sar chroma 4 else chroma), 2))))"

definition model_update :: "i32 \<times> i32 \<Rightarrow> colour_model \<Rightarrow> (coefficient_model, entropy_error, unit) action"
where
  "model_update lap_mean colour model =
     (case weighted_means (model_band model) lap_mean colour of
        Err e \<Rightarrow> (Err e, model) | Panic \<Rightarrow> (Panic, model)
      | Ok ((luma, chroma), model_count) \<Rightarrow>
        (case model_state model of (s0, s1) \<Rightarrow> case model_bits model of (b0, b1) \<Rightarrow>
          (case update_one luma (s0, b0) of
             Err e \<Rightarrow> (Err e, model) | Panic \<Rightarrow> (Panic, model)
           | Ok (s0, b0) \<Rightarrow>
             (let model = model\<lparr>model_state := (s0, s1), model_bits := (b0, b1)\<rparr>
              in if model_count < 2 then (Ok (), model)
                 else case update_one chroma (s1, b1) of
                   Err e \<Rightarrow> (Err e, model) | Panic \<Rightarrow> (Panic, model)
                 | Ok (s1, b1) \<Rightarrow>
                   (Ok (), model\<lparr>model_state := (s0, s1), model_bits := (b0, b1)\<rparr>)))))"

section \<open>Invariants\<close>

definition integrator_ok :: "i32 \<times> nat \<Rightarrow> bool" where
  "integrator_ok = (\<lambda>(state, bits). -8 \<le> state \<and> state \<le> 8 \<and> bits \<le> 15)"

definition model_ok :: "coefficient_model \<Rightarrow> bool" where
  "model_ok model \<longleftrightarrow> integrator_ok (fst (model_state model), fst (model_bits model)) \<and>
     integrator_ok (snd (model_state model), snd (model_bits model))"

lemma update_one_cases:
  assumes "integrator_ok (s, b)" "0 \<le> m" "m \<le> i32_max"
  shows "update_one m (s, b) = Ok
    (if m < 42 then
       (let t = s + max ((m - 70) div 4 + 4) (-16) in
        if t < -8 then (if b = 0 then (-8, b) else (0, b - 1)) else (t, b))
     else if 102 \<le> m then
       (let t = s + min ((m - 70) div 4 - 4) 15 in
        if 8 < t then (if 15 \<le> b then (8, 15) else (0, b + 1)) else (t, b))
     else (s, b))"
proof -
  have s: "-8 \<le> s" "s \<le> 8" using assms(1) by (simp_all add: integrator_ok_def)
  have low: "(m - 70) div 4 \<le> -8 \<longleftrightarrow> m < 42" and high: "8 \<le> (m - 70) div 4 \<longleftrightarrow> 102 \<le> m"
    by linarith+
  have mean: "i32_or_panic (m - 70) = Ok (m - 70)"
    using assms(2,3) by (simp add: i32_or_panic_def in_i32_def)
  have down: "i32_or_panic (s + max ((m - 70) div 4 + 4) (-16)) =
      Ok (s + max ((m - 70) div 4 + 4) (-16))" if "m < 42"
    unfolding outcome_simps in_i32_def max_def using s low that by auto
  have up: "i32_or_panic (s + min ((m - 70) div 4 - 4) 15) = Ok (s + min ((m - 70) div 4 - 4) 15)"
    if "102 \<le> m"
    unfolding outcome_simps in_i32_def min_def using s high that by auto
  show ?thesis
    unfolding update_one_def prod.case by (simp add: mean sar_div low high Let_def up down)
qed

lemma update_one_ok:
  assumes "integrator_ok sb" "0 \<le> m" "m \<le> i32_max"
  shows "\<exists>tc. update_one m sb = Ok tc \<and> integrator_ok tc \<and> snd tc \<le> snd sb + 1 \<and> snd sb \<le> snd tc + 1"
proof -
  obtain s b where sb: "sb = (s, b)" by (cases sb)
  have i: "-8 \<le> s" "s \<le> 8" "b \<le> 15" using assms(1) by (simp_all add: integrator_ok_def sb)
  show ?thesis
    using update_one_cases [of s b m] assms i
    by (auto simp: sb integrator_ok_def Let_def max_def min_def)
qed

lemma weights_nonneg:
  "0 \<le> LUMA_WEIGHT ! band_index band" "0 \<le> SUBSAMPLED_WEIGHT ! 0 ! band_index band"
  "0 \<le> SUBSAMPLED_WEIGHT ! 1 ! band_index band"
  "2 \<le> c \<Longrightarrow> c \<le> 16 \<Longrightarrow> 0 \<le> OTHER_WEIGHT ! band_index band ! (c - 1)"
proof -
  have "list_all (list_all (\<lambda>w. 0 \<le> w)) OTHER_WEIGHT" by code_simp
  then have "list_all (\<lambda>w. 0 \<le> w) (OTHER_WEIGHT ! band_index band)"
    by (cases band) (simp_all add: OTHER_WEIGHT_def band_index_def)
  moreover have "length (OTHER_WEIGHT ! band_index band) = 16"
    by (cases band) (simp_all add: OTHER_WEIGHT_def band_index_def)
  ultimately show "0 \<le> OTHER_WEIGHT ! band_index band ! (c - 1)" if "2 \<le> c" "c \<le> 16"
    using that by (simp add: list_all_length)
qed (cases band; simp add: LUMA_WEIGHT_def SUBSAMPLED_WEIGHT_def band_index_def)+

lemma checked_weight:
  assumes "0 \<le> x" "0 \<le> w"
  shows "ok_or CoefficientOverflow (i32_checked_mul x w) =
    (if x * w \<le> i32_max then Ok (x * w) else Err CoefficientOverflow)"
proof -
  have "0 \<le> x * w" using assms by simp
  then show ?thesis by (simp add: i32_checked_mul_def in_i32_def)
qed

text \<open>The only errors are an overflow of a weighted mean and a component count out of range.\<close>

definition means_ok :: "frequency_band \<Rightarrow> i32 \<times> i32 \<Rightarrow> colour_model \<Rightarrow> bool" where
  "means_ok band = (\<lambda>(luma, chroma) colour. luma * LUMA_WEIGHT ! band_index band \<le> i32_max \<and>
     (case colour of LumaOnly \<Rightarrow> True
      | Yuv420 \<Rightarrow> chroma * SUBSAMPLED_WEIGHT ! 0 ! band_index band \<le> i32_max
      | Yuv422 \<Rightarrow> chroma * SUBSAMPLED_WEIGHT ! 1 ! band_index band \<le> i32_max
      | Other c \<Rightarrow> 2 \<le> c \<and> c \<le> 16 \<and> chroma * OTHER_WEIGHT ! band_index band ! (c - 1) \<le> i32_max))"

lemma weighted_means_ok:
  assumes "0 \<le> luma" "0 \<le> chroma" "luma \<le> i32_max" "chroma \<le> i32_max"
  shows "case weighted_means band (luma, chroma) colour of
      Ok ((l, c), n) \<Rightarrow> means_ok band (luma, chroma) colour \<and> 0 \<le> l \<and> l \<le> i32_max \<and> 0 \<le> c \<and>
        c \<le> i32_max \<and> (n < 2 \<longleftrightarrow> colour = LumaOnly)
    | Err e \<Rightarrow> \<not> means_ok band (luma, chroma) colour
    | Panic \<Rightarrow> False"
proof -
  have shift: "0 \<le> sar x 4 \<and> sar x 4 \<le> i32_max" if "0 \<le> x" "x \<le> i32_max" for x
    using that unfolding sar_div by (intro conjI; simp; linarith)
  show ?thesis
    using assms weights_nonneg [where band = band]
    by (cases colour) (auto simp: weighted_means_def means_ok_def Let_def checked_weight shift)
qed

lemma model_update_ok:
  assumes "model_ok model" "0 \<le> luma" "0 \<le> chroma" "luma \<le> i32_max" "chroma \<le> i32_max"
  shows "case model_update (luma, chroma) colour model of (r, t) \<Rightarrow>
    r \<noteq> Panic \<and> model_ok t \<and> model_band t = model_band model \<and>
    (r = Ok () \<longleftrightarrow> means_ok (model_band model) (luma, chroma) colour) \<and> (r \<noteq> Ok () \<longrightarrow> t = model)"
proof -
  obtain s0 s1 b0 b1 where m: "model_state model = (s0, s1)" "model_bits model = (b0, b1)"
    by (cases "model_state model"; cases "model_bits model") blast
  have ok: "integrator_ok (s0, b0)" "integrator_ok (s1, b1)"
    using assms(1) by (simp_all add: model_ok_def m)
  note means = weighted_means_ok [OF assms(2-5), of "model_band model" colour]
  show ?thesis
  proof (cases "weighted_means (model_band model) (luma, chroma) colour")
    case (Ok lcn)
    obtain l c n where lcn: "lcn = ((l, c), n)" by (metis prod.exhaust)
    have lc: "0 \<le> l" "l \<le> i32_max" "0 \<le> c" "c \<le> i32_max"
      "means_ok (model_band model) (luma, chroma) colour"
      using means Ok lcn by simp_all
    obtain t0 c0 t1 c1 where "update_one l (s0, b0) = Ok (t0, c0)" "integrator_ok (t0, c0)"
      "update_one c (s1, b1) = Ok (t1, c1)" "integrator_ok (t1, c1)"
      using update_one_ok [OF ok(1) lc(1,2)] update_one_ok [OF ok(2) lc(3,4)] by fastforce
    then show ?thesis using Ok lcn lc(5) ok by (simp add: model_update_def m model_ok_def Let_def)
  qed (use means assms(1) in \<open>simp_all add: model_update_def\<close>)
qed

lemma model_new_ok: "model_ok (model_new band)"
  by (cases band) (simp_all add: model_new_def model_ok_def integrator_ok_def)

section \<open>Following a steady signal\<close>

text \<open>The updates that are left, at most, until a loud signal has raised the bits to 15.\<close>

definition updates_up :: "i32 \<times> nat \<Rightarrow> nat" where
  "updates_up = (\<lambda>(s, b). if b = 15 then 0 else 3 * (14 - b) + nat ((8 - s) div 4 + 1))"

definition updates_down :: "i32 \<times> nat \<Rightarrow> nat" where
  "updates_down = (\<lambda>(s, b). if b = 0 then 0 else 3 * (b - 1) + nat ((8 + s) div 4 + 1))"

lemma add_pred: "a \<le> c - Suc 0 \<Longrightarrow> Suc 0 \<le> c \<Longrightarrow> k + a \<le> k + c - Suc 0"
  by simp

lemma loud_step:
  assumes "integrator_ok sb" "102 \<le> m" "m \<le> i32_max" "update_one m sb = Ok tc"
  shows "updates_up tc \<le> updates_up sb - 1"
proof -
  obtain s b where sb: "sb = (s, b)" by (cases sb)
  have i: "-8 \<le> s" "s \<le> 8" "b \<le> 15" using assms(1) by (simp_all add: integrator_ok_def sb)
  define d where "d = min ((m - 70) div 4 - 4) 15"
  have d: "4 \<le> d" using assms(2) by (simp add: d_def)
  have tc: "tc = (if 8 < s + d then (if 15 \<le> b then (8, 15) else (0, b + 1)) else (s + d, b))"
    using update_one_cases [of s b m] assms i by (auto simp: sb Let_def d_def split: if_splits)
  have "nat ((8 - (s + d)) div 4 + 1) \<le> nat ((8 - s) div 4 + 1) - 1" if "s + d \<le> 8"
    using d i that by linarith
  moreover have "1 \<le> nat ((8 - s) div 4 + 1)" using i by linarith
  ultimately show ?thesis using i unfolding tc sb by (auto simp: updates_up_def intro: add_pred)
qed

lemma quiet_step:
  assumes "integrator_ok sb" "0 \<le> m" "m < 42" "update_one m sb = Ok tc"
  shows "updates_down tc \<le> updates_down sb - 1"
proof -
  obtain s b where sb: "sb = (s, b)" by (cases sb)
  have i: "-8 \<le> s" "s \<le> 8" "b \<le> 15" using assms(1) by (simp_all add: integrator_ok_def sb)
  define d where "d = max ((m - 70) div 4 + 4) (-16)"
  have d: "d \<le> -4" using assms(3) by (simp add: d_def)
  have tc: "tc = (if s + d < -8 then (if b = 0 then (-8, b) else (0, b - 1)) else (s + d, b))"
    using update_one_cases [of s b m] assms i by (auto simp: sb Let_def d_def split: if_splits)
  have "nat ((8 + (s + d)) div 4 + 1) \<le> nat ((8 + s) div 4 + 1) - 1" if "-8 \<le> s + d"
    using d i that by linarith
  moreover have "1 \<le> nat ((8 + s) div 4 + 1)" using i by linarith
  ultimately show ?thesis using i unfolding tc sb by (auto simp: updates_down_def intro: add_pred)
qed

lemma steady_run:
  assumes "\<And>m sb tc. m \<in> set ms \<Longrightarrow> integrator_ok sb \<Longrightarrow> update_one m sb = Ok tc \<Longrightarrow> f tc \<le> f sb - 1"
    and "integrator_ok sb" "\<forall>m\<in>set ms. 0 \<le> m \<and> m \<le> i32_max"
  shows "\<exists>tc. each_try update_one ms sb = Ok tc \<and> integrator_ok tc \<and> f tc \<le> f sb - length ms"
  using assms
proof (induction ms arbitrary: sb)
  case (Cons m ms)
  obtain tc where tc: "update_one m sb = Ok tc" "integrator_ok tc"
    using update_one_ok [OF Cons.prems(2), of m] Cons.prems(3) by auto
  moreover have "f tc \<le> f sb - 1" using Cons.prems(1) [OF _ Cons.prems(2) tc(1)] by simp
  moreover obtain ud where "each_try update_one ms tc = Ok ud" "integrator_ok ud"
    "f ud \<le> f tc - length ms"
    using Cons.IH [OF _ tc(2)] Cons.prems(1,3) by (metis list.set_intros(2))
  ultimately show ?case by auto
qed simp

section \<open>Properties\<close>

text \<open>The states of a model within a tile; means of magnitudes are not negative.\<close>

inductive model_reach :: "frequency_band \<Rightarrow> coefficient_model \<Rightarrow> bool" for band where
  fresh: "model_reach band (model_new band)"
| updated: "model_reach band model \<Longrightarrow> 0 \<le> luma \<Longrightarrow> 0 \<le> chroma \<Longrightarrow> luma \<le> i32_max \<Longrightarrow>
    chroma \<le> i32_max \<Longrightarrow> model_update (luma, chroma) colour model = (r, t) \<Longrightarrow> model_reach band t"
| tile_reset: "model_reach band model \<Longrightarrow> model_reach band (model_reset_tile model)"

lemma model_reach_ok: "model_reach band model \<Longrightarrow> model_ok model \<and> model_band model = band"
proof (induction rule: model_reach.induct)
  case fresh
  then show ?case by (simp add: model_new_ok) (simp add: model_new_def Let_def)
next
  case (updated model luma chroma colour r t)
  then show ?case using model_update_ok [of model luma chroma colour] by simp
next
  case (tile_reset model)
  then show ?case by (simp add: model_reset_tile_def model_new_ok) (simp add: model_new_def Let_def)
qed

text \<open>
  C28: the coefficient model stays in range. In every state that a tile can reach by updates (accepted
  or rejected) and resets, both classes have at most 15 model bits, the width that coefficient
  decoding accepts; an update with non-negative means never panics, succeeds exactly when every
  weighted mean fits an \<open>i32\<close> and the component count is between 2 and 16, and a rejected update
  leaves the model as it was.
\<close>

theorem model_stays_in_range:
  assumes "model_reach band model" "0 \<le> luma" "0 \<le> chroma" "luma \<le> i32_max" "chroma \<le> i32_max"
  shows "bits_of_model c model \<le> 15 \<and>
    (case model_update (luma, chroma) colour model of (r, t) \<Rightarrow> r \<noteq> Panic \<and>
      (r = Ok () \<longleftrightarrow> means_ok band (luma, chroma) colour) \<and> (r \<noteq> Ok () \<longrightarrow> t = model))"
proof -
  have m: "model_ok model" "model_band model = band" using model_reach_ok [OF assms(1)] by simp_all
  show ?thesis using model_update_ok [OF m(1) assms(2-5), of colour] m
    by (auto simp: bits_of_model_def model_ok_def integrator_ok_def)
qed

lemma model_stays_in_range_witness:
  "fst (model_update (0, 5) (Other 1) (model_new Lowpass)) \<noteq> Ok () \<and>
   snd (model_update (0, 5) (Other 1) (model_new Lowpass)) = model_new Lowpass"
  using model_stays_in_range [OF fresh [of Lowpass], of 0 5 False "Other 1"]
  by (auto simp: means_ok_def split: prod.splits)

text \<open>
  C27: the coefficient model follows a steady signal. From any state in range, 47 updates with
  weighted means of at least 102 raise the bits of a class to 15, 47 updates with weighted means
  below 42 lower them to 0, and updates between these bounds change nothing.
\<close>

theorem model_follows_signal:
  assumes "integrator_ok sb" "\<forall>m\<in>set ms. 0 \<le> m \<and> m \<le> i32_max"
  shows "((\<forall>m\<in>set ms. 102 \<le> m) \<and> 47 \<le> length ms \<longrightarrow>
      (\<exists>s. each_try update_one ms sb = Ok (s, 15))) \<and>
    ((\<forall>m\<in>set ms. m < 42) \<and> 47 \<le> length ms \<longrightarrow>
      (\<exists>s. each_try update_one ms sb = Ok (s, 0))) \<and>
    ((\<forall>m\<in>set ms. 42 \<le> m \<and> m < 102) \<longrightarrow> each_try update_one ms sb = Ok sb)"
proof -
  obtain s b where sb: "sb = (s, b)" by (cases sb)
  have i: "-8 \<le> s" "s \<le> 8" "b \<le> 15" using assms(1) by (simp_all add: integrator_ok_def sb)
  have most: "updates_up sb \<le> 47" "updates_down sb \<le> 47"
    using i by (auto simp: sb updates_up_def updates_down_def nat_le_iff)
  have "(\<forall>m\<in>set ms. 102 \<le> m) \<and> 47 \<le> length ms \<longrightarrow> (\<exists>s. each_try update_one ms sb = Ok (s, 15))"
    using steady_run [of ms updates_up, OF loud_step assms] assms(2) most(1)
    by (fastforce simp: updates_up_def integrator_ok_def split: if_splits)
  moreover have "(\<forall>m\<in>set ms. m < 42) \<and> 47 \<le> length ms \<longrightarrow> (\<exists>s. each_try update_one ms sb = Ok (s, 0))"
    using steady_run [of ms updates_down, OF quiet_step assms] assms(2) most(2)
    by (fastforce simp: updates_down_def integrator_ok_def split: if_splits)
  moreover have "(\<forall>m\<in>set ms. 42 \<le> m \<and> m < 102) \<longrightarrow> each_try update_one ms sb = Ok sb"
    using assms(2) update_one_cases [of s b] assms(1) unfolding sb
    by (induction ms) auto
  ultimately show ?thesis by blast
qed

lemma model_follows_signal_witness: "\<exists>s. each_try update_one (replicate 47 150) (-3, 4) = Ok (s, 15)"
  using model_follows_signal [of "(-3, 4)" "replicate 47 150"] by (simp add: integrator_ok_def)

end
