(* ===== verification/Vlc.thy ===== *)
theory Vlc
  imports Packet_Reader
begin

text \<open>
  The prefix-code tables of T.832 and their one-lookup decoder
  (\<open>crates/jxr-native/src/entropy/vlc.rs\<close>). A table is built with assertions that make it
  prefix-free; the decoder is proved to agree, for every table the constructor accepts and every
  packet, with the normative bit-serial search that the repository's own tests use as a reference.
  A code is (code bits, code length, symbol).
\<close>

type_synonym vlc_code = "nat \<times> nat \<times> nat"

definition LOOKUP_BITS :: nat where
  "LOOKUP_BITS = 8"

record prefix_table =
  max_length :: nat
  lookup :: "nat list"

definition entry :: "prefix_table \<Rightarrow> nat \<Rightarrow> nat" where
  "entry table prefix = lookup table ! prefix"

text \<open>One turn of the inner loop: claim a slot of the lookup table.\<close>

definition fill_slot :: "nat \<Rightarrow> nat \<Rightarrow> nat list \<Rightarrow> (entropy_error, nat list) result" where
  "fill_slot value slot slots =
     let_try (index_or_panic slots slot) (\<lambda>old.
     if old \<noteq> 0 then Panic else Ok (slots[slot := value]))"

text \<open>One turn of the outer loop; a failed \<open>assert!\<close> is a panic.\<close>

definition add_code :: "vlc_code \<Rightarrow> prefix_table \<Rightarrow> (entropy_error, prefix_table) result" where
  "add_code code table =
     (case code of (bits, len, symbol) \<Rightarrow>
       if \<not> (0 < len \<and> len \<le> LOOKUP_BITS) then Panic
       else if drop_bit len bits \<noteq> 0 then Panic
       else
         let span = push_bit (LOOKUP_BITS - len) 1;
             first = push_bit (LOOKUP_BITS - len) bits
         in let_try (each_try (fill_slot (push_bit 8 len OR symbol)) [first..<first + span]
              (lookup table)) (\<lambda>slots.
            Ok \<lparr>max_length = (if max_length table < len then len else max_length table),
              lookup = slots\<rparr>))"

definition prefix_table_new :: "vlc_code list \<Rightarrow> (entropy_error, prefix_table) result" where
  "prefix_table_new codes =
     each_try add_code codes \<lparr>max_length = 0, lookup = replicate (2 ^ LOOKUP_BITS) 0\<rparr>"

definition decode :: "string \<Rightarrow> prefix_table \<Rightarrow> nat decoder" where
  "decode syntax table r =
     (let (prefix, t) = peek_byte r;
          e = lookup table ! unat prefix;
          len = e div 256; symbol = e mod 256;
          (skipped, u) = (if e \<noteq> 0 then skip_cached len t else (False, t))
      in if skipped then (Ok symbol, u)
         else
           let remaining = bits_remaining u
           in if remaining < max_length table then (Err (unexpected_end_after remaining u), u)
              else (Err (InvalidVlc syntax (pk_position u)), u))"

section \<open>The bit-serial reference\<close>

definition find_code :: "vlc_code list \<Rightarrow> nat \<Rightarrow> nat \<Rightarrow> vlc_code option" where
  "find_code codes len p = find (\<lambda>(b, l, s). l = len \<and> b = p) codes"

text \<open>The \<open>for length in 1..=max_length\<close> loop: \<open>n\<close> turns left, \<open>len\<close> bits \<open>p\<close> read so far.\<close>

fun serial_loop :: "vlc_code list \<Rightarrow> nat \<Rightarrow> nat \<Rightarrow> nat \<Rightarrow> nat option decoder" where
  "serial_loop codes 0 len p = give None"
| "serial_loop codes (Suc n) len p =
     run_try packet_read_bit (\<lambda>b.
       let q = push_bit 1 p OR of_bool b
       in case find_code codes (Suc len) q of
            Some (_, _, symbol) \<Rightarrow> give (Some symbol)
          | None \<Rightarrow> serial_loop codes n (Suc len) q)"

definition serial_decode :: "string \<Rightarrow> vlc_code list \<Rightarrow> nat decoder" where
  "serial_decode syntax codes r =
     run_try (serial_loop codes (foldl (\<lambda>m (b, l, s). max m l) 0 codes) 0 0) (\<lambda>found.
       case found of Some symbol \<Rightarrow> give symbol
       | None \<Rightarrow> fail (InvalidVlc syntax (pk_position r))) r"

section \<open>The normative tables\<close>

definition ABS_LEVEL_CODES :: "vlc_code list list" where
  "ABS_LEVEL_CODES = [
    [(1, 2, 0), (2, 2, 1), (3, 2, 2), (1, 3, 3), (1, 4, 4), (0, 5, 5), (1, 5, 6)],
    [(1, 1, 0), (1, 2, 1), (1, 3, 2), (1, 4, 3), (1, 5, 4), (0, 6, 5), (1, 6, 6)]]"

definition INDEX_A_CODES :: "vlc_code list list" where
  "INDEX_A_CODES = [
    [(1, 1, 0), (0, 5, 1), (1, 3, 2), (1, 5, 3), (1, 2, 4), (1, 4, 5)],
    [(1, 2, 0), (0, 4, 1), (2, 2, 2), (1, 4, 3), (3, 2, 4), (1, 3, 5)],
    [(0, 4, 0), (1, 4, 1), (1, 2, 2), (2, 2, 3), (3, 2, 4), (1, 3, 5)],
    [(0, 5, 0), (1, 5, 1), (1, 2, 2), (1, 1, 3), (1, 4, 4), (1, 3, 5)]]"

definition FIRST_INDEX_CODES :: "vlc_code list list" where
  "FIRST_INDEX_CODES = [
    [(1, 5, 0), (1, 6, 1), (0, 7, 2), (1, 7, 3), (4, 5, 4), (2, 3, 5), (5, 5, 6),
     (1, 1, 7), (6, 5, 8), (1, 4, 9), (7, 5, 10), (3, 3, 11)],
    [(2, 4, 0), (2, 5, 1), (0, 6, 2), (1, 6, 3), (3, 4, 4), (2, 3, 5), (3, 5, 6),
     (3, 2, 7), (3, 3, 8), (4, 3, 9), (1, 5, 10), (5, 3, 11)],
    [(3, 2, 0), (1, 3, 1), (0, 7, 2), (1, 7, 3), (1, 5, 4), (2, 3, 5), (2, 7, 6),
     (3, 3, 7), (4, 3, 8), (5, 3, 9), (3, 7, 10), (1, 4, 11)],
    [(1, 3, 0), (3, 2, 1), (0, 7, 2), (1, 5, 3), (2, 5, 4), (2, 3, 5), (1, 7, 6),
     (3, 3, 7), (3, 5, 8), (4, 3, 9), (1, 6, 10), (5, 3, 11)],
    [(2, 3, 0), (1, 1, 1), (1, 7, 2), (1, 4, 3), (2, 7, 4), (3, 3, 5), (0, 8, 6),
     (2, 4, 7), (3, 7, 8), (3, 4, 9), (1, 8, 10), (1, 5, 11)]]"

definition RUN_VALUE_2_CODES :: "vlc_code list" where
  "RUN_VALUE_2_CODES = [(1, 1, 1), (0, 1, 2)]"

definition RUN_VALUE_3_CODES :: "vlc_code list" where
  "RUN_VALUE_3_CODES = [(1, 1, 1), (1, 2, 2), (0, 2, 3)]"

definition RUN_VALUE_4_CODES :: "vlc_code list" where
  "RUN_VALUE_4_CODES = [(1, 1, 1), (1, 2, 2), (1, 3, 3), (0, 3, 4)]"

definition RUN_INDEX_CODES :: "vlc_code list" where
  "RUN_INDEX_CODES = [(1, 1, 0), (1, 2, 1), (1, 3, 2), (0, 4, 3), (1, 4, 4)]"

definition INDEX_B_CODES :: "vlc_code list" where
  "INDEX_B_CODES = [(0, 1, 0), (2, 2, 2), (6, 3, 1), (7, 3, 3)]"

definition RUN_VALUE_CODES :: "vlc_code list list" where
  "RUN_VALUE_CODES = [RUN_VALUE_2_CODES, RUN_VALUE_3_CODES, RUN_VALUE_4_CODES]"

text \<open>
  The tables are built at compile time, where a panic fails the build; \<open>built\<close> is only applied to
  code lists for which the construction succeeds (\<open>well_coded_built\<close> below).
\<close>

definition built :: "vlc_code list \<Rightarrow> prefix_table" where
  "built codes = (case prefix_table_new codes of Ok t \<Rightarrow> t | _ \<Rightarrow> \<lparr>max_length = 0, lookup = []\<rparr>)"

definition ABS_LEVEL :: "prefix_table list" where
  "ABS_LEVEL = map built ABS_LEVEL_CODES"

definition RUN_VALUE_2 :: prefix_table where
  "RUN_VALUE_2 = built RUN_VALUE_2_CODES"

definition RUN_VALUE_3 :: prefix_table where
  "RUN_VALUE_3 = built RUN_VALUE_3_CODES"

definition RUN_VALUE_4 :: prefix_table where
  "RUN_VALUE_4 = built RUN_VALUE_4_CODES"

definition RUN_INDEX :: prefix_table where
  "RUN_INDEX = built RUN_INDEX_CODES"

definition INDEX_A :: "prefix_table list" where
  "INDEX_A = map built INDEX_A_CODES"

definition INDEX_B :: prefix_table where
  "INDEX_B = built INDEX_B_CODES"

definition FIRST_INDEX :: "prefix_table list" where
  "FIRST_INDEX = map built FIRST_INDEX_CODES"

definition normative_codes :: "vlc_code list list" where
  "normative_codes = ABS_LEVEL_CODES @ RUN_VALUE_CODES @ [RUN_INDEX_CODES] @ INDEX_A_CODES @
     [INDEX_B_CODES] @ FIRST_INDEX_CODES"

section \<open>What the constructor guarantees\<close>

definition covers :: "vlc_code \<Rightarrow> nat \<Rightarrow> bool" where
  "covers code p = (case code of (b, l, s) \<Rightarrow> p div 2 ^ (8 - l) = b)"

definition code_value :: "vlc_code \<Rightarrow> nat" where
  "code_value code = (case code of (b, l, s) \<Rightarrow> l * 256 + s)"

definition code_ok :: "vlc_code \<Rightarrow> bool" where
  "code_ok code = (case code of (b, l, s) \<Rightarrow> 0 < l \<and> l \<le> 8 \<and> b < 2 ^ l)"

definition symbols_ok :: "vlc_code list \<Rightarrow> bool" where
  "symbols_ok codes = list_all (\<lambda>(b, l, s). s < 256) codes"

definition longest :: "vlc_code list \<Rightarrow> nat" where
  "longest codes = foldl (\<lambda>m (b, l, s). max m l) 0 codes"

definition table_for :: "vlc_code list \<Rightarrow> prefix_table \<Rightarrow> bool" where
  "table_for codes t \<longleftrightarrow> length (lookup t) = 256 \<and> max_length t = longest codes \<and>
     (\<forall>c\<in>set codes. code_ok c) \<and>
     (\<forall>p<256. lookup t ! p = 0 \<longrightarrow> (\<forall>c\<in>set codes. \<not> covers c p)) \<and>
     (\<forall>p<256. lookup t ! p \<noteq> 0 \<longrightarrow> (\<exists>c\<in>set codes. covers c p \<and> lookup t ! p = code_value c)) \<and>
     (\<forall>p<256. \<forall>c\<in>set codes. \<forall>d\<in>set codes. covers c p \<longrightarrow> covers d p \<longrightarrow> c = d)"

lemma fill_slots:
  assumes "each_try (fill_slot v) [a..<b] xs = Ok ys" "v \<noteq> 0"
  shows "length ys = length xs" "a \<le> i \<Longrightarrow> i < b \<Longrightarrow> i < length xs \<and> xs ! i = 0 \<and> ys ! i = v"
    "\<not> (a \<le> i \<and> i < b) \<Longrightarrow> ys ! i = xs ! i"
proof -
  have "length ys = length xs \<and>
      (\<forall>i. if a \<le> i \<and> i < b then i < length xs \<and> xs ! i = 0 \<and> ys ! i = v else ys ! i = xs ! i)"
    using assms(1)
  proof (induction b arbitrary: ys)
    case (Suc b)
    show ?case
    proof (cases "a \<le> b")
      case True
      then obtain zs where zs: "each_try (fill_slot v) [a..<b] xs = Ok zs" "fill_slot v b zs = Ok ys"
        using Suc.prems by (auto simp: each_try_append let_try_eq_Ok)
      have "b < length zs" "zs ! b = 0" "ys = zs[b := v]"
        using zs(2) by (auto simp: fill_slot_def outcome_simps split: if_splits)
      note zs = zs(1) this
      from Suc.IH [OF zs(1)] zs(2-4) True assms(2) show ?thesis
        by (auto simp: nth_list_update less_Suc_eq split: if_splits)
    next
      case False
      then show ?thesis using Suc.prems by simp
    qed
  qed simp
  then show "length ys = length xs" "a \<le> i \<Longrightarrow> i < b \<Longrightarrow> i < length xs \<and> xs ! i = 0 \<and> ys ! i = v"
    "\<not> (a \<le> i \<and> i < b) \<Longrightarrow> ys ! i = xs ! i" by presburger+
qed

lemma longest_append: "longest (codes @ [(b, l, s)]) = max (longest codes) l"
  by (simp add: longest_def)

lemma covers_interval:
  "covers (b, l, s) p \<longleftrightarrow> b * 2 ^ (8 - l) \<le> p \<and> p < b * 2 ^ (8 - l) + 2 ^ (8 - l)"
proof -
  have d: "(0::nat) < 2 ^ (8 - l)" by simp
  have "p div 2 ^ (8 - l) = b \<longleftrightarrow> b \<le> p div 2 ^ (8 - l) \<and> p div 2 ^ (8 - l) < Suc b" by auto
  also have "\<dots> \<longleftrightarrow> b * 2 ^ (8 - l) \<le> p \<and> p < Suc b * 2 ^ (8 - l)"
    by (simp only: less_eq_div_iff_mult_less_eq [OF d] div_less_iff_less_mult [OF d])
  finally show ?thesis by (simp add: covers_def add.commute)
qed

lemma add_code_ok:
  assumes "add_code (b, l, s) t = Ok u" "table_for codes t" "s < 256"
  shows "table_for (codes @ [(b, l, s)]) u"
proof -
  let ?c = "(b, l, s)" and ?k = "8 - l"
  have l: "0 < l" "l \<le> 8" and "drop_bit l b = 0"
    using assms(1) by (auto simp: add_code_def LOOKUP_BITS_def split: if_splits)
  then have b: "b < 2 ^ l" by (simp add: drop_bit_eq_div div_eq_0_iff)
  have v: "push_bit 8 l OR s = code_value ?c" "code_value ?c \<noteq> 0"
    using nat_shift_or [of s 8 l] assms(3) l by (simp_all add: code_value_def)
  obtain slots where slots: "each_try (fill_slot (code_value ?c))
      [b * 2 ^ ?k..<b * 2 ^ ?k + 2 ^ ?k] (lookup t) = Ok slots"
    and u: "u = \<lparr>max_length = max (max_length t) l, lookup = slots\<rparr>"
  proof -
    have "(if m < l then l else m) = max m l" for m by simp
    then show thesis
      using assms(1) l \<open>drop_bit l b = 0\<close> that
      by (auto simp: add_code_def LOOKUP_BITS_def let_try_eq_Ok v(1) Let_def simp flip: push_bit_eq_mult)
  qed
  note cov = covers_interval [of b l s]
  note fill = fill_slots [OF slots v(2)]
  note t = assms(2) [unfolded table_for_def]
  have fresh: "\<not> covers d p" if "d \<in> set codes" "covers ?c p" "p < 256" for d p
    using fill(2) [of p] that cov t by blast
  have "length (lookup u) = 256" "max_length u = longest (codes @ [?c])"
    using t fill(1) by (simp_all add: u longest_append)
  moreover have "\<forall>d\<in>set (codes @ [?c]). code_ok d" using t l b by (simp add: code_ok_def)
  moreover have "\<forall>p<256. lookup u ! p = 0 \<longrightarrow> (\<forall>d\<in>set (codes @ [?c]). \<not> covers d p)"
    using t fill(2,3) cov v(2) by (simp add: u) metis
  moreover have "\<forall>p<256. lookup u ! p \<noteq> 0 \<longrightarrow>
      (\<exists>d\<in>set (codes @ [?c]). covers d p \<and> lookup u ! p = code_value d)"
    using t fill(2,3) cov by (simp add: u) metis
  moreover have "\<forall>p<256. \<forall>d\<in>set (codes @ [?c]). \<forall>e\<in>set (codes @ [?c]).
      covers d p \<longrightarrow> covers e p \<longrightarrow> d = e"
    using t fresh by auto
  ultimately show ?thesis unfolding table_for_def by blast
qed

lemma prefix_table_new_ok:
  assumes "prefix_table_new codes = Ok t" "symbols_ok codes"
  shows "table_for codes t"
proof -
  have "table_for codes t" if "each_try add_code codes \<lparr>max_length = 0, lookup = replicate 256 0\<rparr> = Ok t"
    "symbols_ok codes" for codes t
    using that
  proof (induction codes arbitrary: t rule: rev_induct)
    case Nil
    then show ?case by (auto simp: table_for_def longest_def)
  next
    case (snoc c codes)
    obtain b l s where c: "c = (b, l, s)" by (cases c)
    from snoc.prems(1) obtain t0 where t0:
      "each_try add_code codes \<lparr>max_length = 0, lookup = replicate 256 0\<rparr> = Ok t0"
      "add_code c t0 = Ok t"
      by (auto simp: each_try_append outcome_simps)
    then show ?case
      using add_code_ok [of b l s t0 t codes] snoc.IH [OF t0(1)] snoc.prems(2) c
      by (simp add: symbols_ok_def)
  qed
  then show ?thesis using assms by (simp add: prefix_table_new_def LOOKUP_BITS_def)
qed


section \<open>Lookup equals serial search\<close>

lemma read_narrow_length: "read_narrow_bits n r = (x, t) \<Longrightarrow> pk_length t = pk_length r"
  by (auto simp: read_narrow_bits_def Let_def refill_def consume_cached_def split: prod.splits if_splits)

lemma packet_read_bit_length: "packet_read_bit r = (x, t) \<Longrightarrow> pk_length t = pk_length r"
  by (auto simp: packet_read_bit_def run_try_def packet_read_narrow dest!: read_narrow_length
      split: prod.splits result.splits)

lemma packet_read_bit_ok:
  assumes "packet_ok r" "packet_unread r = b # bs"
  shows "\<exists>t. packet_read_bit r = (Ok b, t) \<and> packet_unread t = bs \<and> packet_ok t"
  using pkt.read_ok [OF assms(1), of 1] assms(2) by (auto simp: packet_read_bit_def run_try_step)

lemma packet_read_bit_end:
  assumes "packet_ok r" "packet_unread r = []"
  shows "\<exists>t. packet_read_bit r = (Err (UnexpectedEnd (pk_length r) 1 (pk_length r)), t)"
proof -
  have "pk_position r = pk_length r"
    using assms length_packet_unread [OF assms(1)] by (simp add: packet_ok_def)
  then show ?thesis
    using pkt.read_end [OF assms(1), of 1] assms(2)
    by (auto simp: packet_read_bit_def run_try_step end_error_def unexpected_end_def)
qed

lemma packet_position: "packet_ok r \<Longrightarrow> pk_position r = pk_length r - length (packet_unread r)"
  by (simp add: length_packet_unread) (simp add: packet_ok_def)

lemma bits_val_snoc: "bits_val (bs @ [b]) = push_bit 1 (bits_val bs) OR of_bool b"
  using nat_shift_or [of "of_bool b" 1 "bits_val bs"] by (simp add: bits_val_append)

lemma find_code_None: "find_code codes l p = None \<longleftrightarrow> (\<forall>s. (p, l, s) \<notin> set codes)"
  by (auto simp: find_code_def find_None_iff)

lemma find_code_Some: "find_code codes l p = Some c \<Longrightarrow> \<exists>s. c = (p, l, s) \<and> c \<in> set codes"
  by (auto simp: find_code_def find_Some_iff) (metis nth_mem)

text \<open>
  The loop stops at the first length whose prefix is a code, at the end of the packet, or after
  the longest length, whichever comes first.
\<close>

lemma serial_loop_miss:
  assumes "packet_ok r" "packet_unread r = drop len u" "len \<le> length u"
    and "\<And>l s. len < l \<Longrightarrow> l \<le> len + n \<Longrightarrow> l \<le> length u \<Longrightarrow>
      (bits_val (take l u), l, s) \<notin> set codes"
  shows "fst (serial_loop codes n len (bits_val (take len u)) r) =
    (if len + n \<le> length u then Ok None else Err (UnexpectedEnd (pk_length r) 1 (pk_length r)))"
  using assms
proof (induction n arbitrary: len r)
  case (Suc n)
  show ?case
  proof (cases "len = length u")
    case True
    then show ?thesis
      using packet_read_bit_end [OF Suc.prems(1)] Suc.prems(2) by (auto simp: run_try_step)
  next
    case False
    then have lt: "len < length u" using Suc.prems(3) by simp
    then have cons: "packet_unread r = u ! len # drop (Suc len) u"
      using Suc.prems(2) by (simp add: Cons_nth_drop_Suc)
    obtain t where t: "packet_read_bit r = (Ok (u ! len), t)" "packet_unread t = drop (Suc len) u"
      "packet_ok t" using packet_read_bit_ok [OF Suc.prems(1) cons] by blast
    have "take (Suc len) u = take len u @ [u ! len]" using lt by (rule take_Suc_conv_app_nth)
    then have q: "push_bit 1 (bits_val (take len u)) OR of_bool (u ! len) = bits_val (take (Suc len) u)"
      by (simp only: bits_val_snoc)
    have "find_code codes (Suc len) (bits_val (take (Suc len) u)) = None"
      unfolding find_code_None using Suc.prems(4) [of "Suc len"] lt by simp
    then have "serial_loop codes (Suc n) len (bits_val (take len u)) r =
        serial_loop codes n (Suc len) (bits_val (take (Suc len) u)) t"
      by (simp only: serial_loop.simps run_try_step(1) [where m = packet_read_bit, OF t(1)] Let_def q option.case)
    moreover have "fst (serial_loop codes n (Suc len) (bits_val (take (Suc len) u)) t) =
        (if Suc len + n \<le> length u then Ok None
         else Err (UnexpectedEnd (pk_length t) 1 (pk_length t)))"
      using lt t Suc.prems(4) by (intro Suc.IH) simp_all
    ultimately show ?thesis using packet_read_bit_length [OF t(1)] by simp
  qed
qed simp

lemma serial_loop_hit:
  assumes "packet_ok r" "packet_unread r = drop len u" "len < l" "l \<le> len + n" "l \<le> length u"
    and "(bits_val (take l u), l, s) \<in> set codes"
    and "\<And>k s. len < k \<Longrightarrow> k < l \<Longrightarrow> (bits_val (take k u), k, s) \<notin> set codes"
    and "\<And>s'. (bits_val (take l u), l, s') \<in> set codes \<Longrightarrow> s' = s"
  shows "\<exists>t. serial_loop codes n len (bits_val (take len u)) r = (Ok (Some s), t) \<and>
    packet_ok t \<and> packet_unread t = drop l u"
  using assms
proof (induction n arbitrary: len r)
  case (Suc n)
  have lt: "len < length u" using Suc.prems(3,5) by simp
  then have cons: "packet_unread r = u ! len # drop (Suc len) u"
    using Suc.prems(2) by (simp add: Cons_nth_drop_Suc)
  obtain t where t: "packet_read_bit r = (Ok (u ! len), t)" "packet_unread t = drop (Suc len) u"
    "packet_ok t" using packet_read_bit_ok [OF Suc.prems(1) cons] by blast
  have "take (Suc len) u = take len u @ [u ! len]" using lt by (rule take_Suc_conv_app_nth)
  then have q: "push_bit 1 (bits_val (take len u)) OR of_bool (u ! len) = bits_val (take (Suc len) u)"
    by (simp only: bits_val_snoc)
  have step: "serial_loop codes (Suc n) len (bits_val (take len u)) r =
      (case find_code codes (Suc len) (bits_val (take (Suc len) u)) of
         Some (_, _, symbol) \<Rightarrow> give (Some symbol)
       | None \<Rightarrow> serial_loop codes n (Suc len) (bits_val (take (Suc len) u))) t"
    by (simp only: serial_loop.simps run_try_step(1) [where m = packet_read_bit, OF t(1)] Let_def q)
  show ?case
  proof (cases "l = Suc len")
    case True
    then obtain s' where "find_code codes (Suc len) (bits_val (take (Suc len) u)) =
        Some (bits_val (take (Suc len) u), Suc len, s')"
      using Suc.prems(6) find_code_None [of codes "Suc len" "bits_val (take (Suc len) u)"]
      by (cases "find_code codes (Suc len) (bits_val (take (Suc len) u))")
        (auto dest!: find_code_Some)
    moreover from this have "s' = s"
      using Suc.prems(8) True by (auto dest!: find_code_Some)
    ultimately show ?thesis using step t True by simp
  next
    case False
    then have "Suc len < l" using Suc.prems(3) by simp
    then have "find_code codes (Suc len) (bits_val (take (Suc len) u)) = None"
      unfolding find_code_None using Suc.prems(7) [of "Suc len"] by simp
    then have "serial_loop codes (Suc n) len (bits_val (take len u)) r =
        serial_loop codes n (Suc len) (bits_val (take (Suc len) u)) t" using step by simp
    moreover have "\<exists>t'. serial_loop codes n (Suc len) (bits_val (take (Suc len) u)) t =
        (Ok (Some s), t') \<and> packet_ok t' \<and> packet_unread t' = drop l u"
      by (rule Suc.IH) (rule t(3) t(2) \<open>Suc len < l\<close> Suc.prems(5,6,8) |
          use Suc.prems(4,7) in simp)+
    ultimately show ?thesis by simp
  qed
qed simp


lemma longest_ge: "(b, l, s) \<in> set codes \<Longrightarrow> l \<le> longest codes"
  by (induction codes rule: rev_induct) (auto simp: longest_append)

text \<open>The peeked byte covers a code that fits exactly when the unread bits begin with it.\<close>

lemma peeked_covers:
  assumes "byte_bits b = take 8 (u @ replicate 8 False)" "l \<le> 8" "l \<le> length u"
  shows "covers (c, l, s) (unat b) \<longleftrightarrow> bits_val (take l u) = c"
proof -
  have "unat b div 2 ^ (8 - l) = bits_val (take l (byte_bits b))"
    by (simp add: bits_val_take bits_val_byte_bits)
  also have "take l (byte_bits b) = take l u" using assms by simp
  finally show ?thesis by (simp add: covers_def)
qed

lemma decode_outcome:
  assumes "table_for codes table" "symbols_ok codes" "packet_ok r" "decode syntax table r = (x, t)"
  defines "u \<equiv> packet_unread r"
  shows "packet_ok t" "pk_length t = pk_length r" and
    "(\<exists>c l s. (c, l, s) \<in> set codes \<and> l \<le> length u \<and> bits_val (take l u) = c \<and>
        x = Ok s \<and> packet_unread t = drop l u) \<or>
     (\<forall>c l s. (c, l, s) \<in> set codes \<longrightarrow> l \<le> length u \<longrightarrow> bits_val (take l u) \<noteq> c) \<and>
     packet_unread t = u \<and>
     x = Err (if length u < longest codes then UnexpectedEnd (pk_length r) 1 (pk_length r)
              else InvalidVlc syntax (pk_position r))"
proof -
  note tab = assms(1) [unfolded table_for_def]
  obtain b w where peek: "peek_byte r = (b, w)" by (cases "peek_byte r")
  note peeked = peek_byte_bits [OF assms(3) peek]
  let ?p = "unat b"
  have p: "?p < 256" using unsigned_less [where 'a = nat, of b] by simp
  have plen: "pk_length w = pk_length r" "pk_position w = pk_position r" using peeked by simp_all
  have remaining: "bits_remaining w = length u"
    using bits_remaining_unread [OF peeked(2)] peeked(3) by (simp add: u_def)
  have cov: "covers (c, l, s) ?p \<longleftrightarrow> bits_val (take l u) = c"
    if "(c, l, s) \<in> set codes" "l \<le> length u" for c l s
    using peeked_covers [OF peeked(1)] that tab by (auto simp: u_def code_ok_def)
  have end_pos: "pk_length r \<le> usize_max" "pk_position r + length u = pk_length r"
    using assms(3) length_packet_unread [OF assms(3)] by (auto simp: packet_ok_def u_def)
  have fail: "packet_ok t \<and> pk_length t = pk_length r \<and> packet_unread t = u \<and>
      x = Err (if length u < longest codes then UnexpectedEnd (pk_length r) 1 (pk_length r)
              else InvalidVlc syntax (pk_position r))"
    if "(x, t) = (if bits_remaining w < max_length table
        then (Err (unexpected_end_after (bits_remaining w) w), w)
        else (Err (InvalidVlc syntax (pk_position w)), w))"
    using that tab peeked(2,3) plen remaining end_pos
    by (simp add: u_def unexpected_end_after_def unexpected_end_def split: if_splits)
  have "packet_ok t \<and> pk_length t = pk_length r \<and>
    ((\<exists>c l s. (c, l, s) \<in> set codes \<and> l \<le> length u \<and> bits_val (take l u) = c \<and>
        x = Ok s \<and> packet_unread t = drop l u) \<or>
     (\<forall>c l s. (c, l, s) \<in> set codes \<longrightarrow> l \<le> length u \<longrightarrow> bits_val (take l u) \<noteq> c) \<and>
     packet_unread t = u \<and>
     x = Err (if length u < longest codes then UnexpectedEnd (pk_length r) 1 (pk_length r)
              else InvalidVlc syntax (pk_position r)))" (is ?main)
  proof (cases "lookup table ! ?p = 0")
    case True
    then have "\<not> covers d ?p" if "d \<in> set codes" for d using tab p that by blast
    then have none: "bits_val (take l u) \<noteq> c" if "(c, l, s) \<in> set codes" "l \<le> length u" for c l s
      using cov that by blast
    have "(x, t) = (if bits_remaining w < max_length table
        then (Err (unexpected_end_after (bits_remaining w) w), w)
        else (Err (InvalidVlc syntax (pk_position w)), w))"
      using assms(4) True by (simp add: decode_def peek Let_def)
    from fail [OF this] none show ?main by blast
  next
    case False
    then obtain d where d: "d \<in> set codes" "covers d ?p" "lookup table ! ?p = code_value d"
      using tab p by blast
    obtain c l s where "d = (c, l, s)" by (cases d)
    with d have code: "(c, l, s) \<in> set codes" "covers (c, l, s) ?p"
      "lookup table ! ?p = l * 256 + s" by (simp_all add: code_value_def)
    have s: "s < 256" using assms(2) code(1) by (auto simp: symbols_ok_def list_all_iff)
    have l: "0 < l" "l \<le> 8" using tab code(1) by (auto simp: code_ok_def)
    have ls: "(l * 256 + s) div 256 = l" "(l * 256 + s) mod 256 = s" using s by simp_all
    obtain sk v where skip: "skip_cached l w = (sk, v)" by (cases "skip_cached l w")
    have "l \<le> 57" using l by simp
    note skipped = skip_cached_ok [OF peeked(2) this skip]
    have fits: "l \<le> pk_cached w \<longleftrightarrow> l \<le> length u"
      using peeked(2,3,4) l by (auto simp: u_def packet_ok_def cache_ok_def)
    have vlen: "pk_length v = pk_length w"
      using skip by (auto simp: skip_cached_def consume_cached_def split: if_splits)
    show ?main
    proof (cases "l \<le> length u")
      case True
      then have "x = Ok s" "t = v" "sk"
        using assms(4) False code(3) ls skip skipped(1) fits
        by (simp_all add: decode_def peek Let_def)
      then show ?thesis
        using skipped(2) code cov True vlen plen peeked(3) by (auto simp: u_def)
    next
      case nofit: False
      have none: "bits_val (take k u) \<noteq> d" if d: "(d, k, z) \<in> set codes" "k \<le> length u" for d k z
      proof
        assume "bits_val (take k u) = d"
        then have "covers (d, k, z) ?p" using cov d by blast
        then have "(d, k, z) = (c, l, s)" using tab p d(1) code(1,2) by blast
        then show False using nofit d(2) by simp
      qed
      have "\<not> sk" "v = w" using skipped(1,3) fits nofit by auto
      then have "(x, t) = (if bits_remaining w < max_length table
        then (Err (unexpected_end_after (bits_remaining w) w), w)
        else (Err (InvalidVlc syntax (pk_position w)), w))"
        using assms(4) False code(3) ls skip by (simp add: decode_def peek Let_def)
      from fail [OF this] none show ?thesis by blast
    qed
  qed
  then show "packet_ok t" "pk_length t = pk_length r" and
    "(\<exists>c l s. (c, l, s) \<in> set codes \<and> l \<le> length u \<and> bits_val (take l u) = c \<and>
        x = Ok s \<and> packet_unread t = drop l u) \<or>
     (\<forall>c l s. (c, l, s) \<in> set codes \<longrightarrow> l \<le> length u \<longrightarrow> bits_val (take l u) \<noteq> c) \<and>
     packet_unread t = u \<and>
     x = Err (if length u < longest codes then UnexpectedEnd (pk_length r) 1 (pk_length r)
              else InvalidVlc syntax (pk_position r))" by blast+
qed

lemma lookup_serial:
  assumes "prefix_table_new codes = Ok table" "symbols_ok codes" "packet_ok r"
    and "decode syntax table r = (x, t)" "serial_decode syntax codes r = (y, v)"
  shows "x = y \<and> packet_ok t \<and>
    packet_unread t = (case x of Ok s \<Rightarrow> packet_unread v | _ \<Rightarrow> packet_unread r)"
proof -
  have tab: "table_for codes table" using prefix_table_new_ok assms(1,2) by blast
  let ?u = "packet_unread r"
  note out = decode_outcome [OF tab assms(2-4)]
  have ser: "serial_decode syntax codes r =
      run_try (serial_loop codes (longest codes) 0 (bits_val (take 0 ?u)))
       (\<lambda>found. case found of Some symbol \<Rightarrow> give symbol
         | None \<Rightarrow> fail (InvalidVlc syntax (pk_position r))) r"
    by (simp add: serial_decode_def longest_def)
  have prefix_free: "(c, l, s) = (d, k, z)" if "(c, l, s) \<in> set codes" "(d, k, z) \<in> set codes"
    "l \<le> length ?u" "k \<le> length ?u" "bits_val (take l ?u) = c" "bits_val (take k ?u) = d"
    for c d l k s z
  proof -
    obtain b w where peek: "peek_byte r = (b, w)" by (cases "peek_byte r")
    have "unat b < 256" using unsigned_less [where 'a = nat, of b] by simp
    moreover have "covers (c, l, s) (unat b)" "covers (d, k, z) (unat b)"
      using peeked_covers [OF peek_byte_bits(1) [OF assms(3) peek]] that tab
      by (auto simp: table_for_def code_ok_def)
    ultimately show ?thesis using tab that(1,2) unfolding table_for_def by blast
  qed
  from out(3) have "x = y \<and>
      packet_unread t = (case x of Ok s \<Rightarrow> packet_unread v | _ \<Rightarrow> packet_unread r)"
  proof (elim disjE exE conjE)
    fix c l s assume hit: "(c, l, s) \<in> set codes" "l \<le> length ?u" "bits_val (take l ?u) = c"
      "x = Ok s" "packet_unread t = drop l ?u"
    have "\<exists>w. serial_loop codes (longest codes) 0 (bits_val (take 0 ?u)) r = (Ok (Some s), w) \<and>
        packet_ok w \<and> packet_unread w = drop l ?u"
    proof (rule serial_loop_hit [OF assms(3)])
      show "0 < l" using tab hit(1) by (auto simp: table_for_def code_ok_def)
      show "l \<le> 0 + longest codes" using longest_ge [OF hit(1)] by simp
      show "(bits_val (take k ?u), k, z) \<notin> set codes" if "0 < k" "k < l" for k z
        using prefix_free [OF hit(1), of "bits_val (take k ?u)" k z] hit(2,3) that by auto
      show "s' = s" if "(bits_val (take l ?u), l, s') \<in> set codes" for s'
        using prefix_free [OF hit(1) that] hit(2,3) by simp
    qed (use hit in simp_all)
    then show "x = y \<and> packet_unread t = (case x of Ok s \<Rightarrow> packet_unread v | _ \<Rightarrow> packet_unread r)"
      using assms(5) hit(4,5) unfolding ser by (auto simp: run_try_step)
  next
    assume miss: "\<forall>c l s. (c, l, s) \<in> set codes \<longrightarrow> l \<le> length ?u \<longrightarrow> bits_val (take l ?u) \<noteq> c"
      "packet_unread t = ?u"
      and x: "x = Err (if length ?u < longest codes then UnexpectedEnd (pk_length r) 1 (pk_length r)
              else InvalidVlc syntax (pk_position r))"
    have "fst (serial_loop codes (longest codes) 0 (bits_val (take 0 ?u)) r) =
      (if 0 + longest codes \<le> length ?u then Ok None
       else Err (UnexpectedEnd (pk_length r) 1 (pk_length r)))"
      by (rule serial_loop_miss [OF assms(3)]) (use miss(1) in auto)
    then have "y = x" using assms(5) x unfolding ser
      by (auto simp: run_try_def split: prod.splits if_splits)
    then show "x = y \<and> packet_unread t = (case x of Ok s \<Rightarrow> packet_unread v | _ \<Rightarrow> packet_unread r)"
      using x miss(2) by simp
  qed
  with out(1) show ?thesis by blast
qed


section \<open>Which code lists are accepted\<close>

definition disjoint_codes :: "vlc_code \<Rightarrow> vlc_code \<Rightarrow> bool" where
  "disjoint_codes c d = (case (c, d) of ((b, l, _), (b', l', _)) \<Rightarrow>
     let k = min l l' in b div 2 ^ (l - k) \<noteq> b' div 2 ^ (l' - k))"

definition prefix_free :: "vlc_code list \<Rightarrow> bool" where
  "prefix_free codes \<longleftrightarrow> list_all code_ok codes \<and> symbols_ok codes \<and> sorted_wrt disjoint_codes codes"

lemma covers_shorter:
  assumes "covers (b, l, s) p" "k \<le> l" "l \<le> 8"
  shows "b div 2 ^ (l - k) = p div 2 ^ (8 - k)"
proof -
  have "b div 2 ^ (l - k) = p div (2 ^ (8 - l) * 2 ^ (l - k))"
    using assms(1) by (simp add: covers_def div_mult2_eq)
  also have "2 ^ (8 - l) * 2 ^ (l - k) = (2::nat) ^ (8 - k)"
    using assms(2,3) by (simp flip: power_add)
  finally show ?thesis .
qed

lemma disjoint_codes_covers:
  assumes "disjoint_codes c d" "code_ok c" "code_ok d" "covers c p" "covers d p"
  shows False
proof -
  obtain b l s b' l' s' where cd: "c = (b, l, s)" "d = (b', l', s')" by (cases c; cases d) blast
  let ?k = "min l l'"
  have "b div 2 ^ (l - ?k) = p div 2 ^ (8 - ?k)" "b' div 2 ^ (l' - ?k) = p div 2 ^ (8 - ?k)"
    using assms cd covers_shorter [of b l s p ?k] covers_shorter [of b' l' s' p ?k]
    by (auto simp: code_ok_def)
  then show False using assms(1) cd by (simp add: disjoint_codes_def Let_def)
qed

lemma fill_slots_total:
  assumes "b \<le> length xs" "\<And>i. a \<le> i \<Longrightarrow> i < b \<Longrightarrow> xs ! i = 0"
  shows "\<exists>ys. each_try (fill_slot v) [a..<b] xs = Ok ys"
  using assms
proof (induction "[a..<b]" arbitrary: a xs)
  case Nil
  then show ?case by (metis each_try.simps(1))
next
  case (Cons i "is")
  then have ab: "a < b" "i = a" "is = [Suc a..<b]"
    using Cons.hyps(2) [symmetric] by (auto simp: upt_eq_Cons_conv)
  have "fill_slot v a xs = Ok (xs[a := v])"
    using Cons.prems ab(1) by (simp add: fill_slot_def)
  moreover have "\<exists>ys. each_try (fill_slot v) [Suc a..<b] (xs[a := v]) = Ok ys"
    using Cons.prems ab by (intro Cons.hyps(1)) simp_all
  ultimately show ?case using ab by (simp add: upt_conv_Cons)
qed

lemma prefix_free_accepted:
  assumes "prefix_free codes"
  shows "\<exists>t. prefix_table_new codes = Ok t \<and> table_for codes t"
proof -
  have "\<exists>t. each_try add_code codes \<lparr>max_length = 0, lookup = replicate 256 0\<rparr> = Ok t"
    if "prefix_free codes" for codes
    using that
  proof (induction codes rule: rev_induct)
    case (snoc c codes)
    have free: "prefix_free codes" "code_ok c" "\<forall>d\<in>set codes. disjoint_codes d c \<and> code_ok d"
      "symbols_ok codes" "symbols_ok [c]"
      using snoc.prems by (auto simp: prefix_free_def sorted_wrt_append symbols_ok_def list_all_iff)
    obtain t where t: "each_try add_code codes \<lparr>max_length = 0, lookup = replicate 256 0\<rparr> = Ok t"
      using snoc.IH [OF free(1)] by blast
    then have tab: "table_for codes t"
      using prefix_table_new_ok [of codes t] free(4) by (simp add: prefix_table_new_def LOOKUP_BITS_def)
    obtain b l s where c: "c = (b, l, s)" by (cases c)
    have l: "0 < l" "l \<le> 8" "b < 2 ^ l" "s < 256"
      using free(2,5) c by (simp_all add: code_ok_def symbols_ok_def)
    then have "drop_bit l b = 0" by (simp add: drop_bit_eq_div)
    have "Suc b * 2 ^ (8 - l) \<le> 2 ^ l * 2 ^ (8 - l)" using l(3) by (intro mult_le_mono1) simp
    also have "\<dots> = (2::nat) ^ 8" using l(2) by (simp flip: power_add)
    finally have le: "b * 2 ^ (8 - l) + 2 ^ (8 - l) \<le> 256" by simp
    have "\<exists>ys. each_try (fill_slot v) [b * 2 ^ (8 - l)..<b * 2 ^ (8 - l) + 2 ^ (8 - l)] (lookup t) = Ok ys"
      for v
    proof (rule fill_slots_total)
      show "b * 2 ^ (8 - l) + 2 ^ (8 - l) \<le> length (lookup t)"
        using le tab by (simp add: table_for_def)
      fix i assume i: "b * 2 ^ (8 - l) \<le> i" "i < b * 2 ^ (8 - l) + 2 ^ (8 - l)"
      then have "covers c i" by (simp add: c covers_interval)
      then have "\<not> covers d i" if "d \<in> set codes" for d
        using disjoint_codes_covers free(2,3) that by blast
      moreover have "i < 256" using i(2) le by simp
      ultimately show "lookup t ! i = 0" using tab unfolding table_for_def by blast
    qed
    then obtain ys where "each_try (fill_slot (push_bit 8 l OR s))
        [push_bit (8 - l) b..<push_bit (8 - l) b + push_bit (8 - l) 1] (lookup t) = Ok ys"
      by (simp only: push_bit_eq_mult mult_1) blast
    then have "\<exists>u. add_code c t = Ok u"
      using l \<open>drop_bit l b = 0\<close> by (simp add: c add_code_def LOOKUP_BITS_def Let_def)
    then show ?case using t by (auto simp: each_try_append)
  qed simp
  then show ?thesis
    using assms prefix_table_new_ok [of codes] unfolding prefix_table_new_def LOOKUP_BITS_def
    by (auto simp: prefix_free_def)
qed

lemma normative_prefix_free: "list_all prefix_free normative_codes"
  by code_simp

section \<open>The normative tables are complete\<close>

text \<open>Below each prefix \<open>b\<close> of \<open>l\<close> bits there is a code, or both of its extensions are complete.\<close>

fun complete_below :: "vlc_code list \<Rightarrow> nat \<Rightarrow> nat \<Rightarrow> nat \<Rightarrow> bool" where
  "complete_below codes 0 l b = list_ex (\<lambda>(c, k, s). k = l \<and> c = b) codes"
| "complete_below codes (Suc n) l b = (list_ex (\<lambda>(c, k, s). k = l \<and> c = b) codes \<or>
     complete_below codes n (Suc l) (2 * b) \<and> complete_below codes n (Suc l) (2 * b + 1))"

definition complete :: "vlc_code list \<Rightarrow> bool" where
  "complete codes = complete_below codes 8 0 0"

lemma covering_code:
  assumes "(c, l, s) \<in> set codes" "l + n = 8" "p div 2 ^ n = c"
  shows "\<exists>c\<in>set codes. covers c p"
proof -
  have "n = 8 - l" using assms(2) by simp
  then show ?thesis using assms by (intro bexI [of _ "(c, l, s)"]) (auto simp: covers_def)
qed

lemma complete_below_covers:
  "complete_below codes n l b \<Longrightarrow> l + n = 8 \<Longrightarrow> p div 2 ^ n = b \<Longrightarrow> \<exists>c\<in>set codes. covers c p"
proof (induction n arbitrary: l b)
  case 0
  then show ?case by (auto simp: list_ex_iff intro: covering_code)
next
  case (Suc n)
  have here: "\<exists>c\<in>set codes. covers c p" if "list_ex (\<lambda>(c, k, s). k = l \<and> c = b) codes"
    using that Suc.prems(2,3) covering_code [of b l _ codes "Suc n" p]
    unfolding list_ex_iff by blast
  have "p div 2 ^ n div 2 = b" using Suc.prems(3) by (metis div_mult2_eq mult.commute power_Suc)
  then have "p div 2 ^ n = 2 * b \<or> p div 2 ^ n = 2 * b + 1" by auto
  then show ?case using Suc.IH [of "Suc l" "2 * b"] Suc.IH [of "Suc l" "2 * b + 1"]
    Suc.prems(1,2) here by auto
qed

definition symbols :: "vlc_code list \<Rightarrow> nat list" where
  "symbols codes = map (\<lambda>(b, l, s). s) codes"

text \<open>Such code lists build a table whose every lookup hits.\<close>

definition well_coded :: "vlc_code list \<Rightarrow> bool" where
  "well_coded codes \<longleftrightarrow> prefix_free codes \<and> complete codes"

lemma well_coded_built:
  assumes "well_coded codes"
  shows "prefix_table_new codes = Ok (built codes)" "table_for codes (built codes)"
    "symbols_ok codes" "complete codes"
proof -
  have free: "prefix_free codes" using assms by (simp add: well_coded_def)
  then obtain t where t: "prefix_table_new codes = Ok t" "table_for codes t"
    using prefix_free_accepted by blast
  then show "prefix_table_new codes = Ok (built codes)" "table_for codes (built codes)"
    by (simp_all add: built_def)
  show "symbols_ok codes" using free by (simp add: prefix_free_def)
  show "complete codes" using assms by (simp add: well_coded_def)
qed

lemma well_coded_decode:
  assumes "well_coded codes" "packet_ok r" "decode syntax (built codes) r = (x, t)"
  shows "packet_ok t" "pk_length t = pk_length r"
    "(\<exists>s \<in> set (symbols codes). x = Ok s) \<or> x = Err (UnexpectedEnd (pk_length r) 1 (pk_length r))"
proof -
  note built = well_coded_built [OF assms(1)]
  let ?u = "packet_unread r"
  note out = decode_outcome [OF built(2,3) assms(2,3)]
  show "packet_ok t" "pk_length t = pk_length r" by (rule out)+
  have "length ?u < longest codes"
    if none: "\<forall>c l s. (c, l, s) \<in> set codes \<longrightarrow> l \<le> length ?u \<longrightarrow> bits_val (take l ?u) \<noteq> c"
  proof -
    obtain b w where peek: "peek_byte r = (b, w)" by (cases "peek_byte r")
    have "unat b < 256" using unsigned_less [where 'a = nat, of b] by simp
    then obtain d where d: "d \<in> set codes" "covers d (unat b)"
      using complete_below_covers [of codes 8 0 0 "unat b"] built(4) by (auto simp: complete_def)
    obtain c l s where "d = (c, l, s)" by (metis prod_cases3)
    with d have d: "(c, l, s) \<in> set codes" "covers (c, l, s) (unat b)" by simp_all
    then have "l \<le> 8" using built(2) by (auto simp: table_for_def code_ok_def)
    then have "\<not> l \<le> length ?u"
      using none d peeked_covers [OF peek_byte_bits(1) [OF assms(2) peek]] by blast
    then show ?thesis using longest_ge [OF d(1)] by simp
  qed
  then show "(\<exists>s \<in> set (symbols codes). x = Ok s) \<or>
      x = Err (UnexpectedEnd (pk_length r) 1 (pk_length r))"
    using out(3) by (force simp: symbols_def)
qed

lemma normative_complete: "list_all complete normative_codes"
  by code_simp

lemma normative_well_coded: "codes \<in> set normative_codes \<Longrightarrow> well_coded codes"
  using normative_prefix_free normative_complete by (simp add: list_all_iff well_coded_def)

lemmas normative_built = well_coded_built [OF normative_well_coded]
lemmas normative_decode = well_coded_decode [OF normative_well_coded]

section \<open>Properties\<close>

text \<open>
  C19: the one-lookup decoder equals the normative bit-serial search. For every list of codes the
  table constructor accepts and every packet, both return the same symbol and leave the same unread
  bits, or fail with the same error: the end of the packet at the bit where the serial reader stops,
  or an invalid prefix at the code's first bit. A failing lookup consumes nothing.
\<close>

theorem decode_equals_serial:
  assumes "prefix_table_new codes = Ok table" "symbols_ok codes" "packet_ok r"
  shows "case (decode syntax table r, serial_decode syntax codes r) of ((x, t), (y, v)) \<Rightarrow>
    x = y \<and> packet_ok t \<and>
    packet_unread t = (case x of Ok s \<Rightarrow> packet_unread v | _ \<Rightarrow> packet_unread r)"
  using lookup_serial [OF assms] by (auto split: prod.split)

lemma decode_equals_serial_witness:
  "\<exists>t. prefix_table_new RUN_VALUE_3_CODES = Ok t \<and>
    fst (decode ''RUN_VALUE'' t (packet_new [0b01000000])) =
    fst (serial_decode ''RUN_VALUE'' RUN_VALUE_3_CODES (packet_new [0b01000000]))"
proof -
  have free: "prefix_free RUN_VALUE_3_CODES" by code_simp
  then obtain t where t: "prefix_table_new RUN_VALUE_3_CODES = Ok t"
    using prefix_free_accepted by blast
  have "symbols_ok RUN_VALUE_3_CODES" using free by (simp add: prefix_free_def)
  moreover have "packet_ok (packet_new [0b01000000])"
    using packet_new_ok [of "[0b01000000]"] by simp
  ultimately have "case (decode ''RUN_VALUE'' t (packet_new [0b01000000]),
      serial_decode ''RUN_VALUE'' RUN_VALUE_3_CODES (packet_new [0b01000000])) of ((x, t), (y, v)) \<Rightarrow>
    x = y \<and> packet_ok t \<and> packet_unread t =
      (case x of Ok s \<Rightarrow> packet_unread v | _ \<Rightarrow> packet_unread (packet_new [0b01000000]))"
    by (rule decode_equals_serial [OF t])
  with t show ?thesis by (auto split: prod.splits)
qed


text \<open>
  Every normative code list is prefix-free and complete: its table is built without a failed
  assertion, and decoding with it returns one of its symbols or reports the end of the packet, never
  an invalid prefix and never a panic.
\<close>

theorem normative_tables_complete:
  assumes "codes \<in> set normative_codes" "packet_ok r"
  shows "prefix_table_new codes = Ok (built codes) \<and>
    (case decode syntax (built codes) r of (x, t) \<Rightarrow> packet_ok t \<and>
      ((\<exists>s \<in> set (symbols codes). x = Ok s) \<or>
       x = Err (UnexpectedEnd (pk_length r) 1 (pk_length r))))"
  using normative_built(1) [OF assms(1)] normative_decode [OF assms] by (auto split: prod.split)

lemma normative_tables_complete_witness:
  "case decode ''RUN_INDEX'' (built RUN_INDEX_CODES) (packet_new []) of (x, t) \<Rightarrow> packet_ok t \<and>
    ((\<exists>s \<in> set (symbols RUN_INDEX_CODES). x = Ok s) \<or> x = Err (UnexpectedEnd 0 1 0))"
proof -
  have "RUN_INDEX_CODES \<in> set normative_codes" by (simp add: normative_codes_def)
  moreover have "packet_ok (packet_new [])" using packet_new_ok [of "[]"] by simp
  ultimately show ?thesis
    using normative_tables_complete [of RUN_INDEX_CODES "packet_new []" "''RUN_INDEX''"]
    by (simp add: packet_new_def)
qed

end
