(* ===== verification/Refinement.thy ===== *)
theory Refinement
  imports Vlc
begin

text \<open>
  LP refinement and HP flexbits (\<open>crates/jxr-native/src/entropy/refinement.rs\<close>): the low bits of a
  coefficient, which follow the prefix-coded high part in fixed-width fields. The theorems: the
  cached fast path equals the plain one, and refinement inverts the splitting of coefficients into
  high part and refinement bits.
\<close>

section \<open>Readers that differ in their caches only\<close>

definition agree :: "packet_reader \<Rightarrow> packet_reader \<Rightarrow> bool" where
  "agree r t \<longleftrightarrow> packet_ok r \<and> packet_ok t \<and> packet_unread r = packet_unread t \<and>
     pk_length r = pk_length t"

lemma agree_refl: "packet_ok r \<Longrightarrow> agree r r"
  by (simp add: agree_def)

lemma agree_sym: "agree r t \<Longrightarrow> agree t r"
  by (auto simp: agree_def)

lemma agree_trans: "agree r s \<Longrightarrow> agree s t \<Longrightarrow> agree r t"
  by (auto simp: agree_def)

lemma agree_position: "agree r t \<Longrightarrow> pk_position r = pk_position t"
  by (simp add: agree_def packet_position)

lemma packet_read_bits_length:
  "packet_read_bits n r = (x, t) \<Longrightarrow> pk_length t = pk_length r"
proof (induction n arbitrary: r x t rule: packet_read_bits.induct)
  case (1 n)
  have narrow: "pk_length (snd (packet_read_bits m s)) = pk_length s" if "m \<le> 57" for m s
    using read_narrow_length [of m s] packet_read_narrow [OF that] by (metis prod.collapse)
  show ?case
  proof (cases "57 < n \<and> n \<le> 64 \<and> \<not> bits_remaining r < n")
    case True
    then have "n - 32 \<le> 57" "(32::nat) \<le> 57" by linarith+
    note n = narrow [OF this(1)] narrow [OF this(2)]
    show ?thesis using 1(3) True n(1) [of r] n(2)
      by (auto simp: packet_read_bits.simps [of n] run_try_def split: prod.splits result.splits)
        (metis snd_conv)+
  next
    case False
    then show ?thesis using 1(3) read_narrow_length
      by (auto simp: packet_read_bits.simps [of n] split: if_splits)
  qed
qed

lemma read_bits_mirrors: "n \<le> 64 \<Longrightarrow> mirrors agree (packet_read_bits n) (packet_read_bits n)"
  unfolding mirrors_def
proof (intro allI impI)
  fix r t assume n: "n \<le> 64" and rt: "agree r t"
  then have ok: "packet_ok r" "packet_ok t" and u: "packet_unread r = packet_unread t"
    and l: "pk_length r = pk_length t" by (simp_all add: agree_def)
  obtain x r' y t' where read: "packet_read_bits n r = (x, r')" "packet_read_bits n t = (y, t')"
    by (cases "packet_read_bits n r"; cases "packet_read_bits n t")
  have l': "pk_length r' = pk_length t'" using packet_read_bits_length read l by metis
  have "x = y \<and> agree r' t'"
  proof (cases "n \<le> length (packet_unread r)")
    case True
    then show ?thesis using pkt.read_ok [OF ok(1) n] pkt.read_ok [OF ok(2) n] u l' read
      by (auto simp: agree_def)
  next
    case False
    have "end_error n r = end_error n t"
      by (rule end_error_same) (simp_all add: l agree_position [OF rt])
    then show ?thesis using False pkt.read_end [OF ok(1) n] pkt.read_end [OF ok(2) n] u l' read
      by (auto simp: agree_def)
  qed
  then show "fst (packet_read_bits n r) = fst (packet_read_bits n t) \<and>
      agree (snd (packet_read_bits n r)) (snd (packet_read_bits n t))" by (simp add: read)
qed

lemma read_bit_mirrors: "mirrors agree packet_read_bit packet_read_bit"
  unfolding packet_read_bit_def by (intro mirrors_bind read_bits_mirrors mirrors_simps) simp

section \<open>Flexbits\<close>

definition TRANSPOSE :: "nat list" where
  "TRANSPOSE = [0, 4, 8, 12, 1, 5, 9, 13, 2, 6, 10, 14, 3, 7, 11, 15]"

text \<open>\<open>i32::try_from\<close> on the value of a read.\<close>

definition i32_of_bits :: "nat \<Rightarrow> (entropy_error, i32) result" where
  "i32_of_bits n = (if int n \<le> i32_max then Ok (int n) else Err CoefficientOverflow)"

definition flex_signed :: "i32 \<Rightarrow> bool \<Rightarrow> (entropy_error, i32) result" where
  "flex_signed magnitude negative =
     (if negative then ok_or CoefficientOverflow (i32_checked_neg magnitude) else Ok magnitude)"

definition flex_apply_sign :: "i32 \<Rightarrow> i32 decoder" where
  "flex_apply_sign value =
     (if value = 0 then give 0
      else run_try packet_read_bit (\<lambda>negative. pure_try (flex_signed value negative)))"

definition decode_flex :: "i32 \<Rightarrow> nat \<Rightarrow> i32 decoder" where
  "decode_flex vlc_coefficient flex_bits =
     (if 29 < flex_bits then fail (InvalidParameter ''flexbits width'' (int flex_bits))
      else run_try (packet_read_bits flex_bits) (\<lambda>raw.
        run_try (pure_try (i32_of_bits raw)) (\<lambda>value.
        if 0 < vlc_coefficient then give value
        else if vlc_coefficient < 0 then pure_try (flex_signed value True)
        else if value = 0 then give 0
        else flex_apply_sign value)))"

text \<open>
  The fast path asserts that its width is at most 15: a panic in a build with checks. Then the assertion of
  \<open>read_magnitude_and_sign\<close> (at most 29 bits) holds. The negation \<open>-magnitude\<close> is unchecked in the code;
  it is in range because \<open>magnitude\<close> is the value of a successful \<open>i32::try_from\<close> of an unsigned number.
\<close>

definition decode_flex_fast :: "i32 \<Rightarrow> nat \<Rightarrow> i32 decoder" where
  "decode_flex_fast vlc_coefficient flex_bits r =
     (if 15 < flex_bits then (Panic, r)
      else case read_magnitude_and_sign flex_bits (vlc_coefficient = 0) r of
        (Some (magnitude, negative), t) \<Rightarrow>
          (let_try (i32_of_bits magnitude) (\<lambda>magnitude.
             if negative \<or> vlc_coefficient < 0 then i32_or_panic (- magnitude) else Ok magnitude), t)
      | (None, t) \<Rightarrow> decode_flex vlc_coefficient flex_bits t)"

text \<open>The loop over the positions of an HP block.\<close>

fun flex_loop :: "i32 list \<Rightarrow> nat \<Rightarrow> nat \<Rightarrow> nat list \<Rightarrow> i32 list \<Rightarrow> i32 list decoder" where
  "flex_loop vlc_coefficients bits_left trim_flexbits [] out = give out"
| "flex_loop vlc_coefficients bits_left trim_flexbits (position # positions) out =
     run_try (decode_flex_fast (vlc_coefficients ! position) bits_left) (\<lambda>flex.
     run_try (pure_try (ok_or CoefficientOverflow (i32_checked_shl flex trim_flexbits))) (\<lambda>value.
     flex_loop vlc_coefficients bits_left trim_flexbits positions (out[position := value])))"

definition decode_flex_block :: "i32 list \<Rightarrow> nat \<Rightarrow> nat \<Rightarrow> i32 list decoder" where
  "decode_flex_block vlc_coefficients model_bits trim_flexbits =
     (if 15 < model_bits then fail (InvalidParameter ''HP model bits'' (int model_bits))
      else if 15 < trim_flexbits then fail (InvalidParameter ''trim flexbits'' (int trim_flexbits))
      else let bits_left = model_bits - trim_flexbits; out = replicate 16 0 in
        if bits_left = 0 then give out
        else flex_loop vlc_coefficients bits_left trim_flexbits (tl TRANSPOSE) out)"

section \<open>LP refinement\<close>

text \<open>The reader and the coefficients are both borrowed; the coefficients keep partial results.\<close>

fun decode_lp_refinement_at ::
  "nat list \<Rightarrow> nat \<Rightarrow> (packet_reader \<times> i32 list, entropy_error, unit) action" where
  "decode_lp_refinement_at [] model_bits = give ()"
| "decode_lp_refinement_at (position # positions) model_bits = (\<lambda>(r, coefficients).
     if position = 0 \<or> length coefficients \<le> position
     then (Err (InvalidParameter ''LP refinement position'' (min (int position) (2 ^ 63 - 1))),
       r, coefficients)
     else
       let coefficient = coefficients ! position in
       case (if model_bits \<le> 15 then decode_flex_fast coefficient model_bits
             else decode_flex coefficient model_bits) r of
         (Ok refinement, t) \<Rightarrow>
           (case Option.bind (i32_checked_shl coefficient model_bits)
               (\<lambda>value. i32_checked_add value refinement) of
              Some value \<Rightarrow>
                decode_lp_refinement_at positions model_bits (t, coefficients[position := value])
            | None \<Rightarrow> (Err CoefficientOverflow, t, coefficients))
       | (Err e, t) \<Rightarrow> (Err e, t, coefficients)
       | (Panic, t) \<Rightarrow> (Panic, t, coefficients))"

definition decode_lp_refinement ::
  "nat \<Rightarrow> (packet_reader \<times> i32 list, entropy_error, unit) action" where
  "decode_lp_refinement model_bits = decode_lp_refinement_at (tl TRANSPOSE) model_bits"

section \<open>The fast path is the plain path\<close>

lemma magnitude_and_sign_length:
  "read_magnitude_and_sign bits sg r = (x, t) \<Longrightarrow> pk_length t = pk_length r"
  by (auto simp: read_magnitude_and_sign_def Let_def refill_def split: if_splits prod.splits)

lemma i32_of_small_bits:
  assumes "n \<le> 29" "m < 2 ^ n"
  shows "i32_of_bits m = Ok (int m)" "in_i32 (- int m)" "in_i32 (int m)"
proof -
  have "m < 2 ^ 29" using assms by (meson less_le_trans one_le_numeral power_increasing)
  then show "i32_of_bits m = Ok (int m)" "in_i32 (- int m)" "in_i32 (int m)"
    by (simp_all add: i32_of_bits_def in_i32_def)
qed

lemma decode_flex_mirrors:
  "n \<le> 29 \<Longrightarrow> mirrors agree (decode_flex v n) (decode_flex v n)"
  unfolding decode_flex_def flex_apply_sign_def
  by (intro mirrors_bind mirrors_if read_bits_mirrors read_bit_mirrors mirrors_simps) simp_all

lemma take_nth: "n < length u \<Longrightarrow> drop n u = u ! n # drop (Suc n) u"
  by (simp add: Cons_nth_drop_Suc)

text \<open>What the plain path returns when the packet holds a magnitude and one more bit.\<close>

definition flex_value :: "i32 \<Rightarrow> nat \<Rightarrow> bool \<Rightarrow> i32" where
  "flex_value v m negative = (if v < 0 \<or> v = 0 \<and> m \<noteq> 0 \<and> negative then - int m else int m)"

lemma decode_flex_enough:
  assumes "packet_ok r" "n \<le> 29" "n + 1 \<le> length (packet_unread r)"
  defines "m \<equiv> bits_val (take n (packet_unread r))"
  shows "\<exists>t. decode_flex v n r = (Ok (flex_value v m (packet_unread r ! n)), t) \<and> packet_ok t \<and>
    packet_unread t = drop (n + of_bool (v = 0 \<and> m \<noteq> 0)) (packet_unread r) \<and> pk_length t = pk_length r"
proof -
  let ?u = "packet_unread r"
  have n: "n \<le> 64" "n \<le> length ?u" using assms(2,3) by simp_all
  obtain t where t: "packet_read_bits n r = (Ok m, t)" "packet_unread t = drop n ?u" "packet_ok t"
    using pkt.read_ok [OF assms(1) n] by (auto simp: m_def)
  have len: "pk_length t = pk_length r" by (rule packet_read_bits_length [OF t(1)])
  have "m < 2 ^ n" using bits_val_less [of "take n ?u"] n(2) by (simp add: m_def)
  note m = i32_of_small_bits(1,2) [OF assms(2) this]
  have run: "decode_flex v n r = (if 0 < v then give (int m)
      else if v < 0 then pure_try (flex_signed (int m) True)
      else if int m = 0 then give 0 else flex_apply_sign (int m)) t"
    using assms(2) t(1) m(1) by (simp add: decode_flex_def run_try_step)
  show ?thesis
  proof (cases "v = 0 \<and> m \<noteq> 0")
    case True
    have "packet_unread t = ?u ! n # drop (Suc n) ?u" using t(2) take_nth [of n ?u] assms(3) by simp
    then obtain w where "packet_read_bit t = (Ok (?u ! n), w)" "packet_unread w = drop (Suc n) ?u"
      "packet_ok w" using packet_read_bit_ok [OF t(3)] by blast
    moreover from this(1) have "pk_length w = pk_length t" by (rule packet_read_bit_length)
    ultimately show ?thesis using True run len m(2)
      by (auto simp: flex_apply_sign_def run_try_step flex_signed_def i32_checked_neg_def flex_value_def)
  next
    case False
    then show ?thesis using run t len m(2)
      by (auto simp: flex_signed_def i32_checked_neg_def flex_value_def)
  qed
qed

lemma decode_flex_fast_enough:
  assumes "packet_ok r" "n \<le> 15" "n + 1 \<le> length (packet_unread r)"
  defines "m \<equiv> bits_val (take n (packet_unread r))"
  shows "\<exists>t. decode_flex_fast v n r = (Ok (flex_value v m (packet_unread r ! n)), t) \<and> packet_ok t \<and>
    packet_unread t = drop (n + of_bool (v = 0 \<and> m \<noteq> 0)) (packet_unread r) \<and> pk_length t = pk_length r"
proof -
  let ?u = "packet_unread r"
  have wide: "n \<le> 29" using assms(2) by simp
  obtain t where t: "read_magnitude_and_sign n (v = 0) r = (Some (m, v = 0 \<and> m \<noteq> 0 \<and> ?u ! n), t)"
    "packet_ok t" "packet_unread t = drop (n + of_bool (v = 0 \<and> m \<noteq> 0)) ?u"
    using magnitude_and_sign_some [OF assms(1) wide assms(3), of "v = 0"] by (auto simp: m_def)
  have "m < 2 ^ n" using bits_val_less [of "take n ?u"] assms(3) by (simp add: m_def)
  note m = i32_of_small_bits(1,2) [OF wide this]
  show ?thesis using t m magnitude_and_sign_length [OF t(1)] assms(2)
    by (auto simp: decode_flex_fast_def i32_or_panic_def flex_value_def)
qed

lemma decode_flex_fast_mirrors: "n \<le> 15 \<Longrightarrow> mirrors agree (decode_flex_fast v n) (decode_flex v n)"
  unfolding mirrors_def
proof (intro allI impI)
  fix r s assume n: "n \<le> 15" and rs: "agree r s"
  have wide: "n \<le> 29" using n by simp
  have ok: "packet_ok r" "packet_ok s" and u: "packet_unread r = packet_unread s"
    and l: "pk_length r = pk_length s" using rs by (simp_all add: agree_def)
  show "fst (decode_flex_fast v n r) = fst (decode_flex v n s) \<and>
      agree (snd (decode_flex_fast v n r)) (snd (decode_flex v n s))"
  proof (cases "n + 1 \<le> length (packet_unread r)")
    case True
    then show ?thesis using decode_flex_fast_enough [OF ok(1) n, of v]
        decode_flex_enough [OF ok(2) wide, of v] u l
      by (auto simp: agree_def)
  next
    case False
    then obtain t where t: "read_magnitude_and_sign n (v = 0) r = (None, t)" "packet_ok t"
      "packet_unread t = packet_unread r"
      using magnitude_and_sign_none [OF ok(1) wide, of "v = 0"] by auto
    then have "agree t s" using rs magnitude_and_sign_length [OF t(1)] by (simp add: agree_def)
    then show ?thesis using decode_flex_mirrors [OF wide, of v] t(1) n
      by (simp add: decode_flex_fast_def mirrors_def)
  qed
qed

section \<open>Refinement inverts the splitting of coefficients\<close>

text \<open>
  An encoder splits a coefficient at \<open>n\<close> bits into a high part, sent with a prefix code, and the
  low bits of its magnitude; the sign travels with the high part, or after the low bits when the
  high part is zero and the low bits are not.
\<close>

definition high_part :: "nat \<Rightarrow> i32 \<Rightarrow> i32" where
  "high_part n c = sgn c * (\<bar>c\<bar> div 2 ^ n)"

definition low_bits :: "nat \<Rightarrow> i32 \<Rightarrow> nat" where
  "low_bits n c = nat (\<bar>c\<bar> mod 2 ^ n)"

definition emit_low :: "nat \<Rightarrow> i32 \<Rightarrow> bool list" where
  "emit_low n c = nat_bits n (low_bits n c) @
     (if high_part n c = 0 \<and> low_bits n c \<noteq> 0 then [c < 0] else [])"

lemma low_bits_less: "low_bits n c < 2 ^ n"
proof -
  have "\<bar>c\<bar> mod 2 ^ n < (2::int) ^ n" "0 \<le> \<bar>c\<bar> mod 2 ^ n" by simp_all
  then show ?thesis unfolding low_bits_def by (simp add: nat_less_iff)
qed

lemma high_part_zero: "high_part n c = 0 \<longleftrightarrow> \<bar>c\<bar> < 2 ^ n"
proof -
  have "\<bar>c\<bar> div 2 ^ n = 0 \<longleftrightarrow> \<bar>c\<bar> < 2 ^ n"
    by (auto simp: zdiv_eq_0_iff)
  then show ?thesis by (auto simp: high_part_def sgn_if)
qed

lemma high_part_sign: "high_part n c < 0 \<longleftrightarrow> c < 0 \<and> high_part n c \<noteq> 0"
  "0 < high_part n c \<longleftrightarrow> 0 < c \<and> high_part n c \<noteq> 0"
proof -
  have "0 \<le> \<bar>c\<bar> div 2 ^ n" by (simp add: pos_imp_zdiv_nonneg_iff)
  then show "high_part n c < 0 \<longleftrightarrow> c < 0 \<and> high_part n c \<noteq> 0"
    "0 < high_part n c \<longleftrightarrow> 0 < c \<and> high_part n c \<noteq> 0"
    by (auto simp: high_part_def sgn_if)
qed

lemma split_magnitude:
  obtains m l where "\<bar>c\<bar> = m * 2 ^ n + l" "0 \<le> m" "0 \<le> l" "high_part n c = sgn c * m"
    "int (low_bits n c) = l"
proof
  show "\<bar>c\<bar> = \<bar>c\<bar> div 2 ^ n * 2 ^ n + \<bar>c\<bar> mod 2 ^ n" by (rule div_mult_mod_eq [symmetric])
  show "0 \<le> \<bar>c\<bar> div 2 ^ n" "0 \<le> \<bar>c\<bar> mod 2 ^ n" by (simp_all add: pos_imp_zdiv_nonneg_iff)
qed (simp_all add: high_part_def low_bits_def)

lemma split_value:
  "high_part n c * 2 ^ n + (if c < 0 then - int (low_bits n c) else int (low_bits n c)) = c"
proof -
  obtain m l where ml: "\<bar>c\<bar> = m * 2 ^ n + l" "high_part n c = sgn c * m" "int (low_bits n c) = l"
    "0 \<le> m" "0 \<le> l" by (rule split_magnitude)
  have "0 \<le> m * 2 ^ n" using ml(4) by simp
  then show ?thesis using ml(1,5) unfolding ml(2,3) by (cases c "0::int" rule: linorder_cases) auto
qed

lemma high_part_shift:
  assumes "in_i32 c" "n < 32" "c \<noteq> i32_min"
  shows "i32_checked_shl (high_part n c) n = Some (high_part n c * 2 ^ n)"
proof -
  obtain m l where ml: "\<bar>c\<bar> = m * 2 ^ n + l" "high_part n c = sgn c * m" "0 \<le> m" "0 \<le> l"
    by (rule split_magnitude)
  have "\<bar>high_part n c * 2 ^ n\<bar> \<le> m * 2 ^ n" using ml(2,3) by (auto simp: sgn_if abs_mult)
  then have "\<bar>high_part n c * 2 ^ n\<bar> \<le> i32_max" using ml(1,4) assms(1,3) by (auto simp: in_i32_def)
  then have "signed_take_bit 31 (high_part n c * 2 ^ n) = high_part n c * 2 ^ n"
    by (intro signed_take_bit_int_eq_self) auto
  then show ?thesis using assms(2) by (simp add: i32_checked_shl_def push_bit_eq_mult)
qed

text \<open>Reading the low bits back, wherever the packet ends after them.\<close>

lemma decode_flex_emitted:
  assumes "packet_ok r" "n \<le> 29" "packet_unread r = emit_low n c @ rest"
  shows "\<exists>t. decode_flex (high_part n c) n r =
      (Ok (if c < 0 then - int (low_bits n c) else int (low_bits n c)), t) \<and> packet_ok t \<and>
      packet_unread t = rest"
proof -
  let ?l = "low_bits n c" and ?h = "high_part n c"
  have unread: "packet_unread r =
      nat_bits n ?l @ (if ?h = 0 \<and> ?l \<noteq> 0 then [c < 0] else []) @ rest"
    using assms(3) by (simp add: emit_low_def)
  obtain t where t: "packet_read_bits n r = (Ok ?l, t)" "packet_ok t"
    "packet_unread t = (if ?h = 0 \<and> ?l \<noteq> 0 then [c < 0] else []) @ rest"
    using pkt.read_written [OF assms(1) _ low_bits_less unread] assms(2) by auto
  note l = i32_of_small_bits [OF assms(2) low_bits_less, of c]
  have run: "decode_flex ?h n r = (if 0 < ?h then give (int ?l)
      else if ?h < 0 then pure_try (flex_signed (int ?l) True)
      else if int ?l = 0 then give 0 else flex_apply_sign (int ?l)) t"
    using assms(2) t(1) l(1) by (simp add: decode_flex_def run_try_step)
  show ?thesis
  proof (cases "?h = 0 \<and> ?l \<noteq> 0")
    case True
    then obtain w where "packet_read_bit t = (Ok (c < 0), w)" "packet_unread w = rest" "packet_ok w"
      using packet_read_bit_ok [OF t(2), of "c < 0" rest] t(3) by auto
    then show ?thesis using True run l(2)
      by (simp add: flex_apply_sign_def run_try_step flex_signed_def i32_checked_neg_def)
  next
    case False
    then show ?thesis using run t(2,3) l(2) high_part_sign [of n c]
      by (auto simp: flex_signed_def i32_checked_neg_def)
  qed
qed

lemma refinement_step_emitted:
  assumes "packet_ok r" "n \<le> 15" "packet_unread r = emit_low n c @ rest"
  shows "\<exists>t. decode_flex_fast (high_part n c) n r =
      (Ok (if c < 0 then - int (low_bits n c) else int (low_bits n c)), t) \<and> packet_ok t \<and>
      packet_unread t = rest"
proof -
  have n: "n \<le> 29" using assms(2) by simp
  obtain t where t: "decode_flex (high_part n c) n r =
      (Ok (if c < 0 then - int (low_bits n c) else int (low_bits n c)), t)" "packet_ok t"
    "packet_unread t = rest" using decode_flex_emitted [OF assms(1) n assms(3)] by blast
  then show ?thesis
    using mirrorsD [OF decode_flex_fast_mirrors [OF assms(2)] agree_refl [OF assms(1)] _ t(1)]
    by (cases "decode_flex_fast (high_part n c) n r") (auto simp: agree_def)
qed

lemma refinement_emitted:
  assumes "packet_ok r" "n \<le> 15" "distinct ps" "\<forall>p\<in>set ps. 0 < p \<and> p < length cs"
    and "\<forall>c\<in>set cs. in_i32 c \<and> c \<noteq> i32_min" "length qs = length cs"
    and "\<forall>p\<in>set ps. qs ! p = high_part n (cs ! p)"
    and "packet_unread r = concat (map (\<lambda>p. emit_low n (cs ! p)) ps) @ rest"
  shows "\<exists>t out. decode_lp_refinement_at ps n (r, qs) = (Ok (), t, out) \<and> packet_ok t \<and>
    packet_unread t = rest \<and> length out = length cs \<and>
    (\<forall>p < length cs. out ! p = (if p \<in> set ps then cs ! p else qs ! p))"
  using assms
proof (induction ps arbitrary: r qs)
  case (Cons p ps)
  let ?c = "cs ! p"
  have p: "0 < p" "p < length cs" "qs ! p = high_part n ?c" "in_i32 ?c" "?c \<noteq> i32_min"
    using Cons.prems(4,5,7) by auto
  obtain t where t: "decode_flex_fast (high_part n ?c) n r =
      (Ok (if ?c < 0 then - int (low_bits n ?c) else int (low_bits n ?c)), t)" "packet_ok t"
    "packet_unread t = concat (map (\<lambda>p. emit_low n (cs ! p)) ps) @ rest"
    using refinement_step_emitted [OF Cons.prems(1,2), of ?c] Cons.prems(8) by auto
  have sum: "Option.bind (i32_checked_shl (high_part n ?c) n) (\<lambda>value. i32_checked_add value
      (if ?c < 0 then - int (low_bits n ?c) else int (low_bits n ?c))) = Some ?c"
    using high_part_shift [OF p(4) _ p(5), of n] Cons.prems(2) split_value [of n ?c] p(4)
    by (simp add: i32_checked_add_def)
  have step: "decode_lp_refinement_at (p # ps) n (r, qs) =
      decode_lp_refinement_at ps n (t, qs[p := ?c])"
    using p Cons.prems(2,6) t(1) sum by simp
  have high: "\<forall>q\<in>set ps. qs[p := ?c] ! q = high_part n (cs ! q)"
    using Cons.prems(3,7) nth_list_update_neq [of p _ qs ?c] by (metis distinct.simps(2) list.set_intros(2))
  have ps: "distinct ps" "\<forall>q\<in>set ps. 0 < q \<and> q < length cs" "length (qs[p := ?c]) = length cs"
    using Cons.prems(3,4,6) by simp_all
  obtain u out where u: "decode_lp_refinement_at ps n (t, qs[p := ?c]) = (Ok (), u, out)"
    "packet_ok u" "packet_unread u = rest" "length out = length cs"
    "\<forall>q < length cs. out ! q = (if q \<in> set ps then cs ! q else qs[p := ?c] ! q)"
    using Cons.IH [OF t(2) Cons.prems(2) ps(1,2) Cons.prems(5) ps(3) high t(3)] by blast
  then show ?case using step p(2) Cons.prems(6) by (auto simp: nth_list_update)
qed auto

section \<open>Bounds of flexbits\<close>

lemma packet_read_bit_upholds: "upholds packet_ok packet_read_bit (\<lambda>_. True)"
  unfolding packet_read_bit_def by (intro upholds_bind [OF pkt.read_upholds] upholds_give) simp_all

lemma flex_signed_small:
  "in_i32 (- int m) \<Longrightarrow> int m < b \<Longrightarrow> upholds packet_ok (pure_try (flex_signed (int m) g)) (\<lambda>x. \<bar>x\<bar> < b)"
  by (auto simp: flex_signed_def i32_checked_neg_def upholds_def)

lemma decode_flex_upholds:
  assumes "n \<le> 29"
  shows "upholds packet_ok (decode_flex v n) (\<lambda>x. \<bar>x\<bar> < 2 ^ n)"
proof -
  have "upholds packet_ok (run_try (pure_try (i32_of_bits raw)) (\<lambda>value.
      if 0 < v then give value else if v < 0 then pure_try (flex_signed value True)
      else if value = 0 then give 0 else flex_apply_sign value)) (\<lambda>x. \<bar>x\<bar> < 2 ^ n)"
    if raw: "raw < 2 ^ n" for raw
  proof -
    note r = i32_of_small_bits [OF assms raw]
    have b: "int raw < 2 ^ n" using raw by (simp add: of_nat_less_numeral_power_cancel_iff)
    have "upholds packet_ok (flex_apply_sign (int raw)) (\<lambda>x. \<bar>x\<bar> < 2 ^ n)"
      unfolding flex_apply_sign_def
      by (intro upholds_if upholds_give upholds_bind [OF packet_read_bit_upholds]
          flex_signed_small [OF r(2) b]) simp
    then show ?thesis using b flex_signed_small [OF r(2) b] by (auto simp: r(1) upholds_give)
  qed
  then show ?thesis unfolding decode_flex_def using assms
    by (auto intro!: upholds_bind [OF pkt.read_upholds])
qed

lemma decode_flex_fast_upholds:
  assumes "n \<le> 15"
  shows "upholds packet_ok (decode_flex_fast v n) (\<lambda>x. \<bar>x\<bar> < 2 ^ n)"
proof (rule upholdsI)
  fix r :: packet_reader assume r: "packet_ok r"
  obtain x t y u where run: "decode_flex_fast v n r = (x, t)" "decode_flex v n r = (y, u)"
    by (cases "decode_flex_fast v n r"; cases "decode_flex v n r")
  have xy: "x = y" "agree t u"
    using mirrorsD [OF decode_flex_fast_mirrors [OF assms] agree_refl [OF r] run] by simp_all
  have "n \<le> 29" using assms by simp
  note plain = upholdsD [OF decode_flex_upholds [OF this, of v] r]
  show "packet_ok (snd (decode_flex_fast v n r))" "fst (decode_flex_fast v n r) \<noteq> Panic"
    using xy run plain(2) by (simp_all add: agree_def)
  show "\<bar>w\<bar> < 2 ^ n" if "fst (decode_flex_fast v n r) = Ok w" for w
    using plain(3) that xy run by simp
qed

text \<open>Values in steps of \<open>2 ^ trim\<close> below \<open>2 ^ bits\<close>.\<close>

definition trimmed :: "nat \<Rightarrow> nat \<Rightarrow> i32 \<Rightarrow> bool" where
  "trimmed bits trim x \<longleftrightarrow> 2 ^ trim dvd x \<and> \<bar>x\<bar> < 2 ^ bits"

lemma shift_trimmed:
  assumes "\<bar>x\<bar> < 2 ^ k" "k + trim \<le> 15"
  shows "\<exists>y. i32_checked_shl x trim = Some y \<and> trimmed (k + trim) trim y"
proof -
  have "\<bar>x * 2 ^ trim\<bar> < 2 ^ k * 2 ^ trim" using assms(1) by (simp add: abs_mult)
  then have small: "\<bar>x * 2 ^ trim\<bar> < 2 ^ (k + trim)" by (simp only: power_add)
  also have "(2::int) ^ (k + trim) \<le> 2 ^ 15" using assms(2) by (intro power_increasing) simp_all
  finally have "signed_take_bit 31 (x * 2 ^ trim) = x * 2 ^ trim"
    by (intro signed_take_bit_int_eq_self) auto
  then show ?thesis using assms(2) small
    by (simp add: i32_checked_shl_def push_bit_eq_mult trimmed_def)
qed

lemma flex_loop_upholds:
  assumes "k + trim \<le> 15"
  shows "length out = 16 \<Longrightarrow> (\<forall>x\<in>set out. trimmed (k + trim) trim x) \<Longrightarrow> out ! 0 = 0 \<Longrightarrow> 0 \<notin> set ps \<Longrightarrow>
    upholds packet_ok (flex_loop cs k trim ps out)
      (\<lambda>out. length out = 16 \<and> (\<forall>x\<in>set out. trimmed (k + trim) trim x) \<and> out ! 0 = 0)"
proof (induction ps arbitrary: out)
  case (Cons p ps)
  show ?case unfolding flex_loop.simps
  proof (rule upholds_bind [OF decode_flex_fast_upholds])
    fix flex :: int assume "\<bar>flex\<bar> < 2 ^ k"
    then obtain y where y: "i32_checked_shl flex trim = Some y" "trimmed (k + trim) trim y"
      using shift_trimmed assms by blast
    have "\<forall>x\<in>set (out[p := y]). trimmed (k + trim) trim x"
      using Cons.prems(2) y(2) set_update_subset_insert [of out p y] by auto
    then show "upholds packet_ok (run_try (pure_try (ok_or CoefficientOverflow (i32_checked_shl flex trim)))
        (\<lambda>v. flex_loop cs k trim ps (out[p := v])))
      (\<lambda>out. length out = 16 \<and> (\<forall>x\<in>set out. trimmed (k + trim) trim x) \<and> out ! 0 = 0)"
      using Cons.IH [of "out[p := y]"] Cons.prems by (simp add: y(1))
  qed (use assms in simp)
qed (auto intro: upholds_give)

lemma decode_flex_block_upholds:
  "upholds packet_ok (decode_flex_block cs model_bits trim) (\<lambda>out. length out = 16 \<and>
    (\<forall>v\<in>set out. trimmed model_bits trim v) \<and> out ! 0 = 0)"
proof -
  have zero: "length (replicate 16 (0::i32)) = 16" "\<forall>x\<in>set (replicate 16 0). trimmed b trim x"
    "replicate 16 (0::i32) ! 0 = 0" "0 \<notin> set (tl TRANSPOSE)" for b
    by (simp_all add: trimmed_def TRANSPOSE_def)
  show ?thesis
  proof (cases "model_bits \<le> trim")
    case True
    then show ?thesis using zero by (simp add: decode_flex_block_def Let_def upholds_give)
  next
    case False
    then have "model_bits - trim + trim = model_bits" by simp
    then show ?thesis using False flex_loop_upholds [of "model_bits - trim" trim, OF _ zero]
      by (simp add: decode_flex_block_def Let_def)
  qed
qed

text \<open>Refining the low-pass values: only the reader and the values change, and they stay i32.\<close>

lemma shl_in_i32: "i32_checked_shl x n = Some y \<Longrightarrow> in_i32 y"
  using wrap_i32_range by (auto simp: i32_checked_shl_def wrap_i32_def split: if_splits)

lemma decode_lp_refinement_at_leads:
  assumes "bits \<le> 29"
  shows "upholds (\<lambda>(r, cs). packet_ok r \<and> length cs = n \<and> (\<forall>v\<in>set cs. in_i32 v))
    (decode_lp_refinement_at ps bits) (\<lambda>_. True)"
proof (induction ps)
  case (Cons p ps)
  let ?I = "\<lambda>(r, cs). packet_ok r \<and> length cs = n \<and> (\<forall>v\<in>set cs. in_i32 v)"
  have fast: "upholds packet_ok (if bits \<le> 15 then decode_flex_fast c bits else decode_flex c bits) (\<lambda>_. True)" for c
    by (auto intro: upholds_mono [OF decode_flex_fast_upholds]
      upholds_mono [OF decode_flex_upholds [OF assms]])
  show ?case
  proof (rule upholds_if_all)
    fix s assume "?I s"
    then obtain r cs where s: "s = (r, cs)" "packet_ok r" "length cs = n" "\<forall>v\<in>set cs. in_i32 v" by auto
    show "?I (snd (decode_lp_refinement_at (p # ps) bits s)) \<and>
        fst (decode_lp_refinement_at (p # ps) bits s) \<noteq> Panic"
    proof (cases "p = 0 \<or> length cs \<le> p")
      case False
      obtain x t where run: "(if bits \<le> 15 then decode_flex_fast (cs ! p) bits else decode_flex (cs ! p) bits) r = (x, t)"
        by (meson surj_pair)
      have x: "packet_ok t" "x \<noteq> Panic" using upholdsD(1,2) [OF fast [of "cs ! p"] s(2)] run by simp_all
      have upd: "?I (t, cs[p := v])" if "in_i32 v" for v
        using x(1) s(3,4) that set_update_subset_insert [of cs p v] by auto
      have "in_i32 v" if "Option.bind (i32_checked_shl (cs ! p) bits) (\<lambda>value. i32_checked_add value y) = Some v" for v y
        using that by (auto simp: outcome_simps split: Option.bind_splits)
      then show ?thesis using False run x s upholdsD(1,2) [OF Cons.IH upd]
        by (cases x) (auto simp: Let_def simp del: if_split split: option.split)
    qed (use s in auto)
  qed
qed (auto simp: upholds_def)

section \<open>A shift that overflows\<close>

lemma flex_value_bound: "m < 2 ^ n \<Longrightarrow> \<bar>flex_value v m negative\<bar> < 2 ^ n"
proof -
  assume "m < 2 ^ n"
  then have "int m < 2 ^ n" by (simp add: of_nat_less_numeral_power_cancel_iff)
  then show ?thesis by (simp add: flex_value_def)
qed

text \<open>The wrapped product of a shift is a multiple of the power, so that low bits of the same sign fit but for one case.\<close>

lemma wrapped_product_dvd: "n \<le> 15 \<Longrightarrow> (2 ^ n :: int) dvd wrap_i32 (c * 2 ^ n)"
proof -
  assume n: "n \<le> 15"
  have "wrap_i32 (c * 2 ^ n) = c * 2 ^ n - 2 ^ 32 * ((c * 2 ^ n + 2 ^ 31) div 2 ^ 32)"
    using minus_div_mult_eq_mod [of "c * 2 ^ n + 2 ^ 31" "2 ^ 32"]
    by (simp add: wrap_i32_def signed_take_bit_eq_take_bit_shift take_bit_eq_mod)
  moreover have "(2 ^ n :: int) dvd 2 ^ 32" using n by (intro le_imp_power_dvd) simp
  ultimately show ?thesis by (simp add: dvd_diff)
qed

lemma wrapped_sum_range:
  fixes c :: i32
  assumes "n \<le> 15" "\<bar>y\<bar> < 2 ^ n"
  defines "w \<equiv> wrap_i32 (c * 2 ^ n)"
  shows "in_i32 (w + y) \<longleftrightarrow> \<not> (w = i32_min \<and> y < 0)"
proof -
  have w: "i32_min \<le> w" "w \<le> i32_max" using wrap_i32_range [of "c * 2 ^ n"] by (simp_all add: w_def in_i32_def)
  obtain k where k: "w = 2 ^ n * k" using wrapped_product_dvd [OF assms(1), of c] by (auto simp: w_def elim: dvdE)
  obtain a where a: "(2 ^ 31 :: int) = 2 ^ n * a"
    using le_imp_power_dvd [of n 31 "2 :: int"] assms(1) by (auto elim: dvdE)
  have p: "0 < (2 ^ n :: int)" by simp
  have "- (2 ^ n * a) \<le> 2 ^ n * k" "2 ^ n * k < 2 ^ n * a" using w k a by simp_all
  then have "- a \<le> k" "k < a" using p by (simp_all only: mult_minus_right [symmetric] mult_le_cancel_left_pos mult_less_cancel_left_pos)
  then have "k = - a \<or> 2 ^ n * (1 - a) \<le> w" "w \<le> 2 ^ n * (a - 1)"
    unfolding k using p by (auto simp only: mult_le_cancel_left_pos)
  moreover have "k = - a \<Longrightarrow> w = i32_min" using k a by simp
  ultimately show ?thesis using assms(2) w a by (auto simp: in_i32_def algebra_simps)
qed

text \<open>
  C33: bits that a shift loses go unreported. \<open>decode_lp_refinement_at\<close> guards the shift of the high part
  by \<open>checked_shl\<close>, which looks at the shift amount only. A refinement that finds its bits therefore stores
  the high part times \<open>2 ^ n\<close> modulo \<open>2 ^ 32\<close> plus the signed low bits, however far the true value is out of
  range; the error \<open>CoefficientOverflow\<close> that the code names for this is returned only when the wrapped
  product is the least \<open>i32\<close> and the low bits are negative.
\<close>

theorem refinement_overflow_unreported:
  assumes "packet_ok r" "n \<le> 15" "0 < p" "p < length cs" "n + 1 \<le> length (packet_unread r)"
  shows "\<exists>t y. \<bar>y\<bar> < 2 ^ n \<and>
    y = flex_value (cs ! p) (bits_val (take n (packet_unread r))) (packet_unread r ! n) \<and>
    decode_lp_refinement_at [p] n (r, cs) =
      (if wrap_i32 (cs ! p * 2 ^ n) = i32_min \<and> y < 0 then (Err CoefficientOverflow, t, cs)
       else (Ok (), t, cs[p := wrap_i32 (cs ! p * 2 ^ n) + y]))"
proof -
  define y where "y = flex_value (cs ! p) (bits_val (take n (packet_unread r))) (packet_unread r ! n)"
  have y: "\<bar>y\<bar> < 2 ^ n"
    using bits_val_less [of "take n (packet_unread r)"] assms(5) unfolding y_def by (intro flex_value_bound) simp
  obtain t where "decode_flex_fast (cs ! p) n r = (Ok y, t)"
    using decode_flex_fast_enough [OF assms(1,2,5), of "cs ! p"] by (auto simp: y_def)
  moreover have "i32_checked_shl (cs ! p) n = Some (wrap_i32 (cs ! p * 2 ^ n))"
    using assms(2) by (simp add: i32_checked_shl_def wrap_i32_def push_bit_eq_mult)
  ultimately have "decode_lp_refinement_at [p] n (r, cs) =
      (if wrap_i32 (cs ! p * 2 ^ n) = i32_min \<and> y < 0 then (Err CoefficientOverflow, t, cs)
       else (Ok (), t, cs[p := wrap_i32 (cs ! p * 2 ^ n) + y]))"
    using wrapped_sum_range [OF assms(2) y, of "cs ! p"] assms(2-4) by (simp add: i32_checked_add_def)
  then show ?thesis using y y_def by blast
qed

text \<open>At 15 bits the high part 65537 becomes -2147450880, and -196608 with negative low bits is reported.\<close>

lemma refinement_overflow_unreported_witness:
  "(\<exists>t. decode_lp_refinement_at [1] 15 (packet_new [0, 0], [0, 65537]) = (Ok (), t, [0, - 2147450880])) \<and>
   (\<exists>t. decode_lp_refinement_at [1] 15 (packet_new [0, 2], [0, - 196608]) = (Err CoefficientOverflow, t, [0, - 196608]))"
proof -
  have ok: "packet_ok (packet_new bytes)" "packet_unread (packet_new bytes) = packet_bits bytes" if "bytes \<in> {[0, 0], [0, 2]}" for bytes
    using packet_new_ok [of bytes] that by auto
  have bits: "bits_val (byte_bits 0 @ take 7 (byte_bits 0)) = 0" "bits_val (byte_bits 0 @ take 7 (byte_bits 2)) = 1"
    by (simp_all add: byte_bits_def upt_rec)
  have wraps: "wrap_i32 2147516416 = - 2147450880" "wrap_i32 (- 6442450944) = i32_min"
    by (simp_all add: wrap_i32_def signed_take_bit_rec numeral_eq_Suc)
  show ?thesis
    using refinement_overflow_unreported [of "packet_new [0, 0]" 15 1 "[0, 65537]"]
      refinement_overflow_unreported [of "packet_new [0, 2]" 15 1 "[0, - 196608]"]
    by (simp add: ok bits wraps flex_value_def del: decode_lp_refinement_at.simps)
qed

section \<open>Properties\<close>

text \<open>
  C20: the cached flexbits path equals the plain one. For the widths up to 15 bits that the code
  asserts, any prefix-coded part
  and any reachable reader, \<open>decode_flex_fast\<close> and \<open>decode_flex\<close> have the same outcome (value or
  error), never panic, and leave readers with the same unread bits; the magnitude of a value is
  below \<open>2 ^ flex_bits\<close>.
\<close>

theorem flex_fast_equals_plain:
  assumes "packet_ok r" "n \<le> 15"
  shows "case (decode_flex_fast v n r, decode_flex v n r) of ((x, t), (y, u)) \<Rightarrow>
    x = y \<and> x \<noteq> Panic \<and> packet_ok t \<and> packet_unread t = packet_unread u \<and>
    (\<forall>w. x = Ok w \<longrightarrow> \<bar>w\<bar> < 2 ^ n)"
proof -
  obtain x t y u where run: "decode_flex_fast v n r = (x, t)" "decode_flex v n r = (y, u)"
    by (cases "decode_flex_fast v n r"; cases "decode_flex v n r")
  have xy: "x = y" "agree t u"
    using mirrorsD [OF decode_flex_fast_mirrors [OF assms(2)] agree_refl [OF assms(1)] run] by simp_all
  show ?thesis
    using xy run upholdsD [OF decode_flex_fast_upholds [OF assms(2), of v] assms(1)]
    by (auto simp: agree_def)
qed

lemma flex_fast_equals_plain_witness:
  "fst (decode_flex_fast (-3) 2 (packet_new [0b11000000])) =
   fst (decode_flex (-3) 2 (packet_new [0b11000000]))"
  using flex_fast_equals_plain [of "packet_new [0b11000000]" 2 "-3"] packet_new_ok [of "[0b11000000]"]
  by (auto split: prod.splits)

text \<open>
  C32: lP refinement inverts the splitting of coefficients. When the fifteen AC positions of a block
  hold the high parts of coefficients split at \<open>n \<le> 15\<close> bits and the packet holds, in transpose order,
  the low bits of each followed by its sign where the high part does not carry it, refinement
  succeeds, restores every coefficient (any \<open>i32\<close> but the least) and consumes exactly these bits.
\<close>

theorem refinement_inverts_split:
  assumes "packet_ok r" "n \<le> 15" "length cs = 16" "\<forall>c\<in>set cs. in_i32 c \<and> c \<noteq> i32_min"
    and "packet_unread r = concat (map (\<lambda>p. emit_low n (cs ! p)) (tl TRANSPOSE)) @ rest"
  shows "\<exists>t. decode_lp_refinement n (r, cs ! 0 # map (high_part n) (tl cs)) = (Ok (), t, cs) \<and>
    packet_ok t \<and> packet_unread t = rest"
proof -
  let ?qs = "cs ! 0 # map (high_part n) (tl cs)"
  have ps: "distinct (tl TRANSPOSE)" "\<forall>p\<in>set (tl TRANSPOSE). 0 < p \<and> p < length cs"
    using assms(3) by (simp_all add: TRANSPOSE_def)
  have "set (tl TRANSPOSE) = set [1..<16]" by code_simp
  then have ac: "p \<in> set (tl TRANSPOSE) \<longleftrightarrow> 1 \<le> p \<and> p < 16" for p by (simp only: set_upt) simp
  have qs: "?qs ! p = high_part n (cs ! p)" if "p \<in> set (tl TRANSPOSE)" for p
    using that ps(2) assms(3) by (cases p) (auto simp: nth_tl)
  obtain t out where t: "decode_lp_refinement_at (tl TRANSPOSE) n (r, ?qs) = (Ok (), t, out)"
    "packet_ok t" "packet_unread t = rest" "length out = length cs"
    "\<forall>p < length cs. out ! p = (if p \<in> set (tl TRANSPOSE) then cs ! p else ?qs ! p)"
    using refinement_emitted [OF assms(1,2) ps(1,2) assms(4) _ _ assms(5), of ?qs] qs assms(3) by auto
  have "out = cs" using t(4,5) ac assms(3) by (intro nth_equalityI) (auto simp: nth_Cons split: nat.split)
  then show ?thesis using t by (simp add: decode_lp_refinement_def)
qed

lemma refinement_inverts_split_witness:
  "\<exists>t. decode_lp_refinement 1 (packet_new [0b10001000, 0], 7 # -2 # replicate 14 0) =
    (Ok (), t, [7, -5, 0, 0, 1, 0, 0, 0, 0, 0, 0, 0, 0, 0, 0, 0])"
proof -
  let ?cs = "[7, -5, 0, 0, 1, 0, 0, 0, 0, 0, 0, 0, 0, 0, 0, 0] :: i32 list"
  have ok: "packet_ok (packet_new [0b10001000, 0])" and
    u: "packet_unread (packet_new [0b10001000, 0]) = packet_bits [0b10001000, 0]"
    using packet_new_ok [of "[0b10001000, 0]"] by simp_all
  have bits: "packet_bits [0b10001000, 0] =
      concat (map (\<lambda>p. emit_low 1 (?cs ! p)) (tl TRANSPOSE)) @ []"
    by (simp add: emit_low_def high_part_def low_bits_def TRANSPOSE_def byte_bits_def upt_rec)
  have parts: "?cs ! 0 # map (high_part 1) (tl ?cs) = 7 # -2 # replicate 14 0"
    by (simp add: high_part_def numeral_eq_Suc)
  show ?thesis
    using refinement_inverts_split [OF ok, of 1 ?cs "[]", unfolded u, OF _ _ _ bits, unfolded parts]
    by (auto simp: in_i32_def)
qed

text \<open>
  Flexbits stay below the model width. With \<open>model_bits\<close> and \<open>trim_flexbits\<close> up to 15, decoding the
  flexbits of an HP block never panics; the sixteen values it returns are multiples of
  \<open>2 ^ trim_flexbits\<close> with magnitudes below \<open>2 ^ model_bits\<close>, and the DC position is zero.
\<close>

theorem flex_block_bounded:
  assumes "packet_ok r" "model_bits \<le> 15" "trim \<le> 15"
  shows "case decode_flex_block cs model_bits trim r of (x, t) \<Rightarrow> packet_ok t \<and> x \<noteq> Panic \<and>
    (\<forall>out. x = Ok out \<longrightarrow> length out = 16 \<and> out ! 0 = 0 \<and>
      (\<forall>v\<in>set out. 2 ^ trim dvd v \<and> \<bar>v\<bar> < 2 ^ model_bits))"
proof -
  note block = upholdsD [OF decode_flex_block_upholds [of cs model_bits trim] assms(1)]
  show ?thesis using block by (cases "decode_flex_block cs model_bits trim r") (auto simp: trimmed_def)
qed

lemma flex_block_bounded_witness:
  "fst (decode_flex_block (replicate 16 0) 3 1 (packet_new [0xFF])) \<noteq> Panic"
  using flex_block_bounded [of "packet_new [0xFF]" 3 1 "replicate 16 0"] packet_new_ok [of "[0xFF]"]
  by (auto split: prod.splits)

end
