(* ===== verification/Coefficients.thy ===== *)
theory Coefficients
  imports Adaptive Scan Model Refinement
begin

text \<open>
  Coefficient parsing (\<open>crates/jxr-native/src/entropy/coefficients.rs\<close>): the DC coefficient and the
  run/level representation of a 4-by-4 block, over the packet reader, the adaptive code selectors
  and a sink for the coefficients. Code that borrows several states is an action on their tuple;
  \<open>on_part\<close> restricts it to the parts that it borrows.
\<close>

section \<open>Constants and the run table\<close>

definition ABS_REMAP :: "i32 list" where
  "ABS_REMAP = [2, 3, 4, 6, 10, 14]"

definition ABS_FIXED_LENGTH :: "nat list" where
  "ABS_FIXED_LENGTH = [0, 0, 1, 2, 2, 2]"

definition RUN_REMAP :: "nat list" where
  "RUN_REMAP = [1, 2, 3, 5, 7, 1, 2, 3, 5, 7, 1, 2, 3, 4, 5]"

definition RUN_BIN :: "int list" where
  "RUN_BIN = [-1, -1, -1, -1, 2, 2, 2, 1, 1, 1, 1, 0, 0, 0, 0]"

definition RUN_FIXED_LENGTH :: "nat list" where
  "RUN_FIXED_LENGTH = [0, 0, 1, 1, 3, 0, 0, 1, 1, 2, 0, 0, 0, 0, 1]"

text \<open>
  The body of the loops of \<open>run_lookup\<close>: run and length for one maximum and one prefix. An entry of
  a prefix table is a length (high byte) and a symbol; a failed assertion is a panic.
\<close>

definition run_and_length :: "nat \<Rightarrow> nat \<Rightarrow> (entropy_error, nat \<times> nat) result" where
  "run_and_length max_run prefix =
     (if max_run = 1 then Ok (1, 0)
      else if max_run < 5 then
        let_try (index_or_panic RUN_VALUE_CODES (max_run - 2)) (\<lambda>codes.
        let e = entry (built codes) prefix; len = e div 256; run = e mod 256
        in if len = 0 then Panic else Ok (run, len))
      else
        let e = entry RUN_INDEX prefix; code_length = e div 256; run_index = e mod 256
        in if code_length = 0 then Panic
           else
             let table_index = run_index + 5 * nat (RUN_BIN ! max_run) in
             let_try (index_or_panic RUN_FIXED_LENGTH table_index) (\<lambda>fixed.
             let_try (index_or_panic RUN_REMAP table_index) (\<lambda>remap.
             let refinement = drop_bit (8 - fixed) (push_bit code_length prefix AND 0xff)
             in Ok (remap + refinement, code_length + fixed))))"

definition run_entry :: "nat \<Rightarrow> nat \<Rightarrow> (entropy_error, nat) result" where
  "run_entry max_run prefix =
     let_try (run_and_length max_run prefix) (\<lambda>(run, len).
     if \<not> (run \<le> 15 \<and> len \<le> 7) then Panic else Ok (push_bit 3 run OR len))"

definition run_row :: "nat \<Rightarrow> nat list \<Rightarrow> (entropy_error, nat list) result" where
  "run_row max_run row =
     each_try (\<lambda>prefix row. let_try (run_entry max_run prefix) (\<lambda>e. Ok (row[prefix := e])))
       [0..<256] row"

definition run_lookup :: "(entropy_error, nat list list) result" where
  "run_lookup =
     each_try (\<lambda>max_run table. let_try (run_row max_run (table ! max_run)) (\<lambda>row.
       Ok (table[max_run := row]))) [1..<15] (replicate 15 (replicate 256 0))"

text \<open>Built at compile time, where a panic fails the build (\<open>run_lookup_built\<close> below).\<close>

definition RUN_LOOKUP :: "nat list list" where
  "RUN_LOOKUP = (case run_lookup of Ok table \<Rightarrow> table | _ \<Rightarrow> [])"

section \<open>Signs, levels and runs\<close>

datatype component_class = Luma | Chroma

definition is_chroma :: "component_class \<Rightarrow> bool" where
  "is_chroma class = (class = Chroma)"

text \<open>The branch-free negation \<open>(magnitude ^ mask).wrapping_sub(mask)\<close> with mask 0 or -1.\<close>

definition signed_level :: "i32 \<Rightarrow> bool \<Rightarrow> (entropy_error, i32) result" where
  "signed_level magnitude negative =
     (if negative \<and> magnitude = i32_min then Err CoefficientOverflow
      else let sign_mask = - of_bool negative
        in Ok (wrap_i32 ((magnitude XOR sign_mask) - sign_mask)))"

definition apply_sign :: "i32 \<Rightarrow> i32 decoder" where
  "apply_sign value =
     (if value = 0 then give 0
      else run_try packet_read_bit (\<lambda>negative. pure_try (signed_level value negative)))"

definition u8_of_bits :: "nat \<Rightarrow> (entropy_error, nat) result" where
  "u8_of_bits n = (if n \<le> 255 then Ok n else Err CoefficientOverflow)"

definition on_reader :: "'a decoder \<Rightarrow> (packet_reader \<times> 'v, entropy_error, 'a) action" where
  "on_reader m = on_part fst (\<lambda>r s. (r, snd s)) m"

text \<open>\<open>vlc::decode\<close> with the selected table, then the observation of the symbol.\<close>

definition adaptive_symbol ::
  "string \<Rightarrow> prefix_table list \<Rightarrow> (nat \<Rightarrow> adaptive_vlc \<Rightarrow> (entropy_error, adaptive_vlc) result) \<Rightarrow>
    (packet_reader \<times> adaptive_vlc, entropy_error, nat) action" where
  "adaptive_symbol syntax tables observe = (\<lambda>(r, state).
     case index_or_panic tables (table_index state) of
       Ok table \<Rightarrow>
         (case decode syntax table r of
            (Ok symbol, t) \<Rightarrow>
              (case observe symbol state of
                 Ok state \<Rightarrow> (Ok symbol, t, state)
               | Err e \<Rightarrow> (Err e, t, state) | Panic \<Rightarrow> (Panic, t, state))
          | (Err e, t) \<Rightarrow> (Err e, t, state) | (Panic, t) \<Rightarrow> (Panic, t, state))
     | Err e \<Rightarrow> (Err e, r, state) | Panic \<Rightarrow> (Panic, r, state))"

definition abs_escape_width :: "nat decoder" where
  "abs_escape_width =
     run_try (packet_read_bits 4) (\<lambda>raw. run_try (pure_try (u8_of_bits raw)) (\<lambda>low.
     let fixed = low + 4 in
     if fixed = 19 then
       run_try (packet_read_bits 2) (\<lambda>raw. run_try (pure_try (u8_of_bits raw)) (\<lambda>middle.
       let fixed = fixed + middle in
       if fixed = 22 then
         run_try (packet_read_bits 3) (\<lambda>raw. run_try (pure_try (u8_of_bits raw)) (\<lambda>high.
         give (fixed + high)))
       else give fixed))
     else give fixed))"

definition abs_level_of_symbol :: "nat \<Rightarrow> i32 decoder" where
  "abs_level_of_symbol index =
     (if index < 6 then
        run_try (packet_read_bits (ABS_FIXED_LENGTH ! index)) (\<lambda>raw.
        run_try (pure_try (i32_of_bits raw)) (\<lambda>refinement.
        pure_try (ok_or CoefficientOverflow (i32_checked_add (ABS_REMAP ! index) refinement))))
      else
        run_try abs_escape_width (\<lambda>fixed.
        run_try (packet_read_bits fixed) (\<lambda>raw.
        run_try (pure_try (i32_of_bits raw)) (\<lambda>refinement.
        pure_try (ok_or CoefficientOverflow
          (Option.bind (i32_checked_shl 1 fixed) (\<lambda>base.
           Option.bind (i32_checked_add base 2) (\<lambda>base. i32_checked_add base refinement))))))))"

definition decode_abs_level :: "(packet_reader \<times> adaptive_vlc, entropy_error, i32) action" where
  "decode_abs_level =
     run_try (adaptive_symbol ''ABS_LEVEL_INDEX'' ABS_LEVEL observe_abs_level) (\<lambda>index.
     on_reader (abs_level_of_symbol index))"

definition decode_first_index :: "(packet_reader \<times> adaptive_vlc, entropy_error, nat) action" where
  "decode_first_index = adaptive_symbol ''FIRST_INDEX'' FIRST_INDEX observe_first_index"

definition decode_index :: "nat \<Rightarrow> (packet_reader \<times> adaptive_vlc, entropy_error, nat) action" where
  "decode_index location =
     (if location < 15 then adaptive_symbol ''INDEX_A'' INDEX_A observe_index
      else if location = 15 then on_reader (decode ''INDEX_B'' INDEX_B)
      else run_try (on_reader packet_read_bit) (\<lambda>b. give (of_bool b)))"

definition run_of_index :: "nat \<Rightarrow> nat \<Rightarrow> nat decoder" where
  "run_of_index max_run run_index =
     (let table_index = int run_index + 5 * RUN_BIN ! max_run
      in if table_index < 0 then fail (InvalidParameter ''run table index'' table_index)
         else
           run_try (pure_try (index_or_panic RUN_FIXED_LENGTH (nat table_index))) (\<lambda>fixed.
           run_try (packet_read_bits fixed) (\<lambda>raw.
           run_try (pure_try (u8_of_bits raw)) (\<lambda>refinement.
           run_try (pure_try (index_or_panic RUN_REMAP (nat table_index))) (\<lambda>remap.
           give (remap + refinement))))))"

definition decode_run :: "nat \<Rightarrow> nat decoder" where
  "decode_run max_run =
     (if max_run = 0 \<or> 14 < max_run
      then fail (InvalidParameter ''maximum coefficient run'' (int max_run))
      else if max_run = 1 then give 1
      else if max_run = 2 then decode ''RUN_VALUE'' RUN_VALUE_2
      else if max_run = 3 then decode ''RUN_VALUE'' RUN_VALUE_3
      else if max_run = 4 then decode ''RUN_VALUE'' RUN_VALUE_4
      else run_try (decode ''RUN_INDEX'' RUN_INDEX) (run_of_index max_run))"

definition decode_run_cached :: "nat \<Rightarrow> nat decoder" where
  "decode_run_cached max_run r =
     (if max_run < length RUN_LOOKUP \<and> max_run \<noteq> 0 then
        let (prefix, t) = peek_byte r;
            e = RUN_LOOKUP ! max_run ! unat prefix;
            (skipped, u) = skip_cached (e AND 7) t
        in if skipped then (Ok (drop_bit 3 e), u) else decode_run max_run u
      else decode_run max_run r)"

definition advance_location :: "nat \<Rightarrow> nat \<Rightarrow> (entropy_error, nat) result" where
  "advance_location location run =
     (let next = location + run + 1
      in if 16 < next then Err (InvalidParameter ''coefficient location'' (int next)) else Ok next)"

section \<open>One DC coefficient\<close>

definition on_dc_abs_level :: "bool \<Rightarrow> (packet_reader \<times> adaptive_vlc, entropy_error, 'a) action \<Rightarrow>
    (packet_reader \<times> dc_vlc_state, entropy_error, 'a) action" where
  "on_dc_abs_level chroma m = on_part (\<lambda>(r, s). (r, side chroma (dc_abs_level s)))
     (\<lambda>(r, v) (_, s). (r, s\<lparr>dc_abs_level := put_side chroma v (dc_abs_level s)\<rparr>)) m"

definition decode_dc_coefficient :: "nat \<Rightarrow> bool \<Rightarrow> component_class \<Rightarrow>
    (packet_reader \<times> dc_vlc_state, entropy_error, i32) action" where
  "decode_dc_coefficient bits has_abs_level class =
     (if 15 < bits then fail (InvalidParameter ''DC model bits'' (int bits))
      else
        run_try
          (if has_abs_level then
             run_try (on_dc_abs_level (is_chroma class) decode_abs_level) (\<lambda>level.
             pure_try (ok_or CoefficientOverflow (i32_checked_sub level 1)))
           else give 0) (\<lambda>coefficient.
        run_try
          (if bits \<noteq> 0 then
             run_try (on_reader (packet_read_bits bits)) (\<lambda>raw.
             run_try (pure_try (i32_of_bits raw)) (\<lambda>refinement.
             pure_try (ok_or CoefficientOverflow
               (Option.bind (i32_checked_shl coefficient bits) (\<lambda>value.
                i32_checked_add value refinement)))))
           else give coefficient) (\<lambda>coefficient.
        on_reader (apply_sign coefficient))))"

section \<open>Blocks of run/level pairs\<close>

record run_level =
  rl_run :: nat
  rl_level :: i32

record decoded_block =
  block_entries :: "run_level list"
  block_len :: nat
  start_location :: nat

definition entries :: "decoded_block \<Rightarrow> run_level list" where
  "entries block = take (block_len block) (block_entries block)"

definition non_zero_count :: "decoded_block \<Rightarrow> nat" where
  "non_zero_count block = block_len block"

definition push :: "nat \<Rightarrow> i32 \<Rightarrow> (decoded_block, entropy_error, unit) action" where
  "push run level block =
     (if block_len block < length (block_entries block)
      then (Ok (), block\<lparr>block_entries := (block_entries block)[block_len block :=
          \<lparr>rl_run = run, rl_level = level\<rparr>], block_len := block_len block + 1\<rparr>)
      else (Err (InvalidParameter ''non-zero coefficients in block'' (int (block_len block) + 1)), block))"

definition u8_add :: "nat \<Rightarrow> nat \<Rightarrow> (entropy_error, nat) result" where
  "u8_add a b = (if a + b \<le> 255 then Ok (a + b) else Err CoefficientOverflow)"

fun scan_loop :: "(nat \<Rightarrow> i32 \<Rightarrow> ('p, entropy_error, unit) action) \<Rightarrow> run_level list \<Rightarrow> nat \<Rightarrow>
    ('p, entropy_error, unit) action" where
  "scan_loop place [] index = give ()"
| "scan_loop place (e # es) index =
     run_try (pure_try (u8_add index (rl_run e))) (\<lambda>index.
     run_try (place index (rl_level e)) (\<lambda>_.
     run_try (pure_try (u8_add index 1)) (\<lambda>index.
     scan_loop place es index)))"

definition scan_entries :: "(nat \<Rightarrow> i32 \<Rightarrow> ('p, entropy_error, unit) action) \<Rightarrow> decoded_block \<Rightarrow>
    ('p, entropy_error, unit) action" where
  "scan_entries place block = scan_loop place (entries block) (start_location block)"

definition inverse_scan_lp :: "decoded_block \<Rightarrow> (lp_scan \<times> i32 list, entropy_error, unit) action" where
  "inverse_scan_lp block = scan_entries lp_place block"

definition inverse_scan_hp ::
  "hp_scan_direction \<Rightarrow> decoded_block \<Rightarrow> (hp_scan \<times> i32 list, entropy_error, unit) action" where
  "inverse_scan_hp direction block = scan_entries (hp_place direction) block"

text \<open>
  The state of block decoding: the reader, the selectors of the band and the state \<open>'p\<close> that the
  closure \<open>emit\<close> captures (a block, or a scan and its output).
\<close>

type_synonym 'p ac_state = "packet_reader \<times> ac_vlc_state \<times> 'p"

definition on_first_index :: "bool \<Rightarrow> (packet_reader \<times> adaptive_vlc, entropy_error, 'a) action \<Rightarrow>
    ('p ac_state, entropy_error, 'a) action" where
  "on_first_index chroma m = on_part (\<lambda>(r, s, p). (r, side chroma (ac_first_index s)))
     (\<lambda>(r, v) (_, s, p). (r, s\<lparr>ac_first_index := put_side chroma v (ac_first_index s)\<rparr>, p)) m"

definition on_index :: "bool \<Rightarrow> bool \<Rightarrow> (packet_reader \<times> adaptive_vlc, entropy_error, 'a) action \<Rightarrow>
    ('p ac_state, entropy_error, 'a) action" where
  "on_index chroma ctx m = on_part (\<lambda>(r, s, p). (r, side ctx (side chroma (ac_index s))))
     (\<lambda>(r, v) (_, s, p). (r, s\<lparr>ac_index := put_side chroma (put_side ctx v (side chroma (ac_index s)))
        (ac_index s)\<rparr>, p)) m"

definition on_abs_level :: "bool \<Rightarrow> (packet_reader \<times> adaptive_vlc, entropy_error, 'a) action \<Rightarrow>
    ('p ac_state, entropy_error, 'a) action" where
  "on_abs_level ctx m = on_part (\<lambda>(r, s, p). (r, side ctx (ac_abs_level s)))
     (\<lambda>(r, v) (_, s, p). (r, s\<lparr>ac_abs_level := put_side ctx v (ac_abs_level s)\<rparr>, p)) m"

definition on_sink :: "('p, entropy_error, 'a) action \<Rightarrow> ('p ac_state, entropy_error, 'a) action" where
  "on_sink m = on_part (\<lambda>(r, s, p). p) (\<lambda>p (r, s, _). (r, s, p)) m"

text \<open>A sink takes the run, the scan index and the level of a coefficient.\<close>

type_synonym 'p sink = "nat \<Rightarrow> nat \<Rightarrow> i32 \<Rightarrow> ('p, entropy_error, unit) action"

lemma run_try_cong [fundef_cong]:
  "m s' = m' s' \<Longrightarrow> s = s' \<Longrightarrow> (\<And>x t. m' s' = (Ok x, t) \<Longrightarrow> f x t = f' x t) \<Longrightarrow>
    run_try m f s = run_try m' f' s'"
  by (auto simp: run_try_def split: prod.split result.split)

text \<open>The \<open>while successors != 0\<close> loop.\<close>

function ac_loop :: "'p sink \<Rightarrow> bool \<Rightarrow> nat \<Rightarrow> bool \<Rightarrow> nat \<Rightarrow> nat \<Rightarrow> 'p ac_state \<Rightarrow>
    (entropy_error, nat) result \<times> 'p ac_state" where
  "ac_loop emit chroma successors ctx location non_zero s =
     (if successors = 0 then give non_zero s
      else
        run_try (if even successors then on_reader (decode_run_cached (15 - location)) else give 0)
          (\<lambda>run s.
        run_try (pure_try (advance_location location run)) (\<lambda>next s.
        run_try (on_index chroma ctx (decode_index next)) (\<lambda>index s.
        run_try (on_reader packet_read_bit) (\<lambda>sign s.
        let successors = index div 2; ctx = (ctx \<and> odd successors) in
        run_try (if odd index then on_abs_level ctx decode_abs_level else give 1) (\<lambda>magnitude s.
        run_try (pure_try (signed_level magnitude sign)) (\<lambda>level s.
        run_try (on_sink (emit run (next - 1) level)) (\<lambda>_ s.
        ac_loop emit chroma successors ctx next (non_zero + 1) s) s) s) s) s) s) s) s)"
  by pat_completeness auto

lemma advance_location_Ok: "advance_location location run = Ok next \<longleftrightarrow>
    next = location + run + 1 \<and> location + run < 16"
  by (auto simp: advance_location_def Let_def)

termination ac_loop
  by (relation "measure (\<lambda>(emit, chroma, successors, ctx, location, non_zero, s). 16 - location)")
    (auto simp: advance_location_Ok)

declare ac_loop.simps [simp del]

definition decode_ac_coefficients :: "'p sink \<Rightarrow> frequency_band \<Rightarrow> component_class \<Rightarrow> nat \<Rightarrow>
    ('p ac_state, entropy_error, nat) action" where
  "decode_ac_coefficients emit band class start =
     (if band = Dc then fail (InvalidParameter ''AC frequency band'' (int (band_index band)))
      else if \<not> (1 \<le> start \<and> start \<le> 15)
      then fail (InvalidParameter ''block start location'' (int start))
      else
        let chroma = is_chroma class in
        run_try (on_first_index chroma decode_first_index) (\<lambda>first.
        run_try (on_reader packet_read_bit) (\<lambda>sign.
        let zero_run = even first; successors = first div 4; ctx = (odd first \<and> odd successors) in
        run_try (if odd (first div 2) then on_abs_level ctx decode_abs_level else give 1) (\<lambda>magnitude.
        run_try (if zero_run then on_reader (decode_run_cached (15 - start)) else give 0) (\<lambda>run.
        run_try (pure_try (advance_location start run)) (\<lambda>next.
        run_try (pure_try (signed_level magnitude sign)) (\<lambda>level.
        run_try (on_sink (emit run (next - 1) level)) (\<lambda>_.
        ac_loop emit chroma successors ctx next 1))))))))"

text \<open>The closures of the three callers.\<close>

definition push_sink :: "decoded_block sink" where
  "push_sink run index level = push run level"

definition hp_sink :: "hp_scan_direction \<Rightarrow> (hp_scan \<times> i32 list) sink" where
  "hp_sink direction run index level = hp_place direction index level"

definition lp_sink :: "(lp_scan \<times> i32 list) sink" where
  "lp_sink run index level = lp_place index level"

definition decode_ac_block :: "frequency_band \<Rightarrow> component_class \<Rightarrow> nat \<Rightarrow>
    (packet_reader \<times> ac_vlc_state, entropy_error, decoded_block) action" where
  "decode_ac_block band class start = (\<lambda>(r, s).
     case decode_ac_coefficients push_sink band class start
       (r, s, \<lparr>block_entries = replicate 15 \<lparr>rl_run = 0, rl_level = 0\<rparr>, block_len = 0,
         start_location = start\<rparr>) of
       (Ok _, r, s, block) \<Rightarrow> (Ok block, r, s)
     | (Err e, r, s, block) \<Rightarrow> (Err e, r, s)
     | (Panic, r, s, block) \<Rightarrow> (Panic, r, s))"

definition decode_hp_block :: "component_class \<Rightarrow> hp_scan_direction \<Rightarrow>
    ((hp_scan \<times> i32 list) ac_state, entropy_error, nat) action" where
  "decode_hp_block class direction =
     decode_ac_coefficients (hp_sink direction) Highpass class 1"

definition decode_lp_block :: "component_class \<Rightarrow> nat \<Rightarrow>
    ((lp_scan \<times> i32 list) ac_state, entropy_error, nat) action" where
  "decode_lp_block class start = decode_ac_coefficients lp_sink Lowpass class start"

section \<open>The run table is built\<close>

lemma filled_row:
  assumes "\<And>p. p < n \<Longrightarrow> f p = Ok (g p)" "n \<le> length row"
  shows "each_try (\<lambda>p row. let_try (f p) (\<lambda>e. Ok (row[p := e]))) [0..<n] row =
    Ok (map g [0..<n] @ drop n row)"
  using assms
proof (induction n)
  case (Suc n)
  have "drop n row = row ! n # drop (Suc n) row" using Suc.prems(2) by (simp add: Cons_nth_drop_Suc)
  then show ?case using Suc by (simp add: each_try_append list_update_append)
qed simp

lemma complete_covers:
  assumes "complete codes" "p < 256"
  shows "\<exists>c\<in>set codes. covers c p"
  using complete_below_covers [of codes 8 0 0 p] assms by (simp add: complete_def)

lemma normative_entry:
  assumes "codes \<in> set normative_codes" "p < 256"
  shows "\<exists>c l s. (c, l, s) \<in> set codes \<and> entry (built codes) p div 256 = l \<and>
    entry (built codes) p mod 256 = s \<and> entry (built codes) p \<noteq> 0 \<and> covers (c, l, s) p"
proof -
  note b = normative_built [OF assms(1)]
  obtain c where c: "c \<in> set codes" "covers c p" using complete_covers [OF b(4) assms(2)] by blast
  have nz: "lookup (built codes) ! p \<noteq> 0"
    using b(2) c assms(2) unfolding table_for_def by blast
  then obtain d where d: "d \<in> set codes" "covers d p" "lookup (built codes) ! p = code_value d"
    using b(2) assms(2) unfolding table_for_def by blast
  obtain x l s where x: "d = (x, l, s)" by (cases d)
  have "s < 256" using b(3) d(1) by (auto simp: symbols_ok_def list_all_iff x)
  then show ?thesis using d nz
    by (intro exI [of _ x] exI [of _ l] exI [of _ s]) (simp add: entry_def code_value_def x)
qed

text \<open>The finite facts about the run codes, by evaluation.\<close>

definition run_value_fits :: "vlc_code list \<Rightarrow> bool" where
  "run_value_fits codes = list_all (\<lambda>(c, l, s). 0 < l \<and> l \<le> 7 \<and> 1 \<le> s \<and> s \<le> 15) codes"

definition run_index_fits :: "nat \<Rightarrow> bool" where
  "run_index_fits max_run = list_all (\<lambda>(c, l, s).
     let i = s + 5 * nat (RUN_BIN ! max_run); fixed = RUN_FIXED_LENGTH ! i in
     0 \<le> RUN_BIN ! max_run \<and> i < 15 \<and> 0 < l \<and> l + fixed \<le> 7 \<and> 1 \<le> RUN_REMAP ! i \<and>
     RUN_REMAP ! i + (2 ^ fixed - 1) \<le> 15) RUN_INDEX_CODES"

lemma run_codes_fit: "list_all run_value_fits RUN_VALUE_CODES" "list_all run_index_fits [5..<15]"
  by code_simp+

end
