(* ===== verification/Runs.thy ===== *)
theory Runs
  imports Coefficients
begin

text \<open>
  Run decoding: the one-byte run table is built without a failed assertion, and decoding a run
  through it equals decoding it code by code, errors and consumed bits included.
\<close>

section \<open>The entries of the run table\<close>

lemma RUN_VALUE_CODES_in:
  "i < 3 \<Longrightarrow> RUN_VALUE_CODES ! i \<in> set normative_codes \<and> run_value_fits (RUN_VALUE_CODES ! i)"
proof -
  assume i: "i < 3"
  have "length RUN_VALUE_CODES = 3" by (simp add: RUN_VALUE_CODES_def)
  then show ?thesis using i run_codes_fit(1) nth_mem [of i RUN_VALUE_CODES]
    by (simp add: normative_codes_def list_all_length)
qed

lemma RUN_INDEX_CODES_in: "RUN_INDEX_CODES \<in> set normative_codes"
  by (simp add: normative_codes_def)

text \<open>What an entry says, in terms of the code that covers the prefix.\<close>

lemma run_value_entry:
  assumes "2 \<le> max_run" "max_run < 5" "p < 256"
  shows "\<exists>run len. run_and_length max_run p = Ok (run, len) \<and> 0 < len \<and> len \<le> 7 \<and> run \<le> 15 \<and>
    1 \<le> run \<and> entry (built (RUN_VALUE_CODES ! (max_run - 2))) p = len * 256 + run"
proof -
  let ?codes = "RUN_VALUE_CODES ! (max_run - 2)"
  have i: "max_run - 2 < 3" "max_run - 2 < length RUN_VALUE_CODES" "max_run \<noteq> 1"
    using assms(1,2) by (simp_all add: RUN_VALUE_CODES_def)
  note codes = RUN_VALUE_CODES_in [OF i(1)]
  obtain c l s where d: "(c, l, s) \<in> set ?codes" "entry (built ?codes) p div 256 = l"
    "entry (built ?codes) p mod 256 = s"
    using normative_entry [OF conjunct1 [OF codes] assms(3)] by blast
  have "0 < l \<and> l \<le> 7 \<and> 1 \<le> s \<and> s \<le> 15"
    using conjunct2 [OF codes] d(1) by (auto simp: run_value_fits_def list_all_iff)
  moreover have "entry (built ?codes) p = l * 256 + s" using d(2,3) by (metis div_mult_mod_eq)
  ultimately show ?thesis using i assms(2) d(2,3)
    by (simp add: run_and_length_def Let_def)
qed

lemma run_index_entry:
  assumes "5 \<le> max_run" "max_run < 15" "p < 256"
  shows "\<exists>c l s. (c, l, s) \<in> set RUN_INDEX_CODES \<and> entry RUN_INDEX p = l * 256 + s \<and> s < 256 \<and>
    0 < l \<and> 0 \<le> RUN_BIN ! max_run \<and>
    (let i = s + 5 * nat (RUN_BIN ! max_run); fixed = RUN_FIXED_LENGTH ! i in
      i < 15 \<and> l + fixed \<le> 7 \<and> 1 \<le> RUN_REMAP ! i \<and> RUN_REMAP ! i + (2 ^ fixed - 1) \<le> 15 \<and>
      run_and_length max_run p =
        Ok (RUN_REMAP ! i + drop_bit (8 - fixed) (push_bit l p AND 0xff), l + fixed))"
proof -
  obtain c l s where d: "(c, l, s) \<in> set RUN_INDEX_CODES" "entry RUN_INDEX p div 256 = l"
    "entry RUN_INDEX p mod 256 = s"
    using normative_entry [OF RUN_INDEX_CODES_in assms(3)] unfolding RUN_INDEX_def by blast
  have "max_run \<in> set [5..<15]" using assms(1,2) by (simp only: set_upt atLeastLessThan_iff)
  then have "run_index_fits max_run" using run_codes_fit(2) unfolding list_all_iff by blast
  then have fits: "0 < l" "0 \<le> RUN_BIN ! max_run"
    "let i = s + 5 * nat (RUN_BIN ! max_run); fixed = RUN_FIXED_LENGTH ! i in
      i < 15 \<and> l + fixed \<le> 7 \<and> 1 \<le> RUN_REMAP ! i \<and> RUN_REMAP ! i + (2 ^ fixed - 1) \<le> 15"
    using d(1) by (auto simp: run_index_fits_def list_all_iff Let_def)
  have "length RUN_FIXED_LENGTH = 15" "length RUN_REMAP = 15"
    by (simp_all add: RUN_FIXED_LENGTH_def RUN_REMAP_def)
  then have "run_and_length max_run p = Ok (RUN_REMAP ! (s + 5 * nat (RUN_BIN ! max_run)) +
      drop_bit (8 - RUN_FIXED_LENGTH ! (s + 5 * nat (RUN_BIN ! max_run))) (push_bit l p AND 0xff),
      l + RUN_FIXED_LENGTH ! (s + 5 * nat (RUN_BIN ! max_run)))"
    using assms(1) fits d(2,3) by (simp add: run_and_length_def Let_def)
  moreover have "entry RUN_INDEX p = l * 256 + s" using d(2,3) by (metis div_mult_mod_eq)
  moreover have "s < 256" using d(3) by auto
  ultimately show ?thesis using fits d(1) unfolding Let_def
    by (intro exI [of _ c] exI [of _ l] exI [of _ s]) blast
qed

text \<open>The refinement that the table reads out of the prefix byte.\<close>

lemma prefix_field:
  assumes "length xs = 8" "a + n \<le> 8"
  shows "drop_bit (8 - n) (push_bit a (bits_val xs) AND 0xff) = bits_val (take n (drop a xs))"
proof -
  have split: "bits_val xs = bits_val (take a xs) * 2 ^ (8 - a) + bits_val (drop a xs)"
    using bits_val_append [of "take a xs" "drop a xs"] assms by simp
  have less: "bits_val (drop a xs) < 2 ^ (8 - a)" using bits_val_less [of "drop a xs"] assms by simp
  have a: "(2::nat) ^ (8 - a) * 2 ^ a = 256" using assms(2) by (simp flip: power_add)
  have "push_bit a (bits_val xs) AND 0xff = take_bit 8 (push_bit a (bits_val xs))"
    by (simp add: take_bit_eq_mask mask_eq_exp_minus_1)
  also have "\<dots> = (bits_val xs * 2 ^ a) mod 256" by (simp add: push_bit_eq_mult take_bit_eq_mod)
  also have "\<dots> = (bits_val (take a xs) * 256 + bits_val (drop a xs) * 2 ^ a) mod 256"
    unfolding split using a by (simp add: algebra_simps)
  also have "\<dots> = bits_val (drop a xs) * 2 ^ a"
  proof -
    have "bits_val (drop a xs) * 2 ^ a < 2 ^ (8 - a) * 2 ^ a" using less by simp
    then show ?thesis by (simp add: a)
  qed
  finally have "drop_bit (8 - n) (push_bit a (bits_val xs) AND 0xff) =
      bits_val (drop a xs) * 2 ^ a div 2 ^ (8 - n)" by (simp add: drop_bit_eq_div)
  also have "\<dots> = bits_val (drop a xs) div 2 ^ (8 - a - n)"
  proof -
    have "(2::nat) ^ (8 - n) = 2 ^ a * 2 ^ (8 - a - n)" using assms(2) by (simp flip: power_add)
    then show ?thesis by (simp add: div_mult2_eq)
  qed
  also have "\<dots> = bits_val (take n (drop a xs))"
    using bits_val_take [of n "drop a xs"] assms by (simp add: drop_bit_eq_div)
  finally show ?thesis .
qed

lemma drop_bit_less_exp: "drop_bit (8 - n) (x AND (0xff :: nat)) < 2 ^ n" if "n \<le> 8"
proof -
  have "x AND 0xff = take_bit 8 x" by (simp add: take_bit_eq_mask mask_eq_exp_minus_1)
  then have "x AND 0xff < 256" using take_bit_nat_less_exp [of 8 x] by simp
  moreover have "(256::nat) = 2 ^ n * 2 ^ (8 - n)" using that by (simp flip: power_add)
  ultimately show ?thesis by (simp add: drop_bit_eq_div less_mult_imp_div_less)
qed

lemma run_entry_built:
  assumes "1 \<le> max_run" "max_run < 15" "p < 256"
  shows "\<exists>run len. run_and_length max_run p = Ok (run, len) \<and> run \<le> 15 \<and> len \<le> 7 \<and>
    run_entry max_run p = Ok (run * 8 + len)"
proof -
  have pack: "run_entry max_run p = Ok (run * 8 + len)"
    if "run_and_length max_run p = Ok (run, len)" "run \<le> 15" "len \<le> 7" for run len
  proof -
    have "push_bit 3 run OR len = run * 8 + len" using nat_shift_or [of len 3 run] that(3) by simp
    then show ?thesis using that by (simp add: run_entry_def)
  qed
  consider "max_run = 1" | "2 \<le> max_run" "max_run < 5" | "5 \<le> max_run" using assms(1) by linarith
  then show ?thesis
  proof cases
    case 1
    then have "run_and_length max_run p = Ok (1, 0)" by (simp add: run_and_length_def)
    then show ?thesis using pack [of 1 0] by auto
  next
    case 2
    then show ?thesis using run_value_entry [OF 2 assms(3)] pack by blast
  next
    case 3
    obtain s l where sl:
      "let i = s + 5 * nat (RUN_BIN ! max_run); fixed = RUN_FIXED_LENGTH ! i in
        i < 15 \<and> l + fixed \<le> 7 \<and> 1 \<le> RUN_REMAP ! i \<and> RUN_REMAP ! i + (2 ^ fixed - 1) \<le> 15 \<and>
        run_and_length max_run p =
          Ok (RUN_REMAP ! i + drop_bit (8 - fixed) (push_bit l p AND 0xff), l + fixed)"
      using run_index_entry [OF 3 assms(2,3)] by blast
    let ?i = "s + 5 * nat (RUN_BIN ! max_run)"
    let ?fixed = "RUN_FIXED_LENGTH ! ?i"
    have "drop_bit (8 - ?fixed) (push_bit l p AND 0xff) < 2 ^ ?fixed"
      using sl by (intro drop_bit_less_exp) (simp add: Let_def)
    then have "RUN_REMAP ! ?i + drop_bit (8 - ?fixed) (push_bit l p AND 0xff) \<le> 15"
      using sl unfolding Let_def by linarith
    then show ?thesis using sl pack unfolding Let_def by blast
  qed
qed

lemma run_lookup_built:
  "run_lookup = Ok RUN_LOOKUP" "length RUN_LOOKUP = 15"
  "1 \<le> max_run \<Longrightarrow> max_run < 15 \<Longrightarrow> p < 256 \<Longrightarrow>
    run_and_length max_run p = Ok (run, len) \<Longrightarrow>
    RUN_LOOKUP ! max_run ! p = run * 8 + len \<and> run \<le> 15 \<and> len \<le> 7"
proof -
  let ?entry = "\<lambda>m p. case run_entry m p of Ok e \<Rightarrow> e | _ \<Rightarrow> 0"
  define filled where "filled m = map (?entry m) [0..<256]" for m
  have row: "run_row m row = Ok (filled m)"
    if "1 \<le> m" "m < 15" "length row = 256" for m row
  proof -
    have "run_row m row = Ok (filled m @ drop 256 row)"
      unfolding run_row_def filled_def
    proof (rule filled_row)
      show "run_entry m p = Ok (?entry m p)" if "p < 256" for p
        using run_entry_built [OF \<open>1 \<le> m\<close> \<open>m < 15\<close> that] by auto
    qed (use that(3) in simp)
    then show ?thesis using that(3) by simp
  qed
  have "\<exists>t. each_try (\<lambda>m table. let_try (run_row m (table ! m)) (\<lambda>row. Ok (table[m := row]))) [1..<n]
      (replicate 15 (replicate 256 0)) = Ok t \<and> length t = 15 \<and>
      (\<forall>m < 15. t ! m = (if 1 \<le> m \<and> m < n then filled m else replicate 256 0))"
    if "n \<le> 15" for n
    using that
  proof (induction n)
    case (Suc n)
    from Suc.IH [OF Suc_leD [OF Suc.prems]]
    obtain t where t: "each_try (\<lambda>m table. let_try (run_row m (table ! m)) (\<lambda>row. Ok (table[m := row])))
        [1..<n] (replicate 15 (replicate 256 0)) = Ok t" "length t = 15"
      "\<forall>m < 15. t ! m = (if 1 \<le> m \<and> m < n then filled m else replicate 256 0)"
      by blast
    show ?case
    proof (cases "1 \<le> n")
      case True
      then have "run_row n (t ! n) = Ok (filled n)"
        using t(3) Suc.prems by (intro row) simp_all
      then show ?thesis using t True Suc.prems
        by (auto simp: each_try_append nth_list_update simp del: upt_Suc_append)
    next
      case False
      then have "n = 0" by simp
      then show ?thesis by auto
    qed
  qed simp
  from this [of 15] obtain t where t: "run_lookup = Ok t" "length t = 15"
    "\<forall>m < 15. t ! m = (if 1 \<le> m \<and> m < 15 then filled m else replicate 256 0)"
    by (auto simp: run_lookup_def)
  have table: "RUN_LOOKUP = t" unfolding RUN_LOOKUP_def t(1) by simp
  show "run_lookup = Ok RUN_LOOKUP" "length RUN_LOOKUP = 15" using t table by simp_all
  assume m: "1 \<le> max_run" "max_run < 15" and p: "p < 256"
    and run: "run_and_length max_run p = Ok (run, len)"
  have "filled max_run ! p = ?entry max_run p"
    unfolding filled_def using p by (subst nth_map) (simp_all only: length_upt nth_upt add_0 minus_nat.diff_0)
  then have "RUN_LOOKUP ! max_run ! p = ?entry max_run p" using t(3) m by (simp add: table)
  then show "RUN_LOOKUP ! max_run ! p = run * 8 + len \<and> run \<le> 15 \<and> len \<le> 7"
    using run_entry_built [OF m p] run by auto
qed

section \<open>Prefix decoding does not see the cache\<close>

lemma refill_length: "pk_length (refill r) = pk_length r"
  by (simp add: refill_def split: prod.split)

lemma skip_cached_length: "skip_cached n r = (b, t) \<Longrightarrow> pk_length t = pk_length r"
  by (auto simp: skip_cached_def consume_cached_def split: if_splits)

text \<open>After a peek, a skip of at most eight bits succeeds exactly when the packet holds them.\<close>

lemma peek_and_skip:
  assumes "packet_ok r" "peek_byte r = (b, t)" "n \<le> 8"
  shows "\<exists>u. skip_cached n t = (n \<le> length (packet_unread r), u) \<and> packet_ok u \<and>
    pk_length u = pk_length r \<and>
    packet_unread u = (if n \<le> length (packet_unread r) then drop n (packet_unread r)
      else packet_unread r)"
proof -
  note peek = peek_byte_bits [OF assms(1,2)]
  obtain ok u where skip: "skip_cached n t = (ok, u)" by (cases "skip_cached n t")
  have "n \<le> 57" using assms(3) by simp
  note s = skip_cached_ok [OF peek(2) this skip]
  have "pk_cached t \<le> length (packet_unread r)"
    using peek(2,3) by (simp add: packet_ok_def cache_ok_def)
  then have "ok \<longleftrightarrow> n \<le> length (packet_unread r)" using s(1) peek(4) assms(3) by linarith
  then show ?thesis using skip s(2,3) peek skip_cached_length [OF skip] by auto
qed

lemma peek_agrees:
  assumes "agree r t" "peek_byte r = (a, r')" "peek_byte t = (b, t')"
  shows "a = b" "agree r' t'"
proof -
  have ok: "packet_ok r" "packet_ok t" and u: "packet_unread r = packet_unread t"
    using assms(1) by (simp_all add: agree_def)
  note p = peek_byte_bits [OF ok(1) assms(2)] and q = peek_byte_bits [OF ok(2) assms(3)]
  have "unat a = unat b" using p(1) q(1) u bits_val_byte_bits by metis
  then show "a = b" by (simp add: word_unat_eq_iff)
  show "agree r' t'" using assms(1) p q by (simp add: agree_def)
qed

lemma peek_agrees_self: "packet_ok r \<Longrightarrow> peek_byte r = (b, t) \<Longrightarrow> agree t r"
  using peek_byte_bits [of r b t] by (simp add: agree_def)

lemma skip_agrees:
  assumes "packet_ok r" "packet_ok t" "agree r t" "peek_byte r = (b, r')" "peek_byte t = (c, t')" "n \<le> 8"
    and "skip_cached n r' = (x, u)" "skip_cached n t' = (y, v)"
  shows "x = y \<and> agree u v \<and> x = (n \<le> length (packet_unread r))"
  using peek_and_skip [OF assms(1,4,6)] peek_and_skip [OF assms(2,5,6)] assms(3,7,8)
  by (auto simp: agree_def)

text \<open>Tables whose entries have codes of at most eight bits.\<close>

lemma entry_length:
  assumes "codes \<in> set normative_codes" "p < 256"
  shows "lookup (built codes) ! p div 256 \<le> 8" "lookup (built codes) ! p \<noteq> 0"
proof -
  obtain c l s where d: "(c, l, s) \<in> set codes" "entry (built codes) p div 256 = l"
    "entry (built codes) p \<noteq> 0" using normative_entry [OF assms] by blast
  then have "code_ok (c, l, s)" using normative_built(2) [OF assms(1)] by (auto simp: table_for_def)
  then show "lookup (built codes) ! p div 256 \<le> 8" "lookup (built codes) ! p \<noteq> 0"
    using d by (simp_all add: code_ok_def entry_def)
qed

text \<open>
  Decoding with a normative table: the byte peeked from the unread bits selects the entry, whose
  length is skipped if the packet holds it.
\<close>

lemma decode_unfolded:
  assumes "codes \<in> set normative_codes" "packet_ok r" "peek_byte r = (b, t)"
    and "lookup (built codes) ! unat b = l * 256 + s" "s < 256"
  shows "\<exists>u. skip_cached l t = (l \<le> length (packet_unread r), u) \<and> packet_ok u \<and>
    pk_length u = pk_length r \<and>
    packet_unread u = (if l \<le> length (packet_unread r) then drop l (packet_unread r)
      else packet_unread r) \<and>
    (l \<le> length (packet_unread r) \<longrightarrow> decode syntax (built codes) r = (Ok s, u))"
proof -
  have b: "unat b < 256" using unsigned_less [where 'a = nat, of b] by simp
  note e = entry_length [OF assms(1) b]
  have ls: "lookup (built codes) ! unat b div 256 = l" "lookup (built codes) ! unat b mod 256 = s"
    using assms(4,5) by simp_all
  obtain u where u: "skip_cached l t = (l \<le> length (packet_unread r), u)" "packet_ok u"
    "pk_length u = pk_length r" "packet_unread u =
      (if l \<le> length (packet_unread r) then drop l (packet_unread r) else packet_unread r)"
    using peek_and_skip [OF assms(2,3), of l] e(1) ls(1) by auto
  moreover have "l \<le> length (packet_unread r) \<longrightarrow> decode syntax (built codes) r = (Ok s, u)"
    using u(1) e(2) ls assms(3) by (simp add: decode_def Let_def)
  ultimately show ?thesis by blast
qed

lemma decode_mirrors:
  assumes "codes \<in> set normative_codes"
  shows "mirrors agree (decode syntax (built codes)) (decode syntax (built codes))"
  unfolding mirrors_def
proof (intro allI impI)
  fix r t assume rt: "agree r t"
  then have ok: "packet_ok r" "packet_ok t" and u: "packet_unread r = packet_unread t"
    and l: "pk_length r = pk_length t" by (simp_all add: agree_def)
  obtain b r' c t' where peek: "peek_byte r = (b, r')" "peek_byte t = (c, t')"
    by (cases "peek_byte r"; cases "peek_byte t")
  have bc: "b = c" using peek_agrees [OF rt peek] by simp
  have b: "unat b < 256" using unsigned_less [where 'a = nat, of b] by simp
  note e = entry_length [OF assms b]
  let ?l = "lookup (built codes) ! unat b div 256"
  obtain x v y w where skip: "skip_cached ?l r' = (x, v)" "skip_cached ?l t' = (y, w)"
    by (cases "skip_cached ?l r'"; cases "skip_cached ?l t'")
  have xy: "x = y" "agree v w" using skip_agrees [OF ok rt peek e(1) skip] by simp_all
  have "pk_position v = pk_position w" "pk_length v = pk_length w"
    using agree_position [OF xy(2)] xy(2) by (simp_all add: agree_def)
  then have "bits_remaining v = bits_remaining w"
    "unexpected_end_after n v = unexpected_end_after n w" for n
    by (simp_all add: bits_remaining_def unexpected_end_after_def)
  then show "fst (decode syntax (built codes) r) = fst (decode syntax (built codes) t) \<and>
      agree (snd (decode syntax (built codes) r)) (snd (decode syntax (built codes) t))"
    using skip xy e(2) peek \<open>pk_position v = pk_position w\<close>
    by (simp add: decode_def Let_def flip: bc)
qed

lemma decode_run_mirrors: "mirrors agree (decode_run max_run) (decode_run max_run)"
proof -
  have tables: "RUN_VALUE_2_CODES \<in> set normative_codes" "RUN_VALUE_3_CODES \<in> set normative_codes"
    "RUN_VALUE_4_CODES \<in> set normative_codes"
    by (simp_all add: normative_codes_def RUN_VALUE_CODES_def)
  have fixed: "fixed \<le> 64" if "index_or_panic RUN_FIXED_LENGTH i = (Ok fixed :: (entropy_error, nat) result)"
    for i fixed
  proof -
    have "list_all (\<lambda>n. n \<le> 64) RUN_FIXED_LENGTH" by code_simp
    then show ?thesis using that by (auto simp: outcome_simps list_all_length)
  qed
  have "mirrors agree (run_of_index max_run i) (run_of_index max_run i)" for i
  proof -
    have read: "mirrors agree
       (run_try (pure_try (index_or_panic RUN_FIXED_LENGTH n)) (\<lambda>fixed. run_try (packet_read_bits fixed) f))
       (run_try (pure_try (index_or_panic RUN_FIXED_LENGTH n)) (\<lambda>fixed. run_try (packet_read_bits fixed) f))"
      if "\<And>v. mirrors agree (f v) (f v)" for n and f :: "nat \<Rightarrow> nat decoder"
    proof (cases "index_or_panic RUN_FIXED_LENGTH n :: (entropy_error, nat) result")
      case (Ok w)
      then show ?thesis using fixed [OF Ok] that by (simp add: mirrors_bind read_bits_mirrors)
    next
      case Panic
      then show ?thesis by (simp add: mirrors_def run_try_def)
    qed simp
    show ?thesis
      unfolding run_of_index_def Let_def
      by (rule mirrors_if, simp, rule read, intro mirrors_bind mirrors_simps)
  qed
  then show ?thesis
    unfolding decode_run_def RUN_VALUE_2_def RUN_VALUE_3_def RUN_VALUE_4_def RUN_INDEX_def
    by (intro mirrors_if mirrors_simps mirrors_bind decode_mirrors tables RUN_INDEX_CODES_in)
qed

section \<open>The run table agrees with the codes\<close>

lemma run_of_index_at:
  assumes "0 \<le> RUN_BIN ! max_run" "i = s + 5 * nat (RUN_BIN ! max_run)" "i < 15"
  shows "run_of_index max_run s =
    run_try (packet_read_bits (RUN_FIXED_LENGTH ! i)) (\<lambda>raw.
    run_try (pure_try (u8_of_bits raw)) (\<lambda>refinement. give (RUN_REMAP ! i + refinement)))"
proof -
  have i: "int s + 5 * RUN_BIN ! max_run = int i" using assms(1,2) by simp
  have "length RUN_FIXED_LENGTH = 15" "length RUN_REMAP = 15"
    by (simp_all add: RUN_FIXED_LENGTH_def RUN_REMAP_def)
  then show ?thesis using assms(3) unfolding run_of_index_def i Let_def
    by (simp add: give_def [abs_def])
qed

lemma decode_run_hit:
  assumes "packet_ok r" "peek_byte r = (b, t)" "1 \<le> max_run" "max_run < 15"
    and "run_and_length max_run (unat b) = Ok (run, len)" "len \<le> length (packet_unread r)"
  shows "\<exists>w. decode_run max_run r = (Ok run, w) \<and> packet_ok w \<and> pk_length w = pk_length r \<and>
    packet_unread w = drop len (packet_unread r)"
proof -
  have b: "unat b < 256" using unsigned_less [where 'a = nat, of b] by simp
  consider "max_run = 1" | "2 \<le> max_run" "max_run < 5" | "5 \<le> max_run" using assms(3) by linarith
  then show ?thesis
  proof cases
    case 1
    then have "run = 1" "len = 0" using assms(5) by (simp_all add: run_and_length_def)
    then show ?thesis using 1 assms(1) by (simp add: decode_run_def)
  next
    case 2
    let ?codes = "RUN_VALUE_CODES ! (max_run - 2)"
    have e: "lookup (built ?codes) ! unat b = len * 256 + run" "run < 256"
      using run_value_entry [OF 2 b] assms(5) by (auto simp: entry_def)
    have codes: "?codes \<in> set normative_codes" using RUN_VALUE_CODES_in [of "max_run - 2"] 2 by simp
    have run: "decode_run max_run = decode ''RUN_VALUE'' (built ?codes)"
    proof -
      consider "max_run = 2" | "max_run = 3" | "max_run = 4" using 2 by linarith
      then show ?thesis
        by cases (simp_all add: decode_run_def RUN_VALUE_CODES_def RUN_VALUE_2_def RUN_VALUE_3_def
            RUN_VALUE_4_def)
    qed
    show ?thesis using decode_unfolded [OF codes assms(1,2) e] assms(6) unfolding run by auto
  next
    case 3
    obtain s l where s: "entry RUN_INDEX (unat b) = l * 256 + s" "s < 256" "0 \<le> RUN_BIN ! max_run"
      "let i = s + 5 * nat (RUN_BIN ! max_run); fixed = RUN_FIXED_LENGTH ! i in
        i < 15 \<and> l + fixed \<le> 7 \<and> 1 \<le> RUN_REMAP ! i \<and> RUN_REMAP ! i + (2 ^ fixed - 1) \<le> 15 \<and>
        run_and_length max_run (unat b) =
          Ok (RUN_REMAP ! i + drop_bit (8 - fixed) (push_bit l (unat b) AND 0xff), l + fixed)"
      using run_index_entry [OF 3 assms(4) b] by blast
    let ?i = "s + 5 * nat (RUN_BIN ! max_run)" and ?u = "packet_unread r"
    let ?n = "RUN_FIXED_LENGTH ! ?i"
    have i: "?i < 15" "l + ?n \<le> 7" "len = l + ?n" "RUN_REMAP ! ?i + (2 ^ ?n - 1) \<le> 15"
      "run = RUN_REMAP ! ?i + drop_bit (8 - ?n) (push_bit l (unat b) AND 0xff)"
      using s(4) assms(5) by (simp_all add: Let_def)
    have "take ?n (drop l (byte_bits b)) = take ?n (drop l ?u)"
      using peek_byte_bits(1) [OF assms(1,2)] assms(6) i(2,3) by (simp add: take_drop min_def)
    then have field: "run = RUN_REMAP ! ?i + bits_val (take ?n (drop l ?u))"
      using prefix_field [of "byte_bits b" l ?n] i(2,5) by (simp add: bits_val_byte_bits)
    obtain v where v: "decode ''RUN_INDEX'' RUN_INDEX r = (Ok s, v)" "packet_ok v"
      "pk_length v = pk_length r" "packet_unread v = drop l ?u"
      using decode_unfolded [OF RUN_INDEX_CODES_in assms(1,2), of l s] s(1,2) assms(6) i(3)
      by (auto simp: entry_def RUN_INDEX_def)
    have "?n \<le> 64" "?n \<le> length (packet_unread v)" using i(2,3) assms(6) v(4) by simp_all
    then obtain w where w: "packet_read_bits ?n v = (Ok (bits_val (take ?n (drop l ?u))), w)"
      "packet_unread w = drop (?n + l) ?u" "packet_ok w"
      using pkt.read_ok [OF v(2)] v(4) by auto
    have len: "pk_length w = pk_length r" using packet_read_bits_length [OF w(1)] v(3) by simp
    have "bits_val (take ?n (drop l ?u)) < 2 ^ ?n"
      using bits_val_less [of "take ?n (drop l ?u)"] i(3) assms(6) by simp
    then have "bits_val (take ?n (drop l ?u)) \<le> 255" using i(4) by linarith
    then have "run_of_index max_run s v = (Ok run, w)"
      unfolding run_of_index_at [OF s(3) refl i(1)] field
      using w(1) by (simp add: run_try_step u8_of_bits_def)
    then show ?thesis using 3 assms(4) v(1) w len i(3)
      by (simp add: decode_run_def run_try_step add.commute)
  qed
qed

lemma decode_run_cached_mirrors: "mirrors agree (decode_run_cached max_run) (decode_run max_run)"
  unfolding mirrors_def
proof (intro allI impI)
  fix r t assume rt: "agree r t"
  then have ok: "packet_ok r" "packet_ok t" and u: "packet_unread r = packet_unread t"
    and l: "pk_length r = pk_length t" by (simp_all add: agree_def)
  note plain = decode_run_mirrors [of max_run]
  show "fst (decode_run_cached max_run r) = fst (decode_run max_run t) \<and>
      agree (snd (decode_run_cached max_run r)) (snd (decode_run max_run t))"
  proof (cases "1 \<le> max_run \<and> max_run < 15")
    case False
    then show ?thesis using plain rt run_lookup_built(2)
      by (auto simp: decode_run_cached_def mirrors_def)
  next
    case True
    then have m: "1 \<le> max_run" "max_run < 15" by simp_all
    obtain b r' c t' where peek: "peek_byte r = (b, r')" "peek_byte t = (c, t')"
      by (cases "peek_byte r"; cases "peek_byte t")
    have bc: "b = c" using peek_agrees [OF rt peek] by simp
    have b: "unat b < 256" using unsigned_less [where 'a = nat, of b] by simp
    obtain run len where rl: "run_and_length max_run (unat b) = Ok (run, len)"
      using run_entry_built [OF m b] by blast
    note e = run_lookup_built(3) [OF m b rl]
    have parts: "RUN_LOOKUP ! max_run ! unat b AND 7 = len" "drop_bit 3 (RUN_LOOKUP ! max_run ! unat b) = run"
    proof -
      have "(run * 8 + len) AND 7 = take_bit 3 (run * 8 + len)"
        by (simp add: take_bit_eq_mask mask_eq_exp_minus_1)
      then show "RUN_LOOKUP ! max_run ! unat b AND 7 = len" "drop_bit 3 (RUN_LOOKUP ! max_run ! unat b) = run"
        using e by (simp_all add: take_bit_eq_mod drop_bit_eq_div)
    qed
    obtain v where v: "skip_cached len r' = (len \<le> length (packet_unread r), v)" "packet_ok v"
      "pk_length v = pk_length r" "packet_unread v =
        (if len \<le> length (packet_unread r) then drop len (packet_unread r) else packet_unread r)"
      using peek_and_skip [OF ok(1) peek(1), of len] e by auto
    have cached: "decode_run_cached max_run r =
        (if len \<le> length (packet_unread r) then (Ok run, v) else decode_run max_run v)"
      using m run_lookup_built(2) peek(1) v(1) parts by (simp add: decode_run_cached_def Let_def)
    show ?thesis
    proof (cases "len \<le> length (packet_unread r)")
      case True
      then obtain w where "decode_run max_run t = (Ok run, w)" "packet_ok w"
        "pk_length w = pk_length t" "packet_unread w = drop len (packet_unread t)"
        using decode_run_hit [OF ok(2) peek(2) m, of run len] rl u bc by auto
      then show ?thesis using cached True v u l by (simp add: agree_def)
    next
      case False
      then have "agree v t" using v u l ok(2) by (simp add: agree_def)
      then show ?thesis using plain cached False by (simp add: mirrors_def)
    qed
  qed
qed

text \<open>A run decoder never panics; a run is at most 15.\<close>

lemma decode_upholds:
  assumes "codes \<in> set normative_codes"
  shows "upholds packet_ok (decode syntax (built codes)) (\<lambda>s. s \<in> set (symbols codes))"
proof (rule upholdsI)
  fix r :: packet_reader assume r: "packet_ok r"
  obtain x t where d: "decode syntax (built codes) r = (x, t)" by (cases "decode syntax (built codes) r")
  note n = normative_decode [OF assms r d]
  show "packet_ok (snd (decode syntax (built codes) r))"
    "fst (decode syntax (built codes) r) \<noteq> Panic" using n d by auto
  show "s \<in> set (symbols codes)" if "fst (decode syntax (built codes) r) = Ok s" for s
    using n(3) d that by auto
qed

lemma run_of_index_upholds:
  assumes "5 \<le> max_run" "max_run < 15" "s \<in> set (symbols RUN_INDEX_CODES)"
  shows "upholds packet_ok (run_of_index max_run s) (\<lambda>run. run \<le> 15)"
proof -
  obtain c l where c: "(c, l, s) \<in> set RUN_INDEX_CODES" using assms(3) by (auto simp: symbols_def)
  have "max_run \<in> set [5..<15]" using assms(1,2) by (simp only: set_upt atLeastLessThan_iff)
  then have "run_index_fits max_run" using run_codes_fit(2) unfolding list_all_iff by blast
  then have fits: "0 \<le> RUN_BIN ! max_run"
    "let i = s + 5 * nat (RUN_BIN ! max_run); fixed = RUN_FIXED_LENGTH ! i in
      i < 15 \<and> l + fixed \<le> 7 \<and> RUN_REMAP ! i + (2 ^ fixed - 1) \<le> 15"
    using c by (auto simp: run_index_fits_def list_all_iff Let_def)
  let ?i = "s + 5 * nat (RUN_BIN ! max_run)"
  have i: "?i < 15" "RUN_FIXED_LENGTH ! ?i \<le> 7" "RUN_REMAP ! ?i + (2 ^ (RUN_FIXED_LENGTH ! ?i) - 1) \<le> 15"
    using fits by (simp_all add: Let_def)
  have "upholds packet_ok (run_try (packet_read_bits (RUN_FIXED_LENGTH ! ?i)) (\<lambda>raw.
      run_try (pure_try (u8_of_bits raw)) (\<lambda>refinement. give (RUN_REMAP ! ?i + refinement))))
      (\<lambda>run. run \<le> 15)"
  proof (rule upholds_bind [OF pkt.read_upholds])
    fix raw :: nat assume "raw < 2 ^ (RUN_FIXED_LENGTH ! ?i)"
    then have "RUN_REMAP ! ?i + raw \<le> 15" using i(3) by linarith
    then show "upholds packet_ok (run_try (pure_try (u8_of_bits raw))
        (\<lambda>refinement. give (RUN_REMAP ! ?i + refinement))) (\<lambda>run. run \<le> 15)"
      by (simp add: u8_of_bits_def upholds_def)
  qed (use i(2) in simp)
  then show ?thesis unfolding run_of_index_at [OF fits(1) refl i(1)] .
qed

lemma decode_run_upholds: "upholds packet_ok (decode_run max_run) (\<lambda>run. run \<le> 15)"
proof -
  have small: "upholds packet_ok (decode name (built codes)) (\<lambda>run. run \<le> 15)"
    if "codes \<in> set RUN_VALUE_CODES" for name codes
  proof (rule upholds_mono [OF decode_upholds])
    show "codes \<in> set normative_codes" using that by (simp add: normative_codes_def)
    show "s \<le> 15" if "s \<in> set (symbols codes)" for s
      using that run_codes_fit(1) \<open>codes \<in> set RUN_VALUE_CODES\<close>
      by (auto simp: list_all_iff run_value_fits_def symbols_def)
  qed
  show ?thesis
    unfolding decode_run_def RUN_VALUE_2_def RUN_VALUE_3_def RUN_VALUE_4_def RUN_INDEX_def
    by (intro upholds_if upholds_fail upholds_give small upholds_bind [OF decode_upholds]
        run_of_index_upholds) (simp_all add: RUN_INDEX_CODES_in RUN_VALUE_CODES_def)
qed

lemma decode_run_cached_upholds: "upholds packet_ok (decode_run_cached max_run) (\<lambda>run. run \<le> 15)"
proof (rule upholdsI)
  fix r :: packet_reader assume r: "packet_ok r"
  obtain x t y u where run: "decode_run_cached max_run r = (x, t)" "decode_run max_run r = (y, u)"
    by (cases "decode_run_cached max_run r"; cases "decode_run max_run r")
  have xy: "x = y" "agree t u"
    using mirrorsD [OF decode_run_cached_mirrors agree_refl [OF r] run] by simp_all
  note plain = upholdsD [OF decode_run_upholds [of max_run] r]
  show "packet_ok (snd (decode_run_cached max_run r))" "fst (decode_run_cached max_run r) \<noteq> Panic"
    using xy run plain(2) by (simp_all add: agree_def)
  show "v \<le> 15" if "fst (decode_run_cached max_run r) = Ok v" for v
    using plain(3) that xy run by simp
qed

section \<open>Properties\<close>

text \<open>
  C18: the run table is correct. The loops that build it at compile time finish without a failed
  assertion (every run code has a symbol for every prefix, and run and length fit one byte), and
  for every maximum run and every reachable reader the one-byte lookup has the same outcome (run or
  error) as the decoder that reads code and refinement, and leaves the same unread bits; runs are
  at most 15 and neither decoder panics.
\<close>

theorem run_table_correct:
  assumes "packet_ok r"
  shows "run_lookup = Ok RUN_LOOKUP \<and>
    (case (decode_run_cached max_run r, decode_run max_run r) of ((x, t), (y, u)) \<Rightarrow>
      x = y \<and> x \<noteq> Panic \<and> packet_ok t \<and> packet_unread t = packet_unread u \<and>
      (\<forall>run. x = Ok run \<longrightarrow> run \<le> 15))"
proof -
  obtain x t y u where run: "decode_run_cached max_run r = (x, t)" "decode_run max_run r = (y, u)"
    by (cases "decode_run_cached max_run r"; cases "decode_run max_run r")
  show ?thesis
    using run run_lookup_built(1) mirrorsD [OF decode_run_cached_mirrors agree_refl [OF assms] run]
      upholdsD [OF decode_run_cached_upholds [of max_run] assms]
    by (auto simp: agree_def)
qed

lemma run_table_correct_witness:
  "fst (decode_run_cached 14 (packet_new [0b00010110])) = fst (decode_run 14 (packet_new [0b00010110]))"
  using run_table_correct [of "packet_new [0b00010110]" 14] packet_new_ok [of "[0b00010110]"]
  by (auto split: prod.splits)

end
