(* ===== verification/Blocks.thy ===== *)
theory Blocks
  imports Runs
begin

text \<open>
  Decoding a block of coefficients: from any reachable state it terminates without a panic, with at
  most fifteen coefficients and bounded selectors; and the direct decoders, which place each
  coefficient while they parse, agree with parsing the whole block first and scanning it afterwards.
\<close>

section \<open>Symbols of an adaptive code\<close>

text \<open>A selector together with the code lists of its tables.\<close>

locale adaptive_code = selector observe adapt ok tables alphabet
  for observe :: "nat \<Rightarrow> adaptive_vlc \<Rightarrow> (entropy_error, adaptive_vlc) result"
    and adapt :: "adaptive_vlc \<Rightarrow> adaptive_vlc"
    and ok :: "int \<Rightarrow> adaptive_vlc \<Rightarrow> bool"
    and tables alphabet :: nat +
  fixes codes :: "vlc_code list list"
  assumes normative: "c \<in> set codes \<Longrightarrow> c \<in> set normative_codes"
    and as_many: "length codes = tables"
    and in_alphabet: "c \<in> set codes \<Longrightarrow> s \<in> set (symbols c) \<Longrightarrow> s < alphabet"
begin

lemma symbol_leads:
  assumes "B + 2 \<le> i32_max"
  shows "leads (\<lambda>(r, v). packet_ok r \<and> ok B v) (adaptive_symbol name (map built codes) observe)
    (\<lambda>(r, v). packet_ok r \<and> ok (B + 2) v) (\<lambda>s. s < alphabet)"
  unfolding leads_def
proof (intro allI impI)
  fix p assume "case p of (r, v) \<Rightarrow> packet_ok r \<and> ok B v"
  then obtain r v where p: "p = (r, v)" and r: "packet_ok r" and v: "ok B v" by auto
  let ?run = "adaptive_symbol name (map built codes) observe (r, v)"
  let ?codes = "codes ! table_index v"
  have i: "table_index v < length codes" using in_tables [OF v] as_many by simp
  then have mem: "?codes \<in> set codes" by simp
  have v': "ok (B + 2) v" using weakens [OF v, of "B + 2"] by simp
  obtain x t where d: "decode name (built ?codes) r = (x, t)" by (cases "decode name (built ?codes) r")
  note n = normative_decode [OF normative [OF mem] r d]
  have "(case snd ?run of (r, v) \<Rightarrow> packet_ok r \<and> ok (B + 2) v) \<and> fst ?run \<noteq> Panic \<and>
      (\<forall>s. fst ?run = Ok s \<longrightarrow> s < alphabet)"
  proof (cases x)
    case (Ok s)
    then have s: "s < alphabet" using n(3) in_alphabet [OF mem] by auto
    obtain w where "observe s v = Ok w" "ok (B + 2) w" using observes [OF v s assms] by blast
    then show ?thesis using i d Ok n(1) s by (simp add: adaptive_symbol_def)
  next
    case (Err e)
    then show ?thesis using i d n(1) v' by (simp add: adaptive_symbol_def)
  next
    case Panic
    then show ?thesis using n(3) by simp
  qed
  then show "(case snd (adaptive_symbol name (map built codes) observe p) of
        (r, v) \<Rightarrow> packet_ok r \<and> ok (B + 2) v) \<and>
      (case fst (adaptive_symbol name (map built codes) observe p) of
        Ok s \<Rightarrow> s < alphabet | Err e \<Rightarrow> True | Panic \<Rightarrow> False)"
    unfolding p by (auto split: result.split)
qed

end

lemma normative_parts:
  "c \<in> set ABS_LEVEL_CODES \<Longrightarrow> c \<in> set normative_codes"
  "c \<in> set FIRST_INDEX_CODES \<Longrightarrow> c \<in> set normative_codes"
  "c \<in> set INDEX_A_CODES \<Longrightarrow> c \<in> set normative_codes"
  "INDEX_B_CODES \<in> set normative_codes"
  by (simp_all add: normative_codes_def)

lemma alphabets:
  "list_all (\<lambda>c. list_all (\<lambda>s. s < 7) (symbols c)) ABS_LEVEL_CODES"
  "list_all (\<lambda>c. list_all (\<lambda>s. s < 12) (symbols c)) FIRST_INDEX_CODES"
  "list_all (\<lambda>c. list_all (\<lambda>s. s < 6) (symbols c)) INDEX_A_CODES"
  "list_all (\<lambda>s. s < 4) (symbols INDEX_B_CODES)"
  by code_simp+

interpretation abs_level_code: adaptive_code observe_abs_level adapt_one two_ok 2 7 ABS_LEVEL_CODES
  by unfold_locales (use normative_parts(1) alphabets(1) in \<open>auto simp: list_all_iff ABS_LEVEL_CODES_def\<close>)

interpretation first_index_code:
  adaptive_code observe_first_index "adapt_two 4" "multi_ok 4" 5 12 FIRST_INDEX_CODES
proof
  show "c \<in> set normative_codes" if "c \<in> set FIRST_INDEX_CODES" for c
    using that by (rule normative_parts)
  show "length FIRST_INDEX_CODES = 5" by (simp add: FIRST_INDEX_CODES_def)
  show "s < 12" if "c \<in> set FIRST_INDEX_CODES" "s \<in> set (symbols c)" for c s
    using alphabets(2) that unfolding list_all_iff by blast
qed

interpretation index_a_code: adaptive_code observe_index "adapt_two 3" "multi_ok 3" 4 6 INDEX_A_CODES
proof
  show "c \<in> set normative_codes" if "c \<in> set INDEX_A_CODES" for c
    using that by (rule normative_parts)
  show "length INDEX_A_CODES = 4" by (simp add: INDEX_A_CODES_def)
  show "s < 6" if "c \<in> set INDEX_A_CODES" "s \<in> set (symbols c)" for c s
    using alphabets(3) that unfolding list_all_iff by blast
qed

section \<open>Levels\<close>

lemma u8_of_small: "n < 256 \<Longrightarrow> u8_of_bits n = Ok n"
  by (simp add: u8_of_bits_def)

lemma abs_escape_upholds: "upholds packet_ok abs_escape_width (\<lambda>fixed. 4 \<le> fixed \<and> fixed \<le> 29)"
  unfolding abs_escape_width_def
proof (rule upholds_bind [OF pkt.read_upholds])
  fix raw :: nat assume low: "raw < 2 ^ 4"
  have "upholds packet_ok (run_try (packet_read_bits 2) (\<lambda>raw'. run_try (pure_try (u8_of_bits raw')) (\<lambda>middle.
      let fixed = raw + 4 + middle in
      if fixed = 22 then run_try (packet_read_bits 3) (\<lambda>raw. run_try (pure_try (u8_of_bits raw)) (\<lambda>high.
        give (fixed + high))) else give fixed))) (\<lambda>fixed. 4 \<le> fixed \<and> fixed \<le> 29)"
    if "raw + 4 = 19"
  proof (rule upholds_bind [OF pkt.read_upholds])
    fix m :: nat assume m: "m < 2 ^ 2"
    have "upholds packet_ok (run_try (packet_read_bits 3) (\<lambda>raw. run_try (pure_try (u8_of_bits raw)) (\<lambda>high.
        give (22 + high)))) (\<lambda>fixed. 4 \<le> fixed \<and> fixed \<le> 29)"
      by (rule upholds_bind [OF pkt.read_upholds]) (simp_all add: u8_of_small upholds_def)
    then show "upholds packet_ok (run_try (pure_try (u8_of_bits m)) (\<lambda>middle.
        let fixed = raw + 4 + middle in
        if fixed = 22 then run_try (packet_read_bits 3) (\<lambda>raw. run_try (pure_try (u8_of_bits raw)) (\<lambda>high.
          give (fixed + high))) else give fixed)) (\<lambda>fixed. 4 \<le> fixed \<and> fixed \<le> 29)"
      using m that by (simp add: u8_of_small Let_def) (simp add: upholds_def)
  qed simp
  then show "upholds packet_ok (run_try (pure_try (u8_of_bits raw)) (\<lambda>low. let fixed = low + 4 in
      if fixed = 19 then run_try (packet_read_bits 2) (\<lambda>raw. run_try (pure_try (u8_of_bits raw)) (\<lambda>middle.
        let fixed = fixed + middle in
        if fixed = 22 then run_try (packet_read_bits 3) (\<lambda>raw. run_try (pure_try (u8_of_bits raw)) (\<lambda>high.
          give (fixed + high))) else give fixed))
      else give fixed)) (\<lambda>fixed. 4 \<le> fixed \<and> fixed \<le> 29)"
    using low by (simp add: u8_of_small Let_def) (simp add: upholds_def)
qed simp

text \<open>Levels lie between 2 and \<open>2 ^ 30 + 1\<close>, so none of the checked operations overflows.\<close>

definition level_ok :: "i32 \<Rightarrow> bool" where
  "level_ok level \<longleftrightarrow> 1 \<le> level \<and> level \<le> 2 ^ 30 + 1"

lemma escape_level:
  assumes "4 \<le> fixed" "fixed \<le> 29" "raw < 2 ^ fixed"
  shows "Option.bind (i32_checked_shl 1 fixed) (\<lambda>base. Option.bind (i32_checked_add base 2)
      (\<lambda>base. i32_checked_add base (int raw))) = Some (2 ^ fixed + 2 + int raw)"
    "2 ^ fixed + 2 + int raw \<le> 2 ^ 30 + 1"
proof -
  have p: "(2::int) ^ fixed \<le> 2 ^ 29" using assms(2) by (intro power_increasing) simp_all
  have r: "int raw < 2 ^ fixed" using assms(3) by (simp add: of_nat_less_numeral_power_cancel_iff)
  have pos: "(0::int) \<le> 2 ^ fixed" by simp
  have bound: "2 ^ fixed + int raw \<le> 1073741823"
  proof -
    have "(2::int) ^ fixed \<le> 536870912" using p by simp
    then show ?thesis using r by linarith
  qed
  have "signed_take_bit 31 ((2::int) ^ fixed) = 2 ^ fixed"
  proof (rule signed_take_bit_int_eq_self)
    show "- (2 ^ 31) \<le> (2::int) ^ fixed" by (rule order_trans [OF _ pos]) simp
    show "(2::int) ^ fixed < 2 ^ 31" by (rule le_less_trans [OF p]) simp
  qed
  then show "Option.bind (i32_checked_shl 1 fixed) (\<lambda>base. Option.bind (i32_checked_add base 2)
      (\<lambda>base. i32_checked_add base (int raw))) = Some (2 ^ fixed + 2 + int raw)"
    using p bound pos assms(2) by (simp add: i32_checked_shl_def push_bit_eq_mult i32_checked_add_def in_i32_def)
  show "2 ^ fixed + 2 + int raw \<le> 2 ^ 30 + 1" using bound by simp
qed

lemma abs_tables:
  assumes "index < 6"
  shows "ABS_FIXED_LENGTH ! index \<le> 2" "2 \<le> ABS_REMAP ! index" "ABS_REMAP ! index \<le> 14"
proof -
  have "list_all (\<lambda>i. ABS_FIXED_LENGTH ! i \<le> 2 \<and> 2 \<le> ABS_REMAP ! i \<and> ABS_REMAP ! i \<le> 14) [0..<6]"
    by code_simp
  moreover have "index \<in> set [0..<6]" using assms by (simp only: set_upt atLeastLessThan_iff zero_le)
  ultimately have "ABS_FIXED_LENGTH ! index \<le> 2 \<and> 2 \<le> ABS_REMAP ! index \<and> ABS_REMAP ! index \<le> 14"
    unfolding list_all_iff by blast
  then show "ABS_FIXED_LENGTH ! index \<le> 2" "2 \<le> ABS_REMAP ! index" "ABS_REMAP ! index \<le> 14"
    by simp_all
qed

lemma abs_level_upholds: "upholds packet_ok (abs_level_of_symbol index) level_ok"
proof (cases "index < 6")
  case True
  note t = abs_tables [OF True]
  have "upholds packet_ok (run_try (packet_read_bits (ABS_FIXED_LENGTH ! index)) (\<lambda>raw.
      run_try (pure_try (i32_of_bits raw)) (\<lambda>refinement.
      pure_try (ok_or CoefficientOverflow (i32_checked_add (ABS_REMAP ! index) refinement))))) level_ok"
  proof (rule upholds_bind [OF pkt.read_upholds])
    fix raw :: nat assume raw: "raw < 2 ^ (ABS_FIXED_LENGTH ! index)"
    have "(2::nat) ^ (ABS_FIXED_LENGTH ! index) \<le> 2 ^ 2" using t(1) by (intro power_increasing) simp_all
    then have "raw < 4" using raw by simp
    then show "upholds packet_ok (run_try (pure_try (i32_of_bits raw)) (\<lambda>refinement.
        pure_try (ok_or CoefficientOverflow (i32_checked_add (ABS_REMAP ! index) refinement)))) level_ok"
      using t(2,3) by (simp add: i32_of_bits_def i32_checked_add_def in_i32_def upholds_def level_ok_def)
  qed (use t(1) in simp)
  then show ?thesis using True by (simp add: abs_level_of_symbol_def)
next
  case False
  have "upholds packet_ok (run_try (packet_read_bits fixed) (\<lambda>raw.
      run_try (pure_try (i32_of_bits raw)) (\<lambda>refinement.
      pure_try (ok_or CoefficientOverflow
        (Option.bind (i32_checked_shl 1 fixed) (\<lambda>base.
         Option.bind (i32_checked_add base 2) (\<lambda>base. i32_checked_add base refinement))))))) level_ok"
    if fixed: "4 \<le> fixed" "fixed \<le> 29" for fixed
  proof (rule upholds_bind [OF pkt.read_upholds])
    fix raw :: nat assume raw: "raw < 2 ^ fixed"
    note e = escape_level [OF fixed raw]
    have "0 \<le> (2::int) ^ fixed" by simp
    then have "level_ok (2 ^ fixed + 2 + int raw)" using e(2) unfolding level_ok_def by linarith
    then show "upholds packet_ok (run_try (pure_try (i32_of_bits raw)) (\<lambda>refinement.
        pure_try (ok_or CoefficientOverflow (Option.bind (i32_checked_shl 1 fixed) (\<lambda>base.
          Option.bind (i32_checked_add base 2) (\<lambda>base. i32_checked_add base refinement)))))) level_ok"
      using i32_of_small_bits(1) [OF fixed(2) raw] e(1) by (simp add: upholds_def)
  qed (use fixed in simp)
  then show ?thesis using False
    by (auto simp: abs_level_of_symbol_def intro!: upholds_bind [OF abs_escape_upholds])
qed

lemma signed_level_ok:
  assumes "level_ok m"
  shows "signed_level m negative = Ok (if negative then - m else m)"
proof -
  have "in_i32 m" "in_i32 (- m)" "m \<noteq> i32_min" using assms by (auto simp: level_ok_def in_i32_def)
  moreover have "m XOR -1 = - m - 1" by (simp add: not_int_def bit.xor_one_right)
  ultimately show ?thesis by (simp add: signed_level_def Let_def wrap_i32_id)
qed

lemma level_range: "level_ok m \<Longrightarrow> in_i32 m" "level_ok m \<Longrightarrow> in_i32 (- m)"
  by (auto simp: level_ok_def in_i32_def)

section \<open>A block never panics\<close>

text \<open>The sixteen values of a block, each of the coefficient type.\<close>

definition i32_block :: "i32 list \<Rightarrow> bool" where
  "i32_block out \<longleftrightarrow> length out = 16 \<and> (\<forall>v\<in>set out. in_i32 v)"

lemma i32_block_update: "i32_block out \<Longrightarrow> in_i32 v \<Longrightarrow> i32_block (out[i := v])"
  using set_update_subset_insert [of out i v] by (auto simp: i32_block_def)

lemma i32_block_nth: "i32_block out \<Longrightarrow> i < 16 \<Longrightarrow> in_i32 (out ! i)"
  by (simp add: i32_block_def)

lemma i32_block_zero: "i32_block (replicate 16 0)"
  by (simp add: i32_block_def in_i32_def)

text \<open>Putting a selector back into the state of its band.\<close>

lemma ac_put:
  assumes "ac_ok B s" "B \<le> C"
  shows "multi_ok 4 C v \<Longrightarrow> ac_ok C (s\<lparr>ac_first_index := put_side b v (ac_first_index s)\<rparr>)"
    "multi_ok 3 C v \<Longrightarrow> ac_ok C (s\<lparr>ac_index := put_side b (put_side c v (side b (ac_index s)))
      (ac_index s)\<rparr>)"
    "two_ok C v \<Longrightarrow> ac_ok C (s\<lparr>ac_abs_level := put_side b v (ac_abs_level s)\<rparr>)"
  using ac_ok_mono [OF assms] by (simp_all add: ac_ok_def)

lemma ac_get:
  assumes "ac_ok B s"
  shows "multi_ok 4 B (side b (ac_first_index s))" "multi_ok 3 B (side c (side b (ac_index s)))"
    "two_ok B (side b (ac_abs_level s))"
  using assms by (simp_all add: ac_ok_def)

lemma abs_level_pair_leads:
  assumes "B + 2 \<le> i32_max"
  shows "leads (\<lambda>(r, v). packet_ok r \<and> two_ok B v) decode_abs_level
    (\<lambda>(r, v). packet_ok r \<and> two_ok (B + 2) v) level_ok"
  unfolding decode_abs_level_def ABS_LEVEL_def
proof (rule leads_bind [OF abs_level_code.symbol_leads [OF assms]])
  let ?I = "\<lambda>B (r, v). packet_ok r \<and> two_ok B v"
  show "leads (?I (B + 2)) (on_reader (abs_level_of_symbol index)) (?I (B + 2)) level_ok" for index
    unfolding on_reader_def using abs_level_upholds [folded leads_upholds]
    by (rule leads_on_part) auto
qed auto

text \<open>
  A sink of coefficients accepts at least sixteen of them: \<open>ok n\<close> holds of a sink that has taken at
  most \<open>n\<close>.
\<close>

locale coefficient_sink =
  fixes emit :: "'p sink" and ok :: "nat \<Rightarrow> 'p \<Rightarrow> bool"
  assumes emits: "ok n p \<Longrightarrow> n < 16 \<Longrightarrow> in_i32 v \<Longrightarrow>
      fst (emit run i v p) \<noteq> Panic \<and> ok (Suc n) (snd (emit run i v p))"
    and sink_weakens: "ok n p \<Longrightarrow> ok (Suc n) p"
begin

definition st :: "int \<Rightarrow> nat \<Rightarrow> 'p ac_state \<Rightarrow> bool" where
  "st B n = (\<lambda>(r, s, p). packet_ok r \<and> ac_ok B s \<and> ok n p)"

lemma ok_mono: "ok n p \<Longrightarrow> n \<le> m \<Longrightarrow> ok m p"
  by (induction m) (auto simp: le_Suc_eq intro: sink_weakens)

lemma st_mono: "st B n x \<Longrightarrow> B \<le> C \<Longrightarrow> n \<le> m \<Longrightarrow> st C m x"
  by (auto simp: st_def intro: ac_ok_mono ok_mono split: prod.splits)

lemma reader_leads: "upholds packet_ok m Q \<Longrightarrow> leads (st B n) (on_reader m) (st B n) Q"
  unfolding on_reader_def leads_upholds [symmetric]
  by (erule leads_on_part) (auto simp: st_def split: prod.splits)

lemma sink_leads:
  assumes "n < 16" "in_i32 v"
  shows "leads (st B n) (on_sink (emit run i v)) (st B (Suc n)) (\<lambda>_. True)"
  unfolding on_sink_def
proof (rule leads_on_part)
  show "leads (ok n) (emit run i v) (ok (Suc n)) (\<lambda>_. True)"
    by (rule leadsI) (use emits assms in auto)
qed (auto simp: st_def split: prod.splits)

lemma first_index_leads:
  assumes "B + 2 \<le> i32_max"
  shows "leads (st B n) (on_first_index chroma decode_first_index) (st (B + 2) n) (\<lambda>s. s < 12)"
  unfolding on_first_index_def decode_first_index_def FIRST_INDEX_def
  by (rule leads_on_part [OF first_index_code.symbol_leads [OF assms]])
    (auto simp: st_def ac_get intro: ac_put split: prod.splits)

lemma index_leads:
  assumes "B + 2 \<le> i32_max"
  shows "leads (st B n) (on_index chroma ctx (decode_index location)) (st (B + 2) n) (\<lambda>s. s < 6)"
  unfolding on_index_def
proof (rule leads_on_part)
  let ?I = "\<lambda>B (r, v). packet_ok r \<and> multi_ok 3 B v"
  have reader: "leads (?I B) (on_reader m) (?I (B + 2)) Q" if "upholds packet_ok m Q"
    for m and Q :: "nat \<Rightarrow> bool"
    unfolding on_reader_def using that [folded leads_upholds]
    by (rule leads_on_part) (auto intro: multi_ok_mono)
  have bit: "leads (?I B) (run_try (on_reader packet_read_bit) (\<lambda>b. give (of_bool b))) (?I (B + 2))
      (\<lambda>s. s < (6::nat))"
  proof (rule leads_bind)
    show "leads (?I B) (on_reader packet_read_bit) (?I B) (\<lambda>_. True)"
      unfolding on_reader_def using packet_read_bit_upholds [folded leads_upholds]
      by (rule leads_on_part) auto
    show "leads (?I B) (give (of_bool b)) (?I (B + 2)) (\<lambda>s. s < (6::nat))" for b
      by (rule leads_weaken [OF leads_give [of "\<lambda>s. s < (6::nat)"]]) (auto intro: multi_ok_mono)
  qed (auto intro: multi_ok_mono)
  have small: "s < 6" if "s \<in> set (symbols INDEX_B_CODES)" for s
    using that alphabets(4) by (auto simp: list_all_iff)
  have b: "upholds packet_ok (decode ''INDEX_B'' INDEX_B) (\<lambda>s. s < 6)"
    unfolding INDEX_B_def by (rule upholds_mono [OF decode_upholds [OF normative_parts(4)] small])
  show "leads (?I B) (decode_index location) (?I (B + 2)) (\<lambda>s. s < 6)"
    using index_a_code.symbol_leads [OF assms] reader [OF b] bit
    by (simp add: decode_index_def INDEX_A_def)
qed (auto simp: st_def ac_get intro: ac_put split: prod.splits)

lemma abs_level_leads:
  assumes "B + 2 \<le> i32_max"
  shows "leads (st B n) (on_abs_level ctx decode_abs_level) (st (B + 2) n) level_ok"
  unfolding on_abs_level_def
  by (rule leads_on_part [OF abs_level_pair_leads [OF assms]])
    (auto simp: st_def ac_get intro: ac_put split: prod.splits)

lemma level_leads:
  assumes "B + 2 \<le> i32_max"
  shows "leads (st B n) (if b then on_abs_level ctx decode_abs_level else give 1) (st (B + 2) n) level_ok"
proof (cases b)
  case True
  then show ?thesis using abs_level_leads [OF assms] by simp
next
  case False
  have "leads (st B n) (give 1) (st (B + 2) n) level_ok"
    by (rule leads_weaken [OF leads_give [of level_ok]]) (auto simp: level_ok_def intro: st_mono)
  then show ?thesis using False by simp
qed

text \<open>The common tail of a coefficient: sign, level and emission.\<close>

lemma emit_leads:
  assumes "level_ok m" "n < 16"
  shows "leads (st B n) (run_try (pure_try (signed_level m sign)) (\<lambda>level.
      on_sink (emit run i level))) (st B (Suc n)) (\<lambda>_. True)"
  using sink_leads [OF assms(2)] level_range [OF assms(1)] by (simp add: signed_level_ok [OF assms(1)])

lemma run_leads:
  "leads (st B n) (if b then on_reader (decode_run_cached k) else give 0) (st B n) (\<lambda>run. run \<le> 15)"
  by (cases b) (simp_all add: reader_leads [OF decode_run_cached_upholds] leads_give)

lemma advance_leads:
  "leads (st B n) (pure_try (advance_location location run)) (st B n)
    (\<lambda>next. next = location + run + 1 \<and> next \<le> 16)"
  by (rule leads_pure) (auto simp: advance_location_def Let_def split: if_splits)

end

text \<open>The rest of a turn of the loop, once run and location are known.\<close>

definition ac_rest :: "'p sink \<Rightarrow> bool \<Rightarrow> bool \<Rightarrow> nat \<Rightarrow> nat \<Rightarrow> nat \<Rightarrow> ('p ac_state, entropy_error, nat) action"
where
  "ac_rest emit chroma ctx non_zero run next =
     run_try (on_index chroma ctx (decode_index next)) (\<lambda>index.
     run_try (on_reader packet_read_bit) (\<lambda>sign.
     run_try (if odd index then on_abs_level (ctx \<and> odd (index div 2)) decode_abs_level else give 1)
       (\<lambda>magnitude.
     run_try (run_try (pure_try (signed_level magnitude sign)) (\<lambda>level.
       on_sink (emit run (next - 1) level))) (\<lambda>_.
     ac_loop emit chroma (index div 2) (ctx \<and> odd (index div 2)) next (non_zero + 1)))))"

lemma ac_loop_unfold:
  "ac_loop emit chroma successors ctx location non_zero =
     (if successors = 0 then give non_zero
      else
        run_try (if even successors then on_reader (decode_run_cached (15 - location)) else give 0)
          (\<lambda>run.
        run_try (pure_try (advance_location location run)) (\<lambda>next.
        ac_rest emit chroma ctx non_zero run next)))"
  by (rule ext) (simp add: ac_loop.simps [of emit chroma successors ctx location non_zero]
      ac_rest_def run_try_assoc Let_def)

text \<open>The first coefficient of a block, after its index and sign.\<close>

definition ac_first :: "'p sink \<Rightarrow> bool \<Rightarrow> nat \<Rightarrow> nat \<Rightarrow> bool \<Rightarrow> ('p ac_state, entropy_error, nat) action"
where
  "ac_first emit chroma start first sign =
     run_try (if odd (first div 2) then on_abs_level (odd first \<and> odd (first div 4)) decode_abs_level
       else give 1) (\<lambda>m.
     run_try (if even first then on_reader (decode_run_cached (15 - start)) else give 0) (\<lambda>run.
     run_try (pure_try (advance_location start run)) (\<lambda>next.
     run_try (run_try (pure_try (signed_level m sign)) (\<lambda>level. on_sink (emit run (next - 1) level)))
       (\<lambda>_. ac_loop emit chroma (first div 4) (odd first \<and> odd (first div 4)) next 1))))"

lemma ac_coefficients_unfold:
  "decode_ac_coefficients emit band class start =
     (if band = Dc then fail (InvalidParameter ''AC frequency band'' (int (band_index band)))
      else if \<not> (1 \<le> start \<and> start \<le> 15)
      then fail (InvalidParameter ''block start location'' (int start))
      else
        run_try (on_first_index (is_chroma class) decode_first_index) (\<lambda>first.
        run_try (on_reader packet_read_bit) (\<lambda>sign. ac_first emit (is_chroma class) start first sign)))"
  unfolding decode_ac_coefficients_def ac_first_def Let_def run_try_assoc by (rule refl)

context coefficient_sink
begin

lemma rest_leads:
  assumes "\<And>successors ctx. leads (st (B + 4) (Suc n))
      (ac_loop emit chroma successors ctx next (non_zero + 1)) (st C 16) Q"
    and "B + 4 \<le> C" "B + 4 \<le> i32_max" "n < 16"
  shows "leads (st B n) (ac_rest emit chroma ctx non_zero run next) (st C 16) Q"
  unfolding ac_rest_def
proof (rule leads_bind [OF index_leads], goal_cases)
  case (2 index)
  have tail: "leads (st (B + 2) n)
      (run_try (if odd index then on_abs_level (ctx \<and> odd (index div 2)) decode_abs_level else give 1)
       (\<lambda>magnitude. run_try (run_try (pure_try (signed_level magnitude sign)) (\<lambda>level.
         on_sink (emit run (next - 1) level))) (\<lambda>_.
       ac_loop emit chroma (index div 2) (ctx \<and> odd (index div 2)) next (non_zero + 1))))
      (st C 16) Q" for sign
  proof (rule leads_bind [OF level_leads], goal_cases)
    case (2 magnitude)
    then show ?case using assms
      by (intro leads_bind [OF emit_leads]) (auto simp: add.assoc intro: st_mono)
  qed (use assms in \<open>auto intro: st_mono\<close>)
  show ?case by (rule leads_bind [OF reader_leads [OF packet_read_bit_upholds] tail])
      (use assms in \<open>auto intro: st_mono\<close>)
qed (use assms in \<open>auto intro: st_mono\<close>)

text \<open>
  From location \<open>l\<close> at most \<open>16 - l\<close> coefficients follow, each of which moves a discriminant by at
  most four.
\<close>

lemma loop_leads:
  assumes "location \<le> 16" "n < location" "B + 4 * int (16 - location) \<le> i32_max" "non_zero \<le> n"
  shows "leads (st B n) (ac_loop emit chroma successors ctx location non_zero)
    (st (B + 4 * int (16 - location)) 16) (\<lambda>count. count \<le> 15 \<and> non_zero \<le> count)"
  using assms
proof (induction "16 - location" arbitrary: location n B successors ctx non_zero rule: less_induct)
  case less
  let ?C = "B + 4 * int (16 - location)" and ?Q = "\<lambda>count. count \<le> (15::nat) \<and> non_zero \<le> count"
  have n: "n \<le> 15" using less.prems(1,2) by simp
  show ?case
  proof (cases "successors = 0")
    case True
    have "leads (st B n) (give non_zero) (st ?C 16) ?Q"
      by (rule leads_weaken [OF leads_give [of ?Q]]) (use n less.prems(4) in \<open>auto intro: st_mono\<close>)
    then show ?thesis using True by (subst ac_loop_unfold) simp
  next
    case False
    have body: "leads (st B n) (ac_rest emit chroma ctx non_zero run next) (st ?C 16) ?Q"
      if "next = location + run + 1 \<and> next \<le> 16" for run "next"
    proof -
      have gap: "16 - next < 16 - location" "4 * int (16 - next) + 4 \<le> 4 * int (16 - location)"
        using that by auto
      have "leads (st (B + 4) (Suc n))
          (ac_loop emit chroma successors' ctx' next (non_zero + 1)) (st ?C 16) ?Q" for successors' ctx'
        by (rule leads_weaken [OF less.hyps [OF gap(1), of "Suc n" "B + 4" "non_zero + 1"]])
          (use that less.prems gap in \<open>auto intro: st_mono\<close>)
      then show ?thesis using gap less.prems(3) n by (intro rest_leads) auto
    qed
    show ?thesis
      unfolding ac_loop_unfold [of emit chroma successors ctx location non_zero] if_not_P [OF False]
    proof (rule leads_bind [OF run_leads])
      show "leads (st B n) (run_try (pure_try (advance_location location run)) (\<lambda>next.
          ac_rest emit chroma ctx non_zero run next)) (st ?C 16) ?Q" for run
        by (rule leads_bind [OF advance_leads body]) (use n in \<open>auto intro: st_mono\<close>)
    qed (use n in \<open>auto intro: st_mono\<close>)
  qed
qed

lemma first_leads:
  assumes "B + 62 \<le> i32_max" "1 \<le> start"
  shows "leads (st B 0) (ac_first emit chroma start first sign) (st (B + 62) 16)
    (\<lambda>count. 1 \<le> count \<and> count \<le> 15)"
  unfolding ac_first_def
proof (rule leads_bind [OF level_leads], goal_cases)
  case (2 m)
  let ?Q = "\<lambda>count. 1 \<le> count \<and> count \<le> (15::nat)"
  have emission: "leads (st (B + 2) 0)
      (run_try (run_try (pure_try (signed_level m sign)) (\<lambda>level. on_sink (emit run (next - 1) level)))
        (\<lambda>_. ac_loop emit chroma successors ctx next 1)) (st (B + 62) 16) ?Q"
    if "next = start + run + 1 \<and> next \<le> 16" for run "next" successors ctx
  proof -
    have "leads (st (B + 2) (Suc 0)) (ac_loop emit chroma successors ctx next 1) (st (B + 62) 16) ?Q"
      using that assms
      by (intro leads_weaken [OF loop_leads [of "next" "Suc 0" "B + 2" 1]]) (auto intro: st_mono)
    then show ?thesis using 2 by (intro leads_bind [OF emit_leads]) (auto intro: st_mono)
  qed
  have "leads (st (B + 2) 0) (run_try (pure_try (advance_location start run)) (\<lambda>next.
      run_try (run_try (pure_try (signed_level m sign)) (\<lambda>level. on_sink (emit run (next - 1) level)))
        (\<lambda>_. ac_loop emit chroma successors ctx next 1))) (st (B + 62) 16) ?Q" for run successors ctx
    by (rule leads_bind [OF advance_leads emission]) (auto intro: st_mono)
  then show ?case by (rule leads_bind [OF run_leads]) (auto intro: st_mono)
qed (use assms in \<open>auto intro: st_mono\<close>)

lemma block_leads:
  assumes "B + 64 \<le> i32_max"
  shows "leads (st B 0) (decode_ac_coefficients emit band class start) (st (B + 64) 16)
    (\<lambda>count. 1 \<le> count \<and> count \<le> 15)"
proof (cases "band = Dc \<or> \<not> (1 \<le> start \<and> start \<le> 15)")
  case True
  have "leads (st B 0) (fail e) (st (B + 64) 16) (\<lambda>count. 1 \<le> count \<and> count \<le> (15::nat))"
    for e :: entropy_error
    by (rule leads_weaken [OF leads_fail]) (auto intro: st_mono)
  then show ?thesis using True by (auto simp: ac_coefficients_unfold)
next
  case False
  have first: "leads (st (B + 2) 0) (ac_first emit (is_chroma class) start first sign) (st (B + 64) 16)
      (\<lambda>count. 1 \<le> count \<and> count \<le> 15)" for first sign
    using first_leads [of "B + 2" start] assms False by (simp add: add.assoc)
  show ?thesis using False
    by (simp add: ac_coefficients_unfold, intro leads_bind [OF first_index_leads]
        leads_bind [OF reader_leads [OF packet_read_bit_upholds] first [simplified]])
      (use assms in \<open>auto intro: st_mono\<close>)
qed

end

section \<open>The three sinks\<close>

definition push_ok :: "nat \<Rightarrow> decoded_block \<Rightarrow> bool" where
  "push_ok n block \<longleftrightarrow> length (block_entries block) = 15 \<and> block_len block \<le> n"

text \<open>A scan whose totals are at most \<open>T\<close> at the start of the block.\<close>

definition lp_sink_ok :: "int \<Rightarrow> nat \<Rightarrow> lp_scan \<times> i32 list \<Rightarrow> bool" where
  "lp_sink_ok T n = (\<lambda>(scan, out). lp_ok (T + int n) scan \<and> i32_block out \<and> T \<le> 2000000000)"

definition hp_sink_ok :: "int \<Rightarrow> nat \<Rightarrow> hp_scan \<times> i32 list \<Rightarrow> bool" where
  "hp_sink_ok T n = (\<lambda>(scan, out). hp_ok (T + int n) scan \<and> i32_block out \<and> T \<le> 2000000000)"

interpretation push: coefficient_sink push_sink push_ok
  by unfold_locales (auto simp: push_sink_def push_def push_ok_def)

interpretation lp_emit: coefficient_sink lp_sink "lp_sink_ok T" for T
proof
  fix n :: nat and p run i v assume p: "lp_sink_ok T n p" and n: "n < 16" "in_i32 v"
  obtain scan out where "p = (scan, out)" by (cases p)
  then show "fst (lp_sink run i v p) \<noteq> Panic \<and> lp_sink_ok T (Suc n) (snd (lp_sink run i v p))"
    using lp.place_upholds [of "T + int n" scan out i v] p n
    by (auto simp: lp_sink_ok_def lp_sink_def i32_block_def add.commute add.left_commute split: prod.splits)
next
  show "lp_sink_ok T (Suc n) p" if "lp_sink_ok T n p" for n p
    using that lp.weakens by (fastforce simp: lp_sink_ok_def)
qed

interpretation hp_emit: coefficient_sink "hp_sink d" "hp_sink_ok T" for d T
proof
  fix n :: nat and p run i v assume p: "hp_sink_ok T n p" and n: "n < 16" "in_i32 v"
  obtain scan out where "p = (scan, out)" by (cases p)
  then show "fst (hp_sink d run i v p) \<noteq> Panic \<and> hp_sink_ok T (Suc n) (snd (hp_sink d run i v p))"
    using hp.place_upholds [of "T + int n" scan out d i v] p n
    by (auto simp: hp_sink_ok_def hp_sink_def i32_block_def add.commute add.left_commute split: prod.splits)
next
  show "hp_sink_ok T (Suc n) p" if "hp_sink_ok T n p" for n p
    using that hp.weakens by (fastforce simp: hp_sink_ok_def)
qed

text \<open>What a direct decoder does to its reader, selectors and scan.\<close>

lemma lp_block_leads:
  assumes "B + 64 \<le> i32_max" "T \<le> 2000000000"
  shows "leads (\<lambda>(r, s, scan, out). packet_ok r \<and> ac_ok B s \<and> lp_ok T scan \<and> i32_block out)
    (decode_lp_block class start)
    (\<lambda>(r, s, scan, out). packet_ok r \<and> ac_ok (B + 64) s \<and> lp_ok (T + 16) scan \<and> i32_block out)
    (\<lambda>n. 1 \<le> n \<and> n \<le> 15)"
  unfolding decode_lp_block_def
  by (rule leads_weaken [OF lp_emit.block_leads [OF assms(1), of T]])
    (use assms(2) in \<open>auto simp: lp_emit.st_def lp_sink_ok_def\<close>)

lemma hp_block_leads:
  assumes "B + 64 \<le> i32_max" "T \<le> 2000000000"
  shows "leads (\<lambda>(r, s, scan, out). packet_ok r \<and> ac_ok B s \<and> hp_ok T scan \<and> i32_block out)
    (decode_hp_block class d)
    (\<lambda>(r, s, scan, out). packet_ok r \<and> ac_ok (B + 64) s \<and> hp_ok (T + 16) scan \<and> i32_block out)
    (\<lambda>n. 1 \<le> n \<and> n \<le> 15)"
  unfolding decode_hp_block_def
  by (rule leads_weaken [OF hp_emit.block_leads [OF assms(1), of T]])
    (use assms(2) in \<open>auto simp: hp_emit.st_def hp_sink_ok_def\<close>)

section \<open>One DC coefficient\<close>

lemma signed_level_range: "signed_level m negative \<noteq> Panic" "signed_level m negative = Ok v \<Longrightarrow> in_i32 v"
  using wrap_i32_range by (auto simp: signed_level_def Let_def split: if_splits)

lemma zero_in_i32: "in_i32 0"
  by (simp add: in_i32_def)

lemma apply_sign_upholds: "upholds packet_ok (apply_sign v) in_i32"
  unfolding apply_sign_def
  by (intro upholds_if upholds_give upholds_bind [OF packet_read_bit_upholds] upholds_pure)
    (auto intro: signed_level_range simp: signed_level_range(1) zero_in_i32)

text \<open>The steps of a decoder that work on the reader alone, and the level through its selector.\<close>

lemma dc_reader_leads:
  "upholds packet_ok m Q \<Longrightarrow> leads (\<lambda>(r, s). packet_ok r \<and> dc_ok B s) (on_reader m)
    (\<lambda>(r, s). packet_ok r \<and> dc_ok B s) Q"
  unfolding on_reader_def leads_upholds [symmetric] by (erule leads_on_part) auto

lemma dc_level_leads:
  assumes "B + 2 \<le> i32_max"
  shows "leads (\<lambda>(r, s). packet_ok r \<and> dc_ok B s) (on_dc_abs_level chroma decode_abs_level)
    (\<lambda>(r, s). packet_ok r \<and> dc_ok (B + 2) s) level_ok"
  unfolding on_dc_abs_level_def
proof (rule leads_on_part [OF abs_level_pair_leads [OF assms]])
  show "case (case s of (r, v) \<Rightarrow> (r, side chroma (dc_abs_level v))) of (r, v) \<Rightarrow> packet_ok r \<and> two_ok B v"
    if "case s of (r, v) \<Rightarrow> packet_ok r \<and> dc_ok B v" for s
    using that by (auto simp: dc_ok_def)
  show "case (case p of (r, v) \<Rightarrow> \<lambda>(_, s). (r, s\<lparr>dc_abs_level := put_side chroma v (dc_abs_level s)\<rparr>)) s of
      (r, s) \<Rightarrow> packet_ok r \<and> dc_ok (B + 2) s"
    if "case s of (r, v) \<Rightarrow> packet_ok r \<and> dc_ok B v" "case p of (r, v) \<Rightarrow> packet_ok r \<and> two_ok (B + 2) v" for s p
    using that dc_ok_mono [of B _ "B + 2"] by (auto simp: dc_ok_def)
qed

lemma dc_coefficient_leads:
  assumes "B + 2 \<le> i32_max"
  shows "leads (\<lambda>(r, s). packet_ok r \<and> dc_ok B s) (decode_dc_coefficient bits has_abs_level class)
    (\<lambda>(r, s). packet_ok r \<and> dc_ok (B + 2) s) in_i32"
proof -
  let ?I = "\<lambda>B (r, s). packet_ok r \<and> dc_ok B s"
  have mono: "?I (B + 2) s" if "?I B s" for s using that dc_ok_mono [of B _ "B + 2"] by auto
  have level: "leads (?I B) (if has_abs_level then
         run_try (on_dc_abs_level (is_chroma class) decode_abs_level) (\<lambda>level.
         pure_try (ok_or CoefficientOverflow (i32_checked_sub level 1)))
       else give 0) (?I (B + 2)) in_i32"
  proof (cases has_abs_level)
    case True
    have "leads (?I B) (run_try (on_dc_abs_level (is_chroma class) decode_abs_level) (\<lambda>level.
         pure_try (ok_or CoefficientOverflow (i32_checked_sub level 1)))) (?I (B + 2)) in_i32"
      by (rule leads_bind [OF dc_level_leads [OF assms] leads_pure]) (auto simp: outcome_simps)
    then show ?thesis using True by simp
  next
    case False
    have "leads (?I B) (give 0) (?I (B + 2)) in_i32"
      by (rule leads_weaken [OF leads_give [of in_i32]]) (use mono zero_in_i32 in auto)
    then show ?thesis using False by simp
  qed
  have low: "leads (?I (B + 2)) (if bits \<noteq> 0 then
         run_try (on_reader (packet_read_bits bits)) (\<lambda>raw.
         run_try (pure_try (i32_of_bits raw)) (\<lambda>refinement.
         pure_try (ok_or CoefficientOverflow
           (Option.bind (i32_checked_shl c bits) (\<lambda>value.
            i32_checked_add value refinement)))))
       else give c) (?I (B + 2)) in_i32" if "in_i32 c" "bits \<le> 15" for c
  proof (cases "bits = 0")
    case False
    have "bits \<le> 64" using that(2) by simp
    have "leads (?I (B + 2)) (run_try (on_reader (packet_read_bits bits)) (\<lambda>raw.
         run_try (pure_try (i32_of_bits raw)) (\<lambda>refinement.
         pure_try (ok_or CoefficientOverflow
           (Option.bind (i32_checked_shl c bits) (\<lambda>value.
            i32_checked_add value refinement)))))) (?I (B + 2)) in_i32"
      by (rule leads_bind [OF dc_reader_leads [OF pkt.read_upholds [OF \<open>bits \<le> 64\<close>]]
          leads_bind [OF leads_pure [of _ "\<lambda>_. True"] leads_pure]])
        (auto simp: i32_of_bits_def outcome_simps split: if_splits Option.bind_splits)
    then show ?thesis using False by simp
  qed (use that in \<open>simp add: leads_give\<close>)
  show ?thesis
  proof (cases "15 < bits")
    case True
    have "leads (?I B) (fail e) (?I (B + 2)) in_i32" for e :: entropy_error
      by (rule leads_weaken [OF leads_fail]) (use mono in auto)
    then show ?thesis using True by (simp add: decode_dc_coefficient_def)
  next
    case False
    have rest: "leads (?I (B + 2)) (run_try (if bits \<noteq> 0 then
           run_try (on_reader (packet_read_bits bits)) (\<lambda>raw.
           run_try (pure_try (i32_of_bits raw)) (\<lambda>refinement.
           pure_try (ok_or CoefficientOverflow
             (Option.bind (i32_checked_shl c bits) (\<lambda>value.
              i32_checked_add value refinement)))))
         else give c) (\<lambda>coefficient. on_reader (apply_sign coefficient))) (?I (B + 2)) in_i32"
      if "in_i32 c" for c
      by (rule leads_bind [OF low [OF that] dc_reader_leads [OF apply_sign_upholds]]) (use False in auto)
    show ?thesis unfolding decode_dc_coefficient_def using False
      by (simp only: if_False) (rule leads_bind [OF level rest])
  qed
qed

section \<open>Two runs that differ in the sink only\<close>

text \<open>
  \<open>matches R m m' S\<close>: from states related by \<open>R\<close> the outcomes are equal, and values lead to states
  related by \<open>S\<close>; after an error nothing is claimed of the states.
\<close>

definition matches :: "('s \<Rightarrow> 't \<Rightarrow> bool) \<Rightarrow> ('s, 'e, 'a) action \<Rightarrow> ('t, 'e, 'a) action \<Rightarrow>
    ('a \<Rightarrow> 's \<Rightarrow> 't \<Rightarrow> bool) \<Rightarrow> bool" where
  "matches R m m' S \<longleftrightarrow> (\<forall>s t. R s t \<longrightarrow> fst (m s) = fst (m' t) \<and>
     (\<forall>v. fst (m s) = Ok v \<longrightarrow> S v (snd (m s)) (snd (m' t))))"

lemma matchesD:
  assumes "matches R m m' S" "R s t" "m s = (x, s')" "m' t = (y, t')"
  shows "x = y" "x = Ok v \<Longrightarrow> S v s' t'"
  using assms unfolding matches_def by (metis fst_conv snd_conv)+

lemma matches_bind:
  assumes "matches R m m' S" "\<And>v. matches (S v) (f v) (f' v) T"
  shows "matches R (run_try m f) (run_try m' f') T"
  unfolding matches_def
proof (intro allI impI)
  fix s t assume R: "R s t"
  obtain x u y w where m: "m s = (x, u)" "m' t = (y, w)" by (cases "m s"; cases "m' t")
  have "fst (m s) = fst (m' t) \<and> (\<forall>v. fst (m s) = Ok v \<longrightarrow> S v (snd (m s)) (snd (m' t)))"
    using assms(1) R unfolding matches_def by blast
  then have xy: "x = y" "\<And>v. x = Ok v \<Longrightarrow> S v u w" using m by simp_all
  show "fst (run_try m f s) = fst (run_try m' f' t) \<and>
      (\<forall>v. fst (run_try m f s) = Ok v \<longrightarrow> T v (snd (run_try m f s)) (snd (run_try m' f' t)))"
    using assms(2) xy m by (cases y) (simp_all add: run_try_def matches_def)
qed

lemma matches_give: "(\<And>s t. R s t \<Longrightarrow> S v s t) \<Longrightarrow> matches R (give v) (give v) S"
  by (simp add: matches_def)

lemma matches_fail: "matches R (fail e) (fail e) S"
  by (simp add: matches_def)

lemma matches_pure: "(\<And>v s t. r = Ok v \<Longrightarrow> R s t \<Longrightarrow> S v s t) \<Longrightarrow> matches R (pure_try r) (pure_try r) S"
  by (simp add: matches_def)

lemma matches_weaken: "matches R m m' S \<Longrightarrow> (\<And>v s t. S v s t \<Longrightarrow> T v s t) \<Longrightarrow> matches R m m' T"
  by (auto simp: matches_def)

lemma matches_pre: "matches R m m' S \<Longrightarrow> (\<And>s t. R' s t \<Longrightarrow> R s t) \<Longrightarrow> matches R' m m' S"
  by (simp add: matches_def)

lemma matches_when: "(b \<Longrightarrow> matches R m m' S) \<Longrightarrow> matches (\<lambda>p q. R p q \<and> b) m m' S"
  by (cases b) (simp_all add: matches_def)

text \<open>The same reader and selectors, and sinks related by \<open>P\<close>.\<close>

definition same :: "('p \<Rightarrow> 'q \<Rightarrow> bool) \<Rightarrow> 'p ac_state \<Rightarrow> 'q ac_state \<Rightarrow> bool" where
  "same P = (\<lambda>(r, s, p) (r', s', p'). r = r' \<and> s = s' \<and> P p p')"

lemma same_part:
  "matches (same P) (on_reader m) (on_reader m) (\<lambda>_. same P)"
  "matches (same P) (on_first_index b n) (on_first_index b n) (\<lambda>_. same P)"
  "matches (same P) (on_index b c n) (on_index b c n) (\<lambda>_. same P)"
  "matches (same P) (on_abs_level c k) (on_abs_level c k) (\<lambda>_. same P)"
  by (auto simp: matches_def same_def on_reader_def on_first_index_def on_index_def on_abs_level_def
      on_part_def split: prod.splits)

lemma same_sink:
  assumes "\<And>p p'. P p p' \<Longrightarrow> fst (m p) = fst (m' p') \<and> Q (snd (m p)) (snd (m' p'))"
  shows "matches (same P) (on_sink m) (on_sink m') (\<lambda>_. same Q)"
  using assms by (fastforce simp: matches_def same_def on_sink_def on_part_def split: prod.splits)

section \<open>Scanning a block that was parsed first\<close>

definition span :: "run_level list \<Rightarrow> nat" where
  "span es = sum_list (map (\<lambda>e. rl_run e + 1) es)"

lemma run_try_Pair: "run_try (Pair (Ok x)) f = f x" "run_try m (\<lambda>_. Pair (Ok ())) = m"
  by (rule ext, simp add: run_try_def split: prod.split result.split)+

lemma scan_loop_snoc:
  "i + span es + rl_run e + 1 \<le> 255 \<Longrightarrow> scan_loop place (es @ [e]) i =
    run_try (scan_loop place es i) (\<lambda>_. place (i + span es + rl_run e) (rl_level e))"
proof (induction es arbitrary: i)
  case Nil
  show ?case using Nil by (simp add: span_def u8_add_def run_try_Pair)
next
  case (Cons d es)
  then show ?case by (simp add: span_def u8_add_def run_try_assoc add.assoc)
qed

context inverse_scan
begin

text \<open>
  The block so far and the direct state, which started as \<open>p0\<close>: scanning the block's entries from
  \<open>p0\<close> gives the direct state, and the next location is where the scan index has come to.
\<close>

definition parsed :: "nat \<Rightarrow> 's \<times> i32 list \<Rightarrow> nat \<Rightarrow> nat \<Rightarrow> decoded_block \<Rightarrow> 's \<times> i32 list \<Rightarrow> bool" where
  "parsed start p0 location n block p \<longleftrightarrow>
     start_location block = start \<and> length (block_entries block) = 15 \<and> block_len block = n \<and>
     location = start + span (entries block) \<and> 1 \<le> start \<and> start + n \<le> location \<and> location \<le> 16 \<and>
     scan_loop place (entries block) start p0 = (Ok (), p) \<and>
     ok (2000000000 + int n) (fst p) \<and> length (snd p) = 16"

lemma parsed_push:
  assumes "parsed start p0 location n block p" "location + run < 16"
  shows "fst (push_sink run (location + run) v block) = fst (place (location + run) v p) \<and>
    parsed start p0 (location + run + 1) (n + 1) (snd (push_sink run (location + run) v block))
      (snd (place (location + run) v p))"
proof -
  let ?e = "\<lparr>rl_run = run, rl_level = v\<rparr>" and ?i = "location + run"
  obtain scan out where p: "p = (scan, out)" by (cases p)
  note a = assms(1) [unfolded parsed_def]
  have n: "n < 15" "n < length (block_entries block)" using a assms(2) by auto
  let ?block = "block\<lparr>block_entries := (block_entries block)[n := ?e], block_len := n + 1\<rparr>"
  have push: "push_sink run ?i v block = (Ok (), ?block)"
    using n a by (simp add: push_sink_def push_def)
  have entries: "entries ?block = entries block @ [?e]"
    using n a by (simp add: entries_def take_Suc_conv_app_nth take_update_cancel)
  have ok: "ok (2000000000 + int n) scan" "length out = 16" "2000000000 + int n + 1 \<le> i32_max"
    "1 \<le> ?i" "?i \<le> 15"
    using a p n(1) assms(2) by auto
  obtain t where t: "place ?i v (scan, out) = (Ok (), t, out[order scan ! ?i := v])"
    "ok (2000000000 + int n + 1) t"
    using places [OF ok(1,2,4,5,3), of v] by blast
  have "scan_loop place (entries block @ [?e]) start p0 = (Ok (), t, out[order scan ! ?i := v])"
    using scan_loop_snoc [of start "entries block" ?e place] a assms(2) t(1)
    by (simp add: run_try_step p add.assoc)
  then show ?thesis
    using push entries a t assms(2) ok(2)
    by (simp add: parsed_def p span_def algebra_simps)
qed

lemma emission_matches:
  assumes "location + run < 16"
  shows "matches (same (parsed start p0 location n))
    (on_sink (push_sink run (location + run) v)) (on_sink (place (location + run) v))
    (\<lambda>_. same (parsed start p0 (location + run + 1) (n + 1)))"
  by (rule same_sink) (rule parsed_push [OF _ assms])

lemma level_matches:
  assumes "location + run < 16"
  shows "matches (same (parsed start p0 location n))
    (run_try (pure_try (signed_level m sign)) (\<lambda>level. on_sink (push_sink run (location + run) level)))
    (run_try (pure_try (signed_level m sign)) (\<lambda>level. on_sink (place (location + run) level)))
    (\<lambda>_. same (parsed start p0 (location + run + 1) (n + 1)))"
  by (rule matches_bind [OF matches_pure emission_matches [OF assms]])

lemma coded_matches:
  "matches (same P) (if b then on_abs_level ctx k else give 1) (if b then on_abs_level ctx k else give 1)
    (\<lambda>_. same P)"
  "matches (same P) (if b then on_reader m else give 0) (if b then on_reader m else give 0) (\<lambda>_. same P)"
  by (simp_all add: same_part matches_give)

lemma advance_matches:
  "matches (same P) (pure_try (advance_location location run)) (pure_try (advance_location location run))
    (\<lambda>next p q. same P p q \<and> next = location + run + 1 \<and> location + run < 16)"
  by (rule matches_pure) (simp add: advance_location_Ok)

definition done_with :: "nat \<Rightarrow> 's \<times> i32 list \<Rightarrow> nat \<Rightarrow> decoded_block \<Rightarrow> 's \<times> i32 list \<Rightarrow> bool" where
  "done_with start p0 num block p \<longleftrightarrow> (\<exists>location. parsed start p0 location num block p)"

lemma rest_matches:
  assumes "\<And>successors ctx. matches (same (parsed start p0 next (n + 1)))
      (ac_loop push_sink chroma successors ctx next (n + 1))
      (ac_loop (\<lambda>_. place) chroma successors ctx next (n + 1)) (\<lambda>num. same (done_with start p0 num))"
    and "next = location + run + 1" "location + run < 16"
  shows "matches (same (parsed start p0 location n)) (ac_rest push_sink chroma ctx n run next)
    (ac_rest (\<lambda>_. place) chroma ctx n run next) (\<lambda>num. same (done_with start p0 num))"
proof -
  have "next - 1 = location + run" using assms(2) by simp
  then show ?thesis
    unfolding ac_rest_def
    by (simp only:) (intro matches_bind [OF same_part(3)] matches_bind [OF same_part(1)]
        matches_bind [OF coded_matches(1)] matches_bind [OF level_matches [OF assms(3)]]
        assms(1) [unfolded assms(2)] | simp only: assms(2))+
qed

lemma loop_matches:
  "matches (same (parsed start p0 location n)) (ac_loop push_sink chroma successors ctx location n)
    (ac_loop (\<lambda>_. place) chroma successors ctx location n) (\<lambda>num. same (done_with start p0 num))"
proof (induction "16 - location" arbitrary: location n successors ctx rule: less_induct)
  case less
  show ?case
  proof (cases "successors = 0")
    case True
    have "matches (same (parsed start p0 location n)) (give n) (give n)
        (\<lambda>num. same (done_with start p0 num))"
      by (rule matches_give) (auto simp: same_def done_with_def)
    then show ?thesis using True by (subst (1 2) ac_loop_unfold) simp
  next
    case False
    have body: "matches (\<lambda>p q. same (parsed start p0 location n) p q \<and> next = location + run + 1 \<and>
          location + run < 16) (ac_rest push_sink chroma ctx n run next)
        (ac_rest (\<lambda>_. place) chroma ctx n run next) (\<lambda>num. same (done_with start p0 num))"
      for run "next"
    proof (rule matches_when)
      assume b: "next = location + run + 1 \<and> location + run < 16"
      then have "16 - next < 16 - location" by auto
      note IH = less [OF this, of "n + 1"]
      show "matches (same (parsed start p0 location n)) (ac_rest push_sink chroma ctx n run next)
        (ac_rest (\<lambda>_. place) chroma ctx n run next) (\<lambda>num. same (done_with start p0 num))"
        using b by (intro rest_matches [OF IH]) simp_all
    qed
    have "matches (same (parsed start p0 location n))
        (run_try (pure_try (advance_location location run)) (\<lambda>next. ac_rest push_sink chroma ctx n run next))
        (run_try (pure_try (advance_location location run)) (\<lambda>next. ac_rest (\<lambda>_. place) chroma ctx n run next))
        (\<lambda>num. same (done_with start p0 num))" for run
      by (rule matches_bind [OF advance_matches body])
    then show ?thesis
      unfolding ac_loop_unfold [of _ chroma successors ctx location n] if_not_P [OF False]
      by (rule matches_bind [OF coded_matches(2)])
  qed
qed

lemma first_emission_matches:
  "matches (\<lambda>p q. same (parsed start p0 start 0) p q \<and> next = start + run + 1 \<and> start + run < 16)
    (run_try (run_try (pure_try (signed_level m sign)) (\<lambda>level. on_sink (push_sink run (next - 1) level)))
      (\<lambda>_. ac_loop push_sink chroma successors ctx next 1))
    (run_try (run_try (pure_try (signed_level m sign)) (\<lambda>level. on_sink (place (next - 1) level)))
      (\<lambda>_. ac_loop (\<lambda>_. place) chroma successors ctx next 1))
    (\<lambda>num. same (done_with start p0 num))"
proof (rule matches_when)
  assume "next = start + run + 1 \<and> start + run < 16"
  then have b: "start + run < 16" "next = start + run + 1" "next - 1 = start + run" by simp_all
  note loop = loop_matches [where n = "0 + 1", unfolded add_0]
  show "matches (same (parsed start p0 start 0))
      (run_try (run_try (pure_try (signed_level m sign)) (\<lambda>level. on_sink (push_sink run (next - 1) level)))
        (\<lambda>_. ac_loop push_sink chroma successors ctx next 1))
      (run_try (run_try (pure_try (signed_level m sign)) (\<lambda>level. on_sink (place (next - 1) level)))
        (\<lambda>_. ac_loop (\<lambda>_. place) chroma successors ctx next 1))
      (\<lambda>num. same (done_with start p0 num))"
    unfolding b(3) unfolding b(2)
    by (rule matches_bind [OF level_matches [OF b(1), of start p0 0, unfolded add_0] loop])
qed

lemma first_matches:
  "matches (same (parsed start p0 start 0)) (ac_first push_sink chroma start first sign)
    (ac_first (\<lambda>_. place) chroma start first sign) (\<lambda>num. same (done_with start p0 num))"
  unfolding ac_first_def
  by (intro matches_bind [OF coded_matches(1)] matches_bind [OF coded_matches(2)]
      matches_bind [OF advance_matches first_emission_matches])

lemma block_matches:
  "matches (same (parsed start p0 start 0)) (decode_ac_coefficients push_sink band class start)
    (decode_ac_coefficients (\<lambda>_. place) band class start) (\<lambda>num. same (done_with start p0 num))"
proof -
  have "matches (same (parsed start p0 start 0))
      (run_try (on_first_index chroma decode_first_index) (\<lambda>first.
        run_try (on_reader packet_read_bit) (\<lambda>sign. ac_first push_sink chroma start first sign)))
      (run_try (on_first_index chroma decode_first_index) (\<lambda>first.
        run_try (on_reader packet_read_bit) (\<lambda>sign. ac_first (\<lambda>_. place) chroma start first sign)))
      (\<lambda>num. same (done_with start p0 num))" for chroma
    by (intro matches_bind [OF same_part(2)] matches_bind [OF same_part(1) first_matches])
  then show ?thesis unfolding ac_coefficients_unfold by (simp add: matches_fail)
qed

text \<open>Parsing into a block and scanning it is parsing with placements.\<close>

lemma direct_decoding:
  assumes "ok 2000000000 scan" "length out = 16"
  shows "case decode_ac_block band class start (r, s) of
      (Ok block, r', s') \<Rightarrow> \<exists>p. decode_ac_coefficients (\<lambda>_. place) band class start (r, s, scan, out) =
          (Ok (non_zero_count block), r', s', p) \<and> scan_entries place block (scan, out) = (Ok (), p)
    | (Err e, _) \<Rightarrow> fst (decode_ac_coefficients (\<lambda>_. place) band class start (r, s, scan, out)) = Err e
    | (Panic, _) \<Rightarrow>
        fst (decode_ac_coefficients (\<lambda>_. place) band class start (r, s, scan, out)) = Panic"
proof (cases "band = Dc \<or> \<not> (1 \<le> start \<and> start \<le> 15)")
  case True
  then show ?thesis by (auto simp: decode_ac_block_def ac_coefficients_unfold)
next
  case False
  let ?block = "\<lparr>block_entries = replicate 15 \<lparr>rl_run = 0, rl_level = 0\<rparr>, block_len = 0,
    start_location = start\<rparr>"
  have "parsed start (scan, out) start 0 ?block (scan, out)"
    using assms False by (simp add: parsed_def entries_def span_def)
  then have start: "same (parsed start (scan, out) start 0) (r, s, ?block) (r, s, scan, out)"
    by (simp add: same_def)
  obtain x r1 s1 b where block: "decode_ac_coefficients push_sink band class start (r, s, ?block) =
      (x, r1, s1, b)" by (metis surj_pair)
  obtain y r2 s2 p where direct: "decode_ac_coefficients (\<lambda>_. place) band class start (r, s, scan, out) =
      (y, r2, s2, p)" by (metis surj_pair)
  have xy: "x = y" "\<And>n. x = Ok n \<Longrightarrow> same (done_with start (scan, out) n) (r1, s1, b) (r2, s2, p)"
    using matchesD [OF block_matches start block direct] by simp_all
  show ?thesis
  proof (cases x)
    case (Ok n)
    then have "r1 = r2" "s1 = s2" "done_with start (scan, out) n b p" using xy(2) by (simp_all add: same_def)
    then show ?thesis using block direct xy(1) Ok
      by (auto simp: decode_ac_block_def done_with_def parsed_def scan_entries_def non_zero_count_def)
  qed (use block direct xy(1) in \<open>simp_all add: decode_ac_block_def\<close>)
qed

end

section \<open>Properties\<close>

text \<open>
  C8: block decoding is safe. From any reachable packet reader, selectors with room for 64 more
  counts and any reachable scan, decoding a block terminates without a panic for every band, class
  and start location; the reader and the selectors stay valid, a discriminant moves by at most 64, a
  parsed block holds at most fifteen coefficients, and the direct decoders return between one and
  fifteen, leave the scan a permutation and keep the sixteen values in the coefficient type.
\<close>

theorem block_decoding_safe:
  assumes "packet_ok r" "ac_ok B s" "B + 64 \<le> i32_max" "i32_block out"
  shows "(case decode_ac_block band class start (r, s) of (x, r', s') \<Rightarrow>
      x \<noteq> Panic \<and> packet_ok r' \<and> ac_ok (B + 64) s' \<and>
      (\<forall>block. x = Ok block \<longrightarrow> length (entries block) \<le> 15)) \<and>
    (lp_ok 2000000000 scan \<longrightarrow> (case decode_lp_block class start (r, s, scan, out) of
      (x, r', s', scan', out') \<Rightarrow> x \<noteq> Panic \<and> packet_ok r' \<and> ac_ok (B + 64) s' \<and>
        permutes (lp_order scan') \<and> i32_block out' \<and> (\<forall>n. x = Ok n \<longrightarrow> 1 \<le> n \<and> n \<le> 15))) \<and>
    (hp_ok 2000000000 hscan \<longrightarrow> (case decode_hp_block class d (r, s, hscan, out) of
      (x, r', s', scan', out') \<Rightarrow> x \<noteq> Panic \<and> packet_ok r' \<and> ac_ok (B + 64) s' \<and>
        permutes (hp_order d scan') \<and> i32_block out' \<and> (\<forall>n. x = Ok n \<longrightarrow> 1 \<le> n \<and> n \<le> 15)))"
proof (intro conjI impI)
  let ?block = "\<lparr>block_entries = replicate 15 \<lparr>rl_run = 0, rl_level = 0\<rparr>, block_len = 0,
    start_location = start\<rparr>"
  have st: "push.st B 0 (r, s, ?block)" using assms(1,2) by (simp add: push.st_def push_ok_def)
  obtain x r' s' b where run: "decode_ac_coefficients push_sink band class start (r, s, ?block) =
      (x, r', s', b)" by (metis surj_pair)
  show "case decode_ac_block band class start (r, s) of (x, r', s') \<Rightarrow>
      x \<noteq> Panic \<and> packet_ok r' \<and> ac_ok (B + 64) s' \<and>
      (\<forall>block. x = Ok block \<longrightarrow> length (entries block) \<le> 15)"
    using leadsD(1,2) [OF push.block_leads [OF assms(3)] st run] run
    by (cases x) (auto simp: push.st_def push_ok_def decode_ac_block_def entries_def)
next
  assume scan: "lp_ok 2000000000 scan"
  obtain x r' s' scan' out' where run: "decode_lp_block class start (r, s, scan, out) =
      (x, r', s', scan', out')" by (metis surj_pair)
  show "case decode_lp_block class start (r, s, scan, out) of (x, r', s', scan', out') \<Rightarrow>
      x \<noteq> Panic \<and> packet_ok r' \<and> ac_ok (B + 64) s' \<and>
      permutes (lp_order scan') \<and> i32_block out' \<and> (\<forall>n. x = Ok n \<longrightarrow> 1 \<le> n \<and> n \<le> 15)"
    using leadsD [OF lp_block_leads [OF assms(3), of 2000000000] _ run] run scan assms lp.order_permutes by auto
next
  assume scan: "hp_ok 2000000000 hscan"
  obtain x r' s' scan' out' where run: "decode_hp_block class d (r, s, hscan, out) =
      (x, r', s', scan', out')" by (metis surj_pair)
  show "case decode_hp_block class d (r, s, hscan, out) of (x, r', s', scan', out') \<Rightarrow>
      x \<noteq> Panic \<and> packet_ok r' \<and> ac_ok (B + 64) s' \<and>
      permutes (hp_order d scan') \<and> i32_block out' \<and> (\<forall>n. x = Ok n \<longrightarrow> 1 \<le> n \<and> n \<le> 15)"
    using leadsD [OF hp_block_leads [OF assms(3), of 2000000000] _ run] run scan assms hp.order_permutes by auto
qed

lemma block_decoding_safe_witness:
  "fst (decode_lp_block Luma 1 (packet_new [0xA5, 0x3C], ac_vlc_new, lp_scan_new, replicate 16 0)) \<noteq> Panic"
  using block_decoding_safe [of "packet_new [0xA5, 0x3C]" 0 ac_vlc_new "replicate 16 0" Highpass Luma 1
      lp_scan_new hp_scan_new Horizontal]
    packet_new_ok [of "[0xA5, 0x3C]"] ac_vlc_new_ok lp.weakens [OF lp_new_ok] i32_block_zero
  by (auto split: prod.splits)

text \<open>
  C9: direct decoding equals parsing first and scanning afterwards. For any reader, selectors, class
  and start location, \<open>decode_lp_block\<close> has the outcome of \<open>decode_ac_block\<close>; when the block parses,
  both leave the same reader and selectors, the direct decoder returns the number of entries of the
  block, and \<open>inverse_scan_lp\<close> on that block gives the scan and output that the direct decoder left.
  The same holds for \<open>decode_hp_block\<close> and \<open>inverse_scan_hp\<close> in both directions.
\<close>

theorem direct_equals_materialised:
  assumes "length out = 16"
  shows "(lp_ok 2000000000 scan \<longrightarrow> (case decode_ac_block Lowpass class start (r, s) of
      (Ok block, r', s') \<Rightarrow> \<exists>p. decode_lp_block class start (r, s, scan, out) =
        (Ok (non_zero_count block), r', s', p) \<and> inverse_scan_lp block (scan, out) = (Ok (), p)
    | (Err e, _) \<Rightarrow> fst (decode_lp_block class start (r, s, scan, out)) = Err e
    | (Panic, _) \<Rightarrow> fst (decode_lp_block class start (r, s, scan, out)) = Panic)) \<and>
    (hp_ok 2000000000 hscan \<longrightarrow> (case decode_ac_block Highpass class 1 (r, s) of
      (Ok block, r', s') \<Rightarrow> \<exists>p. decode_hp_block class d (r, s, hscan, out) =
        (Ok (non_zero_count block), r', s', p) \<and> inverse_scan_hp d block (hscan, out) = (Ok (), p)
    | (Err e, _) \<Rightarrow> fst (decode_hp_block class d (r, s, hscan, out)) = Err e
    | (Panic, _) \<Rightarrow> fst (decode_hp_block class d (r, s, hscan, out)) = Panic))"
proof -
  have sinks: "lp_sink = (\<lambda>_. lp_place)" "hp_sink d = (\<lambda>_. hp_place d)" for d
    by (intro ext, simp add: lp_sink_def, intro ext, simp add: hp_sink_def)
  show ?thesis
    using lp.direct_decoding [OF _ assms, of scan Lowpass "class" start r s]
      hp.direct_decoding [OF _ assms, of hscan d Highpass "class" 1 r s]
    unfolding decode_lp_block_def decode_hp_block_def inverse_scan_lp_def inverse_scan_hp_def sinks
    by blast
qed

lemma direct_equals_materialised_witness:
  "case decode_ac_block Lowpass Luma 1 (packet_new [0x4A, 0xA5], ac_vlc_new) of
      (Ok block, r', s') \<Rightarrow> \<exists>p. decode_lp_block Luma 1
          (packet_new [0x4A, 0xA5], ac_vlc_new, lp_scan_new, replicate 16 0) =
        (Ok (non_zero_count block), r', s', p) \<and>
        inverse_scan_lp block (lp_scan_new, replicate 16 0) = (Ok (), p)
    | (Err e, _) \<Rightarrow> fst (decode_lp_block Luma 1
        (packet_new [0x4A, 0xA5], ac_vlc_new, lp_scan_new, replicate 16 0)) = Err e
    | (Panic, _) \<Rightarrow> fst (decode_lp_block Luma 1
        (packet_new [0x4A, 0xA5], ac_vlc_new, lp_scan_new, replicate 16 0)) = Panic"
  using direct_equals_materialised [of "replicate 16 0" lp_scan_new Luma 1
      "packet_new [0x4A, 0xA5]" ac_vlc_new hp_scan_new Horizontal]
    lp.weakens [OF lp_new_ok] by simp

end
