(* ===== verification/Tile_Quantizer.thy ===== *)
theory Tile_Quantizer
  imports Header Packet_Reader
begin

text \<open>
  The quantizer headers of a tile (\<open>crates/jxr-native/src/tile_decode/quantizer.rs\<close>): the tables that
  a tile packet carries or inherits from the plane header, the per-macroblock indices into them, and
  the step that a quantization parameter stands for. \<open>tile_decode/error.rs\<close> gives the error type.
\<close>

datatype tile_decode_error =
    PacketRangeOutsideInput nat nat nat
  | InvalidStartCode nat
  | InvalidPlan string
  | InvalidQuantizerIndex nat nat
  | ArithmeticOverflow string
  | UnsupportedSyntax string
  | Entropy entropy_error

text \<open>\<open>?\<close> on an entropy read converts its error.\<close>

type_synonym 'a tile_decoder = "(packet_reader, tile_decode_error, 'a) action"

definition from_entropy :: "'a decoder \<Rightarrow> 'a tile_decoder" where
  "from_entropy m r = (case m r of (x, t) \<Rightarrow> (map_err Entropy x, t))"

section \<open>Tables\<close>

record tile_quantizers =
  tq_components :: nat
  tq_dc :: "nat list"
  tq_low_pass :: "nat list"
  tq_high_pass :: "nat list"
  lp_inherits_dc :: bool
  hp_inherits_lp :: bool

definition read_qp :: "nat tile_decoder" where
  "read_qp = run_try (from_entropy (packet_read_bits 8)) (\<lambda>qp.
     if qp < 2 ^ 8 then give qp else fail (ArithmeticOverflow ''QP value''))"

definition parse_set :: "nat \<Rightarrow> nat list tile_decoder" where
  "parse_set n =
     run_try
       (if n = 1 then give 0
        else run_try (from_entropy (packet_read_bits 2)) (\<lambda>mode.
          if mode < 2 ^ 8 then give mode else fail (ArithmeticOverflow ''QP component mode'')))
     (\<lambda>mode.
       if mode = 0 then run_try read_qp (\<lambda>qp. give (replicate n qp))
       else if mode = 1 then
         run_try read_qp (\<lambda>luma. run_try read_qp (\<lambda>chroma.
           if n = 0 then pure_try Panic else give ((replicate n chroma)[0 := luma])))
       else if mode = 2 then collect_try n read_qp []
       else fail (UnsupportedSyntax ''reserved QP component mode''))"

fun extend_sets :: "nat \<Rightarrow> nat \<Rightarrow> nat list \<Rightarrow> nat list tile_decoder" where
  "extend_sets n 0 values = give values"
| "extend_sets n (Suc count) values =
     run_try (parse_set n) (\<lambda>set. extend_sets n count (values @ set))"

definition parse_sets :: "nat \<Rightarrow> nat \<Rightarrow> nat list tile_decoder" where
  "parse_sets n count =
     (if usize_max < count * n then fail (ArithmeticOverflow ''QP table capacity'')
      else extend_sets n count [])"

definition parse_low_pass :: "image_plane_header \<Rightarrow> nat list \<Rightarrow> (nat list \<times> bool) tile_decoder" where
  "parse_low_pass plane dc =
     (if bands_present plane = 3 then give (dc, True)
      else case lp_quantizers plane of
        Some values \<Rightarrow> give (values, False)
      | None \<Rightarrow>
          run_try (from_entropy packet_read_bit) (\<lambda>inherits.
          if inherits then give (dc, True)
          else run_try (from_entropy (packet_read_bits 4)) (\<lambda>count.
            if usize_max < count + 1 then fail (ArithmeticOverflow ''LP QP count'')
            else run_try (parse_sets (components plane) (count + 1)) (\<lambda>sets. give (sets, False)))))"

definition parse_high_pass :: "image_plane_header \<Rightarrow> nat list \<Rightarrow> (nat list \<times> bool) tile_decoder" where
  "parse_high_pass plane low_pass =
     (if bands_present plane \<ge> 2 then give (low_pass, True)
      else case hp_quantizers plane of
        Some values \<Rightarrow> give (values, False)
      | None \<Rightarrow>
          run_try (from_entropy packet_read_bit) (\<lambda>inherits.
          if inherits then give (low_pass, True)
          else run_try (from_entropy (packet_read_bits 4)) (\<lambda>count.
            if usize_max < count + 1 then fail (ArithmeticOverflow ''HP QP count'')
            else run_try (parse_sets (components plane) (count + 1)) (\<lambda>sets. give (sets, False)))))"

definition dc_table :: "image_plane_header \<Rightarrow> nat list tile_decoder" where
  "dc_table plane =
     (case dc_quantizers plane of Some values \<Rightarrow> give values | None \<Rightarrow> parse_set (components plane))"

text \<open>Spatial mode: one header for all bands.\<close>

definition parse_tile_quantizers :: "image_plane_header \<Rightarrow> tile_quantizers tile_decoder" where
  "parse_tile_quantizers plane =
     run_try (dc_table plane) (\<lambda>dc.
     run_try (parse_low_pass plane dc) (\<lambda>(low_pass, lp_inherits).
     run_try (parse_high_pass plane low_pass) (\<lambda>(high_pass, hp_inherits).
     give \<lparr>tq_components = components plane, tq_dc = dc, tq_low_pass = low_pass,
       tq_high_pass = high_pass, lp_inherits_dc = lp_inherits, hp_inherits_lp = hp_inherits\<rparr>)))"

text \<open>Frequency mode: each band has a packet of its own, with its part of the header.\<close>

definition parse_dc_packet :: "image_plane_header \<Rightarrow> tile_quantizers tile_decoder" where
  "parse_dc_packet plane =
     run_try (dc_table plane) (\<lambda>dc.
     give \<lparr>tq_components = components plane, tq_dc = dc, tq_low_pass = dc, tq_high_pass = dc,
       lp_inherits_dc = True, hp_inherits_lp = True\<rparr>)"

definition parse_low_pass_packet ::
  "image_plane_header \<Rightarrow> tile_quantizers \<Rightarrow> tile_quantizers tile_decoder" where
  "parse_low_pass_packet plane q =
     run_try (parse_low_pass plane (tq_dc q)) (\<lambda>(low_pass, inherits).
     give (q\<lparr>tq_low_pass := low_pass, lp_inherits_dc := inherits\<rparr>))"

definition parse_high_pass_packet ::
  "image_plane_header \<Rightarrow> tile_quantizers \<Rightarrow> tile_quantizers tile_decoder" where
  "parse_high_pass_packet plane q =
     run_try (parse_high_pass plane (tq_low_pass q)) (\<lambda>(high_pass, inherits).
     give (q\<lparr>tq_high_pass := high_pass, hp_inherits_lp := inherits\<rparr>))"

section \<open>Indices\<close>

record quantizer_indices =
  qi_lp :: nat
  qi_hp :: nat

definition qp_index_bits :: "nat \<Rightarrow> nat" where
  "qp_index_bits table_length =
     (if table_length \<in> {2..3} then 1 else if table_length \<in> {4..5} then 2
      else if table_length \<in> {6..9} then 3 else if table_length \<in> {10..16} then 4 else 0)"

definition decode_qp_index :: "nat \<Rightarrow> nat tile_decoder" where
  "decode_qp_index table_length =
     (if 2 ^ 8 \<le> table_length then fail (ArithmeticOverflow ''QP table length'')
      else if table_length = 0 \<or> table_length > 16 then fail (InvalidPlan ''QP table length'')
      else run_try (from_entropy packet_read_bit) (\<lambda>coded.
        if \<not> coded then give 0
        else run_try (from_entropy (packet_read_bits (qp_index_bits table_length))) (\<lambda>v.
          let index = v + 1 in
          if 2 ^ 8 \<le> index then fail (ArithmeticOverflow ''QP index'')
          else if index \<ge> table_length then fail (InvalidQuantizerIndex table_length index)
          else give index)))"

definition low_pass_index :: "tile_quantizers \<Rightarrow> nat tile_decoder" where
  "low_pass_index q =
     (if tq_components q = 0 then pure_try Panic
      else let sets = length (tq_low_pass q) div tq_components q in
        if lp_inherits_dc q \<or> sets = 1 then give 0 else decode_qp_index sets)"

definition high_pass_index :: "tile_quantizers \<Rightarrow> nat \<Rightarrow> nat tile_decoder" where
  "high_pass_index q lp =
     (if tq_components q = 0 then pure_try Panic
      else let sets = length (tq_high_pass q) div tq_components q in
        if hp_inherits_lp q then give lp
        else if sets = 1 then give 0 else decode_qp_index sets)"

definition macroblock_indices :: "tile_quantizers \<Rightarrow> quantizer_indices tile_decoder" where
  "macroblock_indices q =
     run_try (low_pass_index q) (\<lambda>lp. run_try (high_pass_index q lp) (\<lambda>hp.
     give \<lparr>qi_lp = lp, qi_hp = hp\<rparr>))"

section \<open>Steps\<close>

record reconstruction_quantizers =
  rq_dc :: nat
  rq_low_pass :: nat
  rq_high_pass :: nat

definition table_component ::
  "nat list \<Rightarrow> nat \<Rightarrow> nat \<Rightarrow> nat \<Rightarrow> (tile_decode_error, nat) result" where
  "table_component table set_index n component =
     (let index = set_index * n + component in
      if set_index * n \<le> usize_max \<and> index \<le> usize_max \<and> index < length table
      then Ok (table ! index) else Err (InvalidPlan ''component quantizer table index''))"

definition u32_checked_shl :: "nat \<Rightarrow> nat \<Rightarrow> nat option" where
  "u32_checked_shl x n = (if n < 32 then Some (take_bit 32 (push_bit n x)) else None)"

definition quant_map :: "nat \<Rightarrow> bool \<Rightarrow> nat \<Rightarrow> (tile_decode_error, nat) result" where
  "quant_map qp is_scaled scaled_shift =
     (if qp = 0 then Ok 1
      else
        let (mantissa, exponent) =
          (if is_scaled then
             (if qp < 16 then (qp, scaled_shift)
              else (16 + qp mod 16, drop_bit 4 qp - 1 + scaled_shift))
           else if qp < 32 then (drop_bit 2 (qp + 3), 0)
           else if qp < 48 then ((17 + qp mod 16) div 2, drop_bit 4 qp - 2)
           else (16 + qp mod 16, drop_bit 4 qp - 3))
        in ok_or (ArithmeticOverflow ''quantizer scaling'') (u32_checked_shl mantissa exponent))"

definition reconstruction_steps_for ::
  "nat \<Rightarrow> quantizer_indices \<Rightarrow> bool \<Rightarrow> tile_quantizers \<Rightarrow>
    (tile_decode_error, reconstruction_quantizers) result" where
  "reconstruction_steps_for component indices is_scaled q =
     (if component \<ge> tq_components q then Err (InvalidPlan ''quantizer component index'')
      else
        let_try (table_component (tq_dc q) 0 (tq_components q) component) (\<lambda>dc.
        let_try (table_component (tq_low_pass q) (qi_lp indices) (tq_components q) component) (\<lambda>lp.
        let_try (table_component (tq_high_pass q) (qi_hp indices) (tq_components q) component) (\<lambda>hp.
        let low_band_shift = of_bool (component = 0) in
        let_try (quant_map dc is_scaled low_band_shift) (\<lambda>dc_step.
        let_try (quant_map lp is_scaled low_band_shift) (\<lambda>lp_step.
        let_try (quant_map hp is_scaled 1) (\<lambda>hp_step.
        Ok \<lparr>rq_dc = dc_step, rq_low_pass = lp_step, rq_high_pass = hp_step\<rparr>)))))))"

definition reconstruction_steps ::
  "quantizer_indices \<Rightarrow> bool \<Rightarrow> tile_quantizers \<Rightarrow>
    (tile_decode_error, reconstruction_quantizers) result" where
  "reconstruction_steps indices is_scaled q = reconstruction_steps_for 0 indices is_scaled q"

section \<open>Tables stay well-formed\<close>

definition table_ok :: "nat \<Rightarrow> nat \<Rightarrow> nat list \<Rightarrow> bool" where
  "table_ok n sets vs \<longleftrightarrow> length vs = sets * n \<and> (\<forall>qp\<in>set vs. qp < 256)"

definition sets_ok :: "nat \<Rightarrow> nat list \<Rightarrow> bool" where
  "sets_ok n table \<longleftrightarrow> (\<exists>k. 1 \<le> k \<and> k \<le> 16 \<and> table_ok n k table)"

lemma one_set: "table_ok n 1 table \<Longrightarrow> sets_ok n table"
  unfolding sets_ok_def by (rule exI [of _ 1]) simp

definition lp_valid :: "nat \<Rightarrow> tile_quantizers \<Rightarrow> bool" where
  "lp_valid n q \<longleftrightarrow> tq_components q = n \<and> table_ok n 1 (tq_dc q) \<and>
     sets_ok n (tq_low_pass q) \<and> (lp_inherits_dc q \<longrightarrow> table_ok n 1 (tq_low_pass q))"

definition hp_valid :: "nat \<Rightarrow> tile_quantizers \<Rightarrow> bool" where
  "hp_valid n q \<longleftrightarrow> sets_ok n (tq_high_pass q) \<and>
     (hp_inherits_lp q \<longrightarrow> tq_high_pass q = tq_low_pass q)"

definition plane_ok :: "image_plane_header \<Rightarrow> bool" where
  "plane_ok plane \<longleftrightarrow> 1 \<le> components plane \<and> components plane < 2 ^ 16 \<and>
     quantizers_ok (components plane) (dc_quantizers plane) \<and>
     quantizers_ok (components plane) (lp_quantizers plane) \<and>
     quantizers_ok (components plane) (hp_quantizers plane)"

lemma plane_header_plane_ok: "plane_header_ok depth plane \<Longrightarrow> plane_ok plane"
  by (auto simp: plane_header_ok_def plane_ok_def)

lemma quantizers_ok_table: "quantizers_ok n (Some vs) \<Longrightarrow> table_ok n 1 vs"
  by (auto simp: quantizers_ok_def table_ok_def list_all_iff)

lemma from_entropy_upholds: "upholds I m Q \<Longrightarrow> upholds I (from_entropy m) Q"
  unfolding upholds_def from_entropy_def by (fastforce split: prod.splits result.splits)

lemma from_entropy_give [simp]: "from_entropy (give v) = give v"
  by (rule ext) (simp add: from_entropy_def)

lemma qp_bits_upholds: "n \<le> 64 \<Longrightarrow> upholds packet_ok (from_entropy (packet_read_bits n)) (\<lambda>v. v < 2 ^ n)"
  by (intro from_entropy_upholds pkt.read_upholds)

lemma qp_bit_upholds: "upholds packet_ok (from_entropy packet_read_bit) (\<lambda>_. True)"
  unfolding packet_read_bit_def
  by (intro from_entropy_upholds upholds_bind [OF pkt.read_upholds] upholds_give) simp_all

lemma read_qp_upholds: "upholds packet_ok read_qp (\<lambda>v. v < 256)"
  unfolding read_qp_def by (intro upholds_bind [OF qp_bits_upholds] upholds_if) auto

lemma parse_set_upholds:
  assumes "1 \<le> n"
  shows "upholds packet_ok (parse_set n) (table_ok n 1)"
  unfolding parse_set_def
proof (rule upholds_bind [where P = "\<lambda>_. True"])
  show "upholds packet_ok (if n = 1 then give 0
      else run_try (from_entropy (packet_read_bits 2)) (\<lambda>mode. if mode < 2 ^ 8 then give mode
        else fail (ArithmeticOverflow ''QP component mode''))) (\<lambda>_. True)"
    by (intro upholds_if upholds_bind [OF qp_bits_upholds] upholds_give upholds_fail) simp_all
  have one: "table_ok n 1 (replicate n qp)" if "qp < 256" for qp
    using that by (simp add: table_ok_def)
  have two: "table_ok n 1 ((replicate n chroma)[0 := luma])" if "luma < 256" "chroma < 256" for luma chroma
    using that set_update_subset_insert [of "replicate n chroma" 0 luma]
    by (fastforce simp: table_ok_def)
  have each: "upholds packet_ok (collect_try n read_qp []) (table_ok n 1)"
    using upholds_collect [OF read_qp_upholds, of "[]" n] by (rule upholds_mono) (auto simp: table_ok_def)
  show "upholds packet_ok (if mode = 0 then run_try read_qp (\<lambda>qp. give (replicate n qp))
      else if mode = 1 then run_try read_qp (\<lambda>luma. run_try read_qp (\<lambda>chroma.
        if n = 0 then pure_try Panic else give ((replicate n chroma)[0 := luma])))
      else if mode = 2 then collect_try n read_qp []
      else fail (UnsupportedSyntax ''reserved QP component mode'')) (table_ok n 1)" for mode :: nat
    using assms
    by (intro upholds_if upholds_bind [OF read_qp_upholds] upholds_give upholds_fail each one two)
      simp_all
qed

lemma table_ok_append: "table_ok n j xs \<Longrightarrow> table_ok n k ys \<Longrightarrow> table_ok n (j + k) (xs @ ys)"
  by (auto simp: table_ok_def algebra_simps)

lemma extend_sets_upholds:
  assumes "1 \<le> n"
  shows "table_ok n k vs \<Longrightarrow> upholds packet_ok (extend_sets n count vs) (table_ok n (k + count))"
proof (induction count arbitrary: k vs)
  case 0
  then show ?case by (simp add: upholds_def)
next
  case (Suc count)
  show ?case unfolding extend_sets.simps
  proof (rule upholds_bind [OF parse_set_upholds [OF assms]])
    fix set assume set: "table_ok n 1 set"
    show "upholds packet_ok (extend_sets n count (vs @ set)) (table_ok n (k + Suc count))"
      using Suc.IH [OF table_ok_append [OF Suc.prems set]] by simp
  qed
qed

lemma parse_sets_upholds: "1 \<le> n \<Longrightarrow> upholds packet_ok (parse_sets n count) (table_ok n count)"
  unfolding parse_sets_def using extend_sets_upholds [of n 0 "[]" count]
  by (intro upholds_if upholds_fail) (simp_all add: table_ok_def)

definition band_ok :: "nat \<Rightarrow> nat list \<Rightarrow> nat list \<times> bool \<Rightarrow> bool" where
  "band_ok n base = (\<lambda>(sets, inherits).
     if inherits then sets = base else sets_ok n sets)"

text \<open>Both bands have the same header: inherited, fixed by the plane, or coded.\<close>

lemma coded_sets_upholds:
  assumes "plane_ok plane"
  shows "upholds packet_ok (run_try (from_entropy packet_read_bit) (\<lambda>inherits.
      if inherits then give (base, True)
      else run_try (from_entropy (packet_read_bits 4)) (\<lambda>count.
        if usize_max < count + 1 then fail e
        else run_try (parse_sets (components plane) (count + 1)) (\<lambda>sets. give (sets, False)))))
    (band_ok (components plane) base)"
proof (intro upholds_bind [OF qp_bit_upholds] upholds_if upholds_give upholds_fail
    upholds_bind [OF qp_bits_upholds])
  fix count :: nat
  assume count: "count < 2 ^ 4"
  show "upholds packet_ok (run_try (parse_sets (components plane) (count + 1)) (\<lambda>sets. give (sets, False)))
      (band_ok (components plane) base)"
    using assms count
    by (intro upholds_bind [OF parse_sets_upholds] upholds_give)
      (auto simp: plane_ok_def band_ok_def sets_ok_def intro!: exI [of _ "Suc count"])
qed (simp_all add: band_ok_def)

lemma parse_low_pass_upholds:
  assumes "plane_ok plane"
  shows "upholds packet_ok (parse_low_pass plane base)
    (band_ok (components plane) base)"
proof -
  have "band_ok (components plane) base (vs, False)" if "lp_quantizers plane = Some vs" for vs
    using assms that quantizers_ok_table one_set by (auto simp: plane_ok_def band_ok_def)
  moreover have inherited: "band_ok (components plane) base (base, True)" by (simp add: band_ok_def)
  ultimately show ?thesis unfolding parse_low_pass_def
    by (intro upholds_if upholds_give)
      (auto intro: upholds_give coded_sets_upholds [OF assms] simp: inherited split: option.split)
qed

lemma parse_high_pass_upholds:
  assumes "plane_ok plane"
  shows "upholds packet_ok (parse_high_pass plane base)
    (band_ok (components plane) base)"
proof -
  have "band_ok (components plane) base (vs, False)" if "hp_quantizers plane = Some vs" for vs
    using assms that quantizers_ok_table one_set by (auto simp: plane_ok_def band_ok_def)
  moreover have inherited: "band_ok (components plane) base (base, True)" by (simp add: band_ok_def)
  ultimately show ?thesis unfolding parse_high_pass_def
    by (intro upholds_if upholds_give)
      (auto intro: upholds_give coded_sets_upholds [OF assms] simp: inherited split: option.split)
qed

lemma dc_table_upholds: "plane_ok plane \<Longrightarrow> upholds packet_ok (dc_table plane) (table_ok (components plane) 1)"
  using parse_set_upholds [of "components plane"] quantizers_ok_table unfolding dc_table_def
  by (auto simp: plane_ok_def intro: upholds_give split: option.splits)

section \<open>Indices and steps\<close>

lemma decode_qp_index_upholds: "upholds packet_ok (decode_qp_index k) (\<lambda>i. i < k)"
  unfolding decode_qp_index_def Let_def
  by (intro upholds_if upholds_fail upholds_bind [OF qp_bit_upholds] upholds_bind [OF qp_bits_upholds]
      upholds_give) (simp_all add: qp_index_bits_def)

lemma table_sets: "1 \<le> n \<Longrightarrow> table_ok n k table \<Longrightarrow> length table div n = k"
  by (simp add: table_ok_def)

lemma set_fits: "table_ok n k table \<Longrightarrow> i < k \<Longrightarrow> i * n + n \<le> length table"
  using mult_le_mono1 [of "Suc i" k n] by (simp add: table_ok_def)

lemma low_pass_index_upholds:
  assumes "1 \<le> n" "lp_valid n q"
  shows "upholds packet_ok (low_pass_index q) (\<lambda>i. i * n + n \<le> length (tq_low_pass q))"
proof -
  obtain k where k: "1 \<le> k" "table_ok n k (tq_low_pass q)" "lp_inherits_dc q \<longrightarrow> k = 1"
    using assms(2) unfolding lp_valid_def sets_ok_def by (cases "lp_inherits_dc q") auto
  have fits: "i * n + n \<le> length (tq_low_pass q)" if "i < k" for i using set_fits [OF k(2) that] .
  have "tq_components q = n" using assms(2) by (simp add: lp_valid_def)
  then show ?thesis
    unfolding low_pass_index_def Let_def using assms(1) k(1) fits fits [of 0]
    by (intro upholds_if upholds_give upholds_mono [OF decode_qp_index_upholds])
      (simp_all add: table_sets [OF assms(1) k(2)])
qed

lemma high_pass_index_upholds:
  assumes "1 \<le> n" "lp_valid n q" "hp_valid n q" "lp * n + n \<le> length (tq_low_pass q)"
  shows "upholds packet_ok (high_pass_index q lp) (\<lambda>i. i * n + n \<le> length (tq_high_pass q))"
proof -
  obtain k where k: "1 \<le> k" "table_ok n k (tq_high_pass q)"
    using assms(3) unfolding hp_valid_def sets_ok_def by blast
  have fits: "i * n + n \<le> length (tq_high_pass q)" if "i < k" for i using set_fits [OF k(2) that] .
  have "tq_components q = n" "hp_inherits_lp q \<longrightarrow> tq_high_pass q = tq_low_pass q"
    using assms(2,3) by (simp_all add: lp_valid_def hp_valid_def)
  then show ?thesis
    unfolding high_pass_index_def Let_def using assms(1,4) k(1) fits fits [of 0]
    by (intro upholds_if upholds_give upholds_mono [OF decode_qp_index_upholds])
      (simp_all add: table_sets [OF assms(1) k(2)])
qed

lemma table_component_Ok:
  assumes "table_ok n k table" "k \<le> 16" "n < 2 ^ 16" "i * n + n \<le> length table" "c < n"
  shows "\<exists>qp<256. table_component table i n c = Ok qp"
proof -
  have "k * n \<le> 16 * 2 ^ 16" using assms(2,3) by (intro mult_le_mono) simp_all
  then have bound: "i * n + c \<le> usize_max" "i * n \<le> usize_max" "i * n + c < length table"
    using assms(1,4,5) by (simp_all add: table_ok_def)
  moreover have "table ! (i * n + c) < 256"
    using assms(1) bound(3) nth_mem [OF bound(3)] by (auto simp: table_ok_def)
  ultimately show ?thesis by (simp add: table_component_def Let_def)
qed

lemma u32_checked_shl_small:
  assumes "m \<le> 31" "e \<le> 15"
  shows "u32_checked_shl m e = Some (m * 2 ^ e)"
proof -
  have "m * 2 ^ e \<le> 31 * 2 ^ 15" using assms by (intro mult_le_mono power_increasing) simp_all
  then show ?thesis using assms(2)
    by (simp add: u32_checked_shl_def push_bit_eq_mult take_bit_nat_eq_self)
qed

lemma quant_map_eq:
  assumes "qp < 256" "shift \<le> 1"
  shows "quant_map qp True shift = Ok (if qp = 0 then 1 else if qp < 16 then qp * 2 ^ shift
      else (16 + qp mod 16) * 2 ^ (qp div 16 - 1 + shift))"
    and "quant_map qp False shift = Ok (if qp = 0 then 1 else if qp < 32 then (qp + 3) div 4
      else if qp < 48 then (17 + qp mod 16) div 2 else (16 + qp mod 16) * 2 ^ (qp div 16 - 3))"
  using assms by (auto simp: quant_map_def drop_bit_eq_div u32_checked_shl_small)

definition scaled_step :: "nat \<Rightarrow> nat" where
  "scaled_step qp = (if qp = 0 then 1 else if qp < 16 then qp else (16 + qp mod 16) * 2 ^ (qp div 16 - 1))"

lemma scaled_step_mono:
  assumes "a \<le> b"
  shows "scaled_step a \<le> scaled_step b"
proof (cases "a < 16")
  case True
  have "16 * 1 \<le> (16 + b mod 16) * 2 ^ (b div 16 - 1)" by (rule mult_le_mono) simp_all
  then show ?thesis using True assms by (auto simp: scaled_step_def)
next
  case False
  show ?thesis
  proof (cases "a div 16 = b div 16")
    case True
    then have "a mod 16 \<le> b mod 16" using assms div_mult_mod_eq [of a 16] div_mult_mod_eq [of b 16] by linarith
    then show ?thesis using False True assms by (auto simp: scaled_step_def intro!: mult_le_mono1)
  next
    case diff: False
    have q: "1 \<le> a div 16" "a div 16 \<le> b div 16 - 1"
      using False diff div_le_mono [OF assms, of 16] by auto
    have "(16 + a mod 16) * 2 ^ (a div 16 - 1) \<le> 32 * 2 ^ (a div 16 - 1)"
      by (intro mult_le_mono1) (use mod_less_divisor [of 16 a] in linarith)
    also have "\<dots> = 16 * 2 ^ (a div 16)" using q(1) by (cases "a div 16") auto
    also have "\<dots> \<le> 16 * 2 ^ (b div 16 - 1)" using q(2) by simp
    also have "\<dots> \<le> (16 + b mod 16) * 2 ^ (b div 16 - 1)" by simp
    finally show ?thesis using False assms by (simp add: scaled_step_def)
  qed
qed

lemma unscaled_quarter:
  "(if qp = 0 then 1 else if qp < 32 then (qp + 3) div 4
    else if qp < 48 then (17 + qp mod 16) div 2 else (16 + qp mod 16) * 2 ^ (qp div 16 - 3))
   = (scaled_step qp + 3) div 4"
proof -
  consider "qp < 16" | "16 \<le> qp" "qp < 32" | "32 \<le> qp" "qp < 48" | "48 \<le> qp" by linarith
  then show ?thesis
  proof cases
    case 2
    then obtain r where r: "qp = 16 + r" "r < 16" using le_Suc_ex [of 16 qp] by auto
    then have "(16 + r) div 16 = 1" "(16 + r) mod 16 = r" by simp_all
    then show ?thesis using r by (simp add: scaled_step_def)
  next
    case 3
    then obtain r where r: "qp = 32 + r" "r < 16" using le_Suc_ex [of 32 qp] by auto
    then have "qp div 16 = 2" by simp
    moreover have "(2 * (16 + r) + 3) div 4 = (17 + r) div 2" for r :: nat
      using div_mult2_eq [of "2 * (16 + r) + 3" 2 2] by simp
    ultimately show ?thesis using 3 by (simp add: scaled_step_def mult.commute)
  next
    case 4
    then have "3 \<le> qp div 16" using div_le_mono [of 48 qp 16] by simp
    then have "qp div 16 - 1 = 2 + (qp div 16 - 3)" by linarith
    then have "scaled_step qp = 4 * ((16 + qp mod 16) * 2 ^ (qp div 16 - 3))"
      using 4 by (simp add: scaled_step_def power_add)
    then show ?thesis using 4 by simp
  qed (simp add: scaled_step_def)
qed

lemma quant_map_Ok:
  assumes "qp < 256" "shift \<le> 1"
  shows "\<exists>s. quant_map qp is_scaled shift = Ok s \<and> 1 \<le> s \<and> s \<le> 1015808"
proof -
  have small: "m * 2 ^ e \<le> 1015808" if "m \<le> 31" "e \<le> 15" for m e :: nat
    using mult_le_mono [OF that(1) power_increasing [OF that(2), of 2]] by simp
  have "(16 + qp mod 16) * 2 ^ (qp div 16 - 1 + shift) \<le> 1015808"
    "(16 + qp mod 16) * 2 ^ (qp div 16 - 3) \<le> 1015808"
    "qp < 16 \<Longrightarrow> qp * 2 ^ shift \<le> 1015808"
    using assms by (auto intro!: small)
  then show ?thesis
    using quant_map_eq [OF assms] by (cases is_scaled) auto
qed

lemma steps_Ok:
  assumes "1 \<le> n" "n < 2 ^ 16" "lp_valid n q" "hp_valid n q" "c < n"
    and "lp * n + n \<le> length (tq_low_pass q)" "hp * n + n \<le> length (tq_high_pass q)"
  shows "\<exists>s. reconstruction_steps_for c \<lparr>qi_lp = lp, qi_hp = hp\<rparr> is_scaled q = Ok s \<and>
    rq_dc s \<in> {1..1015808} \<and> rq_low_pass s \<in> {1..1015808} \<and> rq_high_pass s \<in> {1..1015808}"
proof -
  obtain k where k: "k \<le> 16" "table_ok n k (tq_low_pass q)"
    using assms(3) unfolding lp_valid_def sets_ok_def by blast
  obtain j where j: "j \<le> 16" "table_ok n j (tq_high_pass q)"
    using assms(4) unfolding hp_valid_def sets_ok_def by blast
  have dc: "table_ok n 1 (tq_dc q)" "tq_components q = n" using assms(3) by (simp_all add: lp_valid_def)
  obtain x y z where xyz: "x < 256" "table_component (tq_dc q) 0 n c = Ok x"
    "y < 256" "table_component (tq_low_pass q) lp n c = Ok y"
    "z < 256" "table_component (tq_high_pass q) hp n c = Ok z"
    using table_component_Ok [OF dc(1) _ assms(2), of 0 c] dc(1)
      table_component_Ok [OF k(2,1) assms(2) assms(6,5)]
      table_component_Ok [OF j(2,1) assms(2) assms(7,5)] assms(5) by (auto simp: table_ok_def)
  have shift: "of_bool (c = 0) \<le> (1::nat)" by simp
  show ?thesis
    using quant_map_Ok [OF xyz(1) shift, of is_scaled] quant_map_Ok [OF xyz(3) shift, of is_scaled]
      quant_map_Ok [OF xyz(5), of 1 is_scaled] assms(5) xyz(2,4,6) dc(2)
    by (auto simp: reconstruction_steps_for_def Let_def)
qed

section \<open>The life of a tile's tables\<close>

text \<open>
  In spatial mode one header establishes all tables; in frequency mode the DC packet starts them,
  the LP packet replaces the LP table and the HP packet, when there is one, the HP table.
\<close>

datatype table_phase = DcParsed | LpParsed | AllParsed

inductive tables_reach :: "image_plane_header \<Rightarrow> table_phase \<Rightarrow> tile_quantizers \<Rightarrow> bool" for plane where
  spatial: "packet_ok r \<Longrightarrow> parse_tile_quantizers plane r = (Ok q, t) \<Longrightarrow> tables_reach plane AllParsed q"
| dc: "packet_ok r \<Longrightarrow> parse_dc_packet plane r = (Ok q, t) \<Longrightarrow> tables_reach plane DcParsed q"
| lp: "tables_reach plane DcParsed q \<Longrightarrow> packet_ok r \<Longrightarrow>
    parse_low_pass_packet plane q r = (Ok q', t) \<Longrightarrow> tables_reach plane LpParsed q'"
| hp: "tables_reach plane LpParsed q \<Longrightarrow> packet_ok r \<Longrightarrow>
    parse_high_pass_packet plane q r = (Ok q', t) \<Longrightarrow> tables_reach plane AllParsed q'"

definition phase_ok :: "nat \<Rightarrow> table_phase \<Rightarrow> tile_quantizers \<Rightarrow> bool" where
  "phase_ok n ph q \<longleftrightarrow> lp_valid n q \<and>
     (if ph = LpParsed then table_ok n 1 (tq_high_pass q) else hp_valid n q) \<and>
     (ph = DcParsed \<longrightarrow> table_ok n 1 (tq_high_pass q) \<and> lp_inherits_dc q)"

lemma parse_tile_quantizers_upholds:
  assumes "plane_ok plane"
  shows "upholds packet_ok (parse_tile_quantizers plane) (phase_ok (components plane) AllParsed)"
  unfolding parse_tile_quantizers_def
  by (rule upholds_bind [OF dc_table_upholds [OF assms]],
      rule upholds_bind2 [OF upholds_mono [OF parse_low_pass_upholds [OF assms]]],
      simp add: band_ok_def,
      rule upholds_bind2 [OF upholds_mono [OF parse_high_pass_upholds [OF assms]]],
      simp add: band_ok_def,
      rule upholds_give, auto simp: phase_ok_def lp_valid_def hp_valid_def one_set split: if_splits)

lemma parse_dc_packet_upholds:
  assumes "plane_ok plane"
  shows "upholds packet_ok (parse_dc_packet plane) (phase_ok (components plane) DcParsed)"
  unfolding parse_dc_packet_def
  by (intro upholds_bind [OF dc_table_upholds [OF assms]] upholds_give)
    (auto simp: phase_ok_def lp_valid_def hp_valid_def dest: one_set [simplified])

lemma parse_low_pass_packet_upholds:
  assumes "plane_ok plane" "phase_ok (components plane) DcParsed q"
  shows "upholds packet_ok (parse_low_pass_packet plane q) (phase_ok (components plane) LpParsed)"
  unfolding parse_low_pass_packet_def
  by (intro upholds_bind [OF parse_low_pass_upholds [OF assms(1)]])
    (use assms(2) in \<open>auto simp: phase_ok_def lp_valid_def band_ok_def intro!: upholds_give
      split: if_splits dest: one_set [simplified]\<close>)

lemma parse_high_pass_packet_upholds:
  assumes "plane_ok plane" "phase_ok (components plane) LpParsed q"
  shows "upholds packet_ok (parse_high_pass_packet plane q) (phase_ok (components plane) AllParsed)"
  unfolding parse_high_pass_packet_def
  by (intro upholds_bind [OF parse_high_pass_upholds [OF assms(1)]])
    (use assms(2) in \<open>auto simp: phase_ok_def lp_valid_def hp_valid_def band_ok_def intro!: upholds_give
      split: if_splits dest: one_set [simplified]\<close>)

lemma tables_reach_ok:
  assumes "plane_ok plane"
  shows "tables_reach plane ph q \<Longrightarrow> phase_ok (components plane) ph q"
proof (induction rule: tables_reach.induct)
  case (spatial r q t)
  then show ?case using upholdsD(5) [OF parse_tile_quantizers_upholds [OF assms]] by blast
next
  case (dc r q t)
  then show ?case using upholdsD(5) [OF parse_dc_packet_upholds [OF assms]] by blast
next
  case (lp q r q' t)
  then show ?case using upholdsD(5) [OF parse_low_pass_packet_upholds [OF assms]] by blast
next
  case (hp q r q' t)
  then show ?case using upholdsD(5) [OF parse_high_pass_packet_upholds [OF assms]] by blast
qed

section \<open>Writing indices and headers\<close>

text \<open>What an encoder writes for an index into a table with \<open>n\<close> sets.\<close>

definition written_index :: "nat \<Rightarrow> nat \<Rightarrow> bool list" where
  "written_index n i = (if i = 0 then [False] else True # nat_bits (qp_index_bits n) (i - 1))"

text \<open>\<open>reads m bits v\<close>: on a packet that goes on with \<open>bits\<close>, \<open>m\<close> takes exactly these and returns \<open>v\<close>.\<close>

definition reads :: "'a tile_decoder \<Rightarrow> bool list \<Rightarrow> 'a \<Rightarrow> bool" where
  "reads m bits v \<longleftrightarrow> (\<forall>r rest. packet_ok r \<longrightarrow> packet_unread r = bits @ rest \<longrightarrow>
     (\<exists>t. m r = (Ok v, t) \<and> packet_ok t \<and> packet_unread t = rest))"

lemma readsD:
  assumes "reads m bits v" "packet_ok r" "packet_unread r = bits @ rest"
  shows "\<exists>t. m r = (Ok v, t) \<and> packet_ok t \<and> packet_unread t = rest"
  using assms unfolding reads_def by blast

lemma reads_give: "reads (give v) [] v"
  by (simp add: reads_def)

lemma reads_bind:
  assumes "reads m xs v" "reads (f v) ys w"
  shows "reads (run_try m f) (xs @ ys) w"
  unfolding reads_def
proof (intro allI impI)
  fix r rest assume r: "packet_ok r" "packet_unread r = (xs @ ys) @ rest"
  then obtain t where t: "m r = (Ok v, t)" "packet_ok t" "packet_unread t = ys @ rest"
    using readsD [OF assms(1), of r "ys @ rest"] by auto
  then show "\<exists>t. run_try m f r = (Ok w, t) \<and> packet_ok t \<and> packet_unread t = rest"
    using readsD [OF assms(2) t(2,3)] by (auto simp: run_try_step)
qed

lemma reads_last: "reads m xs v \<Longrightarrow> reads (f v) [] w \<Longrightarrow> reads (run_try m f) xs w"
  using reads_bind [of m xs v f "[]" w] by simp

lemma reads_entropy:
  assumes "\<And>r rest. packet_ok r \<Longrightarrow> packet_unread r = bits @ rest \<Longrightarrow>
      \<exists>t. m r = (Ok v, t) \<and> packet_unread t = rest \<and> packet_ok t"
  shows "reads (from_entropy m) bits v"
  unfolding reads_def
proof (intro allI impI)
  fix r rest assume "packet_ok r" "packet_unread r = bits @ rest"
  then obtain t where "m r = (Ok v, t)" "packet_unread t = rest" "packet_ok t" using assms by blast
  then show "\<exists>t. from_entropy m r = (Ok v, t) \<and> packet_ok t \<and> packet_unread t = rest"
    by (simp add: from_entropy_def)
qed

lemma reads_bits: "n \<le> 64 \<Longrightarrow> v < 2 ^ n \<Longrightarrow> reads (from_entropy (packet_read_bits n)) (nat_bits n v) v"
  by (rule reads_entropy) (rule pkt.read_written)

lemma reads_bit: "reads (from_entropy packet_read_bit) [b] b"
proof (rule reads_entropy)
  fix r rest assume r: "packet_ok r" "packet_unread r = [b] @ rest"
  have "nat_bits 1 (of_bool b) = [b]" by simp
  then obtain t where "packet_read_bits 1 r = (Ok (of_bool b), t)" "packet_unread t = rest" "packet_ok t"
    using pkt.read_written [of r 1 "of_bool b" rest] r by (cases b) auto
  then show "\<exists>t. packet_read_bit r = (Ok b, t) \<and> packet_unread t = rest \<and> packet_ok t"
    by (simp add: packet_read_bit_def run_try_step)
qed

lemma reads_qp: "qp < 256 \<Longrightarrow> reads read_qp (nat_bits 8 qp) qp"
  unfolding read_qp_def by (rule reads_last [OF reads_bits]) (simp_all add: reads_def)

lemma reads_collect_qp:
  "\<forall>qp\<in>set qps. qp < 256 \<Longrightarrow>
    reads (collect_try (length qps) read_qp vs) (concat (map (nat_bits 8) qps)) (vs @ qps)"
proof (induction qps arbitrary: vs)
  case (Cons qp qps)
  have "reads (collect_try (Suc (length qps)) read_qp vs)
      (nat_bits 8 qp @ concat (map (nat_bits 8) qps)) ((vs @ [qp]) @ qps)"
    unfolding collect_try.simps
  proof (rule reads_bind [OF reads_qp])
    show "reads (collect_try (length qps) read_qp (vs @ [qp])) (concat (map (nat_bits 8) qps))
        ((vs @ [qp]) @ qps)"
      using Cons.prems by (intro Cons.IH) simp
  qed (use Cons.prems in simp)
  then show ?case by simp
qed (simp add: reads_give)

text \<open>The shortest of the three component modes.\<close>

definition written_set :: "nat list \<Rightarrow> bool list" where
  "written_set qps =
     (if length qps = 1 then nat_bits 8 (qps ! 0)
      else if qps = replicate (length qps) (qps ! 0) then nat_bits 2 0 @ nat_bits 8 (qps ! 0)
      else if qps = (replicate (length qps) (qps ! 1))[0 := qps ! 0]
      then nat_bits 2 1 @ nat_bits 8 (qps ! 0) @ nat_bits 8 (qps ! 1)
      else nat_bits 2 2 @ concat (map (nat_bits 8) qps))"

lemma reads_set:
  assumes "table_ok n 1 qps" "1 \<le> n"
  shows "reads (parse_set n) (written_set qps) qps"
proof -
  have n: "length qps = n" and small: "\<forall>qp\<in>set qps. qp < 256" using assms by (simp_all add: table_ok_def)
  have qp: "qps ! i < 256" if "i < n" for i using small that n by simp
  have coded: "reads (parse_set n) (nat_bits 2 m @ bits) qps"
    if "n \<noteq> 1" "m < 4" "reads (if m = 0 then run_try read_qp (\<lambda>qp. give (replicate n qp))
      else if m = 1 then run_try read_qp (\<lambda>luma. run_try read_qp (\<lambda>chroma.
        if n = 0 then pure_try Panic else give ((replicate n chroma)[0 := luma])))
      else if m = 2 then collect_try n read_qp []
      else fail (UnsupportedSyntax ''reserved QP component mode'')) bits qps" for m bits
  proof -
    have mode: "reads (run_try (from_entropy (packet_read_bits 2)) (\<lambda>mode.
        if mode < 2 ^ 8 then give mode else fail e)) (nat_bits 2 m) m" for e
      by (rule reads_last [OF reads_bits]) (use that(2) in \<open>simp_all add: reads_give\<close>)
    show ?thesis unfolding parse_set_def if_not_P [OF that(1)]
      by (rule reads_bind, rule mode, rule that(3))
  qed
  consider (single) "n = 1" | (uniform) "n \<noteq> 1" "qps = replicate n (qps ! 0)"
    | (separate) "n \<noteq> 1" "qps \<noteq> replicate n (qps ! 0)" "qps = (replicate n (qps ! 1))[0 := qps ! 0]"
    | (independent) "n \<noteq> 1" "qps \<noteq> replicate n (qps ! 0)" "qps \<noteq> (replicate n (qps ! 1))[0 := qps ! 0]"
    by blast
  then show ?thesis
  proof cases
    case single
    then have "qps = [qps ! 0]" using n by (cases qps) auto
    then show ?thesis using single n reads_last [OF reads_qp [OF qp [of 0]], of "\<lambda>qp. give [qp]"]
      by (simp add: parse_set_def written_set_def reads_give)
  next
    case uniform
    have "reads (run_try read_qp (\<lambda>qp. give (replicate n qp))) (nat_bits 8 (qps ! 0)) qps"
    proof (rule reads_last [OF reads_qp [OF qp]])
      show "reads (give (replicate n (qps ! 0))) [] qps"
        unfolding uniform(2) [symmetric] by (rule reads_give)
    qed (use assms(2) in simp)
    then have "reads (parse_set n) (nat_bits 2 0 @ nat_bits 8 (qps ! 0)) qps"
      using uniform(1) by (intro coded) simp_all
    then show ?thesis unfolding written_set_def n if_not_P [OF uniform(1)] if_P [OF uniform(2)] .
  next
    case separate
    have "reads (run_try read_qp (\<lambda>luma. run_try read_qp (\<lambda>chroma.
        if n = 0 then pure_try Panic else give ((replicate n chroma)[0 := luma]))))
        (nat_bits 8 (qps ! 0) @ nat_bits 8 (qps ! 1)) qps"
    proof (intro reads_bind [OF reads_qp [OF qp]] reads_last [OF reads_qp [OF qp]])
      show "reads (if n = 0 then pure_try Panic else give ((replicate n (qps ! 1))[0 := qps ! 0])) [] qps"
        using assms(2) reads_give [of qps] by (simp only: separate(3) [symmetric]) simp
    qed (use assms(2) separate(1) in simp_all)
    then have "reads (parse_set n) (nat_bits 2 1 @ nat_bits 8 (qps ! 0) @ nat_bits 8 (qps ! 1)) qps"
      using separate(1) by (intro coded) simp_all
    then show ?thesis unfolding written_set_def n if_not_P [OF separate(1)]
      if_not_P [OF separate(2)] if_P [OF separate(3)] .
  next
    case independent
    have "reads (parse_set n) (nat_bits 2 2 @ concat (map (nat_bits 8) qps)) qps"
      using reads_collect_qp [OF small, of "[]"] n independent(1) by (intro coded) simp_all
    then show ?thesis unfolding written_set_def n if_not_P [OF independent(1)]
      if_not_P [OF independent(2)] if_not_P [OF independent(3)] .
  qed
qed

lemma reads_index:
  assumes "2 \<le> n" "n \<le> 16" "i < n"
  shows "reads (decode_qp_index n) (written_index n i) i"
proof -
  let ?w = "qp_index_bits n"
  have w: "?w \<le> 4" "n \<le> 2 ^ ?w + 1" using assms(1,2) by (auto simp: qp_index_bits_def)
  have start: "decode_qp_index n = run_try (from_entropy packet_read_bit) (\<lambda>coded.
      if \<not> coded then give 0
      else run_try (from_entropy (packet_read_bits ?w)) (\<lambda>v. let index = v + 1 in
        if 2 ^ 8 \<le> index then fail (ArithmeticOverflow ''QP index'')
        else if index \<ge> n then fail (InvalidQuantizerIndex n index) else give index))"
    using assms by (simp add: decode_qp_index_def)
  show ?thesis
  proof (cases "i = 0")
    case True
    have "reads (decode_qp_index n) [False] 0"
      unfolding start by (rule reads_last [OF reads_bit]) (simp add: reads_def)
    then show ?thesis using True by (simp add: written_index_def)
  next
    case False
    then have i: "i - 1 < 2 ^ ?w" "(i - 1) + 1 = i" using w assms(3) by linarith+
    have "reads (decode_qp_index n) ([True] @ nat_bits ?w (i - 1)) i"
      unfolding start
    proof (rule reads_bind [OF reads_bit], simp only: not_True_eq_False if_False,
        rule reads_last [OF reads_bits])
      show "reads (let index = (i - 1) + 1 in
          if 2 ^ 8 \<le> index then fail (ArithmeticOverflow ''QP index'')
          else if index \<ge> n then fail (InvalidQuantizerIndex n index) else give index) [] i"
        unfolding i(2) Let_def using assms by (simp add: reads_def)
    qed (use w(1) i(1) in simp_all)
    then show ?thesis using False by (simp add: written_index_def)
  qed
qed

text \<open>A band's part of the header, and the whole header of spatial mode.\<close>

fun written_sets :: "nat \<Rightarrow> nat \<Rightarrow> nat list \<Rightarrow> bool list" where
  "written_sets n 0 qps = []"
| "written_sets n (Suc k) qps = written_set (take n qps) @ written_sets n k (drop n qps)"

definition written_band :: "nat \<Rightarrow> bool \<Rightarrow> nat list \<Rightarrow> bool list" where
  "written_band n inherits qps = inherits #
     (if inherits then []
      else nat_bits 4 (length qps div n - 1) @ written_sets n (length qps div n) qps)"

definition written_header :: "image_plane_header \<Rightarrow> tile_quantizers \<Rightarrow> bool list" where
  "written_header plane q =
     (if dc_quantizers plane = None then written_set (tq_dc q) else []) @
     (if bands_present plane = 3 \<or> lp_quantizers plane \<noteq> None then []
      else written_band (components plane) (lp_inherits_dc q) (tq_low_pass q)) @
     (if bands_present plane \<ge> 2 \<or> hp_quantizers plane \<noteq> None then []
      else written_band (components plane) (hp_inherits_lp q) (tq_high_pass q))"

text \<open>The tables that the plane header leaves to the tile.\<close>

definition band_choice :: "bool \<Rightarrow> nat list option \<Rightarrow> nat list \<Rightarrow> nat list \<Rightarrow> bool \<Rightarrow> bool" where
  "band_choice absent fixed base qps inherits =
     (if absent then inherits \<and> qps = base
      else case fixed of Some vs \<Rightarrow> \<not> inherits \<and> qps = vs | None \<Rightarrow> inherits \<longrightarrow> qps = base)"

definition allowed_tables :: "image_plane_header \<Rightarrow> tile_quantizers \<Rightarrow> bool" where
  "allowed_tables plane q \<longleftrightarrow> lp_valid (components plane) q \<and> hp_valid (components plane) q \<and>
     (case dc_quantizers plane of Some vs \<Rightarrow> tq_dc q = vs | None \<Rightarrow> True) \<and>
     band_choice (bands_present plane = 3) (lp_quantizers plane) (tq_dc q) (tq_low_pass q)
       (lp_inherits_dc q) \<and>
     band_choice (bands_present plane \<ge> 2) (hp_quantizers plane) (tq_low_pass q) (tq_high_pass q)
       (hp_inherits_lp q)"

lemma reads_sets:
  assumes "1 \<le> n"
  shows "table_ok n k qps \<Longrightarrow> reads (extend_sets n k vs) (written_sets n k qps) (vs @ qps)"
proof (induction k arbitrary: vs qps)
  case 0
  then show ?case by (simp add: table_ok_def reads_def)
next
  case (Suc k)
  have "table_ok n 1 (take n qps)" "table_ok n k (drop n qps)"
    using Suc.prems by (auto simp: table_ok_def dest: in_set_takeD in_set_dropD)
  then have "reads (extend_sets n (Suc k) vs) (written_set (take n qps) @ written_sets n k (drop n qps))
      ((vs @ take n qps) @ drop n qps)"
    unfolding extend_sets.simps using assms
    by - (rule reads_bind [where v = "take n qps"], erule (1) reads_set, rule Suc.IH)
  then show ?case by simp
qed

lemma reads_coded_sets:
  assumes "plane_ok plane" "inherits \<Longrightarrow> qps = base" "sets_ok (components plane) qps"
  shows "reads (run_try (from_entropy packet_read_bit) (\<lambda>inherits.
      if inherits then give (base, True)
      else run_try (from_entropy (packet_read_bits 4)) (\<lambda>count.
        if usize_max < count + 1 then fail e
        else run_try (parse_sets (components plane) (count + 1)) (\<lambda>sets. give (sets, False)))))
    (written_band (components plane) inherits qps) (qps, inherits)"
proof -
  let ?n = "components plane"
  have n: "1 \<le> ?n" "?n < 2 ^ 16" using assms(1) by (simp_all add: plane_ok_def)
  obtain k where k: "1 \<le> k" "k \<le> 16" "table_ok ?n k qps" using assms(3) by (auto simp: sets_ok_def)
  have len: "length qps div ?n = k" using table_sets [OF n(1) k(3)] .
  have "k * ?n \<le> 16 * 2 ^ 16" using k(2) n(2) by (intro mult_le_mono) simp_all
  then have sets: "reads (parse_sets ?n k) (written_sets ?n k qps) qps"
    using reads_sets [OF n(1) k(3), of "[]"] by (simp add: parse_sets_def)
  have coded: "reads (run_try (from_entropy (packet_read_bits 4)) (\<lambda>count.
      if usize_max < count + 1 then fail e
      else run_try (parse_sets ?n (count + 1)) (\<lambda>sets. give (sets, False))))
      (nat_bits 4 (k - 1) @ written_sets ?n k qps) (qps, False)"
  proof (rule reads_bind [OF reads_bits])
    have "reads (run_try (parse_sets ?n k) (\<lambda>sets. give (sets, False))) (written_sets ?n k qps) (qps, False)"
      by (rule reads_last [OF sets]) (rule reads_give)
    then show "reads (if usize_max < (k - 1) + 1 then fail e
        else run_try (parse_sets ?n ((k - 1) + 1)) (\<lambda>sets. give (sets, False)))
        (written_sets ?n k qps) (qps, False)"
      using k by simp
  qed (use k in simp_all)
  show ?thesis
  proof (cases inherits)
    case True
    then have "written_band ?n inherits qps = [inherits] @ []" by (simp add: written_band_def)
    then show ?thesis using True assms(2)
      by (simp only:) (rule reads_bind [OF reads_bit], simp only: if_True, rule reads_give)
  next
    case False
    then have "written_band ?n inherits qps = [inherits] @ (nat_bits 4 (k - 1) @ written_sets ?n k qps)"
      by (simp add: written_band_def len)
    then show ?thesis using False coded
      by (simp only:) (rule reads_bind [OF reads_bit], simp only: if_False)
  qed
qed

lemma reads_low_pass:
  assumes "plane_ok plane" "allowed_tables plane q"
  shows "reads (parse_low_pass plane (tq_dc q))
    (if bands_present plane = 3 \<or> lp_quantizers plane \<noteq> None then []
     else written_band (components plane) (lp_inherits_dc q) (tq_low_pass q))
    (tq_low_pass q, lp_inherits_dc q)"
  using assms(2) reads_coded_sets [OF assms(1), of "lp_inherits_dc q" "tq_low_pass q" "tq_dc q"]
  by (auto simp: parse_low_pass_def allowed_tables_def band_choice_def lp_valid_def reads_def
      split: if_splits option.splits)

lemma reads_high_pass:
  assumes "plane_ok plane" "allowed_tables plane q"
  shows "reads (parse_high_pass plane (tq_low_pass q))
    (if bands_present plane \<ge> 2 \<or> hp_quantizers plane \<noteq> None then []
     else written_band (components plane) (hp_inherits_lp q) (tq_high_pass q))
    (tq_high_pass q, hp_inherits_lp q)"
  using assms(2) reads_coded_sets [OF assms(1), of "hp_inherits_lp q" "tq_high_pass q" "tq_low_pass q"]
  by (auto simp: parse_high_pass_def allowed_tables_def band_choice_def hp_valid_def reads_def
      split: if_splits option.splits)

lemma reads_dc_table:
  assumes "plane_ok plane" "allowed_tables plane q"
  shows "reads (dc_table plane) (if dc_quantizers plane = None then written_set (tq_dc q) else []) (tq_dc q)"
  using assms reads_set [of "components plane" "tq_dc q"]
  by (auto simp: dc_table_def allowed_tables_def plane_ok_def lp_valid_def reads_def
      split: option.splits)

definition sample_plane :: image_plane_header where
  "sample_plane = \<lparr>internal_color_format = 3, scaled = True, bands_present = 0, components = 3,
     chroma_centering_x = 0, chroma_centering_y = 0, shift_bits = 0, mantissa_length = 0,
     exponent_bias = 0, dc_quantizers = None, lp_quantizers = None, hp_quantizers = None\<rparr>"

definition sample_tables :: tile_quantizers where
  "sample_tables = \<lparr>tq_components = 3, tq_dc = [10, 20, 20], tq_low_pass = [10, 20, 20],
     tq_high_pass = [30, 30, 30, 7, 8, 9], lp_inherits_dc = True, hp_inherits_lp = False\<rparr>"

definition sample_packet :: "u8 list" where
  "sample_packet = [0x42, 0x85, 0x21, 0x07, 0xA0, 0x70, 0x80, 0x90]"

lemma sample_bits: "packet_bits sample_packet =
    written_header sample_plane sample_tables @ replicate 4 False"
  by code_simp

lemma sample_allowed: "plane_ok sample_plane" "allowed_tables sample_plane sample_tables"
  by (auto simp: sample_plane_def sample_tables_def plane_ok_def quantizers_ok_def allowed_tables_def
      band_choice_def lp_valid_def hp_valid_def table_ok_def sets_ok_def intro: exI [of _ 1] exI [of _ 2])

lemma reads_header:
  assumes "plane_ok plane" "allowed_tables plane q"
  shows "reads (parse_tile_quantizers plane) (written_header plane q) q"
proof -
  have "tq_components q = components plane" using assms(2) by (simp add: allowed_tables_def lp_valid_def)
  then have "reads (give \<lparr>tq_components = components plane, tq_dc = tq_dc q, tq_low_pass = tq_low_pass q,
      tq_high_pass = tq_high_pass q, lp_inherits_dc = lp_inherits_dc q,
      hp_inherits_lp = hp_inherits_lp q\<rparr>) [] q" by (simp add: reads_def)
  then show ?thesis
    unfolding parse_tile_quantizers_def written_header_def
    by - (rule reads_bind [OF reads_dc_table [OF assms(1,2)]],
      rule reads_bind [OF reads_low_pass [OF assms(1,2)]], simp only: prod.case,
      rule reads_last [OF reads_high_pass [OF assms(1,2)]], simp only: prod.case)
qed

lemma sample_packet_ok: "packet_ok (packet_new sample_packet)"
  "packet_unread (packet_new sample_packet) = written_header sample_plane sample_tables @ replicate 4 False"
  using packet_new_ok [of sample_packet] sample_bits by (simp_all add: sample_packet_def)

lemma sample_reached: "tables_reach sample_plane AllParsed sample_tables"
  using readsD [OF reads_header [OF sample_allowed] sample_packet_ok] sample_packet_ok(1)
    tables_reach.spatial by blast

section \<open>Properties\<close>

text \<open>
  C22: the quantizer tables of a tile are usable. For a plane header in range, whatever a packet holds,
  tables that spatial or frequency mode established give every macroblock indices whose steps exist:
  reading the indices (the HP index once the HP tables are known, index 0 before) never panics, and
  for the indices it returns and every component the three steps are found in the tables and lie
  between 1 and 1015808, so no \<open>InvalidPlan\<close> and no zero step is possible.
\<close>

theorem tile_quantizers_usable:
  assumes "plane_ok plane" "tables_reach plane ph q" "packet_ok r" "packet_ok u"
  shows "case low_pass_index q r of
      (Ok lp, _) \<Rightarrow> (case (if ph = AllParsed then high_pass_index q lp u else give 0 u) of
          (Ok hp, _) \<Rightarrow> \<forall>c<components plane. \<exists>s.
            reconstruction_steps_for c \<lparr>qi_lp = lp, qi_hp = hp\<rparr> is_scaled q = Ok s \<and>
            rq_dc s \<in> {1..1015808} \<and> rq_low_pass s \<in> {1..1015808} \<and> rq_high_pass s \<in> {1..1015808}
        | (Err _, _) \<Rightarrow> True
        | (Panic, _) \<Rightarrow> False)
    | (Err _, _) \<Rightarrow> True
    | (Panic, _) \<Rightarrow> False"
proof -
  let ?n = "components plane"
  have n: "1 \<le> ?n" "?n < 2 ^ 16" using assms(1) by (simp_all add: plane_ok_def)
  have ok: "phase_ok ?n ph q" using tables_reach_ok [OF assms(1,2)] .
  then have lp: "lp_valid ?n q" by (simp add: phase_ok_def)
  obtain x t where x: "low_pass_index q r = (x, t)" by fastforce
  note xD = upholdsD(2,3) [OF low_pass_index_upholds [OF n(1) lp] assms(3)]
  show ?thesis
  proof (cases x)
    case (Ok i)
    then have i: "i * ?n + ?n \<le> length (tq_low_pass q)" using xD(2) [of i] x by simp
    show ?thesis
    proof (cases "ph = AllParsed")
      case True
      then have hp: "hp_valid ?n q" using ok by (simp add: phase_ok_def)
      obtain y v where y: "high_pass_index q i u = (y, v)" by fastforce
      note yD = upholdsD(2,3) [OF high_pass_index_upholds [OF n(1) lp hp i] assms(4)]
      show ?thesis
        using x y Ok True yD steps_Ok [OF n lp hp _ i] by (cases y) simp_all
    next
      case False
      then have one: "table_ok ?n 1 (tq_high_pass q)" using ok by (cases ph) (auto simp: phase_ok_def)
      let ?q = "q\<lparr>hp_inherits_lp := False\<rparr>"
      have "lp_valid ?n ?q" "hp_valid ?n ?q" "0 * ?n + ?n \<le> length (tq_high_pass ?q)"
        using lp one_set [OF one] one by (simp_all add: lp_valid_def hp_valid_def table_ok_def)
      moreover have "reconstruction_steps_for c z is_scaled ?q = reconstruction_steps_for c z is_scaled q"
        for c z by (simp add: reconstruction_steps_for_def)
      ultimately show ?thesis
        using steps_Ok [OF n, of ?q _ i 0 is_scaled] x Ok False i by simp
    qed
  qed (use x xD in simp_all)
qed

lemma tile_quantizers_usable_witness:
  "list_all (\<lambda>c. \<exists>s. reconstruction_steps_for c \<lparr>qi_lp = 0, qi_hp = 1\<rparr> True sample_tables = Ok s \<and>
    rq_dc s \<in> {1..1015808} \<and> rq_low_pass s \<in> {1..1015808} \<and> rq_high_pass s \<in> {1..1015808}) [0, 1, 2]"
proof -
  let ?u = "packet_new [0x80]"
  have "packet_bits [0x80] = written_index 2 1 @ replicate 6 False" by code_simp
  then have u: "packet_ok ?u" "packet_unread ?u = written_index 2 1 @ replicate 6 False"
    using packet_new_ok [of "[0x80]"] by simp_all
  have "reads (decode_qp_index 2) (written_index 2 1) 1" by (rule reads_index) simp_all
  then have "\<exists>t. high_pass_index sample_tables 0 ?u = (Ok 1, t)"
    using readsD [OF _ u] by (fastforce simp: high_pass_index_def sample_tables_def)
  moreover have "low_pass_index sample_tables ?u = (Ok 0, ?u)"
    by (simp add: low_pass_index_def sample_tables_def)
  ultimately have "\<forall>c<3. \<exists>s. reconstruction_steps_for c \<lparr>qi_lp = 0, qi_hp = 1\<rparr> True sample_tables = Ok s \<and>
    rq_dc s \<in> {1..1015808} \<and> rq_low_pass s \<in> {1..1015808} \<and> rq_high_pass s \<in> {1..1015808}"
    using tile_quantizers_usable [OF sample_allowed(1) sample_reached u(1) u(1), of True]
    by (auto simp: sample_plane_def)
  then show ?thesis unfolding list.pred_set by force
qed

text \<open>
  C21: quantizer headers round trip. A spatial-mode header written with the shortest component mode of
  each set, for any tables that the plane header allows, is parsed back to exactly these tables and
  inheritance flags, and parsing stops behind it.
\<close>

theorem tile_header_roundtrip:
  assumes "plane_ok plane" "allowed_tables plane q" "packet_ok r"
    and "packet_unread r = written_header plane q @ rest"
  shows "\<exists>t. parse_tile_quantizers plane r = (Ok q, t) \<and> packet_unread t = rest \<and> packet_ok t"
  using readsD [OF reads_header [OF assms(1,2)] assms(3,4)] by blast

lemma tile_header_roundtrip_witness:
  "\<exists>t. parse_tile_quantizers sample_plane (packet_new sample_packet) = (Ok sample_tables, t) \<and>
    packet_unread t = replicate 4 False"
  using tile_header_roundtrip [OF sample_allowed sample_packet_ok] by blast

text \<open>
  Quantizer indices decode exactly. For a table of 2 to 16 sets, an index written with the code of
  its table length is read back, and a code that stands for no set of the table is rejected with the
  index it stands for; decoding never returns an index outside the table and never panics.
\<close>

theorem qp_index_correct:
  assumes "2 \<le> n" "n \<le> 16" "packet_ok r"
  shows "(\<forall>i rest. i < n \<and> packet_unread r = written_index n i @ rest \<longrightarrow>
      (\<exists>t. decode_qp_index n r = (Ok i, t) \<and> packet_unread t = rest \<and> packet_ok t)) \<and>
    (\<forall>v rest. n \<le> v + 1 \<and> v < 2 ^ qp_index_bits n \<and>
      packet_unread r = True # nat_bits (qp_index_bits n) v @ rest \<longrightarrow>
      fst (decode_qp_index n r) = Err (InvalidQuantizerIndex n (v + 1))) \<and>
    fst (decode_qp_index n r) \<noteq> Panic \<and> (\<forall>i. fst (decode_qp_index n r) = Ok i \<longrightarrow> i < n)"
proof (intro conjI allI impI)
  fix i rest
  assume i: "i < n \<and> packet_unread r = written_index n i @ rest"
  have "reads (decode_qp_index n) (written_index n i) i" by (rule reads_index [OF assms(1,2)]) (use i in simp)
  from readsD [OF this assms(3)] i
  show "\<exists>t. decode_qp_index n r = (Ok i, t) \<and> packet_unread t = rest \<and> packet_ok t" by auto
next
  fix v rest
  assume v: "n \<le> v + 1 \<and> v < 2 ^ qp_index_bits n \<and>
      packet_unread r = True # nat_bits (qp_index_bits n) v @ rest"
  let ?w = "qp_index_bits n"
  have w: "?w \<le> 4" by (simp add: qp_index_bits_def)
  have "(2::nat) ^ ?w \<le> 2 ^ 4" using w by (rule power_increasing) simp
  then have small: "v < 16" using v by simp
  obtain t where t: "from_entropy packet_read_bit r = (Ok True, t)" "packet_ok t"
      "packet_unread t = nat_bits ?w v @ rest"
    using readsD [OF reads_bit [of True] assms(3)] v by auto
  have "reads (from_entropy (packet_read_bits ?w)) (nat_bits ?w v) v" using v w by (intro reads_bits) simp_all
  from readsD [OF this t(2,3)] obtain t' where "from_entropy (packet_read_bits ?w) t = (Ok v, t')" by auto
  then show "fst (decode_qp_index n r) = Err (InvalidQuantizerIndex n (v + 1))"
    using assms(1,2) t(1) v small by (simp add: decode_qp_index_def run_try_step)
qed (use upholdsD(2,3) [OF decode_qp_index_upholds assms(3)] in auto)

lemma qp_index_correct_witness:
  "fst (decode_qp_index 3 (packet_new [0x80])) = Ok 1 \<and>
    fst (decode_qp_index 2 (packet_new [0xC0])) = Err (InvalidQuantizerIndex 2 2)"
proof -
  have bits: "packet_bits [0x80] = written_index 3 1 @ replicate 6 False"
      "packet_bits [0xC0] = True # nat_bits (qp_index_bits 2) 1 @ replicate 6 False" by code_simp+
  have r: "packet_ok (packet_new [0x80])" "packet_ok (packet_new [0xC0])"
      "packet_unread (packet_new [0x80]) = packet_bits [0x80]"
      "packet_unread (packet_new [0xC0]) = packet_bits [0xC0]"
    using packet_new_ok [of "[0x80]"] packet_new_ok [of "[0xC0]"] by simp_all
  have "\<exists>t. decode_qp_index 3 (packet_new [0x80]) = (Ok 1, t) \<and>
      packet_unread t = replicate 6 False \<and> packet_ok t"
    by (rule conjunct1 [OF qp_index_correct [OF _ _ r(1)], rule_format]) (use r(3) bits(1) in \<open>simp_all del: packet_bits_simps\<close>)
  moreover have "fst (decode_qp_index 2 (packet_new [0xC0])) = Err (InvalidQuantizerIndex 2 (1 + 1))"
    by (rule conjunct1 [OF conjunct2 [OF qp_index_correct [OF _ _ r(2)]], rule_format,
          where rest = "replicate 6 False"])
      (use r(4) bits(2) in \<open>simp_all add: qp_index_bits_def del: packet_bits_simps\<close>)
  ultimately show ?thesis by auto
qed

text \<open>
  Quantization steps are exact and monotone. For every 8-bit parameter and both shifts the step
  exists (no overflow), the scaled step with shift 1 is twice the scaled step with shift 0, the
  unscaled step is a quarter of the scaled step rounded up, and steps never shrink as the parameter
  grows.
\<close>

theorem quant_map_exact:
  assumes "qp < 256"
  shows "\<exists>s. quant_map qp True 0 = Ok s \<and> 1 \<le> s \<and>
      quant_map qp True 1 = Ok (if qp = 0 then 1 else 2 * s) \<and>
      quant_map qp False shift = Ok ((s + 3) div 4) \<and>
      (\<forall>lower\<le>qp. \<exists>s'. quant_map lower True 0 = Ok s' \<and> s' \<le> s)"
proof (rule exI [of _ "scaled_step qp"], intro conjI allI impI)
  fix lower assume "lower \<le> qp"
  then show "\<exists>s'. quant_map lower True 0 = Ok s' \<and> s' \<le> scaled_step qp"
    using assms scaled_step_mono [of lower qp] quant_map_eq(1) [of lower 0]
    by (auto simp: scaled_step_def)
next
  have "1 \<le> scaled_step 0" by (simp add: scaled_step_def)
  then show "1 \<le> scaled_step qp" using scaled_step_mono [of 0 qp] by linarith
next
  have "quant_map qp False shift = quant_map qp False 0" by (simp add: quant_map_def)
  then show "quant_map qp False shift = Ok ((scaled_step qp + 3) div 4)"
    using quant_map_eq(2) [OF assms, of 0] unscaled_quarter [of qp] by simp
next
  have "2 ^ (qp div 16) = 2 * (2::nat) ^ (qp div 16 - 1)" if "16 \<le> qp"
    using that by (cases "qp div 16") simp_all
  then show "quant_map qp True 1 = Ok (if qp = 0 then 1 else 2 * scaled_step qp)"
    using quant_map_eq(1) [OF assms, of 1] by (auto simp: scaled_step_def)
qed (use quant_map_eq(1) [OF assms, of 0] in \<open>simp add: scaled_step_def\<close>)

lemma quant_map_exact_witness:
  "quant_map 31 True 0 = Ok 31 \<and> quant_map 31 True 1 = Ok 62 \<and> quant_map 31 False 1 = Ok 8"
proof -
  have "quant_map 31 True 0 = Ok 31" by (simp add: quant_map_eq)
  then show ?thesis using quant_map_exact [of 31 1] by auto
qed

end
