(* ===== verification/Cbphp.thy ===== *)
theory Cbphp
  imports Tile_Quantizer Vlc Adaptive Formats
begin

text \<open>
  The coded block patterns of a tile (\<open>crates/jxr-native/src/tile_decode/cbphp.rs\<close>): which blocks of
  a macroblock have high-pass coefficients. A pattern is coded as a residual against a prediction
  from the left and upper neighbours, whose mode adapts to the patterns decoded so far. Patterns are
  16-bit words, bit \<open>i\<close> for block \<open>i\<close> in hierarchical order.
\<close>

section \<open>Codes\<close>

definition NUM_CODE_LISTS :: "vlc_code list list" where
  "NUM_CODE_LISTS = [
    [(1, 1, 0), (1, 2, 1), (1, 3, 2), (0, 4, 3), (1, 4, 4)],
    [(1, 1, 0), (0, 3, 1), (1, 3, 2), (2, 3, 3), (3, 3, 4)]]"

definition NUM_CODE_LISTS_YUV :: "vlc_code list list" where
  "NUM_CODE_LISTS_YUV = [
    [(2, 3, 0), (0, 5, 1), (2, 4, 2), (1, 5, 3), (2, 5, 4), (1, 1, 5), (3, 3, 6), (3, 5, 7), (3, 4, 8)],
    [(1, 1, 0), (1, 3, 1), (2, 3, 2), (1, 4, 3), (1, 6, 4), (3, 3, 5), (1, 5, 6), (0, 7, 7), (1, 7, 8)]]"

definition CHROMA_CODE_LIST :: "vlc_code list" where
  "CHROMA_CODE_LIST = [(1, 1, 0), (1, 2, 1), (0, 2, 2)]"

definition CHROMA_BLOCK_CODE_LIST :: "vlc_code list" where
  "CHROMA_BLOCK_CODE_LIST = [(1, 1, 0), (1, 2, 1), (0, 3, 2), (1, 3, 3)]"

definition REF_TWO_CODE_LIST :: "vlc_code list" where
  "REF_TWO_CODE_LIST = [(0, 2, 3), (1, 2, 5), (4, 3, 6), (5, 3, 9), (6, 3, 10), (7, 3, 12)]"

definition NUM_CODES :: "prefix_table list" where
  "NUM_CODES = map built NUM_CODE_LISTS"

definition NUM_CODES_YUV :: "prefix_table list" where
  "NUM_CODES_YUV = map built NUM_CODE_LISTS_YUV"

definition CHROMA_CODES :: prefix_table where
  "CHROMA_CODES = built CHROMA_CODE_LIST"

definition CHROMA_BLOCK_CODES :: prefix_table where
  "CHROMA_BLOCK_CODES = built CHROMA_BLOCK_CODE_LIST"

definition REF_TWO :: prefix_table where
  "REF_TWO = built REF_TWO_CODE_LIST"

definition DELTA :: "int list" where
  "DELTA = [0, -1, 0, 1, 1]"

definition DELTA_YUV :: "int list" where
  "DELTA_YUV = [2, 2, 1, 1, -1, -2, -2, -2, -3]"

definition BLOCK_OUTPUT :: "16 word list" where
  "BLOCK_OUTPUT = [0, 15, 3, 12, 1, 2, 4, 8, 5, 6, 9, 10, 7, 11, 13, 14]"

definition BLOCK_OFFSET :: "nat list" where
  "BLOCK_OFFSET = [0, 4, 2, 8, 12, 1]"

definition BLOCK_BITS :: "nat list" where
  "BLOCK_BITS = [0, 2, 1, 2, 2, 0]"

section \<open>The table selectors\<close>

record two_table_state =
  tt_table :: nat
  tt_discriminant :: int

definition two_table_new :: two_table_state where
  "two_table_new = \<lparr>tt_table = 0, tt_discriminant = 0\<rparr>"

definition two_table_observe ::
  "nat \<Rightarrow> int list \<Rightarrow> two_table_state \<Rightarrow> (tile_decode_error, two_table_state) result" where
  "two_table_observe symbol delta s =
     let_try (index_or_panic delta symbol) (\<lambda>d.
     let_try (i32_or_panic (tt_discriminant s + d)) (\<lambda>v. Ok (s\<lparr>tt_discriminant := v\<rparr>)))"

definition two_table_adapt :: "two_table_state \<Rightarrow> two_table_state" where
  "two_table_adapt s =
     (if tt_discriminant s < -8 \<and> tt_table s \<noteq> 0
      then s\<lparr>tt_table := tt_table s - 1, tt_discriminant := 0\<rparr>
      else if tt_discriminant s > 8 \<and> tt_table s \<noteq> 1
      then s\<lparr>tt_table := tt_table s + 1, tt_discriminant := 0\<rparr>
      else s\<lparr>tt_discriminant := clamp (-64) 64 (tt_discriminant s)\<rparr>)"

section \<open>Prediction\<close>

record prediction_state =
  ps_state :: int
  ps_ones :: int
  ps_zeroes :: int

definition prediction_new :: prediction_state where
  "prediction_new = \<lparr>ps_state = 0, ps_ones = -4, ps_zeroes = 4\<rparr>"

definition i8_or_panic :: "int \<Rightarrow> (tile_decode_error, int) result" where
  "i8_or_panic x = (if -128 \<le> x \<and> x \<le> 127 then Ok x else Panic)"

definition prediction_update :: "int \<Rightarrow> prediction_state \<Rightarrow> (tile_decode_error, prediction_state) result"
where
  "prediction_update ones_count p =
     let_try (i8_or_panic (ps_ones p + ones_count)) (\<lambda>a.
     let_try (i8_or_panic (a - 3)) (\<lambda>b.
     let_try (i8_or_panic (ps_zeroes p + 16)) (\<lambda>c.
     let_try (i8_or_panic (c - ones_count)) (\<lambda>d.
     let_try (i8_or_panic (d - 3)) (\<lambda>e.
     let ones = clamp (-16) 15 b; zeroes = clamp (-16) 15 e
     in Ok \<lparr>ps_state = (if ones < 0 then (if ones < zeroes then 1 else 2)
              else if zeroes < 0 then 2 else 0),
            ps_ones = ones, ps_zeroes = zeroes\<rparr>)))))"

definition count_ones :: "16 word \<Rightarrow> nat" where
  "count_ones w = length (filter (bit w) [0..<16])"

text \<open>\<open>i8::try_from(..).unwrap_or(16)\<close>.\<close>

definition i8_or_16 :: "nat \<Rightarrow> int" where
  "i8_or_16 n = (if n \<le> 127 then int n else 16)"

definition seed :: "nat \<Rightarrow> nat \<Rightarrow> 16 word option \<Rightarrow> 16 word option \<Rightarrow> 16 word" where
  "seed top_bit left_bit left upper =
     (case (left, upper) of
       (None, None) \<Rightarrow> 1
     | (None, Some upper) \<Rightarrow> drop_bit top_bit upper AND 1
     | (Some left, _) \<Rightarrow> drop_bit left_bit left AND 1)"

definition predict_444 :: "16 word \<Rightarrow> 16 word option \<Rightarrow> 16 word option \<Rightarrow> prediction_state \<Rightarrow>
    (tile_decode_error, 16 word \<times> prediction_state) result" where
  "predict_444 residual left upper p =
     (let actual =
        (if ps_state p = 0 then
           let actual = residual XOR seed 10 5 left upper;
               actual = actual XOR (0x0002 AND push_bit 1 actual);
               actual = actual XOR (0x0010 AND push_bit 3 actual);
               actual = actual XOR (0x0020 AND push_bit 1 actual);
               actual = actual XOR push_bit 2 (actual AND 0x0033);
               actual = actual XOR push_bit 6 (actual AND 0x00CC)
           in actual XOR push_bit 2 (actual AND 0x3300)
         else if ps_state p = 2 then residual XOR 0xFFFF
         else residual)
      in let_try (prediction_update (i8_or_16 (count_ones actual)) p) (\<lambda>p. Ok (actual, p)))"

definition predict_422 :: "16 word \<Rightarrow> 16 word option \<Rightarrow> 16 word option \<Rightarrow> prediction_state \<Rightarrow>
    (tile_decode_error, 16 word \<times> prediction_state) result" where
  "predict_422 residual left upper p =
     (let actual =
        (if ps_state p = 0 then
           let actual = residual XOR seed 6 1 left upper;
               actual = actual XOR push_bit 1 (actual AND 0x01);
               actual = actual XOR push_bit 2 (actual AND 0x03);
               actual = actual XOR push_bit 2 (actual AND 0x0C)
           in actual XOR push_bit 2 (actual AND 0x30)
         else if ps_state p = 2 then residual XOR 0x00FF
         else residual)
      in let_try (prediction_update (i8_or_16 (count_ones actual * 2)) p) (\<lambda>p. Ok (actual, p)))"

definition predict_420 :: "16 word \<Rightarrow> 16 word option \<Rightarrow> 16 word option \<Rightarrow> prediction_state \<Rightarrow>
    (tile_decode_error, 16 word \<times> prediction_state) result" where
  "predict_420 residual left upper p =
     (let actual =
        (if ps_state p = 0 then
           let actual = residual XOR seed 2 1 left upper;
               actual = actual XOR (0x02 AND push_bit 1 actual)
           in actual XOR push_bit 2 (actual AND 0x03)
         else if ps_state p = 2 then residual XOR 0x000F
         else residual)
      in let_try (prediction_update (i8_or_16 (count_ones actual * 4)) p) (\<lambda>p. Ok (actual, p)))"

section \<open>Decoding\<close>

record cbphp_state =
  cb_groups :: two_table_state
  cb_blocks :: two_table_state
  cb_prediction :: "prediction_state list"
  previous_rows :: "16 word list list"

definition cbphp_new_components :: "nat \<Rightarrow> nat \<Rightarrow> cbphp_state" where
  "cbphp_new_components tile_width n =
     \<lparr>cb_groups = two_table_new, cb_blocks = two_table_new,
      cb_prediction = [prediction_new, prediction_new],
      previous_rows = map (\<lambda>_. replicate tile_width 0) [0..<n]\<rparr>"

definition cbphp_new :: "nat \<Rightarrow> cbphp_state" where
  "cbphp_new tile_width = cbphp_new_components tile_width 3"

definition cbphp_adapt :: "cbphp_state \<Rightarrow> cbphp_state" where
  "cbphp_adapt c = c\<lparr>cb_groups := two_table_adapt (cb_groups c),
     cb_blocks := two_table_adapt (cb_blocks c)\<rparr>"

definition read_code :: "prefix_table \<Rightarrow> string \<Rightarrow> nat tile_decoder" where
  "read_code table syntax = from_entropy (decode syntax table)"

definition refine :: "nat \<Rightarrow> 16 word tile_decoder" where
  "refine n =
     (if n = 0 then give 0
      else if n = 1 then run_try (from_entropy (packet_read_bits 2)) (\<lambda>v. give (push_bit v 1))
      else if n = 2 then run_try (read_code REF_TWO ''REF_CBPHP1'') (\<lambda>v. give (of_nat v))
      else if n = 3 then run_try (from_entropy (packet_read_bits 2)) (\<lambda>v. give (0x0F XOR push_bit v 1))
      else if n = 4 then give 0x0F
      else fail (InvalidPlan ''CBPHP group count''))"

text \<open>The block pattern that a value stands for: \<open>BLOCK_OUTPUT[BLOCK_OFFSET[value] + increment]\<close>.\<close>

definition block_pattern :: "string \<Rightarrow> nat \<Rightarrow> 16 word tile_decoder" where
  "block_pattern operation v =
     run_try (pure_try (index_or_panic BLOCK_BITS v)) (\<lambda>bits.
     run_try (if bits = 0 then give 0 else from_entropy (packet_read_bits bits)) (\<lambda>increment.
     run_try (pure_try (index_or_panic BLOCK_OFFSET v)) (\<lambda>offset.
     if usize_max < offset + increment then fail (ArithmeticOverflow operation)
     else pure_try (index_or_panic BLOCK_OUTPUT (offset + increment)))))"

type_synonym 'a cbphp_action = "(packet_reader \<times> cbphp_state, tile_decode_error, 'a) action"

definition on_packet :: "'a tile_decoder \<Rightarrow> (packet_reader \<times> 's, tile_decode_error, 'a) action" where
  "on_packet m = on_part fst (\<lambda>r s. (r, snd s)) m"

text \<open>A code from the selected table, observed by the selector.\<close>

definition observed_code :: "prefix_table list \<Rightarrow> string \<Rightarrow> int list \<Rightarrow>
    (packet_reader \<times> two_table_state, tile_decode_error, nat) action" where
  "observed_code tables syntax delta =
     run_try (\<lambda>(r, s). (index_or_panic tables (tt_table s), r, s)) (\<lambda>table.
     run_try (on_packet (read_code table syntax)) (\<lambda>symbol.
     (\<lambda>(r, s). case two_table_observe symbol delta s of
        Ok s' \<Rightarrow> (Ok symbol, r, s') | Err e \<Rightarrow> (Err e, r, s) | Panic \<Rightarrow> (Panic, r, s))))"

definition on_groups :: "(packet_reader \<times> two_table_state, tile_decode_error, 'a) action \<Rightarrow> 'a cbphp_action"
where
  "on_groups m = on_part (\<lambda>(r, c). (r, cb_groups c)) (\<lambda>(r, s) (_, c). (r, c\<lparr>cb_groups := s\<rparr>)) m"

definition on_blocks :: "(packet_reader \<times> two_table_state, tile_decode_error, 'a) action \<Rightarrow> 'a cbphp_action"
where
  "on_blocks m = on_part (\<lambda>(r, c). (r, cb_blocks c)) (\<lambda>(r, s) (_, c). (r, c\<lparr>cb_blocks := s\<rparr>)) m"

text \<open>Both decoders start with the groups that hold coded blocks.\<close>

definition decode_groups :: "16 word cbphp_action" where
  "decode_groups =
     run_try (on_groups (observed_code NUM_CODES ''NUM_CBPHP'' DELTA)) (\<lambda>group_count.
     on_packet (refine group_count))"

fun component_groups :: "nat list \<Rightarrow> 16 word \<Rightarrow> 16 word \<Rightarrow> 16 word cbphp_action" where
  "component_groups [] groups residual = give residual"
| "component_groups (g # gs) groups residual =
     (if groups AND push_bit g 1 = 0 then component_groups gs groups residual
      else
        run_try (on_blocks (observed_code NUM_CODES ''NUM_BLKCBPHP'' DELTA)) (\<lambda>block_count.
        run_try (on_packet (block_pattern ''CBPHP code'' (block_count + 1))) (\<lambda>pattern.
        component_groups gs groups (residual OR push_bit (g * 4) pattern))))"

definition neighbours ::
  "nat \<Rightarrow> nat \<Rightarrow> nat \<Rightarrow> cbphp_state \<Rightarrow> (tile_decode_error, 16 word option \<times> 16 word option) result" where
  "neighbours component x y c =
     let_try (if y \<noteq> 0 then
         let_try (index_or_panic (previous_rows c) component) (\<lambda>row.
         let_try (index_or_panic row x) (\<lambda>upper. Ok (Some upper)))
       else Ok None) (\<lambda>upper.
     let_try (if x \<noteq> 0 then
         let_try (index_or_panic (previous_rows c) component) (\<lambda>row.
         let_try (index_or_panic row (x - 1)) (\<lambda>left. Ok (Some left)))
       else Ok None) (\<lambda>left. Ok (left, upper)))"

text \<open>Prediction of one component's pattern and the update of its row.\<close>

definition predict_component ::
  "(16 word \<Rightarrow> 16 word option \<Rightarrow> 16 word option \<Rightarrow> prediction_state \<Rightarrow>
     (tile_decode_error, 16 word \<times> prediction_state) result) \<Rightarrow>
    nat \<Rightarrow> nat \<Rightarrow> nat \<Rightarrow> 16 word \<Rightarrow> cbphp_state \<Rightarrow> (tile_decode_error, 16 word \<times> cbphp_state) result" where
  "predict_component predict component x y residual c =
     (let kind = of_bool (component \<noteq> 0) in
      let_try (neighbours component x y c) (\<lambda>(left, upper).
      let_try (index_or_panic (cb_prediction c) kind) (\<lambda>p.
      let_try (predict residual left upper p) (\<lambda>(actual, p).
      let_try (index_or_panic (previous_rows c) component) (\<lambda>row.
      let_try (index_or_panic row x) (\<lambda>_.
      Ok (actual, c\<lparr>cb_prediction := (cb_prediction c)[kind := p],
        previous_rows := (previous_rows c)[component := row[x := actual]]\<rparr>)))))))"

definition on_state :: "(cbphp_state \<Rightarrow> (tile_decode_error, 'a \<times> cbphp_state) result) \<Rightarrow> 'a cbphp_action" where
  "on_state f = (\<lambda>(r, c). case f c of
     Ok (v, c') \<Rightarrow> (Ok v, r, c') | Err e \<Rightarrow> (Err e, r, c) | Panic \<Rightarrow> (Panic, r, c))"

definition decode_component :: "nat \<Rightarrow> nat \<Rightarrow> nat \<Rightarrow> 16 word cbphp_action" where
  "decode_component x y component = (\<lambda>(r, c).
     (if component \<ge> length (previous_rows c) then fail (InvalidPlan ''CBPHP component index'')
      else
        run_try decode_groups (\<lambda>groups.
        run_try (component_groups [0..<4] groups 0) (\<lambda>residual.
        on_state (predict_component predict_444 component x y residual)))) (r, c))"

definition decode_luma :: "nat \<Rightarrow> nat \<Rightarrow> 16 word cbphp_action" where
  "decode_luma x y = decode_component x y 0"

text \<open>Subsampled chroma: one code covers the three components of a g.\<close>

definition chroma_pattern :: "chroma_sampling \<Rightarrow> nat \<Rightarrow> 16 word tile_decoder" where
  "chroma_pattern sampling g =
     (case sampling of
       Cs444 \<Rightarrow>
         run_try (read_code CHROMA_BLOCK_CODES ''NUM_CH_BLK'') (\<lambda>n.
         run_try (refine (n + 1)) (\<lambda>pattern. give (push_bit (g * 4) pattern)))
     | Cs422 \<Rightarrow>
         run_try (read_code CHROMA_CODES ''CBPHP_CH_BLK'') (\<lambda>code.
         run_try (pure_try (index_or_panic [0, 1, 4, 5] (code + 1))) (\<lambda>pattern.
         run_try (pure_try (index_or_panic [0, 1, 4, 5] g)) (\<lambda>shift.
         let v = push_bit shift (pattern :: nat) in
         if v < 2 ^ 16 then give (of_nat v) else fail (ArithmeticOverflow ''YUV422 CBPHP remap''))))
     | Cs420 \<Rightarrow> give (push_bit g 1))"

fun chroma_patterns :: "nat list \<Rightarrow> nat \<Rightarrow> nat \<Rightarrow> chroma_sampling \<Rightarrow> 16 word list \<Rightarrow>
    16 word list tile_decoder" where
  "chroma_patterns [] chroma_mask g sampling residual = give residual"
| "chroma_patterns (component # cs) chroma_mask g sampling residual =
     (if chroma_mask AND push_bit component 1 = 0 then chroma_patterns cs chroma_mask g sampling residual
      else
        run_try (chroma_pattern sampling g) (\<lambda>pattern.
        chroma_patterns cs chroma_mask g sampling
          (residual[component + 1 := residual ! (component + 1) OR pattern])))"

definition decode_yuv_group ::
  "nat \<Rightarrow> nat \<Rightarrow> chroma_sampling \<Rightarrow> 16 word list \<Rightarrow> 16 word list tile_decoder" where
  "decode_yuv_group block_count g sampling residual =
     (let v = block_count + 1 in
      run_try
        (if v \<ge> 6 then
           run_try (read_code CHROMA_CODES ''CHR_CBPHP'') (\<lambda>chroma_mask.
           run_try
             (if v \<ge> 9 then
                run_try (read_code CHROMA_CODES ''VAL_INC'') (\<lambda>increment.
                if usize_max < v + increment then fail (ArithmeticOverflow ''YUV CBPHP value'')
                else give (v + increment))
              else give v) (\<lambda>v. give (v - 6, chroma_mask + 1)))
         else give (v, 0)) (\<lambda>(v, chroma_mask).
      run_try (block_pattern ''YUV CBPHP code'' v) (\<lambda>pattern.
      chroma_patterns [0, 1] chroma_mask g sampling
        (residual[0 := residual ! 0 OR push_bit (g * 4) (pattern AND 0x0F)]))))"

fun yuv_groups :: "nat list \<Rightarrow> 16 word \<Rightarrow> chroma_sampling \<Rightarrow> 16 word list \<Rightarrow> 16 word list cbphp_action" where
  "yuv_groups [] groups sampling residual = give residual"
| "yuv_groups (g # gs) groups sampling residual =
     (if groups AND push_bit g 1 = 0 then yuv_groups gs groups sampling residual
      else
        run_try (on_blocks (observed_code NUM_CODES_YUV ''NUM_BLKCBPHP_YUV'' DELTA_YUV)) (\<lambda>block_count.
        run_try (on_packet (decode_yuv_group block_count g sampling residual)) (\<lambda>residual.
        yuv_groups gs groups sampling residual)))"

definition predictor :: "nat \<Rightarrow> chroma_sampling \<Rightarrow> 16 word \<Rightarrow> 16 word option \<Rightarrow> 16 word option \<Rightarrow>
    prediction_state \<Rightarrow> (tile_decode_error, 16 word \<times> prediction_state) result" where
  "predictor component sampling =
     (if component = 0 then predict_444
      else case sampling of Cs444 \<Rightarrow> predict_444 | Cs422 \<Rightarrow> predict_422 | Cs420 \<Rightarrow> predict_420)"

fun predict_components ::
  "nat list \<Rightarrow> nat \<Rightarrow> nat \<Rightarrow> chroma_sampling \<Rightarrow> 16 word list \<Rightarrow> 16 word list cbphp_action" where
  "predict_components [] x y sampling residual = give residual"
| "predict_components (component # cs) x y sampling residual =
     run_try (on_state (predict_component (predictor component sampling) component x y
       (residual ! component))) (\<lambda>actual.
     predict_components cs x y sampling (residual[component := actual]))"

definition decode_yuv :: "nat \<Rightarrow> nat \<Rightarrow> chroma_sampling \<Rightarrow> 16 word list cbphp_action" where
  "decode_yuv x y sampling =
     run_try decode_groups (\<lambda>groups.
     run_try (yuv_groups [0..<4] groups sampling [0, 0, 0]) (\<lambda>residual.
     predict_components [0..<3] x y sampling residual))"

section \<open>Prediction is a bijection\<close>

text \<open>
  In the state that predicts from a neighbour, the pattern is spread by steps that add a group of
  bits to a disjoint group; each step is its own inverse.
\<close>

definition add_bits :: "nat \<Rightarrow> 16 word \<Rightarrow> 16 word \<Rightarrow> 16 word" where
  "add_bits k m x = x XOR push_bit k (x AND m)"

lemma add_bits_twice:
  assumes "push_bit k m AND m = 0"
  shows "add_bits k m (add_bits k m x) = x"
proof -
  have "push_bit k (push_bit k (x AND m) AND m) = push_bit k (push_bit k x AND (push_bit k m AND m))"
    by (simp add: ac_simps)
  also have "\<dots> = 0" by (simp only: assms) simp
  finally have "push_bit k (push_bit k (x AND m) AND m) = 0" .
  then have "push_bit k ((x XOR push_bit k (x AND m)) AND m) = push_bit k (x AND m)"
    by (simp only: and.commute [of _ m] bit.conj_xor_distrib push_bit_xor) (simp add: and.commute)
  then show ?thesis unfolding add_bits_def by (simp only: xor.assoc) simp
qed

definition spread_444 :: "16 word \<Rightarrow> 16 word" where
  "spread_444 = add_bits 2 0x3300 \<circ> add_bits 6 0x00CC \<circ> add_bits 2 0x0033 \<circ> add_bits 1 0x0010 \<circ>
     add_bits 3 0x0002 \<circ> add_bits 1 0x0001"

definition spread_422 :: "16 word \<Rightarrow> 16 word" where
  "spread_422 = add_bits 2 0x30 \<circ> add_bits 2 0x0C \<circ> add_bits 2 0x03 \<circ> add_bits 1 0x01"

definition spread_420 :: "16 word \<Rightarrow> 16 word" where
  "spread_420 = add_bits 2 0x03 \<circ> add_bits 1 0x01"

definition predicted ::
  "(16 word \<Rightarrow> 16 word) \<Rightarrow> 16 word \<Rightarrow> 16 word \<Rightarrow> prediction_state \<Rightarrow> 16 word \<Rightarrow> 16 word" where
  "predicted spread s every p residual =
     (if ps_state p = 0 then spread (residual XOR s)
      else if ps_state p = 2 then residual XOR every else residual)"

lemma mask_then_shift:
  "0x0002 AND push_bit 1 x = push_bit 1 (x AND 0x0001)"
  "0x0010 AND push_bit 3 x = push_bit 3 (x AND 0x0002)"
  "0x0020 AND push_bit 1 x = push_bit 1 (x AND 0x0010)"
  for x :: "16 word"
proof -
  have "push_bit 1 (0x0001 :: 16 word) = 0x0002" "push_bit 3 (0x0002 :: 16 word) = 0x0010"
    "push_bit 1 (0x0010 :: 16 word) = 0x0020" by code_simp+
  then show "0x0002 AND push_bit 1 x = push_bit 1 (x AND 0x0001)"
    "0x0010 AND push_bit 3 x = push_bit 3 (x AND 0x0002)"
    "0x0020 AND push_bit 1 x = push_bit 1 (x AND 0x0010)"
    by (simp_all only: push_bit_and and.commute)
qed

lemma predict_eq:
  "predict_444 residual left upper p =
    (let actual = predicted spread_444 (seed 10 5 left upper) 0xFFFF p residual in
     let_try (prediction_update (i8_or_16 (count_ones actual)) p) (\<lambda>p. Ok (actual, p)))"
  "predict_422 residual left upper p =
    (let actual = predicted spread_422 (seed 6 1 left upper) 0x00FF p residual in
     let_try (prediction_update (i8_or_16 (count_ones actual * 2)) p) (\<lambda>p. Ok (actual, p)))"
  "predict_420 residual left upper p =
    (let actual = predicted spread_420 (seed 2 1 left upper) 0x000F p residual in
     let_try (prediction_update (i8_or_16 (count_ones actual * 4)) p) (\<lambda>p. Ok (actual, p)))"
  unfolding predict_444_def predict_422_def predict_420_def predicted_def spread_444_def spread_422_def
    spread_420_def comp_def add_bits_def Let_def mask_then_shift by (rule refl)+

lemma add_bits_bij: "push_bit k m AND m = 0 \<Longrightarrow> bij (add_bits k m)"
  by (rule involuntory_imp_bij) (rule add_bits_twice)

lemma spread_bij: "bij spread_444" "bij spread_422" "bij spread_420"
proof -
  have "bij (add_bits 2 0x3300)" "bij (add_bits 6 0x00CC)" "bij (add_bits 2 0x0033)"
    "bij (add_bits 1 0x0010)" "bij (add_bits 3 0x0002)" "bij (add_bits 1 0x0001)"
    "bij (add_bits 2 0x0030)" "bij (add_bits 2 0x000C)" "bij (add_bits 2 0x0003)"
    by (rule add_bits_bij; code_simp)+
  then show "bij spread_444" "bij spread_422" "bij spread_420"
    unfolding spread_444_def spread_422_def spread_420_def by - (intro bij_comp; assumption)+
qed

lemma predicted_bij:
  assumes "bij spread"
  shows "bij (predicted spread s every p)"
proof -
  have xor: "bij (\<lambda>x. x XOR v)" for v :: "16 word"
    by (rule involuntory_imp_bij) (simp add: xor.assoc)
  have "bij (\<lambda>x. spread (x XOR s))" using bij_comp [OF xor assms] by (simp add: comp_def)
  then show ?thesis unfolding predicted_def using xor [of every] bij_id
    by (cases "ps_state p = 0"; cases "ps_state p = 2") (simp_all add: id_def)
qed

text \<open>The low bits of a subsampled pattern are predicted among themselves.\<close>

lemma add_bits_high:
  assumes "drop_bit n (push_bit k m) = 0"
  shows "drop_bit n (add_bits k m x) = drop_bit n x"
proof -
  have "drop_bit n (push_bit k (x AND m)) = drop_bit n (push_bit k x) AND drop_bit n (push_bit k m)"
    by simp
  then show ?thesis using assms by (simp add: add_bits_def)
qed

lemma seed_bit: "seed i j left upper AND 1 = seed i j left upper"
  by (simp add: seed_def and.assoc split: option.split)

lemma seed_high: "0 < n \<Longrightarrow> drop_bit n (seed i j left upper) = 0"
proof -
  assume n: "0 < n"
  have "drop_bit n (seed i j left upper) = drop_bit n (seed i j left upper AND 1)"
    by (simp only: seed_bit)
  also have "\<dots> = drop_bit n (seed i j left upper) AND drop_bit n 1" by (simp only: drop_bit_and)
  also have "drop_bit n (1 :: 16 word) = 0" using n by (cases n) (simp_all add: drop_bit_Suc)
  finally show ?thesis by simp
qed

lemma spread_high:
  "drop_bit 8 (spread_422 x) = drop_bit 8 x" "drop_bit 4 (spread_420 x) = drop_bit 4 x"
proof -
  have "drop_bit 8 (push_bit 2 (0x30 :: 16 word)) = 0" "drop_bit 8 (push_bit 2 (0x0C :: 16 word)) = 0"
    "drop_bit 8 (push_bit 2 (0x03 :: 16 word)) = 0" "drop_bit 8 (push_bit 1 (0x01 :: 16 word)) = 0"
    "drop_bit 4 (push_bit 2 (0x03 :: 16 word)) = 0" "drop_bit 4 (push_bit 1 (0x01 :: 16 word)) = 0"
    by code_simp+
  then show "drop_bit 8 (spread_422 x) = drop_bit 8 x" "drop_bit 4 (spread_420 x) = drop_bit 4 x"
    by (simp_all only: spread_422_def spread_420_def comp_def add_bits_high)
qed

lemma predicted_high:
  "drop_bit 8 (predicted spread_422 (seed i j left upper) 0x00FF p x) = drop_bit 8 x"
  "drop_bit 4 (predicted spread_420 (seed i j left upper) 0x000F p x) = drop_bit 4 x"
proof -
  have "drop_bit 8 (0x00FF :: 16 word) = 0" "drop_bit 4 (0x000F :: 16 word) = 0" by code_simp+
  then show "drop_bit 8 (predicted spread_422 (seed i j left upper) 0x00FF p x) = drop_bit 8 x"
    "drop_bit 4 (predicted spread_420 (seed i j left upper) 0x000F p x) = drop_bit 4 x"
    by (simp_all add: predicted_def spread_high seed_high)
qed

section \<open>The prediction state stays in range\<close>

definition prediction_ok :: "prediction_state \<Rightarrow> bool" where
  "prediction_ok p \<longleftrightarrow> ps_state p \<in> {0, 1, 2} \<and> -16 \<le> ps_ones p \<and> ps_ones p \<le> 15 \<and>
     -16 \<le> ps_zeroes p \<and> ps_zeroes p \<le> 15"

lemma prediction_update_ok:
  assumes "prediction_ok p" "0 \<le> n" "n \<le> 64"
  shows "\<exists>p'. prediction_update n p = Ok p' \<and> prediction_ok p'"
  using assms by (auto simp: prediction_update_def prediction_ok_def i8_or_panic_def clamp_def Let_def)

lemma count_ones_le: "count_ones w \<le> 16"
proof -
  have "length (filter (bit w) [0..<16]) \<le> length [0..<16::nat]" by (rule length_filter_le)
  then show ?thesis unfolding count_ones_def length_upt by linarith
qed

lemma predict_ok:
  assumes "prediction_ok p" "predict \<in> {predict_444, predict_422, predict_420}"
  shows "\<exists>actual p'. predict residual left upper p = Ok (actual, p') \<and> prediction_ok p'"
proof -
  have main: "\<exists>actual p'. (let actual = A in
      let_try (prediction_update (i8_or_16 (count_ones actual * k)) p) (\<lambda>p. Ok (actual, p))) =
      Ok (actual, p') \<and> prediction_ok p'" if "k \<le> 4" for A k
  proof -
    define n where "n = count_ones A * k"
    have "count_ones A * k \<le> 16 * 4" using that count_ones_le by (intro mult_le_mono)
    then obtain p' where "prediction_update (i8_or_16 n) p = Ok p'" "prediction_ok p'"
      using prediction_update_ok [OF assms(1), of "int n"] by (auto simp: i8_or_16_def n_def [symmetric])
    then show ?thesis by (simp add: Let_def n_def)
  qed
  show ?thesis using assms(2) main [of 1] main [of 2] main [of 4] by (auto simp: predict_eq Let_def)
qed

section \<open>Decoding never panics\<close>

definition table_state_ok :: "int \<Rightarrow> two_table_state \<Rightarrow> bool" where
  "table_state_ok B s \<longleftrightarrow> tt_table s < 2 \<and> \<bar>tt_discriminant s\<bar> \<le> B"

definition cbphp_ok :: "nat \<Rightarrow> nat \<Rightarrow> int \<Rightarrow> cbphp_state \<Rightarrow> bool" where
  "cbphp_ok n w B c \<longleftrightarrow> table_state_ok B (cb_groups c) \<and> table_state_ok B (cb_blocks c) \<and>
     length (cb_prediction c) = 2 \<and> (\<forall>p\<in>set (cb_prediction c). prediction_ok p) \<and>
     length (previous_rows c) = n \<and> (\<forall>row\<in>set (previous_rows c). length row = w)"

lemma table_state_mono: "table_state_ok B s \<Longrightarrow> B \<le> C \<Longrightarrow> table_state_ok C s"
  by (auto simp: table_state_ok_def)

lemma cbphp_ok_mono: "cbphp_ok n w B c \<Longrightarrow> B \<le> C \<Longrightarrow> cbphp_ok n w C c"
  by (auto simp: cbphp_ok_def intro: table_state_mono)

lemma observe_ok:
  assumes "table_state_ok B s" "B + 3 \<le> i32_max" "symbol < length delta" "\<forall>d\<in>set delta. \<bar>d\<bar> \<le> 3"
  shows "\<exists>s'. two_table_observe symbol delta s = Ok s' \<and> table_state_ok (B + 3) s'"
proof -
  have "\<bar>delta ! symbol\<bar> \<le> 3" using assms(3,4) by simp
  then show ?thesis using assms(1-3)
    by (auto simp: two_table_observe_def table_state_ok_def i32_or_panic_def in_i32_def)
qed

lemma adapt_ok:
  assumes "table_state_ok B s"
  shows "table_state_ok 64 (two_table_adapt s)"
  using assms by (auto simp: two_table_adapt_def table_state_ok_def clamp_def)

lemma coded_lists:
  "list_all well_coded (NUM_CODE_LISTS @ NUM_CODE_LISTS_YUV @
     [CHROMA_CODE_LIST, CHROMA_BLOCK_CODE_LIST, REF_TWO_CODE_LIST])"
  "list_all (\<lambda>codes. list_all (\<lambda>s. s < 5) (symbols codes)) NUM_CODE_LISTS"
  "list_all (\<lambda>codes. list_all (\<lambda>s. s < 9) (symbols codes)) NUM_CODE_LISTS_YUV"
  "list_all (\<lambda>s. s < 3) (symbols CHROMA_CODE_LIST)"
  "list_all (\<lambda>s. s < 4) (symbols CHROMA_BLOCK_CODE_LIST)"
  by code_simp+

lemma read_code_upholds:
  assumes "well_coded codes"
  shows "upholds packet_ok (read_code (built codes) syntax) (\<lambda>s. s \<in> set (symbols codes))"
  unfolding read_code_def
proof (rule from_entropy_upholds, rule upholdsI)
  fix r :: packet_reader assume r: "packet_ok r"
  obtain x t where d: "decode syntax (built codes) r = (x, t)" by (cases "decode syntax (built codes) r")
  note n = well_coded_decode [OF assms r d]
  show "packet_ok (snd (decode syntax (built codes) r))"
    "fst (decode syntax (built codes) r) \<noteq> Panic" using n d by auto
  show "s \<in> set (symbols codes)" if "fst (decode syntax (built codes) r) = Ok s" for s
    using n(3) d that by auto
qed

lemma chroma_code_upholds: "upholds packet_ok (read_code CHROMA_CODES name) (\<lambda>s. s < 3)"
  unfolding CHROMA_CODES_def
  by (rule upholds_mono [OF read_code_upholds]) (use coded_lists(1,4) in \<open>auto simp: list_all_iff\<close>)

lemma observed_code_leads:
  assumes codes: "length codes = 2" "\<forall>c\<in>set codes. well_coded c"
    and sym: "\<forall>c\<in>set codes. \<forall>s\<in>set (symbols c). s < length delta"
    and delta: "\<forall>d\<in>set delta. \<bar>d\<bar> \<le> 3" and B: "B + 3 \<le> i32_max"
  shows "leads (\<lambda>(r, s). packet_ok r \<and> table_state_ok B s)
    (observed_code (map built codes) syntax delta)
    (\<lambda>(r, s). packet_ok r \<and> table_state_ok (B + 3) s) (\<lambda>s. s < length delta)"
  unfolding observed_code_def
proof (rule leads_bind)
  let ?I = "\<lambda>B (r, s). packet_ok r \<and> table_state_ok B s"
  show "leads (?I B) (\<lambda>(r, s). (index_or_panic (map built codes) (tt_table s), r, s)) (?I B)
      (\<lambda>table. \<exists>c\<in>set codes. table = built c)"
    by (rule leadsI) (auto simp: table_state_ok_def codes(1))
  fix table assume "\<exists>c\<in>set codes. table = built c"
  then obtain c where c: "c \<in> set codes" "table = built c" by blast
  show "leads (?I B) (run_try (on_packet (read_code table syntax)) (\<lambda>symbol. (\<lambda>(r, s).
      case two_table_observe symbol delta s of
        Ok s' \<Rightarrow> (Ok symbol, r, s') | Err e \<Rightarrow> (Err e, r, s) | Panic \<Rightarrow> (Panic, r, s)))) (?I (B + 3))
      (\<lambda>s. s < length delta)"
  proof (rule leads_bind)
    show "leads (?I B) (on_packet (read_code table syntax)) (?I B) (\<lambda>s. s < length delta)"
      unfolding on_packet_def c(2)
      by (rule leads_on_part [where I = packet_ok and J = packet_ok], unfold leads_upholds,
          rule upholds_mono [OF read_code_upholds])
        (use c(1) codes(2) sym in auto)
    fix symbol assume s: "symbol < length delta"
    show "leads (?I B) (\<lambda>(r, s). case two_table_observe symbol delta s of
        Ok s' \<Rightarrow> (Ok symbol, r, s') | Err e \<Rightarrow> (Err e, r, s) | Panic \<Rightarrow> (Panic, r, s)) (?I (B + 3))
        (\<lambda>s. s < length delta)"
      by (rule leadsI) (use observe_ok [OF _ B s delta] s in fastforce)+
  qed (auto intro: table_state_mono)
qed (auto intro: table_state_mono)

lemma luma_tables:
  "length NUM_CODE_LISTS = 2" "\<forall>c\<in>set NUM_CODE_LISTS. well_coded c"
  "\<forall>c\<in>set NUM_CODE_LISTS. \<forall>s\<in>set (symbols c). s < length DELTA" "\<forall>d\<in>set DELTA. \<bar>d\<bar> \<le> 3"
proof -
  have "length DELTA = 5" by (simp add: DELTA_def)
  then show "\<forall>c\<in>set NUM_CODE_LISTS. \<forall>s\<in>set (symbols c). s < length DELTA"
    using coded_lists(2) by (simp add: list_all_iff)
qed (use coded_lists(1) in \<open>auto simp: list_all_iff DELTA_def\<close>, simp add: NUM_CODE_LISTS_def)

lemma yuv_tables:
  "length NUM_CODE_LISTS_YUV = 2" "\<forall>c\<in>set NUM_CODE_LISTS_YUV. well_coded c"
  "\<forall>c\<in>set NUM_CODE_LISTS_YUV. \<forall>s\<in>set (symbols c). s < length DELTA_YUV" "\<forall>d\<in>set DELTA_YUV. \<bar>d\<bar> \<le> 3"
proof -
  have "length DELTA_YUV = 9" by (simp add: DELTA_YUV_def)
  then show "\<forall>c\<in>set NUM_CODE_LISTS_YUV. \<forall>s\<in>set (symbols c). s < length DELTA_YUV"
    using coded_lists(3) by (simp add: list_all_iff)
qed (use coded_lists(1) in \<open>auto simp: list_all_iff DELTA_YUV_def\<close>, simp add: NUM_CODE_LISTS_YUV_def)

definition st :: "nat \<Rightarrow> nat \<Rightarrow> int \<Rightarrow> packet_reader \<times> cbphp_state \<Rightarrow> bool" where
  "st n w B = (\<lambda>(r, c). packet_ok r \<and> cbphp_ok n w B c)"

lemma table_st_mono: "st n w B s \<Longrightarrow> B \<le> C \<Longrightarrow> st n w C s"
  by (auto simp: st_def intro: cbphp_ok_mono)

lemma packet_leads: "upholds packet_ok m Q \<Longrightarrow> leads (st n w B) (on_packet m) (st n w B) Q"
  unfolding on_packet_def by (rule leads_on_part [where I = packet_ok and J = packet_ok])
    (auto simp: leads_upholds st_def)

lemma blocks_leads:
  assumes "leads (\<lambda>(r, s). packet_ok r \<and> table_state_ok B s) m
      (\<lambda>(r, s). packet_ok r \<and> table_state_ok (B + 3) s) Q"
  shows "leads (st n w B) (on_blocks m) (st n w (B + 3)) Q" "leads (st n w B) (on_groups m) (st n w (B + 3)) Q"
  unfolding on_blocks_def on_groups_def
  by (rule leads_on_part [OF assms]; auto simp: st_def cbphp_ok_def intro: table_state_mono)+

lemma refine_upholds: "upholds packet_ok (refine n) (\<lambda>_. True)"
proof -
  have "upholds packet_ok (read_code REF_TWO name) (\<lambda>_. True)" for name
    unfolding REF_TWO_def
    by (rule upholds_mono [OF read_code_upholds]) (use coded_lists(1) in \<open>simp_all add: list_all_iff\<close>)
  then show ?thesis unfolding refine_def
    by (intro upholds_if upholds_fail upholds_bind [OF qp_bits_upholds] upholds_give TrueI
        upholds_bind [of _ "read_code REF_TWO name" "\<lambda>_. True" for name]) simp_all
qed

lemma block_pattern_upholds:
  assumes "v < 6"
  shows "upholds packet_ok (block_pattern operation v) (\<lambda>_. True)"
proof -
  have fits: "length BLOCK_BITS = 6" "length BLOCK_OFFSET = 6" "length BLOCK_OUTPUT = 16"
    "BLOCK_BITS ! v \<le> 64" "BLOCK_OFFSET ! v + 2 ^ (BLOCK_BITS ! v) \<le> 16"
    using assms by (auto simp: BLOCK_BITS_def BLOCK_OFFSET_def BLOCK_OUTPUT_def less_Suc_eq numeral_eq_Suc)
  have "upholds packet_ok (if BLOCK_BITS ! v = 0 then give 0
      else from_entropy (packet_read_bits (BLOCK_BITS ! v))) (\<lambda>i. BLOCK_OFFSET ! v + i < 16)"
    using fits(4,5) by (intro upholds_if upholds_give upholds_mono [OF qp_bits_upholds]) simp_all
  then have "upholds packet_ok (run_try (if BLOCK_BITS ! v = 0 then give 0
      else from_entropy (packet_read_bits (BLOCK_BITS ! v))) (\<lambda>increment.
      if usize_max < BLOCK_OFFSET ! v + increment then fail (ArithmeticOverflow operation)
      else pure_try (index_or_panic BLOCK_OUTPUT (BLOCK_OFFSET ! v + increment)))) (\<lambda>_. True)"
    by (rule upholds_bind) (auto intro: upholds_pure simp: fits(3))
  then show ?thesis unfolding block_pattern_def using assms by (simp add: fits(1,2))
qed

lemma decode_groups_leads:
  assumes "B + 3 \<le> i32_max"
  shows "leads (st n w B) decode_groups (st n w (B + 3)) (\<lambda>_. True)"
  unfolding decode_groups_def NUM_CODES_def
  by (rule leads_bind [OF blocks_leads(2) [OF observed_code_leads [OF luma_tables assms]]])
    (auto intro: packet_leads refine_upholds table_st_mono)

lemma component_groups_leads:
  "B + 3 * int (length gs) \<le> i32_max \<Longrightarrow>
    leads (st n w B) (component_groups gs groups residual) (st n w (B + 3 * int (length gs))) (\<lambda>_. True)"
proof (induction gs arbitrary: B residual)
  case Nil
  then show ?case by (simp add: leads_def)
next
  case (Cons g gs)
  let ?C = "B + 3 * int (length (g # gs))"
  have B: "B + 3 + 3 * int (length gs) = ?C" by simp
  have IH: "leads (st n w (B + 3)) (component_groups gs groups residual) (st n w ?C) (\<lambda>_. True)" for residual
    using Cons.IH [of "B + 3"] Cons.prems unfolding B by simp
  have skip: "leads (st n w B) (component_groups gs groups residual) (st n w ?C) (\<lambda>_. True)"
    using IH by (rule leads_weaken) (auto intro: table_st_mono)
  have "leads (st n w B) (on_blocks (observed_code NUM_CODES ''NUM_BLKCBPHP'' DELTA)) (st n w (B + 3))
      (\<lambda>s. s < length DELTA)"
    unfolding NUM_CODES_def using Cons.prems
    by (intro blocks_leads(1) observed_code_leads [OF luma_tables]) simp
  then have "leads (st n w B) (run_try (on_blocks (observed_code NUM_CODES ''NUM_BLKCBPHP'' DELTA)) (\<lambda>block_count.
      run_try (on_packet (block_pattern ''CBPHP code'' (block_count + 1))) (\<lambda>pattern.
      component_groups gs groups (residual OR push_bit (g * 4) pattern)))) (st n w ?C) (\<lambda>_. True)"
  proof (rule leads_bind)
    fix s assume "s < length DELTA"
    then have "s + 1 < 6" by (simp add: DELTA_def)
    then show "leads (st n w (B + 3)) (run_try (on_packet (block_pattern ''CBPHP code'' (s + 1))) (\<lambda>pattern.
        component_groups gs groups (residual OR push_bit (g * 4) pattern))) (st n w ?C) (\<lambda>_. True)"
      by (intro leads_bind [OF packet_leads [OF block_pattern_upholds]] IH) (auto intro: table_st_mono)
  qed (auto intro: table_st_mono)
  then show ?case using skip by simp
qed

lemma predict_component_ok:
  assumes "cbphp_ok n w B c" "component < n" "x < w" "predict \<in> {predict_444, predict_422, predict_420}"
  shows "\<exists>actual c'. predict_component predict component x y residual c = Ok (actual, c') \<and>
    cbphp_ok n w B c'"
proof -
  have row: "length (previous_rows c ! component) = w" "component < length (previous_rows c)"
    using assms(1,2) by (auto simp: cbphp_ok_def)
  let ?row = "previous_rows c ! component"
  let ?left = "if x \<noteq> 0 then Some (?row ! (x - 1)) else None"
  let ?upper = "if y \<noteq> 0 then Some (?row ! x) else None"
  have near: "neighbours component x y c = Ok (?left, ?upper)"
    using row assms(3) by (auto simp: neighbours_def)
  let ?p = "cb_prediction c ! of_bool (component \<noteq> 0)"
  have p: "of_bool (component \<noteq> 0) < length (cb_prediction c)"
    using assms(1) by (simp add: cbphp_ok_def)
  then have "prediction_ok ?p" using assms(1) nth_mem [OF p] by (simp add: cbphp_ok_def)
  then obtain actual p' where "predict residual ?left ?upper ?p = Ok (actual, p')" "prediction_ok p'"
    using predict_ok [OF _ assms(4)] by blast
  then show ?thesis
    using near row p assms(1,3)
    by (auto simp: predict_component_def cbphp_ok_def Let_def dest!: set_update_subset_insert [THEN subsetD])
qed

lemma predict_component_leads:
  assumes "component < n" "x < w" "predict \<in> {predict_444, predict_422, predict_420}"
  shows "leads (st n w B) (on_state (predict_component predict component x y residual)) (st n w B) (\<lambda>_. True)"
  unfolding leads_def
proof (intro allI impI)
  fix s assume "st n w B s"
  then obtain r c where s: "s = (r, c)" and ok: "packet_ok r" "cbphp_ok n w B c" by (auto simp: st_def)
  obtain actual c' where "predict_component predict component x y residual c = Ok (actual, c')"
    "cbphp_ok n w B c'" using predict_component_ok [OF ok(2) assms] by blast
  then show "st n w B (snd (on_state (predict_component predict component x y residual) s)) \<and>
      (case fst (on_state (predict_component predict component x y residual) s) of
        Ok v \<Rightarrow> True | Err e \<Rightarrow> True | Panic \<Rightarrow> False)"
    using ok(1) by (simp add: s on_state_def st_def)
qed

lemma decode_component_leads:
  assumes "B + 15 \<le> i32_max" "x < w"
  shows "leads (st n w B) (decode_component x y component) (st n w (B + 15)) (\<lambda>_. True)"
proof (cases "component < n")
  case True
  have "leads (st n w B) (run_try decode_groups (\<lambda>groups.
      run_try (component_groups [0..<4] groups 0) (\<lambda>residual.
      on_state (predict_component predict_444 component x y residual)))) (st n w (B + 15)) (\<lambda>_. True)"
  proof (rule leads_bind [OF decode_groups_leads])
    have "leads (st n w (B + 3)) (component_groups [0..<4] groups 0) (st n w (B + 15)) (\<lambda>_. True)" for groups
      using component_groups_leads [of "B + 3" "[0..<4]" n w groups 0] assms(1) by (simp add: add.commute)
    then show "leads (st n w (B + 3)) (run_try (component_groups [0..<4] groups 0) (\<lambda>residual.
      on_state (predict_component predict_444 component x y residual))) (st n w (B + 15)) (\<lambda>_. True)" for groups
      by (rule leads_bind) (use assms(2) True in \<open>auto intro: predict_component_leads\<close>)
  qed (use assms in \<open>auto intro: table_st_mono\<close>)
  then show ?thesis using True by (force simp: leads_def decode_component_def st_def cbphp_ok_def)
next
  case False
  then show ?thesis
    by (auto simp: leads_def decode_component_def st_def cbphp_ok_def intro: table_state_mono)
qed

lemma chroma_pattern_upholds:
  assumes "g < 4"
  shows "upholds packet_ok (chroma_pattern sampling g) (\<lambda>_. True)"
proof (cases sampling)
  case Cs444
  then show ?thesis unfolding chroma_pattern_def CHROMA_BLOCK_CODES_def
    using coded_lists(1)
    by (auto simp: list_all_iff intro!: upholds_bind [OF read_code_upholds] upholds_bind [OF refine_upholds]
        upholds_give)
next
  case Cs422
  have "upholds packet_ok (run_try (pure_try (index_or_panic [0, 1, 4, 5] (code + 1))) (\<lambda>pattern.
      run_try (pure_try (index_or_panic [0, 1, 4, 5] g)) (\<lambda>shift.
      let v = push_bit shift (pattern :: nat) in
      if v < 2 ^ 16 then give (of_nat v) else fail (ArithmeticOverflow e)))) (\<lambda>_. True)"
    if "code < 3" for code e
    using that assms by (simp add: Let_def) (intro conjI impI upholds_give, simp_all)
  then show ?thesis unfolding chroma_pattern_def Cs422
    by (simp only: chroma_sampling.case) (rule upholds_bind [OF chroma_code_upholds])
next
  case Cs420
  then show ?thesis by (simp add: chroma_pattern_def upholds_def)
qed

lemma chroma_patterns_upholds:
  "g < 4 \<Longrightarrow> length residual = k \<Longrightarrow>
    upholds packet_ok (chroma_patterns cs chroma_mask g sampling residual) (\<lambda>res. length res = k)"
proof (induction cs arbitrary: residual)
  case (Cons component cs)
  then show ?case
    by (auto intro!: upholds_bind [OF chroma_pattern_upholds])
qed (simp add: upholds_def)

lemma decode_yuv_group_upholds:
  assumes "block_count < 9" "g < 4" "length residual = k"
  shows "upholds packet_ok (decode_yuv_group block_count g sampling residual) (\<lambda>res. length res = k)"
  unfolding decode_yuv_group_def Let_def
proof (rule upholds_bind2 [where P = "\<lambda>v _. v < 6"])
  let ?v = "block_count + 1"
  have "upholds packet_ok (if ?v \<ge> 9 then
      run_try (read_code CHROMA_CODES name) (\<lambda>increment.
        if usize_max < ?v + increment then fail e else give (?v + increment))
      else give ?v) (\<lambda>v. v < 12)" for name e
    using assms(1) by (intro upholds_if upholds_bind [OF chroma_code_upholds] upholds_fail upholds_give) simp_all
  then have "upholds packet_ok (run_try (if ?v \<ge> 9 then
      run_try (read_code CHROMA_CODES name) (\<lambda>increment.
        if usize_max < ?v + increment then fail e else give (?v + increment))
      else give ?v) (\<lambda>v. give (v - 6, m + 1))) (\<lambda>(v, _). v < 6)" for name e and m :: nat
    by (rule upholds_bind) (auto intro: upholds_give)
  then show "upholds packet_ok (if 6 \<le> ?v then
      run_try (read_code CHROMA_CODES ''CHR_CBPHP'') (\<lambda>chroma_mask.
      run_try (if 9 \<le> ?v then
        run_try (read_code CHROMA_CODES ''VAL_INC'') (\<lambda>increment.
          if usize_max < ?v + increment then fail (ArithmeticOverflow ''YUV CBPHP value'')
          else give (?v + increment))
        else give ?v) (\<lambda>v. give (v - 6, chroma_mask + 1)))
      else give (?v, 0)) (\<lambda>(v, _). v < 6)"
    by (intro upholds_if upholds_bind [OF chroma_code_upholds] upholds_give) simp_all
  fix v :: nat and chroma_mask :: nat
  assume "v < 6"
  then show "upholds packet_ok (run_try (block_pattern ''YUV CBPHP code'' v) (\<lambda>pattern.
      chroma_patterns [0, 1] chroma_mask g sampling
        (residual[0 := residual ! 0 OR push_bit (g * 4) (pattern AND 0x0F)]))) (\<lambda>res. length res = k)"
    using assms(2,3) by (intro upholds_bind [OF block_pattern_upholds] chroma_patterns_upholds) simp_all
qed

lemma yuv_groups_leads:
  "B + 3 * int (length gs) \<le> i32_max \<Longrightarrow> \<forall>g\<in>set gs. g < 4 \<Longrightarrow> length residual = k \<Longrightarrow>
    leads (st n w B) (yuv_groups gs groups sampling residual) (st n w (B + 3 * int (length gs)))
      (\<lambda>res. length res = k)"
proof (induction gs arbitrary: B residual)
  case Nil
  then show ?case by (simp add: leads_def)
next
  case (Cons g gs)
  let ?C = "B + 3 * int (length (g # gs))"
  have B: "B + 3 + 3 * int (length gs) = ?C" by simp
  have IH: "leads (st n w (B + 3)) (yuv_groups gs groups sampling residual) (st n w ?C) (\<lambda>res. length res = k)"
    if "length residual = k" for residual
    using Cons.IH [of "B + 3" residual] Cons.prems that unfolding B by simp
  have skip: "leads (st n w B) (yuv_groups gs groups sampling residual) (st n w ?C) (\<lambda>res. length res = k)"
    using IH [OF Cons.prems(3)] by (rule leads_weaken) (auto intro: table_st_mono)
  have "leads (st n w B) (on_blocks (observed_code NUM_CODES_YUV ''NUM_BLKCBPHP_YUV'' DELTA_YUV))
      (st n w (B + 3)) (\<lambda>s. s < length DELTA_YUV)"
    unfolding NUM_CODES_YUV_def using Cons.prems
    by (intro blocks_leads(1) observed_code_leads [OF yuv_tables]) simp
  then have "leads (st n w B)
      (run_try (on_blocks (observed_code NUM_CODES_YUV ''NUM_BLKCBPHP_YUV'' DELTA_YUV)) (\<lambda>block_count.
      run_try (on_packet (decode_yuv_group block_count g sampling residual)) (\<lambda>residual.
      yuv_groups gs groups sampling residual))) (st n w ?C) (\<lambda>res. length res = k)"
  proof (rule leads_bind)
    fix s assume "s < length DELTA_YUV"
    then have "s < 9" by (simp add: DELTA_YUV_def)
    then show "leads (st n w (B + 3)) (run_try (on_packet (decode_yuv_group s g sampling residual)) (\<lambda>residual.
        yuv_groups gs groups sampling residual)) (st n w ?C) (\<lambda>res. length res = k)"
      using Cons.prems(2,3)
      by (intro leads_bind [OF packet_leads [OF decode_yuv_group_upholds]] IH) (auto intro: table_st_mono)
  qed (auto intro: table_st_mono)
  then show ?case using skip by simp
qed

lemma predict_components_leads:
  "\<forall>component\<in>set cs. component < n \<Longrightarrow> x < w \<Longrightarrow>
    leads (st n w B) (predict_components cs x y sampling residual) (st n w B) (\<lambda>_. True)"
proof (induction cs arbitrary: residual)
  case (Cons component cs)
  have "predictor component sampling \<in> {predict_444, predict_422, predict_420}"
    by (cases sampling) (simp_all add: predictor_def)
  then show ?case using Cons
    by (auto intro!: leads_bind [OF predict_component_leads] simp del: insert_iff)
qed (simp add: leads_def)

lemma decode_yuv_leads:
  assumes "B + 15 \<le> i32_max" "x < w" "3 \<le> n"
  shows "leads (st n w B) (decode_yuv x y sampling) (st n w (B + 15)) (\<lambda>_. True)"
  unfolding decode_yuv_def
proof (rule leads_bind [OF decode_groups_leads])
  have "leads (st n w (B + 3)) (yuv_groups [0..<4] groups sampling [0, 0, 0]) (st n w (B + 15))
      (\<lambda>res. length res = 3)" for groups
    using yuv_groups_leads [of "B + 3" "[0..<4]" "[0, 0, 0]" 3 n w groups sampling] assms(1)
    by (simp add: add.commute)
  then show "leads (st n w (B + 3)) (run_try (yuv_groups [0..<4] groups sampling [0, 0, 0]) (\<lambda>residual.
      predict_components [0..<3] x y sampling residual)) (st n w (B + 15)) (\<lambda>_. True)" for groups
    by (rule leads_bind) (use assms in \<open>auto intro: predict_components_leads\<close>)
qed (use assms in \<open>auto intro: table_st_mono\<close>)

section \<open>Writing patterns\<close>

text \<open>What an encoder writes for a symbol, a group mask and a block pattern.\<close>

definition code_bits :: "vlc_code list \<Rightarrow> nat \<Rightarrow> bool list" where
  "code_bits codes s = (case find (\<lambda>(b, l, t). t = s) codes of
     Some (b, l, t) \<Rightarrow> nat_bits l b | None \<Rightarrow> [])"

definition bit_count :: "nat \<Rightarrow> nat" where
  "bit_count v = length (filter (bit v) [0..<4])"

definition refine_bits :: "nat \<Rightarrow> bool list" where
  "refine_bits v =
     (if bit_count v = 1 then nat_bits 2 (hd (filter (bit v) [0..<4]))
      else if bit_count v = 2 then code_bits REF_TWO_CODE_LIST v
      else if bit_count v = 3 then nat_bits 2 (hd (filter (\<lambda>i. \<not> bit v i) [0..<4]))
      else [])"

text \<open>The value (one more than the coded symbol) and the increment of a block pattern.\<close>

definition block_value :: "16 word \<Rightarrow> nat \<times> nat" where
  "block_value pattern =
     hd (filter (\<lambda>(v, increment). BLOCK_OUTPUT ! (BLOCK_OFFSET ! v + increment) = pattern)
       (concat (map (\<lambda>v. map (Pair v) [0..<2 ^ (BLOCK_BITS ! v)]) [1..<6])))"

definition nibble :: "16 word \<Rightarrow> nat \<Rightarrow> 16 word" where
  "nibble residual g = take_bit 4 (drop_bit (g * 4) residual)"

definition group_mask :: "16 word \<Rightarrow> nat" where
  "group_mask residual = horner_sum of_bool 2 (map (\<lambda>g. nibble residual g \<noteq> 0) [0..<4])"

definition block_bits :: "vlc_code list \<Rightarrow> 16 word \<Rightarrow> bool list" where
  "block_bits codes pattern =
     (if pattern = 0 then []
      else code_bits codes (fst (block_value pattern) - 1) @
        nat_bits (BLOCK_BITS ! fst (block_value pattern)) (snd (block_value pattern)))"

definition written_residual :: "vlc_code list \<Rightarrow> vlc_code list \<Rightarrow> 16 word \<Rightarrow> bool list" where
  "written_residual group_codes block_codes residual =
     (code_bits group_codes (bit_count (group_mask residual)) @ refine_bits (group_mask residual)) @
     concat (map (\<lambda>g. block_bits block_codes (nibble residual g)) [0..<4])"

lemma code_bits_reads:
  assumes "well_coded codes" "s \<in> set (symbols codes)"
  shows "reads (read_code (built codes) syntax) (code_bits codes s) s"
  unfolding read_code_def
proof (rule reads_entropy)
  fix r rest assume r: "packet_ok r" "packet_unread r = code_bits codes s @ rest"
  note built = well_coded_built [OF assms(1)]
  have "find (\<lambda>(b, l, t). t = s) codes \<noteq> None"
    using assms(2) by (auto simp: find_None_iff symbols_def)
  then obtain b l t where found: "find (\<lambda>(b, l, t). t = s) codes = Some (b, l, t)" by auto
  then have "t = s" by (auto simp: find_Some_iff)
  then have c: "find (\<lambda>(b, l, t). t = s) codes = Some (b, l, s)" using found by simp
  then have mem: "(b, l, s) \<in> set codes" by (auto simp: find_Some_iff in_set_conv_nth)
  then have l: "l \<le> 8" "b < 2 ^ l" using built(2) by (auto simp: table_for_def code_ok_def)
  have u: "packet_unread r = nat_bits l b @ rest" using r(2) c by (simp add: code_bits_def)
  then have here: "l \<le> length (packet_unread r)" "bits_val (take l (packet_unread r)) = b"
    using l(2) by (simp_all add: bits_val_nat_bits)
  obtain x t where d: "decode syntax (built codes) r = (x, t)" by (cases "decode syntax (built codes) r")
  note out = decode_outcome [OF built(2,3) r(1) d]
  obtain c' l' s' where found: "(c', l', s') \<in> set codes" "l' \<le> length (packet_unread r)"
    "bits_val (take l' (packet_unread r)) = c'" "x = Ok s'" "packet_unread t = drop l' (packet_unread r)"
    using out(3) mem here by blast
  have "l' \<le> 8" using found(1) built(2) by (auto simp: table_for_def code_ok_def)
  obtain p w where peek: "peek_byte r = (p, w)" by (cases "peek_byte r")
  note bits = peek_byte_bits(1) [OF r(1) peek]
  have "covers (b, l, s) (unat p)" "covers (c', l', s') (unat p)"
    using peeked_covers [OF bits l(1) here(1), of b s] here(2)
      peeked_covers [OF bits \<open>l' \<le> 8\<close> found(2), of c' s'] found(3) by simp_all
  moreover have "unat p < 256" using unsigned_less [where 'a = nat, of p] by simp
  ultimately have "(b, l, s) = (c', l', s')"
    using built(2) mem found(1) unfolding table_for_def by blast
  then show "\<exists>t. decode syntax (built codes) r = (Ok s, t) \<and> packet_unread t = rest \<and> packet_ok t"
    using d found(4,5) u out(1) by simp
qed

definition refine_fits :: "nat \<Rightarrow> bool" where
  "refine_fits v =
     (let n = bit_count v; one = hd (filter (bit v) [0..<4]); none = hd (filter (\<lambda>i. \<not> bit v i) [0..<4])
      in if n = 0 then v = 0
         else if n = 1 then one < 4 \<and> push_bit one 1 = (of_nat v :: 16 word)
         else if n = 2 then v \<in> set (symbols REF_TWO_CODE_LIST)
         else if n = 3 then none < 4 \<and> 0x0F XOR push_bit none 1 = (of_nat v :: 16 word)
         else n = 4 \<and> v = 15)"

lemma refine_fits_all: "list_all refine_fits [0..<16]"
  by code_simp

lemma refine_reads:
  assumes "v < 16"
  shows "reads (refine (bit_count v)) (refine_bits v) (of_nat v)"
proof -
  have single: "reads (refine 1) (nat_bits 2 i) (push_bit i 1)" if "i < 4" for i
    unfolding refine_def using that
    by simp (rule reads_last [OF reads_bits], simp_all add: reads_give)
  have triple: "reads (refine 3) (nat_bits 2 i) (0x0F XOR push_bit i 1)" if "i < 4" for i
    unfolding refine_def using that
    by simp (rule reads_last [OF reads_bits], simp_all add: reads_give)
  have pair: "reads (refine 2) (code_bits REF_TWO_CODE_LIST s) (of_nat s)"
    if "s \<in> set (symbols REF_TWO_CODE_LIST)" for s
    unfolding refine_def REF_TWO_def using that coded_lists(1)
    by simp (rule reads_last [OF code_bits_reads], simp_all add: reads_give list_all_iff)
  have "refine_fits v" using refine_fits_all assms by (simp add: list_all_iff del: upt_rec_numeral)
  then consider "bit_count v = 0" "v = 0" | "bit_count v = 1" "refine_fits v" | "bit_count v = 2" "refine_fits v"
    | "bit_count v = 3" "refine_fits v" | "bit_count v = 4" "v = 15"
    unfolding refine_fits_def Let_def by (metis (full_types))
  then show ?thesis
  proof cases
    case 2
    then show ?thesis using single [of "hd (filter (bit v) [0..<4])"]
      unfolding refine_fits_def Let_def refine_bits_def by (simp del: upt_rec_numeral)
  next
    case 3
    then show ?thesis using pair [of v]
      unfolding refine_fits_def Let_def refine_bits_def by (simp del: upt_rec_numeral)
  next
    case 4
    then show ?thesis using triple [of "hd (filter (\<lambda>i. \<not> bit v i) [0..<4])"]
      unfolding refine_fits_def Let_def refine_bits_def by (simp del: upt_rec_numeral)
  qed (simp_all add: refine_def refine_bits_def reads_give)
qed

definition pattern_fits :: "nat \<Rightarrow> bool" where
  "pattern_fits q = (case block_value (of_nat q) of (v, increment) \<Rightarrow>
     1 \<le> v \<and> v < 6 \<and> increment < 2 ^ (BLOCK_BITS ! v) \<and>
     BLOCK_OUTPUT ! (BLOCK_OFFSET ! v + increment) = of_nat q)"

lemma pattern_fits_all: "list_all pattern_fits [1..<16]"
  by code_simp

lemma block_pattern_reads:
  assumes "v < 6" "increment < 2 ^ (BLOCK_BITS ! v)"
  shows "reads (block_pattern operation v) (nat_bits (BLOCK_BITS ! v) increment)
    (BLOCK_OUTPUT ! (BLOCK_OFFSET ! v + increment))"
proof -
  have fits: "length BLOCK_BITS = 6" "length BLOCK_OFFSET = 6" "length BLOCK_OUTPUT = 16"
    "BLOCK_BITS ! v \<le> 64" "BLOCK_OFFSET ! v + 2 ^ (BLOCK_BITS ! v) \<le> 16"
    using assms by (auto simp: BLOCK_BITS_def BLOCK_OFFSET_def BLOCK_OUTPUT_def less_Suc_eq numeral_eq_Suc)
  have "reads (if BLOCK_BITS ! v = 0 then give 0 else from_entropy (packet_read_bits (BLOCK_BITS ! v)))
      (nat_bits (BLOCK_BITS ! v) increment) increment"
    using assms(2) fits(4) by (auto simp: reads_give intro: reads_bits)
  then have "reads (run_try (if BLOCK_BITS ! v = 0 then give 0
      else from_entropy (packet_read_bits (BLOCK_BITS ! v))) (\<lambda>increment.
      if usize_max < BLOCK_OFFSET ! v + increment then fail (ArithmeticOverflow operation)
      else pure_try (index_or_panic BLOCK_OUTPUT (BLOCK_OFFSET ! v + increment))))
      (nat_bits (BLOCK_BITS ! v) increment) (BLOCK_OUTPUT ! (BLOCK_OFFSET ! v + increment))"
    by (rule reads_last) (use fits(3,5) assms(2) in \<open>simp add: reads_def\<close>)
  then show ?thesis unfolding block_pattern_def using assms(1) by (simp add: fits(1,2))
qed

text \<open>\<open>reads\<close> for actions that also change the pattern state, from \<open>P\<close> to \<open>Q\<close>.\<close>

definition takes :: "('s \<Rightarrow> bool) \<Rightarrow> (packet_reader \<times> 's, tile_decode_error, 'a) action \<Rightarrow> bool list \<Rightarrow> 'a \<Rightarrow>
    ('s \<Rightarrow> bool) \<Rightarrow> bool" where
  "takes P m bits v Q \<longleftrightarrow> (\<forall>r c rest. packet_ok r \<longrightarrow> P c \<longrightarrow> packet_unread r = bits @ rest \<longrightarrow>
     (\<exists>t c'. m (r, c) = (Ok v, t, c') \<and> packet_ok t \<and> packet_unread t = rest \<and> Q c'))"

lemma takesD:
  assumes "takes P m bits v Q" "packet_ok r" "P c" "packet_unread r = bits @ rest"
  shows "\<exists>t c'. m (r, c) = (Ok v, t, c') \<and> packet_ok t \<and> packet_unread t = rest \<and> Q c'"
  using assms unfolding takes_def by blast

lemma takes_bind:
  assumes "takes P m xs v Q" "takes Q (f v) ys u R"
  shows "takes P (run_try m f) (xs @ ys) u R"
  unfolding takes_def
proof (intro allI impI)
  fix r c rest assume r: "packet_ok r" "P c" "packet_unread r = (xs @ ys) @ rest"
  have "packet_unread r = xs @ (ys @ rest)" using r(3) by simp
  from takesD [OF assms(1) r(1,2) this]
  obtain t c' where t: "m (r, c) = (Ok v, t, c')" "packet_ok t" "packet_unread t = ys @ rest" "Q c'"
    by blast
  from takesD [OF assms(2) t(2,4,3)]
  show "\<exists>t c'. run_try m f (r, c) = (Ok u, t, c') \<and> packet_ok t \<and> packet_unread t = rest \<and> R c'"
    using t(1) by (simp add: run_try_step)
qed

lemma takes_packet: "reads m bits v \<Longrightarrow> takes P (on_packet m) bits v P"
  unfolding takes_def on_packet_def on_part_def by (fastforce dest: readsD split: prod.splits)

text \<open>What the codes of a pattern leave alone.\<close>

definition frame :: "nat \<Rightarrow> nat \<Rightarrow> prediction_state list \<Rightarrow> 16 word list list \<Rightarrow> int \<Rightarrow> cbphp_state \<Rightarrow> bool"
where
  "frame i j ps rows B c \<longleftrightarrow> tt_table (cb_groups c) = i \<and> tt_table (cb_blocks c) = j \<and>
     i < 2 \<and> j < 2 \<and> \<bar>tt_discriminant (cb_groups c)\<bar> \<le> B \<and> \<bar>tt_discriminant (cb_blocks c)\<bar> \<le> B \<and>
     cb_prediction c = ps \<and> previous_rows c = rows"

lemma num_codes_complete: "list_all (\<lambda>codes. list_all (\<lambda>s. s \<in> set (symbols codes)) [0..<5]) NUM_CODE_LISTS"
  by code_simp

lemma observed_code_takes:
  assumes "i < 2" "s < 5" "B + 3 \<le> i32_max"
  shows "takes (\<lambda>v. tt_table v = i \<and> \<bar>tt_discriminant v\<bar> \<le> B) (observed_code NUM_CODES name DELTA)
    (code_bits (NUM_CODE_LISTS ! i) s) s (\<lambda>v. tt_table v = i \<and> \<bar>tt_discriminant v\<bar> \<le> B + 3)"
  unfolding takes_def
proof (intro allI impI)
  let ?codes = "NUM_CODE_LISTS ! i"
  fix r and v :: two_table_state and rest
  assume r: "packet_ok r" and v: "tt_table v = i \<and> \<bar>tt_discriminant v\<bar> \<le> B"
    and u: "packet_unread r = code_bits ?codes s @ rest"
  have codes: "?codes \<in> set NUM_CODE_LISTS" using assms(1) luma_tables(1) by simp
  then have "well_coded ?codes" "s \<in> set (symbols ?codes)"
    using luma_tables(2) num_codes_complete assms(2) by (auto simp: list_all_iff simp del: upt_rec_numeral)
  from readsD [OF code_bits_reads [OF this] r u]
  obtain t where t: "read_code (built ?codes) name r = (Ok s, t)" "packet_ok t" "packet_unread t = rest" by blast
  have len: "length DELTA = 5" by (simp add: DELTA_def)
  have "table_state_ok B v" using v assms(1) by (simp add: table_state_ok_def)
  then obtain v' where v': "two_table_observe s DELTA v = Ok v'" "table_state_ok (B + 3) v'"
    using observe_ok [OF _ assms(3) _ luma_tables(4)] assms(2) len by auto
  moreover have "tt_table v' = tt_table v" using v'(1) by (auto simp: two_table_observe_def let_try_eq_Ok)
  ultimately show "\<exists>t c'. observed_code NUM_CODES name DELTA (r, v) = (Ok s, t, c') \<and> packet_ok t \<and>
      packet_unread t = rest \<and> tt_table c' = i \<and> \<bar>tt_discriminant c'\<bar> \<le> B + 3"
    using t v assms(1) luma_tables(1)
    by (auto simp: observed_code_def run_try_def on_packet_def on_part_def NUM_CODES_def table_state_ok_def)
qed

lemma takes_on_groups:
  assumes "s < 5" "B + 3 \<le> i32_max" "i < 2" "j < 2"
  shows "takes (frame i j ps rows B) (on_groups (observed_code NUM_CODES name DELTA))
      (code_bits (NUM_CODE_LISTS ! i) s) s (frame i j ps rows (B + 3))"
    and "takes (frame i j ps rows B) (on_blocks (observed_code NUM_CODES name DELTA))
      (code_bits (NUM_CODE_LISTS ! j) s) s (frame i j ps rows (B + 3))"
proof -
  show "takes (frame i j ps rows B) (on_groups (observed_code NUM_CODES name DELTA))
      (code_bits (NUM_CODE_LISTS ! i) s) s (frame i j ps rows (B + 3))"
    unfolding takes_def
  proof (intro allI impI)
    fix r c rest assume r: "packet_ok r" and c: "frame i j ps rows B c"
      and u: "packet_unread r = code_bits (NUM_CODE_LISTS ! i) s @ rest"
    from c have v: "tt_table (cb_groups c) = i \<and> \<bar>tt_discriminant (cb_groups c)\<bar> \<le> B" by (simp add: frame_def)
    from takesD [OF observed_code_takes [OF assms(3,1,2)] r v u]
    obtain t v' where "observed_code NUM_CODES name DELTA (r, cb_groups c) = (Ok s, t, v')" "packet_ok t"
      "packet_unread t = rest" "tt_table v' = tt_table (cb_groups c)" "\<bar>tt_discriminant v'\<bar> \<le> B + 3"
      using v by metis
    then show "\<exists>t c'. on_groups (observed_code NUM_CODES name DELTA) (r, c) = (Ok s, t, c') \<and>
        packet_ok t \<and> packet_unread t = rest \<and> frame i j ps rows (B + 3) c'"
      using c by (auto simp: on_groups_def on_part_def frame_def)
  qed
  show "takes (frame i j ps rows B) (on_blocks (observed_code NUM_CODES name DELTA))
      (code_bits (NUM_CODE_LISTS ! j) s) s (frame i j ps rows (B + 3))"
    unfolding takes_def
  proof (intro allI impI)
    fix r c rest assume r: "packet_ok r" and c: "frame i j ps rows B c"
      and u: "packet_unread r = code_bits (NUM_CODE_LISTS ! j) s @ rest"
    from c have v: "tt_table (cb_blocks c) = j \<and> \<bar>tt_discriminant (cb_blocks c)\<bar> \<le> B" by (simp add: frame_def)
    from takesD [OF observed_code_takes [OF assms(4,1,2)] r v u]
    obtain t v' where "observed_code NUM_CODES name DELTA (r, cb_blocks c) = (Ok s, t, v')" "packet_ok t"
      "packet_unread t = rest" "tt_table v' = tt_table (cb_blocks c)" "\<bar>tt_discriminant v'\<bar> \<le> B + 3"
      using v by metis
    then show "\<exists>t c'. on_blocks (observed_code NUM_CODES name DELTA) (r, c) = (Ok s, t, c') \<and>
        packet_ok t \<and> packet_unread t = rest \<and> frame i j ps rows (B + 3) c'"
      using c by (auto simp: on_blocks_def on_part_def frame_def)
  qed
qed

lemma group_mask_bit:
  assumes "g < 4"
  shows "(of_nat (group_mask residual) :: 16 word) AND push_bit g 1 = 0 \<longleftrightarrow> nibble residual g = 0"
proof -
  have "bit (of_nat (group_mask residual) :: 16 word) g = bit (group_mask residual) g"
    using assms by (simp add: bit_of_nat_iff)
  also have "\<dots> = (nibble residual g \<noteq> 0)"
    unfolding group_mask_def using assms by (subst bit_horner_sum_bit_iff) simp
  finally show ?thesis by (simp add: push_bit_eq_mult and_exp_eq_0_iff_not_bit)
qed

lemma nibble_fits:
  assumes "nibble residual g \<noteq> 0"
  shows "case block_value (nibble residual g) of (v, increment) \<Rightarrow> 1 \<le> v \<and> v < 6 \<and>
    increment < 2 ^ (BLOCK_BITS ! v) \<and> BLOCK_OUTPUT ! (BLOCK_OFFSET ! v + increment) = nibble residual g"
proof -
  let ?q = "unat (nibble residual g)"
  have "?q = take_bit 4 (unat (drop_bit (g * 4) residual))"
    by (simp add: nibble_def unsigned_take_bit_eq)
  then have "?q < 16" by (metis take_bit_nat_less_exp numeral_eq_Suc power.simps one_add_one num_double
        take_bit_nat_less_exp [of 4, simplified])
  moreover have "1 \<le> ?q" using assms by (simp add: Suc_le_eq unat_gt_0)
  ultimately have "pattern_fits ?q" using pattern_fits_all by (simp add: list_all_iff del: upt_rec_numeral)
  then show ?thesis by (simp add: pattern_fits_def)
qed

lemma takes_stronger: "takes P m bits v Q \<Longrightarrow> (\<And>c. P' c \<Longrightarrow> P c) \<Longrightarrow> takes P' m bits v Q"
  unfolding takes_def by blast

lemma frame_mono: "frame i j ps rows B c \<Longrightarrow> B \<le> C \<Longrightarrow> frame i j ps rows C c"
  by (auto simp: frame_def)

lemma next_nibble: "take_bit (4 * g) residual OR push_bit (g * 4) (nibble residual g) = take_bit (4 * Suc g) residual"
  by (rule bit_word_eqI) (auto simp: nibble_def bit_simps)

lemma component_groups_take:
  assumes ij: "i < 2" "j < 2"
  shows "g + k = 4 \<Longrightarrow> B + 3 * int k \<le> i32_max \<Longrightarrow>
    takes (frame i j ps rows B)
      (component_groups [g..<4] (of_nat (group_mask residual)) (take_bit (4 * g) residual))
      (concat (map (\<lambda>g. block_bits (NUM_CODE_LISTS ! j) (nibble residual g)) [g..<4])) residual
      (frame i j ps rows (B + 3 * int k))"
proof (induction k arbitrary: g B)
  case 0
  then have "g = 4" by simp
  then show ?case by (simp add: takes_def take_bit_word_eq_self)
next
  case (Suc k)
  let ?q = "nibble residual g" and ?C = "B + 3 * int (Suc k)"
  let ?rest = "concat (map (\<lambda>g. block_bits (NUM_CODE_LISTS ! j) (nibble residual g)) [Suc g..<4])"
  have g: "g < 4" "[g..<4] = g # [Suc g..<4]" "Suc g + k = 4" using Suc.prems(1) by (simp_all add: upt_conv_Cons)
  have C: "B + 3 + 3 * int k = ?C" by simp
  have IH: "takes (frame i j ps rows (B + 3))
      (component_groups [Suc g..<4] (of_nat (group_mask residual)) (take_bit (4 * Suc g) residual)) ?rest
      residual (frame i j ps rows ?C)"
    using Suc.IH [OF g(3), of "B + 3"] Suc.prems(2) unfolding C by simp
  show ?case
  proof (cases "?q = 0")
    case True
    then have same: "take_bit (4 * Suc g) residual = take_bit (4 * g) residual"
      using next_nibble [of g residual] by simp
    have "takes (frame i j ps rows B)
        (component_groups [Suc g..<4] (of_nat (group_mask residual)) (take_bit (4 * g) residual)) ?rest
        residual (frame i j ps rows ?C)"
      by (rule takes_stronger [OF IH [unfolded same]]) (auto intro: frame_mono)
    then show ?thesis using True group_mask_bit [OF g(1), of residual]
      by (simp add: g(2) block_bits_def)
  next
    case False
    obtain v increment where q: "block_value ?q = (v, increment)" by fastforce
    have v: "1 \<le> v" "v < 6" "increment < 2 ^ (BLOCK_BITS ! v)"
      "BLOCK_OUTPUT ! (BLOCK_OFFSET ! v + increment) = ?q"
      using nibble_fits [OF False] by (simp_all add: q)
    have pattern: "reads (block_pattern ''CBPHP code'' (v - 1 + 1)) (nat_bits (BLOCK_BITS ! v) increment) ?q"
      using block_pattern_reads [OF v(2,3)] v(1,4) by simp
    have "takes (frame i j ps rows B)
        (run_try (on_blocks (observed_code NUM_CODES ''NUM_BLKCBPHP'' DELTA)) (\<lambda>block_count.
          run_try (on_packet (block_pattern ''CBPHP code'' (block_count + 1))) (\<lambda>pattern.
          component_groups [Suc g..<4] (of_nat (group_mask residual))
            (take_bit (4 * g) residual OR push_bit (g * 4) pattern))))
        (code_bits (NUM_CODE_LISTS ! j) (v - 1) @ (nat_bits (BLOCK_BITS ! v) increment @ ?rest))
        residual (frame i j ps rows ?C)"
    proof (rule takes_bind, rule takes_on_groups(2))
      show "takes (frame i j ps rows (B + 3))
          (run_try (on_packet (block_pattern ''CBPHP code'' (v - 1 + 1))) (\<lambda>pattern.
            component_groups [Suc g..<4] (of_nat (group_mask residual))
              (take_bit (4 * g) residual OR push_bit (g * 4) pattern)))
          (nat_bits (BLOCK_BITS ! v) increment @ ?rest) residual (frame i j ps rows ?C)"
        by (rule takes_bind, rule takes_packet, rule pattern, unfold next_nibble, rule IH)
    qed (use v Suc.prems(2) ij in simp_all)
    then show ?thesis using False group_mask_bit [OF g(1), of residual]
      by (simp add: g(2) block_bits_def q)
  qed
qed

text \<open>The residual that predicts to a given pattern.\<close>

definition gather_444 :: "16 word \<Rightarrow> 16 word" where
  "gather_444 = add_bits 1 0x0001 \<circ> add_bits 3 0x0002 \<circ> add_bits 1 0x0010 \<circ> add_bits 2 0x0033 \<circ>
     add_bits 6 0x00CC \<circ> add_bits 2 0x3300"

lemma spread_gather: "spread_444 (gather_444 x) = x"
proof -
  have "push_bit 1 (0x0001 :: 16 word) AND 0x0001 = 0" "push_bit 3 (0x0002 :: 16 word) AND 0x0002 = 0"
    "push_bit 1 (0x0010 :: 16 word) AND 0x0010 = 0" "push_bit 2 (0x0033 :: 16 word) AND 0x0033 = 0"
    "push_bit 6 (0x00CC :: 16 word) AND 0x00CC = 0" "push_bit 2 (0x3300 :: 16 word) AND 0x3300 = 0"
    by code_simp+
  then show ?thesis by (simp only: spread_444_def gather_444_def comp_def add_bits_twice)
qed

definition residual_444 ::
  "16 word option \<Rightarrow> 16 word option \<Rightarrow> prediction_state \<Rightarrow> 16 word \<Rightarrow> 16 word" where
  "residual_444 left upper p actual =
     (if ps_state p = 0 then gather_444 actual XOR seed 10 5 left upper
      else if ps_state p = 2 then actual XOR 0xFFFF else actual)"

lemma predicted_residual: "predicted spread_444 (seed 10 5 left upper) 0xFFFF p (residual_444 left upper p actual) = actual"
  by (simp add: predicted_def residual_444_def xor.assoc spread_gather)

definition written_pattern :: "cbphp_state \<Rightarrow> nat \<Rightarrow> nat \<Rightarrow> nat \<Rightarrow> 16 word \<Rightarrow> bool list" where
  "written_pattern c component x y actual =
     (let row = previous_rows c ! component;
          left = (if x \<noteq> 0 then Some (row ! (x - 1)) else None);
          upper = (if y \<noteq> 0 then Some (row ! x) else None);
          p = cb_prediction c ! of_bool (component \<noteq> 0)
      in written_residual (NUM_CODE_LISTS ! tt_table (cb_groups c)) (NUM_CODE_LISTS ! tt_table (cb_blocks c))
           (residual_444 left upper p actual))"

lemma decode_groups_take:
  assumes "i < 2" "j < 2" "B + 3 \<le> i32_max"
  shows "takes (frame i j ps rows B) decode_groups
    (code_bits (NUM_CODE_LISTS ! i) (bit_count (group_mask residual)) @ refine_bits (group_mask residual))
    (of_nat (group_mask residual)) (frame i j ps rows (B + 3))"
  unfolding decode_groups_def
proof (rule takes_bind)
  have "bit_count v \<le> length [0..<4::nat]" for v unfolding bit_count_def by (rule length_filter_le)
  then have "bit_count (group_mask residual) \<le> 4" by simp
  then have "bit_count (group_mask residual) < 5" by linarith
  then show "takes (frame i j ps rows B) (on_groups (observed_code NUM_CODES ''NUM_CBPHP'' DELTA))
      (code_bits (NUM_CODE_LISTS ! i) (bit_count (group_mask residual))) (bit_count (group_mask residual))
      (frame i j ps rows (B + 3))"
    using assms by (intro takes_on_groups(1)) simp_all
  have "group_mask residual < 2 ^ length (map (\<lambda>g. nibble residual g \<noteq> 0) [0..<4])"
    unfolding group_mask_def by (rule horner_sum_of_bool_2_less)
  then show "takes (frame i j ps rows (B + 3)) (on_packet (refine (bit_count (group_mask residual))))
      (refine_bits (group_mask residual)) (of_nat (group_mask residual)) (frame i j ps rows (B + 3))"
    by (intro takes_packet refine_reads) (simp del: upt_rec_numeral)
qed

lemma predict_back:
  assumes "cbphp_ok n w B c" "component < n" "x < w"
    and "row = previous_rows c ! component" "p = cb_prediction c ! of_bool (component \<noteq> 0)"
  shows "\<exists>c'. predict_component predict_444 component x y
      (residual_444 (if x \<noteq> 0 then Some (row ! (x - 1)) else None) (if y \<noteq> 0 then Some (row ! x) else None)
        p actual) c = Ok (actual, c') \<and> previous_rows c' ! component ! x = actual"
proof -
  let ?left = "if x \<noteq> 0 then Some (row ! (x - 1)) else None"
  let ?upper = "if y \<noteq> 0 then Some (row ! x) else None"
  let ?residual = "residual_444 ?left ?upper p actual"
  have row: "length row = w" "component < length (previous_rows c)"
    using assms(1,2,4) by (auto simp: cbphp_ok_def)
  have near: "neighbours component x y c = Ok (?left, ?upper)"
    using row assms(3,4) by (auto simp: neighbours_def)
  have kind: "of_bool (component \<noteq> 0) < length (cb_prediction c)"
    using assms(1) by (simp add: cbphp_ok_def)
  then have "prediction_ok p" using assms(1,5) nth_mem [OF kind] by (simp add: cbphp_ok_def)
  then obtain actual' p' where found: "predict_444 ?residual ?left ?upper p = Ok (actual', p')"
    using predict_ok [of p predict_444 ?residual ?left ?upper] by blast
  then have "actual' = actual"
    by (auto simp: predict_eq Let_def let_try_eq_Ok predicted_residual)
  then show ?thesis using near row kind assms(3-5) found
    by (auto simp: predict_component_def Let_def)
qed

section \<open>Properties\<close>

inductive cbphp_reach :: "nat \<Rightarrow> nat \<Rightarrow> nat \<Rightarrow> cbphp_state \<Rightarrow> bool" for w n where
  start: "cbphp_reach w n 0 (cbphp_new_components w n)"
| component: "cbphp_reach w n k c \<Longrightarrow> packet_ok r \<Longrightarrow> x < w \<Longrightarrow>
    decode_component x y i (r, c) = (res, r', c') \<Longrightarrow> cbphp_reach w n (Suc k) c'"
| yuv: "cbphp_reach w n k c \<Longrightarrow> packet_ok r \<Longrightarrow> x < w \<Longrightarrow> 3 \<le> n \<Longrightarrow>
    decode_yuv x y sampling (r, c) = (res, r', c') \<Longrightarrow> cbphp_reach w n (Suc k) c'"
| adapt: "cbphp_reach w n k c \<Longrightarrow> cbphp_reach w n k (cbphp_adapt c)"

lemma cbphp_new_ok: "cbphp_ok n w 64 (cbphp_new_components w n)"
  by (auto simp: cbphp_ok_def cbphp_new_components_def table_state_ok_def two_table_new_def
      prediction_ok_def prediction_new_def)

lemma cbphp_adapt_ok: "cbphp_ok n w B c \<Longrightarrow> cbphp_ok n w 64 (cbphp_adapt c)"
  by (auto simp: cbphp_ok_def cbphp_adapt_def intro: adapt_ok)

lemma cbphp_reach_ok:
  "cbphp_reach w n k c \<Longrightarrow> k \<le> 100000000 \<Longrightarrow> cbphp_ok n w (64 + 15 * int k) c"
proof (induction rule: cbphp_reach.induct)
  case start
  then show ?case using cbphp_new_ok by simp
next
  case (component k c r x y i res r' c')
  then have "st n w (64 + 15 * int k) (r, c)" by (simp add: st_def)
  then have "st n w (64 + 15 * int k + 15) (r', c')"
    using leadsD(1) [OF decode_component_leads [of "64 + 15 * int k" x w n y i] _ component.hyps(4)]
      component.prems component.hyps(3) by simp
  then show ?case by (simp add: st_def algebra_simps)
next
  case (yuv k c r x y sampling res r' c')
  then have "st n w (64 + 15 * int k) (r, c)" by (simp add: st_def)
  then have "st n w (64 + 15 * int k + 15) (r', c')"
    using leadsD(1) [OF decode_yuv_leads [of "64 + 15 * int k" x w n y sampling] _ yuv.hyps(5)]
      yuv.prems yuv.hyps(3,4) by simp
  then show ?case by (simp add: st_def algebra_simps)
next
  case (adapt k c)
  then show ?case using cbphp_adapt_ok cbphp_ok_mono [of n w 64 "cbphp_adapt c" "64 + 15 * int k"] by simp
qed

text \<open>
  C34: coded block patterns decode safely. In every state that a tile of width \<open>w\<close> with \<open>n\<close> components can
  reach by decoding patterns (whether they succeed or fail) and adapting, up to a hundred million
  patterns, decoding the pattern of any component or of a subsampled macroblock inside the tile never
  panics: the selected tables exist, no table lookup or row access is out of range, and neither the
  discriminants nor the 8-bit prediction counters overflow.
\<close>

theorem cbphp_decoding_safe:
  assumes "cbphp_reach w n k c" "k < 100000000" "packet_ok r" "x < w"
  shows "fst (decode_component x y component (r, c)) \<noteq> Panic \<and>
    (3 \<le> n \<longrightarrow> fst (decode_yuv x y sampling (r, c)) \<noteq> Panic) \<and>
    tt_table (cb_groups c) < 2 \<and> tt_table (cb_blocks c) < 2 \<and>
    (\<forall>p\<in>set (cb_prediction c). ps_state p \<in> {0, 1, 2} \<and> - 16 \<le> ps_ones p \<and> ps_ones p \<le> 15 \<and>
      - 16 \<le> ps_zeroes p \<and> ps_zeroes p \<le> 15)"
proof -
  let ?B = "64 + 15 * int k"
  have ok: "cbphp_ok n w ?B c" using cbphp_reach_ok [OF assms(1)] assms(2) by simp
  then have s: "st n w ?B (r, c)" using assms(3) by (simp add: st_def)
  have B: "?B + 15 \<le> i32_max" using assms(2) by simp
  obtain res s' where d: "decode_component x y component (r, c) = (res, s')" by (metis surj_pair)
  obtain res' s'' where e: "decode_yuv x y sampling (r, c) = (res', s'')" by (metis surj_pair)
  show ?thesis
    using leadsD(2) [OF decode_component_leads [OF B assms(4)] s d]
      leadsD(2) [OF decode_yuv_leads [OF B assms(4)] s e] ok d e
    by (auto simp: cbphp_ok_def table_state_ok_def prediction_ok_def)
qed

lemma cbphp_decoding_safe_witness:
  "fst (decode_yuv 1 0 Cs420 (packet_new [0x5A, 0xFF], cbphp_new 2)) \<noteq> Panic"
  using cbphp_decoding_safe [OF cbphp_reach.start, of "packet_new [0x5A, 0xFF]" 1 2 0 0 3 Cs420]
    packet_new_ok [of "[0x5A, 0xFF]"] by (simp add: cbphp_new_def)

text \<open>
  Pattern prediction loses nothing. For every prediction state in range and any neighbours, each of
  the three predictors maps residuals to patterns one to one: every pattern has exactly one residual
  that predicts to it. The subsampled predictors leave the bits above their 8 or 4 blocks alone, so
  the same holds among patterns of that size; and the state that a predictor leaves is in range.
\<close>

theorem prediction_lossless:
  assumes "prediction_ok p" "predict \<in> {predict_444, predict_422, predict_420}"
  shows "(\<forall>residual. \<exists>actual p'. predict residual left upper p = Ok (actual, p') \<and> prediction_ok p') \<and>
    (\<forall>actual. \<exists>!residual. \<exists>p'. predict residual left upper p = Ok (actual, p')) \<and>
    (\<forall>residual actual p'. predict_422 residual left upper p = Ok (actual, p') \<longrightarrow>
      drop_bit 8 actual = drop_bit 8 residual) \<and>
    (\<forall>residual actual p'. predict_420 residual left upper p = Ok (actual, p') \<longrightarrow>
      drop_bit 4 actual = drop_bit 4 residual)"
proof -
  obtain f where f: "bij f" "\<And>residual actual p'. predict residual left upper p = Ok (actual, p') \<Longrightarrow> actual = f residual"
  proof -
    consider "predict = predict_444" | "predict = predict_422" | "predict = predict_420"
      using assms(2) by blast
    then show thesis
    proof cases
      case 1
      show thesis by (rule that [OF predicted_bij [OF spread_bij(1)]])
          (auto simp: 1 predict_eq Let_def let_try_eq_Ok)
    next
      case 2
      show thesis by (rule that [OF predicted_bij [OF spread_bij(2)]])
          (auto simp: 2 predict_eq Let_def let_try_eq_Ok)
    next
      case 3
      show thesis by (rule that [OF predicted_bij [OF spread_bij(3)]])
          (auto simp: 3 predict_eq Let_def let_try_eq_Ok)
    qed
  qed
  note total = predict_ok [OF assms, of _ left upper]
  have "\<exists>!residual. \<exists>p'. predict residual left upper p = Ok (actual, p')" for actual
  proof (rule ex1I)
    obtain residual where "actual = f residual" using f(1) by (meson bij_pointE)
    then show "\<exists>p'. predict (inv f actual) left upper p = Ok (actual, p')"
      using total [of "inv f actual"] f(2) [of "inv f actual"] bij_inv_eq_iff [OF f(1)] by metis
    show "residual = inv f actual" if "\<exists>p'. predict residual left upper p = Ok (actual, p')" for residual
      using that f(2) bij_inv_eq_iff [OF f(1)] by metis
  qed
  moreover have "drop_bit 8 actual = drop_bit 8 residual"
    if "predict_422 residual left upper p = Ok (actual, p')" for residual actual p'
    using that by (auto simp: predict_eq Let_def let_try_eq_Ok predicted_high)
  moreover have "drop_bit 4 actual = drop_bit 4 residual"
    if "predict_420 residual left upper p = Ok (actual, p')" for residual actual p'
    using that by (auto simp: predict_eq Let_def let_try_eq_Ok predicted_high)
  ultimately show ?thesis using total by blast
qed

lemma prediction_lossless_witness:
  "\<exists>!residual. \<exists>p'. predict_444 residual None (Some 0x0400) prediction_new = Ok (0x8001, p')"
  using prediction_lossless [of prediction_new predict_444 None "Some 0x0400"]
  by (auto simp: prediction_ok_def prediction_new_def)

text \<open>
  C7: patterns round trip. In every reachable state, for any component and any 16-bit pattern, what an
  encoder writes for it (the residual against the prediction, as group count, group mask and one
  value and increment per coded group, in the codes of the selected tables) is decoded back to exactly
  this pattern; decoding stops behind it and enters the pattern in the component's row.
\<close>

theorem patterns_roundtrip:
  assumes "cbphp_reach w n k c" "k < 100000000" "component < n" "x < w" "packet_ok r"
    and "packet_unread r = written_pattern c component x y actual @ rest"
  shows "\<exists>t c'. decode_component x y component (r, c) = (Ok actual, t, c') \<and> packet_ok t \<and>
    packet_unread t = rest \<and> previous_rows c' ! component ! x = actual"
proof -
  let ?B = "64 + 15 * int k"
  let ?i = "tt_table (cb_groups c)" and ?j = "tt_table (cb_blocks c)"
  let ?frame = "frame ?i ?j (cb_prediction c) (previous_rows c)"
  define row where "row = previous_rows c ! component"
  define p where "p = cb_prediction c ! of_bool (component \<noteq> 0)"
  define residual where "residual = residual_444 (if x \<noteq> 0 then Some (row ! (x - 1)) else None)
    (if y \<noteq> 0 then Some (row ! x) else None) p actual"
  have ok: "cbphp_ok n w ?B c" using cbphp_reach_ok [OF assms(1)] assms(2) by simp
  then have ij: "?i < 2" "?j < 2" and f: "?frame ?B c" and n: "length (previous_rows c) = n"
    by (auto simp: cbphp_ok_def table_state_ok_def frame_def)
  have written: "takes (?frame ?B) (run_try decode_groups (\<lambda>groups. component_groups [0..<4] groups 0))
      (written_residual (NUM_CODE_LISTS ! ?i) (NUM_CODE_LISTS ! ?j) residual) residual (?frame (?B + 3 + 12))"
    unfolding written_residual_def
  proof (rule takes_bind, rule decode_groups_take)
    show "takes (?frame (?B + 3)) (component_groups [0..<4] (of_nat (group_mask residual)) 0)
        (concat (map (\<lambda>g. block_bits (NUM_CODE_LISTS ! ?j) (nibble residual g)) [0..<4])) residual
        (?frame (?B + 3 + 12))"
      using component_groups_take [OF ij, of 0 4 "?B + 3"] assms(2) by (simp del: upt_rec_numeral)
  qed (use ij assms(2) in simp_all)
  have u: "packet_unread r = written_residual (NUM_CODE_LISTS ! ?i) (NUM_CODE_LISTS ! ?j) residual @ rest"
    by (simp only: assms(6) written_pattern_def Let_def residual_def row_def p_def)
  from takesD [OF written assms(5) f u] obtain t c' where
    t: "run_try decode_groups (\<lambda>groups. component_groups [0..<4] groups 0) (r, c) = (Ok residual, t, c')"
      "packet_ok t" "packet_unread t = rest" "?frame (?B + 3 + 12) c'"
    by blast
  have ok': "cbphp_ok n w (?B + 15) c'"
    using t(4) ok by (auto simp: frame_def cbphp_ok_def table_state_ok_def)
  have same: "previous_rows c' = previous_rows c" "cb_prediction c' = cb_prediction c"
    using t(4) by (simp_all add: frame_def)
  obtain c'' where "predict_component predict_444 component x y residual c' = Ok (actual, c'')"
    "previous_rows c'' ! component ! x = actual"
    using predict_back [OF ok' assms(3,4), of row p y actual] unfolding residual_def same row_def p_def
    by blast
  moreover have "decode_component x y component (r, c) =
      run_try (run_try decode_groups (\<lambda>groups. component_groups [0..<4] groups 0)) (\<lambda>residual.
        on_state (predict_component predict_444 component x y residual)) (r, c)"
    using assms(3) n unfolding run_try_assoc by (simp add: decode_component_def)
  ultimately show ?thesis using t by (simp add: run_try_step on_state_def)
qed

lemma patterns_roundtrip_witness:
  "\<exists>t c'. decode_component 0 0 0 (packet_new [0x12, 0x04, 0x09, 0x00], cbphp_new_components 2 1) = (Ok 0x1234, t, c') \<and>
    packet_ok t \<and> packet_unread t = replicate 6 False \<and> previous_rows c' ! 0 ! 0 = 0x1234"
proof (rule patterns_roundtrip [OF cbphp_reach.start])
  have "packet_bits [0x12, 0x04, 0x09, 0x00] = written_pattern (cbphp_new_components 2 1) 0 0 0 0x1234 @ replicate 6 False"
    by code_simp
  then show "packet_unread (packet_new [0x12, 0x04, 0x09, 0x00]) =
      written_pattern (cbphp_new_components 2 1) 0 0 0 0x1234 @ replicate 6 False"
    using packet_new_ok [of "[0x12, 0x04, 0x09, 0x00]"] by (simp del: packet_bits_simps)
qed (use packet_new_ok [of "[0x12, 0x04, 0x09, 0x00]"] in simp_all)

end
