(* ===== verification/Plan.thy ===== *)
theory Plan
  imports Formats Tile_Quantizer
begin

text \<open>
  The plan types that the tile decoder fills in (\<open>crates/jxr-core/src/plan.rs\<close>): prediction modes, tile
  edge flags, macroblock metadata and the coefficient arena with its contract.
\<close>

datatype prediction_mode = PredictNone | PredictLeft | PredictTop | PredictTopLeft

section \<open>Tile edges\<close>

type_synonym tile_edge_flags = u8

definition EDGE_LEFT :: tile_edge_flags where "EDGE_LEFT = 1"
definition EDGE_TOP :: tile_edge_flags where "EDGE_TOP = 2"
definition EDGE_RIGHT :: tile_edge_flags where "EDGE_RIGHT = 4"
definition EDGE_BOTTOM :: tile_edge_flags where "EDGE_BOTTOM = 8"
definition EDGE_HARD_TILE :: tile_edge_flags where "EDGE_HARD_TILE = 16"

definition edges_from_bits :: "u8 \<Rightarrow> tile_edge_flags option" where
  "edges_from_bits bits = (if bits AND NOT 0x1f = 0 then Some bits else None)"

definition edges_contain :: "tile_edge_flags \<Rightarrow> tile_edge_flags \<Rightarrow> bool" where
  "edges_contain flag edges \<longleftrightarrow> edges AND flag = flag"

definition edges_union :: "tile_edge_flags \<Rightarrow> tile_edge_flags \<Rightarrow> tile_edge_flags" where
  "edges_union flag edges = edges OR flag"

section \<open>Macroblock metadata\<close>

text \<open>A structure of arrays, one entry per macroblock in each.\<close>

record macroblock_metadata =
  coefficient_offsets :: "nat list"
  mm_quantizers :: "reconstruction_quantizers list"
  mm_bands :: "band_presence list"
  mm_predictions :: "prediction_mode list"
  mm_hp_predictions :: "prediction_mode list"
  mm_tile_edges :: "tile_edge_flags list"
  mm_coded_x :: "nat list"
  mm_coded_y :: "nat list"
  mm_output_x :: "nat list"
  mm_output_y :: "nat list"

definition metadata_len :: "macroblock_metadata \<Rightarrow> nat" where
  "metadata_len m = length (coefficient_offsets m)"

definition metadata_is_empty :: "macroblock_metadata \<Rightarrow> bool" where
  "metadata_is_empty m \<longleftrightarrow> coefficient_offsets m = []"

definition metadata_validate :: "nat \<Rightarrow> macroblock_metadata \<Rightarrow> (jxr_error, unit) result" where
  "metadata_validate coefficient_count m =
     (let expected = metadata_len m in
      if list_ex (\<lambda>n. n \<noteq> expected)
          [length (mm_quantizers m), length (mm_bands m), length (mm_predictions m),
           length (mm_hp_predictions m), length (mm_tile_edges m), length (mm_coded_x m),
           length (mm_coded_y m), length (mm_output_x m), length (mm_output_y m)]
      then Err (jxr_error_new KindInternalInvariant ''macroblock metadata lengths'')
      else if list_ex (\<lambda>offset. offset > coefficient_count) (coefficient_offsets m)
      then Err (jxr_error_new KindInvalidSyntax ''coefficient offset'')
      else Ok ())"

section \<open>The coefficient arena\<close>

record coefficient_plane =
  coefficient_offset :: nat
  plane_coefficients :: nat
  macroblock_offset :: nat
  plane_macroblocks :: nat
  block_columns :: nat
  block_rows :: nat

record coefficient_arena =
  arena_coefficients :: "i32 list"
  arena_macroblocks :: macroblock_metadata
  arena_planes :: "coefficient_plane list"

record arena_descriptor =
  coefficient_count :: nat
  descriptor_macroblocks :: macroblock_metadata
  descriptor_planes :: "coefficient_plane list"

definition check_range :: "nat \<Rightarrow> nat \<Rightarrow> nat \<Rightarrow> string \<Rightarrow> (jxr_error, unit) result" where
  "check_range offset count available operation =
     let_try (usize_add operation offset count) (\<lambda>past.
     if available < past then Err (jxr_error_new KindInternalInvariant operation) else Ok ())"

definition plane_contract ::
  "nat \<Rightarrow> macroblock_metadata \<Rightarrow> coefficient_plane \<Rightarrow> unit \<Rightarrow> (jxr_error, unit) result" where
  "plane_contract n macroblocks plane _ =
     (if \<not> (1 \<le> block_columns plane \<and> block_columns plane \<le> 4) \<or>
         \<not> (1 \<le> block_rows plane \<and> block_rows plane \<le> 4)
      then Err (jxr_error_new KindInternalInvariant ''coefficient plane block geometry'')
      else
        let_try (check_range (coefficient_offset plane) (plane_coefficients plane) n
          ''coefficient plane range'') (\<lambda>_.
        check_range (macroblock_offset plane) (plane_macroblocks plane) (metadata_len macroblocks)
          ''macroblock plane range''))"

definition validate_coefficient_contract ::
  "nat \<Rightarrow> macroblock_metadata \<Rightarrow> coefficient_plane list \<Rightarrow> (jxr_error, unit) result" where
  "validate_coefficient_contract n macroblocks planes =
     let_try (metadata_validate n macroblocks) (\<lambda>_.
     each_try (plane_contract n macroblocks) planes ())"

definition arena_validate :: "coefficient_arena \<Rightarrow> (jxr_error, unit) result" where
  "arena_validate a =
     validate_coefficient_contract (length (arena_coefficients a)) (arena_macroblocks a) (arena_planes a)"

definition descriptor_validate :: "arena_descriptor \<Rightarrow> (jxr_error, unit) result" where
  "descriptor_validate d =
     validate_coefficient_contract (coefficient_count d) (descriptor_macroblocks d) (descriptor_planes d)"

section \<open>Tiles\<close>

record core_range =
  range_offset :: nat
  range_length :: nat

record rect =
  rect_x :: nat
  rect_y :: nat
  rect_w :: nat
  rect_h :: nat

record tile_plan =
  packet_range :: core_range
  tile_region :: rect
  macroblock_start :: nat
  macroblock_count :: nat
  hard_boundaries :: bool
  required_for_reconstruction :: bool

end
