(* ===== verification/Tile_State.thy ===== *)
theory Tile_State
  imports Blocks Cbphp Plan
begin

text \<open>
  The state whose lifetime is one coded tile: the adaptive entropy state (\<open>TileEntropyState\<close> of
  \<open>crates/jxr-native/src/entropy/adaptive.rs\<close>) next to the packet reader and the block-pattern state,
  the bounds on its counters and the operations that borrow one part of it.
\<close>

record tile_entropy =
  dc_vlc :: dc_vlc_state
  lp_vlc :: ac_vlc_state
  hp_vlc :: ac_vlc_state
  te_lp_scan :: lp_scan
  te_hp_scan :: hp_scan
  dc_model :: coefficient_model
  lp_model :: coefficient_model
  hp_model :: coefficient_model

definition tile_entropy_new :: tile_entropy where
  "tile_entropy_new = \<lparr>dc_vlc = dc_vlc_new, lp_vlc = ac_vlc_new, hp_vlc = ac_vlc_new,
     te_lp_scan = lp_scan_new, te_hp_scan = hp_scan_new, dc_model = model_new Dc,
     lp_model = model_new Lowpass, hp_model = model_new Highpass\<rparr>"

definition entropy_reset_tile :: "tile_entropy \<Rightarrow> tile_entropy" where
  "entropy_reset_tile e = tile_entropy_new"

definition reset_scan_totals :: "tile_entropy \<Rightarrow> tile_entropy" where
  "reset_scan_totals e = e\<lparr>te_lp_scan := lp_reset_totals (te_lp_scan e),
     te_hp_scan := hp_reset_totals (te_hp_scan e)\<rparr>"

text \<open>What a tile decoder borrows: the reader, the entropy state and the block-pattern state.\<close>

type_synonym tile_parts = "packet_reader \<times> tile_entropy \<times> cbphp_state"
type_synonym 'a tile_action = "(tile_parts, tile_decode_error, 'a) action"

text \<open>A read of the state.\<close>

definition inspect :: "('s \<Rightarrow> 'a) \<Rightarrow> ('s, 'e, 'a) action" where
  "inspect f s = (Ok (f s), s)"

text \<open>\<open>?\<close> on an entropy operation that also borrows adaptive state.\<close>

definition lift_entropy :: "('s, entropy_error, 'a) action \<Rightarrow> ('s, tile_decode_error, 'a) action" where
  "lift_entropy m s = (case m s of (x, t) \<Rightarrow> (map_err Entropy x, t))"

definition with_reader :: "'a tile_decoder \<Rightarrow> 'a tile_action" where
  "with_reader m = on_part fst (\<lambda>r s. (r, snd s)) m"

definition with_cbphp :: "'a cbphp_action \<Rightarrow> 'a tile_action" where
  "with_cbphp m = on_part (\<lambda>(r, e, c). (r, c)) (\<lambda>(r, c) (_, e, _). (r, e, c)) m"

definition with_dc_vlc :: "(packet_reader \<times> dc_vlc_state, entropy_error, 'a) action \<Rightarrow> 'a tile_action" where
  "with_dc_vlc m = on_part (\<lambda>(r, e, c). (r, dc_vlc e))
     (\<lambda>(r, v) (_, e, c). (r, e\<lparr>dc_vlc := v\<rparr>, c)) (lift_entropy m)"

definition with_dc_model :: "(coefficient_model, entropy_error, 'a) action \<Rightarrow> 'a tile_action" where
  "with_dc_model m = on_part (\<lambda>(r, e, c). dc_model e)
     (\<lambda>v (r, e, c). (r, e\<lparr>dc_model := v\<rparr>, c)) (lift_entropy m)"

definition with_lp_model :: "(coefficient_model, entropy_error, 'a) action \<Rightarrow> 'a tile_action" where
  "with_lp_model m = on_part (\<lambda>(r, e, c). lp_model e)
     (\<lambda>v (r, e, c). (r, e\<lparr>lp_model := v\<rparr>, c)) (lift_entropy m)"

definition with_hp_model :: "(coefficient_model, entropy_error, 'a) action \<Rightarrow> 'a tile_action" where
  "with_hp_model m = on_part (\<lambda>(r, e, c). hp_model e)
     (\<lambda>v (r, e, c). (r, e\<lparr>hp_model := v\<rparr>, c)) (lift_entropy m)"

text \<open>A block decoder works on a local buffer, which it returns with its count.\<close>

definition lp_block :: "component_class \<Rightarrow> nat \<Rightarrow> i32 list \<Rightarrow> (nat \<times> i32 list) tile_action" where
  "lp_block class start out = (\<lambda>(r, e, c).
     case lift_entropy (decode_lp_block class start) (r, lp_vlc e, te_lp_scan e, out) of
       (x, r', v, scan, out') \<Rightarrow>
         (let_try x (\<lambda>n. Ok (n, out')), r', e\<lparr>lp_vlc := v, te_lp_scan := scan\<rparr>, c))"

definition hp_block :: "component_class \<Rightarrow> hp_scan_direction \<Rightarrow> i32 list \<Rightarrow> (nat \<times> i32 list) tile_action" where
  "hp_block class direction out = (\<lambda>(r, e, c).
     case lift_entropy (decode_hp_block class direction) (r, hp_vlc e, te_hp_scan e, out) of
       (x, r', v, scan, out') \<Rightarrow>
         (let_try x (\<lambda>n. Ok (n, out')), r', e\<lparr>hp_vlc := v, te_hp_scan := scan\<rparr>, c))"

section \<open>Bounds on the counters\<close>

text \<open>
  \<open>parts_ok n w B T\<close>: a state of a tile of width \<open>w\<close> with \<open>n\<close> components whose discriminants are at
  most \<open>B\<close> away from zero and whose scan totals are at most \<open>T\<close>.
\<close>

definition entropy_ok :: "int \<Rightarrow> int \<Rightarrow> tile_entropy \<Rightarrow> bool" where
  "entropy_ok B T e \<longleftrightarrow> dc_ok B (dc_vlc e) \<and> ac_ok B (lp_vlc e) \<and> ac_ok B (hp_vlc e) \<and>
     lp_ok T (te_lp_scan e) \<and> hp_ok T (te_hp_scan e) \<and>
     model_ok (dc_model e) \<and> model_ok (lp_model e) \<and> model_ok (hp_model e)"

definition parts_ok :: "nat \<Rightarrow> nat \<Rightarrow> int \<Rightarrow> int \<Rightarrow> tile_parts \<Rightarrow> bool" where
  "parts_ok n w B T = (\<lambda>(r, e, c). packet_ok r \<and> entropy_ok B T e \<and> cbphp_ok n w B c)"

lemma entropy_ok_mono: "entropy_ok B T e \<Longrightarrow> B \<le> C \<Longrightarrow> T \<le> U \<Longrightarrow> entropy_ok C U e"
  by (auto simp: entropy_ok_def intro: dc_ok_mono ac_ok_mono lp.weakens hp.weakens)

lemma parts_ok_mono: "parts_ok n w B T s \<Longrightarrow> B \<le> C \<Longrightarrow> T \<le> U \<Longrightarrow> parts_ok n w C U s"
  by (auto simp: parts_ok_def intro: entropy_ok_mono cbphp_ok_mono)

lemma tile_entropy_new_ok: "entropy_ok 64 32 tile_entropy_new"
  by (simp add: entropy_ok_def tile_entropy_new_def dc_vlc_new_ok ac_vlc_new_ok lp_new_ok hp_new_ok
      model_new_ok)

lemma reset_scan_totals_ok: "entropy_ok B T e \<Longrightarrow> entropy_ok B 32 (reset_scan_totals e)"
  by (auto simp: entropy_ok_def reset_scan_totals_def intro: lp_reset_totals_ok hp_reset_totals_ok)

lemma leads_bind2:
  assumes "leads I m J (\<lambda>(a, b). P a b)" "\<And>a b. P a b \<Longrightarrow> leads J (f a b) K Q" "\<And>s. J s \<Longrightarrow> K s"
  shows "leads I (run_try m (\<lambda>(a, b). f a b)) K Q"
  by (rule leads_bind [OF assms(1)]) (use assms(2,3) in \<open>auto split: prod.splits\<close>)

text \<open>Each borrow keeps the rest of the state.\<close>

lemma with_reader_leads:
  "upholds packet_ok m Q \<Longrightarrow> leads (parts_ok n w B T) (with_reader m) (parts_ok n w B T) Q"
  unfolding with_reader_def leads_upholds [symmetric]
  by (erule leads_on_part) (auto simp: parts_ok_def)

lemma lift_entropy_leads:
  assumes "leads I m J Q"
  shows "leads I (lift_entropy m) J Q"
  unfolding leads_def
proof (intro allI impI)
  fix s assume "I s"
  obtain x t where m: "m s = (x, t)" by (cases "m s")
  show "J (snd (lift_entropy m s)) \<and>
      (case fst (lift_entropy m s) of Ok v \<Rightarrow> Q v | Err e \<Rightarrow> True | Panic \<Rightarrow> False)"
    using leadsD [OF assms \<open>I s\<close> m] m by (cases x) (simp_all add: lift_entropy_def)
qed

lemma with_cbphp_leads:
  assumes "leads (st n w B) m (st n w C) Q" "B \<le> C"
  shows "leads (parts_ok n w B T) (with_cbphp m) (parts_ok n w C T) Q"
  unfolding with_cbphp_def
  by (rule leads_on_part [OF assms(1)])
    (use assms(2) in \<open>auto simp: parts_ok_def st_def intro: entropy_ok_mono\<close>)

lemma dc_part_leads:
  assumes "B + 2 \<le> i32_max"
  shows "leads (parts_ok n w B T) (with_dc_vlc (decode_dc_coefficient bits has_abs_level class))
    (parts_ok n w (B + 2) T) in_i32"
  unfolding with_dc_vlc_def
  by (rule leads_on_part [OF lift_entropy_leads [OF dc_coefficient_leads [OF assms]]])
    (auto simp: parts_ok_def entropy_ok_def intro: ac_ok_mono cbphp_ok_mono)

lemma model_update_leads:
  assumes "0 \<le> luma" "0 \<le> chroma" "luma \<le> i32_max" "chroma \<le> i32_max"
  shows "leads model_ok (lift_entropy (model_update (luma, chroma) colour)) model_ok (\<lambda>_. True)"
proof (rule lift_entropy_leads, rule leadsI)
  fix model assume "model_ok model"
  from model_update_ok [OF this assms, of colour]
  show "model_ok (snd (model_update (luma, chroma) colour model))"
    "fst (model_update (luma, chroma) colour model) \<noteq> Panic"
    by (auto split: prod.splits)
qed simp

lemma model_part_leads:
  assumes "0 \<le> luma" "0 \<le> chroma" "luma \<le> i32_max" "chroma \<le> i32_max"
  shows "leads (parts_ok n w B T) (with_dc_model (model_update (luma, chroma) colour)) (parts_ok n w B T) (\<lambda>_. True)"
    "leads (parts_ok n w B T) (with_lp_model (model_update (luma, chroma) colour)) (parts_ok n w B T) (\<lambda>_. True)"
    "leads (parts_ok n w B T) (with_hp_model (model_update (luma, chroma) colour)) (parts_ok n w B T) (\<lambda>_. True)"
  unfolding with_dc_model_def with_lp_model_def with_hp_model_def
  by (rule leads_on_part [OF model_update_leads [OF assms]], auto simp: parts_ok_def entropy_ok_def)+

lemma lp_part_leads:
  assumes "B + 64 \<le> i32_max" "T \<le> 2000000000" "i32_block out"
  shows "leads (parts_ok n w B T) (lp_block class start out) (parts_ok n w (B + 64) (T + 16))
    (\<lambda>(k, out). k \<le> 15 \<and> i32_block out)"
  unfolding leads_def
proof (intro allI impI)
  fix p assume p: "parts_ok n w B T p"
  obtain r e c where rec: "p = (r, e, c)" by (metis surj_pair)
  obtain x r' v scan out' where run: "lift_entropy (decode_lp_block class start) (r, lp_vlc e, te_lp_scan e, out) =
      (x, r', v, scan, out')" by (metis surj_pair)
  have "case (r, lp_vlc e, te_lp_scan e, out) of (r, s, scan, out) \<Rightarrow>
      packet_ok r \<and> ac_ok B s \<and> lp_ok T scan \<and> i32_block out"
    using p assms(3) by (simp add: rec parts_ok_def entropy_ok_def)
  note d = leadsD [OF lift_entropy_leads [OF lp_block_leads [OF assms(1,2)]] this run]
  have "parts_ok n w (B + 64) (T + 16) (r', e\<lparr>lp_vlc := v, te_lp_scan := scan\<rparr>, c)"
    using d(1) p by (auto simp: rec parts_ok_def entropy_ok_def intro: ac_ok_mono dc_ok_mono hp.weakens cbphp_ok_mono)
  then show "parts_ok n w (B + 64) (T + 16) (snd (lp_block class start out p)) \<and>
      (case fst (lp_block class start out p) of Ok v \<Rightarrow> case v of (k, out) \<Rightarrow> k \<le> 15 \<and> i32_block out
       | Err e \<Rightarrow> True | Panic \<Rightarrow> False)"
    using d run by (cases x) (auto simp: rec lp_block_def)
qed

lemma hp_part_leads:
  assumes "B + 64 \<le> i32_max" "T \<le> 2000000000" "i32_block out"
  shows "leads (parts_ok n w B T) (hp_block class d out) (parts_ok n w (B + 64) (T + 16))
    (\<lambda>(k, out). k \<le> 15 \<and> i32_block out)"
  unfolding leads_def
proof (intro allI impI)
  fix p assume p: "parts_ok n w B T p"
  obtain r e c where rec: "p = (r, e, c)" by (metis surj_pair)
  obtain x r' v scan out' where run: "lift_entropy (decode_hp_block class d) (r, hp_vlc e, te_hp_scan e, out) =
      (x, r', v, scan, out')" by (metis surj_pair)
  have "case (r, hp_vlc e, te_hp_scan e, out) of (r, s, scan, out) \<Rightarrow>
      packet_ok r \<and> ac_ok B s \<and> hp_ok T scan \<and> i32_block out"
    using p assms(3) by (simp add: rec parts_ok_def entropy_ok_def)
  note d = leadsD [OF lift_entropy_leads [OF hp_block_leads [OF assms(1,2)]] this run]
  have "parts_ok n w (B + 64) (T + 16) (r', e\<lparr>hp_vlc := v, te_hp_scan := scan\<rparr>, c)"
    using d(1) p by (auto simp: rec parts_ok_def entropy_ok_def intro: ac_ok_mono dc_ok_mono lp.weakens cbphp_ok_mono)
  then show "parts_ok n w (B + 64) (T + 16) (snd (hp_block class d out p)) \<and>
      (case fst (hp_block class d out p) of Ok v \<Rightarrow> case v of (k, out) \<Rightarrow> k \<le> 15 \<and> i32_block out
       | Err e \<Rightarrow> True | Panic \<Rightarrow> False)"
    using d run by (cases x) (auto simp: rec hp_block_def)
qed

text \<open>Reads of the models.\<close>

lemma inspect_leads: "(\<And>s. I s \<Longrightarrow> Q (f s)) \<Longrightarrow> leads I (inspect f) I Q"
  by (simp add: leads_def inspect_def)

lemma model_bits_ok: "model_ok m \<Longrightarrow> bits_of_model chroma m \<le> 15"
  by (cases chroma) (auto simp: model_ok_def integrator_ok_def bits_of_model_def)

end
