(* ===== verification/High_Pass.thy ===== *)
theory High_Pass
  imports Tile_State
begin

text \<open>
  The high-pass band of a macroblock (\<open>crates/jxr-native/src/tile_decode/high_pass.rs\<close>): the prediction
  direction that the low-pass values select, and the decoding of the coded blocks with their
  flexbits for one component, for subsampled chroma and for several components.
\<close>

definition HIERARCHICAL_BLOCK_ORDER :: "nat list" where
  "HIERARCHICAL_BLOCK_ORDER = [0, 1, 4, 5, 2, 3, 6, 7, 8, 9, 12, 13, 10, 11, 14, 15]"

section \<open>The prediction direction\<close>

text \<open>Operations of the standard library on \<open>i32\<close> and \<open>u32\<close>.\<close>

definition unsigned_abs :: "i32 \<Rightarrow> nat" where
  "unsigned_abs x = nat \<bar>x\<bar>"

definition u32_saturating_add :: "nat \<Rightarrow> nat \<Rightarrow> nat" where
  "u32_saturating_add a b = min (a + b) (2 ^ 32 - 1)"

definition u32_saturating_mul :: "nat \<Rightarrow> nat \<Rightarrow> nat" where
  "u32_saturating_mul a b = min (a * b) (2 ^ 32 - 1)"

definition select_prediction :: "nat \<Rightarrow> nat \<Rightarrow> prediction_mode" where
  "select_prediction horizontal vertical =
     (if u32_saturating_mul horizontal 4 < vertical then PredictLeft
      else if u32_saturating_mul vertical 4 < horizontal then PredictTop
      else PredictNone)"

text \<open>\<open>low[i].unsigned_abs().saturating_add(low[j].unsigned_abs())...\<close>.\<close>

definition saturating_abs_sum :: "nat \<Rightarrow> i32 list \<Rightarrow> nat list \<Rightarrow> nat" where
  "saturating_abs_sum start low indices =
     fold (\<lambda>i total. u32_saturating_add total (unsigned_abs (low ! i))) indices start"

definition prediction_mode_of :: "i32 list \<Rightarrow> prediction_mode" where
  "prediction_mode_of low =
     select_prediction (saturating_abs_sum 0 low [1, 2, 3]) (saturating_abs_sum 0 low [4, 8, 12])"

text \<open>The positions of a chroma component that count towards each direction.\<close>

definition chroma_horizontal :: "chroma_sampling \<Rightarrow> nat list" where
  "chroma_horizontal sampling = (case sampling of Cs420 \<Rightarrow> [1] | Cs422 \<Rightarrow> [1, 5] | Cs444 \<Rightarrow> [1])"

definition chroma_vertical :: "chroma_sampling \<Rightarrow> nat list" where
  "chroma_vertical sampling = (case sampling of Cs420 \<Rightarrow> [2] | Cs422 \<Rightarrow> [2, 6] | Cs444 \<Rightarrow> [4])"

definition prediction_mode_yuv :: "i32 list list \<Rightarrow> chroma_sampling \<Rightarrow> prediction_mode" where
  "prediction_mode_yuv low sampling =
     (let luma = low ! 0;
          horizontal = fold (\<lambda>chroma total. saturating_abs_sum total chroma (chroma_horizontal sampling))
            (tl low) (saturating_abs_sum 0 luma [1, 2, 3]);
          vertical = fold (\<lambda>chroma total. saturating_abs_sum total chroma (chroma_vertical sampling))
            (tl low) (saturating_abs_sum 0 luma [4, 8, 12])
      in select_prediction horizontal vertical)"

definition prediction_mode_yuvk :: "i32 list list \<Rightarrow> (tile_decode_error, prediction_mode) result" where
  "prediction_mode_yuvk low =
     (if length low < 3 then Err (InvalidPlan ''YUVK prediction components'')
      else Ok (prediction_mode_yuv (take 3 low) Cs444))"

section \<open>Blocks\<close>

datatype highpass_payload = VlcOnly | Combined bool nat

record macroblock_position =
  mp_width :: nat
  mp_x :: nat
  mp_y :: nat

definition scan_direction :: "prediction_mode \<Rightarrow> hp_scan_direction" where
  "scan_direction mode = (if mode = PredictTop then Vertical else Horizontal)"

definition refined :: "i32 list \<Rightarrow> i32 list option \<Rightarrow> nat \<Rightarrow> nat \<Rightarrow> (tile_decode_error, i32) result" where
  "refined vlc flex bits i =
     (case flex of
        Some f \<Rightarrow> ok_or (ArithmeticOverflow ''HP refinement'')
          (Option.bind (i32_checked_shl (vlc ! i) bits) (\<lambda>value. i32_checked_add value (f ! i)))
      | None \<Rightarrow> Ok (vlc ! i))"

text \<open>The block's window of the output, rewritten from position 1 on.\<close>

definition finish_block ::
  "i32 list \<Rightarrow> i32 list \<Rightarrow> nat \<Rightarrow> highpass_payload \<Rightarrow> i32 list tile_decoder" where
  "finish_block destination vlc bits payload =
     run_try
       (case payload of
          VlcOnly \<Rightarrow> give None
        | Combined flexbits_present trim \<Rightarrow>
            if flexbits_present
            then run_try (from_entropy (decode_flex_block vlc bits trim)) (\<lambda>flex. give (Some flex))
            else give (Some (replicate 16 0)))
     (\<lambda>flex. pure_try (each_try (\<lambda>i destination.
        let_try (refined vlc flex bits i) (\<lambda>v. Ok (destination[i := v]))) [1..<16] destination))"

text \<open>\<open>&mut output[block * 16..(block + 1) * 16]\<close>, and the output with that window replaced.\<close>

definition block_window :: "i32 list \<Rightarrow> nat \<Rightarrow> (tile_decode_error, i32 list) result" where
  "block_window out block =
     (if length out < (block + 1) * 16 then Panic else Ok (take 16 (drop (block * 16) out)))"

definition put_window :: "i32 list \<Rightarrow> nat \<Rightarrow> i32 list \<Rightarrow> i32 list" where
  "put_window out block vs = take (block * 16) out @ vs @ drop ((block + 1) * 16) out"

text \<open>
  The loop over the blocks of one component: the pattern is consumed bit by bit, the counts of the
  coded blocks are summed.
\<close>

fun hp_blocks :: "nat list \<Rightarrow> component_class \<Rightarrow> hp_scan_direction \<Rightarrow> nat \<Rightarrow> highpass_payload \<Rightarrow>
    16 word \<Rightarrow> int \<Rightarrow> i32 list \<Rightarrow> (int \<times> i32 list) tile_action" where
  "hp_blocks [] class direction bits payload coded_blocks non_zero out = give (non_zero, out)"
| "hp_blocks (block # blocks) class direction bits payload coded_blocks non_zero out =
     run_try (if coded_blocks AND 1 \<noteq> 0 then hp_block class direction (replicate 16 0)
       else give (0, replicate 16 0)) (\<lambda>(n, vlc).
     run_try (pure_try (i32_or_panic (non_zero + int n))) (\<lambda>non_zero.
     run_try (pure_try (block_window out block)) (\<lambda>window.
     run_try (with_reader (finish_block window vlc bits payload)) (\<lambda>window.
     hp_blocks blocks class direction bits payload (drop_bit 1 coded_blocks) non_zero
       (put_window out block window)))))"

section \<open>Macroblocks\<close>

text \<open>One component: the coefficients and the model bits they were decoded with.\<close>

definition decode_vlc ::
  "macroblock_position \<Rightarrow> prediction_mode \<Rightarrow> highpass_payload \<Rightarrow> (i32 list \<times> nat) tile_action" where
  "decode_vlc position mode payload =
     run_try (with_cbphp (decode_luma (mp_x position) (mp_y position))) (\<lambda>coded_blocks.
     run_try (inspect (\<lambda>(r, e, c). bits_of_model False (hp_model e))) (\<lambda>bits.
     run_try (hp_blocks HIERARCHICAL_BLOCK_ORDER Luma (scan_direction mode) bits payload coded_blocks
       0 (replicate 256 0)) (\<lambda>(non_zero, out).
     run_try (with_hp_model (model_update (non_zero, 0) LumaOnly)) (\<lambda>_.
     give (out, bits)))))"

definition block_count_of :: "nat \<Rightarrow> chroma_sampling \<Rightarrow> nat" where
  "block_count_of component sampling =
     (if component = 0 then 16 else case sampling of Cs444 \<Rightarrow> 16 | Cs422 \<Rightarrow> 8 | Cs420 \<Rightarrow> 4)"

text \<open>The blocks of a component in decoding order; subsampled chroma goes in raster order.\<close>

definition block_maps :: "nat \<Rightarrow> nat list" where
  "block_maps blocks = (if blocks = 16 then HIERARCHICAL_BLOCK_ORDER else [0..<blocks])"

definition class_of :: "nat \<Rightarrow> component_class" where
  "class_of component = (if component = 0 then Luma else Chroma)"

text \<open>The loop over the components; the counts go to the luma or to the chroma mean.\<close>

fun hp_components :: "(nat \<times> nat list \<times> 16 word) list \<Rightarrow> hp_scan_direction \<Rightarrow> nat \<times> nat \<Rightarrow>
    highpass_payload \<Rightarrow> int \<times> int \<Rightarrow> i32 list list \<Rightarrow> ((int \<times> int) \<times> i32 list list) tile_action" where
  "hp_components [] direction bits payload means outs = give (means, outs)"
| "hp_components ((component, maps, coded_blocks) # rest) direction bits payload means outs =
     run_try (hp_blocks maps (class_of component) direction (side (component \<noteq> 0) bits) payload
       coded_blocks (side (component \<noteq> 0) means) (replicate 256 0)) (\<lambda>(mean, out).
     hp_components rest direction bits payload (put_side (component \<noteq> 0) mean means) (outs @ [out]))"

definition colour_model_of :: "chroma_sampling \<Rightarrow> colour_model" where
  "colour_model_of sampling = (case sampling of Cs420 \<Rightarrow> Yuv420 | Cs422 \<Rightarrow> Yuv422 | Cs444 \<Rightarrow> Other 3)"

text \<open>The output is cleared first, so it is returned.\<close>

definition decode_yuv_into :: "macroblock_position \<Rightarrow> chroma_sampling \<Rightarrow> prediction_mode \<Rightarrow>
    highpass_payload \<Rightarrow> (i32 list list \<times> nat \<times> nat) tile_action" where
  "decode_yuv_into position sampling mode payload =
     run_try (with_cbphp (Cbphp.decode_yuv (mp_x position) (mp_y position) sampling)) (\<lambda>coded_blocks.
     run_try (inspect (\<lambda>(r, e, c). (bits_of_model False (hp_model e), bits_of_model True (hp_model e)))) (\<lambda>bits.
     run_try (hp_components (map (\<lambda>component. (component, block_maps (block_count_of component sampling),
         coded_blocks ! component)) [0..<3]) (scan_direction mode) bits payload (0, 0) [])
       (\<lambda>(means, outs).
     run_try (with_hp_model (model_update means (colour_model_of sampling))) (\<lambda>_.
     give (outs, bits)))))"

fun component_patterns :: "nat list \<Rightarrow> macroblock_position \<Rightarrow> 16 word list \<Rightarrow> 16 word list tile_action" where
  "component_patterns [] position patterns = give patterns"
| "component_patterns (component # rest) position patterns =
     run_try (with_cbphp (decode_component (mp_x position) (mp_y position) component)) (\<lambda>pattern.
     component_patterns rest position (patterns @ [pattern]))"

definition decode_components :: "macroblock_position \<Rightarrow> nat \<Rightarrow> prediction_mode \<Rightarrow>
    highpass_payload \<Rightarrow> (i32 list list \<times> nat \<times> nat) tile_action" where
  "decode_components position n mode payload =
     (if \<not> (2 \<le> n \<and> n \<le> 16) then fail (InvalidPlan ''multi-component HP component count'')
      else
        run_try (inspect (\<lambda>(r, e, c). (bits_of_model False (hp_model e), bits_of_model True (hp_model e)))) (\<lambda>bits.
        run_try (component_patterns [0..<n] position []) (\<lambda>coded_blocks.
        run_try (hp_components (map (\<lambda>component. (component, HIERARCHICAL_BLOCK_ORDER,
            coded_blocks ! component)) [0..<n]) (scan_direction mode) bits payload (0, 0) [])
          (\<lambda>(means, outs).
        run_try (with_hp_model (model_update means (Other n))) (\<lambda>_.
        give (outs, bits))))))"

section \<open>Decoding is safe\<close>

text \<open>An area of coefficients of the given length, each of the coefficient type.\<close>

definition i32_area :: "nat \<Rightarrow> i32 list \<Rightarrow> bool" where
  "i32_area n out \<longleftrightarrow> length out = n \<and> (\<forall>v\<in>set out. in_i32 v)"

lemma i32_block_area: "i32_block = i32_area 16"
  by (intro ext) (simp add: i32_block_def i32_area_def)

lemma i32_area_zero: "i32_area n (replicate n 0)"
  by (simp add: i32_area_def in_i32_def)

lemma i32_area_update: "i32_area n out \<Longrightarrow> in_i32 v \<Longrightarrow> i32_area n (out[i := v])"
  using set_update_subset_insert [of out i v] by (auto simp: i32_area_def)

lemma i32_area_window:
  assumes "i32_area n out" "(block + 1) * 16 \<le> n"
  shows "block_window out block = Ok (take 16 (drop (block * 16) out))"
    "i32_area 16 (take 16 (drop (block * 16) out))"
    "i32_area 16 vs \<Longrightarrow> i32_area n (put_window out block vs)"
  using assms by (auto simp: i32_area_def block_window_def put_window_def
      dest!: in_set_takeD in_set_dropD)

lemma refined_ok:
  assumes "i32_area 16 vlc" "\<forall>f\<in>set_option flex. i32_area 16 f" "i < 16"
  shows "yields (refined vlc flex bits i) in_i32"
  using assms by (auto simp: refined_def i32_area_def outcome_simps
      intro!: yields_ok_or split: option.split Option.bind_splits)

lemma finish_block_upholds:
  assumes "i32_area 16 destination" "i32_area 16 vlc" "bits \<le> 15"
  shows "upholds packet_ok (finish_block destination vlc bits payload) (i32_area 16)"
  unfolding finish_block_def
proof (rule upholds_bind)
  have "in_i32 v" if "trimmed bits trim v" for v trim
  proof -
    have "(2::int) ^ bits \<le> 2 ^ 15" using assms(3) by (intro power_increasing) simp_all
    then show ?thesis using that by (auto simp: trimmed_def in_i32_def)
  qed
  then have "upholds packet_ok (run_try (from_entropy (decode_flex_block vlc bits trim)) (\<lambda>flex. give (Some flex)))
      (\<lambda>flex. \<forall>f\<in>set_option flex. i32_area 16 f)" for trim
    by (intro upholds_bind [OF from_entropy_upholds [OF decode_flex_block_upholds]] upholds_give)
      (auto simp: i32_area_def)
  then show "upholds packet_ok (case payload of VlcOnly \<Rightarrow> give None
      | Combined present trim \<Rightarrow> if present
        then run_try (from_entropy (decode_flex_block vlc bits trim)) (\<lambda>flex. give (Some flex))
        else give (Some (replicate 16 0))) (\<lambda>flex. \<forall>f\<in>set_option flex. i32_area 16 f)"
    by (auto intro!: upholds_give simp: i32_area_zero split: highpass_payload.split)
next
  fix flex :: "i32 list option" assume flex: "\<forall>f\<in>set_option flex. i32_area 16 f"
  have "yields (each_try (\<lambda>i destination. let_try (refined vlc flex bits i) (\<lambda>v. Ok (destination[i := v])))
      [1..<16] destination) (i32_area 16)"
    by (rule yields_each [where P = "i32_area 16"])
      (auto simp: assms(1) intro!: yields_bind [OF refined_ok [OF assms(2) flex]] i32_area_update)
  then show "upholds packet_ok (pure_try (each_try (\<lambda>i destination.
      let_try (refined vlc flex bits i) (\<lambda>v. Ok (destination[i := v]))) [1..<16] destination)) (i32_area 16)"
    by (intro upholds_pure) (auto dest: yieldsD)
qed

lemma hp_blocks_leads:
  assumes "bits \<le> 15"
  shows "\<lbrakk>\<forall>b\<in>set maps. (b + 1) * 16 \<le> 256; B + 64 * int (length maps) \<le> i32_max;
      T + 16 * int (length maps) \<le> 2000000000; i32_area 256 out; 0 \<le> non_zero;
      non_zero + 15 * int (length maps) \<le> i32_max\<rbrakk> \<Longrightarrow>
    leads (parts_ok n w B T) (hp_blocks maps class d bits payload coded non_zero out)
      (parts_ok n w (B + 64 * int (length maps)) (T + 16 * int (length maps)))
      (\<lambda>(count, out). i32_area 256 out \<and> 0 \<le> count \<and> count \<le> non_zero + 15 * int (length maps))"
proof (induction maps arbitrary: B T coded non_zero out)
  case Nil
  then show ?case by (auto simp: leads_def)
next
  case (Cons b maps)
  let ?I = "parts_ok n w B T" and ?J = "parts_ok n w (B + 64) (T + 16)"
    and ?K = "parts_ok n w (B + 64 * int (length (b # maps))) (T + 16 * int (length (b # maps)))"
  let ?Q = "\<lambda>(count, out). i32_area 256 out \<and> 0 \<le> count \<and> count \<le> non_zero + 15 * int (length (b # maps))"
  have weaken: "?K s" if "?J s" for s using that by (rule parts_ok_mono) simp_all
  have coded: "leads ?I (if coded AND 1 \<noteq> 0 then hp_block class d (replicate 16 0) else give (0, replicate 16 0))
      ?J (\<lambda>(k, out). k \<le> 15 \<and> i32_block out)"
  proof (cases "coded AND 1 \<noteq> 0")
    case True
    then show ?thesis using hp_part_leads [of B T "replicate 16 0" n w "class" d] Cons.prems i32_block_zero by simp
  next
    case False
    have "leads ?I (give (0, replicate 16 0)) ?J (\<lambda>(k, out). k \<le> (15::nat) \<and> i32_block out)"
      by (rule leads_weaken [OF leads_give [of "\<lambda>(k, out). k \<le> (15::nat) \<and> i32_block out"]])
        (auto simp: i32_block_zero intro: parts_ok_mono)
    then show ?thesis using False by simp
  qed
  have rest: "leads ?J (run_try (pure_try (i32_or_panic (non_zero + int k))) (\<lambda>non_zero.
       run_try (pure_try (block_window out b)) (\<lambda>window.
       run_try (with_reader (finish_block window vlc bits payload)) (\<lambda>window.
       hp_blocks maps class d bits payload (drop_bit 1 coded) non_zero (put_window out b window))))) ?K ?Q"
    if k: "k \<le> 15" and vlc: "i32_area 16 vlc" for k vlc
  proof -
    have total: "i32_or_panic (non_zero + int k) = Ok (non_zero + int k)"
      using Cons.prems k by (simp add: i32_or_panic_def in_i32_def)
    have b: "(b + 1) * 16 \<le> 256" using Cons.prems(1) by simp
    note area = i32_area_window [OF Cons.prems(4) b]
    have more: "leads ?J (hp_blocks maps class d bits payload (drop_bit 1 coded) (non_zero + int k)
        (put_window out b vs)) ?K ?Q" if "i32_area 16 vs" for vs
      by (rule leads_weaken [OF Cons.IH [where B = "B + 64" and T = "T + 16"]])
        (use Cons.prems k area(3) [OF that] in \<open>auto simp: algebra_simps\<close>)
    show ?thesis
      by (simp only: total area(1) run_try_pure,
          rule leads_bind [OF with_reader_leads [OF finish_block_upholds [OF area(2) vlc assms]] more])
        (assumption, rule weaken)
  qed
  show ?case unfolding hp_blocks.simps
    by (rule leads_bind2 [OF coded]) (erule conjE, rule rest, simp_all only: i32_block_area, erule weaken)
qed

lemma block_maps_small: "b \<in> set HIERARCHICAL_BLOCK_ORDER \<Longrightarrow> (b + 1) * 16 \<le> 256"
  "length HIERARCHICAL_BLOCK_ORDER = 16"
  "b \<in> set (block_maps (block_count_of component sampling)) \<Longrightarrow> (b + 1) * 16 \<le> 256"
  "length (block_maps (block_count_of component sampling)) \<le> 16"
  by (auto simp: HIERARCHICAL_BLOCK_ORDER_def block_maps_def block_count_of_def split: chroma_sampling.splits if_splits)

lemma decode_vlc_leads:
  assumes "B + 1039 \<le> i32_max" "T + 256 \<le> 2000000000" "mp_x position < w"
  shows "leads (parts_ok n w B T) (decode_vlc position mode payload) (parts_ok n w (B + 1039) (T + 256))
    (\<lambda>(out, bits). i32_area 256 out \<and> bits \<le> 15)"
proof -
  let ?J = "parts_ok n w (B + 15) T" and ?K = "parts_ok n w (B + 1039) (T + 256)"
  let ?Q = "\<lambda>(out, bits). i32_area 256 out \<and> bits \<le> (15::nat)"
  have pattern: "leads (parts_ok n w B T) (with_cbphp (decode_luma (mp_x position) (mp_y position))) ?J (\<lambda>_. True)"
    using with_cbphp_leads [OF decode_component_leads, of B "mp_x position" w n] assms
    by (simp add: decode_luma_def)
  have bits: "leads ?J (inspect (\<lambda>(r, e, c). bits_of_model False (hp_model e))) ?J (\<lambda>bits. bits \<le> 15)"
    by (rule inspect_leads) (auto simp: parts_ok_def entropy_ok_def intro: model_bits_ok)
  have blocks: "leads ?J (hp_blocks HIERARCHICAL_BLOCK_ORDER Luma (scan_direction mode) bits payload coded 0
      (replicate 256 0)) ?K (\<lambda>(count, out). i32_area 256 out \<and> 0 \<le> count \<and> count \<le> 240)"
    if "bits \<le> 15" for bits coded
    using hp_blocks_leads [OF that, of HIERARCHICAL_BLOCK_ORDER "B + 15" T "replicate 256 0" 0] assms
      block_maps_small(1,2) i32_area_zero [of 256] by (simp add: algebra_simps)
  have finish: "leads ?K (run_try (with_hp_model (model_update (count, 0) LumaOnly)) (\<lambda>_. give (out, bits))) ?K ?Q"
    if "bits \<le> 15" "i32_area 256 out" "0 \<le> count" "count \<le> 240" for count out bits
    by (rule leads_bind [OF model_part_leads(3)]) (use that in \<open>auto simp: leads_def\<close>)
  show ?thesis unfolding decode_vlc_def
    by (rule leads_bind [OF pattern leads_bind [OF bits leads_bind2 [OF blocks]]])
      (auto intro: finish parts_ok_mono)
qed

lemma hp_components_leads:
  assumes "on_both (\<lambda>b. b \<le> 15) bits"
  shows "\<lbrakk>\<forall>(component, maps, coded)\<in>set parts. length maps \<le> 16 \<and> (\<forall>b\<in>set maps. (b + 1) * 16 \<le> 256);
      B + 1024 * int (length parts) \<le> i32_max; T + 256 * int (length parts) \<le> 2000000000;
      on_both (\<lambda>m. 0 \<le> m \<and> m \<le> M) means; M + 240 * int (length parts) \<le> i32_max;
      \<forall>out\<in>set outs. i32_area 256 out\<rbrakk> \<Longrightarrow>
    leads (parts_ok n w B T) (hp_components parts d bits payload means outs)
      (parts_ok n w (B + 1024 * int (length parts)) (T + 256 * int (length parts)))
      (\<lambda>(means, outs'). on_both (\<lambda>m. 0 \<le> m \<and> m \<le> M + 240 * int (length parts)) means \<and>
        length outs' = length outs + length parts \<and> (\<forall>out\<in>set outs'. i32_area 256 out))"
proof (induction parts arbitrary: B T M means outs)
  case Nil
  then show ?case by (auto simp: leads_def)
next
  case (Cons part parts)
  obtain component maps coded where part: "part = (component, maps, coded)" by (metis surj_pair)
  let ?c = "component \<noteq> 0"
  let ?J = "parts_ok n w (B + 1024) (T + 256)"
    and ?K = "parts_ok n w (B + 1024 * int (length (part # parts))) (T + 256 * int (length (part # parts)))"
  let ?Q = "\<lambda>(means, outs'). on_both (\<lambda>m. 0 \<le> m \<and> m \<le> M + 240 * int (length (part # parts))) means \<and>
        length outs' = length outs + length (part # parts) \<and> (\<forall>out\<in>set outs'. i32_area 256 out)"
  have maps: "length maps \<le> 16" "\<forall>b\<in>set maps. (b + 1) * 16 \<le> 256" using Cons.prems(1) by (auto simp: part)
  have bits: "side ?c bits \<le> 15" using assms on_both_simps(1) [of "\<lambda>b. b \<le> 15" bits ?c] by simp
  have mean: "0 \<le> side ?c means" "side ?c means \<le> M"
    using Cons.prems(4) on_both_simps(1) [of "\<lambda>m. 0 \<le> m \<and> m \<le> M" means ?c] by simp_all
  have first: "leads (parts_ok n w B T) (hp_blocks maps (class_of component) d (side ?c bits) payload coded
      (side ?c means) (replicate 256 0)) ?J (\<lambda>(count, out). i32_area 256 out \<and> 0 \<le> count \<and> count \<le> M + 240)"
    by (rule leads_weaken [OF hp_blocks_leads [OF bits maps(2), of B T "replicate 256 0" "side ?c means"]])
      (use Cons.prems maps(1) mean i32_area_zero [of 256] in \<open>auto intro: parts_ok_mono\<close>)
  have more: "leads ?J (hp_components parts d bits payload (put_side ?c count means) (outs @ [out])) ?K ?Q"
    if "i32_area 256 out" "0 \<le> count" "count \<le> M + 240" for count out
  proof (rule leads_weaken [OF Cons.IH [where B = "B + 1024" and T = "T + 256" and M = "M + 240"]])
    show "on_both (\<lambda>m. 0 \<le> m \<and> m \<le> M + 240) (put_side ?c count means)"
      using that(2,3) on_both_mono [OF Cons.prems(4)] by (intro on_both_simps(2)) auto
    show "\<forall>(component, maps, coded)\<in>set parts. length maps \<le> 16 \<and> (\<forall>b\<in>set maps. (b + 1) * 16 \<le> 256)"
      using Cons.prems(1) by simp
  qed (use Cons.prems that in \<open>auto simp: algebra_simps\<close>)
  show ?case unfolding part hp_components.simps
    by (rule leads_bind2 [OF first]) (use more in \<open>auto simp: part intro: parts_ok_mono\<close>)
qed

lemma both_bits_leads:
  "leads (parts_ok n w B T)
    (inspect (\<lambda>(r, e, c). (bits_of_model False (hp_model e), bits_of_model True (hp_model e))))
    (parts_ok n w B T) (on_both (\<lambda>b. b \<le> 15))"
  by (rule inspect_leads) (auto simp: parts_ok_def entropy_ok_def intro: model_bits_ok)

text \<open>The end that both loops over components share.\<close>

lemma hp_update_leads:
  assumes "on_both (\<lambda>b. b \<le> 15) bits" "on_both (\<lambda>m. 0 \<le> m \<and> m \<le> 100000) means"
    and "length outs = k" "\<forall>out\<in>set outs. i32_area 256 out"
  shows "leads (parts_ok n w B T) (run_try (with_hp_model (model_update means colour)) (\<lambda>_. give (outs, bits)))
    (parts_ok n w B T) (\<lambda>(outs, bits). length outs = k \<and> (\<forall>out\<in>set outs. i32_area 256 out) \<and> on_both (\<lambda>b. b \<le> 15) bits)"
proof -
  obtain luma chroma where means: "means = (luma, chroma)" by (cases means)
  then have "0 \<le> luma" "0 \<le> chroma" "luma \<le> i32_max" "chroma \<le> i32_max" using assms(2) by auto
  then show ?thesis unfolding means
    by (rule leads_bind [OF model_part_leads(3)]) (use assms in \<open>auto simp: leads_def\<close>)
qed

lemma decode_yuv_into_leads:
  assumes "B + 3087 \<le> i32_max" "T + 768 \<le> 2000000000" "mp_x position < w" "3 \<le> n"
  shows "leads (parts_ok n w B T) (decode_yuv_into position sampling mode payload)
    (parts_ok n w (B + 3087) (T + 768))
    (\<lambda>(outs, bits). length outs = 3 \<and> (\<forall>out\<in>set outs. i32_area 256 out) \<and> on_both (\<lambda>b. b \<le> 15) bits)"
proof -
  let ?J = "parts_ok n w (B + 15) T" and ?K = "parts_ok n w (B + 3087) (T + 768)"
  have pattern: "leads (parts_ok n w B T)
      (with_cbphp (Cbphp.decode_yuv (mp_x position) (mp_y position) sampling)) ?J (\<lambda>_. True)"
    by (rule with_cbphp_leads [OF decode_yuv_leads]) (use assms in auto)
  have loop: "leads ?J (hp_components (map (\<lambda>component. (component, block_maps (block_count_of component sampling),
         coded ! component)) [0..<3]) d bits payload (0, 0) []) ?K
      (\<lambda>(means, outs). on_both (\<lambda>m. 0 \<le> m \<and> m \<le> 100000) means \<and> length outs = 3 \<and>
        (\<forall>out\<in>set outs. i32_area 256 out))" if "on_both (\<lambda>b. b \<le> 15) bits" for bits coded d
  proof (rule leads_weaken [OF hp_components_leads [OF that, where B = "B + 15" and T = T and M = 0]])
    show "\<forall>(component, maps, coded)\<in>set (map (\<lambda>component. (component, block_maps (block_count_of component sampling),
         coded ! component)) [0..<3]). length maps \<le> 16 \<and> (\<forall>b\<in>set maps. (b + 1) * 16 \<le> 256)"
      using block_maps_small(3,4) by auto
  qed (use assms on_both_mono in \<open>fastforce simp: algebra_simps\<close>)+
  show ?thesis unfolding decode_yuv_into_def
    by (rule leads_bind [OF pattern leads_bind [OF both_bits_leads leads_bind2 [OF loop]]])
      (auto intro: hp_update_leads parts_ok_mono)
qed

lemma component_patterns_leads:
  assumes "mp_x position < w"
  shows "B + 15 * int (length cs) \<le> i32_max \<Longrightarrow> leads (parts_ok n w B T) (component_patterns cs position patterns)
    (parts_ok n w (B + 15 * int (length cs)) T) (\<lambda>_. True)"
proof (induction cs arbitrary: B patterns)
  case Nil
  then show ?case by (simp add: leads_def)
next
  case (Cons c cs)
  show ?case unfolding component_patterns.simps
  proof (rule leads_bind [OF with_cbphp_leads [OF decode_component_leads]])
    show "leads (parts_ok n w (B + 15) T) (component_patterns cs position (patterns @ [p]))
        (parts_ok n w (B + 15 * int (length (c # cs))) T) (\<lambda>_. True)" for p
      using Cons.IH [of "B + 15"] Cons.prems by (simp add: algebra_simps)
  qed (use Cons.prems assms in \<open>auto intro: parts_ok_mono\<close>)
qed

lemma decode_components_leads:
  assumes "B + 1039 * int k \<le> i32_max" "T + 256 * int k \<le> 2000000000" "mp_x position < w"
  shows "leads (parts_ok n w B T) (decode_components position k mode payload)
    (parts_ok n w (B + 1039 * int k) (T + 256 * int k))
    (\<lambda>(outs, bits). length outs = k \<and> (\<forall>out\<in>set outs. i32_area 256 out) \<and> on_both (\<lambda>b. b \<le> 15) bits)"
proof (cases "2 \<le> k \<and> k \<le> 16")
  case False
  have "leads (parts_ok n w B T) (fail e) (parts_ok n w (B + 1039 * int k) (T + 256 * int k))
    (\<lambda>(outs, bits). length outs = k \<and> (\<forall>out\<in>set outs. i32_area 256 out) \<and> on_both (\<lambda>b. b \<le> 15) bits)" for e
    by (rule leads_weaken [OF leads_fail]) (auto intro: parts_ok_mono)
  then show ?thesis using False by (auto simp: decode_components_def)
next
  case True
  let ?J = "parts_ok n w (B + 15 * int k) T" and ?K = "parts_ok n w (B + 1039 * int k) (T + 256 * int k)"
  have patterns: "leads (parts_ok n w B T) (component_patterns [0..<k] position []) ?J (\<lambda>_. True)"
    using component_patterns_leads [OF assms(3), of B "[0..<k]"] assms(1) True by simp
  have loop: "leads ?J (hp_components (map (\<lambda>component. (component, HIERARCHICAL_BLOCK_ORDER,
         coded ! component)) [0..<k]) d bits payload (0, 0) []) ?K
      (\<lambda>(means, outs). on_both (\<lambda>m. 0 \<le> m \<and> m \<le> 100000) means \<and> length outs = k \<and>
        (\<forall>out\<in>set outs. i32_area 256 out))" if "on_both (\<lambda>b. b \<le> 15) bits" for bits coded d
  proof (rule leads_weaken [OF hp_components_leads [OF that, where B = "B + 15 * int k" and T = T and M = 0]])
    show "\<forall>(component, maps, coded)\<in>set (map (\<lambda>component. (component, HIERARCHICAL_BLOCK_ORDER,
         coded ! component)) [0..<k]). length maps \<le> 16 \<and> (\<forall>b\<in>set maps. (b + 1) * 16 \<le> 256)"
      using block_maps_small(1,2) by auto
  qed (use assms True on_both_mono in \<open>fastforce simp: algebra_simps\<close>)+
  show ?thesis using True unfolding decode_components_def
    by (simp only: simp_thms if_False,
        intro leads_bind [OF both_bits_leads leads_bind [OF patterns leads_bind2 [OF loop]]])
      (auto intro: hp_update_leads parts_ok_mono)
qed

end
