(* ===== verification/Tile_Output.thy ===== *)
theory Tile_Output
  imports High_Pass
begin

text \<open>
  The storage of decoded tiles (\<open>crates/jxr-native/src/tile_decode/output.rs\<close> and the geometry of
  \<open>tile_decode/mod.rs\<close>): the windows of a tile into the coefficient arena, the order in which a
  macroblock is stored, and the metadata that describes the arena afterwards.
\<close>

section \<open>Geometry\<close>

record component_geometry =
  geometry_columns :: nat
  geometry_rows :: nat

definition geometry_blocks :: "component_geometry \<Rightarrow> nat" where
  "geometry_blocks g = geometry_columns g * geometry_rows g"

definition component_geometry_of :: "color_format \<Rightarrow> nat \<Rightarrow> component_geometry" where
  "component_geometry_of color component =
     (if color = ColorYuv Cs420 \<and> 1 \<le> component then \<lparr>geometry_columns = 2, geometry_rows = 2\<rparr>
      else if color = ColorYuv Cs422 \<and> 1 \<le> component then \<lparr>geometry_columns = 2, geometry_rows = 4\<rparr>
      else \<lparr>geometry_columns = 4, geometry_rows = 4\<rparr>)"

definition coefficients_per_macroblock :: "band_presence \<Rightarrow> nat \<Rightarrow> nat" where
  "coefficients_per_macroblock bands blocks =
     (case bands of DcOnly \<Rightarrow> 1 | NoHighPass \<Rightarrow> blocks | NoFlexbits \<Rightarrow> blocks * 16 | AllBands \<Rightarrow> blocks * 16)"

definition tile_edges :: "nat \<Rightarrow> nat \<Rightarrow> nat \<Rightarrow> nat \<Rightarrow> bool \<Rightarrow> tile_edge_flags" where
  "tile_edges x y columns rows hard =
     (let edges = 0;
          edges = if x = 0 then edges_union EDGE_LEFT edges else edges;
          edges = if y = 0 then edges_union EDGE_TOP edges else edges;
          edges = if x + 1 = columns then edges_union EDGE_RIGHT edges else edges;
          edges = if y + 1 = rows then edges_union EDGE_BOTTOM edges else edges
      in if hard then edges_union EDGE_HARD_TILE edges else edges)"

record plane_layout =
  layout_geometry :: component_geometry
  layout_coefficients :: nat

record tile_location =
  global_x :: nat
  global_y :: nat
  location_width :: nat
  location_height :: nat
  location_hard :: bool
  margin_left :: nat
  margin_top :: nat

section \<open>Writing a window\<close>

record macroblock_record =
  mr_quantizers :: reconstruction_quantizers
  mr_bands :: band_presence
  mr_prediction :: prediction_mode
  mr_hp_prediction :: prediction_mode

record plane_writer =
  pw_coefficients :: "i32 list"
  pw_written :: nat
  pw_block_count :: nat
  pw_macroblocks :: nat
  pw_records :: "macroblock_record list"

definition writer_new :: "i32 list \<Rightarrow> nat \<Rightarrow> nat \<Rightarrow> plane_writer" where
  "writer_new coefficients blocks macroblocks = \<lparr>pw_coefficients = coefficients, pw_written = 0,
     pw_block_count = blocks, pw_macroblocks = macroblocks, pw_records = []\<rparr>"

text \<open>
  The target slice after the copy: \<open>copy_from_slice\<close> and the prefix \<open>[..count]\<close> panic when the
  lengths differ. The low values replace every sixteenth entry, as far as both go.
\<close>

definition copy_prefix :: "i32 list \<Rightarrow> i32 list \<Rightarrow> (tile_decode_error, i32 list) result" where
  "copy_prefix source target =
     (if length source < length target then Panic else Ok (take (length target) source))"

definition every_sixteenth :: "i32 list \<Rightarrow> i32 list \<Rightarrow> i32 list" where
  "every_sixteenth low target =
     fold (\<lambda>i target. target[16 * i := low ! i])
       [0..<min (length low) ((length target + 15) div 16)] target"

definition stored_values ::
  "i32 list \<Rightarrow> i32 list \<Rightarrow> band_presence \<Rightarrow> i32 list \<Rightarrow> (tile_decode_error, i32 list) result"
where
  "stored_values low high bands target =
     (case bands of
        DcOnly \<Rightarrow> let_try (index_or_panic low 0) (\<lambda>dc. let_try (index_or_panic target 0) (\<lambda>_.
          Ok (target[0 := dc])))
      | NoHighPass \<Rightarrow> copy_prefix low target
      | NoFlexbits \<Rightarrow> let_try (copy_prefix high target) (\<lambda>target. Ok (every_sixteenth low target))
      | AllBands \<Rightarrow> let_try (copy_prefix high target) (\<lambda>target. Ok (every_sixteenth low target)))"

definition writer_push ::
  "i32 list \<Rightarrow> i32 list \<Rightarrow> macroblock_record \<Rightarrow> (plane_writer, tile_decode_error, unit) action" where
  "writer_push low high rec = (\<lambda>w.
     let n = coefficients_per_macroblock (mr_bands rec) (pw_block_count w);
         past = pw_written w + n
     in if usize_max < past then (Err (ArithmeticOverflow ''external coefficient write''), w)
        else if length (pw_coefficients w) < past
        then (Err (InvalidPlan ''external coefficient storage overflow''), w)
        else case stored_values low high (mr_bands rec)
            (take n (drop (pw_written w) (pw_coefficients w))) of
            Ok target \<Rightarrow> (Ok (), w\<lparr>pw_coefficients := take (pw_written w) (pw_coefficients w) @ target @
                drop past (pw_coefficients w), pw_written := past, pw_records := pw_records w @ [rec]\<rparr>)
          | Err e \<Rightarrow> (Err e, w)
          | Panic \<Rightarrow> (Panic, w))"

definition writer_finish :: "plane_writer \<Rightarrow> (tile_decode_error, macroblock_record list) result" where
  "writer_finish w =
     (if length (pw_records w) \<noteq> pw_macroblocks w then Err (InvalidPlan ''decoded tile macroblock count'')
      else if pw_written w \<noteq> length (pw_coefficients w)
      then Err (InvalidPlan ''external coefficient storage fill length'')
      else Ok (pw_records w))"

section \<open>Splitting the arena\<close>

text \<open>The windows of one plane, one per selected tile, and what is left of the storage.\<close>

fun plane_windows ::
  "plane_layout \<Rightarrow> nat list \<Rightarrow> i32 list \<Rightarrow> (tile_decode_error, plane_writer list \<times> i32 list) result" where
  "plane_windows layout [] rest = Ok ([], rest)"
| "plane_windows layout (macroblocks # sizes) rest =
     (let n = macroblocks * layout_coefficients layout in
      if usize_max < n then Err (ArithmeticOverflow ''coefficient arena size'')
      else if length rest < n then Err (InvalidPlan ''external coefficient storage length'')
      else
        let_try (plane_windows layout sizes (drop n rest)) (\<lambda>(writers, left).
        Ok (writer_new (take n rest) (geometry_blocks (layout_geometry layout)) macroblocks # writers, left)))"

fun layout_windows ::
  "plane_layout list \<Rightarrow> nat list \<Rightarrow> i32 list \<Rightarrow> (tile_decode_error, plane_writer list list \<times> i32 list) result"
where
  "layout_windows [] sizes rest = Ok ([], rest)"
| "layout_windows (layout # layouts) sizes rest =
     let_try (plane_windows layout sizes rest) (\<lambda>(writers, rest).
     let_try (layout_windows layouts sizes rest) (\<lambda>(planes, rest).
     Ok (writers # planes, rest)))"

definition selected_tiles :: "tile_plan list \<Rightarrow> (nat \<times> tile_plan) list" where
  "selected_tiles tiles = filter (\<lambda>(i, tile). required_for_reconstruction tile) (enumerate 0 tiles)"

definition split_planes :: "i32 list \<Rightarrow> plane_layout list \<Rightarrow> tile_plan list \<Rightarrow>
    (tile_decode_error, (nat \<times> plane_writer list) list) result" where
  "split_planes destination layouts tiles =
     (let selected = selected_tiles tiles in
      let_try (layout_windows layouts (map (\<lambda>(i, tile). macroblock_count tile) selected) destination)
        (\<lambda>(planes, rest).
      if rest \<noteq> [] then Err (InvalidPlan ''external coefficient storage length'')
      else Ok (map (\<lambda>j. (fst (selected ! j), map (\<lambda>writers. writers ! j) planes)) [0..<length selected])))"

section \<open>Metadata\<close>

definition u32_of_usize :: "string \<Rightarrow> nat \<Rightarrow> (tile_decode_error, nat) result" where
  "u32_of_usize operation n = (if 2 ^ 32 \<le> n then Err (ArithmeticOverflow operation) else Ok n)"

definition u32_add_or :: "string \<Rightarrow> nat \<Rightarrow> nat \<Rightarrow> (tile_decode_error, nat) result" where
  "u32_add_or operation a b = (if 2 ^ 32 \<le> a + b then Err (ArithmeticOverflow operation) else Ok (a + b))"

definition modify :: "('s \<Rightarrow> 's) \<Rightarrow> ('s, 'e, unit) action" where
  "modify f s = (Ok (), f s)"

definition append_record :: "tile_location \<Rightarrow> nat \<Rightarrow> nat \<Rightarrow> nat \<Rightarrow> nat \<times> macroblock_record \<Rightarrow> nat \<Rightarrow>
    (macroblock_metadata, tile_decode_error, nat) action" where
  "append_record location columns rows blocks = (\<lambda>(index, rec) coefficients.
     let x = index mod columns; y = index div columns in
     run_try (pure_try (u32_of_usize ''coefficient offset'' coefficients)) (\<lambda>offset.
     run_try (modify (\<lambda>m. m\<lparr>coefficient_offsets := coefficient_offsets m @ [offset],
       mm_quantizers := mm_quantizers m @ [mr_quantizers rec], mm_bands := mm_bands m @ [mr_bands rec],
       mm_predictions := mm_predictions m @ [mr_prediction rec],
       mm_hp_predictions := mm_hp_predictions m @ [mr_hp_prediction rec],
       mm_tile_edges := mm_tile_edges m @ [tile_edges x y columns rows (location_hard location)]\<rparr>)) (\<lambda>_.
     run_try (pure_try (u32_of_usize ''macroblock x conversion'' x)) (\<lambda>x.
     run_try (pure_try (u32_add_or ''macroblock x'' (global_x location) x)) (\<lambda>x_mb.
     run_try (pure_try (u32_of_usize ''macroblock y conversion'' y)) (\<lambda>y.
     run_try (pure_try (u32_add_or ''macroblock y'' (global_y location) y)) (\<lambda>y_mb.
     run_try (modify (\<lambda>m. m\<lparr>mm_coded_x := mm_coded_x m @ [x_mb], mm_coded_y := mm_coded_y m @ [y_mb],
       mm_output_x := mm_output_x m @ [u32_saturating_mul x_mb 16 - margin_left location],
       mm_output_y := mm_output_y m @ [u32_saturating_mul y_mb 16 - margin_top location]\<rparr>)) (\<lambda>_.
     let next = coefficients + coefficients_per_macroblock (mr_bands rec) blocks in
     if usize_max < next then fail (ArithmeticOverflow ''coefficient arena size'') else give next))))))))"

fun append_records :: "tile_location \<Rightarrow> nat \<Rightarrow> nat \<Rightarrow> nat \<Rightarrow> (nat \<times> macroblock_record) list \<Rightarrow> nat \<Rightarrow>
    (macroblock_metadata, tile_decode_error, nat) action" where
  "append_records location columns rows blocks [] coefficients = give coefficients"
| "append_records location columns rows blocks (r # rs) coefficients =
     run_try (append_record location columns rows blocks r coefficients) (\<lambda>coefficients.
     append_records location columns rows blocks rs coefficients)"

definition append_tile :: "macroblock_record list \<Rightarrow> tile_location \<Rightarrow> nat \<Rightarrow> nat \<Rightarrow>
    (macroblock_metadata, tile_decode_error, nat) action" where
  "append_tile records location blocks coefficients =
     (let expected = location_width location * location_height location in
      if usize_max < expected then fail (ArithmeticOverflow ''tile traversal'')
      else if length records \<noteq> expected then fail (InvalidPlan ''decoded tile macroblock count'')
      else append_records location (location_width location) (location_height location) blocks
        (enumerate 0 records) coefficients)"

type_synonym decoded_tiles = "(macroblock_record list list \<times> tile_location) list"

fun append_plane :: "nat \<Rightarrow> plane_layout \<Rightarrow> decoded_tiles \<Rightarrow> nat \<Rightarrow>
    (macroblock_metadata, tile_decode_error, nat) action" where
  "append_plane component layout [] coefficients = give coefficients"
| "append_plane component layout ((tile, location) # decoded) coefficients =
     run_try (append_tile (tile ! component) location (geometry_blocks (layout_geometry layout)) coefficients)
       (\<lambda>coefficients. append_plane component layout decoded coefficients)"

type_synonym arena_parts = "macroblock_metadata \<times> coefficient_plane list"

definition on_metadata :: "(macroblock_metadata, tile_decode_error, 'a) action \<Rightarrow>
    (arena_parts, tile_decode_error, 'a) action" where
  "on_metadata m = on_part fst (\<lambda>v (_, planes). (v, planes)) m"

fun append_planes :: "(nat \<times> plane_layout) list \<Rightarrow> decoded_tiles \<Rightarrow> nat \<Rightarrow>
    (arena_parts, tile_decode_error, nat) action" where
  "append_planes [] decoded coefficients = give coefficients"
| "append_planes ((component, layout) # layouts) decoded coefficients =
     run_try (inspect (\<lambda>(m, planes). metadata_len m)) (\<lambda>offset.
     run_try (on_metadata (append_plane component layout decoded coefficients)) (\<lambda>past.
     run_try (modify (\<lambda>(m, planes). (m, planes @ [\<lparr>coefficient_offset = coefficients,
       plane_coefficients = past - coefficients, macroblock_offset = offset,
       plane_macroblocks = metadata_len m - offset,
       block_columns = geometry_columns (layout_geometry layout),
       block_rows = geometry_rows (layout_geometry layout)\<rparr>]))) (\<lambda>_.
     append_planes layouts decoded past)))"

definition append_metadata :: "decoded_tiles \<Rightarrow> plane_layout list \<Rightarrow> (arena_parts, tile_decode_error, nat) action"
where
  "append_metadata decoded layouts =
     (if list_ex (\<lambda>(tile, location). length tile \<noteq> length layouts) decoded
      then fail (InvalidPlan ''decoded component count'')
      else append_planes (enumerate 0 layouts) decoded 0)"

section \<open>What a window holds\<close>

type_synonym macroblock = "i32 list \<times> i32 list \<times> macroblock_record"

definition macroblock_shape :: "macroblock \<Rightarrow> bool" where
  "macroblock_shape = (\<lambda>(low, high, rec). length low = 16 \<and> length high = 256)"

text \<open>Per block its DC/LP value, then its fifteen HP values.\<close>

definition macroblock_words :: "nat \<Rightarrow> macroblock \<Rightarrow> i32 list" where
  "macroblock_words blocks = (\<lambda>(low, high, rec).
     case mr_bands rec of DcOnly \<Rightarrow> [low ! 0] | NoHighPass \<Rightarrow> take blocks low
     | _ \<Rightarrow> concat (map (\<lambda>i. low ! i # take 15 (drop (16 * i + 1) high)) [0..<blocks]))"

definition word_count :: "nat \<Rightarrow> macroblock \<Rightarrow> nat" where
  "word_count blocks = (\<lambda>(low, high, rec). coefficients_per_macroblock (mr_bands rec) blocks)"

definition record_of :: "macroblock \<Rightarrow> macroblock_record" where
  "record_of = (\<lambda>(low, high, rec). rec)"

abbreviation put_low :: "i32 list \<Rightarrow> nat \<Rightarrow> i32 list \<Rightarrow> i32 list" where
  "put_low low k target \<equiv> fold (\<lambda>i target. target[16 * i := low ! i]) [0..<k] target"

lemma put_low_length [simp]: "length (put_low low k target) = length target"
  by (induction k arbitrary: target) simp_all

lemma put_low_append: "length a = 16 * k \<Longrightarrow> m \<le> k \<Longrightarrow> put_low low m (a @ b) = put_low low m a @ b"
  by (induction m) (simp_all add: list_update_append1)

lemma put_low_blocks:
  "16 * k \<le> length high \<Longrightarrow> put_low low k (take (16 * k) high) =
    concat (map (\<lambda>i. low ! i # take 15 (drop (16 * i + 1) high)) [0..<k])"
proof (induction k)
  case (Suc k)
  let ?b = "take 16 (drop (16 * k) high)"
  have split: "take (16 * Suc k) high = take (16 * k) high @ ?b"
    using take_add [of "16 * k" 16 high] by (simp add: algebra_simps)
  have b: "?b = high ! (16 * k) # take 15 (drop (16 * k + 1) high)"
    using Suc.prems by (simp add: Cons_nth_drop_Suc [symmetric] numeral_eq_Suc)
  have "length (take (16 * k) high) = 16 * k" using Suc.prems by simp
  note app = put_low_append [OF this order_refl, of low ?b]
  have step: "put_low low (Suc k) target = (put_low low k target)[16 * k := low ! k]" for target by simp
  have "put_low low (Suc k) (take (16 * Suc k) high) =
      (put_low low k (take (16 * k) high) @ ?b)[16 * k := low ! k]"
    by (simp only: split step app)
  also have "\<dots> = put_low low k (take (16 * k) high) @ low ! k # take 15 (drop (16 * k + 1) high)"
    using Suc.prems unfolding b by (simp add: list_update_append)
  finally show ?case using Suc by simp
qed simp

lemma stored_values_words:
  assumes "macroblock_shape (low, high, rec)" "1 \<le> blocks" "blocks \<le> 16"
    and "length target = coefficients_per_macroblock (mr_bands rec) blocks"
  shows "stored_values low high (mr_bands rec) target = Ok (macroblock_words blocks (low, high, rec))"
proof -
  have l: "length low = 16" "length high = 256" using assms(1) by (simp_all add: macroblock_shape_def)
  have full: "let_try (copy_prefix high target) (\<lambda>target. Ok (every_sixteenth low target)) =
      Ok (concat (map (\<lambda>i. low ! i # take 15 (drop (16 * i + 1) high)) [0..<blocks]))"
    if "length target = blocks * 16"
  proof -
    have n: "length target = 16 * blocks" "16 * blocks \<le> length high" using that l assms(3) by simp_all
    then have "copy_prefix high target = Ok (take (16 * blocks) high)"
      "min (length low) ((length (take (16 * blocks) high) + 15) div 16) = blocks"
      using l assms(3) by (simp_all add: copy_prefix_def)
    then show ?thesis unfolding every_sixteenth_def by (simp only: let_try_simps put_low_blocks [OF n(2)])
  qed
  show ?thesis
  proof (cases "mr_bands rec")
    case DcOnly
    then obtain t where "target = [t]"
      using assms(4) by (auto simp: coefficients_per_macroblock_def length_Suc_conv)
    then show ?thesis using DcOnly l by (simp add: stored_values_def macroblock_words_def)
  next
    case NoHighPass
    then show ?thesis using assms(3,4) l
      by (simp add: stored_values_def macroblock_words_def copy_prefix_def coefficients_per_macroblock_def)
  qed (use assms(4) full in \<open>simp_all add: stored_values_def macroblock_words_def coefficients_per_macroblock_def\<close>)
qed

lemma word_count_length:
  assumes "macroblock_shape mb" "1 \<le> blocks" "blocks \<le> 16"
  shows "length (macroblock_words blocks mb) = word_count blocks mb"
proof -
  obtain low high rec where mb: "mb = (low, high, rec)" by (metis surj_pair)
  have l: "length low = 16" "length high = 256" using assms(1) by (simp_all add: mb macroblock_shape_def)
  have "length (concat (map (\<lambda>i. low ! i # take 15 (drop (16 * i + 1) high)) [0..<blocks])) = blocks * 16"
    using arg_cong [OF put_low_blocks [of blocks high low], of length] l assms(3)
    by (simp only: put_low_length length_take) simp
  then show ?thesis using l assms(3)
    by (cases "mr_bands rec") (simp_all add: mb macroblock_words_def word_count_def coefficients_per_macroblock_def)
qed

text \<open>Storing the macroblocks of a tile one after another.\<close>

fun push_all :: "macroblock list \<Rightarrow> (plane_writer, tile_decode_error, unit) action" where
  "push_all [] = give ()"
| "push_all ((low, high, rec) # mbs) = run_try (writer_push low high rec) (\<lambda>_. push_all mbs)"

definition words_of :: "nat \<Rightarrow> macroblock list \<Rightarrow> i32 list" where
  "words_of blocks mbs = concat (map (macroblock_words blocks) mbs)"

lemma writer_push_Ok:
  assumes "macroblock_shape mb" "mb = (low, high, rec)" "1 \<le> pw_block_count w" "pw_block_count w \<le> 16"
    and "pw_written w + word_count (pw_block_count w) mb \<le> length (pw_coefficients w)"
    and "length (pw_coefficients w) \<le> usize_max"
  shows "writer_push low high rec w = (Ok (), w\<lparr>
    pw_coefficients := take (pw_written w) (pw_coefficients w) @ macroblock_words (pw_block_count w) mb @
      drop (pw_written w + word_count (pw_block_count w) mb) (pw_coefficients w),
    pw_written := pw_written w + word_count (pw_block_count w) mb,
    pw_records := pw_records w @ [rec]\<rparr>)"
  using assms stored_values_words [of low high rec "pw_block_count w"
      "take (word_count (pw_block_count w) mb) (drop (pw_written w) (pw_coefficients w))"]
  by (simp add: writer_push_def Let_def word_count_def)

lemma push_all_Ok:
  assumes "\<forall>mb\<in>set mbs. macroblock_shape mb" "1 \<le> pw_block_count w" "pw_block_count w \<le> 16"
    and "pw_written w + length (words_of (pw_block_count w) mbs) \<le> length (pw_coefficients w)"
    and "length (pw_coefficients w) \<le> usize_max"
  shows "push_all mbs w = (Ok (), w\<lparr>
    pw_coefficients := take (pw_written w) (pw_coefficients w) @ words_of (pw_block_count w) mbs @
      drop (pw_written w + length (words_of (pw_block_count w) mbs)) (pw_coefficients w),
    pw_written := pw_written w + length (words_of (pw_block_count w) mbs),
    pw_records := pw_records w @ map record_of mbs\<rparr>)"
  using assms
proof (induction mbs arbitrary: w)
  case (Cons mb mbs)
  obtain low high rec where mb: "mb = (low, high, rec)" by (metis surj_pair)
  let ?b = "pw_block_count w"
  have shape: "macroblock_shape mb" using Cons.prems(1) by simp
  note n = word_count_length [OF shape Cons.prems(2,3)]
  have fits: "pw_written w + word_count ?b mb \<le> length (pw_coefficients w)"
    using Cons.prems(4) n by (simp add: words_of_def)
  note push = writer_push_Ok [OF shape mb Cons.prems(2,3) fits Cons.prems(5)]
  let ?n = "pw_written w + word_count ?b mb"
  let ?w = "w\<lparr>pw_coefficients := take (pw_written w) (pw_coefficients w) @ macroblock_words ?b mb @
      drop ?n (pw_coefficients w), pw_written := ?n, pw_records := pw_records w @ [rec]\<rparr>"
  have len: "length (pw_coefficients ?w) = length (pw_coefficients w)" using fits n by simp
  have words: "words_of ?b (x # mbs) = macroblock_words ?b x @ words_of ?b mbs" for x by (simp add: words_of_def)
  have "push_all mbs ?w = (Ok (), ?w\<lparr>
    pw_coefficients := take (pw_written ?w) (pw_coefficients ?w) @ words_of (pw_block_count ?w) mbs @
      drop (pw_written ?w + length (words_of (pw_block_count ?w) mbs)) (pw_coefficients ?w),
    pw_written := pw_written ?w + length (words_of (pw_block_count ?w) mbs),
    pw_records := pw_records ?w @ map record_of mbs\<rparr>)"
    by (rule Cons.IH, unfold len) (use Cons.prems n in \<open>simp_all add: words\<close>)
  moreover have "push_all (mb # mbs) w = push_all mbs ?w" by (simp add: mb run_try_def push [unfolded mb])
  ultimately show ?case using fits n by (simp add: words mb record_of_def ac_simps)
qed (simp add: words_of_def)

text \<open>A window is filled exactly when the macroblocks are as many and as long as it expects.\<close>

lemma writer_fills:
  assumes "\<forall>mb\<in>set mbs. macroblock_shape mb" "1 \<le> blocks" "blocks \<le> 16" "length cells \<le> usize_max"
    and "length (words_of blocks mbs) = length cells"
  shows "push_all mbs (writer_new cells blocks n) = (Ok (), \<lparr>pw_coefficients = words_of blocks mbs,
      pw_written = length cells, pw_block_count = blocks, pw_macroblocks = n, pw_records = map record_of mbs\<rparr>)"
    "writer_finish \<lparr>pw_coefficients = words_of blocks mbs, pw_written = length cells,
      pw_block_count = blocks, pw_macroblocks = n, pw_records = map record_of mbs\<rparr> = Ok rs \<longleftrightarrow>
      length mbs = n \<and> rs = map record_of mbs"
  using push_all_Ok [of mbs "writer_new cells blocks n"] assms
  by (auto simp: writer_new_def writer_finish_def)

section \<open>What a split covers\<close>

definition fresh_writer :: "plane_layout \<Rightarrow> nat \<Rightarrow> plane_writer \<Rightarrow> bool" where
  "fresh_writer layout macroblocks w \<longleftrightarrow> length (pw_coefficients w) = macroblocks * layout_coefficients layout \<and>
     w = writer_new (pw_coefficients w) (geometry_blocks (layout_geometry layout)) macroblocks"

lemma plane_windows_Ok:
  "plane_windows layout sizes rest = Ok (ws, left) \<Longrightarrow>
    list_all2 (fresh_writer layout) sizes ws \<and> concat (map pw_coefficients ws) @ left = rest"
proof (induction sizes arbitrary: rest ws)
  case (Cons n sizes)
  let ?n = "n * layout_coefficients layout"
  obtain ws' where w: "ws = writer_new (take ?n rest) (geometry_blocks (layout_geometry layout)) n # ws'"
    "plane_windows layout sizes (drop ?n rest) = Ok (ws', left)" "?n \<le> length rest"
    using Cons.prems by (auto simp: Let_def let_try_eq_Ok split: if_splits)
  then show ?case using Cons.IH [OF w(2)]
    by (simp add: fresh_writer_def writer_new_def)
qed simp

lemma layout_windows_Ok:
  "layout_windows layouts sizes rest = Ok (planes, left) \<Longrightarrow>
    list_all2 (\<lambda>layout ws. list_all2 (fresh_writer layout) sizes ws) layouts planes \<and>
    concat (map (\<lambda>ws. concat (map pw_coefficients ws)) planes) @ left = rest"
proof (induction layouts arbitrary: rest planes)
  case (Cons layout layouts)
  obtain ws planes' mid where w: "planes = ws # planes'" "plane_windows layout sizes rest = Ok (ws, mid)"
    "layout_windows layouts sizes mid = Ok (planes', left)"
    using Cons.prems by (auto simp: let_try_eq_Ok)
  show ?case using Cons.IH [OF w(3)] plane_windows_Ok [OF w(2)] by (auto simp: w(1))
qed simp

section \<open>What the metadata describe\<close>

text \<open>Running positions of consecutive pieces of the given lengths.\<close>

fun positions :: "nat \<Rightarrow> nat list \<Rightarrow> nat list" where
  "positions start [] = []"
| "positions start (n # ns) = start # positions (start + n) ns"

lemma positions_append: "positions start (ms @ ns) = positions start ms @ positions (start + sum_list ms) ns"
  by (induction ms arbitrary: start) (simp_all add: add.assoc)

lemma positions_length [simp]: "length (positions start ns) = length ns"
  by (induction ns arbitrary: start) simp_all

lemma positions_locate:
  "p < length xs \<Longrightarrow> take (length (xs ! p)) (drop (positions 0 (map length xs) ! p) (concat xs)) = xs ! p"
proof (induction xs rule: rev_induct)
  case (snoc x xs)
  show ?case
  proof (cases "p < length xs")
    case True
    have "positions 0 (map length xs) ! p + length (xs ! p) \<le> length (concat xs)" if "p < length xs" for p xs
      using that
    proof (induction xs arbitrary: p rule: rev_induct)
      case (snoc y ys)
      then show ?case using snoc.IH [of p]
        by (cases "p < length ys")
          (auto simp: positions_append nth_append length_concat less_Suc_eq intro: trans_le_add1)
    qed simp
    from this [OF True] show ?thesis using snoc.IH [OF True] True
      by (simp add: positions_append nth_append)
  next
    case False
    then have "p = length xs" using snoc.prems by simp
    then show ?thesis by (simp add: positions_append nth_append length_concat)
  qed
qed simp

definition metadata_aligned :: "macroblock_metadata \<Rightarrow> bool" where
  "metadata_aligned m \<longleftrightarrow> list_all (\<lambda>n. n = metadata_len m)
     [length (mm_quantizers m), length (mm_bands m), length (mm_predictions m),
      length (mm_hp_predictions m), length (mm_tile_edges m), length (mm_coded_x m),
      length (mm_coded_y m), length (mm_output_x m), length (mm_output_y m)]"

definition record_words :: "nat \<Rightarrow> macroblock_record \<Rightarrow> nat" where
  "record_words blocks rec = coefficients_per_macroblock (mr_bands rec) blocks"

text \<open>A step of the loop that succeeds.\<close>

definition extends :: "macroblock_metadata \<Rightarrow> nat \<Rightarrow> nat list \<Rightarrow> macroblock_metadata \<Rightarrow> nat \<Rightarrow> bool" where
  "extends m start sizes m' past \<longleftrightarrow> metadata_aligned m' \<and> past = start + sum_list sizes \<and>
     coefficient_offsets m' = coefficient_offsets m @ positions start sizes"

lemma extends_trans:
  "extends m a ns m' b \<Longrightarrow> extends m' b ks m'' c \<Longrightarrow> extends m a (ns @ ks) m'' c"
  by (simp add: extends_def positions_append)

lemma append_record_Ok:
  assumes "append_record location columns rows blocks (index, rec) start m = (Ok past, m')" "metadata_aligned m"
  shows "extends m start [record_words blocks rec] m' past"
proof -
  have "start < 2 ^ 32" "past = start + record_words blocks rec"
    and fields: "coefficient_offsets m' = coefficient_offsets m @ [start]"
      "length (mm_quantizers m') = Suc (length (mm_quantizers m))" "length (mm_bands m') = Suc (length (mm_bands m))"
      "length (mm_predictions m') = Suc (length (mm_predictions m))"
      "length (mm_hp_predictions m') = Suc (length (mm_hp_predictions m))"
      "length (mm_tile_edges m') = Suc (length (mm_tile_edges m))" "length (mm_coded_x m') = Suc (length (mm_coded_x m))"
      "length (mm_coded_y m') = Suc (length (mm_coded_y m))" "length (mm_output_x m') = Suc (length (mm_output_x m))"
      "length (mm_output_y m') = Suc (length (mm_output_y m))"
    using assms(1)
    by (auto simp: append_record_def outcome_simps Let_def u32_of_usize_def u32_add_or_def modify_def record_words_def
        split: if_splits)
  then show ?thesis using assms(2) by (simp add: extends_def metadata_aligned_def metadata_len_def)
qed

lemma append_records_Ok:
  "append_records location columns rows blocks rs start m = (Ok past, m') \<Longrightarrow> metadata_aligned m \<Longrightarrow>
    extends m start (map (record_words blocks \<circ> snd) rs) m' past"
proof (induction rs arbitrary: start m)
  case Nil
  then show ?case by (simp add: extends_def)
next
  case (Cons r rs)
  obtain i rec where r: "r = (i, rec)" by (cases r)
  obtain mid m1 where step: "append_record location columns rows blocks (i, rec) start m = (Ok mid, m1)"
    "append_records location columns rows blocks rs mid m1 = (Ok past, m')"
    using Cons.prems(1) by (auto simp: r outcome_simps)
  note first = append_record_Ok [OF step(1) Cons.prems(2)]
  have "metadata_aligned m1" using first by (simp add: extends_def)
  then show ?case using extends_trans [OF first Cons.IH [OF step(2)]] by (simp add: r)
qed

lemma append_tile_Ok:
  assumes "append_tile records location blocks start m = (Ok past, m')" "metadata_aligned m"
  shows "extends m start (map (record_words blocks) records) m' past"
proof -
  have "append_records location (location_width location) (location_height location) blocks
      (enumerate 0 records) start m = (Ok past, m')"
    using assms(1) by (auto simp: append_tile_def Let_def split: if_splits)
  from append_records_Ok [OF this assms(2)] show ?thesis by (simp flip: map_map)
qed

lemma append_plane_Ok:
  "append_plane component layout decoded start m = (Ok past, m') \<Longrightarrow> metadata_aligned m \<Longrightarrow>
    extends m start (concat (map (\<lambda>(tile, location).
      map (record_words (geometry_blocks (layout_geometry layout))) (tile ! component)) decoded)) m' past"
proof (induction decoded arbitrary: start m)
  case Nil
  then show ?case by (simp add: extends_def)
next
  case (Cons d decoded)
  obtain tile location where d: "d = (tile, location)" by (cases d)
  obtain mid m1 where step:
    "append_tile (tile ! component) location (geometry_blocks (layout_geometry layout)) start m = (Ok mid, m1)"
    "append_plane component layout decoded mid m1 = (Ok past, m')"
    using Cons.prems(1) by (auto simp: d outcome_simps)
  note first = append_tile_Ok [OF step(1) Cons.prems(2)]
  have "metadata_aligned m1" using first by (simp add: extends_def)
  then show ?case using extends_trans [OF first Cons.IH [OF step(2)]] by (simp add: d)
qed

text \<open>The planes that were appended cover consecutive parts of the arena and of the metadata.\<close>

definition plane_inside :: "nat \<Rightarrow> macroblock_metadata \<Rightarrow> coefficient_plane \<Rightarrow> bool" where
  "plane_inside past m plane \<longleftrightarrow> coefficient_offset plane + plane_coefficients plane \<le> past \<and>
     macroblock_offset plane + plane_macroblocks plane \<le> metadata_len m"

definition sizes_of :: "decoded_tiles \<Rightarrow> nat \<times> plane_layout \<Rightarrow> nat list" where
  "sizes_of decoded = (\<lambda>(component, layout). concat (map (\<lambda>(tile, location).
     map (record_words (geometry_blocks (layout_geometry layout))) (tile ! component)) decoded))"

lemma append_planes_Ok:
  "append_planes layouts decoded start (m, planes) = (Ok past, m', planes') \<Longrightarrow> metadata_aligned m \<Longrightarrow>
    extends m start (concat (map (sizes_of decoded) layouts)) m' past \<and>
    (\<exists>new. planes' = planes @ new \<and> (\<forall>plane\<in>set new. plane_inside past m' plane) \<and>
      map (\<lambda>p. (block_columns p, block_rows p)) new =
        map (\<lambda>(c, l). (geometry_columns (layout_geometry l), geometry_rows (layout_geometry l))) layouts)"
proof (induction layouts arbitrary: start m planes)
  case Nil
  then show ?case by (simp add: extends_def)
next
  case (Cons l layouts)
  obtain c layout where l: "l = (c, layout)" by (cases l)
  let ?plane = "\<lambda>mid m1. \<lparr>coefficient_offset = start, plane_coefficients = mid - start,
      macroblock_offset = metadata_len m, plane_macroblocks = metadata_len m1 - metadata_len m,
      block_columns = geometry_columns (layout_geometry layout), block_rows = geometry_rows (layout_geometry layout)\<rparr>"
  obtain mid m1 where step: "append_plane c layout decoded start m = (Ok mid, m1)"
    "append_planes layouts decoded mid (m1, planes @ [?plane mid m1]) = (Ok past, m', planes')"
    using Cons.prems(1)
    by (auto simp: l outcome_simps inspect_def modify_def on_metadata_def on_part_def split: prod.splits)
  have first: "extends m start (sizes_of decoded l) m1 mid"
    using append_plane_Ok [OF step(1) Cons.prems(2)] by (simp add: l sizes_of_def)
  then have "metadata_aligned m1" by (simp add: extends_def)
  note IH = Cons.IH [OF step(2) this]
  obtain new where new: "planes' = (planes @ [?plane mid m1]) @ new" "\<forall>plane\<in>set new. plane_inside past m' plane"
    "map (\<lambda>p. (block_columns p, block_rows p)) new =
        map (\<lambda>(c, l). (geometry_columns (layout_geometry l), geometry_rows (layout_geometry l))) layouts"
    using IH by blast
  have ext: "extends m start (concat (map (sizes_of decoded) (l # layouts))) m' past"
    using extends_trans [OF first conjunct1 [OF IH]] by simp
  have "start \<le> mid \<and> mid \<le> past \<and> metadata_len m \<le> metadata_len m1 \<and> metadata_len m1 \<le> metadata_len m'"
    using first conjunct1 [OF IH] by (simp add: extends_def metadata_len_def)
  then have "plane_inside past m' (?plane mid m1)" by (simp add: plane_inside_def)
  then show ?case using ext new by (intro conjI exI [of _ "?plane mid m1 # new"]) (simp_all add: l)
qed

section \<open>The arena\<close>

definition metadata_new :: macroblock_metadata where
  "metadata_new = \<lparr>coefficient_offsets = [], mm_quantizers = [], mm_bands = [], mm_predictions = [],
     mm_hp_predictions = [], mm_tile_edges = [], mm_coded_x = [], mm_coded_y = [], mm_output_x = [],
     mm_output_y = []\<rparr>"

text \<open>A writer that took all macroblocks of its tile and was finished.\<close>

definition filled :: "plane_writer \<Rightarrow> macroblock list \<Rightarrow> plane_writer \<Rightarrow> macroblock_record list \<Rightarrow> bool" where
  "filled w mbs w' rs \<longleftrightarrow> push_all mbs w = (Ok (), w') \<and> writer_finish w' = Ok rs"

lemma push_all_fits:
  "push_all mbs w = (Ok (), w') \<Longrightarrow> \<forall>mb\<in>set mbs. macroblock_shape mb \<Longrightarrow> 1 \<le> pw_block_count w \<Longrightarrow>
    pw_block_count w \<le> 16 \<Longrightarrow> length (pw_coefficients w) \<le> usize_max \<Longrightarrow> pw_written w \<le> length (pw_coefficients w) \<Longrightarrow>
    pw_written w + length (words_of (pw_block_count w) mbs) \<le> length (pw_coefficients w)"
proof (induction mbs arbitrary: w)
  case (Cons mb mbs)
  obtain low high rec where mb: "mb = (low, high, rec)" by (metis surj_pair)
  let ?b = "pw_block_count w"
  have shape: "macroblock_shape mb" using Cons.prems(2) by simp
  note n = word_count_length [OF shape Cons.prems(3,4)]
  obtain w1 where w1: "writer_push low high rec w = (Ok (), w1)" "push_all mbs w1 = (Ok (), w')"
    using Cons.prems(1) by (auto simp: mb outcome_simps)
  have fits: "pw_written w + word_count ?b mb \<le> length (pw_coefficients w)"
    using w1(1) by (auto simp: writer_push_def Let_def mb word_count_def split: if_splits)
  note push = writer_push_Ok [OF shape mb Cons.prems(3,4) fits Cons.prems(5)]
  have w1': "pw_block_count w1 = ?b" "length (pw_coefficients w1) = length (pw_coefficients w)"
    "pw_written w1 = pw_written w + word_count ?b mb"
    using push w1(1) fits n by auto
  show ?case using Cons.IH [OF w1(2)] Cons.prems w1' fits n by (simp add: words_of_def)
qed (simp add: words_of_def)

lemma filled_words:
  assumes "filled w mbs w' rs" "w = writer_new (pw_coefficients w) blocks n" "\<forall>mb\<in>set mbs. macroblock_shape mb"
    and "1 \<le> blocks" "blocks \<le> 16" "length (pw_coefficients w) \<le> usize_max"
  shows "pw_coefficients w' = words_of blocks mbs" "length (pw_coefficients w') = length (pw_coefficients w)"
    "rs = map record_of mbs"
proof -
  have push: "push_all mbs w = (Ok (), w')" and fin: "writer_finish w' = Ok rs" using assms(1) by (simp_all add: filled_def)
  have new: "pw_block_count w = blocks" "pw_written w = 0" "pw_records w = []"
    by (subst assms(2), simp add: writer_new_def)+
  have fits: "pw_written w + length (words_of (pw_block_count w) mbs) \<le> length (pw_coefficients w)"
    by (rule push_all_fits [OF push assms(3)]) (use new assms in simp_all)
  have w': "w' = w\<lparr>pw_coefficients := words_of blocks mbs @ drop (length (words_of blocks mbs)) (pw_coefficients w),
      pw_written := length (words_of blocks mbs), pw_records := map record_of mbs\<rparr>"
    using push_all_Ok [OF assms(3) _ _ fits assms(6)] push new assms(4,5) by simp
  have "length (words_of blocks mbs) = length (pw_coefficients w)"
    using fin fits new unfolding w' by (auto simp: writer_finish_def split: if_splits)
  then show "pw_coefficients w' = words_of blocks mbs" "length (pw_coefficients w') = length (pw_coefficients w)"
    "rs = map record_of mbs"
    using fin unfolding w' by (auto simp: writer_finish_def split: if_splits)
qed

text \<open>All macroblocks in the order of the arena: by component, tile and position.\<close>

definition arena_order :: "nat \<Rightarrow> nat \<Rightarrow> (nat \<Rightarrow> nat \<Rightarrow> 'a list) \<Rightarrow> 'a list" where
  "arena_order tiles comps f = concat (map (\<lambda>c. concat (map (\<lambda>j. f j c) [0..<tiles])) [0..<comps])"

lemma arena_order_map: "map g (arena_order J C f) = arena_order J C (\<lambda>j c. map g (f j c))"
  by (simp add: arena_order_def map_concat comp_def)

lemma arena_order_concat: "concat (arena_order J C f) = arena_order J C (\<lambda>j c. concat (f j c))"
proof -
  have flat: "concat (concat xss) = concat (map concat xss)" for xss :: "'x list list list"
    by (induction xss) simp_all
  show ?thesis unfolding arena_order_def flat map_map comp_def by (simp add: flat comp_def)
qed

lemma arena_order_cong: "(\<And>j c. j < J \<Longrightarrow> c < C \<Longrightarrow> f j c = g j c) \<Longrightarrow> arena_order J C f = arena_order J C g"
  unfolding arena_order_def by (intro arg_cong [where f = concat] map_cong refl) simp

lemma arena_order_length:
  "(\<And>j c. j < J \<Longrightarrow> c < C \<Longrightarrow> length (f j c) = length (g j c)) \<Longrightarrow>
    length (arena_order J C f) = length (arena_order J C g)"
  unfolding arena_order_def length_concat map_map comp_def
  by (intro arg_cong [where f = sum_list] map_cong refl) simp

definition layout_blocks :: "plane_layout \<Rightarrow> nat" where
  "layout_blocks layout = geometry_blocks (layout_geometry layout)"

definition layout_ok :: "plane_layout \<Rightarrow> bool" where
  "layout_ok layout \<longleftrightarrow> geometry_columns (layout_geometry layout) \<in> {1..4} \<and> geometry_rows (layout_geometry layout) \<in> {1..4}"

lemma layout_ok_blocks: "layout_ok layout \<Longrightarrow> 1 \<le> layout_blocks layout \<and> layout_blocks layout \<le> 16"
  using mult_le_mono [of "geometry_columns (layout_geometry layout)" 4 "geometry_rows (layout_geometry layout)" 4]
  by (auto simp: layout_ok_def layout_blocks_def geometry_blocks_def Suc_le_eq)

lemma split_planes_Ok:
  assumes "split_planes cells layouts tiles = Ok writers"
  shows "\<exists>sizes. length sizes = length writers \<and>
    (\<forall>j<length writers. \<forall>c<length layouts. fresh_writer (layouts ! c) (sizes ! j) (snd (writers ! j) ! c)) \<and>
    arena_order (length writers) (length layouts) (\<lambda>j c. pw_coefficients (snd (writers ! j) ! c)) = cells"
proof -
  let ?sel = "selected_tiles tiles" and ?sizes = "map (\<lambda>(i, tile). macroblock_count tile) (selected_tiles tiles)"
  obtain planes where planes: "layout_windows layouts ?sizes cells = Ok (planes, [])"
    and writers: "writers = map (\<lambda>j. (fst (?sel ! j), map (\<lambda>ws. ws ! j) planes)) [0..<length ?sel]"
    using assms by (auto simp: split_planes_def Let_def let_try_eq_Ok split: if_splits)
  note w = layout_windows_Ok [OF planes]
  have len: "length planes = length layouts" using list_all2_lengthD [OF conjunct1 [OF w]] by simp
  have plane: "list_all2 (fresh_writer (layouts ! c)) ?sizes (planes ! c)" if "c < length layouts" for c
    using list_all2_nthD [OF conjunct1 [OF w] that] .
  have at: "snd (writers ! j) ! c = planes ! c ! j" if "j < length ?sel" "c < length layouts" for j c
    using that len by (simp add: writers)
  have "fresh_writer (layouts ! c) (?sizes ! j) (snd (writers ! j) ! c)"
    if "j < length writers" "c < length layouts" for j c
    using list_all2_nthD [OF plane [OF that(2)], of j] that at [of j c] by (simp add: writers)
  moreover have "arena_order (length ?sel) (length layouts) (\<lambda>j c. pw_coefficients (snd (writers ! j) ! c)) = cells"
  proof -
    have row: "map (\<lambda>j. pw_coefficients (snd (writers ! j) ! c)) [0..<length ?sel] = map pw_coefficients (planes ! c)"
      if "c < length layouts" for c
      using list_all2_lengthD [OF plane [OF that]] that by (intro nth_equalityI) (simp_all add: at)
    have "map (\<lambda>c. concat (map (\<lambda>j. pw_coefficients (snd (writers ! j) ! c)) [0..<length ?sel])) [0..<length layouts] =
        map (\<lambda>ws. concat (map pw_coefficients ws)) planes"
      using len row by (intro nth_equalityI) simp_all
    then show ?thesis using conjunct2 [OF w] by (simp add: arena_order_def)
  qed
  ultimately show ?thesis by (intro exI [of _ ?sizes]) (simp add: writers)
qed

lemma sizes_in_order:
  assumes "\<And>j c. j < J \<Longrightarrow> c < length layouts \<Longrightarrow> length (R j) = length layouts"
  shows "concat (map (sizes_of (map (\<lambda>j. (R j, Loc j)) [0..<J])) (enumerate 0 layouts)) =
    arena_order J (length layouts) (\<lambda>j c. map (record_words (layout_blocks (layouts ! c))) (R j ! c))"
proof -
  have "map (sizes_of (map (\<lambda>j. (R j, Loc j)) [0..<J])) (enumerate 0 layouts) =
      map (\<lambda>c. concat (map (\<lambda>j. map (record_words (layout_blocks (layouts ! c))) (R j ! c)) [0..<J])) [0..<length layouts]"
    by (intro nth_equalityI) (simp_all add: sizes_of_def layout_blocks_def nth_enumerate_eq comp_def)
  then show ?thesis by (simp add: arena_order_def)
qed

lemma contract_holds:
  assumes "metadata_aligned m" "\<forall>o'\<in>set (coefficient_offsets m). o' \<le> n" "\<forall>plane\<in>set planes. plane_inside n m plane"
    and "\<forall>plane\<in>set planes. block_columns plane \<in> {1..4} \<and> block_rows plane \<in> {1..4}" "n \<le> usize_max"
    and "metadata_len m \<le> usize_max"
  shows "validate_coefficient_contract n m planes = Ok ()"
proof -
  have "metadata_validate n m = Ok ()"
    using assms(1,2) by (auto simp: metadata_validate_def metadata_aligned_def list_ex_iff Let_def not_less)
  moreover have "each_try (plane_contract n m) planes () = Ok ()"
    using assms(3-6) by (induction planes)
      (auto simp: plane_contract_def check_range_def usize_add_def plane_inside_def)
  ultimately show ?thesis by (simp add: validate_coefficient_contract_def)
qed

lemma positions_bound: "o' \<in> set (positions start ns) \<Longrightarrow> o' \<le> start + sum_list ns"
  by (induction ns arbitrary: start) fastforce+

text \<open>The part of one writer is no longer than the arena that it is a part of.\<close>

lemma arena_order_part:
  assumes "j < J" "c < C" "arena_order J C parts = cells"
  shows "length (parts j c) \<le> length cells"
proof -
  have "parts j c \<in> set (arena_order J C (\<lambda>j c. [parts j c]))"
    using assms(1,2) by (auto simp: arena_order_def intro!: bexI [of _ c])
  then have "length (parts j c) \<le> length (concat (arena_order J C (\<lambda>j c. [parts j c])))"
    by (auto simp: length_concat intro: member_le_sum_list)
  then show ?thesis using assms(3) by (simp add: arena_order_concat)
qed

lemma macroblock_record_words:
  assumes "macroblock_shape mb" "1 \<le> b" "b \<le> 16"
  shows "record_words b (record_of mb) = length (macroblock_words b mb)"
  using word_count_length [OF assms] by (cases mb) (simp add: record_words_def record_of_def word_count_def)

text \<open>
  C3: the arena holds every macroblock where its metadata say. Split the storage into the windows of
  the selected tiles, store the macroblocks of each tile and component through its window until it
  is complete, and append the metadata of all records: then the windows cover the storage exactly,
  in the order component, tile, macroblock; every coefficient offset locates the words of its
  macroblock (per block the DC/LP value and the fifteen HP values, as far as its bands go); and the
  contract that the arena is validated against holds.
\<close>

theorem arena_addressed:
  assumes split: "split_planes cells layouts tiles = Ok writers" and size: "length cells \<le> usize_max"
    and layouts: "list_all layout_ok layouts"
    and shape: "\<And>j c mb. j < length writers \<Longrightarrow> c < length layouts \<Longrightarrow> mb \<in> set (Ms j c) \<Longrightarrow> macroblock_shape mb"
    and stored: "\<And>j c. j < length writers \<Longrightarrow> c < length layouts \<Longrightarrow>
      filled (snd (writers ! j) ! c) (Ms j c) (Ws j c) (Rs j c)"
    and meta: "append_metadata (map (\<lambda>j. (map (Rs j) [0..<length layouts], Loc j)) [0..<length writers]) layouts
      (metadata_new, []) = (Ok past, m, planes)"
    and words: "words = arena_order (length writers) (length layouts)
      (\<lambda>j c. map (macroblock_words (layout_blocks (layouts ! c))) (Ms j c))"
    and arena: "arena = arena_order (length writers) (length layouts) (\<lambda>j c. pw_coefficients (Ws j c))"
  shows "arena = concat words \<and> length arena = length cells \<and> past = length cells \<and>
    metadata_len m = length words \<and>
    (\<forall>p<length words. take (length (words ! p)) (drop (coefficient_offsets m ! p) arena) = words ! p) \<and>
    (metadata_len m \<le> usize_max \<longrightarrow> validate_coefficient_contract past m planes = Ok ())"
proof -
  let ?J = "length writers" and ?C = "length layouts"
  let ?b = "\<lambda>c. layout_blocks (layouts ! c)"
  obtain sizes where fresh: "\<And>j c. j < ?J \<Longrightarrow> c < ?C \<Longrightarrow> fresh_writer (layouts ! c) (sizes ! j) (snd (writers ! j) ! c)"
    and cells: "arena_order ?J ?C (\<lambda>j c. pw_coefficients (snd (writers ! j) ! c)) = cells"
    using split_planes_Ok [OF split] by blast
  have b: "1 \<le> ?b c" "?b c \<le> 16" if "c < ?C" for c
    using layouts layout_ok_blocks [of "layouts ! c"] that by (simp_all add: list_all_length)
  have small: "length (pw_coefficients (snd (writers ! j) ! c)) \<le> usize_max" if "j < ?J" "c < ?C" for j c
    using arena_order_part [OF that cells] size by simp
  have w: "pw_coefficients (Ws j c) = words_of (?b c) (Ms j c)"
    "length (pw_coefficients (Ws j c)) = length (pw_coefficients (snd (writers ! j) ! c))"
    "Rs j c = map record_of (Ms j c)" if jc: "j < ?J" "c < ?C" for j c
    using filled_words [OF stored [OF jc] _ _ b [OF jc(2)] small [OF jc], where n = "sizes ! j"] fresh [OF jc]
      shape [OF jc] by (auto simp: fresh_writer_def layout_blocks_def)
  have concat: "arena = concat words"
    unfolding words arena arena_order_concat by (rule arena_order_cong) (simp add: w(1) words_of_def)
  have length: "length arena = length cells"
    unfolding arena cells [symmetric] by (rule arena_order_length) (rule w(2))
  have planes: "append_planes (enumerate 0 layouts) (map (\<lambda>j. (map (Rs j) [0..<?C], Loc j)) [0..<?J]) 0
      (metadata_new, []) = (Ok past, m, planes)"
    using meta by (auto simp: append_metadata_def split: if_splits)
  have "metadata_aligned metadata_new" by (simp add: metadata_aligned_def metadata_new_def metadata_len_def)
  note ap = append_planes_Ok [OF planes this]
  have sizes: "concat (map (sizes_of (map (\<lambda>j. (map (Rs j) [0..<?C], Loc j)) [0..<?J])) (enumerate 0 layouts)) =
      map length words"
  proof -
    have "record_words (?b c) (record_of mb) = length (macroblock_words (?b c) mb)"
      if "j < ?J" "c < ?C" "mb \<in> set (Ms j c)" for j c mb
      by (rule macroblock_record_words [OF shape [OF that] b [OF that(2)]])
    then show ?thesis unfolding words arena_order_map
      by (subst sizes_in_order) (auto intro!: arena_order_cong simp: w(3))
  qed
  have ext: "metadata_aligned m" "past = length arena" "coefficient_offsets m = positions 0 (map length words)"
    using conjunct1 [OF ap] unfolding sizes extends_def concat by (simp_all add: length_concat metadata_new_def)
  obtain new where new: "planes = new" "\<forall>plane\<in>set new. plane_inside past m plane"
    "map (\<lambda>p. (block_columns p, block_rows p)) new =
      map (\<lambda>(c, l). (geometry_columns (layout_geometry l), geometry_rows (layout_geometry l))) (enumerate 0 layouts)"
    using conjunct2 [OF ap] by auto
  have geometry: "block_columns plane \<in> {1..4} \<and> block_rows plane \<in> {1..4}" if "plane \<in> set planes" for plane
  proof -
    have "(block_columns plane, block_rows plane) \<in> set (map (\<lambda>p. (block_columns p, block_rows p)) new)"
      using that new(1) by auto
    then show ?thesis unfolding new(3) using layouts
      by (auto simp: list_all_iff layout_ok_def in_set_enumerate_eq)
  qed
  have "validate_coefficient_contract past m planes = Ok ()" if "metadata_len m \<le> usize_max"
    by (rule contract_holds [OF ext(1)])
      (use positions_bound [of _ 0 "map length words"] ext new geometry size length that in
        \<open>auto simp: concat length_concat\<close>)
  then show ?thesis
    using concat length ext positions_locate [of _ words] by (simp add: metadata_len_def)
qed

definition sample_layout :: plane_layout where
  "sample_layout = \<lparr>layout_geometry = \<lparr>geometry_columns = 4, geometry_rows = 4\<rparr>, layout_coefficients = 1\<rparr>"

definition sample_tile :: tile_plan where
  "sample_tile = \<lparr>packet_range = \<lparr>range_offset = 0, range_length = 0\<rparr>,
     tile_region = \<lparr>rect_x = 0, rect_y = 0, rect_w = 16, rect_h = 16\<rparr>, macroblock_start = 0,
     macroblock_count = 1, hard_boundaries = False, required_for_reconstruction = True\<rparr>"

definition sample_record :: macroblock_record where
  "sample_record = \<lparr>mr_quantizers = \<lparr>rq_dc = 1, rq_low_pass = 1, rq_high_pass = 1\<rparr>, mr_bands = DcOnly,
     mr_prediction = PredictNone, mr_hp_prediction = PredictNone\<rparr>"

definition sample_location :: tile_location where
  "sample_location = \<lparr>global_x = 0, global_y = 0, location_width = 1, location_height = 1,
     location_hard = False, margin_left = 0, margin_top = 0\<rparr>"

definition sample_metadata :: macroblock_metadata where
  "sample_metadata = fst (snd (append_metadata [([[sample_record]], sample_location)] [sample_layout]
     (metadata_new, [])))"

lemma arena_addressed_witness:
  "take 1 (drop (coefficient_offsets sample_metadata ! 0) [5 :: i32]) = [5]"
proof -
  let ?mb = "(replicate 16 5, replicate 256 0, sample_record)"
  let ?w = "writer_new [0] 16 1"
  let ?w' = "?w\<lparr>pw_coefficients := [5], pw_written := 1, pw_records := [sample_record]\<rparr>"
  have split: "split_planes [0] [sample_layout] [sample_tile] = Ok [(0, [?w])]"
    by (simp add: split_planes_def selected_tiles_def sample_tile_def sample_layout_def enumerate_eq_zip
        geometry_blocks_def Let_def)
  have words: "macroblock_words 16 ?mb = [5]" by (simp add: macroblock_words_def sample_record_def)
  have filled: "filled ?w [?mb] ?w' [sample_record]"
    by (simp add: filled_def run_try_def writer_push_def writer_new_def stored_values_def sample_record_def
        coefficients_per_macroblock_def Let_def writer_finish_def)
  obtain m planes where meta: "append_metadata [([[sample_record]], sample_location)] [sample_layout]
      (metadata_new, []) = (Ok 1, m, planes)"
    by (simp add: append_metadata_def enumerate_eq_zip run_try_def inspect_def modify_def on_metadata_def
        on_part_def append_tile_def append_record_def sample_location_def sample_layout_def sample_record_def
        u32_of_usize_def u32_add_or_def coefficients_per_macroblock_def Let_def)
  have "list_all layout_ok [sample_layout]" "layout_blocks sample_layout = 16"
    by (simp_all add: layout_ok_def sample_layout_def layout_blocks_def geometry_blocks_def)
  then have "\<forall>p<length [[5]]. take (length ([[5]] ! p)) (drop (coefficient_offsets m ! p) [5]) = [[5::int]] ! p"
    using arena_addressed [OF split, where Ms = "\<lambda>_ _. [?mb]" and Ws = "\<lambda>_ _. ?w'" and Rs = "\<lambda>_ _. [sample_record]"
        and Loc = "\<lambda>_. sample_location" and past = 1 and m = m and planes = planes and words = "[[5]]" and arena = "[5]"]
      filled meta words by (simp add: macroblock_shape_def arena_order_def)
  then show ?thesis by (simp add: sample_metadata_def meta)
qed

end
