(* ===== verification/Spatial.thy ===== *)
theory Spatial
  imports Tile_Output
begin

text \<open>
  Spatial-mode decoding of a single-component tile (\<open>crates/jxr-native/src/tile_decode/spatial.rs\<close>):
  DC and low-pass prediction from decoded neighbours, the bands of one macroblock, the adaptation at
  context boundaries and the macroblock loop of a packet.
\<close>

section \<open>Neighbours\<close>

text \<open>What prediction reads of an earlier macroblock.\<close>

record prediction_record =
  pr_low :: "i32 list"
  pr_lp_qp_index :: nat

definition neighbour ::
  "prediction_record list \<Rightarrow> nat \<Rightarrow> nat \<Rightarrow> nat \<Rightarrow> (tile_decode_error, prediction_record) result" where
  "neighbour decoded columns x y =
     (let i = min (min (y * columns) usize_max + x) usize_max in
      if i < length decoded then Ok (decoded ! i) else Err (InvalidPlan ''prediction neighbour''))"

definition low_pass_at ::
  "prediction_record list \<Rightarrow> nat \<Rightarrow> nat \<Rightarrow> nat \<Rightarrow> (tile_decode_error, i32 list) result" where
  "low_pass_at decoded columns x y = let_try (neighbour decoded columns x y) (\<lambda>d. Ok (pr_low d))"

definition tile_checked_add :: "i32 \<Rightarrow> i32 \<Rightarrow> string \<Rightarrow> (tile_decode_error, i32) result" where
  "tile_checked_add left right operation = ok_or (ArithmeticOverflow operation) (i32_checked_add left right)"

text \<open>\<open>n - 1\<close> on \<open>usize\<close>, checked in a build with overflow checks.\<close>

definition usize_pred :: "nat \<Rightarrow> ('e, nat) result" where
  "usize_pred n = (if n = 0 then Panic else Ok (n - 1))"

section \<open>DC prediction\<close>

record dc_prediction =
  dc_value :: i32
  dc_mode :: prediction_mode

definition abs_diff :: "i32 \<Rightarrow> i32 \<Rightarrow> nat" where
  "abs_diff a b = nat \<bar>a - b\<bar>"

definition dc_prediction_mode ::
  "prediction_record list \<Rightarrow> nat \<Rightarrow> nat \<Rightarrow> nat \<Rightarrow> (tile_decode_error, prediction_mode) result" where
  "dc_prediction_mode decoded columns x y =
     (if x = 0 \<and> y = 0 then Ok PredictNone
      else if x = 0 then Ok PredictTop
      else if y = 0 then Ok PredictLeft
      else
        let_try (low_pass_at decoded columns (x - 1) y) (\<lambda>left.
        let_try (low_pass_at decoded columns x (y - 1)) (\<lambda>above.
        let_try (low_pass_at decoded columns (x - 1) (y - 1)) (\<lambda>above_left.
        let horizontal = abs_diff (above_left ! 0) (left ! 0);
            vertical = abs_diff (above_left ! 0) (above ! 0)
        in Ok (if u32_saturating_mul horizontal 4 < vertical then PredictTop
               else if u32_saturating_mul vertical 4 < horizontal then PredictLeft
               else PredictTopLeft)))))"

definition predict_dc ::
  "i32 \<Rightarrow> prediction_record list \<Rightarrow> nat \<Rightarrow> nat \<Rightarrow> nat \<Rightarrow> (tile_decode_error, dc_prediction) result" where
  "predict_dc v decoded columns x y =
     let_try (dc_prediction_mode decoded columns x y) (\<lambda>mode.
     let_try
       (case mode of
          PredictNone \<Rightarrow> Ok v
        | PredictLeft \<Rightarrow>
            let_try (usize_pred x) (\<lambda>x. let_try (low_pass_at decoded columns x y) (\<lambda>left.
            tile_checked_add v (left ! 0) ''left DC prediction''))
        | PredictTop \<Rightarrow>
            let_try (usize_pred y) (\<lambda>y. let_try (low_pass_at decoded columns x y) (\<lambda>above.
            tile_checked_add v (above ! 0) ''top DC prediction''))
        | PredictTopLeft \<Rightarrow>
            let_try (usize_pred x) (\<lambda>x'. let_try (low_pass_at decoded columns x' y) (\<lambda>left.
            let_try (usize_pred y) (\<lambda>y'. let_try (low_pass_at decoded columns x y') (\<lambda>above.
            let average = sar (left ! 0 + above ! 0) 1 in
            if \<not> in_i32 average then Err (ArithmeticOverflow ''DC prediction average'')
            else tile_checked_add v average ''two-neighbour DC prediction'')))))
     (\<lambda>predicted. Ok \<lparr>dc_value = predicted, dc_mode = mode\<rparr>))"

section \<open>Low-pass prediction\<close>

definition low_pass_prediction_mode :: "prediction_record list \<Rightarrow> macroblock_position \<Rightarrow>
    prediction_mode \<Rightarrow> nat \<Rightarrow> (tile_decode_error, prediction_mode) result" where
  "low_pass_prediction_mode decoded position mode lp_qp_index =
     (let columns = mp_width position; x = mp_x position; y = mp_y position in
      case mode of
        PredictLeft \<Rightarrow>
          let_try (usize_pred x) (\<lambda>x. let_try (neighbour decoded columns x y) (\<lambda>d.
          Ok (if pr_lp_qp_index d = lp_qp_index then PredictLeft else PredictNone)))
      | PredictTop \<Rightarrow>
          let_try (usize_pred y) (\<lambda>y. let_try (neighbour decoded columns x y) (\<lambda>d.
          Ok (if pr_lp_qp_index d = lp_qp_index then PredictTop else PredictNone)))
      | _ \<Rightarrow> Ok PredictNone)"

definition add_at :: "i32 list \<Rightarrow> string \<Rightarrow> nat \<Rightarrow> i32 list \<Rightarrow> (tile_decode_error, i32 list) result" where
  "add_at source operation i current =
     let_try (tile_checked_add (current ! i) (source ! i) operation) (\<lambda>v. Ok (current[i := v]))"

definition predict_low_pass :: "i32 list \<Rightarrow> prediction_record list \<Rightarrow> macroblock_position \<Rightarrow>
    prediction_mode \<Rightarrow> nat \<Rightarrow> (tile_decode_error, i32 list) result" where
  "predict_low_pass current decoded position mode lp_qp_index =
     (let columns = mp_width position; x = mp_x position; y = mp_y position in
      let_try (low_pass_prediction_mode decoded position mode lp_qp_index) (\<lambda>mode.
      case mode of
        PredictLeft \<Rightarrow>
          let_try (usize_pred x) (\<lambda>x. let_try (low_pass_at decoded columns x y) (\<lambda>left.
          each_try (add_at left ''left LP prediction'') [4, 8, 12] current))
      | PredictTop \<Rightarrow>
          let_try (usize_pred y) (\<lambda>y. let_try (low_pass_at decoded columns x y) (\<lambda>above.
          each_try (add_at above ''top LP prediction'') [1, 2, 3] current))
      | _ \<Rightarrow> Ok current))"

section \<open>The bands of a macroblock\<close>

definition decode_dc_band ::
  "prediction_record list \<Rightarrow> macroblock_position \<Rightarrow> dc_prediction tile_action" where
  "decode_dc_band decoded position =
     run_try (with_reader (from_entropy packet_read_bit)) (\<lambda>has_abs_level.
     run_try (inspect (\<lambda>(r, e, c). bits_of_model False (dc_model e))) (\<lambda>bits.
     run_try (with_dc_vlc (decode_dc_coefficient bits has_abs_level Luma)) (\<lambda>dc.
     run_try (with_dc_model (model_update (of_bool has_abs_level, 0) LumaOnly)) (\<lambda>_.
     pure_try (predict_dc dc decoded (mp_width position) (mp_x position) (mp_y position))))))"

definition refine_low_pass :: "i32 list \<Rightarrow> nat \<Rightarrow> i32 list tile_action" where
  "refine_low_pass out bits = (\<lambda>(r, e, c).
     case lift_entropy (decode_lp_refinement bits) (r, out) of
       (x, r', out') \<Rightarrow> (let_try x (\<lambda>_. Ok out'), r', e, c))"

text \<open>The output is the caller's array, which the steps below pass on.\<close>

definition decode_low_pass :: "i32 list \<Rightarrow> i32 list tile_action" where
  "decode_low_pass out =
     run_try (with_reader (from_entropy packet_read_bit)) (\<lambda>coded.
     run_try (if coded then lp_block Luma 1 out else give (0, out)) (\<lambda>(non_zero, out).
     run_try (inspect (\<lambda>(r, e, c). bits_of_model False (lp_model e))) (\<lambda>bits.
     run_try (refine_low_pass out bits) (\<lambda>out.
     run_try (with_lp_model (model_update (int non_zero, 0) LumaOnly)) (\<lambda>_.
     give out)))))"

definition decode_low_bands :: "prediction_record list \<Rightarrow> macroblock_position \<Rightarrow> nat \<Rightarrow>
    band_presence \<Rightarrow> (i32 list \<times> prediction_mode) tile_action" where
  "decode_low_bands decoded position lp_qp_index bands =
     run_try (decode_dc_band decoded position) (\<lambda>prediction.
     let low = (replicate 16 0)[0 := dc_value prediction] in
     run_try
       (if has_low_pass bands then
          run_try (decode_low_pass low) (\<lambda>low.
          pure_try (predict_low_pass low decoded position (dc_mode prediction) lp_qp_index))
        else give low)
     (\<lambda>low. give (low, dc_mode prediction)))"

definition decode_high_band :: "macroblock_position \<Rightarrow> prediction_mode \<Rightarrow> band_presence \<Rightarrow> nat \<Rightarrow>
    i32 list tile_action" where
  "decode_high_band position mode bands trim =
     (if \<not> has_high_pass bands then give (replicate 256 0)
      else
        run_try (decode_vlc position mode (Combined (has_flexbits bands) trim)) (\<lambda>(out, bits).
        give out))"

definition adapt_at_boundary :: "nat \<Rightarrow> nat \<Rightarrow> tile_parts \<Rightarrow> tile_parts" where
  "adapt_at_boundary x columns = (\<lambda>(r, e, c).
     if x + 1 = columns \<or> x mod 16 = 0
     then (r, e\<lparr>dc_vlc := dc_adapt (dc_vlc e), lp_vlc := ac_adapt (lp_vlc e), hp_vlc := ac_adapt (hp_vlc e)\<rparr>,
       cbphp_adapt c)
     else (r, e, c))"

section \<open>The packet\<close>

definition validate_y_only :: "image_plane_header \<Rightarrow> (tile_decode_error, unit) result" where
  "validate_y_only plane =
     (if internal_color_format plane = 0 \<and> components plane = 1 then Ok ()
      else Err (UnsupportedSyntax ''only single-component Y-only tile decoding is implemented''))"

definition TILE_START_CODE :: nat where "TILE_START_CODE = 1"

definition parse_packet_prefix :: "unit tile_decoder" where
  "parse_packet_prefix =
     run_try (from_entropy (packet_read_bits 24)) (\<lambda>start.
     if 2 ^ 32 \<le> start then fail (ArithmeticOverflow ''tile start code'')
     else if start \<noteq> TILE_START_CODE then fail (InvalidStartCode start)
     else run_try (from_entropy (packet_read_bits 8)) (\<lambda>_. give ()))"

definition tile_read_u8 :: "nat \<Rightarrow> nat tile_decoder" where
  "tile_read_u8 bits = run_try (from_entropy (packet_read_bits bits)) (\<lambda>v.
     if v < 2 ^ 8 then give v else fail (ArithmeticOverflow ''tile field conversion''))"

text \<open>
  The loop reads a bit while the position is not a multiple of eight; a fuel of eight turns is
  enough (\<open>byte_alignment_reached\<close>), so the panic of an exhausted loop is never the outcome.
\<close>

fun alignment_loop :: "nat \<Rightarrow> unit tile_decoder" where
  "alignment_loop 0 = pure_try Panic"
| "alignment_loop (Suc fuel) = (\<lambda>r.
     if pk_position r mod 8 = 0 then (Ok (), r)
     else run_try (from_entropy packet_read_bit) (\<lambda>_. alignment_loop fuel) r)"

definition consume_byte_alignment :: "unit tile_decoder" where
  "consume_byte_alignment = alignment_loop 8"

text \<open>\<open>Vec::with_capacity\<close> of prediction records, of 68 bytes each.\<close>

definition reserve_records :: "nat \<Rightarrow> ('e, unit) result" where
  "reserve_records n = (if 2 ^ 63 - 1 < n * 68 then Panic else Ok ())"

text \<open>The state of the macroblock loop: the parts, the decoded records and the output window.\<close>

type_synonym spatial_state = "tile_parts \<times> prediction_record list \<times> plane_writer"
type_synonym 'a spatial_action = "(spatial_state, tile_decode_error, 'a) action"

definition on_parts :: "'a tile_action \<Rightarrow> 'a spatial_action" where
  "on_parts m = on_part fst (\<lambda>p (_, rest). (p, rest)) m"

definition on_writer :: "(plane_writer, tile_decode_error, 'a) action \<Rightarrow> 'a spatial_action" where
  "on_writer m = on_part (\<lambda>(p, d, w). w) (\<lambda>w (p, d, _). (p, d, w)) m"

definition spatial_step :: "tile_quantizers \<Rightarrow> image_plane_header \<Rightarrow> band_presence \<Rightarrow> nat \<Rightarrow> nat \<Rightarrow>
    nat \<times> nat \<Rightarrow> unit spatial_action" where
  "spatial_step quantizers plane bands columns trim = (\<lambda>(x, y).
     let position = \<lparr>mp_width = columns, mp_x = x, mp_y = y\<rparr> in
     run_try (if x mod 16 = 0 then on_parts (modify (\<lambda>(r, e, c). (r, reset_scan_totals e, c))) else give ()) (\<lambda>_.
     run_try (on_parts (with_reader (macroblock_indices quantizers))) (\<lambda>qp.
     run_try (inspect (\<lambda>(p, decoded, w). decoded)) (\<lambda>decoded.
     run_try (on_parts (decode_low_bands decoded position (qi_lp qp) bands)) (\<lambda>(low, prediction).
     let hp_mode = prediction_mode_of low in
     run_try (on_parts (decode_high_band position hp_mode bands trim)) (\<lambda>high.
     run_try (pure_try (reconstruction_steps qp (scaled plane) quantizers)) (\<lambda>steps.
     run_try (on_writer (writer_push low high \<lparr>mr_quantizers = steps, mr_bands = bands,
       mr_prediction = prediction, mr_hp_prediction = hp_mode\<rparr>)) (\<lambda>_.
     modify (\<lambda>(p, decoded, w). (adapt_at_boundary x columns p,
       decoded @ [\<lparr>pr_low = low, pr_lp_qp_index = qi_lp qp\<rparr>], w))))))))))"

fun spatial_loop :: "tile_quantizers \<Rightarrow> image_plane_header \<Rightarrow> band_presence \<Rightarrow> nat \<Rightarrow> nat \<Rightarrow>
    (nat \<times> nat) list \<Rightarrow> unit spatial_action" where
  "spatial_loop quantizers plane bands columns trim [] = give ()"
| "spatial_loop quantizers plane bands columns trim (p # ps) =
     run_try (spatial_step quantizers plane bands columns trim p) (\<lambda>_.
     spatial_loop quantizers plane bands columns trim ps)"

definition raster :: "nat \<Rightarrow> nat \<Rightarrow> (nat \<times> nat) list" where
  "raster columns rows = concat (map (\<lambda>y. map (\<lambda>x. (x, y)) [0..<columns]) [0..<rows])"

definition spatial_header :: "image_plane_header \<Rightarrow> bool \<Rightarrow> (nat \<times> tile_quantizers) tile_decoder" where
  "spatial_header plane trim_present =
     run_try parse_packet_prefix (\<lambda>_.
     run_try (if trim_present then tile_read_u8 4 else give 0) (\<lambda>trim.
     run_try (parse_tile_quantizers plane) (\<lambda>quantizers.
     give (trim, quantizers))))"

definition decode_spatial_packet :: "u8 list \<Rightarrow> image_plane_header \<Rightarrow> band_presence \<Rightarrow> nat \<Rightarrow> nat \<Rightarrow>
    bool \<Rightarrow> (plane_writer, tile_decode_error, unit) action" where
  "decode_spatial_packet packet plane bands columns rows trim_present = (\<lambda>w.
     case validate_y_only plane of Err e \<Rightarrow> (Err e, w) | Panic \<Rightarrow> (Panic, w) | Ok _ \<Rightarrow>
     (case spatial_header plane trim_present (packet_new packet) of
        (Err e, _) \<Rightarrow> (Err e, w) | (Panic, _) \<Rightarrow> (Panic, w)
      | (Ok (trim, quantizers), r) \<Rightarrow>
        if usize_max < columns * rows then (Err (ArithmeticOverflow ''tile macroblock count''), w)
        else case reserve_records (columns * rows) of Err e \<Rightarrow> (Err e, w) | Panic \<Rightarrow> (Panic, w) | Ok _ \<Rightarrow>
        (case run_try (spatial_loop quantizers plane bands columns trim (raster columns rows))
            (\<lambda>_. on_parts (with_reader consume_byte_alignment))
            ((r, entropy_reset_tile tile_entropy_new, cbphp_new columns), [], w) of
          (x, p, d, w') \<Rightarrow> (x, w'))))"

section \<open>Prediction is safe\<close>

definition records_ok :: "prediction_record list \<Rightarrow> bool" where
  "records_ok decoded \<longleftrightarrow> (\<forall>d\<in>set decoded. i32_area 16 (pr_low d))"

lemma neighbour_yields: "records_ok decoded \<Longrightarrow> yields (neighbour decoded columns x y) (\<lambda>d. i32_area 16 (pr_low d))"
  by (simp add: neighbour_def Let_def records_ok_def)

lemma low_pass_at_yields: "records_ok decoded \<Longrightarrow> yields (low_pass_at decoded columns x y) (i32_area 16)"
  unfolding low_pass_at_def by (rule yields_bind [OF neighbour_yields]) simp_all

lemma tile_checked_add_yields: "yields (tile_checked_add a b operation) in_i32"
  unfolding tile_checked_add_def by (rule yields_ok_or) (auto simp: outcome_simps)

definition mode_possible :: "nat \<Rightarrow> nat \<Rightarrow> prediction_mode \<Rightarrow> bool" where
  "mode_possible x y mode \<longleftrightarrow> (mode = PredictLeft \<longrightarrow> x \<noteq> 0) \<and> (mode = PredictTop \<longrightarrow> y \<noteq> 0) \<and>
     (mode = PredictTopLeft \<longrightarrow> x \<noteq> 0 \<and> y \<noteq> 0)"

lemma dc_prediction_mode_yields:
  assumes "records_ok decoded"
  shows "yields (dc_prediction_mode decoded columns x y) (mode_possible x y)"
  unfolding dc_prediction_mode_def
  by (intro yields_if yields_bind [OF low_pass_at_yields [OF assms]]) (auto simp: mode_possible_def Let_def)

lemma predict_dc_yields:
  assumes "records_ok decoded" "in_i32 v"
  shows "yields (predict_dc v decoded columns x y) (\<lambda>p. in_i32 (dc_value p) \<and> mode_possible x y (dc_mode p))"
  unfolding predict_dc_def
proof (rule yields_bind [OF dc_prediction_mode_yields [OF assms(1)]])
  fix mode assume mode: "mode_possible x y mode"
  have pred: "usize_pred n = Ok (n - 1)" if "n \<noteq> 0" for n using that by (simp add: usize_pred_def)
  have "yields (case mode of
          PredictNone \<Rightarrow> Ok v
        | PredictLeft \<Rightarrow>
            let_try (usize_pred x) (\<lambda>x. let_try (low_pass_at decoded columns x y) (\<lambda>left.
            tile_checked_add v (left ! 0) ''left DC prediction''))
        | PredictTop \<Rightarrow>
            let_try (usize_pred y) (\<lambda>y. let_try (low_pass_at decoded columns x y) (\<lambda>above.
            tile_checked_add v (above ! 0) ''top DC prediction''))
        | PredictTopLeft \<Rightarrow>
            let_try (usize_pred x) (\<lambda>x'. let_try (low_pass_at decoded columns x' y) (\<lambda>left.
            let_try (usize_pred y) (\<lambda>y'. let_try (low_pass_at decoded columns x y') (\<lambda>above.
            let average = sar (left ! 0 + above ! 0) 1 in
            if \<not> in_i32 average then Err (ArithmeticOverflow ''DC prediction average'')
            else tile_checked_add v average ''two-neighbour DC prediction''))))) in_i32"
    using mode assms(2)
    by (cases mode)
      (auto simp: mode_possible_def pred Let_def intro!: yields_bind [OF low_pass_at_yields [OF assms(1)]]
        tile_checked_add_yields)
  then show "yields (let_try (case mode of
          PredictNone \<Rightarrow> Ok v
        | PredictLeft \<Rightarrow>
            let_try (usize_pred x) (\<lambda>x. let_try (low_pass_at decoded columns x y) (\<lambda>left.
            tile_checked_add v (left ! 0) ''left DC prediction''))
        | PredictTop \<Rightarrow>
            let_try (usize_pred y) (\<lambda>y. let_try (low_pass_at decoded columns x y) (\<lambda>above.
            tile_checked_add v (above ! 0) ''top DC prediction''))
        | PredictTopLeft \<Rightarrow>
            let_try (usize_pred x) (\<lambda>x'. let_try (low_pass_at decoded columns x' y) (\<lambda>left.
            let_try (usize_pred y) (\<lambda>y'. let_try (low_pass_at decoded columns x y') (\<lambda>above.
            let average = sar (left ! 0 + above ! 0) 1 in
            if \<not> in_i32 average then Err (ArithmeticOverflow ''DC prediction average'')
            else tile_checked_add v average ''two-neighbour DC prediction'')))))
      (\<lambda>predicted. Ok \<lparr>dc_value = predicted, dc_mode = mode\<rparr>))
      (\<lambda>p. in_i32 (dc_value p) \<and> mode_possible x y (dc_mode p))"
    by (rule yields_bind) (use mode in simp)
qed

lemma low_pass_prediction_mode_yields:
  assumes "records_ok decoded" "mode_possible (mp_x position) (mp_y position) mode"
  shows "yields (low_pass_prediction_mode decoded position mode qp) (mode_possible (mp_x position) (mp_y position))"
  using assms(2)
  by (cases mode) (auto simp: low_pass_prediction_mode_def Let_def mode_possible_def usize_pred_def
      intro!: yields_bind [OF neighbour_yields [OF assms(1)]])

lemma predict_low_pass_yields:
  assumes "records_ok decoded" "mode_possible (mp_x position) (mp_y position) mode" "i32_area 16 current"
  shows "yields (predict_low_pass current decoded position mode qp) (i32_area 16)"
  unfolding predict_low_pass_def Let_def
proof (rule yields_bind [OF low_pass_prediction_mode_yields [OF assms(1,2)]])
  fix mode assume mode: "mode_possible (mp_x position) (mp_y position) mode"
  have "yields (each_try (add_at source operation) is current) (i32_area 16)" for source operation "is"
    by (rule yields_each [where P = "i32_area 16"])
      (auto simp: add_at_def assms(3) intro!: yields_bind [OF tile_checked_add_yields] i32_area_update)
  then show "yields (case mode of
        PredictLeft \<Rightarrow>
          let_try (usize_pred (mp_x position)) (\<lambda>x. let_try (low_pass_at decoded (mp_width position) x (mp_y position)) (\<lambda>left.
          each_try (add_at left ''left LP prediction'') [4, 8, 12] current))
      | PredictTop \<Rightarrow>
          let_try (usize_pred (mp_y position)) (\<lambda>y. let_try (low_pass_at decoded (mp_width position) (mp_x position) y) (\<lambda>above.
          each_try (add_at above ''top LP prediction'') [1, 2, 3] current))
      | _ \<Rightarrow> Ok current) (i32_area 16)"
    using mode assms(3)
    by (cases mode) (auto simp: mode_possible_def usize_pred_def simp del: each_try.simps
        intro!: yields_bind [OF low_pass_at_yields [OF assms(1)]])
qed

section \<open>The bands are safe\<close>

lemma pure_leads: "yields r Q \<Longrightarrow> leads I (pure_try r) I Q"
  by (rule leads_pure) (auto dest: yieldsD)

lemma decode_dc_band_leads:
  assumes "records_ok decoded" "B + 2 \<le> i32_max"
  shows "leads (parts_ok n w B T) (decode_dc_band decoded position) (parts_ok n w (B + 2) T)
    (\<lambda>p. in_i32 (dc_value p) \<and> mode_possible (mp_x position) (mp_y position) (dc_mode p))"
proof -
  let ?I = "parts_ok n w B T" and ?J = "parts_ok n w (B + 2) T"
  let ?Q = "\<lambda>p. in_i32 (dc_value p) \<and> mode_possible (mp_x position) (mp_y position) (dc_mode p)"
  have last: "leads ?J (run_try (with_dc_model (model_update (of_bool b, 0) LumaOnly)) (\<lambda>_.
      pure_try (predict_dc dc decoded (mp_width position) (mp_x position) (mp_y position)))) ?J ?Q"
    if "in_i32 dc" for dc b
    by (rule leads_bind [OF model_part_leads(1) pure_leads]) (use predict_dc_yields [OF assms(1) that] in simp_all)
  have bits: "leads ?I (inspect (\<lambda>(r, e, c). bits_of_model False (dc_model e))) ?I (\<lambda>_. True)"
    by (rule inspect_leads) simp
  show ?thesis unfolding decode_dc_band_def
    by (rule leads_bind [OF with_reader_leads [OF qp_bit_upholds] leads_bind [OF bits
          leads_bind [OF dc_part_leads [OF assms(2)] last]]])
      (auto intro: parts_ok_mono)
qed

lemma refine_low_pass_leads:
  assumes "i32_area 16 out" "bits \<le> 15"
  shows "leads (parts_ok n w B T) (refine_low_pass out bits) (parts_ok n w B T) (i32_area 16)"
  unfolding leads_def
proof (intro allI impI)
  fix p assume p: "parts_ok n w B T p"
  obtain r e c where rec: "p = (r, e, c)" by (metis surj_pair)
  obtain x r' out' where run: "lift_entropy (decode_lp_refinement bits) (r, out) = (x, r', out')" by (metis surj_pair)
  have "leads (\<lambda>(r, cs). packet_ok r \<and> length cs = 16 \<and> (\<forall>v\<in>set cs. in_i32 v))
      (lift_entropy (decode_lp_refinement bits)) (\<lambda>(r, cs). packet_ok r \<and> length cs = 16 \<and> (\<forall>v\<in>set cs. in_i32 v))
      (\<lambda>_. True)"
    unfolding decode_lp_refinement_def
    by (rule lift_entropy_leads) (use decode_lp_refinement_at_leads [of bits 16] assms(2) in \<open>simp add: leads_upholds\<close>)
  from leadsD [OF this _ run] show "parts_ok n w B T (snd (refine_low_pass out bits p)) \<and>
      (case fst (refine_low_pass out bits p) of Ok v \<Rightarrow> i32_area 16 v | Err e \<Rightarrow> True | Panic \<Rightarrow> False)"
    using p assms(1) run by (cases x) (auto simp: rec refine_low_pass_def parts_ok_def i32_area_def)
qed

lemma decode_low_pass_leads:
  assumes "i32_area 16 out" "B + 64 \<le> i32_max" "T \<le> 2000000000"
  shows "leads (parts_ok n w B T) (decode_low_pass out) (parts_ok n w (B + 64) (T + 16)) (i32_area 16)"
proof -
  let ?I = "parts_ok n w B T" and ?J = "parts_ok n w (B + 64) (T + 16)"
  have block: "leads ?I (if coded then lp_block Luma 1 out else give (0, out)) ?J (\<lambda>(k, out). k \<le> 15 \<and> i32_block out)"
    for coded
  proof (cases coded)
    case True
    then show ?thesis using lp_part_leads [OF assms(2,3)] assms(1) by (simp add: i32_block_area)
  next
    case False
    have "leads ?I (give (0, out)) ?J (\<lambda>(k, out). k \<le> (15::nat) \<and> i32_block out)"
      by (rule leads_weaken [OF leads_give [of "\<lambda>(k, out). k \<le> (15::nat) \<and> i32_block out"]])
        (use assms(1) in \<open>auto simp: i32_block_area intro: parts_ok_mono\<close>)
    then show ?thesis using False by simp
  qed
  have bits: "leads ?J (inspect (\<lambda>(r, e, c). bits_of_model False (lp_model e))) ?J (\<lambda>bits. bits \<le> 15)"
    by (rule inspect_leads) (auto simp: parts_ok_def entropy_ok_def intro: model_bits_ok)
  have update: "leads ?J (run_try (with_lp_model (model_update (int k, 0) LumaOnly)) (\<lambda>_. give out)) ?J (i32_area 16)"
    if "k \<le> 15" "i32_area 16 out" for k out
    by (rule leads_bind [OF model_part_leads(2)]) (use that in \<open>auto simp: leads_def\<close>)
  have rest: "leads ?J (run_try (inspect (\<lambda>(r, e, c). bits_of_model False (lp_model e))) (\<lambda>bits.
     run_try (refine_low_pass out bits) (\<lambda>out.
     run_try (with_lp_model (model_update (int k, 0) LumaOnly)) (\<lambda>_. give out)))) ?J (i32_area 16)"
    if "k \<le> 15 \<and> i32_block out" for k out
    by (rule leads_bind [OF bits leads_bind [OF refine_low_pass_leads update]])
      (use that in \<open>auto simp: i32_block_area\<close>)
  show ?thesis unfolding decode_low_pass_def
    by (rule leads_bind [OF with_reader_leads [OF qp_bit_upholds] leads_bind2 [OF block rest]])
      (auto intro: parts_ok_mono)
qed

lemma decode_low_bands_leads:
  assumes "records_ok decoded" "B + 66 \<le> i32_max" "T \<le> 2000000000"
  shows "leads (parts_ok n w B T) (decode_low_bands decoded position qp bands) (parts_ok n w (B + 66) (T + 16))
    (\<lambda>(low, mode). i32_area 16 low)"
proof -
  let ?J = "parts_ok n w (B + 2) T" and ?K = "parts_ok n w (B + 66) (T + 16)"
  have start: "i32_area 16 ((replicate 16 0)[0 := v])" if "in_i32 v" for v
    by (rule i32_area_update [OF i32_area_zero that])
  have low: "leads ?J (if has_low_pass bands then
          run_try (decode_low_pass out) (\<lambda>low. pure_try (predict_low_pass low decoded position mode qp))
        else give out) ?K (i32_area 16)"
    if "i32_area 16 out" "mode_possible (mp_x position) (mp_y position) mode" for out mode
  proof (cases "has_low_pass bands")
    case True
    have "leads ?J (decode_low_pass out) ?K (i32_area 16)"
      using decode_low_pass_leads [OF that(1), of "B + 2" T n w] assms by (simp add: add.commute)
    then have "leads ?J (run_try (decode_low_pass out) (\<lambda>low.
        pure_try (predict_low_pass low decoded position mode qp))) ?K (i32_area 16)"
      by (rule leads_bind [OF _ pure_leads [OF predict_low_pass_yields [OF assms(1) that(2)]]]) auto
    then show ?thesis using True by simp
  next
    case False
    have "leads ?J (give out) ?K (i32_area 16)"
      by (rule leads_weaken [OF leads_give [of "i32_area 16"]]) (use that in \<open>auto intro: parts_ok_mono\<close>)
    then show ?thesis using False by simp
  qed
  have rest: "leads ?J (let low = (replicate 16 0)[0 := dc_value p] in
     run_try (if has_low_pass bands then
          run_try (decode_low_pass low) (\<lambda>low. pure_try (predict_low_pass low decoded position (dc_mode p) qp))
        else give low) (\<lambda>low. give (low, dc_mode p))) ?K (\<lambda>(low, mode). i32_area 16 low)"
    if "in_i32 (dc_value p) \<and> mode_possible (mp_x position) (mp_y position) (dc_mode p)" for p
    unfolding Let_def
    by (rule leads_bind [OF low]) (use that start in \<open>auto simp: leads_def\<close>)
  show ?thesis unfolding decode_low_bands_def
    by (rule leads_bind [OF decode_dc_band_leads rest]) (use assms in \<open>auto intro: parts_ok_mono\<close>)
qed

lemma decode_high_band_leads:
  assumes "B + 1039 \<le> i32_max" "T + 256 \<le> 2000000000" "mp_x position < w"
  shows "leads (parts_ok n w B T) (decode_high_band position mode bands trim) (parts_ok n w (B + 1039) (T + 256))
    (i32_area 256)"
proof (cases "has_high_pass bands")
  case True
  have "leads (parts_ok n w B T) (run_try (decode_vlc position mode (Combined (has_flexbits bands) trim))
      (\<lambda>(out, bits). give out)) (parts_ok n w (B + 1039) (T + 256)) (i32_area 256)"
    by (rule leads_bind2 [OF decode_vlc_leads [OF assms]]) (auto simp: leads_def)
  then show ?thesis using True by (simp add: decode_high_band_def)
next
  case False
  have "leads (parts_ok n w B T) (give (replicate 256 0)) (parts_ok n w (B + 1039) (T + 256)) (i32_area 256)"
    by (rule leads_weaken [OF leads_give [of "i32_area 256"]]) (auto simp: i32_area_zero intro: parts_ok_mono)
  then show ?thesis using False by (simp add: decode_high_band_def)
qed

end
