(* ===== verification/Spatial_Tile.thy ===== *)
theory Spatial_Tile
  imports Spatial
begin

text \<open>
  Spatial packets are safe: the alignment loop ends, the macroblock cycle of reset and adaptation
  keeps every counter bounded, and a packet that decodes fills its window exactly.
\<close>

section \<open>Byte alignment\<close>

lemma read_bit_position:
  assumes "packet_ok r" "from_entropy packet_read_bit r = (x, t)"
  shows "case x of
      Ok v \<Rightarrow> pk_position r < pk_length r \<and> pk_position t = Suc (pk_position r) \<and>
        pk_length t = pk_length r \<and> pk_bytes t = pk_bytes r \<and> packet_ok t
    | Err e \<Rightarrow> pk_position r = pk_length r \<and> e = Entropy (UnexpectedEnd (pk_length r) 1 (pk_length r)) \<and> packet_ok t
    | Panic \<Rightarrow> False"
proof -
  let ?u = "if pk_cached r < 1 then refill r else r"
  note u = refill_if_ok [OF assms(1), of 1 ?u]
  have bytes: "pk_bytes ?u = pk_bytes r" using refill_ok(5) [OF assms(1)] by simp
  have step: "packet_read_bit r = run_try (read_narrow_bits 1) (\<lambda>v. give (v \<noteq> 0)) r"
    by (simp add: packet_read_bit_def packet_read_narrow)
  show ?thesis
  proof (cases "pk_cached ?u < 1")
    case True
    then have "pk_position r = pk_length r"
      using u assms(1) length_packet_unread [OF assms(1)] by (simp add: packet_ok_def)
    then show ?thesis using True assms(2) u step
      by (auto simp: from_entropy_def read_narrow_bits_def Let_def run_try_def end_error_def unexpected_end_def)
  next
    case False
    then have "pk_position r < pk_length r" "1 \<le> pk_cached ?u"
      using u assms(1) length_packet_unread [OF assms(1)] by (auto simp: packet_ok_def)
    then show ?thesis using False assms(2) u step bytes consumed_ok(1) [OF u(1), of 1]
      by (auto simp: from_entropy_def read_narrow_bits_def Let_def run_try_def consume_cached_def give_def)
  qed
qed

lemma alignment_loop_ends:
  "packet_ok r \<Longrightarrow> k < fuel \<Longrightarrow> k < 8 \<Longrightarrow> (pk_position r + k) mod 8 = 0 \<Longrightarrow>
    case alignment_loop fuel r of
      (Ok _, t) \<Rightarrow> pk_position r + k \<le> pk_length r \<and> pk_position t = pk_position r + k \<and>
        pk_length t = pk_length r \<and> pk_bytes t = pk_bytes r \<and> packet_ok t
    | (Err e, t) \<Rightarrow> pk_length r < pk_position r + k \<and>
        e = Entropy (UnexpectedEnd (pk_length r) 1 (pk_length r)) \<and> packet_ok t
    | (Panic, t) \<Rightarrow> False"
proof (induction fuel arbitrary: r k)
  case (Suc fuel)
  show ?case
  proof (cases "pk_position r mod 8 = 0")
    case True
    then have "k mod 8 = 0" using Suc.prems(4) by (metis add_0 mod_add_left_eq)
    then have "k = 0" using Suc.prems(3) by simp
    then show ?thesis using True Suc.prems(1) by (simp add: packet_ok_def)
  next
    case False
    then have "k \<noteq> 0" using Suc.prems(4) by (intro notI) simp
    then obtain j where j: "k = Suc j" using not0_implies_Suc by blast
    obtain x t where run: "from_entropy packet_read_bit r = (x, t)" by fastforce
    note b = read_bit_position [OF Suc.prems(1) run]
    show ?thesis
    proof (cases x)
      case (Ok v)
      then have t: "pk_position t = Suc (pk_position r)" "pk_length t = pk_length r" "pk_bytes t = pk_bytes r"
        "packet_ok t" using b by simp_all
      have eq: "pk_position t + j = pk_position r + k" using t j by simp
      have ih: "case alignment_loop fuel t of
        (Ok _, u) \<Rightarrow> pk_position t + j \<le> pk_length t \<and> pk_position u = pk_position t + j \<and>
          pk_length u = pk_length t \<and> pk_bytes u = pk_bytes t \<and> packet_ok u
      | (Err e, u) \<Rightarrow> pk_length t < pk_position t + j \<and>
          e = Entropy (UnexpectedEnd (pk_length t) 1 (pk_length t)) \<and> packet_ok u
      | (Panic, u) \<Rightarrow> False"
        by (rule Suc.IH) (use Suc.prems j t in simp_all)
      from ih [unfolded eq t(2,3)] show ?thesis using False run Ok by (simp add: run_try_step)
    qed (use False run b j in \<open>simp_all add: run_try_step\<close>)
  qed
qed simp

lemma alignment_distance:
  "(p + (8 - p mod 8) mod 8) mod 8 = (0::nat)" "p + (8 - p mod 8) mod 8 = 8 * ((p + 7) div 8)"
proof -
  obtain q m where p: "p = 8 * q + m" "m < 8" by (metis mod_less_divisor mult_div_mod_eq zero_less_numeral)
  then have "p mod 8 = m" by simp
  moreover have "(p + 7) div 8 = (if m = 0 then q else q + 1)" using p by auto
  moreover have "(8 - m) mod 8 = (if m = 0 then 0 else 8 - m)" using p(2) by simp
  ultimately show *: "p + (8 - p mod 8) mod 8 = 8 * ((p + 7) div 8)" using p by simp
  show "(p + (8 - p mod 8) mod 8) mod 8 = 0" unfolding * by simp
qed

text \<open>
  Byte alignment ends. From any valid reader the loop stops within its eight turns: at the next
  multiple of eight of the bit position, with the packet and its length untouched, when the packet reaches
  that far, and with the \<open>UnexpectedEnd\<close> of the last bit of the packet otherwise.
\<close>

theorem byte_alignment_reached:
  assumes "packet_ok r"
  shows "case consume_byte_alignment r of
      (Ok _, t) \<Rightarrow> 8 * ((pk_position r + 7) div 8) \<le> pk_length r \<and>
        pk_position t = 8 * ((pk_position r + 7) div 8) \<and>
        pk_length t = pk_length r \<and> pk_bytes t = pk_bytes r \<and> packet_ok t
    | (Err e, t) \<Rightarrow> pk_length r < 8 * ((pk_position r + 7) div 8) \<and>
        e = Entropy (UnexpectedEnd (pk_length r) 1 (pk_length r)) \<and> packet_ok t
    | (Panic, t) \<Rightarrow> False"
proof -
  have "(8 - pk_position r mod 8) mod 8 < 8" by simp
  from alignment_loop_ends [OF assms this this alignment_distance(1)]
  show ?thesis by (simp only: consume_byte_alignment_def alignment_distance(2))
qed

lemma byte_alignment_reached_witness:
  "case consume_byte_alignment \<lparr>pk_bytes = [0xff, 7], pk_position = 3, pk_length = 16, pk_cache = 0, pk_cached = 0\<rparr> of
     (Ok _, t) \<Rightarrow> pk_position t = 8 | _ \<Rightarrow> False"
proof -
  have "packet_ok \<lparr>pk_bytes = [0xff, 7], pk_position = 3, pk_length = 16, pk_cache = 0, pk_cached = 0\<rparr>"
    by (simp add: packet_ok_def cache_ok_def word_bits_def map_replicate_const)
  from byte_alignment_reached [OF this] show ?thesis by (simp split: prod.splits result.splits)
qed

lemma consume_alignment_upholds: "upholds packet_ok consume_byte_alignment (\<lambda>_. True)"
proof (rule upholds_if_all)
  fix r :: packet_reader assume r: "packet_ok r"
  show "packet_ok (snd (consume_byte_alignment r)) \<and> fst (consume_byte_alignment r) \<noteq> Panic"
    using alignment_loop_ends [OF r _ _ alignment_distance(1), of 8]
    by (auto simp: consume_byte_alignment_def split: prod.splits result.splits)
qed

section \<open>The cycle of reset and adaptation\<close>

text \<open>
  A macroblock moves a discriminant by at most \<open>C\<close> and a scan total by at most \<open>D\<close>. Adaptation in every
  sixteenth column and at the end of a row returns the discriminants to 64 and the reset in every
  sixteenth column the totals to 32, so before column \<open>x\<close> these bounds hold.
\<close>

definition cycle_bound :: "int \<Rightarrow> nat \<Rightarrow> int" where
  "cycle_bound C x = 64 + C * int ((x + 15) mod 16)"

definition cycle_total :: "int \<Rightarrow> nat \<Rightarrow> int" where
  "cycle_total D x = 32 + D * int (if x mod 16 = 0 then 16 else x mod 16)"

lemma cycle_small:
  assumes "0 \<le> C" "0 \<le> D"
  shows "64 \<le> cycle_bound C x" "cycle_bound C x \<le> 64 + 15 * C" "32 + D * int (x mod 16) \<le> 32 + 15 * D"
proof -
  have le: "int (i mod 16) \<le> 15" for i :: nat
    using mod_less_divisor [of 16 i] by linarith
  show "64 \<le> cycle_bound C x" "cycle_bound C x \<le> 64 + 15 * C" "32 + D * int (x mod 16) \<le> 32 + 15 * D"
    using mult_left_mono [OF le assms(1), of "x + 15"] mult_left_mono [OF le assms(2), of x] assms
    by (simp_all add: cycle_bound_def)
qed

lemma cycle_reset:
  assumes "parts_ok n w B (cycle_total D x) p"
  shows "parts_ok n w B (32 + D * int (x mod 16))
    (if x mod 16 = 0 then (\<lambda>(r, e, c). (r, reset_scan_totals e, c)) p else p)"
  using assms reset_scan_totals_ok
  by (auto simp: cycle_total_def parts_ok_def split: prod.splits)

lemma cycle_turn:
  assumes "parts_ok n w (cycle_bound C x + C) (32 + D * int (x mod 16) + D) p" "0 \<le> C" "0 \<le> D"
    and "y = (if x + 1 = columns then 0 else x + 1)"
    and "x + 1 = columns \<or> x mod 16 = 0 \<Longrightarrow> parts_ok n w 64 (32 + D * int (x mod 16) + D) q"
    and "\<not> (x + 1 = columns \<or> x mod 16 = 0) \<Longrightarrow> q = p"
  shows "parts_ok n w (cycle_bound C y) (cycle_total D y) q"
proof -
  have total: "32 + D * int (x mod 16) + D \<le> cycle_total D y"
  proof -
    have "int (x mod 16) + 1 \<le> int (if y mod 16 = 0 then 16 else y mod 16)"
      using assms(4) by (auto simp: mod_Suc)
    from mult_left_mono [OF this assms(3)] show ?thesis by (simp add: cycle_total_def algebra_simps)
  qed
  show ?thesis
  proof (cases "x + 1 = columns \<or> x mod 16 = 0")
    case True
    show ?thesis by (rule parts_ok_mono [OF assms(5) [OF True]]) (use cycle_small(1) assms(2,3) total in auto)
  next
    case False
    then have y: "y = x + 1" using assms(4) by simp
    obtain m where m: "x mod 16 = Suc m" using False by (meson not0_implies_Suc)
    moreover have "x mod 16 < 16" by simp
    ultimately have "m < 15" by simp
    have "x = 16 * (x div 16) + Suc m" using m mult_div_mod_eq [of 16 x] by simp
    then have "x + 15 = m + 16 * (x div 16 + 1)" "y + 15 = Suc m + 16 * (x div 16 + 1)" by (simp_all add: y)
    then have "(x + 15) mod 16 = m mod 16" "(y + 15) mod 16 = Suc m mod 16" by (metis mod_mult_self2)+
    then have "(y + 15) mod 16 = (x + 15) mod 16 + 1" using \<open>m < 15\<close> by simp
    then have "cycle_bound C x + C = cycle_bound C y" by (simp add: cycle_bound_def algebra_simps)
    then show ?thesis using assms(1) assms(6) [OF False] total by (auto intro: parts_ok_mono)
  qed
qed

lemma cycle_adapt:
  assumes "parts_ok n w (cycle_bound C x + C) (32 + D * int (x mod 16) + D) p" "0 \<le> C" "0 \<le> D"
    and "y = (if x + 1 = columns then 0 else x + 1)"
  shows "parts_ok n w (cycle_bound C y) (cycle_total D y) (adapt_at_boundary x columns p)"
proof (rule cycle_turn [OF assms])
  obtain r e c where p: "p = (r, e, c)" by (metis surj_pair)
  show "parts_ok n w 64 (32 + D * int (x mod 16) + D) (adapt_at_boundary x columns p)"
    if "x + 1 = columns \<or> x mod 16 = 0"
    using assms(1) that
    by (auto simp: p adapt_at_boundary_def parts_ok_def entropy_ok_def
        intro: dc_adapt_settles ac_adapt_settles cbphp_adapt_ok)
  show "adapt_at_boundary x columns p = p" if "\<not> (x + 1 = columns \<or> x mod 16 = 0)"
    using that by (auto simp: p adapt_at_boundary_def)
qed

section \<open>The window\<close>

text \<open>A window of \<open>cells\<close> coefficients for \<open>n\<close> macroblocks, of which \<open>k\<close> have been stored.\<close>

definition steps_usable :: "reconstruction_quantizers \<Rightarrow> bool" where
  "steps_usable s \<longleftrightarrow> rq_dc s \<in> {1..1015808} \<and> rq_low_pass s \<in> {1..1015808} \<and> rq_high_pass s \<in> {1..1015808}"

definition window_holds :: "band_presence \<Rightarrow> nat \<Rightarrow> nat \<Rightarrow> nat \<Rightarrow> nat \<Rightarrow> plane_writer \<Rightarrow> bool" where
  "window_holds bands blocks cells n k w \<longleftrightarrow> pw_block_count w = blocks \<and> pw_macroblocks w = n \<and>
     i32_area cells (pw_coefficients w) \<and> cells \<le> usize_max \<and>
     pw_written w = k * coefficients_per_macroblock bands blocks \<and> length (pw_records w) = k \<and>
     (\<forall>r\<in>set (pw_records w). mr_bands r = bands \<and> steps_usable (mr_quantizers r))"

lemma macroblock_words_set:
  assumes "macroblock_shape (low, high, rec)" "blocks \<le> 16"
  shows "set (macroblock_words blocks (low, high, rec)) \<subseteq> set low \<union> set high"
proof -
  have "low ! i \<in> set low" if "i < blocks" for i
    using that assms nth_mem [of i low] by (simp add: macroblock_shape_def)
  then show ?thesis using assms set_take_subset [of blocks low]
    by (cases "mr_bands rec") (auto simp: macroblock_words_def macroblock_shape_def dest: in_set_takeD in_set_dropD)
qed

lemma push_attains:
  assumes "i32_area 16 low" "i32_area 256 high" "mr_bands rec = bands" "steps_usable (mr_quantizers rec)"
    and "1 \<le> blocks" "blocks \<le> 16"
  shows "attains (window_holds bands blocks cells n k) (writer_push low high rec)
    (\<lambda>_. window_holds bands blocks cells n (Suc k))"
proof (rule attainsI)
  fix w r t assume w: "window_holds bands blocks cells n k w" and run: "writer_push low high rec w = (r, t)"
  let ?mb = "(low, high, rec)"
  have shape: "macroblock_shape ?mb" using assms(1,2) by (simp add: macroblock_shape_def i32_area_def)
  have wc: "word_count blocks ?mb = coefficients_per_macroblock bands blocks"
    using assms(3) by (simp add: word_count_def)
  have b: "1 \<le> pw_block_count w" "pw_block_count w \<le> 16" "length (pw_coefficients w) \<le> usize_max"
    using w assms(5,6) by (simp_all add: window_holds_def i32_area_def)
  show "r \<noteq> Panic \<and> (\<forall>v. r = Ok v \<longrightarrow> window_holds bands blocks cells n (Suc k) t)"
  proof (cases "pw_written w + word_count (pw_block_count w) ?mb \<le> length (pw_coefficients w)")
    case True
    note push = writer_push_Ok [OF shape refl b(1,2) True b(3)]
    have len: "length (macroblock_words blocks ?mb) = coefficients_per_macroblock bands blocks"
      using word_count_length [OF shape assms(5,6)] wc by simp
    have vals: "\<forall>v\<in>set (macroblock_words blocks ?mb). in_i32 v"
      using macroblock_words_set [OF shape assms(6)] assms(1,2) by (auto simp: i32_area_def)
    have "pw_written w + coefficients_per_macroblock bands blocks \<le> cells"
      using True w wc by (simp add: window_holds_def i32_area_def)
    then show ?thesis using push run w wc len vals assms(3,4)
      by (auto simp: window_holds_def i32_area_def dest: in_set_takeD in_set_dropD)
  next
    case False
    then show ?thesis using run assms(3) by (auto simp: writer_push_def Let_def word_count_def split: if_splits)
  qed
qed

section \<open>The macroblock loop\<close>

text \<open>Macroblock \<open>k\<close> starts with these records and this window, its parts with these bounds.\<close>

definition loop_holds :: "nat \<Rightarrow> band_presence \<Rightarrow> nat \<Rightarrow> nat \<Rightarrow> nat \<Rightarrow> int \<Rightarrow> int \<Rightarrow> spatial_state \<Rightarrow> bool" where
  "loop_holds columns bands cells n k B T = (\<lambda>(p, d, w). parts_ok 3 columns B T p \<and>
     records_ok d \<and> length d = k \<and> window_holds bands 16 cells n k w)"

definition spatial_holds :: "nat \<Rightarrow> band_presence \<Rightarrow> nat \<Rightarrow> nat \<Rightarrow> nat \<Rightarrow> spatial_state \<Rightarrow> bool" where
  "spatial_holds columns bands cells n k =
     loop_holds columns bands cells n k (cycle_bound 1105 (k mod columns)) (cycle_total 272 (k mod columns))"

lemma on_parts_attains:
  "leads (parts_ok 3 columns B T) m (parts_ok 3 columns C U) Q \<Longrightarrow>
    attains (loop_holds columns bands cells n k B T) (on_parts m)
      (\<lambda>v s. loop_holds columns bands cells n k C U s \<and> Q v)"
  unfolding on_parts_def
  by (rule attains_on_part [OF attains_leads], assumption) (auto simp: loop_holds_def)

lemma macroblock_indices_upholds:
  assumes "1 \<le> n" "phase_ok n AllParsed q"
  shows "upholds packet_ok (macroblock_indices q)
    (\<lambda>i. qi_lp i * n + n \<le> length (tq_low_pass q) \<and> qi_hp i * n + n \<le> length (tq_high_pass q))"
  unfolding macroblock_indices_def
  by (rule upholds_bind [OF low_pass_index_upholds [OF assms(1)]],
      use assms in \<open>simp add: phase_ok_def\<close>,
      rule upholds_bind [OF high_pass_index_upholds [OF assms(1)]])
    (use assms in \<open>auto simp: phase_ok_def\<close>)

lemma steps_yield:
  assumes "1 \<le> n" "n < 2 ^ 16" "phase_ok n AllParsed q" "c < n"
    and "qi_lp i * n + n \<le> length (tq_low_pass q) \<and> qi_hp i * n + n \<le> length (tq_high_pass q)"
  shows "yields (reconstruction_steps_for c i is_scaled q) steps_usable"
  using steps_Ok [of n q c "qi_lp i" "qi_hp i" is_scaled] assms
  by (cases i) (auto simp: phase_ok_def steps_usable_def)

lemma spatial_step_attains:
  assumes "phase_ok 1 AllParsed q" "k mod columns = x" "k div columns = y" "0 < columns"
  shows "attains (spatial_holds columns bands cells n k) (spatial_step q plane bands columns trim (x, y))
    (\<lambda>_. spatial_holds columns bands cells n (Suc k))"
proof -
  let ?S = "loop_holds columns bands cells n k"
  let ?B = "cycle_bound 1105 x" and ?T = "32 + 272 * int (x mod 16)"
  have x: "x < columns" using assms(2,4) by auto
  note small = cycle_small [of 1105 272 x, simplified]
  have reset: "attains (?S ?B (cycle_total 272 x))
      (if x mod 16 = 0 then on_parts (modify (\<lambda>(r, e, c). (r, reset_scan_totals e, c))) else give ())
      (\<lambda>_. ?S ?B ?T)"
    using cycle_reset [of 3 columns ?B 272 x]
    by (auto simp: attains_def loop_holds_def on_parts_def on_part_def modify_def split: prod.splits)
  have qp: "attains (?S ?B ?T) (on_parts (with_reader (macroblock_indices q))) (\<lambda>i s. ?S ?B ?T s \<and>
      (qi_lp i * 1 + 1 \<le> length (tq_low_pass q) \<and> qi_hp i * 1 + 1 \<le> length (tq_high_pass q)))"
    by (rule on_parts_attains [OF with_reader_leads [OF macroblock_indices_upholds]]) (use assms(1) in simp_all)
  have ins: "attains (?S ?B ?T) (inspect (\<lambda>(p, decoded, w). decoded)) (\<lambda>d s. ?S ?B ?T s \<and> records_ok d)"
    by (auto simp: attains_def inspect_def loop_holds_def)
  have low: "attains (?S ?B ?T) (on_parts (decode_low_bands d \<lparr>mp_width = columns, mp_x = x, mp_y = y\<rparr> i bands))
      (\<lambda>(low, mode) s. ?S (?B + 66) (?T + 16) s \<and> i32_area 16 low)" if "records_ok d" for d i
    by (rule attains_weaken [OF on_parts_attains [OF decode_low_bands_leads [OF that]]])
      (use small in auto)
  have high: "attains (?S (?B + 66) (?T + 16))
      (on_parts (decode_high_band \<lparr>mp_width = columns, mp_x = x, mp_y = y\<rparr> mode bands trim))
      (\<lambda>high s. ?S (?B + 66 + 1039) (?T + 16 + 256) s \<and> i32_area 256 high)" for mode
    by (rule on_parts_attains [OF decode_high_band_leads]) (use small x in auto)
  let ?B' = "?B + 66 + 1039" and ?T' = "?T + 16 + 256"
  have steps: "attains (?S ?B' ?T') (pure_try (reconstruction_steps i (scaled plane) q)) (\<lambda>v s. ?S ?B' ?T' s \<and> steps_usable v)"
    if "qi_lp i * 1 + 1 \<le> length (tq_low_pass q) \<and> qi_hp i * 1 + 1 \<le> length (tq_high_pass q)" for i
    unfolding reconstruction_steps_def
    by (rule attains_leads [OF pure_leads [OF steps_yield [OF _ _ assms(1) _ that]]]) simp_all
  let ?W = "\<lambda>(p, d, w). parts_ok 3 columns ?B' ?T' p \<and> records_ok d \<and> length d = k \<and>
      window_holds bands 16 cells n (Suc k) w"
  have push: "attains (?S ?B' ?T') (on_writer (writer_push low high \<lparr>mr_quantizers = steps, mr_bands = bands,
       mr_prediction = prediction, mr_hp_prediction = mode\<rparr>)) (\<lambda>_. ?W)"
    if "i32_area 16 low" "i32_area 256 high" "steps_usable steps" for low high steps prediction mode
    unfolding on_writer_def
    by (rule attains_on_part [OF push_attains [OF that(1,2), where blocks = 16 and cells = cells and n = n and k = k]]) (use that in \<open>auto simp: loop_holds_def\<close>)
  have last: "attains ?W (modify (\<lambda>(p, decoded, w). (adapt_at_boundary x columns p,
       decoded @ [\<lparr>pr_low = low, pr_lp_qp_index = lp\<rparr>], w))) (\<lambda>_. spatial_holds columns bands cells n (Suc k))"
    if "i32_area 16 low" for low lp
    using cycle_adapt [of 3 columns 1105 x 272 _ "Suc k mod columns" columns] that assms(2)
    by (auto simp: attains_def modify_def spatial_holds_def loop_holds_def records_ok_def mod_Suc algebra_simps)
  show ?thesis
    unfolding spatial_step_def Let_def prod.case spatial_holds_def [of columns bands cells n k] assms(2)
    by (rule attains_bind [OF reset], rule attains_bind [OF qp], rule attains_assume, rule attains_bind [OF ins],
        rule attains_assume, rule attains_bind2 [OF low], assumption, rule attains_assume,
        rule attains_bind [OF high], rule attains_assume, rule attains_bind [OF steps], assumption,
        rule attains_assume, rule attains_bind [OF push], assumption+, rule last)
qed

text \<open>The positions in raster order are the indices in order.\<close>

definition position_of :: "nat \<Rightarrow> nat \<Rightarrow> nat \<times> nat" where
  "position_of columns k = (k mod columns, k div columns)"

lemma raster_positions: "raster columns rows = map (position_of columns) [0..<columns * rows]"
proof (induction rows)
  case (Suc rows)
  have row: "map (\<lambda>x. (x, rows)) [0..<columns] = map (position_of columns) [columns * rows..<columns * rows + columns]"
    by (rule nth_equalityI) (simp_all add: position_of_def)
  have "[0..<columns * Suc rows] = [0..<columns * rows] @ [columns * rows..<columns * rows + columns]"
    using upt_add_eq_append [of 0 "columns * rows" columns] by (simp add: add.commute)
  then show ?case using Suc row by (simp add: raster_def)
qed (simp add: raster_def)

lemma spatial_loop_attains:
  assumes "phase_ok 1 AllParsed q" "0 < columns"
  shows "attains (spatial_holds columns bands cells n k)
    (spatial_loop q plane bands columns trim (map (position_of columns) [k..<k + j]))
    (\<lambda>_. spatial_holds columns bands cells n (k + j))"
proof (induction j arbitrary: k)
  case 0
  then show ?case by (simp add: attains_def)
next
  case (Suc j)
  have upt: "[k..<k + Suc j] = k # [Suc k..<Suc k + j]" by (simp add: upt_rec)
  show ?case unfolding upt list.map spatial_loop.simps position_of_def [of columns k]
    using attains_bind [OF spatial_step_attains [OF assms(1) refl refl assms(2)] Suc.IH [of "Suc k"]] by simp
qed

lemma packet_new_valid: "packet_ok (packet_new bytes)"
  by (simp add: packet_new_def packet_ok_def cache_ok_def word_bits_def map_replicate_const)

lemma spatial_header_upholds:
  assumes "plane_ok plane"
  shows "upholds packet_ok (spatial_header plane trim_present) (\<lambda>(trim, q). phase_ok (components plane) AllParsed q)"
proof -
  have byte: "upholds packet_ok (tile_read_u8 4) (\<lambda>_. True)"
    unfolding tile_read_u8_def by (intro upholds_bind [OF qp_bits_upholds] upholds_if upholds_fail upholds_give) simp_all
  have prefix: "upholds packet_ok parse_packet_prefix (\<lambda>_. True)"
    unfolding parse_packet_prefix_def
    by (intro upholds_bind [OF qp_bits_upholds] upholds_if upholds_fail upholds_give) simp_all
  show ?thesis unfolding spatial_header_def
    by (rule upholds_bind [OF prefix], rule upholds_bind [OF upholds_if [OF byte upholds_give]], simp,
        rule upholds_bind [OF parse_tile_quantizers_upholds [OF assms]], rule upholds_give, simp)
qed

lemma spatial_start:
  assumes "packet_ok r" "i32_area cells coefficients" "cells \<le> usize_max"
  shows "spatial_holds columns bands cells n 0
    ((r, entropy_reset_tile tile_entropy_new, cbphp_new columns), [], writer_new coefficients 16 n)"
  using assms tile_entropy_new_ok cbphp_new_ok [of 3 columns]
  by (auto simp: spatial_holds_def loop_holds_def parts_ok_def records_ok_def window_holds_def writer_new_def
      entropy_reset_tile_def cbphp_new_def cycle_bound_def cycle_total_def
      intro: entropy_ok_mono cbphp_ok_mono)

lemma spatial_loop_full:
  assumes "phase_ok 1 AllParsed q"
  shows "attains (spatial_holds columns bands cells n 0)
    (run_try (spatial_loop q plane bands columns trim (raster columns rows))
      (\<lambda>_. on_parts (with_reader consume_byte_alignment)))
    (\<lambda>_ (p, d, w). window_holds bands 16 cells n (columns * rows) w)"
proof -
  let ?k = "columns * rows"
  have loop: "attains (spatial_holds columns bands cells n 0) (spatial_loop q plane bands columns trim (raster columns rows))
      (\<lambda>_. spatial_holds columns bands cells n ?k)"
  proof (cases "columns = 0")
    case False
    then show ?thesis using spatial_loop_attains [OF assms, of columns bands cells n 0 plane trim ?k]
      by (simp add: raster_positions)
  qed (simp add: raster_positions attains_def)
  show ?thesis
    by (rule attains_bind [OF loop], unfold spatial_holds_def,
        rule attains_weaken [OF on_parts_attains [OF with_reader_leads [OF consume_alignment_upholds]]])
      (auto simp: loop_holds_def)
qed

text \<open>
  C1: a spatial packet is safe and fills its window. For a plane header in range and a window of the size
  the layout gives a tile of \<open>columns * rows\<close> macroblocks, whatever bytes the packet holds and whichever
  bands it carries, decoding never panics (no checked add overflows, no slice is out of bounds, no
  counter leaves \<open>i32\<close>); and when it succeeds the window is complete: \<open>finish\<close> accepts it, with one
  record per macroblock, each of these bands and with steps between 1 and 1015808, and every stored
  coefficient is an \<open>i32\<close>. The records of the loop fit \<open>Vec::with_capacity\<close>.
\<close>

theorem spatial_packet_fills_its_window:
  assumes "plane_ok plane" "columns * rows * 68 < 2 ^ 63"
    and "i32_area (columns * rows * coefficients_per_macroblock bands 16) cells" "length cells \<le> usize_max"
  shows "case decode_spatial_packet packet plane bands columns rows trim_present
      (writer_new cells 16 (columns * rows)) of
      (Ok _, w) \<Rightarrow> i32_area (length cells) (pw_coefficients w) \<and>
        (\<exists>rs. writer_finish w = Ok rs \<and> length rs = columns * rows \<and>
          (\<forall>r\<in>set rs. mr_bands r = bands \<and> steps_usable (mr_quantizers r)))
    | (Err _, _) \<Rightarrow> True
    | (Panic, _) \<Rightarrow> False"
proof (cases "validate_y_only plane")
  case (Ok u)
  then have one: "components plane = 1" by (simp add: validate_y_only_def split: if_splits)
  obtain x r where h: "spatial_header plane trim_present (packet_new packet) = (x, r)" by fastforce
  note hD = upholdsD [OF spatial_header_upholds [OF assms(1)] packet_new_valid, of trim_present packet]
  have count: "columns * rows \<le> usize_max" "\<not> 2 ^ 63 - 1 < columns * rows * 68" using assms(2) by simp_all
  show ?thesis
  proof (cases x)
    case x: (Ok p)
    obtain trim q where p: "p = (trim, q)" by fastforce
    have q: "phase_ok 1 AllParsed q" and r: "packet_ok r" using hD(4,5) h x one p by auto
    let ?s = "((r, entropy_reset_tile tile_entropy_new, cbphp_new columns), [], writer_new cells 16 (columns * rows))"
    obtain y t where run: "run_try (spatial_loop q plane bands columns trim (raster columns rows))
        (\<lambda>_. on_parts (with_reader consume_byte_alignment)) ?s = (y, t)" by (metis surj_pair)
    have len: "i32_area (length cells) cells" using assms(3) by (simp add: i32_area_def)
    note d = attainsD [OF spatial_loop_full [OF q] spatial_start [OF r len assms(4), of columns bands] run]
    have words: "length cells = columns * rows * coefficients_per_macroblock bands 16"
      using assms(3) by (simp add: i32_area_def)
    obtain p' d' w where t: "t = (p', d', w)" by (metis surj_pair)
    have step: "decode_spatial_packet packet plane bands columns rows trim_present
        (writer_new cells 16 (columns * rows)) = (y, w)"
      using Ok h x p count run by (simp add: decode_spatial_packet_def reserve_records_def t)
    show ?thesis unfolding step using d words
      by (cases y) (auto simp: t window_holds_def writer_finish_def i32_area_def)
  qed (use Ok h hD in \<open>auto simp: decode_spatial_packet_def\<close>)
qed (simp_all add: decode_spatial_packet_def validate_y_only_def split: if_splits)

definition gray_plane :: image_plane_header where
  "gray_plane = \<lparr>internal_color_format = 0, scaled = True, bands_present = 0, components = 1,
     chroma_centering_x = 0, chroma_centering_y = 0, shift_bits = 0, mantissa_length = 0,
     exponent_bias = 0, dc_quantizers = None, lp_quantizers = None, hp_quantizers = None\<rparr>"

lemma spatial_packet_fills_its_window_witness:
  "fst (decode_spatial_packet [0, 0, 1, 0, 0x18, 0x18, 0x18, 0xff, 0xff] gray_plane AllBands 2 1 False
     (writer_new (replicate 512 0) 16 2)) \<noteq> Panic"
proof -
  have "plane_ok gray_plane" by (simp add: plane_ok_def gray_plane_def quantizers_ok_def)
  moreover have "i32_area (2 * 1 * coefficients_per_macroblock AllBands 16) (replicate 512 0)"
    by (simp add: coefficients_per_macroblock_def i32_area_def in_i32_def)
  ultimately show ?thesis
    using spatial_packet_fills_its_window [of gray_plane 2 1 AllBands "replicate 512 0"
        "[0, 0, 1, 0, 0x18, 0x18, 0x18, 0xff, 0xff]" False] by (auto split: prod.splits result.splits)
qed

end
