(* ===== verification/Image_Info.thy ===== *)
theory Image_Info
  imports Annex_Writer Plan
begin

text \<open>
  Public image metadata: the types of \<open>crates/jxr-core/src/image.rs\<close> and their construction from parsed
  syntax in \<open>crates/jxr-native/src/metadata.rs\<close>. A level is its byte.
\<close>

section \<open>Types\<close>

text \<open>\<open>ByteRange::new\<close> and \<open>end\<close>; the record \<open>core_range\<close> is declared in theory Plan.\<close>

definition byte_range_new :: "nat \<Rightarrow> nat \<Rightarrow> nat \<Rightarrow> (jxr_error, core_range) result" where
  "byte_range_new offset n input_len =
     let_try (usize_add ''compressed byte range'' offset n) (\<lambda>past.
     if input_len < past then Err (jxr_error_new KindTruncated ''compressed byte range'')
     else Ok \<lparr>range_offset = offset, range_length = n\<rparr>)"

definition byte_range_end :: "core_range \<Rightarrow> nat option" where
  "byte_range_end r = (let past = range_offset r + range_length r in if usize_max < past then None else Some past)"

record tile_grid =
  column_widths :: "nat list"
  row_heights :: "nat list"
  hard_tiles :: bool

definition grid_tile_count :: "tile_grid \<Rightarrow> (jxr_error, nat) result" where
  "grid_tile_count g =
     (if 2 ^ 32 \<le> length (column_widths g) then Err (arithmetic_error ''tile columns'')
      else if 2 ^ 32 \<le> length (row_heights g) then Err (arithmetic_error ''tile rows'')
      else if 2 ^ 32 \<le> length (column_widths g) * length (row_heights g)
      then Err (arithmetic_error ''tile count'')
      else Ok (length (column_widths g) * length (row_heights g)))"

record plane_info =
  pi_color_format :: color_format
  pi_sample_format :: sample_format
  pi_bands :: band_presence
  pi_bitstream_mode :: bitstream_mode
  pi_overlap :: overlap_mode
  pi_short_header :: bool
  pi_long_word :: bool
  pi_scaled :: bool
  pi_chroma_centering :: "nat \<times> nat"
  pi_shift_bits :: nat
  pi_mantissa_length :: nat
  pi_exponent_bias :: int
  pi_width :: nat
  pi_height :: nat

record image_metadata =
  im_orientation :: orientation
  im_icc_profile :: "core_range option"
  im_container_pixel_format :: "u8 list option"
  im_annex_a_pixel_format :: "annex_pixel_format option"

record image_info =
  ii_width :: nat
  ii_height :: nat
  ii_profile :: "profile option"
  ii_level :: "nat option"
  ii_primary :: plane_info
  ii_alpha_mode :: alpha_mode
  ii_premultiplied_alpha :: bool
  ii_alpha :: "plane_info option"
  ii_tiles :: tile_grid
  ii_metadata :: image_metadata

definition dimensions :: "image_info \<Rightarrow> nat \<times> nat" where
  "dimensions info = (ii_width info, ii_height info)"

definition validate_consistency :: "image_info \<Rightarrow> (jxr_error, unit) result" where
  "validate_consistency info =
     (if ii_width info = 0 \<or> ii_height info = 0
      then Err (jxr_error_new KindInvalidSyntax ''image dimensions'')
      else if pi_width (ii_primary info) \<noteq> ii_width info \<or> pi_height (ii_primary info) \<noteq> ii_height info
      then Err (jxr_error_new KindInvalidSyntax ''primary plane dimensions'')
      else let alpha_present = (ii_alpha info \<noteq> None) in
        if alpha_present = (ii_alpha_mode info = AlphaNone)
        then Err (jxr_error_new KindInvalidSyntax ''alpha declaration'')
        else if ii_premultiplied_alpha info \<and> \<not> alpha_present
        then Err (jxr_error_new KindInvalidSyntax ''premultiplied alpha declaration'')
        else case ii_alpha info of
          Some a \<Rightarrow>
            if pi_width a \<noteq> ii_width info \<or> pi_height a \<noteq> ii_height info
            then Err (jxr_error_new KindInvalidSyntax ''alpha plane dimensions'') else Ok ()
        | None \<Rightarrow> Ok ())"

section \<open>Codes\<close>

definition orientation_of :: "nat \<Rightarrow> orientation" where
  "orientation_of v =
     (if v = 0 then Identity else if v = 1 then MirrorVertical else if v = 2 then MirrorHorizontal
      else if v = 3 then Rotate180 else if v = 4 then Rotate90 else if v = 5 then Transverse
      else if v = 6 then Transpose else Rotate270)"

definition internal_color :: "nat \<Rightarrow> nat \<Rightarrow> (native_error, color_format) result" where
  "internal_color code n =
     (if code = 0 then Ok ColorLuma else if code = 1 then Ok (ColorYuv Cs420)
      else if code = 2 then Ok (ColorYuv Cs422) else if code = 3 then Ok (ColorYuv Cs444)
      else if code = 4 then Ok ColorYuvK else if code = 6 then Ok (ColorNComponent n)
      else Err (ReservedValue ''INTERNAL_CLR_FMT'' code))"

definition sample_format_of :: "nat \<Rightarrow> (native_error, sample_format) result" where
  "sample_format_of code =
     (if code = 0 \<or> code = 15 then Ok SampleBit1 else if code = 1 then Ok (SampleUnsigned 8)
      else if code = 2 then Ok (SampleUnsigned 16) else if code = 3 then Ok (SampleSigned 16)
      else if code = 4 then Ok SampleFloat16 else if code = 6 then Ok (SampleSigned 32)
      else if code = 7 then Ok SampleFloat32 else if code = 8 then Ok (SampleUnsigned 5)
      else if code = 9 then Ok (SampleUnsigned 10) else if code = 10 then Ok (SampleUnsigned 6)
      else Err (ReservedValue ''OUTPUT_BITDEPTH'' code))"

definition band_presence_of :: "nat \<Rightarrow> (native_error, band_presence) result" where
  "band_presence_of code =
     (if code = 0 then Ok AllBands else if code = 1 then Ok NoFlexbits
      else if code = 2 then Ok NoHighPass else if code = 3 then Ok DcOnly
      else Err (ReservedValue ''BANDS_PRESENT'' code))"

definition overlap_mode_of :: "nat \<Rightarrow> (native_error, overlap_mode) result" where
  "overlap_mode_of code =
     (if code = 0 then Ok OverlapNone else if code = 1 then Ok OverlapOne
      else if code = 2 then Ok OverlapTwo else Err (ReservedValue ''OVERLAP_MODE'' code))"

section \<open>Construction\<close>

definition bands_are_subset :: "band_presence \<Rightarrow> band_presence \<Rightarrow> bool" where
  "bands_are_subset coded others \<longleftrightarrow> (\<not> has_low_pass others \<or> has_low_pass coded) \<and>
     (\<not> has_high_pass others \<or> has_high_pass coded) \<and> (\<not> has_flexbits others \<or> has_flexbits coded)"

definition plane_info_of ::
  "codestream_header \<Rightarrow> image_plane_header \<Rightarrow> (native_error, plane_info) result" where
  "plane_info_of img plane =
     let_try (internal_color (internal_color_format plane) (components plane)) (\<lambda>color.
     let_try (sample_format_of (output_bit_depth img)) (\<lambda>sample.
     let_try (band_presence_of (bands_present plane)) (\<lambda>bands.
     let_try (overlap_mode_of (overlap_mode img)) (\<lambda>overlap.
     Ok \<lparr>pi_color_format = color, pi_sample_format = sample, pi_bands = bands,
       pi_bitstream_mode = (if frequency_mode (flags img) then Frequency else Spatial),
       pi_overlap = overlap, pi_short_header = short_header (flags img),
       pi_long_word = long_word (flags img), pi_scaled = scaled plane,
       pi_chroma_centering = (chroma_centering_x plane, chroma_centering_y plane),
       pi_shift_bits = shift_bits plane, pi_mantissa_length = mantissa_length plane,
       pi_exponent_bias = exponent_bias plane, pi_width = width img, pi_height = height img\<rparr>))))"

definition alpha_info ::
  "parsed_codestream \<Rightarrow> codestream_header \<Rightarrow> (native_error, alpha_mode \<times> plane_info option) result" where
  "alpha_info parsed img =
     (case separate_alpha_headers parsed of
        Some headers \<Rightarrow>
          let plane = (case alpha headers of Some a \<Rightarrow> a | None \<Rightarrow> primary headers) in
          let_try (plane_info_of (image headers) plane) (\<lambda>p. Ok (AlphaSeparate, Some p))
      | None \<Rightarrow>
        (case alpha (cs_headers parsed) of
           Some a \<Rightarrow> let_try (plane_info_of img a) (\<lambda>p. Ok (AlphaIntegrated, Some p))
         | None \<Rightarrow> Ok (AlphaNone, None)))"

definition extended_dimension :: "nat \<Rightarrow> nat \<Rightarrow> nat \<Rightarrow> (native_error, nat) result" where
  "extended_dimension dimension first second =
     (let extended = dimension + first + second in
      if 2 ^ 32 \<le> extended then Err (IntegerOverflow ''computing extended image dimension'')
      else if extended mod 16 \<noteq> 0 then Err (InvalidSyntax ''extended image dimension alignment'')
      else Ok extended)"

definition add_tile :: "string \<Rightarrow> nat \<Rightarrow> nat \<times> nat list \<Rightarrow> (native_error, nat \<times> nat list) result" where
  "add_tile field n = (\<lambda>(used, tiles).
     if n = 0 then Err (InvalidSyntax field)
     else if 2 ^ 32 \<le> used + n then Err (IntegerOverflow ''summing tile dimensions'')
     else Ok (used + n, tiles @ [n]))"

definition complete_tiles :: "nat list \<Rightarrow> nat \<Rightarrow> string \<Rightarrow> (native_error, nat list) result" where
  "complete_tiles explicit tot field =
     let_try (each_try (add_tile field) explicit (0, [])) (\<lambda>(used, tiles).
     if tot < used then Err (InvalidSyntax field)
     else if tot - used = 0 then Err (InvalidSyntax field)
     else Ok (tiles @ [tot - used]))"

definition tile_grid_of :: "codestream_header \<Rightarrow> (native_error, tile_grid) result" where
  "tile_grid_of img =
     let_try (index_or_panic (margins img) 1) (\<lambda>left.
     let_try (index_or_panic (margins img) 3) (\<lambda>right.
     let_try (extended_dimension (width img) left right) (\<lambda>extended_width.
     let_try (index_or_panic (margins img) 0) (\<lambda>upper.
     let_try (index_or_panic (margins img) 2) (\<lambda>lower.
     let_try (extended_dimension (height img) upper lower) (\<lambda>extended_height.
     let_try (complete_tiles (tile_widths_mb img) (extended_width div 16) ''tile columns'') (\<lambda>columns.
     let_try (complete_tiles (tile_heights_mb img) (extended_height div 16) ''tile rows'') (\<lambda>rows.
     Ok \<lparr>column_widths = columns, row_heights = rows, hard_tiles = hard_tiling (flags img)\<rparr>))))))))"

definition orientation_value :: "parsed_codestream \<Rightarrow> nat" where
  "orientation_value parsed =
     (case Option.bind (annex_a parsed) (\<lambda>annex. transformation (ax_metadata annex)) of
        Some v \<Rightarrow> v | None \<Rightarrow> orientation (image (cs_headers parsed)))"

definition metadata_of :: "parsed_codestream \<Rightarrow> (native_error, image_metadata) result" where
  "metadata_of parsed =
     let_try
       (case Option.bind (annex_a parsed) (\<lambda>annex. icc_profile_range (ax_metadata annex)) of
          None \<Rightarrow> Ok None
        | Some (start, past) \<Rightarrow>
            let_try (map_err (\<lambda>_. IntegerOverflow ''representing ICC profile range'')
              (byte_range_new start (past - start) usize_max)) (\<lambda>r. Ok (Some r)))
     (\<lambda>icc.
     if 8 \<le> orientation_value parsed
     then Err (ReservedValue ''Annex-A spatial transformation'' (orientation_value parsed))
     else
       let pixel_format = map_option pixel_format_guid (annex_a parsed) in
       Ok \<lparr>im_orientation = orientation_of (orientation_value parsed), im_icc_profile = icc,
         im_container_pixel_format = pixel_format,
         im_annex_a_pixel_format = map_option classify_annex_a_pixel_format pixel_format\<rparr>)"

definition profile_of :: "nat \<Rightarrow> profile" where
  "profile_of idc =
     (if idc = 44 then SubBaseline else if idc = 55 then Baseline else if idc = 66 then Main
      else if idc = 111 then Advanced else UnknownProfile idc)"

definition profile_and_level :: "parsed_codestream \<Rightarrow> profile option \<times> nat option" where
  "profile_and_level parsed =
     (case profile_levels (directory parsed) of
        [] \<Rightarrow> (Some Advanced, Some 255)
      | declaration # _ \<Rightarrow> (Some (profile_of (profile_idc declaration)), Some (level_idc declaration)))"

definition image_info_of :: "parsed_codestream \<Rightarrow> (native_error, image_info) result" where
  "image_info_of parsed =
     (let img = image (cs_headers parsed) in
      let_try (plane_info_of img (primary (cs_headers parsed))) (\<lambda>coded.
      let_try (alpha_info parsed img) (\<lambda>(mode, transparency).
      if mode = AlphaIntegrated \<and> (\<exists>a\<in>set_option transparency. \<not> bands_are_subset (pi_bands coded) (pi_bands a))
      then Err (InvalidSyntax ''integrated alpha bands exceed primary bands'')
      else
        let (profile, level) = profile_and_level parsed in
        let_try (tile_grid_of img) (\<lambda>tiles.
        let_try (metadata_of parsed) (\<lambda>metadata.
        let info = \<lparr>ii_width = width img, ii_height = height img, ii_profile = profile,
          ii_level = level, ii_primary = coded, ii_alpha_mode = mode,
          ii_premultiplied_alpha = source_is_premultiplied parsed, ii_alpha = transparency,
          ii_tiles = tiles, ii_metadata = metadata\<rparr> in
        let_try (map_err (\<lambda>_. InvalidSyntax ''public image metadata'') (validate_consistency info)) (\<lambda>_.
        Ok info))))))"

section \<open>Every parsed codestream has a description\<close>

text \<open>The extended axis is a whole number of macroblocks and the explicit tiles leave room for a last one.\<close>

definition axis_fits :: "nat \<Rightarrow> nat \<Rightarrow> nat \<Rightarrow> nat list \<Rightarrow> bool" where
  "axis_fits dimension first second sizes \<longleftrightarrow> dimension + first + second < 2 ^ 32 \<and>
     16 dvd dimension + first + second \<and> 0 \<notin> set sizes \<and>
     16 * sum_list sizes < dimension + first + second"

lemma add_tiles_Ok:
  "used + sum_list sizes < 2 ^ 32 \<Longrightarrow> 0 \<notin> set sizes \<Longrightarrow>
    each_try (add_tile field) sizes (used, tiles) = Ok (used + sum_list sizes, tiles @ sizes)"
  by (induction sizes arbitrary: used tiles) (simp_all add: add_tile_def)

lemma add_tiles_only:
  "each_try (add_tile field) sizes (used, tiles) = Ok r \<Longrightarrow> used < 2 ^ 32 \<Longrightarrow>
    used + sum_list sizes < 2 ^ 32 \<and> 0 \<notin> set sizes"
proof (induction sizes arbitrary: used tiles)
  case (Cons n sizes)
  then obtain s where s: "add_tile field n (used, tiles) = Ok s" "each_try (add_tile field) sizes s = Ok r"
    by (auto simp: let_try_eq_Ok)
  have n: "n \<noteq> 0" "used + n < 2 ^ 32" "s = (used + n, tiles @ [n])"
    using s(1) by (auto simp: add_tile_def split: if_splits)
  have n: "n \<noteq> 0" "used + n < 2 ^ 32" "each_try (add_tile field) sizes (used + n, tiles @ [n]) = Ok r"
    using n s(2) by simp_all
  from Cons.IH [OF n(3,2)] n(1) show ?case by simp
qed simp

lemma complete_tiles_Ok:
  "tot < 2 ^ 32 \<Longrightarrow> complete_tiles sizes tot field = Ok ts \<longleftrightarrow>
    0 \<notin> set sizes \<and> sum_list sizes < tot \<and> ts = sizes @ [tot - sum_list sizes]"
  using add_tiles_Ok [of 0 sizes field "[]"] add_tiles_only [of field sizes 0 "[]"]
  by (cases "each_try (add_tile field) sizes (0, [])") (auto simp: complete_tiles_def split: if_splits)

lemma complete_tiles_no_panic: "complete_tiles sizes tot field \<noteq> Panic"
proof -
  have "each_try (add_tile field) sizes s \<noteq> Panic" for s
    by (rule each_try_no_panic [where P = "\<lambda>_. True"]) (auto simp: add_tile_def split: if_splits)
  then show ?thesis unfolding complete_tiles_def by (intro let_try_no_panic) (auto split: if_splits)
qed

lemma tile_axis:
  "extended_dimension d a b = Ok n \<and> complete_tiles sizes (n div 16) field = Ok ts \<longleftrightarrow>
    n = d + a + b \<and> axis_fits d a b sizes \<and> ts = sizes @ [n div 16 - sum_list sizes]"
proof -
  have less: "sum_list sizes < n div 16 \<longleftrightarrow> 16 * sum_list sizes < n" if "16 dvd n" for n :: nat
    using that by (auto elim!: dvdE)
  have ext: "extended_dimension d a b = Ok n \<longleftrightarrow> n = d + a + b \<and> n < 2 ^ 32 \<and> 16 dvd n"
    by (auto simp: extended_dimension_def Let_def dvd_eq_mod_eq_0)
  show ?thesis
  proof (cases "n = d + a + b \<and> n < 2 ^ 32 \<and> 16 dvd n")
    case True
    then have "n div 16 < 2 ^ 32" by (meson div_le_dividend le_less_trans)
    then show ?thesis using True ext complete_tiles_Ok [of "n div 16" sizes field ts] less [of n]
      by (auto simp: axis_fits_def)
  qed (auto simp: ext axis_fits_def)
qed

definition planes_describable :: "parsed_codestream \<Rightarrow> bool" where
  "planes_describable p \<longleftrightarrow>
     (separate_alpha_headers p = None \<longrightarrow> (\<forall>a\<in>set_option (alpha (cs_headers p)).
        bands_present (primary (cs_headers p)) \<le> bands_present a)) \<and>
     (source_is_premultiplied p \<longrightarrow> separate_alpha_headers p \<noteq> None \<or> alpha (cs_headers p) \<noteq> None)"

definition grid_describable :: "codestream_header \<Rightarrow> bool" where
  "grid_describable h \<longleftrightarrow>
     axis_fits (width h) (margins h ! 1) (margins h ! 3) (tile_widths_mb h) \<and>
     axis_fits (height h) (margins h ! 0) (margins h ! 2) (tile_heights_mb h)"

definition grid_of :: "codestream_header \<Rightarrow> tile_grid" where
  "grid_of h = \<lparr>
     column_widths = tile_widths_mb h @ [(width h + margins h ! 1 + margins h ! 3) div 16 - sum_list (tile_widths_mb h)],
     row_heights = tile_heights_mb h @ [(height h + margins h ! 0 + margins h ! 2) div 16 - sum_list (tile_heights_mb h)],
     hard_tiles = hard_tiling (flags h)\<rparr>"

lemma bands_subset_codes:
  assumes "band_presence_of x = Ok c" "band_presence_of y = Ok d"
  shows "bands_are_subset c d \<longleftrightarrow> x \<le> y"
  using assms
  by (auto simp: band_presence_of_def bands_are_subset_def has_low_pass_def has_high_pass_def has_flexbits_def
      split: if_splits)

lemma plane_info_total:
  assumes "image_header_ok h" "plane_header_ok (output_bit_depth h) plane"
  shows "\<exists>info. plane_info_of h plane = Ok info \<and> pi_width info = width h \<and> pi_height info = height h \<and>
    band_presence_of (bands_present plane) = Ok (pi_bands info) \<and>
    internal_color (internal_color_format plane) (components plane) = Ok (pi_color_format info) \<and>
    component_count (pi_color_format info) = Some (components plane)"
proof -
  have "\<exists>c. internal_color (internal_color_format plane) (components plane) = Ok c \<and>
      component_count c = Some (components plane)"
    using assms(2) by (auto simp: plane_header_ok_def internal_color_def)
  moreover have "\<exists>f. sample_format_of (output_bit_depth h) = Ok f"
    using assms(1) by (auto simp: image_header_ok_def sample_format_of_def)
  moreover have "\<exists>b. band_presence_of (bands_present plane) = Ok b"
    using assms(2) by (auto simp: plane_header_ok_def band_presence_of_def)
  moreover have "\<exists>m. overlap_mode_of (overlap_mode h) = Ok m"
    using assms(1) by (auto simp: image_header_ok_def overlap_mode_of_def)
  ultimately show ?thesis by (auto simp: plane_info_of_def)
qed

lemma tile_grid_Ok:
  assumes "length (margins h) = 4"
  shows "tile_grid_of h = Ok g \<longleftrightarrow> grid_describable h \<and> g = grid_of h" "tile_grid_of h \<noteq> Panic"
proof -
  have "tile_grid_of h = Ok g \<longleftrightarrow> (\<exists>w v columns rows.
      (extended_dimension (width h) (margins h ! 1) (margins h ! 3) = Ok w \<and>
       complete_tiles (tile_widths_mb h) (w div 16) ''tile columns'' = Ok columns) \<and>
      (extended_dimension (height h) (margins h ! 0) (margins h ! 2) = Ok v \<and>
       complete_tiles (tile_heights_mb h) (v div 16) ''tile rows'' = Ok rows) \<and>
      g = \<lparr>column_widths = columns, row_heights = rows, hard_tiles = hard_tiling (flags h)\<rparr>)"
    using assms by (auto simp: tile_grid_of_def let_try_eq_Ok)
  also have "\<dots> \<longleftrightarrow> grid_describable h \<and> g = grid_of h"
    unfolding tile_axis by (auto simp: grid_describable_def grid_of_def)
  finally show "tile_grid_of h = Ok g \<longleftrightarrow> grid_describable h \<and> g = grid_of h" .
  show "tile_grid_of h \<noteq> Panic"
    using assms complete_tiles_no_panic
    by (auto simp: tile_grid_of_def extended_dimension_def Let_def let_try_eq_Panic split: if_splits)
qed

lemma alpha_info_total:
  assumes "codestream_ok bytes p"
  shows "\<exists>mode al. alpha_info p (image (cs_headers p)) = Ok (mode, al) \<and>
    mode = (if separate_alpha_headers p \<noteq> None then AlphaSeparate
      else if alpha (cs_headers p) \<noteq> None then AlphaIntegrated else AlphaNone) \<and>
    (al = None \<longleftrightarrow> mode = AlphaNone) \<and>
    (\<forall>a\<in>set_option al. pi_width a = width (image (cs_headers p)) \<and> pi_height a = height (image (cs_headers p))) \<and>
    (mode = AlphaIntegrated \<longrightarrow> (\<exists>a x. al = Some a \<and> alpha (cs_headers p) = Some x \<and>
      band_presence_of (bands_present x) = Ok (pi_bands a)))"
proof (cases "separate_alpha_headers p")
  case None
  have h: "image_header_ok (image (cs_headers p))" "\<forall>a\<in>set_option (alpha (cs_headers p)).
      plane_header_ok (output_bit_depth (image (cs_headers p))) a"
    using assms by (auto simp: codestream_ok_def codestream_at_def headers_ok_def split: option.splits)
  then show ?thesis using None plane_info_total [OF h(1)]
    by (cases "alpha (cs_headers p)") (fastforce simp: alpha_info_def)+
next
  case (Some h)
  then have h: "image_header_ok (image h)" "width (image h) = width (image (cs_headers p))"
    "height (image h) = height (image (cs_headers p))"
    "plane_header_ok (output_bit_depth (image h)) (case alpha h of Some a \<Rightarrow> a | None \<Rightarrow> primary h)"
    using assms by (auto simp: codestream_ok_def codestream_at_def headers_ok_def split: option.splits)
  show ?thesis using plane_info_total [OF h(1,4)] h(2,3) Some by (auto simp: alpha_info_def Let_def)
qed

lemma metadata_total:
  assumes "codestream_ok bytes p" "length bytes \<le> usize_max"
  shows "orientation_value p < 8 \<Longrightarrow> \<exists>m. metadata_of p = Ok m \<and> im_orientation m = orientation_of (orientation_value p)"
    "\<not> orientation_value p < 8 \<Longrightarrow> \<exists>e. metadata_of p = Err e"
proof -
  have "fst r + (snd r - fst r) \<le> usize_max"
    if "annex_a p = Some annex" "icc_profile_range (ax_metadata annex) = Some r" for annex r
  proof -
    have "in_input bytes r" using assms(1) that by (auto simp: codestream_ok_def annex_image_ok_def)
    then show ?thesis using assms(2) by (simp add: in_input_def)
  qed
  then show "orientation_value p < 8 \<Longrightarrow> \<exists>m. metadata_of p = Ok m \<and> im_orientation m = orientation_of (orientation_value p)"
    "\<not> orientation_value p < 8 \<Longrightarrow> \<exists>e. metadata_of p = Err e"
    by (cases "annex_a p"; fastforce simp: metadata_of_def byte_range_new_def usize_add_def split: option.splits)+
qed

definition describable :: "parsed_codestream \<Rightarrow> bool" where
  "describable p \<longleftrightarrow> planes_describable p \<and> grid_describable (image (cs_headers p)) \<and> orientation_value p < 8"

definition describes :: "image_info \<Rightarrow> parsed_codestream \<Rightarrow> bool" where
  "describes info p \<longleftrightarrow> validate_consistency info = Ok () \<and>
     dimensions info = (width (image (cs_headers p)), height (image (cs_headers p))) \<and>
     component_count (pi_color_format (ii_primary info)) = Some (components (primary (cs_headers p))) \<and>
     band_presence_of (bands_present (primary (cs_headers p))) = Ok (pi_bands (ii_primary info)) \<and>
     ii_alpha_mode info = (if separate_alpha_headers p \<noteq> None then AlphaSeparate
       else if alpha (cs_headers p) \<noteq> None then AlphaIntegrated else AlphaNone) \<and>
     ii_tiles info = grid_of (image (cs_headers p)) \<and>
     im_orientation (ii_metadata info) = orientation_of (orientation_value p)"

text \<open>The grid of a description tiles the extended image with at least one macroblock per tile.\<close>

lemma grid_partitions:
  assumes "grid_describable h"
  shows "16 * sum_list (column_widths (grid_of h)) = width h + margins h ! 1 + margins h ! 3"
    "16 * sum_list (row_heights (grid_of h)) = height h + margins h ! 0 + margins h ! 2"
    "0 \<notin> set (column_widths (grid_of h))" "0 \<notin> set (row_heights (grid_of h))"
  using assms by (auto simp: grid_describable_def axis_fits_def grid_of_def elim!: dvdE)

lemma image_info_outcome:
  assumes "length bytes \<le> usize_max" "codestream_ok bytes p"
  shows "case image_info_of p of Panic \<Rightarrow> False | Err e \<Rightarrow> \<not> describable p | Ok info \<Rightarrow> describable p \<and> describes info p"
proof -
  let ?h = "image (cs_headers p)"
  have ok: "image_header_ok ?h" "plane_header_ok (output_bit_depth ?h) (primary (cs_headers p))"
    using assms(2) by (simp_all add: codestream_ok_def codestream_at_def headers_ok_def)
  obtain pl where pl: "plane_info_of ?h (primary (cs_headers p)) = Ok pl" "pi_width pl = width ?h" "pi_height pl = height ?h"
    "band_presence_of (bands_present (primary (cs_headers p))) = Ok (pi_bands pl)"
    "component_count (pi_color_format pl) = Some (components (primary (cs_headers p)))"
    using plane_info_total [OF ok] by blast
  obtain mode al where al: "alpha_info p ?h = Ok (mode, al)"
    "mode = (if separate_alpha_headers p \<noteq> None then AlphaSeparate
      else if alpha (cs_headers p) \<noteq> None then AlphaIntegrated else AlphaNone)"
    "al = None \<longleftrightarrow> mode = AlphaNone"
    "\<forall>a\<in>set_option al. pi_width a = width ?h \<and> pi_height a = height ?h"
    "mode = AlphaIntegrated \<longrightarrow> (\<exists>a x. al = Some a \<and> alpha (cs_headers p) = Some x \<and>
      band_presence_of (bands_present x) = Ok (pi_bands a))"
    using alpha_info_total [OF assms(2)] by blast
  have bands: "(mode = AlphaIntegrated \<and> (\<exists>a\<in>set_option al. \<not> bands_are_subset (pi_bands pl) (pi_bands a))) \<longleftrightarrow>
      separate_alpha_headers p = None \<and> (\<exists>a\<in>set_option (alpha (cs_headers p)).
        \<not> bands_present (primary (cs_headers p)) \<le> bands_present a)"
    using al(2,5) bands_subset_codes [OF pl(4)] by (auto split: if_splits)
  have margins: "length (margins ?h) = 4" "width ?h \<noteq> 0" "height ?h \<noteq> 0"
    using ok(1) by (auto simp: image_header_ok_def)
  note grid = tile_grid_Ok [OF margins(1)]
  note meta = metadata_total [OF assms(2,1)]
  obtain pr lv where level: "profile_and_level p = (pr, lv)" by fastforce
  show ?thesis
  proof (cases "grid_describable ?h \<and> orientation_value p < 8")
    case True
    then obtain m where m: "metadata_of p = Ok m" "im_orientation m = orientation_of (orientation_value p)"
      using meta(1) by blast
    have "tile_grid_of ?h = Ok (grid_of ?h)" using True grid(1) by simp
    then show ?thesis using True m al(2-4) pl margins(2,3) level bands
      by (auto simp: image_info_of_def al(1) describable_def planes_describable_def describes_def
          validate_consistency_def dimensions_def Let_def split: option.splits if_splits)
  next
    case False
    then have "(\<exists>e. tile_grid_of ?h = Err e) \<or> tile_grid_of ?h = Ok (grid_of ?h) \<and> (\<exists>e. metadata_of p = Err e)"
      using grid meta(2) by (cases "tile_grid_of ?h") auto
    then show ?thesis using False pl(1) level
      by (auto simp: image_info_of_def al(1) describable_def Let_def)
  qed
qed

section \<open>Properties\<close>

text \<open>
  C37: a parsed file has a description or a reason not to. For every file that parses, building the public
  metadata never panics. It succeeds exactly when the extended image is a whole number of macroblocks
  with room for the explicit tiles and a last one, an integrated alpha plane keeps to the bands of the
  primary one, premultiplication has an alpha plane and the container's orientation is one of eight;
  then the metadata is consistent, has the dimensions, bands and component count of the headers, and its
  grid divides the extended image into tiles of at least one macroblock.
\<close>

theorem parsed_files_are_described:
  assumes "readable bytes" "parse_codestream bytes = Ok p"
  shows "case image_info_of p of
      Panic \<Rightarrow> False
    | Err e \<Rightarrow> \<not> describable p
    | Ok info \<Rightarrow> describable p \<and> describes info p \<and>
        16 * sum_list (column_widths (ii_tiles info)) =
          width (image (cs_headers p)) + margins (image (cs_headers p)) ! 1 + margins (image (cs_headers p)) ! 3 \<and>
        16 * sum_list (row_heights (ii_tiles info)) =
          height (image (cs_headers p)) + margins (image (cs_headers p)) ! 0 + margins (image (cs_headers p)) ! 2 \<and>
        0 \<notin> set (column_widths (ii_tiles info)) \<and> 0 \<notin> set (row_heights (ii_tiles info))"
proof -
  have "codestream_ok bytes p" using yieldsD(2) [OF parse_codestream_yields [OF assms(1)] assms(2)] .
  moreover have "length bytes \<le> usize_max" using assms(1) by (simp add: readable_def)
  ultimately show ?thesis
    using image_info_outcome [of bytes p] grid_partitions [of "image (cs_headers p)"]
    by (auto simp: describes_def describable_def split: result.splits)
qed

lemma parsed_files_are_described_witness:
  "\<exists>p. parse_codestream sample_payload = Ok p \<and> image_info_of p \<noteq> Panic"
proof -
  have "readable sample_payload" by (simp add: readable_def sample_payload_def sample_bytes_def)
  moreover obtain p where "parse_codestream sample_payload = Ok p"
    using sample_raw by (auto simp: validate_raw_codestream_def let_try_eq_Ok split: if_splits)
  ultimately show ?thesis using parsed_files_are_described [of sample_payload p] by auto
qed

text \<open>
  Orientations survive storage. The code that the writer stores for an orientation is read as this
  orientation, so the metadata of a written file names the orientation and the dimensions of its options.
\<close>

theorem written_orientation_described:
  assumes "write_options_ok o'" "write_annex_a payload o' = Ok out" "parse_codestream out = Ok p"
    and "image_info_of p = Ok info"
  shows "im_orientation (ii_metadata info) = wo_orientation o' \<and>
    im_container_pixel_format (ii_metadata info) = Some (wo_guid o')"
proof -
  obtain l where "validate_options payload o' = Ok ()" "container_layout_new payload o' = Ok l"
    using assms(2) by (auto simp: write_annex_a_def outcome_simps)
  then obtain out' p' where w: "carries out' payload o' p'"
    "parse_codestream out' = let_try (validate_annex_a_pixel_format p') (\<lambda>_. Ok p')"
    "write_annex_a payload o' = let_try (validate_annex_a_pixel_format p') (\<lambda>_. Ok out')"
    using write_annex_a_body [OF assms(1)] by blast
  have "let_try (validate_annex_a_pixel_format p') (\<lambda>_. Ok out') = Ok out" using w(3) assms(2) by simp
  then have "out' = out" by (auto simp: outcome_simps)
  then have "let_try (validate_annex_a_pixel_format p') (\<lambda>_. Ok p') = Ok p" using w(2) assms(3) by simp
  then have p: "p' = p" by (auto simp: outcome_simps)
  obtain m where "metadata_of p = Ok m" and m: "ii_metadata info = m"
    using assms(4) by (auto simp: image_info_of_def Let_def let_try_eq_Ok split: if_splits prod.splits)
  moreover have "orientation_of (orientation_code d) = d" for d by (cases d) (simp_all add: orientation_of_def)
  moreover obtain img where "annex_a p = Some img" "pixel_format_guid img = wo_guid o'"
    "transformation (ax_metadata img) = Some (orientation_code (wo_orientation o'))"
    using w(1) p by (auto simp: carries_def)
  ultimately show ?thesis unfolding m
    by (auto simp: metadata_of_def orientation_value_def let_try_eq_Ok Let_def split: if_splits)
qed

end
