(* ===== verification/Request.thy ===== *)
theory Request
  imports Plan
begin

text \<open>
  Decode requests and resource limits (\<open>crates/jxr-core/src/request.rs\<close>). The backend of a request is a
  type of another crate that nothing here reads, so it is a type parameter.
\<close>

datatype decode_scale = FullScale | QuarterScale | SixteenthScale

fun denominator :: "decode_scale \<Rightarrow> nat" where
  "denominator FullScale = 1"
| "denominator QuarterScale = 4"
| "denominator SixteenthScale = 16"

definition retained_bands :: "decode_scale \<Rightarrow> band_presence \<Rightarrow> band_presence" where
  "retained_bands scale available =
     (case scale of
        FullScale \<Rightarrow> available
      | QuarterScale \<Rightarrow> if has_low_pass available then NoHighPass else DcOnly
      | SixteenthScale \<Rightarrow> DcOnly)"

datatype alpha_handling = PreserveAlpha | DropAlpha | PremultiplyAlpha

section \<open>Limits\<close>

record decode_limits =
  max_width :: nat
  max_height :: nat
  max_pixels :: nat
  max_components :: nat
  max_tiles :: nat
  max_compressed_bytes :: nat
  max_coefficient_bytes :: nat
  max_host_allocation_bytes :: nat

definition default_limits :: decode_limits where
  "default_limits = \<lparr>max_width = 2 ^ 20, max_height = 2 ^ 20, max_pixels = 2 ^ 30, max_components = 64,
     max_tiles = 2 ^ 20, max_compressed_bytes = 2 ^ 30, max_coefficient_bytes = 2 ^ 32,
     max_host_allocation_bytes = 2 ^ 32\<rparr>"

definition limit_error :: "string \<Rightarrow> limit_kind \<Rightarrow> nat \<Rightarrow> nat \<Rightarrow> jxr_error" where
  "limit_error operation limit requested maximum =
     jxr_error_new (KindLimitExceeded limit requested maximum) operation"

definition check_limit :: "string \<Rightarrow> limit_kind \<Rightarrow> nat \<Rightarrow> nat \<Rightarrow> (jxr_error, unit) result" where
  "check_limit operation limit requested maximum =
     (if maximum < requested then Err (limit_error operation limit requested maximum) else Ok ())"

definition check_dimensions :: "decode_limits \<Rightarrow> nat \<Rightarrow> nat \<Rightarrow> (jxr_error, unit) result" where
  "check_dimensions l w h =
     let_try (check_limit ''image width'' LimitWidth w (max_width l)) (\<lambda>_.
     let_try (check_limit ''image height'' LimitHeight h (max_height l)) (\<lambda>_.
     if 2 ^ 64 \<le> w * h then Err (arithmetic_error ''image pixel count'')
     else check_limit ''image pixel count'' LimitPixels (w * h) (max_pixels l)))"

definition check_components :: "decode_limits \<Rightarrow> nat \<Rightarrow> (jxr_error, unit) result" where
  "check_components l n = check_limit ''component count'' LimitComponents n (max_components l)"

definition check_tiles :: "decode_limits \<Rightarrow> nat \<Rightarrow> (jxr_error, unit) result" where
  "check_tiles l n = check_limit ''tile count'' LimitTiles n (max_tiles l)"

definition check_compressed_bytes :: "decode_limits \<Rightarrow> nat \<Rightarrow> (jxr_error, unit) result" where
  "check_compressed_bytes l n =
     (if 2 ^ 64 \<le> n then Err (arithmetic_error ''compressed input size'')
      else check_limit ''compressed input size'' LimitCompressedBytes n (max_compressed_bytes l))"

definition check_coefficient_bytes :: "decode_limits \<Rightarrow> nat \<Rightarrow> (jxr_error, unit) result" where
  "check_coefficient_bytes l n =
     (if 2 ^ 64 \<le> n then Err (arithmetic_error ''coefficient arena size'')
      else check_limit ''coefficient arena size'' LimitCoefficientBytes n (max_coefficient_bytes l))"

definition check_host_allocation_bytes :: "decode_limits \<Rightarrow> nat \<Rightarrow> (jxr_error, unit) result" where
  "check_host_allocation_bytes l n =
     (if 2 ^ 64 \<le> n then Err (arithmetic_error ''host output size'')
      else check_limit ''host output size'' LimitHostAllocationBytes n (max_host_allocation_bytes l))"

section \<open>Requests\<close>

record 'b decode_request =
  dr_region :: "rect option"
  dr_scale :: decode_scale
  dr_output :: pixel_format
  dr_alpha :: alpha_handling
  dr_backend :: 'b
  dr_limits :: decode_limits

definition decode_request_new :: "'b \<Rightarrow> pixel_format \<Rightarrow> 'b decode_request" where
  "decode_request_new auto out = \<lparr>dr_region = None, dr_scale = FullScale, dr_output = out,
     dr_alpha = PreserveAlpha, dr_backend = auto, dr_limits = default_limits\<rparr>"

definition with_region :: "rect \<Rightarrow> 'b decode_request \<Rightarrow> 'b decode_request" where
  "with_region region r = r\<lparr>dr_region := Some region\<rparr>"

definition with_scale :: "decode_scale \<Rightarrow> 'b decode_request \<Rightarrow> 'b decode_request" where
  "with_scale scale r = r\<lparr>dr_scale := scale\<rparr>"

definition with_alpha :: "alpha_handling \<Rightarrow> 'b decode_request \<Rightarrow> 'b decode_request" where
  "with_alpha handling r = r\<lparr>dr_alpha := handling\<rparr>"

definition with_backend :: "'b \<Rightarrow> 'b decode_request \<Rightarrow> 'b decode_request" where
  "with_backend backend r = r\<lparr>dr_backend := backend\<rparr>"

definition with_limits :: "decode_limits \<Rightarrow> 'b decode_request \<Rightarrow> 'b decode_request" where
  "with_limits limits r = r\<lparr>dr_limits := limits\<rparr>"

section \<open>Facts\<close>

lemma check_limit_Ok [outcome_simps]: "check_limit operation limit n m = Ok u \<longleftrightarrow> n \<le> m"
  by (auto simp: check_limit_def)

lemma checks_no_panic [simp]:
  "check_limit operation limit n m \<noteq> Panic" "check_dimensions l w h \<noteq> Panic" "check_components l n \<noteq> Panic"
  "check_tiles l n \<noteq> Panic" "check_compressed_bytes l n \<noteq> Panic" "check_coefficient_bytes l n \<noteq> Panic"
  "check_host_allocation_bytes l n \<noteq> Panic"
  by (auto simp: check_limit_def check_dimensions_def check_components_def check_tiles_def
      check_compressed_bytes_def check_coefficient_bytes_def check_host_allocation_bytes_def let_try_eq_Panic)

lemma check_coefficient_bytes_Ok: "check_coefficient_bytes l n = Ok u \<Longrightarrow> n \<le> max_coefficient_bytes l"
  by (auto simp: check_coefficient_bytes_def outcome_simps split: if_splits)

text \<open>A scale keeps no band that the image lacks.\<close>

lemma retained_bands_subset:
  "has_low_pass (retained_bands scale b) \<Longrightarrow> has_low_pass b"
  "has_high_pass (retained_bands scale b) \<Longrightarrow> has_high_pass b"
  by (cases scale; cases b; simp add: retained_bands_def has_low_pass_def has_high_pass_def)+

end
