(* ===== verification/Prepare.thy ===== *)
theory Prepare
  imports Image_Info Request Tile_Output
begin

text \<open>
  Plan construction (\<open>crates/jxr-native/src/prepare.rs\<close>): request validation, the regions of a decode, the
  packet range and output region of every tile and the size of the coefficient arena. The rectangle of
  the crate \<open>j2k_core\<close> is a record of its public fields; its two functions that the code calls are the
  parameters \<open>full\<close> and \<open>within\<close>.
\<close>

section \<open>Types\<close>

record plane_plan =
  pp_width :: nat
  pp_height :: nat
  macroblocks_x :: nat
  macroblocks_y :: nat
  pp_overlap :: overlap_mode
  pp_coefficient_plane :: nat

record prepared_plan =
  pl_info :: image_info
  pl_codestream_range :: core_range
  pl_primary :: plane_plan
  pl_alpha :: "plane_plan option"
  pl_tiles :: "tile_plan list"
  pl_reconstruction_region :: rect
  pl_output_region :: rect
  pl_decoded_region :: rect
  pl_scale :: decode_scale
  pl_coefficient_bytes :: nat

section \<open>Arithmetic\<close>

definition u32_checked :: "string \<Rightarrow> nat \<Rightarrow> (jxr_error, nat) result" where
  "u32_checked operation n = (if 2 ^ 32 \<le> n then Err (arithmetic_error operation) else Ok n)"

definition div_ceil :: "nat \<Rightarrow> nat \<Rightarrow> nat" where
  "div_ceil a b = (a + b - 1) div b"

text \<open>Sums and differences that only an overflow check of the compiler guards.\<close>

definition u32_sum :: "nat list \<Rightarrow> ('e, nat) result" where
  "u32_sum ns = (if 2 ^ 32 \<le> sum_list ns then Panic else Ok (sum_list ns))"

definition usize_plus :: "nat \<Rightarrow> nat \<Rightarrow> ('e, nat) result" where
  "usize_plus a b = (if usize_max < a + b then Panic else Ok (a + b))"

definition usize_minus :: "nat \<Rightarrow> nat \<Rightarrow> ('e, nat) result" where
  "usize_minus a b = (if a < b then Panic else Ok (a - b))"

section \<open>The request\<close>

definition should_prepare_alpha :: "alpha_mode \<Rightarrow> alpha_handling \<Rightarrow> bool" where
  "should_prepare_alpha mode handling \<longleftrightarrow>
     mode = AlphaIntegrated \<or> mode = AlphaSeparate \<and> handling \<noteq> DropAlpha"

definition host_output_bytes :: "pixel_format \<Rightarrow> nat \<Rightarrow> bool \<Rightarrow> rect \<Rightarrow> (jxr_error, nat) result" where
  "host_output_bytes format color include_alpha region =
     (if color \<notin> {1, 2} then
        let_try (row_bytes format (rect_w region)) (\<lambda>bytes.
        usize_mul ''host output allocation'' bytes (rect_h region))
      else
        let_try (row_bytes_for_channels format (rect_w region) 1) (\<lambda>row.
        let_try (usize_mul ''planar luma allocation'' row (rect_h region)) (\<lambda>luma.
        let chroma_height = (if color = 1 then rect_h region div 2 else rect_h region) in
        let_try (row_bytes_for_channels format (rect_w region div 2) 1) (\<lambda>row.
        let_try (usize_mul ''planar chroma allocation'' row chroma_height) (\<lambda>one_chroma.
        let alpha = (if include_alpha then luma else 0) in
        let_try (usize_mul ''planar chroma allocation'' one_chroma 2) (\<lambda>chroma.
        let_try (usize_add ''planar host output allocation'' luma chroma) (\<lambda>bytes.
        usize_add ''planar host output allocation'' bytes alpha)))))))"

definition alpha_coefficient_plane :: "image_info \<Rightarrow> nat" where
  "alpha_coefficient_plane info =
     (if ii_alpha_mode info = AlphaIntegrated
      then (case component_count (pi_color_format (ii_primary info)) of Some n \<Rightarrow> n | None \<Rightarrow> 0)
      else 0)"

definition validate_native_scale ::
  "parsed_codestream \<Rightarrow> image_info \<Rightarrow> 'b decode_request \<Rightarrow> (jxr_error, unit) result" where
  "validate_native_scale parsed info request =
     (if dr_scale request = FullScale then Ok ()
      else if pi_bitstream_mode (ii_primary info) \<noteq> Frequency
      then Err (jxr_error_new KindUnsupported ''native reduced resolution requires frequency-mode packets'')
      else if dr_scale request = QuarterScale \<and> \<not> has_low_pass (pi_bands (ii_primary info))
      then Err (jxr_error_new KindUnsupported ''quarter-resolution decode requires an LP band'')
      else if dr_scale request = QuarterScale \<and> dr_alpha request \<noteq> DropAlpha \<and>
        (\<exists>a\<in>set_option (ii_alpha info). \<not> has_low_pass (pi_bands a))
      then Err (jxr_error_new KindUnsupported ''quarter-resolution alpha decode requires an LP band'')
      else if dr_scale request = SixteenthScale \<and> output_color_format (image (cs_headers parsed)) \<in> {1, 2}
      then Err (jxr_error_new KindUnsupported ''sixteenth-resolution subsampled planar YUV output'')
      else Ok ())"

definition validate_request ::
  "nat \<Rightarrow> parsed_codestream \<Rightarrow> image_info \<Rightarrow> 'b decode_request \<Rightarrow> (jxr_error, unit) result" where
  "validate_request input_len parsed info request =
     (let limits = dr_limits request in
      let_try (check_compressed_bytes limits input_len) (\<lambda>_.
      let_try (check_dimensions limits (ii_width info) (ii_height info)) (\<lambda>_.
      let_try (check_components limits
        (case component_count (pi_color_format (ii_primary info)) of Some n \<Rightarrow> n | None \<Rightarrow> 0)) (\<lambda>_.
      let_try (grid_tile_count (ii_tiles info)) (\<lambda>tiles.
      let_try (check_tiles limits tiles) (\<lambda>_.
      validate_native_scale parsed info request))))))"

section \<open>Regions\<close>

definition native_output_region :: "rect \<Rightarrow> decode_scale \<Rightarrow> (jxr_error, rect) result" where
  "native_output_region region scale =
     (let d = denominator scale in
      let_try (u32_checked ''scaled output region right edge'' (rect_x region + rect_w region)) (\<lambda>right.
      let_try (u32_checked ''scaled output region bottom edge'' (rect_y region + rect_h region)) (\<lambda>bottom.
      let x = rect_x region div d; y = rect_y region div d in
      Ok \<lparr>rect_x = x, rect_y = y, rect_w = div_ceil right d - x, rect_h = div_ceil bottom d - y\<rparr>)))"

definition plane_plan_of :: "image_info \<Rightarrow> nat \<Rightarrow> (jxr_error, plane_plan) result" where
  "plane_plan_of info plane =
     let_try (u32_sum (column_widths (ii_tiles info))) (\<lambda>x.
     let_try (u32_sum (row_heights (ii_tiles info))) (\<lambda>y.
     Ok \<lparr>pp_width = ii_width info, pp_height = ii_height info, macroblocks_x = x, macroblocks_y = y,
       pp_overlap = pi_overlap (ii_primary info), pp_coefficient_plane = plane\<rparr>))"

definition reconstruction_region :: "rect \<Rightarrow> nat \<times> nat \<Rightarrow> overlap_mode \<Rightarrow> rect" where
  "reconstruction_region region dims overlap =
     (let halo = (if overlap = OverlapNone then 0 else 16);
          x0 = rect_x region div 16 * 16; y0 = rect_y region div 16 * 16;
          right = u32_saturating_mul (div_ceil (u32_saturating_add (rect_x region) (rect_w region)) 16) 16;
          bottom = u32_saturating_mul (div_ceil (u32_saturating_add (rect_y region) (rect_h region)) 16) 16;
          x = x0 - halo; y = y0 - halo;
          right = min (u32_saturating_add right halo) (fst dims);
          bottom = min (u32_saturating_add bottom halo) (snd dims)
      in \<lparr>rect_x = x, rect_y = y, rect_w = right - x, rect_h = bottom - y\<rparr>)"

text \<open>First and last macroblock (exclusive) in each direction: \<open>[x0, y0, x1, y1]\<close>.\<close>

definition reconstruction_bounds :: "nat \<times> nat \<Rightarrow> nat \<times> nat \<Rightarrow> overlap_mode \<Rightarrow> nat \<Rightarrow> nat \<Rightarrow> rect \<Rightarrow>
    (jxr_error, nat \<times> nat \<times> nat \<times> nat) result" where
  "reconstruction_bounds margin macroblocks overlap color out_color region =
     let_try (u32_checked ''region coded x'' (fst margin + rect_x region)) (\<lambda>start_x.
     let_try (u32_checked ''region coded y'' (snd margin + rect_y region)) (\<lambda>start_y.
     let_try (u32_checked ''region coded width'' (start_x + rect_w region)) (\<lambda>end_x.
     let_try (u32_checked ''region coded height'' (start_y + rect_h region)) (\<lambda>end_y.
     let halo = of_bool (overlap \<noteq> OverlapNone \<or> color \<in> {1, 2} \<and> out_color \<notin> {1, 2}) in
     Ok (start_x div 16 - halo, start_y div 16 - halo,
       min (u32_saturating_add (div_ceil end_x 16) halo) (fst macroblocks),
       min (u32_saturating_add (div_ceil end_y 16) halo) (snd macroblocks))))))"

definition coded_reconstruction_bounds ::
  "parsed_codestream \<Rightarrow> image_info \<Rightarrow> rect \<Rightarrow> (jxr_error, nat \<times> nat \<times> nat \<times> nat) result" where
  "coded_reconstruction_bounds parsed info region =
     (let h = image (cs_headers parsed) in
      let_try (index_or_panic (margins h) 1) (\<lambda>left.
      let_try (index_or_panic (margins h) 0) (\<lambda>upper.
      let_try (u32_sum (column_widths (ii_tiles info))) (\<lambda>x.
      let_try (u32_sum (row_heights (ii_tiles info))) (\<lambda>y.
      reconstruction_bounds (left, upper) (x, y) (pi_overlap (ii_primary info))
        (internal_color_format (primary (cs_headers parsed))) (output_color_format h) region)))))"

section \<open>Packets\<close>

text \<open>
  \<open>binary_search\<close> on a sorted slice without repeated values: the position of the value.
\<close>

fun binary_search :: "nat list \<Rightarrow> nat \<Rightarrow> nat option" where
  "binary_search [] v = None"
| "binary_search (x # xs) v = (if x = v then Some 0 else map_option Suc (binary_search xs v))"

definition packet_start :: "nat \<Rightarrow> nat list \<Rightarrow> nat \<Rightarrow> nat \<Rightarrow> nat list \<Rightarrow> (jxr_error, nat list) result" where
  "packet_start base offsets bands tile starts =
     let_try (index_or_panic offsets (tile * bands)) (\<lambda>relative.
     if usize_max < relative then Err (arithmetic_error ''tile packet offset'')
     else let_try (usize_add ''tile packet position'' base relative) (\<lambda>start. Ok (starts @ [start])))"

definition packet_of :: "nat list \<Rightarrow> nat \<Rightarrow> nat \<Rightarrow> core_range list \<Rightarrow> (jxr_error, core_range list) result" where
  "packet_of physical codestream_end start ranges =
     let_try (ok_or (jxr_error_new KindInternalInvariant ''tile index lookup'') (binary_search physical start))
       (\<lambda>position.
     let past = (if position + 1 < length physical then physical ! (position + 1) else codestream_end) in
     if past < start then Err (jxr_error_new KindInvalidSyntax ''tile index ordering'')
     else let_try (byte_range_new start (past - start) codestream_end) (\<lambda>r. Ok (ranges @ [r])))"

definition indexed_tile_packet_ranges ::
  "nat \<Rightarrow> nat \<Rightarrow> nat list \<Rightarrow> nat \<Rightarrow> bool \<Rightarrow> (jxr_error, core_range list) result" where
  "indexed_tile_packet_ranges base codestream_end offsets tiles frequency =
     (if tiles = 0 then Err (jxr_error_new KindInternalInvariant ''empty tile index'')
      else let bands = length offsets div tiles in
        if bands = 0 \<or> bands * tiles \<noteq> length offsets
        then Err (jxr_error_new KindInvalidSyntax ''tile index shape'')
        else if frequency then
          let_try (byte_range_new base (codestream_end - base) codestream_end) (\<lambda>r. Ok (replicate tiles r))
        else
          let_try (each_try (packet_start base offsets bands) [0..<tiles] []) (\<lambda>starts.
          each_try (packet_of (remdups (sort starts)) codestream_end) starts []))"

definition tile_packet_ranges ::
  "parsed_codestream \<Rightarrow> codestream_directory \<Rightarrow> (jxr_error, core_range list) result" where
  "tile_packet_ranges parsed d =
     (let h = image (cs_headers parsed) in
      let_try (usize_mul ''tile count'' (length (tile_widths_mb h) + 1) (length (tile_heights_mb h) + 1)) (\<lambda>tiles.
      let_try (usize_plus (fst (primary_range parsed)) (tile_data_offset d)) (\<lambda>base.
      if tile_offsets d = [] then
        let_try (usize_minus (snd (primary_range parsed)) base) (\<lambda>n.
        let_try (byte_range_new base n (snd (primary_range parsed))) (\<lambda>r. Ok [r]))
      else indexed_tile_packet_ranges base (snd (primary_range parsed)) (tile_offsets d) tiles
        (frequency_mode (flags h)))))"

section \<open>Tiles\<close>

definition tile_output_region ::
  "codestream_header \<Rightarrow> nat \<Rightarrow> nat \<Rightarrow> nat \<Rightarrow> nat \<Rightarrow> (jxr_error, rect) result" where
  "tile_output_region h x_mb y_mb width_mb height_mb =
     (let left = u32_saturating_mul x_mb 16; upper = u32_saturating_mul y_mb 16;
          right = u32_saturating_add left (u32_saturating_mul width_mb 16);
          bottom = u32_saturating_add upper (u32_saturating_mul height_mb 16) in
      let_try (index_or_panic (margins h) 1) (\<lambda>margin_left.
      let_try (index_or_panic (margins h) 0) (\<lambda>margin_top.
      let x = min (left - margin_left) (width h); y = min (upper - margin_top) (height h);
          right = min (right - margin_left) (width h); bottom = min (bottom - margin_top) (height h)
      in Ok \<lparr>rect_x = x, rect_y = y, rect_w = right - x, rect_h = bottom - y\<rparr>)))"

text \<open>The variables of the tile loops.\<close>

record tile_walk =
  tw_plans :: "tile_plan list"
  tw_start :: nat
  tw_x :: nat
  tw_y :: nat
  tw_index :: nat

definition plan_tile :: "codestream_header \<Rightarrow> bool \<Rightarrow> core_range list \<Rightarrow> nat \<times> nat \<times> nat \<times> nat \<Rightarrow> nat \<Rightarrow>
    nat \<Rightarrow> tile_walk \<Rightarrow> (jxr_error, tile_walk) result" where
  "plan_tile h hard ranges bounds height_mb width_mb w =
     (case bounds of (x0, y0, x1, y1) \<Rightarrow>
      let_try (u32_checked ''tile macroblock count'' (width_mb * height_mb)) (\<lambda>n.
      let_try (index_or_panic ranges (tw_index w)) (\<lambda>range.
      let_try (tile_output_region h (tw_x w) (tw_y w) width_mb height_mb) (\<lambda>region.
      let plan = \<lparr>packet_range = range, tile_region = region, macroblock_start = tw_start w,
        macroblock_count = n, hard_boundaries = hard,
        required_for_reconstruction = (tw_x w < x1 \<and> x0 < u32_saturating_add (tw_x w) width_mb \<and>
          tw_y w < y1 \<and> y0 < u32_saturating_add (tw_y w) height_mb)\<rparr> in
      let_try (u32_checked ''tile macroblock offsets'' (tw_start w + n)) (\<lambda>start.
      Ok (w\<lparr>tw_plans := tw_plans w @ [plan], tw_start := start,
        tw_x := u32_saturating_add (tw_x w) width_mb, tw_index := tw_index w + 1\<rparr>))))))"

definition plan_row :: "codestream_header \<Rightarrow> tile_grid \<Rightarrow> core_range list \<Rightarrow> nat \<times> nat \<times> nat \<times> nat \<Rightarrow>
    nat \<Rightarrow> tile_walk \<Rightarrow> (jxr_error, tile_walk) result" where
  "plan_row h grid ranges bounds height_mb w =
     let_try (each_try (plan_tile h (hard_tiles grid) ranges bounds height_mb) (column_widths grid)
       (w\<lparr>tw_x := 0\<rparr>)) (\<lambda>w.
     Ok (w\<lparr>tw_y := u32_saturating_add (tw_y w) height_mb\<rparr>))"

definition tile_plans ::
  "parsed_codestream \<Rightarrow> image_info \<Rightarrow> rect \<Rightarrow> (jxr_error, tile_plan list) result" where
  "tile_plans parsed info region =
     let_try (tile_packet_ranges parsed (directory parsed)) (\<lambda>ranges.
     let_try (coded_reconstruction_bounds parsed info region) (\<lambda>bounds.
     let_try (each_try (plan_row (image (cs_headers parsed)) (ii_tiles info) ranges bounds)
       (row_heights (ii_tiles info))
       \<lparr>tw_plans = [], tw_start = 0, tw_x = 0, tw_y = 0, tw_index = 0\<rparr>) (\<lambda>w.
     Ok (tw_plans w))))"

section \<open>The arena\<close>

definition band_coefficient_count :: "band_presence \<Rightarrow> nat \<Rightarrow> nat \<Rightarrow> nat \<Rightarrow> nat" where
  "band_coefficient_count bands dc low full =
     (case bands of DcOnly \<Rightarrow> dc | NoHighPass \<Rightarrow> low | NoFlexbits \<Rightarrow> full | AllBands \<Rightarrow> full)"

definition planned_coefficients :: "color_format \<Rightarrow> band_presence \<Rightarrow> (jxr_error, nat) result" where
  "planned_coefficients color bands =
     (let full = band_coefficient_count bands 1 16 256 in
      case color of
        ColorLuma \<Rightarrow> Ok full
      | ColorYuv Cs420 \<Rightarrow> Ok (full + 2 * band_coefficient_count bands 1 4 64)
      | ColorYuv Cs422 \<Rightarrow> Ok (full + 2 * band_coefficient_count bands 1 8 128)
      | ColorYuv Cs444 \<Rightarrow> Ok (3 * full)
      | ColorRgb \<Rightarrow> Ok (3 * full)
      | ColorNComponent n \<Rightarrow> usize_mul ''N-component coefficient count'' n full
      | _ \<Rightarrow> Ok (4 * full))"

definition coefficient_bytes ::
  "image_info \<Rightarrow> bool \<Rightarrow> nat \<Rightarrow> decode_scale \<Rightarrow> (jxr_error, nat) result" where
  "coefficient_bytes info include_alpha macroblocks scale =
     let_try (planned_coefficients (pi_color_format (ii_primary info))
       (retained_bands scale (pi_bands (ii_primary info)))) (\<lambda>primary_per_mb.
     let_try
       (if include_alpha then
          (case ii_alpha info of
             Some a \<Rightarrow> planned_coefficients (pi_color_format a) (retained_bands scale (pi_bands a))
           | None \<Rightarrow> Ok 0)
        else Ok 0) (\<lambda>alpha_per_mb.
     let_try (usize_plus primary_per_mb alpha_per_mb) (\<lambda>per_mb.
     let_try (usize_mul ''coefficient allocation size'' macroblocks per_mb) (\<lambda>n.
     usize_mul ''coefficient allocation size'' n 4))))"

section \<open>The plan\<close>

fun native_plan_error :: "native_error \<Rightarrow> jxr_error" where
  "native_plan_error (IntegerOverflow _) = jxr_error_new KindArithmeticOverflow ''prepare decode plan''"
| "native_plan_error (Unsupported _) = jxr_error_new KindUnsupported ''prepare decode plan''"
| "native_plan_error _ = jxr_error_new KindInvalidSyntax ''prepare decode plan''"

definition add_selected :: "tile_plan \<Rightarrow> nat \<Rightarrow> (jxr_error, nat) result" where
  "add_selected tile n = u32_checked ''selected macroblock count'' (n + macroblock_count tile)"

definition prepare_plan :: "(nat \<times> nat \<Rightarrow> rect) \<Rightarrow> (rect \<Rightarrow> nat \<times> nat \<Rightarrow> bool) \<Rightarrow> nat \<Rightarrow>
    parsed_codestream \<Rightarrow> 'b decode_request \<Rightarrow> (jxr_error, prepared_plan) result" where
  "prepare_plan full within input_len parsed request =
     let_try (map_err native_plan_error (image_info_of parsed)) (\<lambda>info.
     let_try (validate_request input_len parsed info request) (\<lambda>_.
     let region = (case dr_region request of Some r \<Rightarrow> r | None \<Rightarrow> full (dimensions info)) in
     if rect_w region = 0 \<or> rect_h region = 0 \<or> \<not> within region (dimensions info)
     then Err (jxr_error_new KindInvalidRequest ''decode region'')
     else
       let_try (native_output_region region (dr_scale request)) (\<lambda>decoded.
       let_try (host_output_bytes (dr_output request) (output_color_format (image (cs_headers parsed)))
         (ii_alpha info \<noteq> None \<and> dr_alpha request \<noteq> DropAlpha) decoded) (\<lambda>host_bytes.
       let_try (check_host_allocation_bytes (dr_limits request) host_bytes) (\<lambda>_.
       let_try (plane_plan_of info 0) (\<lambda>coded.
       let_try
         (if should_prepare_alpha (ii_alpha_mode info) (dr_alpha request) \<and> ii_alpha info \<noteq> None
          then let_try (plane_plan_of info (alpha_coefficient_plane info)) (\<lambda>p. Ok (Some p))
          else Ok None) (\<lambda>transparency.
       let_try (tile_plans parsed info region) (\<lambda>tiles.
       let_try (each_try add_selected (filter required_for_reconstruction tiles) 0) (\<lambda>selected.
       let_try (coefficient_bytes info (transparency \<noteq> None \<or> ii_alpha_mode info = AlphaIntegrated) selected
         (dr_scale request)) (\<lambda>bytes.
       let_try (check_coefficient_bytes (dr_limits request) bytes) (\<lambda>_.
       let_try (byte_range_new (fst (primary_range parsed))
         (snd (primary_range parsed) - fst (primary_range parsed)) input_len) (\<lambda>codestream.
       Ok \<lparr>pl_info = info, pl_codestream_range = codestream, pl_primary = coded, pl_alpha = transparency,
         pl_tiles = tiles,
         pl_reconstruction_region = reconstruction_region region (dimensions info) (pi_overlap (ii_primary info)),
         pl_output_region = region, pl_decoded_region = decoded, pl_scale = dr_scale request,
         pl_coefficient_bytes = bytes\<rparr>))))))))))))"

section \<open>Work\<close>

definition u64_checked :: "string \<Rightarrow> nat \<Rightarrow> (jxr_error, nat) result" where
  "u64_checked operation n = (if 2 ^ 64 \<le> n then Err (arithmetic_error operation) else Ok n)"

definition add_work :: "tile_plan \<Rightarrow> nat \<Rightarrow> (jxr_error, nat) result" where
  "add_work tile n = u64_checked ''reconstruction macroblock count'' (n + macroblock_count tile)"

fun primary_work :: "color_format \<Rightarrow> (jxr_error, nat) result" where
  "primary_work ColorLuma = Ok 256"
| "primary_work (ColorYuv Cs420) = Ok 384"
| "primary_work (ColorYuv Cs422) = Ok 512"
| "primary_work (ColorYuv Cs444) = Ok 768"
| "primary_work ColorRgb = Ok 768"
| "primary_work ColorRgbe = Ok 768"
| "primary_work ColorCmyk = Ok 1024"
| "primary_work ColorCmykDirect = Ok 1024"
| "primary_work ColorYuvK = Ok 1024"
| "primary_work (ColorNComponent n) = u64_checked ''N-component reconstruction work'' (n * 256)"

definition reconstructed_coefficients :: "prepared_plan \<Rightarrow> (jxr_error, nat) result" where
  "reconstructed_coefficients plan =
     let_try (each_try add_work (filter required_for_reconstruction (pl_tiles plan)) 0) (\<lambda>macroblocks.
     let_try (primary_work (pi_color_format (ii_primary (pl_info plan)))) (\<lambda>coded.
     let transparency = (case ii_alpha_mode (pl_info plan) of
         AlphaIntegrated \<Rightarrow> 256
       | AlphaSeparate \<Rightarrow> if pl_alpha plan \<noteq> None then 256 else 0
       | AlphaNone \<Rightarrow> 0) in
     if 2 ^ 64 \<le> coded + transparency then Panic
     else u64_checked ''reconstructed coefficient count'' (macroblocks * (coded + transparency))))"

end
