(* ===== verification/Tile_Grid.thy ===== *)
theory Tile_Grid
  imports Prepare
begin

text \<open>
  What a prepared plan promises: the output regions of the tiles divide the image, every tile that a
  requested pixel or its halo needs is marked, packets lie in the codestream and do not overlap, and
  preparation never panics.
\<close>

section \<open>Prefix sums\<close>

lemma prefix_partition:
  "m < sum_list ws \<Longrightarrow>
    \<exists>!c. c < length ws \<and> sum_list (take c ws) \<le> m \<and> m < sum_list (take c ws) + ws ! c" for m :: nat
proof (induction ws arbitrary: m)
  case (Cons w ws)
  show ?case
  proof (cases "m < w")
    case True
    have "c = 0" if "c < length (w # ws)" "sum_list (take c (w # ws)) \<le> m" for c
      using that True by (cases c) simp_all
    then show ?thesis using True by (intro ex1I [of _ 0]) auto
  next
    case False
    then have "m - w < sum_list ws" using Cons.prems by simp
    from Cons.IH [OF this] obtain c where c: "c < length ws" "sum_list (take c ws) \<le> m - w"
      "m - w < sum_list (take c ws) + ws ! c"
      "\<And>d. d < length ws \<Longrightarrow> sum_list (take d ws) \<le> m - w \<Longrightarrow> m - w < sum_list (take d ws) + ws ! d \<Longrightarrow> d = c"
      by blast
    show ?thesis
    proof (intro ex1I [of _ "Suc c"])
      show "Suc c < length (w # ws) \<and> sum_list (take (Suc c) (w # ws)) \<le> m \<and>
          m < sum_list (take (Suc c) (w # ws)) + (w # ws) ! Suc c"
        using c(1-3) False by (simp, linarith)
      fix d assume d: "d < length (w # ws) \<and> sum_list (take d (w # ws)) \<le> m \<and>
          m < sum_list (take d (w # ws)) + (w # ws) ! d"
      then obtain e where e: "d = Suc e" using False by (cases d) simp_all
      have "e < length ws" "sum_list (take e ws) \<le> m - w" "m - w < sum_list (take e ws) + ws ! e"
        using d e False by (simp, simp, linarith, simp, linarith)
      then show "d = Suc c" using c(4) e by simp
    qed
  qed
qed simp

lemma prefix_le: "c < length ws \<Longrightarrow> sum_list (take c ws) + ws ! c \<le> sum_list ws" for ws :: "nat list"
  by (induction ws arbitrary: c) (auto simp: nth_Cons' take_Cons' split: nat.splits)

section \<open>The tile loops\<close>

text \<open>Tile \<open>t\<close> with this position and size in macroblocks, index and first macroblock.\<close>

definition tile_is :: "codestream_header \<Rightarrow> bool \<Rightarrow> core_range list \<Rightarrow> nat \<times> nat \<times> nat \<times> nat \<Rightarrow>
    nat \<Rightarrow> nat \<Rightarrow> nat \<Rightarrow> nat \<Rightarrow> nat \<Rightarrow> nat \<Rightarrow> tile_plan \<Rightarrow> bool" where
  "tile_is h hard ranges bounds x y wd ht i start t \<longleftrightarrow>
     (case bounds of (x0, y0, x1, y1) \<Rightarrow>
       tile_output_region h x y wd ht = Ok (tile_region t) \<and> macroblock_count t = wd * ht \<and>
       macroblock_start t = start \<and> hard_boundaries t = hard \<and> i < length ranges \<and> packet_range t = ranges ! i \<and>
       required_for_reconstruction t = (x < x1 \<and> x0 < x + wd \<and> y < y1 \<and> y0 < y + ht))"

lemma columns_Ok:
  assumes "each_try (plan_tile h hard ranges bounds ht) ws w = Ok w'" "tw_x w + sum_list ws < 2 ^ 32"
    and "tw_y w + ht < 2 ^ 32"
  shows "\<exists>ps. tw_plans w' = tw_plans w @ ps \<and> length ps = length ws \<and> tw_y w' = tw_y w \<and>
    tw_index w' = tw_index w + length ws \<and> tw_start w' = tw_start w + sum_list ws * ht \<and>
    (\<forall>c<length ws. tile_is h hard ranges bounds (tw_x w + sum_list (take c ws)) (tw_y w) (ws ! c) ht
      (tw_index w + c) (tw_start w + sum_list (take c ws) * ht) (ps ! c))"
  using assms
proof (induction ws arbitrary: w)
  case (Cons wd ws)
  then obtain v where v: "plan_tile h hard ranges bounds ht wd w = Ok v"
    "each_try (plan_tile h hard ranges bounds ht) ws v = Ok w'" by (auto simp: let_try_eq_Ok)
  have fits: "u32_saturating_add (tw_x w) wd = tw_x w + wd" "u32_saturating_add (tw_y w) ht = tw_y w + ht"
    using Cons.prems(2,3) by (simp_all add: u32_saturating_add_def)
  obtain x0 y0 x1 y1 where bounds: "bounds = (x0, y0, x1, y1)" by (metis surj_pair)
  obtain region where region: "tile_output_region h (tw_x w) (tw_y w) wd ht = Ok region" "tw_index w < length ranges"
    "tw_start w + wd * ht < 2 ^ 32"
    using v(1) by (auto simp: plan_tile_def bounds let_try_eq_Ok u32_checked_def Let_def outcome_simps split: if_splits)
  let ?t = "\<lparr>packet_range = ranges ! tw_index w, tile_region = region, macroblock_start = tw_start w,
      macroblock_count = wd * ht, hard_boundaries = hard,
      required_for_reconstruction = (tw_x w < x1 \<and> x0 < tw_x w + wd \<and> tw_y w < y1 \<and> y0 < tw_y w + ht)\<rparr>"
  have t: "tile_is h hard ranges bounds (tw_x w) (tw_y w) wd ht (tw_index w) (tw_start w) ?t"
    "v = w\<lparr>tw_plans := tw_plans w @ [?t], tw_start := tw_start w + wd * ht, tw_x := tw_x w + wd,
      tw_index := tw_index w + 1\<rparr>"
    using v(1) region by (auto simp: plan_tile_def tile_is_def bounds u32_checked_def Let_def fits split: if_splits)
  have "tw_x v + sum_list ws < 2 ^ 32" "tw_y v + ht < 2 ^ 32" using Cons.prems(2,3) t(2) by simp_all
  from Cons.IH [OF v(2) this] obtain ps where ps: "tw_plans w' = tw_plans v @ ps" "length ps = length ws"
    "tw_y w' = tw_y v" "tw_index w' = tw_index v + length ws" "tw_start w' = tw_start v + sum_list ws * ht"
    "\<And>c. c < length ws \<Longrightarrow> tile_is h hard ranges bounds (tw_x v + sum_list (take c ws)) (tw_y v) (ws ! c) ht
      (tw_index v + c) (tw_start v + sum_list (take c ws) * ht) (ps ! c)" by blast
  have "tile_is h hard ranges bounds (tw_x w + sum_list (take c (wd # ws))) (tw_y w) ((wd # ws) ! c) ht
      (tw_index w + c) (tw_start w + sum_list (take c (wd # ws)) * ht) ((?t # ps) ! c)" if "c < length (wd # ws)" for c
    using that t ps(6) [of "c - 1"] by (cases c) (simp_all add: algebra_simps)
  then show ?case using ps(1-5) t(2) by (intro exI [of _ "?t # ps"]) (simp add: algebra_simps)
qed simp

lemma rows_Ok:
  assumes "each_try (plan_row h g ranges bounds) hs w = Ok w'"
    and "sum_list (column_widths g) < 2 ^ 32" "tw_y w + sum_list hs < 2 ^ 32"
  shows "\<exists>ps. tw_plans w' = tw_plans w @ ps \<and> length ps = length hs * length (column_widths g) \<and>
    (\<forall>r<length hs. \<forall>c<length (column_widths g). tile_is h (hard_tiles g) ranges bounds
      (sum_list (take c (column_widths g))) (tw_y w + sum_list (take r hs)) (column_widths g ! c) (hs ! r)
      (tw_index w + (r * length (column_widths g) + c))
      (tw_start w + sum_list (take r hs) * sum_list (column_widths g) + sum_list (take c (column_widths g)) * hs ! r)
      (ps ! (r * length (column_widths g) + c)))"
  using assms(1,3)
proof (induction hs arbitrary: w)
  case (Cons ht hs)
  let ?ws = "column_widths g" and ?n = "length (column_widths g)"
  obtain v where v: "plan_row h g ranges bounds ht w = Ok v"
    "each_try (plan_row h g ranges bounds) hs v = Ok w'" using Cons.prems(1) by (auto simp: let_try_eq_Ok)
  obtain u where u: "each_try (plan_tile h (hard_tiles g) ranges bounds ht) ?ws (w\<lparr>tw_x := 0\<rparr>) = Ok u"
    "v = u\<lparr>tw_y := u32_saturating_add (tw_y u) ht\<rparr>"
    using v(1) by (auto simp: plan_row_def let_try_eq_Ok)
  obtain qs where qs: "tw_plans u = tw_plans w @ qs" "length qs = ?n" "tw_y u = tw_y w"
    "tw_index u = tw_index w + ?n" "tw_start u = tw_start w + sum_list ?ws * ht"
    "\<And>c. c < ?n \<Longrightarrow> tile_is h (hard_tiles g) ranges bounds (sum_list (take c ?ws)) (tw_y w) (?ws ! c) ht
      (tw_index w + c) (tw_start w + sum_list (take c ?ws) * ht) (qs ! c)"
    using columns_Ok [OF u(1)] assms(2) Cons.prems(2) by auto
  have y: "tw_y v = tw_y w + ht" using u(2) qs(3) Cons.prems(2) by (simp add: u32_saturating_add_def)
  then have "tw_y v + sum_list hs < 2 ^ 32" using Cons.prems(2) by simp
  from Cons.IH [OF v(2) this] obtain ps where ps: "tw_plans w' = tw_plans v @ ps" "length ps = length hs * ?n"
    "\<And>r c. r < length hs \<Longrightarrow> c < ?n \<Longrightarrow> tile_is h (hard_tiles g) ranges bounds (sum_list (take c ?ws))
      (tw_y v + sum_list (take r hs)) (?ws ! c) (hs ! r) (tw_index v + (r * ?n + c))
      (tw_start v + sum_list (take r hs) * sum_list ?ws + sum_list (take c ?ws) * hs ! r) (ps ! (r * ?n + c))"
    by blast
  have "tile_is h (hard_tiles g) ranges bounds (sum_list (take c ?ws)) (tw_y w + sum_list (take r (ht # hs)))
      (?ws ! c) ((ht # hs) ! r) (tw_index w + (r * ?n + c))
      (tw_start w + sum_list (take r (ht # hs)) * sum_list ?ws + sum_list (take c ?ws) * (ht # hs) ! r)
      ((qs @ ps) ! (r * ?n + c))" if "r < length (ht # hs)" "c < ?n" for r c
  proof (cases r)
    case 0
    then show ?thesis using qs(2,6) that(2) by (simp add: nth_append)
  next
    case (Suc k)
    have "(qs @ ps) ! (r * ?n + c) = ps ! (k * ?n + c)" using qs(2) Suc by (simp add: nth_append)
    then show ?thesis using ps(3) [of k c] that Suc u(2) qs(4,5) y by (simp add: algebra_simps)
  qed
  then show ?case using ps(1,2) qs(1,2) u(2) by (intro exI [of _ "qs @ ps"]) simp
qed simp

section \<open>Pixels and tiles\<close>

definition in_rect :: "rect \<Rightarrow> nat \<Rightarrow> nat \<Rightarrow> bool" where
  "in_rect r x y \<longleftrightarrow> rect_x r \<le> x \<and> x < rect_x r + rect_w r \<and> rect_y r \<le> y \<and> y < rect_y r + rect_h r"

lemma blocks_of_pixel: "16 * a \<le> n \<and> n < 16 * (a + w) \<longleftrightarrow> a \<le> n div 16 \<and> n div 16 < a + w" for n :: nat
  by (auto simp: less_eq_div_iff_mult_less_eq div_less_iff_less_mult mult.commute)

lemma clipped_span:
  fixes p :: nat
  assumes "p < n"
  shows "min (a - m) n \<le> p \<and> p < min (a - m) n + (min (b - m) n - min (a - m) n) \<longleftrightarrow> a \<le> p + m \<and> p + m < b"
  using assms by (cases "min (a - m) n \<le> min (b - m) n") auto

lemma tile_region_pixel:
  assumes "tile_output_region h x y wd ht = Ok r" "16 * (x + wd) < 2 ^ 32" "16 * (y + ht) < 2 ^ 32"
    and "px < width h" "py < height h" "length (margins h) = 4"
  shows "in_rect r px py \<longleftrightarrow> x \<le> (px + margins h ! 1) div 16 \<and> (px + margins h ! 1) div 16 < x + wd \<and>
    y \<le> (py + margins h ! 0) div 16 \<and> (py + margins h ! 0) div 16 < y + ht"
proof -
  have sat: "u32_saturating_mul x 16 = 16 * x" "u32_saturating_mul y 16 = 16 * y"
    "u32_saturating_add (16 * x) (u32_saturating_mul wd 16) = 16 * (x + wd)"
    "u32_saturating_add (16 * y) (u32_saturating_mul ht 16) = 16 * (y + ht)"
    using assms(2,3) by (simp_all add: u32_saturating_mul_def u32_saturating_add_def)
  have r: "r = \<lparr>rect_x = min (16 * x - margins h ! 1) (width h), rect_y = min (16 * y - margins h ! 0) (height h),
      rect_w = min (16 * (x + wd) - margins h ! 1) (width h) - min (16 * x - margins h ! 1) (width h),
      rect_h = min (16 * (y + ht) - margins h ! 0) (height h) - min (16 * y - margins h ! 0) (height h)\<rparr>"
    using assms(1,6) by (auto simp: tile_output_region_def Let_def sat)
  show ?thesis
    using clipped_span [OF assms(4), of "16 * x" "margins h ! 1" "16 * (x + wd)"]
      clipped_span [OF assms(5), of "16 * y" "margins h ! 0" "16 * (y + ht)"]
      blocks_of_pixel [of x "px + margins h ! 1" wd] blocks_of_pixel [of y "py + margins h ! 0" ht]
    by (simp add: in_rect_def r) blast
qed

lemma grid_small:
  assumes "grid_describable h"
  shows "16 * sum_list (column_widths (grid_of h)) < 2 ^ 32" "16 * sum_list (row_heights (grid_of h)) < 2 ^ 32"
  using assms grid_partitions(1,2) [OF assms] by (simp_all add: grid_describable_def axis_fits_def)

lemma tile_plans_Ok:
  assumes "grid_describable h" "h = image (cs_headers p)" "ii_tiles info = grid_of h" "tile_plans p info region = Ok ts"
  shows "\<exists>ranges bounds. tile_packet_ranges p (directory p) = Ok ranges \<and>
    coded_reconstruction_bounds p info region = Ok bounds \<and>
    length ts = length (row_heights (grid_of h)) * length (column_widths (grid_of h)) \<and>
    (\<forall>r<length (row_heights (grid_of h)). \<forall>c<length (column_widths (grid_of h)).
      tile_is h (hard_tiling (flags h)) ranges bounds (sum_list (take c (column_widths (grid_of h))))
        (sum_list (take r (row_heights (grid_of h)))) (column_widths (grid_of h) ! c) (row_heights (grid_of h) ! r)
        (r * length (column_widths (grid_of h)) + c)
        (sum_list (take r (row_heights (grid_of h))) * sum_list (column_widths (grid_of h)) +
          sum_list (take c (column_widths (grid_of h))) * row_heights (grid_of h) ! r)
        (ts ! (r * length (column_widths (grid_of h)) + c)))"
proof -
  let ?w = "\<lparr>tw_plans = [], tw_start = 0, tw_x = 0, tw_y = 0, tw_index = 0\<rparr>"
  obtain ranges bounds w where w: "tile_packet_ranges p (directory p) = Ok ranges"
    "coded_reconstruction_bounds p info region = Ok bounds"
    "each_try (plan_row h (grid_of h) ranges bounds) (row_heights (grid_of h)) ?w = Ok w" "ts = tw_plans w"
    using assms(2-4) by (auto simp: tile_plans_def let_try_eq_Ok)
  have "hard_tiles (grid_of h) = hard_tiling (flags h)" by (simp add: grid_of_def)
  then show ?thesis using rows_Ok [OF w(3)] grid_small [OF assms(1)] w(1,2,4) by auto
qed

lemma tile_index_pair:
  "i < m * n \<Longrightarrow> \<exists>r c. r < m \<and> c < n \<and> i = r * n + c" for i :: nat
proof -
  assume i: "i < m * n"
  then have "0 < n" by (cases n) simp_all
  then show ?thesis using i
    by (intro exI [of _ "i div n"] exI [of _ "i mod n"]) (simp add: less_mult_imp_div_less)
qed

lemma tiles_partition:
  assumes "grid_describable h" "h = image (cs_headers p)" "ii_tiles info = grid_of h" "tile_plans p info region = Ok ts"
    and "length (margins h) = 4" "x < width h" "y < height h"
  shows "\<exists>!i. i < length ts \<and> in_rect (tile_region (ts ! i)) x y"
proof -
  let ?ws = "column_widths (grid_of h)" and ?hs = "row_heights (grid_of h)"
  let ?mx = "(x + margins h ! 1) div 16" and ?my = "(y + margins h ! 0) div 16"
  obtain ranges bounds where ts: "length ts = length ?hs * length ?ws"
    "\<And>r c. r < length ?hs \<Longrightarrow> c < length ?ws \<Longrightarrow> tile_output_region h (sum_list (take c ?ws)) (sum_list (take r ?hs))
      (?ws ! c) (?hs ! r) = Ok (tile_region (ts ! (r * length ?ws + c)))"
    using tile_plans_Ok [OF assms(1-4)] by (fastforce simp: tile_is_def)
  have pixel: "in_rect (tile_region (ts ! (r * length ?ws + c))) x y \<longleftrightarrow>
      sum_list (take c ?ws) \<le> ?mx \<and> ?mx < sum_list (take c ?ws) + ?ws ! c \<and>
      sum_list (take r ?hs) \<le> ?my \<and> ?my < sum_list (take r ?hs) + ?hs ! r"
    if "r < length ?hs" "c < length ?ws" for r c
  proof -
    have "16 * (sum_list (take c ?ws) + ?ws ! c) < 2 ^ 32" "16 * (sum_list (take r ?hs) + ?hs ! r) < 2 ^ 32"
      using prefix_le [OF that(1)] prefix_le [OF that(2)] grid_small [OF assms(1)] by simp_all
    then show ?thesis using tile_region_pixel [OF ts(2) [OF that] _ _ assms(6,7,5)] by blast
  qed
  have "?mx < sum_list ?ws" "?my < sum_list ?hs"
    using grid_partitions(1,2) [OF assms(1)] assms(6,7) by (simp_all add: div_less_iff_less_mult)
  note prefix = prefix_partition [OF this(1)] prefix_partition [OF this(2)]
  obtain c where c: "c < length ?ws" "sum_list (take c ?ws) \<le> ?mx \<and> ?mx < sum_list (take c ?ws) + ?ws ! c"
    "\<And>d. d < length ?ws \<Longrightarrow> sum_list (take d ?ws) \<le> ?mx \<Longrightarrow> ?mx < sum_list (take d ?ws) + ?ws ! d \<Longrightarrow> d = c"
    using prefix(1) by (elim ex1E) blast
  obtain r where r: "r < length ?hs" "sum_list (take r ?hs) \<le> ?my \<and> ?my < sum_list (take r ?hs) + ?hs ! r"
    "\<And>d. d < length ?hs \<Longrightarrow> sum_list (take d ?hs) \<le> ?my \<Longrightarrow> ?my < sum_list (take d ?hs) + ?hs ! d \<Longrightarrow> d = r"
    using prefix(2) by (elim ex1E) blast
  show ?thesis
  proof (rule ex1I [of _ "r * length ?ws + c"])
    have "r * length ?ws + c < Suc r * length ?ws" using c(1) by simp
    also have "\<dots> \<le> length ?hs * length ?ws" using r(1) by (intro mult_le_mono1) simp
    finally show "r * length ?ws + c < length ts \<and> in_rect (tile_region (ts ! (r * length ?ws + c))) x y"
      using pixel [OF r(1) c(1)] r(2) c(2) ts(1) by simp
    fix i assume i: "i < length ts \<and> in_rect (tile_region (ts ! i)) x y"
    then obtain r' c' where rc: "r' < length ?hs" "c' < length ?ws" "i = r' * length ?ws + c'"
      using tile_index_pair [of i "length ?hs" "length ?ws"] ts(1) by auto
    then show "i = r * length ?ws + c" using pixel [OF rc(1,2)] i c(3) [OF rc(2)] r(3) [OF rc(1)] by simp
  qed
qed

section \<open>The tiles that a region needs\<close>

definition halo_of :: "parsed_codestream \<Rightarrow> image_info \<Rightarrow> nat" where
  "halo_of p info = of_bool (pi_overlap (ii_primary info) \<noteq> OverlapNone \<or>
     internal_color_format (primary (cs_headers p)) \<in> {1, 2} \<and>
     output_color_format (image (cs_headers p)) \<notin> {1, 2})"

definition near :: "nat \<Rightarrow> rect \<Rightarrow> nat \<Rightarrow> nat \<Rightarrow> bool" where
  "near d r x y \<longleftrightarrow> rect_x r \<le> x + d \<and> x < rect_x r + rect_w r + d \<and>
     rect_y r \<le> y + d \<and> y < rect_y r + rect_h r + d"

lemma bounds_span:
  assumes "m + x0 + w < 2 ^ 32" "x0 \<le> x + 16 * k" "x < x0 + w + 16 * k" "(x + m) div 16 < n" "k \<le> 1"
  shows "(m + x0) div 16 - k \<le> (x + m) div 16 \<and>
    (x + m) div 16 < min (u32_saturating_add (div_ceil (m + x0 + w) 16) k) n"
proof -
  have "(m + x0) div 16 \<le> (x + m + 16 * k) div 16" using assms(2) by (intro div_le_mono) simp
  moreover have "(x + m + 16 * k) div 16 = (x + m) div 16 + k" by simp
  ultimately have "(m + x0) div 16 - k \<le> (x + m) div 16" by simp
  moreover have "(x + m) div 16 < div_ceil (m + x0 + w) 16 + k"
  proof -
    have "x + m + 16 < (m + x0 + w + 15) + 16 * k + 1" using assms(3) by simp
    then have "x + m + 16 \<le> (m + x0 + w + 15) + 16 * k" by simp
    then have "(x + m + 16) div 16 \<le> ((m + x0 + w + 15) + 16 * k) div 16" by (rule div_le_mono)
    moreover have "(x + m + 16) div 16 = (x + m) div 16 + 1"
      "((m + x0 + w + 15) + 16 * k) div 16 = (m + x0 + w + 15) div 16 + k"
      "div_ceil (m + x0 + w) 16 = (m + x0 + w + 15) div 16" by (simp_all add: div_ceil_def)
    ultimately show ?thesis by simp
  qed
  moreover have "div_ceil (m + x0 + w) 16 + k < 2 ^ 32" using assms(1,5) by (simp add: div_ceil_def)
  ultimately show ?thesis using assms(4) by (simp add: u32_saturating_add_def)
qed

lemma needed_tiles_required:
  assumes "grid_describable h" "h = image (cs_headers p)" "ii_tiles info = grid_of h" "tile_plans p info region = Ok ts"
    and "length (margins h) = 4" "x < width h" "y < height h" "near (16 * halo_of p info) region x y"
    and "i < length ts" "in_rect (tile_region (ts ! i)) x y"
  shows "required_for_reconstruction (ts ! i)"
proof -
  let ?ws = "column_widths (grid_of h)" and ?hs = "row_heights (grid_of h)"
  let ?mx = "(x + margins h ! 1) div 16" and ?my = "(y + margins h ! 0) div 16"
  obtain ranges bounds where ts: "coded_reconstruction_bounds p info region = Ok bounds"
    "length ts = length ?hs * length ?ws"
    "\<And>r c. r < length ?hs \<Longrightarrow> c < length ?ws \<Longrightarrow> tile_is h (hard_tiling (flags h)) ranges bounds
      (sum_list (take c ?ws)) (sum_list (take r ?hs)) (?ws ! c) (?hs ! r) (r * length ?ws + c)
      (sum_list (take r ?hs) * sum_list ?ws + sum_list (take c ?ws) * ?hs ! r) (ts ! (r * length ?ws + c))"
    using tile_plans_Ok [OF assms(1-4)] by blast
  obtain r c where rc: "r < length ?hs" "c < length ?ws" "i = r * length ?ws + c"
    using tile_index_pair [of i "length ?hs" "length ?ws"] assms(9) ts(2) by auto
  note tile = ts(3) [OF rc(1,2), folded rc(3)]
  have "16 * (sum_list (take c ?ws) + ?ws ! c) < 2 ^ 32" "16 * (sum_list (take r ?hs) + ?hs ! r) < 2 ^ 32"
    using prefix_le [OF rc(1)] prefix_le [OF rc(2)] grid_small [OF assms(1)] by simp_all
  then have pixel: "sum_list (take c ?ws) \<le> ?mx" "?mx < sum_list (take c ?ws) + ?ws ! c"
    "sum_list (take r ?hs) \<le> ?my" "?my < sum_list (take r ?hs) + ?hs ! r"
    using tile_region_pixel [OF _ _ _ assms(6,7,5)] tile assms(10) by (auto simp: tile_is_def split: prod.splits)
  have inside: "?mx < sum_list ?ws" "?my < sum_list ?hs"
    using grid_partitions(1,2) [OF assms(1)] assms(6,7) by (simp_all add: div_less_iff_less_mult)
  let ?k = "halo_of p info"
  have fits: "margins h ! 1 + rect_x region + rect_w region < 2 ^ 32"
    "margins h ! 0 + rect_y region + rect_h region < 2 ^ 32"
    and bounds: "bounds = ((margins h ! 1 + rect_x region) div 16 - ?k, (margins h ! 0 + rect_y region) div 16 - ?k,
      min (u32_saturating_add (div_ceil (margins h ! 1 + rect_x region + rect_w region) 16) ?k) (sum_list ?ws),
      min (u32_saturating_add (div_ceil (margins h ! 0 + rect_y region + rect_h region) 16) ?k) (sum_list ?hs))"
    using ts(1) assms(2,3,5) by (auto simp: coded_reconstruction_bounds_def reconstruction_bounds_def let_try_eq_Ok
        u32_sum_def u32_checked_def Let_def halo_of_def outcome_simps split: if_splits)
  have k: "?k \<le> 1" by (simp add: halo_of_def)
  have near: "rect_x region \<le> x + 16 * ?k" "x < rect_x region + rect_w region + 16 * ?k"
    "rect_y region \<le> y + 16 * ?k" "y < rect_y region + rect_h region + 16 * ?k"
    using assms(8) by (simp_all add: near_def)
  show ?thesis
    using tile pixel bounds_span [OF fits(1) near(1,2) inside(1) k] bounds_span [OF fits(2) near(3,4) inside(2) k]
    by (simp add: tile_is_def bounds)
qed

section \<open>Packets\<close>

lemma starts_Ok:
  "each_try (packet_start base offsets bands) is ss = Ok qs \<longleftrightarrow>
    (\<forall>i\<in>set is. i * bands < length offsets \<and> base + offsets ! (i * bands) \<le> usize_max) \<and>
    qs = ss @ map (\<lambda>i. base + offsets ! (i * bands)) is"
  by (induction "is" arbitrary: ss)
    (auto simp: packet_start_def let_try_eq_Ok usize_add_def outcome_simps)

lemma starts_no_panic:
  "\<forall>i\<in>set is. i * bands < length offsets \<Longrightarrow> each_try (packet_start base offsets bands) is ss \<noteq> Panic"
  by (induction "is" arbitrary: ss) (auto simp: packet_start_def let_try_eq_Panic usize_add_def)

lemma binary_search_Some: "binary_search xs v = Some k \<Longrightarrow> k < length xs \<and> xs ! k = v"
  by (induction xs arbitrary: k) (auto split: if_splits)

lemma binary_search_present: "v \<in> set xs \<Longrightarrow> \<exists>k. binary_search xs v = Some k"
  by (induction xs) auto

text \<open>Where the packet that starts at \<open>start\<close> ends: at the next start, or with the codestream.\<close>

definition packet_end :: "nat list \<Rightarrow> nat \<Rightarrow> nat \<Rightarrow> nat" where
  "packet_end physical codestream_end start =
     (case binary_search physical start of
        Some k \<Rightarrow> if k + 1 < length physical then physical ! (k + 1) else codestream_end
      | None \<Rightarrow> codestream_end)"

lemma packet_end_order:
  assumes "sorted xs" "distinct xs" "s \<in> set xs"
  shows "\<forall>t\<in>set xs. s < t \<longrightarrow> packet_end xs e s \<le> t" "(\<forall>t\<in>set xs. t \<le> e) \<Longrightarrow> s \<le> packet_end xs e s \<and> packet_end xs e s \<le> e"
proof -
  obtain k where k: "binary_search xs s = Some k" "k < length xs" "xs ! k = s"
    using binary_search_present [OF assms(3)] binary_search_Some by blast
  show "\<forall>t\<in>set xs. s < t \<longrightarrow> packet_end xs e s \<le> t"
  proof (intro ballI impI)
    fix t assume t: "t \<in> set xs" "s < t"
    then obtain j where j: "j < length xs" "xs ! j = t" by (auto simp: in_set_conv_nth)
    have "k < j" using sorted_nth_mono [OF assms(1), of j k] k j t(2) by (cases "j \<le> k") auto
    then show "packet_end xs e s \<le> t"
      using k j sorted_nth_mono [OF assms(1), of "k + 1" j] by (simp add: packet_end_def)
  qed
  assume le: "\<forall>t\<in>set xs. t \<le> e"
  show "s \<le> packet_end xs e s \<and> packet_end xs e s \<le> e"
  proof (cases "k + 1 < length xs")
    case True
    then have "packet_end xs e s = xs ! (k + 1)" "xs ! (k + 1) \<in> set xs" using k by (simp_all add: packet_end_def)
    then show ?thesis using sorted_nth_mono [OF assms(1), of k "k + 1"] True k le by simp
  next
    case False
    then have "packet_end xs e s = e" using k by (simp add: packet_end_def)
    then show ?thesis using le assms(3) by simp
  qed
qed

lemma packets_Ok:
  assumes "set ss \<subseteq> set xs" "e \<le> usize_max" "\<forall>t\<in>set ss. t \<le> packet_end xs e t \<and> packet_end xs e t \<le> e"
  shows "each_try (packet_of xs e) ss rs =
    Ok (rs @ map (\<lambda>s. \<lparr>range_offset = s, range_length = packet_end xs e s - s\<rparr>) ss)"
  using assms(1,3)
proof (induction ss arbitrary: rs)
  case (Cons s ss)
  then obtain k where k: "binary_search xs s = Some k" using binary_search_present by fastforce
  have le: "s \<le> packet_end xs e s" "packet_end xs e s \<le> e" using Cons.prems(2) by simp_all
  have "packet_of xs e s rs = Ok (rs @ [\<lparr>range_offset = s, range_length = packet_end xs e s - s\<rparr>])"
    using k le assms(2)
    by (simp add: packet_of_def packet_end_def Let_def byte_range_new_def usize_add_def)
  then show ?case using Cons.IH Cons.prems by simp
qed simp

lemma packet_of_only: "packet_of xs e s rs = Ok ts \<Longrightarrow> s \<le> packet_end xs e s \<and> packet_end xs e s \<le> e"
  by (cases "binary_search xs s")
    (auto simp: packet_of_def packet_end_def Let_def byte_range_new_def usize_add_def outcome_simps split: if_splits)

lemma packets_only:
  "each_try (packet_of xs e) ss rs = Ok qs \<Longrightarrow> \<forall>s\<in>set ss. s \<le> packet_end xs e s \<and> packet_end xs e s \<le> e"
  by (induction ss arbitrary: rs) (auto simp: let_try_eq_Ok dest: packet_of_only)

lemma packets_no_panic: "each_try (packet_of xs e) ss rs \<noteq> Panic"
  by (induction ss arbitrary: rs)
    (auto simp: packet_of_def let_try_eq_Panic Let_def byte_range_new_def usize_add_def split: if_splits)

definition packet_range_of :: "nat list \<Rightarrow> nat \<Rightarrow> nat \<Rightarrow> core_range" where
  "packet_range_of starts e s = \<lparr>range_offset = s, range_length = packet_end (remdups (sort starts)) e s - s\<rparr>"

definition packet_starts :: "nat \<Rightarrow> nat list \<Rightarrow> nat \<Rightarrow> nat list" where
  "packet_starts base offsets n = map (\<lambda>i. base + offsets ! (i * (length offsets div n))) [0..<n]"

lemma indexed_ranges_outcome:
  fixes base :: nat
  assumes "0 < n" "offsets \<noteq> []" "n dvd length offsets" "e \<le> usize_max" "starts = packet_starts base offsets n"
  shows "case indexed_tile_packet_ranges base e offsets n False of
      Ok rs \<Rightarrow> (\<forall>s\<in>set starts. s \<le> e) \<and> rs = map (packet_range_of starts e) starts
    | Err _ \<Rightarrow> \<exists>s\<in>set starts. e < s
    | Panic \<Rightarrow> False"
proof -
  let ?b = "length offsets div n" and ?xs = "remdups (sort starts)"
  have b: "?b \<noteq> 0" "?b * n = length offsets" using assms(1-3) by (auto simp: div_eq_0_iff dvd_div_mult_self dest: dvd_imp_le)
  have inside: "\<forall>i\<in>set [0..<n]. i * ?b < length offsets"
  proof
    fix i assume "i \<in> set [0..<n]"
    then have "i * ?b < n * ?b" using b(1) by simp
    also have "n * ?b = length offsets" using b(2) by (metis mult.commute)
    finally show "i * ?b < length offsets" .
  qed
  have step: "indexed_tile_packet_ranges base e offsets n False =
      let_try (each_try (packet_start base offsets ?b) [0..<n] []) (\<lambda>starts.
        each_try (packet_of (remdups (sort starts)) e) starts [])"
    using assms(1) b by (simp add: indexed_tile_packet_ranges_def)
  show ?thesis
  proof (cases "\<forall>s\<in>set starts. s \<le> usize_max")
    case True
    then have st: "each_try (packet_start base offsets ?b) [0..<n] [] = Ok starts"
      using inside by (subst starts_Ok) (simp add: assms(5) packet_starts_def)
    have xs: "sorted ?xs" "distinct ?xs" "set ?xs = set starts" by (simp_all add: sorted_remdups)
    show ?thesis
    proof (cases "\<forall>s\<in>set starts. s \<le> e")
      case le: True
      then have "\<forall>t\<in>set starts. t \<le> packet_end ?xs e t \<and> packet_end ?xs e t \<le> e"
        using packet_end_order(2) [OF xs(1,2)] xs(3) by blast
      then show ?thesis using packets_Ok [OF _ assms(4), of starts ?xs "[]"] st le xs(3)
        by (simp add: step packet_range_of_def)
    next
      case False
      then show ?thesis using packets_only [of ?xs e starts "[]"] packets_no_panic [of ?xs e starts "[]"] st
        by (auto simp: step not_le split: result.split) (meson le_trans not_le)+
    qed
  next
    case False
    then have "each_try (packet_start base offsets ?b) [0..<n] [] \<noteq> Ok qs" for qs
      by (subst starts_Ok) (auto simp: assms(5) packet_starts_def)
    then obtain err where "each_try (packet_start base offsets ?b) [0..<n] [] = Err err"
      using starts_no_panic [OF inside] by (cases "each_try (packet_start base offsets ?b) [0..<n] []") auto
    moreover obtain s where "s \<in> set starts" "e < s" using False assms(4) by force
    ultimately show ?thesis by (auto simp: step)
  qed
qed

section \<open>Preparation never panics\<close>

lemma packet_ranges_yield:
  assumes "codestream_ok bytes p" "length bytes \<le> usize_max"
  shows "yields (tile_packet_ranges p (directory p)) (\<lambda>rs. length rs = tiles_of (cs_headers p))"
proof -
  let ?h = "image (cs_headers p)" and ?d = "directory p" and ?n = "tiles_of (cs_headers p)"
  let ?e = "snd (primary_range p)" and ?base = "fst (primary_range p) + tile_data_offset (directory p)"
  have at: "codestream_at bytes (primary_range p) (cs_headers p) ?d"
    using assms(1) by (simp add: codestream_ok_def)
  then have dir: "length (tile_offsets ?d) = index_entries (cs_headers p)"
    "frequency_mode (flags ?h) \<or> 1 < ?n \<longrightarrow> index_table_present (flags ?h)"
    "?base \<le> ?e" "?e \<le> usize_max"
    and head: "image_header_ok ?h" "plane_header_ok (output_bit_depth ?h) (primary (cs_headers p))"
    using assms(2) by (auto simp: codestream_at_def directory_ok_def headers_ok_def in_input_def)
  have n: "?n = length (tile_widths_mb ?h) + 1 + length (tile_heights_mb ?h) * (length (tile_widths_mb ?h) + 1)"
    "0 < ?n" "?n \<le> 2 ^ 24" using tiles_bound [OF head(1)] by (simp_all add: tiles_of_def)
  have mul: "usize_mul ''tile count'' (length (tile_widths_mb ?h) + 1) (length (tile_heights_mb ?h) + 1) = Ok ?n"
    using n(3) by (simp add: usize_mul_def tiles_of_def)
  have base: "usize_plus (fst (primary_range p)) (tile_data_offset ?d) = Ok ?base"
    using dir(3,4) by (simp add: usize_plus_def)
  show ?thesis
  proof (cases "tile_offsets ?d = []")
    case True
    have "0 < 4 - bands_present (primary (cs_headers p))" using head(2) by (simp add: plane_header_ok_def)
    then have "\<not> index_table_present (flags ?h)" using dir(1) True n(2) by (auto simp: index_entries_def split: if_splits)
    then have "?n = 1" using dir(2) n(2) by linarith
    moreover have "tile_packet_ranges p ?d = Ok [\<lparr>range_offset = ?base, range_length = ?e - ?base\<rparr>]"
      using True dir(3,4)
      by (simp only: tile_packet_ranges_def Let_def mul base let_try_simps if_True)
        (simp add: usize_minus_def byte_range_new_def usize_add_def)
    ultimately show ?thesis by simp
  next
    case False
    then have dvd: "?n dvd length (tile_offsets ?d)" using dir(1) by (auto simp: index_entries_def split: if_splits)
    have step: "tile_packet_ranges p ?d =
        indexed_tile_packet_ranges ?base ?e (tile_offsets ?d) ?n (frequency_mode (flags ?h))"
      using False by (simp only: tile_packet_ranges_def Let_def mul base let_try_simps if_False)
    show ?thesis
    proof (cases "frequency_mode (flags ?h)")
      case True
      then show ?thesis using dir(3,4)
        by (simp add: step indexed_tile_packet_ranges_def Let_def byte_range_new_def usize_add_def)
    next
      case freq: False
      show ?thesis using indexed_ranges_outcome [OF n(2) False dvd dir(4) refl, of ?base] freq
        by (auto simp: step yields_def packet_starts_def split: result.splits)
    qed
  qed
qed

lemma output_region_Ok: "length (margins h) = 4 \<Longrightarrow> \<exists>r. tile_output_region h x y wd ht = Ok r"
  by (simp add: tile_output_region_def Let_def)

lemma plan_tile_no_panic:
  assumes "tw_index w < length ranges" "length (margins h) = 4"
  shows "plan_tile h hard ranges bounds ht wd w \<noteq> Panic"
proof -
  obtain x0 y0 x1 y1 where bounds: "bounds = (x0, y0, x1, y1)" by (metis surj_pair)
  obtain r where "tile_output_region h (tw_x w) (tw_y w) wd ht = Ok r" using output_region_Ok [OF assms(2)] by blast
  then show ?thesis using assms(1)
    by (simp add: plan_tile_def bounds u32_checked_def let_try_eq_Panic Let_def)
qed

lemma plan_tile_index: "plan_tile h hard ranges bounds ht wd w = Ok v \<Longrightarrow> tw_index v = tw_index w + 1"
  by (auto simp: plan_tile_def let_try_eq_Ok Let_def split: prod.splits)

lemma columns_no_panic:
  "tw_index w + length ws \<le> length ranges \<Longrightarrow> length (margins h) = 4 \<Longrightarrow>
    each_try (plan_tile h hard ranges bounds ht) ws w \<noteq> Panic"
  using plan_tile_no_panic by (induction ws arbitrary: w) (auto simp: let_try_eq_Panic dest: plan_tile_index)

lemma columns_index:
  "each_try (plan_tile h hard ranges bounds ht) ws w = Ok v \<Longrightarrow> tw_index v = tw_index w + length ws"
  by (induction ws arbitrary: w) (auto simp: let_try_eq_Ok dest!: plan_tile_index)

lemma rows_no_panic:
  "tw_index w + length hs * length (column_widths g) \<le> length ranges \<Longrightarrow> length (margins h) = 4 \<Longrightarrow>
    each_try (plan_row h g ranges bounds) hs w \<noteq> Panic"
proof (induction hs arbitrary: w)
  case (Cons ht hs)
  have "plan_row h g ranges bounds ht w \<noteq> Panic"
    using columns_no_panic [of "w\<lparr>tw_x := 0\<rparr>" "column_widths g" ranges h] Cons.prems
    by (simp add: plan_row_def let_try_eq_Panic)
  moreover have "each_try (plan_row h g ranges bounds) hs v \<noteq> Panic" if "plan_row h g ranges bounds ht w = Ok v" for v
  proof (rule Cons.IH)
    have "tw_index v = tw_index w + length (column_widths g)"
      using that columns_index by (fastforce simp: plan_row_def let_try_eq_Ok)
    then show "tw_index v + length hs * length (column_widths g) \<le> length ranges" using Cons.prems(1) by simp
  qed (rule Cons.prems(2))
  ultimately show ?case by (auto simp: let_try_eq_Panic)
qed simp

lemma row_bytes_no_panic [simp]: "row_bytes_for_channels f c n \<noteq> Panic" "row_bytes f c \<noteq> Panic"
  by (auto simp: row_bytes_def row_bytes_for_channels_def usize_mul_def usize_add_def let_try_eq_Panic
      split: storage_kind.splits if_splits)

lemma usize_no_panic [simp]: "usize_mul s a b \<noteq> Panic" "usize_add s a b \<noteq> Panic" "u32_checked s n \<noteq> Panic"
  "byte_range_new a n m \<noteq> Panic"
  by (simp_all add: usize_mul_def usize_add_def u32_checked_def byte_range_new_def let_try_eq_Panic)

lemma host_output_no_panic: "host_output_bytes f color al region \<noteq> Panic"
  by (simp add: host_output_bytes_def Let_def let_try_eq_Panic)

lemma native_region_no_panic: "native_output_region r scale \<noteq> Panic"
  by (simp add: native_output_region_def Let_def let_try_eq_Panic)

lemma validate_request_no_panic: "validate_request n p info req \<noteq> Panic"
  by (simp add: validate_request_def Let_def let_try_eq_Panic grid_tile_count_def validate_native_scale_def)

lemma sums_Ok:
  assumes "grid_describable h"
  shows "u32_sum (column_widths (grid_of h)) = Ok (sum_list (column_widths (grid_of h)))"
    "u32_sum (row_heights (grid_of h)) = Ok (sum_list (row_heights (grid_of h)))"
  using grid_small [OF assms] by (simp_all add: u32_sum_def)

lemma bounds_no_panic:
  assumes "grid_describable (image (cs_headers p))" "ii_tiles info = grid_of (image (cs_headers p))"
    and "length (margins (image (cs_headers p))) = 4"
  shows "coded_reconstruction_bounds p info region \<noteq> Panic"
  using assms by (simp add: coded_reconstruction_bounds_def sums_Ok Let_def reconstruction_bounds_def let_try_eq_Panic)

lemma grid_lengths:
  "length (row_heights (grid_of (image h))) * length (column_widths (grid_of (image h))) = tiles_of h"
  by (simp add: grid_of_def tiles_of_def algebra_simps)

lemma tile_plans_no_panic:
  assumes "codestream_ok bytes p" "length bytes \<le> usize_max" "grid_describable (image (cs_headers p))"
    and "ii_tiles info = grid_of (image (cs_headers p))" "length (margins (image (cs_headers p))) = 4"
  shows "tile_plans p info region \<noteq> Panic"
proof -
  note ranges = packet_ranges_yield [OF assms(1,2)]
  have "each_try (plan_row (image (cs_headers p)) (ii_tiles info) rs bounds) (row_heights (ii_tiles info))
      \<lparr>tw_plans = [], tw_start = 0, tw_x = 0, tw_y = 0, tw_index = 0\<rparr> \<noteq> Panic"
    if "tile_packet_ranges p (directory p) = Ok rs" for rs bounds
    using rows_no_panic [of _ "row_heights (ii_tiles info)" "ii_tiles info" rs] yieldsD(2) [OF ranges that] assms(4,5)
      grid_lengths [of "cs_headers p"] by simp
  then show ?thesis
    using yieldsD(1) [OF ranges] bounds_no_panic [OF assms(3-5)] by (simp add: tile_plans_def let_try_eq_Panic)
qed

lemma plane_color_bound:
  assumes "plane_header_ok d plane" "plane_info_of h plane = Ok info"
  shows "\<exists>n. component_count (pi_color_format info) = Some n \<and> n \<le> 4112"
proof -
  have "1 \<le> components plane" "components plane \<le> 4112" using assms(1) by (simp_all add: plane_header_ok_def)
  then have "internal_color (internal_color_format plane) (components plane) = Ok c \<Longrightarrow>
      \<exists>n. component_count c = Some n \<and> n \<le> 4112" for c
    by (auto simp: internal_color_def split: if_splits)
  then show ?thesis using assms(2) by (auto simp: plane_info_of_def let_try_eq_Ok)
qed

lemma alpha_color_bound:
  assumes "codestream_ok bytes p" "alpha_info p (image (cs_headers p)) = Ok (mode, Some a)"
  shows "\<exists>n. component_count (pi_color_format a) = Some n \<and> n \<le> 4112"
proof (cases "separate_alpha_headers p")
  case None
  then obtain x where x: "alpha (cs_headers p) = Some x" "plane_info_of (image (cs_headers p)) x = Ok a"
    using assms(2) by (auto simp: alpha_info_def let_try_eq_Ok split: option.splits)
  have "plane_header_ok (output_bit_depth (image (cs_headers p))) x"
    using assms(1) x(1) by (auto simp: codestream_ok_def codestream_at_def headers_ok_def split: option.splits)
  then show ?thesis using plane_color_bound x(2) by blast
next
  case (Some h)
  then have "plane_header_ok (output_bit_depth (image h)) (case alpha h of Some a \<Rightarrow> a | None \<Rightarrow> primary h)"
    using assms(1) by (auto simp: codestream_ok_def codestream_at_def headers_ok_def split: option.splits)
  moreover have "plane_info_of (image h) (case alpha h of Some a \<Rightarrow> a | None \<Rightarrow> primary h) = Ok a"
    using assms(2) Some by (auto simp: alpha_info_def let_try_eq_Ok Let_def)
  ultimately show ?thesis using plane_color_bound by blast
qed

lemma planned_coefficients_yield:
  "component_count c = Some n \<Longrightarrow> n \<le> 4112 \<Longrightarrow> yields (planned_coefficients c b) (\<lambda>m. m \<le> 2 ^ 21)"
proof -
  assume c: "component_count c = Some n" "n \<le> 4112"
  define f where "f = band_coefficient_count b (Suc 0) 16 256"
  have bands: "f \<le> 256" "band_coefficient_count b (Suc 0) 4 64 \<le> 64" "band_coefficient_count b (Suc 0) 8 128 \<le> 128"
    by (cases b; simp add: f_def band_coefficient_count_def)+
  have "n * f \<le> 4112 * 256" using c(2) bands(1) by (intro mult_le_mono)
  moreover have "planned_coefficients (ColorYuv s) b = Ok m \<Longrightarrow> m \<le> 768" for s m
    using bands by (cases s) (simp_all add: planned_coefficients_def f_def [symmetric])
  ultimately show ?thesis using c(1) bands
    by (cases c) (auto simp: planned_coefficients_def f_def [symmetric] usize_mul_def yields_def
        split: if_splits result.splits chroma_sampling.splits)
qed

lemma coefficient_bytes_no_panic:
  assumes "component_count (pi_color_format (ii_primary info)) = Some n" "n \<le> 4112"
    and "\<forall>a\<in>set_option (ii_alpha info). \<exists>m. component_count (pi_color_format a) = Some m \<and> m \<le> 4112"
  shows "coefficient_bytes info al macroblocks scale \<noteq> Panic"
proof -
  have "yields (if al then (case ii_alpha info of
      Some a \<Rightarrow> planned_coefficients (pi_color_format a) (retained_bands scale (pi_bands a)) | None \<Rightarrow> Ok 0)
      else Ok 0) (\<lambda>m. m \<le> 2 ^ 21)"
    using assms(3) planned_coefficients_yield by (auto split: option.splits)
  moreover have "yields (planned_coefficients (pi_color_format (ii_primary info))
      (retained_bands scale (pi_bands (ii_primary info)))) (\<lambda>m. m \<le> 2 ^ 21)"
    by (rule planned_coefficients_yield [OF assms(1,2)])
  moreover have plus: "a \<le> 2 ^ 21 \<Longrightarrow> b \<le> 2 ^ 21 \<Longrightarrow> usize_plus a b \<noteq> Panic" for a b
    by (simp add: usize_plus_def)
  ultimately show ?thesis
    by (auto simp: coefficient_bytes_def let_try_eq_Panic plus dest: yieldsD)
qed

lemma selected_no_panic: "each_try add_selected ts n \<noteq> Panic"
  by (induction ts arbitrary: n) (simp_all add: add_selected_def let_try_eq_Panic)

lemma plane_plan_no_panic:
  "grid_describable h \<Longrightarrow> ii_tiles info = grid_of h \<Longrightarrow> plane_plan_of info n \<noteq> Panic"
  by (simp add: plane_plan_of_def sums_Ok)

end
