(* ===== verification/Prepared_Plan.thy ===== *)
theory Prepared_Plan
  imports Tile_Grid
begin

text \<open>
  The theorems about \<open>prepare_plan\<close>: it returns for every parsed file and every request; the tiles of a
  prepared plan divide the image and those near the requested region are marked; packets of different
  tiles share no byte. The external function \<open>within\<close> of the rectangle type enters with the one law
  that the code relies on: a rectangle within dimensions ends inside them.
\<close>

definition within_law :: "(rect \<Rightarrow> nat \<times> nat \<Rightarrow> bool) \<Rightarrow> bool" where
  "within_law within \<longleftrightarrow> (\<forall>r W H. within r (W, H) \<longrightarrow> rect_x r + rect_w r \<le> W \<and> rect_y r + rect_h r \<le> H)"

text \<open>What the plan of a request promises.\<close>

definition covers :: "parsed_codestream \<Rightarrow> prepared_plan \<Rightarrow> bool" where
  "covers p plan \<longleftrightarrow> (\<forall>x<width (image (cs_headers p)). \<forall>y<height (image (cs_headers p)).
     (\<exists>!i. i < length (pl_tiles plan) \<and> in_rect (tile_region (pl_tiles plan ! i)) x y) \<and>
     (\<forall>t\<in>set (pl_tiles plan). in_rect (tile_region t) x y \<longrightarrow>
        near (16 * halo_of p (pl_info plan)) (pl_output_region plan) x y \<longrightarrow> required_for_reconstruction t) \<and>
     (in_rect (pl_output_region plan) x y \<longrightarrow>
        in_rect (pl_decoded_region plan) (x div denominator (pl_scale plan)) (y div denominator (pl_scale plan))))"

lemma scaled_span: "0 < d \<Longrightarrow> a \<le> x \<Longrightarrow> x < a + w \<Longrightarrow>
    a div d \<le> x div d \<and> x div d < a div d + (div_ceil (a + w) d - a div d)" for a :: nat
proof -
  assume a: "0 < d" "a \<le> x" "x < a + w"
  have "x + d \<le> a + w + d - 1" using a by simp
  then have "(x + d) div d \<le> div_ceil (a + w) d" unfolding div_ceil_def by (rule div_le_mono)
  moreover have "(x + d) div d = x div d + 1" using a(1) by (simp add: div_add_self2)
  ultimately have "x div d < div_ceil (a + w) d" by simp
  moreover have "a div d \<le> x div d" using a(2) by (rule div_le_mono)
  ultimately show ?thesis by simp
qed

lemma scaled_region:
  assumes "native_output_region r scale = Ok s" "in_rect r x y"
  shows "in_rect s (x div denominator scale) (y div denominator scale)"
proof -
  have "0 < denominator scale" by (cases scale) simp_all
  note spans = scaled_span [OF this, of "rect_x r" x "rect_w r"] scaled_span [OF this, of "rect_y r" y "rect_h r"]
  have "s = \<lparr>rect_x = rect_x r div denominator scale, rect_y = rect_y r div denominator scale,
      rect_w = div_ceil (rect_x r + rect_w r) (denominator scale) - rect_x r div denominator scale,
      rect_h = div_ceil (rect_y r + rect_h r) (denominator scale) - rect_y r div denominator scale\<rparr>"
    using assms(1) by (auto simp: native_output_region_def u32_checked_def Let_def split: if_splits)
  then show ?thesis using assms(2) spans by (simp add: in_rect_def)
qed

lemma map_err_Ok: "map_err f r = Ok v \<longleftrightarrow> r = Ok v"
  by (cases r) simp_all

text \<open>The construction behind the guards, once the metadata stands.\<close>

lemma prepare_plan_Ok:
  assumes "prepare_plan full within n p request = Ok plan"
  shows "\<exists>info. image_info_of p = Ok info \<and> pl_info plan = info \<and> tile_plans p info (pl_output_region plan) = Ok (pl_tiles plan) \<and>
    native_output_region (pl_output_region plan) (pl_scale plan) = Ok (pl_decoded_region plan) \<and>
    within (pl_output_region plan) (dimensions info) \<and>
    0 < rect_w (pl_output_region plan) \<and> 0 < rect_h (pl_output_region plan) \<and>
    pl_scale plan = dr_scale request \<and>
    pl_output_region plan = (case dr_region request of Some r \<Rightarrow> r | None \<Rightarrow> full (dimensions info))"
  using assms by (auto simp: prepare_plan_def let_try_eq_Ok Let_def map_err_Ok cong: option.case_cong split: if_splits)

lemma prepare_plan_no_panic:
  assumes "codestream_ok bytes p" "length bytes \<le> usize_max"
  shows "prepare_plan full within n p request \<noteq> Panic"
proof -
  have head: "length (margins (image (cs_headers p))) = 4"
    "plane_header_ok (output_bit_depth (image (cs_headers p))) (primary (cs_headers p))"
    using assms(1) by (auto simp: codestream_ok_def codestream_at_def headers_ok_def image_header_ok_def)
  show ?thesis
  proof (cases "image_info_of p")
    case (Ok info)
    then have info: "describable p" "describes info p" using image_info_outcome [OF assms(2,1)] by simp_all
    then have g: "grid_describable (image (cs_headers p))" "ii_tiles info = grid_of (image (cs_headers p))"
      by (simp_all add: describable_def describes_def)
    obtain c where c: "component_count (pi_color_format (ii_primary info)) = Some c" "c \<le> 4112"
      using info(2) head(2) by (auto simp: describes_def plane_header_ok_def)
    have "\<forall>a\<in>set_option (ii_alpha info). \<exists>m. component_count (pi_color_format a) = Some m \<and> m \<le> 4112"
    proof -
      obtain mode where "alpha_info p (image (cs_headers p)) = Ok (mode, ii_alpha info)"
        using Ok by (auto simp: image_info_of_def let_try_eq_Ok Let_def outcome_simps split: prod.splits if_splits)
      then show ?thesis using alpha_color_bound [OF assms(1)] by (cases "ii_alpha info") auto
    qed
    note parts = coefficient_bytes_no_panic [OF c this] tile_plans_no_panic [OF assms g head(1)]
      plane_plan_no_panic [OF g] validate_request_no_panic host_output_no_panic native_region_no_panic
      selected_no_panic
    show ?thesis
      by (auto simp: prepare_plan_def Ok let_try_eq_Panic Let_def parts)
  qed (use image_info_outcome [OF assms(2,1)] in \<open>auto simp: prepare_plan_def\<close>)
qed

lemma planned_tiles_cover:
  assumes "codestream_ok bytes p" "length bytes \<le> usize_max" "prepare_plan full within n p request = Ok plan"
  shows "covers p plan"
proof -
  obtain info where info: "image_info_of p = Ok info" "pl_info plan = info"
    "tile_plans p info (pl_output_region plan) = Ok (pl_tiles plan)"
    "native_output_region (pl_output_region plan) (pl_scale plan) = Ok (pl_decoded_region plan)"
    using prepare_plan_Ok [OF assms(3)] by blast
  have "describable p \<and> describes info p" using image_info_outcome [OF assms(2,1)] info(1) by simp
  then have g: "grid_describable (image (cs_headers p))" "ii_tiles info = grid_of (image (cs_headers p))"
    by (simp_all add: describable_def describes_def)
  have head: "length (margins (image (cs_headers p))) = 4"
    using assms(1) by (auto simp: codestream_ok_def codestream_at_def headers_ok_def image_header_ok_def)
  show ?thesis
    unfolding covers_def
    using tiles_partition [OF g(1) refl g(2) info(3) head] scaled_region [OF info(4)]
      needed_tiles_required [OF g(1) refl g(2) info(3) head, folded info(2)]
    by (auto simp: in_set_conv_nth)
qed

text \<open>
  C4: preparation returns, and its plan covers the image. For every file that parses and every request,
  plan preparation never panics. When it returns a plan, the output region is not empty and lies in
  the image, every pixel of the image is in the output region of exactly one tile, a tile is marked as
  required when it holds a pixel of the requested region or one within the overlap halo around it, and
  every requested pixel is shown by a pixel of the decoded region at the requested scale.
\<close>

theorem prepared_plans_cover:
  assumes "readable bytes" "parse_codestream bytes = Ok p" "within_law within"
  shows "case prepare_plan full within (length bytes) p request of
      Panic \<Rightarrow> False
    | Err e \<Rightarrow> True
    | Ok plan \<Rightarrow> covers p plan \<and> pl_output_region plan =
        (case dr_region request of Some r \<Rightarrow> r | None \<Rightarrow> full (dimensions (pl_info plan))) \<and>
        0 < rect_w (pl_output_region plan) \<and> 0 < rect_h (pl_output_region plan) \<and>
        rect_x (pl_output_region plan) + rect_w (pl_output_region plan) \<le> width (image (cs_headers p)) \<and>
        rect_y (pl_output_region plan) + rect_h (pl_output_region plan) \<le> height (image (cs_headers p))"
proof -
  have ok: "codestream_ok bytes p" "length bytes \<le> usize_max"
    using yieldsD(2) [OF parse_codestream_yields [OF assms(1)] assms(2)] assms(1) by (simp_all add: readable_def)
  show ?thesis
  proof (cases "prepare_plan full within (length bytes) p request")
    case (Ok plan)
    obtain info where info: "image_info_of p = Ok info" "pl_info plan = info"
      "within (pl_output_region plan) (dimensions info)" "0 < rect_w (pl_output_region plan)"
      "0 < rect_h (pl_output_region plan)" "pl_output_region plan =
        (case dr_region request of Some r \<Rightarrow> r | None \<Rightarrow> full (dimensions info))"
      using prepare_plan_Ok [OF Ok] by blast
    have "dimensions info = (width (image (cs_headers p)), height (image (cs_headers p)))"
      using image_info_outcome [OF ok(2,1)] info(1) by (simp add: describes_def)
    moreover have "pl_output_region plan =
        (case dr_region request of Some r \<Rightarrow> r | None \<Rightarrow> full (dimensions (pl_info plan)))"
      unfolding info(2) by (rule info(6))
    ultimately show ?thesis
      using info(3-5) assms(3) planned_tiles_cover [OF ok Ok] by (simp add: Ok within_law_def)
  qed (use prepare_plan_no_panic [OF ok, of full within "length bytes" request] in simp_all)
qed

lemma sample_parsed: "parse_codestream sample_payload = Ok \<lparr>primary_range = (0, 22), cs_headers = sample_header,
    directory = \<lparr>tile_offsets = [], profile_levels = [], tile_data_offset = 22\<rparr>,
    separate_alpha_headers = None, separate_alpha_directory = None, annex_a = None\<rparr>"
proof -
  have "starts_with sample_payload RAW_SIGNATURE"
    by (simp add: starts_with_def RAW_SIGNATURE_def sample_payload_def sample_bytes_def)
  then have "raw_parse sample_payload sample_header \<lparr>tile_offsets = [], profile_levels = [], tile_data_offset = 22\<rparr>"
    using sample_headers sample_directory by (simp add: raw_parse_iff)
  moreover have "length sample_payload = 22" by (simp add: sample_payload_def sample_bytes_def)
  ultimately show ?thesis by (simp add: raw_parse_def)
qed

definition sample_plan :: "(jxr_error, prepared_plan) result" where
  "sample_plan = let_try (map_err native_plan_error (parse_codestream sample_payload)) (\<lambda>p.
     prepare_plan (\<lambda>(W, H). \<lparr>rect_x = 0, rect_y = 0, rect_w = W, rect_h = H\<rparr>)
       (\<lambda>r (W, H). rect_x r + rect_w r \<le> W \<and> rect_y r + rect_h r \<le> H) 22 p
       (decode_request_new () (PixelU8 LayoutLuma)))"

lemmas info_defs = image_info_of_def plane_info_of_def internal_color_def sample_format_of_def band_presence_of_def
  overlap_mode_of_def alpha_info_def profile_and_level_def tile_grid_of_def extended_dimension_def complete_tiles_def
  add_tile_def metadata_of_def orientation_value_def orientation_of_def validate_consistency_def
  source_is_premultiplied_def

lemmas plan_defs = prepare_plan_def validate_request_def validate_native_scale_def native_output_region_def
  host_output_bytes_def row_bytes_def row_bytes_for_channels_def plane_plan_of_def tile_plans_def
  tile_packet_ranges_def coded_reconstruction_bounds_def reconstruction_bounds_def plan_row_def plan_tile_def
  tile_output_region_def coefficient_bytes_def planned_coefficients_def band_coefficient_count_def add_selected_def
  u32_checked_def u32_sum_def usize_plus_def usize_minus_def byte_range_new_def usize_add_def usize_mul_def
  div_ceil_def u32_saturating_add_def u32_saturating_mul_def dimensions_def grid_tile_count_def
  should_prepare_alpha_def

lemma sample_flags: "hard_tiling 16 = False" "frequency_mode 16 = False" "short_header 16 = True" "long_word 16 = False"
  "premultiplied_alpha 16 = False"
  by (simp_all add: hard_tiling_def frequency_mode_def short_header_def long_word_def premultiplied_alpha_def)

definition sample_info :: image_info where
  "sample_info = \<lparr>ii_width = 33, ii_height = 16, ii_profile = Some Advanced, ii_level = Some 255,
     ii_primary = \<lparr>pi_color_format = ColorLuma, pi_sample_format = SampleUnsigned 8, pi_bands = NoFlexbits,
       pi_bitstream_mode = Spatial, pi_overlap = OverlapOne, pi_short_header = True, pi_long_word = False,
       pi_scaled = True, pi_chroma_centering = (0, 0), pi_shift_bits = 0, pi_mantissa_length = 0,
       pi_exponent_bias = 0, pi_width = 33, pi_height = 16\<rparr>,
     ii_alpha_mode = AlphaNone, ii_premultiplied_alpha = False, ii_alpha = None,
     ii_tiles = \<lparr>column_widths = [3], row_heights = [1], hard_tiles = False\<rparr>,
     ii_metadata = \<lparr>im_orientation = Identity, im_icc_profile = None, im_container_pixel_format = None,
       im_annex_a_pixel_format = None\<rparr>\<rparr>"

lemma sample_described: "image_info_of \<lparr>primary_range = (0, 22), cs_headers = sample_header,
    directory = \<lparr>tile_offsets = [], profile_levels = [], tile_data_offset = 22\<rparr>,
    separate_alpha_headers = None, separate_alpha_directory = None, annex_a = None\<rparr> = Ok sample_info"
  by (simp add: info_defs sample_header_def sample_flags sample_info_def Let_def)

lemma sample_planned: "\<exists>plan. sample_plan = Ok plan \<and> map tile_region (pl_tiles plan) =
    [\<lparr>rect_x = 0, rect_y = 0, rect_w = 33, rect_h = 16\<rparr>] \<and> pl_coefficient_bytes plan = 3072"
  unfolding sample_plan_def sample_parsed map_err_simps let_try_simps prepare_plan_def sample_described
  by (simp add: plan_defs sample_header_def sample_flags sample_info_def Let_def decode_request_new_def
      default_limits_def check_compressed_bytes_def check_dimensions_def check_components_def check_tiles_def
      check_coefficient_bytes_def check_host_allocation_bytes_def check_limit_def retained_bands_def)

lemma prepared_plans_cover_witness: "\<exists>plan. sample_plan = Ok plan \<and> rect_w (pl_output_region plan) \<le> 33"
proof -
  have "readable sample_payload" "length sample_payload = 22"
    by (simp_all add: readable_def sample_payload_def sample_bytes_def)
  moreover have "within_law (\<lambda>r (W, H). rect_x r + rect_w r \<le> W \<and> rect_y r + rect_h r \<le> H)"
    by (simp add: within_law_def)
  moreover obtain plan where "sample_plan = Ok plan" using sample_planned by blast
  ultimately show ?thesis
    using prepared_plans_cover [OF _ sample_parsed,
        of "\<lambda>r (W, H). rect_x r + rect_w r \<le> W \<and> rect_y r + rect_h r \<le> H"
          "\<lambda>(W, H). \<lparr>rect_x = 0, rect_y = 0, rect_w = W, rect_h = H\<rparr>" "decode_request_new () (PixelU8 LayoutLuma)"]
    by (auto simp: sample_plan_def sample_parsed sample_header_def)
qed

lemma packet_end_among: "packet_end xs e s = e \<or> packet_end xs e s \<in> set xs"
  by (auto simp: packet_end_def Let_def split: option.split)

text \<open>Each packet starts at its entry and ends at the next start.\<close>

lemma packet_ranges_end:
  assumes "i < length starts" "packet = packet_range_of starts e (starts ! i)" "\<forall>s\<in>set starts. s \<le> e"
  shows "range_offset packet = starts ! i" "range_offset packet + range_length packet \<le> e"
    and "range_offset packet + range_length packet = e \<or> range_offset packet + range_length packet \<in> set starts"
    and "\<And>t. t \<in> set starts \<Longrightarrow> starts ! i < t \<Longrightarrow> range_offset packet + range_length packet \<le> t"
proof -
  let ?sorted = "remdups (sort starts)"
  have sorted: "sorted ?sorted" "distinct ?sorted" "set ?sorted = set starts" by (simp_all add: sorted_remdups)
  have "starts ! i \<in> set ?sorted" using assms(1) sorted(3) by simp
  note order = packet_end_order [OF sorted(1,2) this, of e, unfolded sorted(3)]
  show offset: "range_offset packet = starts ! i" by (simp add: assms(2) packet_range_of_def)
  have stop: "range_offset packet + range_length packet = packet_end ?sorted e (starts ! i)"
    using order(2) assms by (simp add: packet_range_of_def)
  show "range_offset packet + range_length packet \<le> e" unfolding stop using order(2) assms by simp
  show "range_offset packet + range_length packet = e \<or> range_offset packet + range_length packet \<in> set starts"
    unfolding stop using packet_end_among [of ?sorted e "starts ! i"] sorted(3) by auto
  show "range_offset packet + range_length packet \<le> t" if "t \<in> set starts" "starts ! i < t" for t
    unfolding stop using order(1) that by blast
qed

text \<open>
  C36: packets are shared whole or not at all. When a spatial codestream has an index table, each tile gets
  the packet at its index entry, and every packet ends inside the codestream. Tiles with equal entries get
  the same packet; packets at different entries share no byte, each ending at the next entry or at
  the end of the codestream. The only failure is an entry behind the end of the codestream. Nothing
  panics, for whatever order the entries are in.
\<close>

theorem packets_do_not_overlap:
  assumes "0 < n" "offsets \<noteq> []" "n dvd length offsets" "e \<le> usize_max"
  shows "case indexed_tile_packet_ranges base e offsets n False of
      Panic \<Rightarrow> False
    | Err _ \<Rightarrow> \<exists>i<n. e < base + offsets ! (i * (length offsets div n))
    | Ok ranges \<Rightarrow> length ranges = n \<and>
        (\<forall>i<n. range_offset (ranges ! i) = base + offsets ! (i * (length offsets div n)) \<and>
           range_offset (ranges ! i) + range_length (ranges ! i) \<le> e \<and>
           (range_offset (ranges ! i) + range_length (ranges ! i) = e \<or>
            (\<exists>j<n. range_offset (ranges ! i) + range_length (ranges ! i) = range_offset (ranges ! j))) \<and>
          (\<forall>j<n. (range_offset (ranges ! i) = range_offset (ranges ! j) \<longrightarrow> ranges ! i = ranges ! j) \<and>
             (range_offset (ranges ! i) < range_offset (ranges ! j) \<longrightarrow>
                range_offset (ranges ! i) + range_length (ranges ! i) \<le> range_offset (ranges ! j))))"
proof -
  let ?starts = "packet_starts base offsets n" and ?b = "length offsets div n"
  note outcome = indexed_ranges_outcome [OF assms refl, of base]
  have starts: "length ?starts = n" "\<And>i. i < n \<Longrightarrow> ?starts ! i = base + offsets ! (i * ?b)"
    "set ?starts = (\<lambda>i. base + offsets ! (i * ?b)) ` {..<n}"
    by (auto simp: packet_starts_def)
  show ?thesis
  proof (cases "indexed_tile_packet_ranges base e offsets n False")
    case (Ok ranges)
    then have r: "\<forall>s\<in>set ?starts. s \<le> e" "ranges = map (packet_range_of ?starts e) ?starts" using outcome by simp_all
    have at: "ranges ! i = packet_range_of ?starts e (?starts ! i)" "i < length ?starts" if "i < n" for i
      using that r(2) starts(1) by simp_all
    note ends = packet_ranges_end [OF at(2,1) r(1)]
    have mem: "?starts ! j \<in> set ?starts" if "j < n" for j using that starts(1) by (metis nth_mem)
    have "range_offset (ranges ! i) + range_length (ranges ! i) = e \<or>
        (\<exists>j<n. range_offset (ranges ! i) + range_length (ranges ! i) = range_offset (ranges ! j))" if "i < n" for i
      using ends(3) [OF that that] ends(1) starts(1) by (metis in_set_conv_nth)
    moreover have "\<forall>i<n. \<forall>j<n. range_offset (ranges ! i) = range_offset (ranges ! j) \<longrightarrow> ranges ! i = ranges ! j"
      using ends(1) at(1) by metis
    moreover have "\<forall>i<n. \<forall>j<n. range_offset (ranges ! i) < range_offset (ranges ! j) \<longrightarrow>
        range_offset (ranges ! i) + range_length (ranges ! i) \<le> range_offset (ranges ! j)"
      using ends(1,4) mem by metis
    moreover have "\<forall>i<n. range_offset (ranges ! i) = base + offsets ! (i * ?b) \<and> range_offset (ranges ! i) + range_length (ranges ! i) \<le> e"
      using ends(1,2) starts(2) by metis
    moreover have "length ranges = n" using r(2) starts(1) by simp
    ultimately show ?thesis unfolding Ok result.case by blast
  next
    case (Err err)
    then show ?thesis using outcome starts(3) by auto
  qed (use outcome in simp)
qed

lemma packets_do_not_overlap_witness: "indexed_tile_packet_ranges 10 50 [20, 0] 2 False =
    Ok [\<lparr>range_offset = 30, range_length = 20\<rparr>, \<lparr>range_offset = 10, range_length = 20\<rparr>]"
proof -
  have "indexed_tile_packet_ranges 10 50 [20, 0] 2 False \<noteq> Panic"
    using packets_do_not_overlap [of 2 "[20, 0]" 50 10] by auto
  moreover have "[0..<2] = [0, 1 :: nat]" by (simp add: numeral_2_eq_2)
  ultimately show ?thesis
    by (simp add: indexed_tile_packet_ranges_def packet_start_def packet_of_def byte_range_new_def usize_add_def Let_def)
qed

end
