(* ===== verification/Tile_Layout.thy ===== *)
theory Tile_Layout
  imports Prepared_Plan
begin

text \<open>
  What tile decoding does before and around its packets (\<open>crates/jxr-native/src/tile_decode/mod.rs\<close>):
  the layout of the component planes, the size of the coefficient arena, the locations of the tiles, the
  scope checks and the slice of a packet. The theorem ties the arena to the budget of plan preparation.
\<close>

section \<open>Definitions\<close>

definition validate_tile_count :: "prepared_plan \<Rightarrow> (tile_decode_error, unit) result" where
  "validate_tile_count plan =
     (let grid = ii_tiles (pl_info plan); n = length (column_widths grid) * length (row_heights grid) in
      if usize_max < n then Err (ArithmeticOverflow ''tile count'')
      else if length (pl_tiles plan) \<noteq> n then Err (InvalidPlan ''tile count'')
      else Ok ())"

definition component_layout :: "parsed_codestream \<Rightarrow> prepared_plan \<Rightarrow> nat \<Rightarrow> plane_layout" where
  "component_layout parsed plan component =
     (let coded = ii_primary (pl_info plan);
          geometry = (if component < components (primary (cs_headers parsed))
            then component_geometry_of (pi_color_format coded) component
            else \<lparr>geometry_columns = 4, geometry_rows = 4\<rparr>);
          available = (if component < components (primary (cs_headers parsed)) then pi_bands coded
            else case ii_alpha (pl_info plan) of Some a \<Rightarrow> pi_bands a | None \<Rightarrow> pi_bands coded)
      in \<lparr>layout_geometry = geometry,
          layout_coefficients = coefficients_per_macroblock (retained_bands (pl_scale plan) available)
            (geometry_blocks geometry)\<rparr>)"

definition plane_layouts :: "parsed_codestream \<Rightarrow> prepared_plan \<Rightarrow> plane_layout list" where
  "plane_layouts parsed plan =
     map (component_layout parsed plan)
       [0..<components (primary (cs_headers parsed)) + of_bool (alpha (cs_headers parsed) \<noteq> None)]"

definition tile_usize_add :: "string \<Rightarrow> nat \<Rightarrow> nat \<Rightarrow> (tile_decode_error, nat) result" where
  "tile_usize_add operation a b = (if usize_max < a + b then Err (ArithmeticOverflow operation) else Ok (a + b))"

definition tile_usize_mul :: "string \<Rightarrow> nat \<Rightarrow> nat \<Rightarrow> (tile_decode_error, nat) result" where
  "tile_usize_mul operation a b = (if usize_max < a * b then Err (ArithmeticOverflow operation) else Ok (a * b))"

definition add_plane_macroblocks :: "tile_plan \<Rightarrow> nat \<Rightarrow> (tile_decode_error, nat) result" where
  "add_plane_macroblocks tile n = tile_usize_add ''plane macroblock count'' n (macroblock_count tile)"

definition add_layout :: "plane_layout \<Rightarrow> nat \<Rightarrow> (tile_decode_error, nat) result" where
  "add_layout layout n = tile_usize_add ''coefficient arena size'' n (layout_coefficients layout)"

text \<open>The numbers of coefficients and of macroblocks of all components.\<close>

definition arena_capacity :: "prepared_plan \<Rightarrow> plane_layout list \<Rightarrow> (tile_decode_error, nat \<times> nat) result" where
  "arena_capacity plan layouts =
     let_try (each_try add_plane_macroblocks (filter required_for_reconstruction (pl_tiles plan)) 0) (\<lambda>macroblocks.
     let_try (tile_usize_mul ''component macroblock count'' macroblocks (length layouts)) (\<lambda>n.
     let_try (each_try add_layout layouts 0) (\<lambda>per_macroblock.
     let_try (tile_usize_mul ''coefficient arena size'' macroblocks per_macroblock) (\<lambda>coefficients.
     Ok (coefficients, n)))))"

definition coefficient_count :: "parsed_codestream \<Rightarrow> prepared_plan \<Rightarrow> (tile_decode_error, nat) result" where
  "coefficient_count parsed plan =
     let_try (arena_capacity plan (plane_layouts parsed plan)) (\<lambda>(coefficients, macroblocks). Ok coefficients)"

text \<open>The variables of the location loops: the locations, \<open>global_x\<close> and \<open>global_y\<close>.\<close>

type_synonym location_walk = "tile_location list \<times> nat \<times> nat"

definition locate_tile :: "parsed_codestream \<Rightarrow> bool \<Rightarrow> nat \<Rightarrow> nat \<Rightarrow> location_walk \<Rightarrow>
    (tile_decode_error, location_walk) result" where
  "locate_tile parsed hard tile_height tile_width = (\<lambda>(locations, x, y).
     let_try (index_or_panic (margins (image (cs_headers parsed))) 1) (\<lambda>left.
     let_try (index_or_panic (margins (image (cs_headers parsed))) 0) (\<lambda>upper.
     let_try (u32_add_or ''tile x origin'' x tile_width) (\<lambda>x'.
     Ok (locations @ [\<lparr>global_x = x, global_y = y, location_width = tile_width,
       location_height = tile_height, location_hard = hard, margin_left = left, margin_top = upper\<rparr>], x', y)))))"

definition locate_row :: "parsed_codestream \<Rightarrow> tile_grid \<Rightarrow> nat \<Rightarrow> location_walk \<Rightarrow>
    (tile_decode_error, location_walk) result" where
  "locate_row parsed grid tile_height = (\<lambda>(locations, x, y).
     let_try (each_try (locate_tile parsed (hard_tiles grid) tile_height) (column_widths grid) (locations, 0, y))
       (\<lambda>(locations, x, y).
     let_try (u32_add_or ''tile y origin'' y tile_height) (\<lambda>y'. Ok (locations, x, y'))))"

definition tile_locations ::
  "parsed_codestream \<Rightarrow> prepared_plan \<Rightarrow> (tile_decode_error, tile_location list) result" where
  "tile_locations parsed plan =
     let_try (each_try (locate_row parsed (ii_tiles (pl_info plan))) (row_heights (ii_tiles (pl_info plan)))
       ([], 0, 0)) (\<lambda>(locations, x, y). Ok locations)"

definition validate_decode_scope :: "parsed_codestream \<Rightarrow> (tile_decode_error, unit) result" where
  "validate_decode_scope parsed =
     (if \<exists>a\<in>set_option (alpha (cs_headers parsed)). internal_color_format a \<noteq> 0 \<or> components a \<noteq> 1
      then Err (UnsupportedSyntax ''integrated alpha plane component layout'')
      else
        let c = internal_color_format (primary (cs_headers parsed)); n = components (primary (cs_headers parsed)) in
        if c = 0 \<and> n = 1 \<or> c \<in> {1..3} \<and> n = 3 \<or> c = 4 \<and> n = 4 \<or> c = 6 \<and> n \<in> {2..16} then Ok ()
        else Err (UnsupportedSyntax ''unsupported primary component layout''))"

definition packet_slice :: "u8 list \<Rightarrow> core_range \<Rightarrow> (tile_decode_error, u8 list) result" where
  "packet_slice source r =
     let_try (tile_usize_add ''tile packet range'' (range_offset r) (range_length r)) (\<lambda>past.
     if past \<le> length source then Ok (take (range_length r) (drop (range_offset r) source))
     else Err (PacketRangeOutsideInput (range_offset r) (range_length r) (length source)))"

section \<open>Sums\<close>

lemma layouts_sum: "n + sum_list (map layout_coefficients ls) \<le> usize_max \<Longrightarrow>
    each_try add_layout ls n = Ok (n + sum_list (map layout_coefficients ls))"
  by (induction ls arbitrary: n) (simp_all add: add_layout_def tile_usize_add_def)

lemma selected_sum: "each_try add_selected ts n = Ok m \<Longrightarrow> n < 2 ^ 32 \<Longrightarrow>
    m = n + sum_list (map macroblock_count ts) \<and> m < 2 ^ 32"
proof (induction ts arbitrary: n)
  case (Cons t ts)
  then obtain v where v: "add_selected t n = Ok v" "each_try add_selected ts v = Ok m" by (auto simp: let_try_eq_Ok)
  then have "v = n + macroblock_count t" "v < 2 ^ 32" by (auto simp: add_selected_def u32_checked_def split: if_splits)
  then show ?case using Cons.IH [OF v(2)] by simp
qed simp

lemma macroblocks_sum: "n + sum_list (map macroblock_count ts) \<le> usize_max \<Longrightarrow>
    each_try add_plane_macroblocks ts n = Ok (n + sum_list (map macroblock_count ts))"
  by (induction ts arbitrary: n) (simp_all add: add_plane_macroblocks_def tile_usize_add_def)

section \<open>The arena has the planned size\<close>

text \<open>The coefficients of a macroblock of the primary plane, component by component.\<close>

lemma band_coefficients:
  "band_coefficient_count b (Suc 0) 16 256 = coefficients_per_macroblock b 16"
  "band_coefficient_count b (Suc 0) 4 64 = coefficients_per_macroblock b 4"
  "band_coefficient_count b (Suc 0) 8 128 = coefficients_per_macroblock b 8"
  by (cases b; simp add: band_coefficient_count_def coefficients_per_macroblock_def)+

lemma planned_sum:
  assumes "component_count c = Some n" "planned_coefficients c b = Ok m"
    and "c \<in> {ColorLuma, ColorYuv s, ColorYuvK, ColorNComponent k}"
  shows "m = sum_list (map (\<lambda>i. coefficients_per_macroblock b (geometry_blocks (component_geometry_of c i))) [0..<n])"
proof -
  have all: "sum_list (map (\<lambda>i. coefficients_per_macroblock b (geometry_blocks (component_geometry_of c i))) [0..<n]) =
      n * coefficients_per_macroblock b 16" if "\<forall>i. component_geometry_of c i = \<lparr>geometry_columns = 4, geometry_rows = 4\<rparr>"
    using that by (simp add: geometry_blocks_def map_replicate_const sum_list_replicate)
  have three: "[0..<3] = [0, 1, 2 :: nat]" by (simp add: upt_rec)
  consider "c = ColorYuv Cs420" | "c = ColorYuv Cs422" | "c \<noteq> ColorYuv Cs420" "c \<noteq> ColorYuv Cs422" by blast
  then show ?thesis
  proof cases
    case 3
    then have "\<forall>i. component_geometry_of c i = \<lparr>geometry_columns = 4, geometry_rows = 4\<rparr>"
      by (simp add: component_geometry_of_def)
    then show ?thesis using all assms 3
      by (cases c; cases s)
        (auto simp: planned_coefficients_def band_coefficients usize_mul_def Let_def split: if_splits chroma_sampling.splits)
  qed (use assms(1,2) three in \<open>auto simp: planned_coefficients_def band_coefficients component_geometry_of_def
      geometry_blocks_def\<close>)
qed

text \<open>The layouts and the budget of a described file in scope agree.\<close>

lemma layouts_budget:
  assumes "codestream_ok bytes p" "length bytes \<le> usize_max" "validate_decode_scope p = Ok ()"
    and "image_info_of p = Ok info" "pl_info plan = info"
    and "separate_alpha_headers p = None \<or> alpha (cs_headers p) = None"
    and "coefficient_bytes info counted macroblocks (pl_scale plan) = Ok n"
    and "separate_alpha_headers p = None \<Longrightarrow> counted \<longleftrightarrow> ii_alpha_mode info = AlphaIntegrated"
  shows "4 * (macroblocks * sum_list (map layout_coefficients (plane_layouts p plan))) \<le> n" "n \<le> usize_max"
    "separate_alpha_headers p = None \<or> \<not> counted \<Longrightarrow>
       n = 4 * (macroblocks * sum_list (map layout_coefficients (plane_layouts p plan)))"
proof -
  let ?h = "image (cs_headers p)" and ?k = "components (primary (cs_headers p))"
  let ?ret = "\<lambda>b. retained_bands (pl_scale plan) b"
  have "describes info p" using image_info_outcome [OF assms(2,1)] assms(4) by simp
  then have count: "component_count (pi_color_format (ii_primary info)) = Some ?k" by (simp add: describes_def)
  obtain coded mode where parts: "plane_info_of ?h (primary (cs_headers p)) = Ok coded" "ii_primary info = coded"
    "alpha_info p ?h = Ok (mode, ii_alpha info)" "ii_alpha_mode info = mode"
    using assms(4) by (auto simp: image_info_of_def let_try_eq_Ok Let_def outcome_simps split: prod.splits if_splits)
  have scope: "\<And>a. alpha (cs_headers p) = Some a \<Longrightarrow> internal_color_format a = 0"
    using assms(3) by (auto simp: validate_decode_scope_def split: if_splits)
  have color: "pi_color_format coded \<in> {ColorLuma, ColorYuv s, ColorYuvK, ColorNComponent k}
      \<or> (\<exists>s. pi_color_format coded = ColorYuv s) \<or> (\<exists>k. pi_color_format coded = ColorNComponent k)" for s k
    using parts(1) by (auto simp: plane_info_of_def let_try_eq_Ok internal_color_def split: if_splits)
  obtain m1 m2 where m: "planned_coefficients (pi_color_format coded) (?ret (pi_bands coded)) = Ok m1"
    "(if counted then (case ii_alpha info of
        Some a \<Rightarrow> planned_coefficients (pi_color_format a) (?ret (pi_bands a)) | None \<Rightarrow> Ok 0) else Ok 0) = Ok m2"
    "n = macroblocks * (m1 + m2) * 4" "macroblocks * (m1 + m2) * 4 \<le> usize_max"
    using assms(7) by (auto simp: coefficient_bytes_def parts(2) let_try_eq_Ok usize_plus_def usize_mul_def
        algebra_simps split: if_splits)
  have m1: "m1 = sum_list (map (\<lambda>i. coefficients_per_macroblock (?ret (pi_bands coded))
      (geometry_blocks (component_geometry_of (pi_color_format coded) i))) [0..<?k])"
    using planned_sum [OF _ m(1)] count color parts(2) by blast
  have coded: "sum_list (map (layout_coefficients \<circ> component_layout p plan) [0..<?k]) = m1"
    unfolding m1 by (rule arg_cong [where f = sum_list]) (simp add: component_layout_def assms(5) parts(2) Let_def)
  have sum: "sum_list (map layout_coefficients (plane_layouts p plan)) \<le> m1 + m2 \<and>
      (separate_alpha_headers p = None \<or> \<not> counted \<longrightarrow> sum_list (map layout_coefficients (plane_layouts p plan)) = m1 + m2)"
  proof (cases "alpha (cs_headers p)")
    case None
    have "m2 = 0" if "separate_alpha_headers p = None \<or> \<not> counted"
    proof (cases "separate_alpha_headers p")
      case absent: None
      then have "mode = AlphaNone" using parts(3) None by (simp add: alpha_info_def)
      then show ?thesis using m(2) parts(4) assms(8) [OF absent] by simp
    qed (use m(2) that in simp)
    then show ?thesis using None coded by (auto simp: plane_layouts_def)
  next
    case (Some a)
    then have absent: "separate_alpha_headers p = None" using assms(6) by simp
    then obtain al where al: "mode = AlphaIntegrated" "ii_alpha info = Some al" "plane_info_of ?h a = Ok al"
      using parts(3) Some
      by (auto simp: alpha_info_def let_try_eq_Ok eq_commute [of "Some _" "ii_alpha info"])
    have "pi_color_format al = ColorLuma"
      using al(3) scope [OF Some] by (auto simp: plane_info_of_def let_try_eq_Ok internal_color_def)
    then have "m2 = coefficients_per_macroblock (?ret (pi_bands al)) 16"
      using m(2) al(1,2) parts(4) assms(8) [OF absent] by (simp add: planned_coefficients_def band_coefficients)
    moreover have "layout_coefficients (component_layout p plan ?k) = coefficients_per_macroblock (?ret (pi_bands al)) 16"
      by (simp add: component_layout_def assms(5) al(2) geometry_blocks_def Let_def)
    ultimately show ?thesis using Some coded by (simp add: plane_layouts_def)
  qed
  then show "4 * (macroblocks * sum_list (map layout_coefficients (plane_layouts p plan))) \<le> n" "n \<le> usize_max"
    using m(3,4) by (simp_all add: mult.commute)
  show "n = 4 * (macroblocks * sum_list (map layout_coefficients (plane_layouts p plan)))"
    if "separate_alpha_headers p = None \<or> \<not> counted"
    using sum that m(3) by (simp add: mult.commute)
qed

section \<open>Locations\<close>

definition location_at :: "parsed_codestream \<Rightarrow> bool \<Rightarrow> nat \<Rightarrow> nat \<Rightarrow> nat \<Rightarrow> nat \<Rightarrow> tile_location" where
  "location_at p hard x y wd ht = \<lparr>global_x = x, global_y = y, location_width = wd, location_height = ht,
     location_hard = hard, margin_left = margins (image (cs_headers p)) ! 1,
     margin_top = margins (image (cs_headers p)) ! 0\<rparr>"

definition row_locations :: "parsed_codestream \<Rightarrow> bool \<Rightarrow> nat list \<Rightarrow> nat \<Rightarrow> nat \<Rightarrow> tile_location list" where
  "row_locations p hard ws y ht = map (\<lambda>c. location_at p hard (sum_list (take c ws)) y (ws ! c) ht) [0..<length ws]"

lemma locate_columns:
  assumes "length (margins (image (cs_headers p))) = 4"
  shows "x + sum_list ws < 2 ^ 32 \<Longrightarrow> each_try (locate_tile p hard ht) ws (ls, x, y) =
    Ok (ls @ map (\<lambda>c. location_at p hard (x + sum_list (take c ws)) y (ws ! c) ht) [0..<length ws],
      x + sum_list ws, y)"
proof (induction ws arbitrary: ls x)
  case (Cons wd ws)
  have "locate_tile p hard ht wd (ls, x, y) = Ok (ls @ [location_at p hard x y wd ht], x + wd, y)"
    using assms Cons.prems by (simp add: locate_tile_def location_at_def u32_add_or_def)
  moreover have "[0..<length (wd # ws)] = 0 # map Suc [0..<length ws]" by (simp add: upt_conv_Cons map_Suc_upt del: upt_Suc)
  ultimately show ?case using Cons.IH [where ls = "ls @ [location_at p hard x y wd ht]" and x = "x + wd"] Cons.prems
    by (simp add: add.assoc comp_def del: upt_Suc)
qed simp

lemma locate_rows:
  assumes "length (margins (image (cs_headers p))) = 4" "sum_list (column_widths g) < 2 ^ 32"
  shows "y + sum_list hs < 2 ^ 32 \<Longrightarrow> \<exists>x'. each_try (locate_row p g) hs (ls, x, y) =
    Ok (ls @ concat (map (\<lambda>r. row_locations p (hard_tiles g) (column_widths g) (y + sum_list (take r hs)) (hs ! r))
      [0..<length hs]), x', y + sum_list hs)"
proof (induction hs arbitrary: ls x y)
  case (Cons ht hs)
  let ?row = "row_locations p (hard_tiles g) (column_widths g)"
  have "locate_row p g ht (ls, x, y) = Ok (ls @ ?row y ht, sum_list (column_widths g), y + ht)"
    using locate_columns [OF assms(1), of 0 "column_widths g" "hard_tiles g" ht ls y] assms(2) Cons.prems
    by (simp add: locate_row_def u32_add_or_def row_locations_def)
  moreover obtain x' where "each_try (locate_row p g) hs (ls @ ?row y ht, sum_list (column_widths g), y + ht) =
      Ok ((ls @ ?row y ht) @ concat (map (\<lambda>r. ?row (y + ht + sum_list (take r hs)) (hs ! r)) [0..<length hs]), x',
        y + ht + sum_list hs)"
    using Cons.IH [where y = "y + ht" and ls = "ls @ ?row y ht" and x = "sum_list (column_widths g)"] Cons.prems by auto
  moreover have "[0..<length (ht # hs)] = 0 # map Suc [0..<length hs]" by (simp add: upt_conv_Cons map_Suc_upt del: upt_Suc)
  ultimately show ?case by (simp add: add.assoc comp_def del: upt_Suc)
qed simp

lemma concat_nth_uniform:
  "\<forall>row\<in>set rows. length row = n \<Longrightarrow> r < length rows \<Longrightarrow> c < n \<Longrightarrow> concat rows ! (r * n + c) = rows ! r ! c"
proof (induction rows arbitrary: r)
  case (Cons row rows)
  then show ?case by (cases r) (simp_all add: nth_append)
qed simp

lemma tile_locations_Ok:
  assumes "grid_describable (image (cs_headers p))" "ii_tiles (pl_info plan) = grid_of (image (cs_headers p))"
    and "length (margins (image (cs_headers p))) = 4"
  shows "\<exists>ls. tile_locations p plan = Ok ls \<and>
    length ls = length (row_heights (grid_of (image (cs_headers p)))) * length (column_widths (grid_of (image (cs_headers p)))) \<and>
    (\<forall>r<length (row_heights (grid_of (image (cs_headers p)))). \<forall>c<length (column_widths (grid_of (image (cs_headers p)))).
      ls ! (r * length (column_widths (grid_of (image (cs_headers p)))) + c) =
        location_at p (hard_tiling (flags (image (cs_headers p))))
          (sum_list (take c (column_widths (grid_of (image (cs_headers p))))))
          (sum_list (take r (row_heights (grid_of (image (cs_headers p))))))
          (column_widths (grid_of (image (cs_headers p))) ! c) (row_heights (grid_of (image (cs_headers p))) ! r))"
proof -
  let ?g = "grid_of (image (cs_headers p))"
  let ?ws = "column_widths ?g" and ?hs = "row_heights ?g"
  let ?rows = "map (\<lambda>r. row_locations p (hard_tiles ?g) ?ws (sum_list (take r ?hs)) (?hs ! r)) [0..<length ?hs]"
  have sums: "sum_list ?ws < 2 ^ 32" "0 + sum_list ?hs < 2 ^ 32" using grid_small [OF assms(1)] by simp_all
  obtain x' where "each_try (locate_row p ?g) ?hs ([], 0, 0) = Ok (concat ?rows, x', sum_list ?hs)"
    using locate_rows [OF assms(3) sums, of "[]" 0] by auto
  then have ls: "tile_locations p plan = Ok (concat ?rows)" by (simp add: tile_locations_def assms(2))
  have uniform: "\<forall>row\<in>set ?rows. length row = length ?ws" by (auto simp: row_locations_def)
  then have len: "length (concat ?rows) = length ?hs * length ?ws"
    by (simp add: length_concat sum_list_triv comp_def row_locations_def)
  have hard: "hard_tiles ?g = hard_tiling (flags (image (cs_headers p)))" by (simp add: grid_of_def)
  have "concat ?rows ! (r * length ?ws + c) = location_at p (hard_tiles ?g) (sum_list (take c ?ws))
      (sum_list (take r ?hs)) (?ws ! c) (?hs ! r)" if "r < length ?hs" "c < length ?ws" for r c
    using concat_nth_uniform [OF uniform, of r c] that by (simp add: row_locations_def)
  then show ?thesis using ls len unfolding hard by blast
qed

section \<open>Prepared plans\<close>

lemma layouts_ok: "layout \<in> set (plane_layouts p plan) \<Longrightarrow> layout_ok layout \<and> layout_coefficients layout \<le> 256"
proof -
  assume "layout \<in> set (plane_layouts p plan)"
  then obtain g b where layout: "layout = \<lparr>layout_geometry = g,
      layout_coefficients = coefficients_per_macroblock b (geometry_blocks g)\<rparr>"
    "geometry_columns g \<in> {1..4} \<and> geometry_rows g \<in> {1..4}"
    by (auto simp: plane_layouts_def component_layout_def component_geometry_of_def Let_def split: if_splits)
  then have "layout_ok layout" by (simp add: layout_ok_def)
  moreover have "coefficients_per_macroblock b (geometry_blocks g) \<le> 256"
    using layout_ok_blocks [OF calculation] layout(1)
    by (cases b) (simp_all add: coefficients_per_macroblock_def layout_blocks_def)
  ultimately show ?thesis by (simp add: layout(1))
qed

lemma sum_list_bound: "\<forall>x\<in>set xs. x \<le> b \<Longrightarrow> sum_list xs \<le> length xs * b" for b :: nat
  by (induction xs) auto

lemma prepare_plan_budget:
  assumes "prepare_plan full within n p request = Ok plan"
  shows "\<exists>selected. each_try add_selected (filter required_for_reconstruction (pl_tiles plan)) 0 = Ok selected \<and>
    coefficient_bytes (pl_info plan) (pl_alpha plan \<noteq> None \<or> ii_alpha_mode (pl_info plan) = AlphaIntegrated) selected
      (pl_scale plan) = Ok (pl_coefficient_bytes plan) \<and>
    (pl_alpha plan \<noteq> None \<longrightarrow> ii_alpha_mode (pl_info plan) \<noteq> AlphaNone)"
  using assms by (auto simp: prepare_plan_def let_try_eq_Ok Let_def map_err_Ok should_prepare_alpha_def split: if_splits)

text \<open>The tiles of a plan and the locations of the tiles of a codestream agree.\<close>

lemma plan_tiles_located:
  assumes "grid_describable (image (cs_headers p))" "image_header_ok (image (cs_headers p))"
    and "ii_tiles (pl_info plan) = grid_of (image (cs_headers p))"
    and "tile_plans p (pl_info plan) region = Ok (pl_tiles plan)"
  obtains ls where "tile_locations p plan = Ok ls" "length (pl_tiles plan) \<le> usize_max" "validate_tile_count plan = Ok ()"
    "map macroblock_count (pl_tiles plan) = map (\<lambda>l. location_width l * location_height l) ls"
proof -
  let ?g = "grid_of (image (cs_headers p))"
  have ts: "length (pl_tiles plan) = length (row_heights ?g) * length (column_widths ?g)"
    "macroblock_count (pl_tiles plan ! (r * length (column_widths ?g) + c)) = column_widths ?g ! c * row_heights ?g ! r"
    if "r < length (row_heights ?g)" "c < length (column_widths ?g)" for r c
    using tile_plans_Ok [OF assms(1) refl assms(3,4)] that by (fastforce simp: tile_is_def)+
  have len: "length (pl_tiles plan) = length (row_heights ?g) * length (column_widths ?g)"
    using tile_plans_Ok [OF assms(1) refl assms(3,4)] by (fastforce simp: tile_is_def)
  have "length (margins (image (cs_headers p))) = 4" using assms(2) by (simp add: image_header_ok_def)
  then obtain ls where ls: "tile_locations p plan = Ok ls" "length ls = length (row_heights ?g) * length (column_widths ?g)"
    "\<And>r c. r < length (row_heights ?g) \<Longrightarrow> c < length (column_widths ?g) \<Longrightarrow>
      location_width (ls ! (r * length (column_widths ?g) + c)) = column_widths ?g ! c \<and>
      location_height (ls ! (r * length (column_widths ?g) + c)) = row_heights ?g ! r"
    using tile_locations_Ok [of p plan] assms(1,3) by (auto simp: location_at_def)
  have "map macroblock_count (pl_tiles plan) = map (\<lambda>l. location_width l * location_height l) ls"
  proof (rule nth_equalityI)
    fix i assume "i < length (map macroblock_count (pl_tiles plan))"
    then have i: "i < length (row_heights ?g) * length (column_widths ?g)" using len by simp
    then obtain r c where rc: "r < length (row_heights ?g)" "c < length (column_widths ?g)"
      "i = r * length (column_widths ?g) + c" using tile_index_pair by blast
    show "map macroblock_count (pl_tiles plan) ! i = map (\<lambda>l. location_width l * location_height l) ls ! i"
      using i len ls(2) ts(2) [OF rc(1,2), folded rc(3)] ls(3) [OF rc(1,2), folded rc(3)] by simp
  qed (use len ls(2) in simp)
  moreover have small: "length (pl_tiles plan) \<le> usize_max"
    using len grid_lengths [of "cs_headers p"] tiles_bound [OF assms(2)] by (simp add: tiles_of_def)
  moreover have "validate_tile_count plan = Ok ()"
    using len small by (simp add: validate_tile_count_def assms(3) Let_def mult.commute)
  ultimately show ?thesis using that [OF ls(1)] by blast
qed

text \<open>The size of the arena, whenever its bytes fit the address space.\<close>

lemma coefficient_count_selected:
  assumes "components (primary (cs_headers p)) < 2 ^ 12 + 16"
    and "each_try add_selected (filter required_for_reconstruction (pl_tiles plan)) 0 = Ok selected"
    and "4 * (selected * sum_list (map layout_coefficients (plane_layouts p plan))) \<le> usize_max"
  shows "coefficient_count p plan = Ok (selected * sum_list (map layout_coefficients (plane_layouts p plan)))"
proof -
  let ?lay = "plane_layouts p plan"
  have sum: "selected = sum_list (map macroblock_count (filter required_for_reconstruction (pl_tiles plan)))" "selected < 2 ^ 32"
    using selected_sum [OF assms(2)] by simp_all
  have planes: "length ?lay \<le> 4113" using assms(1) by (simp add: plane_layouts_def)
  have "sum_list (map layout_coefficients ?lay) \<le> length (map layout_coefficients ?lay) * 256"
    by (intro sum_list_bound) (use layouts_ok in auto)
  then have small: "sum_list (map layout_coefficients ?lay) \<le> usize_max" using planes by simp
  have "selected * length ?lay \<le> 2 ^ 32 * 4113" using sum(2) planes by (intro mult_le_mono) simp_all
  then show ?thesis
    using sum macroblocks_sum [of 0] layouts_sum [of 0 ?lay] small assms(3)
    by (simp add: coefficient_count_def arena_capacity_def tile_usize_mul_def)
qed

text \<open>
  C5: the arena stays in the checked budget. For every parsed file with at most one of an integrated and a
  separate alpha plane whose component layout is in scope, and every plan prepared for it: the plan has the
  tiles of the grid, each tile counts the macroblocks of its location, every plane layout is one of the three
  block geometries, and the coefficients of the codestream's component planes take at most the bytes that the
  request's limits were checked against. They take exactly these bytes unless the plan has a plane from a
  separate alpha codestream, which has an arena of its own and is in the budget too.
\<close>

theorem arena_fits_the_budget:
  assumes "readable bytes" "parse_codestream bytes = Ok p" "validate_decode_scope p = Ok ()"
    and "separate_alpha_headers p = None \<or> alpha (cs_headers p) = None" "prepare_plan full within (length bytes) p request = Ok plan"
  shows "validate_tile_count plan = Ok () \<and>
    (\<exists>n. coefficient_count p plan = Ok n \<and> 4 * n \<le> pl_coefficient_bytes plan \<and>
      (separate_alpha_headers p = None \<or> pl_alpha plan = None \<longrightarrow> pl_coefficient_bytes plan = 4 * n)) \<and>
    (\<exists>ls. tile_locations p plan = Ok ls \<and>
      map macroblock_count (pl_tiles plan) = map (\<lambda>l. location_width l * location_height l) ls) \<and>
    (\<forall>layout\<in>set (plane_layouts p plan). layout_ok layout)"
proof -
  let ?h = "image (cs_headers p)" and ?n = "sum_list (map layout_coefficients (plane_layouts p plan))"
  have ok: "codestream_ok bytes p" "length bytes \<le> usize_max"
    using yieldsD(2) [OF parse_codestream_yields [OF assms(1)] assms(2)] assms(1) by (simp_all add: readable_def)
  obtain info where info: "image_info_of p = Ok info" "pl_info plan = info"
    "tile_plans p info (pl_output_region plan) = Ok (pl_tiles plan)"
    using prepare_plan_Ok [OF assms(5)] by blast
  have "describable p" "describes info p" using image_info_outcome [OF ok(2,1)] info(1) by simp_all
  then have g: "grid_describable ?h" "ii_tiles info = grid_of ?h" "ii_alpha_mode info =
      (if separate_alpha_headers p \<noteq> None then AlphaSeparate else if alpha (cs_headers p) \<noteq> None then AlphaIntegrated else AlphaNone)"
    by (simp_all add: describable_def describes_def)
  have head: "image_header_ok ?h" "components (primary (cs_headers p)) < 2 ^ 12 + 16"
    using ok(1) by (auto simp: codestream_ok_def codestream_at_def headers_ok_def plane_header_ok_def)
  obtain ls where ls: "tile_locations p plan = Ok ls" "validate_tile_count plan = Ok ()"
    "map macroblock_count (pl_tiles plan) = map (\<lambda>l. location_width l * location_height l) ls"
    using plan_tiles_located [OF g(1) head(1)] g(2) info(2,3) by metis
  define counted where "counted \<longleftrightarrow> pl_alpha plan \<noteq> None \<or> ii_alpha_mode info = AlphaIntegrated"
  obtain selected where sel: "each_try add_selected (filter required_for_reconstruction (pl_tiles plan)) 0 = Ok selected"
    "coefficient_bytes info counted selected (pl_scale plan) = Ok (pl_coefficient_bytes plan)"
    and none: "pl_alpha plan \<noteq> None \<longrightarrow> ii_alpha_mode info \<noteq> AlphaNone"
    using prepare_plan_budget [OF assms(5)] info(2) by (auto simp: counted_def)
  have mode: "counted \<longleftrightarrow> ii_alpha_mode info = AlphaIntegrated" if "separate_alpha_headers p = None"
    using that none g(3) by (auto simp: counted_def split: if_splits)
  have budget: "4 * (selected * ?n) \<le> pl_coefficient_bytes plan" "pl_coefficient_bytes plan \<le> usize_max"
    "separate_alpha_headers p = None \<or> \<not> counted \<Longrightarrow> pl_coefficient_bytes plan = 4 * (selected * ?n)"
    using layouts_budget [OF ok assms(3) info(1,2) assms(4) sel(2)] mode by blast+
  have exact: "pl_coefficient_bytes plan = 4 * (selected * ?n)" if "separate_alpha_headers p = None \<or> pl_alpha plan = None"
    using that g(3) by (intro budget(3)) (auto simp: counted_def)
  have "coefficient_count p plan = Ok (selected * ?n)"
    using coefficient_count_selected [OF head(2) sel(1)] budget(1,2) by linarith
  moreover have "\<forall>layout\<in>set (plane_layouts p plan). layout_ok layout" using layouts_ok by blast
  ultimately show ?thesis using ls budget(1) exact by auto
qed

lemma arena_fits_the_budget_witness: "\<exists>plan. sample_plan = Ok plan \<and> coefficient_count \<lparr>primary_range = (0, 22),
    cs_headers = sample_header, directory = \<lparr>tile_offsets = [], profile_levels = [], tile_data_offset = 22\<rparr>,
    separate_alpha_headers = None, separate_alpha_directory = None, annex_a = None\<rparr> plan = Ok 768"
proof -
  have "readable sample_payload" "length sample_payload = 22"
    by (simp_all add: readable_def sample_payload_def sample_bytes_def)
  moreover obtain plan where plan: "sample_plan = Ok plan" "pl_coefficient_bytes plan = 3072" using sample_planned by blast
  ultimately show ?thesis
    using arena_fits_the_budget [OF _ sample_parsed, of "\<lambda>(W, H). \<lparr>rect_x = 0, rect_y = 0, rect_w = W, rect_h = H\<rparr>"
        "\<lambda>r (W, H). rect_x r + rect_w r \<le> W \<and> rect_y r + rect_h r \<le> H" "decode_request_new () (PixelU8 LayoutLuma)" plan]
    by (auto simp: sample_plan_def sample_parsed validate_decode_scope_def sample_header_def)
qed

end
