(* ===== verification/Frequency.thy ===== *)
theory Frequency
  imports Spatial_Tile Tile_Layout
begin

text \<open>
  Frequency-mode decoding of a single-component tile (\<open>crates/jxr-native/src/tile_decode/frequency\<close>): the
  bands of a tile come in packets of their own, so a tile is decoded band by band over all of its
  macroblocks, and the quantizers are assigned at the end. The reader, the entropy state and the
  block-pattern state of a packet are the parts of \<open>Tile_State\<close>; only the high-pass packet uses the last.
\<close>

section \<open>Packet ranges\<close>

record frequency_packet_ranges =
  fr_dc :: core_range
  fr_low_pass :: "core_range option"
  fr_high_pass :: "core_range option"
  fr_flexbits :: "core_range option"

definition band_count :: "band_presence \<Rightarrow> nat" where
  "band_count bands = (case bands of DcOnly \<Rightarrow> 1 | NoHighPass \<Rightarrow> 2 | NoFlexbits \<Rightarrow> 3 | AllBands \<Rightarrow> 4)"

definition is_flexbits_escape :: "nat \<Rightarrow> nat \<Rightarrow> nat \<Rightarrow> bool" where
  "is_flexbits_escape index bands_per_tile relative \<longleftrightarrow>
     bands_per_tile = 4 \<and> index mod bands_per_tile = 3 \<and> relative = 0"

definition packet_band_start :: "nat \<Rightarrow> nat \<Rightarrow> nat \<Rightarrow> nat \<Rightarrow> nat \<times> nat \<Rightarrow> nat option list \<Rightarrow>
    (tile_decode_error, nat option list) result" where
  "packet_band_start base codestream_end source_len bands_per_tile = (\<lambda>(index, relative) starts.
     if is_flexbits_escape index bands_per_tile relative then Ok (starts @ [None])
     else if usize_max < relative then Err (ArithmeticOverflow ''frequency packet offset conversion'')
     else
       let_try (tile_usize_add ''frequency packet offset'' base relative) (\<lambda>start.
       if start < base \<or> codestream_end \<le> start \<or> source_len \<le> start
       then Err (PacketRangeOutsideInput start 1 source_len)
       else Ok (starts @ [Some start])))"

definition range_at ::
  "nat \<Rightarrow> nat option list \<Rightarrow> nat list \<Rightarrow> nat \<Rightarrow> (tile_decode_error, core_range) result" where
  "range_at index starts physical codestream_end =
     let_try (index_or_panic starts index) (\<lambda>entry.
     let_try (ok_or (InvalidPlan ''escaped required frequency packet'') entry) (\<lambda>start.
     let_try (ok_or (InvalidPlan ''frequency packet ordering'') (binary_search physical start)) (\<lambda>position.
     let past = (if position + 1 < length physical then physical ! (position + 1) else codestream_end) in
     if past < start then Err (InvalidPlan ''frequency packet extent'')
     else map_err (\<lambda>_. InvalidPlan ''frequency packet range'') (byte_range_new start (past - start) codestream_end))))"

definition range_if :: "bool \<Rightarrow> nat \<Rightarrow> nat option list \<Rightarrow> nat list \<Rightarrow> nat \<Rightarrow>
    (tile_decode_error, core_range option) result" where
  "range_if wanted index starts physical codestream_end =
     (if wanted then let_try (range_at index starts physical codestream_end) (\<lambda>r. Ok (Some r)) else Ok None)"

definition tile_ranges :: "nat \<Rightarrow> nat option list \<Rightarrow> nat list \<Rightarrow> nat \<Rightarrow> nat \<Rightarrow>
    frequency_packet_ranges list \<Rightarrow> (tile_decode_error, frequency_packet_ranges list) result" where
  "tile_ranges bands_per_tile starts physical codestream_end tile ranges =
     (let first = tile * bands_per_tile in
      let_try (range_at first starts physical codestream_end) (\<lambda>dc.
      let_try (range_if (1 < bands_per_tile) (first + 1) starts physical codestream_end) (\<lambda>low_pass.
      let_try (range_if (2 < bands_per_tile) (first + 2) starts physical codestream_end) (\<lambda>high_pass.
      let_try (if 3 < bands_per_tile then let_try (index_or_panic starts (first + 3)) (\<lambda>s. Ok (s \<noteq> None)) else Ok False)
        (\<lambda>has_flexbits.
      let_try (range_if has_flexbits (first + 3) starts physical codestream_end) (\<lambda>flexbits.
      Ok (ranges @ [\<lparr>fr_dc = dc, fr_low_pass = low_pass, fr_high_pass = high_pass, fr_flexbits = flexbits\<rparr>])))))))"

definition frequency_ranges :: "nat \<Rightarrow> parsed_codestream \<Rightarrow> band_presence \<Rightarrow> nat \<Rightarrow>
    (tile_decode_error, frequency_packet_ranges list) result" where
  "frequency_ranges source_len parsed bands tiles =
     (let codestream_end = snd (primary_range parsed); offsets = tile_offsets (directory parsed) in
      let_try (tile_usize_mul ''frequency index entry count'' tiles (band_count bands)) (\<lambda>expected.
      if length offsets \<noteq> expected then Err (InvalidPlan ''frequency tile index entry count'')
      else
        let_try (tile_usize_add ''frequency packet base'' (fst (primary_range parsed))
          (tile_data_offset (directory parsed))) (\<lambda>base.
        let_try (each_try (packet_band_start base codestream_end source_len (band_count bands))
          (enumerate 0 offsets) []) (\<lambda>starts.
        let physical = sort (map the (filter (\<lambda>s. s \<noteq> None) starts)) in
        if \<not> distinct physical then Err (InvalidPlan ''duplicate frequency packet offsets'')
        else each_try (tile_ranges (band_count bands) starts physical codestream_end) [0..<tiles] []))))"

section \<open>Macroblocks\<close>

record spatial_macroblock =
  sm_low :: "i32 list"
  sm_high :: "i32 list"
  sm_quantizers :: reconstruction_quantizers
  sm_bands :: band_presence
  sm_prediction :: prediction_mode
  sm_hp_prediction :: prediction_mode
  sm_lp_qp_index :: nat

text \<open>Such a macroblock as a neighbour of prediction.\<close>

definition as_neighbour :: "spatial_macroblock \<Rightarrow> prediction_record" where
  "as_neighbour m = \<lparr>pr_low = sm_low m, pr_lp_qp_index = sm_lp_qp_index m\<rparr>"

definition writer_push_macroblock ::
  "spatial_macroblock \<Rightarrow> (plane_writer, tile_decode_error, unit) action" where
  "writer_push_macroblock m = writer_push (sm_low m) (sm_high m)
     \<lparr>mr_quantizers = sm_quantizers m, mr_bands = sm_bands m, mr_prediction = sm_prediction m,
       mr_hp_prediction = sm_hp_prediction m\<rparr>"

text \<open>\<open>Vec::with_capacity\<close> of macroblocks, of 1108 bytes each.\<close>

definition reserve_macroblocks :: "nat \<Rightarrow> ('e, unit) result" where
  "reserve_macroblocks n = (if 2 ^ 63 - 1 < n * 1108 then Panic else Ok ())"

text \<open>A packet decoder: its parts and what it builds.\<close>

type_synonym ('t, 'a) packet_action = "(tile_parts \<times> 't, tile_decode_error, 'a) action"

definition on_packet :: "'a tile_action \<Rightarrow> ('t, 'a) packet_action" where
  "on_packet m = on_part fst (\<lambda>p s. (p, snd s)) m"

fun each_run :: "('i \<Rightarrow> ('s, 'e, unit) action) \<Rightarrow> 'i list \<Rightarrow> ('s, 'e, unit) action" where
  "each_run f [] = give ()"
| "each_run f (i # is) = run_try (f i) (\<lambda>_. each_run f is)"

text \<open>A packet after its header: the raster of macroblocks and the alignment, from fresh states.\<close>

definition packet_body :: "(nat \<times> nat \<Rightarrow> ('t, unit) packet_action) \<Rightarrow> nat \<Rightarrow> nat \<Rightarrow> packet_reader \<Rightarrow> 't \<Rightarrow>
    (tile_decode_error, 't) result" where
  "packet_body step columns rows r start =
     (case run_try (each_run step (raster columns rows)) (\<lambda>_. on_packet (with_reader consume_byte_alignment))
        ((r, entropy_reset_tile tile_entropy_new, cbphp_new columns), start) of
        (x, p, made) \<Rightarrow> let_try x (\<lambda>_. Ok made))"

definition at_boundary :: "nat \<Rightarrow> nat \<Rightarrow> bool" where
  "at_boundary x columns \<longleftrightarrow> x + 1 = columns \<or> x mod 16 = 0"

section \<open>The DC packet\<close>

definition frequency_dc_step ::
  "band_presence \<Rightarrow> nat \<Rightarrow> nat \<times> nat \<Rightarrow> (spatial_macroblock list, unit) packet_action" where
  "frequency_dc_step bands columns = (\<lambda>(x, y).
     run_try (inspect snd) (\<lambda>decoded.
     run_try (on_packet (decode_dc_band (map as_neighbour decoded)
       \<lparr>mp_width = columns, mp_x = x, mp_y = y\<rparr>)) (\<lambda>prediction.
     run_try (modify (\<lambda>(p, decoded). (p, decoded @ [\<lparr>sm_low = (replicate 16 0)[0 := dc_value prediction],
       sm_high = replicate 256 0, sm_quantizers = \<lparr>rq_dc = 1, rq_low_pass = 1, rq_high_pass = 1\<rparr>,
       sm_bands = bands, sm_prediction = dc_mode prediction, sm_hp_prediction = PredictNone,
       sm_lp_qp_index = 0\<rparr>]))) (\<lambda>_.
     modify (\<lambda>((r, e, c), decoded).
       ((r, if at_boundary x columns then e\<lparr>dc_vlc := dc_adapt (dc_vlc e)\<rparr> else e, c), decoded))))))"

definition frequency_dc :: "u8 list \<Rightarrow> image_plane_header \<Rightarrow> band_presence \<Rightarrow> nat \<Rightarrow> nat \<Rightarrow>
    (tile_decode_error, spatial_macroblock list \<times> tile_quantizers) result" where
  "frequency_dc packet plane bands columns rows =
     (case run_try parse_packet_prefix (\<lambda>_. parse_dc_packet plane) (packet_new packet) of
        (header, r) \<Rightarrow>
          let_try header (\<lambda>quantizers.
          let_try (tile_usize_mul ''frequency DC macroblock count'' columns rows) (\<lambda>n.
          let_try (reserve_macroblocks n) (\<lambda>_.
          let_try (packet_body (frequency_dc_step bands columns) columns rows r []) (\<lambda>decoded.
          Ok (decoded, quantizers))))))"

text \<open>The quantizers of every macroblock, by its indices.\<close>

definition assign_steps :: "tile_quantizers \<Rightarrow> bool \<Rightarrow> (nat \<times> nat) \<times> spatial_macroblock \<Rightarrow>
    spatial_macroblock list \<Rightarrow> (tile_decode_error, spatial_macroblock list) result" where
  "assign_steps quantizers is_scaled = (\<lambda>((lp, hp), m) assigned.
     let_try (reconstruction_steps \<lparr>qi_lp = lp, qi_hp = hp\<rparr> is_scaled quantizers) (\<lambda>steps.
     Ok (assigned @ [m\<lparr>sm_quantizers := steps\<rparr>])))"

definition finalize_dc_only :: "spatial_macroblock list \<Rightarrow> tile_quantizers \<Rightarrow> bool \<Rightarrow>
    (tile_decode_error, spatial_macroblock list) result" where
  "finalize_dc_only decoded quantizers is_scaled =
     each_try (assign_steps quantizers is_scaled) (map (\<lambda>m. ((0, 0), m)) decoded) []"

definition assign_quantizers :: "spatial_macroblock list \<Rightarrow> tile_quantizers \<Rightarrow> nat list \<Rightarrow> nat list \<Rightarrow> bool \<Rightarrow>
    (tile_decode_error, spatial_macroblock list) result" where
  "assign_quantizers decoded quantizers low_indices high_indices is_scaled =
     (if length decoded \<noteq> length low_indices \<or> length decoded \<noteq> length high_indices
      then Err (InvalidPlan ''frequency quantizer index count'')
      else each_try (assign_steps quantizers is_scaled) (zip (zip low_indices high_indices) decoded) [])"

section \<open>The low-pass packet\<close>

text \<open>What it builds: the macroblocks and the index of each.\<close>

definition frequency_low_step :: "tile_quantizers \<Rightarrow> nat \<Rightarrow> nat \<times> nat \<Rightarrow>
    (spatial_macroblock list \<times> nat list, unit) packet_action" where
  "frequency_low_step quantizers columns = (\<lambda>(x, y).
     run_try (if x mod 16 = 0 then on_packet (modify (\<lambda>(r, e, c). (r, reset_scan_totals e, c))) else give ()) (\<lambda>_.
     let index = y * columns + x in
     run_try (on_packet (with_reader (low_pass_index quantizers))) (\<lambda>qp_index.
     run_try (inspect (\<lambda>(p, decoded, indices). decoded)) (\<lambda>decoded.
     run_try (pure_try (index_or_panic decoded index)) (\<lambda>m.
     run_try (on_packet (decode_low_pass (sm_low m))) (\<lambda>low.
     run_try (pure_try (predict_low_pass low (map as_neighbour decoded)
       \<lparr>mp_width = columns, mp_x = x, mp_y = y\<rparr> (sm_prediction m) qp_index)) (\<lambda>low.
     run_try (modify (\<lambda>(p, decoded, indices).
       (p, decoded[index := m\<lparr>sm_low := low, sm_lp_qp_index := qp_index\<rparr>], indices @ [qp_index]))) (\<lambda>_.
     modify (\<lambda>((r, e, c), made).
       ((r, if at_boundary x columns then e\<lparr>lp_vlc := ac_adapt (lp_vlc e)\<rparr> else e, c), made))))))))))"

definition frequency_low :: "u8 list \<Rightarrow> image_plane_header \<Rightarrow> tile_quantizers \<Rightarrow> spatial_macroblock list \<Rightarrow>
    nat \<Rightarrow> nat \<Rightarrow> (tile_decode_error, (spatial_macroblock list \<times> nat list) \<times> tile_quantizers) result" where
  "frequency_low packet plane quantizers decoded columns rows =
     (case run_try parse_packet_prefix (\<lambda>_. parse_low_pass_packet plane quantizers) (packet_new packet) of
        (header, r) \<Rightarrow>
          let_try header (\<lambda>quantizers.
          let_try (packet_body (frequency_low_step quantizers columns) columns rows r (decoded, [])) (\<lambda>made.
          Ok (made, quantizers))))"

section \<open>The high-pass packet\<close>

record high_pass_state =
  hs_qp_indices :: "nat list"
  hs_model_bits :: "nat list"
  hs_modes :: "prediction_mode list"

definition frequency_high_step :: "tile_quantizers \<Rightarrow> nat list \<Rightarrow> nat \<Rightarrow> nat \<times> nat \<Rightarrow>
    (spatial_macroblock list \<times> high_pass_state, unit) packet_action" where
  "frequency_high_step quantizers low_indices columns = (\<lambda>(x, y).
     run_try (if x mod 16 = 0 then on_packet (modify (\<lambda>(r, e, c). (r, reset_scan_totals e, c))) else give ()) (\<lambda>_.
     let index = y * columns + x in
     run_try (pure_try (index_or_panic low_indices index)) (\<lambda>low_index.
     run_try (on_packet (with_reader (high_pass_index quantizers low_index))) (\<lambda>qp_index.
     run_try (inspect (\<lambda>(p, decoded, state). decoded)) (\<lambda>decoded.
     run_try (pure_try (index_or_panic decoded index)) (\<lambda>m.
     let mode = prediction_mode_of (sm_low m) in
     run_try (on_packet (decode_vlc \<lparr>mp_width = columns, mp_x = x, mp_y = y\<rparr> mode VlcOnly)) (\<lambda>(high, bits).
     run_try (modify (\<lambda>(p, decoded, s). (p, decoded[index := m\<lparr>sm_high := high, sm_hp_prediction := mode\<rparr>],
       \<lparr>hs_qp_indices = hs_qp_indices s @ [qp_index], hs_model_bits = hs_model_bits s @ [bits],
         hs_modes = hs_modes s @ [mode]\<rparr>))) (\<lambda>_.
     modify (\<lambda>((r, e, c), made).
       ((r, if at_boundary x columns then e\<lparr>hp_vlc := ac_adapt (hp_vlc e)\<rparr> else e,
         if at_boundary x columns then cbphp_adapt c else c), made))))))))))"

definition frequency_high :: "u8 list \<Rightarrow> image_plane_header \<Rightarrow> tile_quantizers \<Rightarrow> spatial_macroblock list \<Rightarrow>
    nat list \<Rightarrow> nat \<Rightarrow> nat \<Rightarrow>
    (tile_decode_error, (spatial_macroblock list \<times> high_pass_state) \<times> tile_quantizers) result" where
  "frequency_high packet plane quantizers decoded low_indices columns rows =
     (case run_try parse_packet_prefix (\<lambda>_. parse_high_pass_packet plane quantizers) (packet_new packet) of
        (header, r) \<Rightarrow>
          let_try header (\<lambda>quantizers.
          let_try (packet_body (frequency_high_step quantizers low_indices columns) columns rows r
            (decoded, \<lparr>hs_qp_indices = [], hs_model_bits = [], hs_modes = []\<rparr>)) (\<lambda>made.
          Ok (made, quantizers))))"

section \<open>The flexbits packet\<close>

definition add_flexbits :: "i32 list \<Rightarrow> i32 list \<Rightarrow> nat \<Rightarrow> nat \<Rightarrow> i32 list \<Rightarrow> (tile_decode_error, i32 list) result" where
  "add_flexbits vlc flex bits i destination =
     let_try (ok_or (ArithmeticOverflow ''HP flexbits'')
       (Option.bind (i32_checked_shl (vlc ! i) bits) (\<lambda>value. i32_checked_add value (flex ! i)))) (\<lambda>v.
     Ok (destination[i := v]))"

fun combine_blocks :: "nat list \<Rightarrow> nat \<Rightarrow> nat \<Rightarrow> i32 list \<Rightarrow> i32 list tile_decoder" where
  "combine_blocks [] bits trim high = give high"
| "combine_blocks (block # blocks) bits trim high =
     run_try (pure_try (block_window high block)) (\<lambda>vlc.
     run_try (from_entropy (decode_flex_block vlc bits trim)) (\<lambda>flex.
     run_try (pure_try (each_try (add_flexbits vlc flex bits) [1..<16] vlc)) (\<lambda>window.
     combine_blocks blocks bits trim (put_window high block window))))"

definition combine_flexbits :: "i32 list \<Rightarrow> nat \<Rightarrow> nat \<Rightarrow> i32 list tile_decoder" where
  "combine_flexbits high bits trim = combine_blocks HIERARCHICAL_BLOCK_ORDER bits trim high"

text \<open>The loop over the macroblocks; the ones before the position are rewritten.\<close>

fun flex_macroblocks :: "nat list \<Rightarrow> nat \<Rightarrow> nat \<Rightarrow> spatial_macroblock list \<Rightarrow> spatial_macroblock list tile_decoder" where
  "flex_macroblocks bits trim index [] = give []"
| "flex_macroblocks bits trim index (m # ms) =
     run_try (pure_try (index_or_panic bits index)) (\<lambda>b.
     run_try (combine_flexbits (sm_high m) b trim) (\<lambda>high.
     run_try (flex_macroblocks bits trim (index + 1) ms) (\<lambda>rest.
     give (m\<lparr>sm_high := high\<rparr> # rest))))"

definition decode_flexbits :: "u8 list \<Rightarrow> bool \<Rightarrow> spatial_macroblock list \<Rightarrow> high_pass_state \<Rightarrow>
    (tile_decode_error, spatial_macroblock list) result" where
  "decode_flexbits packet trim_present decoded state =
     fst (run_try parse_packet_prefix (\<lambda>_.
     run_try (if trim_present then tile_read_u8 4 else give 0) (\<lambda>trim.
     run_try (flex_macroblocks (hs_model_bits state) trim 0 decoded) (\<lambda>decoded.
     run_try consume_byte_alignment (\<lambda>_. give decoded)))) (packet_new packet))"

definition normalize_at :: "nat \<Rightarrow> nat \<Rightarrow> i32 list \<Rightarrow> (tile_decode_error, i32 list) result" where
  "normalize_at bits position high =
     let_try (index_or_panic high position) (\<lambda>v.
     let_try (ok_or (ArithmeticOverflow ''HP normalization'') (i32_checked_shl v bits)) (\<lambda>v.
     Ok (high[position := v])))"

definition ac_positions :: "nat list" where
  "ac_positions = concat (map (\<lambda>block. map (\<lambda>coefficient. block * 16 + coefficient) [1..<16]) [0..<16])"

fun finish_macroblocks :: "nat list \<Rightarrow> nat \<Rightarrow> spatial_macroblock list \<Rightarrow>
    (tile_decode_error, spatial_macroblock list) result" where
  "finish_macroblocks bits index [] = Ok []"
| "finish_macroblocks bits index (m # ms) =
     let_try (index_or_panic bits index) (\<lambda>b.
     let_try (each_try (normalize_at b) ac_positions (sm_high m)) (\<lambda>high.
     let_try (finish_macroblocks bits (index + 1) ms) (\<lambda>rest.
     Ok (m\<lparr>sm_high := high\<rparr> # rest))))"

definition finish_without_flexbits :: "spatial_macroblock list \<Rightarrow> high_pass_state \<Rightarrow>
    (tile_decode_error, spatial_macroblock list) result" where
  "finish_without_flexbits decoded state = finish_macroblocks (hs_model_bits state) 0 decoded"

section \<open>The tile\<close>

definition frequency_tile :: "u8 list \<Rightarrow> parsed_codestream \<Rightarrow> band_presence \<Rightarrow> frequency_packet_ranges \<Rightarrow>
    nat \<Rightarrow> nat \<Rightarrow> (tile_decode_error, spatial_macroblock list) result" where
  "frequency_tile source parsed bands ranges columns rows =
     (let plane = primary (cs_headers parsed) in
      let_try (packet_slice source (fr_dc ranges)) (\<lambda>packet.
      let_try (frequency_dc packet plane bands columns rows) (\<lambda>(decoded, quantizers).
      if bands = DcOnly then finalize_dc_only decoded quantizers (scaled plane)
      else
        let_try (ok_or (InvalidPlan ''missing LP frequency packet'') (fr_low_pass ranges)) (\<lambda>rng.
        let_try (packet_slice source rng) (\<lambda>packet.
        let_try (frequency_low packet plane quantizers decoded columns rows) (\<lambda>((decoded, low_indices), quantizers).
        if bands = NoHighPass
        then assign_quantizers decoded quantizers low_indices (replicate (length low_indices) 0) (scaled plane)
        else
          let_try (ok_or (InvalidPlan ''missing HP frequency packet'') (fr_high_pass ranges)) (\<lambda>rng.
          let_try (packet_slice source rng) (\<lambda>packet.
          let_try (frequency_high packet plane quantizers decoded low_indices columns rows)
            (\<lambda>((decoded, state), quantizers).
          let_try
            (case fr_flexbits ranges of
               Some rng \<Rightarrow>
                 let_try (packet_slice source rng) (\<lambda>packet.
                 decode_flexbits packet (trim_flexbits (flags (image (cs_headers parsed)))) decoded state)
             | None \<Rightarrow> finish_without_flexbits decoded state) (\<lambda>decoded.
          assign_quantizers decoded quantizers low_indices (hs_qp_indices state) (scaled plane)))))))))))"

end
