(* ===== verification/Frequency_Tile.thy ===== *)
theory Frequency_Tile
  imports Frequency
begin

text \<open>
  Frequency-mode tiles are safe and complete: every packet decoder leaves the adaptive states of the other
  bands alone, so the cycle of reset and adaptation bounds the counters of each packet; the macroblocks
  that the packets build up are well formed and end with usable quantizers.
\<close>

section \<open>What a band decoder leaves alone\<close>

definition keeps :: "('s \<Rightarrow> 'g) \<Rightarrow> ('s, 'e, 'a) action \<Rightarrow> bool" where
  "keeps g m \<longleftrightarrow> (\<forall>s. g (snd (m s)) = g s)"

lemma keeps_simps [simp]: "keeps g (give v)" "keeps g (fail e)" "keeps g (pure_try r)" "keeps g (inspect f)"
  by (simp_all add: keeps_def inspect_def)

lemma keeps_bind: "keeps g m \<Longrightarrow> (\<And>v. keeps g (f v)) \<Longrightarrow> keeps g (run_try m f)"
  unfolding keeps_def
proof (intro allI)
  fix s assume m: "\<forall>s. g (snd (m s)) = g s" and f: "\<And>v. \<forall>s. g (snd (f v s)) = g s"
  obtain x t where run: "m s = (x, t)" by (cases "m s")
  then show "g (snd (run_try m f s)) = g s" using m [rule_format, of s] f [rule_format, of _ t]
    by (cases x) (simp_all add: run_try_step)
qed

lemma keeps_if: "keeps g m \<Longrightarrow> keeps g n \<Longrightarrow> keeps g (if b then m else n)"
  by simp

lemma keeps_split: "(\<And>a b. keeps g (f a b)) \<Longrightarrow> keeps g (case p of (a, b) \<Rightarrow> f a b)"
  by (cases p) simp

definition beside_dc :: "tile_parts \<Rightarrow> ac_vlc_state \<times> ac_vlc_state \<times> cbphp_state" where
  "beside_dc = (\<lambda>(r, e, c). (lp_vlc e, hp_vlc e, c))"

definition beside_low :: "tile_parts \<Rightarrow> dc_vlc_state \<times> ac_vlc_state \<times> cbphp_state" where
  "beside_low = (\<lambda>(r, e, c). (dc_vlc e, hp_vlc e, c))"

definition beside_high :: "tile_parts \<Rightarrow> dc_vlc_state \<times> ac_vlc_state" where
  "beside_high = (\<lambda>(r, e, c). (dc_vlc e, lp_vlc e))"

lemmas beside_defs = beside_dc_def beside_low_def beside_high_def

lemma keeps_parts [simp]:
  "keeps beside_dc (with_reader m)" "keeps beside_low (with_reader m)" "keeps beside_high (with_reader m)"
  "keeps beside_dc (with_dc_vlc d)" "keeps beside_dc (with_dc_model u)"
  "keeps beside_low (with_lp_model u)" "keeps beside_high (with_hp_model u)" "keeps beside_high (with_cbphp b)"
  by (auto simp: keeps_def beside_defs with_reader_def with_dc_vlc_def with_dc_model_def with_lp_model_def
      with_hp_model_def with_cbphp_def on_part_def split: prod.splits)

lemma keeps_blocks [simp]:
  "keeps beside_low (lp_block class start out)" "keeps beside_low (refine_low_pass out bits)"
  "keeps beside_high (hp_block class direction out)"
  by (auto simp: keeps_def beside_defs lp_block_def hp_block_def refine_low_pass_def split: prod.splits)

lemma decode_dc_band_keeps: "keeps beside_dc (decode_dc_band decoded position)"
  unfolding decode_dc_band_def by (intro keeps_bind) simp_all

lemma decode_low_pass_keeps: "keeps beside_low (decode_low_pass out)"
  unfolding decode_low_pass_def by (intro keeps_bind keeps_split keeps_if) simp_all

lemma hp_blocks_keeps: "keeps beside_high (hp_blocks blocks class direction bits payload coded n out)"
  by (induction blocks arbitrary: coded n out) (auto intro!: keeps_bind keeps_split simp del: One_nat_def)

lemma decode_vlc_keeps: "keeps beside_high (decode_vlc position mode payload)"
  unfolding decode_vlc_def by (intro keeps_bind keeps_split hp_blocks_keeps) simp_all

text \<open>The parts before a macroblock: the counters in their cycle, the other bands as they started.\<close>

definition quiet_dc :: "nat \<Rightarrow> tile_parts \<Rightarrow> bool" where
  "quiet_dc w p \<longleftrightarrow> (case beside_dc p of (l, h, c) \<Rightarrow> ac_ok 64 l \<and> ac_ok 64 h \<and> cbphp_ok 3 w 64 c)"

definition quiet_low :: "nat \<Rightarrow> tile_parts \<Rightarrow> bool" where
  "quiet_low w p \<longleftrightarrow> (case beside_low p of (d, h, c) \<Rightarrow> dc_ok 64 d \<and> ac_ok 64 h \<and> cbphp_ok 3 w 64 c)"

definition quiet_high :: "nat \<Rightarrow> tile_parts \<Rightarrow> bool" where
  "quiet_high w p \<longleftrightarrow> (case beside_high p of (d, l) \<Rightarrow> dc_ok 64 d \<and> ac_ok 64 l)"

lemma keeps_leads:
  assumes "leads (parts_ok n w B T) m (parts_ok n w C U) Q" "keeps g m" "\<And>p q. g p = g q \<Longrightarrow> P p = P q"
  shows "leads (\<lambda>p. parts_ok n w B T p \<and> P p) m (\<lambda>p. parts_ok n w C U p \<and> P p) Q"
  using assms(1,2) unfolding leads_def keeps_def by (metis assms(3))

lemma quiet_beside: "beside_dc p = beside_dc q \<Longrightarrow> quiet_dc w p = quiet_dc w q"
  "beside_low p = beside_low q \<Longrightarrow> quiet_low w p = quiet_low w q"
  "beside_high p = beside_high q \<Longrightarrow> quiet_high w p = quiet_high w q"
  by (simp_all add: quiet_dc_def quiet_low_def quiet_high_def)

lemma start_parts:
  assumes "packet_ok r"
  shows "parts_ok 3 w 64 32 (r, entropy_reset_tile tile_entropy_new, cbphp_new w)"
    "quiet_dc w (r, entropy_reset_tile tile_entropy_new, cbphp_new w)"
    "quiet_low w (r, entropy_reset_tile tile_entropy_new, cbphp_new w)"
    "quiet_high w (r, entropy_reset_tile tile_entropy_new, cbphp_new w)"
  using assms tile_entropy_new_ok cbphp_new_ok [of 3 w]
  by (auto simp: parts_ok_def quiet_dc_def quiet_low_def quiet_high_def beside_defs entropy_ok_def
      entropy_reset_tile_def cbphp_new_def)

text \<open>Adaptation of one band at a boundary, after a macroblock that moved only this band.\<close>

lemma band_settles:
  assumes "parts_ok 3 w B T (r, e, c)"
  shows "quiet_dc w (r, e, c) \<Longrightarrow> parts_ok 3 w 64 T (r, e\<lparr>dc_vlc := dc_adapt (dc_vlc e)\<rparr>, c)"
    "quiet_low w (r, e, c) \<Longrightarrow> parts_ok 3 w 64 T (r, e\<lparr>lp_vlc := ac_adapt (lp_vlc e)\<rparr>, c)"
    "quiet_high w (r, e, c) \<Longrightarrow> parts_ok 3 w 64 T (r, e\<lparr>hp_vlc := ac_adapt (hp_vlc e)\<rparr>, cbphp_adapt c)"
  using assms
  by (auto simp: parts_ok_def entropy_ok_def quiet_dc_def quiet_low_def quiet_high_def beside_defs
      intro: dc_adapt_settles ac_adapt_settles cbphp_adapt_ok)

lemma adapt_turn:
  assumes "parts_ok 3 w (cycle_bound C x + C) (32 + D * int (x mod 16) + D) (r, e, c)"
    and "0 \<le> C" "0 \<le> D" "y = (if x + 1 = w then 0 else x + 1)"
  shows "quiet_dc w (r, e, c) \<Longrightarrow> parts_ok 3 w (cycle_bound C y) (cycle_total D y)
      (r, if at_boundary x w then e\<lparr>dc_vlc := dc_adapt (dc_vlc e)\<rparr> else e, c)"
    "quiet_low w (r, e, c) \<Longrightarrow> parts_ok 3 w (cycle_bound C y) (cycle_total D y)
      (r, if at_boundary x w then e\<lparr>lp_vlc := ac_adapt (lp_vlc e)\<rparr> else e, c)"
    "quiet_high w (r, e, c) \<Longrightarrow> parts_ok 3 w (cycle_bound C y) (cycle_total D y)
      (r, if at_boundary x w then e\<lparr>hp_vlc := ac_adapt (hp_vlc e)\<rparr> else e, if at_boundary x w then cbphp_adapt c else c)"
  by (rule cycle_turn [OF assms], simp add: at_boundary_def band_settles [OF assms(1)], simp add: at_boundary_def)+

lemma adapt_quiet [simp]:
  "quiet_dc w (r, if b then e\<lparr>dc_vlc := d\<rparr> else e, c) = quiet_dc w (r, e, c)"
  "quiet_low w (r, if b then e\<lparr>lp_vlc := l\<rparr> else e, c) = quiet_low w (r, e, c)"
  by (simp_all add: quiet_dc_def quiet_low_def beside_defs)

lemma reset_quiet [simp]: "quiet_low w (r, reset_scan_totals e, c) = quiet_low w (r, e, c)"
  "quiet_high w (r, reset_scan_totals e, c) = quiet_high w (r, e, c)"
  by (simp_all add: quiet_low_def quiet_high_def beside_defs reset_scan_totals_def)

section \<open>Packets\<close>

text \<open>Before macroblock \<open>k\<close> of a packet: the parts, and what has been built.\<close>

definition packet_holds :: "nat \<Rightarrow> (nat \<Rightarrow> tile_parts \<Rightarrow> bool) \<Rightarrow> int \<Rightarrow> int \<Rightarrow> 't set \<Rightarrow> tile_parts \<times> 't \<Rightarrow> bool" where
  "packet_holds w quiet B T A = (\<lambda>(p, t). parts_ok 3 w B T p \<and> quiet w p \<and> t \<in> A)"

definition packet_at :: "nat \<Rightarrow> (nat \<Rightarrow> tile_parts \<Rightarrow> bool) \<Rightarrow> int \<Rightarrow> int \<Rightarrow> (nat \<Rightarrow> 't set) \<Rightarrow> nat \<Rightarrow> tile_parts \<times> 't \<Rightarrow> bool" where
  "packet_at w quiet C D A k = packet_holds w quiet (cycle_bound C (k mod w)) (cycle_total D (k mod w)) (A k)"

lemma on_packet_attains:
  assumes "leads (\<lambda>p. parts_ok 3 w B T p \<and> quiet w p) m (\<lambda>p. parts_ok 3 w C U p \<and> quiet w p) Q"
  shows "attains (packet_holds w quiet B T A) (on_packet m) (\<lambda>v s. packet_holds w quiet C U A s \<and> Q v)"
  unfolding on_packet_def
  by (rule attains_on_part [OF attains_leads [OF assms]]) (auto simp: packet_holds_def)

lemma reader_quiet:
  assumes "upholds packet_ok m Q" "\<And>p q. g p = g q \<Longrightarrow> quiet w p = quiet w q" "keeps g (with_reader m)"
  shows "leads (\<lambda>p. parts_ok 3 w B T p \<and> quiet w p) (with_reader m) (\<lambda>p. parts_ok 3 w B T p \<and> quiet w p) Q"
  by (rule keeps_leads [OF with_reader_leads [OF assms(1)] assms(3,2)])

lemma each_run_attains:
  assumes "\<And>k. k < n \<Longrightarrow> attains (H k) (f (g k)) (\<lambda>_. H (Suc k))"
  shows "j \<le> n \<Longrightarrow> attains (H j) (each_run f (map g [j..<n])) (\<lambda>_. H n)"
proof (induction "n - j" arbitrary: j)
  case 0
  then show ?case by (simp add: attains_def)
next
  case (Suc m)
  then have "[j..<n] = j # [Suc j..<n]" by (simp add: upt_rec)
  then show ?case using attains_bind [OF assms [of j] Suc.hyps(1) [of "Suc j"]] Suc by simp
qed

text \<open>A packet whose steps lead from each macroblock to the next builds the last stage.\<close>

lemma packet_body_yields:
  assumes "\<And>k. k < columns * rows \<Longrightarrow> attains (packet_at columns quiet C D A k) (step (position_of columns k))
      (\<lambda>_. packet_at columns quiet C D A (Suc k))"
    and "packet_ok r" "quiet columns (r, entropy_reset_tile tile_entropy_new, cbphp_new columns)" "start \<in> A 0" "0 \<le> C" "0 \<le> D"
  shows "yields (packet_body step columns rows r start) (\<lambda>made. made \<in> A (columns * rows))"
proof -
  let ?s = "((r, entropy_reset_tile tile_entropy_new, cbphp_new columns), start)"
  have loop: "attains (packet_at columns quiet C D A 0) (each_run step (raster columns rows))
      (\<lambda>_. packet_at columns quiet C D A (columns * rows))"
    using each_run_attains [of "columns * rows" "packet_at columns quiet C D A" step "position_of columns" 0] assms(1)
    by (simp add: raster_positions)
  have aligned: "attains (packet_at columns quiet C D A (columns * rows)) (on_packet (with_reader consume_byte_alignment))
      (\<lambda>_ (p, t). t \<in> A (columns * rows))"
    unfolding on_packet_def
    by (rule attains_on_part [OF attains_leads [OF with_reader_leads [OF consume_alignment_upholds]]])
      (auto simp: packet_at_def packet_holds_def)
  have "packet_at columns quiet C D A 0 ?s"
    using start_parts(1) [OF assms(2), of columns] assms(3-6) cycle_small [of C D 0]
    by (auto simp: packet_at_def packet_holds_def cycle_total_def intro: parts_ok_mono)
  moreover obtain x p t where run: "run_try (each_run step (raster columns rows))
      (\<lambda>_. on_packet (with_reader consume_byte_alignment)) ?s = (x, p, t)" by (metis surj_pair)
  ultimately have "x \<noteq> Panic" "x = Ok v \<Longrightarrow> t \<in> A (columns * rows)" for v
    using attainsD [OF attains_bind [OF loop aligned] _ run] by simp_all
  then show ?thesis by (cases x) (simp_all add: packet_body_def run)
qed

section \<open>The DC packet\<close>

definition macroblock_ok :: "band_presence \<Rightarrow> spatial_macroblock \<Rightarrow> bool" where
  "macroblock_ok bands m \<longleftrightarrow> i32_area 16 (sm_low m) \<and> i32_area 256 (sm_high m) \<and> sm_bands m = bands"

definition tile_ok :: "nat \<Rightarrow> band_presence \<Rightarrow> spatial_macroblock list \<Rightarrow> bool" where
  "tile_ok columns bands ms \<longleftrightarrow> (\<forall>k<length ms. macroblock_ok bands (ms ! k) \<and>
     mode_possible (k mod columns) (k div columns) (sm_prediction (ms ! k)))"

lemma tile_records: "tile_ok columns bands ms \<Longrightarrow> records_ok (map as_neighbour ms)"
  by (auto simp: tile_ok_def records_ok_def as_neighbour_def macroblock_ok_def in_set_conv_nth)

lemma frequency_dc_step_attains:
  assumes "0 < columns"
  shows "attains (packet_at columns quiet_dc 2 0 (\<lambda>k. {ms. length ms = k \<and> tile_ok columns bands ms}) k)
    (frequency_dc_step bands columns (position_of columns k))
    (\<lambda>_. packet_at columns quiet_dc 2 0 (\<lambda>k. {ms. length ms = k \<and> tile_ok columns bands ms}) (Suc k))"
proof -
  let ?A = "{ms. length ms = k \<and> tile_ok columns bands ms}" and ?A' = "{ms. length ms = Suc k \<and> tile_ok columns bands ms}"
  let ?x = "k mod columns" and ?y = "k div columns"
  let ?B = "cycle_bound 2 ?x"
  note small = cycle_small [of 2 0 ?x, simplified]
  have start: "attains (packet_holds columns quiet_dc ?B 32 ?A) (inspect snd)
      (\<lambda>ms s. packet_holds columns quiet_dc ?B 32 ?A s \<and> records_ok (map as_neighbour ms))"
    by (auto simp: attains_def inspect_def packet_holds_def intro: tile_records)
  have dc: "attains (packet_holds columns quiet_dc ?B 32 ?A) (on_packet (decode_dc_band d \<lparr>mp_width = columns, mp_x = ?x, mp_y = ?y\<rparr>))
      (\<lambda>p s. packet_holds columns quiet_dc (?B + 2) 32 ?A s \<and> in_i32 (dc_value p) \<and> mode_possible ?x ?y (dc_mode p))"
    if "records_ok d" for d
    by (rule attains_weaken [OF on_packet_attains [OF keeps_leads [OF decode_dc_band_leads [OF that]
            decode_dc_band_keeps quiet_beside(1)]]]) (use small in auto)
  have store: "attains (packet_holds columns quiet_dc (?B + 2) 32 ?A)
      (modify (\<lambda>(p, decoded). (p, decoded @ [\<lparr>sm_low = (replicate 16 0)[0 := dc_value v],
       sm_high = replicate 256 0, sm_quantizers = \<lparr>rq_dc = 1, rq_low_pass = 1, rq_high_pass = 1\<rparr>,
       sm_bands = bands, sm_prediction = dc_mode v, sm_hp_prediction = PredictNone, sm_lp_qp_index = 0\<rparr>])))
      (\<lambda>_. packet_holds columns quiet_dc (?B + 2) 32 ?A')"
    if "in_i32 (dc_value v) \<and> mode_possible ?x ?y (dc_mode v)" for v
    using that i32_area_update [OF i32_area_zero [of 16], of "dc_value v" 0] i32_area_zero [of 256]
    by (auto simp: attains_def modify_def packet_holds_def tile_ok_def macroblock_ok_def nth_append less_Suc_eq)
  have turn: "attains (packet_holds columns quiet_dc (?B + 2) 32 ?A') (modify (\<lambda>((r, e, c), decoded).
       ((r, if at_boundary ?x columns then e\<lparr>dc_vlc := dc_adapt (dc_vlc e)\<rparr> else e, c), decoded)))
      (\<lambda>_. packet_at columns quiet_dc 2 0 (\<lambda>k. {ms. length ms = k \<and> tile_ok columns bands ms}) (Suc k))"
    using adapt_turn(1) [of columns 2 ?x 0 _ _ _ "Suc k mod columns"] assms
    by (auto simp: attains_def modify_def packet_holds_def packet_at_def mod_Suc split: if_splits)
  have zero: "cycle_total 0 x = 32" for x by (simp add: cycle_total_def)
  show ?thesis
    unfolding frequency_dc_step_def position_of_def prod.case packet_at_def [of _ _ _ _ _ k] zero
    by (rule attains_bind [OF start], rule attains_assume, rule attains_bind [OF dc], assumption,
        rule attains_assume, rule attains_bind [OF store], assumption, rule turn)
qed

lemma prefix_upholds: "upholds packet_ok parse_packet_prefix (\<lambda>_. True)"
  unfolding parse_packet_prefix_def
  by (intro upholds_bind [OF qp_bits_upholds] upholds_if upholds_fail upholds_give) simp_all

text \<open>A header behind the packet prefix, and what follows on its reader.\<close>

lemma packet_yields:
  assumes "upholds packet_ok m P" "\<And>q r. packet_ok r \<Longrightarrow> P q \<Longrightarrow> yields (f q r) Q"
  shows "yields (case run_try parse_packet_prefix (\<lambda>_. m) (packet_new packet) of (header, r) \<Rightarrow> let_try header (\<lambda>q. f q r)) Q"
proof -
  obtain x r where run: "run_try parse_packet_prefix (\<lambda>_. m) (packet_new packet) = (x, r)" by fastforce
  have "upholds packet_ok (run_try parse_packet_prefix (\<lambda>_. m)) P" by (rule upholds_bind [OF prefix_upholds assms(1)])
  note d = upholdsD [OF this packet_new_valid, of packet]
  show ?thesis using d(2,4,5) run assms(2) by (cases x) auto
qed

lemma frequency_dc_yields:
  assumes "plane_ok plane" "columns * rows * 1108 < 2 ^ 63"
  shows "yields (frequency_dc packet plane bands columns rows) (\<lambda>(ms, q). length ms = columns * rows \<and>
    tile_ok columns bands ms \<and> phase_ok (components plane) DcParsed q)"
  unfolding frequency_dc_def
proof (rule packet_yields [OF parse_dc_packet_upholds [OF assms(1)]])
  fix q r assume q: "phase_ok (components plane) DcParsed q" and r: "packet_ok r"
  have count: "tile_usize_mul s columns rows = Ok (columns * rows)" "reserve_macroblocks (columns * rows) = Ok ()" for s
    using assms(2) by (simp_all add: tile_usize_mul_def reserve_macroblocks_def)
  have "yields (packet_body (frequency_dc_step bands columns) columns rows r [])
      (\<lambda>ms. ms \<in> {ms. length ms = columns * rows \<and> tile_ok columns bands ms})"
  proof (rule packet_body_yields [where C = 2 and D = 0 and quiet = quiet_dc and A = "\<lambda>k. {ms. length ms = k \<and> tile_ok columns bands ms}"])
    fix k assume "k < columns * rows"
    then have "0 < columns" by (cases columns) simp_all
    then show "attains (packet_at columns quiet_dc 2 0 (\<lambda>k. {ms. length ms = k \<and> tile_ok columns bands ms}) k)
      (frequency_dc_step bands columns (position_of columns k))
      (\<lambda>_. packet_at columns quiet_dc 2 0 (\<lambda>k. {ms. length ms = k \<and> tile_ok columns bands ms}) (Suc k))"
      by (rule frequency_dc_step_attains)
  qed (use r start_parts(2) in \<open>simp_all add: tile_ok_def\<close>)
  then show "yields (let_try (tile_usize_mul ''frequency DC macroblock count'' columns rows) (\<lambda>n.
        let_try (reserve_macroblocks n) (\<lambda>_.
        let_try (packet_body (frequency_dc_step bands columns) columns rows r []) (\<lambda>decoded. Ok (decoded, q)))))
      (\<lambda>(ms, q). length ms = columns * rows \<and> tile_ok columns bands ms \<and> phase_ok (components plane) DcParsed q)"
    unfolding count let_try_simps by (rule yields_bind) (use q in simp)
qed

section \<open>The low-pass packet\<close>

definition low_built :: "nat \<Rightarrow> nat \<Rightarrow> band_presence \<Rightarrow> nat \<Rightarrow> tile_quantizers \<Rightarrow> nat \<Rightarrow> (spatial_macroblock list \<times> nat list) set" where
  "low_built columns n bands cs q k = {(ms, is). length ms = n \<and> tile_ok columns bands ms \<and> length is = k \<and>
     (\<forall>i\<in>set is. i * cs + cs \<le> length (tq_low_pass q))}"

lemma tile_ok_update:
  assumes "tile_ok columns bands ms" "k < length ms" "macroblock_ok bands m" "sm_prediction m = sm_prediction (ms ! k)"
  shows "tile_ok columns bands (ms[k := m])"
  using assms by (auto simp: tile_ok_def nth_list_update)

lemma frequency_low_step_attains:
  assumes "0 < columns" "k < n" "1 \<le> cs" "phase_ok cs LpParsed q"
  shows "attains (packet_at columns quiet_low 64 16 (low_built columns n bands cs q) k)
    (frequency_low_step q columns (position_of columns k))
    (\<lambda>_. packet_at columns quiet_low 64 16 (low_built columns n bands cs q) (Suc k))"
proof -
  let ?x = "k mod columns" and ?y = "k div columns" and ?A = "low_built columns n bands cs q"
  let ?B = "cycle_bound 64 ?x" and ?T = "32 + 16 * int (?x mod 16)"
  let ?H = "\<lambda>B T k. packet_holds columns quiet_low B T (?A k)"
  let ?good = "\<lambda>ms. length ms = n \<and> tile_ok columns bands ms"
  note small = cycle_small [of 64 16 ?x, simplified]
  have index: "?y * columns + ?x = k" by (simp add: mult.commute)
  have reset: "attains (?H ?B (cycle_total 16 ?x) k)
      (if ?x mod 16 = 0 then on_packet (modify (\<lambda>(r, e, c). (r, reset_scan_totals e, c))) else give ()) (\<lambda>_. ?H ?B ?T k)"
    using cycle_reset [of 3 columns ?B 16 ?x]
    by (auto simp: attains_def packet_holds_def on_packet_def on_part_def modify_def split: prod.splits if_splits)
  have qp: "attains (?H ?B ?T k) (on_packet (with_reader (low_pass_index q)))
      (\<lambda>i s. ?H ?B ?T k s \<and> i * cs + cs \<le> length (tq_low_pass q))"
    by (rule on_packet_attains [OF reader_quiet [OF low_pass_index_upholds quiet_beside(2)]])
      (use assms(3,4) in \<open>simp_all add: phase_ok_def del: One_nat_def\<close>, (rule keeps_parts(2))?)
  let ?F = "\<lambda>B T ms. packet_holds columns quiet_low B T {t \<in> ?A k. fst t = ms}"
  have ins: "attains (?H ?B ?T k) (inspect (\<lambda>(p, decoded, indices). decoded)) (\<lambda>ms s. ?F ?B ?T ms s \<and> ?good ms)"
    by (auto simp: attains_def inspect_def packet_holds_def low_built_def)
  have get: "attains (?F ?B ?T ms) (pure_try (index_or_panic ms (?y * columns + ?x))) (\<lambda>m s. ?F ?B ?T ms s \<and> m = ms ! k)"
    if "?good ms" for ms
    unfolding index by (rule attains_pure) (use that assms(2) in simp_all)
  have low: "attains (?F ?B ?T ms) (on_packet (decode_low_pass (sm_low (ms ! k))))
      (\<lambda>low s. ?F (?B + 64) (?T + 16) ms s \<and> i32_area 16 low)" if "?good ms" for ms
  proof (rule on_packet_attains [OF keeps_leads [OF decode_low_pass_leads decode_low_pass_keeps quiet_beside(2)]])
    show "i32_area 16 (sm_low (ms ! k))" using that assms(2) by (auto simp: tile_ok_def macroblock_ok_def)
  qed (use small in auto)
  have predict: "attains (?F (?B + 64) (?T + 16) ms) (pure_try (predict_low_pass low (map as_neighbour ms)
      \<lparr>mp_width = columns, mp_x = ?x, mp_y = ?y\<rparr> (sm_prediction (ms ! k)) i))
      (\<lambda>low s. ?F (?B + 64) (?T + 16) ms s \<and> i32_area 16 low)" if "?good ms" "i32_area 16 low" for ms low i
  proof (rule attains_leads [OF pure_leads [OF predict_low_pass_yields [OF tile_records _ that(2)]]])
    show "tile_ok columns bands ms" using that(1) by simp
    show "mode_possible (mp_x \<lparr>mp_width = columns, mp_x = ?x, mp_y = ?y\<rparr>) (mp_y \<lparr>mp_width = columns, mp_x = ?x, mp_y = ?y\<rparr>)
        (sm_prediction (ms ! k))" using that(1) assms(2) by (simp add: tile_ok_def)
  qed
  have store: "attains (?F (?B + 64) (?T + 16) ms) (modify (\<lambda>(p, decoded, indices).
      (p, decoded[?y * columns + ?x := (ms ! k)\<lparr>sm_low := low, sm_lp_qp_index := i\<rparr>], indices @ [i])))
      (\<lambda>_. ?H (?B + 64) (?T + 16) (Suc k))"
    if "?good ms" "i32_area 16 low" "i * cs + cs \<le> length (tq_low_pass q)" for ms low i
    unfolding index
    using that assms(2) tile_ok_update [of columns bands ms k "(ms ! k)\<lparr>sm_low := low, sm_lp_qp_index := i\<rparr>"]
    by (auto simp: attains_def modify_def packet_holds_def low_built_def tile_ok_def macroblock_ok_def)
  have turn: "attains (?H (?B + 64) (?T + 16) (Suc k)) (modify (\<lambda>((r, e, c), made).
       ((r, if at_boundary ?x columns then e\<lparr>lp_vlc := ac_adapt (lp_vlc e)\<rparr> else e, c), made)))
      (\<lambda>_. packet_at columns quiet_low 64 16 ?A (Suc k))"
    using adapt_turn(2) [of columns 64 ?x 16 _ _ _ "Suc k mod columns"] assms(1)
    by (auto simp: attains_def modify_def packet_holds_def packet_at_def mod_Suc split: if_splits)
  show ?thesis
    unfolding frequency_low_step_def position_of_def prod.case packet_at_def [of _ _ _ _ _ k] Let_def
    by (rule attains_bind [OF reset], rule attains_bind [OF qp], rule attains_assume, rule attains_bind [OF ins],
        rule attains_assume, rule attains_bind [OF get], assumption, rule attains_assume, simp only:,
        rule attains_bind [OF low], assumption, rule attains_assume, rule attains_bind [OF predict], assumption+,
        rule attains_assume, rule attains_bind [OF store], assumption+, rule turn)
qed

lemma frequency_low_yields:
  assumes "plane_ok plane" "phase_ok (components plane) DcParsed q" "length ms = columns * rows" "tile_ok columns bands ms"
  shows "yields (frequency_low packet plane q ms columns rows) (\<lambda>((ms, is), q). length ms = columns * rows \<and>
    tile_ok columns bands ms \<and> phase_ok (components plane) LpParsed q \<and> length is = columns * rows \<and>
    (\<forall>i\<in>set is. i * components plane + components plane \<le> length (tq_low_pass q)))"
  unfolding frequency_low_def
proof (rule packet_yields [OF parse_low_pass_packet_upholds [OF assms(1,2)]])
  fix q r assume q: "phase_ok (components plane) LpParsed q" and r: "packet_ok r"
  let ?A = "low_built columns (columns * rows) bands (components plane) q"
  have "yields (packet_body (frequency_low_step q columns) columns rows r (ms, [])) (\<lambda>made. made \<in> ?A (columns * rows))"
  proof (rule packet_body_yields [where C = 64 and D = 16 and quiet = quiet_low and A = ?A])
    fix k assume k: "k < columns * rows"
    then have "0 < columns" by (cases columns) simp_all
    then show "attains (packet_at columns quiet_low 64 16 ?A k) (frequency_low_step q columns (position_of columns k))
        (\<lambda>_. packet_at columns quiet_low 64 16 ?A (Suc k))"
      by (rule frequency_low_step_attains [OF _ k _ q]) (use assms(1) in \<open>simp add: plane_ok_def\<close>)
  qed (use r start_parts(3) assms(3,4) in \<open>simp_all add: low_built_def\<close>)
  then show "yields (let_try (packet_body (frequency_low_step q columns) columns rows r (ms, [])) (\<lambda>made. Ok (made, q)))
      (\<lambda>((ms, is), q). length ms = columns * rows \<and>
        tile_ok columns bands ms \<and> phase_ok (components plane) LpParsed q \<and> length is = columns * rows \<and>
        (\<forall>i\<in>set is. i * components plane + components plane \<le> length (tq_low_pass q)))"
    by (rule yields_bind) (use q in \<open>auto simp: low_built_def\<close>)
qed

section \<open>The high-pass packet\<close>

definition high_built :: "nat \<Rightarrow> nat \<Rightarrow> band_presence \<Rightarrow> nat \<Rightarrow> tile_quantizers \<Rightarrow> nat \<Rightarrow>
    (spatial_macroblock list \<times> high_pass_state) set" where
  "high_built columns n bands cs q k = {(ms, s). length ms = n \<and> tile_ok columns bands ms \<and>
     length (hs_qp_indices s) = k \<and> length (hs_model_bits s) = k \<and> length (hs_modes s) = k \<and>
     (\<forall>b\<in>set (hs_model_bits s). b \<le> 15) \<and>
     (\<forall>i\<in>set (hs_qp_indices s). i * cs + cs \<le> length (tq_high_pass q))}"

lemma frequency_high_step_attains:
  assumes "0 < columns" "k < n" "1 \<le> cs" "phase_ok cs AllParsed q" "length is = n"
    and "\<forall>i\<in>set is. i * cs + cs \<le> length (tq_low_pass q)"
  shows "attains (packet_at columns quiet_high 1039 256 (high_built columns n bands cs q) k)
    (frequency_high_step q is columns (position_of columns k))
    (\<lambda>_. packet_at columns quiet_high 1039 256 (high_built columns n bands cs q) (Suc k))"
proof -
  let ?x = "k mod columns" and ?y = "k div columns" and ?A = "high_built columns n bands cs q"
  let ?B = "cycle_bound 1039 ?x" and ?T = "32 + 256 * int (?x mod 16)"
  let ?H = "\<lambda>B T k. packet_holds columns quiet_high B T (?A k)"
  let ?F = "\<lambda>B T ms. packet_holds columns quiet_high B T {t \<in> ?A k. fst t = ms}"
  let ?good = "\<lambda>ms. length ms = n \<and> tile_ok columns bands ms"
  let ?p = "\<lparr>mp_width = columns, mp_x = ?x, mp_y = ?y\<rparr>"
  note small = cycle_small [of 1039 256 ?x, simplified]
  have index: "?y * columns + ?x = k" by (simp add: mult.commute)
  have x: "?x < columns" using assms(1) by simp
  have reset: "attains (?H ?B (cycle_total 256 ?x) k)
      (if ?x mod 16 = 0 then on_packet (modify (\<lambda>(r, e, c). (r, reset_scan_totals e, c))) else give ()) (\<lambda>_. ?H ?B ?T k)"
    using cycle_reset [of 3 columns ?B 256 ?x]
    by (auto simp: attains_def packet_holds_def on_packet_def on_part_def modify_def split: prod.splits if_splits)
  have lp: "attains (?H ?B ?T k) (pure_try (index_or_panic is (?y * columns + ?x)))
      (\<lambda>i s. ?H ?B ?T k s \<and> i * cs + cs \<le> length (tq_low_pass q))"
    unfolding index by (rule attains_pure) (use assms(2,5,6) nth_mem [of k "is"] in auto)
  have qp: "attains (?H ?B ?T k) (on_packet (with_reader (high_pass_index q i)))
      (\<lambda>j s. ?H ?B ?T k s \<and> j * cs + cs \<le> length (tq_high_pass q))" if "i * cs + cs \<le> length (tq_low_pass q)" for i
    by (rule on_packet_attains [OF reader_quiet [OF high_pass_index_upholds [OF assms(3) _ _ that] quiet_beside(3)]])
      (use assms(4) in \<open>simp_all add: phase_ok_def\<close>, (rule keeps_parts(3))?)
  have ins: "attains (?H ?B ?T k) (inspect (\<lambda>(p, decoded, state). decoded)) (\<lambda>ms s. ?F ?B ?T ms s \<and> ?good ms)"
    by (auto simp: attains_def inspect_def packet_holds_def high_built_def)
  have get: "attains (?F ?B ?T ms) (pure_try (index_or_panic ms (?y * columns + ?x))) (\<lambda>m s. ?F ?B ?T ms s \<and> m = ms ! k)"
    if "?good ms" for ms
    unfolding index by (rule attains_pure) (use that assms(2) in simp_all)
  have high: "attains (?F ?B ?T ms) (on_packet (decode_vlc ?p mode VlcOnly))
      (\<lambda>(out, bits) s. ?F (?B + 1039) (?T + 256) ms s \<and> i32_area 256 out \<and> bits \<le> 15)" for ms mode
    by (rule attains_weaken [OF on_packet_attains [OF keeps_leads [OF decode_vlc_leads decode_vlc_keeps quiet_beside(3)]]])
      (use small x in auto)
  have store: "attains (?F (?B + 1039) (?T + 256) ms)
      (modify (\<lambda>(p, decoded, s). (p, decoded[?y * columns + ?x := (ms ! k)\<lparr>sm_high := out, sm_hp_prediction := mode\<rparr>],
       \<lparr>hs_qp_indices = hs_qp_indices s @ [j], hs_model_bits = hs_model_bits s @ [bits],
         hs_modes = hs_modes s @ [mode]\<rparr>)))
      (\<lambda>_. ?H (?B + 1039) (?T + 256) (Suc k))"
    if "?good ms" "i32_area 256 out" "bits \<le> 15" "j * cs + cs \<le> length (tq_high_pass q)" for ms out bits j mode
    unfolding index
    using that assms(2) tile_ok_update [of columns bands ms k "(ms ! k)\<lparr>sm_high := out, sm_hp_prediction := mode\<rparr>"]
    by (auto simp: attains_def modify_def packet_holds_def high_built_def tile_ok_def macroblock_ok_def)
  have turn: "attains (?H (?B + 1039) (?T + 256) (Suc k)) (modify (\<lambda>((r, e, c), made).
       ((r, if at_boundary ?x columns then e\<lparr>hp_vlc := ac_adapt (hp_vlc e)\<rparr> else e,
         if at_boundary ?x columns then cbphp_adapt c else c), made)))
      (\<lambda>_. packet_at columns quiet_high 1039 256 ?A (Suc k))"
    using adapt_turn(3) [of columns 1039 ?x 256 _ _ _ "Suc k mod columns"] assms(1)
    by (auto simp: attains_def modify_def packet_holds_def packet_at_def mod_Suc quiet_high_def beside_high_def
        split: if_splits)
  show ?thesis
    unfolding frequency_high_step_def position_of_def prod.case packet_at_def [of _ _ _ _ _ k] Let_def
    by (rule attains_bind [OF reset], rule attains_bind [OF lp], rule attains_assume, rule attains_bind [OF qp], assumption,
        rule attains_assume, rule attains_bind [OF ins], rule attains_assume, rule attains_bind [OF get], assumption,
        rule attains_assume, simp only:, rule attains_bind2 [OF high], rule attains_assume, elim conjE,
        rule attains_bind [OF store], rule conjI, assumption+, rule turn)
qed

lemma frequency_high_yields:
  assumes "plane_ok plane" "phase_ok (components plane) LpParsed q" "length ms = columns * rows" "tile_ok columns bands ms"
    and "length is = columns * rows" "\<forall>i\<in>set is. i * components plane + components plane \<le> length (tq_low_pass q)"
  shows "yields (frequency_high packet plane q ms is columns rows) (\<lambda>((ms, s), q'). tq_low_pass q' = tq_low_pass q \<and>
    phase_ok (components plane) AllParsed q' \<and>
    (ms, s) \<in> high_built columns (columns * rows) bands (components plane) q' (columns * rows))"
  unfolding frequency_high_def
proof (rule packet_yields)
  have "upholds packet_ok (parse_high_pass_packet plane q) (\<lambda>q'. tq_low_pass q' = tq_low_pass q)"
    unfolding parse_high_pass_packet_def
    by (rule upholds_bind2 [OF upholds_mono [OF parse_high_pass_upholds [OF assms(1)]]])
      (use assms(2) in \<open>auto simp: phase_ok_def lp_valid_def intro!: upholds_give\<close>)
  then show "upholds packet_ok (parse_high_pass_packet plane q) (\<lambda>q'. phase_ok (components plane) AllParsed q' \<and>
      tq_low_pass q' = tq_low_pass q)"
    using parse_high_pass_packet_upholds [OF assms(1,2)] unfolding upholds_def by (auto split: result.splits)
  fix q' r assume q: "phase_ok (components plane) AllParsed q' \<and> tq_low_pass q' = tq_low_pass q" and r: "packet_ok r"
  let ?A = "high_built columns (columns * rows) bands (components plane) q'"
  let ?start = "(ms, \<lparr>hs_qp_indices = [], hs_model_bits = [], hs_modes = []\<rparr>)"
  have "yields (packet_body (frequency_high_step q' is columns) columns rows r ?start) (\<lambda>made. made \<in> ?A (columns * rows))"
  proof (rule packet_body_yields [where C = 1039 and D = 256 and quiet = quiet_high and A = ?A])
    fix k assume k: "k < columns * rows"
    then have "0 < columns" by (cases columns) simp_all
    then show "attains (packet_at columns quiet_high 1039 256 ?A k) (frequency_high_step q' is columns (position_of columns k))
        (\<lambda>_. packet_at columns quiet_high 1039 256 ?A (Suc k))"
      by (rule frequency_high_step_attains [OF _ k]) (use q assms(1,5,6) in \<open>simp_all add: plane_ok_def\<close>)
  qed (use r start_parts(4) assms(3,4) in \<open>simp_all add: high_built_def\<close>)
  then show "yields (let_try (packet_body (frequency_high_step q' is columns) columns rows r ?start) (\<lambda>made. Ok (made, q')))
      (\<lambda>((ms, s), q'). tq_low_pass q' = tq_low_pass q \<and> phase_ok (components plane) AllParsed q' \<and>
        (ms, s) \<in> high_built columns (columns * rows) bands (components plane) q' (columns * rows))"
    by (rule yields_bind) (use q in auto)
qed

section \<open>The flexbits packet\<close>

lemma i32_shl_fits: "i32_checked_shl v n = Some w \<Longrightarrow> in_i32 w"
  using signed_take_bit_int_less_exp [of 31 "push_bit n v"] signed_take_bit_int_greater_eq_minus_exp [of 31 "push_bit n v"]
  by (auto simp: i32_checked_shl_def in_i32_def split: if_splits)

lemma combine_blocks_upholds:
  "\<forall>b\<in>set blocks. (b + 1) * 16 \<le> 256 \<Longrightarrow> i32_area 256 high \<Longrightarrow> upholds packet_ok (combine_blocks blocks bits trim high) (i32_area 256)"
proof (induction blocks arbitrary: high)
  case (Cons b blocks)
  then have b: "(b + 1) * 16 \<le> 256" "\<forall>b\<in>set blocks. (b + 1) * 16 \<le> 256" by simp_all
  note area = i32_area_window [OF Cons.prems(2) b(1)]
  let ?vlc = "take 16 (drop (b * 16) high)"
  have window: "yields (each_try (add_flexbits ?vlc flex bits) [1..<16] ?vlc) (i32_area 16)" for flex
    by (rule yields_each [where P = "i32_area 16"])
      (auto simp: add_flexbits_def area(2) outcome_simps intro!: yields_bind [OF yields_ok_or] i32_area_update
        split: Option.bind_splits)
  show ?case
    unfolding combine_blocks.simps area(1) run_try_pure
    by (rule upholds_bind [OF from_entropy_upholds [OF decode_flex_block_upholds]],
        rule upholds_bind [OF upholds_pure]) (use yieldsD [OF window] Cons.IH [OF b(2) area(3)] in auto)
qed (simp add: upholds_give)

definition all_ok :: "nat \<Rightarrow> band_presence \<Rightarrow> spatial_macroblock list \<Rightarrow> bool" where
  "all_ok n bands ms \<longleftrightarrow> length ms = n \<and> (\<forall>m\<in>set ms. macroblock_ok bands m)"

lemma tile_all_ok: "tile_ok columns bands ms \<Longrightarrow> all_ok (length ms) bands ms"
  by (auto simp: tile_ok_def all_ok_def in_set_conv_nth)

lemma flex_macroblocks_upholds:
  "\<forall>m\<in>set ms. macroblock_ok bands m \<Longrightarrow> index + length ms \<le> length bits \<Longrightarrow>
    upholds packet_ok (flex_macroblocks bits trim index ms) (all_ok (length ms) bands)"
proof (induction ms arbitrary: index)
  case (Cons m ms)
  have "upholds packet_ok (combine_flexbits (sm_high m) (bits ! index) trim) (i32_area 256)"
    unfolding combine_flexbits_def using block_maps_small(1) Cons.prems(1)
    by (intro combine_blocks_upholds) (simp_all add: macroblock_ok_def)
  then show ?case
    using Cons.prems
    by (auto intro!: upholds_bind [OF _ upholds_bind [OF Cons.IH upholds_give]] simp: all_ok_def macroblock_ok_def)
qed (simp add: upholds_give all_ok_def)

lemma decode_flexbits_yields:
  assumes "all_ok n bands ms" "length (hs_model_bits s) = n"
  shows "yields (decode_flexbits packet trim_present ms s) (all_ok n bands)"
proof -
  have byte: "upholds packet_ok (tile_read_u8 4) (\<lambda>_. True)"
    unfolding tile_read_u8_def by (intro upholds_bind [OF qp_bits_upholds] upholds_if upholds_fail upholds_give) simp_all
  have "upholds packet_ok (run_try parse_packet_prefix (\<lambda>_.
     run_try (if trim_present then tile_read_u8 4 else give 0) (\<lambda>trim.
     run_try (flex_macroblocks (hs_model_bits s) trim 0 ms) (\<lambda>decoded.
     run_try consume_byte_alignment (\<lambda>_. give decoded))))) (all_ok n bands)"
    by (rule upholds_bind [OF prefix_upholds], rule upholds_bind [OF upholds_if [OF byte upholds_give]], simp,
        rule upholds_bind [OF flex_macroblocks_upholds [of ms bands]])
      (use assms in \<open>auto simp: all_ok_def intro!: upholds_bind [OF consume_alignment_upholds] upholds_give\<close>)
  then show ?thesis
    unfolding decode_flexbits_def upholds_def yields_def using packet_new_valid [of packet] by blast
qed

lemma normalize_yields:
  assumes "i32_area 256 high"
  shows "yields (each_try (normalize_at bits) ac_positions high) (i32_area 256)"
proof (rule yields_each [where P = "i32_area 256"])
  fix position out assume p: "position \<in> set ac_positions" and out: "i32_area 256 out"
  have "position < 256" using p by (auto simp: ac_positions_def)
  then show "yields (normalize_at bits position out) (i32_area 256)" using out
    by (auto simp: normalize_at_def outcome_simps i32_area_def [of 256 out] dest: i32_shl_fits
        intro!: yields_bind [OF yields_ok_or] i32_area_update)
qed (rule assms)

lemma finish_macroblocks_yields:
  "\<forall>m\<in>set ms. macroblock_ok bands m \<Longrightarrow> index + length ms \<le> length bits \<Longrightarrow>
    yields (finish_macroblocks bits index ms) (all_ok (length ms) bands)"
proof (induction ms arbitrary: index)
  case (Cons m ms)
  have "yields (each_try (normalize_at (bits ! index)) ac_positions (sm_high m)) (i32_area 256)"
    using Cons.prems(1) by (intro normalize_yields) (simp add: macroblock_ok_def)
  moreover have "yields (finish_macroblocks bits (index + 1) ms) (all_ok (length ms) bands)"
    using Cons.IH [of "index + 1"] Cons.prems by simp
  ultimately show ?case using Cons.prems
    by (auto intro!: yields_bind [of "each_try _ _ _"] yields_bind [of "finish_macroblocks _ _ _"]
        simp: all_ok_def macroblock_ok_def simp del: each_try.simps)
qed (simp add: all_ok_def)

section \<open>The quantizers and the tile\<close>

definition complete :: "nat \<Rightarrow> band_presence \<Rightarrow> spatial_macroblock list \<Rightarrow> bool" where
  "complete n bands ms \<longleftrightarrow> all_ok n bands ms \<and> (\<forall>m\<in>set ms. steps_usable (sm_quantizers m))"

lemma assign_each:
  assumes "\<forall>((lp, hp), m)\<in>set xs. macroblock_ok bands m \<and> yields (reconstruction_steps \<lparr>qi_lp = lp, qi_hp = hp\<rparr> sc q) steps_usable"
  shows "complete k bands done \<Longrightarrow> yields (each_try (assign_steps q sc) xs done) (complete (k + length xs) bands)"
  using assms
proof (induction xs arbitrary: k "done")
  case (Cons x xs)
  obtain lp hp m where x: "x = ((lp, hp), m)" by (metis surj_pair)
  have m: "macroblock_ok bands m" "yields (reconstruction_steps \<lparr>qi_lp = lp, qi_hp = hp\<rparr> sc q) steps_usable"
    using Cons.prems(2) by (simp_all add: x)
  have "yields (assign_steps q sc x done) (complete (Suc k) bands)"
    unfolding x assign_steps_def prod.case
    by (rule yields_bind [OF m(2)]) (use m(1) Cons.prems(1) in \<open>auto simp: complete_def all_ok_def macroblock_ok_def\<close>)
  then show ?case using Cons.IH [of "Suc k"] Cons.prems(2) by (auto intro!: yields_bind [of "assign_steps _ _ _ _"])
qed simp

text \<open>Indices inside the tables give usable steps, in every phase of the tables.\<close>

lemma phase_steps:
  assumes "plane_ok plane" "phase_ok (components plane) ph q"
    and "lp * components plane + components plane \<le> length (tq_low_pass q)"
    and "hp * components plane + components plane \<le> length (tq_high_pass q)"
  shows "yields (reconstruction_steps \<lparr>qi_lp = lp, qi_hp = hp\<rparr> sc q) steps_usable"
proof -
  let ?q = "q\<lparr>hp_inherits_lp := False\<rparr>" and ?n = "components plane"
  have "sets_ok ?n (tq_high_pass q)"
    using assms(2) one_set [of ?n "tq_high_pass q"] by (auto simp: phase_ok_def hp_valid_def split: if_splits)
  then have ph: "phase_ok ?n AllParsed ?q" using assms(2) by (auto simp: phase_ok_def lp_valid_def hp_valid_def)
  have "yields (reconstruction_steps_for 0 \<lparr>qi_lp = lp, qi_hp = hp\<rparr> sc ?q) steps_usable"
    by (rule steps_yield [OF _ _ ph]) (use assms(1,3,4) in \<open>simp_all add: plane_ok_def\<close>)
  moreover have "reconstruction_steps_for 0 i sc ?q = reconstruction_steps_for 0 i sc q" for i
    by (simp add: reconstruction_steps_for_def cong: if_cong)
  ultimately show ?thesis by (simp add: reconstruction_steps_def)
qed

lemma assign_yields:
  assumes "plane_ok plane" "phase_ok (components plane) ph q" "all_ok n bands ms" "length lps = n" "length hps = n"
    and "\<forall>i\<in>set lps. i * components plane + components plane \<le> length (tq_low_pass q)"
    and "\<forall>i\<in>set hps. i * components plane + components plane \<le> length (tq_high_pass q)"
  shows "yields (assign_quantizers ms q lps hps sc) (complete n bands)"
proof -
  have "\<forall>((lp, hp), m)\<in>set (zip (zip lps hps) ms). macroblock_ok bands m \<and>
      yields (reconstruction_steps \<lparr>qi_lp = lp, qi_hp = hp\<rparr> sc q) steps_usable"
  proof (clarify)
    fix lp hp m assume x: "((lp, hp), m) \<in> set (zip (zip lps hps) ms)"
    then have "(lp, hp) \<in> set (zip lps hps)" "m \<in> set ms" by (rule set_zip_leftD, rule set_zip_rightD)
    moreover from this(1) have "lp \<in> set lps" "hp \<in> set hps" by (rule set_zip_leftD, rule set_zip_rightD)
    ultimately show "macroblock_ok bands m \<and> yields (reconstruction_steps \<lparr>qi_lp = lp, qi_hp = hp\<rparr> sc q) steps_usable"
      using assms(3,6,7) phase_steps [OF assms(1,2)] by (simp add: all_ok_def)
  qed
  from assign_each [OF this, of 0 "[]"] show ?thesis
    using assms(3-5) by (simp add: assign_quantizers_def all_ok_def complete_def)
qed

lemma first_set_fits: "table_ok n 1 vs \<Longrightarrow> 0 * n + n \<le> length vs" "sets_ok n vs \<Longrightarrow> 0 * n + n \<le> length vs"
  by (auto simp: table_ok_def sets_ok_def)

lemma finalize_yields:
  assumes "plane_ok plane" "length ms = n \<and> tile_ok columns bands ms \<and> phase_ok (components plane) DcParsed q"
  shows "yields (finalize_dc_only ms q sc) (complete n bands)"
proof -
  have "all_ok n bands ms" using assms(2) tile_all_ok by fastforce
  then have "\<forall>((lp, hp), m)\<in>set (map (\<lambda>m. ((0, 0), m)) ms). macroblock_ok bands m \<and>
      yields (reconstruction_steps \<lparr>qi_lp = lp, qi_hp = hp\<rparr> sc q) steps_usable"
    using assms(2) phase_steps [OF assms(1), of DcParsed q 0 0] first_set_fits
    by (auto simp: all_ok_def phase_ok_def lp_valid_def hp_valid_def)
  from assign_each [OF this, of 0 "[]"] show ?thesis
    using assms(2) by (simp add: finalize_dc_only_def complete_def all_ok_def)
qed

text \<open>What the low-pass packet leaves.\<close>

definition low_done :: "nat \<Rightarrow> nat \<Rightarrow> band_presence \<Rightarrow> image_plane_header \<Rightarrow>
    (spatial_macroblock list \<times> nat list) \<times> tile_quantizers \<Rightarrow> bool" where
  "low_done columns n bands plane = (\<lambda>((ms, is), q). length ms = n \<and> tile_ok columns bands ms \<and>
     phase_ok (components plane) LpParsed q \<and> length is = n \<and>
     (\<forall>i\<in>set is. i * components plane + components plane \<le> length (tq_low_pass q)))"

lemma no_high_yields:
  assumes "plane_ok plane" "low_done columns n bands plane ((ms, is), q)"
  shows "yields (assign_quantizers ms q is (replicate (length is) 0) sc) (complete n bands)"
  using assms(2) first_set_fits(1) tile_all_ok [of columns bands ms]
  by (intro assign_yields [OF assms(1), of LpParsed]) (auto simp: phase_ok_def low_done_def)

definition finish_high :: "u8 list \<Rightarrow> core_range option \<Rightarrow> bool \<Rightarrow> spatial_macroblock list \<Rightarrow> high_pass_state \<Rightarrow>
    (tile_decode_error, spatial_macroblock list) result" where
  "finish_high source flexbits trim_present ms s =
     (case flexbits of
        Some rng \<Rightarrow> let_try (packet_slice source rng) (\<lambda>packet. decode_flexbits packet trim_present ms s)
      | None \<Rightarrow> finish_without_flexbits ms s)"

lemma packet_slice_yields: "yields (packet_slice source rng) (\<lambda>_. True)"
  by (simp add: packet_slice_def tile_usize_add_def)

lemma finish_high_yields:
  assumes "(ms, s) \<in> high_built columns n bands cs q n"
  shows "yields (finish_high source flexbits trim_present ms s) (all_ok n bands)"
proof -
  have ms: "all_ok n bands ms" "length (hs_model_bits s) = n"
    using assms tile_all_ok [of columns bands ms] by (auto simp: high_built_def)
  then have "yields (finish_without_flexbits ms s) (all_ok n bands)"
    using finish_macroblocks_yields [of ms bands 0 "hs_model_bits s"]
    by (simp add: finish_without_flexbits_def all_ok_def)
  then show ?thesis
    using decode_flexbits_yields [OF ms] by (auto simp: finish_high_def intro!: yields_bind [OF packet_slice_yields] split: option.split)
qed

lemma high_yields:
  assumes "plane_ok plane" "low_done columns (columns * rows) bands plane ((ms, is), q)"
  shows "yields (let_try (frequency_high packet plane q ms is columns rows) (\<lambda>((ms, s), q).
      let_try (finish_high source flexbits trim_present ms s) (\<lambda>ms.
      assign_quantizers ms q is (hs_qp_indices s) sc))) (complete (columns * rows) bands)"
  using assms(2)
  by (intro yields_bind [OF frequency_high_yields [OF assms(1)]])
    (auto intro!: yields_bind [OF finish_high_yields] assign_yields [OF assms(1), of AllParsed]
      simp: high_built_def low_done_def)

text \<open>
  C2: a frequency-mode tile is safe and complete. For a plane header in range and a tile whose macroblocks
  fit the address space, whatever the packets hold, wherever they lie and whichever bands are wanted,
  decoding the tile band by band never panics; when it succeeds there are \<open>columns * rows\<close> macroblocks, each
  with sixteen low-frequency and 256 high-frequency \<open>i32\<close> coefficients, these bands, and steps between 1 and
  1015808.
\<close>

theorem frequency_tile_complete:
  assumes "plane_ok (primary (cs_headers p))" "columns * rows * 1108 < 2 ^ 63"
  shows "case frequency_tile source p bands ranges columns rows of
      Panic \<Rightarrow> False
    | Err e \<Rightarrow> True
    | Ok ms \<Rightarrow> length ms = columns * rows \<and> (\<forall>m\<in>set ms. i32_area 16 (sm_low m) \<and> i32_area 256 (sm_high m) \<and>
        sm_bands m = bands \<and> steps_usable (sm_quantizers m))"
proof -
  let ?plane = "primary (cs_headers p)"
  let ?Q = "complete (columns * rows) bands"
  have "yields (frequency_tile source p bands ranges columns rows) ?Q"
    unfolding frequency_tile_def Let_def finish_high_def [symmetric]
  proof (rule yields_bind [OF packet_slice_yields], rule yields_bind2 [OF frequency_dc_yields [OF assms]], rule yields_if,
      erule finalize_yields [OF assms(1)], rule yields_bind [OF yields_ok_or], rule TrueI, rule yields_bind [OF packet_slice_yields])
    fix ms q rng packet
    assume "length ms = columns * rows \<and> tile_ok columns bands ms \<and> phase_ok (components ?plane) DcParsed q"
    then have "yields (frequency_low packet ?plane q ms columns rows) (low_done columns (columns * rows) bands ?plane)"
      using frequency_low_yields [OF assms(1)] unfolding low_done_def by blast
    then show "yields (let_try (frequency_low packet ?plane q ms columns rows) (\<lambda>((ms, is), q).
        if bands = NoHighPass then assign_quantizers ms q is (replicate (length is) 0) (scaled ?plane)
        else
          let_try (ok_or (InvalidPlan ''missing HP frequency packet'') (fr_high_pass ranges)) (\<lambda>rng.
          let_try (packet_slice source rng) (\<lambda>packet.
          let_try (frequency_high packet ?plane q ms is columns rows) (\<lambda>((ms, s), q).
          let_try (finish_high source (fr_flexbits ranges) (trim_flexbits (flags (image (cs_headers p)))) ms s) (\<lambda>ms.
          assign_quantizers ms q is (hs_qp_indices s) (scaled ?plane))))))) ?Q"
      by (rule yields_bind) (auto intro!: yields_if no_high_yields [OF assms(1)] high_yields [OF assms(1)]
          yields_bind [OF packet_slice_yields] yields_bind [OF yields_ok_or] split: prod.split)
  qed
  then show ?thesis by (auto simp: yields_def complete_def all_ok_def macroblock_ok_def split: result.splits)
qed

definition frequency_sample :: parsed_codestream where
  "frequency_sample = \<lparr>primary_range = (0, 16), cs_headers = sample_header\<lparr>primary := gray_plane\<rparr>,
     directory = \<lparr>tile_offsets = [], profile_levels = [], tile_data_offset = 0\<rparr>, separate_alpha_headers = None,
     separate_alpha_directory = None, annex_a = None\<rparr>"

lemma frequency_tile_complete_witness:
  "frequency_tile [0, 0, 1, 0, 0x18, 0, 0, 0] frequency_sample DcOnly \<lparr>fr_dc = \<lparr>range_offset = 0, range_length = 8\<rparr>,
     fr_low_pass = None, fr_high_pass = None, fr_flexbits = None\<rparr> 2 1 \<noteq> Panic"
proof -
  have "plane_ok (primary (cs_headers frequency_sample))"
    by (simp add: plane_ok_def gray_plane_def quantizers_ok_def frequency_sample_def)
  then show ?thesis
    using frequency_tile_complete [where p = frequency_sample and columns = 2 and rows = 1 and source = "[0, 0, 1, 0, 0x18, 0, 0, 0]"
        and bands = DcOnly and ranges = "\<lparr>fr_dc = \<lparr>range_offset = 0, range_length = 8\<rparr>, fr_low_pass = None, fr_high_pass = None, fr_flexbits = None\<rparr>"]
    by auto
qed

section \<open>Packet ranges\<close>

definition packets_of :: "frequency_packet_ranges \<Rightarrow> core_range list" where
  "packets_of r = fr_dc r # map the (filter (\<lambda>s. s \<noteq> None) [fr_low_pass r, fr_high_pass r, fr_flexbits r])"

definition present :: "nat option list \<Rightarrow> nat list" where
  "present starts = map the (filter (\<lambda>s. s \<noteq> None) starts)"

lemma present_simps [simp]: "present [] = []" "present (xs @ ys) = present xs @ present ys"
  "present (None # xs) = present xs" "present (Some s # xs) = s # present xs"
  by (simp_all add: present_def)

lemma present_mem: "s \<in> set (present starts) \<longleftrightarrow> Some s \<in> set starts"
  by (induction starts) (auto simp: present_def)

text \<open>A range that starts at a present entry and ends at the next one.\<close>

definition spans :: "nat list \<Rightarrow> nat \<Rightarrow> core_range \<Rightarrow> bool" where
  "spans xs e r \<longleftrightarrow> range_offset r + range_length r = packet_end xs e (range_offset r)"

lemma range_at_only:
  assumes "range_at i starts xs e = Ok r"
  shows "i < length starts \<and> starts ! i = Some (range_offset r) \<and> spans xs e r"
  using assms by (auto simp: range_at_def let_try_eq_Ok Let_def spans_def packet_end_def byte_range_new_def
      usize_add_def map_err_Ok outcome_simps split: if_splits)

lemma range_at_no_panic: "i < length starts \<Longrightarrow> range_at i starts xs e \<noteq> Panic"
  by (auto simp: range_at_def let_try_eq_Panic Let_def byte_range_new_def usize_add_def split: if_splits)

lemma band_window:
  assumes "b \<in> {1..4}" "first + b \<le> length starts"
  shows "take b (drop first starts) = map (\<lambda>i. starts ! (first + i)) [0..<b]"
  using assms by (intro nth_equalityI) simp_all

lemma tile_ranges_only:
  assumes "tile_ranges b starts xs e t ranges = Ok ranges'" "b \<in> {1..4}" "t * b + b \<le> length starts"
  shows "\<exists>r. ranges' = ranges @ [r] \<and> map range_offset (packets_of r) = present (take b (drop (t * b) starts)) \<and>
    (\<forall>q\<in>set (packets_of r). spans xs e q)"
proof -
  consider "b = 1" | "b = 2" | "b = 3" | "b = 4" using assms(2) by fastforce
  then show ?thesis unfolding band_window [OF assms(2,3)]
    by cases (use assms(1) in \<open>auto simp: tile_ranges_def range_if_def let_try_eq_Ok Let_def packets_of_def
        numeral_eq_Suc index_or_panic_def dest!: range_at_only split: if_splits\<close>)
qed

lemma tile_ranges_no_panic:
  assumes "b \<in> {1..4}" "t * b + b \<le> length starts"
  shows "tile_ranges b starts xs e t ranges \<noteq> Panic"
  using assms range_at_no_panic
  by (auto simp: tile_ranges_def range_if_def let_try_eq_Panic Let_def)

lemma starts_kept:
  assumes "each_try (packet_band_start base e n b) xs ss = Ok starts" "\<forall>s\<in>set (present ss). s < e"
  shows "length starts = length ss + length xs \<and> (\<forall>s\<in>set (present starts). s < e)"
  using assms
proof (induction xs arbitrary: ss)
  case (Cons x xs)
  obtain v where v: "packet_band_start base e n b x ss = Ok v" "each_try (packet_band_start base e n b) xs v = Ok starts"
    using Cons.prems(1) by (auto simp: let_try_eq_Ok)
  have "length v = Suc (length ss) \<and> (\<forall>s\<in>set (present v). s < e)"
    using v(1) Cons.prems(2)
    by (auto simp: packet_band_start_def tile_usize_add_def let_try_eq_Ok split: prod.splits if_splits)
  then show ?case using Cons.IH [OF v(2)] by simp
qed simp

text \<open>
  The starts of the packets of a range of index entries: with four bands to a tile, a zero in the fourth
  entry of a tile says that it has no flexbits.
\<close>

definition flexbits_absent :: "nat \<Rightarrow> nat list \<Rightarrow> nat \<Rightarrow> bool" where
  "flexbits_absent b offsets i \<longleftrightarrow> b = 4 \<and> i mod 4 = 3 \<and> offsets ! i = 0"

definition entry_starts :: "nat \<Rightarrow> nat \<Rightarrow> nat list \<Rightarrow> nat list \<Rightarrow> nat list" where
  "entry_starts base b offsets is = map (\<lambda>i. base + offsets ! i) (filter (\<lambda>i. \<not> flexbits_absent b offsets i) is)"

lemma starts_are_entries:
  assumes "each_try (packet_band_start base e n b) xs ss = Ok starts"
  shows "starts = ss @ map (\<lambda>(i, relative). if is_flexbits_escape i b relative then None else Some (base + relative)) xs"
  using assms
proof (induction xs arbitrary: ss)
  case (Cons x xs)
  obtain v where v: "packet_band_start base e n b x ss = Ok v" "each_try (packet_band_start base e n b) xs v = Ok starts"
    using Cons.prems(1) by (auto simp: let_try_eq_Ok)
  have "v = ss @ [case x of (i, relative) \<Rightarrow> if is_flexbits_escape i b relative then None else Some (base + relative)]"
    using v(1) by (auto simp: packet_band_start_def tile_usize_add_def let_try_eq_Ok split: prod.splits if_splits)
  then show ?case using Cons.IH [OF v(2)] by simp
qed simp

lemma present_entries:
  "present (map (\<lambda>i. if is_flexbits_escape i b (offsets ! i) then None else Some (base + offsets ! i)) is) =
     entry_starts base b offsets is"
  by (induction "is") (auto simp: entry_starts_def flexbits_absent_def is_flexbits_escape_def)

lemma tile_entries:
  assumes "each_try (packet_band_start base e n b) (enumerate 0 offsets) [] = Ok starts" "t * b + b \<le> length offsets"
  shows "present (take b (drop (t * b) starts)) = entry_starts base b offsets [t * b..<t * b + b]"
proof -
  have "starts = map (\<lambda>i. if is_flexbits_escape i b (offsets ! i) then None else Some (base + offsets ! i)) [0..<length offsets]"
    using starts_are_entries [OF assms(1)] by (intro nth_equalityI) (simp_all add: nth_enumerate_eq)
  then have "take b (drop (t * b) starts) =
      map (\<lambda>i. if is_flexbits_escape i b (offsets ! i) then None else Some (base + offsets ! i)) [t * b..<t * b + b]"
    using assms(2) by (simp add: drop_map take_map)
  then show ?thesis by (simp only: present_entries)
qed

lemma starts_no_panic_frequency: "each_try (packet_band_start base e n b) xs ss \<noteq> Panic"
  by (induction xs arbitrary: ss)
    (auto simp: packet_band_start_def tile_usize_add_def let_try_eq_Panic split: prod.splits if_splits)

lemma all_tile_ranges:
  assumes "b \<in> {1..4}"
  shows "k * b \<le> length starts \<Longrightarrow> each_try (tile_ranges b starts xs e) [0..<k] [] \<noteq> Panic \<and>
    (\<forall>rs. each_try (tile_ranges b starts xs e) [0..<k] [] = Ok rs \<longrightarrow> length rs = k \<and>
      map range_offset (concat (map packets_of rs)) = present (take (k * b) starts) \<and>
      (\<forall>t<k. map range_offset (packets_of (rs ! t)) = present (take b (drop (t * b) starts))) \<and>
      (\<forall>r\<in>set rs. \<forall>q\<in>set (packets_of r). spans xs e q))"
proof (induction k)
  case (Suc k)
  then have k: "k * b + b \<le> length starts" by simp
  note IH = Suc.IH [OF add_leD1 [OF k]]
  have whole: "take (Suc k * b) starts = take (k * b) starts @ take b (drop (k * b) starts)"
    using take_add [of "k * b" b starts] by (simp add: add.commute)
  show ?case
  proof (intro conjI allI impI)
    show "each_try (tile_ranges b starts xs e) [0..<Suc k] [] \<noteq> Panic"
      using IH tile_ranges_no_panic [OF assms k] by (simp add: each_try_append let_try_eq_Panic)
    fix rs assume "each_try (tile_ranges b starts xs e) [0..<Suc k] [] = Ok rs"
    then obtain qs where qs: "each_try (tile_ranges b starts xs e) [0..<k] [] = Ok qs" "tile_ranges b starts xs e k qs = Ok rs"
      by (auto simp: each_try_append let_try_eq_Ok)
    obtain r where r: "rs = qs @ [r]" "map range_offset (packets_of r) = present (take b (drop (k * b) starts))"
      "\<forall>q\<in>set (packets_of r). spans xs e q" using tile_ranges_only [OF qs(2) assms k] by blast
    show "length rs = Suc k" "map range_offset (concat (map packets_of rs)) = present (take (Suc k * b) starts)"
      "\<forall>r\<in>set rs. \<forall>q\<in>set (packets_of r). spans xs e q"
      using IH qs(1) r unfolding whole by auto
    show "map range_offset (packets_of (rs ! t)) = present (take b (drop (t * b) starts))" if "t < Suc k" for t
      using IH qs(1) r that by (cases "t = k") (auto simp: nth_append)
  qed
qed simp

lemma packet_end_strict:
  assumes "sorted xs" "distinct xs" "s \<in> set xs" "\<forall>t\<in>set xs. t < e"
  shows "s < packet_end xs e s \<and> packet_end xs e s \<le> e \<and> (\<forall>t\<in>set xs. s < t \<longrightarrow> packet_end xs e s \<le> t)"
proof -
  obtain k where k: "binary_search xs s = Some k" "k < length xs" "xs ! k = s"
    using binary_search_present [OF assms(3)] binary_search_Some by blast
  have "s < packet_end xs e s"
  proof (cases "k + 1 < length xs")
    case True
    then have "xs ! k \<le> xs ! (k + 1)" "xs ! k \<noteq> xs ! (k + 1)"
      using sorted_nth_mono [OF assms(1)] nth_eq_iff_index_eq [OF assms(2)] by simp_all
    then show ?thesis using k True by (simp add: packet_end_def)
  qed (use k assms(3,4) in \<open>simp add: packet_end_def\<close>)
  then show ?thesis using packet_end_order [OF assms(1-3), of e] assms(4) by (auto simp: less_imp_le)
qed

text \<open>The packets of distinct starts, each of which ends at the next start.\<close>

lemma spanning_packets:
  assumes "map range_offset ps = starts" "distinct (sort starts)" "\<forall>s\<in>set starts. base \<le> s \<and> s < e"
    and "\<forall>q\<in>set ps. spans (sort starts) e q"
  shows "distinct (map range_offset ps)"
    and "\<forall>a\<in>set ps. base \<le> range_offset a \<and> 0 < range_length a \<and> range_offset a + range_length a \<le> e \<and>
      (\<forall>c\<in>set ps. range_offset a < range_offset c \<longrightarrow> range_offset a + range_length a \<le> range_offset c)"
proof -
  show "distinct (map range_offset ps)" using assms(1,2) by simp
  have mem: "range_offset q \<in> set starts" if "q \<in> set ps" for q using that assms(1) by (metis image_eqI set_map)
  have ends: "a < packet_end (sort starts) e a \<and> packet_end (sort starts) e a \<le> e \<and>
      (\<forall>c\<in>set starts. a < c \<longrightarrow> packet_end (sort starts) e a \<le> c)" if "a \<in> set starts" for a
    using packet_end_strict [of "sort starts" a e] that assms(2,3) by simp
  have "base \<le> range_offset a \<and> 0 < range_length a \<and> range_offset a + range_length a \<le> e \<and>
      (\<forall>c\<in>set ps. range_offset a < range_offset c \<longrightarrow> range_offset a + range_length a \<le> range_offset c)"
    if "a \<in> set ps" for a
  proof -
    have "range_offset a + range_length a = packet_end (sort starts) e (range_offset a)"
      using assms(4) that by (simp add: spans_def)
    then show ?thesis using ends [OF mem [OF that]] mem assms(3) mem [OF that] by (metis less_add_same_cancel1)
  qed
  then show "\<forall>a\<in>set ps. base \<le> range_offset a \<and> 0 < range_length a \<and> range_offset a + range_length a \<le> e \<and>
      (\<forall>c\<in>set ps. range_offset a < range_offset c \<longrightarrow> range_offset a + range_length a \<le> range_offset c)" by blast
qed

text \<open>
  C38: band packets start at their index entries and share no byte. When the index of a frequency-mode
  codestream is accepted, it has one entry for each tile and band, and the packets of tile \<open>t\<close> start, band by
  band, at the entries of \<open>t\<close> counted from the end of the headers, except that a zero for the flexbits means
  that there are none. So every packet lies behind the headers; it ends inside the codestream and is not
  empty, no two packets start at the same place, and a packet ends before any packet that starts after it,
  of whichever tile and band. No index makes the computation panic.
\<close>

theorem band_packets_disjoint:
  "case frequency_ranges source_len p bands tiles of
     Panic \<Rightarrow> False
   | Err e \<Rightarrow> True
   | Ok rs \<Rightarrow> length (tile_offsets (directory p)) = tiles * band_count bands \<and> length rs = tiles \<and>
       (\<forall>t<tiles. map range_offset (packets_of (rs ! t)) =
          entry_starts (fst (primary_range p) + tile_data_offset (directory p)) (band_count bands)
            (tile_offsets (directory p)) [t * band_count bands..<t * band_count bands + band_count bands]) \<and>
       distinct (map range_offset (concat (map packets_of rs))) \<and>
       (\<forall>a\<in>set (concat (map packets_of rs)).
          fst (primary_range p) + tile_data_offset (directory p) \<le> range_offset a \<and> 0 < range_length a \<and> range_offset a + range_length a \<le> snd (primary_range p) \<and>
          (\<forall>c\<in>set (concat (map packets_of rs)). range_offset a < range_offset c \<longrightarrow>
             range_offset a + range_length a \<le> range_offset c))"
proof -
  let ?e = "snd (primary_range p)" and ?b = "band_count bands" and ?offsets = "tile_offsets (directory p)"
  let ?base = "fst (primary_range p) + tile_data_offset (directory p)"
  let ?starts = "each_try (packet_band_start ?base ?e source_len ?b) (enumerate 0 ?offsets) []"
  have b: "?b \<in> {1..4}" by (cases bands) (simp_all add: band_count_def)
  show ?thesis
  proof (cases "usize_max < tiles * ?b \<or> length ?offsets \<noteq> tiles * ?b \<or> usize_max < ?base")
    case True
    then show ?thesis by (auto simp: frequency_ranges_def tile_usize_mul_def tile_usize_add_def Let_def)
  next
    case False
    have step: "frequency_ranges source_len p bands tiles = let_try ?starts (\<lambda>starts.
        if \<not> distinct (sort (present starts)) then Err (InvalidPlan ''duplicate frequency packet offsets'')
        else each_try (tile_ranges ?b starts (sort (present starts)) ?e) [0..<tiles] [])"
      using False unfolding frequency_ranges_def Let_def present_def [symmetric]
      by (simp add: tile_usize_mul_def tile_usize_add_def)
    show ?thesis
    proof (cases ?starts)
      case (Ok starts)
      have starts: "length starts = tiles * ?b" "\<forall>s\<in>set (present starts). ?base \<le> s \<and> s < ?e"
        using starts_kept [OF Ok] starts_are_entries [OF Ok] False by (auto simp: present_mem split: if_splits)
      note all = all_tile_ranges [OF b, of tiles starts "sort (present starts)" ?e]
      show ?thesis
      proof (cases "distinct (sort (present starts))")
        case d: True
        show ?thesis
        proof (cases "each_try (tile_ranges ?b starts (sort (present starts)) ?e) [0..<tiles] []")
          case rs: (Ok rs)
          then have ps: "length rs = tiles" "map range_offset (concat (map packets_of rs)) = present starts"
            "\<forall>q\<in>set (concat (map packets_of rs)). spans (sort (present starts)) ?e q"
            using all starts(1) by auto
          have "map range_offset (packets_of (rs ! t)) = entry_starts ?base ?b ?offsets [t * ?b..<t * ?b + ?b]" if t: "t < tiles" for t
          proof -
            have "Suc t * ?b \<le> tiles * ?b" using t by (intro mult_le_mono1) simp
            then have "t * ?b + ?b \<le> length ?offsets" using False by simp
            from tile_entries [OF Ok this] show ?thesis using all starts(1) rs t by auto
          qed
          then show ?thesis
            using spanning_packets [OF ps(2) d starts(2) ps(3)] ps(1) rs Ok d False by (simp add: step)
        qed (use all starts(1) step Ok d in auto)
      qed (simp add: step Ok)
    qed (use starts_no_panic_frequency in \<open>simp_all add: step\<close>)
  qed
qed

lemma band_packets_disjoint_witness:
  "\<exists>rs. frequency_ranges 100 (frequency_sample\<lparr>primary_range := (10, 60),
      directory := \<lparr>tile_offsets = [20, 5], profile_levels = [], tile_data_offset = 0\<rparr>\<rparr>) NoHighPass 1 = Ok rs \<and>
    map range_length (concat (map packets_of rs)) = [30, 15] \<and> map range_offset (packets_of (rs ! 0)) = [30, 15]"
proof -
  let ?p = "frequency_sample\<lparr>primary_range := (10, 60),
    directory := \<lparr>tile_offsets = [20, 5], profile_levels = [], tile_data_offset = 0\<rparr>\<rparr>"
  have ranges: "frequency_ranges 100 ?p NoHighPass 1 = Ok [\<lparr>fr_dc = \<lparr>range_offset = 30, range_length = 30\<rparr>,
      fr_low_pass = Some \<lparr>range_offset = 15, range_length = 15\<rparr>, fr_high_pass = None, fr_flexbits = None\<rparr>]"
    by (simp add: frequency_ranges_def tile_usize_mul_def tile_usize_add_def band_count_def packet_band_start_def
        is_flexbits_escape_def tile_ranges_def range_if_def range_at_def byte_range_new_def usize_add_def Let_def)
  have "map range_offset (packets_of ([\<lparr>fr_dc = \<lparr>range_offset = 30, range_length = 30\<rparr>,
      fr_low_pass = Some \<lparr>range_offset = 15, range_length = 15\<rparr>, fr_high_pass = None, fr_flexbits = None\<rparr>] ! 0)) =
      entry_starts 10 2 [20, 5] [0, Suc 0]"
    using band_packets_disjoint [where source_len = 100 and p = ?p and bands = NoHighPass and tiles = 1] unfolding ranges by (simp add: band_count_def)
  then show ?thesis
    unfolding ranges by (simp add: entry_starts_def flexbits_absent_def packets_of_def)
qed

end
