(* ===== verification/Output_Scale.thy ===== *)
theory Output_Scale
  imports Complex_Main Formats Arithmetic
begin

text \<open>
  The conversion of one reconstructed sample to its output representation
  (\<open>crates/jxr-native/src/output_format/scaling.rs\<close>, \<open>color.rs\<close> and \<open>error.rs\<close>, with the policy types of
  \<open>crates/jxr-core/src/output_policy.rs\<close>): colour conversion, bias, rounding, shifts and the two
  floating-point encodings. An operation that cannot panic returns a sum instead of a \<open>result\<close>.
\<close>

section \<open>Policy\<close>

datatype output_error =
    UnsupportedCombination string
  | ComponentCount nat nat
  | InvalidPlane "nat option" string
  | CropOutsidePlane "nat option"
  | AlphaMismatch
  | OutputOverflow string
  | InvalidFloatingPointSample

record crop_window =
  crop_x :: nat
  crop_y :: nat
  crop_width :: nat
  crop_height :: nat

datatype output_bit_depth =
    DepthBit1White | DepthBit1Black | DepthU8 | DepthU10 | DepthU16 nat | DepthI16 nat | DepthF16
  | DepthI32 nat | DepthF32 nat int | DepthRgb555 | DepthRgb101010 | DepthRgb565

definition from_header_fields :: "nat \<Rightarrow> nat \<Rightarrow> nat \<Rightarrow> int \<Rightarrow> output_bit_depth option" where
  "from_header_fields code shift_bits mantissa_length exponent_bias =
     (if code = 0 then Some DepthBit1White
      else if code = 1 then Some DepthU8
      else if code = 2 then Some (DepthU16 shift_bits)
      else if code = 3 then Some (DepthI16 shift_bits)
      else if code = 4 then Some DepthF16
      else if code = 6 then Some (DepthI32 shift_bits)
      else if code = 7 then Some (DepthF32 mantissa_length exponent_bias)
      else if code = 8 then Some DepthRgb555
      else if code = 9 then Some DepthU10
      else if code = 10 then Some DepthRgb565
      else if code = 15 then Some DepthBit1Black
      else None)"

record alpha_format_request =
  af_depth :: output_bit_depth
  af_scaled :: bool

record output_format_request =
  or_internal :: color_format
  or_output :: color_format
  or_depth :: output_bit_depth
  or_pixels :: pixel_format
  or_scaled :: bool
  or_alpha :: "alpha_format_request option"
  or_not_swapped :: bool
  or_premultiply :: bool
  or_crop :: crop_window

section \<open>scaling.rs\<close>

definition of_sum :: "'e + 'a \<Rightarrow> ('e, 'a) result" where
  "of_sum s = (case s of Inl e \<Rightarrow> Err e | Inr v \<Rightarrow> Ok v)"

lemma of_sum_simps [simp]: "of_sum (Inl e) = Err e" "of_sum (Inr v) = Ok v"
  by (simp_all add: of_sum_def)

lemma of_sum_no_panic [simp]: "of_sum s \<noteq> Panic"
  by (cases s) simp_all

definition checked_shift_left :: "i32 \<Rightarrow> nat \<Rightarrow> string \<Rightarrow> output_error + i32" where
  "checked_shift_left v bits name =
     (case i32_checked_shl v bits of
        Some shifted \<Rightarrow> if sar shifted bits = v then Inr shifted else Inl (OutputOverflow name)
      | None \<Rightarrow> Inl (OutputOverflow name))"

definition output_bias :: "output_bit_depth \<Rightarrow> output_error + i32" where
  "output_bias depth =
     (let (base, shift) = (case depth of
          DepthRgb555 \<Rightarrow> (2 ^ 4, 0)
        | DepthRgb565 \<Rightarrow> (2 ^ 5, 0)
        | DepthU8 \<Rightarrow> (2 ^ 7, 0)
        | DepthU10 \<Rightarrow> (2 ^ 9, 0)
        | DepthRgb101010 \<Rightarrow> (2 ^ 9, 0)
        | DepthU16 shift_bits \<Rightarrow> (2 ^ 15, shift_bits)
        | DepthI16 shift_bits \<Rightarrow> (0, shift_bits)
        | DepthI32 shift_bits \<Rightarrow> (0, shift_bits)
        | _ \<Rightarrow> (0, 0))
      in if 32 \<le> shift then Inl (UnsupportedCombination ''integer SHIFT_BITS greater than 31'')
         else Inr (sar base shift))"

datatype channel_scale =
    ScalePadding
  | ScaleInteger i32 i32 nat "nat option"
  | ScaleInvalid output_error

definition resolve_scale :: "nat \<Rightarrow> color_format \<Rightarrow> output_bit_depth \<Rightarrow> bool \<Rightarrow> channel_scale" where
  "resolve_scale component color depth is_scaled =
     (case output_bias depth of
        Inl e \<Rightarrow> ScaleInvalid e
      | Inr bias \<Rightarrow>
          let component_bias = (if color = ColorCmyk then if component < 3 then sar bias 1 else - sar bias 1
                else if color = ColorRgbe then 0 else bias);
              scale = (if is_scaled then 3 else 0)
          in case checked_shift_left component_bias scale ''scaling sample bias'' of
               Inl e \<Rightarrow> ScaleInvalid e
             | Inr shifted \<Rightarrow>
                 ScaleInteger shifted
                   (if is_scaled then
                      (case depth of DepthBit1White \<Rightarrow> 4 | DepthBit1Black \<Rightarrow> 4 | DepthU16 _ \<Rightarrow> 4 | _ \<Rightarrow> 3)
                    else 0)
                   (if depth = DepthRgb565 \<and> component \<noteq> 1 then scale + 1 else scale)
                   (case depth of DepthU16 s \<Rightarrow> Some s | DepthI16 s \<Rightarrow> Some s | DepthI32 s \<Rightarrow> Some s | _ \<Rightarrow> None))"

fun apply_scale :: "channel_scale \<Rightarrow> i32 \<Rightarrow> (output_error, i32) result" where
  "apply_scale ScalePadding sample = Ok 0"
| "apply_scale (ScaleInvalid e) sample = Err e"
| "apply_scale (ScaleInteger bias rounding shift post) sample =
     let_try (map_err (\<lambda>_. OutputOverflow ''adding output bias'') (checked_add sample bias)) (\<lambda>biased.
     let_try (map_err (\<lambda>_. OutputOverflow ''adding scaled-stream rounding'') (checked_add biased rounding)) (\<lambda>rounded.
     let scaled_sample = sar rounded shift in
     case post of
       Some bits \<Rightarrow> of_sum (checked_shift_left scaled_sample bits ''integer postscaling'')
     | None \<Rightarrow> Ok scaled_sample))"

definition scale_integer_component ::
  "i32 \<Rightarrow> nat \<Rightarrow> color_format \<Rightarrow> output_bit_depth \<Rightarrow> bool \<Rightarrow> (output_error, i32) result" where
  "scale_integer_component sample component color depth is_scaled =
     apply_scale (resolve_scale component color depth is_scaled) sample"

definition float16_bits :: "i32 \<Rightarrow> bool \<Rightarrow> (output_error, 16 word) result" where
  "float16_bits sample is_scaled =
     let_try (scale_integer_component sample 0 ColorLuma DepthF16 is_scaled) (\<lambda>v.
     let sign = push_bit 15 (of_bool (v < 0)); magnitude = min (nat \<bar>v\<bar>) 32767
     in Ok (sign OR of_nat magnitude))"

text \<open>The loop that shifts a denormal mantissa up while the exponent allows it.\<close>

function normalize_float :: "nat \<Rightarrow> int \<Rightarrow> nat \<Rightarrow> int \<times> nat" where
  "normalize_float implicit e m =
     (if m < implicit \<and> 1 < e \<and> 0 < m then normalize_float implicit (e - 1) (2 * m) else (e, m))"
  by auto
termination normalize_float
  by (relation "measure (\<lambda>(_, e, _). nat e)") auto

definition float32_bits :: "i32 \<Rightarrow> bool \<Rightarrow> nat \<Rightarrow> int \<Rightarrow> (output_error, 32 word) result" where
  "float32_bits sample is_scaled mantissa_length exponent_bias =
     (if 23 < mantissa_length then Err (UnsupportedCombination ''BD32F mantissa length greater than 23'')
      else
        let_try (scale_integer_component sample 0 ColorLuma (DepthF32 mantissa_length exponent_bias) is_scaled) (\<lambda>v.
        let sign = push_bit 31 (of_bool (v < 0));
            magnitude = nat \<bar>v\<bar>;
            implicit = 2 ^ mantissa_length;
            e = int (drop_bit mantissa_length magnitude);
            m = (magnitude AND (implicit - 1)) OR implicit;
            (e, m) = (if e = 0 then (1, m XOR implicit) else (e, m));
            (e, m) = normalize_float implicit (e - exponent_bias + 127) m;
            (e, m) = (if m < implicit then (0, m) else (e, m XOR implicit));
            m = push_bit (23 - mantissa_length) m
        in if e < 0 \<or> 255 < e then Err InvalidFloatingPointSample
           else if 0x7fffff < m then Err InvalidFloatingPointSample
           else Ok (sign OR push_bit 23 (of_int e) OR of_nat m)))"

section \<open>color.rs\<close>

definition ceil_half :: "i32 \<Rightarrow> i32" where
  "ceil_half v = sar v 1 + (v AND 1)"

definition color_try :: "(math_error, 'a) result \<Rightarrow> ('a \<Rightarrow> (output_error, 'b) result) \<Rightarrow> (output_error, 'b) result" where
  "color_try r f = let_try (map_err (\<lambda>_. OutputOverflow ''converting internal colour'') r) f"

definition inverse_yuv :: "i32 \<Rightarrow> i32 \<Rightarrow> i32 \<Rightarrow> (output_error, i32 list) result" where
  "inverse_yuv y u v =
     color_try (checked_sub 0 u) (\<lambda>temporary.
     color_try (checked_sub y (sar temporary 1)) (\<lambda>green.
     color_try (let_try (checked_add temporary green) (\<lambda>w. checked_sub w (ceil_half v))) (\<lambda>red.
     color_try (checked_add v red) (\<lambda>blue.
     Ok [red, green, blue]))))"

definition inverse_yuvk :: "i32 \<Rightarrow> i32 \<Rightarrow> i32 \<Rightarrow> i32 \<Rightarrow> (output_error, i32 list) result" where
  "inverse_yuvk y u v k =
     color_try (checked_add k (sar y 1)) (\<lambda>black.
     color_try (let_try (checked_sub black y) (\<lambda>w. checked_sub w (sar u 1))) (\<lambda>magenta.
     color_try (let_try (checked_add u magenta) (\<lambda>w. checked_add w (sar v 1))) (\<lambda>cyan.
     color_try (checked_sub cyan v) (\<lambda>yellow.
     Ok [cyan, magenta, yellow, black]))))"

text \<open>The input always has four entries, the absent components being zero.\<close>

definition convert_color :: "color_format \<Rightarrow> color_format \<Rightarrow> i32 list \<Rightarrow> bool \<Rightarrow> bool \<Rightarrow>
    (output_error, i32 list) result" where
  "convert_color internal out input packed_rgb red_blue_not_swapped =
     let_try (index_or_panic input 0) (\<lambda>i0.
     let_try (index_or_panic input 1) (\<lambda>i1.
     let_try (index_or_panic input 2) (\<lambda>i2.
     let_try (index_or_panic input 3) (\<lambda>i3.
     if internal = ColorLuma \<and> out = ColorLuma then Ok [i0, 0, 0, 0]
     else if internal = ColorLuma \<and> out = ColorRgb then Ok [i0, i0, i0, 0]
     else if internal = ColorYuv Cs444 \<and> (out = ColorRgb \<or> out = ColorRgbe) then
       let_try (inverse_yuv i0 i1 i2) (\<lambda>rgb.
       let rgb = (if packed_rgb \<and> \<not> red_blue_not_swapped then swap_values (0, 2) rgb else rgb)
       in Ok (rgb @ [0]))
     else if internal = ColorYuvK \<and> out = ColorCmyk then inverse_yuvk i0 i1 i2 i3
     else if internal = ColorYuvK \<and> out = ColorCmykDirect then Ok [i1, i2, i3, i0]
     else if (case (internal, out) of (ColorNComponent a, ColorNComponent b) \<Rightarrow> a = b | _ \<Rightarrow> False)
     then Err (UnsupportedCombination ''N-component conversion requires direct component handling'')
     else if internal = out then Err (UnsupportedCombination ''direct conversion requires component handling'')
     else Err (UnsupportedCombination ''internal-to-output colour conversion'')))))"

section \<open>Colour conversion is reversible\<close>

text \<open>
  The forward transforms of an encoder, in unbounded arithmetic and with divisions of their own: \<open>div\<close>
  rounds to minus infinity, so \<open>(v + 1) div 2\<close> is half of \<open>v\<close> rounded up.
\<close>

fun forward_rgb :: "int list \<Rightarrow> int \<times> int \<times> int" where
  "forward_rgb [r, g, b] = (let v = b - r; u = g - r - (v + 1) div 2 in (g + (- u) div 2, u, v))"
| "forward_rgb _ = (0, 0, 0)"

fun forward_cmyk :: "int list \<Rightarrow> int \<times> int \<times> int \<times> int" where
  "forward_cmyk [c, m, yl, k] =
     (let v = c - yl; u = c - m - v div 2; y = k - m - u div 2 in (y, u, v, k - y div 2))"
| "forward_cmyk _ = (0, 0, 0, 0)"

lemma ceil_half_div: "ceil_half v = (v + 1) div 2"
  by (simp add: ceil_half_def sar_div and_one_eq) presburger

lemma color_try_simps [outcome_simps]:
  "color_try r f = Ok z \<longleftrightarrow> (\<exists>x. r = Ok x \<and> f x = Ok z)" "color_try r f = Panic \<longleftrightarrow> r = Panic \<or> (\<exists>x. r = Ok x \<and> f x = Panic)"
  by (cases r; simp add: color_try_def)+

text \<open>
  C40: the colour conversions are reversible and never panic. Samples that an encoder made from colour
  components by the forward transform are converted back to exactly these components whenever the
  components fit and no intermediate leaves \<open>i32\<close>; and from whatever samples the decoder converts, the forward
  transform recovers the samples, so no two inputs show the same colour.
\<close>

theorem color_conversion_reversible:
  "inverse_yuv y u v \<noteq> Panic \<and> inverse_yuvk y u v k \<noteq> Panic \<and>
   (inverse_yuv y u v = Ok [r, g, b] \<longleftrightarrow> forward_rgb [r, g, b] = (y, u, v) \<and>
      list_all in_i32 [- u, g, g - u, r, b]) \<and>
   (inverse_yuvk y u v k = Ok [c, m, yl, bl] \<longleftrightarrow> forward_cmyk [c, m, yl, bl] = (y, u, v, k) \<and>
      list_all in_i32 [bl, bl - y, m, u + m, c, yl])"
  apply (intro conjI)
  subgoal by (auto simp: inverse_yuv_def outcome_simps let_try_eq_Panic)
  subgoal by (auto simp: inverse_yuvk_def outcome_simps let_try_eq_Panic)
  subgoal by (auto simp: inverse_yuv_def outcome_simps Let_def ceil_half_div sar_div)
  subgoal by (auto simp: inverse_yuvk_def outcome_simps Let_def sar_div)
  done

text \<open>The samples of the repository's own tests.\<close>

lemma color_conversion_reversible_witness:
  "inverse_yuv 10 3 5 = Ok [6, 12, 11] \<and> inverse_yuvk 20 4 6 8 = Ok [3, - 4, - 3, 18]"
  using color_conversion_reversible [where y = 10 and u = 3 and v = 5 and r = 6 and g = 12 and b = 11]
    color_conversion_reversible [where y = 20 and u = 4 and v = 6 and k = 8 and c = 3 and m = "- 4" and yl = "- 3" and bl = 18]
  by (simp add: in_i32_def)

section \<open>Floating-point samples are exact\<close>

text \<open>The fields of a binary32 and its value, infinities and NaNs aside.\<close>

definition float_exponent :: "32 word \<Rightarrow> nat" where
  "float_exponent w = unat (take_bit 8 (drop_bit 23 w))"

definition ieee_value :: "32 word \<Rightarrow> rat" where
  "ieee_value w =
     (let e = float_exponent w; m = unat (take_bit 23 w) in
      (if bit w 31 then -1 else 1) *
      (if e = 0 then of_nat m * 2 powi (- 149) else of_nat (2 ^ 23 + m) * 2 powi (int e - 150)))"

text \<open>
  What a coded sample stands for: a mantissa of \<open>l\<close> bits below an exponent biased by \<open>b\<close>, denormal when
  the exponent is zero.
\<close>

definition coded_magnitude :: "nat \<Rightarrow> int \<Rightarrow> nat \<Rightarrow> rat" where
  "coded_magnitude l b n =
     (if n div 2 ^ l = 0 then of_nat (n mod 2 ^ l) * 2 powi (1 - b - int l)
      else of_nat (2 ^ l + n mod 2 ^ l) * 2 powi (int (n div 2 ^ l) - b - int l))"

definition coded_value :: "nat \<Rightarrow> int \<Rightarrow> i32 \<Rightarrow> rat" where
  "coded_value l b v = (if v < 0 then -1 else 1) * coded_magnitude l b (nat \<bar>v\<bar>)"

definition float_word :: "bool \<Rightarrow> nat \<Rightarrow> nat \<Rightarrow> 32 word" where
  "float_word s e m = push_bit 31 (of_bool s) OR push_bit 23 (of_nat e) OR of_nat m"

lemma float_word_fields:
  assumes "e < 256" "m < 2 ^ 23"
  shows "float_exponent (float_word s e m) = e" "unat (take_bit 23 (float_word s e m)) = m"
    "bit (float_word s e m) 31 = s"
proof -
  have high: "\<not> bit k n" if "k < 2 ^ d" "d \<le> n" for k n d :: nat
    using that by (metis bit_take_bit_iff leD take_bit_nat_eq_self_iff)
  have m: "\<not> bit m n" if "23 \<le> n" for n using high [OF assms(2) that] .
  have e: "\<not> bit e n" if "8 \<le> n" for n using high [of e 8 n] assms(1) that by simp
  have "take_bit 8 (drop_bit 23 (float_word s e m)) = of_nat e"
    by (rule bit_eqI) (auto simp: float_word_def bit_simps m e)
  then show "float_exponent (float_word s e m) = e"
    using assms(1) by (simp add: float_exponent_def unat_of_nat)
  have "take_bit 23 (float_word s e m) = of_nat m"
    by (rule bit_eqI) (auto simp: float_word_def bit_simps m)
  then show "unat (take_bit 23 (float_word s e m)) = m" using assms(2) by (simp add: unat_of_nat)
  show "bit (float_word s e m) 31 = s" using m [of 31] e [of 8] by (simp add: float_word_def bit_simps)
qed

declare normalize_float.simps [simp del]

lemma normalize_float_result:
  assumes "normalize_float i e m = (e', m')" "1 \<le> e" "m < 2 * i"
  shows "1 \<le> e' \<and> e' \<le> e \<and> m' = m * 2 ^ nat (e - e') \<and> m' < 2 * i \<and> (m' < i \<longrightarrow> e' = 1 \<or> m' = 0)"
  using assms
proof (induction i e m rule: normalize_float.induct)
  case (1 i e m)
  show ?case
  proof (cases "m < i \<and> 1 < e \<and> 0 < m")
    case True
    then have rec: "normalize_float i (e - 1) (2 * m) = (e', m')" using "1.prems" by (simp add: normalize_float.simps)
    have ih: "1 \<le> e'" "e' \<le> e - 1" "m' = 2 * m * 2 ^ nat (e - 1 - e')" "m' < 2 * i" "m' < i \<longrightarrow> e' = 1 \<or> m' = 0"
      using "1.IH" [OF True rec] True by auto
    have "nat (e - e') = Suc (nat (e - 1 - e'))" using ih(2) by simp
    then show ?thesis using ih by simp
  qed (use "1.prems" in \<open>auto simp: normalize_float.simps\<close>)
qed

lemma low_bits:
  "(n AND (2 ^ l - 1)) OR 2 ^ l = 2 ^ l + n mod 2 ^ l" "(2 ^ l + n mod 2 ^ l) XOR 2 ^ l = n mod (2 ^ l :: nat)"
proof -
  have mod: "n AND (2 ^ l - 1) = n mod 2 ^ l"
    by (metis mask_eq_exp_minus_1 take_bit_eq_mask take_bit_eq_mod)
  have disjoint: "(n mod 2 ^ l) AND 2 ^ l = 0"
    by (rule bit_eqI) (auto simp: bit_simps take_bit_eq_mod [symmetric] bit_exp_iff)
  show "(n AND (2 ^ l - 1)) OR 2 ^ l = 2 ^ l + n mod 2 ^ l"
    unfolding mod using disjunctive_add_eq_or [OF disjoint] by simp
  show "(2 ^ l + n mod 2 ^ l) XOR 2 ^ l = n mod 2 ^ l"
    using disjunctive_add_eq_xor [OF disjoint] by (simp add: add.commute xor.assoc)
qed

text \<open>The start of the loop, and the fields made of its result.\<close>

definition float_start :: "nat \<Rightarrow> nat \<Rightarrow> int \<times> nat" where
  "float_start l n = (if n div 2 ^ l = 0 then (1, n mod 2 ^ l) else (int (n div 2 ^ l), 2 ^ l + n mod 2 ^ l))"

lemma coded_start:
  "float_start l n = (x, m) \<Longrightarrow> coded_magnitude l b n = of_nat m * 2 powi (x - b - int l)"
  by (auto simp: float_start_def coded_magnitude_def split: if_splits)

lemma float_start_range: "float_start l n = (x, m) \<Longrightarrow> 1 \<le> x \<and> m < 2 * 2 ^ l"
  by (auto simp: float_start_def not_less split: if_splits)
    (metis add_less_cancel_left mod_less_divisor mult_2 pos2 zero_less_power less_nat_zero_code not_less_eq less_one trans_less_add1 | simp add: div_eq_0_iff)+

lemma float32_fields:
  assumes "l \<le> 23" "scale_integer_component sample 0 ColorLuma (DepthF32 l b) is_scaled = Ok v"
    and "float_start l (nat \<bar>v\<bar>) = (x, m)" "normalize_float (2 ^ l) (x - b + 127) m = (e', m')"
    and "1 \<le> e'" "m' < 2 * 2 ^ l"
  shows "float32_bits sample is_scaled l b =
    (if m' < 2 ^ l then Ok (float_word (v < 0) 0 (m' * 2 ^ (23 - l)))
     else if 255 < e' then Err InvalidFloatingPointSample
     else Ok (float_word (v < 0) (nat e') ((m' - 2 ^ l) * 2 ^ (23 - l))))"
proof -
  have pow: "2 ^ l * 2 ^ (23 - l) = (8388608 :: nat)" using assms(1) by (simp add: power_add [symmetric])
  have small: "k * 2 ^ (23 - l) \<le> 0x7fffff" if "k < 2 ^ l" for k :: nat
  proof -
    have "k * 2 ^ (23 - l) < 2 ^ l * 2 ^ (23 - l)" using that by simp
    then show ?thesis using pow by simp
  qed
  have xor: "m' XOR 2 ^ l = m' - 2 ^ l" if "\<not> m' < 2 ^ l"
  proof -
    have "m' mod 2 ^ l = m' - 2 ^ l" using that assms(6) by (simp add: mod_if)
    then show ?thesis using low_bits(2) [of l m'] that by simp
  qed
  have start: "(if int (drop_bit l (nat \<bar>v\<bar>)) = 0 then (1, ((nat \<bar>v\<bar> AND (2 ^ l - 1)) OR 2 ^ l) XOR 2 ^ l)
      else (int (drop_bit l (nat \<bar>v\<bar>)), (nat \<bar>v\<bar> AND (2 ^ l - 1)) OR 2 ^ l)) = (x, m)"
    using assms(3) unfolding low_bits by (simp only: float_start_def drop_bit_eq_div of_nat_eq_0_iff)
  have le: "\<not> 23 < l" using assms(1) by simp
  have "m' - 2 ^ l < 2 ^ l" using assms(6) by (cases "m' \<le> 2 ^ l") auto
  note fits = small [OF this]
  show ?thesis
    unfolding float32_bits_def Let_def if_not_P [OF le] assms(2) let_try_simps start prod.case assms(4)
    using assms(5) xor small [of m'] fits
    by (auto simp: float_word_def push_bit_eq_mult)
qed

lemma float_scaled:
  "scale_integer_component v 0 ColorLuma (DepthF32 l b) is_scaled =
     (if \<not> in_i32 v then Err (OutputOverflow ''adding output bias'')
      else if is_scaled then
        if in_i32 (v + 3) then Ok (sar (v + 3) 3) else Err (OutputOverflow ''adding scaled-stream rounding'')
      else Ok v)"
  by (auto simp: scale_integer_component_def resolve_scale_def output_bias_def checked_shift_left_def
      i32_checked_shl_def sar_def checked_add_def i32_checked_add_def Let_def)

lemma coded_value_abs: "\<bar>coded_value l b v\<bar> = coded_magnitude l b (nat \<bar>v\<bar>)"
  by (simp add: coded_value_def coded_magnitude_def abs_mult)

lemma two_powi: "(2 :: rat) ^ n * 2 powi k = 2 powi (int n + k)"
  by (simp add: power_int_add flip: power_int_of_nat)

lemma two_powi_le: "i \<le> j \<Longrightarrow> (2 :: rat) powi i \<le> 2 powi j"
  by (intro power_int_increasing) simp_all

text \<open>What the loop of \<open>float32_bits\<close> ends with, and what it says of the coded value.\<close>

lemma normalized_value:
  assumes "float_start l (nat \<bar>v\<bar>) = (x, m)" "normalize_float (2 ^ l) (x - b + 127) m = (e', m')" "b \<le> 127"
  shows "1 \<le> e'" "m' < 2 * 2 ^ l" "m' < 2 ^ l \<longrightarrow> e' = 1 \<or> m' = 0"
    and "coded_value l b v = (if v < 0 then -1 else 1) * (of_nat m' * 2 powi (e' - 127 - int l))"
    and "\<bar>coded_value l b v\<bar> < 2 powi (e' - 126)"
    and "2 ^ l \<le> m' \<Longrightarrow> 2 powi (e' - 127) \<le> \<bar>coded_value l b v\<bar>"
proof -
  have range: "1 \<le> x - b + 127" "m < 2 * 2 ^ l" using float_start_range [OF assms(1)] assms(3) by auto
  have fin: "e' \<le> x - b + 127" "m' = m * 2 ^ nat (x - b + 127 - e')"
    using normalize_float_result [OF assms(2) range] by auto
  show small: "1 \<le> e'" "m' < 2 * 2 ^ l" "m' < 2 ^ l \<longrightarrow> e' = 1 \<or> m' = 0"
    using normalize_float_result [OF assms(2) range] by auto
  have "x - b - int l = int (nat (x - b + 127 - e')) + (e' - 127 - int l)" using fin(1) by simp
  then have "(2 :: rat) powi (x - b - int l) = 2 ^ nat (x - b + 127 - e') * 2 powi (e' - 127 - int l)"
    unfolding two_powi by (rule arg_cong)
  then have magnitude: "coded_magnitude l b (nat \<bar>v\<bar>) = of_nat m' * 2 powi (e' - 127 - int l)"
    unfolding coded_start [OF assms(1)] fin(2) by simp
  then show "coded_value l b v = (if v < 0 then -1 else 1) * (of_nat m' * 2 powi (e' - 127 - int l))"
    by (simp add: coded_value_def)
  have "of_nat m' < (of_nat (2 * 2 ^ l) :: rat)" using small(2) of_nat_less_iff by blast
  then have "of_nat m' * 2 powi (e' - 127 - int l) < (2 :: rat) ^ Suc l * 2 powi (e' - 127 - int l)"
    by (intro mult_strict_right_mono) simp_all
  then show "\<bar>coded_value l b v\<bar> < 2 powi (e' - 126)"
    unfolding two_powi coded_value_abs magnitude by (simp add: algebra_simps)
  show "2 powi (e' - 127) \<le> \<bar>coded_value l b v\<bar>" if "2 ^ l \<le> m'"
  proof -
    have "of_nat (2 ^ l) \<le> (of_nat m' :: rat)" using that by (simp only: of_nat_le_iff)
    then have "(2 :: rat) ^ l * 2 powi (e' - 127 - int l) \<le> of_nat m' * 2 powi (e' - 127 - int l)"
      by (intro mult_right_mono) simp_all
    then show ?thesis unfolding two_powi coded_value_abs magnitude by simp
  qed
qed

text \<open>The words of a subnormal and of a normal result.\<close>

lemma subnormal_word:
  fixes l m' :: nat
  assumes "l \<le> 23" "m' < 2 ^ l"
  shows "m' * 2 ^ (23 - l) < 2 ^ 23"
    and "ieee_value (float_word s 0 (m' * 2 ^ (23 - l))) = (if s then -1 else 1) * (of_nat m' * 2 powi (- 126 - int l))"
    and "float_exponent (float_word s 0 (m' * 2 ^ (23 - l))) = 0"
proof -
  have "m' * 2 ^ (23 - l) < 2 ^ l * 2 ^ (23 - l)" using assms(2) by simp
  then show m: "m' * 2 ^ (23 - l) < 2 ^ 23" using assms(1) by (simp flip: power_add)
  have "(2 :: rat) ^ (23 - l) * 2 powi (- 149) = 2 powi (- 126 - int l)" using assms(1) unfolding two_powi by (simp add: of_nat_diff)
  then show "ieee_value (float_word s 0 (m' * 2 ^ (23 - l))) = (if s then -1 else 1) * (of_nat m' * 2 powi (- 126 - int l))"
    using m by (simp add: float_word_fields ieee_value_def mult.assoc)
  show "float_exponent (float_word s 0 (m' * 2 ^ (23 - l))) = 0" using m by (simp add: float_word_fields)
qed

lemma normal_word:
  fixes l m' :: nat
  assumes "l \<le> 23" "2 ^ l \<le> m'" "m' < 2 * 2 ^ l" "1 \<le> e'" "e' \<le> 255"
  shows "ieee_value (float_word s (nat e') ((m' - 2 ^ l) * 2 ^ (23 - l))) =
      (if s then -1 else 1) * (of_nat m' * 2 powi (e' - 127 - int l))"
    and "float_exponent (float_word s (nat e') ((m' - 2 ^ l) * 2 ^ (23 - l))) = nat e'"
proof -
  let ?m = "(m' - 2 ^ l) * 2 ^ (23 - l)"
  have pow: "2 ^ l * 2 ^ (23 - l) = (2 ^ 23 :: nat)" using assms(1) by (simp flip: power_add)
  have "m' - 2 ^ l < 2 ^ l" using assms(2,3) by simp
  then have "?m < 2 ^ l * 2 ^ (23 - l)" by simp
  then have m: "?m < 2 ^ 23" unfolding pow .
  have e: "nat e' < 256" "nat e' \<noteq> 0" "int (nat e') = e'" using assms(4,5) by auto
  have "2 ^ 23 + ?m = m' * 2 ^ (23 - l)" using assms(2) unfolding pow [symmetric] by (simp flip: distrib_right)
  moreover have "(2 :: rat) ^ (23 - l) * 2 powi (e' - 150) = 2 powi (e' - 127 - int l)"
    using assms(1) unfolding two_powi by (simp add: of_nat_diff algebra_simps)
  ultimately have "of_nat (2 ^ 23 + ?m) * (2 :: rat) powi (e' - 150) = of_nat m' * 2 powi (e' - 127 - int l)"
    by (simp add: mult.assoc)
  then show "ieee_value (float_word s (nat e') ?m) = (if s then -1 else 1) * (of_nat m' * 2 powi (e' - 127 - int l))"
    unfolding ieee_value_def float_word_fields [OF e(1) m] using e(2,3) by simp
  show "float_exponent (float_word s (nat e') ?m) = nat e'" by (rule float_word_fields [OF e(1) m])
qed

text \<open>
  C39: floating-point samples are reconstructed exactly. A sample whose value lies below \<open>2 ^ 128\<close> becomes the
  binary32 with exactly this value, subnormal or not, with no rounding; from \<open>2 ^ 128\<close> to \<open>2 ^ 129\<close> the
  result has the exponent of infinities and NaNs, and from there the sample is either given this exponent or
  rejected. No sample makes the conversion panic.
\<close>

theorem f32_reconstruction_exact:
  assumes "l \<le> 23" "b \<le> 127" "in_i32 sample" "is_scaled \<Longrightarrow> in_i32 (sample + 3)"
  shows "let value = coded_value l b (if is_scaled then sar (sample + 3) 3 else sample) in
    case float32_bits sample is_scaled l b of
      Panic \<Rightarrow> False
    | Err e \<Rightarrow> e = InvalidFloatingPointSample \<and> 2 ^ 129 \<le> \<bar>value\<bar>
    | Ok w \<Rightarrow> if \<bar>value\<bar> < 2 ^ 128 then float_exponent w < 255 \<and> ieee_value w = value
        else float_exponent w = 255 \<and> \<bar>value\<bar> < 2 ^ 129"
proof -
  define v where "v = (if is_scaled then sar (sample + 3) 3 else sample)"
  have scaled: "scale_integer_component sample 0 ColorLuma (DepthF32 l b) is_scaled = Ok v"
    using assms by (simp add: float_scaled v_def)
  obtain x m where start: "float_start l (nat \<bar>v\<bar>) = (x, m)" by fastforce
  obtain e' m' where loop: "normalize_float (2 ^ l) (x - b + 127) m = (e', m')" by fastforce
  note n = normalized_value [OF start loop assms(2)]
  note fields = float32_fields [OF assms(1) scaled start loop n(1,2)]
  show ?thesis
  proof (cases "m' < 2 ^ l")
    case True
    then have "m' = 0 \<or> e' = 1" using n(3) by blast
    moreover have "\<bar>coded_value l b v\<bar> < 2 ^ 128" if "e' = 1"
      using n(5) two_powi_le [of "- 125" 128] that by simp
    ultimately show ?thesis
      using True subnormal_word(2,3) [OF assms(1) True, where s = "v < 0"] n(4) unfolding fields v_def [symmetric] by auto
  next
    case False
    then have m': "2 ^ l \<le> m'" by simp
    show ?thesis
    proof (cases "255 < e'")
      case True
      then show ?thesis
        using False n(6) [OF m'] two_powi_le [of 129 "e' - 127"] unfolding fields v_def [symmetric] by simp
    next
      case small: False
      note w = normal_word [OF assms(1) m' n(2,1), where s = "v < 0"]
      have "\<bar>coded_value l b v\<bar> < 2 ^ 129" using n(5) two_powi_le [of "e' - 126" 129] small by simp
      moreover have "\<bar>coded_value l b v\<bar> < 2 ^ 128" if "e' < 255" using n(5) two_powi_le [of "e' - 126" 128] that by simp
      moreover have "2 ^ 128 \<le> \<bar>coded_value l b v\<bar>" if "e' = 255" using n(6) [OF m'] that by simp
      ultimately show ?thesis
        using small False w n(4) unfolding fields v_def [symmetric] Let_def by (cases "e' = 255") auto
    qed
  qed
qed

lemma f32_reconstruction_exact_witness:
  "\<exists>w. float32_bits (- 5) False 3 2 = Ok w \<and> float_exponent w < 255 \<and> ieee_value w = - 5 / 16"
proof -
  have "coded_value 3 2 (- 5) = - 5 / 16" by (simp add: coded_value_def coded_magnitude_def power_int_def power_one_over)
  then show ?thesis
    using f32_reconstruction_exact [of 3 2 "- 5" False]
    by (cases "float32_bits (- 5) False 3 2") (auto simp: in_i32_def)
qed

end
