(* ===== verification/Output_Context.thy ===== *)
theory Output_Context
  imports Output_Scale
begin

text \<open>
  Component planes, the validation of an output request and the traversal of the cropped pixels
  (\<open>crates/jxr-native/src/output_format/request.rs\<close>, \<open>validate.rs\<close> and the format context of \<open>packing.rs\<close>).
\<close>

section \<open>request.rs\<close>

record component_plane =
  cp_origin_x :: nat
  cp_origin_y :: nat
  cp_width :: nat
  cp_height :: nat
  cp_stride :: nat
  cp_samples :: "i32 list"

definition tightly_packed :: "nat \<Rightarrow> nat \<Rightarrow> i32 list \<Rightarrow> component_plane" where
  "tightly_packed w h samples =
     \<lparr>cp_origin_x = 0, cp_origin_y = 0, cp_width = w, cp_height = h, cp_stride = w, cp_samples = samples\<rparr>"

definition positioned :: "nat \<Rightarrow> nat \<Rightarrow> nat \<Rightarrow> nat \<Rightarrow> i32 list \<Rightarrow> component_plane" where
  "positioned x y w h samples =
     \<lparr>cp_origin_x = x, cp_origin_y = y, cp_width = w, cp_height = h, cp_stride = w, cp_samples = samples\<rparr>"

text \<open>A difference below zero and an index outside the slice panic.\<close>

definition plane_sample :: "component_plane \<Rightarrow> nat \<Rightarrow> nat \<Rightarrow> ('e, i32) result" where
  "plane_sample p x y =
     (if x < cp_origin_x p \<or> y < cp_origin_y p then Panic
      else index_or_panic (cp_samples p) ((y - cp_origin_y p) * cp_stride p + (x - cp_origin_x p)))"

section \<open>validate.rs\<close>

text \<open>\<open>layout\<close> of \<open>packing.rs\<close>.\<close>

fun layout_of :: "pixel_format \<Rightarrow> channel_layout" where
  "layout_of (PixelBitPacked l) = l"
| "layout_of (PixelU8 l) = l"
| "layout_of (PixelU16 l) = l"
| "layout_of (PixelI16 l) = l"
| "layout_of (PixelI32 l) = l"
| "layout_of (PixelF16 l) = l"
| "layout_of (PixelF32 l) = l"
| "layout_of _ = LayoutRgb"

definition require_output :: "bool \<Rightarrow> output_error \<Rightarrow> (output_error, unit) result" where
  "require_output ok e = (if ok then Ok () else Err e)"

definition validate_plane :: "component_plane \<Rightarrow> nat option \<Rightarrow> crop_window \<Rightarrow> (output_error, unit) result" where
  "validate_plane p component crop =
     let_try (require_output (cp_width p \<le> cp_stride p) (InvalidPlane component ''stride is shorter than width'')) (\<lambda>_.
     let required = (if cp_height p = 0 then 0 else cp_stride p * (cp_height p - 1) + cp_width p) in
     let_try (require_output (required \<le> usize_max) (OutputOverflow ''calculating plane extent'')) (\<lambda>_.
     let_try (require_output (required \<le> length (cp_samples p))
       (InvalidPlane component ''backing slice is shorter than its extent'')) (\<lambda>_.
     let_try (require_output (cp_origin_x p + cp_width p < 2 ^ 32) (OutputOverflow ''calculating plane right edge'')) (\<lambda>_.
     let_try (require_output (cp_origin_y p + cp_height p < 2 ^ 32) (OutputOverflow ''calculating plane bottom edge'')) (\<lambda>_.
     let_try (require_output (crop_x crop + crop_width crop < 2 ^ 32) (CropOutsidePlane component)) (\<lambda>_.
     let_try (require_output (crop_y crop + crop_height crop < 2 ^ 32) (CropOutsidePlane component)) (\<lambda>_.
     require_output (cp_origin_x p \<le> crop_x crop \<and> cp_origin_y p \<le> crop_y crop \<and>
       crop_x crop + crop_width crop \<le> cp_origin_x p + cp_width p \<and>
       crop_y crop + crop_height crop \<le> cp_origin_y p + cp_height p) (CropOutsidePlane component))))))))"

fun layout_has_alpha :: "channel_layout \<Rightarrow> bool" where
  "layout_has_alpha LayoutLumaAlpha = True"
| "layout_has_alpha (LayoutYuva _) = True"
| "layout_has_alpha LayoutRgba = True"
| "layout_has_alpha LayoutBgra = True"
| "layout_has_alpha LayoutCmyka = True"
| "layout_has_alpha (LayoutNComponentAlpha _) = True"
| "layout_has_alpha _ = False"

definition validate_alpha :: "channel_layout \<Rightarrow> bool \<Rightarrow> (output_error, unit) result" where
  "validate_alpha l has_alpha = require_output (layout_has_alpha l = has_alpha) AlphaMismatch"

fun depth_stored_in :: "output_bit_depth \<Rightarrow> pixel_format \<Rightarrow> bool" where
  "depth_stored_in DepthBit1White f = (f = PixelBitPacked LayoutLuma)"
| "depth_stored_in DepthBit1Black f = (f = PixelBitPacked LayoutLuma)"
| "depth_stored_in DepthU8 f = (case f of PixelU8 _ \<Rightarrow> True | PixelRgbe \<Rightarrow> True | _ \<Rightarrow> False)"
| "depth_stored_in DepthU10 f = (case f of PixelU16 _ \<Rightarrow> True | _ \<Rightarrow> False)"
| "depth_stored_in (DepthU16 _) f = (case f of PixelU16 _ \<Rightarrow> True | _ \<Rightarrow> False)"
| "depth_stored_in (DepthI16 _) f = (case f of PixelI16 _ \<Rightarrow> True | _ \<Rightarrow> False)"
| "depth_stored_in (DepthI32 _) f = (case f of PixelI32 _ \<Rightarrow> True | _ \<Rightarrow> False)"
| "depth_stored_in DepthF16 f = (case f of PixelF16 _ \<Rightarrow> True | _ \<Rightarrow> False)"
| "depth_stored_in (DepthF32 _ _) f = (case f of PixelF32 _ \<Rightarrow> True | _ \<Rightarrow> False)"
| "depth_stored_in DepthRgb555 f = (f = PixelRgb555)"
| "depth_stored_in DepthRgb565 f = (f = PixelRgb565)"
| "depth_stored_in DepthRgb101010 f = (f = PixelRgb101010)"

definition validate_depth_storage :: "output_format_request \<Rightarrow> (output_error, unit) result" where
  "validate_depth_storage r =
     require_output (depth_stored_in (or_depth r) (or_pixels r)) (UnsupportedCombination ''bit depth and typed storage'')"

definition validate_color_layout :: "output_format_request \<Rightarrow> (output_error, unit) result" where
  "validate_color_layout r =
     (let l = layout_of (or_pixels r) in
      require_output
        (case or_output r of
           ColorLuma \<Rightarrow> l \<in> {LayoutLuma, LayoutLumaAlpha}
         | ColorRgb \<Rightarrow> l \<in> {LayoutRgb, LayoutRgbx, LayoutRgba, LayoutBgr, LayoutBgrx, LayoutBgra} \<or>
             or_pixels r \<in> {PixelRgb555, PixelRgb565, PixelRgb101010}
         | ColorYuv sampling \<Rightarrow> l = LayoutYuv sampling \<or> l = LayoutYuva sampling
         | ColorCmyk \<Rightarrow> l \<in> {LayoutCmyk, LayoutCmyka}
         | ColorCmykDirect \<Rightarrow> l \<in> {LayoutCmyk, LayoutCmyka}
         | ColorRgbe \<Rightarrow> or_pixels r = PixelRgbe
         | ColorNComponent n \<Rightarrow> l = LayoutNComponent n \<or> l = LayoutNComponentAlpha n
         | ColorYuvK \<Rightarrow> False)
        (UnsupportedCombination ''output colour and channel layout''))"

definition is_float_depth :: "output_bit_depth \<Rightarrow> bool" where
  "is_float_depth d = (case d of DepthF16 \<Rightarrow> True | DepthF32 _ _ \<Rightarrow> True | _ \<Rightarrow> False)"

definition validate_conversion :: "output_format_request \<Rightarrow> (output_error, unit) result" where
  "validate_conversion r =
     (let i = or_internal r; out = or_output r in
      require_output
        (if i = ColorLuma \<and> out = ColorRgb then \<not> is_float_depth (or_depth r)
         else if i = ColorLuma \<and> out = ColorLuma then True
         else if i = ColorYuv Cs444 \<and> out \<in> {ColorRgb, ColorRgbe} then True
         else if i = ColorYuvK \<and> out \<in> {ColorCmyk, ColorCmykDirect} then True
         else (case (i, out) of
             (ColorYuv a, ColorYuv b) \<Rightarrow> a = b
           | (ColorNComponent a, ColorNComponent b) \<Rightarrow> a = b
           | _ \<Rightarrow> False))
        (UnsupportedCombination ''internal and output colour formats''))"

definition validate_normative_depth :: "output_format_request \<Rightarrow> (output_error, unit) result" where
  "validate_normative_depth r =
     require_output
       (case or_output r of
          ColorLuma \<Rightarrow> or_depth r \<notin> {DepthRgb555, DepthRgb565, DepthRgb101010}
        | ColorRgb \<Rightarrow> True
        | ColorYuv _ \<Rightarrow> (case or_depth r of DepthU8 \<Rightarrow> True | DepthU10 \<Rightarrow> True | DepthU16 _ \<Rightarrow> True
            | DepthI16 _ \<Rightarrow> True | _ \<Rightarrow> False)
        | ColorRgbe \<Rightarrow> or_depth r = DepthU8
        | ColorYuvK \<Rightarrow> False
        | _ \<Rightarrow> (case or_depth r of DepthU8 \<Rightarrow> True | DepthU16 _ \<Rightarrow> True | _ \<Rightarrow> False))
       (UnsupportedCombination ''T.832 output colour and bit depth matrix'')"

definition validate_matrix :: "output_format_request \<Rightarrow> bool \<Rightarrow> (output_error, unit) result" where
  "validate_matrix r has_alpha =
     let_try (validate_alpha (layout_of (or_pixels r)) has_alpha) (\<lambda>_.
     let_try (require_output (or_premultiply r \<longrightarrow> has_alpha) AlphaMismatch) (\<lambda>_.
     let_try (require_output (\<not> (or_premultiply r \<and> (case or_output r of ColorYuv _ \<Rightarrow> True | _ \<Rightarrow> False)))
       (UnsupportedCombination ''premultiplied YUV output'')) (\<lambda>_.
     let_try (validate_depth_storage r) (\<lambda>_.
     let_try (validate_color_layout r) (\<lambda>_.
     let_try (validate_conversion r) (\<lambda>_.
     validate_normative_depth r))))))"

definition validate_primary :: "component_plane list \<Rightarrow> crop_window \<Rightarrow> nat \<times> component_plane \<Rightarrow> unit \<Rightarrow>
    (output_error, unit) result" where
  "validate_primary planes crop = (\<lambda>(component, p) _.
     let_try (validate_plane p (Some component) crop) (\<lambda>_.
     let_try (index_or_panic planes 0) (\<lambda>first.
     require_output (cp_width p = cp_width first \<and> cp_height p = cp_height first \<and>
       cp_origin_x p = cp_origin_x first \<and> cp_origin_y p = cp_origin_y first)
       (InvalidPlane (Some component) ''full-resolution component dimensions differ''))))"

definition validate_formatting :: "component_plane list \<Rightarrow> component_plane option \<Rightarrow> output_format_request \<Rightarrow>
    (output_error, nat) result" where
  "validate_formatting planes alpha r =
     let_try (ok_or (UnsupportedCombination ''zero internal components'') (component_count (or_internal r))) (\<lambda>n.
     if length planes \<noteq> n then Err (ComponentCount n (length planes))
     else
       let_try (validate_matrix r (alpha \<noteq> None)) (\<lambda>_.
       let_try (each_try (validate_primary planes (or_crop r)) (enumerate 0 planes) ()) (\<lambda>_.
       let_try (case alpha of Some a \<Rightarrow> validate_plane a None (or_crop r) | None \<Rightarrow> Ok ()) (\<lambda>_.
       Ok n))))"

section \<open>The format context\<close>

record format_context =
  fc_planes :: "component_plane list"
  fc_alpha :: "component_plane option"
  fc_request :: output_format_request
  fc_count :: nat
  fc_width :: nat
  fc_height :: nat

definition alpha_format :: "format_context \<Rightarrow> alpha_format_request" where
  "alpha_format c = (case or_alpha (fc_request c) of
     Some f \<Rightarrow> f | None \<Rightarrow> \<lparr>af_depth = or_depth (fc_request c), af_scaled = or_scaled (fc_request c)\<rparr>)"

definition is_padding :: "format_context \<Rightarrow> nat \<Rightarrow> bool \<Rightarrow> bool" where
  "is_padding c component for_alpha \<longleftrightarrow>
     \<not> for_alpha \<and> layout_of (or_pixels (fc_request c)) \<in> {LayoutRgbx, LayoutBgrx} \<and> component = 3"

definition channel_scale_at :: "format_context \<Rightarrow> nat \<Rightarrow> bool \<Rightarrow> channel_scale" where
  "channel_scale_at c component for_alpha =
     (if is_padding c component for_alpha then ScalePadding
      else if for_alpha
      then resolve_scale component ColorLuma (af_depth (alpha_format c)) (af_scaled (alpha_format c))
      else resolve_scale component (or_output (fc_request c)) (or_depth (fc_request c)) (or_scaled (fc_request c)))"

record color_shape =
  cs_direct :: bool
  cs_packed_rgb :: bool

definition is_direct :: "color_format \<Rightarrow> color_format \<Rightarrow> bool" where
  "is_direct internal out = (case (internal, out) of
     (ColorLuma, ColorLuma) \<Rightarrow> True
   | (ColorYuv a, ColorYuv b) \<Rightarrow> a = b
   | (ColorNComponent a, ColorNComponent b) \<Rightarrow> a = b
   | _ \<Rightarrow> False)"

definition color_shape_of :: "format_context \<Rightarrow> color_shape" where
  "color_shape_of c =
     \<lparr>cs_direct = is_direct (or_internal (fc_request c)) (or_output (fc_request c)),
      cs_packed_rgb = (or_depth (fc_request c) \<in> {DepthRgb555, DepthRgb565, DepthRgb101010})\<rparr>"

definition gather_sample :: "nat \<Rightarrow> nat \<Rightarrow> nat \<times> component_plane \<Rightarrow> i32 list \<Rightarrow> (output_error, i32 list) result" where
  "gather_sample x y = (\<lambda>(component, p) input. let_try (plane_sample p x y) (\<lambda>v. Ok (input[component := v])))"

definition color_components_at :: "format_context \<Rightarrow> nat \<Rightarrow> nat \<Rightarrow> color_shape \<Rightarrow> (output_error, i32 list) result" where
  "color_components_at c x y shape =
     let_try (each_try (gather_sample x y) (enumerate 0 (take 4 (fc_planes c))) [0, 0, 0, 0]) (\<lambda>input.
     if cs_direct shape then Ok input
     else convert_color (or_internal (fc_request c)) (or_output (fc_request c)) input (cs_packed_rgb shape)
       (or_not_swapped (fc_request c)))"

definition color_components :: "format_context \<Rightarrow> nat \<Rightarrow> nat \<Rightarrow> (output_error, i32 list) result" where
  "color_components c x y =
     color_components_at c (crop_x (or_crop (fc_request c)) + x) (crop_y (or_crop (fc_request c)) + y) (color_shape_of c)"

record pixel_shape =
  ps_color :: color_shape
  ps_reverse :: bool
  ps_primaries :: nat

definition pixel_shape_of :: "format_context \<Rightarrow> pixel_shape" where
  "pixel_shape_of c =
     (let l = layout_of (or_pixels (fc_request c)) in
      \<lparr>ps_color = color_shape_of c,
       ps_reverse = (l \<in> {LayoutBgr, LayoutBgrx, LayoutBgra}),
       ps_primaries = (case l of
           LayoutLuma \<Rightarrow> 1
         | LayoutYuv _ \<Rightarrow> 3 | LayoutRgb \<Rightarrow> 3 | LayoutBgr \<Rightarrow> 3
         | LayoutRgbx \<Rightarrow> 4 | LayoutBgrx \<Rightarrow> 4 | LayoutCmyk \<Rightarrow> 4 | LayoutCmyka \<Rightarrow> 4
         | LayoutNComponent _ \<Rightarrow> fc_count c | LayoutNComponentAlpha _ \<Rightarrow> fc_count c
         | _ \<Rightarrow> layout_channels l - 1)\<rparr>)"

text \<open>The samples of a pixel in output order; a count above five panics in the slice of its user.\<close>

definition ordered_components_at :: "format_context \<Rightarrow> nat \<Rightarrow> nat \<Rightarrow> pixel_shape \<Rightarrow>
    (output_error, i32 list \<times> nat) result" where
  "ordered_components_at c x y shape =
     let_try (color_components_at c x y (ps_color shape)) (\<lambda>converted.
     let primaries = (if ps_reverse shape then [converted ! 2, converted ! 1, converted ! 0, 0] else converted);
         ordered = primaries @ [0] in
     case fc_alpha c of
       Some a \<Rightarrow>
         let_try (plane_sample a x y) (\<lambda>v.
         if length ordered \<le> ps_primaries shape then Panic
         else Ok (ordered[ps_primaries shape := v], ps_primaries shape + 1))
     | None \<Rightarrow> Ok (ordered, ps_primaries shape))"

definition crop_pixels :: "format_context \<Rightarrow> (nat \<times> nat) list" where
  "crop_pixels c =
     (let x = crop_x (or_crop (fc_request c)); y = crop_y (or_crop (fc_request c)) in
      concat (map (\<lambda>v. map (\<lambda>u. (u, v)) [x..<x + fc_width c]) [y..<y + fc_height c]))"

text \<open>A visitor of samples: sample, component, whether it is alpha, and what the closure captures.\<close>

type_synonym 's visitor = "i32 \<Rightarrow> nat \<Rightarrow> bool \<Rightarrow> 's \<Rightarrow> (output_error, 's) result"

definition visit_planes :: "format_context \<Rightarrow> 's visitor \<Rightarrow> nat \<times> nat \<Rightarrow> 's \<Rightarrow> (output_error, 's) result" where
  "visit_planes c visit = (\<lambda>(x, y) s.
     let_try (each_try (\<lambda>(component, p) s. let_try (plane_sample p x y) (\<lambda>v. visit v component False s))
       (enumerate 0 (fc_planes c)) s) (\<lambda>s.
     case fc_alpha c of
       Some a \<Rightarrow> let_try (plane_sample a x y) (\<lambda>v. visit v (length (fc_planes c)) True s)
     | None \<Rightarrow> Ok s))"

definition visit_ordered :: "format_context \<Rightarrow> pixel_shape \<Rightarrow> 's visitor \<Rightarrow> nat \<times> nat \<Rightarrow> 's \<Rightarrow> (output_error, 's) result" where
  "visit_ordered c shape visit = (\<lambda>(x, y) s.
     let_try (ordered_components_at c x y shape) (\<lambda>(samples, n).
     if length samples < n then Panic
     else each_try (\<lambda>(component, v). visit v component (fc_alpha c \<noteq> None \<and> component + 1 = n))
       (enumerate 0 (take n samples)) s))"

definition for_each_ordered :: "format_context \<Rightarrow> 's visitor \<Rightarrow> 's \<Rightarrow> (output_error, 's) result" where
  "for_each_ordered c visit s =
     (if fc_width c = 0 \<or> fc_height c = 0 then Ok s
      else case or_output (fc_request c) of
        ColorNComponent _ \<Rightarrow> each_try (visit_planes c visit) (crop_pixels c) s
      | _ \<Rightarrow> each_try (visit_ordered c (pixel_shape_of c) visit) (crop_pixels c) s)"

definition for_each_color :: "format_context \<Rightarrow> (i32 list \<Rightarrow> 's \<Rightarrow> (output_error, 's) result) \<Rightarrow> 's \<Rightarrow>
    (output_error, 's) result" where
  "for_each_color c visit s =
     (if fc_width c = 0 \<or> fc_height c = 0 then Ok s
      else each_try (\<lambda>(x, y) s. let_try (color_components_at c x y (color_shape_of c)) (\<lambda>v. visit v s)) (crop_pixels c) s)"

section \<open>Channel scales\<close>

record channel_scales =
  sc_primary :: "channel_scale list"
  sc_alpha :: "channel_scale list"
  sc_context :: format_context

definition channel_scales_of :: "format_context \<Rightarrow> channel_scales" where
  "channel_scales_of c =
     (let n = max (length (fc_planes c)) 4 + 1 in
      \<lparr>sc_primary = map (\<lambda>i. channel_scale_at c i False) [0..<n],
       sc_alpha = map (\<lambda>i. channel_scale_at c i True) [0..<n], sc_context = c\<rparr>)"

definition scales_apply :: "channel_scales \<Rightarrow> i32 \<Rightarrow> nat \<Rightarrow> bool \<Rightarrow> (output_error, i32) result" where
  "scales_apply s v component for_alpha =
     (let table = (if for_alpha then sc_alpha s else sc_primary s) in
      if component < length table then apply_scale (table ! component) v
      else apply_scale (channel_scale_at (sc_context s) component for_alpha) v)"

lemma scales_apply_of:
  "scales_apply (channel_scales_of c) v component for_alpha = apply_scale (channel_scale_at c component for_alpha) v"
  by (cases for_alpha) (simp_all add: scales_apply_def channel_scales_of_def Let_def del: upt_Suc)

end
