(* ===== verification/Output_Kernels.thy ===== *)
theory Output_Kernels
  imports Output_Context
begin

text \<open>
  The fast paths of packing. \<open>crates/jxr-native/src/output_format/interleave.rs\<close> stores luma and RGB rows with
  wrapping arithmetic and accepts the result only if every input was small; the rows of a task are stored in
  order here, which is what the thread pool does too, since the tasks write disjoint rows and their results
  are combined by \<open>|\<close>. \<open>crates/jxr-native/src/output_format/simd_pack.rs\<close> packs luma bytes; modelled is the
  path of a processor without vector instructions.
\<close>

section \<open>Slices\<close>

text \<open>\<open>chunks_mut\<close>, and the loop that zips the full chunks of a slice with inputs and rewrites them.\<close>

function chunks :: "nat \<Rightarrow> 'a list \<Rightarrow> 'a list list" where
  "chunks n xs = (if n = 0 \<or> xs = [] then [] else take n xs # chunks n (drop n xs))"
  by auto
termination chunks
  by (relation "measure (\<lambda>(_, xs). length xs)") auto

declare chunks.simps [simp del]

fun rewrite_chunks :: "nat \<Rightarrow> ('b \<Rightarrow> 'a list \<Rightarrow> 'a list) \<Rightarrow> 'b list \<Rightarrow> 'a list \<Rightarrow> 'a list" where
  "rewrite_chunks n f [] xs = xs"
| "rewrite_chunks n f (b # bs) xs =
     (if n \<le> length xs then f b (take n xs) @ rewrite_chunks n f bs (drop n xs) else xs)"

fun map_try :: "('a \<Rightarrow> ('e, 'b) result) \<Rightarrow> 'a list \<Rightarrow> ('e, 'b list) result" where
  "map_try f [] = Ok []"
| "map_try f (x # xs) = let_try (f x) (\<lambda>y. let_try (map_try f xs) (\<lambda>ys. Ok (y # ys)))"

section \<open>interleave.rs\<close>

definition SAFE_MAGNITUDE :: nat where "SAFE_MAGNITUDE = 2 ^ 26"

definition PIXELS_PER_TASK :: nat where "PIXELS_PER_TASK = 16 * 1024"

definition from_clamped :: "int \<Rightarrow> 'a::len word" where
  "from_clamped v = (if 0 \<le> v \<and> v < 2 ^ LENGTH('a) then word_of_int v else 0)"

record integer_scale =
  is_addition :: i32
  is_shift :: nat
  is_post :: nat
  is_maximum :: i32

definition integer_scale_of :: "channel_scale \<Rightarrow> i32 \<Rightarrow> integer_scale option" where
  "integer_scale_of scale maximum =
     (case scale of
        ScaleInteger bias rounding shift post \<Rightarrow>
          Option.bind (i32_checked_add bias rounding) (\<lambda>addition.
          let post = (case post of Some bits \<Rightarrow> bits | None \<Rightarrow> 0);
              largest = int SAFE_MAGNITUDE * 4 + 2 + \<bar>addition\<bar>;
              shifted = sar largest (min shift 63) + 1
          in if shift < 32 \<and> post < 32 \<and> push_bit post shifted \<le> i32_max
             then Some \<lparr>is_addition = addition, is_shift = shift, is_post = post, is_maximum = maximum\<rparr>
             else None)
      | _ \<Rightarrow> None)"

definition store_value :: "integer_scale \<Rightarrow> i32 \<Rightarrow> 'a::len word" where
  "store_value s sample =
     (let scaled = wrap_i32 (push_bit (is_post s) (sar (wrap_i32 (sample + is_addition s)) (is_shift s)))
      in from_clamped (max 0 (min scaled (is_maximum s))))"

datatype conversion = ConvertLuma | ConvertLumaToRgb | ConvertYuvToRgb

datatype store_shape =
    ShapeLuma | ShapeLumaAlpha | ShapeRgb bool | ShapeRgbPadding bool | ShapeRgbAlpha bool

fun shape_channels :: "store_shape \<Rightarrow> nat" where
  "shape_channels ShapeLuma = 1"
| "shape_channels ShapeLumaAlpha = 2"
| "shape_channels (ShapeRgb _) = 3"
| "shape_channels _ = 4"

record plane_rows =
  rw_samples :: "i32 list"
  rw_stride :: nat
  rw_first :: nat

definition rows_new :: "component_plane \<Rightarrow> nat \<Rightarrow> nat \<Rightarrow> plane_rows option" where
  "rows_new p x y =
     (if x < cp_origin_x p \<or> y < cp_origin_y p then None
      else
        let first = (y - cp_origin_y p) * cp_stride p + (x - cp_origin_x p) in
        if usize_max < first then None
        else Some \<lparr>rw_samples = cp_samples p, rw_stride = cp_stride p, rw_first = first\<rparr>)"

definition rows_row :: "plane_rows \<Rightarrow> nat \<Rightarrow> nat \<Rightarrow> ('e, i32 list) result" where
  "rows_row r y width =
     (let start = rw_first r + y * rw_stride r in
      if start + width \<le> length (rw_samples r) then Ok (take width (drop start (rw_samples r))) else Panic)"

record interleave_plan =
  ip_conversion :: conversion
  ip_color :: integer_scale
  ip_alpha :: "integer_scale option"
  ip_planes :: "plane_rows list"
  ip_alpha_rows :: "plane_rows option"
  ip_width :: nat

definition store_maximum :: "output_format_request \<Rightarrow> i32 option" where
  "store_maximum r = (case (or_depth r, or_pixels r) of
     (DepthU8, PixelU8 _) \<Rightarrow> Some 255
   | (DepthU10, PixelU16 _) \<Rightarrow> Some 1023
   | (DepthU16 _, PixelU16 _) \<Rightarrow> Some 65535
   | _ \<Rightarrow> None)"

definition store_conversion :: "output_format_request \<Rightarrow> conversion option" where
  "store_conversion r =
     (if or_internal r = ColorLuma \<and> or_output r = ColorLuma then Some ConvertLuma
      else if or_internal r = ColorLuma \<and> or_output r = ColorRgb then Some ConvertLumaToRgb
      else if or_internal r = ColorYuv Cs444 \<and> or_output r = ColorRgb then Some ConvertYuvToRgb
      else None)"

definition store_shape_of :: "conversion \<Rightarrow> channel_layout \<Rightarrow> store_shape option" where
  "store_shape_of c l =
     (if c = ConvertLuma then
        case l of LayoutLuma \<Rightarrow> Some ShapeLuma | LayoutLumaAlpha \<Rightarrow> Some ShapeLumaAlpha | _ \<Rightarrow> None
      else case l of
        LayoutRgb \<Rightarrow> Some (ShapeRgb False) | LayoutBgr \<Rightarrow> Some (ShapeRgb True)
      | LayoutRgbx \<Rightarrow> Some (ShapeRgbPadding False) | LayoutBgrx \<Rightarrow> Some (ShapeRgbPadding True)
      | LayoutRgba \<Rightarrow> Some (ShapeRgbAlpha False) | LayoutBgra \<Rightarrow> Some (ShapeRgbAlpha True)
      | _ \<Rightarrow> None)"

definition shape_has_alpha :: "store_shape \<Rightarrow> bool" where
  "shape_has_alpha s = (case s of ShapeLumaAlpha \<Rightarrow> True | ShapeRgbAlpha _ \<Rightarrow> True | _ \<Rightarrow> False)"

fun rows_all :: "component_plane list \<Rightarrow> nat \<Rightarrow> nat \<Rightarrow> plane_rows list option" where
  "rows_all [] x y = Some []"
| "rows_all (p # ps) x y =
     Option.bind (rows_new p x y) (\<lambda>r. Option.bind (rows_all ps x y) (\<lambda>rs. Some (r # rs)))"

text \<open>Three planes: the first one thrice, the second and third replaced by their own for YUV.\<close>

definition plan_rows :: "conversion \<Rightarrow> component_plane list \<Rightarrow> plane_rows \<Rightarrow> nat \<Rightarrow> nat \<Rightarrow> plane_rows list option" where
  "plan_rows c planes first x y =
     (if c = ConvertYuvToRgb then
        Option.bind (rows_all (take 2 (drop 1 planes)) x y) (\<lambda>rs.
        Some (first # rs @ replicate (2 - length rs) first))
      else Some [first, first, first])"

definition interleave_plan_of :: "format_context \<Rightarrow> (interleave_plan \<times> store_shape) option" where
  "interleave_plan_of c =
     (let r = fc_request c in
      Option.bind (store_maximum r) (\<lambda>maximum.
      Option.bind (store_conversion r) (\<lambda>conversion.
      Option.bind (store_shape_of conversion (layout_of (or_pixels r))) (\<lambda>shape.
      let has_alpha = shape_has_alpha shape in
      if has_alpha \<noteq> (fc_alpha c \<noteq> None) \<or> fc_planes c = [] then None
      else
        let primaries = shape_channels shape - of_bool has_alpha;
            x = crop_x (or_crop r); y = crop_y (or_crop r) in
        Option.bind (integer_scale_of (channel_scale_at c 0 False) maximum) (\<lambda>color.
        Option.bind (if has_alpha
            then Option.bind (integer_scale_of (channel_scale_at c primaries True) maximum) (\<lambda>s. Some (Some s))
            else Some None) (\<lambda>alpha.
        Option.bind (rows_new (hd (fc_planes c)) x y) (\<lambda>first.
        Option.bind (plan_rows conversion (fc_planes c) first x y) (\<lambda>planes.
        Option.bind (case fc_alpha c of
            Some a \<Rightarrow> Option.bind (rows_new a x y) (\<lambda>rs. Some (Some rs)) | None \<Rightarrow> Some None) (\<lambda>alpha_rows.
        Some (\<lparr>ip_conversion = conversion, ip_color = color, ip_alpha = alpha, ip_planes = planes,
               ip_alpha_rows = alpha_rows, ip_width = fc_width c\<rparr>, shape))))))))))"

definition magnitudes :: "i32 list \<Rightarrow> nat" where
  "magnitudes vs = fold (\<lambda>v bits. bits OR nat \<bar>v\<bar>) vs 0"

definition store_luma :: "i32 list \<Rightarrow> integer_scale \<Rightarrow> 'a::len word list \<Rightarrow> 'a word list \<times> nat" where
  "store_luma source scale out =
     (rewrite_chunks 1 (\<lambda>v _. [store_value scale v]) source out, magnitudes (take (length out) source))"

definition store_luma_alpha :: "i32 list \<Rightarrow> i32 list \<Rightarrow> integer_scale \<Rightarrow> integer_scale \<Rightarrow> 'a::len word list \<Rightarrow>
    'a word list \<times> nat" where
  "store_luma_alpha source opacities color alpha_scale out =
     (rewrite_chunks 2 (\<lambda>(v, a) _. [store_value color v, store_value alpha_scale a]) (zip source opacities) out,
      magnitudes (concat (map (\<lambda>(v, a). [v, a]) (take (length out div 2) (zip source opacities)))))"

definition wrapping_inverse_yuv :: "i32 \<Rightarrow> i32 \<Rightarrow> i32 \<Rightarrow> i32 \<times> i32 \<times> i32" where
  "wrapping_inverse_yuv y u v =
     (let temporary = wrap_i32 (- u);
          green = wrap_i32 (y - sar temporary 1);
          red = wrap_i32 (wrap_i32 (temporary + green) - ceil_half v);
          blue = wrap_i32 (v + red)
      in (red, green, blue))"

definition rgb_pixel :: "bool \<Rightarrow> i32 \<times> i32 \<times> i32 \<Rightarrow> i32 \<times> i32 \<times> i32" where
  "rgb_pixel is_reversed = (\<lambda>(y, u, v).
     case wrapping_inverse_yuv y u v of
       (red, green, blue) \<Rightarrow> if is_reversed then (blue, green, red) else (red, green, blue))"

definition store_rgb :: "nat \<Rightarrow> i32 list \<Rightarrow> i32 list \<Rightarrow> i32 list \<Rightarrow> bool \<Rightarrow> bool \<Rightarrow> (i32 list \<times> integer_scale) option \<Rightarrow>
    integer_scale \<Rightarrow> 'a::len word list \<Rightarrow> 'a word list \<times> nat" where
  "store_rgb pixel_size ys us vs gray is_reversed opacity scale out =
     (let pixels = length out div pixel_size;
          padding = (if pixel_size = 4 then [0] else []);
          (stored, bits) =
            (if gray
             then (rewrite_chunks pixel_size (\<lambda>v _. [store_value scale v, store_value scale v, store_value scale v] @ padding) ys out,
                   magnitudes (take pixels ys))
             else
               let inputs = zip ys (zip us vs) in
               (rewrite_chunks pixel_size (\<lambda>yuv _. case rgb_pixel is_reversed yuv of (first, green, third) \<Rightarrow>
                    [store_value scale first, store_value scale green, store_value scale third] @ padding) inputs out,
                magnitudes (concat (map (\<lambda>(y, u, v). [y, u, v]) (take pixels inputs)))))
      in case opacity of
           Some (alphas, alpha_scale) \<Rightarrow>
             (rewrite_chunks pixel_size (\<lambda>a pixel. pixel[pixel_size - 1 := store_value alpha_scale a]) alphas stored,
              bits OR magnitudes (take pixels alphas))
         | None \<Rightarrow> (stored, bits))"

definition store_row :: "interleave_plan \<Rightarrow> store_shape \<Rightarrow> nat \<Rightarrow> 'a::len word list \<Rightarrow> ('e, 'a word list \<times> nat) result" where
  "store_row plan shape y out =
     (let w = ip_width plan in
      let_try (case ip_alpha_rows plan of
          Some rows \<Rightarrow> let_try (rows_row rows y w) (\<lambda>r. Ok (Some r)) | None \<Rightarrow> Ok None) (\<lambda>alpha.
      if ip_conversion plan = ConvertLuma \<and> shape = ShapeLuma then
        let_try (rows_row (ip_planes plan ! 0) y w) (\<lambda>source. Ok (store_luma source (ip_color plan) out))
      else if ip_conversion plan = ConvertLuma \<and> shape = ShapeLumaAlpha then
        let_try (rows_row (ip_planes plan ! 0) y w) (\<lambda>source.
        Ok (store_luma_alpha source (case alpha of Some a \<Rightarrow> a | None \<Rightarrow> []) (ip_color plan)
          (case ip_alpha plan of Some s \<Rightarrow> s | None \<Rightarrow> ip_color plan) out))
      else
        let_try (rows_row (ip_planes plan ! 0) y w) (\<lambda>ys.
        let_try (rows_row (ip_planes plan ! 1) y w) (\<lambda>us.
        let_try (rows_row (ip_planes plan ! 2) y w) (\<lambda>vs.
        let gray = (ip_conversion plan = ConvertLumaToRgb) in
        case shape of
          ShapeRgb is_reversed \<Rightarrow> Ok (store_rgb 3 ys us vs gray is_reversed None (ip_color plan) out)
        | ShapeRgbPadding is_reversed \<Rightarrow> Ok (store_rgb 4 ys us vs gray is_reversed None (ip_color plan) out)
        | ShapeRgbAlpha is_reversed \<Rightarrow>
            Ok (store_rgb 4 ys us vs gray is_reversed
              (case (alpha, ip_alpha plan) of (Some a, Some s) \<Rightarrow> Some (a, s) | _ \<Rightarrow> None) (ip_color plan) out)
        | _ \<Rightarrow> Panic)))))"

text \<open>A task: its full rows; what is left of its slice stays.\<close>

definition store_task :: "interleave_plan \<Rightarrow> store_shape \<Rightarrow> nat \<Rightarrow> nat \<Rightarrow> nat \<times> 'a::len word list \<Rightarrow>
    ('e, 'a word list \<times> nat) result" where
  "store_task plan shape rows_per_task row_length = (\<lambda>(task, rows).
     let full = length rows div row_length * row_length in
     let_try (map_try (\<lambda>(row, destination). store_row plan shape (task * rows_per_task + row) destination)
       (enumerate 0 (chunks row_length (take full rows)))) (\<lambda>stored.
     Ok (concat (map fst stored) @ drop full rows, fold (\<lambda>(_, b) bits. bits OR b) stored 0)))"

definition try_store :: "format_context \<Rightarrow> 'a::len word list \<Rightarrow> ('e, 'a word list \<times> bool) result" where
  "try_store c out =
     (case interleave_plan_of c of
        None \<Rightarrow> Ok (out, False)
      | Some (plan, shape) \<Rightarrow>
          let pixel_size = shape_channels shape in
          if length out \<noteq> ip_width plan * fc_height c * pixel_size then Ok (out, False)
          else if ip_width plan = 0 \<or> fc_height c = 0 then Ok (out, True)
          else
            let rows_per_task = max 1 (PIXELS_PER_TASK div ip_width plan);
                row_length = ip_width plan * pixel_size in
            let_try (map_try (store_task plan shape rows_per_task row_length)
              (enumerate 0 (chunks (rows_per_task * row_length) out))) (\<lambda>tasks.
            Ok (concat (map fst tasks), fold (\<lambda>(_, b) bits. bits OR b) tasks 0 < SAFE_MAGNITUDE)))"

section \<open>simd_pack.rs\<close>

record pack_bias =
  pb_addition :: i32
  pb_shift :: nat

definition pack_bias_new :: "bool \<Rightarrow> pack_bias" where
  "pack_bias_new is_scaled =
     (if is_scaled then \<lparr>pb_addition = 1024 + 3, pb_shift = 3\<rparr> else \<lparr>pb_addition = 128, pb_shift = 0\<rparr>)"

definition pack_byte :: "pack_bias \<Rightarrow> i32 \<Rightarrow> u8" where
  "pack_byte b sample =
     word_of_int (max 0 (min (sar (max i32_min (min i32_max (sample + pb_addition b))) (pb_shift b)) 255))"

definition pack_row :: "i32 list \<Rightarrow> u8 list \<Rightarrow> pack_bias \<Rightarrow> u8 list \<times> i32" where
  "pack_row source destination b =
     (rewrite_chunks 1 (\<lambda>v _. [pack_byte b v]) source destination,
      fold (\<lambda>v peak. max peak v) (take (length destination) source) i32_min)"

definition pack_scalar_row :: "i32 list \<Rightarrow> nat \<Rightarrow> nat \<times> nat \<Rightarrow> nat \<Rightarrow> pack_bias \<Rightarrow> nat \<Rightarrow> u8 list \<times> i32 \<Rightarrow>
    ('e, u8 list \<times> i32) result" where
  "pack_scalar_row input stride start width b y = (\<lambda>(out, peak).
     let source_start = (snd start + y) * stride + fst start in
     if length input < source_start + width \<or> length out < (y + 1) * width then Panic
     else case pack_row (take width (drop source_start input)) (take width (drop (y * width) out)) b of
       (row, row_peak) \<Rightarrow> Ok (take (y * width) out @ row @ drop ((y + 1) * width) out, max peak row_peak))"

definition pack_scalar :: "i32 list \<Rightarrow> nat \<Rightarrow> nat \<times> nat \<Rightarrow> nat \<times> nat \<Rightarrow> pack_bias \<Rightarrow> u8 list \<Rightarrow>
    ('e, u8 list \<times> i32) result" where
  "pack_scalar input stride start dimensions b out =
     each_try (pack_scalar_row input stride start (fst dimensions) b) [0..<snd dimensions] (out, i32_min)"

definition pack_u8_into :: "i32 list \<Rightarrow> nat \<Rightarrow> nat \<times> nat \<Rightarrow> nat \<times> nat \<Rightarrow> bool \<Rightarrow> u8 list \<Rightarrow>
    (output_error, u8 list) result" where
  "pack_u8_into input stride start dimensions is_scaled out =
     (let width = fst dimensions; height = snd dimensions in
      let_try (require_output (width * height \<le> usize_max) (OutputOverflow ''calculating SIMD output length'')) (\<lambda>_.
      let_try (require_output (length out = width * height)
        (UnsupportedCombination ''SIMD U8 destination length differs from the output contract'')) (\<lambda>_.
      let_try (if 0 < height then
          let last_row_end = (snd start + (height - 1)) * stride + fst start + width in
          let_try (require_output (last_row_end \<le> usize_max) (OutputOverflow ''calculating SIMD input row'')) (\<lambda>_.
          require_output (last_row_end \<le> length input) (InvalidPlane None ''SIMD input row exceeds component plane''))
        else Ok ()) (\<lambda>_.
      let_try (pack_scalar input stride start dimensions (pack_bias_new is_scaled) out) (\<lambda>(packed, maximum).
      let_try (require_output (maximum \<le> i32_max - pb_addition (pack_bias_new is_scaled))
        (OutputOverflow ''adding output bias'')) (\<lambda>_. Ok packed))))))"

definition append_u8 :: "i32 list \<Rightarrow> nat \<Rightarrow> nat \<times> nat \<Rightarrow> nat \<times> nat \<Rightarrow> bool \<Rightarrow> u8 list \<Rightarrow> (output_error, u8 list) result" where
  "append_u8 input stride start dimensions is_scaled out =
     (let n = fst dimensions * snd dimensions in
      let_try (require_output (n \<le> usize_max) (OutputOverflow ''calculating SIMD output length'')) (\<lambda>_.
      let_try (require_output (length out + n \<le> usize_max) (OutputOverflow ''growing SIMD output'')) (\<lambda>_.
      let_try (pack_u8_into input stride start dimensions is_scaled (replicate n 0)) (\<lambda>packed. Ok (out @ packed)))))"

end
