(* ===== verification/Output_Format.thy ===== *)
theory Output_Format
  imports Output_Kernels
begin

text \<open>
  Packing of reconstructed planes into typed samples
  (\<open>crates/jxr-native/src/output_format/packing.rs\<close>, \<open>packed_color.rs\<close> and \<open>premultiply.rs\<close>): into a fresh
  buffer, or into a destination of the caller. A binary32 is its word; its product with the clamped alpha,
  whose not-a-number results the language leaves open, is the parameter \<open>product\<close>.
\<close>

section \<open>Samples\<close>

datatype decoded_samples =
    SamplesBitPacked "u8 list" | SamplesU8 "u8 list" | SamplesU16 "16 word list"
  | SamplesI16 "int list" | SamplesI32 "i32 list" | SamplesF16 "16 word list" | SamplesF32 "32 word list"
  | SamplesRgb555 "16 word list" | SamplesRgb565 "16 word list" | SamplesRgb101010 "32 word list"
  | SamplesRgbe "32 word list"

fun matches_format :: "decoded_samples \<Rightarrow> pixel_format \<Rightarrow> bool" where
  "matches_format (SamplesBitPacked _) f = (case f of PixelBitPacked _ \<Rightarrow> True | _ \<Rightarrow> False)"
| "matches_format (SamplesU8 _) f = (case f of PixelU8 _ \<Rightarrow> True | _ \<Rightarrow> False)"
| "matches_format (SamplesU16 _) f = (case f of PixelU16 _ \<Rightarrow> True | _ \<Rightarrow> False)"
| "matches_format (SamplesI16 _) f = (case f of PixelI16 _ \<Rightarrow> True | _ \<Rightarrow> False)"
| "matches_format (SamplesI32 _) f = (case f of PixelI32 _ \<Rightarrow> True | _ \<Rightarrow> False)"
| "matches_format (SamplesF16 _) f = (case f of PixelF16 _ \<Rightarrow> True | _ \<Rightarrow> False)"
| "matches_format (SamplesF32 _) f = (case f of PixelF32 _ \<Rightarrow> True | _ \<Rightarrow> False)"
| "matches_format (SamplesRgb555 _) f = (f = PixelRgb555)"
| "matches_format (SamplesRgb565 _) f = (f = PixelRgb565)"
| "matches_format (SamplesRgb101010 _) f = (f = PixelRgb101010)"
| "matches_format (SamplesRgbe _) f = (f = PixelRgbe)"

fun samples_len :: "decoded_samples \<Rightarrow> nat" where
  "samples_len (SamplesBitPacked v) = length v"
| "samples_len (SamplesU8 v) = length v"
| "samples_len (SamplesU16 v) = length v"
| "samples_len (SamplesI16 v) = length v"
| "samples_len (SamplesI32 v) = length v"
| "samples_len (SamplesF16 v) = length v"
| "samples_len (SamplesF32 v) = length v"
| "samples_len (SamplesRgb555 v) = length v"
| "samples_len (SamplesRgb565 v) = length v"
| "samples_len (SamplesRgb101010 v) = length v"
| "samples_len (SamplesRgbe v) = length v"

text \<open>\<open>try_from(..).expect(..)\<close> on an unsigned type.\<close>

definition expect_word :: "int \<Rightarrow> ('e, 'a::len word) result" where
  "expect_word v = (if 0 \<le> v \<and> v < 2 ^ LENGTH('a) then Ok (word_of_int v) else Panic)"

section \<open>premultiply.rs\<close>

definition premultiply_pixel :: "('a \<Rightarrow> 'a \<Rightarrow> (output_error, 'a) result) \<Rightarrow> nat \<Rightarrow> 'a list \<Rightarrow> (output_error, 'a list) result" where
  "premultiply_pixel f n pixel =
     let_try (map_try (\<lambda>v. f v (pixel ! (n - 1))) (take (n - 1) pixel)) (\<lambda>vs. Ok (vs @ drop (n - 1) pixel))"

text \<open>The loop over the full pixels that all storage types share.\<close>

definition premultiply_pixels :: "('a \<Rightarrow> 'a \<Rightarrow> (output_error, 'a) result) \<Rightarrow> nat \<Rightarrow> 'a list \<Rightarrow> (output_error, 'a list) result" where
  "premultiply_pixels f n vs =
     (if n = 0 then Panic
      else
        let full = length vs div n * n in
        let_try (map_try (premultiply_pixel f n) (chunks n (take full vs))) (\<lambda>ps. Ok (concat ps @ drop full vs)))"

definition premultiply_error :: "(math_error, 'a) result \<Rightarrow> (output_error, 'a) result" where
  "premultiply_error = map_err (\<lambda>_. OutputOverflow ''premultiplying output alpha'')"

definition premultiply_word :: "nat \<Rightarrow> 'a::len word \<Rightarrow> 'a word \<Rightarrow> (output_error, 'a word) result" where
  "premultiply_word maximum v a =
     let_try (premultiply_error (premultiply_unsigned (unat v) (unat a) maximum)) (\<lambda>m. expect_word (int m))"

definition premultiply_u8 :: "u8 list \<Rightarrow> nat \<Rightarrow> (output_error, u8 list) result" where
  "premultiply_u8 vs n = premultiply_pixels (premultiply_word 255) n vs"

definition premultiply_u16 :: "16 word list \<Rightarrow> nat \<Rightarrow> (output_error, 16 word list) result" where
  "premultiply_u16 vs n = premultiply_pixels (premultiply_word 65535) n vs"

definition premultiply_i16 :: "int list \<Rightarrow> nat \<Rightarrow> (output_error, int list) result" where
  "premultiply_i16 vs n = premultiply_pixels (\<lambda>v a.
     let_try (premultiply_error (premultiply_signed v a 32767)) (\<lambda>m.
     if - 32768 \<le> m \<and> m \<le> 32767 then Ok m else Panic)) n vs"

definition premultiply_i32 :: "i32 list \<Rightarrow> nat \<Rightarrow> (output_error, i32 list) result" where
  "premultiply_i32 vs n = premultiply_pixels (\<lambda>v a. premultiply_error (premultiply_signed v a i32_max)) n vs"

definition premultiply_f16 :: "16 word list \<Rightarrow> nat \<Rightarrow> (output_error, 16 word list) result" where
  "premultiply_f16 vs n = premultiply_pixels (\<lambda>v a. premultiply_error (premultiply_sign_magnitude_15 v a)) n vs"

definition premultiply_float :: "(32 word \<Rightarrow> 32 word \<Rightarrow> 32 word) \<Rightarrow> 32 word list \<Rightarrow> nat \<Rightarrow> (output_error, 32 word list) result" where
  "premultiply_float product vs n = premultiply_pixels (\<lambda>v a. Ok (product v a)) n vs"

definition premultiply_output :: "(32 word \<Rightarrow> 32 word \<Rightarrow> 32 word) \<Rightarrow> decoded_samples \<Rightarrow> pixel_format \<Rightarrow>
    (output_error, decoded_samples) result" where
  "premultiply_output product samples f =
     (let n = channel_count f in
      case samples of
        SamplesU8 vs \<Rightarrow> let_try (premultiply_u8 vs n) (\<lambda>vs. Ok (SamplesU8 vs))
      | SamplesU16 vs \<Rightarrow> let_try (premultiply_u16 vs n) (\<lambda>vs. Ok (SamplesU16 vs))
      | SamplesI16 vs \<Rightarrow> let_try (premultiply_i16 vs n) (\<lambda>vs. Ok (SamplesI16 vs))
      | SamplesI32 vs \<Rightarrow> let_try (premultiply_i32 vs n) (\<lambda>vs. Ok (SamplesI32 vs))
      | SamplesF16 vs \<Rightarrow> let_try (premultiply_f16 vs n) (\<lambda>vs. Ok (SamplesF16 vs))
      | SamplesF32 vs \<Rightarrow> let_try (premultiply_float product vs n) (\<lambda>vs. Ok (SamplesF32 vs))
      | _ \<Rightarrow> Err (UnsupportedCombination ''alpha premultiplication for packed output''))"

section \<open>Values of one sample\<close>

definition word_value :: "i32 \<Rightarrow> format_context \<Rightarrow> i32 \<Rightarrow> nat \<Rightarrow> bool \<Rightarrow> (output_error, 'a::len word) result" where
  "word_value maximum c v component for_alpha =
     let_try (scales_apply (channel_scales_of c) v component for_alpha) (\<lambda>s. expect_word (clamp_sample s 0 maximum))"

definition u16_maximum :: "format_context \<Rightarrow> i32" where
  "u16_maximum c = (if or_depth (fc_request c) = DepthU10 then 1023 else 65535)"

definition i16_value :: "format_context \<Rightarrow> i32 \<Rightarrow> nat \<Rightarrow> bool \<Rightarrow> (output_error, int) result" where
  "i16_value c v component for_alpha =
     let_try (scales_apply (channel_scales_of c) v component for_alpha) (\<lambda>s.
     let clipped = clamp_sample s (- 32768) 32767 in
     if - 32768 \<le> clipped \<and> clipped \<le> 32767 then Ok clipped else Panic)"

definition f16_value :: "format_context \<Rightarrow> i32 \<Rightarrow> nat \<Rightarrow> bool \<Rightarrow> (output_error, 16 word) result" where
  "f16_value c v component for_alpha =
     (if is_padding c component for_alpha then Ok 0
      else float16_bits v (if for_alpha then af_scaled (alpha_format c) else or_scaled (fc_request c)))"

definition f32_value :: "format_context \<Rightarrow> i32 \<Rightarrow> nat \<Rightarrow> bool \<Rightarrow> (output_error, 32 word) result" where
  "f32_value c v component for_alpha =
     (if is_padding c component for_alpha then Ok 0
      else
        let f = (if for_alpha then alpha_format c
              else \<lparr>af_depth = or_depth (fc_request c), af_scaled = or_scaled (fc_request c)\<rparr>) in
        case af_depth f of
          DepthF32 mantissa_length exponent_bias \<Rightarrow> float32_bits v (af_scaled f) mantissa_length exponent_bias
        | _ \<Rightarrow> Err (UnsupportedCombination ''alpha and primary floating-point depth''))"

section \<open>Loops over the samples\<close>

text \<open>A closure that pushes, and one that stores at the next index of a slice.\<close>

definition pack_ordered :: "format_context \<Rightarrow> (i32 \<Rightarrow> nat \<Rightarrow> bool \<Rightarrow> (output_error, 'a) result) \<Rightarrow> (output_error, 'a list) result" where
  "pack_ordered c f =
     for_each_ordered c (\<lambda>v component for_alpha out. let_try (f v component for_alpha) (\<lambda>x. Ok (out @ [x]))) []"

definition store_next :: "(output_error, 'a) result \<Rightarrow> 'a list \<times> nat \<Rightarrow> (output_error, 'a list \<times> nat) result" where
  "store_next r = (\<lambda>(out, index).
     let_try r (\<lambda>x. if index < length out then Ok (out[index := x], index + 1) else Panic))"

definition fill_ordered :: "format_context \<Rightarrow> (i32 \<Rightarrow> nat \<Rightarrow> bool \<Rightarrow> (output_error, 'a) result) \<Rightarrow> 'a list \<Rightarrow>
    (output_error, 'a list) result" where
  "fill_ordered c f out =
     let_try (for_each_ordered c (\<lambda>v component for_alpha. store_next (f v component for_alpha)) (out, 0))
       (\<lambda>(out, index). Ok out)"

definition fill_pixels :: "format_context \<Rightarrow> (i32 list \<Rightarrow> (output_error, 'a) result) \<Rightarrow> 'a list \<Rightarrow>
    (output_error, 'a list) result" where
  "fill_pixels c f out = let_try (for_each_color c (\<lambda>v. store_next (f v)) (out, 0)) (\<lambda>(out, index). Ok out)"

section \<open>packed_color.rs\<close>

definition rgb_scales :: "format_context \<Rightarrow> channel_scale list" where
  "rgb_scales c =
     map (\<lambda>component. resolve_scale component ColorRgb (or_depth (fc_request c)) (or_scaled (fc_request c))) [0..<3]"

definition clip_unsigned :: "i32 \<Rightarrow> nat \<Rightarrow> nat" where
  "clip_unsigned v maximum = min (if v < 0 then 0 else nat v) maximum"

definition packed_maximum :: "output_bit_depth \<Rightarrow> nat \<Rightarrow> nat option" where
  "packed_maximum depth component =
     (if depth = DepthRgb565 \<and> component = 1 then Some 63
      else if depth = DepthRgb555 \<or> depth = DepthRgb565 then Some 31
      else if depth = DepthRgb101010 then Some 1023 else None)"

definition scale_rgb_at :: "format_context \<Rightarrow> channel_scale list \<Rightarrow> i32 list \<Rightarrow> nat \<Rightarrow> (output_error, nat) result" where
  "scale_rgb_at c scaling components component =
     let_try (index_or_panic scaling component) (\<lambda>scale.
     let_try (index_or_panic components component) (\<lambda>v.
     let_try (apply_scale scale v) (\<lambda>s.
     case packed_maximum (or_depth (fc_request c)) component of
       Some maximum \<Rightarrow> Ok (clip_unsigned s maximum) | None \<Rightarrow> Panic)))"

definition scale_rgb :: "format_context \<Rightarrow> channel_scale list \<Rightarrow> i32 list \<Rightarrow> (output_error, nat \<times> nat \<times> nat) result" where
  "scale_rgb c scaling components =
     let_try (scale_rgb_at c scaling components 0) (\<lambda>r.
     let_try (scale_rgb_at c scaling components 1) (\<lambda>g.
     let_try (scale_rgb_at c scaling components 2) (\<lambda>b. Ok (r, g, b))))"

definition pack_rgb555_into :: "format_context \<Rightarrow> 16 word list \<Rightarrow> (output_error, 16 word list) result" where
  "pack_rgb555_into c out = fill_pixels c (\<lambda>components.
     let_try (scale_rgb c (rgb_scales c) components) (\<lambda>(r, g, b).
     expect_word (int (b OR push_bit 5 g OR push_bit 10 r)))) out"

definition pack_rgb565_into :: "format_context \<Rightarrow> 16 word list \<Rightarrow> (output_error, 16 word list) result" where
  "pack_rgb565_into c out = fill_pixels c (\<lambda>components.
     let_try (scale_rgb c (rgb_scales c) components) (\<lambda>(r, g, b).
     expect_word (int (b OR push_bit 5 g OR push_bit 11 r)))) out"

definition pack_rgb101010_into :: "format_context \<Rightarrow> 32 word list \<Rightarrow> (output_error, 32 word list) result" where
  "pack_rgb101010_into c out = fill_pixels c (\<lambda>components.
     let_try (scale_rgb c (rgb_scales c) components) (\<lambda>(r, g, b).
     Ok (of_nat b OR push_bit 10 (of_nat g) OR push_bit 20 (of_nat r)))) out"

definition rgbe_scaled :: "format_context \<Rightarrow> i32 list \<Rightarrow> nat \<Rightarrow> (output_error, i32) result" where
  "rgbe_scaled c components component =
     let_try (index_or_panic components component) (\<lambda>v.
     apply_scale (resolve_scale component ColorRgbe DepthU8 (or_scaled (fc_request c))) v)"

definition pack_rgbe_into :: "format_context \<Rightarrow> 32 word list \<Rightarrow> (output_error, 32 word list) result" where
  "pack_rgbe_into c out = fill_pixels c (\<lambda>components.
     let_try (rgbe_scaled c components 0) (\<lambda>r.
     let_try (rgbe_scaled c components 1) (\<lambda>g.
     let_try (rgbe_scaled c components 2) (\<lambda>b.
     let_try (postscale_rgbe (r, g, b)) (\<lambda>bytes. Ok (pack_rgbe bytes)))))) out"

section \<open>packing.rs: into a fresh buffer\<close>

definition bit_value :: "format_context \<Rightarrow> i32 \<Rightarrow> (output_error, u8) result" where
  "bit_value c sample =
     let_try (scale_integer_component sample 0 ColorLuma (or_depth (fc_request c)) (or_scaled (fc_request c))) (\<lambda>s.
     let clipped = clamp_sample s 0 1 in
     if or_depth (fc_request c) = DepthBit1White then expect_word clipped
     else if or_depth (fc_request c) = DepthBit1Black then expect_word (1 - clipped)
     else Panic)"

definition store_bit :: "format_context \<Rightarrow> nat \<times> nat \<Rightarrow> u8 list \<Rightarrow> (output_error, u8 list) result" where
  "store_bit c = (\<lambda>(x, y) out.
     let_try (color_components c x y) (\<lambda>components.
     let_try (index_or_panic components 0) (\<lambda>sample.
     let_try (bit_value c sample) (\<lambda>flag.
     let index = y * ((fc_width c + 7) div 8) + x div 8 in
     let_try (index_or_panic out index) (\<lambda>old. Ok (out[index := old OR push_bit (7 - x mod 8) flag]))))))"

definition store_bits :: "format_context \<Rightarrow> u8 list \<Rightarrow> (output_error, u8 list) result" where
  "store_bits c = each_try (store_bit c) (concat (map (\<lambda>y. map (\<lambda>x. (x, y)) [0..<fc_width c]) [0..<fc_height c]))"

definition pack_bits :: "format_context \<Rightarrow> (output_error, decoded_samples) result" where
  "pack_bits c =
     (let n = (fc_width c + 7) div 8 * fc_height c in
      if usize_max < n then Err (OutputOverflow ''calculating bit-packed output size'')
      else let_try (store_bits c (replicate n 0)) (\<lambda>out. Ok (SamplesBitPacked out)))"

definition is_plain_luma :: "format_context \<Rightarrow> bool" where
  "is_plain_luma c \<longleftrightarrow> or_internal (fc_request c) = ColorLuma \<and> or_output (fc_request c) = ColorLuma \<and>
     fc_alpha c = None \<and> or_pixels (fc_request c) = PixelU8 LayoutLuma"

text \<open>The start of the crop in a plane; a difference below zero panics.\<close>

definition crop_start :: "crop_window \<Rightarrow> component_plane \<Rightarrow> ('e, nat \<times> nat) result" where
  "crop_start crop p =
     (if crop_x crop < cp_origin_x p \<or> crop_y crop < cp_origin_y p then Panic
      else Ok (crop_x crop - cp_origin_x p, crop_y crop - cp_origin_y p))"

definition pack_u8 :: "format_context \<Rightarrow> nat \<Rightarrow> (output_error, decoded_samples) result" where
  "pack_u8 c elements =
     (if is_plain_luma c then
        let_try (index_or_panic (fc_planes c) 0) (\<lambda>p.
        let_try (crop_start (or_crop (fc_request c)) p) (\<lambda>start.
        let_try (append_u8 (cp_samples p) (cp_stride p) start (fc_width c, fc_height c) (or_scaled (fc_request c)) [])
          (\<lambda>out. Ok (SamplesU8 out))))
      else
        let_try (try_store c (replicate elements 0)) (\<lambda>(out, stored).
        if stored then Ok (SamplesU8 out)
        else let_try (pack_ordered c (word_value 255 c)) (\<lambda>out. Ok (SamplesU8 out))))"

definition pack_u16 :: "format_context \<Rightarrow> nat \<Rightarrow> (output_error, decoded_samples) result" where
  "pack_u16 c elements =
     let_try (try_store c (replicate elements 0)) (\<lambda>(out, stored).
     if stored then Ok (SamplesU16 out)
     else let_try (pack_ordered c (word_value (u16_maximum c) c)) (\<lambda>out. Ok (SamplesU16 out)))"

definition pack_i16 :: "format_context \<Rightarrow> (output_error, decoded_samples) result" where
  "pack_i16 c = let_try (pack_ordered c (i16_value c)) (\<lambda>out. Ok (SamplesI16 out))"

definition pack_i32 :: "format_context \<Rightarrow> (output_error, decoded_samples) result" where
  "pack_i32 c = let_try (pack_ordered c (scales_apply (channel_scales_of c))) (\<lambda>out. Ok (SamplesI32 out))"

definition pack_f16 :: "format_context \<Rightarrow> (output_error, decoded_samples) result" where
  "pack_f16 c = let_try (pack_ordered c (f16_value c)) (\<lambda>out. Ok (SamplesF16 out))"

definition pack_f32 :: "format_context \<Rightarrow> (output_error, decoded_samples) result" where
  "pack_f32 c = let_try (pack_ordered c (f32_value c)) (\<lambda>out. Ok (SamplesF32 out))"

definition context_of :: "component_plane list \<Rightarrow> component_plane option \<Rightarrow> output_format_request \<Rightarrow> nat \<Rightarrow> format_context" where
  "context_of planes alpha r n =
     \<lparr>fc_planes = planes, fc_alpha = alpha, fc_request = r, fc_count = n,
      fc_width = crop_width (or_crop r), fc_height = crop_height (or_crop r)\<rparr>"

definition pack_samples :: "format_context \<Rightarrow> nat \<Rightarrow> nat \<Rightarrow> (output_error, decoded_samples) result" where
  "pack_samples c pixels elements =
     (if or_pixels (fc_request c) = PixelRgbe
      then let_try (pack_rgbe_into c (replicate pixels 0)) (\<lambda>out. Ok (SamplesRgbe out))
      else case or_depth (fc_request c) of
        DepthU8 \<Rightarrow> pack_u8 c elements
      | DepthBit1White \<Rightarrow> pack_bits c
      | DepthBit1Black \<Rightarrow> pack_bits c
      | DepthU10 \<Rightarrow> pack_u16 c elements
      | DepthU16 _ \<Rightarrow> pack_u16 c elements
      | DepthI16 _ \<Rightarrow> pack_i16 c
      | DepthI32 _ \<Rightarrow> pack_i32 c
      | DepthF16 \<Rightarrow> pack_f16 c
      | DepthF32 _ _ \<Rightarrow> pack_f32 c
      | DepthRgb555 \<Rightarrow> let_try (pack_rgb555_into c (replicate pixels 0)) (\<lambda>out. Ok (SamplesRgb555 out))
      | DepthRgb565 \<Rightarrow> let_try (pack_rgb565_into c (replicate pixels 0)) (\<lambda>out. Ok (SamplesRgb565 out))
      | DepthRgb101010 \<Rightarrow> let_try (pack_rgb101010_into c (replicate pixels 0)) (\<lambda>out. Ok (SamplesRgb101010 out)))"

definition output_count :: "string \<Rightarrow> nat \<Rightarrow> (output_error, nat) result" where
  "output_count name n = (if usize_max < n then Err (OutputOverflow name) else Ok n)"

definition format_components :: "(32 word \<Rightarrow> 32 word \<Rightarrow> 32 word) \<Rightarrow> component_plane list \<Rightarrow> component_plane option \<Rightarrow>
    output_format_request \<Rightarrow> (output_error, decoded_samples) result" where
  "format_components product planes alpha r =
     let_try (validate_formatting planes alpha r) (\<lambda>n.
     let_try (output_count ''calculating output pixel count'' (crop_width (or_crop r) * crop_height (or_crop r))) (\<lambda>pixels.
     let_try (output_count ''calculating output element count'' (pixels * channel_count (or_pixels r))) (\<lambda>elements.
     let_try (pack_samples (context_of planes alpha r n) pixels elements) (\<lambda>samples.
     if or_premultiply r then premultiply_output product samples (or_pixels r) else Ok samples))))"

section \<open>packing.rs: into a destination\<close>

definition fill_u16 :: "format_context \<Rightarrow> 16 word list \<Rightarrow> (output_error, 16 word list) result" where
  "fill_u16 c out =
     let_try (try_store c out) (\<lambda>(out, stored).
     if stored then Ok out else fill_ordered c (word_value (u16_maximum c) c) out)"

definition fill_i16 :: "format_context \<Rightarrow> int list \<Rightarrow> (output_error, int list) result" where
  "fill_i16 c out = fill_ordered c (i16_value c) out"

definition fill_f16 :: "format_context \<Rightarrow> 16 word list \<Rightarrow> (output_error, 16 word list) result" where
  "fill_f16 c out = fill_ordered c (f16_value c) out"

definition fill_f32 :: "format_context \<Rightarrow> 32 word list \<Rightarrow> (output_error, 32 word list) result" where
  "fill_f32 c out = fill_ordered c (f32_value c) out"

definition fill_bits :: "format_context \<Rightarrow> u8 list \<Rightarrow> (output_error, u8 list) result" where
  "fill_bits c out = store_bits c (replicate (length out) 0)"

definition format_components_u8_into :: "component_plane list \<Rightarrow> component_plane option \<Rightarrow> output_format_request \<Rightarrow>
    u8 list \<Rightarrow> (output_error, u8 list) result" where
  "format_components_u8_into planes alpha r out =
     let_try (validate_formatting planes alpha r) (\<lambda>n.
     if \<not> ((case or_pixels r of PixelU8 _ \<Rightarrow> True | _ \<Rightarrow> False) \<and> or_depth r = DepthU8)
     then Err (UnsupportedCombination ''direct U8 output requires an eight-bit U8 pixel format'')
     else
       let pixels = crop_width (or_crop r) * crop_height (or_crop r) in
       let_try (output_count ''calculating direct U8 output size'' pixels) (\<lambda>pixels.
       let_try (output_count ''calculating direct U8 output size'' (pixels * channel_count (or_pixels r))) (\<lambda>expected.
       if length out \<noteq> expected
       then Err (UnsupportedCombination ''direct U8 destination length differs from the output contract'')
       else
         let c = context_of planes alpha r n in
         if is_plain_luma c then
           let_try (index_or_panic planes 0) (\<lambda>p.
           let_try (crop_start (or_crop r) p) (\<lambda>start.
           pack_u8_into (cp_samples p) (cp_stride p) start (fc_width c, fc_height c) (or_scaled r) out))
         else
           let_try (let_try (try_store c out) (\<lambda>(out, stored).
             if stored then Ok out else fill_ordered c (word_value 255 c) out)) (\<lambda>out.
           if or_premultiply r then premultiply_u8 out (channel_count (or_pixels r)) else Ok out))))"

definition fill_direct_destination :: "format_context \<Rightarrow> decoded_samples \<Rightarrow> (output_error, decoded_samples) result" where
  "fill_direct_destination c destination =
     (case destination of
        SamplesBitPacked out \<Rightarrow> let_try (fill_bits c out) (\<lambda>out. Ok (SamplesBitPacked out))
      | SamplesU8 out \<Rightarrow>
          let_try (format_components_u8_into (fc_planes c) (fc_alpha c) (fc_request c) out) (\<lambda>out. Ok (SamplesU8 out))
      | SamplesU16 out \<Rightarrow> let_try (fill_u16 c out) (\<lambda>out. Ok (SamplesU16 out))
      | SamplesI16 out \<Rightarrow> let_try (fill_i16 c out) (\<lambda>out. Ok (SamplesI16 out))
      | SamplesI32 out \<Rightarrow> let_try (fill_ordered c (scales_apply (channel_scales_of c)) out) (\<lambda>out. Ok (SamplesI32 out))
      | SamplesF16 out \<Rightarrow> let_try (fill_f16 c out) (\<lambda>out. Ok (SamplesF16 out))
      | SamplesF32 out \<Rightarrow> let_try (fill_f32 c out) (\<lambda>out. Ok (SamplesF32 out))
      | SamplesRgb555 out \<Rightarrow> let_try (pack_rgb555_into c out) (\<lambda>out. Ok (SamplesRgb555 out))
      | SamplesRgb565 out \<Rightarrow> let_try (pack_rgb565_into c out) (\<lambda>out. Ok (SamplesRgb565 out))
      | SamplesRgb101010 out \<Rightarrow> let_try (pack_rgb101010_into c out) (\<lambda>out. Ok (SamplesRgb101010 out))
      | SamplesRgbe out \<Rightarrow> let_try (pack_rgbe_into c out) (\<lambda>out. Ok (SamplesRgbe out)))"

definition direct_length :: "output_format_request \<Rightarrow> nat \<Rightarrow> nat \<Rightarrow> (output_error, nat) result" where
  "direct_length r pixels elements =
     (case or_pixels r of
        PixelBitPacked _ \<Rightarrow>
          output_count ''calculating bit-packed output size'' ((crop_width (or_crop r) + 7) div 8 * crop_height (or_crop r))
      | PixelRgb555 \<Rightarrow> Ok pixels
      | PixelRgb565 \<Rightarrow> Ok pixels
      | PixelRgb101010 \<Rightarrow> Ok pixels
      | PixelRgbe \<Rightarrow> Ok pixels
      | _ \<Rightarrow> Ok elements)"

definition format_components_into :: "(32 word \<Rightarrow> 32 word \<Rightarrow> 32 word) \<Rightarrow> component_plane list \<Rightarrow> component_plane option \<Rightarrow>
    output_format_request \<Rightarrow> decoded_samples \<Rightarrow> (output_error, decoded_samples) result" where
  "format_components_into product planes alpha r destination =
     let_try (validate_formatting planes alpha r) (\<lambda>n.
     if \<not> matches_format destination (or_pixels r)
     then Err (UnsupportedCombination ''direct destination type differs from the output format'')
     else
       let_try (output_count ''calculating output pixel count'' (crop_width (or_crop r) * crop_height (or_crop r))) (\<lambda>pixels.
       let_try (output_count ''calculating output element count'' (pixels * channel_count (or_pixels r))) (\<lambda>elements.
       let_try (direct_length r pixels elements) (\<lambda>expected.
       if samples_len destination \<noteq> expected
       then Err (UnsupportedCombination ''direct destination length differs from the output contract'')
       else
         let_try (fill_direct_destination (context_of planes alpha r n) destination) (\<lambda>samples.
         if or_premultiply r then premultiply_output product samples (or_pixels r) else Ok samples)))))"

end
