(* ===== verification/Output_Exact.thy ===== *)
theory Output_Exact
  imports Output_Format
begin

text \<open>
  Formatting is total and its fast paths are exact: the traversal of the pixels as a list of sample visits,
  the values stored by the interleaved kernels, and the equality of the buffered and the direct paths.
\<close>

section \<open>Mapping with errors\<close>

lemma map_try_append:
  "map_try f (xs @ ys) = let_try (map_try f xs) (\<lambda>us. let_try (map_try f ys) (\<lambda>vs. Ok (us @ vs)))"
proof (induction xs)
  case Nil
  show ?case by (cases "map_try f ys") simp_all
next
  case (Cons x xs)
  show ?case
    by (cases "f x"; cases "map_try f xs"; cases "map_try f ys") (simp_all add: Cons)
qed

lemma map_try_length: "map_try f xs = Ok ys \<Longrightarrow> length ys = length xs"
  by (induction xs arbitrary: ys) (auto simp: let_try_eq_Ok)

lemma map_try_Ok: "(\<And>x. x \<in> set xs \<Longrightarrow> f x = Ok (g x)) \<Longrightarrow> map_try f xs = Ok (map g xs)"
  by (induction xs) auto

lemma map_try_cong: "(\<And>x. x \<in> set xs \<Longrightarrow> f x = g x) \<Longrightarrow> map_try f xs = map_try g xs"
  by (induction xs) auto

lemma map_try_map: "map_try f (map g xs) = map_try (\<lambda>x. f (g x)) xs"
  by (induction xs) auto

lemma yields_map_try:
  "(\<And>x. x \<in> set xs \<Longrightarrow> yields (f x) Q) \<Longrightarrow> yields (map_try f xs) (\<lambda>ys. length ys = length xs \<and> (\<forall>y\<in>set ys. Q y))"
proof (induction xs)
  case (Cons x xs)
  have "yields (f x) Q" "yields (map_try f xs) (\<lambda>ys. length ys = length xs \<and> (\<forall>y\<in>set ys. Q y))" using Cons by auto
  then show ?case by (cases "f x"; cases "map_try f xs") auto
qed simp

text \<open>Loops that push what they compute, one element or one list at a time.\<close>

lemma each_push:
  "each_try (\<lambda>x out. let_try (g x) (\<lambda>y. Ok (out @ [y]))) xs out = let_try (map_try g xs) (\<lambda>ys. Ok (out @ ys))"
proof (induction xs arbitrary: out)
  case (Cons x xs)
  show ?case by (cases "g x"; cases "map_try g xs") (simp_all add: Cons)
qed simp

lemma each_push_list:
  assumes "\<And>x out. x \<in> set xs \<Longrightarrow> f x out = let_try (g x) (\<lambda>ys. Ok (out @ ys))"
  shows "each_try f xs out = let_try (map_try g xs) (\<lambda>yss. Ok (out @ concat yss))"
  using assms
proof (induction xs arbitrary: out)
  case (Cons x xs)
  have ih: "\<And>out. each_try f xs out = let_try (map_try g xs) (\<lambda>yss. Ok (out @ concat yss))" using Cons by simp
  show ?case using Cons.prems [of x out] by (cases "g x"; cases "map_try g xs") (simp_all add: ih)
qed simp

text \<open>Loops that store what they compute at the next index of a slice.\<close>

definition stored_at :: "'a list \<Rightarrow> nat \<Rightarrow> 'a list \<Rightarrow> 'a list \<times> nat" where
  "stored_at out i ys = (take i out @ ys @ drop (i + length ys) out, i + length ys)"

lemma stored_at_twice:
  "i + length ys \<le> length out \<Longrightarrow> fst (stored_at out i ys) = out' \<Longrightarrow>
     stored_at out' (i + length ys) zs = stored_at out i (ys @ zs)"
  by (auto simp: stored_at_def min_absorb2 ac_simps)

lemma store_next_at:
  "i < length out \<Longrightarrow> store_next r (out, i) = let_try r (\<lambda>y. Ok (stored_at out i [y]))"
  by (cases r) (simp_all add: store_next_def stored_at_def upd_conv_take_nth_drop)

lemma each_store_list:
  assumes "\<And>x out i. x \<in> set xs \<Longrightarrow> i + k \<le> length out \<Longrightarrow> f x (out, i) = let_try (g x) (\<lambda>ys. Ok (stored_at out i ys))"
    and "\<And>x ys. x \<in> set xs \<Longrightarrow> g x = Ok ys \<Longrightarrow> length ys = k" and "i + length xs * k \<le> length out"
  shows "each_try f xs (out, i) = let_try (map_try g xs) (\<lambda>yss. Ok (stored_at out i (concat yss)))"
  using assms
proof (induction xs arbitrary: out i)
  case Nil
  then show ?case by (simp add: stored_at_def)
next
  case (Cons x xs)
  have ih: "\<And>out i. i + length xs * k \<le> length out \<Longrightarrow>
      each_try f xs (out, i) = let_try (map_try g xs) (\<lambda>yss. Ok (stored_at out i (concat yss)))"
    using Cons.prems(1) Cons.prems(2) [OF list.set_intros(2)] by (intro Cons.IH) auto
  have step: "f x (out, i) = let_try (g x) (\<lambda>ys. Ok (stored_at out i ys))" using Cons.prems(1,3) by simp
  show ?case
  proof (cases "g x")
    case (Ok ys)
    then have k: "length ys = k" using Cons.prems(2) [OF list.set_intros(1)] by simp
    obtain out' where out': "stored_at out i ys = (out', i + k)" by (simp add: stored_at_def k)
    have len: "length out' = length out" using out' Cons.prems(3) k by (auto simp: stored_at_def)
    have "\<And>zs. stored_at out' (i + k) zs = stored_at out i (ys @ zs)"
      using stored_at_twice [of i ys out out'] out' Cons.prems(3) k by simp
    then show ?thesis
      using ih [of "i + k" out'] Cons.prems(3) len step Ok out' by (cases "map_try g xs") simp_all
  qed (simp_all add: step)
qed

lemma each_store:
  assumes "i + length xs \<le> length out"
  shows "each_try (\<lambda>x. store_next (g x)) xs (out, i) = let_try (map_try g xs) (\<lambda>ys. Ok (stored_at out i ys))"
proof -
  have "each_try (\<lambda>x. store_next (g x)) xs (out, i) =
      let_try (map_try (\<lambda>x. let_try (g x) (\<lambda>y. Ok [y])) xs) (\<lambda>yss. Ok (stored_at out i (concat yss)))"
    by (rule each_store_list [where k = 1])
      (use assms in \<open>auto simp: store_next_at let_try_eq_Ok let_try_assoc\<close>)
  moreover have "map_try (\<lambda>x. let_try (g x) (\<lambda>y. Ok [y])) xs = let_try (map_try g xs) (\<lambda>ys. Ok (map (\<lambda>y. [y]) ys))"
  proof (induction xs)
    case (Cons x xs)
    show ?case by (cases "g x"; cases "map_try g xs") (simp_all add: Cons)
  qed simp
  moreover have "concat (map (\<lambda>y. [y]) ys) = ys" for ys :: "'b list" by (induction ys) simp_all
  ultimately show ?thesis by (cases "map_try g xs") simp_all
qed

lemma map_try_concat_length:
  "map_try g xs = Ok yss \<Longrightarrow> (\<And>x ys. x \<in> set xs \<Longrightarrow> g x = Ok ys \<Longrightarrow> length ys = k) \<Longrightarrow>
     length (concat yss) = length xs * k"
proof (induction xs arbitrary: yss)
  case (Cons x xs)
  obtain ys zss where y: "g x = Ok ys" "map_try g xs = Ok zss" "yss = ys # zss"
    using Cons.prems(1) by (auto simp: let_try_eq_Ok)
  have "length (concat zss) = length xs * k" by (rule Cons.IH [OF y(2) Cons.prems(2)]) simp_all
  moreover have "length ys = k" using Cons.prems(2) [OF _ y(1)] by simp
  ultimately show ?case by (simp add: y(3))
qed simp

section \<open>Validated requests\<close>

definition plane_fits :: "crop_window \<Rightarrow> component_plane \<Rightarrow> bool" where
  "plane_fits crop p \<longleftrightarrow> cp_width p \<le> cp_stride p \<and> cp_origin_x p \<le> crop_x crop \<and> cp_origin_y p \<le> crop_y crop \<and>
     crop_x crop + crop_width crop \<le> cp_origin_x p + cp_width p \<and>
     crop_y crop + crop_height crop \<le> cp_origin_y p + cp_height p \<and>
     (cp_height p \<noteq> 0 \<longrightarrow> cp_stride p * (cp_height p - 1) + cp_width p \<le> length (cp_samples p)) \<and>
     length (cp_samples p) \<le> usize_max"

lemma require_output_simps [simp]:
  "require_output ok e = Ok u \<longleftrightarrow> ok" "require_output ok e \<noteq> Panic" "require_output ok e = Err e' \<longleftrightarrow> \<not> ok \<and> e' = e"
  by (auto simp: require_output_def)

lemma validate_plane_fits:
  "validate_plane p component crop = Ok () \<Longrightarrow> length (cp_samples p) \<le> usize_max \<Longrightarrow> plane_fits crop p"
  by (auto simp: validate_plane_def plane_fits_def let_try_eq_Ok Let_def)

text \<open>The sample that a fitting plane shows in a pixel of the crop.\<close>

definition shown :: "component_plane \<Rightarrow> nat \<times> nat \<Rightarrow> i32" where
  "shown p = (\<lambda>(x, y). cp_samples p ! ((y - cp_origin_y p) * cp_stride p + (x - cp_origin_x p)))"

definition in_crop :: "crop_window \<Rightarrow> nat \<times> nat \<Rightarrow> bool" where
  "in_crop crop = (\<lambda>(x, y). crop_x crop \<le> x \<and> x < crop_x crop + crop_width crop \<and>
     crop_y crop \<le> y \<and> y < crop_y crop + crop_height crop)"

lemma row_in_plane:
  assumes "plane_fits crop p" "crop_y crop \<le> y" "y < crop_y crop + crop_height crop"
  shows "(y - cp_origin_y p) * cp_stride p + (crop_x crop - cp_origin_x p) + crop_width crop \<le> length (cp_samples p)"
proof -
  have y: "y - cp_origin_y p \<le> cp_height p - 1" "cp_height p \<noteq> 0" using assms by (auto simp: plane_fits_def)
  have "(y - cp_origin_y p) * cp_stride p \<le> cp_stride p * (cp_height p - 1)"
    using y(1) by (simp add: mult.commute)
  moreover have "crop_x crop - cp_origin_x p + crop_width crop \<le> cp_width p"
    using assms(1) by (auto simp: plane_fits_def)
  moreover have "cp_stride p * (cp_height p - 1) + cp_width p \<le> length (cp_samples p)"
    using assms(1) y(2) by (auto simp: plane_fits_def)
  ultimately show ?thesis by linarith
qed

lemma plane_sample_shown:
  assumes "plane_fits crop p" "in_crop crop (x, y)"
  shows "plane_sample p x y = Ok (shown p (x, y))"
proof -
  have "(y - cp_origin_y p) * cp_stride p + (crop_x crop - cp_origin_x p) + crop_width crop \<le> length (cp_samples p)"
    by (rule row_in_plane [OF assms(1)]) (use assms(2) in \<open>auto simp: in_crop_def\<close>)
  moreover have "x - cp_origin_x p < crop_x crop - cp_origin_x p + crop_width crop"
    "cp_origin_x p \<le> x" "cp_origin_y p \<le> y"
    using assms by (auto simp: in_crop_def plane_fits_def)
  ultimately show ?thesis by (simp add: plane_sample_def shown_def)
qed

text \<open>A context made of a validated request.\<close>

definition context_ok :: "format_context \<Rightarrow> bool" where
  "context_ok c \<longleftrightarrow> (\<exists>planes alpha r n. c = context_of planes alpha r n \<and> validate_formatting planes alpha r = Ok n \<and>
     (\<forall>p\<in>set planes \<union> set_option alpha. length (cp_samples p) \<le> usize_max))"

lemma validate_primaries:
  "each_try (validate_primary planes crop) ips u = Ok u' \<Longrightarrow> \<forall>(i, p)\<in>set ips. validate_plane p (Some i) crop = Ok ()"
  by (induction ips arbitrary: u) (auto simp: validate_primary_def let_try_eq_Ok split: prod.splits)

lemma context_okD:
  assumes "context_ok c"
  shows "component_count (or_internal (fc_request c)) = Some (length (fc_planes c))"
    "fc_count c = length (fc_planes c)"
    "validate_matrix (fc_request c) (fc_alpha c \<noteq> None) = Ok ()"
    "\<forall>p\<in>set (fc_planes c). plane_fits (or_crop (fc_request c)) p"
    "\<forall>p\<in>set_option (fc_alpha c). plane_fits (or_crop (fc_request c)) p"
    "fc_width c = crop_width (or_crop (fc_request c))" "fc_height c = crop_height (or_crop (fc_request c))"
proof -
  obtain planes alpha r n where c: "c = context_of planes alpha r n" "validate_formatting planes alpha r = Ok n"
    and small: "\<forall>p\<in>set planes \<union> set_option alpha. length (cp_samples p) \<le> usize_max"
    using assms by (auto simp: context_ok_def)
  have v: "component_count (or_internal r) = Some n" "length planes = n" "validate_matrix r (alpha \<noteq> None) = Ok ()"
    "each_try (validate_primary planes (or_crop r)) (enumerate 0 planes) () = Ok ()"
    "case alpha of Some a \<Rightarrow> validate_plane a None (or_crop r) = Ok () | None \<Rightarrow> True"
    using c(2) by (auto simp: validate_formatting_def let_try_eq_Ok split: if_splits option.splits)
  show "component_count (or_internal (fc_request c)) = Some (length (fc_planes c))"
    "fc_count c = length (fc_planes c)" "validate_matrix (fc_request c) (fc_alpha c \<noteq> None) = Ok ()"
    "fc_width c = crop_width (or_crop (fc_request c))" "fc_height c = crop_height (or_crop (fc_request c))"
    using v by (simp_all add: c(1) context_of_def)
  show "\<forall>p\<in>set_option (fc_alpha c). plane_fits (or_crop (fc_request c)) p"
    using v(5) small by (auto simp: c(1) context_of_def intro: validate_plane_fits)
  have "\<exists>i. (i, p) \<in> set (enumerate 0 planes)" if "p \<in> set planes" for p
  proof -
    have "p \<in> snd ` set (enumerate 0 planes)" using that by (metis map_snd_enumerate set_map)
    then show ?thesis by force
  qed
  then show "\<forall>p\<in>set (fc_planes c). plane_fits (or_crop (fc_request c)) p"
    using validate_primaries [OF v(4)] small by (fastforce simp: c(1) context_of_def intro: validate_plane_fits)
qed

lemma crop_pixels_in: "context_ok c \<Longrightarrow> p \<in> set (crop_pixels c) \<Longrightarrow> in_crop (or_crop (fc_request c)) p"
  using context_okD(6,7) [of c] by (auto simp: crop_pixels_def in_crop_def Let_def)

lemma length_crop_pixels: "length (crop_pixels c) = fc_height c * fc_width c"
  by (simp add: crop_pixels_def Let_def length_concat o_def sum_list_triv)

section \<open>Visits\<close>

lemma gather_samples:
  assumes "\<forall>q\<in>set ps. plane_sample q x y = (Ok (shown q (x, y)) :: (output_error, i32) result)" "i + length ps \<le> length input"
  shows "each_try (gather_sample x y) (enumerate i ps) input =
    (Ok (take i input @ map (\<lambda>q. shown q (x, y)) ps @ drop (i + length ps) input) :: (output_error, i32 list) result)"
  using assms
proof (induction ps arbitrary: i input)
  case (Cons q ps)
  have rest: "each_try (gather_sample x y) (enumerate (Suc i) ps) (input[i := v]) =
      (Ok (take (Suc i) (input[i := v]) @ map (\<lambda>q. shown q (x, y)) ps @ drop (Suc i + length ps) (input[i := v]))
        :: (output_error, i32 list) result)" for v
    using Cons by (intro Cons.IH) auto
  have take: "take (Suc i) (input[i := v]) = take i input @ [v]" for v
    using Cons.prems(2) by (simp add: take_Suc_conv_app_nth)
  have "gather_sample x y (i, q) input = Ok (input[i := shown q (x, y)])"
    using Cons.prems(1) by (simp add: gather_sample_def)
  then show ?case by (simp add: rest take)
qed simp

definition gathered :: "format_context \<Rightarrow> nat \<times> nat \<Rightarrow> i32 list" where
  "gathered c p = take 4 (map (\<lambda>q. shown q p) (take 4 (fc_planes c)) @ [0, 0, 0, 0])"

lemma shown_samples:
  assumes "context_ok c" "(x, y) \<in> set (crop_pixels c)"
  shows "q \<in> set (fc_planes c) \<union> set_option (fc_alpha c) \<Longrightarrow> plane_sample q x y = Ok (shown q (x, y))"
  using context_okD(4,5) [OF assms(1)] crop_pixels_in [OF assms] by (auto intro: plane_sample_shown)

lemma color_components_shown:
  assumes "context_ok c" "(x, y) \<in> set (crop_pixels c)"
  shows "color_components_at c x y shape =
    (if cs_direct shape then Ok (gathered c (x, y))
     else convert_color (or_internal (fc_request c)) (or_output (fc_request c)) (gathered c (x, y)) (cs_packed_rgb shape)
       (or_not_swapped (fc_request c)))"
proof -
  have "\<forall>q\<in>set (take 4 (fc_planes c)). plane_sample q x y = (Ok (shown q (x, y)) :: (output_error, i32) result)"
    using shown_samples [OF assms] by (auto dest: in_set_takeD)
  moreover have "drop (min (length (fc_planes c)) 4) [0, 0, 0, 0 :: i32] =
      take (4 - min (length (fc_planes c)) 4) [0, 0, 0, 0]"
  proof -
    have "drop k [0, 0, 0, 0 :: i32] = take (4 - k) [0, 0, 0, 0]" if "k \<le> 4" for k
    proof -
      have "k \<in> {0, 1, 2, 3, 4}" using that by auto
      then show ?thesis by auto
    qed
    then show ?thesis by simp
  qed
  ultimately show ?thesis
    by (simp add: color_components_at_def gather_samples gathered_def min.commute)
qed

lemma length_gathered [simp]: "length (gathered c p) = 4"
  by (simp add: gathered_def)

lemma inverse_no_panic: "inverse_yuv y u v \<noteq> Panic" "inverse_yuvk y u v k \<noteq> Panic"
  by (auto simp: inverse_yuv_def inverse_yuvk_def outcome_simps let_try_eq_Panic)

lemma convert_color_yields: "length input = 4 \<Longrightarrow>
    yields (convert_color i out input packed swapped) (\<lambda>v. length v = 4)"
proof -
  have yuv: "yields (inverse_yuv y u v) (\<lambda>w. length w = 3)" for y u v
    using inverse_no_panic(1) by (intro yieldsI) (auto simp: inverse_yuv_def color_try_simps)
  have yuvk: "yields (inverse_yuvk y u v k) (\<lambda>w. length w = 4)" for y u v k
    using inverse_no_panic(2) by (intro yieldsI) (auto simp: inverse_yuvk_def color_try_simps)
  assume "length input = 4"
  then show ?thesis
    using yuv [of "input ! 0" "input ! 1" "input ! 2"] yuvk [of "input ! 0" "input ! 1" "input ! 2" "input ! 3"]
    by (cases "inverse_yuv (input ! 0) (input ! 1) (input ! 2)") (auto simp: convert_color_def swap_values_def)
qed

definition pixel_visits :: "format_context \<Rightarrow> nat \<times> nat \<Rightarrow> (output_error, (i32 \<times> nat \<times> bool) list) result" where
  "pixel_visits c p =
     (case or_output (fc_request c) of
        ColorNComponent _ \<Rightarrow>
          Ok (map (\<lambda>(i, q). (shown q p, i, False)) (enumerate 0 (fc_planes c)) @
            (case fc_alpha c of Some a \<Rightarrow> [(shown a p, length (fc_planes c), True)] | None \<Rightarrow> []))
      | _ \<Rightarrow>
          let_try (ordered_components_at c (fst p) (snd p) (pixel_shape_of c)) (\<lambda>(samples, n).
          if length samples < n then Panic
          else Ok (map (\<lambda>(i, v). (v, i, fc_alpha c \<noteq> None \<and> i + 1 = n)) (enumerate 0 (take n samples)))))"

lemma visit_planes_shown:
  fixes visit :: "'s visitor"
  assumes "\<forall>q\<in>set ps. plane_sample q x y = (Ok (shown q (x, y)) :: (output_error, i32) result)"
  shows "each_try (\<lambda>(i, q) s. let_try (plane_sample q x y) (\<lambda>v. visit v i False s)) (enumerate k ps) s =
    each_try (\<lambda>(v, i, a). visit v i a) (map (\<lambda>(i, q). (shown q (x, y), i, False)) (enumerate k ps)) s"
  using assms
proof (induction ps arbitrary: k s)
  case (Cons q ps)
  then show ?case by (cases "visit (shown q (x, y)) k False s") simp_all
qed simp

lemma each_try_cong: "(\<And>x s. x \<in> set xs \<Longrightarrow> f x s = g x s) \<Longrightarrow> each_try f xs s = each_try g xs s"
proof (induction xs arbitrary: s)
  case (Cons x xs)
  then show ?case by (cases "g x s") simp_all
qed simp

lemma for_each_visits:
  assumes "context_ok c"
  shows "for_each_ordered c visit s =
    each_try (\<lambda>p s. let_try (pixel_visits c p) (\<lambda>ts. each_try (\<lambda>(v, i, a). visit v i a) ts s)) (crop_pixels c) s"
proof -
  have pixels: "crop_pixels c = []" if "fc_width c = 0 \<or> fc_height c = 0"
    using that length_crop_pixels [of c] by auto
  have n: "visit_planes c visit p s = let_try (pixel_visits c p) (\<lambda>ts. each_try (\<lambda>(v, i, a). visit v i a) ts s)"
    if "p \<in> set (crop_pixels c)" "or_output (fc_request c) = ColorNComponent k" for p s k
  proof -
    obtain x y where p: "p = (x, y)" by (cases p)
    note sh = shown_samples [OF assms that(1) [unfolded p]]
    have "\<forall>q\<in>set (fc_planes c). plane_sample q x y = (Ok (shown q (x, y)) :: (output_error, i32) result)"
      using sh by blast
    note planes = visit_planes_shown [OF this, of visit 0]
    have alpha: "\<forall>q\<in>set_option (fc_alpha c). plane_sample q x y = (Ok (shown q (x, y)) :: (output_error, i32) result)"
      using sh by blast
    show ?thesis
      unfolding p visit_planes_def pixel_visits_def that(2) planes prod.case color_format.case
      using alpha by (cases "fc_alpha c")
        (auto simp: each_try_append let_try_def split: result.splits)
  qed
  have o: "visit_ordered c (pixel_shape_of c) visit p s =
      let_try (pixel_visits c p) (\<lambda>ts. each_try (\<lambda>(v, i, a). visit v i a) ts s)"
    if "\<forall>k. or_output (fc_request c) \<noteq> ColorNComponent k" for p s
  proof -
    have "pixel_visits c p = let_try (ordered_components_at c (fst p) (snd p) (pixel_shape_of c)) (\<lambda>(samples, n).
          if length samples < n then Panic
          else Ok (map (\<lambda>(i, v). (v, i, fc_alpha c \<noteq> None \<and> i + 1 = n)) (enumerate 0 (take n samples))))"
      using that by (cases "or_output (fc_request c)") (simp_all add: pixel_visits_def)
    then show ?thesis
      by (cases p; cases "ordered_components_at c (fst p) (snd p) (pixel_shape_of c)")
        (auto simp: visit_ordered_def each_try_map intro!: each_try_cong)
  qed
  show ?thesis
    using pixels n o by (cases "or_output (fc_request c)") (auto simp: for_each_ordered_def intro!: each_try_cong)
qed

text \<open>Every pixel has as many visits as its format has channels.\<close>

definition request_ok :: "output_format_request \<Rightarrow> bool" where
  "request_ok r \<longleftrightarrow> (\<forall>n. or_internal r = ColorNComponent n \<longrightarrow> n < 65535)"

lemma validate_matrix_facts:
  assumes "validate_matrix r has_alpha = Ok ()"
  shows "layout_has_alpha (layout_of (or_pixels r)) = has_alpha" "or_premultiply r \<longrightarrow> has_alpha"
    "depth_stored_in (or_depth r) (or_pixels r)" "validate_color_layout r = Ok ()" "validate_conversion r = Ok ()"
    "validate_normative_depth r = Ok ()"
  using assms by (auto simp: validate_matrix_def validate_alpha_def validate_depth_storage_def let_try_eq_Ok)

lemma ordered_components_yields:
  assumes "context_ok c" "p \<in> set (crop_pixels c)" "\<forall>n. or_output (fc_request c) \<noteq> ColorNComponent n"
  shows "yields (ordered_components_at c (fst p) (snd p) (pixel_shape_of c)) (\<lambda>(samples, n). length samples = 5 \<and>
    n = ps_primaries (pixel_shape_of c) + of_bool (fc_alpha c \<noteq> None)) \<or> 5 \<le> ps_primaries (pixel_shape_of c)"
proof -
  obtain x y where p: "p = (x, y)" by (cases p)
  have colors: "yields (color_components_at c x y (ps_color (pixel_shape_of c))) (\<lambda>v. length v = 4)"
    unfolding color_components_shown [OF assms(1) assms(2) [unfolded p]]
    by (rule yields_if) (simp_all add: convert_color_yields)
  have "\<forall>q\<in>set_option (fc_alpha c). plane_sample q x y = (Ok (shown q (x, y)) :: (output_error, i32) result)"
    using shown_samples [OF assms(1) assms(2) [unfolded p]] by blast
  then show ?thesis
    using colors by (cases "color_components_at c x y (ps_color (pixel_shape_of c))"; cases "fc_alpha c")
      (auto simp: ordered_components_at_def p split: nat.splits)
qed

lemma primaries_count:
  assumes "context_ok c" "\<forall>n. or_output (fc_request c) \<noteq> ColorNComponent n"
  shows "ps_primaries (pixel_shape_of c) + of_bool (fc_alpha c \<noteq> None) = channel_count (or_pixels (fc_request c))"
    "ps_primaries (pixel_shape_of c) \<le> 4"
proof -
  note m = validate_matrix_facts [OF context_okD(3) [OF assms(1)]]
  have "ps_primaries (pixel_shape_of c) + of_bool (fc_alpha c \<noteq> None) = layout_channels (layout_of (or_pixels (fc_request c))) \<and>
      ps_primaries (pixel_shape_of c) \<le> 4"
    using m(1,4) assms(2)
    by (cases "layout_of (or_pixels (fc_request c))"; cases "or_output (fc_request c)"; cases "or_pixels (fc_request c)")
      (auto simp: pixel_shape_of_def validate_color_layout_def Let_def)
  moreover have "layout_channels (layout_of (or_pixels (fc_request c))) = channel_count (or_pixels (fc_request c))"
    by (cases "or_pixels (fc_request c)") simp_all
  ultimately show "ps_primaries (pixel_shape_of c) + of_bool (fc_alpha c \<noteq> None) = channel_count (or_pixels (fc_request c))"
    "ps_primaries (pixel_shape_of c) \<le> 4" by auto
qed

lemma pixel_visits_yields:
  assumes "context_ok c" "request_ok (fc_request c)" "p \<in> set (crop_pixels c)"
  shows "yields (pixel_visits c p) (\<lambda>ts. length ts = channel_count (or_pixels (fc_request c)))"
proof (cases "\<exists>n. or_output (fc_request c) = ColorNComponent n")
  case True
  then obtain n where n: "or_output (fc_request c) = ColorNComponent n" by blast
  note m = validate_matrix_facts [OF context_okD(3) [OF assms(1)]]
  have i: "or_internal (fc_request c) = ColorNComponent n"
    using m(5) n by (cases "or_internal (fc_request c)") (auto simp: validate_conversion_def)
  have "length (fc_planes c) = n" "n < 65535"
    using context_okD(1) [OF assms(1)] i assms(2) by (auto simp: request_ok_def split: if_splits)
  moreover have "layout_of (or_pixels (fc_request c)) = (if fc_alpha c = None then LayoutNComponent n else LayoutNComponentAlpha n)"
    using m(1,4) n by (auto simp: validate_color_layout_def Let_def)
  ultimately show ?thesis
    using n by (cases "or_pixels (fc_request c)"; cases "fc_alpha c") (auto simp: pixel_visits_def)
next
  case False
  then have all: "\<forall>n. or_output (fc_request c) \<noteq> ColorNComponent n" by blast
  have "pixel_visits c p = let_try (ordered_components_at c (fst p) (snd p) (pixel_shape_of c)) (\<lambda>(samples, n).
          if length samples < n then Panic
          else Ok (map (\<lambda>(i, v). (v, i, fc_alpha c \<noteq> None \<and> i + 1 = n)) (enumerate 0 (take n samples))))"
    using all by (cases "or_output (fc_request c)") (simp_all add: pixel_visits_def)
  moreover have "channel_count (or_pixels (fc_request c)) \<le> 5"
    using primaries_count [OF assms(1) all] by (cases "fc_alpha c") auto
  ultimately show ?thesis
    using ordered_components_yields [OF assms(1,3) all] primaries_count [OF assms(1) all]
    by (cases "ordered_components_at c (fst p) (snd p) (pixel_shape_of c)") (auto split: prod.splits)
qed

definition pixel_values :: "format_context \<Rightarrow> (i32 \<Rightarrow> nat \<Rightarrow> bool \<Rightarrow> (output_error, 'a) result) \<Rightarrow> nat \<times> nat \<Rightarrow>
    (output_error, 'a list) result" where
  "pixel_values c f p = let_try (pixel_visits c p) (map_try (\<lambda>(v, i, a). f v i a))"

lemma pack_ordered_values:
  assumes "context_ok c"
  shows "pack_ordered c f = let_try (map_try (pixel_values c f) (crop_pixels c)) (\<lambda>vs. Ok (concat vs))"
proof -
  have visit: "(\<lambda>(v, i, a). (\<lambda>v component for_alpha out. let_try (f v component for_alpha) (\<lambda>x. Ok (out @ [x]))) v i a) =
      (\<lambda>t out. let_try ((\<lambda>(v, i, a). f v i a) t) (\<lambda>x. Ok (out @ [x])))" by auto
  show ?thesis
    unfolding pack_ordered_def for_each_visits [OF assms] visit each_push
    by (subst each_push_list [where g = "pixel_values c f"]) (simp_all add: pixel_values_def let_try_assoc)
qed

lemma pixel_values_length:
  assumes "context_ok c" "request_ok (fc_request c)" "p \<in> set (crop_pixels c)" "pixel_values c f p = Ok vs"
  shows "length vs = channel_count (or_pixels (fc_request c))"
  using pixel_visits_yields [OF assms(1-3)] assms(4) by (auto simp: pixel_values_def let_try_eq_Ok dest: map_try_length)

lemma fill_equals_pack:
  assumes "context_ok c" "request_ok (fc_request c)"
    and "length out = fc_height c * fc_width c * channel_count (or_pixels (fc_request c))"
  shows "fill_ordered c f out = pack_ordered c f"
proof -
  let ?k = "channel_count (or_pixels (fc_request c))"
  have visit: "(\<lambda>(v, i, a). (\<lambda>v component for_alpha. store_next (f v component for_alpha)) v i a) =
      (\<lambda>t. store_next ((\<lambda>(v, i, a). f v i a) t))" by auto
  have pixel: "let_try (pixel_visits c p) (\<lambda>ts. each_try (\<lambda>t. store_next ((\<lambda>(v, i, a). f v i a) t)) ts (out, i)) =
      let_try (pixel_values c f p) (\<lambda>ys. Ok (stored_at out i ys))"
    if "p \<in> set (crop_pixels c)" "i + ?k \<le> length out" for p i and out :: "'a list"
    using pixel_visits_yields [OF assms(1,2) that(1)] that(2)
    by (cases "pixel_visits c p") (simp_all add: pixel_values_def each_store)
  have "each_try (\<lambda>p s. let_try (pixel_visits c p) (\<lambda>ts. each_try (\<lambda>t. store_next ((\<lambda>(v, i, a). f v i a) t)) ts s))
      (crop_pixels c) (out, 0) =
      let_try (map_try (pixel_values c f) (crop_pixels c)) (\<lambda>yss. Ok (stored_at out 0 (concat yss)))"
    by (rule each_store_list [where k = ?k])
      (use pixel pixel_values_length [OF assms(1,2)] assms(3) in \<open>simp_all add: length_crop_pixels\<close>)
  moreover have "length (concat yss) = length out" if "map_try (pixel_values c f) (crop_pixels c) = Ok yss" for yss
    using map_try_concat_length [OF that pixel_values_length [OF assms(1,2)]] assms(3) by (simp add: length_crop_pixels)
  ultimately show ?thesis
    unfolding fill_ordered_def for_each_visits [OF assms(1)] visit pack_ordered_values [OF assms(1)]
    by (cases "map_try (pixel_values c f) (crop_pixels c)") (auto simp: stored_at_def)
qed

end
