(* ===== verification/Output_Store.thy ===== *)
theory Output_Store
  imports Output_Exact
begin

text \<open>
  The interleaved stores are exact: when a kernel accepts, the rows that it stored with wrapping arithmetic are
  the values of the checked packer.
\<close>

section \<open>Magnitudes\<close>

lemma less_exp_iff_bits: "(a :: nat) < 2 ^ n \<longleftrightarrow> (\<forall>i\<ge>n. \<not> bit a i)"
proof
  assume "a < 2 ^ n"
  then have "take_bit n a = a" by (simp add: take_bit_nat_eq_self)
  then show "\<forall>i\<ge>n. \<not> bit a i" by (metis bit_take_bit_iff not_le)
next
  assume "\<forall>i\<ge>n. \<not> bit a i"
  then have "take_bit n a = a" by (intro bit_eqI) (auto simp: bit_take_bit_iff not_le)
  then show "a < 2 ^ n" using take_bit_nat_less_exp [of n a] by simp
qed

lemma or_less_exp: "(a OR b :: nat) < 2 ^ n \<longleftrightarrow> a < 2 ^ n \<and> b < 2 ^ n"
  by (auto simp: less_exp_iff_bits bit_or_iff)

lemma fold_or_less: "fold (\<lambda>v bits. bits OR g v) vs z < (2 ^ n :: nat) \<longleftrightarrow> z < 2 ^ n \<and> (\<forall>v\<in>set vs. g v < 2 ^ n)"
  by (induction vs arbitrary: z) (auto simp: or_less_exp)

lemma magnitudes_less: "magnitudes vs < 2 ^ n \<longleftrightarrow> (\<forall>v\<in>set vs. \<bar>v\<bar> < 2 ^ n)"
  by (auto simp: magnitudes_def fold_or_less nat_less_iff)

lemmas safe_magnitudes = magnitudes_less [of _ 26, simplified] or_less_exp [of _ _ 26, simplified]
  fold_or_less [of _ _ _ 26, simplified]

section \<open>One value\<close>

text \<open>The scales that an output request resolves to have a small bias.\<close>

definition small_scale :: "channel_scale \<Rightarrow> bool" where
  "small_scale s = (case s of ScaleInteger bias rounding _ _ \<Rightarrow> \<bar>bias\<bar> \<le> 2 ^ 18 \<and> 0 \<le> rounding \<and> rounding \<le> 4 | _ \<Rightarrow> True)"

lemma resolve_scale_small: "small_scale (resolve_scale component color depth is_scaled)"
proof -
  have bias: "0 \<le> b \<and> b \<le> 2 ^ 15" if "output_bias depth = Inr b" for b
  proof -
    have "0 \<le> sar (2 ^ 15) k \<and> sar (2 ^ 15) k \<le> 2 ^ 15" for k
      using zdiv_mono2 [of "2 ^ 15" 1 "2 ^ k"] by (simp add: sar_div pos_imp_zdiv_nonneg_iff)
    then show ?thesis
      using that by (cases depth) (auto simp: output_bias_def sar_div split: if_splits)
  qed
  have shl: "\<bar>s\<bar> \<le> 8 * \<bar>b\<bar>" if "checked_shift_left b n ''scaling sample bias'' = Inr s" "n = 0 \<or> n = 3" "\<bar>b\<bar> \<le> 2 ^ 15" for b s n
  proof -
    have "s = b * 2 ^ n"
      using that by (auto simp: checked_shift_left_def i32_checked_shl_def push_bit_eq_mult signed_take_bit_int_eq_self
          split: if_splits)
    then show ?thesis using that(2) by (auto simp: abs_mult)
  qed
  show ?thesis
  proof (cases "output_bias depth")
    case (Inr b)
    have half: "0 \<le> sar b 1 \<and> sar b 1 \<le> b" using bias [OF Inr] by (auto simp: sar_div)
    let ?b = "if color = ColorCmyk then if component < 3 then sar b 1 else - sar b 1
                else if color = ColorRgbe then 0 else b"
    have small: "\<bar>?b\<bar> \<le> 2 ^ 15" using half bias [OF Inr] by auto
    show ?thesis
    proof (cases "checked_shift_left ?b (if is_scaled then 3 else 0) ''scaling sample bias''")
      case (Inr s)
      have "\<bar>s\<bar> \<le> 8 * \<bar>?b\<bar>" by (rule shl [OF Inr _ small]) simp
      also have "\<dots> \<le> 8 * 2 ^ 15" using small by (rule mult_left_mono) simp
      finally have "\<bar>s\<bar> \<le> 2 ^ 18" by simp
      then show ?thesis
        using Inr \<open>output_bias depth = Inr b\<close> by (auto simp: resolve_scale_def small_scale_def Let_def split: output_bit_depth.splits)
    qed (simp add: resolve_scale_def small_scale_def Let_def Inr)
  qed (simp add: resolve_scale_def small_scale_def)
qed

lemma store_value_exact:
  assumes "small_scale scale" "integer_scale_of scale maximum = Some s" "0 \<le> maximum" "maximum < 2 ^ LENGTH('a)"
    and "\<bar>v\<bar> \<le> 2 ^ 28 + 2"
  shows "let_try (apply_scale scale v) (\<lambda>t. expect_word (clamp_sample t 0 maximum)) = Ok (store_value s v :: 'a::len word)"
proof -
  obtain bias rounding shift post where scale: "scale = ScaleInteger bias rounding shift post"
    using assms(2) by (cases scale) (auto simp: integer_scale_of_def)
  have b: "\<bar>bias\<bar> \<le> 2 ^ 18" "0 \<le> rounding" "rounding \<le> 4" using assms(1) by (auto simp: small_scale_def scale)
  let ?p = "case post of Some bits \<Rightarrow> bits | None \<Rightarrow> 0"
  have s: "s = \<lparr>is_addition = bias + rounding, is_shift = shift, is_post = ?p, is_maximum = maximum\<rparr>"
    and bound: "shift < 32" "?p < 32" "push_bit ?p (sar (2 ^ 28 + 2 + \<bar>bias + rounding\<bar>) shift + 1) \<le> i32_max"
    using assms(2) by (auto simp: integer_scale_of_def scale i32_checked_add_def SAFE_MAGNITUDE_def Let_def bind_eq_Some_conv
        split: if_splits)
  have ranges: "in_i32 (v + bias)" "in_i32 (v + bias + rounding)" using assms(5) b by (auto simp: in_i32_def)
  let ?t = "sar (v + (bias + rounding)) shift" and ?m = "2 ^ 28 + 2 + \<bar>bias + rounding\<bar>"
  have t: "\<bar>?t\<bar> \<le> sar ?m shift + 1"
  proof -
    have "v + (bias + rounding) \<le> ?m" "- ?m \<le> v + (bias + rounding)" using assms(5) by auto
    then have "?t \<le> sar ?m shift" "sar (- ?m) shift \<le> ?t" by (simp_all add: sar_div zdiv_mono1)
    moreover have "- (sar ?m shift + 1) \<le> sar (- ?m) shift"
    proof -
      obtain q r d where q: "q = ?m div 2 ^ shift" and r: "r = ?m mod 2 ^ shift" and d: "d = (2 :: int) ^ shift" by blast
      have "?m = q * d + r" unfolding q r d by (rule div_mult_mod_eq [symmetric])
      moreover have "r < d" by (simp add: r d)
      ultimately have "- (q + 1) * d \<le> - ?m" by (simp add: algebra_simps)
      then have "- (?m div 2 ^ shift + 1) * 2 ^ shift \<le> - ?m" unfolding q d .
      then have "(- (?m div 2 ^ shift + 1) * 2 ^ shift) div 2 ^ shift \<le> (- ?m) div 2 ^ shift" by (intro zdiv_mono1) simp_all
      then show ?thesis by (simp add: sar_div)
    qed
    ultimately show ?thesis by auto
  qed
  have "\<bar>push_bit ?p ?t\<bar> \<le> push_bit ?p (sar ?m shift + 1)"
    unfolding push_bit_eq_mult abs_mult using t by (intro mult_mono) auto
  then have fits: "in_i32 (push_bit ?p ?t)" using bound(3) by (auto simp: in_i32_def)
  have id: "wrap_i32 (push_bit ?p ?t) = push_bit ?p ?t" "wrap_i32 (v + (bias + rounding)) = v + (bias + rounding)"
    using fits ranges(2) by (simp_all add: wrap_i32_id add.assoc)
  have undo: "sar (push_bit ?p ?t) ?p = ?t" by (simp add: sar_div push_bit_eq_mult)
  have "apply_scale scale v = Ok (push_bit ?p ?t)"
    using ranges bound(2) id(1) undo
    by (cases post) (auto simp: scale checked_in_range checked_shift_left_def i32_checked_shl_def wrap_i32_def add.assoc)
  moreover have "expect_word (clamp_sample u 0 maximum) = Ok (from_clamped (max 0 (min u maximum)) :: 'a word)" for u
    using assms(3,4) by (auto simp: expect_word_def clamp_sample_def from_clamped_def max_def min_def)
  ultimately show ?thesis by (simp add: store_value_def s id Let_def)
qed

lemma wrapping_yuv_exact:
  assumes "\<bar>y\<bar> < 2 ^ 26" "\<bar>u\<bar> < 2 ^ 26" "\<bar>v\<bar> < 2 ^ 26"
  shows "\<exists>r g b. inverse_yuv y u v = Ok [r, g, b] \<and> wrapping_inverse_yuv y u v = (r, g, b) \<and>
    \<bar>r\<bar> \<le> 2 ^ 28 + 2 \<and> \<bar>g\<bar> \<le> 2 ^ 28 + 2 \<and> \<bar>b\<bar> \<le> 2 ^ 28 + 2"
proof -
  have half: "2 * sar (- u) 1 \<le> - u" "- u \<le> 2 * sar (- u) 1 + 1" by (simp_all add: sar_div)
  have one: "v AND 1 = v mod 2" by (simp add: and_one_eq)
  have ceil: "v \<le> 2 * ceil_half v" "2 * ceil_half v \<le> v + 1" by (simp_all add: ceil_half_def one sar_div) presburger+
  let ?g = "y - sar (- u) 1"
  have "in_i32 (- u)" "in_i32 ?g" "in_i32 (- u + ?g)" "in_i32 (- u + ?g - ceil_half v)" "in_i32 (v + (- u + ?g - ceil_half v))"
    using assms half ceil by (auto simp: in_i32_def)
  note rng = this
  have "inverse_yuv y u v = Ok [- u + ?g - ceil_half v, ?g, v + (- u + ?g - ceil_half v)]"
    using rng by (simp add: inverse_yuv_def color_try_def checked_in_range)
  moreover have "wrapping_inverse_yuv y u v = (- u + ?g - ceil_half v, ?g, v + (- u + ?g - ceil_half v))"
    using rng by (simp add: wrapping_inverse_yuv_def Let_def wrap_i32_id)
  ultimately show ?thesis using assms half ceil by fastforce
qed

section \<open>One row\<close>

lemma rewrite_concat:
  "(\<And>i. i \<in> set is \<Longrightarrow> length (k i) = n) \<Longrightarrow>
     rewrite_chunks n f (map g is) (concat (map k is)) = concat (map (\<lambda>i. f (g i) (k i)) is)"
  by (induction "is") auto

lemma rewrite_const:
  "length out = length bs * n \<Longrightarrow> rewrite_chunks n (\<lambda>b _. h b) bs out = concat (map h bs)"
proof (induction bs arbitrary: out)
  case (Cons b bs)
  then show ?case by (simp add: Cons.IH [of "drop n out"])
qed simp

text \<open>The row of a plane inside the crop.\<close>

lemma rows_row_shown:
  assumes "plane_fits crop p" "rows_new p (crop_x crop) (crop_y crop) = Some rs" "y < crop_height crop"
  shows "rows_row rs y (crop_width crop) =
    Ok (map (\<lambda>x. shown p (crop_x crop + x, crop_y crop + y)) [0..<crop_width crop])"
proof -
  have o: "cp_origin_x p \<le> crop_x crop" "cp_origin_y p \<le> crop_y crop" using assms(1) by (auto simp: plane_fits_def)
  let ?start = "(crop_y crop + y - cp_origin_y p) * cp_stride p + (crop_x crop - cp_origin_x p)"
  have rs: "rw_samples rs = cp_samples p" "rw_first rs + y * rw_stride rs = ?start"
  proof -
    have e: "crop_y crop + y - cp_origin_y p = (crop_y crop - cp_origin_y p) + y" using o by simp
    have "rs = \<lparr>rw_samples = cp_samples p, rw_stride = cp_stride p,
        rw_first = (crop_y crop - cp_origin_y p) * cp_stride p + (crop_x crop - cp_origin_x p)\<rparr>"
      using assms(2) o by (auto simp: rows_new_def Let_def split: if_splits)
    then show "rw_samples rs = cp_samples p" "rw_first rs + y * rw_stride rs = ?start"
      unfolding e add_mult_distrib by simp_all
  qed
  have fits: "?start + crop_width crop \<le> length (cp_samples p)"
    using row_in_plane [OF assms(1), of "crop_y crop + y"] assms(3) by simp
  have "take (crop_width crop) (drop ?start (cp_samples p)) =
      map (\<lambda>x. shown p (crop_x crop + x, crop_y crop + y)) [0..<crop_width crop]"
    using fits o by (intro nth_equalityI) (simp_all add: shown_def add.assoc)
  then show ?thesis using fits by (simp add: rows_row_def rs)
qed

lemma rows_new_fits: "plane_fits crop p \<Longrightarrow> crop_height crop \<noteq> 0 \<Longrightarrow>
    \<exists>rs. rows_new p (crop_x crop) (crop_y crop) = Some rs"
  using row_in_plane [of crop p "crop_y crop"] by (auto simp: rows_new_def plane_fits_def Let_def)

text \<open>What a kernel stores for a pixel and which samples it reads.\<close>

definition primary_at :: "format_context \<Rightarrow> nat \<Rightarrow> nat \<times> nat \<Rightarrow> i32" where
  "primary_at c i p = shown (fc_planes c ! i) p"

definition opacity_at :: "format_context \<Rightarrow> nat \<times> nat \<Rightarrow> i32" where
  "opacity_at c p = shown (the (fc_alpha c)) p"

definition rgb_values :: "format_context \<Rightarrow> interleave_plan \<Rightarrow> bool \<Rightarrow> nat \<times> nat \<Rightarrow> i32 list" where
  "rgb_values c pl is_reversed p =
     (if ip_conversion pl = ConvertLumaToRgb then replicate 3 (primary_at c 0 p)
      else case rgb_pixel is_reversed (primary_at c 0 p, primary_at c 1 p, primary_at c 2 p) of (r, g, b) \<Rightarrow> [r, g, b])"

definition kernel_pixel :: "format_context \<Rightarrow> interleave_plan \<Rightarrow> store_shape \<Rightarrow> nat \<times> nat \<Rightarrow> 'a::len word list" where
  "kernel_pixel c pl shape p =
     (let color = map (store_value (ip_color pl)); opacity = store_value (the (ip_alpha pl)) (opacity_at c p) in
      case shape of
        ShapeLuma \<Rightarrow> color [primary_at c 0 p]
      | ShapeLumaAlpha \<Rightarrow> color [primary_at c 0 p] @ [opacity]
      | ShapeRgb is_reversed \<Rightarrow> color (rgb_values c pl is_reversed p)
      | ShapeRgbPadding is_reversed \<Rightarrow> color (rgb_values c pl is_reversed p) @ [0]
      | ShapeRgbAlpha is_reversed \<Rightarrow> color (rgb_values c pl is_reversed p) @ [opacity])"

definition kernel_inputs :: "format_context \<Rightarrow> interleave_plan \<Rightarrow> store_shape \<Rightarrow> nat \<times> nat \<Rightarrow> i32 set" where
  "kernel_inputs c pl shape p =
     {primary_at c 0 p} \<union> (if ip_conversion pl = ConvertYuvToRgb then {primary_at c 1 p, primary_at c 2 p} else {}) \<union>
     (if shape_has_alpha shape then {opacity_at c p} else {})"

lemma length_rgb_values [simp]: "length (rgb_values c pl is_reversed p) = 3"
  by (simp add: rgb_values_def split: prod.splits)

lemma length_kernel_pixel: "length (kernel_pixel c pl shape p) = shape_channels shape"
  by (cases shape) (simp_all add: kernel_pixel_def Let_def)

text \<open>A plan that fits its context.\<close>

definition plan_fits :: "format_context \<Rightarrow> interleave_plan \<Rightarrow> store_shape \<Rightarrow> bool" where
  "plan_fits c pl shape \<longleftrightarrow> (let crop = or_crop (fc_request c); new = \<lambda>p. rows_new p (crop_x crop) (crop_y crop) in
     ip_width pl = crop_width crop \<and> fc_planes c \<noteq> [] \<and>
     new (fc_planes c ! 0) = Some (ip_planes pl ! 0) \<and>
     (if ip_conversion pl = ConvertYuvToRgb
      then length (fc_planes c) = 3 \<and> (\<forall>i\<in>{1, 2}. new (fc_planes c ! i) = Some (ip_planes pl ! i))
      else \<forall>i\<in>{1, 2}. ip_planes pl ! i = ip_planes pl ! 0) \<and>
     (shape \<in> {ShapeLuma, ShapeLumaAlpha} \<longleftrightarrow> ip_conversion pl = ConvertLuma) \<and>
     (if shape_has_alpha shape
      then \<exists>a rs s. fc_alpha c = Some a \<and> new a = Some rs \<and> ip_alpha_rows pl = Some rs \<and> ip_alpha pl = Some s
      else fc_alpha c = None \<and> ip_alpha_rows pl = None \<and> ip_alpha pl = None))"

lemma store_rgb_row:
  fixes out :: "'a::len word list"
  assumes "ch = 3 \<or> ch = 4" "length out = length xs * ch" "op \<noteq> None \<longrightarrow> ch = 4 \<and> (\<exists>s. op = Some (map o' xs, s))"
  shows "\<exists>bits. store_rgb ch (map a xs) (map b xs) (map d xs) gray is_reversed op scale out =
      (concat (map (\<lambda>x. map (store_value scale) (if gray then replicate 3 (a x)
          else case rgb_pixel is_reversed (a x, b x, d x) of (r, g, t) \<Rightarrow> [r, g, t]) @
        (case op of Some (_, s) \<Rightarrow> [store_value s (o' x)] | None \<Rightarrow> if ch = 4 then [0] else [])) xs), bits) \<and>
    (bits < 2 ^ 26 \<longrightarrow> (\<forall>x\<in>set xs. \<bar>a x\<bar> < 2 ^ 26 \<and> (\<not> gray \<longrightarrow> \<bar>b x\<bar> < 2 ^ 26 \<and> \<bar>d x\<bar> < 2 ^ 26) \<and>
       (op \<noteq> None \<longrightarrow> \<bar>o' x\<bar> < 2 ^ 26)))"
proof -
  let ?pad = "if ch = 4 then [0 :: 'a word] else []"
  let ?rgb = "\<lambda>x. map (store_value scale) (if gray then replicate 3 (a x)
      else case rgb_pixel is_reversed (a x, b x, d x) of (r, g, t) \<Rightarrow> [r, g, t]) :: 'a word list"
  have n: "length out div ch = length xs" using assms(1,2) by auto
  have len: "length (?rgb x @ ?pad) = ch" for x using assms(1) by (auto split: prod.splits)
  have zip3: "zip (map a xs) (zip (map b xs) (map d xs)) = map (\<lambda>x. (a x, b x, d x)) xs" by (simp add: zip_map_map zip_same_conv_map)
  have gray_case: "rewrite_chunks ch (\<lambda>v _. [store_value scale v, store_value scale v, store_value scale v] @ ?pad) (map a xs) out =
      concat (map (\<lambda>x. ?rgb x @ ?pad) xs)" if gray
    by (subst rewrite_const) (use that assms(2) in \<open>simp_all add: o_def numeral_3_eq_3\<close>)
  have yuv_case: "rewrite_chunks ch (\<lambda>yuv _. case rgb_pixel is_reversed yuv of (first, green, third) \<Rightarrow>
        [store_value scale first, store_value scale green, store_value scale third] @ ?pad) (map (\<lambda>x. (a x, b x, d x)) xs) out =
      concat (map (\<lambda>x. ?rgb x @ ?pad) xs)" if "\<not> gray"
    by (subst rewrite_const) (use that assms(2) in \<open>simp_all add: o_def split_beta\<close>)
  have alpha_pass: "rewrite_chunks ch (\<lambda>v pixel. pixel[ch - 1 := store_value s v]) (map o' xs) (concat (map (\<lambda>x. ?rgb x @ ?pad) xs)) =
      concat (map (\<lambda>x. ?rgb x @ [store_value s (o' x)]) xs)" if "ch = 4" for s
    using len that by (subst rewrite_concat) (auto simp: list_update_append split_beta numeral_3_eq_3)
  define base where "base = (if gray then magnitudes (map a xs)
      else magnitudes (concat (map (\<lambda>(y, u, v). [y, u, v]) (map (\<lambda>x. (a x, b x, d x)) xs))))"
  have base: "base < 2 ^ 26 \<longrightarrow> (\<forall>x\<in>set xs. \<bar>a x\<bar> < 2 ^ 26 \<and> (\<not> gray \<longrightarrow> \<bar>b x\<bar> < 2 ^ 26 \<and> \<bar>d x\<bar> < 2 ^ 26))"
    by (auto simp: base_def safe_magnitudes)
  have first: "(if gray
             then (rewrite_chunks ch (\<lambda>v _. [store_value scale v, store_value scale v, store_value scale v] @ ?pad) (map a xs) out,
                   magnitudes (take (length xs) (map a xs)))
             else
               (rewrite_chunks ch (\<lambda>yuv _. case rgb_pixel is_reversed yuv of (first, green, third) \<Rightarrow>
                    [store_value scale first, store_value scale green, store_value scale third] @ ?pad) (map (\<lambda>x. (a x, b x, d x)) xs) out,
                magnitudes (concat (map (\<lambda>(y, u, v). [y, u, v]) (take (length xs) (map (\<lambda>x. (a x, b x, d x)) xs)))))) =
      (concat (map (\<lambda>x. ?rgb x @ ?pad) xs), base)"
    using gray_case yuv_case by (simp add: base_def)
  show ?thesis
  proof (cases op)
    case None
    then show ?thesis
      unfolding store_rgb_def Let_def n zip3 first using base by (auto intro!: exI [of _ base])
  next
    case (Some q)
    then obtain s where q: "op = Some (map o' xs, s)" "ch = 4" using assms(3) by auto
    have "magnitudes (map o' xs) < 2 ^ 26 \<longrightarrow> (\<forall>x\<in>set xs. \<bar>o' x\<bar> < 2 ^ 26)" by (auto simp: safe_magnitudes)
    then show ?thesis
      unfolding store_rgb_def Let_def n zip3 first using base alpha_pass [of s] q
      by (auto simp: safe_magnitudes intro!: exI [of _ "base OR magnitudes (map o' xs)"])
  qed
qed

lemma store_row_kernel:
  fixes out :: "'a::len word list"
  assumes "context_ok c" "plan_fits c pl shape" "y < fc_height c" "length out = ip_width pl * shape_channels shape"
  defines "crop \<equiv> or_crop (fc_request c)"
  shows "\<exists>bits. store_row pl shape y out =
      (Ok (concat (map (\<lambda>x. kernel_pixel c pl shape (crop_x crop + x, crop_y crop + y)) [0..<ip_width pl]), bits)
        :: ('e, 'a word list \<times> nat) result) \<and>
    (bits < 2 ^ 26 \<longrightarrow> (\<forall>x<ip_width pl. \<forall>v\<in>kernel_inputs c pl shape (crop_x crop + x, crop_y crop + y). \<bar>v\<bar> < 2 ^ 26))"
proof -
  let ?w = "ip_width pl" and ?p = "\<lambda>x. (crop_x crop + x, crop_y crop + y)"
  have w: "?w = crop_width crop" "fc_planes c \<noteq> []" using assms(2) by (auto simp: plan_fits_def crop_def Let_def)
  have h: "y < crop_height crop" using assms(3) context_okD(7) [OF assms(1)] by (simp add: crop_def)
  have row: "rows_row rs y ?w = (Ok (map (\<lambda>x. shown q (?p x)) [0..<?w]) :: ('e, i32 list) result)"
    if "q \<in> set (fc_planes c) \<union> set_option (fc_alpha c)" "rows_new q (crop_x crop) (crop_y crop) = Some rs" for q rs
  proof -
    have "plane_fits crop q" using that(1) context_okD(4,5) [OF assms(1)] by (auto simp: crop_def)
    from rows_row_shown [OF this that(2) h] show ?thesis unfolding w(1) .
  qed
  have first: "rows_row (ip_planes pl ! 0) y ?w = (Ok (map (\<lambda>x. primary_at c 0 (?p x)) [0..<?w]) :: ('e, i32 list) result)"
    using row [of "fc_planes c ! 0"] assms(2) w(2) by (auto simp: plan_fits_def Let_def crop_def primary_at_def)
  let ?i = "\<lambda>i. if ip_conversion pl = ConvertYuvToRgb then i else (0 :: nat)"
  have others: "rows_row (ip_planes pl ! i) y ?w = (Ok (map (\<lambda>x. primary_at c (?i i) (?p x)) [0..<?w]) :: ('e, i32 list) result)"
    if "i \<in> {1, 2}" for i
  proof (cases "ip_conversion pl = ConvertYuvToRgb")
    case True
    then have "length (fc_planes c) = 3" "rows_new (fc_planes c ! i) (crop_x crop) (crop_y crop) = Some (ip_planes pl ! i)"
      using assms(2) that by (auto simp: plan_fits_def Let_def crop_def)
    then show ?thesis using row [of "fc_planes c ! i"] that True by (auto simp: primary_at_def)
  next
    case False
    then have "ip_planes pl ! i = ip_planes pl ! 0" using assms(2) that by (auto simp: plan_fits_def Let_def)
    then show ?thesis using first False by simp
  qed
  have rgb: "\<exists>bits. store_rgb ch (map (\<lambda>x. primary_at c 0 (?p x)) [0..<?w]) (map (\<lambda>x. primary_at c (?i 1) (?p x)) [0..<?w])
        (map (\<lambda>x. primary_at c (?i 2) (?p x)) [0..<?w]) (ip_conversion pl = ConvertLumaToRgb) rev op (ip_color pl) out =
        (concat (map (\<lambda>x. map (store_value (ip_color pl)) (rgb_values c pl rev (?p x)) @
          (case op of Some (_, s) \<Rightarrow> [store_value s (opacity_at c (?p x))] | None \<Rightarrow> if ch = 4 then [0] else [])) [0..<?w]), bits) \<and>
      (bits < 2 ^ 26 \<longrightarrow> (\<forall>x<?w. \<bar>primary_at c 0 (?p x)\<bar> < 2 ^ 26 \<and>
        (ip_conversion pl = ConvertYuvToRgb \<longrightarrow> \<bar>primary_at c 1 (?p x)\<bar> < 2 ^ 26 \<and> \<bar>primary_at c 2 (?p x)\<bar> < 2 ^ 26) \<and>
        (op \<noteq> None \<longrightarrow> \<bar>opacity_at c (?p x)\<bar> < 2 ^ 26)))"
    if "ch = 3 \<or> ch = 4" "length out = ?w * ch" "ip_conversion pl \<noteq> ConvertLuma"
      "op \<noteq> None \<longrightarrow> ch = 4 \<and> (\<exists>s. op = Some (map (\<lambda>x. opacity_at c (?p x)) [0..<?w], s))" for ch rev op
  proof -
    have picked: "(if ip_conversion pl = ConvertLumaToRgb then replicate 3 (primary_at c 0 (?p x))
          else case rgb_pixel rev (primary_at c 0 (?p x), primary_at c (?i 1) (?p x), primary_at c (?i 2) (?p x)) of
            (r, g, t) \<Rightarrow> [r, g, t]) = rgb_values c pl rev (?p x)" for x
      using that(3) by (cases "ip_conversion pl") (simp_all add: rgb_values_def)
    have "length out = length [0..<?w] * ch" using that(2) by simp
    from store_rgb_row [OF that(1) this that(4), of "\<lambda>x. primary_at c 0 (?p x)" "\<lambda>x. primary_at c (?i 1) (?p x)"
        "\<lambda>x. primary_at c (?i 2) (?p x)" "ip_conversion pl = ConvertLumaToRgb" rev "ip_color pl"]
    show ?thesis
      unfolding picked by (rule ex_forward) auto
  qed
  show ?thesis
  proof (cases "shape_has_alpha shape")
    case True
    then obtain a rs s where a: "fc_alpha c = Some a" "rows_new a (crop_x crop) (crop_y crop) = Some rs"
      "ip_alpha_rows pl = Some rs" "ip_alpha pl = Some s"
      using assms(2) by (auto simp: plan_fits_def Let_def crop_def)
    have alpha: "rows_row rs y ?w = (Ok (map (\<lambda>x. opacity_at c (?p x)) [0..<?w]) :: ('e, i32 list) result)"
      using row [of a rs] a by (simp add: opacity_at_def)
    show ?thesis
    proof (cases "shape = ShapeLumaAlpha")
      case True
      then have conv: "ip_conversion pl = ConvertLuma" using assms(2) by (auto simp: plan_fits_def Let_def)
      let ?va = "map (\<lambda>x. (primary_at c 0 (?p x), opacity_at c (?p x))) [0..<?w]"
      have "zip (map (\<lambda>x. primary_at c 0 (?p x)) [0..<?w]) (map (\<lambda>x. opacity_at c (?p x)) [0..<?w]) = ?va"
        by (simp add: zip_map_map zip_same_conv_map)
      moreover have "rewrite_chunks 2 (\<lambda>(v, a) _. [store_value (ip_color pl) v, store_value s a]) ?va out =
          concat (map (\<lambda>x. kernel_pixel c pl shape (?p x)) [0..<?w])"
      proof -
        have e: "(\<lambda>(v, a) _. [store_value (ip_color pl) v, store_value s a]) =
            (\<lambda>va _. case va of (v, a) \<Rightarrow> [store_value (ip_color pl) v, store_value s a :: 'a word])" by (auto intro!: ext)
        show ?thesis
          unfolding e using assms(4) True by (subst rewrite_const) (simp_all add: o_def kernel_pixel_def a Let_def)
      qed
      ultimately show ?thesis
        using True conv assms(4) by (auto simp: store_row_def a alpha first store_luma_alpha_def Let_def safe_magnitudes
            kernel_inputs_def shape_has_alpha_def)
    next
      case False
      then obtain rev where shape: "shape = ShapeRgbAlpha rev" using True by (cases shape) (auto simp: shape_has_alpha_def)
      then have conv: "ip_conversion pl \<noteq> ConvertLuma" using assms(2) by (auto simp: plan_fits_def Let_def)
      show ?thesis
        using rgb [of 4 "Some (map (\<lambda>x. opacity_at c (?p x)) [0..<?w], s)" rev] conv assms(4) others [of 1] others [of 2]
        by (auto simp: store_row_def a alpha first Let_def shape kernel_pixel_def kernel_inputs_def shape_has_alpha_def)
    qed
  next
    case False
    then have a: "fc_alpha c = None" "ip_alpha_rows pl = None" "ip_alpha pl = None"
      using assms(2) by (auto simp: plan_fits_def Let_def)
    consider "shape = ShapeLuma" | rev where "shape = ShapeRgb rev" | rev where "shape = ShapeRgbPadding rev"
      using False by (cases shape) (auto simp: shape_has_alpha_def)
    then show ?thesis
    proof cases
      case 1
      then have conv: "ip_conversion pl = ConvertLuma" using assms(2) by (auto simp: plan_fits_def Let_def)
      have "rewrite_chunks 1 (\<lambda>v _. [store_value (ip_color pl) v]) (map (\<lambda>x. primary_at c 0 (?p x)) [0..<?w]) out =
          concat (map (\<lambda>x. kernel_pixel c pl shape (?p x)) [0..<?w])"
        using assms(4) 1 by (subst rewrite_const) (simp_all add: o_def kernel_pixel_def Let_def)
      then show ?thesis
        using 1 conv assms(4)
        by (auto simp: store_row_def a first store_luma_def Let_def safe_magnitudes kernel_inputs_def shape_has_alpha_def)
    next
      case (2 rev)
      then have "ip_conversion pl \<noteq> ConvertLuma" using assms(2) by (auto simp: plan_fits_def Let_def)
      then show ?thesis
        using rgb [of 3 None rev] 2 assms(4) others [of 1] others [of 2]
        by (auto simp: store_row_def a first Let_def kernel_pixel_def kernel_inputs_def shape_has_alpha_def)
    next
      case (3 rev)
      then have "ip_conversion pl \<noteq> ConvertLuma" using assms(2) by (auto simp: plan_fits_def Let_def)
      then show ?thesis
        using rgb [of 4 None rev] 3 assms(4) others [of 1] others [of 2]
        by (auto simp: store_row_def a first Let_def kernel_pixel_def kernel_inputs_def shape_has_alpha_def)
    qed
  qed
qed

section \<open>The plan of a context\<close>

lemma channel_scale_small: "small_scale (channel_scale_at c i for_alpha)"
proof -
  have "small_scale ScalePadding" by (simp add: small_scale_def)
  then show ?thesis by (auto simp: channel_scale_at_def resolve_scale_small)
qed

lemma rows_all_Some: "rows_all ps x y = Some rs \<longleftrightarrow> list_all2 (\<lambda>p r. rows_new p x y = Some r) ps rs"
  by (induction ps arbitrary: rs) (auto simp: bind_eq_Some_conv list_all2_Cons1)

lemma plan_rows_yuv:
  assumes "length planes = 3" "plan_rows ConvertYuvToRgb planes first x y = Some rs"
  shows "rs ! 0 = first \<and> (\<forall>i\<in>{1, 2}. rows_new (planes ! i) x y = Some (rs ! i))"
proof -
  obtain a b d where p: "planes = [a, b, d]" using assms(1) by (auto simp: numeral_3_eq_3 length_Suc_conv)
  show ?thesis
    using assms(2) by (auto simp: plan_rows_def p bind_eq_Some_conv rows_all_Some list_all2_Cons1)
qed

lemma conversion_planes:
  assumes "context_ok c" "store_conversion (fc_request c) = Some conv"
  shows "length (fc_planes c) = (if conv = ConvertYuvToRgb then 3 else 1)"
  using context_okD(1) [OF assms(1)] assms(2) by (auto simp: store_conversion_def split: if_splits)

lemma plan_of_context:
  assumes "context_ok c" "interleave_plan_of c = Some (pl, shape)"
  obtains maximum where "store_maximum (fc_request c) = Some maximum"
    "store_conversion (fc_request c) = Some (ip_conversion pl)"
    "store_shape_of (ip_conversion pl) (layout_of (or_pixels (fc_request c))) = Some shape"
    "integer_scale_of (channel_scale_at c 0 False) maximum = Some (ip_color pl)"
    "shape_has_alpha shape \<longrightarrow> integer_scale_of (channel_scale_at c (shape_channels shape - 1) True) maximum = Some (the (ip_alpha pl))"
    "plan_fits c pl shape"
proof -
  let ?r = "fc_request c"
  obtain maximum conv first where m: "store_maximum ?r = Some maximum" "store_conversion ?r = Some conv"
    and sh: "store_shape_of conv (layout_of (or_pixels ?r)) = Some shape"
    and has: "shape_has_alpha shape = (fc_alpha c \<noteq> None)" "fc_planes c \<noteq> []"
    and color: "integer_scale_of (channel_scale_at c 0 False) maximum = Some (ip_color pl)"
    and alpha: "(if shape_has_alpha shape
        then Option.bind (integer_scale_of (channel_scale_at c (shape_channels shape - 1) True) maximum) (\<lambda>s. Some (Some s))
        else Some None) = Some (ip_alpha pl)"
    and rows: "rows_new (hd (fc_planes c)) (crop_x (or_crop ?r)) (crop_y (or_crop ?r)) = Some first"
      "plan_rows conv (fc_planes c) first (crop_x (or_crop ?r)) (crop_y (or_crop ?r)) = Some (ip_planes pl)"
    and ar: "(case fc_alpha c of Some a \<Rightarrow> Option.bind (rows_new a (crop_x (or_crop ?r)) (crop_y (or_crop ?r))) (\<lambda>rs. Some (Some rs))
        | None \<Rightarrow> Some None) = Some (ip_alpha_rows pl)"
    and pl: "ip_conversion pl = conv" "ip_width pl = fc_width c"
    using assms(2) by (auto simp: interleave_plan_of_def bind_eq_Some_conv Let_def split: if_splits)
  have layouts: "(shape \<in> {ShapeLuma, ShapeLumaAlpha}) = (conv = ConvertLuma)"
    using sh by (auto simp: store_shape_of_def split: if_splits channel_layout.splits)
  have hd: "hd (fc_planes c) = fc_planes c ! 0" using has(2) by (simp add: hd_conv_nth)
  have planes: "ip_planes pl ! 0 = first \<and> (if conv = ConvertYuvToRgb
      then length (fc_planes c) = 3 \<and>
        (\<forall>i\<in>{1, 2}. rows_new (fc_planes c ! i) (crop_x (or_crop ?r)) (crop_y (or_crop ?r)) = Some (ip_planes pl ! i))
      else \<forall>i\<in>{1, 2}. ip_planes pl ! i = ip_planes pl ! 0)"
    using plan_rows_yuv [of "fc_planes c" first "crop_x (or_crop ?r)" "crop_y (or_crop ?r)" "ip_planes pl"] rows(2)
      conversion_planes [OF assms(1) m(2)]
    by (cases "conv = ConvertYuvToRgb") (auto simp: plan_rows_def dest!: sym [of "[first, first, first]"])
  have fits: "plan_fits c pl shape"
    using has rows(1) planes layouts ar alpha pl context_okD(6) [OF assms(1)]
    unfolding plan_fits_def Let_def hd
    by (cases "fc_alpha c") (auto simp: bind_eq_Some_conv eq_commute [of "Some _" "ip_alpha pl"]
        eq_commute [of "Some _" "ip_alpha_rows pl"] eq_commute [of None "ip_alpha pl"] eq_commute [of None "ip_alpha_rows pl"])
  show thesis
    by (rule that [of maximum]) (use m sh color alpha pl fits in
        \<open>auto simp: bind_eq_Some_conv eq_commute [of "Some _" "ip_alpha pl"]\<close>)
qed

section \<open>Kernels and the checked packer agree\<close>

lemma checked_value:
  assumes "integer_scale_of (channel_scale_at c i for_alpha) maximum = Some s" "0 \<le> maximum" "maximum < 2 ^ LENGTH('a)"
    and "\<bar>v\<bar> \<le> 2 ^ 28 + 2"
  shows "word_value maximum c v i for_alpha = Ok (store_value s v :: 'a::len word)"
  using store_value_exact [OF channel_scale_small assms] by (simp add: word_value_def scales_apply_of)

lemma store_maximum_facts:
  assumes "store_maximum r = Some maximum"
  shows "0 \<le> maximum" "or_depth r \<notin> {DepthRgb555, DepthRgb565, DepthRgb101010}"
    "maximum = (case or_pixels r of PixelU8 _ \<Rightarrow> 255 | _ \<Rightarrow> if or_depth r = DepthU10 then 1023 else 65535)"
  using assms by (auto simp: store_maximum_def split: output_bit_depth.splits pixel_format.splits)

lemma resolve_scale_shared:
  "color \<noteq> ColorCmyk \<Longrightarrow> depth \<noteq> DepthRgb565 \<Longrightarrow> resolve_scale i color depth z = resolve_scale 0 color depth z"
  by (simp add: resolve_scale_def Let_def cong: if_cong sum.case_cong)

lemma color_scale_shared:
  assumes "store_maximum (fc_request c) = Some maximum" "or_output (fc_request c) \<in> {ColorLuma, ColorRgb}" "i < 3"
  shows "channel_scale_at c i False = channel_scale_at c 0 False"
  using assms store_maximum_facts(2) [OF assms(1)]
    resolve_scale_shared [of "or_output (fc_request c)" "or_depth (fc_request c)" i "or_scaled (fc_request c)"]
  by (auto simp: channel_scale_at_def is_padding_def)

text \<open>The colours of a pixel, in the order of the format.\<close>

lemma converted_colors:
  assumes "context_ok c" "p \<in> set (crop_pixels c)" "store_maximum (fc_request c) = Some maximum"
    and "store_conversion (fc_request c) = Some (ip_conversion pl)" "\<forall>v\<in>kernel_inputs c pl shape p. \<bar>v\<bar> < 2 ^ 26"
  defines "colors \<equiv> color_components_at c (fst p) (snd p) (color_shape_of c)"
  shows "ip_conversion pl = ConvertLuma \<Longrightarrow> colors = Ok [primary_at c 0 p, 0, 0, 0]"
    "ip_conversion pl \<noteq> ConvertLuma \<Longrightarrow> colors = Ok (rgb_values c pl False p @ [0]) \<and>
       rgb_values c pl True p = rev (rgb_values c pl False p) \<and> (\<forall>v\<in>set (rgb_values c pl False p). \<bar>v\<bar> \<le> 2 ^ 28 + 2)"
proof -
  note depth = store_maximum_facts(2) [OF assms(3)]
  note planes = conversion_planes [OF assms(1,4)]
  have colors: "colors = (if cs_direct (color_shape_of c) then Ok (gathered c p)
     else convert_color (or_internal (fc_request c)) (or_output (fc_request c)) (gathered c p) (cs_packed_rgb (color_shape_of c))
       (or_not_swapped (fc_request c)))"
    unfolding colors_def using color_components_shown [OF assms(1), of "fst p" "snd p"] assms(2) by simp
  have packed: "\<not> cs_packed_rgb (color_shape_of c)" using depth by (simp add: color_shape_of_def)
  have luma: "gathered c p = [primary_at c 0 p, 0, 0, 0]" if "ip_conversion pl \<noteq> ConvertYuvToRgb"
    using planes that by (cases "fc_planes c") (auto simp: gathered_def primary_at_def)
  show "colors = Ok [primary_at c 0 p, 0, 0, 0]" if "ip_conversion pl = ConvertLuma"
    using colors luma assms(4) that by (auto simp: store_conversion_def color_shape_of_def is_direct_def split: if_splits)
  show "colors = Ok (rgb_values c pl False p @ [0]) \<and> rgb_values c pl True p = rev (rgb_values c pl False p) \<and>
      (\<forall>v\<in>set (rgb_values c pl False p). \<bar>v\<bar> \<le> 2 ^ 28 + 2)" if conv: "ip_conversion pl \<noteq> ConvertLuma"
  proof (cases "ip_conversion pl = ConvertLumaToRgb")
    case True
    have "\<bar>primary_at c 0 p\<bar> < 2 ^ 26" using assms(5) by (simp add: kernel_inputs_def)
    then show ?thesis
      using colors luma assms(4) True
      by (auto simp: store_conversion_def color_shape_of_def is_direct_def convert_color_def rgb_values_def numeral_3_eq_3
          split: if_splits)
  next
    case False
    then have yuv: "ip_conversion pl = ConvertYuvToRgb" using conv by (cases "ip_conversion pl") auto
    then obtain a b d where abd: "fc_planes c = [a, b, d]"
      using planes by (auto simp: numeral_3_eq_3 length_Suc_conv)
    have g: "gathered c p = [primary_at c 0 p, primary_at c 1 p, primary_at c 2 p, 0]"
      by (simp add: gathered_def abd primary_at_def)
    have "\<bar>primary_at c 0 p\<bar> < 2 ^ 26" "\<bar>primary_at c 1 p\<bar> < 2 ^ 26" "\<bar>primary_at c 2 p\<bar> < 2 ^ 26"
      using assms(5) yuv by (auto simp: kernel_inputs_def)
    from wrapping_yuv_exact [OF this] obtain r g' t where w:
      "inverse_yuv (primary_at c 0 p) (primary_at c 1 p) (primary_at c 2 p) = Ok [r, g', t]"
      "wrapping_inverse_yuv (primary_at c 0 p) (primary_at c 1 p) (primary_at c 2 p) = (r, g', t)"
      "\<bar>r\<bar> \<le> 2 ^ 28 + 2" "\<bar>g'\<bar> \<le> 2 ^ 28 + 2" "\<bar>t\<bar> \<le> 2 ^ 28 + 2" by blast
    have rgb: "rgb_values c pl z p = (if z then [t, g', r] else [r, g', t])" for z
      using yuv w(2) by (simp add: rgb_values_def rgb_pixel_def)
    have "or_internal (fc_request c) = ColorYuv Cs444" "or_output (fc_request c) = ColorRgb"
      using assms(4) yuv by (auto simp: store_conversion_def split: if_splits)
    then show ?thesis
      using colors packed w g rgb by (simp add: color_shape_of_def is_direct_def convert_color_def)
  qed
qed

lemma kernel_pixel_checked:
  assumes "context_ok c" "p \<in> set (crop_pixels c)" "store_maximum (fc_request c) = Some maximum"
    and conv: "store_conversion (fc_request c) = Some (ip_conversion pl)"
    and shape: "store_shape_of (ip_conversion pl) (layout_of (or_pixels (fc_request c))) = Some shape"
    and color: "integer_scale_of (channel_scale_at c 0 False) maximum = Some (ip_color pl)"
    and alpha: "shape_has_alpha shape \<longrightarrow>
      integer_scale_of (channel_scale_at c (shape_channels shape - 1) True) maximum = Some (the (ip_alpha pl))"
    and fits: "plan_fits c pl shape" and small: "\<forall>v\<in>kernel_inputs c pl shape p. \<bar>v\<bar> < 2 ^ 26"
    and max: "maximum < 2 ^ LENGTH('a)"
  shows "pixel_values c (word_value maximum c) p = Ok (kernel_pixel c pl shape p :: 'a::len word list)"
proof -
  note colors = converted_colors [OF assms(1-3) conv small]
  note max0 = store_maximum_facts(1) [OF assms(3)]
  have out: "or_output (fc_request c) \<in> {ColorLuma, ColorRgb}"
    using conv by (auto simp: store_conversion_def split: if_splits)
  have scale: "integer_scale_of (channel_scale_at c i False) maximum = Some (ip_color pl)" if "i < 3" for i
    using color_scale_shared [OF assms(3) out that] color by simp
  have shades: "word_value maximum c v i False = Ok (store_value (ip_color pl) v :: 'a word)"
    if "i < 3" "\<bar>v\<bar> \<le> 2 ^ 28 + 2" for v i
    by (rule checked_value [OF scale [OF that(1)] max0 max that(2)])
  have opacity: "word_value maximum c (opacity_at c p) (shape_channels shape - 1) True =
      Ok (store_value (the (ip_alpha pl)) (opacity_at c p) :: 'a word)" if "shape_has_alpha shape"
  proof -
    have "\<bar>opacity_at c p\<bar> < 2 ^ 26" using small that by (simp add: kernel_inputs_def)
    then show ?thesis using alpha that by (intro checked_value [OF _ max0 max]) auto
  qed
  have padding: "word_value maximum c 0 3 False = Ok (0 :: 'a word)"
    if "layout_of (or_pixels (fc_request c)) \<in> {LayoutRgbx, LayoutBgrx}"
    using that max0 by (simp add: word_value_def scales_apply_of channel_scale_at_def is_padding_def clamp_sample_def expect_word_def)
  have sample: "plane_sample a (fst p) (snd p) = (Ok (opacity_at c p) :: (output_error, i32) result)" if "fc_alpha c = Some a" for a
    using shown_samples [OF assms(1), of "fst p" "snd p" a] assms(2) that by (simp add: opacity_at_def)
  have first: "\<bar>primary_at c 0 p\<bar> \<le> 2 ^ 28 + 2" using small by (auto simp: kernel_inputs_def)
  have visits: "pixel_visits c p = let_try (ordered_components_at c (fst p) (snd p) (pixel_shape_of c)) (\<lambda>(samples, n).
          if length samples < n then Panic
          else Ok (map (\<lambda>(i, v). (v, i, fc_alpha c \<noteq> None \<and> i + 1 = n)) (enumerate 0 (take n samples))))"
    using out by (auto simp: pixel_visits_def)
  have same: "ps_color (pixel_shape_of c) = color_shape_of c" by (simp add: pixel_shape_of_def Let_def)
  have has: "shape_has_alpha shape = (fc_alpha c \<noteq> None)" using fits by (auto simp: plan_fits_def Let_def split: if_splits)
  show ?thesis
  proof (cases "ip_conversion pl = ConvertLuma")
    case True
    then consider "layout_of (or_pixels (fc_request c)) = LayoutLuma" "shape = ShapeLuma"
      | "layout_of (or_pixels (fc_request c)) = LayoutLumaAlpha" "shape = ShapeLumaAlpha"
      using shape by (auto simp: store_shape_of_def split: channel_layout.splits)
    then show ?thesis
      using colors(1) [OF True] has sample opacity shades [OF _ first, of 0]
      by cases (auto simp: pixel_values_def visits ordered_components_at_def same pixel_shape_of_def Let_def
          kernel_pixel_def shape_has_alpha_def)
  next
    case False
    obtain r g t where v: "rgb_values c pl False p = [r, g, t]"
      using length_rgb_values [of c pl False p] by (auto simp: numeral_3_eq_3 length_Suc_conv simp del: length_rgb_values)
    then have rgb: "rgb_values c pl True p = [t, g, r]" "\<bar>r\<bar> \<le> 2 ^ 28 + 2" "\<bar>g\<bar> \<le> 2 ^ 28 + 2" "\<bar>t\<bar> \<le> 2 ^ 28 + 2"
      and colors: "color_components_at c (fst p) (snd p) (color_shape_of c) = Ok [r, g, t, 0]"
      using colors(2) [OF False] by auto
    have shown_words: "word_value maximum c w i False = Ok (store_value (ip_color pl) w :: 'a word)"
      if "i \<in> {0, 1, 2}" "w \<in> {r, g, t}" for w i
      using that rgb by (intro shades) auto
    have layout: "\<exists>z. layout_of (or_pixels (fc_request c)) = (if z then LayoutBgr else LayoutRgb) \<and> shape = ShapeRgb z \<or>
        layout_of (or_pixels (fc_request c)) = (if z then LayoutBgrx else LayoutRgbx) \<and> shape = ShapeRgbPadding z \<or>
        layout_of (or_pixels (fc_request c)) = (if z then LayoutBgra else LayoutRgba) \<and> shape = ShapeRgbAlpha z"
      using shape False by (auto simp: store_shape_of_def split: channel_layout.splits)
    then obtain z where z: "layout_of (or_pixels (fc_request c)) = (if z then LayoutBgr else LayoutRgb) \<and> shape = ShapeRgb z \<or>
        layout_of (or_pixels (fc_request c)) = (if z then LayoutBgrx else LayoutRgbx) \<and> shape = ShapeRgbPadding z \<or>
        layout_of (or_pixels (fc_request c)) = (if z then LayoutBgra else LayoutRgba) \<and> shape = ShapeRgbAlpha z" by blast
    have words: "word_value maximum c w 0 False = Ok (store_value (ip_color pl) w :: 'a word)"
      "word_value maximum c w (Suc 0) False = Ok (store_value (ip_color pl) w :: 'a word)"
      "word_value maximum c w 2 False = Ok (store_value (ip_color pl) w :: 'a word)" if "w \<in> {r, g, t}" for w
      using shown_words [of 0 w] shown_words [of 1 w] shown_words [of 2 w] that by auto
    show ?thesis
      using z colors has sample opacity padding words v rgb(1)
      by (cases z) (auto simp: pixel_values_def visits ordered_components_at_def same pixel_shape_of_def Let_def
          kernel_pixel_def shape_has_alpha_def eval_nat_numeral)
  qed
qed

section \<open>Tasks\<close>

definition kernel_row :: "format_context \<Rightarrow> interleave_plan \<Rightarrow> store_shape \<Rightarrow> nat \<Rightarrow> 'a::len word list" where
  "kernel_row c pl shape y = concat (map (\<lambda>x. kernel_pixel c pl shape
     (crop_x (or_crop (fc_request c)) + x, crop_y (or_crop (fc_request c)) + y)) [0..<ip_width pl])"

definition row_safe :: "format_context \<Rightarrow> interleave_plan \<Rightarrow> store_shape \<Rightarrow> nat \<Rightarrow> bool" where
  "row_safe c pl shape y \<longleftrightarrow> (\<forall>x<ip_width pl. \<forall>v\<in>kernel_inputs c pl shape
     (crop_x (or_crop (fc_request c)) + x, crop_y (or_crop (fc_request c)) + y). \<bar>v\<bar> < 2 ^ 26)"

text \<open>What a run of stores produces: the rows from one index on, and small inputs if all its bits are small.\<close>

definition stores_rows :: "format_context \<Rightarrow> interleave_plan \<Rightarrow> store_shape \<Rightarrow> nat \<Rightarrow> nat \<Rightarrow>
    ('a::len word list \<times> nat) list \<Rightarrow> bool" where
  "stores_rows c pl shape y m ts \<longleftrightarrow>
     concat (map fst ts) = concat (map (kernel_row c pl shape) [y..<y + m]) \<and>
     ((\<forall>(_, bits)\<in>set ts. bits < 2 ^ 26) \<longrightarrow> (\<forall>v\<in>{y..<y + m}. row_safe c pl shape v))"

lemma stores_rows_Cons:
  assumes "stores_rows c pl shape y k [t]" "stores_rows c pl shape (y + k) m ts"
  shows "stores_rows c pl shape y (k + m) (t # ts)"
proof -
  have "[y..<y + (k + m)] = [y..<y + k] @ [y + k..<y + k + m]" using upt_add_eq_append [of y "y + k" m] by (simp add: add.assoc)
  moreover have "v \<in> {y..<y + k} \<or> v \<in> {y + k..<y + k + m}" if "v \<in> {y..<y + (k + m)}" for v using that by auto
  ultimately show ?thesis using assms by (fastforce simp: stores_rows_def)
qed

lemma map_try_rows:
  fixes rows :: "'a::len word list"
  assumes "context_ok c" "plan_fits c pl shape" "L = ip_width pl * shape_channels shape" "0 < L"
    and "length rows = m * L" "base + k + m \<le> fc_height c"
  shows "\<exists>ts. map_try (\<lambda>(row, destination). store_row pl shape (base + row) destination) (enumerate k (chunks L rows)) =
      (Ok ts :: ('e, _) result) \<and> stores_rows c pl shape (base + k) m ts"
  using assms(5,6)
proof (induction m arbitrary: rows k)
  case 0
  then show ?case by (simp add: chunks.simps stores_rows_def)
next
  case (Suc m)
  have rows: "rows \<noteq> []" using Suc.prems(1) assms(4) by auto
  have chunk: "chunks L rows = take L rows # chunks L (drop L rows)" using rows assms(4) by (simp add: chunks.simps)
  have len: "length (take L rows) = ip_width pl * shape_channels shape" using Suc.prems(1) assms(3) by simp
  obtain bits where row: "store_row pl shape (base + k) (take L rows) =
      (Ok (kernel_row c pl shape (base + k), bits) :: ('e, 'a word list \<times> nat) result)"
    and safe: "bits < 2 ^ 26 \<longrightarrow> row_safe c pl shape (base + k)"
    using store_row_kernel [OF assms(1,2) _ len, of "base + k", where 'e = 'e] Suc.prems(2) assms(3)
    unfolding kernel_row_def row_safe_def by fastforce
  obtain ts where ts: "map_try (\<lambda>(row, destination). store_row pl shape (base + row) destination)
      (enumerate (Suc k) (chunks L (drop L rows))) = (Ok ts :: ('e, _) result)" "stores_rows c pl shape (base + Suc k) m ts"
    using Suc.IH [of "drop L rows" "Suc k"] Suc.prems by auto
  have "stores_rows c pl shape (base + k) 1 [(kernel_row c pl shape (base + k), bits)]"
    using safe by (simp add: stores_rows_def)
  from stores_rows_Cons [OF this, of m ts] ts(2)
  have "stores_rows c pl shape (base + k) (Suc m) ((kernel_row c pl shape (base + k), bits) # ts)" by simp
  then show ?case using row ts(1) by (simp add: chunk)
qed

lemma store_task_rows:
  fixes rows :: "'a::len word list"
  assumes "context_ok c" "plan_fits c pl shape" "L = ip_width pl * shape_channels shape" "0 < L"
    and "length rows = m * L" "task * rpt + m \<le> fc_height c"
  shows "\<exists>t. store_task pl shape rpt L (task, rows) = (Ok t :: ('e, _) result) \<and> stores_rows c pl shape (task * rpt) m [t]"
proof -
  obtain ts where ts: "map_try (\<lambda>(row, destination). store_row pl shape (task * rpt + row) destination)
      (enumerate 0 (chunks L rows)) = (Ok ts :: ('e, _) result)" "stores_rows c pl shape (task * rpt) m ts"
    using map_try_rows [OF assms(1-5), of "task * rpt" 0, where 'e = 'e] assms(6) by auto
  have full: "length rows div L * L = length rows" using assms(4,5) by simp
  have "(\<lambda>(_, b) bits. bits OR b) = (\<lambda>(v :: 'a word list \<times> nat) bits. bits OR snd v)" by (auto intro!: ext)
  then have "fold (\<lambda>(_, b) bits. bits OR b) ts 0 < 2 ^ 26 \<longleftrightarrow> (\<forall>(_, b)\<in>set ts. b < 2 ^ 26)"
    using fold_or_less [of snd ts 0 26] by (simp only:) (auto simp: split_beta)
  then have "stores_rows c pl shape (task * rpt) m [(concat (map fst ts), fold (\<lambda>(_, b) bits. bits OR b) ts 0)]"
    using ts(2) by (simp add: stores_rows_def)
  then show ?thesis using ts(1) unfolding store_task_def prod.case Let_def full by simp
qed

lemma map_try_tasks:
  fixes out :: "'a::len word list"
  assumes "context_ok c" "plan_fits c pl shape" "L = ip_width pl * shape_channels shape" "0 < L" "0 < rpt"
    and "length out = m * L" "t * rpt + m \<le> fc_height c"
  shows "\<exists>ts. map_try (store_task pl shape rpt L) (enumerate t (chunks (rpt * L) out)) = (Ok ts :: ('e, _) result) \<and>
    stores_rows c pl shape (t * rpt) m ts"
  using assms(6,7)
proof (induction m arbitrary: out t rule: less_induct)
  case (less m)
  show ?case
  proof (cases "m = 0")
    case True
    then show ?thesis using less.prems by (simp add: chunks.simps stores_rows_def)
  next
    case False
    have chunk: "chunks (rpt * L) out = take (rpt * L) out # chunks (rpt * L) (drop (rpt * L) out)"
      using False less.prems(1) assms(4,5) by (subst chunks.simps) auto
    let ?k = "min rpt m"
    have len: "length (take (rpt * L) out) = ?k * L" using less.prems(1) mult_le_mono1 [of rpt m L] mult_le_mono1 [of m rpt L]
      by (cases "rpt \<le> m") (simp_all add: min_absorb1 min_absorb2)
    obtain u where u: "store_task pl shape rpt L (t, take (rpt * L) out) = (Ok u :: ('e, _) result)"
      "stores_rows c pl shape (t * rpt) ?k [u]"
    proof -
      have "t * rpt + ?k \<le> fc_height c" using less.prems(2) min.cobounded2 [of rpt m] by linarith
      then show ?thesis using store_task_rows [OF assms(1-4) len, of t rpt, where 'e = 'e] that by blast
    qed
    have rest: "length (drop (rpt * L) out) = (m - rpt) * L" using less.prems(1) by (simp add: diff_mult_distrib)
    obtain ts where ts: "map_try (store_task pl shape rpt L) (enumerate (Suc t) (chunks (rpt * L) (drop (rpt * L) out))) =
        (Ok ts :: ('e, _) result)" "stores_rows c pl shape (t * rpt + ?k) (m - rpt) ts"
    proof (cases "rpt \<le> m")
      case True
      then have "Suc t * rpt + (m - rpt) \<le> fc_height c" using less.prems(2) by simp
      from less.IH [OF _ rest this] False assms(5) True that show ?thesis by (auto simp: min_def add.commute)
    next
      case small: False
      then have "drop (rpt * L) out = []" using less.prems(1) by simp
      then show ?thesis using that [of "[]"] small by (simp add: chunks.simps stores_rows_def)
    qed
    have "?k + (m - rpt) = m" by auto
    then have "stores_rows c pl shape (t * rpt) m (u # ts)" using stores_rows_Cons [OF u(2) ts(2)] by simp
    then show ?thesis using u(1) ts(1) by (simp add: chunk)
  qed
qed

lemma map_upt_shift: "map f [a..<a + n] = map (\<lambda>i. f (a + i)) [0..<n]"
  by (rule nth_equalityI) auto

lemma crop_pixels_rows:
  "crop_pixels c = concat (map (\<lambda>y. map (\<lambda>x. (crop_x (or_crop (fc_request c)) + x, crop_y (or_crop (fc_request c)) + y))
     [0..<fc_width c]) [0..<fc_height c])"
  by (simp add: crop_pixels_def map_upt_shift)

lemma concat_map_concat: "concat (map f (concat xss)) = concat (map (\<lambda>xs. concat (map f xs)) xss)"
  by (induction xss) simp_all

lemma kernel_row_fun: "kernel_row c pl shape = (\<lambda>y. concat (map (\<lambda>x. kernel_pixel c pl shape
    (crop_x (or_crop (fc_request c)) + x, crop_y (or_crop (fc_request c)) + y)) [0..<ip_width pl]))"
  by (rule ext) (simp add: kernel_row_def)

lemma kernel_rows_pixels:
  assumes "ip_width pl = fc_width c"
  shows "concat (map (kernel_row c pl shape) [0..<fc_height c]) = concat (map (kernel_pixel c pl shape) (crop_pixels c))"
  using assms by (simp add: kernel_row_fun [abs_def] crop_pixels_rows concat_map_concat o_def)

section \<open>The fast path against the checked one\<close>

lemma map_try_pure: "(\<And>x. x \<in> set xs \<Longrightarrow> f x = Ok (g x)) \<Longrightarrow> map_try f xs = Ok (map g xs)"
  by (induction xs) simp_all

lemma try_store_exact:
  fixes out :: "'a::len word list"
  assumes "context_ok c" "\<And>maximum. store_maximum (fc_request c) = Some maximum \<Longrightarrow> maximum < 2 ^ LENGTH('a)"
  shows "\<exists>stored done_all. try_store c out = (Ok (stored, done_all) :: (output_error, _) result) \<and> length stored = length out \<and>
    (done_all \<longrightarrow> length out = fc_height c * fc_width c * channel_count (or_pixels (fc_request c)) \<and>
      (\<exists>maximum. store_maximum (fc_request c) = Some maximum \<and> pack_ordered c (word_value maximum c) = Ok stored))"
proof (cases "interleave_plan_of c")
  case None
  then show ?thesis by (intro exI [of _ out] exI [of _ False]) (simp add: try_store_def)
next
  case (Some plan)
  obtain pl shape where plan: "interleave_plan_of c = Some (pl, shape)" using Some by (cases plan) auto
  obtain maximum where max: "store_maximum (fc_request c) = Some maximum"
    and conv: "store_conversion (fc_request c) = Some (ip_conversion pl)"
    and sh: "store_shape_of (ip_conversion pl) (layout_of (or_pixels (fc_request c))) = Some shape"
    and scales: "integer_scale_of (channel_scale_at c 0 False) maximum = Some (ip_color pl)"
      "shape_has_alpha shape \<longrightarrow> integer_scale_of (channel_scale_at c (shape_channels shape - 1) True) maximum = Some (the (ip_alpha pl))"
    and fits: "plan_fits c pl shape"
    using plan_of_context [OF assms(1) plan] .
  have width: "ip_width pl = fc_width c" using fits context_okD(6) [OF assms(1)] by (simp add: plan_fits_def Let_def)
  have channels: "channel_count (or_pixels (fc_request c)) = shape_channels shape"
    using sh max by (cases "or_pixels (fc_request c)")
      (auto simp: store_shape_of_def store_maximum_def split: if_splits channel_layout.splits output_bit_depth.splits)
  let ?L = "fc_width c * shape_channels shape" and ?rpt = "max 1 (PIXELS_PER_TASK div fc_width c)"
  show ?thesis
  proof (cases "length out = fc_width c * fc_height c * shape_channels shape \<and> fc_width c \<noteq> 0 \<and> fc_height c \<noteq> 0")
    case False
    show ?thesis
    proof (cases "length out = fc_width c * fc_height c * shape_channels shape")
      case fits: True
      then have none: "fc_width c = 0 \<or> fc_height c = 0" "out = []" using False by auto
      have "pack_ordered c (word_value maximum c) = (Ok [] :: (output_error, 'a word list) result)"
        using none(1) by (simp add: pack_ordered_def for_each_ordered_def)
      moreover have "try_store c out = (Ok (out, True) :: (output_error, _) result)"
        using none fits plan width by (auto simp: try_store_def Let_def)
      ultimately show ?thesis using none max by auto
    next
      case False
      then have "try_store c out = (Ok (out, False) :: (output_error, _) result)"
        using plan width by (simp add: try_store_def Let_def)
      then show ?thesis by (intro exI [of _ out] exI [of _ False]) simp
    qed
  next
    case True
    have "0 < shape_channels shape" by (cases shape) auto
    then have L: "0 < ?L" using True by simp
    have len: "length out = fc_height c * ?L" using True by (simp add: mult.commute mult.left_commute)
    obtain ts where ts: "map_try (store_task pl shape ?rpt ?L) (enumerate 0 (chunks (?rpt * ?L) out)) =
        (Ok ts :: (output_error, _) result)" "stores_rows c pl shape 0 (fc_height c) ts"
    proof -
      have "?L = ip_width pl * shape_channels shape" "0 < ?rpt" "0 * ?rpt + fc_height c \<le> fc_height c" using width by simp_all
      from map_try_tasks [OF assms(1) fits this(1) L this(2) len this(3), where 'e = output_error]
      show ?thesis using that unfolding mult_0 by blast
    qed
    have fold: "(\<lambda>(_, b) bits. bits OR b) = (\<lambda>(v :: 'a word list \<times> nat) bits. bits OR snd v)" by (auto intro!: ext)
    have safe: "fold (\<lambda>(_, b) bits. bits OR b) ts 0 < SAFE_MAGNITUDE \<longleftrightarrow> (\<forall>(_, b)\<in>set ts. b < 2 ^ 26)"
      using fold_or_less [of snd ts 0 26] by (simp only: fold SAFE_MAGNITUDE_def) (auto simp: split_beta)
    have stored: "concat (map fst ts) = concat (map (kernel_pixel c pl shape) (crop_pixels c))"
      using ts(2) kernel_rows_pixels [OF width] by (simp add: stores_rows_def)
    have tried: "try_store c out = (Ok (concat (map fst ts), fold (\<lambda>(_, b) bits. bits OR b) ts 0 < SAFE_MAGNITUDE) :: (output_error, _) result)"
      using True ts(1) plan width by (simp add: try_store_def Let_def)
    have "length (concat (map (kernel_pixel c pl shape :: _ \<Rightarrow> 'a word list) ps)) = length ps * shape_channels shape" for ps
      by (induction ps) (simp_all add: length_kernel_pixel)
    then have lens: "length (concat (map fst ts)) = length out" using stored len by (simp add: length_crop_pixels)
    have "pack_ordered c (word_value maximum c) = Ok (concat (map fst ts))" if "\<forall>(_, b)\<in>set ts. b < 2 ^ 26"
    proof -
      have rows: "\<forall>v\<in>{0..<fc_height c}. row_safe c pl shape v" using ts(2) that by (simp add: stores_rows_def)
      have "pixel_values c (word_value maximum c) p = Ok (kernel_pixel c pl shape p :: 'a word list)" if "p \<in> set (crop_pixels c)" for p
      proof -
        have "\<forall>v\<in>kernel_inputs c pl shape p. \<bar>v\<bar> < 2 ^ 26"
          using that rows by (auto simp: crop_pixels_rows row_safe_def width)
        from kernel_pixel_checked [OF assms(1) that max conv sh scales fits this assms(2) [OF max]] show ?thesis .
      qed
      then show ?thesis by (simp add: pack_ordered_values [OF assms(1)] map_try_pure stored)
    qed
    then show ?thesis using tried safe max lens len channels by (auto simp: mult.assoc)
  qed
qed

end
