(* ===== verification/Output_Paths.thy ===== *)
theory Output_Paths
  imports Output_Store
begin

text \<open>
  The ways to format an image agree: the kernels against the per-sample path, and formatting into a
  destination of the caller against formatting into a fresh buffer. Formatting never panics.
\<close>

section \<open>Values\<close>

lemma shift_left_yields: "in_i32 v \<Longrightarrow> yields (of_sum (checked_shift_left v n name)) in_i32"
  using signed_take_bit_int_less_exp [of 31 "push_bit n v"] signed_take_bit_int_greater_eq_minus_exp [of 31 "push_bit n v"]
  by (auto simp: checked_shift_left_def i32_checked_shl_def in_i32_def)

lemma apply_scale_yields: "yields (apply_scale s v) in_i32"
proof (cases s)
  case (ScaleInteger bias rounding shift post)
  have "yields (checked_add a b) in_i32" for a b :: i32
    by (auto simp: checked_add_def i32_checked_add_def ok_or_def intro!: yieldsI split: option.splits if_splits)
  then have "yields (map_err g (checked_add a b)) in_i32" for g :: "math_error \<Rightarrow> output_error" and a b :: i32
    by (cases "checked_add a b :: (math_error, i32) result") (auto, metis yields_simps(1))
  then show ?thesis unfolding ScaleInteger apply_scale.simps Let_def
    by (intro yields_bind [where P = in_i32])
      (auto split: option.splits intro!: shift_left_yields simp: sar_range)
qed (simp_all add: in_i32_def)

lemma expect_clamped: "0 \<le> maximum \<Longrightarrow> maximum < 2 ^ LENGTH('a) \<Longrightarrow>
    expect_word (clamp_sample v 0 maximum) = (Ok (word_of_int (clamp_sample v 0 maximum)) :: ('e, 'a::len word) result)"
  using clamp_sample_range [of 0 maximum v] by (simp add: expect_word_def)

lemma word_value_yields: "0 \<le> maximum \<Longrightarrow> maximum < 2 ^ LENGTH('a) \<Longrightarrow>
    yields (word_value maximum c v i a :: (output_error, 'a::len word) result) (\<lambda>_. True)"
  unfolding word_value_def scales_apply_of
  by (rule yields_bind [OF apply_scale_yields]) (simp add: expect_clamped)






section \<open>Premultiplication\<close>




lemma concat_uniform: "\<forall>p\<in>set ps. length p = n \<Longrightarrow> length (concat ps) = length ps * n"
  by (induction ps) simp_all







section \<open>Loops\<close>




section \<open>The interleaved kernels\<close>

lemma store_or_pack:
  assumes "context_ok c" "\<And>m. store_maximum (fc_request c) = Some m \<Longrightarrow> m = maximum" "maximum < 2 ^ LENGTH('a::len)"
  shows "let_try (try_store c (out :: 'a word list)) (\<lambda>(stored, complete). if complete then Ok (k stored)
      else let_try (pack_ordered c (word_value maximum c)) (\<lambda>ws. Ok (k ws))) =
    let_try (pack_ordered c (word_value maximum c)) (\<lambda>ws. Ok (k ws))"
proof -
  obtain stored complete where "try_store c out = (Ok (stored, complete) :: (output_error, _) result)"
    "complete \<longrightarrow> pack_ordered c (word_value maximum c) = Ok stored"
    using try_store_exact [of c out] assms by blast
  then show ?thesis by simp
qed

lemma store_or_fill:
  assumes "context_ok c" "\<And>m. store_maximum (fc_request c) = Some m \<Longrightarrow> m = maximum" "maximum < 2 ^ LENGTH('a::len)"
    and "request_ok (fc_request c)" "length out = fc_height c * fc_width c * channel_count (or_pixels (fc_request c))"
  shows "let_try (try_store c (out :: 'a word list)) (\<lambda>(stored, complete). if complete then Ok stored
      else fill_ordered c (word_value maximum c) stored) = pack_ordered c (word_value maximum c)"
proof -
  obtain stored complete where "try_store c out = (Ok (stored, complete) :: (output_error, _) result)"
    "length stored = length out" "complete \<longrightarrow> pack_ordered c (word_value maximum c) = Ok stored"
    using try_store_exact [of c out] assms by blast
  then show ?thesis using fill_equals_pack [OF assms(1,4), of stored] assms(5) by simp
qed

lemma word_maximum:
  assumes "store_maximum r = Some m"
  shows "or_pixels r = PixelU8 l \<Longrightarrow> m = 255" "or_pixels r = PixelU16 l \<Longrightarrow> fc_request c = r \<Longrightarrow> m = u16_maximum c"
  using store_maximum_facts(3) [OF assms] by (auto simp: u16_maximum_def)

lemma u16_maximum_range: "0 \<le> u16_maximum c" "u16_maximum c < 2 ^ LENGTH(16)"
  by (simp_all add: u16_maximum_def)

lemma packs_checked:
  assumes "context_ok c"
  shows "or_pixels (fc_request c) = PixelU8 l \<Longrightarrow> \<not> is_plain_luma c \<Longrightarrow>
      pack_u8 c n = let_try (pack_ordered c (word_value 255 c)) (\<lambda>out. Ok (SamplesU8 out))"
    and "or_pixels (fc_request c) = PixelU16 l \<Longrightarrow>
      pack_u16 c n = let_try (pack_ordered c (word_value (u16_maximum c) c)) (\<lambda>out. Ok (SamplesU16 out))"
proof -
  note words = word_maximum [where r = "fc_request c"]
  show "pack_u8 c n = let_try (pack_ordered c (word_value 255 c)) (\<lambda>out. Ok (SamplesU8 out))"
    if "or_pixels (fc_request c) = PixelU8 l" "\<not> is_plain_luma c"
    unfolding pack_u8_def if_not_P [OF that(2)] by (rule store_or_pack [OF assms(1)]) (use that words(1) in auto)
  show "pack_u16 c n = let_try (pack_ordered c (word_value (u16_maximum c) c)) (\<lambda>out. Ok (SamplesU16 out))"
    if "or_pixels (fc_request c) = PixelU16 l"
    unfolding pack_u16_def by (rule store_or_pack [OF assms(1)]) (use that words(2) u16_maximum_range in auto)
qed

section \<open>The eight-bit luma kernel\<close>

lemma pack_row_bytes: "length destination = length source \<Longrightarrow>
    pack_row source destination b = (map (pack_byte b) source, fold max source i32_min)"
proof -
  assume len: "length destination = length source"
  have "(\<lambda>v peak. max peak v) = (max :: i32 \<Rightarrow> i32 \<Rightarrow> i32)" by (auto simp: max.commute)
  moreover have "concat (map (\<lambda>v. [pack_byte b v]) source) = map (pack_byte b) source" by (induction source) simp_all
  ultimately show ?thesis using len by (simp add: pack_row_def rewrite_const)
qed

lemma fold_max_shift: "max (fold max vs a) b = fold max vs (max a (b :: i32))"
  by (induction vs arbitrary: a) (simp_all add: max.assoc max.commute max.left_commute)

lemma fold_max_above: "a \<le> fold max vs (a :: i32)"
proof (induction vs arbitrary: a)
  case (Cons v vs)
  show ?case using Cons [of "max v a"] by simp
qed simp

lemma fold_max_le: "fold max vs a \<le> b \<longleftrightarrow> a \<le> b \<and> (\<forall>v\<in>set vs. v \<le> (b :: i32))"
  by (induction vs arbitrary: a) auto

definition window_row :: "i32 list \<Rightarrow> nat \<Rightarrow> nat \<times> nat \<Rightarrow> nat \<Rightarrow> nat \<Rightarrow> i32 list" where
  "window_row input stride start width y = take width (drop ((snd start + y) * stride + fst start) input)"

lemma pack_scalar_rows:
  assumes "\<And>y. y < k \<Longrightarrow> (snd start + y) * stride + fst start + width \<le> length input" "k * width \<le> length out"
  shows "each_try (pack_scalar_row input stride start width b) [0..<k] (out, i32_min) =
    (Ok (map (pack_byte b) (concat (map (window_row input stride start width) [0..<k])) @ drop (k * width) out,
      fold max (concat (map (window_row input stride start width) [0..<k])) i32_min) :: ('e, _) result)"
  using assms
proof (induction k)
  case (Suc k)
  let ?row = "window_row input stride start width"
  let ?done = "map (pack_byte b) (concat (map ?row [0..<k]))"
  have len: "length (?row y) = width" if "y < Suc k" for y
    using Suc.prems(1) [OF that] by (simp add: window_row_def)
  have filled: "length ?done = k * width"
    using concat_uniform [of "map ?row [0..<k]" width] len by auto
  have room: "k * width + width \<le> length out" using Suc.prems(2) by simp
  have "pack_scalar_row input stride start width b k (?done @ drop (k * width) out, p) =
      (Ok (map (pack_byte b) (concat (map ?row [0..<Suc k])) @ drop (Suc k * width) out, max p (fold max (?row k) i32_min)) :: ('e, _) result)" for p
    using Suc.prems(1) [of k] filled room len [of k]
    by (simp add: pack_scalar_row_def pack_row_bytes add.commute add.left_commute)
      (simp add: window_row_def add.commute add.left_commute)
  moreover have "max (fold max xs i32_min) (fold max ys i32_min) = fold max (xs @ ys) i32_min" for xs ys
    using fold_max_shift [of ys i32_min "fold max xs i32_min"] fold_max_above [of i32_min xs]
    by (simp add: max.commute [of "fold max xs _"] max_absorb2)
  ultimately show ?case
    using Suc by (simp add: each_try_append)
qed simp

text \<open>The plain luma path on a validated context: its bytes, and the overflow of its largest sample.\<close>

definition luma_samples :: "format_context \<Rightarrow> i32 list" where
  "luma_samples c = map (shown (fc_planes c ! 0)) (crop_pixels c)"

lemma plain_luma_facts:
  assumes "context_ok c" "is_plain_luma c"
  shows "\<exists>p. fc_planes c = [p] \<and> plane_fits (or_crop (fc_request c)) p \<and> or_depth (fc_request c) = DepthU8"
proof -
  have "length (fc_planes c) = 1" using context_okD(1) [OF assms(1)] assms(2) by (simp add: is_plain_luma_def)
  moreover have "or_depth (fc_request c) = DepthU8"
    using validate_matrix_facts(3) [OF context_okD(3) [OF assms(1)]] assms(2)
    by (cases "or_depth (fc_request c)") (auto simp: is_plain_luma_def)
  ultimately show ?thesis using context_okD(4) [OF assms(1)] by (auto simp: length_Suc_conv)
qed

lemma window_row_shown:
  assumes "plane_fits crop p" "y < crop_height crop"
  shows "window_row (cp_samples p) (cp_stride p) (crop_x crop - cp_origin_x p, crop_y crop - cp_origin_y p) (crop_width crop) y =
    map (\<lambda>x. shown p (crop_x crop + x, crop_y crop + y)) [0..<crop_width crop]"
proof (rule nth_equalityI)
  have o: "cp_origin_x p \<le> crop_x crop" "cp_origin_y p \<le> crop_y crop" using assms(1) by (auto simp: plane_fits_def)
  then have y: "crop_y crop - cp_origin_y p + y = crop_y crop + y - cp_origin_y p" by simp
  have fits: "(crop_y crop + y - cp_origin_y p) * cp_stride p + (crop_x crop - cp_origin_x p) + crop_width crop \<le> length (cp_samples p)"
    using row_in_plane [OF assms(1), of "crop_y crop + y"] assms(2) by simp
  show len: "length (window_row (cp_samples p) (cp_stride p) (crop_x crop - cp_origin_x p, crop_y crop - cp_origin_y p) (crop_width crop) y) =
      length (map (\<lambda>x. shown p (crop_x crop + x, crop_y crop + y)) [0..<crop_width crop])"
    using fits by (simp add: window_row_def y)
  show "window_row (cp_samples p) (cp_stride p) (crop_x crop - cp_origin_x p, crop_y crop - cp_origin_y p) (crop_width crop) y ! i =
      map (\<lambda>x. shown p (crop_x crop + x, crop_y crop + y)) [0..<crop_width crop] ! i"
    if "i < length (window_row (cp_samples p) (cp_stride p) (crop_x crop - cp_origin_x p, crop_y crop - cp_origin_y p) (crop_width crop) y)" for i
    using that fits len o by (simp add: window_row_def shown_def y add.assoc)
qed

lemma plain_luma_kernel:
  assumes "context_ok c" "is_plain_luma c" "fc_width c * fc_height c \<le> usize_max" "length out = fc_width c * fc_height c"
  defines "p \<equiv> fc_planes c ! 0" and "b \<equiv> pack_bias_new (or_scaled (fc_request c))"
  shows "let_try (crop_start (or_crop (fc_request c)) p) (\<lambda>start.
      let_try (pack_u8_into (cp_samples p) (cp_stride p) start (fc_width c, fc_height c) (or_scaled (fc_request c)) out) k) =
    (if fold max (luma_samples c) i32_min \<le> i32_max - pb_addition b
     then k (map (pack_byte b) (luma_samples c)) else Err (OutputOverflow ''adding output bias''))"
proof -
  let ?crop = "or_crop (fc_request c)"
  let ?start = "(crop_x ?crop - cp_origin_x p, crop_y ?crop - cp_origin_y p)"
  have fits: "plane_fits ?crop p" using plain_luma_facts [OF assms(1,2)] by (auto simp: p_def)
  note size = context_okD(6,7) [OF assms(1)]
  have start: "crop_start ?crop p = (Ok ?start :: (output_error, _) result)"
    using fits by (simp add: crop_start_def plane_fits_def)
  have row: "(snd ?start + y) * cp_stride p + fst ?start + fc_width c \<le> length (cp_samples p)" if "y < fc_height c" for y
    using row_in_plane [OF fits, of "crop_y ?crop + y"] that size fits by (simp add: plane_fits_def)
  have rows: "map (window_row (cp_samples p) (cp_stride p) ?start (fc_width c)) [0..<fc_height c] =
      map (\<lambda>y. map (\<lambda>x. shown p (crop_x ?crop + x, crop_y ?crop + y)) [0..<fc_width c]) [0..<fc_height c]"
    using window_row_shown [OF fits] size by (intro map_cong) simp_all
  have "concat (map (window_row (cp_samples p) (cp_stride p) ?start (fc_width c)) [0..<fc_height c]) = luma_samples c"
    unfolding rows by (simp add: luma_samples_def crop_pixels_rows map_concat p_def o_def)
  then have scalar: "pack_scalar (cp_samples p) (cp_stride p) ?start (fc_width c, fc_height c) b out =
      (Ok (map (pack_byte b) (luma_samples c), fold max (luma_samples c) i32_min) :: (output_error, _) result)"
    using pack_scalar_rows [of "fc_height c" ?start "cp_stride p" "fc_width c" "cp_samples p" out b] row assms(4)
    by (simp add: pack_scalar_def mult.commute)
  have small: "length (cp_samples p) \<le> usize_max" using fits by (simp add: plane_fits_def)
  have "(if 0 < fc_height c then
      let last_row_end = (snd ?start + (fc_height c - 1)) * cp_stride p + fst ?start + fc_width c in
      let_try (require_output (last_row_end \<le> usize_max) (OutputOverflow ''calculating SIMD input row'')) (\<lambda>_.
      require_output (last_row_end \<le> length (cp_samples p)) (InvalidPlane None ''SIMD input row exceeds component plane''))
      else Ok ()) = Ok ()"
  proof (cases "0 < fc_height c")
    case True
    then have "(snd ?start + (fc_height c - 1)) * cp_stride p + fst ?start + fc_width c \<le> length (cp_samples p)"
      by (intro row) simp
    then show ?thesis using small True by (simp add: require_output_def Let_def)
  qed simp
  then show ?thesis
    using assms(3,4) scalar unfolding start let_try_simps pack_u8_into_def fst_conv snd_conv
    by (simp add: Let_def require_output_def b_def)
qed

lemma map_try_fails:
  assumes "\<And>x. x \<in> set xs \<Longrightarrow> f x \<noteq> Panic" "x \<in> set xs" "f x = Err e"
  shows "\<exists>e. map_try f xs = Err e"
  using assms
proof (induction xs)
  case (Cons y ys)
  have "map_try f ys \<noteq> Panic" using yields_map_try [of ys f "\<lambda>_. True"] Cons.prems(1) by (auto intro: yieldsI dest: yieldsD)
  then show ?case using Cons by (cases "f y"; cases "map_try f ys") auto
qed simp

lemma expect_byte: "expect_word (clamp_sample v 0 255) = (Ok (word_of_int (max 0 (min v 255))) :: ('e, u8) result)"
  by (simp add: expect_word_def clamp_sample_def)

lemma luma_value:
  assumes "context_ok c" "is_plain_luma c" "in_i32 v"
  defines "b \<equiv> pack_bias_new (or_scaled (fc_request c))"
  shows "v \<le> i32_max - pb_addition b \<Longrightarrow> word_value 255 c v 0 False = Ok (pack_byte b v)"
    "\<not> v \<le> i32_max - pb_addition b \<Longrightarrow> \<exists>e. (word_value 255 c v 0 False :: (output_error, u8) result) = Err e"
proof -
  have depth: "or_depth (fc_request c) = DepthU8" using plain_luma_facts [OF assms(1,2)] by blast
  have scale: "channel_scale_at c 0 False = (if or_scaled (fc_request c) then ScaleInteger 1024 3 3 None else ScaleInteger 128 0 0 None)"
    using assms(2) depth
    by (simp add: channel_scale_at_def is_plain_luma_def is_padding_def resolve_scale_def output_bias_def checked_shift_left_def
        i32_checked_shl_def signed_take_bit_int_eq_self push_bit_eq_mult sar_div)
  have range: "- 2147483648 \<le> v" "v \<le> 2147483647" using assms(3) by (simp_all add: in_i32_def)
  show "word_value 255 c v 0 False = Ok (pack_byte b v)" if le: "v \<le> i32_max - pb_addition b"
  proof (cases "or_scaled (fc_request c)")
    case True
    then have v: "v + 1024 \<le> i32_max" "v + 1027 \<le> i32_max" using le by (simp_all add: b_def pack_bias_new_def)
    show ?thesis using True v range
      by (simp add: expect_byte add.commute word_value_def scales_apply_of scale checked_add_def i32_checked_add_def in_i32_def b_def pack_bias_new_def
          pack_byte_def)
  next
    case False
    then have v: "v + 128 \<le> i32_max" using le by (simp add: b_def pack_bias_new_def)
    show ?thesis using False v range
      by (simp add: expect_byte word_value_def scales_apply_of scale checked_add_def i32_checked_add_def in_i32_def b_def pack_bias_new_def
          pack_byte_def sar_div)
  qed
  show "\<exists>e. (word_value 255 c v 0 False :: (output_error, u8) result) = Err e" if "\<not> v \<le> i32_max - pb_addition b"
    using that range
    by (cases "or_scaled (fc_request c)")
      (auto simp: word_value_def scales_apply_of scale b_def pack_bias_new_def checked_add_def i32_checked_add_def in_i32_def)
qed

text \<open>The slices of the planes are slices of \<open>i32\<close> in memory.\<close>

definition slices_ok :: "component_plane list \<Rightarrow> component_plane option \<Rightarrow> bool" where
  "slices_ok planes a \<longleftrightarrow>
     (\<forall>p\<in>set planes \<union> set_option a. length (cp_samples p) \<le> usize_max \<and> (\<forall>v\<in>set (cp_samples p). in_i32 v))"

lemma shown_mem: "plane_fits crop p \<Longrightarrow> in_crop crop q \<Longrightarrow> shown p q \<in> set (cp_samples p)"
  using plane_sample_shown [of crop p "fst q" "snd q"]
  by (auto simp: plane_sample_def index_or_panic_def split: if_splits) (metis nth_mem)

lemma luma_in_i32:
  assumes "context_ok c" "is_plain_luma c" "slices_ok (fc_planes c) (fc_alpha c)" "v \<in> set (luma_samples c)"
  shows "in_i32 v"
proof -
  obtain p where p: "fc_planes c = [p]" "plane_fits (or_crop (fc_request c)) p" using plain_luma_facts [OF assms(1,2)] by blast
  obtain q where "q \<in> set (crop_pixels c)" "v = shown p q" using assms(4) p(1) by (auto simp: luma_samples_def)
  then have "v \<in> set (cp_samples p)" using shown_mem [OF p(2) crop_pixels_in [OF assms(1)]] by simp
  then show ?thesis using assms(3) p(1) by (simp add: slices_ok_def)
qed

lemma luma_pixel_value:
  assumes "context_ok c" "is_plain_luma c" "p \<in> set (crop_pixels c)"
  shows "pixel_values c f p = let_try (f (shown (fc_planes c ! 0) p) 0 False) (\<lambda>w. Ok [w])"
proof -
  obtain q where q: "fc_planes c = [q]" using plain_luma_facts [OF assms(1,2)] by blast
  have "color_components_at c (fst p) (snd p) (color_shape_of c) = Ok [shown q p, 0, 0, 0]"
    using color_components_shown [OF assms(1), of "fst p" "snd p" "color_shape_of c"] assms(2,3) q
    by (simp add: color_shape_of_def is_direct_def is_plain_luma_def gathered_def)
  then show ?thesis using assms(2) q
    by (simp add: pixel_values_def pixel_visits_def is_plain_luma_def ordered_components_at_def pixel_shape_of_def Let_def)
qed

lemma plain_luma_checked:
  assumes "context_ok c" "is_plain_luma c" "slices_ok (fc_planes c) (fc_alpha c)"
  defines "b \<equiv> pack_bias_new (or_scaled (fc_request c))"
  shows "fold max (luma_samples c) i32_min \<le> i32_max - pb_addition b \<Longrightarrow>
      pack_ordered c (word_value 255 c) = Ok (map (pack_byte b) (luma_samples c))"
    "\<not> fold max (luma_samples c) i32_min \<le> i32_max - pb_addition b \<Longrightarrow>
      \<exists>e. (pack_ordered c (word_value 255 c) :: (output_error, u8 list) result) = Err e"
proof -
  let ?p = "fc_planes c ! 0"
  have low: "i32_min \<le> i32_max - pb_addition b" by (simp add: b_def pack_bias_new_def)
  have i32: "in_i32 (shown ?p q)" if "q \<in> set (crop_pixels c)" for q
    using luma_in_i32 [OF assms(1-3)] that by (auto simp: luma_samples_def)
  note good = luma_value(1) [OF assms(1,2) i32, folded b_def] and bad = luma_value(2) [OF assms(1,2) i32, folded b_def]
  show "pack_ordered c (word_value 255 c) = Ok (map (pack_byte b) (luma_samples c))"
    if "fold max (luma_samples c) i32_min \<le> i32_max - pb_addition b"
  proof -
    have "pixel_values c (word_value 255 c) q = Ok [pack_byte b (shown ?p q)]" if q: "q \<in> set (crop_pixels c)" for q
      using good [OF q] that \<open>fold max _ _ \<le> _\<close>
      by (simp add: luma_pixel_value [OF assms(1,2) q] fold_max_le luma_samples_def)
    then have "map_try (pixel_values c (word_value 255 c)) (crop_pixels c) = Ok (map (\<lambda>q. [pack_byte b (shown ?p q)]) (crop_pixels c))"
      by (rule map_try_pure)
    moreover have "concat (map (\<lambda>q. [g q]) qs) = map g qs" for g :: "nat \<times> nat \<Rightarrow> u8" and qs by (induction qs) simp_all
    ultimately show ?thesis by (simp add: pack_ordered_values [OF assms(1)] luma_samples_def)
  qed
  show "\<exists>e. (pack_ordered c (word_value 255 c) :: (output_error, u8 list) result) = Err e"
    if "\<not> fold max (luma_samples c) i32_min \<le> i32_max - pb_addition b"
  proof -
    have "\<not> (\<forall>v\<in>set (luma_samples c). v \<le> i32_max - pb_addition b)" using that low unfolding fold_max_le by blast
    then obtain q where q: "q \<in> set (crop_pixels c)" "\<not> shown ?p q \<le> i32_max - pb_addition b"
      unfolding luma_samples_def set_map by blast
    obtain e where e: "pixel_values c (word_value 255 c) q = (Err e :: (output_error, u8 list) result)"
      using bad [OF q] by (auto simp: luma_pixel_value [OF assms(1,2) q(1)])
    have "word_value 255 c v 0 False \<noteq> (Panic :: (output_error, u8) result)" for v
      by (rule yieldsD(1) [OF word_value_yields]) simp_all
    then have "pixel_values c (word_value 255 c) x \<noteq> (Panic :: (output_error, u8 list) result)" if "x \<in> set (crop_pixels c)" for x
      by (simp add: luma_pixel_value [OF assms(1,2) that] let_try_eq_Panic)
    from map_try_fails [where f = "pixel_values c (word_value 255 c)" and xs = "crop_pixels c", OF this q(1) e] show ?thesis by (auto simp: pack_ordered_values [OF assms(1)])
  qed
qed

lemma pack_u8_luma:
  assumes "context_ok c" "is_plain_luma c" "fc_width c * fc_height c \<le> usize_max"
  defines "b \<equiv> pack_bias_new (or_scaled (fc_request c))"
  shows "pack_u8 c n = (if fold max (luma_samples c) i32_min \<le> i32_max - pb_addition b
     then Ok (SamplesU8 (map (pack_byte b) (luma_samples c))) else Err (OutputOverflow ''adding output bias''))"
proof -
  let ?out = "replicate (fc_width c * fc_height c) (0 :: u8)"
  obtain p where p: "fc_planes c = [p]" using plain_luma_facts [OF assms(1,2)] by blast
  have "append_u8 (cp_samples p) (cp_stride p) start (fc_width c, fc_height c) (or_scaled (fc_request c)) [] =
      let_try (pack_u8_into (cp_samples p) (cp_stride p) start (fc_width c, fc_height c) (or_scaled (fc_request c)) ?out)
        (\<lambda>packed. Ok ([] @ packed))" for start
    using assms(3) by (simp add: append_u8_def require_output_def Let_def)
  then have "pack_u8 c n = let_try (crop_start (or_crop (fc_request c)) (fc_planes c ! 0)) (\<lambda>start.
      let_try (pack_u8_into (cp_samples (fc_planes c ! 0)) (cp_stride (fc_planes c ! 0)) start (fc_width c, fc_height c)
        (or_scaled (fc_request c)) ?out) (\<lambda>out. Ok (SamplesU8 out)))"
    using assms(2) p by (simp add: pack_u8_def index_or_panic_def let_try_assoc)
  then show ?thesis using plain_luma_kernel [OF assms(1-3), of ?out "\<lambda>out. Ok (SamplesU8 out)"] by (simp add: b_def)
qed

text \<open>
  C11: the fast paths are exact. For every validated request, packing into sixteen-bit and into eight-bit
  samples through the interleaved kernels, with their wrapping arithmetic and their check of the
  magnitudes after the fact, gives exactly what the checked conversion of one sample after another gives,
  errors included. The eight-bit luma kernel gives the same bytes, and fails for the same samples.
\<close>

theorem packing_fast_paths_exact:
  assumes "context_ok c" "slices_ok (fc_planes c) (fc_alpha c)" "fc_width c * fc_height c \<le> usize_max"
  shows "(or_pixels (fc_request c) = PixelU16 l \<longrightarrow>
      pack_u16 c n = let_try (pack_ordered c (word_value (u16_maximum c) c)) (\<lambda>out. Ok (SamplesU16 out))) \<and>
    (or_pixels (fc_request c) = PixelU8 l \<longrightarrow>
      (\<not> is_plain_luma c \<longrightarrow> pack_u8 c n = let_try (pack_ordered c (word_value 255 c)) (\<lambda>out. Ok (SamplesU8 out))) \<and>
      map_err (\<lambda>_. ()) (pack_u8 c n) =
        map_err (\<lambda>_. ()) (let_try (pack_ordered c (word_value 255 c)) (\<lambda>out. Ok (SamplesU8 out))))"
proof (intro conjI impI)
  show "map_err (\<lambda>_. ()) (pack_u8 c n) =
      map_err (\<lambda>_. ()) (let_try (pack_ordered c (word_value 255 c)) (\<lambda>out. Ok (SamplesU8 out)))"
    if "or_pixels (fc_request c) = PixelU8 l"
  proof (cases "is_plain_luma c")
    case True
    then show ?thesis using plain_luma_checked [OF assms(1) True assms(2)] pack_u8_luma [OF assms(1) True assms(3)] by auto
  qed (simp add: packs_checked [OF assms(1)] that)
qed (simp_all add: packs_checked [OF assms(1)])

definition sample_context :: format_context where
  "sample_context = context_of [tightly_packed 2 1 [0, 100]] None
     \<lparr>or_internal = ColorLuma, or_output = ColorRgb, or_depth = DepthU8, or_pixels = PixelU8 LayoutBgrx,
      or_scaled = False, or_alpha = None, or_not_swapped = False, or_premultiply = False,
      or_crop = \<lparr>crop_x = 0, crop_y = 0, crop_width = 2, crop_height = 1\<rparr>\<rparr> 1"

lemma sample_request_valid:
  "validate_formatting (fc_planes sample_context) (fc_alpha sample_context) (fc_request sample_context) = Ok 1"
  by (simp add: sample_context_def context_of_def validate_formatting_def validate_matrix_def validate_alpha_def
      validate_depth_storage_def validate_color_layout_def validate_conversion_def validate_normative_depth_def
      validate_primary_def validate_plane_def require_output_def index_or_panic_def tightly_packed_def is_float_depth_def
      component_count.simps Let_def)

lemma sample_context_ok: "context_ok sample_context" "slices_ok (fc_planes sample_context) (fc_alpha sample_context)"
proof -
  show "slices_ok (fc_planes sample_context) (fc_alpha sample_context)"
    by (simp add: sample_context_def context_of_def slices_ok_def tightly_packed_def in_i32_def)
  show "context_ok sample_context"
    unfolding context_ok_def
    using sample_request_valid
    by (intro exI [of _ "[tightly_packed 2 1 [0, 100]]"] exI [of _ None] exI [of _ "fc_request sample_context"] exI [of _ 1])
      (simp add: sample_context_def context_of_def tightly_packed_def)
qed

lemma sample_packed: "pack_ordered sample_context (word_value 255 sample_context) = Ok [128, 128, 128, 0, 228, 228, 228, 0 :: u8]"
  by code_simp

lemma packing_fast_paths_exact_witness: "pack_u8 sample_context 8 = Ok (SamplesU8 [128, 128, 128, 0, 228, 228, 228, 0])"
  using packing_fast_paths_exact [OF sample_context_ok, of LayoutBgrx 8] sample_packed
  by (simp add: sample_context_def context_of_def is_plain_luma_def)

section \<open>Every request\<close>











section \<open>Bits\<close>



section \<open>Formatting is total\<close>










end
