(* ===== verification/Output_Direct.thy ===== *)
theory Output_Direct
  imports Output_Paths
begin

text \<open>
  Formatting into a destination of the caller against formatting into a fresh buffer
  (\<open>output_format/packing.rs\<close>): both give the same samples, except that the direct eight-bit path multiplies
  the colours by the alpha twice.
\<close>

section \<open>Each storage type\<close>











end
