(* ===== verification/Spec2Isabelle.thy ===== *)
theory Spec2Isabelle
  imports Core_Bounds Overlap Prediction Annex_Writer Frequency_Tile Output_Direct
begin

text \<open>
  A verification library for the JPEG XR (ITU-T T.832) codec \<open>jxr\<close>, a Rust workspace. Modelled are the
  parts of its decoder that carry its logic, and its container writer: the crates \<open>jxr-math\<close> (arithmetic
  kernels), \<open>jxr-core\<close> (shared types, requests and plans) and \<open>jxr-native\<close> (parsing, entropy decoding, tile
  decoding, plan preparation and output formatting). Paths below are relative to \<open>src/crates\<close>.

  The program. A file is a bare codestream or an Annex-A container with one. \<open>parse_codestream\<close> finds the
  codestream, parses image and plane headers and the tile directory, and checks them against the container.
  \<open>image_info_of\<close> turns that into public metadata, and \<open>prepare_plan\<close>, given a request, into a plan: the
  decoded region, the packet range and output region of each tile, and the size of the coefficient arena,
  which is checked against the limits of the request. Tile decoding then reads each packet through a
  cached bit reader. The quantizer headers come first; every macroblock is an index into them, a coded block
  pattern, and the DC, low-pass and high-pass coefficients, all coded with adaptive prefix codes, scans
  and bit models whose state lives as long as the packet. In spatial mode a packet holds a whole tile, in
  frequency mode one band of it. The macroblocks are stored in the arena, next to metadata that addresses
  it. The kernels of \<open>jxr-math\<close> dequantize, predict, transform and filter the coefficients into component planes,
  and output formatting crops, converts, scales and packs these planes into the pixel format of the request.

  How the code is represented. A fallible function of the source is a function into \<open>result\<close> of theory
  Prelude: \<open>Ok\<close>, \<open>Err\<close> with the error of the source, or \<open>Panic\<close> for everything that would panic in a build
  with checks: an index or slice out of range, an overflow of plain arithmetic, a failed assertion, also a
  debug assertion, and \<open>expect\<close>, \<open>unwrap\<close> and \<open>unreachable\<close>. A function that cannot panic returns a
  sum instead. Rust's \<open>?\<close> is \<open>let_try\<close>; code that mutates a borrowed state is a function from the state to an
  outcome and the new state, and \<open>run_try\<close> sequences such functions and keeps the state that an error leaves behind.
  A borrow of a part of a state is \<open>on_part\<close> (theory Coefficients), the parts of the state of a tile are in
  Tile_State. A struct is a record and an enumeration a datatype. Signed 32-bit values are integers under
  explicit checks (\<open>in_i32\<close>) and explicit wrapping (\<open>wrap_i32\<close>); unsigned fields are naturals whose
  ranges are proved or guarded; values whose bits matter are words. \<open>usize\<close> has 64 bits. A binary32 is the word of its bits.
  Loops over ranges and slices are folds (\<open>each_try\<close>) or recursion.

  Theories and code.
  Prelude: outcomes, loops, ranges, bit lists.
  Arithmetic: \<open>jxr-math/src/arithmetic.rs\<close>, \<open>color.rs\<close>, \<open>quantization.rs\<close>, \<open>sampling.rs\<close>, \<open>alpha.rs\<close>, \<open>rgbe.rs\<close>.
  Core_Transform, Core_Bounds: \<open>transform.rs\<close>. Overlap: \<open>overlap.rs\<close>. Prediction: \<open>prediction.rs\<close>.
  Formats: \<open>jxr-core/src/format.rs\<close>, \<open>container.rs\<close>, \<open>error.rs\<close>. Request: \<open>request.rs\<close>. Plan: \<open>plan.rs\<close>.
  Bit_Source: the interface of a bit reader. Bit_Reader: \<open>jxr-native/src/bit_reader.rs\<close>. Packet_Reader: \<open>entropy/bit_reader.rs\<close>.
  Header: \<open>header/\<close>. Tile_Directory: \<open>tail.rs\<close>. Annex_A: \<open>annex_a.rs\<close>. Pixel_Format: \<open>pixel_format/table.rs\<close>.
  Codestream: \<open>codestream.rs\<close> and \<open>pixel_format.rs\<close>. Annex_Writer: \<open>annex_a/writer.rs\<close>. Image_Info: \<open>metadata.rs\<close>
  and \<open>jxr-core/src/image.rs\<close>.
  Vlc, Adaptive, Scan, Model, Refinement: the files of \<open>entropy/\<close> of these names. Coefficients, Runs, Blocks: \<open>entropy/coefficients.rs\<close>.
  Tile_Quantizer, Cbphp, High_Pass: the files of \<open>tile_decode/\<close> of these names. Tile_State: \<open>TileEntropyState\<close>.
  Tile_Output, Tile_Layout: \<open>tile_decode/output.rs\<close> and \<open>mod.rs\<close>. Spatial, Spatial_Tile: \<open>tile_decode/spatial.rs\<close>.
  Frequency, Frequency_Tile: \<open>tile_decode/frequency/\<close>. Prepare, Tile_Grid, Prepared_Plan: \<open>prepare.rs\<close>.
  Output_Scale: \<open>output_format/scaling.rs\<close>, \<open>color.rs\<close>. Output_Context: \<open>request.rs\<close>, \<open>validate.rs\<close> and the traversal of \<open>packing.rs\<close>.
  Output_Kernels: \<open>interleave.rs\<close>, \<open>simd_pack.rs\<close>. Output_Format: \<open>packing.rs\<close>, \<open>packed_color.rs\<close>, \<open>premultiply.rs\<close>.
  Output_Exact, Output_Store, Output_Paths, Output_Direct: their proofs.

  Interfaces. The locale \<open>bit_source\<close> is what the syntax parsers need of a reader: reads consume the bits of a
  list. It is interpreted by the header reader and by the cached packet reader. \<open>lossless_kernel\<close> is the contract
  of a transform: no panic, results in range, an inverse; it is interpreted by the core transform, the Hadamard and
  chroma transforms and by all overlap filters. \<open>selector\<close>, extended to \<open>adaptive_code\<close>, is an adaptive choice of
  a code table, \<open>inverse_scan\<close> an adaptive order, \<open>coefficient_sink\<close> a consumer of coefficients; the block
  decoders are verified once for every selector and sink, and each of these locales is interpreted by the code's instances.
  The state machines of the decoder (models, scans, block patterns, quantizer tables) come with inductive
  predicates of the reachable states, and the theorems about them are inductions over these.

  What is shown.
  Parsers: every input gives a value or an error and no panic; written headers, directories, quantizer headers
  and containers are read back exactly; a parsed file is described by consistent metadata or has a listed defect.
  Plans: the tiles of a plan divide the image, the tiles near the requested region are marked, packets lie inside the
  codestream at the entries of their index and do not overlap unless their entries are equal, and the arena of
  tile decoding fits the bytes that the plan budgeted.
  Entropy decoding: the cached reader is a bit list; table-driven decoders agree with bit-serial ones; adaptive states
  stay in the ranges that index the tables; scans stay permutations and place the coefficients of a block by the order at its start;
  the fused, direct and materialised decoders agree; coded block patterns and refinements are inverse to encoders.
  Tiles: whatever its packets hold, a spatial or a frequency tile decodes without a panic, and what decodes is
  complete: all macroblocks, all coefficients in range, usable steps; the metadata addresses the words that were stored.
  Kernels: core and chroma transforms and overlap filters are inverse to independently written forward steps, the core transform
  does not overflow on coefficients up to \<open>2 ^ 23\<close>, and prediction is a running sum.
  Output: colour conversion inverts independently written forward transforms; a binary32 is exact; formatting never panics, its wrapping
  kernels agree with the checked path, and a direct destination gets what a fresh buffer gets. The one exception of the last
  statement, a repeated multiplication by the alpha, is an error in the code; its witness computes an example.
  The theorem \<open>refinement_overflow_unreported\<close> of Refinement states when a low-pass refinement wraps silently.

  Bounds and fuel. Only the byte alignment at the end of a packet runs on fuel, eight turns, since it stops at a
  multiple of eight; running out is a panic in the model, and the theorems exclude it. All other recursions have a termination proof.
  The counters of the adaptive selectors and scans grow by plain additions. At every sixteenth column of a tile
  the totals of the scans are reset and the selectors adapt, which brings their counters back to at most 64; the tile
  theorems bound the growth in between (of a selector 1105 per macroblock of a spatial packet, at most 1039 in a packet of one
  band), so that no addition overflows.

  Parameters. The rectangle of the crate \<open>j2k_core\<close>, whose source is not part of the repository, is a record of its
  public fields; its functions enter as the parameters \<open>full\<close> and \<open>within\<close>, with the one law that the code relies on: a rectangle
  within dimensions ends inside them. The backend of a request is a type parameter. The product of a binary32
  sample and the clamped alpha is the parameter \<open>product\<close> of formatting; no law about it is needed.

  Not modelled. The reconstruction pipeline that runs the kernels over whole planes (\<open>reconstruct/\<close>) and its vector
  variants; the tile decoders of several components, of subsampled chroma and of integrated alpha with their dispatch,
  and the entry points that loop over tiles (their building blocks in \<open>high_pass.rs\<close> and \<open>cbphp.rs\<close> are modelled for every
  colour format); planar output; the vector path of \<open>simd_pack.rs\<close>; what a destination holds after an error;
  \<open>Display\<close> texts; the decode driver, thread pools, batching and CPU detection; the device plans and the CUDA, Metal and MPSGraph
  backends; the adapter to the image crate; test support. These are glue, platform code or alternative
  paths; the first three are program logic that this library does not reach.
\<close>

end
